(* ===== verification/Prelude.thy ===== *)
theory Prelude
  imports Main "HOL-Library.Word" "HOL-Library.Monad_Syntax"
begin

text \<open>
  Shared vocabulary of the development: the machine integers of the code, byte-addressed
  objects with an explicit fault on an access outside the object, and the list lemmas the
  components share.

  A function that can touch memory returns an option: \<open>None\<close> is an access outside the
  object (undefined behaviour in C), \<open>Some\<close> carries the result of the code, its error
  returns included.  A pointer into an object is its offset, an \<open>int\<close>, so that pointer
  arithmetic below the object's start is visible as a negative offset.
\<close>

unbundle bit_operations_syntax

type_synonym u8 = "8 word"
type_synonym u16 = "16 word"
type_synonym u32 = "32 word"
type_synonym u64 = "64 word"

text \<open>
  Signed integers are two's complement words; the signed comparisons \<open>\<le>s\<close>, \<open><s\<close>, the reading
  \<open>sint\<close> and the arithmetic shift \<open>signed_drop_bit\<close> are used where the C type is signed.
  The same 64 bits serve \<open>unsigned long\<close>, \<open>size_t\<close> and pointers' differences.
\<close>

type_synonym i32 = "32 word"
type_synonym i64 = "64 word"
type_synonym ulong = "64 word"
type_synonym mem = "u8 list"
type_synonym ptr = int

named_theorems fault_simps "evaluation of memory accesses"
named_theorems buf_simps "reading of buffer operations on the bytes they hold"
named_theorems wf_intros "preservation of well-formedness"

subsection \<open>Memory objects\<close>

definition mem_get :: "'a list \<Rightarrow> ptr \<Rightarrow> 'a option" where
  "mem_get m p = (if 0 \<le> p \<and> p < int (length m) then Some (m ! nat p) else None)"

definition mem_put :: "'a list \<Rightarrow> ptr \<Rightarrow> 'a \<Rightarrow> 'a list option" where
  "mem_put m p x = (if 0 \<le> p \<and> p < int (length m) then Some (m[nat p := x]) else None)"

text \<open>A read of \<open>n\<close> consecutive elements and a store of a run of elements
  (\<open>memcpy\<close>, \<open>memmove\<close>, \<open>memset\<close>); a run of length 0 touches nothing.\<close>

definition mem_load :: "'a list \<Rightarrow> ptr \<Rightarrow> nat \<Rightarrow> 'a list option" where
  "mem_load m p n =
     (if n = 0 then Some []
      else if 0 \<le> p \<and> p + int n \<le> int (length m) then Some (take n (drop (nat p) m))
      else None)"

definition mem_store :: "'a list \<Rightarrow> ptr \<Rightarrow> 'a list \<Rightarrow> 'a list option" where
  "mem_store m p xs =
     (if xs = [] then Some m
      else if 0 \<le> p \<and> p + int (length xs) \<le> int (length m)
      then Some (take (nat p) m @ xs @ drop (nat p + length xs) m)
      else None)"

lemma mem_get_Some [fault_simps]: "i < length m \<Longrightarrow> mem_get m (int i) = Some (m ! i)"
  by (simp add: mem_get_def)

lemma mem_put_Some [fault_simps]: "i < length m \<Longrightarrow> mem_put m (int i) x = Some (m[i := x])"
  by (simp add: mem_put_def)

lemma mem_load_Some [fault_simps]:
  "i + n \<le> length m \<Longrightarrow> mem_load m (int i) n = Some (take n (drop i m))"
  by (simp add: mem_load_def)

lemma mem_store_Some [fault_simps]:
  "i + length xs \<le> length m \<Longrightarrow>
     mem_store m (int i) xs = Some (take i m @ xs @ drop (i + length xs) m)"
  by (simp add: mem_store_def)

lemma mem_put_store: "mem_put m p x = mem_store m p [x]"
  by (auto simp: mem_put_def mem_store_def upd_conv_take_nth_drop)

lemma mem_store_length: "mem_store m p xs = Some m' \<Longrightarrow> length m' = length m"
  by (auto simp: mem_store_def split: if_splits)

lemma mem_put_length: "mem_put m p x = Some m' \<Longrightarrow> length m' = length m"
  by (auto simp: mem_put_def split: if_splits)

lemma mem_load_length: "mem_load m p n = Some xs \<Longrightarrow> length xs = n"
  by (auto simp: mem_load_def split: if_splits)

subsection \<open>Slices of lists\<close>

definition seg :: "nat \<Rightarrow> nat \<Rightarrow> 'a list \<Rightarrow> 'a list" where
  "seg i j xs = take (j - i) (drop i xs)"

lemma seg_empty [simp]: "j \<le> i \<Longrightarrow> seg i j xs = []"
  by (simp add: seg_def)

lemma length_seg [simp]: "j \<le> length xs \<Longrightarrow> length (seg i j xs) = j - i"
  by (simp add: seg_def)

lemma seg_Cons: "i < j \<Longrightarrow> j \<le> length xs \<Longrightarrow> seg i j xs = xs ! i # seg (Suc i) j xs"
  by (simp add: seg_def Cons_nth_drop_Suc [symmetric] Suc_diff_Suc take_Cons')

lemma seg_nth: "k < j - i \<Longrightarrow> j \<le> length xs \<Longrightarrow> seg i j xs ! k = xs ! (i + k)"
  by (simp add: seg_def)

lemma drop_seg: "drop n (seg i j xs) = seg (i + n) j xs"
  by (simp add: seg_def drop_take add.commute)

lemma take_seg: "i + n \<le> j \<Longrightarrow> take n (seg i j xs) = seg i (i + n) xs"
  by (simp add: seg_def min_def)

lemma seg_append: "i \<le> j \<Longrightarrow> j \<le> k \<Longrightarrow> seg i j xs @ seg j k xs = seg i k xs"
proof -
  assume a: "i \<le> j" "j \<le> k"
  have "seg i k xs = take (j - i + (k - j)) (drop i xs)" using a by (simp add: seg_def)
  also have "\<dots> = seg i j xs @ take (k - j) (drop (j - i) (drop i xs))"
    by (simp add: take_add seg_def)
  finally show ?thesis using a by (simp add: seg_def)
qed

lemma seg_full [simp]: "seg 0 (length xs) xs = xs"
  by (simp add: seg_def)

lemma seg_store:
  "i + length xs \<le> length m \<Longrightarrow> seg i (i + length xs) (take i m @ xs @ drop (i + length xs) m) = xs"
  by (simp add: seg_def)

lemma seg_store_before:
  "j \<le> i \<Longrightarrow> i \<le> length m \<Longrightarrow> seg k j (take i m @ xs) = seg k j m"
  by (cases "k \<le> j") (auto simp: seg_def min_def drop_take)

subsection \<open>Word arithmetic that does not wrap\<close>

lemma unat_add_le: "unat (a :: 'a::len word) + unat b < 2 ^ LENGTH('a) \<Longrightarrow> unat (a + b) = unat a + unat b"
  by (simp add: unat_word_ariths)

lemma unat_sub_le: "unat (b :: 'a::len word) \<le> unat a \<Longrightarrow> unat (a - b) = unat a - unat b"
  by (simp add: unat_sub word_le_nat_alt)

lemma unat_less_power: "unat (w :: 'a::len word) < 2 ^ LENGTH('a)"
  by (rule unsigned_less)

lemma unat_eq_zero_iff: "unat (w :: 'a::len word) = 0 \<longleftrightarrow> w = 0"
  by (simp add: unat_eq_0)

lemma unat_plus_1:
  assumes "unat (a :: 'a::len word) < unat (b :: 'a word)"
  shows "unat (a + 1) = Suc (unat a)"
proof -
  have "Suc (unat a) < 2 ^ LENGTH('a)"
    using Suc_leI [OF assms] unat_less_power [of b] by (rule le_less_trans)
  then show ?thesis by (subst unat_add_le) simp_all
qed

lemma unat_plus_of_nat:
  assumes "unat (a :: 'a::len word) + n \<le> unat (b :: 'a word)"
  shows "unat (a + of_nat n) = unat a + n"
proof -
  have lt: "unat a + n < 2 ^ LENGTH('a)" using assms unat_less_power [of b] by (rule le_less_trans)
  have "n < 2 ^ LENGTH('a)" by (rule le_less_trans [OF _ lt]) simp
  then have "unat (of_nat n :: 'a word) = n" by (rule of_nat_inverse [OF refl])
  with lt show ?thesis by (subst unat_add_le) simp_all
qed

subsection \<open>Overwriting a run of an array\<close>

definition splice :: "'a list \<Rightarrow> nat \<Rightarrow> 'a list \<Rightarrow> 'a list" where
  "splice m i xs = take i m @ xs @ drop (i + length xs) m"

lemma splice_Nil [simp]: "splice m i [] = m"
  by (simp add: splice_def)

lemma length_splice [simp]: "i + length xs \<le> length m \<Longrightarrow> length (splice m i xs) = length m"
  by (simp add: splice_def)

lemma mem_store_splice [fault_simps]:
  "i + length xs \<le> length m \<Longrightarrow> mem_store m (int i) xs = Some (splice m i xs)"
  by (simp add: mem_store_Some splice_def)

lemma mem_put_splice [fault_simps]:
  "i < length m \<Longrightarrow> mem_put m (int i) x = Some (splice m i [x])"
  by (simp add: mem_put_store mem_store_splice)

lemma splice_splice_before:
  "i + length xs = j \<Longrightarrow> j + length ys \<le> length m \<Longrightarrow>
     splice (splice m j ys) i xs = splice m i (xs @ ys)"
  by (cases "i = length m") (auto simp: splice_def min_def ac_simps)

lemma splice_splice_after:
  "i + length xs = j \<Longrightarrow> j + length ys \<le> length m \<Longrightarrow>
     splice (splice m i xs) j ys = splice m i (xs @ ys)"
  by (cases "i = length m") (auto simp: splice_def min_def ac_simps)

lemma splice_same:
  "length xs = length ys \<Longrightarrow> i + length ys \<le> length m \<Longrightarrow> splice (splice m i xs) i ys = splice m i ys"
  by (cases "i = length m") (auto simp: splice_def min_def ac_simps)

lemma splice_nth: "k < length xs \<Longrightarrow> i + length xs \<le> length m \<Longrightarrow> splice m i xs ! (i + k) = xs ! k"
  by (simp add: splice_def nth_append)

lemma seg_splice: "i + length xs \<le> length m \<Longrightarrow> seg i (i + length xs) (splice m i xs) = xs"
  by (simp add: splice_def seg_store)

lemma splice_append_outside:
  "splice (ps @ ms @ qs) (length ps + i) xs = ps @ splice ms i xs @ qs" if "i + length xs \<le> length ms"
  using that by (simp add: splice_def)

lemma mem_get_mid: "p = int (length as) \<Longrightarrow> mem_get (as @ x # bs) p = Some x"
  by (simp add: mem_get_def nth_append)

lemma mem_put_mid: "p = int (length as) \<Longrightarrow> mem_put (as @ x # bs) p y = Some (as @ y # bs)"
  by (simp add: mem_put_def list_update_append)

subsection \<open>C strings\<close>

text \<open>\<open>strlen\<close> of the string at the start of an array; \<open>None\<close> when no NUL ends it.\<close>

fun c_strlen :: "mem \<Rightarrow> nat option" where
  "c_strlen [] = None"
| "c_strlen (c # cs) = (if c = 0 then Some 0 else map_option Suc (c_strlen cs))"

definition chars :: "string \<Rightarrow> u8 list" where
  "chars s = map of_char s"

definition c_str :: "mem \<Rightarrow> u8 list" where
  "c_str m = takeWhile (\<lambda>c. c \<noteq> 0) m"

lemma c_strlen_append [simp]:
  "0 \<notin> set s \<Longrightarrow> c_strlen (s @ 0 # m) = Some (length s)"
  by (induction s) auto

lemma c_str_append [simp]: "0 \<notin> set s \<Longrightarrow> c_str (s @ 0 # m) = s"
  unfolding c_str_def by (induction s) auto

lemma c_strlen_Some_iff:
  "c_strlen m = Some n \<longleftrightarrow> n < length m \<and> m ! n = 0 \<and> 0 \<notin> set (take n m)"
proof (induction m arbitrary: n)
  case (Cons c m)
  then show ?case by (cases n) auto
qed simp

lemma c_strlen_length: "c_strlen m = Some n \<Longrightarrow> length (c_str m) = n \<and> take n m = c_str m"
  unfolding c_str_def by (induction m arbitrary: n) (auto split: if_splits)

lemma c_strlen_less: "c_strlen m = Some n \<Longrightarrow> n < length m"
  by (simp add: c_strlen_Some_iff)

text \<open>\<open>!strncmp(a, b, n)\<close>: reading stops at the first difference and at a NUL.\<close>

fun c_strn_equal :: "u8 list \<Rightarrow> u8 list \<Rightarrow> nat \<Rightarrow> bool option" where
  "c_strn_equal xs ys 0 = Some True"
| "c_strn_equal (x # xs) (y # ys) (Suc n) =
     (if x \<noteq> y then Some False else if x = 0 then Some True else c_strn_equal xs ys n)"
| "c_strn_equal xs ys (Suc n) = None"

subsection \<open>Runs\<close>

lemma case_sum_Some:
  "(case r of Inl e \<Rightarrow> f e | Inr x \<Rightarrow> g x) = Some y \<longleftrightarrow> (\<exists>e. r = Inl e \<and> f e = Some y) \<or> (\<exists>x. r = Inr x \<and> g x = Some y)"
  by (cases r) auto

lemma if_Some:
  "(if c then f else g) = Some y \<longleftrightarrow> c \<and> f = Some y \<or> \<not> c \<and> g = Some y"
  by simp

lemma case_option_Some:
  "(case x of None \<Rightarrow> f | Some a \<Rightarrow> g a) = Some y \<longleftrightarrow> x = None \<and> f = Some y \<or> (\<exists>a. x = Some a \<and> g a = Some y)"
  by (cases x) auto

text \<open>Inversion of a run that has a result.\<close>

lemmas run_simps = bind_eq_Some_conv case_sum_Some case_option_Some if_Some Let_def split_paired_Ex

end
