(* ===== verification/Itoa.thy ===== *)
theory Itoa
  imports Prelude
begin

text \<open>
  lib/itoa.c and the integer printers of lib/stringencoders/modp_numtoa.c: decimal printing
  into a byte array at a pointer.  Every function takes the array \<open>m\<close> and the offset \<open>s\<close> of
  its output pointer and answers the new array and the number of bytes written; a store
  outside the array is \<open>None\<close>.  The reference is \<open>dec_digits\<close>, the usual decimal numeral.
\<close>

subsection \<open>Reference: decimal numerals\<close>

fun dec_digits :: "nat \<Rightarrow> u8 list" where
  "dec_digits n = (if n < 10 then [of_nat (48 + n)] else dec_digits (n div 10) @ [of_nat (48 + n mod 10)])"

declare dec_digits.simps [simp del]

definition dec_int :: "int \<Rightarrow> u8 list" where
  "dec_int i = (if i < 0 then 45 # dec_digits (nat (- i)) else dec_digits (nat i))"

subsection \<open>lib/itoa.c\<close>

definition itoa_tab :: "u8 list" where
  "itoa_tab = map of_char (
     ''0001020304050607080910111213141516171819'' @
     ''2021222324252627282930313233343536373839'' @
     ''4041424344454647484950515253545556575859'' @
     ''6061626364656667686970717273747576777879'' @
     ''8081828384858687888990919293949596979899'' @ [CHR 0x00])"

definition uilog_10 :: "u32 \<Rightarrow> u32" where
  "uilog_10 n =
     (if n \<le> 9 then 1
      else if n \<le> 99 then 2
      else if n \<le> 999 then 3
      else if n \<le> 9999 then 4
      else if n \<le> 99999 then 5
      else if n \<le> 999999 then 6
      else if n \<le> 9999999 then 7
      else if n \<le> 99999999 then 8
      else if n \<le> 999999999 then 9
      else 10)"

lemma unat_div_less: "(100 :: 'a::len word) \<le> n \<Longrightarrow> unat (100 :: 'a word) = 100 \<Longrightarrow> unat (n div 100) < unat n"
  by (simp add: unat_div word_le_nat_alt)

text \<open>The loop of \<open>uitoa_general\<close>: two digits at a time, backwards from \<open>p\<close>.\<close>

function uitoa_loop :: "u32 \<Rightarrow> mem \<Rightarrow> ptr \<Rightarrow> (u32 \<times> mem \<times> ptr) option" where
  "uitoa_loop n m p =
     (if n \<ge> 100 then do {
        src \<leftarrow> mem_load itoa_tab (2 * uint (n mod 100)) 2;
        m \<leftarrow> mem_store m (p - 2) src;
        uitoa_loop (n div 100) m (p - 2) }
      else Some (n, m, p))"
  by pat_completeness auto
termination
  by (relation "measure (\<lambda>(n, m, p). unat n)") (auto simp: unat_div_less)

declare uitoa_loop.simps [simp del]

definition uitoa_general :: "u32 \<Rightarrow> mem \<Rightarrow> ptr \<Rightarrow> (mem \<times> i32) option" where
  "uitoa_general n m s =
     (let log = uilog_10 n in do {
        (n, m, p) \<leftarrow> uitoa_loop n m (s + uint log);
        src \<leftarrow> Some ((uint n + 1) * 2 - 1);
        p \<leftarrow> Some (p - 1);
        (m, p, src) \<leftarrow>
          (if 9 < n then do {
             c \<leftarrow> mem_get itoa_tab src;
             m \<leftarrow> mem_put m p c;
             Some (m, p - 1, src - 1) }
           else Some (m, p, src));
        c \<leftarrow> mem_get itoa_tab src;
        m \<leftarrow> mem_put m p c;
        Some (m, log) })"

definition uitoa :: "u32 \<Rightarrow> mem \<Rightarrow> ptr \<Rightarrow> (mem \<times> i32) option" where
  "uitoa n m s =
     (let src = 2 * uint n in
      if 10 \<le> n \<and> n \<le> 99 then do {
        c0 \<leftarrow> mem_get itoa_tab src;
        m \<leftarrow> mem_put m s c0;
        c1 \<leftarrow> mem_get itoa_tab (src + 1);
        m \<leftarrow> mem_put m (s + 1) c1;
        Some (m, 2) }
      else if n \<le> 9 then do {
        c1 \<leftarrow> mem_get itoa_tab (src + 1);
        m \<leftarrow> mem_put m s c1;
        Some (m, 1) }
      else uitoa_general n m s)"

definition itoa :: "i32 \<Rightarrow> mem \<Rightarrow> ptr \<Rightarrow> (mem \<times> i32) option" where
  "itoa n m s =
     (if n <s 0 then do {
        m \<leftarrow> mem_put m s 45;
        (m, len) \<leftarrow> uitoa (- n) m (s + 1);
        Some (m, len + 1) }
      else uitoa n m s)"

text \<open>\<open>sprintf(s, "%" PRId64, n)\<close> of the C library, with its terminating NUL.\<close>

definition sprintf_PRId64 :: "i64 \<Rightarrow> mem \<Rightarrow> ptr \<Rightarrow> (mem \<times> i32) option" where
  "sprintf_PRId64 n m s = do {
     m \<leftarrow> mem_store m s (dec_int (sint n) @ [0]);
     Some (m, of_nat (length (dec_int (sint n)))) }"

definition i64toa :: "i64 \<Rightarrow> mem \<Rightarrow> ptr \<Rightarrow> (mem \<times> i32) option" where
  "i64toa n m s =
     (if 2147483647 <s n \<or> n <s - 2147483648 then sprintf_PRId64 n m s
      else itoa (ucast n) m s)"

definition checksumtoa :: "i32 \<Rightarrow> mem \<Rightarrow> ptr \<Rightarrow> (mem \<times> i32) option" where
  "checksumtoa n m s =
     (if 0 \<le>s n \<and> n \<le>s 99 then do {
        m \<leftarrow> mem_put m s 48;
        c0 \<leftarrow> mem_get itoa_tab (2 * sint n);
        m \<leftarrow> mem_put m (s + 1) c0;
        c1 \<leftarrow> mem_get itoa_tab (2 * sint n + 1);
        m \<leftarrow> mem_put m (s + 2) c1;
        Some (m, 3) }
      else uitoa_general n m s)"

text \<open>\<open>strreverse(begin, end)\<close> swaps inwards while \<open>end > begin\<close>.\<close>

function strreverse :: "mem \<Rightarrow> ptr \<Rightarrow> ptr \<Rightarrow> mem option" where
  "strreverse m b e =
     (if e > b then do {
        aux \<leftarrow> mem_get m e;
        c \<leftarrow> mem_get m b;
        m \<leftarrow> mem_put m e c;
        m \<leftarrow> mem_put m b aux;
        strreverse m (b + 1) (e - 1) }
      else Some m)"
  by pat_completeness auto
termination
  by (relation "measure (\<lambda>(m, b, e). nat (e - b))") auto

declare strreverse.simps [simp del]

lemma unat_div_10_less: "(v :: u64) div 10 \<noteq> 0 \<Longrightarrow> unat (v div 10) < unat v"
proof -
  assume "v div 10 \<noteq> 0"
  then have "v \<noteq> 0" by auto
  then have "0 < unat v" by (simp add: unat_gt_0)
  then show ?thesis by (simp add: unat_div)
qed

text \<open>The digit loop \<open>do *wstr++ = 48 + v % 10; while (v /= 10)\<close> of every modp printer.\<close>

function digit_loop :: "u64 \<Rightarrow> mem \<Rightarrow> ptr \<Rightarrow> (mem \<times> ptr) option" where
  "digit_loop v m w = do {
     m \<leftarrow> mem_put m w (48 + ucast (v mod 10));
     (if v div 10 \<noteq> 0 then digit_loop (v div 10) m (w + 1) else Some (m, w + 1)) }"
  by pat_completeness auto
termination
  by (relation "measure (\<lambda>(v, m, w). unat v)") (auto simp: unat_div_10_less)

declare digit_loop.simps [simp del]

fun zero_pad :: "nat \<Rightarrow> mem \<Rightarrow> ptr \<Rightarrow> (mem \<times> ptr) option" where
  "zero_pad 0 m w = Some (m, w)"
| "zero_pad (Suc k) m w = do { m \<leftarrow> mem_put m w 48; zero_pad k m (w + 1) }"

text \<open>\<open>zpad -= (wstr - str) + \<dots>\<close> is computed at 64 bits and narrowed to the \<open>int\<close> \<open>zpad\<close> is.\<close>

definition modp_litoa10_zpad :: "i64 \<Rightarrow> i32 \<Rightarrow> mem \<Rightarrow> ptr \<Rightarrow> (mem \<times> ulong) option" where
  "modp_litoa10_zpad value zpad m str =
     (let uvalue = (if value <s 0 then - value else value) in do {
        (m, wstr) \<leftarrow> digit_loop uvalue m str;
        let zpad = zpad - of_int ((wstr - str) + (if value <s 0 then 1 else 0));
        (m, wstr) \<leftarrow> zero_pad (nat (sint zpad)) m wstr;
        (m, wstr) \<leftarrow> (if value <s 0 then do { m \<leftarrow> mem_put m wstr 45; Some (m, wstr + 1) }
                      else Some (m, wstr));
        m \<leftarrow> strreverse m str (wstr - 1);
        Some (m, of_int (wstr - str)) })"

definition modp_litoa10 :: "i64 \<Rightarrow> mem \<Rightarrow> ptr \<Rightarrow> (mem \<times> ulong) option" where
  "modp_litoa10 value m str =
     (let uvalue = (if value <s 0 then - value else value) in do {
        (m, wstr) \<leftarrow> digit_loop uvalue m str;
        (m, wstr) \<leftarrow> (if value <s 0 then do { m \<leftarrow> mem_put m wstr 45; Some (m, wstr + 1) }
                      else Some (m, wstr));
        m \<leftarrow> mem_put m wstr 0;
        m \<leftarrow> strreverse m str (wstr - 1);
        Some (m, of_int (wstr - str)) })"

definition modp_ulitoa10 :: "u64 \<Rightarrow> mem \<Rightarrow> ptr \<Rightarrow> (mem \<times> ulong) option" where
  "modp_ulitoa10 value m str = do {
     (m, wstr) \<leftarrow> digit_loop value m str;
     m \<leftarrow> mem_put m wstr 0;
     m \<leftarrow> strreverse m str (wstr - 1);
     Some (m, of_int (wstr - str)) }"

definition modp_itoa10 :: "i32 \<Rightarrow> mem \<Rightarrow> ptr \<Rightarrow> (mem \<times> ulong) option" where
  "modp_itoa10 value m str =
     (let uvalue = (if value <s 0 then - value else value) in do {
        (m, wstr) \<leftarrow> digit_loop (ucast uvalue) m str;
        (m, wstr) \<leftarrow> (if value <s 0 then do { m \<leftarrow> mem_put m wstr 45; Some (m, wstr + 1) }
                      else Some (m, wstr));
        m \<leftarrow> mem_put m wstr 0;
        m \<leftarrow> strreverse m str (wstr - 1);
        Some (m, of_int (wstr - str)) })"

definition modp_uitoa10 :: "u32 \<Rightarrow> mem \<Rightarrow> ptr \<Rightarrow> (mem \<times> ulong) option" where
  "modp_uitoa10 value m str = do {
     (m, wstr) \<leftarrow> digit_loop (ucast value) m str;
     m \<leftarrow> mem_put m wstr 0;
     m \<leftarrow> strreverse m str (wstr - 1);
     Some (m, of_int (wstr - str)) }"

definition hexchars :: "u8 list" where
  "hexchars = map of_char ''0123456789ABCDEF''"

definition modp_uitoa16 :: "u32 \<Rightarrow> mem \<Rightarrow> ptr \<Rightarrow> bool \<Rightarrow> (mem \<times> ptr) option" where
  "modp_uitoa16 value m str isfinal = do {
     m \<leftarrow> mem_store m str
       (map (\<lambda>k. hexchars ! unat (drop_bit k value AND 0xF)) [28, 24, 20, 16, 12, 8, 4, 0]);
     (if isfinal then do { m \<leftarrow> mem_put m (str + 8) 0; Some (m, str) }
      else Some (m, str + 8)) }"

subsection \<open>Decimal numerals\<close>

lemma dec_digits_small: "n < 10 \<Longrightarrow> dec_digits n = [of_nat (48 + n)]"
  by (simp add: dec_digits.simps)

lemma dec_digits_step: "10 \<le> n \<Longrightarrow> dec_digits n = dec_digits (n div 10) @ [of_nat (48 + n mod 10)]"
  by (subst dec_digits.simps) simp

lemma dec_digits_nonempty [simp]: "dec_digits n \<noteq> []"
  by (subst dec_digits.simps) simp

lemma dec_digits_two:
  assumes "100 \<le> n"
  shows "dec_digits n = dec_digits (n div 100) @ [of_nat (48 + n mod 100 div 10), of_nat (48 + n mod 10)]"
proof -
  have "n div 10 mod 10 = n mod 100 div 10"
    using mod_mult2_eq [of n 10 10] by simp
  moreover have "n div 10 div 10 = n div 100" by (simp add: div_mult2_eq [symmetric])
  ultimately show ?thesis using assms by (simp add: dec_digits_step [of n] dec_digits_step [of "n div 10"])
qed

lemma length_dec_digits: "10 ^ k \<le> n \<Longrightarrow> n < 10 ^ Suc k \<Longrightarrow> length (dec_digits n) = Suc k"
proof (induction k arbitrary: n)
  case 0
  then show ?case by (simp add: dec_digits_small)
next
  case (Suc k)
  have "10 ^ k \<le> n div 10" "n div 10 < 10 ^ Suc k"
    using Suc.prems by (auto simp: less_mult_imp_div_less less_eq_div_iff_mult_less_eq)
  from Suc.IH [OF this] have "length (dec_digits (n div 10)) = Suc k" .
  moreover have "10 \<le> n" using Suc.prems(1) by (rule order_trans [rotated]) simp
  ultimately show ?case by (simp add: dec_digits_step)
qed

lemma unat_digit: "k < 10 \<Longrightarrow> unat (of_nat (48 + k) :: u8) = 48 + k"
  by (rule of_nat_inverse [OF refl]) simp

lemma dec_digits_are_digits: "d \<in> set (dec_digits n) \<Longrightarrow> 48 \<le> d \<and> d \<le> 57"
proof (induction n rule: dec_digits.induct)
  case (1 n)
  have r: "48 \<le> (of_nat (48 + k) :: u8) \<and> (of_nat (48 + k) :: u8) \<le> 57" if "k < 10" for k
    unfolding word_le_nat_alt unat_digit [OF that] using that by simp
  show ?case
  proof (cases "n < 10")
    case True
    with 1 r [of n] show ?thesis by (simp add: dec_digits_small)
  next
    case False
    with 1 r [of "n mod 10"] show ?thesis by (auto simp: dec_digits_step)
  qed
qed

subsection \<open>The digit table\<close>

lemma length_itoa_tab: "length itoa_tab = 201"
  by (simp add: itoa_tab_def)

lemma itoa_tab_digits:
  "itoa_tab = concat (map (\<lambda>k. [of_nat (48 + k div 10), of_nat (48 + k mod 10)]) [0..<100]) @ [0]"
  by (simp add: itoa_tab_def upt_conv_Cons)

definition pair_digits :: "nat \<Rightarrow> u8 list" where
  "pair_digits k = [of_nat (48 + k div 10), of_nat (48 + k mod 10)]"

lemma length_pair_digits [simp]: "length (pair_digits k) = 2"
  by (simp add: pair_digits_def)

lemma take_drop_pairs:
  "k < n \<Longrightarrow> take 2 (drop (2 * k) (concat (map pair_digits [0..<n]) @ zs)) = pair_digits k"
proof (induction n)
  case 0
  then show ?case by simp
next
  case (Suc n)
  have len: "length (concat (map pair_digits [0..<n])) = 2 * n"
    by (induction n) auto
  show ?case
  proof (cases "k = n")
    case True
    then show ?thesis using len by simp
  next
    case False
    with Suc have "k < n" by simp
    with Suc.IH [OF this] show ?thesis using len by simp
  qed
qed

lemma itoa_tab_pairs: "itoa_tab = concat (map pair_digits [0..<100]) @ [0]"
  unfolding itoa_tab_digits pair_digits_def ..

lemma itoa_tab_load: "k < 100 \<Longrightarrow> mem_load itoa_tab (int (2 * k)) 2 = Some (pair_digits k)"
proof -
  assume k: "k < 100"
  have "mem_load itoa_tab (int (2 * k)) 2 = Some (take 2 (drop (2 * k) itoa_tab))"
    using k by (intro mem_load_Some) (simp add: length_itoa_tab)
  then show ?thesis using k by (simp only: itoa_tab_pairs take_drop_pairs)
qed

lemma itoa_tab_get:
  assumes "k < 100"
  shows "mem_get itoa_tab (int (2 * k)) = Some (of_nat (48 + k div 10))"
    and "mem_get itoa_tab (int (2 * k + 1)) = Some (of_nat (48 + k mod 10))"
proof -
  have t: "take 2 (drop (2 * k) itoa_tab) = pair_digits k"
    using assms by (simp only: itoa_tab_pairs take_drop_pairs)
  have l: "2 * k + 1 < length itoa_tab" using assms by (simp add: length_itoa_tab)
  from arg_cong [OF t, of "\<lambda>xs. xs ! 0"] arg_cong [OF t, of "\<lambda>xs. xs ! 1"] l
  have "itoa_tab ! (2 * k) = of_nat (48 + k div 10)" "itoa_tab ! (2 * k + 1) = of_nat (48 + k mod 10)"
    by (simp_all add: pair_digits_def)
  with l show "mem_get itoa_tab (int (2 * k)) = Some (of_nat (48 + k div 10))"
    and "mem_get itoa_tab (int (2 * k + 1)) = Some (of_nat (48 + k mod 10))"
    by (simp_all only: mem_get_Some add_lessD1)
qed

subsection \<open>The fast printers write the decimal numeral\<close>

lemma uitoa_loop_spec:
  "length (dec_digits (unat n)) \<le> p \<Longrightarrow> p \<le> length m \<Longrightarrow>
     \<exists>n' ds. uitoa_loop n m (int p) = Some (n', splice m (p - length ds) ds, int (p - length ds))
       \<and> unat n' < 100 \<and> dec_digits (unat n) = dec_digits (unat n') @ ds"
proof (induction "unat n" arbitrary: n p m rule: less_induct)
  case less
  show ?case
  proof (cases "100 \<le> n")
    case False
    then have "unat n < 100" by (simp add: word_le_nat_alt)
    with False show ?thesis
      by (intro exI [of _ n] exI [of _ "[]"]) (simp add: uitoa_loop.simps [of n])
  next
    case True
    then have big: "100 \<le> unat n" by (simp add: word_le_nat_alt)
    let ?q = "n div 100" and ?ds = "pair_digits (unat n mod 100)"
    have q: "unat ?q = unat n div 100" by (simp add: unat_div)
    have r: "uint (n mod 100) = int (unat n mod 100)" by (simp add: uint_mod zmod_int)
    have D: "dec_digits (unat n) = dec_digits (unat ?q) @ ?ds"
      using dec_digits_two [OF big] by (simp add: q pair_digits_def mod_mod_cancel)
    have p2: "2 \<le> p" and len: "length (dec_digits (unat ?q)) \<le> p - 2"
      using less.prems(1) by (auto simp: D)
    let ?m = "splice m (p - 2) ?ds"
    have ml: "p - 2 \<le> length ?m" using less.prems(2) p2 by simp
    have "unat ?q < unat n" using big by (simp add: q)
    from less.hyps [OF this len ml] obtain n' ds where
      ih: "uitoa_loop ?q ?m (int (p - 2)) = Some (n', splice ?m (p - 2 - length ds) ds, int (p - 2 - length ds))"
      and n': "unat n' < 100" and D': "dec_digits (unat ?q) = dec_digits (unat n') @ ds" by blast
    have ld: "length ds \<le> p - 2" using len by (simp add: D')
    have sp: "splice ?m (p - 2 - length ds) ds = splice m (p - length (ds @ ?ds)) (ds @ ?ds)"
      using ld p2 less.prems(2) by (simp add: splice_splice_before)
    have "mem_store m (int p - 2) ?ds = Some ?m"
      using mem_store_splice [of "p - 2" ?ds m] p2 less.prems(2) by simp
    then have "uitoa_loop n m (int p) = uitoa_loop ?q ?m (int (p - 2))"
      using True p2 itoa_tab_load [of "unat n mod 100"]
      by (simp add: uitoa_loop.simps [of n] r)
    then have "uitoa_loop n m (int p)
        = Some (n', splice m (p - length (ds @ ?ds)) (ds @ ?ds), int (p - length (ds @ ?ds)))"
      using ih sp ld p2 by simp
    with n' D D' show ?thesis by auto
  qed
qed

lemma uilog_10_length: "unat (uilog_10 n) = length (dec_digits (unat n))"
proof -
  have b: "unat n < 4294967296" using unat_less_power [of n] by simp
  show ?thesis
    using b length_dec_digits [of 1 "unat n"] length_dec_digits [of 2 "unat n"]
      length_dec_digits [of 3 "unat n"] length_dec_digits [of 4 "unat n"]
      length_dec_digits [of 5 "unat n"] length_dec_digits [of 6 "unat n"]
      length_dec_digits [of 7 "unat n"] length_dec_digits [of 8 "unat n"]
      length_dec_digits [of 9 "unat n"]
    by (auto simp: uilog_10_def word_le_nat_alt dec_digits_small not_le)
qed

lemma uitoa_general_spec:
  assumes fit: "s + length (dec_digits (unat n)) \<le> length m"
  shows "uitoa_general n m (int s)
    = Some (splice m s (dec_digits (unat n)), of_nat (length (dec_digits (unat n))))"
proof -
  let ?D = "dec_digits (unat n)" and ?p = "s + length (dec_digits (unat n))"
  have log: "int s + uint (uilog_10 n) = int ?p" and log': "uilog_10 n = of_nat (length ?D)"
    by (simp_all add: uilog_10_length [symmetric] uint_nat del: of_nat_unat) simp
  from uitoa_loop_spec [of n ?p m] fit obtain n' ds where
    L: "uitoa_loop n m (int ?p) = Some (n', splice m (?p - length ds) ds, int (?p - length ds))"
    and n': "unat n' < 100" and D: "?D = dec_digits (unat n') @ ds" by auto
  let ?m = "splice m (?p - length ds) ds"
  have pd: "?p - length ds = s + length (dec_digits (unat n'))" using D by simp
  note L' = L [folded log, unfolded pd]
  have "uitoa_general n m (int s) = Some (splice m s ?D, uilog_10 n)"
  proof (cases "unat n' < 10")
    case True
    then have d1: "dec_digits (unat n') = [of_nat (48 + unat n')]" by (rule dec_digits_small)
    have g: "mem_get itoa_tab ((uint n' + 1) * 2 - 1) = Some (of_nat (48 + unat n'))"
      using itoa_tab_get(2) [of "unat n'"] True by (simp add: uint_nat algebra_simps del: of_nat_unat)
    have "\<not> 9 < n'" using True by (simp add: word_less_nat_alt)
    moreover have "mem_put ?m (int s) (of_nat (48 + unat n')) = Some (splice m s ?D)"
      using fit by (simp add: mem_put_splice pd D d1 splice_splice_before)
    ultimately show ?thesis
      using g by (simp add: uitoa_general_def Let_def L' pd d1)
  next
    case False
    then have d2: "dec_digits (unat n') = pair_digits (unat n')"
      using n' by (simp add: dec_digits_step dec_digits_small pair_digits_def)
    have g: "mem_get itoa_tab ((uint n' + 1) * 2 - 1) = Some (of_nat (48 + unat n' mod 10))"
        "mem_get itoa_tab ((uint n' + 1) * 2 - 1 - 1) = Some (of_nat (48 + unat n' div 10))"
      using itoa_tab_get [of "unat n'"] n' by (simp_all add: uint_nat algebra_simps del: of_nat_unat)
    have big: "9 < n'" using False by (simp add: word_less_nat_alt)
    have len: "s + 2 + length ds \<le> length m" using fit D d2 by simp
    have p1: "mem_put ?m (int (s + 1)) c = Some (splice m (s + 1) (c # ds))" for c
      using len by (subst mem_put_splice) (simp_all add: pd d2 splice_splice_before)
    have p2: "mem_put (splice m (s + 1) (c # ds)) (int s) c' = Some (splice m s (c' # c # ds))" for c c'
      using len by (subst mem_put_splice) (simp_all add: splice_splice_before)
    show ?thesis
      using g big p1 p2
      by (simp add: uitoa_general_def Let_def L' pd d2 D pair_digits_def)
  qed
  then show ?thesis unfolding log' .
qed

lemma uitoa_spec:
  assumes fit: "s + length (dec_digits (unat n)) \<le> length m"
  shows "uitoa n m (int s)
    = Some (splice m s (dec_digits (unat n)), of_nat (length (dec_digits (unat n))))"
proof (cases "unat n < 100")
  case False
  then have "\<not> n \<le> 99" "\<not> n \<le> 9" by (simp_all add: word_le_nat_alt)
  then show ?thesis using fit by (simp add: uitoa_def uitoa_general_spec)
next
  case True
  note g = itoa_tab_get [of "unat n", OF True]
  show ?thesis
  proof (cases "unat n < 10")
    case True
    then have "\<not> 10 \<le> n" "n \<le> 9" by (simp_all add: word_le_nat_alt)
    moreover have "dec_digits (unat n) = [of_nat (48 + unat n)]" using True by (rule dec_digits_small)
    ultimately show ?thesis using g(2) True fit by (simp add: uitoa_def Let_def add.commute mem_put_splice)
  next
    case False
    then have r: "10 \<le> n" "n \<le> 99" using True by (simp_all add: word_le_nat_alt)
    have d: "dec_digits (unat n) = pair_digits (unat n)"
      using True False by (simp add: dec_digits_step dec_digits_small pair_digits_def)
    have fit2: "s + 2 \<le> length m" using fit by (simp add: d)
    have p: "mem_put m (int s) c = Some (splice m s [c])" for c
      using fit2 by (simp add: mem_put_splice)
    have "mem_put (splice m s [c]) (int (s + 1)) c' = Some (splice m s [c, c'])" for c c'
      using fit2 by (subst mem_put_splice) (simp_all add: splice_splice_after)
    with r g p show ?thesis
      by (simp add: uitoa_def Let_def add.commute d pair_digits_def)
  qed
qed

lemma unat_uminus: "(n :: 'a::len word) <s 0 \<Longrightarrow> unat (- n) = nat (- sint n)"
proof -
  assume neg: "n <s 0"
  then have s: "sint n < 0" by (simp add: word_sless_alt)
  have lo: "- (2 ^ (LENGTH('a) - 1)) \<le> sint n" by (rule sint_ge)
  have "uint (- n) = (- uint n) mod 2 ^ LENGTH('a)" by (rule uint_word_ariths(4) [unfolded take_bit_eq_mod])
  also have "\<dots> = (- sint n) mod 2 ^ LENGTH('a)"
    by (simp add: uint_sint take_bit_eq_mod mod_minus_eq)
  also have "\<dots> = - sint n"
  proof (rule mod_pos_pos_trivial)
    show "0 \<le> - sint n" using s by simp
    have "- sint n \<le> 2 ^ (LENGTH('a) - 1)" using lo by simp
    also have "\<dots> < (2 :: int) ^ LENGTH('a)" by (rule power_strict_increasing) simp_all
    finally show "- sint n < 2 ^ LENGTH('a)" .
  qed
  finally show ?thesis by (simp add: unat_eq_nat_uint)
qed

lemma unat_nonneg: "\<not> (n :: 'a::len word) <s 0 \<Longrightarrow> unat n = nat (sint n)"
proof -
  assume "\<not> n <s 0"
  then have s: "0 \<le> sint n" by (simp add: word_sless_alt)
  have "sint n < 2 ^ (LENGTH('a) - 1)" by (rule sint_lt)
  also have "(2 :: int) ^ (LENGTH('a) - 1) < 2 ^ LENGTH('a)" by (rule power_strict_increasing) simp_all
  finally have "sint n mod 2 ^ LENGTH('a) = sint n" using s by (simp add: mod_pos_pos_trivial)
  then have "uint n = sint n" by (simp add: uint_sint take_bit_eq_mod)
  then show ?thesis by (simp add: unat_eq_nat_uint)
qed

lemma itoa_spec:
  assumes fit: "s + length (dec_int (sint n)) \<le> length m"
  shows "itoa n m (int s) = Some (splice m s (dec_int (sint n)), of_nat (length (dec_int (sint n))))"
proof (cases "n <s 0")
  case False
  then have "0 \<le> sint n" by (simp add: word_sless_alt)
  with False fit show ?thesis
    by (simp add: itoa_def uitoa_spec dec_int_def unat_nonneg)
next
  case True
  then have neg: "sint n < 0" by (simp add: word_sless_alt)
  let ?D = "dec_digits (unat (- n))"
  have D: "dec_int (sint n) = 45 # ?D" using True neg by (simp add: dec_int_def unat_uminus)
  have fit1: "s + 1 + length ?D \<le> length (splice m s [45])" using fit by (simp add: D)
  from uitoa_spec [OF fit1] True fit show ?thesis
    by (simp add: itoa_def D mem_put_splice splice_splice_after add.commute)
qed

lemma sint_ucast_32:
  assumes "\<not> 2147483647 <s (n :: i64)" "\<not> n <s - 2147483648"
  shows "sint (ucast n :: i32) = sint n"
proof -
  have b: "- 2147483648 \<le> sint n" "sint n \<le> 2147483647"
    using assms by (simp_all add: word_sless_alt)
  have "sint (ucast n :: i32) = signed_take_bit 31 (uint n)"
    using sint_sbintrunc' [of "uint n", where ?'a = 32] by simp
  also have "\<dots> = signed_take_bit 31 (sint n)" by (simp add: uint_sint signed_take_bit_take_bit)
  also have "\<dots> = sint n" using b by (simp add: signed_take_bit_int_eq_self)
  finally show ?thesis .
qed

lemma i64toa_spec:
  assumes fit: "s + length (dec_int (sint n)) < length m"
  shows "i64toa n m (int s) =
    Some (splice m s (dec_int (sint n) @ (if - 2147483648 \<le> sint n \<and> sint n \<le> 2147483647 then [] else [0])),
          of_nat (length (dec_int (sint n))))"
proof (cases "2147483647 <s n \<or> n <s - 2147483648")
  case True
  then have "(- 2147483648 \<le> sint n \<and> sint n \<le> 2147483647) = False" by (auto simp: word_sless_alt)
  with True fit show ?thesis
    by (simp only: if_False) (simp add: i64toa_def sprintf_PRId64_def mem_store_splice)
next
  case False
  then have r: "- 2147483648 \<le> sint n \<and> sint n \<le> 2147483647" by (auto simp: word_sless_alt)
  have e: "sint (ucast n :: i32) = sint n" using False by (intro sint_ucast_32) auto
  from False r fit show ?thesis
    using itoa_spec [of s "ucast n :: i32" m, unfolded e] by (simp add: i64toa_def)
qed

definition pad3_digits :: "nat \<Rightarrow> u8 list" where
  "pad3_digits k = [of_nat (48 + k div 100), of_nat (48 + k div 10 mod 10), of_nat (48 + k mod 10)]"

lemma sint_small: "\<not> (n :: 'a::len word) <s 0 \<Longrightarrow> sint n = int (unat n)"
  by (simp add: unat_nonneg word_sless_alt)

lemma checksumtoa_spec:
  assumes r: "0 \<le> sint n" "sint n < 1000" and fit: "s + 3 \<le> length m"
  shows "checksumtoa n m (int s) = Some (splice m s (pad3_digits (nat (sint n))), 3)"
proof (cases "sint n < 100")
  case True
  let ?k = "nat (sint n)"
  have k: "?k < 100" "2 * sint n = int (2 * ?k)" "2 * sint n + 1 = int (2 * ?k + 1)" using True r by auto
  have c: "0 \<le>s n" "n \<le>s 99" using True r by (simp_all add: word_sle_eq)
  note g = itoa_tab_get [OF k(1), folded k(2,3)]
  have p0: "mem_put m (int s) c = Some (splice m s [c])" for c using fit by (simp add: mem_put_splice)
  have p1: "mem_put (splice m s [c]) (int s + 1) c' = Some (splice m s [c, c'])" for c c'
    using mem_put_splice [of "s + 1" "splice m s [c]" c'] fit by (simp add: splice_splice_after add.commute)
  have p2: "mem_put (splice m s [c, c']) (int s + 2) c'' = Some (splice m s [c, c', c''])" for c c' c''
    using mem_put_splice [of "s + 2" "splice m s [c, c']" c''] fit by (simp add: splice_splice_after add.commute)
  show ?thesis
    using c g p0 p1 p2 k(1) by (simp add: checksumtoa_def pad3_digits_def)
next
  case False
  have c: "\<not> n \<le>s 99" and nn: "\<not> n <s 0" using False r by (simp_all add: word_sle_eq word_sless_alt)
  have u: "unat n = nat (sint n)" using nn by (rule unat_nonneg)
  have big: "100 \<le> unat n" "unat n < 1000" using False r by (auto simp: u)
  have d: "dec_digits (unat n) = pad3_digits (unat n)"
    using big dec_digits_two [OF big(1)] mod_mult2_eq [of "unat n" 10 10]
    by (simp add: dec_digits_small pad3_digits_def)
  have "length (dec_digits (unat n)) = 3" by (simp add: d pad3_digits_def)
  with c d fit uitoa_general_spec [of s n m] show ?thesis by (simp add: checksumtoa_def u)
qed

subsection \<open>The reversing printers\<close>

lemma strreverse_mid:
  "b = int (length as) \<Longrightarrow> e = int (length as) + int (length xs) - 1 \<Longrightarrow>
     strreverse (as @ xs @ cs) b e = Some (as @ rev xs @ cs)"
proof (induction "length xs" arbitrary: xs as cs b e rule: less_induct)
  case less
  show ?case
  proof (cases "length xs < 2")
    case True
    then have "rev xs = xs" by (cases xs) auto
    with True less.prems show ?thesis by (simp add: strreverse.simps)
  next
    case False
    then obtain x ys y where xs: "xs = x # ys @ [y]"
      by (cases xs; cases "tl xs" rule: rev_cases) auto
    have g: "mem_get (as @ xs @ cs) e = Some y" "mem_get (as @ xs @ cs) b = Some x"
      using mem_get_mid [of e "as @ x # ys" y cs] mem_get_mid [of b as x "ys @ y # cs"] less.prems
      by (simp_all add: xs)
    have p: "mem_put (as @ xs @ cs) e x = Some (as @ x # ys @ x # cs)"
        "mem_put (as @ x # ys @ x # cs) b y = Some (as @ y # ys @ x # cs)"
      using mem_put_mid [of e "as @ x # ys" y cs x] mem_put_mid [of b as x "ys @ x # cs" y] less.prems
      by (simp_all add: xs)
    have "strreverse ((as @ [y]) @ ys @ (x # cs)) (b + 1) (e - 1) = Some ((as @ [y]) @ rev ys @ (x # cs))"
      using less.prems by (intro less.hyps) (simp_all add: xs)
    moreover have "b < e" using less.prems by (simp add: xs)
    ultimately show ?thesis using g p by (simp add: strreverse.simps [of _ b e] xs)
  qed
qed

lemma strreverse_spec:
  assumes "s + length xs \<le> length m"
  shows "strreverse (splice m s xs) (int s) (int s + int (length xs) - 1) = Some (splice m s (rev xs))"
  using strreverse_mid [of "int s" "take s m" _ xs "drop (s + length xs) m"] assms
  by (simp add: splice_def)

lemma digit_loop_spec:
  "w + length (dec_digits (unat v)) \<le> length m \<Longrightarrow>
     digit_loop v m (int w) = Some (splice m w (rev (dec_digits (unat v))), int (w + length (dec_digits (unat v))))"
proof (induction "unat v" arbitrary: v m w rule: less_induct)
  case less
  have m: "unat v mod 10 = unat (v mod 10)" by (simp add: unat_mod)
  have d: "(48 :: u8) + ucast (v mod 10) = of_nat (48 + unat v mod 10)"
    unfolding m by simp
  have w: "w < length m"
    using less.prems by (cases "dec_digits (unat v)") auto
  have q: "unat (v div 10) = unat v div 10" by (simp add: unat_div)
  show ?case
  proof (cases "v div 10 = 0")
    case True
    then have "unat v < 10" using q by (simp add: div_eq_0_iff)
    with True d w show ?thesis
      by (simp add: digit_loop.simps [of v] mem_put_splice dec_digits_small)
  next
    case False
    then have big: "10 \<le> unat v" using q by (auto simp: unat_eq_zero_iff [symmetric] not_le)
    let ?m = "splice m w [of_nat (48 + unat v mod 10)]"
    have D: "dec_digits (unat v) = dec_digits (unat (v div 10)) @ [of_nat (48 + unat v mod 10)]"
      using dec_digits_step [OF big] by (simp add: q)
    have "w + 1 + length (dec_digits (unat (v div 10))) \<le> length ?m"
      using less.prems w by (simp add: D)
    from less.hyps [OF unat_div_10_less [OF False] this] False d w less.prems show ?thesis
      by (simp add: digit_loop.simps [of v] mem_put_splice D splice_splice_after add.commute)
  qed
qed

lemma zero_pad_spec:
  "w + k \<le> length m \<Longrightarrow> zero_pad k m (int w) = Some (splice m w (replicate k 48), int (w + k))"
proof (induction k arbitrary: m w)
  case 0
  then show ?case by simp
next
  case (Suc k)
  have "zero_pad k (splice m w [48]) (int (w + 1)) = Some (splice (splice m w [48]) (w + 1) (replicate k 48), int (w + 1 + k))"
    using Suc.prems by (intro Suc.IH) simp
  with Suc.prems show ?case by (simp add: mem_put_splice splice_splice_after add.commute)
qed

definition zpad_int :: "int \<Rightarrow> int \<Rightarrow> u8 list" where
  "zpad_int i zpad =
     (let ds = dec_digits (nat \<bar>i\<bar>); sign = (if i < 0 then [45] else [])
      in sign @ replicate (nat (zpad - int (length sign + length ds))) 48 @ ds)"

text \<open>The digit loop, the sign and the reversal together, with \<open>mid\<close> between digits and sign.\<close>

lemma unat_abs: "unat (if v <s 0 then - v else v) = nat \<bar>sint (v :: 'a::len word)\<bar>"
  by (auto simp: unat_uminus unat_nonneg word_sless_alt)

lemma length_dec_digits_le: "n < 10 ^ k \<Longrightarrow> 0 < k \<Longrightarrow> length (dec_digits n) \<le> k"
proof (induction k arbitrary: n)
  case (Suc k)
  show ?case
  proof (cases "n < 10")
    case False
    then have "n div 10 < 10 ^ k" "0 < k" using Suc.prems by (auto simp: less_mult_imp_div_less mult.commute intro!: Nat.gr0I)
    with Suc.IH [of "n div 10"] False show ?thesis by (simp add: dec_digits_step)
  qed (simp add: dec_digits_small)
qed simp

text \<open>Narrowing does nothing to a \<open>zpad\<close> that is not within 21 of the least \<open>int\<close>.\<close>

lemma zpad_narrow:
  assumes "- (2 ^ 31) + 21 \<le> sint (zpad :: i32)" "0 \<le> d" "d \<le> 21"
  shows "sint (zpad - of_int d) = sint zpad - d"
proof -
  have e: "zpad - of_int d = of_int (sint zpad - d)" by simp
  have "sint zpad < 2 ^ 31" using sint_lt [of zpad] by simp
  then have "signed_take_bit 31 (sint zpad - d) = sint zpad - d" using assms by (intro signed_take_bit_int_eq_self) simp_all
  then show ?thesis unfolding e by (simp only: signed_of_int) simp
qed

lemma modp_litoa10_zpad_spec:
  assumes lo: "- (2 ^ 31) + 21 \<le> sint zpad" and fit: "s + length (zpad_int (sint v) (sint zpad)) \<le> length m"
  shows "modp_litoa10_zpad v zpad m (int s)
    = Some (splice m s (zpad_int (sint v) (sint zpad)), of_nat (length (zpad_int (sint v) (sint zpad))))"
proof -
  define u where "u = (if v <s 0 then - v else v)"
  define D where "D = dec_digits (unat u)"
  define k where "k = nat (sint zpad - (int (length D) + (if v <s 0 then 1 else 0)))"
  define S where "S = (if v <s 0 then [45] else [] :: u8 list)"
  let ?Z = "replicate k (48 :: u8)"
  have Z: "zpad_int (sint v) (sint zpad) = S @ ?Z @ D"
    unfolding zpad_int_def Let_def unat_abs D_def k_def S_def u_def
    by (auto simp: word_sless_alt add.commute)
  have len: "s + length D + k + length S \<le> length m" using fit by (simp add: Z)
  have 1: "digit_loop u m (int s) = Some (splice m s (rev D), int (s + length D))"
    using len digit_loop_spec [of s u m] by (simp add: D_def)
  have 2: "zero_pad k (splice m s (rev D)) (int (s + length D))
      = Some (splice m s (rev D @ ?Z), int (s + length D + k))"
    using len zero_pad_spec [of "s + length D" k "splice m s (rev D)"]
    by (simp add: splice_splice_after)
  have 3: "(if v <s 0 then do { m \<leftarrow> mem_put (splice m s (rev D @ ?Z)) (int (s + length D + k)) 45;
                             Some (m, int (s + length D + k) + 1) }
            else Some (splice m s (rev D @ ?Z), int (s + length D + k)))
      = Some (splice m s (rev D @ ?Z @ S), int (s + length (rev D @ ?Z @ S)))"
  proof (cases "v <s 0")
    case True
    then have "mem_put (splice m s (rev D @ ?Z)) (int (s + length D + k)) 45
        = Some (splice m s (rev D @ ?Z @ S))"
      using len by (subst mem_put_splice) (simp_all add: splice_splice_after S_def)
    with True show ?thesis by (simp add: S_def)
  qed (simp add: S_def)
  have 4: "strreverse (splice m s (rev D @ ?Z @ S)) (int s) (int (s + length (rev D @ ?Z @ S)) - 1)
      = Some (splice m s (zpad_int (sint v) (sint zpad)))"
    using len strreverse_spec [of s "rev D @ ?Z @ S" m] by (simp add: Z S_def)
  have "unat u < 10 ^ 20" using unat_less_power [of u] by simp
  then have "length D \<le> 20" unfolding D_def by (intro length_dec_digits_le) simp_all
  then have n: "nat (sint (zpad - of_int (int (s + length D) - int s + (if v <s 0 then 1 else 0)))) = k"
    unfolding k_def using lo by (subst zpad_narrow) simp_all
  have l: "int (s + length (rev D @ ?Z @ S)) - int s = int (length (zpad_int (sint v) (sint zpad)))"
    by (simp add: Z)
  show ?thesis
    unfolding modp_litoa10_zpad_def Let_def u_def [symmetric] 1 Option.bind.bind_lunit prod.case n 2 3 4 l
    by simp
qed

lemma modp_ulitoa10_spec:
  assumes fit: "s + length (dec_digits (unat v)) < length m"
  shows "modp_ulitoa10 v m (int s)
    = Some (splice m s (dec_digits (unat v) @ [0]), of_nat (length (dec_digits (unat v))))"
proof -
  let ?D = "dec_digits (unat v)"
  have 1: "digit_loop v m (int s) = Some (splice m s (rev ?D), int (s + length ?D))"
    using fit by (intro digit_loop_spec) simp
  have 2: "mem_put (splice m s (rev ?D)) (int (s + length ?D)) 0 = Some (splice m s (rev ?D @ [0]))"
    using fit mem_put_splice [of "s + length ?D" "splice m s (rev ?D)" 0]
    by (simp add: splice_splice_after)
  have r: "splice m s (xs @ [0]) = splice (splice m (s + length xs) [0]) s xs"
    if "length xs = length ?D" for xs :: "u8 list"
    using fit that by (simp add: splice_splice_before)
  have 3: "strreverse (splice m s (rev ?D @ [0])) (int s) (int (s + length ?D) - 1)
      = Some (splice m s (?D @ [0]))"
    using fit strreverse_spec [of s "rev ?D" "splice m (s + length ?D) [0]"]
    by (simp add: r)
  show ?thesis
    unfolding modp_ulitoa10_def 1 Option.bind.bind_lunit prod.case 2 3 by simp
qed

subsection \<open>Properties\<close>

text \<open>C37: \<open>i64toa\<close> prints every 64-bit integer, the extremes of both widths included, as its
  signed decimal numeral: it stores those bytes at \<open>s\<close> (and, where it falls back to
  \<open>sprintf\<close>, a NUL behind them), leaves the rest of the array unchanged and returns the number
  of characters.\<close>

theorem i64toa_decimal:
  assumes "s + length (dec_int (sint n)) < length m"
  shows "\<exists>m'. i64toa n m (int s) = Some (m', of_nat (length (dec_int (sint n))))
    \<and> length m' = length m
    \<and> seg s (s + length (dec_int (sint n))) m' = dec_int (sint n)
    \<and> take s m' = take s m
    \<and> drop (Suc (s + length (dec_int (sint n)))) m' = drop (Suc (s + length (dec_int (sint n)))) m"
proof -
  let ?D = "dec_int (sint n)"
  let ?z = "if - 2147483648 \<le> sint n \<and> sint n \<le> 2147483647 then [] else [0 :: u8]"
  have "seg s (s + length ?D) (splice m s (?D @ ?z)) = ?D"
    and "take s (splice m s (?D @ ?z)) = take s m"
    and "drop (Suc (s + length ?D)) (splice m s (?D @ ?z)) = drop (Suc (s + length ?D)) m"
    and "length (splice m s (?D @ ?z)) = length m"
    using assms by (auto simp: splice_def seg_def min_def)
  with i64toa_spec [OF assms] show ?thesis by blast
qed

theorem i64toa_decimal_witness:
  "\<exists>m'. i64toa (- 9223372036854775808) (replicate 24 0) (int 2) = Some (m', 20)
     \<and> seg 2 22 m' = map of_char ''-9223372036854775808''"
proof -
  have d: "dec_int (sint (- 9223372036854775808 :: i64)) = map of_char ''-9223372036854775808''"
    by (simp add: dec_int_def dec_digits.simps)
  show ?thesis using i64toa_decimal [of 2 "- 9223372036854775808" "replicate 24 0"]
    unfolding d by auto
qed

text \<open>C38: the table-driven \<open>uitoa\<close>, which emits two digits at a time from the right, is
  equivalent to the one-digit-at-a-time printer with reversal of the modp library: both store
  the same decimal numeral, of at most ten digits, and return its length.\<close>

theorem uitoa_equiv_modp:
  assumes "s + length (dec_digits (unat n)) < length m"
  shows "\<exists>m1 m2 len. uitoa n m (int s) = Some (m1, of_nat len)
    \<and> modp_ulitoa10 (ucast n) m (int s) = Some (m2, of_nat len)
    \<and> len = length (dec_digits (unat n)) \<and> len \<le> 10
    \<and> seg s (s + len) m1 = dec_digits (unat n) \<and> seg s (s + len) m2 = dec_digits (unat n)"
proof -
  let ?D = "dec_digits (unat n)"
  have u: "unat (ucast n :: u64) = unat n"
    using unat_less_power [of n] by (simp add: unsigned_ucast_eq take_bit_nat_eq_self)
  have "length ?D \<le> 10"
    unfolding uilog_10_length [symmetric] by (simp add: uilog_10_def)
  moreover have "seg s (s + length ?D) (splice m s ?D) = ?D"
    and "seg s (s + length ?D) (splice m s (?D @ [0])) = ?D"
    using assms by (auto simp: splice_def seg_def)
  ultimately show ?thesis
    using uitoa_spec [of s n m] modp_ulitoa10_spec [of s "ucast n" m] assms by (auto simp: u)
qed

theorem uitoa_equiv_modp_witness:
  "\<exists>m1 m2. uitoa 40962 (replicate 8 0) (int 1) = Some (m1, 5)
     \<and> modp_ulitoa10 (ucast (40962 :: u32)) (replicate 8 0) (int 1) = Some (m2, 5)
     \<and> seg 1 6 m1 = map of_char ''40962'' \<and> seg 1 6 m2 = map of_char ''40962''"
proof -
  have d: "dec_digits (unat (40962 :: u32)) = map of_char ''40962''"
    by (simp add: dec_digits.simps)
  have l: "length (map of_char ''40962'' :: u8 list) = 5" by simp
  show ?thesis using uitoa_equiv_modp [of 1 40962 "replicate 8 0"] 
    unfolding d l by auto
qed

text \<open>C39: \<open>checksumtoa\<close> prints a checksum (0 to 255, and any value below 1000) as exactly three
  digits with leading zeros, the fixed width FIX requires of the CheckSum field.\<close>

theorem checksumtoa_three_digits:
  assumes "0 \<le> sint n" "sint n < 1000" "s + 3 \<le> length m"
  shows "checksumtoa n m (int s) = Some (splice m s
    [of_int (48 + sint n div 100), of_int (48 + sint n div 10 mod 10), of_int (48 + sint n mod 10)], 3)"
proof -
  obtain k where k: "sint n = int k" using assms(1) nonneg_int_cases by blast
  have "(of_nat (48 + a) :: u8) = of_int (48 + int a)" for a by simp
  then have "pad3_digits (nat (sint n))
      = [of_int (48 + sint n div 100), of_int (48 + sint n div 10 mod 10), of_int (48 + sint n mod 10)]"
    by (simp only: k pad3_digits_def nat_int) (simp only: zdiv_int zmod_int of_nat_numeral)
  with checksumtoa_spec [OF assms] show ?thesis by simp
qed

theorem checksumtoa_three_digits_witness:
  "checksumtoa 7 (replicate 4 0) (int 1) = Some ([0, 48, 48, 55], 3)"
  using checksumtoa_three_digits [of 7 1 "replicate 4 0"]
  by (simp add: splice_def)

text \<open>\<open>modp_litoa10_zpad\<close> prints any 64-bit integer left-padded with zeros to at least
  \<open>zpad\<close> characters, the sign included and first, and never truncates a number that is wider.  The \<open>int\<close> \<open>zpad\<close>
  must be at least \<open>INT_MIN + 21\<close>: below that, \<open>zpad -= \<dots>\<close> wraps around.\<close>

theorem zpad_width:
  assumes "- (2 ^ 31) + 21 \<le> sint zpad" and "s + max (nat (sint zpad)) (length (dec_int (sint v))) \<le> length m"
  shows "\<exists>ds. modp_litoa10_zpad v zpad m (int s) = Some (splice m s ds, of_nat (length ds))
    \<and> length ds = max (nat (sint zpad)) (length (dec_int (sint v)))
    \<and> (\<exists>k. ds = (if sint v < 0 then [45] else []) @ replicate k 48 @ dec_digits (nat \<bar>sint v\<bar>))"
proof -
  let ?ds = "zpad_int (sint v) (sint zpad)"
  have len: "length ?ds = max (nat (sint zpad)) (length (dec_int (sint v)))"
    by (auto simp: zpad_int_def dec_int_def Let_def)
  with assms(2) have "s + length ?ds \<le> length m" by simp
  from modp_litoa10_zpad_spec [OF assms(1) this]
  have "modp_litoa10_zpad v zpad m (int s) = Some (splice m s ?ds, of_nat (length ?ds))" .
  moreover have "\<exists>k. ?ds = (if sint v < 0 then [45] else []) @ replicate k 48 @ dec_digits (nat \<bar>sint v\<bar>)"
    by (auto simp: zpad_int_def Let_def)
  ultimately show ?thesis using len by blast
qed

theorem zpad_width_witness:
  "\<exists>ds. modp_litoa10_zpad (- 42) 6 (replicate 6 0) (int 0) = Some (splice (replicate 6 0) 0 ds, of_nat (length ds))
     \<and> length ds = 6"
  using zpad_width [of 6 0 "- 42" "replicate 6 0"]
  by (auto simp: dec_int_def dec_digits.simps)

text \<open>With the least \<open>int\<close> as the width, the subtraction wraps to the greatest, and so many zeros are written.\<close>

lemma zero_pad_overrun: "length m < w + k \<Longrightarrow> w \<le> length m \<Longrightarrow> zero_pad k m (int w) = None"
proof (induction k arbitrary: m w)
  case (Suc k)
  show ?case
  proof (cases "w < length m")
    case True
    have "zero_pad k (splice m w [48]) (int (w + 1)) = None" using Suc.prems True by (intro Suc.IH) simp_all
    with True show ?thesis by (simp add: mem_put_splice add.commute)
  next
    case False
    then show ?thesis by (simp add: mem_put_def)
  qed
qed simp

lemma zpad_wraps:
  assumes "s < length m" "length m < s + 2 ^ 31"
  shows "modp_litoa10_zpad 7 (of_int (- (2 ^ 31))) m (int s) = None"
proof -
  have "digit_loop 7 m (int s) = Some (splice m s [55], int (s + 1))"
    using digit_loop_spec [of s 7 m] assms(1) by (simp add: dec_digits.simps)
  moreover have "zero_pad (nat (sint (of_int (- (2 ^ 31)) - of_int (int (s + 1) - int s + 0) :: i32))) (splice m s [55]) (int (s + 1)) = None"
    by (rule zero_pad_overrun) (use assms in simp_all)
  ultimately show ?thesis by (simp add: modp_litoa10_zpad_def Let_def word_sless_alt)
qed

end
