(* ===== verification/Byte_Queue.thy ===== *)
theory Byte_Queue
  imports Prelude
begin

text \<open>
  The interface between the byte buffer and the parsers and printers: a source hands out
  the bytes it holds one at a time, a sink appends them while there is room, and a queue
  is both.  The lemmas are about runs of operations and are proved once, here.
\<close>

subsection \<open>Runs of operations\<close>

fun get_run :: "('q \<Rightarrow> ('a \<times> 'q) option) \<Rightarrow> nat \<Rightarrow> 'q \<Rightarrow> ('a list \<times> 'q) option" where
  "get_run get 0 q = Some ([], q)"
| "get_run get (Suc n) q = do {
     (x, q) \<leftarrow> get q;
     (xs, q) \<leftarrow> get_run get n q;
     Some (x # xs, q) }"

fun put_run :: "('q \<Rightarrow> 'a \<Rightarrow> 'q option) \<Rightarrow> 'a list \<Rightarrow> 'q \<Rightarrow> 'q option" where
  "put_run put [] q = Some q"
| "put_run put (x # xs) q = do { q \<leftarrow> put q x; put_run put xs q }"

locale byte_source =
  fixes get :: "'q \<Rightarrow> ('a \<times> 'q) option"
    and content :: "'q \<Rightarrow> 'a list"
    and room :: "'q \<Rightarrow> nat"
    and invar :: "'q \<Rightarrow> bool"
  assumes get_Cons: "invar q \<Longrightarrow> content q = x # xs \<Longrightarrow>
    \<exists>q'. get q = Some (x, q') \<and> invar q' \<and> content q' = xs \<and> room q' = room q"
begin

lemma get_run_take:
  "invar q \<Longrightarrow> n \<le> length (content q) \<Longrightarrow>
     \<exists>q'. get_run get n q = Some (take n (content q), q') \<and> invar q'
       \<and> content q' = drop n (content q) \<and> room q' = room q"
proof (induction n arbitrary: q)
  case 0
  then show ?case by simp
next
  case (Suc n)
  then obtain x xs where c: "content q = x # xs" by (cases "content q") auto
  from get_Cons [OF Suc.prems(1) c] obtain q1 where
    q1: "get q = Some (x, q1)" "invar q1" "content q1 = xs" "room q1 = room q" by blast
  with Suc.prems c have "n \<le> length (content q1)" by simp
  from Suc.IH [OF q1(2) this] q1 c show ?case by auto
qed

end

locale byte_sink =
  fixes put :: "'q \<Rightarrow> 'a \<Rightarrow> 'q option"
    and content :: "'q \<Rightarrow> 'a list"
    and room :: "'q \<Rightarrow> nat"
    and invar :: "'q \<Rightarrow> bool"
  assumes put_room: "invar q \<Longrightarrow> 0 < room q \<Longrightarrow>
      \<exists>q'. put q x = Some q' \<and> invar q' \<and> content q' = content q @ [x]
        \<and> room q = Suc (room q')"
    and put_full: "invar q \<Longrightarrow> room q = 0 \<Longrightarrow> put q x = None"
begin

lemma put_run_append:
  "invar q \<Longrightarrow> length xs \<le> room q \<Longrightarrow>
     \<exists>q'. put_run put xs q = Some q' \<and> invar q' \<and> content q' = content q @ xs
       \<and> room q = room q' + length xs"
proof (induction xs arbitrary: q)
  case Nil
  then show ?case by simp
next
  case (Cons x xs)
  from put_room [OF Cons.prems(1), of x] Cons.prems(2) obtain q1 where
    q1: "put q x = Some q1" "invar q1" "content q1 = content q @ [x]" "room q = Suc (room q1)"
    by auto
  with Cons.prems have "length xs \<le> room q1" by simp
  from Cons.IH [OF q1(2) this] q1 show ?case by auto
qed

lemma put_run_overflow:
  "invar q \<Longrightarrow> room q < length xs \<Longrightarrow> put_run put xs q = None"
proof (induction xs arbitrary: q)
  case Nil
  then show ?case by simp
next
  case (Cons x xs)
  show ?case
  proof (cases "room q = 0")
    case True
    with Cons.prems show ?thesis by (simp add: put_full)
  next
    case False
    with put_room [OF Cons.prems(1), of x] obtain q1 where
      q1: "put q x = Some q1" "invar q1" "room q = Suc (room q1)" by auto
    with Cons.prems have "room q1 < length xs" by simp
    from Cons.IH [OF q1(2) this] q1 show ?thesis by simp
  qed
qed

end

locale byte_queue = byte_source get content room invar + byte_sink put content room invar
  for get :: "'q \<Rightarrow> ('a \<times> 'q) option"
    and put :: "'q \<Rightarrow> 'a \<Rightarrow> 'q option"
    and content :: "'q \<Rightarrow> 'a list"
    and room :: "'q \<Rightarrow> nat"
    and invar :: "'q \<Rightarrow> bool"
begin

text \<open>First in, first out: what was in the queue comes out before what is put in.\<close>

lemma fifo:
  assumes "invar q" "length xs \<le> room q"
  shows "\<exists>q1 q2. put_run put xs q = Some q1
    \<and> get_run get (length (content q) + length xs) q1 = Some (content q @ xs, q2)
    \<and> invar q2 \<and> content q2 = []"
proof -
  from put_run_append [OF assms] obtain q1 where
    q1: "put_run put xs q = Some q1" "invar q1" "content q1 = content q @ xs" by blast
  from get_run_take [OF q1(2), of "length (content q) + length xs"] q1 show ?thesis by auto
qed

end

end
