(* ===== verification/Buffer.thy ===== *)
theory Buffer
  imports Byte_Queue
begin

text \<open>
  lib/buffer.c, include/libtrading/buffer.h, lib/mmap-buffer.c and lib/read-write.c:
  the linear byte buffer every parser and printer of the library works on, and the system
  calls that fill and drain it.  A buffer is the record of the C structure, its \<open>data\<close> the
  bytes of the allocation.  \<open>buf_bytes\<close> is the abstraction: the unread bytes, from \<open>start\<close>
  up to \<open>end\<close>; \<open>holds b bs\<close> says that \<open>b\<close> is well formed and its unread bytes are \<open>bs\<close>,
  and the lemmas of the collection \<open>buf_simps\<close> read each operation on that list.
\<close>

subsection \<open>The structure and its inline operations\<close>

record buffer =
  b_start :: ulong
  b_end :: ulong
  capacity :: ulong
  data :: mem

definition buffer_size :: "buffer \<Rightarrow> ulong" where
  "buffer_size b = b_end b - b_start b"

definition buffer_remaining :: "buffer \<Rightarrow> ulong" where
  "buffer_remaining b = capacity b - b_end b"

definition buffer_start :: "buffer \<Rightarrow> ptr" where
  "buffer_start b = uint (b_start b)"

definition buffer_end :: "buffer \<Rightarrow> ptr" where
  "buffer_end b = uint (b_end b)"

definition buffer_advance :: "buffer \<Rightarrow> i64 \<Rightarrow> buffer" where
  "buffer_advance b n = b\<lparr>b_start := b_start b + n\<rparr>"

definition buffer_advance_end :: "buffer \<Rightarrow> i64 \<Rightarrow> buffer" where
  "buffer_advance_end b n = b\<lparr>b_end := b_end b + n\<rparr>"

definition buffer_reset :: "buffer \<Rightarrow> buffer" where
  "buffer_reset b = b\<lparr>b_start := 0, b_end := 0\<rparr>"

definition buffer_peek_8 :: "buffer \<Rightarrow> u8 option" where
  "buffer_peek_8 b = mem_get (data b) (uint (b_start b))"

definition buffer_peek_le16 :: "buffer \<Rightarrow> u16 option" where
  "buffer_peek_le16 b = do {
     hi \<leftarrow> mem_get (data b) (uint (b_start b + 1));
     lo \<leftarrow> mem_get (data b) (uint (b_start b));
     Some (push_bit 8 (ucast hi) OR ucast lo) }"

definition buffer_get_8 :: "buffer \<Rightarrow> (u8 \<times> buffer) option" where
  "buffer_get_8 b = do {
     c \<leftarrow> buffer_peek_8 b;
     Some (c, b\<lparr>b_start := b_start b + 1\<rparr>) }"

definition buffer_get_char :: "buffer \<Rightarrow> (u8 \<times> buffer) option" where
  "buffer_get_char b = buffer_get_8 b"

definition buffer_get_le16 :: "buffer \<Rightarrow> (u16 \<times> buffer) option" where
  "buffer_get_le16 b = do {
     (c0, b) \<leftarrow> buffer_get_8 b;
     (c1, b) \<leftarrow> buffer_get_8 b;
     Some (ucast c0 OR push_bit 8 (ucast c1), b) }"

definition buffer_get_le32 :: "buffer \<Rightarrow> (u32 \<times> buffer) option" where
  "buffer_get_le32 b = do {
     (c0, b) \<leftarrow> buffer_get_8 b;
     (c1, b) \<leftarrow> buffer_get_8 b;
     (c2, b) \<leftarrow> buffer_get_8 b;
     (c3, b) \<leftarrow> buffer_get_8 b;
     Some (ucast c0 OR push_bit 8 (ucast c1) OR push_bit 16 (ucast c2)
             OR push_bit 24 (ucast c3), b) }"

definition buffer_get_le64 :: "buffer \<Rightarrow> (u64 \<times> buffer) option" where
  "buffer_get_le64 b = do {
     (c0, b) \<leftarrow> buffer_get_8 b;
     (c1, b) \<leftarrow> buffer_get_8 b;
     (c2, b) \<leftarrow> buffer_get_8 b;
     (c3, b) \<leftarrow> buffer_get_8 b;
     (c4, b) \<leftarrow> buffer_get_8 b;
     (c5, b) \<leftarrow> buffer_get_8 b;
     (c6, b) \<leftarrow> buffer_get_8 b;
     (c7, b) \<leftarrow> buffer_get_8 b;
     Some (ucast c0 OR push_bit 8 (ucast c1) OR push_bit 16 (ucast c2)
             OR push_bit 24 (ucast c3) OR push_bit 32 (ucast c4) OR push_bit 40 (ucast c5)
             OR push_bit 48 (ucast c6) OR push_bit 56 (ucast c7), b) }"

definition buffer_get_be16 :: "buffer \<Rightarrow> (u16 \<times> buffer) option" where
  "buffer_get_be16 b = do {
     (c0, b) \<leftarrow> buffer_get_8 b;
     (c1, b) \<leftarrow> buffer_get_8 b;
     Some (push_bit 8 (ucast c0) OR ucast c1, b) }"

text \<open>\<open>buffer_get_n\<close> copies \<open>n\<close> bytes out; the model returns them.\<close>

fun buffer_get_n :: "buffer \<Rightarrow> nat \<Rightarrow> (u8 list \<times> buffer) option" where
  "buffer_get_n b 0 = Some ([], b)"
| "buffer_get_n b (Suc n) = do {
     (c, b) \<leftarrow> buffer_get_8 b;
     (cs, b) \<leftarrow> buffer_get_n b n;
     Some (c # cs, b) }"

definition buffer_put :: "buffer \<Rightarrow> u8 \<Rightarrow> buffer option" where
  "buffer_put b c = do {
     d \<leftarrow> mem_put (data b) (uint (b_end b)) c;
     Some (b\<lparr>data := d, b_end := b_end b + 1\<rparr>) }"

text \<open>A run of \<open>buffer_put\<close> calls, as the printing loops of the library make.\<close>

fun buffer_puts :: "buffer \<Rightarrow> u8 list \<Rightarrow> buffer option" where
  "buffer_puts b [] = Some b"
| "buffer_puts b (c # cs) = do { b \<leftarrow> buffer_put b c; buffer_puts b cs }"

lemma buffer_size_advance: "buffer_size (buffer_advance b 1) = buffer_size b - 1"
  by (simp add: buffer_size_def buffer_advance_def)

lemma unat_pred_less: "(w :: 'a::len word) \<noteq> 0 \<Longrightarrow> unat (w - 1) < unat w"
  by (simp add: unat_minus_one unat_gt_0)

function buffer_find :: "buffer \<Rightarrow> u8 \<Rightarrow> (ptr option \<times> buffer) option" where
  "buffer_find b c =
     (if buffer_size b \<noteq> 0 then do {
        x \<leftarrow> buffer_peek_8 b;
        (if x = c then Some (Some (buffer_start b), b)
         else buffer_find (buffer_advance b 1) c) }
      else Some (None, b))"
  by pat_completeness auto
termination
  by (relation "measure (\<lambda>(b, c). unat (buffer_size b))")
     (auto simp: buffer_size_advance unat_pred_less)

declare buffer_find.simps [simp del]

text \<open>An io vector entry names the bytes handed to the system call.\<close>

definition buffer_to_iovec :: "buffer \<Rightarrow> u8 list option" where
  "buffer_to_iovec b = mem_load (data b) 0 (unat (b_end b))"

subsection \<open>System calls\<close>

text \<open>
  The kernel's answer to a call is given by the environment: bytes or a count, or an
  error number.  \<open>xread\<close>, \<open>xwrite\<close> and \<open>xwritev\<close> restart the call while it is interrupted;
  the environment is the list of the kernel's successive answers, and \<open>None\<close> says that the
  call has not returned when the list ends.
\<close>

datatype errno = EAGAIN | EINTR | ERRNO nat

datatype 'a io = IoOk 'a | IoErr errno

fun xretry :: "('q \<Rightarrow> 'a io) list \<Rightarrow> 'q \<Rightarrow> ('a io \<times> ('q \<Rightarrow> 'a io) list) option" where
  "xretry [] q = None"
| "xretry (call # calls) q =
     (case call q of
        IoOk r \<Rightarrow> Some (IoOk r, calls)
      | IoErr e \<Rightarrow> if e = EAGAIN \<or> e = EINTR then xretry calls q else Some (IoErr e, calls))"

definition interrupted :: "'a io \<Rightarrow> bool" where
  "interrupted r \<longleftrightarrow> r = IoErr EAGAIN \<or> r = IoErr EINTR"

definition xread :: "(ulong \<Rightarrow> u8 list io) list \<Rightarrow> ulong \<Rightarrow> (u8 list io \<times> (ulong \<Rightarrow> u8 list io) list) option" where
  "xread calls count = xretry calls count"

definition xwrite :: "(u8 list \<Rightarrow> ulong io) list \<Rightarrow> u8 list \<Rightarrow> (ulong io \<times> (u8 list \<Rightarrow> ulong io) list) option" where
  "xwrite calls bs = xretry calls bs"

definition xwritev :: "(u8 list list \<Rightarrow> ulong io) list \<Rightarrow> u8 list list \<Rightarrow> (ulong io \<times> (u8 list list \<Rightarrow> ulong io) list) option" where
  "xwritev calls iov = xretry calls iov"

fun iov_byte_length :: "ulong list \<Rightarrow> ulong" where
  "iov_byte_length [] = 0"
| "iov_byte_length (l # ls) = l + iov_byte_length ls"

subsection \<open>lib/buffer.c\<close>

text \<open>\<open>malloc\<close> is given by the environment: the fresh block's bytes, or \<open>None\<close> for NULL.
  The structure itself takes the block's first 32 bytes.\<close>

definition buffer_new :: "(ulong \<Rightarrow> mem option) \<Rightarrow> ulong \<Rightarrow> buffer option" where
  "buffer_new malloc cap =
     (case malloc (32 + cap) of
        None \<Rightarrow> None
      | Some blk \<Rightarrow> Some \<lparr>b_start = 0, b_end = 0, capacity = cap, data = drop 32 blk\<rparr>)"

definition buffer_mmap :: "(ulong \<Rightarrow> mem option) \<Rightarrow> ulong \<Rightarrow> buffer option" where
  "buffer_mmap mmap len =
     (case mmap len of
        None \<Rightarrow> None
      | Some p \<Rightarrow> Some \<lparr>b_start = 0, b_end = len, capacity = len, data = p\<rparr>)"

text \<open>\<open>sum += *ptr\<close> adds a signed \<open>char\<close>: the sign extension is part of the model.\<close>

function buffer_sum_loop :: "mem \<Rightarrow> ptr \<Rightarrow> ptr \<Rightarrow> ulong \<Rightarrow> ulong option" where
  "buffer_sum_loop m p e acc =
     (if p < e then do {
        c \<leftarrow> mem_get m p;
        buffer_sum_loop m (p + 1) e (acc + scast c) }
      else Some acc)"
  by pat_completeness auto
termination
  by (relation "measure (\<lambda>(m, p, e, acc). nat (e - p))") auto

declare buffer_sum_loop.simps [simp del]

definition buffer_sum_range :: "mem \<Rightarrow> ptr \<Rightarrow> ptr \<Rightarrow> u8 option" where
  "buffer_sum_range m s e = do { acc \<leftarrow> buffer_sum_loop m s e 0; Some (ucast acc) }"

definition buffer_sum :: "buffer \<Rightarrow> u8 option" where
  "buffer_sum b = buffer_sum_range (data b) (buffer_start b) (buffer_end b)"

definition buffer_append :: "buffer \<Rightarrow> buffer \<Rightarrow> buffer option" where
  "buffer_append dst src =
     (let len = (if buffer_size src > buffer_remaining dst then buffer_remaining dst
                 else buffer_size src)
      in do {
        bs \<leftarrow> mem_load (data src) (uint (b_start src)) (unat len);
        d \<leftarrow> mem_store (data dst) (uint (b_start dst)) bs;
        Some (dst\<lparr>data := d, b_start := b_start dst + len, b_end := b_end dst + len\<rparr>) })"

text \<open>\<open>s\<close> is what \<open>vsnprintf\<close> formats: it stores at most \<open>size - 1\<close> bytes of it and a NUL,
  and returns its whole length.\<close>

definition buffer_printf :: "buffer \<Rightarrow> u8 list \<Rightarrow> (bool \<times> buffer) option" where
  "buffer_printf b s =
     (let sz = buffer_remaining b in do {
        d \<leftarrow> (if sz = 0 then Some (data b)
              else mem_store (data b) (buffer_end b) (take (unat sz - 1) s @ [0]));
        (if unat sz \<le> length s then Some (False, b\<lparr>data := d\<rparr>)
         else Some (True, b\<lparr>data := d, b_end := b_end b + of_nat (length s)\<rparr>)) })"

text \<open>What every filling call does with the kernel's answer.\<close>

fun buffer_fill :: "buffer \<Rightarrow> u8 list io \<Rightarrow> (i64 \<times> buffer) option" where
  "buffer_fill b (IoErr e) = Some (-1, b)"
| "buffer_fill b (IoOk bs) = do {
     d \<leftarrow> mem_store (data b) (buffer_end b) bs;
     Some (of_nat (length bs), b\<lparr>data := d, b_end := b_end b + of_nat (length bs)\<rparr>) }"

definition buffer_count :: "buffer \<Rightarrow> ulong \<Rightarrow> ulong" where
  "buffer_count b sz = (if buffer_remaining b > sz then sz else buffer_remaining b)"

definition buffer_recv :: "buffer \<Rightarrow> (ulong \<Rightarrow> u8 list io) \<Rightarrow> ulong \<Rightarrow> (i64 \<times> buffer) option" where
  "buffer_recv b io_recv sz = buffer_fill b (io_recv (buffer_count b sz))"

definition buffer_read :: "buffer \<Rightarrow> (ulong \<Rightarrow> u8 list io) \<Rightarrow> (i64 \<times> buffer) option" where
  "buffer_read b rd = buffer_fill b (rd (buffer_remaining b))"

definition buffer_nread :: "buffer \<Rightarrow> (ulong \<Rightarrow> u8 list io) \<Rightarrow> ulong \<Rightarrow> (i64 \<times> buffer) option" where
  "buffer_nread b rd sz = buffer_fill b (rd (buffer_count b sz))"

definition buffer_xread :: "buffer \<Rightarrow> (ulong \<Rightarrow> u8 list io) list \<Rightarrow> (i64 \<times> buffer) option" where
  "buffer_xread b rds = do {
     (r, _) \<leftarrow> xread rds (buffer_remaining b);
     buffer_fill b r }"

definition buffer_nxread :: "buffer \<Rightarrow> (ulong \<Rightarrow> u8 list io) list \<Rightarrow> ulong \<Rightarrow> (i64 \<times> buffer) option" where
  "buffer_nxread b rds sz = do {
     (r, _) \<leftarrow> xread rds (buffer_count b sz);
     buffer_fill b r }"

definition buffer_write :: "buffer \<Rightarrow> (u8 list \<Rightarrow> ulong io) \<Rightarrow> ulong io option" where
  "buffer_write b wr = do {
     bs \<leftarrow> mem_load (data b) (buffer_start b) (unat (buffer_size b));
     Some (wr bs) }"

definition buffer_xwrite :: "buffer \<Rightarrow> (u8 list \<Rightarrow> ulong io) list \<Rightarrow> ulong io option" where
  "buffer_xwrite b wrs = do {
     bs \<leftarrow> mem_load (data b) (buffer_start b) (unat (buffer_size b));
     (r, _) \<leftarrow> xwrite wrs bs;
     Some r }"

definition buffer_compact :: "buffer \<Rightarrow> buffer option" where
  "buffer_compact b = do {
     bs \<leftarrow> mem_load (data b) (buffer_start b) (unat (buffer_size b));
     d \<leftarrow> mem_store (data b) 0 bs;
     Some (b\<lparr>data := d, b_start := 0, b_end := buffer_size b\<rparr>) }"

text \<open>
  \<open>buffer_inflate\<close> drives zlib, which is not part of the repository: \<open>inflate\<close> is a parameter.
  Given its state (the input it points to included) and the two counters \<open>avail_in\<close> and
  \<open>avail_out\<close> it answers a return code, the new \<open>avail_in\<close>, the bytes it wrote at \<open>next_out\<close>
  and its next state.  The counters are zlib's \<open>uInt\<close>: what is stored into them is cut to 32 bits.
  The retry loop may not end, hence \<^theory_text>\<open>partial_function\<close>.
\<close>

datatype z_ret = Z_OK | Z_STREAM_END | Z_BUF_ERROR | Z_FAIL

definition INFLATE_SIZE :: ulong where
  "INFLATE_SIZE = push_bit 18 1"

partial_function (option) inflate_retry ::
  "('z \<Rightarrow> u32 \<Rightarrow> u32 \<Rightarrow> z_ret \<times> u32 \<times> u8 list \<times> 'z) \<Rightarrow> 'z \<Rightarrow> u32 \<Rightarrow> u32 \<Rightarrow> mem \<Rightarrow> ptr
     \<Rightarrow> (z_ret \<times> u32 \<times> u32 \<times> mem \<times> 'z) option" where
  "inflate_retry inflate z avail_in avail_out m next_out =
     (case inflate z avail_in avail_out of (err, avail_in', out, z') \<Rightarrow>
        Option.bind (mem_store m next_out out) (\<lambda>m'.
          let avail_out' = avail_out - of_nat (length out)
          in if err = Z_OK \<and> avail_out' = 0
             then inflate_retry inflate z' avail_in' avail_out' m' (next_out + int (length out))
             else Some (err, avail_in', avail_out', m', z')))"

definition buffer_inflate ::
  "('z \<Rightarrow> u32 \<Rightarrow> u32 \<Rightarrow> z_ret \<times> u32 \<times> u8 list \<times> 'z) \<Rightarrow> buffer \<Rightarrow> buffer \<Rightarrow> 'z
     \<Rightarrow> (i64 \<times> buffer \<times> buffer \<times> 'z) option" where
  "buffer_inflate inflate comp_buf uncomp_buf z =
     (let nr = buffer_size comp_buf in
      if nr = 0 then Some (0, comp_buf, uncomp_buf, z)
      else let nr = (if nr > INFLATE_SIZE then INFLATE_SIZE else nr) in do {
        (err, avail_in, avail_out, m, z) \<leftarrow>
          inflate_retry inflate z (ucast nr) (ucast (buffer_remaining uncomp_buf)) (data uncomp_buf) (buffer_end uncomp_buf);
        (if err = Z_FAIL then Some (-1, comp_buf, uncomp_buf\<lparr>data := m\<rparr>, z)
         else let ret = buffer_remaining uncomp_buf - ucast avail_out in
           Some (ret, buffer_advance comp_buf (nr - ucast avail_in),
                 uncomp_buf\<lparr>data := m, b_end := b_end uncomp_buf + ret\<rparr>, z)) })"

subsection \<open>The bytes a buffer holds\<close>

definition buffer_wf :: "buffer \<Rightarrow> bool" where
  "buffer_wf b \<longleftrightarrow> unat (b_start b) \<le> unat (b_end b) \<and> unat (b_end b) \<le> unat (capacity b)
     \<and> length (data b) = unat (capacity b)"

definition buf_bytes :: "buffer \<Rightarrow> u8 list" where
  "buf_bytes b = seg (unat (b_start b)) (unat (b_end b)) (data b)"

definition buffer_room :: "buffer \<Rightarrow> nat" where
  "buffer_room b = unat (capacity b) - unat (b_end b)"

definition holds :: "buffer \<Rightarrow> u8 list \<Rightarrow> bool" where
  "holds b bs \<longleftrightarrow> buffer_wf b \<and> buf_bytes b = bs"

lemma holds_wf [dest]: "holds b bs \<Longrightarrow> buffer_wf b"
  by (simp add: holds_def)

lemma holdsI: "buffer_wf b \<Longrightarrow> holds b (buf_bytes b)"
  by (simp add: holds_def)

lemma holds_length: "holds b bs \<Longrightarrow> length bs = unat (b_end b) - unat (b_start b)"
  by (auto simp: holds_def buffer_wf_def buf_bytes_def)

lemma unat_buffer_size: "buffer_wf b \<Longrightarrow> unat (buffer_size b) = unat (b_end b) - unat (b_start b)"
  by (simp add: buffer_wf_def buffer_size_def unat_sub_le)

lemma unat_buffer_remaining: "buffer_wf b \<Longrightarrow> unat (buffer_remaining b) = buffer_room b"
  by (simp add: buffer_wf_def buffer_remaining_def buffer_room_def unat_sub_le)

lemma holds_size [buf_simps]: "holds b bs \<Longrightarrow> unat (buffer_size b) = length bs"
  by (simp add: holds_length unat_buffer_size holds_wf)

lemma holds_size_of_nat [buf_simps]: "holds b bs \<Longrightarrow> buffer_size b = of_nat (length bs)"
  using holds_size [of b bs, symmetric] by simp

lemma holds_size_0 [buf_simps]: "holds b bs \<Longrightarrow> buffer_size b = 0 \<longleftrightarrow> bs = []"
  using holds_size [of b bs] by (metis length_0_conv unat_eq_zero_iff)

lemma holds_length_bound: "holds b bs \<Longrightarrow> length bs < 2 ^ 64"
  using holds_size [of b bs] unat_less_power [of "buffer_size b"] by simp

lemma holds_Cons_start:
  assumes "holds b (c # cs)"
  shows "unat (b_start b) < unat (b_end b)" "unat (b_end b) \<le> length (data b)"
    and "data b ! unat (b_start b) = c"
    and "seg (Suc (unat (b_start b))) (unat (b_end b)) (data b) = cs"
proof -
  from assms have wf: "buffer_wf b" and bs: "seg (unat (b_start b)) (unat (b_end b)) (data b) = c # cs"
    by (auto simp: holds_def buf_bytes_def)
  from bs show lt: "unat (b_start b) < unat (b_end b)"
    by (metis leI list.discI seg_empty)
  from wf show le: "unat (b_end b) \<le> length (data b)" by (simp add: buffer_wf_def)
  from seg_Cons [OF lt le] bs
  show "data b ! unat (b_start b) = c"
    and "seg (Suc (unat (b_start b))) (unat (b_end b)) (data b) = cs" by simp_all
qed

lemma mem_get_uint: "unat w < length m \<Longrightarrow> mem_get m (uint w) = Some (m ! unat w)"
  by (metis mem_get_Some uint_nat)

lemma holds_peek_8 [buf_simps]: "holds b (c # cs) \<Longrightarrow> buffer_peek_8 b = Some c"
  using holds_Cons_start [of b c cs] by (simp add: buffer_peek_8_def mem_get_uint)

lemma holds_get_8 [buf_simps]: "holds b (c # cs) \<Longrightarrow> buffer_get_8 b = Some (c, buffer_advance b 1)"
  by (simp add: buffer_get_8_def holds_peek_8 buffer_advance_def)

lemma holds_advance_1 [buf_simps]:
  assumes "holds b (c # cs)" shows "holds (buffer_advance b 1) cs"
proof -
  note h = holds_Cons_start [OF assms]
  have "unat (b_start b + 1) = Suc (unat (b_start b))" using h(1) by (rule unat_plus_1)
  with h assms show ?thesis
    by (auto simp: holds_def buffer_wf_def buf_bytes_def buffer_advance_def)
qed

lemma buffer_advance_0 [simp]: "buffer_advance b 0 = b"
  by (simp add: buffer_advance_def)

lemma buffer_advance_add [simp]: "buffer_advance (buffer_advance b m) n = buffer_advance b (m + n)"
  by (simp add: buffer_advance_def add.assoc)

lemma buffer_advance_frame [simp]:
  "data (buffer_advance b n) = data b" "b_end (buffer_advance b n) = b_end b"
  "capacity (buffer_advance b n) = capacity b" "b_start (buffer_advance b n) = b_start b + n"
  by (simp_all add: buffer_advance_def)

lemma holds_advance [buf_simps]:
  "holds b bs \<Longrightarrow> n \<le> length bs \<Longrightarrow> holds (buffer_advance b (of_nat n)) (drop n bs)"
proof (induction n arbitrary: b bs)
  case 0
  then show ?case by simp
next
  case (Suc n)
  then obtain c cs where bs: "bs = c # cs" by (cases bs) auto
  with Suc.prems have "holds (buffer_advance b 1) cs" "n \<le> length cs"
    by (auto intro: holds_advance_1)
  from Suc.IH [OF this] show ?case by (simp add: bs)
qed

lemma unat_start_advance:
  assumes "holds b bs" "n \<le> length bs"
  shows "unat (b_start b + of_nat n) = unat (b_start b) + n"
proof (rule unat_plus_of_nat)
  from assms(1) have "unat (b_start b) \<le> unat (b_end b)" by (simp add: holds_def buffer_wf_def)
  with assms holds_length [OF assms(1)] show "unat (b_start b) + n \<le> unat (b_end b)" by linarith
qed

lemma buffer_start_advance:
  "holds b bs \<Longrightarrow> n \<le> length bs \<Longrightarrow>
     buffer_start (buffer_advance b (of_nat n)) = buffer_start b + int n"
  by (simp only: buffer_start_def buffer_advance_frame uint_nat unat_start_advance of_nat_add)

text \<open>A run of single-byte reads.\<close>

lemma holds_get_n [buf_simps]:
  "holds b bs \<Longrightarrow> n \<le> length bs \<Longrightarrow>
     buffer_get_n b n = Some (take n bs, buffer_advance b (of_nat n))"
proof (induction n arbitrary: b bs)
  case 0
  then show ?case by simp
next
  case (Suc n)
  then obtain c cs where bs: "bs = c # cs" by (cases bs) auto
  with Suc.prems have "holds (buffer_advance b 1) cs" "n \<le> length cs"
    by (auto intro: holds_advance_1)
  from Suc.IH [OF this] Suc.prems show ?case by (simp add: bs holds_get_8)
qed

lemma holds_find [buf_simps]:
  "holds b bs \<Longrightarrow> buffer_find b c =
     (let k = length (takeWhile (\<lambda>x. x \<noteq> c) bs) in
      Some (if c \<in> set bs then Some (buffer_start b + int k) else None,
            buffer_advance b (of_nat k)))"
proof (induction bs arbitrary: b)
  case Nil
  then show ?case by (simp add: buffer_find.simps holds_size_0)
next
  case (Cons x xs)
  have nz: "buffer_size b \<noteq> 0" using Cons.prems by (simp add: holds_size_0)
  show ?case
  proof (cases "x = c")
    case True
    with Cons.prems nz show ?thesis
      by (simp add: buffer_find.simps [of b] holds_peek_8)
  next
    case False
    have "buffer_start (buffer_advance b 1) = buffer_start b + 1"
      using buffer_start_advance [OF Cons.prems, of 1] by simp
    with False nz Cons.prems Cons.IH [OF holds_advance_1 [OF Cons.prems]]
    show ?thesis by (auto simp add: buffer_find.simps [of b] holds_peek_8 Let_def)
  qed
qed

subsection \<open>Writing\<close>

text \<open>\<open>buffer_extend b xs\<close> is the buffer after \<open>xs\<close> have been stored at its end.\<close>

definition buffer_extend :: "buffer \<Rightarrow> u8 list \<Rightarrow> buffer" where
  "buffer_extend b xs = b\<lparr>
     data := take (unat (b_end b)) (data b) @ xs @ drop (unat (b_end b) + length xs) (data b),
     b_end := b_end b + of_nat (length xs)\<rparr>"

lemma buffer_extend_Nil [simp]: "buffer_extend b [] = b"
  by (simp add: buffer_extend_def)

lemma room_length: "buffer_wf b \<Longrightarrow> n \<le> buffer_room b \<longleftrightarrow> unat (b_end b) + n \<le> unat (capacity b)"
  by (auto simp: buffer_wf_def buffer_room_def)

lemma unat_end_extend:
  "buffer_wf b \<Longrightarrow> length xs \<le> buffer_room b \<Longrightarrow>
     unat (b_end b + of_nat (length xs)) = unat (b_end b) + length xs"
  by (rule unat_plus_of_nat [of _ _ "capacity b"]) (simp add: room_length)

lemma buffer_extend_frame [simp]:
  "b_start (buffer_extend b xs) = b_start b" "capacity (buffer_extend b xs) = capacity b"
  "b_end (buffer_extend b xs) = b_end b + of_nat (length xs)"
  by (simp_all add: buffer_extend_def)

lemma mem_store_end:
  "buffer_wf b \<Longrightarrow> length xs \<le> buffer_room b \<Longrightarrow>
     mem_store (data b) (uint (b_end b)) xs = Some (data (buffer_extend b xs))"
  by (simp add: uint_nat [of "b_end b"] mem_store_Some room_length buffer_wf_def buffer_extend_def
           del: of_nat_unat)

lemma extend_wf [wf_intros]:
  "buffer_wf b \<Longrightarrow> length xs \<le> buffer_room b \<Longrightarrow> buffer_wf (buffer_extend b xs)"
  by (auto simp: unat_end_extend room_length buffer_wf_def buffer_extend_def)

lemma extend_room [buf_simps]:
  "buffer_wf b \<Longrightarrow> length xs \<le> buffer_room b \<Longrightarrow>
     buffer_room (buffer_extend b xs) = buffer_room b - length xs"
  by (simp add: buffer_room_def unat_end_extend)

lemma extend_bytes [buf_simps]:
  assumes wf: "buffer_wf b" and le: "length xs \<le> buffer_room b"
  shows "buf_bytes (buffer_extend b xs) = buf_bytes b @ xs"
proof -
  let ?s = "unat (b_start b)" and ?e = "unat (b_end b)"
  let ?d = "take ?e (data b) @ xs @ drop (?e + length xs) (data b)"
  have len: "?e + length xs \<le> length (data b)" "?s \<le> ?e"
    using wf le by (auto simp: room_length) (auto simp: buffer_wf_def)
  have "buf_bytes (buffer_extend b xs) = seg ?s (?e + length xs) ?d"
    using wf le by (simp add: buf_bytes_def unat_end_extend) (simp add: buffer_extend_def)
  also have "\<dots> = seg ?s ?e ?d @ seg ?e (?e + length xs) ?d"
    using len by (simp add: seg_append)
  also have "seg ?e (?e + length xs) ?d = xs" using len by (simp add: seg_store)
  also have "seg ?s ?e ?d = seg ?s ?e (data b)" using len by (simp add: seg_store_before)
  finally show ?thesis by (simp add: buf_bytes_def)
qed

lemma holds_extend [buf_simps]:
  "holds b bs \<Longrightarrow> length xs \<le> buffer_room b \<Longrightarrow> holds (buffer_extend b xs) (bs @ xs)"
  by (auto simp: holds_def extend_wf extend_bytes)

text \<open>A buffer that is reset has the whole capacity for what is put into it.\<close>

lemma reset_holds: "length (data b) = unat (capacity b) \<Longrightarrow> holds (buffer_reset b) []"
  "length (data b) = unat (capacity b) \<Longrightarrow> buffer_room (buffer_reset b) = unat (capacity b)"
  by (simp_all add: buffer_reset_def holds_def buffer_wf_def buf_bytes_def buffer_room_def)

lemma iovec_extend:
  assumes "length (data b) = unat (capacity b)" "length xs \<le> unat (capacity b)"
  shows "buffer_to_iovec (buffer_extend (buffer_reset b) xs) = Some xs"
proof -
  let ?b = "buffer_extend (buffer_reset b) xs"
  have h: "holds ?b xs" using holds_extend [OF reset_holds(1) [OF assms(1)], of xs] assms reset_holds(2) by simp
  have s: "b_start ?b = 0" by (simp add: buffer_reset_def)
  from h s have "take (unat (b_end ?b)) (data ?b) = xs" "unat (b_end ?b) \<le> length (data ?b)"
    by (auto simp: holds_def buf_bytes_def seg_def buffer_wf_def)
  then show ?thesis using mem_load_Some [of 0 "unat (b_end ?b)" "data ?b"] by (simp add: buffer_to_iovec_def)
qed

lemma extend_extend [buf_simps]:
  assumes wf: "buffer_wf b" and le: "length xs + length ys \<le> buffer_room b"
  shows "buffer_extend (buffer_extend b xs) ys = buffer_extend b (xs @ ys)"
proof -
  let ?e = "unat (b_end b)"
  have x: "length xs \<le> buffer_room b" using le by simp
  have "?e + length xs + length ys \<le> length (data b)"
    using wf le by (auto simp: room_length buffer_wf_def buffer_room_def)
  then have "take (?e + length xs) (take ?e (data b) @ xs @ drop (?e + length xs) (data b))
        @ ys @ drop (?e + length xs + length ys) (take ?e (data b) @ xs @ drop (?e + length xs) (data b))
      = take ?e (data b) @ (xs @ ys) @ drop (?e + length (xs @ ys)) (data b)"
    by (simp add: ac_simps)
  then show ?thesis
    by (simp add: buffer_extend_def [of "buffer_extend b xs"] unat_end_extend [OF wf x])
       (simp add: buffer_extend_def add.assoc)
qed

lemma put_extend [buf_simps]:
  "buffer_wf b \<Longrightarrow> 0 < buffer_room b \<Longrightarrow> buffer_put b c = Some (buffer_extend b [c])"
  using mem_store_end [of b "[c]"]
  by (simp add: buffer_put_def mem_put_store buffer_extend_def)

lemma puts_extend [buf_simps]:
  "buffer_wf b \<Longrightarrow> length cs \<le> buffer_room b \<Longrightarrow> buffer_puts b cs = Some (buffer_extend b cs)"
proof (induction cs arbitrary: b)
  case Nil
  then show ?case by simp
next
  case (Cons c cs)
  have "buffer_wf (buffer_extend b [c])" "length cs \<le> buffer_room (buffer_extend b [c])"
    using Cons.prems by (auto simp: extend_room intro!: extend_wf)
  from Cons.IH [OF this] Cons.prems show ?case by (simp add: put_extend extend_extend)
qed

lemma puts_append: "buffer_puts b (xs @ ys) = Option.bind (buffer_puts b xs) (\<lambda>b. buffer_puts b ys)"
  by (induction xs arbitrary: b) (auto simp: Option.bind_assoc)

lemma put_full_faults: "buffer_wf b \<Longrightarrow> buffer_room b = 0 \<Longrightarrow> buffer_put b c = None"
  by (auto simp: buffer_put_def mem_put_def buffer_wf_def buffer_room_def uint_nat [of "b_end b"]
           simp del: of_nat_unat)

lemma fill_extend [buf_simps]:
  "buffer_wf b \<Longrightarrow> length bs \<le> buffer_room b \<Longrightarrow>
     buffer_fill b (IoOk bs) = Some (of_nat (length bs), buffer_extend b bs)"
  by (simp add: buffer_end_def mem_store_end buffer_extend_def)

subsection \<open>The buffer is a byte queue\<close>

lemma advance_wf_room:
  assumes "holds b (c # cs)"
  shows "buffer_wf (buffer_advance b 1)" "buf_bytes (buffer_advance b 1) = cs"
    and "buffer_room (buffer_advance b 1) = buffer_room b"
  using holds_advance_1 [OF assms] by (auto simp: holds_def buffer_room_def)

interpretation bq: byte_queue buffer_get_8 buffer_put buf_bytes buffer_room buffer_wf
proof unfold_locales
  fix q :: buffer and x xs
  assume "buffer_wf q" "buf_bytes q = x # xs"
  then have "holds q (x # xs)" by (simp add: holds_def)
  then show "\<exists>q'. buffer_get_8 q = Some (x, q') \<and> buffer_wf q' \<and> buf_bytes q' = xs
      \<and> buffer_room q' = buffer_room q"
    by (auto simp: holds_get_8 dest: advance_wf_room)
next
  fix q :: buffer and x
  assume "buffer_wf q" "0 < buffer_room q"
  then show "\<exists>q'. buffer_put q x = Some q' \<and> buffer_wf q' \<and> buf_bytes q' = buf_bytes q @ [x]
      \<and> buffer_room q = Suc (buffer_room q')"
    by (auto simp: put_extend extend_bytes extend_room intro: extend_wf)
next
  fix q :: buffer and x
  assume "buffer_wf q" "buffer_room q = 0"
  then show "buffer_put q x = None" by (rule put_full_faults)
qed

lemma get_n_run: "buffer_get_n b n = get_run buffer_get_8 n b"
  by (induction n arbitrary: b) auto

lemma puts_run: "buffer_puts b xs = put_run buffer_put xs b"
  by (induction xs arbitrary: b) auto

subsection \<open>Checksums\<close>

lemma ucast_scast_u8: "(ucast (scast (c :: u8) :: ulong) :: u8) = c"
  by (rule bit_word_eqI) (simp add: bit_simps)

lemma ucast_add_u8: "(ucast (a + b :: ulong) :: u8) = ucast a + ucast b"
proof -
  have "(of_int (uint (a + b)) :: u8) = of_int (uint a + uint b)"
    unfolding word_of_int_eq_iff uint_word_ariths by (simp add: take_bit_eq_mod mod_mod_cancel)
  then show ?thesis by simp
qed

lemma sum_loop:
  "i \<le> j \<Longrightarrow> j \<le> length m \<Longrightarrow>
     \<exists>s. buffer_sum_loop m (int i) (int j) acc = Some s \<and> ucast s = (ucast acc + sum_list (seg i j m) :: u8)"
proof (induction "j - i" arbitrary: i acc)
  case 0
  then show ?case by (simp add: buffer_sum_loop.simps)
next
  case (Suc n)
  then have lt: "i < j" and n: "n = j - Suc i" by auto
  let ?acc = "acc + scast (m ! i)"
  from Suc.hyps(1) [OF n, of ?acc] lt Suc.prems obtain s where
    s: "buffer_sum_loop m (int (Suc i)) (int j) ?acc = Some s"
       "ucast s = (ucast ?acc + sum_list (seg (Suc i) j m) :: u8)" by auto
  from lt Suc.prems have "buffer_sum_loop m (int i) (int j) acc = Some s"
    by (subst buffer_sum_loop.simps) (simp add: mem_get_Some s(1) [simplified] add.commute)
  moreover have "ucast s = (ucast acc + sum_list (seg i j m) :: u8)"
    using lt Suc.prems by (simp add: s(2) ucast_add_u8 ucast_scast_u8 seg_Cons add.assoc)
  ultimately show ?case by blast
qed

lemma sum_range [buf_simps]:
  "i \<le> j \<Longrightarrow> j \<le> length m \<Longrightarrow>
     buffer_sum_range m (int i) (int j) = Some (sum_list (seg i j m))"
  using sum_loop [of i j m 0] by (auto simp: buffer_sum_range_def)

lemma holds_sum [buf_simps]: "holds b bs \<Longrightarrow> buffer_sum b = Some (sum_list bs)"
  using sum_range [of "unat (b_start b)" "unat (b_end b)" "data b"]
  by (auto simp: holds_def buffer_wf_def buf_bytes_def buffer_sum_def buffer_start_def
        buffer_end_def)

lemma unat_sum_list_u8: "unat (sum_list (bs :: u8 list)) = sum_list (map unat bs) mod 256"
  by (induction bs) (simp_all add: unat_word_ariths mod_add_right_eq)

subsection \<open>Compaction\<close>

lemma holds_load [buf_simps]:
  "holds b bs \<Longrightarrow> mem_load (data b) (buffer_start b) (unat (buffer_size b)) = Some bs"
  using mem_load_Some [of "unat (b_start b)" "unat (buffer_size b)" "data b"]
  by (auto simp: holds_def unat_buffer_size buf_bytes_def seg_def buffer_start_def)
     (auto simp: buffer_wf_def)

lemma compact_holds [buf_simps]:
  assumes h: "holds b bs"
  shows "\<exists>b'. buffer_compact b = Some b' \<and> holds b' bs \<and> b_start b' = 0
    \<and> capacity b' = capacity b \<and> buffer_room b' = unat (capacity b) - length bs"
proof -
  let ?d = "bs @ drop (length bs) (data b)"
  let ?b = "b\<lparr>data := ?d, b_start := 0, b_end := buffer_size b\<rparr>"
  have len: "length bs \<le> length (data b)" "length (data b) = unat (capacity b)"
    using h holds_length [OF h] by (auto simp: holds_def buffer_wf_def)
  have "buffer_compact b = Some ?b"
    using mem_store_Some [of 0 bs "data b"] len
    by (simp add: buffer_compact_def holds_load [OF h])
  moreover have "holds ?b bs"
    using len by (simp add: holds_def buffer_wf_def buf_bytes_def holds_size [OF h] seg_def)
  ultimately show ?thesis by (auto simp: buffer_room_def holds_size [OF h])
qed

subsection \<open>Properties\<close>

text \<open>A buffer holding given bytes with \<open>n\<close> bytes of room, for concrete instances.\<close>

definition buffer_of :: "u8 list \<Rightarrow> nat \<Rightarrow> buffer" where
  "buffer_of bs n =
     \<lparr>b_start = 0, b_end = of_nat (length bs), capacity = of_nat (length bs + n), data = bs @ replicate n 0\<rparr>"

lemma buffer_of_holds:
  assumes "length bs + n < 2 ^ 64"
  shows "holds (buffer_of bs n) bs" "buffer_wf (buffer_of bs n)" "buffer_room (buffer_of bs n) = n"
proof -
  from assms have u: "unat (of_nat (length bs) :: ulong) = length bs"
      "unat (of_nat (length bs + n) :: ulong) = length bs + n"
    by (auto intro!: of_nat_inverse [OF refl] simp del: of_nat_add)
  then show "holds (buffer_of bs n) bs" "buffer_wf (buffer_of bs n)" "buffer_room (buffer_of bs n) = n"
    by (auto simp: buffer_of_def holds_def buffer_wf_def buf_bytes_def seg_def buffer_room_def
             simp del: of_nat_add)
qed


text \<open>C32: a buffer is a bounded first-in first-out byte queue.  Bytes put into a well-formed
  buffer are read back, after those it already held and in order, by single-byte reads, as
  long as they fit behind its end; one byte too many is an access outside the allocation.\<close>

theorem buffer_fifo:
  assumes "buffer_wf b"
  shows "if length xs \<le> buffer_room b
    then \<exists>b1 b2. buffer_puts b xs = Some b1
      \<and> buffer_get_n b1 (length (buf_bytes b) + length xs) = Some (buf_bytes b @ xs, b2)
      \<and> buf_bytes b2 = []
    else buffer_puts b xs = None"
  using bq.fifo [OF assms, of xs] bq.put_run_overflow [OF assms, of xs]
  by (auto simp: get_n_run puts_run)

theorem buffer_fifo_witness:
  "\<exists>b1 b2. buffer_puts (buffer_of [7] 2) [8, 9] = Some b1
     \<and> buffer_get_n b1 3 = Some ([7, 8, 9], b2) \<and> buf_bytes b2 = []"
proof -
  have h: "holds (buffer_of [7] 2) [7]" "buffer_wf (buffer_of [7] 2)" "buffer_room (buffer_of [7] 2) = 2"
    by (rule buffer_of_holds; simp)+
  then have "buf_bytes (buffer_of [7] 2) = [7]" by (simp add: holds_def)
  with buffer_fifo [OF h(2), of "[8, 9]"] h(3) show ?thesis
    by (simp add: numeral_3_eq_3 del: buffer_puts.simps buffer_get_n.simps)
qed

lemma buffer_recv_holds:
  assumes "holds b bs" and "\<And>n ds. io_recv n = IoOk ds \<Longrightarrow> length ds \<le> unat n"
  shows "\<exists>r b'. buffer_recv b io_recv sz = Some (r, b') \<and>
    (case io_recv (buffer_count b sz) of
       IoOk ds \<Rightarrow> holds b' (bs @ ds) \<and> r = of_nat (length ds) \<and> length ds \<le> unat sz
         \<and> b_start b' = b_start b \<and> capacity b' = capacity b
     | IoErr e \<Rightarrow> b' = b \<and> r = -1)"
proof (cases "io_recv (buffer_count b sz)")
  case (IoErr e)
  then show ?thesis by (simp add: buffer_recv_def)
next
  case (IoOk ds)
  have wf: "buffer_wf b" using assms(1) by blast
  from assms(2) [OF IoOk] have "length ds \<le> buffer_room b" "length ds \<le> unat sz"
    by (auto simp: buffer_count_def unat_buffer_remaining [OF wf, symmetric] word_less_nat_alt
             split: if_splits)
  with IoOk wf assms(1) show ?thesis
    by (auto simp: buffer_recv_def fill_extend holds_extend simp del: buffer_fill.simps)
qed

text \<open>C33: \<open>buffer_recv\<close> never stores more than it was asked for nor beyond the capacity: with a
  kernel that returns at most \<open>count\<close> bytes it appends exactly the received bytes to the unread
  ones, and on an error it returns -1 and leaves the buffer as it was.\<close>

theorem buffer_recv_appends:
  assumes "holds b bs" and "\<And>n ds. io_recv n = IoOk ds \<Longrightarrow> length ds \<le> unat n"
  shows "\<exists>r b'. buffer_recv b io_recv sz = Some (r, b') \<and>
    (case io_recv (buffer_count b sz) of
       IoOk ds \<Rightarrow> holds b' (bs @ ds) \<and> r = of_nat (length ds) \<and> length ds \<le> unat sz
         \<and> b_start b' = b_start b \<and> capacity b' = capacity b
     | IoErr e \<Rightarrow> b' = b \<and> r = -1)"
  by (rule buffer_recv_holds [OF assms])

theorem buffer_recv_appends_witness:
  "\<exists>r b'. buffer_recv (buffer_of [1] 4) (\<lambda>n. IoOk (take (unat n) [2, 3, 4])) 2 = Some (r, b')
     \<and> holds b' [1, 2, 3] \<and> r = 2"
proof -
  have h: "holds (buffer_of [1] 4) [1]" by (rule buffer_of_holds) simp
  have "buffer_count (buffer_of [1] 4) 2 = 2"
    by (simp add: buffer_count_def buffer_remaining_def buffer_of_def)
  with buffer_recv_appends [OF h, of "\<lambda>n. IoOk (take (unat n) [2, 3, 4])" 2] show ?thesis by auto
qed

text \<open>C34: \<open>buffer_compact\<close> moves the unread bytes to the front of the allocation: none is lost
  or reordered, \<open>start\<close> is 0 and all the space that was read becomes writable again.\<close>

theorem buffer_compact_keeps:
  assumes "holds b bs"
  shows "\<exists>b'. buffer_compact b = Some b' \<and> holds b' bs \<and> b_start b' = 0
    \<and> capacity b' = capacity b \<and> unat (buffer_remaining b') = unat (capacity b) - length bs"
  using compact_holds [OF assms] by (auto simp: unat_buffer_remaining holds_wf)

theorem buffer_compact_keeps_witness:
  "\<exists>b'. buffer_compact (buffer_advance (buffer_of [1, 2, 3] 1) 2) = Some b' \<and> holds b' [3]"
proof -
  have "holds (buffer_of [1, 2, 3] 1) [1, 2, 3]" by (rule buffer_of_holds) simp
  from holds_advance [OF this, of 2] have "holds (buffer_advance (buffer_of [1, 2, 3] 1) 2) [3]" by simp
  from buffer_compact_keeps [OF this] show ?thesis by blast
qed

text \<open>C35: the FIX checksum of a buffer is the sum of its unread bytes modulo 256, whether
  \<open>char\<close> is signed or not: the sign extension of bytes above 127 cancels in the low 8 bits.\<close>

theorem buffer_sum_mod_256:
  assumes "holds b bs"
  shows "map_option unat (buffer_sum b) = Some (sum_list (map unat bs) mod 256)"
  using holds_sum [OF assms] by (simp add: unat_sum_list_u8)

theorem buffer_sum_mod_256_witness:
  "map_option unat (buffer_sum (buffer_of [200, 100] 0)) = Some 44"
proof -
  have "holds (buffer_of [200, 100] 0) [200, 100]" by (rule buffer_of_holds) simp
  from buffer_sum_mod_256 [OF this] show ?thesis by simp
qed

text \<open>C36: \<open>xread\<close>, as its comment says, never returns \<open>EAGAIN\<close> or \<open>EINTR\<close>: what it
  returns is the kernel's first answer that is neither, all earlier ones were interruptions,
  and it does return as soon as the kernel gives such an answer.\<close>

theorem xread_never_interrupted:
  "xread calls count = Some (r, rest) \<longleftrightarrow>
     (\<exists>pre call. calls = pre @ call # rest \<and> r = call count \<and> \<not> interrupted r
        \<and> (\<forall>p \<in> set pre. interrupted (p count)))"
proof (unfold xread_def, induction calls)
  case Nil
  then show ?case by simp
next
  case (Cons a as)
  have split: "(\<exists>pre call. a # as = pre @ call # rest \<and> r = call count \<and> \<not> interrupted r
        \<and> (\<forall>p \<in> set pre. interrupted (p count))) \<longleftrightarrow>
      (if interrupted (a count)
       then \<exists>pre call. as = pre @ call # rest \<and> r = call count \<and> \<not> interrupted r
        \<and> (\<forall>p \<in> set pre. interrupted (p count))
       else as = rest \<and> r = a count)" (is "?L = ?R")
  proof
    assume ?L
    then obtain pre call where p: "a # as = pre @ call # rest" "r = call count" "\<not> interrupted r"
      "\<forall>p \<in> set pre. interrupted (p count)" by blast
    then show ?R by (cases pre) auto
  next
    assume R: ?R
    show ?L
    proof (cases "interrupted (a count)")
      case True
      with R obtain pre call where "as = pre @ call # rest" "r = call count" "\<not> interrupted r"
        "\<forall>p \<in> set pre. interrupted (p count)" by auto
      with True show ?thesis by (intro exI [of _ "a # pre"] exI [of _ call]) simp
    next
      case False
      with R show ?thesis by (intro exI [of _ "[]"] exI [of _ a]) simp
    qed
  qed
  show ?case unfolding split using Cons.IH
    by (cases "a count") (auto simp: interrupted_def)
qed

theorem xread_never_interrupted_witness:
  "xread [\<lambda>_. IoErr EINTR, \<lambda>_. IoErr EAGAIN, \<lambda>_. IoOk [1], \<lambda>_. IoOk [2]] 5
     = Some (IoOk [1], [\<lambda>_. IoOk [2]])"
  unfolding xread_never_interrupted
  by (intro exI [of _ "[\<lambda>_. IoErr EINTR, \<lambda>_. IoErr EAGAIN]"] exI [of _ "\<lambda>_. IoOk [1]"])
     (simp add: interrupted_def)

text \<open>The bytes \<open>buffer_append\<close> copies into an empty buffer end up before its \<open>start\<close>: the
  buffer is still empty.\<close>

lemma buffer_append_unread:
  assumes "holds dst []" "holds src ss" "length ss \<le> buffer_room dst"
  shows "\<exists>dst'. buffer_append dst src = Some dst' \<and> holds dst' []"
proof -
  have wf: "buffer_wf dst" using assms(1) by blast
  have se: "b_start dst = b_end dst"
    using holds_length [OF assms(1)] wf by (simp add: buffer_wf_def word_unat_eq_iff)
  have "unat (buffer_size src) \<le> unat (buffer_remaining dst)"
    using assms wf by (simp add: holds_size unat_buffer_remaining)
  then have len: "\<not> buffer_remaining dst < buffer_size src"
    by (simp add: word_less_nat_alt)
  have ld: "mem_load (data src) (uint (b_start src)) (unat (buffer_size src)) = Some ss"
    using holds_load [OF assms(2)] by (simp add: buffer_start_def)
  have sz: "buffer_size src = of_nat (length ss)" using assms(2) by (rule holds_size_of_nat)
  have st: "mem_store (data dst) (uint (b_end dst)) ss = Some (data (buffer_extend dst ss))"
    using wf assms(3) by (rule mem_store_end)
  have "buffer_append dst src = Some (dst\<lparr>data := data (buffer_extend dst ss),
      b_start := b_end dst + of_nat (length ss), b_end := b_end dst + of_nat (length ss)\<rparr>)"
    using len ld st by (simp add: buffer_append_def Let_def se sz)
  moreover have "holds (dst\<lparr>data := data (buffer_extend dst ss),
      b_start := b_end dst + of_nat (length ss), b_end := b_end dst + of_nat (length ss)\<rparr>) []"
    using extend_wf [OF wf assms(3)] by (simp add: holds_def buffer_wf_def buf_bytes_def)
  ultimately show ?thesis by blast
qed

end
