(* ===== verification/Fast_Wire.thy ===== *)
theory Fast_Wire
  imports Buffer
begin

text \<open>
  The transfer encoding of FAST (lib/proto/fast_message.c and fast_message.h): stop-bit
  coded integers, strings, byte vectors and presence maps.  In the code, a parser returns 0 (or
  a length), \<open>FAST_MSG_STATE_GARBLED\<close> or \<open>FAST_MSG_STATE_PARTIAL\<close>; here the two errors are the
  \<open>Inl\<close> side of a sum, and an access outside an array makes the whole call \<open>None\<close>.

  \<open>i64\<close> values are 64-bit words; the code's \<open>>>\<close> on them is \<open>signed_drop_bit\<close>.
\<close>

subsection \<open>Parsers\<close>

datatype fast_err = FAST_MSG_STATE_GARBLED | FAST_MSG_STATE_PARTIAL

text \<open>The loop \<open>for (i = 0; i < bytes; i++)\<close> of \<open>parse_uint\<close> and \<open>parse_int\<close>, whose bodies are
  the same: \<open>n\<close> is the number of iterations left.\<close>

fun parse_stop_loop :: "nat \<Rightarrow> buffer \<Rightarrow> u64 \<Rightarrow> ((fast_err + u64) \<times> buffer) option" where
  "parse_stop_loop 0 b result = Some (Inl FAST_MSG_STATE_GARBLED, b)"
| "parse_stop_loop (Suc n) b result =
     (if buffer_size b = 0 then Some (Inl FAST_MSG_STATE_PARTIAL, b)
      else do {
        (c, b) \<leftarrow> buffer_get_8 b;
        (if c AND 0x80 \<noteq> 0 then Some (Inr (push_bit 7 result OR ucast (c AND 0x7F)), b)
         else parse_stop_loop n b (push_bit 7 result OR ucast c)) })"

definition parse_uint :: "buffer \<Rightarrow> ((fast_err + u64) \<times> buffer) option" where
  "parse_uint b = parse_stop_loop 9 b 0"

definition parse_int :: "buffer \<Rightarrow> ((fast_err + i64) \<times> buffer) option" where
  "parse_int b =
     (if buffer_size b = 0 then Some (Inl FAST_MSG_STATE_PARTIAL, b)
      else do {
        c \<leftarrow> buffer_peek_8 b;
        parse_stop_loop 10 b (if c AND 0x40 \<noteq> 0 then - 1 else 0) })"

text \<open>\<open>parse_string\<close> stores the characters as it reads them, so the array is part of the result
  also when the parse fails.  \<open>sz - 1\<close> is an unsigned subtraction, as in the code.\<close>

function parse_string_loop ::
    "buffer \<Rightarrow> mem \<Rightarrow> ulong \<Rightarrow> nat \<Rightarrow> ((fast_err + nat) \<times> mem \<times> buffer) option" where
  "parse_string_loop b value sz len =
     (if len < unat (sz - 1) then
        (if buffer_size b = 0 then Some (Inl FAST_MSG_STATE_PARTIAL, value, b)
         else do {
           (c, b) \<leftarrow> buffer_get_8 b;
           (if c AND 0x80 \<noteq> 0 then do {
              value \<leftarrow> mem_put value (int len) (c AND 0x7F);
              value \<leftarrow> mem_put value (int (len + 1)) 0;
              Some (Inr (len + 1), value, b) }
            else do {
              value \<leftarrow> mem_put value (int len) c;
              parse_string_loop b value sz (len + 1) }) })
      else Some (Inl FAST_MSG_STATE_GARBLED, value, b))"
  by pat_completeness auto
termination
  by (relation "measure (\<lambda>(b, value, sz, len). unat (sz - 1) - len)") auto

declare parse_string_loop.simps [simp del]

definition parse_string :: "buffer \<Rightarrow> mem \<Rightarrow> ulong \<Rightarrow> ((fast_err + nat) \<times> mem \<times> buffer) option" where
  "parse_string b value sz = parse_string_loop b value sz 0"

text \<open>\<open>parse_bytes\<close>: \<open>len\<close> is an \<open>int\<close>, converted to \<open>unsigned long\<close> for the comparison with the
  buffer's size.\<close>

fun parse_bytes_loop :: "buffer \<Rightarrow> mem \<Rightarrow> nat \<Rightarrow> nat \<Rightarrow> (mem \<times> buffer) option" where
  "parse_bytes_loop b value i 0 = Some (value, b)"
| "parse_bytes_loop b value i (Suc n) = do {
     (c, b) \<leftarrow> buffer_get_8 b;
     value \<leftarrow> mem_put value (int i) c;
     parse_bytes_loop b value (i + 1) n }"

definition parse_bytes :: "buffer \<Rightarrow> mem \<Rightarrow> i32 \<Rightarrow> ((fast_err + unit) \<times> mem \<times> buffer) option" where
  "parse_bytes b value len =
     (if buffer_size b < scast len then Some (Inl FAST_MSG_STATE_PARTIAL, value, b)
      else do {
        (value, b) \<leftarrow> parse_bytes_loop b value 0 (nat (sint len));
        Some (Inr (), value, b) })"

subsection \<open>Presence maps\<close>

record fast_pmap =
  is_valid :: bool
  pmap_bit :: i64
  nr_bytes :: ulong
  pmap_bytes :: mem

definition FAST_PMAP_MAX_BYTES :: ulong where
  "FAST_PMAP_MAX_BYTES = 8"

function parse_pmap_loop :: "buffer \<Rightarrow> fast_pmap \<Rightarrow> ((fast_err + unit) \<times> fast_pmap \<times> buffer) option" where
  "parse_pmap_loop b p =
     (if nr_bytes p < FAST_PMAP_MAX_BYTES then
        (if buffer_size b = 0 then Some (Inl FAST_MSG_STATE_PARTIAL, p, b)
         else do {
           (c, b) \<leftarrow> buffer_get_8 b;
           m \<leftarrow> mem_put (pmap_bytes p) (uint (nr_bytes p)) c;
           (let p = p\<lparr>pmap_bytes := m, nr_bytes := nr_bytes p + 1\<rparr>
            in if c AND 0x80 \<noteq> 0 then Some (Inr (), p, b) else parse_pmap_loop b p) })
      else Some (Inl FAST_MSG_STATE_GARBLED, p, b))"
  by pat_completeness auto
termination
  by (relation "measure (\<lambda>(b, p). 8 - unat (nr_bytes p))")
     (auto simp: FAST_PMAP_MAX_BYTES_def word_less_nat_alt unat_word_ariths)

declare parse_pmap_loop.simps [simp del]

definition parse_pmap :: "buffer \<Rightarrow> fast_pmap \<Rightarrow> ((fast_err + unit) \<times> fast_pmap \<times> buffer) option" where
  "parse_pmap b p = parse_pmap_loop b (p\<lparr>nr_bytes := 0\<rparr>)"

definition pmap_is_set :: "fast_pmap \<Rightarrow> ulong \<Rightarrow> bool option" where
  "pmap_is_set p i =
     (if nr_bytes p \<le> i div 7 then Some False
      else do {
        c \<leftarrow> mem_get (pmap_bytes p) (uint (i div 7));
        Some (c AND push_bit (6 - unat (i mod 7)) 1 \<noteq> 0) })"

definition pmap_set :: "fast_pmap \<Rightarrow> ulong \<Rightarrow> (bool \<times> fast_pmap) option" where
  "pmap_set p i =
     (if nr_bytes p \<le> i div 7 then Some (False, p)
      else do {
        c \<leftarrow> mem_get (pmap_bytes p) (uint (i div 7));
        m \<leftarrow> mem_put (pmap_bytes p) (uint (i div 7)) (c OR push_bit (6 - unat (i mod 7)) 1);
        Some (True, p\<lparr>pmap_bytes := m\<rparr>) })"

subsection \<open>Printers\<close>

definition transfer_size_int :: "i64 \<Rightarrow> nat" where
  "transfer_size_int v =
     (let tmp = (if 0 \<le>s v then v else NOT v) in
      if signed_drop_bit 6 tmp = 0 then 1
      else if signed_drop_bit 13 tmp = 0 then 2
      else if signed_drop_bit 20 tmp = 0 then 3
      else if signed_drop_bit 27 tmp = 0 then 4
      else if signed_drop_bit 34 tmp = 0 then 5
      else if signed_drop_bit 41 tmp = 0 then 6
      else if signed_drop_bit 48 tmp = 0 then 7
      else if signed_drop_bit 55 tmp = 0 then 8
      else 9)"

definition transfer_size_uint :: "u64 \<Rightarrow> nat" where
  "transfer_size_uint v =
     (if drop_bit 7 v = 0 then 1
      else if drop_bit 14 v = 0 then 2
      else if drop_bit 21 v = 0 then 3
      else if drop_bit 28 v = 0 then 4
      else if drop_bit 35 v = 0 then 5
      else if drop_bit 42 v = 0 then 6
      else if drop_bit 49 v = 0 then 7
      else if drop_bit 56 v = 0 then 8
      else 9)"

text \<open>The \<open>switch (size)\<close> of \<open>transfer_uint\<close> and \<open>transfer_int\<close>: case \<open>k\<close> puts bits \<open>7 (k - 1)\<close>
  and up and falls through to case \<open>k - 1\<close>; case 1 sets the stop bit.\<close>

fun transfer_switch :: "(nat \<Rightarrow> u64 \<Rightarrow> u64) \<Rightarrow> nat \<Rightarrow> u64 \<Rightarrow> buffer \<Rightarrow> (bool \<times> buffer) option" where
  "transfer_switch shr 0 tmp b = Some (False, b)"
| "transfer_switch shr (Suc 0) tmp b = do {
     b \<leftarrow> buffer_put b (ucast ((tmp AND 0x7F) OR 0x80));
     Some (True, b) }"
| "transfer_switch shr (Suc (Suc n)) tmp b = do {
     b \<leftarrow> buffer_put b (ucast (shr (7 * Suc n) tmp AND 0x7F));
     transfer_switch shr (Suc n) tmp b }"

definition transfer_uint :: "buffer \<Rightarrow> u64 \<Rightarrow> (bool \<times> buffer) option" where
  "transfer_uint b tmp =
     (let sz = transfer_size_uint tmp in
      if buffer_remaining b < of_nat sz then Some (False, b)
      else transfer_switch drop_bit sz tmp b)"

definition transfer_int :: "buffer \<Rightarrow> i64 \<Rightarrow> (bool \<times> buffer) option" where
  "transfer_int b tmp =
     (let sz = transfer_size_int tmp in
      if buffer_remaining b < of_nat sz then Some (False, b)
      else transfer_switch signed_drop_bit sz tmp b)"

text \<open>\<open>transfer_string\<close>: the argument is \<open>None\<close> for a null pointer, or the array from the pointer
  on.\<close>

definition transfer_stop :: "buffer \<Rightarrow> (bool \<times> buffer) option" where
  "transfer_stop b =
     (if buffer_remaining b < 1 then Some (False, b)
      else do { b \<leftarrow> buffer_put b 0x80; Some (True, b) })"

fun transfer_string :: "buffer \<Rightarrow> mem option \<Rightarrow> (bool \<times> buffer) option" where
  "transfer_string b None = transfer_stop b"
| "transfer_string b (Some tmp) = do {
     n \<leftarrow> c_strlen tmp;
     (let sz = (if n = 0 then 1 else n) in
      if buffer_remaining b < of_nat sz then Some (False, b)
      else do {
        bs \<leftarrow> mem_load tmp 0 sz;
        b \<leftarrow> buffer_puts b bs;
        transfer_stop b }) }"

subsection \<open>What the parsers compute\<close>

text \<open>The stop-bit runs: \<open>no_stop\<close> holds of the bytes before the last, and \<open>stop_value\<close> is the
  number the seven-bit digits spell after a prefix \<open>r\<close>.\<close>

definition no_stop :: "u8 list \<Rightarrow> bool" where
  "no_stop xs \<longleftrightarrow> (\<forall>c\<in>set xs. c AND 0x80 = 0)"

definition stop_value :: "u64 \<Rightarrow> u8 list \<Rightarrow> u64" where
  "stop_value r xs = foldl (\<lambda>r c. push_bit 7 r OR ucast (c AND 0x7F)) r xs"

lemma no_stop_simps [simp]:
  "no_stop []" "no_stop (c # cs) \<longleftrightarrow> c AND 0x80 = 0 \<and> no_stop cs"
  "no_stop (xs @ ys) \<longleftrightarrow> no_stop xs \<and> no_stop ys"
  by (auto simp: no_stop_def)

lemma stop_value_simps [simp]:
  "stop_value r [] = r"
  "stop_value r (c # cs) = stop_value (push_bit 7 r OR ucast (c AND 0x7F)) cs"
  "stop_value r (xs @ ys) = stop_value (stop_value r xs) ys"
  by (simp_all add: stop_value_def)

lemma stop_bit_cases:
  obtains (full) xs ys where "bs = xs @ ys" "no_stop xs" "length xs = n"
  | (short) "no_stop bs" "length bs < n"
  | (stop) xs c ys where "bs = xs @ c # ys" "no_stop xs" "c AND 0x80 \<noteq> 0" "length xs < n"
proof -
  define P where "P c \<longleftrightarrow> c AND 0x80 = 0" for c :: u8
  have t: "no_stop (takeWhile P bs)" by (auto simp: no_stop_def P_def dest: set_takeWhileD)
  consider "n \<le> length (takeWhile P bs)" | "length bs < n" "takeWhile P bs = bs"
    | "length (takeWhile P bs) < n" "dropWhile P bs \<noteq> []"
    by (metis append_Nil2 linorder_not_le takeWhile_dropWhile_id)
  then show thesis
  proof cases
    case 1
    then have "take n bs = take n (takeWhile P bs)"
      by (metis append_take_drop_id takeWhile_eq_take take_take min.absorb1)
    with t have "no_stop (take n bs)" by (auto simp: no_stop_def dest: in_set_takeD)
    moreover have "n \<le> length bs" using 1 length_takeWhile_le order_trans by blast
    ultimately show ?thesis by (intro full [of "take n bs" "drop n bs"]) auto
  next
    case 2
    with t show ?thesis by (intro short) auto
  next
    case 3
    then obtain c ys where d: "dropWhile P bs = c # ys" by (cases "dropWhile P bs") auto
    have "\<not> P c" using d by (metis dropWhile_eq_Cons_conv)
    with 3 t d show ?thesis
      using takeWhile_dropWhile_id [of P bs]
      by (intro stop [of "takeWhile P bs" c ys]) (simp_all add: P_def)
  qed
qed

lemma low7_no_stop: "(c :: u8) AND 0x80 = 0 \<Longrightarrow> c AND 0x7F = c"
proof -
  assume z: "c AND 0x80 = 0"
  have "c AND 0xFF = c"
    using take_bit_word_eq_self [of 8 c] by (simp add: take_bit_eq_mask mask_eq_exp_minus_1)
  then have "c = (c AND 0x7F) OR (c AND 0x80)"
    by (simp flip: bit.conj_disj_distrib)
  then show ?thesis by (simp add: z)
qed

lemma holds_next:
  assumes "holds b (c # cs)"
  shows "buffer_size b \<noteq> 0" "buffer_get_8 b = Some (c, buffer_advance b 1)"
    "holds (buffer_advance b 1) cs"
  using assms holds_size_0 [OF assms] by (simp_all only: holds_get_8 holds_advance_1) simp_all

lemma stop_loop_stop:
  "holds b (xs @ c # ys) \<Longrightarrow> no_stop xs \<Longrightarrow> c AND 0x80 \<noteq> 0 \<Longrightarrow> length xs < n \<Longrightarrow>
     parse_stop_loop n b r
       = Some (Inr (stop_value r (xs @ [c])), buffer_advance b (of_nat (Suc (length xs))))"
proof (induction xs arbitrary: b r n)
  case Nil
  then show ?case by (cases n) (auto simp: holds_next)
next
  case (Cons x xs)
  then obtain k where n: "n = Suc k" by (cases n) auto
  from Cons.prems(1) have h: "holds b (x # xs @ c # ys)" by simp
  from Cons.IH [OF holds_next(3) [OF h], of k] Cons.prems n
  show ?case by (simp add: holds_next [OF h] low7_no_stop algebra_simps)
qed

lemma stop_loop_short:
  "holds b xs \<Longrightarrow> no_stop xs \<Longrightarrow> length xs < n \<Longrightarrow>
     parse_stop_loop n b r = Some (Inl FAST_MSG_STATE_PARTIAL, buffer_advance b (of_nat (length xs)))"
proof (induction xs arbitrary: b r n)
  case Nil
  then show ?case by (cases n) (auto simp: buf_simps)
next
  case (Cons x xs)
  then obtain k where n: "n = Suc k" by (cases n) auto
  from Cons.IH [OF holds_next(3) [OF Cons.prems(1)], of k] Cons.prems n
  show ?case by (simp add: holds_next [OF Cons.prems(1)] algebra_simps)
qed

lemma stop_loop_full:
  "holds b (xs @ ys) \<Longrightarrow> no_stop xs \<Longrightarrow>
     parse_stop_loop (length xs) b r
       = Some (Inl FAST_MSG_STATE_GARBLED, buffer_advance b (of_nat (length xs)))"
proof (induction xs arbitrary: b r)
  case (Cons x xs)
  then have h: "holds b (x # xs @ ys)" by simp
  from Cons.IH [OF holds_next(3) [OF h]] Cons.prems
  show ?case by (simp add: holds_next [OF h] algebra_simps)
qed simp

lemma parse_uint_stop [buf_simps]:
  "holds b (xs @ c # ys) \<Longrightarrow> no_stop xs \<Longrightarrow> c AND 0x80 \<noteq> 0 \<Longrightarrow> length xs < 9 \<Longrightarrow>
     parse_uint b = Some (Inr (stop_value 0 (xs @ [c])), buffer_advance b (of_nat (Suc (length xs))))"
  unfolding parse_uint_def by (rule stop_loop_stop)

lemma parse_uint_short [buf_simps]:
  "holds b xs \<Longrightarrow> no_stop xs \<Longrightarrow> length xs < 9 \<Longrightarrow>
     parse_uint b = Some (Inl FAST_MSG_STATE_PARTIAL, buffer_advance b (of_nat (length xs)))"
  unfolding parse_uint_def by (rule stop_loop_short)

lemma parse_uint_full [buf_simps]:
  "holds b (xs @ ys) \<Longrightarrow> no_stop xs \<Longrightarrow> length xs = 9 \<Longrightarrow>
     parse_uint b = Some (Inl FAST_MSG_STATE_GARBLED, buffer_advance b 9)"
  using stop_loop_full [of b xs ys 0] by (simp add: parse_uint_def)

definition int_seed :: "u8 list \<Rightarrow> i64" where
  "int_seed bs = (case bs of [] \<Rightarrow> 0 | c # _ \<Rightarrow> if c AND 0x40 \<noteq> 0 then - 1 else 0)"

lemma parse_int_loop:
  "holds b bs \<Longrightarrow> bs \<noteq> [] \<Longrightarrow> parse_int b = parse_stop_loop 10 b (int_seed bs)"
  by (cases bs) (auto simp: parse_int_def int_seed_def holds_next holds_peek_8)

lemma parse_int_stop [buf_simps]:
  assumes "holds b (xs @ c # ys)" "no_stop xs" "c AND 0x80 \<noteq> 0" "length xs < 10"
  shows "parse_int b = Some (Inr (stop_value (int_seed (xs @ [c])) (xs @ [c])),
    buffer_advance b (of_nat (Suc (length xs))))"
proof -
  have "int_seed (xs @ c # ys) = int_seed (xs @ [c])" by (cases xs) (auto simp: int_seed_def)
  moreover note parse_int_loop [OF assms(1)] stop_loop_stop [OF assms, of "int_seed (xs @ [c])"]
  ultimately show ?thesis by simp
qed

lemma parse_int_short [buf_simps]:
  "holds b xs \<Longrightarrow> no_stop xs \<Longrightarrow> length xs < 10 \<Longrightarrow>
     parse_int b = Some (Inl FAST_MSG_STATE_PARTIAL, buffer_advance b (of_nat (length xs)))"
proof (cases "xs = []")
  case True
  then show "holds b xs \<Longrightarrow> ?thesis" by (auto simp: parse_int_def holds_size_0)
next
  case False
  assume "holds b xs" "no_stop xs" "length xs < 10"
  with False show ?thesis using stop_loop_short by (simp add: parse_int_loop)
qed

lemma parse_int_full [buf_simps]:
  assumes "holds b (xs @ ys)" "no_stop xs" "length xs = 10"
  shows "parse_int b = Some (Inl FAST_MSG_STATE_GARBLED, buffer_advance b 10)"
proof -
  have "xs @ ys \<noteq> []" using assms(3) by auto
  with stop_loop_full [OF assms(1,2), of "int_seed (xs @ ys)"] parse_int_loop [OF assms(1)] assms(3)
  show ?thesis by simp
qed

subsection \<open>What the printers write\<close>

fun stop_digits :: "nat \<Rightarrow> u64 \<Rightarrow> u8 list" where
  "stop_digits 0 v = []"
| "stop_digits (Suc n) v = ucast (drop_bit (7 * Suc n) v AND 0x7F) # stop_digits n v"

definition stop_bytes :: "nat \<Rightarrow> u64 \<Rightarrow> u8 list" where
  "stop_bytes n v = stop_digits (n - 1) v @ [ucast ((v AND 0x7F) OR 0x80)]"

lemma and_7F: "w AND 0x7F = take_bit 7 (w :: 'a::len word)"
  by (simp add: take_bit_eq_mask mask_eq_exp_minus_1)

lemma bit_80: "bit (0x80 :: 'a::len word) i \<longleftrightarrow> i = 7 \<and> 7 < LENGTH('a)"
proof -
  have e: "(0x80 :: 'a word) = push_bit 7 1" by (simp add: push_bit_eq_mult)
  show ?thesis by (simp only: e bit_push_bit_iff bit_1_iff) auto
qed

lemma length_stop_digits [simp]: "length (stop_digits n v) = n"
  by (induction n) auto

lemma length_stop_bytes [simp]: "0 < n \<Longrightarrow> length (stop_bytes n v) = n"
  by (simp add: stop_bytes_def)

lemma and_80_0: "c AND 0x80 = 0 \<longleftrightarrow> \<not> bit (c :: u8) 7"
  by (auto simp: bit_eq_iff [of "c AND 0x80" 0] bit_and_iff bit_80
    simp del: bit_numeral_word_iff dest: spec [of _ 7])

lemma no_stop_digits [simp]: "no_stop (stop_digits n v)"
  by (induction n) (auto simp: and_80_0 and_7F bit_simps)

lemma stop_last [simp]: "ucast ((v AND 0x7F) OR 0x80 :: u64) AND (0x80 :: u8) \<noteq> 0"
  by (simp add: and_80_0 bit_simps bit_80 del: bit_numeral_word_iff)

lemma ucast_low7: "ucast (ucast (v AND 0x7F :: u64) AND (0x7F :: u8)) = v AND 0x7F"
  by (rule bit_word_eqI) (auto simp: and_7F bit_simps)

lemma ucast_last7: "ucast (ucast ((v AND 0x7F) OR 0x80 :: u64) AND (0x7F :: u8)) = v AND 0x7F"
  by (rule bit_word_eqI) (auto simp: and_7F bit_simps bit_80 simp del: bit_numeral_word_iff)

lemma signed_low7: "n \<le> 56 \<Longrightarrow> signed_drop_bit n v AND 0x7F = drop_bit n (v :: u64) AND 0x7F"
  by (rule bit_word_eqI) (auto simp: and_7F bit_simps)

lemma join7_unsigned: "push_bit 7 (drop_bit (n + 7) v) OR (drop_bit n v AND 0x7F) = drop_bit n (v :: u64)"
  by (rule bit_word_eqI) (auto simp: and_7F bit_simps algebra_simps)

lemma join7_signed:
  "n \<le> 56 \<Longrightarrow> push_bit 7 (signed_drop_bit (n + 7) v) OR (drop_bit n v AND 0x7F) = signed_drop_bit n (v :: u64)"
  by (rule bit_word_eqI) (auto simp: and_7F bit_simps algebra_simps)

lemma transfer_switch_extend:
  "(\<And>k. k \<le> 56 \<Longrightarrow> shr k v AND 0x7F = drop_bit k v AND 0x7F) \<Longrightarrow> 0 < n \<Longrightarrow> n \<le> 9 \<Longrightarrow>
     buffer_wf b \<Longrightarrow> n \<le> buffer_room b \<Longrightarrow>
     transfer_switch shr n v b = Some (True, buffer_extend b (stop_bytes n v))"
proof (induction shr n v b rule: transfer_switch.induct)
  case (2 shr v b)
  then show ?case by (simp add: put_extend stop_bytes_def)
next
  case (3 shr n v b)
  let ?d = "ucast (drop_bit (7 * Suc n) v AND 0x7F) :: u8"
  have e: "shr (7 * Suc n) v AND 0x7F = drop_bit (7 * Suc n) v AND 0x7F" using 3 by auto
  have r: "0 < buffer_room b" using "3.prems"(5) by simp
  have p: "buffer_put b (ucast (shr (7 * Suc n) v AND 0x7F)) = Some (buffer_extend b [?d])"
    unfolding e by (rule put_extend [OF "3.prems"(4) r])
  have "transfer_switch shr (Suc n) v (buffer_extend b [?d])
      = Some (True, buffer_extend (buffer_extend b [?d]) (stop_bytes (Suc n) v))"
    using "3.prems" by (intro "3.IH" [OF p]) (auto simp: extend_wf extend_room)
  also have "buffer_extend (buffer_extend b [?d]) (stop_bytes (Suc n) v)
      = buffer_extend b (stop_bytes (Suc (Suc n)) v)"
    using "3.prems" by (simp add: extend_extend stop_bytes_def)
  finally show ?case using p by simp
qed auto

lemma transfer_size_uint_bounds: "0 < transfer_size_uint v" "transfer_size_uint v \<le> 9"
  by (simp_all add: transfer_size_uint_def)

lemma transfer_size_int_bounds: "0 < transfer_size_int v" "transfer_size_int v \<le> 9"
  by (simp_all add: transfer_size_int_def Let_def)

lemma remaining_less_iff:
  "buffer_wf b \<Longrightarrow> n \<le> 9 \<Longrightarrow> buffer_remaining b < of_nat n \<longleftrightarrow> buffer_room b < n"
  by (simp add: word_less_nat_alt unat_buffer_remaining unat_of_nat)

lemma transfer_uint_extend [buf_simps]:
  "buffer_wf b \<Longrightarrow> transfer_uint b v =
     (if buffer_room b < transfer_size_uint v then Some (False, b)
      else Some (True, buffer_extend b (stop_bytes (transfer_size_uint v) v)))"
  using transfer_size_uint_bounds [of v]
  by (simp add: transfer_uint_def Let_def remaining_less_iff transfer_switch_extend)

lemma transfer_int_extend [buf_simps]:
  "buffer_wf b \<Longrightarrow> transfer_int b v =
     (if buffer_room b < transfer_size_int v then Some (False, b)
      else Some (True, buffer_extend b (stop_bytes (transfer_size_int v) v)))"
  using transfer_size_int_bounds [of v]
  by (simp add: transfer_int_def Let_def remaining_less_iff transfer_switch_extend signed_low7)

lemma stop_value_digits_unsigned:
  "stop_value (drop_bit (7 * Suc n) v) (stop_digits n v) = drop_bit 7 v"
proof (induction n)
  case (Suc n)
  with join7_unsigned [of "7 * Suc n" v] show ?case by (simp add: ucast_low7 algebra_simps)
qed simp

lemma stop_value_digits_signed:
  "n \<le> 8 \<Longrightarrow> stop_value (signed_drop_bit (7 * Suc n) v) (stop_digits n v) = signed_drop_bit 7 v"
proof (induction n)
  case (Suc n)
  with join7_signed [of "7 * Suc n" v] show ?case by (simp add: ucast_low7 algebra_simps)
qed simp

lemma stop_value_bytes_unsigned:
  "0 < n \<Longrightarrow> drop_bit (7 * n) v = 0 \<Longrightarrow> stop_value 0 (stop_bytes n v) = v"
  using stop_value_digits_unsigned [of "n - 1" v] join7_unsigned [of 0 v]
  by (simp add: stop_bytes_def ucast_last7)

lemma stop_value_bytes_signed:
  "0 < n \<Longrightarrow> n \<le> 9 \<Longrightarrow> stop_value (signed_drop_bit (7 * n) v) (stop_bytes n v) = v"
  using stop_value_digits_signed [of "n - 1" v] join7_signed [of 0 v]
  by (simp add: stop_bytes_def ucast_last7)

lemma transfer_size_uint_fits:
  assumes "unat v < 2 ^ 63"
  shows "drop_bit (7 * transfer_size_uint v) v = 0"
proof -
  have "unat (drop_bit 63 v) = 0"
    using assms by (subst unat_drop_bit_eq) (simp only: drop_bit_eq_div div_less)
  then have "drop_bit 63 v = 0" by (simp only: unat_eq_zero_iff)
  then show ?thesis by (simp add: transfer_size_uint_def)
qed

text \<open>A signed number of \<open>n\<close> digits: bits \<open>7 n - 1\<close> and up repeat the sign.\<close>

lemma sign_bit: "bit (v :: i64) 63 \<longleftrightarrow> v <s 0"
  using bit_last_iff [of v] by (simp add: word_sless_alt)

lemma signed_drop_bit_0:
  "signed_drop_bit k (w :: i64) = 0 \<Longrightarrow> k \<le> i \<Longrightarrow> i < 64 \<Longrightarrow> \<not> bit w i"
  using bit_signed_drop_bit_iff [of k w "i - k"] by (auto simp: bit_simps split: if_splits)

lemma sint_not: "sint (NOT v :: i64) = - sint v - 1"
proof -
  have "NOT v = word_of_int (- sint v - 1)" by (simp add: not_eq_complement)
  moreover have "- (2 ^ 63) \<le> - sint v - 1 \<and> - sint v - 1 < 2 ^ 63"
    using sint_greater_eq [of v] sint_less [of v] by auto
  ultimately show ?thesis
    by (simp only: int_word_sint) (simp add: mod_pos_pos_trivial)
qed

lemma transfer_size_int_sign:
  assumes "- (2 ^ 62) \<le> sint v" "sint v < 2 ^ 62" and i: "7 * transfer_size_int v - 1 \<le> i" "i < 64"
  shows "bit v i \<longleftrightarrow> v <s 0"
proof -
  define tmp where "tmp = (if 0 \<le>s v then v else NOT v)"
  have "0 \<le> sint tmp" "sint tmp < 2 ^ 62"
    using assms(1,2) by (auto simp: tmp_def word_sle_eq sint_not)
  then have "sint (signed_drop_bit 62 tmp) = 0"
    by (simp only: sint_signed_drop_bit_eq drop_bit_eq_div div_pos_pos_trivial)
  then have big: "signed_drop_bit 62 tmp = 0" by (simp only: signed_eq_0_iff)
  have "signed_drop_bit (7 * transfer_size_int v - 1) tmp = 0"
    using big by (simp add: transfer_size_int_def Let_def flip: tmp_def)
  from signed_drop_bit_0 [OF this i] have "\<not> bit tmp i" .
  then show ?thesis using i(2) by (auto simp: tmp_def word_sle_eq word_sless_alt bit_simps split: if_splits)
qed

lemma int_seed_stop_bytes:
  assumes "0 < n" "n \<le> 9"
  shows "int_seed (stop_bytes n v) = (if bit v (7 * n - 1) then - 1 else 0)"
proof -
  have b40: "c AND 0x40 = 0 \<longleftrightarrow> \<not> bit c 6" for c :: u8
    using and_exp_eq_0_iff_not_bit [of c 6] by simp
  show ?thesis
  proof (cases "n = 1")
    case True
    then show ?thesis
      by (simp add: stop_bytes_def int_seed_def b40 and_7F bit_simps bit_80 del: bit_numeral_word_iff)
  next
    case False
    then obtain k where "n = Suc (Suc k)" using assms by (cases n) (auto simp: gr0_conv_Suc)
    then show ?thesis using assms
      by (simp add: stop_bytes_def int_seed_def b40 and_7F bit_simps algebra_simps)
  qed
qed

lemma transfer_size_int_fits:
  assumes "- (2 ^ 62) \<le> sint v" "sint v < 2 ^ 62"
  shows "signed_drop_bit (7 * transfer_size_int v) v = int_seed (stop_bytes (transfer_size_int v) v)"
proof -
  let ?n = "transfer_size_int v"
  note n = transfer_size_int_bounds [of v]
  have seed: "int_seed (stop_bytes ?n v) = (if v <s 0 then - 1 else 0)"
    using n transfer_size_int_sign [OF assms, of "7 * ?n - 1"] by (simp add: int_seed_stop_bytes)
  have "bit (signed_drop_bit (7 * ?n) v) i \<longleftrightarrow> v <s 0" if "i < 64" for i
    using that n transfer_size_int_sign [OF assms, of "7 * ?n + i"]
      transfer_size_int_sign [OF assms, of 63]
    by (auto simp: bit_signed_drop_bit_iff)
  then show ?thesis by (intro bit_word_eqI) (simp add: seed)
qed

subsection \<open>Strings\<close>

definition enc_string :: "u8 list \<Rightarrow> u8 list" where
  "enc_string s = (if s = [] then [0] else s) @ [0x80]"

definition ascii_string :: "u8 list \<Rightarrow> bool" where
  "ascii_string s \<longleftrightarrow> 0 \<notin> set s \<and> no_stop s \<and> length s < 254"

lemma string_loop_stop:
  "holds b (xs @ c # ys) \<Longrightarrow> no_stop xs \<Longrightarrow> c AND 0x80 \<noteq> 0 \<Longrightarrow>
     len + length xs < unat (sz - 1) \<Longrightarrow> len + length xs + 1 < length m \<Longrightarrow>
     parse_string_loop b m sz len
       = Some (Inr (len + length xs + 1), splice m len (xs @ [c AND 0x7F, 0]),
               buffer_advance b (of_nat (Suc (length xs))))"
proof (induction xs arbitrary: b m len)
  case Nil
  have "mem_put m (int len) (c AND 0x7F) = Some (splice m len [c AND 0x7F])"
    and "mem_put (splice m len [c AND 0x7F]) (int (len + 1)) 0 = Some (splice m len [c AND 0x7F, 0])"
    using Nil.prems mem_put_splice [of "len + 1" "splice m len [c AND 0x7F]" 0]
    by (simp_all add: mem_put_splice splice_splice_after)
  with Nil.prems show ?case by (simp add: parse_string_loop.simps [of b] holds_next)
next
  case (Cons x xs)
  from Cons.prems(1) have h: "holds b (x # xs @ c # ys)" by simp
  have p: "mem_put m (int len) x = Some (splice m len [x])"
    using Cons.prems by (simp add: mem_put_splice)
  from Cons.IH [OF holds_next(3) [OF h], of "len + 1" "splice m len [x]"] Cons.prems
  show ?case
    by (simp add: parse_string_loop.simps [of b] holds_next [OF h] p splice_splice_after algebra_simps)
qed

lemma string_loop_short:
  "holds b xs \<Longrightarrow> no_stop xs \<Longrightarrow> len + length xs < unat (sz - 1) \<Longrightarrow> len + length xs \<le> length m \<Longrightarrow>
     parse_string_loop b m sz len
       = Some (Inl FAST_MSG_STATE_PARTIAL, splice m len xs, buffer_advance b (of_nat (length xs)))"
proof (induction xs arbitrary: b m len)
  case Nil
  then show ?case by (simp add: parse_string_loop.simps [of b] holds_size_0 splice_def)
next
  case (Cons x xs)
  have p: "mem_put m (int len) x = Some (splice m len [x])"
    using Cons.prems by (simp add: mem_put_splice)
  from Cons.IH [OF holds_next(3) [OF Cons.prems(1)], of "len + 1" "splice m len [x]"] Cons.prems
  show ?case
    by (simp add: parse_string_loop.simps [of b] holds_next [OF Cons.prems(1)] p splice_splice_after
        algebra_simps)
qed

lemma string_loop_full:
  "holds b (xs @ ys) \<Longrightarrow> no_stop xs \<Longrightarrow> len + length xs = unat (sz - 1) \<Longrightarrow> len + length xs \<le> length m \<Longrightarrow>
     parse_string_loop b m sz len
       = Some (Inl FAST_MSG_STATE_GARBLED, splice m len xs, buffer_advance b (of_nat (length xs)))"
proof (induction xs arbitrary: b m len)
  case Nil
  then show ?case by (simp add: parse_string_loop.simps [of b] splice_def)
next
  case (Cons x xs)
  from Cons.prems(1) have h: "holds b (x # xs @ ys)" by simp
  have p: "mem_put m (int len) x = Some (splice m len [x])"
    using Cons.prems by (simp add: mem_put_splice)
  from Cons.IH [OF holds_next(3) [OF h], of "len + 1" "splice m len [x]"] Cons.prems
  show ?case
    by (simp add: parse_string_loop.simps [of b] holds_next [OF h] p splice_splice_after algebra_simps)
qed

lemma transfer_string_extend:
  assumes s: "0 \<notin> set s" "length s < 2 ^ 63" and wf: "buffer_wf b"
    and room: "length (enc_string s) \<le> buffer_room b"
  shows "transfer_string b (Some (s @ 0 # m)) = Some (True, buffer_extend b (enc_string s))"
proof -
  let ?p = "if s = [] then [0] else s"
  have l: "length ?p = (if length s = 0 then 1 else length s)" by auto
  have ld: "mem_load (s @ 0 # m) 0 (length ?p) = Some ?p"
    using mem_load_Some [of 0 "length ?p" "s @ 0 # m"] by auto
  have r: "length ?p + 1 \<le> buffer_room b" using room by (simp add: enc_string_def)
  have g1: "\<not> buffer_remaining b < of_nat (length ?p)"
    using s r by (auto simp: word_less_nat_alt unat_buffer_remaining [OF wf] unat_of_nat)
  have w: "buffer_wf (buffer_extend b ?p)" "buffer_room (buffer_extend b ?p) = buffer_room b - length ?p"
    using wf r by (simp_all add: extend_wf extend_room)
  have g2: "\<not> buffer_remaining (buffer_extend b ?p) < 1"
    using r by (simp add: word_less_nat_alt unat_buffer_remaining [OF w(1)] w(2))
  have "transfer_stop (buffer_extend b ?p) = Some (True, buffer_extend (buffer_extend b ?p) [0x80])"
    using r g2 put_extend [OF w(1), of "0x80"] by (simp add: transfer_stop_def w(2))
  also have "buffer_extend (buffer_extend b ?p) [0x80] = buffer_extend b (enc_string s)"
    using wf r by (simp add: extend_extend enc_string_def)
  finally show ?thesis
    using s ld g1 l puts_extend [OF wf, of ?p] r by (simp add: Let_def)
qed

subsection \<open>A codec for stop-bit entities\<close>

text \<open>What the users of the transfer encoding rely on: a printer that appends the encoding of a
  value when there is room and a parser that takes exactly that encoding off the front, and asks
  for more bytes when it has only part of it.\<close>

fun put_all :: "(buffer \<Rightarrow> 'v \<Rightarrow> (bool \<times> buffer) option) \<Rightarrow> buffer \<Rightarrow> 'v list \<Rightarrow> (bool \<times> buffer) option" where
  "put_all put b [] = Some (True, b)"
| "put_all put b (v # vs) = do {
     (ok, b) \<leftarrow> put b v;
     (if ok then put_all put b vs else Some (False, b)) }"

fun get_all :: "(buffer \<Rightarrow> ((fast_err + 'v) \<times> buffer) option) \<Rightarrow> nat \<Rightarrow> buffer \<Rightarrow> ((fast_err + 'v list) \<times> buffer) option" where
  "get_all get 0 b = Some (Inr [], b)"
| "get_all get (Suc n) b = do {
     (r, b) \<leftarrow> get b;
     (case r of
        Inl e \<Rightarrow> Some (Inl e, b)
      | Inr v \<Rightarrow> do {
          (r, b) \<leftarrow> get_all get n b;
          Some (map_sum id (\<lambda>vs. v # vs) r, b) }) }"

locale wire_codec =
  fixes put :: "buffer \<Rightarrow> 'v \<Rightarrow> (bool \<times> buffer) option"
    and get :: "buffer \<Rightarrow> ((fast_err + 'v) \<times> buffer) option"
    and enc :: "'v \<Rightarrow> u8 list"
    and valid :: "'v \<Rightarrow> bool"
  assumes put_enc: "valid v \<Longrightarrow> buffer_wf b \<Longrightarrow> length (enc v) \<le> buffer_room b \<Longrightarrow>
      put b v = Some (True, buffer_extend b (enc v))"
    and get_enc: "valid v \<Longrightarrow> holds b (enc v @ rest) \<Longrightarrow>
      get b = Some (Inr v, buffer_advance b (of_nat (length (enc v))))"
    and get_part: "valid v \<Longrightarrow> holds b xs \<Longrightarrow> enc v = xs @ ys \<Longrightarrow> ys \<noteq> [] \<Longrightarrow>
      \<exists>b'. get b = Some (Inl FAST_MSG_STATE_PARTIAL, b')"
    and enc_short: "valid v \<Longrightarrow> length (enc v) < 2 ^ 32"
begin

lemma put_all_enc:
  "(\<forall>v\<in>set vs. valid v) \<Longrightarrow> buffer_wf b \<Longrightarrow> length (concat (map enc vs)) \<le> buffer_room b \<Longrightarrow>
     put_all put b vs = Some (True, buffer_extend b (concat (map enc vs)))"
proof (induction vs arbitrary: b)
  case (Cons v vs)
  let ?b = "buffer_extend b (enc v)"
  from Cons.prems have r: "length (enc v) \<le> buffer_room b"
    "length (enc v) + length (concat (map enc vs)) \<le> buffer_room b" by auto
  have "put_all put ?b vs = Some (True, buffer_extend ?b (concat (map enc vs)))"
    using Cons.prems r by (intro Cons.IH) (auto simp: extend_wf extend_room)
  then show ?case
    using Cons.prems(1,2) put_enc [of v b] extend_extend [OF Cons.prems(2) r(2)] r(1) by auto
qed simp

lemma get_all_enc:
  "(\<forall>v\<in>set vs. valid v) \<Longrightarrow> holds b (concat (map enc vs) @ rest) \<Longrightarrow>
     get_all get (length vs) b
       = Some (Inr vs, buffer_advance b (of_nat (length (concat (map enc vs)))))"
proof (induction vs arbitrary: b)
  case (Cons v vs)
  let ?b = "buffer_advance b (of_nat (length (enc v)))"
  from Cons.prems have h: "holds b (enc v @ concat (map enc vs) @ rest)" by simp
  from holds_advance [OF h, of "length (enc v)"]
  have "holds ?b (concat (map enc vs) @ rest)" by simp
  with Cons.IH Cons.prems(1) have
    "get_all get (length vs) ?b = Some (Inr vs, buffer_advance ?b (of_nat (length (concat (map enc vs)))))"
    by auto
  moreover have "get b = Some (Inr v, ?b)" using Cons.prems(1) by (intro get_enc [OF _ h]) simp
  ultimately show ?case by simp
qed simp

text \<open>No encoding is a prefix of another one, so the stream needs no separators.\<close>

lemma enc_prefix_free:
  assumes v: "valid v" and w: "valid w" and e: "enc v = enc w @ ys"
  shows "v = w"
proof -
  have l: "length (enc v) + 0 < 2 ^ 64" using enc_short [OF v] by simp
  note hv = buffer_of_holds(1) [OF l]
  from hv get_enc [OF v, of "buffer_of (enc v) 0" "[]"]
  have gv: "get (buffer_of (enc v) 0) = Some (Inr v, buffer_advance (buffer_of (enc v) 0) (of_nat (length (enc v))))"
    by simp
  from hv e have "holds (buffer_of (enc v) 0) (enc w @ ys)" by simp
  from get_enc [OF w this] gv show ?thesis by simp
qed

end

subsection \<open>The three codecs\<close>

lemma not_stop_prefix:
  assumes "xs @ ys = zs @ [c]" "ys \<noteq> []" "no_stop zs"
  shows "no_stop xs" "length xs \<le> length zs"
proof -
  obtain us where "zs = xs @ us"
    using assms(1,2) by (metis append_butlast_last_id butlast_append butlast_snoc)
  with assms(3) show "no_stop xs" "length xs \<le> length zs" by simp_all
qed

lemma stop_bytes_split:
  "0 < n \<Longrightarrow> stop_bytes n v = stop_digits (n - 1) v @ [ucast ((v AND 0x7F) OR 0x80)]"
  by (simp add: stop_bytes_def)

definition uint_fits :: "u64 \<Rightarrow> bool" where
  "uint_fits v \<longleftrightarrow> unat v < 2 ^ 63"

definition int_fits :: "i64 \<Rightarrow> bool" where
  "int_fits v \<longleftrightarrow> - (2 ^ 62) \<le> sint v \<and> sint v < 2 ^ 62"

definition enc_uint :: "u64 \<Rightarrow> u8 list" where
  "enc_uint v = stop_bytes (transfer_size_uint v) v"

definition enc_int :: "i64 \<Rightarrow> u8 list" where
  "enc_int v = stop_bytes (transfer_size_int v) v"

text \<open>A string is read into an array of 256 bytes, as the decoders of string fields do.\<close>

definition get_string :: "buffer \<Rightarrow> ((fast_err + u8 list) \<times> buffer) option" where
  "get_string b = do {
     (r, m, b) \<leftarrow> parse_string b (replicate 256 0) 256;
     Some (map_sum id (\<lambda>_. c_str m) r, b) }"

interpretation uint_codec: wire_codec transfer_uint parse_uint enc_uint uint_fits
proof unfold_locales
  fix v b
  assume "buffer_wf b" "length (enc_uint v) \<le> buffer_room b"
  then show "transfer_uint b v = Some (True, buffer_extend b (enc_uint v))"
    using transfer_size_uint_bounds [of v] by (simp add: transfer_uint_extend enc_uint_def)
next
  fix v b rest
  assume v: "uint_fits v" and h: "holds b (enc_uint v @ rest)"
  let ?n = "transfer_size_uint v"
  note n = transfer_size_uint_bounds [of v]
  have sb: "stop_bytes ?n v = stop_digits (?n - 1) v @ [ucast ((v AND 0x7F) OR 0x80)]"
    using n by (simp add: stop_bytes_split)
  have "holds b (stop_digits (?n - 1) v @ ucast ((v AND 0x7F) OR 0x80) # rest)"
    using h by (simp add: enc_uint_def sb)
  from parse_uint_stop [OF this no_stop_digits stop_last, folded sb] n
  have "parse_uint b = Some (Inr (stop_value 0 (stop_bytes ?n v)), buffer_advance b (of_nat ?n))"
    by simp
  also have "stop_value 0 (stop_bytes ?n v) = v"
    using v n by (simp add: uint_fits_def stop_value_bytes_unsigned transfer_size_uint_fits)
  finally show "parse_uint b = Some (Inr v, buffer_advance b (of_nat (length (enc_uint v))))"
    using n by (simp add: enc_uint_def)
next
  fix v b xs ys
  assume h: "holds b xs" and e: "enc_uint v = xs @ ys" "ys \<noteq> []"
  note n = transfer_size_uint_bounds [of v]
  have "xs @ ys = stop_digits (transfer_size_uint v - 1) v @ [ucast ((v AND 0x7F) OR 0x80)]"
    using e n by (simp add: enc_uint_def stop_bytes_split)
  note p = not_stop_prefix [OF this e(2) no_stop_digits]
  show "\<exists>b'. parse_uint b = Some (Inl FAST_MSG_STATE_PARTIAL, b')"
    using parse_uint_short [OF h p(1)] p(2) n by auto
next
  fix v
  show "length (enc_uint v) < 2 ^ 32"
    using transfer_size_uint_bounds [of v] by (simp add: enc_uint_def)
qed

interpretation int_codec: wire_codec transfer_int parse_int enc_int int_fits
proof unfold_locales
  fix v b
  assume "buffer_wf b" "length (enc_int v) \<le> buffer_room b"
  then show "transfer_int b v = Some (True, buffer_extend b (enc_int v))"
    using transfer_size_int_bounds [of v] by (simp add: transfer_int_extend enc_int_def)
next
  fix v b rest
  assume v: "int_fits v" and h: "holds b (enc_int v @ rest)"
  let ?n = "transfer_size_int v"
  note n = transfer_size_int_bounds [of v]
  have sb: "stop_bytes ?n v = stop_digits (?n - 1) v @ [ucast ((v AND 0x7F) OR 0x80)]"
    using n by (simp add: stop_bytes_split)
  have "holds b (stop_digits (?n - 1) v @ ucast ((v AND 0x7F) OR 0x80) # rest)"
    using h by (simp add: enc_int_def sb)
  from parse_int_stop [OF this no_stop_digits stop_last, folded sb] n
  have "parse_int b = Some (Inr (stop_value (int_seed (stop_bytes ?n v)) (stop_bytes ?n v)),
      buffer_advance b (of_nat ?n))" by simp
  also have "stop_value (int_seed (stop_bytes ?n v)) (stop_bytes ?n v) = v"
    using v n transfer_size_int_fits [of v] stop_value_bytes_signed [of ?n v] by (simp add: int_fits_def)
  finally show "parse_int b = Some (Inr v, buffer_advance b (of_nat (length (enc_int v))))"
    using n by (simp add: enc_int_def)
next
  fix v b xs ys
  assume h: "holds b xs" and e: "enc_int v = xs @ ys" "ys \<noteq> []"
  note n = transfer_size_int_bounds [of v]
  have "xs @ ys = stop_digits (transfer_size_int v - 1) v @ [ucast ((v AND 0x7F) OR 0x80)]"
    using e n by (simp add: enc_int_def stop_bytes_split)
  note p = not_stop_prefix [OF this e(2) no_stop_digits]
  show "\<exists>b'. parse_int b = Some (Inl FAST_MSG_STATE_PARTIAL, b')"
    using parse_int_short [OF h p(1)] p(2) n by auto
next
  fix v
  show "length (enc_int v) < 2 ^ 32"
    using transfer_size_int_bounds [of v] by (simp add: enc_int_def)
qed

text \<open>For strings the printer's argument is the string itself, with the NUL that ends it.\<close>

lemma parse_string_stop [buf_simps]:
  "holds b (xs @ c # ys) \<Longrightarrow> no_stop xs \<Longrightarrow> c AND 0x80 \<noteq> 0 \<Longrightarrow> length xs < unat (sz - 1) \<Longrightarrow>
     length xs + 1 < length m \<Longrightarrow>
     parse_string b m sz = Some (Inr (length xs + 1), splice m 0 (xs @ [c AND 0x7F, 0]),
       buffer_advance b (of_nat (Suc (length xs))))"
  using string_loop_stop [of b xs c ys 0 sz m] by (simp add: parse_string_def)

lemma parse_string_short [buf_simps]:
  "holds b xs \<Longrightarrow> no_stop xs \<Longrightarrow> length xs < unat (sz - 1) \<Longrightarrow> length xs \<le> length m \<Longrightarrow>
     parse_string b m sz
       = Some (Inl FAST_MSG_STATE_PARTIAL, splice m 0 xs, buffer_advance b (of_nat (length xs)))"
  using string_loop_short [of b xs 0 sz m] by (simp add: parse_string_def)

lemma parse_string_full [buf_simps]:
  "holds b (xs @ ys) \<Longrightarrow> no_stop xs \<Longrightarrow> length xs = unat (sz - 1) \<Longrightarrow> length xs \<le> length m \<Longrightarrow>
     parse_string b m sz
       = Some (Inl FAST_MSG_STATE_GARBLED, splice m 0 xs, buffer_advance b (of_nat (length xs)))"
  using string_loop_full [of b xs ys 0 sz m] by (simp add: parse_string_def)

interpretation string_codec: wire_codec
  "\<lambda>b s. transfer_string b (Some (s @ [0]))" get_string enc_string ascii_string
proof unfold_locales
  fix s b
  assume "ascii_string s" "buffer_wf b" "length (enc_string s) \<le> buffer_room b"
  then show "transfer_string b (Some (s @ [0])) = Some (True, buffer_extend b (enc_string s))"
    by (intro transfer_string_extend) (auto simp: ascii_string_def)
next
  fix s b rest
  assume s: "ascii_string s" and h: "holds b (enc_string s @ rest)"
  let ?p = "if s = [] then [0] else s"
  have h': "holds b (?p @ 0x80 # rest)" using h by (simp add: enc_string_def)
  have p: "no_stop ?p" "length ?p < unat ((256 :: ulong) - 1)" "length ?p + 1 < length (replicate 256 (0 :: u8))"
    using s by (auto simp: ascii_string_def)
  have "c_str (splice (replicate 256 0) 0 (?p @ [(0x80 :: u8) AND 0x7F, 0])) = s"
    using s by (auto simp: splice_def ascii_string_def c_str_def takeWhile_append)
  moreover have "(0x80 :: u8) AND 0x80 \<noteq> 0" by simp
  note parse_string_stop [OF h' p(1) this p(2,3)]
  ultimately show "get_string b = Some (Inr s, buffer_advance b (of_nat (length (enc_string s))))"
    by (simp add: get_string_def enc_string_def)
next
  fix s b xs ys
  assume s: "ascii_string s" and h: "holds b xs" and e: "enc_string s = xs @ ys" "ys \<noteq> []"
  let ?p = "if s = [] then [0] else s"
  have "xs @ ys = ?p @ [0x80]" using e by (simp add: enc_string_def)
  note p = not_stop_prefix [OF this e(2)]
  have q: "no_stop ?p" "length ?p < 255" using s by (auto simp: ascii_string_def)
  from p(1) [OF q(1)] p(2) [OF q(1)] q(2) have "no_stop xs" "length xs < 255" by linarith+
  then show "\<exists>b'. get_string b = Some (Inl FAST_MSG_STATE_PARTIAL, b')"
    using parse_string_short [OF h, of 256 "replicate 256 0"] by (simp add: get_string_def)
next
  fix s
  show "ascii_string s \<Longrightarrow> length (enc_string s) < 2 ^ 32"
    by (simp add: enc_string_def ascii_string_def)
qed

subsection \<open>Presence map laws\<close>

definition pmap_wf :: "fast_pmap \<Rightarrow> bool" where
  "pmap_wf p \<longleftrightarrow> nr_bytes p \<le> FAST_PMAP_MAX_BYTES \<and> length (pmap_bytes p) = 8"

definition pmap_get :: "fast_pmap \<Rightarrow> nat \<Rightarrow> bool" where
  "pmap_get p i \<longleftrightarrow> i div 7 < unat (nr_bytes p) \<and> bit (pmap_bytes p ! (i div 7)) (6 - i mod 7)"

lemma unat_div_mod_7: "unat ((i :: ulong) div 7) = unat i div 7" "unat (i mod 7) = unat i mod 7"
  by (simp_all add: unat_div unat_mod)

lemma pmap_wf_less:
  "pmap_wf p \<Longrightarrow> \<not> nr_bytes p \<le> w \<Longrightarrow> unat w < length (pmap_bytes p)"
  by (auto simp: pmap_wf_def FAST_PMAP_MAX_BYTES_def word_le_nat_alt)

lemma pmap_is_set_get [buf_simps]: "pmap_wf p \<Longrightarrow> pmap_is_set p i = Some (pmap_get p (unat i))"
proof -
  assume p: "pmap_wf p"
  have "c AND push_bit k 1 = 0 \<longleftrightarrow> \<not> bit (c :: u8) k" for c k
    using and_exp_eq_0_iff_not_bit [of c k] by (simp add: push_bit_eq_mult)
  then show ?thesis using pmap_wf_less [OF p, of "i div 7"]
    by (auto simp: pmap_is_set_def pmap_get_def unat_div_mod_7 mem_get_uint word_le_nat_alt not_le)
qed

lemma bit_or_exp: "k < 8 \<Longrightarrow> bit ((c :: u8) OR push_bit k 1) m \<longleftrightarrow> bit c m \<or> m = k"
  by (simp only: bit_or_iff bit_push_bit_iff bit_1_iff) auto

lemma bit_or_pow: "k < 8 \<Longrightarrow> bit ((c :: u8) OR 2 ^ k) m \<longleftrightarrow> bit c m \<or> m = k"
  using bit_or_exp [of k c m] by simp

lemma div_mod_7_eq: "i div 7 = j div 7 \<and> 6 - i mod 7 = 6 - j mod 7 \<longleftrightarrow> i = (j :: nat)"
proof
  assume "i div 7 = j div 7 \<and> 6 - i mod 7 = 6 - j mod 7"
  moreover have "i mod 7 < 7" "j mod 7 < 7" by simp_all
  ultimately have "i div 7 = j div 7" "i mod 7 = j mod 7" by linarith+
  then show "i = j" by (metis div_mult_mod_eq)
qed simp

lemma pmap_set_get [buf_simps]:
  assumes p: "pmap_wf p"
  shows "\<exists>p'. pmap_set p i = Some (unat i < 7 * unat (nr_bytes p), p') \<and> pmap_wf p'
    \<and> nr_bytes p' = nr_bytes p \<and> pmap_bit p' = pmap_bit p \<and> is_valid p' = is_valid p
    \<and> (\<forall>j. pmap_get p' j \<longleftrightarrow> (j = unat i \<and> unat i < 7 * unat (nr_bytes p)) \<or> pmap_get p j)"
proof (cases "nr_bytes p \<le> i div 7")
  case True
  then have "\<not> unat i < 7 * unat (nr_bytes p)"
    by (simp add: word_le_nat_alt unat_div_mod_7)
  with True p show ?thesis by (auto simp: pmap_set_def)
next
  case False
  let ?k = "unat i div 7" and ?b = "6 - unat i mod 7"
  let ?c = "pmap_bytes p ! ?k"
  let ?p = "p\<lparr>pmap_bytes := (pmap_bytes p)[?k := ?c OR push_bit ?b 1]\<rparr>"
  have k: "?k < length (pmap_bytes p)" using pmap_wf_less [OF p False] by (simp add: unat_div_mod_7)
  have in_range: "?k < unat (nr_bytes p)" using False by (simp add: word_le_nat_alt unat_div_mod_7)
  then have lt: "unat i < 7 * unat (nr_bytes p)" by linarith
  have "mem_put (pmap_bytes p) (uint (i div 7)) (?c OR push_bit ?b 1)
      = Some ((pmap_bytes p)[?k := ?c OR push_bit ?b 1])"
    using mem_put_Some [OF k] by (simp add: uint_nat unat_div_mod_7 del: of_nat_unat)
  moreover have "mem_get (pmap_bytes p) (uint (i div 7)) = Some ?c"
    using k by (simp add: mem_get_uint unat_div_mod_7)
  ultimately have "pmap_set p i = Some (True, ?p)"
    using False by (simp add: pmap_set_def unat_div_mod_7)
  moreover have "pmap_wf ?p" using p by (simp add: pmap_wf_def)
  moreover have "pmap_get ?p j \<longleftrightarrow> j = unat i \<or> pmap_get p j" for j
    using in_range k div_mod_7_eq [of j "unat i"]
    by (auto simp: pmap_get_def nth_list_update bit_or_pow)
  ultimately show ?thesis using lt by auto
qed

lemma pmap_loop_step:
  assumes "holds b (c # cs)" "unat (nr_bytes p) = n" "n < 8" "length (pmap_bytes p) = 8"
  shows "parse_pmap_loop b p =
    (let q = p\<lparr>pmap_bytes := splice (pmap_bytes p) n [c], nr_bytes := nr_bytes p + 1\<rparr>
     in if c AND 0x80 \<noteq> 0 then Some (Inr (), q, buffer_advance b 1)
        else parse_pmap_loop (buffer_advance b 1) q)"
    and "unat (nr_bytes p + 1) = Suc n"
proof -
  have "mem_put (pmap_bytes p) (uint (nr_bytes p)) c = Some (splice (pmap_bytes p) n [c])"
    using assms mem_put_splice [of n "pmap_bytes p" c] by (simp add: uint_nat del: of_nat_unat)
  moreover have "nr_bytes p < FAST_PMAP_MAX_BYTES"
    using assms by (simp add: FAST_PMAP_MAX_BYTES_def word_less_nat_alt)
  ultimately show "parse_pmap_loop b p =
    (let q = p\<lparr>pmap_bytes := splice (pmap_bytes p) n [c], nr_bytes := nr_bytes p + 1\<rparr>
     in if c AND 0x80 \<noteq> 0 then Some (Inr (), q, buffer_advance b 1)
        else parse_pmap_loop (buffer_advance b 1) q)"
    using holds_next [OF assms(1)] by (simp add: parse_pmap_loop.simps [of b p] Let_def)
  show "unat (nr_bytes p + 1) = Suc n" using assms by (subst unat_plus_1 [of _ 8]) auto
qed

lemma pmap_loop_stop:
  "holds b (xs @ c # ys) \<Longrightarrow> no_stop xs \<Longrightarrow> c AND 0x80 \<noteq> 0 \<Longrightarrow> unat (nr_bytes p) = n \<Longrightarrow>
     n + length xs < 8 \<Longrightarrow> length (pmap_bytes p) = 8 \<Longrightarrow>
     parse_pmap_loop b p = Some (Inr (),
       p\<lparr>pmap_bytes := splice (pmap_bytes p) n (xs @ [c]), nr_bytes := nr_bytes p + of_nat (Suc (length xs))\<rparr>,
       buffer_advance b (of_nat (Suc (length xs))))"
proof (induction xs arbitrary: b p n)
  case Nil
  then show ?case by (simp add: pmap_loop_step)
next
  case (Cons x xs)
  from Cons.prems have h: "holds b (x # xs @ c # ys)" and n: "n < 8" by auto
  note s = pmap_loop_step [OF h Cons.prems(4) n Cons.prems(6)]
  let ?q = "p\<lparr>pmap_bytes := splice (pmap_bytes p) n [x], nr_bytes := nr_bytes p + 1\<rparr>"
  from Cons.IH [OF holds_next(3) [OF h], of ?q "Suc n"] Cons.prems s(2)
  show ?case by (simp add: s(1) splice_splice_after algebra_simps)
qed

lemma pmap_loop_short:
  "holds b xs \<Longrightarrow> no_stop xs \<Longrightarrow> unat (nr_bytes p) = n \<Longrightarrow> n + length xs < 8 \<Longrightarrow>
     length (pmap_bytes p) = 8 \<Longrightarrow>
     \<exists>p'. parse_pmap_loop b p
       = Some (Inl FAST_MSG_STATE_PARTIAL, p', buffer_advance b (of_nat (length xs)))
       \<and> length (pmap_bytes p') = 8 \<and> nr_bytes p' \<le> 8"
proof (induction xs arbitrary: b p n)
  case Nil
  then have "nr_bytes p < FAST_PMAP_MAX_BYTES" "nr_bytes p \<le> 8"
    by (simp_all add: FAST_PMAP_MAX_BYTES_def word_less_nat_alt word_le_nat_alt)
  with Nil show ?case by (simp add: parse_pmap_loop.simps [of b p] holds_size_0)
next
  case (Cons x xs)
  then have n: "n < 8" by auto
  note s = pmap_loop_step [OF Cons.prems(1,3) n Cons.prems(5)]
  let ?q = "p\<lparr>pmap_bytes := splice (pmap_bytes p) n [x], nr_bytes := nr_bytes p + 1\<rparr>"
  from Cons.IH [OF holds_next(3) [OF Cons.prems(1)], of ?q "Suc n"] Cons.prems s(2)
  show ?case by (simp add: s(1) algebra_simps)
qed

lemma pmap_loop_full:
  "holds b (xs @ ys) \<Longrightarrow> no_stop xs \<Longrightarrow> unat (nr_bytes p) = n \<Longrightarrow> n + length xs = 8 \<Longrightarrow>
     length (pmap_bytes p) = 8 \<Longrightarrow>
     \<exists>p'. parse_pmap_loop b p
       = Some (Inl FAST_MSG_STATE_GARBLED, p', buffer_advance b (of_nat (length xs)))
       \<and> length (pmap_bytes p') = 8 \<and> nr_bytes p' \<le> 8"
proof (induction xs arbitrary: b p n)
  case Nil
  then have "\<not> nr_bytes p < FAST_PMAP_MAX_BYTES" "nr_bytes p \<le> 8"
    by (simp_all add: FAST_PMAP_MAX_BYTES_def word_less_nat_alt word_le_nat_alt)
  with Nil show ?case by (simp add: parse_pmap_loop.simps [of b p])
next
  case (Cons x xs)
  then have n: "n < 8" and h: "holds b (x # xs @ ys)" by auto
  note s = pmap_loop_step [OF h Cons.prems(3) n Cons.prems(5)]
  let ?q = "p\<lparr>pmap_bytes := splice (pmap_bytes p) n [x], nr_bytes := nr_bytes p + 1\<rparr>"
  from Cons.IH [OF holds_next(3) [OF h], of ?q "Suc n"] Cons.prems s(2)
  show ?case by (simp add: s(1) algebra_simps)
qed

lemma parse_pmap_stop [buf_simps]:
  assumes "holds b (xs @ c # ys)" "no_stop xs" "c AND 0x80 \<noteq> 0" "length xs < 8" "length (pmap_bytes p) = 8"
  shows "parse_pmap b p = Some (Inr (),
    p\<lparr>pmap_bytes := splice (pmap_bytes p) 0 (xs @ [c]), nr_bytes := of_nat (Suc (length xs))\<rparr>,
    buffer_advance b (of_nat (Suc (length xs))))"
  using pmap_loop_stop [OF assms(1-3), of "p\<lparr>nr_bytes := 0\<rparr>" 0] assms(4,5) by (simp add: parse_pmap_def)

subsection \<open>Properties\<close>

text \<open>C27: every list of integers below \<open>2^63\<close> that fits into the buffer is written by
  \<open>transfer_uint\<close> behind the bytes already there, and \<open>parse_uint\<close> reads exactly these integers
  back, in order, leaving nothing over.\<close>

theorem uint_stream_roundtrip:
  assumes fit: "\<forall>v\<in>set vs. unat v < 2 ^ 63"
    and b: "holds b bs" and room: "length (concat (map enc_uint vs)) \<le> buffer_room b"
  shows "\<exists>b'. put_all transfer_uint b vs = Some (True, b')
    \<and> holds b' (bs @ concat (map enc_uint vs))
    \<and> (\<exists>e. get_all parse_uint (length vs) (buffer_advance b' (of_nat (length bs))) = Some (Inr vs, e)
         \<and> holds e [])"
proof -
  let ?w = "concat (map enc_uint vs)" and ?b = "buffer_extend b (concat (map enc_uint vs))"
  have v: "\<forall>v\<in>set vs. uint_fits v" using fit by (simp add: uint_fits_def)
  have h: "holds ?b (bs @ ?w)" using b room by (rule holds_extend)
  have h2: "holds (buffer_advance ?b (of_nat (length bs))) (?w @ [])" using holds_advance [OF h, of "length bs"] by simp
  from holds_advance [OF h2, of "length ?w"]
  have "holds (buffer_advance (buffer_advance ?b (of_nat (length bs))) (of_nat (length ?w))) []" by simp
  with uint_codec.put_all_enc [OF v holds_wf [OF b] room] uint_codec.get_all_enc [OF v h2] h
  show ?thesis by blast
qed

theorem uint_stream_roundtrip_witness:
  "\<exists>b'. put_all transfer_uint (buffer_of [7] 12) [942755, 0, 127] = Some (True, b')
    \<and> (\<exists>e. get_all parse_uint (length [942755, 0, 127 :: u64]) (buffer_advance b' (of_nat (length [7 :: u8])))
           = Some (Inr [942755, 0, 127], e) \<and> holds e [])"
proof -
  have "\<forall>v\<in>set [942755, 0, 127 :: u64]. unat v < 2 ^ 63" by simp
  moreover have "holds (buffer_of [7] 12) [7]" and r: "buffer_room (buffer_of [7] 12) = 12"
    by (rule buffer_of_holds, simp)+
  moreover have "length (concat (map enc_uint [942755, 0, 127])) = 5" by code_simp
  then have "length (concat (map enc_uint [942755, 0, 127])) \<le> buffer_room (buffer_of [7] 12)" unfolding r by linarith
  ultimately show ?thesis using uint_stream_roundtrip by blast
qed

text \<open>C28: every signed integer of at most 63 bits (from \<open>- 2^62\<close> to \<open>2^62 - 1\<close>) survives
  \<open>transfer_int\<close> and \<open>parse_int\<close>, whatever follows it in the stream: the parser recovers value and
  sign and stops right behind the encoding.\<close>

theorem int_roundtrip:
  assumes fit: "- (2 ^ 62) \<le> sint v" "sint v < 2 ^ 62"
    and b: "holds b []" and room: "transfer_size_int v + length rest \<le> buffer_room b"
  shows "\<exists>b1 b2. transfer_int b v = Some (True, b1) \<and> buffer_puts b1 rest = Some b2
    \<and> (\<exists>b3. parse_int b2 = Some (Inr v, b3) \<and> holds b3 rest)"
proof -
  let ?b1 = "buffer_extend b (enc_int v)"
  note n = transfer_size_int_bounds [of v]
  have l: "length (enc_int v) = transfer_size_int v" using n by (simp add: enc_int_def)
  have v: "int_fits v" using fit by (simp add: int_fits_def)
  have 1: "transfer_int b v = Some (True, ?b1)"
    using room l by (intro int_codec.put_enc [OF v holds_wf [OF b]]) simp
  have h1: "holds ?b1 (enc_int v)" using holds_extend [OF b, of "enc_int v"] l room by simp
  have 2: "buffer_puts ?b1 rest = Some (buffer_extend ?b1 rest)"
    using l room extend_room [OF holds_wf [OF b], of "enc_int v"]
    by (intro puts_extend [OF holds_wf [OF h1]]) simp
  have h2: "holds (buffer_extend ?b1 rest) (enc_int v @ rest)"
    using l room extend_room [OF holds_wf [OF b], of "enc_int v"] by (intro holds_extend [OF h1]) simp
  from int_codec.get_enc [OF v h2] holds_advance [OF h2, of "length (enc_int v)"] 1 2
  show ?thesis by auto
qed

theorem int_roundtrip_witness:
  "\<exists>b1 b2. transfer_int (buffer_of [] 8) (- 7942755) = Some (True, b1) \<and> buffer_puts b1 [1, 2] = Some b2
    \<and> (\<exists>b3. parse_int b2 = Some (Inr (- 7942755), b3) \<and> holds b3 [1, 2])"
proof -
  have "transfer_size_int (- 7942755) = 4" by code_simp
  then show ?thesis
    using int_roundtrip [of "- 7942755" "buffer_of [] 8" "[1, 2]"] buffer_of_holds [of "[]" 8] by simp
qed

text \<open>C29: ASCII strings round trip through \<open>transfer_string\<close> and \<open>parse_string\<close> as a stream, the
  empty string included (it is sent as a NUL in front of the stop byte, so it is not confused with a
  null string).\<close>

theorem string_stream_roundtrip:
  assumes ok: "\<forall>s\<in>set ss. 0 \<notin> set s \<and> no_stop s \<and> length s < 254"
    and b: "holds b []" and room: "length (concat (map enc_string ss)) \<le> buffer_room b"
  shows "\<exists>b'. put_all (\<lambda>b s. transfer_string b (Some (s @ [0]))) b ss = Some (True, b')
    \<and> (\<exists>e. get_all get_string (length ss) b' = Some (Inr ss, e) \<and> holds e [])"
proof -
  let ?w = "concat (map enc_string ss)"
  have v: "\<forall>s\<in>set ss. ascii_string s" using ok by (simp add: ascii_string_def)
  have h: "holds (buffer_extend b ?w) (?w @ [])" using holds_extend [OF b room] by simp
  from holds_advance [OF h, of "length ?w"]
  have "holds (buffer_advance (buffer_extend b ?w) (of_nat (length ?w))) []" by simp
  with string_codec.put_all_enc [OF v holds_wf [OF b] room] string_codec.get_all_enc [OF v h]
  show ?thesis by blast
qed

theorem string_stream_roundtrip_witness:
  "\<exists>b'. put_all (\<lambda>b s. transfer_string b (Some (s @ [0]))) (buffer_of [] 20) [[65, 66], [], [67]] = Some (True, b')
    \<and> (\<exists>e. get_all get_string (length [[65, 66], [], [67 :: u8]]) b' = Some (Inr [[65, 66], [], [67]], e)
         \<and> holds e [])"
proof -
  have "\<forall>s\<in>set [[65, 66], [], [67]]. 0 \<notin> set s \<and> no_stop s \<and> length s < 254" by (simp add: no_stop_def)
  moreover have "holds (buffer_of [] 20) []" and r: "buffer_room (buffer_of [] 20) = 20"
    by (rule buffer_of_holds, simp)+
  moreover have "length (concat (map enc_string [[65, 66], [], [67]])) = 7" by code_simp
  then have "length (concat (map enc_string [[65, 66], [], [67]])) \<le> buffer_room (buffer_of [] 20)" unfolding r by linarith
  ultimately show ?thesis using string_stream_roundtrip by blast
qed

text \<open>C30: on any input \<open>parse_string\<close> stays inside its array and its input: whatever bytes the
  buffer holds, it returns, consumes no more than there are, keeps the array's length, and on
  success leaves a NUL-terminated string of the returned length.\<close>

theorem parse_string_safe:
  assumes b: "holds b bs" and sz: "0 < sz" "unat sz \<le> length m"
  shows "\<exists>r m' k. parse_string b m sz = Some (r, m', buffer_advance b (of_nat k))
    \<and> k \<le> length bs \<and> k < unat sz \<and> length m' = length m
    \<and> (\<forall>n. r = Inr n \<longrightarrow> n = k \<and> n < unat sz \<and> m' ! n = 0)
    \<and> (r = Inl FAST_MSG_STATE_PARTIAL \<longrightarrow> k = length bs)"
proof -
  have u: "unat (sz - 1) = unat sz - 1" using sz(1) by (simp add: unat_minus_one word_gt_0)
  have pos: "0 < unat sz" using sz(1) by (simp add: word_less_nat_alt)
  show ?thesis
  proof (cases rule: stop_bit_cases [of bs "unat (sz - 1)"])
    case (full xs ys)
    then show ?thesis using parse_string_full [of b xs ys sz m] b u pos sz(2)
      by (intro exI [of _ "Inl FAST_MSG_STATE_GARBLED"] exI [of _ "splice m 0 xs"]
          exI [of _ "length xs"]) auto
  next
    case short
    then show ?thesis using parse_string_short [of b bs sz m] b u pos sz(2) by auto
  next
    case (stop xs c ys)
    have "splice m 0 (xs @ [c AND 0x7F, 0]) ! Suc (length xs) = 0"
      by (simp add: splice_def nth_append)
    then show ?thesis using parse_string_stop [of b xs c ys sz m] stop b u pos sz(2) by auto
  qed
qed

theorem parse_string_safe_witness:
  "\<exists>r m' k. parse_string (buffer_of [65, 194, 67] 0) (replicate 4 0) 4
      = Some (r, m', buffer_advance (buffer_of [65, 194, 67] 0) (of_nat k))
    \<and> k \<le> length [65, 194, 67 :: u8] \<and> length m' = length (replicate 4 (0 :: u8))"
proof -
  have "holds (buffer_of [65, 194, 67] 0) [65, 194, 67]" by (rule buffer_of_holds) simp
  moreover have "0 < (4 :: ulong)" "unat (4 :: ulong) \<le> length (replicate 4 (0 :: u8))" by simp_all
  ultimately show ?thesis using parse_string_safe by blast
qed

text \<open>C31: the presence map is a bit array: on a well-formed map \<open>pmap_set\<close> reports whether the bit
  exists, sets that bit and no other one, and \<open>pmap_is_set\<close> reads back what was set.\<close>

theorem pmap_set_is_set:
  assumes p: "pmap_wf p"
  shows "\<exists>p'. pmap_set p i = Some (unat i < 7 * unat (nr_bytes p), p') \<and> pmap_wf p'
    \<and> (\<forall>j. pmap_is_set p' j
        = (if j = i \<and> unat i < 7 * unat (nr_bytes p) then Some True else pmap_is_set p j))"
proof -
  from pmap_set_get [OF p, of i] obtain p' where
    q: "pmap_set p i = Some (unat i < 7 * unat (nr_bytes p), p')" "pmap_wf p'"
      "\<forall>j. pmap_get p' j \<longleftrightarrow> (j = unat i \<and> unat i < 7 * unat (nr_bytes p)) \<or> pmap_get p j" by blast
  then show ?thesis using p by (auto simp: pmap_is_set_get word_unat_eq_iff)
qed

theorem pmap_set_is_set_witness:
  "\<exists>p'. pmap_set \<lparr>is_valid = True, pmap_bit = 0, nr_bytes = 2, pmap_bytes = replicate 8 0\<rparr> 9 = Some (True, p')
    \<and> pmap_is_set p' 9 = Some True"
  using pmap_set_is_set [of "\<lparr>is_valid = True, pmap_bit = 0, nr_bytes = 2, pmap_bytes = replicate 8 0\<rparr>" 9]
  by (auto simp: pmap_wf_def FAST_PMAP_MAX_BYTES_def)

text \<open>The largest encoding has nine bytes, so the top bit of a 64-bit value is not sent: what the
  printer writes for \<open>2^63\<close> is read back as 0.\<close>

lemma enc_uint_top_bit: "enc_uint 0x8000000000000000 = replicate 8 0 @ [0x80]"
  by code_simp

lemma uint_top_bit_lost:
  assumes "buffer_wf b" "9 \<le> buffer_room b" "buf_bytes b = []"
  shows "\<exists>b1 b2. transfer_uint b 0x8000000000000000 = Some (True, b1) \<and> parse_uint b1 = Some (Inr 0, b2)"
proof -
  let ?w = "replicate 8 0 @ [0x80] :: u8 list"
  have n: "transfer_size_uint 0x8000000000000000 = 9" by code_simp
  have "stop_bytes 9 0x8000000000000000 = ?w" using enc_uint_top_bit by (simp add: enc_uint_def n)
  then have "transfer_uint b 0x8000000000000000 = Some (True, buffer_extend b ?w)"
    using assms(1,2) by (simp add: transfer_uint_extend n)
  moreover have "holds (buffer_extend b ?w) (replicate 8 0 @ 0x80 # [])"
    using holds_extend [of b "[]" ?w] assms by (simp add: holds_def)
  then have "parse_uint (buffer_extend b ?w) = Some (Inr (stop_value 0 ?w),
      buffer_advance (buffer_extend b ?w) (of_nat (Suc (length (replicate 8 (0 :: u8))))))"
    by (rule parse_uint_stop) (auto simp: no_stop_def)
  moreover have "stop_value 0 ?w = 0" by code_simp
  ultimately show ?thesis by metis
qed

end
