(* ===== verification/Fast_Field.thy ===== *)
theory Fast_Field
  imports Fast_Wire
begin

text \<open>
  The field decoders of lib/proto/fast_message.c: how a field of a FAST template takes its value
  from the stream, from the presence map, and from the value the previous message left in it, for
  each field operator.  Each \<open>case FAST_OP_...\<close> of a decoder is a definition of its own, and the
  decoder is the \<open>switch\<close> over them; the branches that several decoders spell out in the same
  words are shared.

  A decoder returns its \<open>int\<close> (\<open>Inr ()\<close> is 0), and the buffer, presence map and field
  it has updated, also when it fails: \<open>goto fail\<close> undoes nothing.  The result is \<open>None\<close> when it
  reads or writes outside an array.  The union members \<open>int_value\<close> and \<open>uint_value\<close> are one 64-bit
  word; the other members of the unions are separate arrays, as a field is only used through the
  members of its type.
\<close>

subsection \<open>Fields\<close>

datatype fast_type = FAST_TYPE_INT | FAST_TYPE_UINT | FAST_TYPE_STRING | FAST_TYPE_VECTOR
  | FAST_TYPE_DECIMAL | FAST_TYPE_SEQUENCE

datatype fast_op = FAST_OP_NONE | FAST_OP_COPY | FAST_OP_INCR | FAST_OP_DELTA | FAST_OP_DEFAULT
  | FAST_OP_CONSTANT

datatype fast_presence = FAST_PRESENCE_OPTIONAL | FAST_PRESENCE_MANDATORY

datatype fast_state = FAST_STATE_UNDEFINED | FAST_STATE_ASSIGNED | FAST_STATE_EMPTY

text \<open>The part of a field that integers use, which is all that the sub-fields of a decimal and the
  length of a sequence need, and the rest of \<open>struct fast_field\<close> (\<open>ptr_value\<close> apart, which comes with
  sequences).\<close>

record fast_scalar =
  f_presence :: fast_presence
  f_op :: fast_op
  f_state :: fast_state
  f_state_previous :: fast_state
  f_has_reset :: bool
  int_value :: i64
  int_reset :: i64
  int_previous :: i64

record fast_decimal =
  dec_exp :: i64
  dec_mnt :: i64

record fast_field = fast_scalar +
  f_type :: fast_type
  f_flags :: i32
  f_name :: string
  f_id :: i32
  string_value :: mem
  string_reset :: mem
  string_previous :: mem
  vector_value :: mem
  vector_reset :: mem
  vector_previous :: mem
  decimal_value :: fast_decimal
  decimal_reset :: fast_decimal
  decimal_previous :: fast_decimal
  decimal_fields :: "(fast_scalar \<times> fast_scalar) option"

definition FAST_STRING_MAX_BYTES :: ulong where "FAST_STRING_MAX_BYTES = 256"
definition FAST_FIELD_FLAGS_UNICODE :: i32 where "FAST_FIELD_FLAGS_UNICODE = 1"
definition FAST_FIELD_FLAGS_PMAPREQ :: i32 where "FAST_FIELD_FLAGS_PMAPREQ = 2"
definition FAST_FIELD_FLAGS_DECIMAL_INDIVID :: i32 where "FAST_FIELD_FLAGS_DECIMAL_INDIVID = 4"

definition field_state_empty :: "'a fast_scalar_scheme \<Rightarrow> bool" where
  "field_state_empty f \<longleftrightarrow> f_state f = FAST_STATE_EMPTY"

definition field_state_empty_previous :: "'a fast_scalar_scheme \<Rightarrow> bool" where
  "field_state_empty_previous f \<longleftrightarrow> f_state_previous f = FAST_STATE_EMPTY"

definition field_set_empty :: "'a fast_scalar_scheme \<Rightarrow> 'a fast_scalar_scheme" where
  "field_set_empty f = f\<lparr>f_state := FAST_STATE_EMPTY\<rparr>"

definition field_is_mandatory :: "'a fast_scalar_scheme \<Rightarrow> bool" where
  "field_is_mandatory f \<longleftrightarrow> f_presence f = FAST_PRESENCE_MANDATORY"

definition field_has_flags :: "'a fast_field_scheme \<Rightarrow> i32 \<Rightarrow> i32" where
  "field_has_flags f flags = f_flags f AND flags"

definition field_set_flags :: "'a fast_field_scheme \<Rightarrow> i32 \<Rightarrow> 'a fast_field_scheme" where
  "field_set_flags f flags = f\<lparr>f_flags := flags\<rparr>"

definition field_add_flags :: "'a fast_field_scheme \<Rightarrow> i32 \<Rightarrow> 'a fast_field_scheme" where
  "field_add_flags f flags = f\<lparr>f_flags := f_flags f OR flags\<rparr>"

definition field_clear_flags :: "'a fast_field_scheme \<Rightarrow> i32 \<Rightarrow> 'a fast_field_scheme" where
  "field_clear_flags f flags = f\<lparr>f_flags := f_flags f AND NOT flags\<rparr>"

definition pmap_required :: "'a fast_scalar_scheme \<Rightarrow> bool" where
  "pmap_required f =
     (case f_op f of
        FAST_OP_CONSTANT \<Rightarrow> \<not> field_is_mandatory f
      | FAST_OP_COPY \<Rightarrow> True
      | FAST_OP_INCR \<Rightarrow> True
      | FAST_OP_DEFAULT \<Rightarrow> True
      | FAST_OP_NONE \<Rightarrow> False
      | FAST_OP_DELTA \<Rightarrow> False)"

subsection \<open>Branches the decoders share\<close>

type_synonym fast_ret = "fast_err + unit"
type_synonym 'f decoded = "(fast_ret \<times> buffer \<times> fast_pmap \<times> 'f) option"

text \<open>\<open>pmap->pmap_bit++\<close>, then \<open>pmap_is_set(pmap, pmap->pmap_bit)\<close>.\<close>

definition next_pmap_bit :: "fast_pmap \<Rightarrow> (bool \<times> fast_pmap) option" where
  "next_pmap_bit p =
     (let p = p\<lparr>pmap_bit := pmap_bit p + 1\<rparr> in do {
        s \<leftarrow> pmap_is_set p (pmap_bit p);
        Some (s, p) })"

text \<open>No value in the stream, and none to reuse: the reset value if the template has one
  (\<open>assign\<close> copies it into the field), else the field is empty, which a mandatory one must not be.\<close>

definition reset_or_empty ::
    "('a fast_scalar_scheme \<Rightarrow> 'a fast_scalar_scheme option) \<Rightarrow> 'a fast_scalar_scheme
       \<Rightarrow> (fast_ret \<times> 'a fast_scalar_scheme) option" where
  "reset_or_empty assign f =
     (if f_has_reset f then do {
        f \<leftarrow> assign (f\<lparr>f_state := FAST_STATE_ASSIGNED\<rparr>);
        Some (Inr (), f) }
      else if field_is_mandatory f then Some (Inl FAST_MSG_STATE_GARBLED, f)
      else Some (Inr (), f\<lparr>f_state := FAST_STATE_EMPTY\<rparr>))"

text \<open>The \<open>switch (field->state)\<close> of copy and increment fields whose bit is not set; \<open>upd\<close> is what
  happens to a value that is assigned.\<close>

definition reuse_previous ::
    "('a fast_scalar_scheme \<Rightarrow> 'a fast_scalar_scheme option) \<Rightarrow> ('a fast_scalar_scheme \<Rightarrow> 'a fast_scalar_scheme)
       \<Rightarrow> 'a fast_scalar_scheme \<Rightarrow> (fast_ret \<times> 'a fast_scalar_scheme) option" where
  "reuse_previous assign upd f =
     (case f_state f of
        FAST_STATE_UNDEFINED \<Rightarrow> reset_or_empty assign f
      | FAST_STATE_ASSIGNED \<Rightarrow> Some (Inr (), upd f)
      | FAST_STATE_EMPTY \<Rightarrow>
          if field_is_mandatory f then Some (Inl FAST_MSG_STATE_GARBLED, f) else Some (Inr (), f))"

text \<open>A field with a presence bit: \<open>absent\<close> when the bit is not set, \<open>transferred\<close> when it is.\<close>

definition if_pmap_bit ::
    "('f \<Rightarrow> (fast_ret \<times> 'f) option) \<Rightarrow> (buffer \<Rightarrow> fast_pmap \<Rightarrow> 'f \<Rightarrow> 'f decoded)
       \<Rightarrow> buffer \<Rightarrow> fast_pmap \<Rightarrow> 'f \<Rightarrow> 'f decoded" where
  "if_pmap_bit absent transferred b p f = do {
     (s, p) \<leftarrow> next_pmap_bit p;
     (if \<not> s then do { (r, f) \<leftarrow> absent f; Some (r, b, p, f) }
      else transferred b p f) }"

text \<open>The \<open>FAST_OP_CONSTANT\<close> case.\<close>

definition decode_constant ::
    "('a fast_scalar_scheme \<Rightarrow> 'a fast_scalar_scheme option)
       \<Rightarrow> buffer \<Rightarrow> fast_pmap \<Rightarrow> 'a fast_scalar_scheme \<Rightarrow> 'a fast_scalar_scheme decoded" where
  "decode_constant assign b p f = do {
     f \<leftarrow> (if f_state f \<noteq> FAST_STATE_ASSIGNED then assign f else Some f);
     (let f = f\<lparr>f_state := FAST_STATE_ASSIGNED\<rparr> in
      if field_is_mandatory f then Some (Inr (), b, p, f)
      else do {
        (s, p) \<leftarrow> next_pmap_bit p;
        Some (Inr (), b, p, if \<not> s then f\<lparr>f_state := FAST_STATE_EMPTY\<rparr> else f) }) }"

subsection \<open>Integers\<close>

definition assign_int :: "'a fast_scalar_scheme \<Rightarrow> 'a fast_scalar_scheme option" where
  "assign_int f = Some (f\<lparr>int_value := int_reset f\<rparr>)"

text \<open>What the decoder of an unsigned field does with a value: an optional field sends 0 for empty
  and \<open>n + 1\<close> for \<open>n\<close>.\<close>

definition uint_received :: "'a fast_scalar_scheme \<Rightarrow> u64 \<Rightarrow> 'a fast_scalar_scheme" where
  "uint_received f v =
     (let f = f\<lparr>int_value := v, f_state := FAST_STATE_ASSIGNED\<rparr> in
      if field_is_mandatory f then f
      else if int_value f = 0 then f\<lparr>f_state := FAST_STATE_EMPTY\<rparr>
      else f\<lparr>int_value := int_value f - 1\<rparr>)"

definition decode_uint_none :: "buffer \<Rightarrow> fast_pmap \<Rightarrow> 'a fast_scalar_scheme \<Rightarrow> 'a fast_scalar_scheme decoded" where
  "decode_uint_none b p f = do {
     (r, b) \<leftarrow> parse_uint b;
     (case r of
        Inl e \<Rightarrow> Some (Inl e, b, p, f)
      | Inr v \<Rightarrow> Some (Inr (), b, p, uint_received f v)) }"

definition decode_uint_copy :: "buffer \<Rightarrow> fast_pmap \<Rightarrow> 'a fast_scalar_scheme \<Rightarrow> 'a fast_scalar_scheme decoded" where
  "decode_uint_copy = if_pmap_bit (reuse_previous assign_int (\<lambda>f. f)) decode_uint_none"

definition decode_uint_incr :: "buffer \<Rightarrow> fast_pmap \<Rightarrow> 'a fast_scalar_scheme \<Rightarrow> 'a fast_scalar_scheme decoded" where
  "decode_uint_incr =
     if_pmap_bit (reuse_previous assign_int (\<lambda>f. f\<lparr>int_value := int_value f + 1\<rparr>)) decode_uint_none"

definition decode_uint_delta :: "buffer \<Rightarrow> fast_pmap \<Rightarrow> 'a fast_scalar_scheme \<Rightarrow> 'a fast_scalar_scheme decoded" where
  "decode_uint_delta b p f = do {
     (r, b) \<leftarrow> parse_int b;
     (case r of
        Inl e \<Rightarrow> Some (Inl e, b, p, f)
      | Inr tmp \<Rightarrow>
          let f = f\<lparr>f_state := FAST_STATE_ASSIGNED,
                    int_value := (if tmp <s 0 then int_value f - (- tmp) else int_value f + tmp)\<rparr>
          in Some (Inr (), b, p,
               if field_is_mandatory f then f
               else if tmp = 0 then f\<lparr>f_state := FAST_STATE_EMPTY\<rparr>
               else if 0 <s tmp then f\<lparr>int_value := int_value f - 1\<rparr>
               else f)) }"

definition decode_uint_default :: "buffer \<Rightarrow> fast_pmap \<Rightarrow> 'a fast_scalar_scheme \<Rightarrow> 'a fast_scalar_scheme decoded" where
  "decode_uint_default = if_pmap_bit (reset_or_empty assign_int) decode_uint_none"

definition decode_uint_constant :: "buffer \<Rightarrow> fast_pmap \<Rightarrow> 'a fast_scalar_scheme \<Rightarrow> 'a fast_scalar_scheme decoded" where
  "decode_uint_constant = decode_constant assign_int"

definition fast_decode_uint :: "buffer \<Rightarrow> fast_pmap \<Rightarrow> 'a fast_scalar_scheme \<Rightarrow> 'a fast_scalar_scheme decoded" where
  "fast_decode_uint b p f =
     (case f_op f of
        FAST_OP_NONE \<Rightarrow> decode_uint_none b p f
      | FAST_OP_COPY \<Rightarrow> decode_uint_copy b p f
      | FAST_OP_INCR \<Rightarrow> decode_uint_incr b p f
      | FAST_OP_DELTA \<Rightarrow> decode_uint_delta b p f
      | FAST_OP_DEFAULT \<Rightarrow> decode_uint_default b p f
      | FAST_OP_CONSTANT \<Rightarrow> decode_uint_constant b p f)"

text \<open>Signed fields: an optional one sends 0 for empty, \<open>n + 1\<close> for \<open>n \<ge> 0\<close>, and \<open>n\<close> itself when
  negative.\<close>

definition int_received :: "'a fast_scalar_scheme \<Rightarrow> i64 \<Rightarrow> 'a fast_scalar_scheme" where
  "int_received f v =
     (let f = f\<lparr>int_value := v, f_state := FAST_STATE_ASSIGNED\<rparr> in
      if field_is_mandatory f then f
      else if int_value f = 0 then f\<lparr>f_state := FAST_STATE_EMPTY\<rparr>
      else if 0 <s int_value f then f\<lparr>int_value := int_value f - 1\<rparr>
      else f)"

definition decode_int_none :: "buffer \<Rightarrow> fast_pmap \<Rightarrow> 'a fast_scalar_scheme \<Rightarrow> 'a fast_scalar_scheme decoded" where
  "decode_int_none b p f = do {
     (r, b) \<leftarrow> parse_int b;
     (case r of
        Inl e \<Rightarrow> Some (Inl e, b, p, f)
      | Inr v \<Rightarrow> Some (Inr (), b, p, int_received f v)) }"

definition decode_int_copy :: "buffer \<Rightarrow> fast_pmap \<Rightarrow> 'a fast_scalar_scheme \<Rightarrow> 'a fast_scalar_scheme decoded" where
  "decode_int_copy = if_pmap_bit (reuse_previous assign_int (\<lambda>f. f)) decode_int_none"

definition decode_int_incr :: "buffer \<Rightarrow> fast_pmap \<Rightarrow> 'a fast_scalar_scheme \<Rightarrow> 'a fast_scalar_scheme decoded" where
  "decode_int_incr =
     if_pmap_bit (reuse_previous assign_int (\<lambda>f. f\<lparr>int_value := int_value f + 1\<rparr>)) decode_int_none"

definition decode_int_delta :: "buffer \<Rightarrow> fast_pmap \<Rightarrow> 'a fast_scalar_scheme \<Rightarrow> 'a fast_scalar_scheme decoded" where
  "decode_int_delta b p f = do {
     (r, b) \<leftarrow> parse_int b;
     (case r of
        Inl e \<Rightarrow> Some (Inl e, b, p, f)
      | Inr tmp \<Rightarrow>
          let f = f\<lparr>f_state := FAST_STATE_ASSIGNED, int_value := int_value f + tmp\<rparr>
          in Some (Inr (), b, p,
               if field_is_mandatory f then f
               else if tmp = 0 then f\<lparr>f_state := FAST_STATE_EMPTY\<rparr>
               else if 0 <s tmp then f\<lparr>int_value := int_value f - 1\<rparr>
               else f)) }"

definition decode_int_default :: "buffer \<Rightarrow> fast_pmap \<Rightarrow> 'a fast_scalar_scheme \<Rightarrow> 'a fast_scalar_scheme decoded" where
  "decode_int_default = if_pmap_bit (reset_or_empty assign_int) decode_int_none"

definition decode_int_constant :: "buffer \<Rightarrow> fast_pmap \<Rightarrow> 'a fast_scalar_scheme \<Rightarrow> 'a fast_scalar_scheme decoded" where
  "decode_int_constant = decode_constant assign_int"

definition fast_decode_int :: "buffer \<Rightarrow> fast_pmap \<Rightarrow> 'a fast_scalar_scheme \<Rightarrow> 'a fast_scalar_scheme decoded" where
  "fast_decode_int b p f =
     (case f_op f of
        FAST_OP_NONE \<Rightarrow> decode_int_none b p f
      | FAST_OP_COPY \<Rightarrow> decode_int_copy b p f
      | FAST_OP_INCR \<Rightarrow> decode_int_incr b p f
      | FAST_OP_DELTA \<Rightarrow> decode_int_delta b p f
      | FAST_OP_DEFAULT \<Rightarrow> decode_int_default b p f
      | FAST_OP_CONSTANT \<Rightarrow> decode_int_constant b p f)"

subsection \<open>Strings\<close>

text \<open>\<open>memcpy(field->string_value, field->string_reset, strlen(field->string_reset) + 1)\<close>\<close>

definition assign_string :: "'a fast_field_scheme \<Rightarrow> 'a fast_field_scheme option" where
  "assign_string f = do {
     n \<leftarrow> c_strlen (string_reset f);
     s \<leftarrow> mem_load (string_reset f) 0 (n + 1);
     m \<leftarrow> mem_store (string_value f) 0 s;
     Some (f\<lparr>string_value := m\<rparr>) }"

text \<open>A length and that many bytes, in a string or a vector: \<open>arr\<close> and \<open>upd\<close> read and write the array
  of the field.  The length is a \<open>u64\<close>, but \<open>parse_bytes\<close> takes an \<open>int\<close>; the eight zero bytes are
  stored behind the bytes, at the \<open>u64\<close> offset.\<close>

definition decode_bytes ::
    "('a fast_field_scheme \<Rightarrow> mem) \<Rightarrow> (mem \<Rightarrow> 'a fast_field_scheme \<Rightarrow> 'a fast_field_scheme)
       \<Rightarrow> buffer \<Rightarrow> fast_pmap \<Rightarrow> 'a fast_field_scheme \<Rightarrow> 'a fast_field_scheme decoded" where
  "decode_bytes arr upd b p f = do {
     (r, b) \<leftarrow> parse_uint b;
     (case r of
        Inl e \<Rightarrow> Some (Inl e, b, p, f)
      | Inr len \<Rightarrow>
          let f = f\<lparr>f_state := FAST_STATE_ASSIGNED\<rparr> in
          if \<not> field_is_mandatory f \<and> len = 0
          then Some (Inr (), b, p, f\<lparr>f_state := FAST_STATE_EMPTY\<rparr>)
          else let len = (if field_is_mandatory f then len else len - 1) in do {
            (r, m, b) \<leftarrow> parse_bytes b (arr f) (ucast len);
            (let f = upd m f in
             case r of
               Inl e \<Rightarrow> Some (Inl e, b, p, f)
             | Inr _ \<Rightarrow> do {
                 m \<leftarrow> mem_store (arr f) (uint len) (replicate 8 0);
                 Some (Inr (), b, p, upd m f) }) }) }"

definition decode_unicode_none :: "buffer \<Rightarrow> fast_pmap \<Rightarrow> 'a fast_field_scheme \<Rightarrow> 'a fast_field_scheme decoded" where
  "decode_unicode_none = decode_bytes string_value (\<lambda>m. string_value_update (\<lambda>_. m))"

definition decode_unicode_copy :: "buffer \<Rightarrow> fast_pmap \<Rightarrow> 'a fast_field_scheme \<Rightarrow> 'a fast_field_scheme decoded" where
  "decode_unicode_copy = if_pmap_bit (reuse_previous assign_string (\<lambda>f. f)) decode_unicode_none"

definition decode_unicode_default :: "buffer \<Rightarrow> fast_pmap \<Rightarrow> 'a fast_field_scheme \<Rightarrow> 'a fast_field_scheme decoded" where
  "decode_unicode_default = if_pmap_bit (reset_or_empty assign_string) decode_unicode_none"

definition decode_unicode_constant :: "buffer \<Rightarrow> fast_pmap \<Rightarrow> 'a fast_field_scheme \<Rightarrow> 'a fast_field_scheme decoded" where
  "decode_unicode_constant = decode_constant assign_string"

definition fast_decode_unicode :: "buffer \<Rightarrow> fast_pmap \<Rightarrow> 'a fast_field_scheme \<Rightarrow> 'a fast_field_scheme decoded" where
  "fast_decode_unicode b p f =
     (case f_op f of
        FAST_OP_NONE \<Rightarrow> decode_unicode_none b p f
      | FAST_OP_COPY \<Rightarrow> decode_unicode_copy b p f
      | FAST_OP_INCR \<Rightarrow> Some (Inl FAST_MSG_STATE_GARBLED, b, p, f)
      | FAST_OP_DELTA \<Rightarrow> Some (Inl FAST_MSG_STATE_GARBLED, b, p, f)
      | FAST_OP_DEFAULT \<Rightarrow> decode_unicode_default b p f
      | FAST_OP_CONSTANT \<Rightarrow> decode_unicode_constant b p f)"

text \<open>An ASCII field of length 1 with a NUL is the null string.\<close>

definition decode_ascii_none :: "buffer \<Rightarrow> fast_pmap \<Rightarrow> 'a fast_field_scheme \<Rightarrow> 'a fast_field_scheme decoded" where
  "decode_ascii_none b p f = do {
     (r, m, b) \<leftarrow> parse_string b (string_value f) FAST_STRING_MAX_BYTES;
     (let f = f\<lparr>string_value := m\<rparr> in
      case r of
        Inl e \<Rightarrow> Some (Inl e, b, p, f)
      | Inr n \<Rightarrow>
          let f = f\<lparr>f_state := FAST_STATE_ASSIGNED\<rparr> in
          if field_is_mandatory f then Some (Inr (), b, p, f)
          else do {
            c \<leftarrow> mem_get (string_value f) 0;
            Some (Inr (), b, p, if n = 1 \<and> c = 0 then f\<lparr>f_state := FAST_STATE_EMPTY\<rparr> else f) }) }"

definition decode_ascii_copy :: "buffer \<Rightarrow> fast_pmap \<Rightarrow> 'a fast_field_scheme \<Rightarrow> 'a fast_field_scheme decoded" where
  "decode_ascii_copy = if_pmap_bit (reuse_previous assign_string (\<lambda>f. f)) decode_ascii_none"

text \<open>The delta of a string: \<open>len\<close> characters (\<open>length\<close> in the code) of the base are cut off its end
  (or, when negative, \<open>- (len + 1)\<close> of its front), and the transferred string is put in their place.  \<open>delta\<close> is a
  local array of 32 bytes; what it holds before it is filled is never read.\<close>

definition apply_string_delta :: "mem \<Rightarrow> mem \<Rightarrow> i64 \<Rightarrow> (fast_ret \<times> mem) option" where
  "apply_string_delta base delta len = do {
     nb \<leftarrow> c_strlen base;
     nd \<leftarrow> c_strlen delta;
     (let lenb = of_nat nb :: i64; lend = of_nat nd :: i64 in
      if 0 \<le>s len then
        (if lenb <s len then Some (Inl FAST_MSG_STATE_GARBLED, base)
         else if of_nat (unat FAST_STRING_MAX_BYTES) <s lenb + lend - len + 1
         then Some (Inl FAST_MSG_STATE_GARBLED, base)
         else do {
           s \<leftarrow> mem_load delta 0 (nd + 1);
           m \<leftarrow> mem_store base (sint (lenb - len)) s;
           Some (Inr (), m) })
      else let len = - (len + 1) in
        (if lenb < len then Some (Inl FAST_MSG_STATE_GARBLED, base)
         else if of_nat (unat FAST_STRING_MAX_BYTES) <s lenb + lend - len + 1
         then Some (Inl FAST_MSG_STATE_GARBLED, base)
         else do {
           tail \<leftarrow> mem_load base (sint len) (unat (lenb - len + 1));
           m \<leftarrow> mem_store base (sint lend) tail;
           s \<leftarrow> mem_load delta 0 nd;
           m \<leftarrow> mem_store m 0 s;
           Some (Inr (), m) })) }"

definition decode_ascii_delta :: "buffer \<Rightarrow> fast_pmap \<Rightarrow> 'a fast_field_scheme \<Rightarrow> 'a fast_field_scheme decoded" where
  "decode_ascii_delta b p f = do {
     (r, b) \<leftarrow> parse_int b;
     (case r of
        Inl e \<Rightarrow> Some (Inl e, b, p, f)
      | Inr len \<Rightarrow>
          let f = f\<lparr>f_state := FAST_STATE_ASSIGNED\<rparr> in
          if \<not> field_is_mandatory f \<and> len = 0
          then Some (Inr (), b, p, f\<lparr>f_state := FAST_STATE_EMPTY\<rparr>)
          else let len = (if \<not> field_is_mandatory f \<and> 0 <s len then len - 1 else len) in do {
            (r, delta, b) \<leftarrow> parse_string b (replicate 32 0) 32;
            (case r of
               Inl e \<Rightarrow> Some (Inl e, b, p, f)
             | Inr _ \<Rightarrow> do {
                 (r, m) \<leftarrow> apply_string_delta (string_value f) delta len;
                 Some (r, b, p, f\<lparr>string_value := m\<rparr>) }) }) }"

definition decode_ascii_default :: "buffer \<Rightarrow> fast_pmap \<Rightarrow> 'a fast_field_scheme \<Rightarrow> 'a fast_field_scheme decoded" where
  "decode_ascii_default = if_pmap_bit (reset_or_empty assign_string) decode_ascii_none"

definition decode_ascii_constant :: "buffer \<Rightarrow> fast_pmap \<Rightarrow> 'a fast_field_scheme \<Rightarrow> 'a fast_field_scheme decoded" where
  "decode_ascii_constant = decode_constant assign_string"

definition fast_decode_ascii :: "buffer \<Rightarrow> fast_pmap \<Rightarrow> 'a fast_field_scheme \<Rightarrow> 'a fast_field_scheme decoded" where
  "fast_decode_ascii b p f =
     (case f_op f of
        FAST_OP_NONE \<Rightarrow> decode_ascii_none b p f
      | FAST_OP_COPY \<Rightarrow> decode_ascii_copy b p f
      | FAST_OP_INCR \<Rightarrow> Some (Inl FAST_MSG_STATE_GARBLED, b, p, f)
      | FAST_OP_DELTA \<Rightarrow> decode_ascii_delta b p f
      | FAST_OP_DEFAULT \<Rightarrow> decode_ascii_default b p f
      | FAST_OP_CONSTANT \<Rightarrow> decode_ascii_constant b p f)"

definition fast_decode_string :: "buffer \<Rightarrow> fast_pmap \<Rightarrow> 'a fast_field_scheme \<Rightarrow> 'a fast_field_scheme decoded" where
  "fast_decode_string b p f =
     (if field_has_flags f FAST_FIELD_FLAGS_UNICODE \<noteq> 0 then fast_decode_unicode b p f
      else fast_decode_ascii b p f)"

subsection \<open>Byte vectors\<close>

definition assign_vector :: "'a fast_field_scheme \<Rightarrow> 'a fast_field_scheme option" where
  "assign_vector f = do {
     m \<leftarrow> mem_store (vector_value f) 0 (vector_reset f);
     Some (f\<lparr>vector_value := m\<rparr>) }"

definition decode_vector_none :: "buffer \<Rightarrow> fast_pmap \<Rightarrow> 'a fast_field_scheme \<Rightarrow> 'a fast_field_scheme decoded" where
  "decode_vector_none = decode_bytes vector_value (\<lambda>m. vector_value_update (\<lambda>_. m))"

definition decode_vector_copy :: "buffer \<Rightarrow> fast_pmap \<Rightarrow> 'a fast_field_scheme \<Rightarrow> 'a fast_field_scheme decoded" where
  "decode_vector_copy = if_pmap_bit (reuse_previous assign_vector (\<lambda>f. f)) decode_vector_none"

definition decode_vector_default :: "buffer \<Rightarrow> fast_pmap \<Rightarrow> 'a fast_field_scheme \<Rightarrow> 'a fast_field_scheme decoded" where
  "decode_vector_default = if_pmap_bit (reset_or_empty assign_vector) decode_vector_none"

definition decode_vector_constant :: "buffer \<Rightarrow> fast_pmap \<Rightarrow> 'a fast_field_scheme \<Rightarrow> 'a fast_field_scheme decoded" where
  "decode_vector_constant = decode_constant assign_vector"

definition fast_decode_vector :: "buffer \<Rightarrow> fast_pmap \<Rightarrow> 'a fast_field_scheme \<Rightarrow> 'a fast_field_scheme decoded" where
  "fast_decode_vector b p f =
     (case f_op f of
        FAST_OP_NONE \<Rightarrow> decode_vector_none b p f
      | FAST_OP_COPY \<Rightarrow> decode_vector_copy b p f
      | FAST_OP_INCR \<Rightarrow> Some (Inl FAST_MSG_STATE_GARBLED, b, p, f)
      | FAST_OP_DELTA \<Rightarrow> Some (Inl FAST_MSG_STATE_GARBLED, b, p, f)
      | FAST_OP_DEFAULT \<Rightarrow> decode_vector_default b p f
      | FAST_OP_CONSTANT \<Rightarrow> decode_vector_constant b p f)"

subsection \<open>Decimals\<close>

definition assign_decimal :: "'a fast_field_scheme \<Rightarrow> 'a fast_field_scheme option" where
  "assign_decimal f = Some (f\<lparr>decimal_value := decimal_reset f\<rparr>)"

text \<open>Exponent and mantissa: \<open>base\<close> is what they are added to, 0 for a full value and the field's
  value for a delta.  The exponent must be within 63 of 0; only when both have arrived is the value
  stored.\<close>

definition decode_exp_mnt ::
    "('a fast_field_scheme \<Rightarrow> fast_decimal) \<Rightarrow> buffer \<Rightarrow> fast_pmap \<Rightarrow> 'a fast_field_scheme
       \<Rightarrow> 'a fast_field_scheme decoded" where
  "decode_exp_mnt base b p f = do {
     (r, b) \<leftarrow> parse_int b;
     (case r of
        Inl e \<Rightarrow> Some (Inl e, b, p, f)
      | Inr exp \<Rightarrow>
          let f = f\<lparr>f_state := FAST_STATE_ASSIGNED\<rparr> in
          if \<not> field_is_mandatory f \<and> exp = 0
          then Some (Inr (), b, p, f\<lparr>f_state := FAST_STATE_EMPTY\<rparr>)
          else let exp = (if \<not> field_is_mandatory f \<and> 0 <s exp then exp - 1 else exp) in
            if 63 <s dec_exp (base f) + exp \<or> dec_exp (base f) + exp <s - 63
            then Some (Inl FAST_MSG_STATE_GARBLED, b, p, f)
            else do {
              (r, b) \<leftarrow> parse_int b;
              (case r of
                 Inl e \<Rightarrow> Some (Inl e, b, p, f)
               | Inr mnt \<Rightarrow> Some (Inr (), b, p,
                   f\<lparr>decimal_value := \<lparr>dec_exp = dec_exp (base f) + exp, dec_mnt = dec_mnt (base f) + mnt\<rparr>\<rparr>)) }) }"

definition decode_decimal_none :: "buffer \<Rightarrow> fast_pmap \<Rightarrow> 'a fast_field_scheme \<Rightarrow> 'a fast_field_scheme decoded" where
  "decode_decimal_none = decode_exp_mnt (\<lambda>f. \<lparr>dec_exp = 0, dec_mnt = 0\<rparr>)"

definition decode_decimal_copy :: "buffer \<Rightarrow> fast_pmap \<Rightarrow> 'a fast_field_scheme \<Rightarrow> 'a fast_field_scheme decoded" where
  "decode_decimal_copy = if_pmap_bit (reuse_previous assign_decimal (\<lambda>f. f)) decode_decimal_none"

definition decode_decimal_delta :: "buffer \<Rightarrow> fast_pmap \<Rightarrow> 'a fast_field_scheme \<Rightarrow> 'a fast_field_scheme decoded" where
  "decode_decimal_delta = decode_exp_mnt decimal_value"

definition decode_decimal_default :: "buffer \<Rightarrow> fast_pmap \<Rightarrow> 'a fast_field_scheme \<Rightarrow> 'a fast_field_scheme decoded" where
  "decode_decimal_default = if_pmap_bit (reset_or_empty assign_decimal) decode_decimal_none"

definition decode_decimal_constant :: "buffer \<Rightarrow> fast_pmap \<Rightarrow> 'a fast_field_scheme \<Rightarrow> 'a fast_field_scheme decoded" where
  "decode_decimal_constant = decode_constant assign_decimal"

definition fast_decode_decimal_atomic :: "buffer \<Rightarrow> fast_pmap \<Rightarrow> 'a fast_field_scheme \<Rightarrow> 'a fast_field_scheme decoded" where
  "fast_decode_decimal_atomic b p f =
     (case f_op f of
        FAST_OP_NONE \<Rightarrow> decode_decimal_none b p f
      | FAST_OP_COPY \<Rightarrow> decode_decimal_copy b p f
      | FAST_OP_INCR \<Rightarrow> Some (Inl FAST_MSG_STATE_GARBLED, b, p, f)
      | FAST_OP_DELTA \<Rightarrow> decode_decimal_delta b p f
      | FAST_OP_DEFAULT \<Rightarrow> decode_decimal_default b p f
      | FAST_OP_CONSTANT \<Rightarrow> decode_decimal_constant b p f)"

text \<open>A decimal whose exponent and mantissa are fields of their own, each with its operator;
  following the null pointer of an atomic decimal is a fault.\<close>

definition fast_decode_decimal_individ :: "buffer \<Rightarrow> fast_pmap \<Rightarrow> 'a fast_field_scheme \<Rightarrow> 'a fast_field_scheme decoded" where
  "fast_decode_decimal_individ b p f = do {
     (f0, f1) \<leftarrow> decimal_fields f;
     (r, b, p, f0) \<leftarrow> fast_decode_int b p f0;
     (let f = f\<lparr>decimal_fields := Some (f0, f1)\<rparr> in
      case r of
        Inl e \<Rightarrow> Some (Inl e, b, p, f)
      | Inr _ \<Rightarrow>
          if field_state_empty f0 then
            Some (if field_is_mandatory f then Inl FAST_MSG_STATE_GARBLED else Inr (), b, p,
                  f\<lparr>f_state := FAST_STATE_EMPTY\<rparr>)
          else if 63 <s int_value f0 \<or> int_value f0 <s - 63
          then Some (Inl FAST_MSG_STATE_GARBLED, b, p, f)
          else do {
            (r, b, p, f1) \<leftarrow> fast_decode_int b p f1;
            (let f = f\<lparr>decimal_fields := Some (f0, f1)\<rparr> in
             case r of
               Inl e \<Rightarrow> Some (Inl e, b, p, f)
             | Inr _ \<Rightarrow> Some (Inr (), b, p,
                 f\<lparr>f_state := FAST_STATE_ASSIGNED,
                   decimal_value := \<lparr>dec_exp = int_value f0, dec_mnt = int_value f1\<rparr>\<rparr>)) }) }"

definition fast_decode_decimal :: "buffer \<Rightarrow> fast_pmap \<Rightarrow> 'a fast_field_scheme \<Rightarrow> 'a fast_field_scheme decoded" where
  "fast_decode_decimal b p f =
     (if field_has_flags f FAST_FIELD_FLAGS_DECIMAL_INDIVID = 0 then fast_decode_decimal_atomic b p f
      else fast_decode_decimal_individ b p f)"

end
