(* ===== verification/Fast_Encode.thy ===== *)
theory Fast_Encode
  imports Fast_Field
begin

text \<open>
  The field encoders of lib/proto/fast_message.c, and their agreement with the field decoders:
  an encoder decides by the operator, the state and the previous value of the field whether the value
  goes into the stream, and sets the presence bit accordingly; a decoder that has seen the same
  messages so far reconstructs the field.
\<close>

subsection \<open>The decision\<close>

text \<open>The labels the encoders jump to after their \<open>switch\<close>: \<open>transfer\<close> and \<open>empty\<close> (which falls into
  \<open>transfer\<close>), \<open>return 0\<close> and \<open>fail\<close>; \<open>pset\<close> says whether a presence bit is set after the transfer.\<close>

datatype enc_label = Enc_transfer bool | Enc_empty bool | Enc_done | Enc_fail

type_synonym 'f encoded = "(bool \<times> buffer \<times> fast_pmap \<times> 'f) option"

definition optional_empty :: "'a fast_scalar_scheme \<Rightarrow> bool" where
  "optional_empty f \<longleftrightarrow> \<not> field_is_mandatory f \<and> field_state_empty f"

definition pmap_step :: "fast_pmap \<Rightarrow> fast_pmap" where
  "pmap_step p = p\<lparr>pmap_bit := pmap_bit p + 1\<rparr>"

text \<open>\<open>FAST_OP_NONE\<close> and \<open>FAST_OP_DELTA\<close>\<close>

definition encode_always :: "'a fast_scalar_scheme \<Rightarrow> enc_label \<times> 'a fast_scalar_scheme" where
  "encode_always f =
     (if optional_empty f then (Enc_empty False, f)
      else (Enc_transfer False, f\<lparr>f_state := FAST_STATE_ASSIGNED\<rparr>))"

text \<open>\<open>FAST_OP_COPY\<close> and \<open>FAST_OP_INCR\<close>: \<open>same\<close> compares the value with the previous one (or its
  successor), and \<open>upd\<close> is done when nothing has to be sent.\<close>

definition encode_reuse ::
    "('a fast_scalar_scheme \<Rightarrow> bool) \<Rightarrow> ('a fast_scalar_scheme \<Rightarrow> 'a fast_scalar_scheme)
       \<Rightarrow> 'a fast_scalar_scheme \<Rightarrow> enc_label \<times> 'a fast_scalar_scheme" where
  "encode_reuse same upd f =
     (if optional_empty f then (Enc_empty True, f)
      else case f_state f of
        FAST_STATE_UNDEFINED \<Rightarrow> (Enc_transfer True, f\<lparr>f_state := FAST_STATE_ASSIGNED\<rparr>)
      | FAST_STATE_ASSIGNED \<Rightarrow>
          if field_state_empty_previous f then (Enc_transfer True, f)
          else if \<not> same f then (Enc_transfer True, f)
          else (Enc_done, upd f)
      | FAST_STATE_EMPTY \<Rightarrow> (Enc_fail, f))"

text \<open>\<open>FAST_OP_DEFAULT\<close>: a value is always sent.\<close>

definition encode_default :: "'a fast_scalar_scheme \<Rightarrow> enc_label \<times> 'a fast_scalar_scheme" where
  "encode_default f =
     (if optional_empty f then (Enc_empty True, f)
      else case f_state f of
        FAST_STATE_EMPTY \<Rightarrow> (Enc_fail, f)
      | _ \<Rightarrow> (Enc_transfer True, f\<lparr>f_state := FAST_STATE_ASSIGNED\<rparr>))"

text \<open>\<open>FAST_OP_CONSTANT\<close>: only the presence bit of an optional field.  The result of \<open>pmap_set\<close> is
  ignored, here and below, as in the code.\<close>

definition encode_constant ::
    "fast_pmap \<Rightarrow> 'a fast_scalar_scheme \<Rightarrow> (fast_pmap \<times> 'a fast_scalar_scheme) option" where
  "encode_constant p f =
     (if \<not> field_is_mandatory f then
        let p = pmap_step p in
        if \<not> field_state_empty f then do {
          (_, p) \<leftarrow> pmap_set p (pmap_bit p);
          Some (p, f\<lparr>f_state := FAST_STATE_ASSIGNED\<rparr>) }
        else Some (p, f)
      else Some (p, f\<lparr>f_state := FAST_STATE_ASSIGNED\<rparr>))"

text \<open>The end of every encoder: the presence bit is set only when the value went out.\<close>

definition encode_finish ::
    "bool \<Rightarrow> (bool \<times> buffer) option \<Rightarrow> fast_pmap \<Rightarrow> 'f \<Rightarrow> 'f encoded" where
  "encode_finish pset sent p f = do {
     (ok, b) \<leftarrow> sent;
     (if \<not> ok then Some (False, b, p, f)
      else if pset then do { (_, p) \<leftarrow> pmap_set p (pmap_bit p); Some (True, b, p, f) }
      else Some (True, b, p, f)) }"

subsection \<open>Integers\<close>

text \<open>\<open>transfer:\<close> and \<open>empty:\<close> of the integer encoders.\<close>

definition encode_int_at ::
    "enc_label \<Rightarrow> (buffer \<Rightarrow> i64 \<Rightarrow> (bool \<times> buffer) option) \<Rightarrow> i64 \<Rightarrow> buffer \<Rightarrow> fast_pmap
       \<Rightarrow> 'a fast_scalar_scheme \<Rightarrow> 'a fast_scalar_scheme encoded" where
  "encode_int_at l send tmp b p f =
     (case l of
        Enc_done \<Rightarrow> Some (True, b, p, f)
      | Enc_fail \<Rightarrow> Some (False, b, p, f)
      | Enc_transfer pset \<Rightarrow>
          encode_finish pset (send b tmp) p
            (f\<lparr>int_previous := int_value f, f_state_previous := f_state f\<rparr>)
      | Enc_empty pset \<Rightarrow>
          encode_finish pset (send b 0) p
            (f\<lparr>int_value := int_previous f, f_state_previous := f_state f\<rparr>))"

definition same_int :: "'a fast_scalar_scheme \<Rightarrow> bool" where
  "same_int f \<longleftrightarrow> int_value f = int_previous f"

definition succ_int :: "'a fast_scalar_scheme \<Rightarrow> bool" where
  "succ_int f \<longleftrightarrow> int_value f = int_previous f + 1"

definition previous_plus :: "'a fast_scalar_scheme \<Rightarrow> 'a fast_scalar_scheme" where
  "previous_plus f = f\<lparr>int_previous := int_previous f + 1\<rparr>"

text \<open>The number sent for an optional field: \<open>tmp >= 0 ? tmp + 1 : tmp\<close>\<close>

definition optional_int :: "'a fast_scalar_scheme \<Rightarrow> i64 \<Rightarrow> i64" where
  "optional_int f tmp = (if \<not> field_is_mandatory f \<and> 0 \<le>s tmp then tmp + 1 else tmp)"

definition optional_uint :: "'a fast_scalar_scheme \<Rightarrow> u64 \<Rightarrow> u64" where
  "optional_uint f tmp = (if \<not> field_is_mandatory f then tmp + 1 else tmp)"

definition fast_encode_int :: "buffer \<Rightarrow> fast_pmap \<Rightarrow> 'a fast_scalar_scheme \<Rightarrow> 'a fast_scalar_scheme encoded" where
  "fast_encode_int b p f =
     (let tmp = optional_int f (int_value f) in
      case f_op f of
        FAST_OP_NONE \<Rightarrow>
          let (l, f) = encode_always f in encode_int_at l transfer_int tmp b p f
      | FAST_OP_COPY \<Rightarrow>
          let (l, f) = encode_reuse same_int (\<lambda>f. f) f in encode_int_at l transfer_int tmp b (pmap_step p) f
      | FAST_OP_INCR \<Rightarrow>
          let (l, f) = encode_reuse succ_int previous_plus f
          in encode_int_at l transfer_int tmp b (pmap_step p) f
      | FAST_OP_DELTA \<Rightarrow>
          let tmp = optional_int f (int_value f - int_previous f); (l, f) = encode_always f
          in encode_int_at l transfer_int tmp b p f
      | FAST_OP_DEFAULT \<Rightarrow>
          let (l, f) = encode_default f in encode_int_at l transfer_int tmp b (pmap_step p) f
      | FAST_OP_CONSTANT \<Rightarrow> do {
          (p, f) \<leftarrow> encode_constant p f;
          Some (True, b, p, f) })"

text \<open>An unsigned delta is sent with \<open>transfer_int\<close>, everything else with \<open>transfer_uint\<close>.\<close>

definition fast_encode_uint :: "buffer \<Rightarrow> fast_pmap \<Rightarrow> 'a fast_scalar_scheme \<Rightarrow> 'a fast_scalar_scheme encoded" where
  "fast_encode_uint b p f =
     (let tmp = optional_uint f (int_value f) in
      case f_op f of
        FAST_OP_NONE \<Rightarrow>
          let (l, f) = encode_always f in encode_int_at l transfer_uint tmp b p f
      | FAST_OP_COPY \<Rightarrow>
          let (l, f) = encode_reuse same_int (\<lambda>f. f) f in encode_int_at l transfer_uint tmp b (pmap_step p) f
      | FAST_OP_INCR \<Rightarrow>
          let (l, f) = encode_reuse succ_int previous_plus f
          in encode_int_at l transfer_uint tmp b (pmap_step p) f
      | FAST_OP_DELTA \<Rightarrow>
          let delta = optional_int f (int_value f - int_previous f); (l, f) = encode_always f
          in encode_int_at l transfer_int delta b p f
      | FAST_OP_DEFAULT \<Rightarrow>
          let (l, f) = encode_default f in encode_int_at l transfer_uint tmp b (pmap_step p) f
      | FAST_OP_CONSTANT \<Rightarrow> do {
          (p, f) \<leftarrow> encode_constant p f;
          Some (True, b, p, f) })"

subsection \<open>Strings\<close>

definition same_string :: "'a fast_field_scheme \<Rightarrow> bool" where
  "same_string f \<longleftrightarrow> c_str (string_value f) = c_str (string_previous f)"

text \<open>\<open>memcpy(to, from, strlen(from) + 1)\<close>\<close>

definition copy_c_string :: "mem \<Rightarrow> mem \<Rightarrow> mem option" where
  "copy_c_string to from = do {
     n \<leftarrow> c_strlen from;
     s \<leftarrow> mem_load from 0 (n + 1);
     mem_store to 0 s }"

definition encode_string_transfer ::
    "bool \<Rightarrow> bool \<Rightarrow> buffer \<Rightarrow> fast_pmap \<Rightarrow> 'a fast_field_scheme \<Rightarrow> 'a fast_field_scheme encoded" where
  "encode_string_transfer null pset b p f = do {
     m \<leftarrow> copy_c_string (string_previous f) (string_value f);
     (let f = f\<lparr>string_previous := m, f_state_previous := f_state f\<rparr>
      in encode_finish pset (transfer_string b (if null then None else Some (string_value f))) p f) }"

definition encode_string_at ::
    "enc_label \<Rightarrow> buffer \<Rightarrow> fast_pmap \<Rightarrow> 'a fast_field_scheme \<Rightarrow> 'a fast_field_scheme encoded" where
  "encode_string_at l b p f =
     (case l of
        Enc_done \<Rightarrow> Some (True, b, p, f)
      | Enc_fail \<Rightarrow> Some (False, b, p, f)
      | Enc_transfer pset \<Rightarrow> encode_string_transfer False pset b p f
      | Enc_empty pset \<Rightarrow> do {
          m \<leftarrow> copy_c_string (string_value f) (string_previous f);
          encode_string_transfer True pset b p (f\<lparr>string_value := m\<rparr>) })"

definition fast_encode_string :: "buffer \<Rightarrow> fast_pmap \<Rightarrow> 'a fast_field_scheme \<Rightarrow> 'a fast_field_scheme encoded" where
  "fast_encode_string b p f =
     (case f_op f of
        FAST_OP_NONE \<Rightarrow> let (l, f) = encode_always f in encode_string_at l b p f
      | FAST_OP_COPY \<Rightarrow>
          let (l, f) = encode_reuse same_string (\<lambda>f. f) f in encode_string_at l b (pmap_step p) f
      | FAST_OP_INCR \<Rightarrow> Some (False, b, p, f)
      | FAST_OP_DELTA \<Rightarrow> Some (False, b, p, f)
      | FAST_OP_DEFAULT \<Rightarrow>
          let (l, f) = encode_default f in encode_string_at l b (pmap_step p) f
      | FAST_OP_CONSTANT \<Rightarrow> do {
          (p, f) \<leftarrow> encode_constant p f;
          Some (True, b, p, f) })"

subsection \<open>Decimals\<close>

definition same_decimal :: "'a fast_field_scheme \<Rightarrow> bool" where
  "same_decimal f \<longleftrightarrow> dec_exp (decimal_value f) = dec_exp (decimal_previous f)
     \<and> dec_mnt (decimal_value f) = dec_mnt (decimal_previous f)"

text \<open>An empty decimal is a zero exponent with no mantissa behind it.\<close>

definition transfer_decimal :: "buffer \<Rightarrow> bool \<Rightarrow> i64 \<Rightarrow> i64 \<Rightarrow> (bool \<times> buffer) option" where
  "transfer_decimal b is_empty exp mnt = do {
     (ok, b) \<leftarrow> transfer_int b exp;
     (if \<not> ok then Some (False, b)
      else if \<not> is_empty then transfer_int b mnt
      else Some (True, b)) }"

definition encode_decimal_at ::
    "enc_label \<Rightarrow> i64 \<Rightarrow> i64 \<Rightarrow> buffer \<Rightarrow> fast_pmap \<Rightarrow> 'a fast_field_scheme \<Rightarrow> 'a fast_field_scheme encoded" where
  "encode_decimal_at l exp mnt b p f =
     (case l of
        Enc_done \<Rightarrow> Some (True, b, p, f)
      | Enc_fail \<Rightarrow> Some (False, b, p, f)
      | Enc_transfer pset \<Rightarrow>
          encode_finish pset (transfer_decimal b False exp mnt) p
            (f\<lparr>decimal_previous := decimal_value f, f_state_previous := f_state f\<rparr>)
      | Enc_empty pset \<Rightarrow>
          encode_finish pset (transfer_decimal b True 0 mnt) p (f\<lparr>f_state_previous := f_state f\<rparr>))"

text \<open>The \<open>FAST_OP_INCR\<close> case is a plain \<open>break\<close>: it returns 0 and sends nothing.\<close>

definition fast_encode_decimal_atomic :: "buffer \<Rightarrow> fast_pmap \<Rightarrow> 'a fast_field_scheme \<Rightarrow> 'a fast_field_scheme encoded" where
  "fast_encode_decimal_atomic b p f =
     (let exp = optional_int f (dec_exp (decimal_value f)); mnt = dec_mnt (decimal_value f) in
      case f_op f of
        FAST_OP_NONE \<Rightarrow> let (l, f) = encode_always f in encode_decimal_at l exp mnt b p f
      | FAST_OP_COPY \<Rightarrow>
          let (l, f) = encode_reuse same_decimal (\<lambda>f. f) f in encode_decimal_at l exp mnt b (pmap_step p) f
      | FAST_OP_INCR \<Rightarrow> Some (True, b, p, f)
      | FAST_OP_DELTA \<Rightarrow>
          let exp = optional_int f (dec_exp (decimal_value f) - dec_exp (decimal_previous f));
              mnt = dec_mnt (decimal_value f) - dec_mnt (decimal_previous f);
              (l, f) = encode_always f
          in encode_decimal_at l exp mnt b p f
      | FAST_OP_DEFAULT \<Rightarrow>
          let (l, f) = encode_default f in encode_decimal_at l exp mnt b (pmap_step p) f
      | FAST_OP_CONSTANT \<Rightarrow> do {
          (p, f) \<leftarrow> encode_constant p f;
          Some (True, b, p, f) })"

definition fast_encode_decimal_individ :: "buffer \<Rightarrow> fast_pmap \<Rightarrow> 'a fast_field_scheme \<Rightarrow> 'a fast_field_scheme encoded" where
  "fast_encode_decimal_individ b p f = do {
     (f0, f1) \<leftarrow> decimal_fields f;
     (let f0 = (if \<not> field_state_empty f then f0\<lparr>int_value := dec_exp (decimal_value f)\<rparr> else f0);
          f1 = (if \<not> field_state_empty f then f1\<lparr>int_value := dec_mnt (decimal_value f)\<rparr> else f1);
          f0 = f0\<lparr>f_state := f_state f\<rparr>; f1 = f1\<lparr>f_state := f_state f\<rparr>
      in do {
        (ok, b, p, f0) \<leftarrow> fast_encode_int b p f0;
        (let f = f\<lparr>decimal_fields := Some (f0, f1)\<rparr> in
         if \<not> ok \<or> field_state_empty f0 then Some (ok, b, p, f)
         else do {
           (ok, b, p, f1) \<leftarrow> fast_encode_int b p f1;
           Some (ok, b, p, f\<lparr>f_state := FAST_STATE_ASSIGNED, decimal_fields := Some (f0, f1)\<rparr>) }) }) }"

definition fast_encode_decimal :: "buffer \<Rightarrow> fast_pmap \<Rightarrow> 'a fast_field_scheme \<Rightarrow> 'a fast_field_scheme encoded" where
  "fast_encode_decimal b p f =
     (if field_has_flags f FAST_FIELD_FLAGS_DECIMAL_INDIVID = 0 then fast_encode_decimal_atomic b p f
      else fast_encode_decimal_individ b p f)"

subsection \<open>One field, encoded and decoded\<close>

text \<open>What a field's encoder may do to the presence map: move to the next bit at most, and set that
  bit; \<open>pmap_fresh\<close> says that the bits to come are still clear.\<close>

definition pmap_fresh :: "fast_pmap \<Rightarrow> bool" where
  "pmap_fresh p \<longleftrightarrow> pmap_wf p \<and> (\<forall>j > unat (pmap_bit p). \<not> pmap_get p j)"

definition pmap_grows :: "nat \<Rightarrow> fast_pmap \<Rightarrow> fast_pmap \<Rightarrow> bool" where
  "pmap_grows n p p' \<longleftrightarrow> nr_bytes p' = nr_bytes p
     \<and> unat (pmap_bit p) \<le> unat (pmap_bit p') \<and> unat (pmap_bit p') \<le> unat (pmap_bit p) + n
     \<and> (\<forall>j \<le> unat (pmap_bit p). pmap_get p' j = pmap_get p j) \<and> pmap_fresh p'"

text \<open>A decoder's map \<open>q\<close> that has arrived at the same bit as the encoder's \<open>p\<close> and agrees with what
  the encoder will have written up to \<open>p'\<close>.\<close>

definition pmap_reads :: "fast_pmap \<Rightarrow> fast_pmap \<Rightarrow> fast_pmap \<Rightarrow> bool" where
  "pmap_reads q p p' \<longleftrightarrow> pmap_wf q \<and> pmap_bit q = pmap_bit p
     \<and> (\<forall>j \<le> unat (pmap_bit p'). pmap_get q j = pmap_get p' j)"

definition field_step ::
    "(buffer \<Rightarrow> fast_pmap \<Rightarrow> 'f \<Rightarrow> 'f encoded) \<Rightarrow> (buffer \<Rightarrow> fast_pmap \<Rightarrow> 'g \<Rightarrow> 'g decoded)
       \<Rightarrow> ('f \<Rightarrow> 'g \<Rightarrow> bool) \<Rightarrow> nat \<Rightarrow> fast_pmap \<Rightarrow> 'f \<Rightarrow> 'g \<Rightarrow> bool" where
  "field_step enc dec P n p e d \<longleftrightarrow> (\<exists>w p' e' d'.
     (\<forall>b. buffer_wf b \<longrightarrow> n \<le> buffer_room b \<longrightarrow> enc b p e = Some (True, buffer_extend b w, p', e'))
     \<and> length w \<le> n \<and> pmap_grows 1 p p' \<and> P e' d'
     \<and> (\<forall>c q rest. holds c (w @ rest) \<longrightarrow> pmap_reads q p p' \<longrightarrow>
          dec c q d = Some (Inr (), buffer_advance c (of_nat (length w)), q\<lparr>pmap_bit := pmap_bit p'\<rparr>, d')))"

text \<open>One number on the wire, with what the decoder makes of it.\<close>

definition number_sent ::
    "(buffer \<Rightarrow> 'v \<Rightarrow> (bool \<times> buffer) option) \<Rightarrow> (buffer \<Rightarrow> ((fast_err + 'v) \<times> buffer) option)
       \<Rightarrow> 'v \<Rightarrow> u8 list \<Rightarrow> bool" where
  "number_sent send get v w \<longleftrightarrow> length w \<le> 9
     \<and> (\<forall>b. buffer_wf b \<longrightarrow> length w \<le> buffer_room b \<longrightarrow> send b v = Some (True, buffer_extend b w))
     \<and> (\<forall>c rest. holds c (w @ rest) \<longrightarrow> get c = Some (Inr v, buffer_advance c (of_nat (length w))))"

lemma number_sent_uint: "uint_fits v \<Longrightarrow> number_sent transfer_uint parse_uint v (enc_uint v)"
  using transfer_size_uint_bounds [of v]
  by (auto simp: number_sent_def enc_uint_def intro: uint_codec.put_enc [unfolded enc_uint_def]
      uint_codec.get_enc [unfolded enc_uint_def, THEN trans])

lemma number_sent_int: "int_fits v \<Longrightarrow> number_sent transfer_int parse_int v (enc_int v)"
  using transfer_size_int_bounds [of v]
  by (auto simp: number_sent_def enc_int_def intro: int_codec.put_enc [unfolded enc_int_def]
      int_codec.get_enc [unfolded enc_int_def, THEN trans])

definition decode_number ::
    "(buffer \<Rightarrow> ((fast_err + 'v) \<times> buffer) option) \<Rightarrow> ('f \<Rightarrow> 'v \<Rightarrow> 'f)
       \<Rightarrow> buffer \<Rightarrow> fast_pmap \<Rightarrow> 'f \<Rightarrow> 'f decoded" where
  "decode_number get recv b p f = do {
     (r, b) \<leftarrow> get b;
     (case r of
        Inl e \<Rightarrow> Some (Inl e, b, p, f)
      | Inr v \<Rightarrow> Some (Inr (), b, p, recv f v)) }"

lemma pmap_grows_refl: "pmap_fresh p \<Longrightarrow> pmap_grows n p p"
  by (simp add: pmap_grows_def)

lemma unat_bit_step:
  "unat (i :: i64) + 1 < 7 * unat (n :: ulong) \<Longrightarrow> n \<le> 8 \<Longrightarrow> unat (i + 1) = unat i + 1"
  by (simp add: word_le_nat_alt unat_plus_1 [of i 60])

lemma pmap_wf_8: "pmap_wf p \<Longrightarrow> nr_bytes p \<le> 8"
  by (simp add: pmap_wf_def FAST_PMAP_MAX_BYTES_def)

lemma pmap_step_grows:
  assumes p: "pmap_fresh p" and room: "unat (pmap_bit p) + 1 < 7 * unat (nr_bytes p)"
  shows "pmap_grows 1 p (pmap_step p)" "unat (pmap_bit (pmap_step p)) = unat (pmap_bit p) + 1"
    "\<not> pmap_get (pmap_step p) (unat (pmap_bit p) + 1)"
proof -
  have wf: "pmap_wf p" using p by (simp add: pmap_fresh_def)
  have u: "unat (pmap_bit p + 1) = unat (pmap_bit p) + 1"
    using room pmap_wf_8 [OF wf] by (rule unat_bit_step)
  show "unat (pmap_bit (pmap_step p)) = unat (pmap_bit p) + 1" using u by (simp add: pmap_step_def)
  show "pmap_grows 1 p (pmap_step p)" "\<not> pmap_get (pmap_step p) (unat (pmap_bit p) + 1)"
    using p u by (auto simp: pmap_grows_def pmap_step_def pmap_fresh_def pmap_wf_def pmap_get_def)
qed

lemma pmap_step_set:
  assumes p: "pmap_fresh p" and room: "unat (pmap_bit p) + 1 < 7 * unat (nr_bytes p)"
  shows "\<exists>p'. pmap_set (pmap_step p) (pmap_bit (pmap_step p)) = Some (True, p')
    \<and> pmap_grows 1 p p' \<and> unat (pmap_bit p') = unat (pmap_bit p) + 1
    \<and> pmap_bit p' = pmap_bit p + 1 \<and> pmap_get p' (unat (pmap_bit p) + 1)"
proof -
  note s = pmap_step_grows [OF p room]
  have wf: "pmap_wf (pmap_step p)" using s(1) by (simp add: pmap_grows_def pmap_fresh_def)
  have b: "pmap_bit (pmap_step p) = pmap_bit p + 1" "nr_bytes (pmap_step p) = nr_bytes p"
    by (simp_all add: pmap_step_def)
  from pmap_set_get [OF wf, of "pmap_bit (pmap_step p)"] room s(2) obtain p' where
    q: "pmap_set (pmap_step p) (pmap_bit (pmap_step p)) = Some (True, p')" "pmap_wf p'"
      "nr_bytes p' = nr_bytes p" "pmap_bit p' = pmap_bit p + 1"
      "\<forall>j. pmap_get p' j \<longleftrightarrow> j = unat (pmap_bit p) + 1 \<or> pmap_get (pmap_step p) j"
    by (auto simp: b)
  have u: "unat (pmap_bit p') = unat (pmap_bit p) + 1" using s(2) by (simp add: b q(4))
  have "pmap_grows 1 p p'"
    using s(1) s(2) q u by (auto simp: pmap_grows_def pmap_fresh_def)
  then show ?thesis using q u by auto
qed

lemma next_bit_reads:
  assumes "pmap_reads q p p'" "pmap_bit p' = pmap_bit p + 1" "unat (pmap_bit p') = unat (pmap_bit p) + 1"
  shows "next_pmap_bit q = Some (pmap_get p' (unat (pmap_bit p) + 1), q\<lparr>pmap_bit := pmap_bit p'\<rparr>)"
proof -
  have wf: "pmap_wf (q\<lparr>pmap_bit := pmap_bit q + 1\<rparr>)" using assms(1) by (simp add: pmap_reads_def pmap_wf_def)
  have "pmap_get (q\<lparr>pmap_bit := k\<rparr>) j = pmap_get q j" for j k by (simp add: pmap_get_def)
  with assms pmap_is_set_get [OF wf, of "pmap_bit q + 1"] show ?thesis
    by (auto simp: next_pmap_bit_def Let_def pmap_reads_def)
qed

text \<open>The four ways a field goes over: without a presence bit, with the bit set and a value, with the
  bit clear, and (a constant) with a bit that is the value.\<close>

lemma step_plain:
  assumes sent: "number_sent send get v w" and n: "length w \<le> n"
    and enc: "\<And>b. enc b p e = encode_finish False (send b v) p e'"
    and dec: "\<And>c q. dec c q d = decode_number get recv c q d"
    and P: "P e' (recv d v)" and p: "pmap_fresh p"
  shows "field_step enc dec P n p e d"
proof -
  have "dec c q d = Some (Inr (), buffer_advance c (of_nat (length w)), q\<lparr>pmap_bit := pmap_bit p\<rparr>, recv d v)"
    if "holds c (w @ rest)" "pmap_reads q p p" for c q rest
    using that sent by (auto simp: dec decode_number_def number_sent_def pmap_reads_def)
  moreover have "enc b p e = Some (True, buffer_extend b w, p, e')" if "buffer_wf b" "n \<le> buffer_room b" for b
    using that sent n by (simp add: enc encode_finish_def number_sent_def)
  ultimately show ?thesis using n P pmap_grows_refl [OF p] unfolding field_step_def by blast
qed

lemma step_bit_sent:
  assumes sent: "number_sent send get v w" and n: "length w \<le> n"
    and enc: "\<And>b. enc b p e = encode_finish True (send b v) (pmap_step p) e'"
    and dec: "\<And>c q. dec c q d = if_pmap_bit absent (decode_number get recv) c q d"
    and P: "P e' (recv d v)" and p: "pmap_fresh p"
    and room: "unat (pmap_bit p) + 1 < 7 * unat (nr_bytes p)"
  shows "field_step enc dec P n p e d"
proof -
  from pmap_step_set [OF p room] obtain p' where
    p': "pmap_set (pmap_step p) (pmap_bit (pmap_step p)) = Some (True, p')" "pmap_grows 1 p p'"
      "unat (pmap_bit p') = unat (pmap_bit p) + 1" "pmap_bit p' = pmap_bit p + 1"
      "pmap_get p' (unat (pmap_bit p) + 1)" by blast
  have "dec c q d = Some (Inr (), buffer_advance c (of_nat (length w)), q\<lparr>pmap_bit := pmap_bit p'\<rparr>, recv d v)"
    if h: "holds c (w @ rest)" and q: "pmap_reads q p p'" for c q rest
    using h sent p'(5)
    by (auto simp: dec if_pmap_bit_def next_bit_reads [OF q p'(4,3)] decode_number_def number_sent_def)
  moreover have "enc b p e = Some (True, buffer_extend b w, p', e')" if "buffer_wf b" "n \<le> buffer_room b" for b
    using that sent n p'(1) by (simp add: enc encode_finish_def number_sent_def)
  ultimately show ?thesis using n P p'(2) unfolding field_step_def by blast
qed

lemma step_bit_clear:
  assumes enc: "\<And>b. enc b p e = Some (True, b, pmap_step p, e')"
    and dec: "\<And>c q. dec c q d = if_pmap_bit absent transferred c q d"
    and absent: "absent d = Some (Inr (), d')"
    and P: "P e' d'" and p: "pmap_fresh p"
    and room: "unat (pmap_bit p) + 1 < 7 * unat (nr_bytes p)"
  shows "field_step enc dec P n p e d"
proof -
  note s = pmap_step_grows [OF p room]
  have b: "pmap_bit (pmap_step p) = pmap_bit p + 1" by (simp add: pmap_step_def)
  have "dec c q d = Some (Inr (), c, q\<lparr>pmap_bit := pmap_bit (pmap_step p)\<rparr>, d')"
    if q: "pmap_reads q p (pmap_step p)" for c q
    using s(3) by (simp add: dec if_pmap_bit_def next_bit_reads [OF q b s(2)] absent)
  then show ?thesis
    using P s(1) unfolding field_step_def
    by (intro exI [of _ "[]"] exI [of _ "pmap_step p"] exI [of _ e'] exI [of _ d']) (auto simp: enc)
qed

definition constant_received :: "'a fast_scalar_scheme \<Rightarrow> bool \<Rightarrow> 'a fast_scalar_scheme" where
  "constant_received d sent = d\<lparr>f_state := (if field_is_mandatory d \<or> sent then FAST_STATE_ASSIGNED else FAST_STATE_EMPTY)\<rparr>"

lemma step_constant:
  assumes enc: "\<And>b. enc b p e = Option.bind (encode_constant p e) (\<lambda>(p, e). Some (True, b, p, e))"
    and dec: "\<And>c q. dec c q d = decode_constant assign c q d"
    and assign: "(if f_state d \<noteq> FAST_STATE_ASSIGNED then assign d else Some d) = Some d1"
    and presence: "field_is_mandatory d = field_is_mandatory e" "field_is_mandatory d1 = field_is_mandatory e"
    and P: "P (if optional_empty e then e else e\<lparr>f_state := FAST_STATE_ASSIGNED\<rparr>)
              (constant_received d1 (\<not> field_state_empty e))"
    and p: "pmap_fresh p" and room: "unat (pmap_bit p) + 1 < 7 * unat (nr_bytes p)"
  shows "field_step enc dec P n p e d"
proof -
  have m: "field_is_mandatory (d1\<lparr>f_state := s\<rparr>) = field_is_mandatory d1" for s
    by (simp add: field_is_mandatory_def)
  consider "field_is_mandatory e" | "\<not> field_is_mandatory e" "field_state_empty e"
    | "\<not> field_is_mandatory e" "\<not> field_state_empty e" by blast
  then show ?thesis
  proof cases
    case 1
    have "dec c q d = Some (Inr (), c, q\<lparr>pmap_bit := pmap_bit p\<rparr>, constant_received d1 (\<not> field_state_empty e))"
      if "pmap_reads q p p" for c q
      using that 1 presence assign
      by (simp add: dec decode_constant_def Let_def m constant_received_def pmap_reads_def)
    moreover have "\<not> optional_empty e" using 1 by (simp add: optional_empty_def)
    ultimately show ?thesis
      using P 1 pmap_grows_refl [OF p] unfolding field_step_def
      by (intro exI [of _ "[]"] exI [of _ p] exI [of _ "e\<lparr>f_state := FAST_STATE_ASSIGNED\<rparr>"]
          exI [of _ "constant_received d1 (\<not> field_state_empty e)"])
         (auto simp: enc encode_constant_def)
  next
    case 2
    note s = pmap_step_grows [OF p room]
    have b: "pmap_bit (pmap_step p) = pmap_bit p + 1" by (simp add: pmap_step_def)
    have "dec c q d = Some (Inr (), c, q\<lparr>pmap_bit := pmap_bit (pmap_step p)\<rparr>, constant_received d1 False)"
      if q: "pmap_reads q p (pmap_step p)" for c q
      using 2 presence assign s(3)
      by (simp add: dec decode_constant_def Let_def m constant_received_def next_bit_reads [OF q b s(2)])
    then show ?thesis
      using P 2 s(1) unfolding field_step_def
      by (intro exI [of _ "[]"] exI [of _ "pmap_step p"] exI [of _ e] exI [of _ "constant_received d1 False"])
         (auto simp: enc encode_constant_def Let_def optional_empty_def)
  next
    case 3
    from pmap_step_set [OF p room] obtain p' where
      p': "pmap_set (pmap_step p) (pmap_bit (pmap_step p)) = Some (True, p')" "pmap_grows 1 p p'"
        "unat (pmap_bit p') = unat (pmap_bit p) + 1" "pmap_bit p' = pmap_bit p + 1"
        "pmap_get p' (unat (pmap_bit p) + 1)" by blast
    have "dec c q d = Some (Inr (), c, q\<lparr>pmap_bit := pmap_bit p'\<rparr>, constant_received d1 True)"
      if q: "pmap_reads q p p'" for c q
      using 3 presence assign p'(5)
      by (simp add: dec decode_constant_def Let_def m constant_received_def next_bit_reads [OF q p'(4,3)])
    then show ?thesis
      using P 3 p'(1,2) unfolding field_step_def
      by (intro exI [of _ "[]"] exI [of _ p'] exI [of _ "e\<lparr>f_state := FAST_STATE_ASSIGNED\<rparr>"]
          exI [of _ "constant_received d1 True"])
         (auto simp: enc encode_constant_def Let_def optional_empty_def)
  qed
qed

subsection \<open>Integer fields stay in step\<close>

text \<open>The decoder's field \<open>d\<close> has seen what the encoder's field \<open>e\<close> remembers.\<close>

definition sync_int :: "'a fast_scalar_scheme \<Rightarrow> 'b fast_scalar_scheme \<Rightarrow> bool" where
  "sync_int e d \<longleftrightarrow> f_presence d = f_presence e \<and> f_op d = f_op e
     \<and> f_has_reset d = f_has_reset e \<and> int_reset d = int_reset e
     \<and> (f_op e \<in> {FAST_OP_COPY, FAST_OP_INCR} \<and> f_state_previous e = FAST_STATE_ASSIGNED \<longrightarrow>
          f_state d = FAST_STATE_ASSIGNED \<and> int_value d = int_previous e)
     \<and> (f_op e = FAST_OP_DELTA \<longrightarrow> int_value d = int_previous e)
     \<and> (f_op e = FAST_OP_CONSTANT \<and> f_state d = FAST_STATE_ASSIGNED \<longrightarrow> int_value d = int_reset d)"

text \<open>The decoder reports what the encoder was given: the same state (a value that was not marked
  empty counts as assigned), and the same value.\<close>

definition same_field :: "'a fast_scalar_scheme \<Rightarrow> 'b fast_scalar_scheme \<Rightarrow> bool" where
  "same_field e d \<longleftrightarrow>
     (if f_state e = FAST_STATE_EMPTY then f_state d = FAST_STATE_EMPTY
      else f_state d = FAST_STATE_ASSIGNED \<and> int_value d = int_value e)"

text \<open>What the user of an encoder has to provide: an empty value only for an optional field, the value
  of the template for a constant, and numbers that the transfer encoding can carry.\<close>

definition ready :: "'a fast_scalar_scheme \<Rightarrow> bool" where
  "ready e \<longleftrightarrow> (f_state e = FAST_STATE_EMPTY \<longrightarrow> \<not> field_is_mandatory e)
     \<and> (f_op e \<in> {FAST_OP_COPY, FAST_OP_INCR} \<and> f_state e = FAST_STATE_ASSIGNED \<longrightarrow>
          f_state_previous e \<noteq> FAST_STATE_UNDEFINED)
     \<and> (f_op e = FAST_OP_CONSTANT \<and> f_state e \<noteq> FAST_STATE_EMPTY \<longrightarrow> int_value e = int_reset e)"

definition narrow :: "i64 \<Rightarrow> bool" where
  "narrow v \<longleftrightarrow> - (2 ^ 62) \<le> sint v \<and> sint v < 2 ^ 62 - 1"

definition ready_uint :: "'a fast_scalar_scheme \<Rightarrow> bool" where
  "ready_uint e \<longleftrightarrow> ready e \<and> (f_state e \<noteq> FAST_STATE_EMPTY \<longrightarrow>
     (if f_op e = FAST_OP_DELTA then narrow (int_value e - int_previous e)
      else unat (int_value e) < 2 ^ 63 - 1))"

definition ready_int :: "'a fast_scalar_scheme \<Rightarrow> bool" where
  "ready_int e \<longleftrightarrow> ready e \<and> (f_state e \<noteq> FAST_STATE_EMPTY \<longrightarrow>
     narrow (if f_op e = FAST_OP_DELTA then int_value e - int_previous e else int_value e))"

text \<open>Both integer encoders and decoders are instances of one shape.\<close>

definition encode_integer ::
    "(buffer \<Rightarrow> u64 \<Rightarrow> (bool \<times> buffer) option) \<Rightarrow> u64 \<Rightarrow> buffer \<Rightarrow> fast_pmap \<Rightarrow> 'a fast_scalar_scheme
       \<Rightarrow> 'a fast_scalar_scheme encoded" where
  "encode_integer send tmp b p f =
     (case f_op f of
        FAST_OP_NONE \<Rightarrow>
          let (l, f) = encode_always f in encode_int_at l send tmp b p f
      | FAST_OP_COPY \<Rightarrow>
          let (l, f) = encode_reuse same_int (\<lambda>f. f) f in encode_int_at l send tmp b (pmap_step p) f
      | FAST_OP_INCR \<Rightarrow>
          let (l, f) = encode_reuse succ_int previous_plus f in encode_int_at l send tmp b (pmap_step p) f
      | FAST_OP_DELTA \<Rightarrow>
          let delta = optional_int f (int_value f - int_previous f); (l, f) = encode_always f
          in encode_int_at l transfer_int delta b p f
      | FAST_OP_DEFAULT \<Rightarrow>
          let (l, f) = encode_default f in encode_int_at l send tmp b (pmap_step p) f
      | FAST_OP_CONSTANT \<Rightarrow>
          Option.bind (encode_constant p f) (\<lambda>(p, f). Some (True, b, p, f)))"

definition decode_integer ::
    "(buffer \<Rightarrow> ((fast_err + u64) \<times> buffer) option) \<Rightarrow> ('a fast_scalar_scheme \<Rightarrow> u64 \<Rightarrow> 'a fast_scalar_scheme)
       \<Rightarrow> ('a fast_scalar_scheme \<Rightarrow> i64 \<Rightarrow> 'a fast_scalar_scheme)
       \<Rightarrow> buffer \<Rightarrow> fast_pmap \<Rightarrow> 'a fast_scalar_scheme \<Rightarrow> 'a fast_scalar_scheme decoded" where
  "decode_integer get recv recv_delta b p f =
     (case f_op f of
        FAST_OP_NONE \<Rightarrow> decode_number get recv b p f
      | FAST_OP_COPY \<Rightarrow>
          if_pmap_bit (reuse_previous assign_int (\<lambda>f. f)) (decode_number get recv) b p f
      | FAST_OP_INCR \<Rightarrow>
          if_pmap_bit (reuse_previous assign_int (\<lambda>f. f\<lparr>int_value := int_value f + 1\<rparr>))
            (decode_number get recv) b p f
      | FAST_OP_DELTA \<Rightarrow> decode_number parse_int recv_delta b p f
      | FAST_OP_DEFAULT \<Rightarrow> if_pmap_bit (reset_or_empty assign_int) (decode_number get recv) b p f
      | FAST_OP_CONSTANT \<Rightarrow> decode_constant assign_int b p f)"

definition delta_received :: "'a fast_scalar_scheme \<Rightarrow> i64 \<Rightarrow> 'a fast_scalar_scheme" where
  "delta_received f tmp =
     (let f = f\<lparr>f_state := FAST_STATE_ASSIGNED, int_value := int_value f + tmp\<rparr> in
      if field_is_mandatory f then f
      else if tmp = 0 then f\<lparr>f_state := FAST_STATE_EMPTY\<rparr>
      else if 0 <s tmp then f\<lparr>int_value := int_value f - 1\<rparr>
      else f)"

lemma fast_encode_uint_integer:
  "fast_encode_uint b p f = encode_integer transfer_uint (optional_uint f (int_value f)) b p f"
  by (simp add: fast_encode_uint_def encode_integer_def Let_def split: fast_op.split)

lemma fast_encode_int_integer:
  "fast_encode_int b p f = encode_integer transfer_int (optional_int f (int_value f)) b p f"
  by (simp add: fast_encode_int_def encode_integer_def Let_def split: fast_op.split)

lemma decode_none_number:
  "decode_uint_none = decode_number parse_uint uint_received"
  "decode_int_none = decode_number parse_int int_received"
  by (simp_all add: fun_eq_iff decode_uint_none_def decode_int_none_def decode_number_def)

lemma decode_delta_number:
  "decode_uint_delta b p f = decode_number parse_int delta_received b p f"
  "decode_int_delta b p f = decode_number parse_int delta_received b p f"
  by (auto simp: decode_uint_delta_def decode_int_delta_def decode_number_def delta_received_def Let_def
      intro!: Option.bind_cong split: sum.split)

lemma fast_decode_uint_integer:
  "fast_decode_uint b p f = decode_integer parse_uint uint_received delta_received b p f"
  by (simp add: fast_decode_uint_def decode_integer_def decode_uint_copy_def decode_uint_incr_def
      decode_uint_default_def decode_uint_constant_def decode_none_number decode_delta_number
      split: fast_op.split)

lemma fast_decode_int_integer:
  "fast_decode_int b p f = decode_integer parse_int int_received delta_received b p f"
  by (simp add: fast_decode_int_def decode_integer_def decode_int_copy_def decode_int_incr_def
      decode_int_default_def decode_int_constant_def decode_none_number decode_delta_number
      split: fast_op.split)

lemmas encode_choice_defs = encode_always_def encode_reuse_def encode_default_def encode_int_at_def
  optional_empty_def field_state_empty_def field_state_empty_previous_def

text \<open>The decoder's side of a number, and of the 0 that stands for an empty field.\<close>

definition value_received :: "('b fast_scalar_scheme \<Rightarrow> 'v \<Rightarrow> 'b fast_scalar_scheme) \<Rightarrow> 'v
    \<Rightarrow> 'a fast_scalar_scheme \<Rightarrow> 'b fast_scalar_scheme \<Rightarrow> bool" where
  "value_received recv v e d \<longleftrightarrow> (f_state e \<noteq> FAST_STATE_EMPTY \<longrightarrow>
     recv d v = d\<lparr>int_value := int_value e, f_state := FAST_STATE_ASSIGNED\<rparr>)"

definition empty_received :: "('b fast_scalar_scheme \<Rightarrow> 'v::zero \<Rightarrow> 'b fast_scalar_scheme)
    \<Rightarrow> 'a fast_scalar_scheme \<Rightarrow> 'b fast_scalar_scheme \<Rightarrow> bool" where
  "empty_received recv e d \<longleftrightarrow> (f_state e = FAST_STATE_EMPTY \<longrightarrow>
     (\<exists>x. recv d 0 = d\<lparr>int_value := x, f_state := FAST_STATE_EMPTY\<rparr>
        \<and> (f_op e = FAST_OP_DELTA \<longrightarrow> x = int_value d)))"

lemma ready_empty: "ready e \<Longrightarrow> f_state e = FAST_STATE_EMPTY \<Longrightarrow> \<not> field_is_mandatory e"
  by (simp add: ready_def)

lemma number_sent_9: "number_sent s g v w \<Longrightarrow> length w \<le> 9"
  by (simp add: number_sent_def)

abbreviation after_transfer :: "'a fast_scalar_scheme \<Rightarrow> 'a fast_scalar_scheme" where
  "after_transfer e \<equiv> e\<lparr>f_state := FAST_STATE_ASSIGNED, int_previous := int_value e,
     f_state_previous := FAST_STATE_ASSIGNED\<rparr>"

abbreviation after_empty :: "'a fast_scalar_scheme \<Rightarrow> 'a fast_scalar_scheme" where
  "after_empty e \<equiv> e\<lparr>int_value := int_previous e, f_state_previous := FAST_STATE_EMPTY\<rparr>"

text \<open>After a field has gone over: the value has arrived, both sides are in step again, and nothing but
  the integer part of the fields has changed.\<close>

definition tracks :: "'a fast_scalar_scheme \<Rightarrow> 'b fast_scalar_scheme \<Rightarrow> 'a fast_scalar_scheme
    \<Rightarrow> 'b fast_scalar_scheme \<Rightarrow> bool" where
  "tracks e d e' d' \<longleftrightarrow> same_field e d' \<and> sync_int e' d'
     \<and> fast_scalar.more e' = fast_scalar.more e \<and> fast_scalar.more d' = fast_scalar.more d"

lemma sync_after:
  assumes "sync_int e d" "f_op e \<noteq> FAST_OP_CONSTANT"
  shows "value_received recv v e d \<Longrightarrow> f_state e \<noteq> FAST_STATE_EMPTY \<Longrightarrow>
      tracks e d (after_transfer e) (recv d v)"
    and "empty_received recv e d \<Longrightarrow> f_state e = FAST_STATE_EMPTY \<Longrightarrow>
      tracks e d (after_empty e) (recv d 0)"
  using assms by (auto simp: tracks_def sync_int_def same_field_def value_received_def empty_received_def)

lemma always_step:
  assumes enc: "\<And>b. enc b p e = (let (l, f) = encode_always e in encode_int_at l send v b p f)"
    and dec: "\<And>c q. dec c q d = decode_number get recv c q d"
    and op: "f_op e \<noteq> FAST_OP_CONSTANT" and sync: "sync_int e d" and ready: "ready e" and p: "pmap_fresh p"
    and val: "f_state e \<noteq> FAST_STATE_EMPTY \<Longrightarrow> number_sent send get v w" "number_sent send get 0 wz"
    and recv: "value_received recv v e d" "empty_received recv e d"
  shows "field_step enc dec (tracks e d) 9 p e d"
proof (cases "f_state e = FAST_STATE_EMPTY")
  case True
  have "encode_always e = (Enc_empty False, e)"
    using ready_empty [OF ready True] True by (simp add: encode_choice_defs)
  then show ?thesis
    using sync_after(2) [OF sync op recv(2) True] p True
    by (intro step_plain [where e' = "after_empty e", OF val(2) number_sent_9 [OF val(2)], where dec = dec and d = d and recv = recv])
         (auto simp: dec enc encode_int_at_def)
next
  case False
  have "encode_always e = (Enc_transfer False, e\<lparr>f_state := FAST_STATE_ASSIGNED\<rparr>)"
    using False by (simp add: encode_choice_defs)
  then show ?thesis
    using sync_after(1) [OF sync op recv(1) False] p
    by (intro step_plain [where e' = "after_transfer e", OF val(1) number_sent_9 [OF val(1)], where dec = dec and d = d and recv = recv])
         (auto simp: dec False enc encode_int_at_def)
qed

lemma default_step:
  assumes enc: "\<And>b. enc b p e = (let (l, f) = encode_default e in encode_int_at l send v b (pmap_step p) f)"
    and dec: "\<And>c q. dec c q d = if_pmap_bit absent (decode_number get recv) c q d"
    and op: "f_op e \<noteq> FAST_OP_CONSTANT" and sync: "sync_int e d" and ready: "ready e" and p: "pmap_fresh p"
    and room: "unat (pmap_bit p) + 1 < 7 * unat (nr_bytes p)"
    and val: "f_state e \<noteq> FAST_STATE_EMPTY \<Longrightarrow> number_sent send get v w" "number_sent send get 0 wz"
    and recv: "value_received recv v e d" "empty_received recv e d"
  shows "field_step enc dec (tracks e d) 9 p e d"
proof (cases "f_state e = FAST_STATE_EMPTY")
  case True
  have "encode_default e = (Enc_empty True, e)"
    using ready_empty [OF ready True] True by (simp add: encode_choice_defs)
  then show ?thesis
    using sync_after(2) [OF sync op recv(2) True] p room True
    by (intro step_bit_sent [where e' = "after_empty e", OF val(2) number_sent_9 [OF val(2)], where dec = dec and d = d and recv = recv])
         (auto simp: dec enc encode_int_at_def)
next
  case False
  have "encode_default e = (Enc_transfer True, e\<lparr>f_state := FAST_STATE_ASSIGNED\<rparr>)"
    using False by (simp add: encode_choice_defs split: fast_state.split)
  then show ?thesis
    using sync_after(1) [OF sync op recv(1) False] p room
    by (intro step_bit_sent [where e' = "after_transfer e", OF val(1) number_sent_9 [OF val(1)], where dec = dec and d = d and recv = recv])
         (auto simp: dec False enc encode_int_at_def)
qed

lemma reuse_step:
  assumes enc: "\<And>b. enc b p e = (let (l, f) = encode_reuse same upd e in encode_int_at l send v b (pmap_step p) f)"
    and dec: "\<And>c q. dec c q d = if_pmap_bit (reuse_previous assign_int updd) (decode_number get recv) c q d"
    and op: "f_op e \<in> {FAST_OP_COPY, FAST_OP_INCR}" and sync: "sync_int e d" and ready: "ready e" and p: "pmap_fresh p"
    and room: "unat (pmap_bit p) + 1 < 7 * unat (nr_bytes p)"
    and val: "f_state e \<noteq> FAST_STATE_EMPTY \<Longrightarrow> number_sent send get v w" "number_sent send get 0 wz"
    and recv: "value_received recv v e d" "empty_received recv e d"
    and same: "same e \<Longrightarrow> f_state e = FAST_STATE_ASSIGNED \<Longrightarrow> f_state d = FAST_STATE_ASSIGNED \<Longrightarrow>
      f_state_previous e = FAST_STATE_ASSIGNED \<Longrightarrow> int_value d = int_previous e \<Longrightarrow>
      tracks e d (upd e) (updd d)"
  shows "field_step enc dec (tracks e d) 9 p e d"
proof -
  have op': "f_op e \<noteq> FAST_OP_CONSTANT" using op by auto
  have prev: "f_state e = FAST_STATE_ASSIGNED \<Longrightarrow> f_state_previous e \<noteq> FAST_STATE_UNDEFINED"
    using ready op by (auto simp: ready_def)
  consider (empty) "f_state e = FAST_STATE_EMPTY"
    | (sent) "f_state e \<noteq> FAST_STATE_EMPTY"
        "f_state e = FAST_STATE_UNDEFINED \<or> f_state_previous e = FAST_STATE_EMPTY \<or> \<not> same e"
    | (clear) "f_state e = FAST_STATE_ASSIGNED" "f_state_previous e = FAST_STATE_ASSIGNED" "same e"
    using prev by (cases "f_state e"; cases "f_state_previous e") auto
  then show ?thesis
  proof cases
    case empty
    have "encode_reuse same upd e = (Enc_empty True, e)"
      using ready_empty [OF ready empty] empty by (simp add: encode_choice_defs)
    then show ?thesis
      using sync_after(2) [OF sync op' recv(2) empty] p room empty
      by (intro step_bit_sent [where e' = "after_empty e", OF val(2) number_sent_9 [OF val(2)], where dec = dec and d = d and recv = recv])
         (auto simp: dec enc encode_int_at_def)
  next
    case sent
    have "encode_reuse same upd e = (Enc_transfer True, e\<lparr>f_state := FAST_STATE_ASSIGNED\<rparr>)"
      using sent by (cases "f_state e") (auto simp: encode_choice_defs)
    then show ?thesis
      using sync_after(1) [OF sync op' recv(1) sent(1)] p room
      by (intro step_bit_sent [where e' = "after_transfer e", OF val(1) number_sent_9 [OF val(1)], where dec = dec and d = d and recv = recv])
         (auto simp: dec sent(1) enc encode_int_at_def)
  next
    case clear
    from sync op clear have d: "f_state d = FAST_STATE_ASSIGNED" "int_value d = int_previous e"
      by (auto simp: sync_int_def)
    have "encode_reuse same upd e = (Enc_done, upd e)"
      using clear by (simp add: encode_choice_defs)
    then show ?thesis
      using same [OF clear(3,1) d(1) clear(2) d(2)] p room d
      by (intro step_bit_clear [where dec = dec and d = d and d' = "updd d" and e' = "upd e"
            and absent = "reuse_previous assign_int updd" and transferred = "decode_number get recv"])
         (auto simp: dec enc encode_int_at_def reuse_previous_def)
  qed
qed

lemma constant_step:
  fixes e :: "'a fast_scalar_scheme" and d :: "'b fast_scalar_scheme"
  assumes enc: "\<And>b. enc b p e = Option.bind (encode_constant p e) (\<lambda>(p, e). Some (True, b, p, e))"
    and dec: "\<And>c q. dec c q d = decode_constant assign_int c q d"
    and op: "f_op e = FAST_OP_CONSTANT" and sync: "sync_int e d" and ready: "ready e" and p: "pmap_fresh p"
    and room: "unat (pmap_bit p) + 1 < 7 * unat (nr_bytes p)"
  shows "field_step enc dec (tracks e d) 9 p e d"
proof -
  let ?d = "if f_state d \<noteq> FAST_STATE_ASSIGNED then d\<lparr>int_value := int_reset d\<rparr> else d"
  show ?thesis
    by (rule step_constant [where assign = assign_int and dec = dec and d = d and ?d1.0 = ?d])
       (use enc dec op sync ready ready_empty [OF ready] p room in
         \<open>auto simp: assign_int_def constant_received_def field_is_mandatory_def ready_def sync_int_def
            same_field_def tracks_def encode_choice_defs\<close>)
qed

lemma integer_step:
  assumes sync: "sync_int e d" and ready: "ready e" and p: "pmap_fresh p"
    and room: "unat (pmap_bit p) + 1 < 7 * unat (nr_bytes p)"
    and val: "f_state e \<noteq> FAST_STATE_EMPTY \<Longrightarrow> f_op e \<noteq> FAST_OP_DELTA \<Longrightarrow> number_sent send get tmp w"
      "f_state e \<noteq> FAST_STATE_EMPTY \<Longrightarrow> f_op e = FAST_OP_DELTA \<Longrightarrow>
         number_sent transfer_int parse_int (optional_int e (int_value e - int_previous e)) w'"
      "number_sent send get 0 wz"
    and recv: "f_op e \<noteq> FAST_OP_DELTA \<Longrightarrow> value_received recv tmp e d \<and> empty_received recv e d"
      "f_op e = FAST_OP_DELTA \<Longrightarrow>
         value_received recv_delta (optional_int e (int_value e - int_previous e)) e d \<and> empty_received recv_delta e d"
    and enc: "\<And>b. enc b p e = encode_integer send tmp b p e"
    and dec: "\<And>c q. dec c q d = decode_integer get recv recv_delta c q d"
  shows "field_step enc dec (tracks e d) 9 p e d"
proof -
  note defs = enc dec encode_integer_def decode_integer_def
  have op: "f_op d = f_op e" using sync by (simp add: sync_int_def)
  have zero_int: "number_sent transfer_int parse_int 0 (enc_int 0)"
    by (rule number_sent_int) (simp add: int_fits_def)
  note gen = sync ready p
  show ?thesis
  proof (cases "f_op e")
    case FAST_OP_NONE
    with val recv op show ?thesis
      by (intro always_step [OF _ _ _ gen, where get = get and recv = recv]) (auto simp: defs)
  next
    case FAST_OP_DELTA
    with val(2) zero_int recv(2) op show ?thesis
      by (intro always_step [OF _ _ _ gen, where get = parse_int and recv = recv_delta]) (auto simp: defs Let_def)
  next
    case FAST_OP_DEFAULT
    with val recv op room show ?thesis
      by (intro default_step [OF _ _ _ gen, where get = get and recv = recv]) (auto simp: defs)
  next
    case FAST_OP_CONSTANT
    with op room show ?thesis by (intro constant_step [OF _ _ _ gen]) (auto simp: defs)
  next
    case FAST_OP_COPY
    with val recv op room sync show ?thesis
      by (intro reuse_step [OF _ _ _ gen, where same = same_int and upd = "\<lambda>f. f" and updd = "\<lambda>f. f"
            and get = get and recv = recv])
         (auto simp: defs same_int_def same_field_def tracks_def)
  next
    case FAST_OP_INCR
    with val recv op room sync show ?thesis
      by (intro reuse_step [OF _ _ _ gen, where same = succ_int and upd = previous_plus
            and updd = "\<lambda>f. f\<lparr>int_value := int_value f + 1\<rparr>" and get = get and recv = recv])
         (auto simp: defs succ_int_def same_field_def previous_plus_def sync_int_def tracks_def)
  qed
qed

text \<open>The arithmetic of optional fields.\<close>

lemma narrow_fits: "narrow v \<Longrightarrow> int_fits v" "narrow v \<Longrightarrow> int_fits (v + 1)"
  "narrow v \<Longrightarrow> sint (v + 1) = sint v + 1"
proof -
  assume n: "narrow v"
  have "sint (v + 1) = sint v + 1"
    using n by (subst sint_word_ariths) (auto simp: narrow_def signed_take_bit_int_eq_self)
  then show "int_fits v" "int_fits (v + 1)" "sint (v + 1) = sint v + 1"
    using n by (auto simp: int_fits_def narrow_def)
qed

lemma optional_int_fits: "narrow v \<Longrightarrow> int_fits (optional_int e v)"
  by (auto simp: optional_int_def narrow_fits)

lemma int_received_value:
  assumes "narrow v" "field_is_mandatory d = field_is_mandatory e"
  shows "int_received d (optional_int e v) = d\<lparr>int_value := v, f_state := FAST_STATE_ASSIGNED\<rparr>"
proof -
  have m: "field_is_mandatory (d\<lparr>int_value := x, f_state := y\<rparr>) = field_is_mandatory d" for x y
    by (simp add: field_is_mandatory_def)
  have "v + 1 \<noteq> 0 \<and> 0 <s v + 1" if "0 \<le>s v"
    using that narrow_fits(3) [OF assms(1)]
    by (auto simp: word_sle_eq word_sless_alt)
  moreover have "v \<noteq> 0 \<and> \<not> 0 <s v" if "\<not> 0 \<le>s v"
    using that by (auto simp: word_sle_eq word_sless_alt)
  ultimately show ?thesis using assms(2) by (auto simp: int_received_def optional_int_def Let_def m)
qed

lemma delta_received_value:
  assumes "narrow (v - int_value d)" "field_is_mandatory d = field_is_mandatory e"
  shows "delta_received d (optional_int e (v - int_value d)) = d\<lparr>int_value := v, f_state := FAST_STATE_ASSIGNED\<rparr>"
proof -
  let ?t = "v - int_value d"
  have m: "field_is_mandatory (d\<lparr>f_state := y, int_value := x\<rparr>) = field_is_mandatory d" for x y
    by (simp add: field_is_mandatory_def)
  have "?t + 1 \<noteq> 0 \<and> 0 <s ?t + 1" if "0 \<le>s ?t"
    using that narrow_fits(3) [OF assms(1)]
    by (auto simp: word_sle_eq word_sless_alt)
  moreover have "?t \<noteq> 0 \<and> \<not> 0 <s ?t" if "\<not> 0 \<le>s ?t"
    using that by (auto simp: word_sle_eq word_sless_alt)
  ultimately show ?thesis using assms(2) by (auto simp: delta_received_def optional_int_def Let_def m)
qed

lemma uint_received_value:
  assumes "unat v < 2 ^ 63 - 1" "field_is_mandatory d = field_is_mandatory e"
  shows "uint_received d (optional_uint e v) = d\<lparr>int_value := v, f_state := FAST_STATE_ASSIGNED\<rparr>"
    "uint_fits (optional_uint e v)"
proof -
  have m: "field_is_mandatory (d\<lparr>int_value := x, f_state := y\<rparr>) = field_is_mandatory d" for x y
    by (simp add: field_is_mandatory_def)
  have u: "unat (v + 1) = unat v + 1" using assms(1) by (subst unat_plus_1 [of v "2 ^ 63"]) auto
  then have "v + 1 \<noteq> 0" by (metis add_is_0 unat_0 zero_neq_one)
  then show "uint_received d (optional_uint e v) = d\<lparr>int_value := v, f_state := FAST_STATE_ASSIGNED\<rparr>"
    using assms(2) by (auto simp: uint_received_def optional_uint_def Let_def m)
  show "uint_fits (optional_uint e v)" using assms(1) u by (auto simp: optional_uint_def uint_fits_def)
qed

lemma received_empty:
  assumes "\<not> field_is_mandatory (d :: 'a fast_scalar_scheme)"
  shows "uint_received d 0 = d\<lparr>int_value := 0, f_state := FAST_STATE_EMPTY\<rparr>"
    "int_received d 0 = d\<lparr>int_value := 0, f_state := FAST_STATE_EMPTY\<rparr>"
    "delta_received d 0 = d\<lparr>int_value := int_value d, f_state := FAST_STATE_EMPTY\<rparr>"
  using assms by (auto simp: uint_received_def int_received_def delta_received_def field_is_mandatory_def Let_def)

lemma sync_mandatory: "sync_int e d \<Longrightarrow> field_is_mandatory d = field_is_mandatory e"
  by (simp add: sync_int_def field_is_mandatory_def)

lemma uint_field_step:
  assumes sync: "sync_int e d" and ready: "ready_uint e" and p: "pmap_fresh p"
    and room: "unat (pmap_bit p) + 1 < 7 * unat (nr_bytes p)"
  shows "field_step fast_encode_uint fast_decode_uint (tracks e d) 9 p e d"
proof (rule integer_step [OF sync _ p room, where enc = fast_encode_uint and dec = fast_decode_uint
      and send = transfer_uint and get = parse_uint and tmp = "optional_uint e (int_value e)"
      and recv = uint_received and recv_delta = delta_received])
  note m = sync_mandatory [OF sync]
  show r: "ready e" using ready by (simp add: ready_uint_def)
  show "fast_encode_uint b p e = encode_integer transfer_uint (optional_uint e (int_value e)) b p e" for b
    by (rule fast_encode_uint_integer)
  show "fast_decode_uint c q d = decode_integer parse_uint uint_received delta_received c q d" for c q
    by (rule fast_decode_uint_integer)
  show "number_sent transfer_uint parse_uint 0 (enc_uint 0)" by (rule number_sent_uint) (simp add: uint_fits_def)
  show "number_sent transfer_uint parse_uint (optional_uint e (int_value e)) (enc_uint (optional_uint e (int_value e)))"
    if "f_state e \<noteq> FAST_STATE_EMPTY" "f_op e \<noteq> FAST_OP_DELTA"
    using that ready m by (intro number_sent_uint uint_received_value(2)) (auto simp: ready_uint_def)
  show "number_sent transfer_int parse_int (optional_int e (int_value e - int_previous e))
      (enc_int (optional_int e (int_value e - int_previous e)))"
    if "f_state e \<noteq> FAST_STATE_EMPTY" "f_op e = FAST_OP_DELTA"
    using that ready by (intro number_sent_int optional_int_fits) (auto simp: ready_uint_def)
  show "value_received uint_received (optional_uint e (int_value e)) e d \<and> empty_received uint_received e d"
    if "f_op e \<noteq> FAST_OP_DELTA"
    using that ready ready_empty [OF r] m uint_received_value(1) [of "int_value e" d e] received_empty(1) [of d]
    by (auto simp: value_received_def empty_received_def ready_uint_def)
  show "value_received delta_received (optional_int e (int_value e - int_previous e)) e d
      \<and> empty_received delta_received e d" if "f_op e = FAST_OP_DELTA"
    using that sync ready ready_empty [OF r] m delta_received_value [of "int_value e" d e] received_empty(3) [of d]
    by (auto simp: value_received_def empty_received_def ready_uint_def sync_int_def)
qed

lemma int_field_step:
  assumes sync: "sync_int e d" and ready: "ready_int e" and p: "pmap_fresh p"
    and room: "unat (pmap_bit p) + 1 < 7 * unat (nr_bytes p)"
  shows "field_step fast_encode_int fast_decode_int (tracks e d) 9 p e d"
proof (rule integer_step [OF sync _ p room, where enc = fast_encode_int and dec = fast_decode_int
      and send = transfer_int and get = parse_int and tmp = "optional_int e (int_value e)"
      and recv = int_received and recv_delta = delta_received])
  note m = sync_mandatory [OF sync]
  show r: "ready e" using ready by (simp add: ready_int_def)
  show "fast_encode_int b p e = encode_integer transfer_int (optional_int e (int_value e)) b p e" for b
    by (rule fast_encode_int_integer)
  show "fast_decode_int c q d = decode_integer parse_int int_received delta_received c q d" for c q
    by (rule fast_decode_int_integer)
  show "number_sent transfer_int parse_int 0 (enc_int 0)" by (rule number_sent_int) (simp add: int_fits_def)
  show "number_sent transfer_int parse_int (optional_int e (int_value e)) (enc_int (optional_int e (int_value e)))"
    if "f_state e \<noteq> FAST_STATE_EMPTY" "f_op e \<noteq> FAST_OP_DELTA"
    using that ready by (intro number_sent_int optional_int_fits) (auto simp: ready_int_def)
  show "number_sent transfer_int parse_int (optional_int e (int_value e - int_previous e))
      (enc_int (optional_int e (int_value e - int_previous e)))"
    if "f_state e \<noteq> FAST_STATE_EMPTY" "f_op e = FAST_OP_DELTA"
    using that ready by (intro number_sent_int optional_int_fits) (auto simp: ready_int_def)
  show "value_received int_received (optional_int e (int_value e)) e d \<and> empty_received int_received e d"
    if "f_op e \<noteq> FAST_OP_DELTA"
    using that ready ready_empty [OF r] m int_received_value [of "int_value e" d e] received_empty(2) [of d]
    by (auto simp: value_received_def empty_received_def ready_int_def)
  show "value_received delta_received (optional_int e (int_value e - int_previous e)) e d
      \<and> empty_received delta_received e d" if "f_op e = FAST_OP_DELTA"
    using that sync ready ready_empty [OF r] m delta_received_value [of "int_value e" d e] received_empty(3) [of d]
    by (auto simp: value_received_def empty_received_def ready_int_def sync_int_def)
qed

end
