(* ===== verification/Fast_Message.thy ===== *)
theory Fast_Message
  imports Fast_Encode
begin

text \<open>
  Whole FAST messages and sessions (lib/proto/fast_message.c, fast_session.c): sequences, the decoder
  that can be interrupted after any byte and resumed when more data has arrived, the encoder, reset,
  and the calls of a session.  Pointers into \<open>rx_messages\<close> are indices; the loops over fields and
  elements recurse on the number of iterations left.
\<close>

subsection \<open>Messages and sequences\<close>

record 'f fast_message =
  nr_fields :: ulong
  m_decoded :: ulong
  m_fields :: "'f list"
  m_name :: string
  m_flags :: i32
  m_tid :: ulong

record fast_sequence =
  seq_pmap :: fast_pmap
  seq_decoded :: ulong
  seq_length :: fast_scalar
  seq_elements :: "fast_field fast_message list"

text \<open>A field of a message, with the sequence its \<open>ptr_value\<close> points to, if it is one.\<close>

record seq_field = fast_field +
  ptr_value :: "fast_sequence option"

definition FAST_SEQUENCE_ELEMENTS :: ulong where "FAST_SEQUENCE_ELEMENTS = 128"
definition FAST_TEMPLATE_MAX_NUMBER :: nat where "FAST_TEMPLATE_MAX_NUMBER = 128"
definition FAST_MESSAGE_MAX_SIZE :: ulong where "FAST_MESSAGE_MAX_SIZE = 2048"

definition fast_msg_has_flags :: "'f fast_message \<Rightarrow> i32 \<Rightarrow> i32" where
  "fast_msg_has_flags msg flags = m_flags msg AND flags"

definition fast_msg_set_flags :: "'f fast_message \<Rightarrow> i32 \<Rightarrow> 'f fast_message" where
  "fast_msg_set_flags msg flags = msg\<lparr>m_flags := flags\<rparr>"

definition fast_msg_add_flags :: "'f fast_message \<Rightarrow> i32 \<Rightarrow> 'f fast_message" where
  "fast_msg_add_flags msg flags = msg\<lparr>m_flags := m_flags msg OR flags\<rparr>"

definition fast_msg_clear_flags :: "'f fast_message \<Rightarrow> i32 \<Rightarrow> 'f fast_message" where
  "fast_msg_clear_flags msg flags = msg\<lparr>m_flags := m_flags msg AND NOT flags\<rparr>"

text \<open>\<open>buffer_advance(buffer, start - buffer_start(buffer))\<close>\<close>

definition buffer_rewind :: "buffer \<Rightarrow> ptr \<Rightarrow> buffer" where
  "buffer_rewind b start = buffer_advance b (of_int (start - buffer_start b))"

subsection \<open>Decoding sequences\<close>

text \<open>The \<open>switch (field->type)\<close> inside a sequence; nested sequences are not supported.\<close>

definition decode_element_field :: "buffer \<Rightarrow> fast_pmap \<Rightarrow> fast_field \<Rightarrow> fast_field decoded" where
  "decode_element_field b p f =
     (case f_type f of
        FAST_TYPE_INT \<Rightarrow> fast_decode_int b p f
      | FAST_TYPE_UINT \<Rightarrow> fast_decode_uint b p f
      | FAST_TYPE_STRING \<Rightarrow> fast_decode_string b p f
      | FAST_TYPE_VECTOR \<Rightarrow> fast_decode_vector b p f
      | FAST_TYPE_DECIMAL \<Rightarrow> fast_decode_decimal b p f
      | FAST_TYPE_SEQUENCE \<Rightarrow> Some (Inl FAST_MSG_STATE_GARBLED, b, p, f))"

text \<open>What is copied from the decoded field into the element's own field \<open>cur\<close>: for a vector,
  nothing.\<close>

definition copy_element_field :: "fast_field \<Rightarrow> fast_field \<Rightarrow> fast_field option" where
  "copy_element_field f cur =
     (case f_type f of
        FAST_TYPE_STRING \<Rightarrow> do {
          m \<leftarrow> copy_c_string (string_value cur) (string_value f);
          Some (cur\<lparr>string_value := m, f_state := f_state f\<rparr>) }
      | FAST_TYPE_VECTOR \<Rightarrow> Some cur
      | FAST_TYPE_DECIMAL \<Rightarrow> Some (cur\<lparr>decimal_value := decimal_value f, f_state := f_state f\<rparr>)
      | _ \<Rightarrow> Some (cur\<lparr>int_value := int_value f, f_state := f_state f\<rparr>))"

text \<open>The local variables of \<open>fast_decode_sequence\<close>: \<open>sl_msg\<close> says whether \<open>msg\<close> has been set.\<close>

record seq_locals =
  sl_buffer :: buffer
  sl_seq :: fast_sequence
  sl_start :: ptr
  sl_msg :: bool
  sl_bit :: i64

definition seq_set_element :: "ptr \<Rightarrow> fast_field fast_message \<Rightarrow> fast_sequence \<Rightarrow> fast_sequence option" where
  "seq_set_element i m sq = do {
     es \<leftarrow> mem_put (seq_elements sq) i m;
     Some (sq\<lparr>seq_elements := es\<rparr>) }"

definition seq_set_field :: "ptr \<Rightarrow> ptr \<Rightarrow> fast_field \<Rightarrow> fast_sequence \<Rightarrow> fast_sequence option" where
  "seq_set_field i k f sq = do {
     m \<leftarrow> mem_get (seq_elements sq) i;
     fs \<leftarrow> mem_put (m_fields m) k f;
     seq_set_element i (m\<lparr>m_fields := fs\<rparr>) sq }"

text \<open>One field: it is decoded in element 0, which keeps the values of the previous element, and
  copied to the element at hand.\<close>

definition seq_decode_field :: "seq_locals \<Rightarrow> (fast_ret \<times> seq_locals) option" where
  "seq_decode_field s =
     (let sq = sl_seq s in do {
        msg \<leftarrow> mem_get (seq_elements sq) 0;
        (let k = uint (m_decoded msg); b = sl_buffer s;
             s = s\<lparr>sl_start := buffer_start b, sl_bit := pmap_bit (seq_pmap sq)\<rparr>
         in do {
           f \<leftarrow> mem_get (m_fields msg) k;
           (r, b, p, f) \<leftarrow> decode_element_field b (seq_pmap sq) f;
           sq \<leftarrow> seq_set_field 0 k f (sq\<lparr>seq_pmap := p\<rparr>);
           (case r of
              Inl e \<Rightarrow> Some (Inl e, s\<lparr>sl_buffer := b, sl_seq := sq\<rparr>)
            | Inr _ \<Rightarrow> do {
                el \<leftarrow> mem_get (seq_elements sq) (uint (seq_decoded sq));
                cur \<leftarrow> mem_get (m_fields el) k;
                cur \<leftarrow> copy_element_field f cur;
                sq \<leftarrow> seq_set_field (uint (seq_decoded sq)) k cur sq;
                msg \<leftarrow> mem_get (seq_elements sq) 0;
                sq \<leftarrow> seq_set_element 0 (msg\<lparr>m_decoded := m_decoded msg + 1\<rparr>) sq;
                Some (Inr (), s\<lparr>sl_buffer := b, sl_seq := sq\<rparr>) }) }) })"

fun seq_fields_loop :: "nat \<Rightarrow> seq_locals \<Rightarrow> (fast_ret \<times> seq_locals) option" where
  "seq_fields_loop 0 s = Some (Inr (), s)"
| "seq_fields_loop (Suc n) s = do {
     (r, s) \<leftarrow> seq_decode_field s;
     (case r of Inl e \<Rightarrow> Some (Inl e, s) | Inr _ \<Rightarrow> seq_fields_loop n s) }"

text \<open>The presence map of an element, when the template asks for one.\<close>

definition seq_element_pmap :: "bool \<Rightarrow> seq_locals \<Rightarrow> (fast_ret \<times> seq_locals) option" where
  "seq_element_pmap pmap_req s =
     (let sq = sl_seq s in
      if pmap_req \<and> \<not> is_valid (seq_pmap sq) then do {
        (r, p, b) \<leftarrow> parse_pmap (sl_buffer s) (seq_pmap sq);
        (let s = s\<lparr>sl_start := buffer_start (sl_buffer s), sl_buffer := b\<rparr> in
         case r of
           Inl e \<Rightarrow> Some (Inl e, s\<lparr>sl_seq := sq\<lparr>seq_pmap := p\<rparr>\<rparr>)
         | Inr _ \<Rightarrow> Some (Inr (), s\<lparr>sl_seq := sq\<lparr>seq_pmap := p\<lparr>is_valid := True, pmap_bit := - 1\<rparr>\<rparr>\<rparr>)) }
      else Some (Inr (), s))"

fun seq_elements_loop :: "nat \<Rightarrow> bool \<Rightarrow> seq_locals \<Rightarrow> (fast_ret \<times> seq_locals) option" where
  "seq_elements_loop 0 pmap_req s = Some (Inr (), s)"
| "seq_elements_loop (Suc n) pmap_req s = do {
     (r, s) \<leftarrow> seq_element_pmap pmap_req s;
     (case r of
        Inl e \<Rightarrow> Some (Inl e, s)
      | Inr _ \<Rightarrow> do {
          msg \<leftarrow> mem_get (seq_elements (sl_seq s)) 0;
          (r, s) \<leftarrow> seq_fields_loop (unat (nr_fields msg) - unat (m_decoded msg)) (s\<lparr>sl_msg := True\<rparr>);
          (case r of
             Inl e \<Rightarrow> Some (Inl e, s)
           | Inr _ \<Rightarrow> (let sq = sl_seq s in do {
               msg \<leftarrow> mem_get (seq_elements sq) 0;
               sq \<leftarrow> seq_set_element 0 (msg\<lparr>m_decoded := 0\<rparr>) sq;
               seq_elements_loop n pmap_req
                 (s\<lparr>sl_seq := sq\<lparr>seq_pmap := (seq_pmap sq)\<lparr>is_valid := False\<rparr>,
                                  seq_decoded := seq_decoded sq + 1\<rparr>\<rparr>) })) }) }"

text \<open>The label \<open>exit\<close>: when more data is needed, the input is taken back to \<open>start\<close>, and the position
  in the presence map to where the field began.\<close>

definition seq_exit :: "fast_ret \<Rightarrow> fast_pmap \<Rightarrow> seq_field \<Rightarrow> seq_locals \<Rightarrow> seq_field decoded" where
  "seq_exit r p f s =
     (let sq = sl_seq s in
      if r = Inl FAST_MSG_STATE_PARTIAL then
        Some (r, buffer_rewind (sl_buffer s) (sl_start s), p,
          f\<lparr>ptr_value := Some (if sl_msg s then sq\<lparr>seq_pmap := (seq_pmap sq)\<lparr>pmap_bit := sl_bit s\<rparr>\<rparr> else sq)\<rparr>)
      else Some (r, sl_buffer s, p, f\<lparr>ptr_value := Some sq\<rparr>))"

definition seq_decode_elements :: "fast_pmap \<Rightarrow> seq_field \<Rightarrow> seq_locals \<Rightarrow> seq_field decoded" where
  "seq_decode_elements p f s =
     (let sq = sl_seq s in do {
        (r, s) \<leftarrow> seq_elements_loop (Suc (unat (int_value (seq_length sq))) - unat (seq_decoded sq))
                    (field_has_flags f FAST_FIELD_FLAGS_PMAPREQ \<noteq> 0) s;
        (case r of
           Inl e \<Rightarrow> seq_exit r p f s
         | Inr _ \<Rightarrow> seq_exit r p f (s\<lparr>sl_seq := (sl_seq s)\<lparr>seq_decoded := 0\<rparr>\<rparr>)) })"

definition fast_decode_sequence :: "buffer \<Rightarrow> fast_pmap \<Rightarrow> seq_field \<Rightarrow> seq_field decoded" where
  "fast_decode_sequence b p f = do {
     sq \<leftarrow> ptr_value f;
     (let s = \<lparr>sl_buffer = b, sl_seq = sq, sl_start = buffer_start b, sl_msg = False, sl_bit = 0\<rparr> in
      if seq_decoded sq = 0 then do {
        (r, b, p, len) \<leftarrow> fast_decode_uint b p (seq_length sq);
        (let sq = sq\<lparr>seq_length := len\<rparr>; s = s\<lparr>sl_buffer := b, sl_seq := sq\<rparr> in
         case r of
           Inl e \<Rightarrow> seq_exit r p f s
         | Inr _ \<Rightarrow>
             if field_state_empty len
             then seq_exit (if field_is_mandatory f then Inl FAST_MSG_STATE_GARBLED else r) p f s
             else if FAST_SEQUENCE_ELEMENTS \<le> int_value len
             then seq_exit (Inl FAST_MSG_STATE_GARBLED) p f s
             else seq_decode_elements p f (s\<lparr>sl_seq := sq\<lparr>seq_decoded := 1\<rparr>\<rparr>)) }
      else seq_decode_elements p f s) }"

subsection \<open>Decoding messages\<close>

record fast_preamble =
  pre_is_valid :: bool
  pre_nr_bytes :: ulong
  pre_bytes :: mem

record fast_session =
  last_tid :: u64
  rx_buffer :: buffer
  tx_pmap_buffer :: buffer
  tx_message_buffer :: buffer
  nr_messages :: i32
  rx_message :: "ptr option"
  rx_messages :: "seq_field fast_message list"
  s_preamble :: fast_preamble
  s_pmap :: fast_pmap
  s_reset :: bool

text \<open>\<open>fast_get_msg\<close> compares the \<open>unsigned long\<close> template id with an \<open>int\<close>.\<close>

fun get_msg_loop :: "'f fast_message list \<Rightarrow> i32 \<Rightarrow> nat \<Rightarrow> nat \<Rightarrow> ptr option option" where
  "get_msg_loop msgs tid i 0 = Some None"
| "get_msg_loop msgs tid i (Suc n) = do {
     m \<leftarrow> mem_get msgs (int i);
     (if m_tid m = scast tid then Some (Some (int i)) else get_msg_loop msgs tid (i + 1) n) }"

definition fast_get_msg :: "'f fast_message list \<Rightarrow> i32 \<Rightarrow> ptr option option" where
  "fast_get_msg msgs tid = get_msg_loop msgs tid 0 FAST_TEMPLATE_MAX_NUMBER"

definition decode_message_field :: "buffer \<Rightarrow> fast_pmap \<Rightarrow> seq_field \<Rightarrow> seq_field decoded" where
  "decode_message_field b p f =
     (case f_type f of
        FAST_TYPE_INT \<Rightarrow> fast_decode_int b p f
      | FAST_TYPE_UINT \<Rightarrow> fast_decode_uint b p f
      | FAST_TYPE_STRING \<Rightarrow> fast_decode_string b p f
      | FAST_TYPE_VECTOR \<Rightarrow> fast_decode_vector b p f
      | FAST_TYPE_DECIMAL \<Rightarrow> fast_decode_decimal b p f
      | FAST_TYPE_SEQUENCE \<Rightarrow> fast_decode_sequence b p f)"

text \<open>The loop over the fields.  \<open>start\<close> and \<open>bit\<close> are the local variables \<open>start\<close> and \<open>pmap_bit\<close>; a
  failing sequence has rewound the input itself, so \<open>start\<close> moves to where it left off.\<close>

fun message_fields_loop ::
    "nat \<Rightarrow> buffer \<Rightarrow> fast_pmap \<Rightarrow> seq_field fast_message \<Rightarrow> ptr \<Rightarrow> i64
       \<Rightarrow> (fast_ret \<times> buffer \<times> fast_pmap \<times> seq_field fast_message \<times> ptr \<times> i64) option" where
  "message_fields_loop 0 b p msg start i = Some (Inr (), b, p, msg, start, i)"
| "message_fields_loop (Suc n) b p msg start i =
     (let k = uint (m_decoded msg); start = buffer_start b; i = pmap_bit p in do {
        f \<leftarrow> mem_get (m_fields msg) k;
        (r, b, p, f) \<leftarrow> decode_message_field b p f;
        fs \<leftarrow> mem_put (m_fields msg) k f;
        (let msg = msg\<lparr>m_fields := fs\<rparr> in
         case r of
           Inl e \<Rightarrow> Some (Inl e, b, p, msg,
             if f_type f = FAST_TYPE_SEQUENCE then buffer_start b else start, i)
         | Inr _ \<Rightarrow> message_fields_loop n b p (msg\<lparr>m_decoded := m_decoded msg + 1\<rparr>) start i) })"

text \<open>The label \<open>fail\<close>: \<open>bit\<close> is \<open>None\<close> while \<open>msg\<close> is null.\<close>

definition decode_fail :: "fast_err \<Rightarrow> ptr \<Rightarrow> i64 option \<Rightarrow> fast_session \<Rightarrow> (ptr option \<times> fast_session) option" where
  "decode_fail e start i s =
     (if e = FAST_MSG_STATE_PARTIAL then
        Some (None, s\<lparr>rx_buffer := buffer_rewind (rx_buffer s) start,
                      s_pmap := (case i of None \<Rightarrow> s_pmap s | Some i \<Rightarrow> (s_pmap s)\<lparr>pmap_bit := i\<rparr>)\<rparr>)
      else Some (None, s))"

definition decode_fields :: "ptr \<Rightarrow> fast_session \<Rightarrow> (ptr option \<times> fast_session) option" where
  "decode_fields mi s = do {
     msg \<leftarrow> mem_get (rx_messages s) mi;
     (r, b, p, msg, start, i) \<leftarrow>
       message_fields_loop (unat (nr_fields msg) - unat (m_decoded msg)) (rx_buffer s) (s_pmap s) msg
         (buffer_start (rx_buffer s)) 0;
     (case r of
        Inl e \<Rightarrow> do {
          ms \<leftarrow> mem_put (rx_messages s) mi msg;
          decode_fail e start (Some i) (s\<lparr>rx_buffer := b, s_pmap := p, rx_messages := ms\<rparr>) }
      | Inr _ \<Rightarrow> do {
          ms \<leftarrow> mem_put (rx_messages s) mi (msg\<lparr>m_decoded := 0\<rparr>);
          Some (Some mi, s\<lparr>rx_buffer := b, rx_messages := ms, last_tid := m_tid msg, rx_message := None,
            s_preamble := (s_preamble s)\<lparr>pre_is_valid := False\<rparr>, s_pmap := p\<lparr>is_valid := False\<rparr>\<rparr>) }) }"

text \<open>The template id: in the stream if bit 0 of the presence map is set, else that of the last
  message.\<close>

definition decode_template :: "fast_session \<Rightarrow> (ptr option \<times> fast_session) option" where
  "decode_template s =
     (case rx_message s of
        Some mi \<Rightarrow> decode_fields mi s
      | None \<Rightarrow> do {
          (let start = buffer_start (rx_buffer s) in do {
             t \<leftarrow> pmap_is_set (s_pmap s) 0;
             (r, b) \<leftarrow> (if t then parse_uint (rx_buffer s) else Some (Inr (last_tid s), rx_buffer s));
             (let s = s\<lparr>rx_buffer := b\<rparr> in
              case r of
                Inl e \<Rightarrow> decode_fail e start None s
              | Inr tid \<Rightarrow> do {
                  mi \<leftarrow> fast_get_msg (rx_messages s) (ucast tid);
                  (case mi of
                     None \<Rightarrow> decode_fail FAST_MSG_STATE_GARBLED start None s
                   | Some mi \<Rightarrow> decode_fields mi (s\<lparr>rx_message := Some mi\<rparr>)) }) }) })"

definition decode_pmap :: "fast_session \<Rightarrow> (ptr option \<times> fast_session) option" where
  "decode_pmap s =
     (if is_valid (s_pmap s) then decode_template s
      else let start = buffer_start (rx_buffer s) in do {
        (r, p, b) \<leftarrow> parse_pmap (rx_buffer s) (s_pmap s);
        (case r of
           Inl e \<Rightarrow> decode_fail e start None (s\<lparr>rx_buffer := b, s_pmap := p\<rparr>)
         | Inr _ \<Rightarrow> decode_template (s\<lparr>rx_buffer := b, s_pmap := p\<lparr>is_valid := True, pmap_bit := 0\<rparr>\<rparr>)) })"

definition fast_message_decode :: "fast_session \<Rightarrow> (ptr option \<times> fast_session) option" where
  "fast_message_decode s =
     (let pre = s_preamble s in
      if pre_nr_bytes pre \<noteq> 0 \<and> \<not> pre_is_valid pre then
        (if buffer_size (rx_buffer s) < pre_nr_bytes pre
         then decode_fail FAST_MSG_STATE_PARTIAL (buffer_start (rx_buffer s)) None s
         else do {
           (cs, b) \<leftarrow> buffer_get_n (rx_buffer s) (unat (pre_nr_bytes pre));
           m \<leftarrow> mem_store (pre_bytes pre) 0 cs;
           decode_pmap (s\<lparr>rx_buffer := b, s_preamble := pre\<lparr>pre_is_valid := True, pre_bytes := m\<rparr>\<rparr>) })
      else decode_pmap s)"

subsection \<open>Encoding messages\<close>

definition encode_message_field :: "buffer \<Rightarrow> fast_pmap \<Rightarrow> 'a fast_field_scheme \<Rightarrow> 'a fast_field_scheme encoded" where
  "encode_message_field b p f =
     (case f_type f of
        FAST_TYPE_INT \<Rightarrow> fast_encode_int b p f
      | FAST_TYPE_UINT \<Rightarrow> fast_encode_uint b p f
      | FAST_TYPE_STRING \<Rightarrow> fast_encode_string b p f
      | FAST_TYPE_VECTOR \<Rightarrow> Some (False, b, p, f)
      | FAST_TYPE_DECIMAL \<Rightarrow> fast_encode_decimal b p f
      | FAST_TYPE_SEQUENCE \<Rightarrow> Some (False, b, p, f))"

fun encode_fields :: "(buffer \<Rightarrow> fast_pmap \<Rightarrow> 'f \<Rightarrow> 'f encoded) \<Rightarrow> buffer \<Rightarrow> fast_pmap \<Rightarrow> 'f list
    \<Rightarrow> (bool \<times> buffer \<times> fast_pmap \<times> 'f list) option" where
  "encode_fields enc b p [] = Some (True, b, p, [])"
| "encode_fields enc b p (f # fs) = do {
     (ok, b, p, f) \<leftarrow> enc b p f;
     (if \<not> ok then Some (False, b, p, f # fs)
      else do {
        (ok, b, p, fs) \<leftarrow> encode_fields enc b p fs;
        Some (ok, b, p, f # fs) }) }"

text \<open>\<open>for (i = FAST_PMAP_MAX_BYTES; i > 0; i--)\<close>: trailing zero bytes are not sent.\<close>

fun pmap_trim :: "nat \<Rightarrow> fast_pmap \<Rightarrow> fast_pmap option" where
  "pmap_trim 0 p = Some p"
| "pmap_trim (Suc i) p = do {
     c \<leftarrow> mem_get (pmap_bytes p) (int i);
     (if c \<noteq> 0 then Some p else pmap_trim i (p\<lparr>nr_bytes := nr_bytes p - 1\<rparr>)) }"

definition transfer_pmap :: "buffer \<Rightarrow> fast_pmap \<Rightarrow> (bool \<times> buffer) option" where
  "transfer_pmap b p =
     (if buffer_remaining b < nr_bytes p then Some (False, b)
      else do {
        cs \<leftarrow> mem_load (pmap_bytes p) 0 (unat (nr_bytes p - 1));
        b \<leftarrow> buffer_puts b (map (\<lambda>c. c AND 0x7F) cs);
        c \<leftarrow> mem_get (pmap_bytes p) (uint (nr_bytes p - 1));
        b \<leftarrow> buffer_put b (c OR 0x80);
        Some (True, b) })"

definition fresh_pmap :: fast_pmap where
  "fresh_pmap = \<lparr>is_valid = False, pmap_bit = 0, nr_bytes = FAST_PMAP_MAX_BYTES, pmap_bytes = replicate 8 0\<rparr>"

text \<open>The message's two buffers are arguments and results.\<close>

definition fast_message_encode ::
    "buffer \<Rightarrow> buffer \<Rightarrow> ('a fast_field_scheme) fast_message
       \<Rightarrow> (bool \<times> buffer \<times> buffer \<times> ('a fast_field_scheme) fast_message) option" where
  "fast_message_encode pmap_buf msg_buf msg = do {
     (_, p) \<leftarrow> pmap_set fresh_pmap 0;
     (ok, msg_buf) \<leftarrow> transfer_uint msg_buf (m_tid msg);
     (if \<not> ok then Some (False, pmap_buf, msg_buf, msg)
      else do {
        fs \<leftarrow> mem_load (m_fields msg) 0 (unat (nr_fields msg));
        (ok, msg_buf, p, fs) \<leftarrow> encode_fields encode_message_field msg_buf p fs;
        fs \<leftarrow> mem_store (m_fields msg) 0 fs;
        (let msg = msg\<lparr>m_fields := fs\<rparr> in
         if \<not> ok then Some (False, pmap_buf, msg_buf, msg)
         else do {
           p \<leftarrow> pmap_trim 8 p;
           (ok, pmap_buf) \<leftarrow> transfer_pmap pmap_buf p;
           Some (ok, pmap_buf, msg_buf, msg) }) }) }"

text \<open>\<open>send\<close> stands for the session's function pointer, applied to the two I/O vectors.\<close>

definition fast_message_send ::
    "buffer \<Rightarrow> buffer \<Rightarrow> ('a fast_field_scheme) fast_message \<Rightarrow> (u8 list list \<Rightarrow> i64)
       \<Rightarrow> (bool \<times> buffer \<times> buffer \<times> ('a fast_field_scheme) fast_message) option" where
  "fast_message_send pmap_buf msg_buf msg send = do {
     (ok, pmap_buf, msg_buf, msg) \<leftarrow> fast_message_encode pmap_buf msg_buf msg;
     (if \<not> ok then Some (False, pmap_buf, msg_buf, msg)
      else do {
        v0 \<leftarrow> buffer_to_iovec pmap_buf;
        v1 \<leftarrow> buffer_to_iovec msg_buf;
        Some (\<not> send [v0, v1] <s 0, pmap_buf, msg_buf, msg) }) }"

subsection \<open>Reset\<close>

definition reset_scalar_field :: "'a fast_scalar_scheme \<Rightarrow> 'a fast_scalar_scheme" where
  "reset_scalar_field f =
     (if f_has_reset f then f\<lparr>int_value := int_reset f, int_previous := int_reset f\<rparr>
      else f\<lparr>int_value := 0, int_previous := 0\<rparr>)"

definition fast_field_reset :: "'a fast_field_scheme \<Rightarrow> 'a fast_field_scheme option" where
  "fast_field_reset f =
     (case f_type f of
        FAST_TYPE_INT \<Rightarrow> Some (reset_scalar_field f)
      | FAST_TYPE_UINT \<Rightarrow> Some (reset_scalar_field f)
      | FAST_TYPE_STRING \<Rightarrow>
          if f_has_reset f then do {
            v \<leftarrow> copy_c_string (string_value f) (string_reset f);
            w \<leftarrow> copy_c_string (string_previous f) (string_reset f);
            Some (f\<lparr>string_value := v, string_previous := w\<rparr>) }
          else do {
            v \<leftarrow> mem_put (string_value f) 0 0;
            w \<leftarrow> mem_put (string_previous f) 0 0;
            Some (f\<lparr>string_value := v, string_previous := w\<rparr>) }
      | FAST_TYPE_VECTOR \<Rightarrow>
          (let z = (if f_has_reset f then vector_reset f else replicate 8 0) in do {
             v \<leftarrow> mem_store (vector_value f) 0 z;
             w \<leftarrow> mem_store (vector_previous f) 0 z;
             Some (f\<lparr>vector_value := v, vector_previous := w\<rparr>) })
      | FAST_TYPE_DECIMAL \<Rightarrow>
          (let z = (if f_has_reset f then decimal_reset f else \<lparr>dec_exp = 0, dec_mnt = 0\<rparr>)
           in Some (f\<lparr>decimal_value := z, decimal_previous := z\<rparr>))
      | FAST_TYPE_SEQUENCE \<Rightarrow> Some f)"

fun reset_fields :: "('f \<Rightarrow> 'f option) \<Rightarrow> nat \<Rightarrow> 'f list \<Rightarrow> 'f list option" where
  "reset_fields rs 0 fs = Some fs"
| "reset_fields rs (Suc n) [] = None"
| "reset_fields rs (Suc n) (f # fs) = do { f \<leftarrow> rs f; fs \<leftarrow> reset_fields rs n fs; Some (f # fs) }"

text \<open>A sequence resets its element 0, the one that carries the previous values, as a message of its own.  The fields of an element
  have no elements themselves (the decoder answers an error for a sequence in a sequence), so the recursion ends there.\<close>

definition seq_field_reset :: "seq_field \<Rightarrow> seq_field option" where
  "seq_field_reset f =
     (if f_type f = FAST_TYPE_SEQUENCE then do {
        sq \<leftarrow> ptr_value f;
        m \<leftarrow> mem_get (seq_elements sq) 0;
        fs \<leftarrow> reset_fields fast_field_reset (unat (nr_fields m)) (m_fields m);
        sq \<leftarrow> seq_set_element 0 (m\<lparr>m_fields := fs\<rparr>) sq;
        Some (f\<lparr>ptr_value := Some sq\<rparr>) }
      else fast_field_reset f)"

definition fast_message_reset :: "seq_field fast_message \<Rightarrow> seq_field fast_message option" where
  "fast_message_reset msg = do {
     fs \<leftarrow> reset_fields seq_field_reset (unat (nr_fields msg)) (m_fields msg);
     Some (msg\<lparr>m_fields := fs\<rparr>) }"

subsection \<open>Sessions\<close>

text \<open>The session's receive function: \<open>buffer_recv\<close> for sockets, \<open>buffer_nread\<close> for files, which differ only in
  the system call.  The kernel answers to \<open>ans\<close> and keeps a state of its own.\<close>

definition session_rd :: "('k \<Rightarrow> ulong \<Rightarrow> u8 list io \<times> 'k) \<Rightarrow> buffer \<Rightarrow> ulong \<Rightarrow> 'k \<Rightarrow> (i64 \<times> buffer \<times> 'k) option" where
  "session_rd ans b n k = do {
     (nr, b') \<leftarrow> buffer_recv b (\<lambda>c. fst (ans k c)) n;
     Some (nr, b', snd (ans k (buffer_count b n))) }"

definition fast_session_recv ::
    "(buffer \<Rightarrow> ulong \<Rightarrow> 'k \<Rightarrow> (i64 \<times> buffer \<times> 'k) option) \<Rightarrow> fast_session \<Rightarrow> 'k \<Rightarrow> (ptr option \<times> fast_session \<times> 'k) option"
    where
  "fast_session_recv rd s k = do {
     (m, s) \<leftarrow> fast_message_decode s;
     (case m of
        Some mi \<Rightarrow> Some (Some mi, s, k)
      | None \<Rightarrow> do {
          b \<leftarrow> (if buffer_remaining (rx_buffer s) \<le> FAST_MESSAGE_MAX_SIZE then buffer_compact (rx_buffer s)
                else Some (rx_buffer s));
          (nr, b, k) \<leftarrow> rd b FAST_MESSAGE_MAX_SIZE k;
          (let s = s\<lparr>rx_buffer := b\<rparr> in
           if nr \<le>s 0 then Some (None, s, k)
           else do {
             (m, s) \<leftarrow> fast_message_decode s;
             Some (m, s, k) }) }) }"

definition fast_session_send ::
    "fast_session \<Rightarrow> ('a fast_field_scheme) fast_message \<Rightarrow> (u8 list list \<Rightarrow> i64)
       \<Rightarrow> (bool \<times> fast_session \<times> ('a fast_field_scheme) fast_message) option" where
  "fast_session_send s msg send = do {
     (ok, pb, mb, msg) \<leftarrow>
       fast_message_send (buffer_reset (tx_pmap_buffer s)) (buffer_reset (tx_message_buffer s)) msg send;
     Some (ok, s\<lparr>tx_pmap_buffer := pb, tx_message_buffer := mb\<rparr>, msg) }"

definition fast_session_reset :: "fast_session \<Rightarrow> fast_session option" where
  "fast_session_reset s = do {
     ms \<leftarrow> reset_fields fast_message_reset (nat (sint (nr_messages s))) (rx_messages s);
     Some (s\<lparr>rx_messages := ms\<rparr>) }"

fun msg_by_name_loop :: "'f fast_message list \<Rightarrow> string \<Rightarrow> nat \<Rightarrow> nat \<Rightarrow> ptr option option" where
  "msg_by_name_loop msgs nm i 0 = Some None"
| "msg_by_name_loop msgs nm i (Suc n) = do {
     m \<leftarrow> mem_get msgs (int i);
     (if m_name m = nm then Some (Some (int i)) else msg_by_name_loop msgs nm (i + 1) n) }"

definition fast_msg_by_name :: "fast_session \<Rightarrow> string \<Rightarrow> ptr option option" where
  "fast_msg_by_name s nm = msg_by_name_loop (rx_messages s) nm 0 FAST_TEMPLATE_MAX_NUMBER"

end
