(* ===== verification/Fast_Roundtrip.thy ===== *)
theory Fast_Roundtrip
  imports Fast_Message
begin

text \<open>
  What \<open>fast_message_encode\<close> writes is what \<open>fast_message_decode\<close> reads: the lemmas about one field are
  lifted to lists of fields behind the interface \<open>field_codec\<close>, the presence map is followed
  over the wire, and the two ends of a connection are shown to stay in step from message to message.
\<close>

subsection \<open>Lists of fields\<close>

fun decode_list :: "(buffer \<Rightarrow> fast_pmap \<Rightarrow> 'g \<Rightarrow> 'g decoded) \<Rightarrow> buffer \<Rightarrow> fast_pmap \<Rightarrow> 'g list
    \<Rightarrow> (fast_ret \<times> buffer \<times> fast_pmap \<times> 'g list) option" where
  "decode_list dec b p [] = Some (Inr (), b, p, [])"
| "decode_list dec b p (f # fs) = do {
     (r, b, p, f) \<leftarrow> dec b p f;
     (case r of
        Inl e \<Rightarrow> Some (Inl e, b, p, f # fs)
      | Inr _ \<Rightarrow> do {
          (r, b, p, fs) \<leftarrow> decode_list dec b p fs;
          Some (r, b, p, f # fs) }) }"

lemma pmap_reads_first:
  assumes q: "pmap_reads q p p2" and g: "pmap_grows m p1 p2"
  shows "pmap_reads q p p1"
  using assms by (auto simp: pmap_reads_def pmap_grows_def)

lemma pmap_reads_second:
  assumes q: "pmap_reads q p p2" and g: "pmap_grows m p1 p2"
  shows "pmap_reads (q\<lparr>pmap_bit := pmap_bit p1\<rparr>) p1 p2"
  using assms by (auto simp: pmap_reads_def pmap_wf_def pmap_get_def)

lemma pmap_grows_trans:
  "pmap_grows m p p1 \<Longrightarrow> pmap_grows n p1 p2 \<Longrightarrow> pmap_grows (m + n) p p2"
  by (auto simp: pmap_grows_def)

locale field_codec =
  fixes enc :: "buffer \<Rightarrow> fast_pmap \<Rightarrow> 'f \<Rightarrow> 'f encoded"
    and dec :: "buffer \<Rightarrow> fast_pmap \<Rightarrow> 'g \<Rightarrow> 'g decoded"
    and insync :: "'f \<Rightarrow> 'g \<Rightarrow> bool"
    and sendable :: "'f \<Rightarrow> bool"
    and same :: "'f \<Rightarrow> 'g \<Rightarrow> bool"
    and need :: nat
  assumes step: "insync e d \<Longrightarrow> sendable e \<Longrightarrow> pmap_fresh p \<Longrightarrow>
    unat (pmap_bit p) + 1 < 7 * unat (nr_bytes p) \<Longrightarrow>
    field_step enc dec (\<lambda>e' d'. same e d' \<and> insync e' d') need p e d"
begin

lemma fields_roundtrip:
  "list_all2 insync es ds \<Longrightarrow> (\<forall>e\<in>set es. sendable e) \<Longrightarrow> pmap_fresh p \<Longrightarrow>
     unat (pmap_bit p) + length es < 7 * unat (nr_bytes p) \<Longrightarrow>
     \<exists>w p' es' ds'.
       (\<forall>b. buffer_wf b \<longrightarrow> need * length es \<le> buffer_room b \<longrightarrow>
          encode_fields enc b p es = Some (True, buffer_extend b w, p', es'))
       \<and> length w \<le> need * length es \<and> pmap_grows (length es) p p'
       \<and> list_all2 same es ds' \<and> list_all2 insync es' ds'
       \<and> (\<forall>c q rest. holds c (w @ rest) \<longrightarrow> pmap_reads q p p' \<longrightarrow>
            decode_list dec c q ds
              = Some (Inr (), buffer_advance c (of_nat (length w)), q\<lparr>pmap_bit := pmap_bit p'\<rparr>, ds'))"
proof (induction es arbitrary: ds p)
  case Nil
  have "q\<lparr>pmap_bit := pmap_bit p\<rparr> = q" if "pmap_reads q p p" for q
    using that by (auto simp: pmap_reads_def)
  with Nil show ?case
    by (intro exI [of _ "[]"] exI [of _ p]) (auto simp: pmap_grows_refl)
next
  case (Cons e es)
  then obtain d ds0 where ds: "ds = d # ds0" and sy: "insync e d" "list_all2 insync es ds0"
    by (auto simp: list_all2_Cons1)
  from Cons.prems have r1: "sendable e" "unat (pmap_bit p) + 1 < 7 * unat (nr_bytes p)"
    and r2: "\<forall>e\<in>set es. sendable e" by auto
  from step [OF sy(1) r1(1) Cons.prems(3) r1(2)] obtain w1 p1 e' d' where
    e1: "\<And>b. buffer_wf b \<Longrightarrow> need \<le> buffer_room b \<Longrightarrow> enc b p e = Some (True, buffer_extend b w1, p1, e')"
    and l1: "length w1 \<le> need" and g1: "pmap_grows 1 p p1" and s1: "same e d'" "insync e' d'"
    and d1: "\<And>c q rest. holds c (w1 @ rest) \<Longrightarrow> pmap_reads q p p1 \<Longrightarrow>
      dec c q d = Some (Inr (), buffer_advance c (of_nat (length w1)), q\<lparr>pmap_bit := pmap_bit p1\<rparr>, d')"
    unfolding field_step_def by blast
  have "pmap_fresh p1" "unat (pmap_bit p1) + length es < 7 * unat (nr_bytes p1)"
    using g1 Cons.prems(4) by (auto simp: pmap_grows_def)
  from Cons.IH [OF sy(2) r2 this] obtain w2 p2 es' ds' where
    e2: "\<And>b. buffer_wf b \<Longrightarrow> need * length es \<le> buffer_room b \<Longrightarrow>
      encode_fields enc b p1 es = Some (True, buffer_extend b w2, p2, es')"
    and l2: "length w2 \<le> need * length es" and g2: "pmap_grows (length es) p1 p2"
    and s2: "list_all2 same es ds'" "list_all2 insync es' ds'"
    and d2: "\<And>c q rest. holds c (w2 @ rest) \<Longrightarrow> pmap_reads q p1 p2 \<Longrightarrow>
      decode_list dec c q ds0
        = Some (Inr (), buffer_advance c (of_nat (length w2)), q\<lparr>pmap_bit := pmap_bit p2\<rparr>, ds')"
    by blast
  have enc: "encode_fields enc b p (e # es) = Some (True, buffer_extend b (w1 @ w2), p2, e' # es')"
    if b: "buffer_wf b" "need * length (e # es) \<le> buffer_room b" for b
  proof -
    have r: "need \<le> buffer_room b" "length w1 + length w2 \<le> buffer_room b" "length w1 \<le> buffer_room b"
      "need * length es \<le> buffer_room b - length w1"
      using b(2) l1 l2 by auto
    note w = extend_wf [OF b(1) r(3)] extend_room [OF b(1) r(3)]
    show ?thesis using e1 [OF b(1) r(1)] e2 [of "buffer_extend b w1"] w r(4) extend_extend [OF b(1) r(2)]
      by simp
  qed
  have dec: "decode_list dec c q ds
      = Some (Inr (), buffer_advance c (of_nat (length (w1 @ w2))), q\<lparr>pmap_bit := pmap_bit p2\<rparr>, d' # ds')"
    if h: "holds c ((w1 @ w2) @ rest)" and q: "pmap_reads q p p2" for c q rest
  proof -
    from h have h1: "holds c (w1 @ w2 @ rest)" by simp
    from holds_advance [OF h1, of "length w1"] have h2: "holds (buffer_advance c (of_nat (length w1))) (w2 @ rest)"
      by simp
    show ?thesis
      using d1 [OF h1 pmap_reads_first [OF q g2]] d2 [OF h2 pmap_reads_second [OF q g2]] by (simp add: ds)
  qed
  show ?case
    using enc dec l1 l2 pmap_grows_trans [OF g1 g2] s1 s2
    by (intro exI [of _ "w1 @ w2"] exI [of _ p2] exI [of _ "e' # es'"] exI [of _ "d' # ds'"]) auto
qed

end

subsection \<open>The fields of a message\<close>

lemma type_of_more: "fast_scalar.more f = fast_scalar.more g \<Longrightarrow> f_type f = f_type (g :: 'a fast_field_scheme)"
  by (cases f; cases g) simp

definition message_sync :: "'a fast_field_scheme \<Rightarrow> 'b fast_field_scheme \<Rightarrow> bool" where
  "message_sync e d \<longleftrightarrow> f_type d = f_type e \<and> f_type e \<in> {FAST_TYPE_INT, FAST_TYPE_UINT} \<and> sync_int e d"

definition message_ready :: "'a fast_field_scheme \<Rightarrow> bool" where
  "message_ready e \<longleftrightarrow> (if f_type e = FAST_TYPE_INT then ready_int e else ready_uint e)"

lemma field_step_mono:
  "field_step enc dec P n p e d \<Longrightarrow> (\<And>e' d'. P e' d' \<Longrightarrow> Q e' d') \<Longrightarrow>
     (\<And>b. enc' b p e = enc b p e) \<Longrightarrow> (\<And>c q. dec' c q d = dec c q d) \<Longrightarrow> field_step enc' dec' Q n p e d"
  unfolding field_step_def by (elim exE) (intro exI conjI; auto)

interpretation message_codec: field_codec
  "encode_message_field :: buffer \<Rightarrow> fast_pmap \<Rightarrow> 'a fast_field_scheme \<Rightarrow> _" decode_message_field
  message_sync message_ready same_field 9
proof unfold_locales
  fix e :: "'a fast_field_scheme" and d :: seq_field and p
  assume sync: "message_sync e d" and ready: "message_ready e" and p: "pmap_fresh p"
    and room: "unat (pmap_bit p) + 1 < 7 * unat (nr_bytes p)"
  have s: "sync_int e d" using sync by (simp add: message_sync_def)
  have tr: "same_field e d' \<and> message_sync e' d'" if "tracks e d e' d'" for e' :: "'a fast_field_scheme" and d' :: seq_field
    using that sync type_of_more [of e' e] type_of_more [of d' d] by (auto simp: tracks_def message_sync_def)
  show "field_step encode_message_field decode_message_field (\<lambda>e' d'. same_field e d' \<and> message_sync e' d') 9 p e d"
  proof (cases "f_type e = FAST_TYPE_INT")
    case True
    with ready have "ready_int e" by (simp add: message_ready_def)
    from field_step_mono [OF int_field_step [OF s this p room] tr] True sync show ?thesis
      by (simp add: encode_message_field_def decode_message_field_def message_sync_def)
  next
    case False
    with ready have "ready_uint e" by (simp add: message_ready_def)
    from field_step_mono [OF uint_field_step [OF s this p room] tr] False sync show ?thesis
      by (simp add: encode_message_field_def decode_message_field_def message_sync_def)
  qed
qed

subsection \<open>The loop of the decoder\<close>

lemma message_fields_loop_list:
  "decode_list decode_message_field b p ds = Some (Inr (), b', p', ds') \<Longrightarrow>
     m_fields msg = pre @ ds \<Longrightarrow> unat (m_decoded msg) = length pre \<Longrightarrow> length pre + length ds < 2 ^ 64 \<Longrightarrow>
     \<exists>st i'. message_fields_loop (length ds) b p msg st0 i
       = Some (Inr (), b', p', msg\<lparr>m_fields := pre @ ds', m_decoded := of_nat (length pre + length ds)\<rparr>, st, i')"
proof (induction ds arbitrary: b p msg pre st0 i ds')
  case Nil
  have "m_decoded msg = of_nat (unat (m_decoded msg))" by simp
  with Nil have "m_decoded msg = of_nat (length pre)" by metis
  with Nil show ?case by simp
next
  case (Cons d ds)
  from Cons.prems(1) obtain b1 p1 d1 ds1 where
    d1: "decode_message_field b p d = Some (Inr (), b1, p1, d1)"
      "decode_list decode_message_field b1 p1 ds = Some (Inr (), b', p', ds1)" "ds' = d1 # ds1"
    by (auto split: bind_splits sum.splits)
  let ?msg = "msg\<lparr>m_fields := pre @ d1 # ds, m_decoded := m_decoded msg + 1\<rparr>"
  have u: "unat (m_decoded msg + 1) = length (pre @ [d1])"
    using Cons.prems(3,4) by (simp add: unat_word_ariths)
  have k: "uint (m_decoded msg) = int (length pre)" by (simp add: uint_nat Cons.prems(3) del: of_nat_unat)
  have "length (pre @ [d1]) + length ds < 2 ^ 64" using Cons.prems(4) by simp
  from Cons.IH [OF d1(2) _ _ this, of ?msg "buffer_start b" "pmap_bit p"] u
  obtain st i' where "message_fields_loop (length ds) b1 p1 ?msg (buffer_start b) (pmap_bit p)
      = Some (Inr (), b', p', ?msg\<lparr>m_fields := (pre @ [d1]) @ ds1,
          m_decoded := of_nat (length (pre @ [d1]) + length ds)\<rparr>, st, i')"
    by auto
  with d1 Cons.prems(2) show ?case by (simp add: k mem_get_mid mem_put_mid Let_def)
qed

subsection \<open>The presence map on the wire\<close>

lemma pmap_trim_spec:
  assumes "length (pmap_bytes p) = 8" "unat (nr_bytes p) = n" "n \<le> 8" "pmap_bytes p ! 0 \<noteq> 0" "0 < n"
  shows "\<exists>k. pmap_trim n p = Some (p\<lparr>nr_bytes := of_nat k\<rparr>) \<and> 0 < k \<and> k \<le> n
    \<and> (\<forall>j. k \<le> j \<longrightarrow> j < n \<longrightarrow> pmap_bytes p ! j = 0)"
  using assms
proof (induction n arbitrary: p)
  case (Suc n)
  have g: "mem_get (pmap_bytes p) (int n) = Some (pmap_bytes p ! n)" using Suc.prems by (simp add: mem_get_Some)
  have nr: "p\<lparr>nr_bytes := of_nat (Suc n)\<rparr> = p"
  proof -
    have "nr_bytes p = of_nat (unat (nr_bytes p))" by simp
    with Suc.prems(2) have "nr_bytes p = of_nat (Suc n)" by metis
    then show ?thesis by (cases p) simp
  qed
  show ?case
  proof (cases "pmap_bytes p ! n = 0")
    case False
    with g nr show ?thesis by (intro exI [of _ "Suc n"]) (auto simp: le_less_Suc_eq)
  next
    case True
    then have n0: "0 < n" using Suc.prems(4) by (cases n) auto
    let ?p = "p\<lparr>nr_bytes := nr_bytes p - 1\<rparr>"
    have "unat (nr_bytes ?p) = n" using Suc.prems(2) by (simp add: unat_minus_one unat_eq_zero_iff [symmetric])
    from Suc.IH [of ?p] this Suc.prems n0 obtain k where
      "pmap_trim n ?p = Some (?p\<lparr>nr_bytes := of_nat k\<rparr>)" "0 < k" "k \<le> n"
        "\<forall>j. k \<le> j \<longrightarrow> j < n \<longrightarrow> pmap_bytes p ! j = 0" by auto
    with g True show ?thesis by (intro exI [of _ k]) (auto simp: less_Suc_eq)
  qed
qed simp

definition pmap_stream :: "fast_pmap \<Rightarrow> nat \<Rightarrow> u8 list" where
  "pmap_stream p k = map (\<lambda>c. c AND 0x7F) (take (k - 1) (pmap_bytes p)) @ [pmap_bytes p ! (k - 1) OR 0x80]"

lemma transfer_pmap_extend:
  assumes "length (pmap_bytes p) = 8" "nr_bytes p = of_nat k" "0 < k" "k \<le> 8" "buffer_wf b" "k \<le> buffer_room b"
  shows "transfer_pmap b p = Some (True, buffer_extend b (pmap_stream p k))"
proof -
  have u: "unat (of_nat k :: ulong) = k" using assms(4) by (simp add: unat_of_nat)
  have u1: "unat (of_nat k - 1 :: ulong) = k - 1"
    using assms(3,4) u by (simp add: unat_minus_one unat_eq_zero_iff [symmetric])
  let ?cs = "map (\<lambda>c. c AND 0x7F) (take (k - 1) (pmap_bytes p))"
  have l: "length ?cs = k - 1" using assms by simp
  have ld: "mem_load (pmap_bytes p) 0 (k - 1) = Some (take (k - 1) (pmap_bytes p))"
    using assms mem_load_Some [of 0 "k - 1" "pmap_bytes p"] by simp
  have g: "mem_get (pmap_bytes p) (uint (of_nat k - 1 :: ulong)) = Some (pmap_bytes p ! (k - 1))"
    using assms u1 by (simp add: mem_get_uint)
  have r: "\<not> buffer_remaining b < of_nat k"
    using assms by (simp add: word_less_nat_alt unat_buffer_remaining u)
  have wf: "buffer_wf (buffer_extend b ?cs)" "buffer_room (buffer_extend b ?cs) = buffer_room b - (k - 1)"
    using assms l by (simp_all add: extend_wf extend_room)
  have "buffer_put (buffer_extend b ?cs) (pmap_bytes p ! (k - 1) OR 0x80)
      = Some (buffer_extend (buffer_extend b ?cs) [pmap_bytes p ! (k - 1) OR 0x80])"
    using assms(3,6) wf by (intro put_extend) auto
  also have "buffer_extend (buffer_extend b ?cs) [pmap_bytes p ! (k - 1) OR 0x80] = buffer_extend b (pmap_stream p k)"
    using assms l by (simp add: extend_extend pmap_stream_def)
  finally show ?thesis
    using assms r ld g l by (simp add: transfer_pmap_def u1 puts_extend)
qed

lemma parse_pmap_stream:
  assumes p: "pmap_wf p" "nr_bytes p = 8" and k: "0 < k" "k \<le> 8"
    and z: "\<forall>j. k \<le> j \<longrightarrow> j < 8 \<longrightarrow> pmap_bytes p ! j = 0"
    and h: "holds b (pmap_stream p k @ rest)" and q: "length (pmap_bytes q) = 8"
  shows "\<exists>q'. parse_pmap b q = Some (Inr (), q', buffer_advance b (of_nat (length (pmap_stream p k))))
    \<and> pmap_wf q' \<and> 0 < nr_bytes q' \<and> (\<forall>j. pmap_get q' j \<longleftrightarrow> pmap_get p j)"
proof -
  let ?xs = "map (\<lambda>c. c AND 0x7F) (take (k - 1) (pmap_bytes p))" and ?c = "pmap_bytes p ! (k - 1) OR 0x80"
  have len: "length (pmap_bytes p) = 8" using p by (simp add: pmap_wf_def)
  have l: "length ?xs = k - 1" using k len by simp
  let ?q = "q\<lparr>pmap_bytes := splice (pmap_bytes q) 0 (?xs @ [?c]), nr_bytes := of_nat k\<rparr>"
  have ns: "no_stop ?xs" by (auto simp: no_stop_def and_80_0 and_7F bit_simps)
  have st: "?c AND 0x80 \<noteq> 0" by (simp add: and_80_0 bit_simps bit_80 del: bit_numeral_word_iff)
  have parse: "parse_pmap b q = Some (Inr (), ?q, buffer_advance b (of_nat k))"
    using parse_pmap_stop [of b ?xs ?c rest q] h ns st l k q by (simp add: pmap_stream_def)
  have uk: "unat (of_nat k :: ulong) = k" using k by (simp add: unat_of_nat)
  have nth: "splice (pmap_bytes q) 0 (?xs @ [?c]) ! i = (if i < k - 1 then pmap_bytes p ! i AND 0x7F else ?c)"
    if "i < k" for i
    using that k l len by (auto simp: splice_def nth_append)
  have bits: "bit (splice (pmap_bytes q) 0 (?xs @ [?c]) ! i) m = bit (pmap_bytes p ! i) m" if "i < k" "m < 7" for i m
  proof (cases "i < k - 1")
    case True
    with that(2) show ?thesis unfolding nth [OF that(1)] by (simp add: and_7F bit_simps)
  next
    case False
    with that k have "i = k - 1" by simp
    with that(2) show ?thesis unfolding nth [OF that(1)] by (simp add: bit_or_iff bit_80 del: bit_numeral_word_iff)
  qed
  have "pmap_get ?q j \<longleftrightarrow> pmap_get p j" for j
  proof (cases "j div 7 < k")
    case True
    with bits [of "j div 7" "6 - j mod 7"] p(2) uk k show ?thesis by (simp add: pmap_get_def)
  next
    case False
    with z p(2) uk show ?thesis by (auto simp: pmap_get_def not_less)
  qed
  moreover have "pmap_wf ?q"
    using q k l by (simp add: pmap_wf_def FAST_PMAP_MAX_BYTES_def word_le_nat_alt uk)
  moreover have "0 < nr_bytes ?q" using k uk by (simp add: word_less_nat_alt)
  moreover have "length (pmap_stream p k) = k" using l k by (simp add: pmap_stream_def)
  ultimately show ?thesis using parse by auto
qed

subsection \<open>A message goes over\<close>

lemma get_msg_loop_first:
  "(\<forall>j. i \<le> j \<longrightarrow> j < k \<longrightarrow> m_tid (msgs ! j) \<noteq> scast t) \<Longrightarrow> i \<le> k \<Longrightarrow> k < i + n \<Longrightarrow> k < length msgs \<Longrightarrow>
     m_tid (msgs ! k) = scast t \<Longrightarrow> get_msg_loop msgs t i n = Some (Some (int k))"
proof (induction n arbitrary: i)
  case (Suc n)
  have g: "mem_get msgs (int i) = Some (msgs ! i)" using Suc.prems by (simp add: mem_get_Some)
  show ?case
  proof (cases "i = k")
    case True
    with g Suc.prems show ?thesis by simp
  next
    case False
    with Suc.prems have "m_tid (msgs ! i) \<noteq> scast t" "get_msg_loop msgs t (Suc i) n = Some (Some (int k))"
      by (auto intro!: Suc.IH)
    with g show ?thesis by simp
  qed
qed simp

lemma scast_ucast_tid: "unat (tid :: ulong) < 2 ^ 31 \<Longrightarrow> scast (ucast tid :: i32) = tid"
proof -
  assume t: "unat tid < 2 ^ 31"
  have "\<not> bit tid i" if "31 \<le> i" for i
    using t that bit_take_bit_iff [of 31 "unat tid" i] take_bit_nat_eq_self [of "unat tid" 31]
    by (simp add: bit_unsigned_iff flip: unsigned_take_bit_eq) (metis bit_unsigned_iff linorder_not_le possible_bit_nat)
  then show ?thesis by (intro bit_word_eqI) (auto simp: bit_simps min_def)
qed

text \<open>A receiver between two messages, whose \<open>mi\<close>-th template has the id \<open>tid\<close> and the fields \<open>ds\<close>.\<close>

definition receiver :: "fast_session \<Rightarrow> nat \<Rightarrow> ulong \<Rightarrow> seq_field list \<Rightarrow> bool" where
  "receiver s mi tid ds \<longleftrightarrow> pre_nr_bytes (s_preamble s) = 0 \<and> \<not> is_valid (s_pmap s)
     \<and> length (pmap_bytes (s_pmap s)) = 8 \<and> rx_message s = None \<and> length (rx_messages s) = 128 \<and> mi < 128
     \<and> (\<forall>j<mi. m_tid (rx_messages s ! j) \<noteq> tid) \<and> m_tid (rx_messages s ! mi) = tid
     \<and> m_fields (rx_messages s ! mi) = ds \<and> m_decoded (rx_messages s ! mi) = 0
     \<and> nr_fields (rx_messages s ! mi) = of_nat (length ds)"

lemma receive_message:
  assumes rx: "receiver s mi tid ds" and tid: "unat tid < 2 ^ 31" and n: "length ds < 56"
    and h: "holds b (w1 @ enc_uint tid @ w @ rest)"
    and pmap: "parse_pmap b (s_pmap s) = Some (Inr (), q, buffer_advance b (of_nat (length w1)))"
      "pmap_wf q" "pmap_get q 0" and q0: "q' = q\<lparr>is_valid := True, pmap_bit := 0\<rparr>"
    and fields: "\<And>c rest. holds c (w @ rest) \<Longrightarrow> decode_list decode_message_field c q' ds
      = Some (Inr (), buffer_advance c (of_nat (length w)), p, ds')"
    and l: "length ds' = length ds" and p8: "length (pmap_bytes p) = 8"
  shows "\<exists>s'. fast_message_decode (s\<lparr>rx_buffer := b\<rparr>) = Some (Some (int mi), s')
    \<and> receiver s' mi tid ds' \<and> holds (rx_buffer s') rest"
proof -
  let ?e = "enc_uint tid" and ?msg = "rx_messages s ! mi"
  let ?b1 = "buffer_advance b (of_nat (length w1))"
  let ?b2 = "buffer_advance ?b1 (of_nat (length ?e))"
  let ?b3 = "buffer_advance ?b2 (of_nat (length w))"
  note r = rx [unfolded receiver_def]
  have h1: "holds ?b1 (?e @ w @ rest)" using holds_advance [OF h, of "length w1"] by simp
  have h2: "holds ?b2 (w @ rest)" using holds_advance [OF h1, of "length ?e"] by simp
  have h3: "holds ?b3 rest" using holds_advance [OF h2, of "length w"] by simp
  have t: "uint_fits tid" using tid by (simp add: uint_fits_def)
  have tp: "parse_uint ?b1 = Some (Inr tid, ?b2)" by (rule uint_codec.get_enc [OF t h1])
  have wq: "pmap_wf q'" "pmap_get q' 0" using pmap(2,3) by (simp_all add: q0 pmap_wf_def pmap_get_def)
  have set0: "pmap_is_set q' 0 = Some True" using pmap_is_set_get [OF wq(1), of 0] wq(2) by simp
  have gm: "fast_get_msg (rx_messages s) (ucast tid) = Some (Some (int mi))"
    unfolding fast_get_msg_def FAST_TEMPLATE_MAX_NUMBER_def
    by (rule get_msg_loop_first) (use r scast_ucast_tid [OF tid] in auto)
  have nf: "unat (nr_fields ?msg) - unat (m_decoded ?msg) = length ds"
    using r n by (simp add: unat_of_nat)
  from message_fields_loop_list [OF fields [OF h2], of ?msg "[]" "buffer_start ?b2" 0] r n
  obtain st i where loop: "message_fields_loop (length ds) ?b2 q' ?msg (buffer_start ?b2) 0
      = Some (Inr (), ?b3, p, ?msg\<lparr>m_fields := ds', m_decoded := of_nat (length ds)\<rparr>, st, i)"
    by auto
  let ?m = "?msg\<lparr>m_fields := ds', m_decoded := of_nat (length ds)\<rparr>"
  have g: "mem_get (rx_messages s) (int mi) = Some ?msg"
    "mem_put (rx_messages s) (int mi) (?m\<lparr>m_decoded := 0\<rparr>) = Some ((rx_messages s)[mi := ?m\<lparr>m_decoded := 0\<rparr>])"
    using r by (simp_all add: mem_get_Some mem_put_Some)
  let ?s = "s\<lparr>rx_buffer := ?b3, rx_messages := (rx_messages s)[mi := ?m\<lparr>m_decoded := 0\<rparr>], last_tid := tid,
    rx_message := None, s_preamble := (s_preamble s)\<lparr>pre_is_valid := False\<rparr>, s_pmap := p\<lparr>is_valid := False\<rparr>\<rparr>"
  have "fast_message_decode (s\<lparr>rx_buffer := b\<rparr>) = Some (Some (int mi), ?s)"
    using r pmap(1) set0 tp gm g loop nf
    by (simp add: fast_message_decode_def decode_pmap_def decode_template_def decode_fields_def Let_def q0 [symmetric])
  moreover have "receiver ?s mi tid ds'"
    using r p8 l by (auto simp: receiver_def nth_list_update)
  ultimately show ?thesis using h3 by auto
qed

lemma fresh_pmap_template:
  "\<exists>p0. pmap_set fresh_pmap 0 = Some (True, p0) \<and> pmap_fresh p0 \<and> pmap_bit p0 = 0 \<and> nr_bytes p0 = 8 \<and> pmap_get p0 0"
proof -
  have wf: "pmap_wf fresh_pmap" by (simp add: pmap_wf_def fresh_pmap_def FAST_PMAP_MAX_BYTES_def)
  have "\<not> pmap_get fresh_pmap j" for j
    by (auto simp: pmap_get_def fresh_pmap_def FAST_PMAP_MAX_BYTES_def)
  with pmap_set_get [OF wf, of 0] show ?thesis
    by (auto simp: pmap_fresh_def fresh_pmap_def FAST_PMAP_MAX_BYTES_def)
qed

lemma byte0_nonzero: "pmap_get p 0 \<Longrightarrow> pmap_bytes p ! 0 \<noteq> 0"
  by (auto simp: pmap_get_def)

lemma message_roundtrip_core:
  fixes msg :: "('a fast_field_scheme) fast_message"
  assumes rx: "receiver s mi (m_tid msg) ds" and tid: "unat (m_tid msg) < 2 ^ 31"
    and sync: "list_all2 message_sync (m_fields msg) ds"
    and ready: "\<forall>e\<in>set (m_fields msg). message_ready e"
    and n: "nr_fields msg = of_nat (length (m_fields msg))" "length (m_fields msg) < 56"
    and pb: "holds pb []" "8 \<le> buffer_room pb"
    and mb: "holds mb []" "9 + 9 * length (m_fields msg) \<le> buffer_room mb"
  shows "\<exists>pb' mb' msg' w1 w2. fast_message_encode pb mb msg = Some (True, pb', mb', msg')
    \<and> pb' = buffer_extend pb w1 \<and> mb' = buffer_extend mb w2 \<and> length w1 \<le> 8 \<and> length w2 \<le> 9 + 9 * length (m_fields msg)
    \<and> msg' = msg\<lparr>m_fields := m_fields msg'\<rparr> \<and> holds pb' w1 \<and> holds mb' w2
    \<and> (\<forall>b rest. holds b (w1 @ w2 @ rest) \<longrightarrow>
         (\<exists>s' ds'. fast_message_decode (s\<lparr>rx_buffer := b\<rparr>) = Some (Some (int mi), s')
           \<and> receiver s' mi (m_tid msg) ds' \<and> holds (rx_buffer s') rest
           \<and> list_all2 same_field (m_fields msg) ds' \<and> list_all2 message_sync (m_fields msg') ds'))"
proof -
  let ?tid = "m_tid msg" and ?fs = "m_fields msg"
  from fresh_pmap_template obtain p0 where p0: "pmap_set fresh_pmap 0 = Some (True, p0)" "pmap_fresh p0"
    "pmap_bit p0 = 0" "nr_bytes p0 = 8" "pmap_get p0 0" by blast
  have t: "uint_fits ?tid" using tid by (simp add: uint_fits_def)
  have te: "length (enc_uint ?tid) \<le> 9" using transfer_size_uint_bounds [of ?tid] by (simp add: enc_uint_def)
  have room0: "unat (pmap_bit p0) + length ?fs < 7 * unat (nr_bytes p0)" using n p0 by simp
  from message_codec.fields_roundtrip [OF sync ready p0(2) room0] obtain w p' es' ds' where
    enc: "\<And>b. buffer_wf b \<Longrightarrow> 9 * length ?fs \<le> buffer_room b \<Longrightarrow>
      encode_fields encode_message_field b p0 ?fs = Some (True, buffer_extend b w, p', es')"
    and lw: "length w \<le> 9 * length ?fs" and g: "pmap_grows (length ?fs) p0 p'"
    and same: "list_all2 same_field ?fs ds'" "list_all2 message_sync es' ds'"
    and dec: "\<And>c q rest. holds c (w @ rest) \<Longrightarrow> pmap_reads q p0 p' \<Longrightarrow> decode_list decode_message_field c q ds
      = Some (Inr (), buffer_advance c (of_nat (length w)), q\<lparr>pmap_bit := pmap_bit p'\<rparr>, ds')"
    by blast
  have p': "pmap_wf p'" "nr_bytes p' = 8" "length (pmap_bytes p') = 8" "pmap_get p' 0" "unat (nr_bytes p') = 8"
    using g p0 by (auto simp: pmap_grows_def pmap_fresh_def pmap_wf_def)
  from pmap_trim_spec [OF p'(3,5) _ byte0_nonzero [OF p'(4)]] obtain k where
    k: "pmap_trim 8 p' = Some (p'\<lparr>nr_bytes := of_nat k\<rparr>)" "0 < k" "k \<le> 8"
      "\<forall>j. k \<le> j \<longrightarrow> j < 8 \<longrightarrow> pmap_bytes p' ! j = 0" by auto
  let ?w1 = "pmap_stream p' k"
  have lw1: "length ?w1 \<le> 8" using k p'(3) by (simp add: pmap_stream_def)
  have tp: "transfer_pmap pb (p'\<lparr>nr_bytes := of_nat k\<rparr>) = Some (True, buffer_extend pb ?w1)"
    using transfer_pmap_extend [of "p'\<lparr>nr_bytes := of_nat k\<rparr>" k pb] p'(3) k pb by (auto simp: pmap_stream_def)
  let ?mb = "buffer_extend mb (enc_uint ?tid)"
  have m1: "transfer_uint mb ?tid = Some (True, ?mb)"
    using mb te by (intro uint_codec.put_enc [OF t]) auto
  have m2: "buffer_wf ?mb" "9 * length ?fs \<le> buffer_room ?mb"
    using mb te by (auto simp: extend_wf extend_room holds_wf)
  have m3: "buffer_extend ?mb w = buffer_extend mb (enc_uint ?tid @ w)"
    using mb te lw by (intro extend_extend) auto
  have hm: "holds (buffer_extend mb (enc_uint ?tid @ w)) (enc_uint ?tid @ w)"
    using holds_extend [OF mb(1), of "enc_uint ?tid @ w"] mb(2) te lw by simp
  have hp: "holds (buffer_extend pb ?w1) ?w1" using holds_extend [OF pb(1), of ?w1] pb(2) lw1 by simp
  have les: "length es' = length ?fs" "length ds' = length ds" "length ds < 56"
    using same sync n(2) by (auto dest!: list_all2_lengthD)
  have un: "unat (nr_fields msg) = length ?fs" using n by (simp add: unat_of_nat)
  have ld: "mem_load ?fs 0 (unat (nr_fields msg)) = Some ?fs" "mem_store ?fs 0 es' = Some es'"
    using mem_load_Some [of 0 "length ?fs" ?fs] mem_store_Some [of 0 es' ?fs] les(1) by (simp_all add: un)
  have encode: "fast_message_encode pb mb msg
      = Some (True, buffer_extend pb ?w1, buffer_extend mb (enc_uint ?tid @ w), msg\<lparr>m_fields := es'\<rparr>)"
    using p0(1) m1 enc [OF m2] ld k(1) tp m3 by (simp add: fast_message_encode_def Let_def)
  have decode: "\<exists>s' ds'. fast_message_decode (s\<lparr>rx_buffer := b\<rparr>) = Some (Some (int mi), s')
      \<and> receiver s' mi ?tid ds' \<and> holds (rx_buffer s') rest
      \<and> list_all2 same_field ?fs ds' \<and> list_all2 message_sync es' ds'"
    if h: "holds b (?w1 @ (enc_uint ?tid @ w) @ rest)" for b rest
  proof -
    from rx have "length (pmap_bytes (s_pmap s)) = 8" by (simp add: receiver_def)
    from parse_pmap_stream [OF p'(1,2) k(2,3,4) h this] obtain q where
      q: "parse_pmap b (s_pmap s) = Some (Inr (), q, buffer_advance b (of_nat (length ?w1)))"
        "pmap_wf q" "\<forall>j. pmap_get q j \<longleftrightarrow> pmap_get p' j" by blast
    let ?q = "q\<lparr>is_valid := True, pmap_bit := 0\<rparr>"
    have "pmap_reads ?q p0 p'"
      using q(2,3) p0(3) by (auto simp: pmap_reads_def pmap_wf_def pmap_get_def)
    then have fields: "decode_list decode_message_field c ?q ds
        = Some (Inr (), buffer_advance c (of_nat (length w)), ?q\<lparr>pmap_bit := pmap_bit p'\<rparr>, ds')"
      if "holds c (w @ r)" for c r using dec that by blast
    have h': "holds b (?w1 @ enc_uint ?tid @ w @ rest)" using h by simp
    have q0: "pmap_get q 0" using q(3) p'(4) by simp
    have "length (pmap_bytes (?q\<lparr>pmap_bit := pmap_bit p'\<rparr>)) = 8" using q(2) by (simp add: pmap_wf_def)
    from receive_message [OF rx tid les(3) h' q(1,2) q0 refl _ les(2) this] fields
    have "\<exists>s'. fast_message_decode (s\<lparr>rx_buffer := b\<rparr>) = Some (Some (int mi), s')
        \<and> receiver s' mi ?tid ds' \<and> holds (rx_buffer s') rest" by blast
    with same show ?thesis by blast
  qed
  show ?thesis
    by (rule exI [of _ "buffer_extend pb ?w1"], rule exI [of _ "buffer_extend mb (enc_uint ?tid @ w)"],
        rule exI [of _ "msg\<lparr>m_fields := es'\<rparr>"], rule exI [of _ ?w1], rule exI [of _ "enc_uint ?tid @ w"])
       (use encode hp hm decode lw1 te lw in auto)
qed

subsection \<open>Properties\<close>

text \<open>A template of two fields, an unsigned one with the copy operator and an optional signed one with
  the delta operator, its sender and its receiver, for concrete instances.\<close>

definition sample_scalar :: "fast_op \<Rightarrow> fast_presence \<Rightarrow> fast_state \<Rightarrow> i64 \<Rightarrow> fast_scalar" where
  "sample_scalar op pr st v = \<lparr>f_presence = pr, f_op = op, f_state = st, f_state_previous = FAST_STATE_UNDEFINED,
     f_has_reset = False, int_value = v, int_reset = 0, int_previous = 0\<rparr>"

definition sample_field :: "fast_type \<Rightarrow> fast_op \<Rightarrow> fast_presence \<Rightarrow> fast_state \<Rightarrow> i64 \<Rightarrow> fast_field" where
  "sample_field ty op pr st v = fast_scalar.extend (sample_scalar op pr st v)
     \<lparr>f_type = ty, f_flags = 0, f_name = [], f_id = 0,
      string_value = replicate 256 0, string_reset = replicate 256 0, string_previous = replicate 256 0,
      vector_value = replicate 256 0, vector_reset = replicate 256 0, vector_previous = replicate 256 0,
      decimal_value = \<lparr>dec_exp = 0, dec_mnt = 0\<rparr>, decimal_reset = \<lparr>dec_exp = 0, dec_mnt = 0\<rparr>,
      decimal_previous = \<lparr>dec_exp = 0, dec_mnt = 0\<rparr>, decimal_fields = None\<rparr>"

definition sample_message :: "'f list \<Rightarrow> ulong \<Rightarrow> 'f fast_message" where
  "sample_message fs tid = \<lparr>nr_fields = of_nat (length fs), m_decoded = 0, m_fields = fs, m_name = [],
     m_flags = 0, m_tid = tid\<rparr>"

definition sample_sender :: "fast_field fast_message" where
  "sample_sender = sample_message
     [sample_field FAST_TYPE_UINT FAST_OP_COPY FAST_PRESENCE_MANDATORY FAST_STATE_UNDEFINED 942755,
      sample_field FAST_TYPE_INT FAST_OP_DELTA FAST_PRESENCE_OPTIONAL FAST_STATE_UNDEFINED (- 3)] 7"

definition sample_receiver_fields :: "seq_field list" where
  "sample_receiver_fields = map (\<lambda>f. fast_field.extend f \<lparr>ptr_value = None\<rparr>)
     [sample_field FAST_TYPE_UINT FAST_OP_COPY FAST_PRESENCE_MANDATORY FAST_STATE_UNDEFINED 0,
      sample_field FAST_TYPE_INT FAST_OP_DELTA FAST_PRESENCE_OPTIONAL FAST_STATE_UNDEFINED 0]"

definition sample_session :: fast_session where
  "sample_session = \<lparr>last_tid = 0, rx_buffer = buffer_of [] 0, tx_pmap_buffer = buffer_of [] 64,
     tx_message_buffer = buffer_of [] 64, nr_messages = 1, rx_message = None,
     rx_messages = sample_message sample_receiver_fields 7 # replicate 127 (sample_message [] 0),
     s_preamble = \<lparr>pre_is_valid = False, pre_nr_bytes = 0, pre_bytes = replicate 8 0\<rparr>,
     s_pmap = \<lparr>is_valid = False, pmap_bit = 0, nr_bytes = 0, pmap_bytes = replicate 8 0\<rparr>, s_reset = False\<rparr>"

lemma sample_receiver: "receiver sample_session 0 7 sample_receiver_fields"
  by (simp add: receiver_def sample_session_def sample_message_def)

lemma sample_sync: "list_all2 message_sync (m_fields sample_sender) sample_receiver_fields"
  by (simp add: sample_sender_def sample_receiver_fields_def sample_message_def message_sync_def
      sync_int_def sample_field_def sample_scalar_def fast_scalar.defs fast_field.defs)

lemma sample_ready: "\<forall>e\<in>set (m_fields sample_sender). message_ready e"
  by (simp add: sample_sender_def sample_message_def message_ready_def ready_int_def ready_uint_def ready_def
      narrow_def sample_field_def sample_scalar_def fast_scalar.defs field_is_mandatory_def)

text \<open>C1: a FAST message of integer fields, of any operators and presences, that
  \<open>fast_message_encode\<close> writes (presence map and body) is decoded by \<open>fast_message_decode\<close> into the
  same states and values, with whatever follows it in the stream left over, and both ends are in step
  again, so that the operators that refer to previous values also work for the next message.\<close>

theorem message_roundtrip:
  fixes msg :: "('a fast_field_scheme) fast_message"
  assumes "receiver s mi (m_tid msg) ds" and "unat (m_tid msg) < 2 ^ 31"
    and "list_all2 message_sync (m_fields msg) ds" and "\<forall>e\<in>set (m_fields msg). message_ready e"
    and "nr_fields msg = of_nat (length (m_fields msg))" and "length (m_fields msg) < 56"
    and "holds pb []" and "8 \<le> buffer_room pb"
    and "holds mb []" and "9 + 9 * length (m_fields msg) \<le> buffer_room mb"
  shows "\<exists>pb' mb' msg' w1 w2. fast_message_encode pb mb msg = Some (True, pb', mb', msg')
    \<and> holds pb' w1 \<and> holds mb' w2
    \<and> (\<forall>b rest. holds b (w1 @ w2 @ rest) \<longrightarrow>
         (\<exists>s' ds'. fast_message_decode (s\<lparr>rx_buffer := b\<rparr>) = Some (Some (int mi), s')
           \<and> receiver s' mi (m_tid msg) ds' \<and> holds (rx_buffer s') rest
           \<and> list_all2 same_field (m_fields msg) ds' \<and> list_all2 message_sync (m_fields msg') ds'))"
  using message_roundtrip_core [OF assms] by blast

theorem message_roundtrip_witness:
  "\<exists>pb' mb' msg' w1 w2.
     fast_message_encode (buffer_of [] 64) (buffer_of [] 64) sample_sender = Some (True, pb', mb', msg')
    \<and> holds pb' w1 \<and> holds mb' w2
    \<and> (\<forall>b rest. holds b (w1 @ w2 @ rest) \<longrightarrow>
         (\<exists>s' ds'. fast_message_decode (sample_session\<lparr>rx_buffer := b\<rparr>) = Some (Some (int 0), s')
           \<and> receiver s' 0 (m_tid sample_sender) ds' \<and> holds (rx_buffer s') rest
           \<and> list_all2 same_field (m_fields sample_sender) ds'
           \<and> list_all2 message_sync (m_fields msg') ds'))"
proof -
  have b: "holds (buffer_of [] 64) []" "buffer_room (buffer_of [] 64) = 64" by (rule buffer_of_holds, simp)+
  have t: "m_tid sample_sender = 7" "length (m_fields sample_sender) = 2" "nr_fields sample_sender = 2"
    by (simp_all add: sample_sender_def sample_message_def)
  show ?thesis
    by (rule message_roundtrip [where ds = sample_receiver_fields])
       (use sample_receiver sample_sync sample_ready b t in simp_all)
qed

end
