(* ===== verification/Fix_Message.thy ===== *)
theory Fix_Message
  imports Itoa Buffer
begin

text \<open>
  FIX messages (lib/proto/fix_message.c, fix_message.h): parsing out of the receive buffer, the
  accessors, and unparsing into the two transmit buffers.

  A \<open>const char *\<close> either points into the receive buffer, where it is an offset, or to a
  string of its own, which is the array from the pointer on.  A \<open>double\<close> is its 64-bit pattern;
  \<open>strtod\<close> and \<open>modp_dtoa2\<close>, which convert it, are parameters, and so is the dialect's
  \<open>tag_type\<close>.  The parsers return the code's \<open>int\<close> as a sum.
\<close>

subsection \<open>Data\<close>

datatype fix_msg_type =
    FIX_MSG_TYPE_HEARTBEAT | FIX_MSG_TYPE_TEST_REQUEST | FIX_MSG_TYPE_RESEND_REQUEST
  | FIX_MSG_TYPE_REJECT | FIX_MSG_TYPE_SEQUENCE_RESET | FIX_MSG_TYPE_LOGOUT
  | FIX_MSG_TYPE_EXECUTION_REPORT | FIX_MSG_TYPE_LOGON | FIX_MSG_TYPE_NEW_ORDER_SINGLE
  | FIX_MSG_TYPE_SNAPSHOT_REFRESH | FIX_MSG_TYPE_INCREMENT_REFRESH | FIX_MSG_TYPE_SESSION_STATUS
  | FIX_MSG_TYPE_SECURITY_STATUS | FIX_MSG_ORDER_CANCEL_REPLACE | FIX_MSG_ORDER_CANCEL_REJECT
  | FIX_MSG_ORDER_CANCEL_REQUEST | FIX_MSG_ORDER_MASS_CANCEL_REQUEST
  | FIX_MSG_ORDER_MASS_CANCEL_REPORT | FIX_MSG_QUOTE_REQUEST | FIX_MSG_SECURITY_DEFINITION_REQUEST
  | FIX_MSG_NEW_ORDER_CROSS | FIX_MSG_MASS_QUOTE | FIX_MSG_QUOTE_CANCEL | FIX_MSG_SECURITY_DEFINITION
  | FIX_MSG_QUOTE_ACKNOWLEDGEMENT | FIX_MSG_ORDER_MASS_STATUS_REQUEST
  | FIX_MSG_ORDER_MASS_ACTION_REQUEST | FIX_MSG_ORDER_MASS_ACTION_REPORT | FIX_MSG_TYPE_UNKNOWN

text \<open>The table \<open>fix_msg_types\<close>; there is no entry for the unknown type.\<close>

fun fix_msg_types :: "fix_msg_type \<Rightarrow> u8 list option" where
  "fix_msg_types FIX_MSG_TYPE_HEARTBEAT = Some (chars ''0'')"
| "fix_msg_types FIX_MSG_TYPE_TEST_REQUEST = Some (chars ''1'')"
| "fix_msg_types FIX_MSG_TYPE_RESEND_REQUEST = Some (chars ''2'')"
| "fix_msg_types FIX_MSG_TYPE_REJECT = Some (chars ''3'')"
| "fix_msg_types FIX_MSG_TYPE_SEQUENCE_RESET = Some (chars ''4'')"
| "fix_msg_types FIX_MSG_TYPE_LOGOUT = Some (chars ''5'')"
| "fix_msg_types FIX_MSG_TYPE_EXECUTION_REPORT = Some (chars ''8'')"
| "fix_msg_types FIX_MSG_ORDER_CANCEL_REJECT = Some (chars ''9'')"
| "fix_msg_types FIX_MSG_TYPE_LOGON = Some (chars ''A'')"
| "fix_msg_types FIX_MSG_TYPE_NEW_ORDER_SINGLE = Some (chars ''D'')"
| "fix_msg_types FIX_MSG_ORDER_CANCEL_REQUEST = Some (chars ''F'')"
| "fix_msg_types FIX_MSG_ORDER_CANCEL_REPLACE = Some (chars ''G'')"
| "fix_msg_types FIX_MSG_TYPE_SNAPSHOT_REFRESH = Some (chars ''W'')"
| "fix_msg_types FIX_MSG_TYPE_INCREMENT_REFRESH = Some (chars ''X'')"
| "fix_msg_types FIX_MSG_TYPE_SESSION_STATUS = Some (chars ''h'')"
| "fix_msg_types FIX_MSG_TYPE_SECURITY_STATUS = Some (chars ''f'')"
| "fix_msg_types FIX_MSG_ORDER_MASS_CANCEL_REQUEST = Some (chars ''q'')"
| "fix_msg_types FIX_MSG_ORDER_MASS_CANCEL_REPORT = Some (chars ''r'')"
| "fix_msg_types FIX_MSG_QUOTE_REQUEST = Some (chars ''R'')"
| "fix_msg_types FIX_MSG_SECURITY_DEFINITION_REQUEST = Some (chars ''c'')"
| "fix_msg_types FIX_MSG_NEW_ORDER_CROSS = Some (chars ''s'')"
| "fix_msg_types FIX_MSG_MASS_QUOTE = Some (chars ''i'')"
| "fix_msg_types FIX_MSG_QUOTE_CANCEL = Some (chars ''Z'')"
| "fix_msg_types FIX_MSG_SECURITY_DEFINITION = Some (chars ''d'')"
| "fix_msg_types FIX_MSG_QUOTE_ACKNOWLEDGEMENT = Some (chars ''b'')"
| "fix_msg_types FIX_MSG_ORDER_MASS_STATUS_REQUEST = Some (chars ''AF'')"
| "fix_msg_types FIX_MSG_ORDER_MASS_ACTION_REQUEST = Some (chars ''CA'')"
| "fix_msg_types FIX_MSG_ORDER_MASS_ACTION_REPORT = Some (chars ''BZ'')"
| "fix_msg_types FIX_MSG_TYPE_UNKNOWN = None"

datatype fix_type = FIX_TYPE_INT | FIX_TYPE_FLOAT | FIX_TYPE_CHAR | FIX_TYPE_STRING
  | FIX_TYPE_CHECKSUM | FIX_TYPE_MSGSEQNUM | FIX_TYPE_STRING_8

datatype fix_err = FIX_MSG_STATE_PARTIAL | FIX_MSG_STATE_GARBLED

datatype char_ptr = Rx ptr | Str mem

datatype fix_value = IntVal i64 | FloatVal u64 | CharVal u8 | StringVal char_ptr | String8Val mem

record fix_field =
  ff_tag :: i32
  ff_type :: fix_type
  ff_value :: fix_value

definition FIX_INT_FIELD :: "i32 \<Rightarrow> i64 \<Rightarrow> fix_field" where
  "FIX_INT_FIELD t v = \<lparr>ff_tag = t, ff_type = FIX_TYPE_INT, ff_value = IntVal v\<rparr>"

definition FIX_STRING_FIELD :: "i32 \<Rightarrow> char_ptr \<Rightarrow> fix_field" where
  "FIX_STRING_FIELD t s = \<lparr>ff_tag = t, ff_type = FIX_TYPE_STRING, ff_value = StringVal s\<rparr>"

definition FIX_FLOAT_FIELD :: "i32 \<Rightarrow> u64 \<Rightarrow> fix_field" where
  "FIX_FLOAT_FIELD t v = \<lparr>ff_tag = t, ff_type = FIX_TYPE_FLOAT, ff_value = FloatVal v\<rparr>"

definition FIX_CHECKSUM_FIELD :: "i32 \<Rightarrow> i64 \<Rightarrow> fix_field" where
  "FIX_CHECKSUM_FIELD t v = \<lparr>ff_tag = t, ff_type = FIX_TYPE_CHECKSUM, ff_value = IntVal v\<rparr>"

definition FIX_CHAR_FIELD :: "i32 \<Rightarrow> u8 \<Rightarrow> fix_field" where
  "FIX_CHAR_FIELD t v = \<lparr>ff_tag = t, ff_type = FIX_TYPE_CHAR, ff_value = CharVal v\<rparr>"

definition FIX_MAX_FIELD_NUMBER :: ulong where "FIX_MAX_FIELD_NUMBER = 48"
definition FIX_MAX_MESSAGE_SIZE :: ulong where "FIX_MAX_MESSAGE_SIZE = 1280"
definition FIX_PARSE_FLAG_NO_CSUM :: ulong where "FIX_PARSE_FLAG_NO_CSUM = 1"
definition FIX_PARSE_FLAG_NO_TYPE :: ulong where "FIX_PARSE_FLAG_NO_TYPE = 2"
definition FIX_SEND_FLAG_PRESERVE_MSG_NUM :: ulong where "FIX_SEND_FLAG_PRESERVE_MSG_NUM = 1"
definition FIX_SEND_FLAG_PRESERVE_BUFFER :: ulong where "FIX_SEND_FLAG_PRESERVE_BUFFER = 2"

text \<open>\<open>fields\<close> is the array of 48 fields allocated by \<open>fix_message_new\<close>; \<open>iov0\<close> is the part of the
  receive buffer that the parser took.\<close>

record fix_message =
  fm_type :: fix_msg_type
  begin_string :: char_ptr
  body_length :: ulong
  msg_type :: char_ptr
  sender_comp_id :: char_ptr
  target_comp_id :: char_ptr
  msg_seq_num :: ulong
  check_sum :: char_ptr
  str_now :: char_ptr
  fm_nr_fields :: ulong
  fm_fields :: "fix_field list"
  iov0 :: "ptr \<times> ulong"

text \<open>What \<open>calloc\<close> leaves in a new message; the null pointers are arrays without a character.\<close>

definition fix_message_new :: fix_message where
  "fix_message_new = \<lparr>fm_type = FIX_MSG_TYPE_HEARTBEAT, begin_string = Str [], body_length = 0,
     msg_type = Str [], sender_comp_id = Str [], target_comp_id = Str [], msg_seq_num = 0,
     check_sum = Str [], str_now = Str [], fm_nr_fields = 0,
     fm_fields = replicate 48 (FIX_INT_FIELD 0 0), iov0 = (0, 0)\<rparr>"

text \<open>The tags of \<open>enum fix_tag\<close> that the parser and the printer name.\<close>

definition BeginString :: i32 where "BeginString = 8"
definition BodyLength :: i32 where "BodyLength = 9"
definition CheckSum :: i32 where "CheckSum = 10"
definition MsgSeqNum :: i32 where "MsgSeqNum = 34"
definition MsgType :: i32 where "MsgType = 35"
definition SenderCompID :: i32 where "SenderCompID = 49"
definition SendingTime :: i32 where "SendingTime = 52"
definition TargetCompID :: i32 where "TargetCompID = 56"

text \<open>\<open>fix_tag_type\<close>: the integers, the floats and the few others; everything else, the tags that the
  code lists as strings and the ones it does not know, is a string.\<close>

definition fix_tag_type :: "i32 \<Rightarrow> fix_type" where
  "fix_tag_type tag =
     (if tag = 10 then FIX_TYPE_CHECKSUM
      else if tag \<in> {369, 1023, 7, 45, 16, 36, 83, 103} then FIX_TYPE_INT
      else if tag = 34 then FIX_TYPE_MSGSEQNUM
      else if tag \<in> {271, 32, 151, 270, 38, 14, 31, 6, 44} then FIX_TYPE_FLOAT
      else if tag = 442 then FIX_TYPE_CHAR
      else FIX_TYPE_STRING)"

subsection \<open>Numbers\<close>

text \<open>The characters from a pointer on, up to the end of the array.\<close>

definition mem_from :: "mem \<Rightarrow> ptr \<Rightarrow> u8 list option" where
  "mem_from m p = (if 0 \<le> p \<and> p \<le> int (length m) then Some (drop (nat p) m) else None)"

definition is_digit :: "u8 \<Rightarrow> bool" where
  "is_digit c \<longleftrightarrow> 48 \<le> c \<and> c \<le> 57"

text \<open>The loops of \<open>fix_atoi64\<close> and \<open>fix_uatoi\<close>, on the characters from \<open>p\<close> on; the second result counts
  the digits.  \<open>'w\<close> is the width of the accumulator.\<close>

fun digits_loop :: "u8 list \<Rightarrow> 'w::len word \<Rightarrow> ('w word \<times> nat) option" where
  "digits_loop [] ret = None"
| "digits_loop (c # cs) ret =
     (if is_digit c
      then map_option (map_prod id Suc) (digits_loop cs (ret * 10 + (ucast c - 48)))
      else Some (ret, 0))"

definition fix_atoi64 :: "mem \<Rightarrow> ptr \<Rightarrow> (i64 \<times> ptr) option" where
  "fix_atoi64 m p = do {
     c \<leftarrow> mem_get m p;
     (let neg = (c = 45); p = (if neg then p + 1 else p) in do {
        cs \<leftarrow> mem_from m p;
        (ret, n) \<leftarrow> digits_loop cs 0;
        Some (if neg then - ret else ret, p + int n) }) }"

definition fix_uatoi :: "mem \<Rightarrow> ptr \<Rightarrow> (i32 \<times> ptr) option" where
  "fix_uatoi m p = do {
     cs \<leftarrow> mem_from m p;
     (ret, n) \<leftarrow> digits_loop cs 0;
     Some (ret, p + int n) }"

definition type_of_char :: "u8 \<Rightarrow> fix_msg_type" where
  "type_of_char c =
     (if c = 48 then FIX_MSG_TYPE_HEARTBEAT
      else if c = 49 then FIX_MSG_TYPE_TEST_REQUEST
      else if c = 50 then FIX_MSG_TYPE_RESEND_REQUEST
      else if c = 51 then FIX_MSG_TYPE_REJECT
      else if c = 52 then FIX_MSG_TYPE_SEQUENCE_RESET
      else if c = 53 then FIX_MSG_TYPE_LOGOUT
      else if c = 56 then FIX_MSG_TYPE_EXECUTION_REPORT
      else if c = 57 then FIX_MSG_ORDER_CANCEL_REJECT
      else if c = 65 then FIX_MSG_TYPE_LOGON
      else if c = 68 then FIX_MSG_TYPE_NEW_ORDER_SINGLE
      else if c = 70 then FIX_MSG_ORDER_CANCEL_REQUEST
      else if c = 71 then FIX_MSG_ORDER_CANCEL_REPLACE
      else if c = 87 then FIX_MSG_TYPE_SNAPSHOT_REFRESH
      else if c = 88 then FIX_MSG_TYPE_INCREMENT_REFRESH
      else if c = 104 then FIX_MSG_TYPE_SESSION_STATUS
      else if c = 102 then FIX_MSG_TYPE_SECURITY_STATUS
      else if c = 113 then FIX_MSG_ORDER_MASS_CANCEL_REQUEST
      else if c = 114 then FIX_MSG_ORDER_MASS_CANCEL_REPORT
      else if c = 82 then FIX_MSG_QUOTE_REQUEST
      else if c = 99 then FIX_MSG_SECURITY_DEFINITION_REQUEST
      else if c = 115 then FIX_MSG_NEW_ORDER_CROSS
      else if c = 105 then FIX_MSG_MASS_QUOTE
      else if c = 90 then FIX_MSG_QUOTE_CANCEL
      else if c = 100 then FIX_MSG_SECURITY_DEFINITION
      else if c = 98 then FIX_MSG_QUOTE_ACKNOWLEDGEMENT
      else FIX_MSG_TYPE_UNKNOWN)"

definition fix_msg_type_parse :: "mem \<Rightarrow> ptr \<Rightarrow> u8 \<Rightarrow> fix_msg_type option" where
  "fix_msg_type_parse m s delim = do {
     s1 \<leftarrow> mem_get m (s + 1);
     (if s1 \<noteq> delim then do {
        s2 \<leftarrow> mem_get m (s + 2);
        (if s2 \<noteq> delim then Some FIX_MSG_TYPE_UNKNOWN
         else do {
           s0 \<leftarrow> mem_get m s;
           Some (if s0 = 65 \<and> s1 = 70 then FIX_MSG_ORDER_MASS_STATUS_REQUEST
                 else if s0 = 67 \<and> s1 = 65 then FIX_MSG_ORDER_MASS_ACTION_REQUEST
                 else if s0 = 66 \<and> s1 = 90 then FIX_MSG_ORDER_MASS_ACTION_REPORT
                 else FIX_MSG_TYPE_UNKNOWN) }) }
      else do { s0 \<leftarrow> mem_get m s; Some (type_of_char s0) }) }"

subsection \<open>Fields of the input\<close>

definition parse_tag :: "buffer \<Rightarrow> ((fix_err + i32) \<times> buffer) option" where
  "parse_tag b =
     (let start = buffer_start b in do {
        (delim, b) \<leftarrow> buffer_find b 61;
        (case delim of
           None \<Rightarrow> Some (Inl FIX_MSG_STATE_PARTIAL, b)
         | Some d \<Rightarrow> do {
             c \<leftarrow> mem_get (data b) d;
             (if c \<noteq> 61 then Some (Inl FIX_MSG_STATE_PARTIAL, b)
              else do {
                (ret, e) \<leftarrow> fix_uatoi (data b) start;
                (if e \<noteq> d then Some (Inl FIX_MSG_STATE_GARBLED, b)
                 else Some (Inr ret, buffer_advance b 1)) }) }) })"

definition parse_value :: "buffer \<Rightarrow> ((fix_err + ptr) \<times> buffer) option" where
  "parse_value b =
     (let start = buffer_start b in do {
        (e, b) \<leftarrow> buffer_find b 1;
        (case e of
           None \<Rightarrow> Some (Inl FIX_MSG_STATE_PARTIAL, b)
         | Some p \<Rightarrow> do {
             c \<leftarrow> mem_get (data b) p;
             (if c \<noteq> 1 then Some (Inl FIX_MSG_STATE_PARTIAL, b)
              else Some (Inr start, buffer_advance b 1)) }) })"

definition next_tag :: "buffer \<Rightarrow> buffer option" where
  "next_tag b = do {
     (delim, b) \<leftarrow> buffer_find b 1;
     (case delim of
        None \<Rightarrow> Some b
      | Some d \<Rightarrow> do {
          c \<leftarrow> mem_get (data b) d;
          Some (if c \<noteq> 1 then b else buffer_advance b 1) }) }"

definition match_field :: "buffer \<Rightarrow> i32 \<Rightarrow> ((fix_err + ptr) \<times> buffer) option" where
  "match_field b tag = do {
     (r, b) \<leftarrow> parse_tag b;
     (case r of
        Inl e \<Rightarrow> do { b \<leftarrow> next_tag b; Some (Inl e, b) }
      | Inr ptag \<Rightarrow>
          if ptag \<noteq> tag then do { b \<leftarrow> next_tag b; Some (Inl FIX_MSG_STATE_GARBLED, b) }
          else parse_value b) }"

definition parse_field :: "buffer \<Rightarrow> ((fix_err + i32 \<times> ptr) \<times> buffer) option" where
  "parse_field b = do {
     (r, b) \<leftarrow> parse_tag b;
     (case r of
        Inl e \<Rightarrow> do { b \<leftarrow> next_tag b; Some (Inl e, b) }
      | Inr tag \<Rightarrow> do {
          (r, b) \<leftarrow> parse_value b;
          Some (map_sum id (Pair tag) r, b) }) }"

subsection \<open>Messages of the input\<close>

text \<open>\<open>retry:\<close> of \<open>rest_of_message\<close>.  Nothing bounds \<open>nr_fields\<close>: storing into the array of 48 fields past
  its end is a fault.  Each field takes at least two bytes, so the size of the buffer is enough fuel.\<close>

definition store_field :: "fix_message \<Rightarrow> ulong \<Rightarrow> fix_field \<Rightarrow> fix_message option" where
  "store_field msg n f = do {
     fs \<leftarrow> mem_put (fm_fields msg) (uint n) f;
     Some (msg\<lparr>fm_fields := fs\<rparr>) }"

fun rest_loop :: "(i32 \<Rightarrow> fix_type) \<Rightarrow> (u8 list \<Rightarrow> u64) \<Rightarrow> nat \<Rightarrow> ulong \<Rightarrow> fix_message \<Rightarrow> buffer
    \<Rightarrow> (fix_message \<times> buffer) option" where
  "rest_loop tag_type strtod 0 n msg b = None"
| "rest_loop tag_type strtod (Suc fuel) n msg b = do {
     (r, b) \<leftarrow> parse_field b;
     (case r of
        Inl e \<Rightarrow> Some (msg, b)
      | Inr (tag, p) \<Rightarrow>
          (case tag_type tag of
             FIX_TYPE_INT \<Rightarrow> do {
               (v, _) \<leftarrow> fix_atoi64 (data b) p;
               msg \<leftarrow> store_field msg n (FIX_INT_FIELD tag v);
               rest_loop tag_type strtod fuel (n + 1) msg b }
           | FIX_TYPE_FLOAT \<Rightarrow> do {
               cs \<leftarrow> mem_from (data b) p;
               msg \<leftarrow> store_field msg n (FIX_FLOAT_FIELD tag (strtod cs));
               rest_loop tag_type strtod fuel (n + 1) msg b }
           | FIX_TYPE_CHAR \<Rightarrow> do {
               c \<leftarrow> mem_get (data b) p;
               msg \<leftarrow> store_field msg n (FIX_CHAR_FIELD tag c);
               rest_loop tag_type strtod fuel (n + 1) msg b }
           | FIX_TYPE_STRING \<Rightarrow> do {
               msg \<leftarrow> store_field msg n (FIX_STRING_FIELD tag (Rx p));
               rest_loop tag_type strtod fuel (n + 1) msg b }
           | FIX_TYPE_CHECKSUM \<Rightarrow> Some (msg\<lparr>fm_nr_fields := n\<rparr>, b)
           | FIX_TYPE_MSGSEQNUM \<Rightarrow> do {
               (v, _) \<leftarrow> fix_uatoi (data b) p;
               rest_loop tag_type strtod fuel n (msg\<lparr>msg_seq_num := scast v\<rparr>) b }
           | FIX_TYPE_STRING_8 \<Rightarrow> rest_loop tag_type strtod fuel n msg b)) }"

definition rest_of_message :: "(i32 \<Rightarrow> fix_type) \<Rightarrow> (u8 list \<Rightarrow> u64) \<Rightarrow> fix_message \<Rightarrow> buffer
    \<Rightarrow> (fix_message \<times> buffer) option" where
  "rest_of_message tag_type strtod msg b =
     rest_loop tag_type strtod (Suc (unat (buffer_size b))) 0 (msg\<lparr>fm_nr_fields := 0\<rparr>) b"

text \<open>Pointers of the parsed message, which all point into the receive buffer.\<close>

fun rx_ptr :: "char_ptr \<Rightarrow> ptr option" where
  "rx_ptr (Rx p) = Some p"
| "rx_ptr (Str m) = None"

definition verify_checksum :: "fix_message \<Rightarrow> buffer \<Rightarrow> bool option" where
  "verify_checksum msg b = do {
     cs \<leftarrow> rx_ptr (check_sum msg);
     bs \<leftarrow> rx_ptr (begin_string msg);
     (cksum, _) \<leftarrow> fix_uatoi (data b) cs;
     actual \<leftarrow> buffer_sum_range (data b) (bs - 2) (cs - 3);
     Some (ucast actual = cksum) }"

definition checksum :: "fix_message \<Rightarrow> buffer \<Rightarrow> ulong \<Rightarrow> ((fix_err + unit) \<times> fix_message \<times> buffer) option" where
  "checksum msg b flags = do {
     mt \<leftarrow> rx_ptr (msg_type msg);
     (let start = buffer_start b; offset = (of_int (start - (mt - 3)) :: i32) in
      if buffer_size b + scast offset < body_length msg + 7
      then Some (Inl FIX_MSG_STATE_PARTIAL, msg, b)
      else if flags AND FIX_PARSE_FLAG_NO_CSUM \<noteq> 0 then Some (Inr (), msg, b)
      else do {
        (r, b) \<leftarrow> match_field (buffer_advance b (body_length msg - scast offset)) CheckSum;
        (case r of
           Inl e \<Rightarrow> Some (Inl e, msg, b)
         | Inr p \<Rightarrow>
             let msg = msg\<lparr>check_sum := Rx p\<rparr> in do {
               ok \<leftarrow> verify_checksum msg b;
               (if \<not> ok then Some (Inl FIX_MSG_STATE_GARBLED, msg, b)
                else Some (Inr (), msg, buffer_advance b (of_int (start - buffer_start b)))) }) }) }"

definition fix_message_type_is :: "fix_message \<Rightarrow> fix_msg_type \<Rightarrow> bool" where
  "fix_message_type_is msg t \<longleftrightarrow> fm_type msg = t"

definition parse_msg_type :: "fix_message \<Rightarrow> buffer \<Rightarrow> ulong \<Rightarrow> ((fix_err + unit) \<times> fix_message \<times> buffer) option" where
  "parse_msg_type msg b flags = do {
     (r, b) \<leftarrow> match_field b MsgType;
     (case r of
        Inl e \<Rightarrow> Some (Inl e, msg, b)
      | Inr p \<Rightarrow>
          let msg = msg\<lparr>msg_type := Rx p\<rparr> in
          if flags AND FIX_PARSE_FLAG_NO_TYPE = 0 then do {
            t \<leftarrow> fix_msg_type_parse (data b) p 1;
            (let msg = msg\<lparr>fm_type := t\<rparr>
             in Some (if fix_message_type_is msg FIX_MSG_TYPE_UNKNOWN then Inl FIX_MSG_STATE_GARBLED
                      else Inr (), msg, b)) }
          else Some (Inr (), msg\<lparr>fm_type := FIX_MSG_TYPE_UNKNOWN\<rparr>, b)) }"

definition parse_body_length :: "fix_message \<Rightarrow> buffer \<Rightarrow> ((fix_err + unit) \<times> fix_message \<times> buffer) option" where
  "parse_body_length msg b = do {
     (r, b) \<leftarrow> match_field b BodyLength;
     (case r of
        Inl e \<Rightarrow> Some (Inl e, msg, b)
      | Inr p \<Rightarrow> do {
          (len, _) \<leftarrow> fix_uatoi (data b) p;
          Some (if len \<le>s 0 \<or> FIX_MAX_MESSAGE_SIZE < scast len then Inl FIX_MSG_STATE_GARBLED else Inr (),
                msg\<lparr>body_length := scast len\<rparr>, b) }) }"

definition parse_begin_string :: "fix_message \<Rightarrow> buffer \<Rightarrow> ((fix_err + unit) \<times> fix_message \<times> buffer) option" where
  "parse_begin_string msg b = do {
     (r, b) \<leftarrow> match_field b BeginString;
     (case r of
        Inl e \<Rightarrow> Some (Inl e, msg, b)
      | Inr p \<Rightarrow> Some (Inr (), msg\<lparr>begin_string := Rx p\<rparr>, b)) }"

definition first_three_fields :: "fix_message \<Rightarrow> buffer \<Rightarrow> ulong \<Rightarrow> ((fix_err + unit) \<times> fix_message \<times> buffer) option" where
  "first_three_fields msg b flags = do {
     (r, msg, b) \<leftarrow> parse_begin_string msg b;
     (case r of
        Inl e \<Rightarrow> Some (Inl e, msg, b)
      | Inr _ \<Rightarrow> do {
          (r, msg, b) \<leftarrow> parse_body_length msg b;
          (case r of
             Inl e \<Rightarrow> Some (Inl e, msg, b)
           | Inr _ \<Rightarrow> parse_msg_type msg b flags) }) }"

text \<open>One attempt: \<open>first_three_fields\<close>, \<open>checksum\<close> and \<open>rest_of_message\<close> in turn.\<close>

definition parse_attempt :: "(i32 \<Rightarrow> fix_type) \<Rightarrow> (u8 list \<Rightarrow> u64) \<Rightarrow> fix_message \<Rightarrow> buffer \<Rightarrow> ulong
    \<Rightarrow> ((fix_err + unit) \<times> fix_message \<times> buffer) option" where
  "parse_attempt tag_type strtod msg b flags =
     (let start = buffer_start b in
      if buffer_size b = 0 then Some (Inl FIX_MSG_STATE_PARTIAL, msg, b)
      else do {
        (r, msg, b) \<leftarrow> first_three_fields msg b flags;
        (case r of
           Inl e \<Rightarrow> Some (Inl e, msg, b)
         | Inr _ \<Rightarrow> do {
             (r, msg, b) \<leftarrow> checksum msg b flags;
             (case r of
                Inl e \<Rightarrow> Some (Inl e, msg, b)
              | Inr _ \<Rightarrow> do {
                  (msg, b) \<leftarrow> rest_of_message tag_type strtod msg b;
                  Some (Inr (), msg\<lparr>iov0 := (start, of_int (buffer_start b - start))\<rparr>, b) }) }) })"

text \<open>\<open>retry:\<close> of \<open>fix_message_parse\<close>: what is garbled is skipped and the parse starts again behind it;
  when the message is incomplete, the input goes back to where the last attempt began.  Each retry
  has consumed a byte, so the size of the buffer is enough fuel.\<close>

fun fix_parse_loop :: "(i32 \<Rightarrow> fix_type) \<Rightarrow> (u8 list \<Rightarrow> u64) \<Rightarrow> nat \<Rightarrow> fix_message \<Rightarrow> buffer \<Rightarrow> ulong
    \<Rightarrow> (bool \<times> fix_message \<times> buffer) option" where
  "fix_parse_loop tag_type strtod 0 msg b flags = None"
| "fix_parse_loop tag_type strtod (Suc fuel) msg b flags =
     (let start = buffer_start b in do {
        (r, msg, b) \<leftarrow> parse_attempt tag_type strtod msg b flags;
        (case r of
           Inr _ \<Rightarrow> Some (True, msg, b)
         | Inl e \<Rightarrow>
             if e \<noteq> FIX_MSG_STATE_PARTIAL then fix_parse_loop tag_type strtod fuel msg b flags
             else Some (False, msg, buffer_advance b (of_int (start - buffer_start b)))) })"

definition fix_message_parse :: "(i32 \<Rightarrow> fix_type) \<Rightarrow> (u8 list \<Rightarrow> u64) \<Rightarrow> fix_message \<Rightarrow> buffer \<Rightarrow> ulong
    \<Rightarrow> (bool \<times> fix_message \<times> buffer) option" where
  "fix_message_parse tag_type strtod msg b flags =
     fix_parse_loop tag_type strtod (Suc (unat (buffer_size b))) msg b flags"

subsection \<open>Accessors\<close>

definition fix_get_field_count :: "fix_message \<Rightarrow> i32" where
  "fix_get_field_count msg = ucast (fm_nr_fields msg)"

text \<open>Field pointers are indices into the array; the \<open>int\<close> index is compared as an \<open>unsigned long\<close>.\<close>

definition fix_get_field_at :: "fix_message \<Rightarrow> i32 \<Rightarrow> ptr option" where
  "fix_get_field_at msg i = (if scast i < fm_nr_fields msg then Some (sint i) else None)"

fun get_field_loop :: "fix_field list \<Rightarrow> i32 \<Rightarrow> nat \<Rightarrow> nat \<Rightarrow> ptr option option" where
  "get_field_loop fs tag i 0 = Some None"
| "get_field_loop fs tag i (Suc n) = do {
     f \<leftarrow> mem_get fs (int i);
     (if ff_tag f = tag then Some (Some (int i)) else get_field_loop fs tag (i + 1) n) }"

definition fix_get_field :: "fix_message \<Rightarrow> i32 \<Rightarrow> ptr option option" where
  "fix_get_field msg tag = get_field_loop (fm_fields msg) tag 0 (unat (fm_nr_fields msg))"

text \<open>The members of the union; reading another member than the one last written is a fault here.\<close>

fun int_of_value :: "fix_value \<Rightarrow> i64 option" where
  "int_of_value (IntVal v) = Some v"
| "int_of_value v = None"

fun float_of_value :: "fix_value \<Rightarrow> u64 option" where
  "float_of_value (FloatVal v) = Some v"
| "float_of_value v = None"

fun char_of_value :: "fix_value \<Rightarrow> u8 option" where
  "char_of_value (CharVal v) = Some v"
| "char_of_value v = None"

fun string_of_value :: "fix_value \<Rightarrow> char_ptr option" where
  "string_of_value (StringVal p) = Some p"
| "string_of_value v = None"

definition get_value :: "(fix_value \<Rightarrow> 'v option) \<Rightarrow> fix_message \<Rightarrow> i32 \<Rightarrow> 'v \<Rightarrow> 'v option" where
  "get_value member msg tag dflt = do {
     p \<leftarrow> fix_get_field msg tag;
     (case p of
        None \<Rightarrow> Some dflt
      | Some i \<Rightarrow> do { f \<leftarrow> mem_get (fm_fields msg) i; member (ff_value f) }) }"

definition fix_get_int :: "fix_message \<Rightarrow> i32 \<Rightarrow> i64 \<Rightarrow> i64 option" where
  "fix_get_int = get_value int_of_value"

definition fix_get_float :: "fix_message \<Rightarrow> i32 \<Rightarrow> u64 \<Rightarrow> u64 option" where
  "fix_get_float = get_value float_of_value"

definition fix_get_char :: "fix_message \<Rightarrow> i32 \<Rightarrow> u8 \<Rightarrow> u8 option" where
  "fix_get_char = get_value char_of_value"

text \<open>The characters a pointer leads to; \<open>rx\<close> is the memory of the receive buffer.\<close>

fun deref :: "mem \<Rightarrow> char_ptr \<Rightarrow> u8 list option" where
  "deref rx (Rx p) = mem_from rx p"
| "deref rx (Str m) = Some m"

text \<open>\<open>memchr\<close> looks at \<open>len\<close> characters at most, and stops at the first match.\<close>

fun c_memchr :: "u8 list \<Rightarrow> u8 \<Rightarrow> nat \<Rightarrow> nat option option" where
  "c_memchr cs c 0 = Some None"
| "c_memchr [] c (Suc n) = None"
| "c_memchr (x # cs) c (Suc n) =
     (if x = c then Some (Some 0) else map_option (map_option Suc) (c_memchr cs c n))"

definition fix_get_string :: "mem \<Rightarrow> fix_field \<Rightarrow> mem \<Rightarrow> ulong \<Rightarrow> (bool \<times> mem) option" where
  "fix_get_string rx f buf len = do {
     p \<leftarrow> string_of_value (ff_value f);
     cs \<leftarrow> deref rx p;
     e \<leftarrow> c_memchr cs 1 (unat len);
     (case e of
        None \<Rightarrow> Some (False, buf)
      | Some count \<Rightarrow>
          if unat len < count then Some (False, buf)
          else do {
            (let s = takeWhile (\<lambda>c. c \<noteq> 0) (take count cs) in do {
               buf \<leftarrow> mem_store buf 0 (s @ replicate (count - length s) 0);
               buf \<leftarrow> mem_put buf (int count) 0;
               Some (True, buf) }) }) }"

definition fix_message_add_field :: "fix_message \<Rightarrow> fix_field \<Rightarrow> fix_message option" where
  "fix_message_add_field msg f =
     (if fm_nr_fields msg < FIX_MAX_FIELD_NUMBER then do {
        msg \<leftarrow> store_field msg (fm_nr_fields msg) f;
        Some (msg\<lparr>fm_nr_fields := fm_nr_fields msg + 1\<rparr>) }
      else Some msg)"

subsection \<open>Printing messages\<close>

text \<open>\<open>buffer->end += print(value, buffer_end(buffer))\<close>\<close>

definition buffer_print :: "buffer \<Rightarrow> (mem \<Rightarrow> ptr \<Rightarrow> (mem \<times> i32) option) \<Rightarrow> buffer option" where
  "buffer_print b pr = do {
     (m, n) \<leftarrow> pr (data b) (buffer_end b);
     Some (b\<lparr>data := m, b_end := b_end b + scast n\<rparr>) }"

text \<open>\<open>dtoa2\<close> gives the text that \<open>modp_dtoa2\<close> writes, followed by a NUL.\<close>

definition print_dtoa2 :: "(u64 \<Rightarrow> u8 list) \<Rightarrow> u64 \<Rightarrow> mem \<Rightarrow> ptr \<Rightarrow> (mem \<times> i32) option" where
  "print_dtoa2 dtoa2 v m s = do {
     m \<leftarrow> mem_store m s (dtoa2 v @ [0]);
     Some (m, of_nat (length (dtoa2 v))) }"

definition unparse_value :: "(u64 \<Rightarrow> u8 list) \<Rightarrow> mem \<Rightarrow> fix_field \<Rightarrow> buffer \<Rightarrow> buffer option" where
  "unparse_value dtoa2 rx f b =
     (case ff_type f of
        FIX_TYPE_STRING \<Rightarrow> do {
          p \<leftarrow> string_of_value (ff_value f);
          cs \<leftarrow> deref rx p;
          n \<leftarrow> c_strlen cs;
          buffer_puts b (take n cs) }
      | FIX_TYPE_STRING_8 \<Rightarrow>
          (case ff_value f of
             String8Val m \<Rightarrow> buffer_puts b (takeWhile (\<lambda>c. c \<noteq> 0) (take 8 m))
           | _ \<Rightarrow> None)
      | FIX_TYPE_CHAR \<Rightarrow> do { c \<leftarrow> char_of_value (ff_value f); buffer_put b c }
      | FIX_TYPE_FLOAT \<Rightarrow> do { v \<leftarrow> float_of_value (ff_value f); buffer_print b (print_dtoa2 dtoa2 v) }
      | FIX_TYPE_INT \<Rightarrow> do { v \<leftarrow> int_of_value (ff_value f); buffer_print b (i64toa v) }
      | FIX_TYPE_CHECKSUM \<Rightarrow> do { v \<leftarrow> int_of_value (ff_value f); buffer_print b (checksumtoa (ucast v)) }
      | FIX_TYPE_MSGSEQNUM \<Rightarrow> Some b)"

definition fix_field_unparse :: "(u64 \<Rightarrow> u8 list) \<Rightarrow> mem \<Rightarrow> fix_field \<Rightarrow> buffer \<Rightarrow> buffer option" where
  "fix_field_unparse dtoa2 rx f b = do {
     b \<leftarrow> buffer_print b (uitoa (ff_tag f));
     b \<leftarrow> buffer_put b 61;
     b \<leftarrow> unparse_value dtoa2 rx f b;
     buffer_put b 1 }"

fun unparse_fields :: "(u64 \<Rightarrow> u8 list) \<Rightarrow> mem \<Rightarrow> fix_field list \<Rightarrow> buffer \<Rightarrow> buffer option" where
  "unparse_fields dtoa2 rx [] b = Some b"
| "unparse_fields dtoa2 rx (f # fs) b = do {
     b \<leftarrow> fix_field_unparse dtoa2 rx f b;
     unparse_fields dtoa2 rx fs b }"

text \<open>\<open>strncpy(buf, self->str_now, 64)\<close> into a local array of 64 characters.\<close>

definition copy_str_now :: "mem \<Rightarrow> char_ptr \<Rightarrow> mem option" where
  "copy_str_now rx p = do {
     cs \<leftarrow> deref rx p;
     (let s = take 64 (takeWhile (\<lambda>c. c \<noteq> 0) cs) in
      if length s < 64 \<and> 0 \<notin> set cs then None else Some (s @ replicate (64 - length s) 0)) }"

definition header_fields :: "fix_message \<Rightarrow> mem \<Rightarrow> fix_field list option" where
  "header_fields msg now = do {
     t \<leftarrow> (if fm_type msg \<noteq> FIX_MSG_TYPE_UNKNOWN
          then map_option (\<lambda>s. Str (s @ [0])) (fix_msg_types (fm_type msg))
          else Some (msg_type msg));
     Some [FIX_STRING_FIELD MsgType t, FIX_STRING_FIELD SenderCompID (sender_comp_id msg),
           FIX_STRING_FIELD TargetCompID (target_comp_id msg), FIX_INT_FIELD MsgSeqNum (msg_seq_num msg),
           FIX_STRING_FIELD SendingTime (Str now)] }"

definition fix_message_unparse :: "(u64 \<Rightarrow> u8 list) \<Rightarrow> mem \<Rightarrow> fix_message \<Rightarrow> buffer \<Rightarrow> buffer
    \<Rightarrow> (buffer \<times> buffer) option" where
  "fix_message_unparse dtoa2 rx msg head_buf body_buf = do {
     now \<leftarrow> copy_str_now rx (str_now msg);
     hs \<leftarrow> header_fields msg now;
     body_buf \<leftarrow> unparse_fields dtoa2 rx hs body_buf;
     fs \<leftarrow> mem_load (fm_fields msg) 0 (unat (fm_nr_fields msg));
     body_buf \<leftarrow> unparse_fields dtoa2 rx fs body_buf;
     head_buf \<leftarrow> fix_field_unparse dtoa2 rx (FIX_STRING_FIELD BeginString (begin_string msg)) head_buf;
     head_buf \<leftarrow> fix_field_unparse dtoa2 rx (FIX_INT_FIELD BodyLength (buffer_size body_buf)) head_buf;
     c1 \<leftarrow> buffer_sum head_buf;
     c2 \<leftarrow> buffer_sum body_buf;
     (let cksum = (ucast c1 + ucast c2 :: ulong) in do {
        body_buf \<leftarrow> fix_field_unparse dtoa2 rx (FIX_CHECKSUM_FIELD CheckSum (cksum mod 256)) body_buf;
        Some (head_buf, body_buf) }) }"

text \<open>\<open>sendmsg\<close> is \<open>io_sendmsg\<close>, applied to the bytes of the two I/O vectors.\<close>

definition fix_message_send :: "(u64 \<Rightarrow> u8 list) \<Rightarrow> mem \<Rightarrow> fix_message \<Rightarrow> buffer \<Rightarrow> buffer
    \<Rightarrow> (u8 list list \<Rightarrow> i64) \<Rightarrow> ulong \<Rightarrow> (i32 \<times> buffer \<times> buffer) option" where
  "fix_message_send dtoa2 rx msg head_buf body_buf sendmsg flags = do {
     (head_buf, body_buf) \<leftarrow>
       (if flags AND FIX_SEND_FLAG_PRESERVE_BUFFER = 0
        then fix_message_unparse dtoa2 rx msg head_buf body_buf else Some (head_buf, body_buf));
     v0 \<leftarrow> buffer_to_iovec head_buf;
     v1 \<leftarrow> buffer_to_iovec body_buf;
     (let ret = (ucast (sendmsg [v0, v1]) :: i32); msg_size = (of_nat (length v0) + of_nat (length v1) :: ulong)
      in Some (if 0 \<le>s ret then ucast (msg_size - scast ret) else ret, head_buf, body_buf)) }"

end
