(* ===== verification/Fix_Parse.thy ===== *)
theory Fix_Parse
  imports Fix_Message
begin

text \<open>
  The FIX parser of lib/proto/fix_message.c on the bytes of its buffer: what each parsing step
  consumes and answers, that a parse of any input ends without a fault and where it leaves the
  buffer, and what it makes of a well-formed message.
\<close>

subsection \<open>Decimal numbers\<close>

definition dec_val :: "u8 list \<Rightarrow> 'w::len word" where
  "dec_val ds = foldl (\<lambda>r c. r * 10 + (ucast c - 48)) 0 ds"

lemma digits_loop_run:
  "list_all is_digit ds \<Longrightarrow> \<not> is_digit c \<Longrightarrow>
     digits_loop (ds @ c # cs) r = Some (foldl (\<lambda>r c. r * 10 + (ucast c - 48)) r ds, length ds)"
  by (induction ds arbitrary: r) auto

lemma digits_loop_val:
  "list_all is_digit ds \<Longrightarrow> \<not> is_digit c \<Longrightarrow> digits_loop (ds @ c # cs) 0 = Some (dec_val ds, length ds)"
  by (simp add: digits_loop_run dec_val_def)

lemma digits_loop_stops:
  assumes "c \<in> set cs" "\<not> is_digit c"
  shows "\<exists>v n. digits_loop cs r = Some (v, n) \<and> n = length (takeWhile is_digit cs)"
  using assms by (induction cs arbitrary: r) auto

lemma not_digit [simp]: "\<not> is_digit 1" "\<not> is_digit 61" "\<not> is_digit 45" "\<not> is_digit 0"
  by (simp_all add: is_digit_def word_le_nat_alt)

lemma dec_digits_all: "list_all is_digit (dec_digits n)"
  using dec_digits_are_digits by (auto simp: list_all_iff is_digit_def)

lemma ucast_digit: "k < 10 \<Longrightarrow> (ucast (of_nat (48 + k) :: u8) - 48 :: 'w::len word) = of_nat k"
proof -
  assume "k < 10"
  then have "unat (of_nat (48 + k) :: u8) = 48 + k" by (rule unat_digit)
  then have "(ucast (of_nat (48 + k) :: u8) :: 'w word) = of_nat (48 + k)"
    by (metis of_nat_unat)
  then show ?thesis by simp
qed

lemma dec_val_digits: "dec_val (dec_digits n) = of_nat n"
proof (induction n rule: less_induct)
  case (less n)
  show ?case
  proof (cases "n < 10")
    case True
    then show ?thesis by (simp add: dec_digits_small dec_val_def ucast_digit del: of_nat_add)
  next
    case False
    then have "dec_val (dec_digits n) = dec_val (dec_digits (n div 10)) * 10 + (of_nat (n mod 10) :: 'a word)"
      by (simp add: dec_digits_step dec_val_def ucast_digit del: of_nat_add)
    also have "dec_val (dec_digits (n div 10)) = (of_nat (n div 10) :: 'a word)"
      using False by (intro less) simp
    also have "of_nat (n div 10) * 10 + of_nat (n mod 10) = (of_nat (n div 10 * 10 + n mod 10) :: 'a word)"
      by (simp only: of_nat_add of_nat_mult of_nat_numeral)
    finally show ?thesis by (simp only: div_mult_mod_eq)
  qed
qed

lemma dec_val_short:
  assumes "list_all is_digit ds" "length ds < 2" "4 \<le> LENGTH('w::len)"
  shows "unat (dec_val ds :: 'w word) < 10"
proof (cases ds)
  case Nil
  then show ?thesis by (simp add: dec_val_def)
next
  case (Cons d ds')
  with assms have d: "ds = [d]" "48 \<le> d" "d \<le> 57" by (auto simp: is_digit_def)
  define k where "k = unat d - 48"
  have k: "d = of_nat (48 + k)" "k < 10"
    using d(2,3) by (auto simp: k_def word_le_nat_alt)
  have "(10::nat) < 2 ^ 4" by simp
  also have "(2::nat) ^ 4 \<le> 2 ^ LENGTH('w)" using assms(3) by (intro power_increasing) auto
  finally have "10 < (2::nat) ^ LENGTH('w)" .
  then show ?thesis using k(2)
    by (simp add: d(1) dec_val_def k(1) ucast_digit unat_of_nat del: of_nat_add)
qed

subsection \<open>Single fields\<close>

text \<open>\<open>until c bs\<close> is the index of the first \<open>c\<close>, the number of bytes that \<open>buffer_find\<close> skips.\<close>

definition until :: "u8 \<Rightarrow> u8 list \<Rightarrow> nat" where
  "until c bs = length (takeWhile (\<lambda>x. x \<noteq> c) bs)"

definition skip :: "u8 list \<Rightarrow> nat" where
  "skip bs = (if 1 \<in> set bs then Suc (until 1 bs) else length bs)"

lemma until_le: "until c bs \<le> length bs"
  by (simp add: until_def length_takeWhile_le)

lemma until_less: "c \<in> set bs \<Longrightarrow> until c bs < length bs"
  unfolding until_def by (induction bs) auto

lemma until_nth: "c \<in> set bs \<Longrightarrow> bs ! until c bs = c"
  unfolding until_def by (induction bs) auto

lemma until_all: "c \<notin> set bs \<Longrightarrow> until c bs = length bs"
  unfolding until_def by (subst takeWhile_eq_all_conv [THEN iffD2]) auto

lemma until_append [simp]: "c \<notin> set xs \<Longrightarrow> until c (xs @ c # ys) = length xs"
  unfolding until_def by (induction xs) auto

lemma skip_le: "skip bs \<le> length bs"
  by (auto simp: skip_def dest: until_less)

lemma skip_pos: "bs \<noteq> [] \<Longrightarrow> 0 < skip bs"
  by (auto simp: skip_def)

lemma find_until [buf_simps]:
  "holds b bs \<Longrightarrow> buffer_find b c =
     Some (if c \<in> set bs then Some (buffer_start b + int (until c bs)) else None,
           buffer_advance b (of_nat (until c bs)))"
  by (simp add: holds_find until_def Let_def)

lemma holds_data:
  assumes "holds b bs"
  obtains pre suf where "data b = pre @ bs @ suf" "buffer_start b = int (length pre)"
    "length suf = buffer_room b"
proof
  let ?s = "unat (b_start b)" and ?e = "unat (b_end b)"
  have w: "?s \<le> ?e" "?e \<le> length (data b)" "length (data b) = unat (capacity b)"
    using assms by (auto simp: holds_def buffer_wf_def)
  have "bs = take (?e - ?s) (drop ?s (data b))"
    using assms by (simp add: holds_def buf_bytes_def seg_def)
  moreover have "drop ?e (data b) = drop (?e - ?s) (drop ?s (data b))" using w by simp
  ultimately have "drop ?s (data b) = bs @ drop ?e (data b)" by (metis append_take_drop_id)
  then show "data b = take ?s (data b) @ bs @ drop ?e (data b)" by (metis append_take_drop_id)
  show "buffer_start b = int (length (take ?s (data b)))" using w by (simp add: buffer_start_def)
  show "length (drop ?e (data b)) = buffer_room b" using w by (simp add: buffer_room_def)
qed

lemma holds_mem_from:
  assumes "holds b bs"
  obtains suf where "\<And>k. k \<le> length bs \<Longrightarrow> mem_from (data b) (buffer_start b + int k) = Some (drop k bs @ suf)"
    and "length suf = buffer_room b"
proof -
  obtain pre suf where d: "data b = pre @ bs @ suf" "buffer_start b = int (length pre)"
    "length suf = buffer_room b" using holds_data [OF assms] .
  have "mem_from (data b) (buffer_start b + int k) = Some (drop k bs @ suf)" if "k \<le> length bs" for k
    using that by (simp add: mem_from_def d nat_int_add)
  with d(3) that show thesis by blast
qed

lemma holds_mem_get:
  assumes "holds b bs" "k < length bs"
  shows "mem_get (data b) (buffer_start b + int k) = Some (bs ! k)"
proof -
  obtain pre suf where "data b = pre @ bs @ suf" "buffer_start b = int (length pre)"
    using holds_data [OF assms(1)] .
  with assms(2) show ?thesis by (simp add: mem_get_def nth_append nat_int_add)
qed

text \<open>\<open>fix_uatoi\<close> and \<open>fix_atoi64\<close> on a place in the unread bytes with a non-digit at or behind it.\<close>

lemma nth_in_drop: "k \<le> j \<Longrightarrow> j < length xs \<Longrightarrow> xs ! j \<in> set (drop k xs)"
  using nth_mem [of "j - k" "drop k xs"] by simp

lemma uatoi_total:
  assumes "holds b bs" "k \<le> j" "j < length bs" "\<not> is_digit (bs ! j)"
  shows "\<exists>v. fix_uatoi (data b) (buffer_start b + int k)
    = Some (v, buffer_start b + int k + int (length (takeWhile is_digit (drop k bs))))"
proof -
  obtain suf where m: "mem_from (data b) (buffer_start b + int k) = Some (drop k bs @ suf)"
    using holds_mem_from [OF assms(1)] assms(2,3) by (metis less_imp_le_nat order_trans)
  have i: "bs ! j \<in> set (drop k bs)"
    using assms(2,3) by (rule nth_in_drop)
  then have t: "takeWhile is_digit (drop k bs @ suf) = takeWhile is_digit (drop k bs)"
    using assms(4) by (metis takeWhile_append1)
  from i have "bs ! j \<in> set (drop k bs @ suf)" by simp
  from digits_loop_stops [OF this assms(4), of "0 :: i32"] m t show ?thesis
    by (auto simp: fix_uatoi_def)
qed

text \<open>\<open>scan_field\<close> and \<open>scan_match\<close> are \<open>parse_field\<close> and \<open>match_field\<close> on the list of unread bytes:
  the answer, a value as the index of its first byte, and the number of bytes consumed.\<close>

definition scan_tag :: "u8 list \<Rightarrow> (fix_err + i32) \<times> nat" where
  "scan_tag bs =
     (let k = until 61 bs in
      if 61 \<notin> set bs then (Inl FIX_MSG_STATE_PARTIAL, length bs)
      else if list_all is_digit (take k bs) then (Inr (dec_val (take k bs)), Suc k)
      else (Inl FIX_MSG_STATE_GARBLED, k))"

definition scan_value :: "u8 list \<Rightarrow> (fix_err + unit) \<times> nat" where
  "scan_value bs =
     (if 1 \<in> set bs then (Inr (), Suc (until 1 bs)) else (Inl FIX_MSG_STATE_PARTIAL, length bs))"

definition scan_field :: "u8 list \<Rightarrow> (fix_err + i32 \<times> nat) \<times> nat" where
  "scan_field bs =
     (case scan_tag bs of
        (Inl e, n) \<Rightarrow> (Inl e, n + skip (drop n bs))
      | (Inr t, n) \<Rightarrow> (case scan_value (drop n bs) of (r, k) \<Rightarrow> (map_sum id (\<lambda>_. (t, n)) r, n + k)))"

definition scan_match :: "i32 \<Rightarrow> u8 list \<Rightarrow> (fix_err + nat) \<times> nat" where
  "scan_match tag bs =
     (case scan_tag bs of
        (Inl e, n) \<Rightarrow> (Inl e, n + skip (drop n bs))
      | (Inr t, n) \<Rightarrow>
          if t \<noteq> tag then (Inl FIX_MSG_STATE_GARBLED, n + skip (drop n bs))
          else (case scan_value (drop n bs) of (r, k) \<Rightarrow> (map_sum id (\<lambda>_. n) r, n + k)))"

lemma parse_tag_scan:
  assumes h: "holds b bs"
  shows "parse_tag b = (case scan_tag bs of (r, n) \<Rightarrow> Some (r, buffer_advance b (of_nat n)))"
proof (cases "61 \<in> set bs")
  case False
  with h show ?thesis by (simp add: parse_tag_def scan_tag_def find_until until_all)
next
  case True
  let ?k = "until 61 bs"
  have k: "?k < length bs" "bs ! ?k = 61" using True by (auto intro: until_less until_nth)
  have get: "mem_get (data b) (buffer_start b + int ?k) = Some 61"
    using holds_mem_get [OF h k(1)] k(2) by simp
  let ?n = "length (takeWhile is_digit bs)"
  obtain v where v: "fix_uatoi (data b) (buffer_start b) = Some (v, buffer_start b + int ?n)"
    using uatoi_total [OF h, of 0 ?k] k by auto
  have bs: "bs = take ?k bs @ 61 # drop (Suc ?k) bs"
    using k by (metis id_take_nth_drop)
  show ?thesis
  proof (cases "list_all is_digit (take ?k bs)")
    case all: True
    obtain suf where m: "mem_from (data b) (buffer_start b + int 0) = Some (drop 0 bs @ suf)"
      using holds_mem_from [OF h] by blast
    have "digits_loop (bs @ suf) (0 :: i32) = Some (dec_val (take ?k bs), length (take ?k bs))"
      using all by (subst bs) (simp add: digits_loop_val)
    with m have "fix_uatoi (data b) (buffer_start b) = Some (dec_val (take ?k bs), buffer_start b + int ?k)"
      using k(1) by (simp add: fix_uatoi_def)
    with True h get all show ?thesis
      by (simp add: parse_tag_def scan_tag_def find_until Let_def)
  next
    case False
    have "?n \<noteq> ?k"
    proof
      assume e: "?n = ?k"
      have "take ?n bs = takeWhile is_digit bs" by (metis takeWhile_eq_take)
      with e have "list_all is_digit (take ?k bs)" by (auto simp: list_all_iff dest: set_takeWhileD)
      with False show False by simp
    qed
    with True h get v False show ?thesis
      by (simp add: parse_tag_def scan_tag_def find_until Let_def)
  qed
qed

lemma parse_value_scan:
  assumes h: "holds b bs"
  shows "parse_value b =
    (case scan_value bs of (r, n) \<Rightarrow> Some (map_sum id (\<lambda>_. buffer_start b) r, buffer_advance b (of_nat n)))"
proof (cases "1 \<in> set bs")
  case False
  with h show ?thesis by (simp add: parse_value_def scan_value_def find_until until_all)
next
  case True
  then have "mem_get (data b) (buffer_start b + int (until 1 bs)) = Some 1"
    using holds_mem_get [OF h until_less] until_nth [of 1 bs] by auto
  with h True show ?thesis by (simp add: parse_value_def scan_value_def find_until)
qed

lemma next_tag_scan:
  assumes h: "holds b bs"
  shows "next_tag b = Some (buffer_advance b (of_nat (skip bs)))"
proof (cases "1 \<in> set bs")
  case False
  with h show ?thesis by (simp add: next_tag_def skip_def find_until until_all)
next
  case True
  then have "mem_get (data b) (buffer_start b + int (until 1 bs)) = Some 1"
    using holds_mem_get [OF h until_less] until_nth [of 1 bs] by auto
  with h True show ?thesis by (simp add: next_tag_def skip_def find_until)
qed

lemma scan_tag_le: "scan_tag bs = (r, n) \<Longrightarrow> n \<le> length bs"
  by (auto simp: scan_tag_def Let_def Suc_leI until_less until_le split: if_splits)

lemma scan_value_le: "scan_value bs = (r, n) \<Longrightarrow> n \<le> length bs"
  by (auto simp: scan_value_def Suc_leI until_less split: if_splits)

lemma after_tag:
  assumes h: "holds b bs" and t: "scan_tag bs = (r, n)"
  shows "holds (buffer_advance b (of_nat n)) (drop n bs)"
    and "buffer_start (buffer_advance b (of_nat n)) = buffer_start b + int n"
  using holds_advance [OF h scan_tag_le [OF t]] buffer_start_advance [OF h scan_tag_le [OF t]] by auto

lemma parse_field_scan:
  assumes h: "holds b bs"
  shows "parse_field b = (case scan_field bs of (r, n) \<Rightarrow>
    Some (map_sum id (map_prod id (\<lambda>k. buffer_start b + int k)) r, buffer_advance b (of_nat n)))"
proof -
  obtain r n where t: "scan_tag bs = (r, n)" by (cases "scan_tag bs")
  note a = after_tag [OF h t]
  show ?thesis
    using parse_value_scan [OF a(1)]
    by (auto simp: parse_field_def parse_tag_scan [OF h] t scan_field_def next_tag_scan [OF a(1)] a(2)
             sum.map_comp comp_def id_def split: sum.splits prod.splits)
qed

lemma match_field_scan:
  assumes h: "holds b bs"
  shows "match_field b tag = (case scan_match tag bs of (r, n) \<Rightarrow>
    Some (map_sum id (\<lambda>k. buffer_start b + int k) r, buffer_advance b (of_nat n)))"
proof -
  obtain r n where t: "scan_tag bs = (r, n)" by (cases "scan_tag bs")
  note a = after_tag [OF h t]
  show ?thesis
    using parse_value_scan [OF a(1)]
    by (auto simp: match_field_def parse_tag_scan [OF h] t scan_match_def next_tag_scan [OF a(1)] a(2)
             sum.map_comp comp_def id_def split: sum.splits prod.splits)
qed

text \<open>What a step consumes: it stays inside the bytes, what is garbled costs at least a byte, and a
  value that is found lies behind the digits of its tag and ends with the delimiter that the step
  consumed last.\<close>

definition valued :: "u8 list \<Rightarrow> i32 \<Rightarrow> nat \<Rightarrow> nat \<Rightarrow> bool" where
  "valued bs tag k n \<longleftrightarrow> k < n \<and> n \<le> length bs \<and> bs ! (n - 1) = 1 \<and> 0 < k
     \<and> (\<not> unat tag < 10 \<longrightarrow> 2 < k) \<and> (tag \<noteq> 0 \<longrightarrow> 1 < k)"

lemma scan_tag_digits:
  assumes "scan_tag bs = (Inr t, n)"
  shows "0 < n" "\<not> unat t < 10 \<Longrightarrow> 2 < n" "t \<noteq> 0 \<Longrightarrow> 1 < n"
proof -
  from assms have n: "n = Suc (until 61 bs)" and i: "61 \<in> set bs"
    and all: "list_all is_digit (take (until 61 bs) bs)" and t: "t = dec_val (take (until 61 bs) bs)"
    by (auto simp: scan_tag_def Let_def split: if_splits)
  have l: "length (take (until 61 bs) bs) = until 61 bs" using until_le by simp
  show "0 < n" by (simp add: n)
  show "2 < n" if big: "\<not> unat t < 10"
  proof (rule ccontr)
    assume "\<not> 2 < n"
    then have "length (take (until 61 bs) bs) < 2" by (simp only: l n)
    from dec_val_short [OF all this, where 'w = 32] big show False by (simp add: t)
  qed
  show "1 < n" if "t \<noteq> 0" using that by (cases "until 61 bs") (auto simp: n t dec_val_def)
qed

lemma scan_value_found:
  assumes "scan_value bs = (Inr u, n)"
  shows "0 < n" "bs ! (n - 1) = 1" "n \<le> length bs"
  using assms by (auto simp: scan_value_def until_nth Suc_leI until_less split: if_splits)

lemma scan_field_shape:
  assumes "scan_field bs = (r, n)"
  shows "n \<le> length bs \<and> (r = Inl FIX_MSG_STATE_GARBLED \<longrightarrow> 0 < n)
    \<and> (\<forall>tag k. r = Inr (tag, k) \<longrightarrow> valued bs tag k n)"
proof -
  obtain r1 n1 where t: "scan_tag bs = (r1, n1)" by (cases "scan_tag bs")
  note le = scan_tag_le [OF t]
  show ?thesis
  proof (cases r1)
    case (Inl e)
    have "e = FIX_MSG_STATE_GARBLED \<longrightarrow> n1 < length bs"
      using t Inl until_less [of 61 bs] by (auto simp: scan_tag_def Let_def split: if_splits)
    with assms t Inl skip_le [of "drop n1 bs"] skip_pos [of "drop n1 bs"] le show ?thesis
      by (auto simp: scan_field_def)
  next
    case (Inr tag)
    obtain r2 n2 where v: "scan_value (drop n1 bs) = (r2, n2)" by (cases "scan_value (drop n1 bs)")
    from assms t Inr v have e: "r = map_sum id (\<lambda>_. (tag, n1)) r2" "n = n1 + n2" by (auto simp: scan_field_def)
    note d = scan_tag_digits [OF t [unfolded Inr]]
    have "r2 = Inr u \<Longrightarrow> valued bs tag n1 n" for u
      using scan_value_found [of "drop n1 bs" u n2] v d le by (auto simp: valued_def e nth_drop add_diff_assoc)
    moreover have "r2 \<noteq> Inl FIX_MSG_STATE_GARBLED"
      using v by (auto simp: scan_value_def split: if_splits)
    ultimately show ?thesis using scan_value_le [OF v] le d(1) by (cases r2) (auto simp: e)
  qed
qed

lemma scan_match_shape:
  assumes "scan_match tag bs = (r, n)"
  shows "n \<le> length bs \<and> (r = Inl FIX_MSG_STATE_GARBLED \<longrightarrow> 0 < n)
    \<and> (\<forall>k. r = Inr k \<longrightarrow> valued bs tag k n)"
proof (cases "\<exists>t n1. scan_tag bs = (Inr t, n1) \<and> t \<noteq> tag")
  case True
  then obtain t n1 where t: "scan_tag bs = (Inr t, n1)" "t \<noteq> tag" by blast
  with assms skip_le [of "drop n1 bs"] scan_tag_le [OF t(1)] scan_tag_digits(1) [OF t(1)] show ?thesis
    by (auto simp: scan_match_def)
next
  case False
  then have "scan_field bs = (map_sum id (Pair tag) r, n)"
    using assms by (auto simp: scan_match_def scan_field_def sum.map_comp comp_def id_def split: sum.splits prod.splits)
  from scan_field_shape [OF this] show ?thesis by (cases r) auto
qed

subsection \<open>A parse ends, without a fault\<close>

text \<open>The steps at byte \<open>n\<close> of the unread bytes of \<open>b\<close>: \<open>placed\<close> says where the value that was
  found starts and ends.\<close>

definition placed :: "u8 list \<Rightarrow> nat \<Rightarrow> i32 \<Rightarrow> nat \<Rightarrow> nat \<Rightarrow> bool" where
  "placed bs n tag i m \<longleftrightarrow> n < i \<and> i < m \<and> m \<le> length bs \<and> bs ! (m - 1) = 1
     \<and> (\<not> unat tag < 10 \<longrightarrow> n + 3 \<le> i) \<and> (tag \<noteq> 0 \<longrightarrow> n + 2 \<le> i)"

lemma valued_placed:
  assumes v: "valued (drop n bs) tag k m" and n: "n \<le> length bs"
  shows "placed bs n tag (n + k) (n + m)"
proof -
  from v n have "drop n bs ! (m - 1) = bs ! (n + m - 1)" by (simp add: valued_def nth_drop)
  with v n show ?thesis by (auto simp: valued_def placed_def)
qed

lemma parse_field_at:
  assumes h: "holds b bs" and n: "n \<le> length bs"
  obtains (partial) m where "n \<le> m" "m \<le> length bs"
      "parse_field (buffer_advance b (of_nat n)) = Some (Inl FIX_MSG_STATE_PARTIAL, buffer_advance b (of_nat m))"
    | (garbled) m where "n < m" "m \<le> length bs"
      "parse_field (buffer_advance b (of_nat n)) = Some (Inl FIX_MSG_STATE_GARBLED, buffer_advance b (of_nat m))"
    | (found) tag i m where "placed bs n tag i m"
      "parse_field (buffer_advance b (of_nat n)) = Some (Inr (tag, buffer_start b + int i), buffer_advance b (of_nat m))"
proof -
  obtain r k where s: "scan_field (drop n bs) = (r, k)" by (cases "scan_field (drop n bs)")
  note p = parse_field_scan [OF holds_advance [OF h n]]
  note sh = scan_field_shape [OF s]
  show thesis
  proof (cases r)
    case (Inl e)
    with partial [of "n + k"] garbled [of "n + k"] p s sh n show thesis
      by (cases e) auto
  next
    case (Inr tk)
    obtain tag i where tk: "tk = (tag, i)" by (cases tk)
    with Inr sh have "valued (drop n bs) tag i k" by simp
    from found [OF valued_placed [OF this n]] p s Inr tk show thesis
      by (simp add: buffer_start_advance [OF h n] add.assoc)
  qed
qed

lemma match_field_at:
  assumes h: "holds b bs" and n: "n \<le> length bs"
  obtains (partial) m where "n \<le> m" "m \<le> length bs"
      "match_field (buffer_advance b (of_nat n)) tag = Some (Inl FIX_MSG_STATE_PARTIAL, buffer_advance b (of_nat m))"
    | (garbled) m where "n < m" "m \<le> length bs"
      "match_field (buffer_advance b (of_nat n)) tag = Some (Inl FIX_MSG_STATE_GARBLED, buffer_advance b (of_nat m))"
    | (found) i m where "placed bs n tag i m"
      "match_field (buffer_advance b (of_nat n)) tag = Some (Inr (buffer_start b + int i), buffer_advance b (of_nat m))"
proof -
  obtain r k where s: "scan_match tag (drop n bs) = (r, k)" by (cases "scan_match tag (drop n bs)")
  note p = match_field_scan [OF holds_advance [OF h n]]
  note sh = scan_match_shape [OF s]
  show thesis
  proof (cases r)
    case (Inl e)
    with partial [of "n + k"] garbled [of "n + k"] p s sh n show thesis
      by (cases e) auto
  next
    case (Inr i)
    with sh have "valued (drop n bs) tag i k" by simp
    from found [OF valued_placed [OF this n]] p s Inr show thesis
      by (simp add: buffer_start_advance [OF h n] add.assoc)
  qed
qed

lemma placedD:
  assumes "placed bs n tag i m"
  shows "i \<le> m - 1" "m - 1 < length bs" "\<not> is_digit (bs ! (m - 1))" "i < length bs" "bs ! (m - 1) = 1"
  using assms by (auto simp: placed_def)

lemma uatoi_placed:
  assumes "holds b bs" "placed bs n tag i m"
  obtains v e where "fix_uatoi (data b) (buffer_start b + int i) = Some (v, e)"
  using uatoi_total [OF assms(1) placedD(1,2,3) [OF assms(2)]] by blast

lemma atoi64_placed:
  assumes h: "holds b bs" and p: "placed bs n tag i m"
  obtains v e where "fix_atoi64 (data b) (buffer_start b + int i) = Some (v, e)"
proof -
  obtain suf where mf: "\<And>k. k \<le> length bs \<Longrightarrow> mem_from (data b) (buffer_start b + int k) = Some (drop k bs @ suf)"
    using holds_mem_from [OF h] by blast
  have i: "i < length bs" "i \<le> m - 1" "m - 1 < length bs" "bs ! (m - 1) = 1" using p by (auto simp: placed_def)
  have stop: "\<exists>v e. digits_loop (drop k bs @ suf) (0 :: i64) = Some (v, e)" if "k \<le> m - 1" for k
  proof -
    have "1 \<in> set (drop k bs @ suf)"
      using nth_in_drop [OF that i(3)] unfolding i(4) by simp
    from digits_loop_stops [OF this, of "0 :: i64"] show ?thesis by auto
  qed
  have "bs ! i = 45 \<longrightarrow> i + 1 \<le> m - 1" using i by (cases "i = m - 1") auto
  then have "\<exists>v e. fix_atoi64 (data b) (buffer_start b + int i) = Some (v, e)"
    using stop [of i] stop [of "i + 1"] i(1,2) mf [of i] mf [of "i + 1"]
    by (auto simp: fix_atoi64_def holds_mem_get [OF h] Let_def ac_simps)
  with that show thesis by blast
qed

lemma mem_get_room:
  assumes "holds b bs" "k < length bs + buffer_room b"
  obtains c where "mem_get (data b) (buffer_start b + int k) = Some c"
proof -
  obtain pre suf where "data b = pre @ bs @ suf" "buffer_start b = int (length pre)"
    "length suf = buffer_room b" using holds_data [OF assms(1)] .
  with assms(2) have "\<exists>c. mem_get (data b) (buffer_start b + int k) = Some c"
    by (simp add: mem_get_def)
  with that show thesis by blast
qed

lemma msg_type_total:
  assumes "holds b bs" "i < length bs" "2 \<le> buffer_room b"
  obtains t where "fix_msg_type_parse (data b) (buffer_start b + int i) d = Some t"
proof -
  obtain c0 where "mem_get (data b) (buffer_start b + int i) = Some c0"
    by (rule mem_get_room [OF assms(1), of i]) (use assms in simp)
  moreover obtain c1 where "mem_get (data b) (buffer_start b + int (i + 1)) = Some c1"
    by (rule mem_get_room [OF assms(1), of "i + 1"]) (use assms in simp)
  moreover obtain c2 where "mem_get (data b) (buffer_start b + int (i + 2)) = Some c2"
    by (rule mem_get_room [OF assms(1), of "i + 2"]) (use assms in simp)
  ultimately have "\<exists>t. fix_msg_type_parse (data b) (buffer_start b + int i) d = Some t"
    by (simp add: fix_msg_type_parse_def ac_simps)
  with that show thesis by blast
qed

text \<open>The number of delimiters left bounds the number of fields that can still be found.\<close>

lemma count_drop_le: "n \<le> m \<Longrightarrow> count_list (drop m xs) x \<le> count_list (drop n xs) x"
proof -
  assume "n \<le> m"
  then have "drop n xs = take (m - n) (drop n xs) @ drop m xs"
    by (metis append_take_drop_id drop_drop le_add_diff_inverse2)
  then show ?thesis by (metis count_list_append le_add2)
qed

lemma placed_count:
  assumes "placed bs n tag i m"
  shows "Suc (count_list (drop m bs) 1) \<le> count_list (drop n bs) 1"
proof -
  from assms have m: "n \<le> m - 1" "m - 1 < length bs" "bs ! (m - 1) = 1" "Suc (m - 1) = m"
    by (auto simp: placed_def)
  then have "drop (m - 1) bs = 1 # drop m bs" by (metis Cons_nth_drop_Suc)
  then have "count_list (drop (m - 1) bs) 1 = Suc (count_list (drop m bs) 1)" by simp
  with count_drop_le [OF m(1), of bs 1] show ?thesis by simp
qed

text \<open>\<open>headed\<close>: what a successful \<open>first_three_fields\<close> leaves in the message.\<close>

definition headed :: "buffer \<Rightarrow> u8 list \<Rightarrow> fix_message \<Rightarrow> nat \<Rightarrow> bool" where
  "headed b bs msg n \<longleftrightarrow>
     (\<exists>i j. begin_string msg = Rx (buffer_start b + int i) \<and> msg_type msg = Rx (buffer_start b + int j)
       \<and> 2 \<le> i \<and> i + 3 \<le> j \<and> j < n \<and> n \<le> length bs)
     \<and> 0 < unat (body_length msg) \<and> unat (body_length msg) \<le> 1280
     \<and> count_list (drop n bs) 1 + 3 \<le> count_list bs 1"

lemma parse_begin_string_at:
  assumes h: "holds b bs"
  obtains (fails) e n where "n \<le> length bs" "e = FIX_MSG_STATE_GARBLED \<longrightarrow> 0 < n"
      "parse_begin_string msg b = Some (Inl e, msg, buffer_advance b (of_nat n))"
    | (found) i n where "placed bs 0 BeginString i n"
      "parse_begin_string msg b = Some (Inr (), msg\<lparr>begin_string := Rx (buffer_start b + int i)\<rparr>, buffer_advance b (of_nat n))"
proof (rule match_field_at [OF h, of 0 BeginString])
  fix m assume "m \<le> length bs" "match_field (buffer_advance b (of_nat 0)) BeginString =
      Some (Inl FIX_MSG_STATE_PARTIAL, buffer_advance b (of_nat m))"
  then show thesis by (intro fails [of m]) (simp_all add: parse_begin_string_def)
next
  fix m assume "0 < m" "m \<le> length bs" "match_field (buffer_advance b (of_nat 0)) BeginString =
      Some (Inl FIX_MSG_STATE_GARBLED, buffer_advance b (of_nat m))"
  then show thesis by (intro fails [of m]) (simp_all add: parse_begin_string_def)
next
  fix i m assume "placed bs 0 BeginString i m" "match_field (buffer_advance b (of_nat 0)) BeginString =
      Some (Inr (buffer_start b + int i), buffer_advance b (of_nat m))"
  then show thesis by (intro found) (simp_all add: parse_begin_string_def)
qed simp

lemma scast_nonneg:
  assumes "0 \<le> sint (v :: i32)"
  shows "unat (scast v :: ulong) = unat v"
proof -
  have "sint v = uint v" using assms by (metis uint_sint word_sle_eq unat_nonneg sint_small linorder_not_le word_sless_alt sint_0 uint_nat)
  then have "(scast v :: ulong) = ucast v" by (metis scast_eq unsigned_ucast_eq word_of_int_uint ucast_eq)
  then show ?thesis
    using unat_less_power [of v] by (simp add: unsigned_ucast_eq take_bit_nat_eq_self)
qed

lemma parse_body_length_at:
  assumes h: "holds b bs" and n: "n \<le> length bs"
  obtains (fails) e msg' m where "n \<le> m" "m \<le> length bs" "e = FIX_MSG_STATE_GARBLED \<longrightarrow> n < m"
      "fm_fields msg' = fm_fields msg"
      "parse_body_length msg (buffer_advance b (of_nat n)) = Some (Inl e, msg', buffer_advance b (of_nat m))"
    | (found) len i m where "placed bs n BodyLength i m" "0 < unat len" "unat len \<le> 1280"
      "parse_body_length msg (buffer_advance b (of_nat n)) = Some (Inr (), msg\<lparr>body_length := len\<rparr>, buffer_advance b (of_nat m))"
proof (rule match_field_at [OF h n, of BodyLength])
  fix m assume "n \<le> m" "m \<le> length bs" "match_field (buffer_advance b (of_nat n)) BodyLength =
      Some (Inl FIX_MSG_STATE_PARTIAL, buffer_advance b (of_nat m))"
  then show thesis by (intro fails [of m _ msg]) (simp_all add: parse_body_length_def)
next
  fix m assume "n < m" "m \<le> length bs" "match_field (buffer_advance b (of_nat n)) BodyLength =
      Some (Inl FIX_MSG_STATE_GARBLED, buffer_advance b (of_nat m))"
  then show thesis by (intro fails [of m _ msg]) (simp_all add: parse_body_length_def)
next
  fix i m assume p: "placed bs n BodyLength i m" and e: "match_field (buffer_advance b (of_nat n)) BodyLength =
      Some (Inr (buffer_start b + int i), buffer_advance b (of_nat m))"
  obtain v x where v: "fix_uatoi (data b) (buffer_start b + int i) = Some (v, x)"
    using uatoi_placed [OF h p] .
  from p have m: "n < m" "m \<le> length bs" by (auto simp: placed_def)
  show thesis
  proof (cases "v \<le>s 0 \<or> FIX_MAX_MESSAGE_SIZE < scast v")
    case True
    with e v m show thesis
      by (intro fails [of m FIX_MSG_STATE_GARBLED "msg\<lparr>body_length := scast v\<rparr>"]) (simp_all add: parse_body_length_def)
  next
    case False
    then have "0 < sint v" by (simp add: word_sle_eq)
    then have "unat (scast v :: ulong) = unat v" "0 < unat v"
      by (auto simp: scast_nonneg unat_gt_0)
    moreover have "unat (scast v :: ulong) \<le> 1280"
      using False by (simp add: FIX_MAX_MESSAGE_SIZE_def word_less_nat_alt not_less)
    ultimately show thesis
      using False e v p by (intro found [of i m "scast v"]) (simp_all add: parse_body_length_def)
  qed
qed

lemma parse_msg_type_at:
  assumes h: "holds b bs" and n: "n \<le> length bs" and room: "2 \<le> buffer_room b"
  obtains (fails) e msg' m where "n \<le> m" "m \<le> length bs" "e = FIX_MSG_STATE_GARBLED \<longrightarrow> n < m"
      "fm_fields msg' = fm_fields msg"
      "parse_msg_type msg (buffer_advance b (of_nat n)) flags = Some (Inl e, msg', buffer_advance b (of_nat m))"
    | (found) t j m where "placed bs n MsgType j m"
      "parse_msg_type msg (buffer_advance b (of_nat n)) flags =
        Some (Inr (), msg\<lparr>msg_type := Rx (buffer_start b + int j), fm_type := t\<rparr>, buffer_advance b (of_nat m))"
proof (rule match_field_at [OF h n, of MsgType])
  fix m assume "n \<le> m" "m \<le> length bs" "match_field (buffer_advance b (of_nat n)) MsgType =
      Some (Inl FIX_MSG_STATE_PARTIAL, buffer_advance b (of_nat m))"
  then show thesis by (intro fails [of m _ msg]) (simp_all add: parse_msg_type_def)
next
  fix m assume "n < m" "m \<le> length bs" "match_field (buffer_advance b (of_nat n)) MsgType =
      Some (Inl FIX_MSG_STATE_GARBLED, buffer_advance b (of_nat m))"
  then show thesis by (intro fails [of m _ msg]) (simp_all add: parse_msg_type_def)
next
  fix j m assume p: "placed bs n MsgType j m" and e: "match_field (buffer_advance b (of_nat n)) MsgType =
      Some (Inr (buffer_start b + int j), buffer_advance b (of_nat m))"
  obtain t where t: "fix_msg_type_parse (data b) (buffer_start b + int j) 1 = Some t"
    using msg_type_total [OF h placedD(4) [OF p] room] .
  from p have m: "n < m" "m \<le> length bs" by (auto simp: placed_def)
  let ?msg = "\<lambda>t. msg\<lparr>msg_type := Rx (buffer_start b + int j), fm_type := t\<rparr>"
  show thesis
  proof (cases "flags AND FIX_PARSE_FLAG_NO_TYPE = 0")
    case False
    with e p show thesis by (intro found [of j m FIX_MSG_TYPE_UNKNOWN]) (simp_all add: parse_msg_type_def)
  next
    case True
    show thesis
    proof (cases "t = FIX_MSG_TYPE_UNKNOWN")
      case unknown: True
      with True e t m show thesis
        by (intro fails [of m FIX_MSG_STATE_GARBLED "?msg t"]) (simp_all add: parse_msg_type_def fix_message_type_is_def)
    next
      case False
      with True e t p show thesis
        by (intro found [of j m t]) (simp_all add: parse_msg_type_def fix_message_type_is_def)
    qed
  qed
qed

lemma first_three_fields_at:
  assumes h: "holds b bs" and room: "2 \<le> buffer_room b"
  obtains (fails) e msg' n where "n \<le> length bs" "e = FIX_MSG_STATE_GARBLED \<longrightarrow> 0 < n"
      "fm_fields msg' = fm_fields msg"
      "first_three_fields msg b flags = Some (Inl e, msg', buffer_advance b (of_nat n))"
    | (found) msg' n where "headed b bs msg' n" "fm_fields msg' = fm_fields msg"
      "first_three_fields msg b flags = Some (Inr (), msg', buffer_advance b (of_nat n))"
proof (rule parse_begin_string_at [OF h, of msg])
  fix e n assume "n \<le> length bs" "e = FIX_MSG_STATE_GARBLED \<longrightarrow> 0 < n"
    "parse_begin_string msg b = Some (Inl e, msg, buffer_advance b (of_nat n))"
  then show thesis by (intro fails [of n e msg]) (auto simp: first_three_fields_def)
next
  fix i n1 assume p1: "placed bs 0 BeginString i n1"
    and e1: "parse_begin_string msg b =
      Some (Inr (), msg\<lparr>begin_string := Rx (buffer_start b + int i)\<rparr>, buffer_advance b (of_nat n1))"
  let ?m1 = "msg\<lparr>begin_string := Rx (buffer_start b + int i)\<rparr>"
  have n1: "0 < n1" "n1 \<le> length bs" using p1 by (auto simp: placed_def)
  show thesis
  proof (rule parse_body_length_at [OF h n1(2), of ?m1])
    fix e msg' m assume "n1 \<le> m" "m \<le> length bs" "fm_fields msg' = fm_fields ?m1"
      "parse_body_length ?m1 (buffer_advance b (of_nat n1)) = Some (Inl e, msg', buffer_advance b (of_nat m))"
    then show thesis using e1 n1 by (intro fails [of m e msg']) (auto simp: first_three_fields_def)
  next
    fix len k n2 assume p2: "placed bs n1 BodyLength k n2" and l: "0 < unat len" "unat len \<le> 1280"
      and e2: "parse_body_length ?m1 (buffer_advance b (of_nat n1))
        = Some (Inr (), ?m1\<lparr>body_length := len\<rparr>, buffer_advance b (of_nat n2))"
    let ?m2 = "?m1\<lparr>body_length := len\<rparr>"
    have n2: "n1 < n2" "n2 \<le> length bs" using p2 by (auto simp: placed_def)
    show thesis
    proof (rule parse_msg_type_at [OF h n2(2) room, of ?m2 flags])
      fix e msg' m assume "n2 \<le> m" "m \<le> length bs" "fm_fields msg' = fm_fields ?m2"
        "parse_msg_type ?m2 (buffer_advance b (of_nat n2)) flags = Some (Inl e, msg', buffer_advance b (of_nat m))"
      then show thesis using e1 e2 n1 n2 by (intro fails [of m e msg']) (auto simp: first_three_fields_def)
    next
      fix t j n3 assume p3: "placed bs n2 MsgType j n3"
        and e3: "parse_msg_type ?m2 (buffer_advance b (of_nat n2)) flags =
          Some (Inr (), ?m2\<lparr>msg_type := Rx (buffer_start b + int j), fm_type := t\<rparr>, buffer_advance b (of_nat n3))"
      have "2 \<le> i" "i < n1" using p1 by (auto simp: placed_def BeginString_def)
      moreover have "n2 + 3 \<le> j" "j < n3" "n3 \<le> length bs" using p3 by (auto simp: placed_def MsgType_def)
      moreover have "count_list (drop n3 bs) 1 + 3 \<le> count_list bs 1"
        using placed_count [OF p1] placed_count [OF p2] placed_count [OF p3] by simp
      ultimately show thesis
        using e1 e2 e3 l n2
        by (intro found [of "?m2\<lparr>msg_type := Rx (buffer_start b + int j), fm_type := t\<rparr>" n3])
           (auto simp: headed_def first_three_fields_def)
    qed
  qed
qed

lemma sum_range_at:
  assumes h: "holds b bs" and k: "2 \<le> i" "i \<le> k" "3 \<le> k" "k \<le> length bs"
  obtains s where "buffer_sum_range (data b) (buffer_start b + int i - 2) (buffer_start b + int k - 3) = Some s"
proof (cases "i - 2 \<le> k - 3")
  case True
  obtain pre suf where d: "data b = pre @ bs @ suf" "buffer_start b = int (length pre)"
    using holds_data [OF h] .
  have e: "buffer_start b + int i - 2 = int (length pre + (i - 2))"
    "buffer_start b + int k - 3 = int (length pre + (k - 3))"
    using k by (simp_all add: d)
  have "buffer_sum_range (data b) (int (length pre + (i - 2))) (int (length pre + (k - 3)))
      = Some (sum_list (seg (length pre + (i - 2)) (length pre + (k - 3)) (data b)))"
    using True k by (intro sum_range) (simp_all add: d)
  with that show thesis unfolding e by blast
next
  case False
  with k have "\<not> buffer_start b + int i - 2 < buffer_start b + int k - 3" by linarith
  with that show thesis by (simp add: buffer_sum_range_def buffer_sum_loop.simps del: not_less)
qed

text \<open>The length of the unread bytes is below \<open>2 ^ 31\<close>, so that the \<open>int\<close> offset holds it.\<close>

lemma offset_word:
  assumes "j \<le> n + 3" "n + 3 - j < 2 ^ 31"
  shows "(scast (of_int (int n - (int j - 3)) :: i32) :: ulong) = of_nat (n + 3 - j)"
proof -
  have i: "int n - (int j - 3) = int (n + 3 - j)" using assms(1) by simp
  have "sint (of_nat (n + 3 - j) :: i32) = int (n + 3 - j)"
    using assms(2) by (simp add: signed_of_nat signed_take_bit_int_eq_self)
  then show ?thesis unfolding i by (metis of_int_of_nat_eq of_int_sint scast_eq)
qed

lemma unat_of_nat_64: "n < 2 ^ 64 \<Longrightarrow> unat (of_nat n :: ulong) = n"
  by (rule of_nat_inverse [OF refl]) simp

text \<open>\<open>checksum\<close> with its pointer arithmetic evaluated: the header starts its third field at \<open>j - 3\<close>, the
  message is complete when the body and seven more bytes follow, and the trailer is read there.\<close>

lemma checksum_eval:
  assumes h: "holds b bs" and len: "length bs < 2 ^ 31"
    and mt: "msg_type msg = Rx (buffer_start b + int j)" and ij: "3 \<le> j" "j < n" "n \<le> length bs"
    and bl: "unat (body_length msg) \<le> 1280"
  shows "checksum msg (buffer_advance b (of_nat n)) flags =
     (if length bs + 3 - j < unat (body_length msg) + 7
      then Some (Inl FIX_MSG_STATE_PARTIAL, msg, buffer_advance b (of_nat n))
      else if flags AND FIX_PARSE_FLAG_NO_CSUM \<noteq> 0 then Some (Inr (), msg, buffer_advance b (of_nat n))
      else do {
        (r, b') \<leftarrow> match_field (buffer_advance b (of_nat (j - 3 + unat (body_length msg)))) CheckSum;
        (case r of
           Inl e \<Rightarrow> Some (Inl e, msg, b')
         | Inr p \<Rightarrow> let msg = msg\<lparr>check_sum := Rx p\<rparr> in do {
               ok \<leftarrow> verify_checksum msg b';
               (if \<not> ok then Some (Inl FIX_MSG_STATE_GARBLED, msg, b')
                else Some (Inr (), msg,
                  buffer_advance b' (of_int (buffer_start b + int n - buffer_start b')))) }) })"
proof -
  let ?bl = "unat (body_length msg)" and ?b = "buffer_advance b (of_nat n)" and ?o = "n + 3 - j"
  have start: "buffer_start ?b = buffer_start b + int n" using buffer_start_advance [OF h ij(3)] .
  have o: "(scast (of_int (buffer_start ?b - (buffer_start b + int j - 3)) :: i32) :: ulong) = of_nat ?o"
  proof -
    have e: "buffer_start ?b - (buffer_start b + int j - 3) = int n - (int j - 3)" by (simp add: start)
    show ?thesis unfolding e by (rule offset_word) (use ij len in simp_all)
  qed
  have sz: "buffer_size ?b = of_nat (length bs - n)"
    using holds_size_of_nat [OF holds_advance [OF h ij(3)]] by simp
  have u: "unat (buffer_size ?b + of_nat ?o) = length bs + 3 - j"
  proof -
    have "buffer_size ?b + of_nat ?o = of_nat (length bs - n + ?o)" by (simp only: sz of_nat_add)
    also have "length bs - n + ?o = length bs + 3 - j" using ij by simp
    finally show ?thesis using len by (simp only:) (rule unat_of_nat_64, simp)
  qed
  have u7: "unat (body_length msg + 7) = ?bl + 7" using bl by (subst unat_add_le) simp_all
  have short: "buffer_size ?b + of_nat ?o < body_length msg + 7 \<longleftrightarrow> length bs + 3 - j < ?bl + 7"
    by (simp add: word_less_nat_alt u u7)
  define p where "p = j - 3 + ?bl"
  have "of_nat n + (body_length msg - of_nat ?o) = (of_nat p :: ulong)"
  proof -
    have e: "n + ?bl = p + ?o" using ij by (simp add: p_def)
    have "of_nat n + (of_nat ?bl :: ulong) = of_nat p + of_nat ?o"
      unfolding of_nat_add [symmetric] e ..
    then have "of_nat n + body_length msg = (of_nat p + of_nat ?o :: ulong)" by simp
    then show ?thesis by (simp only: add_diff_eq diff_eq_eq)
  qed
  then have jump: "buffer_advance ?b (body_length msg - of_nat ?o) = buffer_advance b (of_nat p)"
    by simp
  show ?thesis
    unfolding checksum_def mt rx_ptr.simps Option.bind.bind_lunit Let_def start o [unfolded start] jump short p_def ..
qed

lemma checksum_at:
  assumes h: "holds b bs" and hd: "headed b bs msg n" and len: "length bs < 2 ^ 31"
  obtains (fails) e msg' m where "m \<le> length bs" "e = FIX_MSG_STATE_GARBLED \<longrightarrow> 0 < m"
      "fm_fields msg' = fm_fields msg"
      "checksum msg (buffer_advance b (of_nat n)) flags = Some (Inl e, msg', buffer_advance b (of_nat m))"
    | (passes) msg' where "fm_fields msg' = fm_fields msg"
      "checksum msg (buffer_advance b (of_nat n)) flags = Some (Inr (), msg', buffer_advance b (of_nat n))"
proof -
  from hd obtain i j where bs: "begin_string msg = Rx (buffer_start b + int i)"
    and mt: "msg_type msg = Rx (buffer_start b + int j)"
    and ij: "2 \<le> i" "i + 3 \<le> j" "j < n" "n \<le> length bs"
    and bl: "0 < unat (body_length msg)" "unat (body_length msg) \<le> 1280"
    by (auto simp: headed_def)
  let ?bl = "unat (body_length msg)" and ?b = "buffer_advance b (of_nat n)"
  define p where "p = j - 3 + ?bl"
  have "3 \<le> j" using ij by simp
  note eval = checksum_eval [OF h len mt this ij(3,4) bl(2), of flags, folded p_def]
  show thesis
  proof (cases "length bs + 3 - j < ?bl + 7")
    case True
    with eval ij show thesis by (intro fails [of n FIX_MSG_STATE_PARTIAL msg]) simp_all
  next
    case nshort: False
    then have ple: "p \<le> length bs" "0 < p" "i \<le> p" using ij bl by (auto simp: p_def)
    show thesis
    proof (cases "flags AND FIX_PARSE_FLAG_NO_CSUM \<noteq> 0")
      case True
      with eval nshort show thesis by (intro passes [of msg]) simp_all
    next
      case False
      note eval' = eval [unfolded if_not_P [OF nshort] if_not_P [OF False]]
      show thesis
      proof (rule match_field_at [OF h ple(1), of CheckSum])
        fix m assume "m \<le> length bs" "match_field (buffer_advance b (of_nat p)) CheckSum =
          Some (Inl FIX_MSG_STATE_PARTIAL, buffer_advance b (of_nat m))"
        then show thesis by (intro fails [of m _ msg]) (simp_all add: eval')
      next
        fix m assume "p < m" "m \<le> length bs" "match_field (buffer_advance b (of_nat p)) CheckSum =
          Some (Inl FIX_MSG_STATE_GARBLED, buffer_advance b (of_nat m))"
        then show thesis by (intro fails [of m _ msg]) (simp_all add: eval')
      next
        fix k m assume pl: "placed bs p CheckSum k m" and e: "match_field (buffer_advance b (of_nat p)) CheckSum =
          Some (Inr (buffer_start b + int k), buffer_advance b (of_nat m))"
        have k: "p + 3 \<le> k" "k < m" "m \<le> length bs" using pl by (auto simp: placed_def CheckSum_def)
        obtain v x where v: "fix_uatoi (data b) (buffer_start b + int k) = Some (v, x)"
          using uatoi_placed [OF h pl] .
        obtain s where s: "buffer_sum_range (data b) (buffer_start b + int i - 2) (buffer_start b + int k - 3) = Some s"
          by (rule sum_range_at [OF h ij(1), of k]) (use k ple in simp_all)
        let ?msg = "msg\<lparr>check_sum := Rx (buffer_start b + int k)\<rparr>"
        have ok: "verify_checksum ?msg (buffer_advance b (of_nat m)) = Some (ucast s = v)"
          by (simp add: verify_checksum_def bs v s)
        have rewind: "buffer_advance (buffer_advance b (of_nat m))
            (of_int (buffer_start b + int n - buffer_start (buffer_advance b (of_nat m)))) = ?b"
          unfolding buffer_start_advance [OF h k(3)] by simp
        show thesis
        proof (cases "ucast s = v")
          case True
          with ok e rewind show thesis by (intro passes [of ?msg]) (simp_all add: eval')
        next
          case False
          with ok e k show thesis by (intro fails [of m _ ?msg]) (simp_all add: eval')
        qed
      qed
    qed
  qed
qed

lemma store_field_ok:
  assumes "length (fm_fields msg) = 48" "unat k < 48"
  obtains msg' where "store_field msg k f = Some msg'" "length (fm_fields msg') = 48"
  using assms by (auto simp: store_field_def mem_put_def uint_nat simp del: of_nat_unat)

lemma rest_loop_total:
  assumes h: "holds b bs"
  shows "n \<le> length bs \<Longrightarrow> length (fm_fields msg) = 48 \<Longrightarrow> unat k + count_list (drop n bs) 1 \<le> 48 \<Longrightarrow>
    length bs - n < fuel \<Longrightarrow>
    \<exists>msg' m. rest_loop tag_type strtod fuel k msg (buffer_advance b (of_nat n)) = Some (msg', buffer_advance b (of_nat m))
      \<and> n \<le> m \<and> m \<le> length bs \<and> length (fm_fields msg') = 48"
proof (induction fuel arbitrary: n k msg)
  case 0
  then show ?case by simp
next
  case (Suc fuel)
  let ?b = "\<lambda>n. buffer_advance b (of_nat n)"
  show ?case
  proof (rule parse_field_at [OF h Suc.prems(1)])
    fix m assume "n \<le> m" "m \<le> length bs" "parse_field (?b n) = Some (Inl FIX_MSG_STATE_PARTIAL, ?b m)"
    with Suc.prems(2) show ?thesis by auto
  next
    fix m assume "n < m" "m \<le> length bs" "parse_field (?b n) = Some (Inl FIX_MSG_STATE_GARBLED, ?b m)"
    with Suc.prems(2) show ?thesis by auto
  next
    fix tag i m assume p: "placed bs n tag i m"
      and e: "parse_field (?b n) = Some (Inr (tag, buffer_start b + int i), ?b m)"
    have m: "n < m" "m \<le> length bs" using p by (auto simp: placed_def)
    have c: "unat k + Suc (count_list (drop m bs) 1) \<le> 48" using placed_count [OF p] Suc.prems(3) by simp
    then have k: "unat k < 48" "unat (k + 1) = Suc (unat k)"
      using unat_plus_1 [of k 48] by auto
    have fuel: "length bs - m < fuel" using Suc.prems(4) m by simp
    have go: "\<exists>msg'' m'. rest_loop tag_type strtod fuel k' msg' (?b m) = Some (msg'', ?b m')
        \<and> n \<le> m' \<and> m' \<le> length bs \<and> length (fm_fields msg'') = 48"
      if "length (fm_fields msg') = 48" "unat k' + count_list (drop m bs) 1 \<le> 48" for msg' k'
      using Suc.IH [OF m(2) that fuel] m(1) by force
    have store: "\<exists>msg'' m'. Option.bind (store_field msg k f) (\<lambda>msg. rest_loop tag_type strtod fuel (k + 1) msg (?b m))
          = Some (msg'', ?b m') \<and> n \<le> m' \<and> m' \<le> length bs \<and> length (fm_fields msg'') = 48" for f
    proof (rule store_field_ok [OF Suc.prems(2) k(1), of f])
      fix msg' assume "store_field msg k f = Some msg'" "length (fm_fields msg') = 48"
      with go [of msg' "k + 1"] c show ?thesis by (simp add: k)
    qed
    obtain v x where v: "fix_atoi64 (data b) (buffer_start b + int i) = Some (v, x)"
      using atoi64_placed [OF h p] .
    obtain v' x' where v': "fix_uatoi (data b) (buffer_start b + int i) = Some (v', x')"
      using uatoi_placed [OF h p] .
    obtain cs where cs: "mem_from (data b) (buffer_start b + int i) = Some cs"
      by (rule holds_mem_from [OF h]) (use placedD(4) [OF p] in auto)
    have ch: "mem_get (data b) (buffer_start b + int i) = Some (bs ! i)"
      by (rule holds_mem_get [OF h placedD(4) [OF p]])
    show ?thesis
      using e store go [of _ k] c Suc.prems(2) m
      by (cases "tag_type tag") (auto simp: v v' cs ch)
  qed
qed

lemma holds_at_size: "holds b bs \<Longrightarrow> n \<le> length bs \<Longrightarrow> unat (buffer_size (buffer_advance b (of_nat n))) = length bs - n"
  using holds_size [OF holds_advance, of b bs n] by simp

lemma parse_attempt_at:
  assumes h: "holds b bs" and room: "2 \<le> buffer_room b" and len: "length bs < 2 ^ 31"
    and fs: "length (fm_fields msg) = 48" and few: "count_list bs 1 \<le> 51"
  obtains (fails) e msg' m where "m \<le> length bs" "e = FIX_MSG_STATE_GARBLED \<longrightarrow> 0 < m"
      "length (fm_fields msg') = 48"
      "parse_attempt tag_type strtod msg b flags = Some (Inl e, msg', buffer_advance b (of_nat m))"
    | (passes) msg' m where "0 < m" "m \<le> length bs" "length (fm_fields msg') = 48"
      "iov0 msg' = (buffer_start b, of_nat m)"
      "parse_attempt tag_type strtod msg b flags = Some (Inr (), msg', buffer_advance b (of_nat m))"
proof (cases "buffer_size b = 0")
  case True
  with fails [of 0 FIX_MSG_STATE_PARTIAL msg] fs show thesis by (simp add: parse_attempt_def)
next
  case ne: False
  show thesis
  proof (rule first_three_fields_at [OF h room, of msg flags])
    fix e msg' n assume "n \<le> length bs" "e = FIX_MSG_STATE_GARBLED \<longrightarrow> 0 < n" "fm_fields msg' = fm_fields msg"
      "first_three_fields msg b flags = Some (Inl e, msg', buffer_advance b (of_nat n))"
    with ne fs show thesis by (intro fails [of n e msg']) (simp_all add: parse_attempt_def)
  next
    fix msg1 n assume hd: "headed b bs msg1 n" and fs1: "fm_fields msg1 = fm_fields msg"
      and e1: "first_three_fields msg b flags = Some (Inr (), msg1, buffer_advance b (of_nat n))"
    have n: "0 < n" "n \<le> length bs" using hd by (auto simp: headed_def)
    show thesis
    proof (rule checksum_at [OF h hd len, of flags])
      fix e msg' m assume "m \<le> length bs" "e = FIX_MSG_STATE_GARBLED \<longrightarrow> 0 < m" "fm_fields msg' = fm_fields msg1"
        "checksum msg1 (buffer_advance b (of_nat n)) flags = Some (Inl e, msg', buffer_advance b (of_nat m))"
      with ne fs fs1 e1 show thesis by (intro fails [of m e msg']) (simp_all add: parse_attempt_def)
    next
      fix msg2 assume fs2: "fm_fields msg2 = fm_fields msg1"
        and e2: "checksum msg1 (buffer_advance b (of_nat n)) flags = Some (Inr (), msg2, buffer_advance b (of_nat n))"
      have "count_list (drop n bs) 1 \<le> 48" using hd few by (simp add: headed_def)
      then have "\<exists>msg' m. rest_of_message tag_type strtod msg2 (buffer_advance b (of_nat n)) = Some (msg', buffer_advance b (of_nat m))
          \<and> n \<le> m \<and> m \<le> length bs \<and> length (fm_fields msg') = 48"
        unfolding rest_of_message_def using n fs fs1 fs2 holds_at_size [OF h n(2)]
        by (intro rest_loop_total [OF h]) simp_all
      then obtain msg' m where "rest_of_message tag_type strtod msg2 (buffer_advance b (of_nat n)) = Some (msg', buffer_advance b (of_nat m))"
        and m: "n \<le> m" "m \<le> length bs" "length (fm_fields msg') = 48" by blast
      with ne e1 e2 n show thesis
        by (intro passes [of m "msg'\<lparr>iov0 := (buffer_start b, of_nat m)\<rparr>"])
           (simp_all add: parse_attempt_def buffer_start_advance [OF h m(2)])
    qed
  qed
qed

text \<open>A run of attempts that each answer that what they looked at is garbled, each from where the last one stopped.\<close>

inductive garbled_run :: "(i32 \<Rightarrow> fix_type) \<Rightarrow> (u8 list \<Rightarrow> u64) \<Rightarrow> ulong \<Rightarrow> fix_message \<Rightarrow> buffer \<Rightarrow> fix_message \<Rightarrow> buffer \<Rightarrow> bool"
  for tag_type strtod flags where
  garbled_none: "garbled_run tag_type strtod flags msg b msg b"
| garbled_more: "parse_attempt tag_type strtod msg b flags = Some (Inl FIX_MSG_STATE_GARBLED, msg1, b1) \<Longrightarrow>
    garbled_run tag_type strtod flags msg1 b1 msg2 b2 \<Longrightarrow> garbled_run tag_type strtod flags msg b msg2 b2"

lemma parse_loop_total:
  "holds b bs \<Longrightarrow> 2 \<le> buffer_room b \<Longrightarrow> length bs < 2 ^ 31 \<Longrightarrow> length (fm_fields msg) = 48 \<Longrightarrow>
   count_list bs 1 \<le> 51 \<Longrightarrow> length bs < fuel \<Longrightarrow>
   \<exists>ok msg' msg0 n m. fix_parse_loop tag_type strtod fuel msg b flags = Some (ok, msg', buffer_advance b (of_nat m))
     \<and> n \<le> m \<and> m \<le> length bs \<and> length (fm_fields msg') = 48
     \<and> garbled_run tag_type strtod flags msg b msg0 (buffer_advance b (of_nat n))
     \<and> (if ok then n < m \<and> parse_attempt tag_type strtod msg0 (buffer_advance b (of_nat n)) flags
              = Some (Inr (), msg', buffer_advance b (of_nat m))
            \<and> iov0 msg' = (buffer_start b + int n, of_nat (m - n))
        else n = m \<and> (\<exists>b1. parse_attempt tag_type strtod msg0 (buffer_advance b (of_nat n)) flags
              = Some (Inl FIX_MSG_STATE_PARTIAL, msg', b1)))"
proof (induction fuel arbitrary: b bs msg)
  case 0
  then show ?case by simp
next
  case (Suc fuel)
  note h = Suc.prems(1) and len = Suc.prems(3)
  show ?case
  proof (rule parse_attempt_at [OF Suc.prems(1-5), of tag_type strtod flags])
    fix msg' m assume m: "0 < m" "m \<le> length bs" and "length (fm_fields msg') = 48"
      "iov0 msg' = (buffer_start b, of_nat m)"
      "parse_attempt tag_type strtod msg b flags = Some (Inr (), msg', buffer_advance b (of_nat m))"
    then show ?thesis
      by (intro exI [of _ True] exI [of _ msg'] exI [of _ msg] exI [of _ 0] exI [of _ m]) (simp add: garbled_none)
  next
    fix e msg' m assume m: "m \<le> length bs" "e = FIX_MSG_STATE_GARBLED \<longrightarrow> 0 < m" and fs: "length (fm_fields msg') = 48"
      and e: "parse_attempt tag_type strtod msg b flags = Some (Inl e, msg', buffer_advance b (of_nat m))"
    show ?thesis
    proof (cases e)
      case FIX_MSG_STATE_PARTIAL
      have "buffer_advance (buffer_advance b (of_nat m)) (of_int (buffer_start b - buffer_start (buffer_advance b (of_nat m)))) = b"
        unfolding buffer_start_advance [OF h m(1)] by simp
      with e fs show ?thesis
        by (intro exI [of _ False] exI [of _ msg'] exI [of _ msg] exI [of _ 0]) (simp add: FIX_MSG_STATE_PARTIAL garbled_none)
    next
      case FIX_MSG_STATE_GARBLED
      with m have m0: "0 < m" by simp
      let ?b = "buffer_advance b (of_nat m)"
      have 1: "holds ?b (drop m bs)" using holds_advance [OF h m(1)] .
      have 2: "2 \<le> buffer_room ?b" using Suc.prems(2) by (simp add: buffer_room_def)
      have 3: "length (drop m bs) < 2 ^ 31" "length (drop m bs) < fuel" using len m0 m(1) Suc.prems(6) by simp_all
      have 4: "count_list (drop m bs) 1 \<le> 51" using count_drop_le [of 0 m bs 1] Suc.prems(5) by simp
      from Suc.IH [OF 1 2 3(1) fs 4 3(2)] obtain ok msg2 msg0 n k where
        r: "fix_parse_loop tag_type strtod fuel msg' ?b flags = Some (ok, msg2, buffer_advance ?b (of_nat k))"
        and k: "n \<le> k" "k \<le> length (drop m bs)" "length (fm_fields msg2) = 48"
        and g: "garbled_run tag_type strtod flags msg' ?b msg0 (buffer_advance ?b (of_nat n))"
        and p: "if ok then n < k \<and> parse_attempt tag_type strtod msg0 (buffer_advance ?b (of_nat n)) flags
              = Some (Inr (), msg2, buffer_advance ?b (of_nat k)) \<and> iov0 msg2 = (buffer_start ?b + int n, of_nat (k - n))
           else n = k \<and> (\<exists>b1. parse_attempt tag_type strtod msg0 (buffer_advance ?b (of_nat n)) flags
              = Some (Inl FIX_MSG_STATE_PARTIAL, msg2, b1))" by blast
      have g': "garbled_run tag_type strtod flags msg b msg0 (buffer_advance ?b (of_nat n))"
        by (rule garbled_more [OF e [unfolded FIX_MSG_STATE_GARBLED] g])
      from r p k m(1) e g' show ?thesis unfolding buffer_start_advance [OF h m(1)]
        by (intro exI [of _ ok] exI [of _ msg2] exI [of _ msg0] exI [of _ "m + n"] exI [of _ "m + k"])
          (auto simp: FIX_MSG_STATE_GARBLED split: if_splits)
    qed
  qed
qed

subsection \<open>Properties\<close>

text \<open>C5: Parsing ends without a fault and within the buffer on any bytes, garbage included, that hold no more than 51 field
  delimiters (the array has 48 fields and the header takes three more), with two writable bytes behind them, which
  the message type may be looked for in.  What it consumes is exactly this: a run of attempts that each answered that what they
  looked at is garbled, and then, where that run stopped, either the bytes of a message, which the message's vector covers from its first byte to its last, or nothing, because there the
  message is not complete yet.\<close>

theorem fix_parse_ends:
  assumes "holds b bs" and "2 \<le> buffer_room b" and "length bs < 2 ^ 31"
    and "length (fm_fields msg) = 48" and "count_list bs 1 \<le> 51"
  shows "\<exists>ok msg' msg0 n m. fix_message_parse tag_type strtod msg b flags = Some (ok, msg', buffer_advance b (of_nat m))
    \<and> n \<le> m \<and> m \<le> length bs \<and> length (fm_fields msg') = 48
    \<and> garbled_run tag_type strtod flags msg b msg0 (buffer_advance b (of_nat n))
    \<and> (if ok then n < m \<and> parse_attempt tag_type strtod msg0 (buffer_advance b (of_nat n)) flags
             = Some (Inr (), msg', buffer_advance b (of_nat m))
           \<and> iov0 msg' = (buffer_start b + int n, of_nat (m - n))
       else n = m \<and> (\<exists>b1. parse_attempt tag_type strtod msg0 (buffer_advance b (of_nat n)) flags
             = Some (Inl FIX_MSG_STATE_PARTIAL, msg', b1)))"
proof -
  have "length bs < Suc (unat (buffer_size b))" using holds_size [OF assms(1)] by simp
  from parse_loop_total [OF assms this, of tag_type strtod flags] show ?thesis
    unfolding fix_message_parse_def .
qed

text \<open>A field that does not begin a message, and the beginning of one.\<close>

definition sample_input :: buffer where
  "sample_input = buffer_of [120, 61, 1, 56, 61, 70] 2"

theorem fix_parse_ends_witness:
  "\<exists>ok msg' msg0 n m. fix_message_parse fix_tag_type (\<lambda>_. 0) fix_message_new sample_input 0
      = Some (ok, msg', buffer_advance sample_input (of_nat m))
    \<and> n \<le> m \<and> m \<le> length [120, 61, 1, 56, 61, 70 :: u8] \<and> length (fm_fields msg') = 48
    \<and> garbled_run fix_tag_type (\<lambda>_. 0) 0 fix_message_new sample_input msg0 (buffer_advance sample_input (of_nat n))
    \<and> (if ok then n < m \<and> parse_attempt fix_tag_type (\<lambda>_. 0) msg0 (buffer_advance sample_input (of_nat n)) 0
             = Some (Inr (), msg', buffer_advance sample_input (of_nat m))
           \<and> iov0 msg' = (buffer_start sample_input + int n, of_nat (m - n))
       else n = m \<and> (\<exists>b1. parse_attempt fix_tag_type (\<lambda>_. 0) msg0 (buffer_advance sample_input (of_nat n)) 0
             = Some (Inl FIX_MSG_STATE_PARTIAL, msg', b1)))"
proof (rule fix_parse_ends)
  show "holds sample_input [120, 61, 1, 56, 61, 70]" and "2 \<le> buffer_room sample_input"
    unfolding sample_input_def by (simp_all add: buffer_of_holds)
qed (simp_all add: fix_message_new_def)

text \<open>The array of 48 fields is the only bound there is: one more string field, and the parser
  stores behind the array.\<close>

lemma rest_loop_overflows:
  assumes "length (fm_fields msg) = 48" "48 \<le> unat k" "parse_field b = Some (Inr (tag, p), b')"
    and "tag_type tag = FIX_TYPE_STRING"
  shows "rest_loop tag_type strtod (Suc fuel) k msg b = None"
  using assms by (simp add: store_field_def mem_put_def uint_nat del: of_nat_unat)

end
