(* ===== verification/Fix_Print.thy ===== *)
theory Fix_Print
  imports Fix_Message
begin

text \<open>
  The FIX printer of lib/proto/fix_message.c: the text of a field and of a message, and that
  the printing steps, with enough room in the two buffers, append exactly that text.
\<close>

subsection \<open>The text of a field\<close>

definition value_text :: "(u64 \<Rightarrow> u8 list) \<Rightarrow> mem \<Rightarrow> fix_field \<Rightarrow> u8 list option" where
  "value_text dtoa2 rx f =
     (case ff_type f of
        FIX_TYPE_STRING \<Rightarrow> do {
          p \<leftarrow> string_of_value (ff_value f);
          cs \<leftarrow> deref rx p;
          n \<leftarrow> c_strlen cs;
          Some (take n cs) }
      | FIX_TYPE_STRING_8 \<Rightarrow>
          (case ff_value f of String8Val m \<Rightarrow> Some (takeWhile (\<lambda>c. c \<noteq> 0) (take 8 m)) | _ \<Rightarrow> None)
      | FIX_TYPE_CHAR \<Rightarrow> map_option (\<lambda>c. [c]) (char_of_value (ff_value f))
      | FIX_TYPE_FLOAT \<Rightarrow> map_option dtoa2 (float_of_value (ff_value f))
      | FIX_TYPE_INT \<Rightarrow> map_option (\<lambda>v. dec_int (sint v)) (int_of_value (ff_value f))
      | FIX_TYPE_CHECKSUM \<Rightarrow> do {
          v \<leftarrow> int_of_value (ff_value f);
          if unat v < 1000 then Some (pad3_digits (unat v)) else None }
      | FIX_TYPE_MSGSEQNUM \<Rightarrow> Some [])"

definition field_text :: "(u64 \<Rightarrow> u8 list) \<Rightarrow> mem \<Rightarrow> fix_field \<Rightarrow> u8 list option" where
  "field_text dtoa2 rx f =
     map_option (\<lambda>t. dec_digits (unat (ff_tag f)) @ 61 # t @ [1]) (value_text dtoa2 rx f)"

fun fields_text :: "(u64 \<Rightarrow> u8 list) \<Rightarrow> mem \<Rightarrow> fix_field list \<Rightarrow> u8 list option" where
  "fields_text dtoa2 rx [] = Some []"
| "fields_text dtoa2 rx (f # fs) = do {
     t \<leftarrow> field_text dtoa2 rx f;
     ts \<leftarrow> fields_text dtoa2 rx fs;
     Some (t @ ts) }"

subsection \<open>Printing a field appends its text\<close>

lemma buffer_extend_splice:
  "buffer_extend b xs = b\<lparr>data := splice (data b) (unat (b_end b)) xs, b_end := b_end b + of_nat (length xs)\<rparr>"
  by (simp add: buffer_extend_def splice_def)

text \<open>A number printer may leave a NUL behind the number; the delimiter that follows overwrites it.\<close>

lemma print_put:
  assumes wf: "buffer_wf b" and room: "length t < buffer_room b" and t: "length t < 2 ^ 31" and z: "length z \<le> 1"
    and pr: "pr (data b) (int (unat (b_end b))) = Some (splice (data b) (unat (b_end b)) (t @ z), of_nat (length t))"
  shows "(do { b \<leftarrow> buffer_print b pr; buffer_put b c }) = Some (buffer_extend b (t @ [c]))"
proof -
  let ?e = "unat (b_end b)"
  have len: "?e + length t < length (data b)"
    using wf room by (auto simp: buffer_wf_def buffer_room_def)
  have sc: "(scast (of_nat (length t) :: i32) :: ulong) = of_nat (length t)"
  proof -
    have "sint (of_nat (length t) :: i32) = int (length t)"
      using t by (simp add: signed_of_nat signed_take_bit_int_eq_self)
    then show ?thesis by (metis of_int_of_nat_eq of_int_sint scast_eq)
  qed
  have "buffer_end b = int ?e" by (simp add: buffer_end_def)
  then have p: "buffer_print b pr = Some (b\<lparr>data := splice (data b) ?e (t @ z), b_end := b_end b + of_nat (length t)\<rparr>)"
    using pr by (simp add: buffer_print_def sc)
  have e: "unat (b_end b + of_nat (length t)) = ?e + length t"
    using unat_end_extend [OF wf, of t] room by simp
  have s: "splice (splice (data b) ?e (t @ z)) (?e + length t) [c] = splice (data b) ?e (t @ [c])"
    using len z by (cases z) (auto simp: splice_def)
  have "mem_put (splice (data b) ?e (t @ z)) (uint (b_end b + of_nat (length t))) c
      = Some (splice (data b) ?e (t @ [c]))"
    unfolding uint_nat e using len z by (subst mem_put_splice) (auto simp: s)
  with p show ?thesis
    by (simp add: buffer_put_def buffer_extend_splice add.assoc)
qed

lemma length_dec_u32: "length (dec_digits (unat (n :: u32))) \<le> 10"
  by (rule length_dec_digits_le) (use unat_less_power [of n] in simp_all)

lemma length_dec_i64: "length (dec_int (sint (n :: i64))) \<le> 20"
proof -
  have "\<bar>sint n\<bar> < 10 ^ 19" using sint_range_size [of n] by (auto simp: word_size)
  then have "nat \<bar>sint n\<bar> < 10 ^ 19" by simp
  then have "length (dec_digits (nat \<bar>sint n\<bar>)) \<le> 19" by (rule length_dec_digits_le) simp
  then show ?thesis by (cases "sint n < 0") (simp_all add: dec_int_def)
qed

lemma int_put:
  assumes wf: "buffer_wf b" and room: "length (dec_int (sint v)) < buffer_room b"
  shows "(do { b \<leftarrow> buffer_print b (i64toa v); buffer_put b c }) = Some (buffer_extend b (dec_int (sint v) @ [c]))"
proof (rule print_put [OF wf room])
  have "unat (b_end b) + length (dec_int (sint v)) < length (data b)"
    using wf room by (auto simp: buffer_wf_def buffer_room_def)
  then show "i64toa v (data b) (int (unat (b_end b))) = Some (splice (data b) (unat (b_end b))
      (dec_int (sint v) @ (if - 2147483648 \<le> sint v \<and> sint v \<le> 2147483647 then [] else [0])),
      of_nat (length (dec_int (sint v))))" by (rule i64toa_spec)
  show "length (dec_int (sint v)) < 2 ^ 31" using length_dec_i64 [of v] by simp
qed simp

lemma tag_put:
  assumes wf: "buffer_wf b" and room: "length (dec_digits (unat n)) < buffer_room b"
  shows "(do { b \<leftarrow> buffer_print b (uitoa n); buffer_put b c }) = Some (buffer_extend b (dec_digits (unat n) @ [c]))"
proof (rule print_put [OF wf room, where z = "[]"])
  have "unat (b_end b) + length (dec_digits (unat n)) \<le> length (data b)"
    using wf room by (auto simp: buffer_wf_def buffer_room_def)
  then show "uitoa n (data b) (int (unat (b_end b))) = Some (splice (data b) (unat (b_end b))
      (dec_digits (unat n) @ []), of_nat (length (dec_digits (unat n))))" by (simp only: append_Nil2 uitoa_spec)
  show "length (dec_digits (unat n)) < 2 ^ 31" using length_dec_u32 [of n] by simp
qed simp

lemma checksum_put:
  assumes wf: "buffer_wf b" and room: "3 < buffer_room b" and v: "unat (v :: i64) < 1000"
  shows "(do { b \<leftarrow> buffer_print b (checksumtoa (ucast v)); buffer_put b c })
    = Some (buffer_extend b (pad3_digits (unat v) @ [c]))"
proof (rule print_put [OF wf, where z = "[]"])
  have u: "unat (ucast v :: i32) = unat v"
    using v by (simp add: unsigned_ucast_eq take_bit_nat_eq_self)
  have s: "sint (ucast v :: i32) = int (unat v)"
  proof -
    have "sint (of_nat (unat v) :: i32) = int (unat v)"
      using v by (simp add: signed_of_nat signed_take_bit_int_eq_self del: of_nat_unat)
    moreover have "(ucast v :: i32) = of_nat (unat v)" by simp
    ultimately show ?thesis by (simp only:)
  qed
  have l: "length (pad3_digits n) = 3" for n by (simp add: pad3_digits_def)
  show "length (pad3_digits (unat v)) < buffer_room b" using room by (simp add: l)
  have "unat (b_end b) + 3 \<le> length (data b)" using wf room by (auto simp: buffer_wf_def buffer_room_def)
  then show "checksumtoa (ucast v) (data b) (int (unat (b_end b))) = Some (splice (data b) (unat (b_end b))
      (pad3_digits (unat v) @ []), of_nat (length (pad3_digits (unat v))))"
    using checksumtoa_spec [of "ucast v" "unat (b_end b)" "data b"] v by (simp add: s l del: of_nat_unat)
qed (simp_all add: pad3_digits_def)

lemma puts_put:
  assumes wf: "buffer_wf b" and room: "length t < buffer_room b"
  shows "(do { b \<leftarrow> buffer_puts b t; buffer_put b c }) = Some (buffer_extend b (t @ [c]))"
  using puts_extend [OF wf, of "t @ [c]"] room by (simp add: puts_append bind_def [symmetric])

lemma float_put:
  assumes wf: "buffer_wf b" and room: "length (dtoa2 v) < buffer_room b" and t: "length (dtoa2 v) < 2 ^ 31"
  shows "(do { b \<leftarrow> buffer_print b (print_dtoa2 dtoa2 v); buffer_put b c }) = Some (buffer_extend b (dtoa2 v @ [c]))"
proof (rule print_put [OF wf room t, where z = "[0]"])
  have "unat (b_end b) + length (dtoa2 v @ [0]) \<le> length (data b)"
    using wf room by (auto simp: buffer_wf_def buffer_room_def)
  then show "print_dtoa2 dtoa2 v (data b) (int (unat (b_end b)))
      = Some (splice (data b) (unat (b_end b)) (dtoa2 v @ [0]), of_nat (length (dtoa2 v)))"
    by (simp only: print_dtoa2_def mem_store_splice Option.bind.bind_lunit)
qed simp

lemma unparse_value_put:
  assumes wf: "buffer_wf b" and t: "value_text dtoa2 rx f = Some t"
    and room: "length t < buffer_room b" and l: "length t < 2 ^ 31"
  shows "(do { b \<leftarrow> unparse_value dtoa2 rx f b; buffer_put b c }) = Some (buffer_extend b (t @ [c]))"
proof (cases "ff_type f")
  case FIX_TYPE_STRING
  then obtain p cs n where s: "string_of_value (ff_value f) = Some p" "deref rx p = Some cs" "c_strlen cs = Some n"
    and "t = take n cs" using t by (auto simp: value_text_def split: bind_splits)
  with FIX_TYPE_STRING puts_put [OF wf room] show ?thesis by (simp add: unparse_value_def)
next
  case FIX_TYPE_STRING_8
  then obtain m where "ff_value f = String8Val m" "t = takeWhile (\<lambda>c. c \<noteq> 0) (take 8 m)"
    using t by (auto simp: value_text_def split: fix_value.splits)
  with FIX_TYPE_STRING_8 puts_put [OF wf room] show ?thesis by (simp add: unparse_value_def)
next
  case FIX_TYPE_CHAR
  then obtain x where "char_of_value (ff_value f) = Some x" "t = [x]" using t by (auto simp: value_text_def)
  with FIX_TYPE_CHAR puts_put [OF wf room] show ?thesis by (simp add: unparse_value_def bind_def)
next
  case FIX_TYPE_FLOAT
  then obtain v where "float_of_value (ff_value f) = Some v" "t = dtoa2 v" using t by (auto simp: value_text_def)
  with FIX_TYPE_FLOAT float_put [OF wf] room l show ?thesis by (simp add: unparse_value_def)
next
  case FIX_TYPE_INT
  then obtain v where "int_of_value (ff_value f) = Some v" "t = dec_int (sint v)" using t by (auto simp: value_text_def)
  with FIX_TYPE_INT int_put [OF wf] room show ?thesis by (simp add: unparse_value_def)
next
  case FIX_TYPE_CHECKSUM
  then obtain v where "int_of_value (ff_value f) = Some v" "unat v < 1000" "t = pad3_digits (unat v)"
    using t by (auto simp: value_text_def split: bind_splits if_splits)
  with FIX_TYPE_CHECKSUM checksum_put [OF wf] room show ?thesis by (simp add: unparse_value_def pad3_digits_def)
next
  case FIX_TYPE_MSGSEQNUM
  with t puts_put [OF wf room] show ?thesis by (simp add: unparse_value_def value_text_def)
qed

lemma field_unparse_extend:
  assumes wf: "buffer_wf b" and t: "field_text dtoa2 rx f = Some t"
    and room: "length t \<le> buffer_room b" and l: "length t < 2 ^ 31"
  shows "fix_field_unparse dtoa2 rx f b = Some (buffer_extend b t)"
proof -
  obtain v where v: "value_text dtoa2 rx f = Some v" and tv: "t = (dec_digits (unat (ff_tag f)) @ [61]) @ v @ [1]"
    using t by (auto simp: field_text_def)
  let ?b = "buffer_extend b (dec_digits (unat (ff_tag f)) @ [61])"
  have 1: "(do { b \<leftarrow> buffer_print b (uitoa (ff_tag f)); buffer_put b 61 }) = Some ?b"
    by (rule tag_put [OF wf]) (use room in \<open>simp add: tv\<close>)
  have wf1: "buffer_wf ?b" by (rule extend_wf [OF wf]) (use room in \<open>simp add: tv\<close>)
  have r1: "buffer_room ?b = buffer_room b - length (dec_digits (unat (ff_tag f)) @ [61])"
    by (rule extend_room [OF wf]) (use room in \<open>simp add: tv\<close>)
  have 2: "(do { b \<leftarrow> unparse_value dtoa2 rx f ?b; buffer_put b 1 }) = Some (buffer_extend ?b (v @ [1]))"
    by (rule unparse_value_put [OF wf1 v]) (use room l in \<open>simp_all only: r1, simp_all add: tv\<close>)
  have "buffer_extend ?b (v @ [1]) = buffer_extend b t"
    unfolding tv by (rule extend_extend [OF wf]) (use room in \<open>simp add: tv\<close>)
  with 1 2 show ?thesis
    by (auto simp: fix_field_unparse_def split: bind_splits)
qed

lemma fields_unparse_extend:
  "buffer_wf b \<Longrightarrow> fields_text dtoa2 rx fs = Some t \<Longrightarrow> length t \<le> buffer_room b \<Longrightarrow> length t < 2 ^ 31 \<Longrightarrow>
     unparse_fields dtoa2 rx fs b = Some (buffer_extend b t)"
proof (induction fs arbitrary: b t)
  case Nil
  then show ?case by simp
next
  case (Cons f fs)
  then obtain t1 t2 where t: "field_text dtoa2 rx f = Some t1" "fields_text dtoa2 rx fs = Some t2" "t = t1 @ t2"
    by (auto split: bind_splits)
  note p = Cons.prems
  have f: "fix_field_unparse dtoa2 rx f b = Some (buffer_extend b t1)"
    by (rule field_unparse_extend [OF p(1) t(1)]) (use p(3,4) t(3) in simp_all)
  have "unparse_fields dtoa2 rx fs (buffer_extend b t1) = Some (buffer_extend (buffer_extend b t1) t2)"
    using p t(3) by (intro Cons.IH [OF _ t(2)]) (auto simp: extend_room intro!: extend_wf)
  also have "buffer_extend (buffer_extend b t1) t2 = buffer_extend b t"
    unfolding t(3) by (rule extend_extend [OF p(1)]) (use p(3) t(3) in simp)
  finally show ?case by (simp add: f)
qed

lemma fields_text_append:
  "fields_text dtoa2 rx (fs @ gs) = do {
     t \<leftarrow> fields_text dtoa2 rx fs;
     ts \<leftarrow> fields_text dtoa2 rx gs;
     Some (t @ ts) }"
  by (induction fs) (auto split: bind_splits)

lemma fields_text_snoc:
  "fields_text dtoa2 rx fs = Some t \<Longrightarrow> field_text dtoa2 rx f = Some u \<Longrightarrow> fields_text dtoa2 rx (fs @ [f]) = Some (t @ u)"
  by (simp add: fields_text_append)

subsection \<open>The text of a message\<close>

text \<open>The body, from MsgType on; the head, with the length of the body; and the trailer, with the
  sum of all the bytes before it modulo 256.\<close>

definition body_fields :: "fix_message \<Rightarrow> mem \<Rightarrow> fix_field list option" where
  "body_fields msg rx = do {
     now \<leftarrow> copy_str_now rx (str_now msg);
     hs \<leftarrow> header_fields msg now;
     fs \<leftarrow> mem_load (fm_fields msg) 0 (unat (fm_nr_fields msg));
     Some (hs @ fs) }"

definition head_text :: "u8 list \<Rightarrow> nat \<Rightarrow> u8 list" where
  "head_text begin len = [56, 61] @ begin @ [1] @ [57, 61] @ dec_digits len @ [1]"

definition trailer_text :: "u8 list \<Rightarrow> u8 list" where
  "trailer_text bs = [49, 48, 61] @ pad3_digits (unat (sum_list bs)) @ [1]"

definition wire_text :: "u8 list \<Rightarrow> u8 list \<Rightarrow> u8 list" where
  "wire_text begin body =
     (let h = head_text begin (length body) in h @ body @ trailer_text (h @ body))"

definition c_text :: "mem \<Rightarrow> char_ptr \<Rightarrow> u8 list option" where
  "c_text rx p = do { cs \<leftarrow> deref rx p; n \<leftarrow> c_strlen cs; Some (take n cs) }"

lemma trailer_length [simp]: "length (trailer_text bs) = 7"
  by (simp add: trailer_text_def pad3_digits_def)

lemma c_text_string: "field_text dtoa2 rx (FIX_STRING_FIELD tag p) =
    map_option (\<lambda>t. dec_digits (unat tag) @ 61 # t @ [1]) (c_text rx p)"
  by (simp add: field_text_def value_text_def FIX_STRING_FIELD_def c_text_def)

lemma sint_of_nat_64: "n < 2 ^ 31 \<Longrightarrow> sint (of_nat n :: i64) = int n"
  by (simp add: signed_of_nat signed_take_bit_int_eq_self)

lemma dec_int_of_nat: "n < 2 ^ 31 \<Longrightarrow> dec_int (sint (of_nat n :: i64)) = dec_digits n"
  by (simp add: sint_of_nat_64 dec_int_def)

lemma dec_digits_tags: "dec_digits 8 = [56]" "dec_digits 9 = [57]" "dec_digits 10 = [49, 48]"
  by (simp_all add: dec_digits.simps)

lemma begin_field: "c_text rx p = Some t \<Longrightarrow>
    field_text dtoa2 rx (FIX_STRING_FIELD BeginString p) = Some ([56, 61] @ t @ [1])"
  by (simp add: c_text_string BeginString_def dec_digits_tags)

lemma length_field: "n < 2 ^ 31 \<Longrightarrow>
    field_text dtoa2 rx (FIX_INT_FIELD BodyLength (of_nat n)) = Some ([57, 61] @ dec_digits n @ [1])"
  by (simp add: field_text_def value_text_def FIX_INT_FIELD_def BodyLength_def dec_int_of_nat dec_digits_tags)

lemma unat_sum_mod:
  "unat ((ucast (c1 :: u8) + ucast (c2 :: u8) :: ulong) mod 256) = unat (c1 + c2)"
proof -
  have "unat (ucast c1 + ucast c2 :: ulong) = unat c1 + unat c2"
    using unat_less_power [of c1] unat_less_power [of c2]
    by (subst unat_add_le) (simp_all add: unsigned_ucast_eq take_bit_nat_eq_self)
  then show ?thesis by (simp add: unat_mod unat_word_ariths)
qed

lemma trailer_field:
  assumes "unat (v :: i64) = unat (sum_list bs :: u8)"
  shows "field_text dtoa2 rx (FIX_CHECKSUM_FIELD CheckSum v) = Some (trailer_text bs)"
  using assms unat_less_power [of "sum_list bs"]
  by (simp add: field_text_def value_text_def FIX_CHECKSUM_FIELD_def CheckSum_def trailer_text_def dec_digits_tags)

lemma unparse_wire:
  assumes h: "holds head []" and b: "holds body []"
    and fs: "body_fields msg rx = Some fs" and t: "fields_text dtoa2 rx fs = Some t"
    and bs: "c_text rx (begin_string msg) = Some begin"
    and hroom: "length (head_text begin (length t)) \<le> buffer_room head"
    and broom: "length t + 7 \<le> buffer_room body" and len: "length (wire_text begin t) < 2 ^ 31"
  shows "fix_message_unparse dtoa2 rx msg head body =
    Some (buffer_extend head (head_text begin (length t)),
          buffer_extend body (t @ trailer_text (head_text begin (length t) @ t)))"
proof -
  let ?H = "head_text begin (length t)" and ?H1 = "[56, 61] @ begin @ [1]" and ?H2 = "[57, 61] @ dec_digits (length t) @ [1]"
  have H: "?H = ?H1 @ ?H2" by (simp add: head_text_def)
  note wh = holds_wf [OF h] and wb = holds_wf [OF b]
  have l: "length t < 2 ^ 31" "length ?H < 2 ^ 31" using len by (simp_all add: wire_text_def Let_def)
  obtain now hs ms where now: "copy_str_now rx (str_now msg) = Some now" "header_fields msg now = Some hs"
      "mem_load (fm_fields msg) 0 (unat (fm_nr_fields msg)) = Some ms" "fs = hs @ ms"
    using fs by (auto simp: body_fields_def split: bind_splits)
  obtain th tm where tt: "fields_text dtoa2 rx hs = Some th" "fields_text dtoa2 rx ms = Some tm" "t = th @ tm"
    using t by (auto simp: now(4) fields_text_append split: bind_splits)
  have b1: "unparse_fields dtoa2 rx hs body = Some (buffer_extend body th)"
    by (rule fields_unparse_extend [OF wb tt(1)]) (use broom l tt(3) in simp_all)
  have b2: "unparse_fields dtoa2 rx ms (buffer_extend body th) = Some (buffer_extend body t)"
  proof -
    have "unparse_fields dtoa2 rx ms (buffer_extend body th) = Some (buffer_extend (buffer_extend body th) tm)"
      using wb broom l tt(3) by (intro fields_unparse_extend [OF _ tt(2)]) (auto simp: extend_room intro!: extend_wf)
    then show ?thesis using wb broom by (simp add: extend_extend tt(3))
  qed
  have hb: "holds (buffer_extend body t) t" using holds_extend [OF b, of t] broom by simp
  have h1: "fix_field_unparse dtoa2 rx (FIX_STRING_FIELD BeginString (begin_string msg)) head = Some (buffer_extend head ?H1)"
    by (rule field_unparse_extend [OF wh begin_field [OF bs]]) (use hroom l in \<open>simp_all add: H\<close>)
  have h2: "fix_field_unparse dtoa2 rx (FIX_INT_FIELD BodyLength (buffer_size (buffer_extend body t))) (buffer_extend head ?H1)
      = Some (buffer_extend head ?H)"
  proof -
    have "fix_field_unparse dtoa2 rx (FIX_INT_FIELD BodyLength (of_nat (length t))) (buffer_extend head ?H1)
        = Some (buffer_extend (buffer_extend head ?H1) ?H2)"
      using wh hroom l by (intro field_unparse_extend [OF _ length_field [OF l(1)]])
        (auto simp: H extend_room intro!: extend_wf)
    also have "buffer_extend (buffer_extend head ?H1) ?H2 = buffer_extend head ?H"
      unfolding H by (rule extend_extend [OF wh]) (use hroom in \<open>simp add: H\<close>)
    finally show ?thesis by (simp only: holds_size_of_nat [OF hb])
  qed
  have hh: "holds (buffer_extend head ?H) ?H" using holds_extend [OF h hroom] by simp
  have b3: "fix_field_unparse dtoa2 rx (FIX_CHECKSUM_FIELD CheckSum ((ucast (sum_list ?H) + ucast (sum_list t)) mod 256)) (buffer_extend body t)
      = Some (buffer_extend body (t @ trailer_text (?H @ t)))"
  proof -
    have "unat ((ucast (sum_list ?H) + ucast (sum_list t) :: ulong) mod 256) = unat (sum_list (?H @ t))"
      unfolding unat_sum_mod by simp
    then have "fix_field_unparse dtoa2 rx (FIX_CHECKSUM_FIELD CheckSum ((ucast (sum_list ?H) + ucast (sum_list t)) mod 256)) (buffer_extend body t)
        = Some (buffer_extend (buffer_extend body t) (trailer_text (?H @ t)))"
      using wb broom by (intro field_unparse_extend [OF _ trailer_field]) (auto simp: extend_room intro!: extend_wf)
    then show ?thesis using wb broom by (simp add: extend_extend)
  qed
  show ?thesis
    unfolding fix_message_unparse_def now Option.bind.bind_lunit b1 b2 h1 h2 holds_sum [OF hh] holds_sum [OF hb] Let_def b3
    by simp
qed

subsection \<open>Properties\<close>

text \<open>C7: printing a message produces exactly the FIX framing: in the head buffer BeginString and
  BodyLength, in the body buffer MsgType, the other header fields, the message's fields and
  CheckSum.  BodyLength counts the bytes between its own delimiter and the CheckSum field, and
  CheckSum is the three-digit sum of all the bytes before it modulo 256, whatever the fields are.\<close>

theorem unparse_framing:
  assumes "holds head []" and "holds body []"
    and "body_fields msg rx = Some fs" and "fields_text dtoa2 rx fs = Some t"
    and "c_text rx (begin_string msg) = Some begin"
    and "length (head_text begin (length t)) \<le> buffer_room head"
    and "length t + 7 \<le> buffer_room body" and "length (wire_text begin t) < 2 ^ 31"
  shows "\<exists>hb bb. fix_message_unparse dtoa2 rx msg head body = Some (hb, bb)
    \<and> buf_bytes hb = [56, 61] @ begin @ [1] @ [57, 61] @ dec_digits (length t) @ [1]
    \<and> buf_bytes bb = t @ [49, 48, 61]
        @ pad3_digits (sum_list (map unat (buf_bytes hb @ t)) mod 256) @ [1]"
proof -
  let ?H = "head_text begin (length t)"
  have hb: "buf_bytes (buffer_extend head ?H) = ?H"
    using holds_extend [OF assms(1,6)] by (simp add: holds_def)
  have bb: "buf_bytes (buffer_extend body (t @ trailer_text (?H @ t))) = t @ trailer_text (?H @ t)"
    using holds_extend [OF assms(2), of "t @ trailer_text (?H @ t)"] assms(7) by (simp add: holds_def)
  have tr: "trailer_text (?H @ t) = [49, 48, 61] @ pad3_digits (sum_list (map unat (?H @ t)) mod 256) @ [1]"
    by (simp only: trailer_text_def unat_sum_list_u8)
  show ?thesis
  proof (intro exI conjI)
    show "fix_message_unparse dtoa2 rx msg head body =
      Some (buffer_extend head ?H, buffer_extend body (t @ trailer_text (?H @ t)))" by (rule unparse_wire [OF assms])
    show "buf_bytes (buffer_extend head ?H) = [56, 61] @ begin @ [1] @ [57, 61] @ dec_digits (length t) @ [1]"
      unfolding hb by (rule head_text_def)
    show "buf_bytes (buffer_extend body (t @ trailer_text (?H @ t))) = t @ [49, 48, 61]
        @ pad3_digits (sum_list (map unat (buf_bytes (buffer_extend head ?H) @ t)) mod 256) @ [1]"
      using bb unfolding hb tr .
  qed
qed

text \<open>A concrete heartbeat, with one field of its own.\<close>

definition sample_fix :: fix_message where
  "sample_fix = \<lparr>fm_type = FIX_MSG_TYPE_HEARTBEAT, begin_string = Str (chars ''FIX.4.4'' @ [0]),
     body_length = 0, msg_type = Str [0], sender_comp_id = Str (chars ''A'' @ [0]),
     target_comp_id = Str (chars ''B'' @ [0]), msg_seq_num = 7, check_sum = Str [0],
     str_now = Str (chars ''20250101-10:00:00'' @ [0]), fm_nr_fields = 1,
     fm_fields = FIX_INT_FIELD 369 (- 5) # replicate 47 (FIX_INT_FIELD 0 0), iov0 = (0, 0)\<rparr>"

definition soh :: "string \<Rightarrow> u8 list" where
  "soh s = map (\<lambda>c. if c = CHR ''|'' then 1 else of_char c) s"

definition sample_fix_body :: "u8 list" where
  "sample_fix_body = soh ''35=0|49=A|56=B|34=7|52=20250101-10:00:00|369=-5|''"

lemma sample_fix_text:
  "do { fs \<leftarrow> body_fields sample_fix []; fields_text (\<lambda>_. []) [] fs } = Some sample_fix_body"
  by code_simp

lemma sample_fix_begin: "c_text [] (begin_string sample_fix) = Some (chars ''FIX.4.4'')"
  by code_simp

theorem unparse_framing_witness:
  "\<exists>hb bb. fix_message_unparse (\<lambda>_. []) [] sample_fix (buffer_of [] 40) (buffer_of [] 100) = Some (hb, bb)
     \<and> buf_bytes hb = soh ''8=FIX.4.4|9=48|'' \<and> buf_bytes bb = sample_fix_body @ soh ''10=193|''"
proof -
  obtain fs where fs: "body_fields sample_fix [] = Some fs" "fields_text (\<lambda>_. []) [] fs = Some sample_fix_body"
    using sample_fix_text by (auto split: bind_splits)
  have h: "holds (buffer_of [] 40) []" "holds (buffer_of [] 100) []"
      "buffer_room (buffer_of [] 40) = 40" "buffer_room (buffer_of [] 100) = 100"
    by (rule buffer_of_holds; simp)+
  have l: "length sample_fix_body = 48" by code_simp
  have d: "[56, 61] @ chars ''FIX.4.4'' @ [1] @ [57, 61] @ dec_digits 48 @ [1] = soh ''8=FIX.4.4|9=48|''"
    by code_simp
  have c: "[49, 48, 61] @ pad3_digits (sum_list (map unat (soh ''8=FIX.4.4|9=48|'' @ sample_fix_body)) mod 256) @ [1]
      = soh ''10=193|''" by code_simp
  have ht: "length (head_text (chars ''FIX.4.4'') (length sample_fix_body)) \<le> buffer_room (buffer_of [] 40)"
    unfolding h(3) l by code_simp
  have bt: "length sample_fix_body + 7 \<le> buffer_room (buffer_of [] 100)" unfolding h(4) l by simp
  have "length (wire_text (chars ''FIX.4.4'') sample_fix_body) = 70" by code_simp
  then have wt: "length (wire_text (chars ''FIX.4.4'') sample_fix_body) < 2 ^ 31" by simp
  obtain hb bb where r: "fix_message_unparse (\<lambda>_. []) [] sample_fix (buffer_of [] 40) (buffer_of [] 100) = Some (hb, bb)"
    and hb: "buf_bytes hb = soh ''8=FIX.4.4|9=48|''"
    and bb: "buf_bytes bb = sample_fix_body @ [49, 48, 61]
        @ pad3_digits (sum_list (map unat (buf_bytes hb @ sample_fix_body)) mod 256) @ [1]"
    using unparse_framing [OF h(1,2) fs sample_fix_begin ht bt wt, unfolded l d] by blast
  show ?thesis using r hb bb [unfolded hb c] by blast
qed

end
