(* ===== verification/Fix_Roundtrip.thy ===== *)
theory Fix_Roundtrip
  imports Fix_Parse Fix_Print
begin

text \<open>
  The FIX parser and printer of lib/proto/fix_message.c together: what a parse makes of a
  well-formed message, that a printed message is parsed back, and that no proper prefix of one
  is ever consumed.
\<close>

subsection \<open>Well-formed fields\<close>

definition kv_text :: "i32 \<times> u8 list \<Rightarrow> u8 list" where
  "kv_text kv = dec_digits (unat (fst kv)) @ 61 # snd kv @ [1]"

lemma dec_val_tag: "dec_val (dec_digits (unat (t :: i32))) = t"
  by (simp add: dec_val_digits)

lemma no_eq_in_digits: "61 \<notin> set (dec_digits n)"
  using dec_digits_are_digits [of 61 n] by (auto simp: word_le_nat_alt)

lemma scan_tag_text: "scan_tag (dec_digits (unat t) @ 61 # r) = (Inr t, Suc (length (dec_digits (unat t))))"
  by (simp add: scan_tag_def no_eq_in_digits dec_digits_all dec_val_tag)

lemma scan_value_text: "1 \<notin> set v \<Longrightarrow> scan_value (v @ 1 # r) = (Inr (), Suc (length v))"
  by (simp add: scan_value_def)

lemma scan_field_text:
  assumes "1 \<notin> set v"
  shows "scan_field (kv_text (t, v) @ r) = (Inr (t, Suc (length (dec_digits (unat t)))), length (kv_text (t, v)))"
  using scan_tag_text [of t "v @ 1 # r"] scan_value_text [OF assms, of r]
  by (simp add: scan_field_def kv_text_def)

lemma scan_match_text:
  assumes "1 \<notin> set v"
  shows "scan_match t (kv_text (t, v) @ r) = (Inr (Suc (length (dec_digits (unat t)))), length (kv_text (t, v)))"
  using scan_tag_text [of t "v @ 1 # r"] scan_value_text [OF assms, of r]
  by (simp add: scan_match_def kv_text_def)

lemma match_field_text:
  assumes h: "holds b bs" and n: "n \<le> length bs" and d: "drop n bs = kv_text (t, v) @ r" and v: "1 \<notin> set v"
  shows "match_field (buffer_advance b (of_nat n)) t =
    Some (Inr (buffer_start b + int (n + Suc (length (dec_digits (unat t))))),
          buffer_advance b (of_nat (n + length (kv_text (t, v)))))"
  using match_field_scan [OF holds_advance [OF h n], of t] scan_match_text [OF v, of t r]
  by (simp add: d buffer_start_advance [OF h n] add.assoc)

lemma parse_field_text:
  assumes h: "holds b bs" and n: "n \<le> length bs" and d: "drop n bs = kv_text (t, v) @ r" and v: "1 \<notin> set v"
  shows "parse_field (buffer_advance b (of_nat n)) =
    Some (Inr (t, buffer_start b + int (n + Suc (length (dec_digits (unat t))))),
          buffer_advance b (of_nat (n + length (kv_text (t, v)))))"
  using parse_field_scan [OF holds_advance [OF h n]] scan_field_text [OF v, of t r]
  by (simp add: d buffer_start_advance [OF h n] add.assoc)

text \<open>The value at its place: \<open>q\<close> is the index of its first byte.\<close>

lemma drop_value:
  assumes "drop n bs = kv_text (t, v) @ r" and q: "q = n + Suc (length (dec_digits (unat t)))"
  shows "drop q bs = v @ 1 # r"
proof -
  have "drop q bs = drop (Suc (length (dec_digits (unat t)))) (drop n bs)"
    unfolding q by (simp add: add.commute)
  also have "\<dots> = v @ 1 # r" using assms(1) by (simp add: kv_text_def)
  finally show ?thesis .
qed

lemma uatoi_text:
  assumes h: "holds b bs" and q: "q \<le> length bs" and d: "drop q bs = ds @ c # r"
    and ds: "list_all is_digit ds" and c: "\<not> is_digit c"
  shows "fix_uatoi (data b) (buffer_start b + int q) = Some (dec_val ds, buffer_start b + int q + int (length ds))"
proof -
  obtain suf where "mem_from (data b) (buffer_start b + int q) = Some (drop q bs @ suf)"
    using holds_mem_from [OF h] q by blast
  moreover have "digits_loop (ds @ c # r @ suf) (0 :: i32) = Some (dec_val ds, length ds)"
    by (rule digits_loop_val [OF ds c])
  ultimately show ?thesis by (simp add: fix_uatoi_def d)
qed

definition atoi_val :: "u8 list \<Rightarrow> i64" where
  "atoi_val v = (if v \<noteq> [] \<and> hd v = 45 then - dec_val (takeWhile is_digit (tl v))
                 else dec_val (takeWhile is_digit v))"

lemma digits_loop_takeWhile:
  "\<not> is_digit c \<Longrightarrow> \<exists>n. digits_loop (v @ c # r) 0 = Some (dec_val (takeWhile is_digit v), n)"
proof -
  assume c: "\<not> is_digit c"
  obtain d r' where "v @ c # r = takeWhile is_digit v @ d # r'" "\<not> is_digit d"
  proof (cases "dropWhile is_digit v")
    case Nil
    then have "v = takeWhile is_digit v" by (metis append_Nil2 takeWhile_dropWhile_id)
    with c that [of c r] show thesis by simp
  next
    case (Cons d ds)
    then have "v = takeWhile is_digit v @ d # ds" "\<not> is_digit d"
      by (metis takeWhile_dropWhile_id, metis hd_dropWhile list.distinct(1) list.sel(1))
    with that [of d "ds @ c # r"] show thesis by (metis append.assoc append_Cons)
  qed
  moreover have "list_all is_digit (takeWhile is_digit v)" by (auto simp: list_all_iff dest: set_takeWhileD)
  ultimately show ?thesis using digits_loop_val by metis
qed

lemma atoi64_text:
  assumes h: "holds b bs" and q: "q < length bs" and d: "drop q bs = v @ 1 # r"
  obtains e where "fix_atoi64 (data b) (buffer_start b + int q) = Some (atoi_val v, e)"
proof -
  obtain suf where m: "\<And>k. k \<le> length bs \<Longrightarrow> mem_from (data b) (buffer_start b + int k) = Some (drop k bs @ suf)"
    using holds_mem_from [OF h] by blast
  have c: "mem_get (data b) (buffer_start b + int q) = Some (hd (v @ [1]))"
    using holds_mem_get [OF h q] d by (metis Cons_nth_drop_Suc q hd_append hd_append2 list.sel(1) append_Nil append_is_Nil_conv list.distinct(1))
  show thesis
  proof (cases "v \<noteq> [] \<and> hd v = 45")
    case True
    then obtain w where v: "v = 45 # w" by (cases v) auto
    then have "drop (Suc q) bs = w @ 1 # r" using d by (metis drop_Suc tl_drop append_Cons list.sel(3))
    then have "mem_from (data b) (buffer_start b + int q + 1) = Some (w @ 1 # r @ suf)"
      using m [of "Suc q"] q by (simp add: ac_simps)
    moreover obtain n where "digits_loop (w @ 1 # r @ suf) (0 :: i64) = Some (dec_val (takeWhile is_digit w), n)"
      using digits_loop_takeWhile [of 1 w "r @ suf"] by auto
    ultimately have "\<exists>e. fix_atoi64 (data b) (buffer_start b + int q) = Some (atoi_val v, e)"
      using c by (simp add: fix_atoi64_def v atoi_val_def Let_def)
    with that show thesis by blast
  next
    case False
    then have ne: "hd (v @ [1]) \<noteq> 45" by (cases v) auto
    have "mem_from (data b) (buffer_start b + int q) = Some (v @ 1 # r @ suf)"
      using m [of q] q d by simp
    moreover obtain n where "digits_loop (v @ 1 # r @ suf) (0 :: i64) = Some (dec_val (takeWhile is_digit v), n)"
      using digits_loop_takeWhile [of 1 v "r @ suf"] by auto
    ultimately have "\<exists>e. fix_atoi64 (data b) (buffer_start b + int q) = Some (atoi_val v, e)"
      using c ne False by (auto simp add: fix_atoi64_def atoi_val_def Let_def)
    with that show thesis by blast
  qed
qed

lemma atoi_val_dec_int: "atoi_val (dec_int (sint x)) = x"
proof -
  have t: "takeWhile is_digit (dec_digits n) = dec_digits n" for n
    using dec_digits_all by (simp add: list_all_iff takeWhile_eq_all_conv)
  have h: "hd (dec_digits n) \<noteq> 45" for n
    using dec_digits_are_digits [of "hd (dec_digits n)" n] by (auto simp: word_le_nat_alt)
  have "(of_nat (nat \<bar>sint x\<bar>) :: i64) = of_int \<bar>sint x\<bar>" by (simp add: of_nat_nat)
  then have a: "dec_val (dec_digits (nat \<bar>sint x\<bar>)) = (of_int \<bar>sint x\<bar> :: i64)" by (simp only: dec_val_digits)
  show ?thesis
  proof (cases "sint x < 0")
    case True
    then show ?thesis using a by (simp add: dec_int_def atoi_val_def t)
  next
    case False
    then show ?thesis using a by (simp add: dec_int_def atoi_val_def t h)
  qed
qed

subsection \<open>The fields behind the header\<close>

text \<open>The fields that \<open>rest_of_message\<close> stores for a run of fields, the first of which starts at \<open>p\<close>.\<close>

fun stored :: "(i32 \<Rightarrow> fix_type) \<Rightarrow> (u8 list \<Rightarrow> u64) \<Rightarrow> ptr \<Rightarrow> (i32 \<times> u8 list) list \<Rightarrow> fix_field list" where
  "stored tag_type strtod p [] = []"
| "stored tag_type strtod p ((t, v) # kvs) =
     (let q = p + int (Suc (length (dec_digits (unat t))));
          fs = stored tag_type strtod (p + int (length (kv_text (t, v)))) kvs
      in case tag_type t of
           FIX_TYPE_INT \<Rightarrow> FIX_INT_FIELD t (atoi_val v) # fs
         | FIX_TYPE_FLOAT \<Rightarrow> FIX_FLOAT_FIELD t (strtod (v @ [1])) # fs
         | FIX_TYPE_CHAR \<Rightarrow> FIX_CHAR_FIELD t (hd (v @ [1])) # fs
         | FIX_TYPE_STRING \<Rightarrow> FIX_STRING_FIELD t (Rx q) # fs
         | _ \<Rightarrow> fs)"

fun seq_after :: "(i32 \<Rightarrow> fix_type) \<Rightarrow> ulong \<Rightarrow> (i32 \<times> u8 list) list \<Rightarrow> ulong" where
  "seq_after tag_type s [] = s"
| "seq_after tag_type s ((t, v) # kvs) =
     seq_after tag_type (if tag_type t = FIX_TYPE_MSGSEQNUM then scast (dec_val (takeWhile is_digit v) :: i32) else s) kvs"

text \<open>\<open>strtod\<close> reads up to the first character that cannot belong to a number, and the delimiter is
  such a character.\<close>

definition strtod_local :: "(u8 list \<Rightarrow> u64) \<Rightarrow> bool" where
  "strtod_local strtod \<longleftrightarrow> (\<forall>v r. 1 \<notin> set v \<longrightarrow> strtod (v @ 1 # r) = strtod (v @ [1]))"

lemma mem_get_value:
  assumes "holds b bs" "q < length bs" "drop q bs = v @ 1 # r"
  shows "mem_get (data b) (buffer_start b + int q) = Some (hd (v @ [1]))"
proof -
  have "bs ! q = hd (drop q bs)" using assms(2) by (simp add: hd_drop_conv_nth)
  then show ?thesis using holds_mem_get [OF assms(1,2)] by (cases v) (simp_all add: assms(3))
qed

lemma uatoi_value:
  assumes "holds b bs" "q < length bs" "drop q bs = v @ 1 # r"
  obtains e where "fix_uatoi (data b) (buffer_start b + int q) = Some (dec_val (takeWhile is_digit v), e)"
proof -
  obtain suf where m: "mem_from (data b) (buffer_start b + int q) = Some (drop q bs @ suf)"
    using holds_mem_from [OF assms(1)] assms(2) by (metis less_imp_le_nat)
  obtain n where "digits_loop (v @ 1 # r @ suf) (0 :: i32) = Some (dec_val (takeWhile is_digit v), n)"
    using digits_loop_takeWhile [of 1 v "r @ suf"] by auto
  with m assms(3) that show thesis by (simp add: fix_uatoi_def)
qed

lemma store_field_splice:
  assumes "unat k < length (fm_fields msg)"
  shows "store_field msg k f = Some (msg\<lparr>fm_fields := splice (fm_fields msg) (unat k) [f]\<rparr>)"
  using mem_put_splice [OF assms, of f] by (simp add: store_field_def uint_nat del: of_nat_unat)

lemma splice_Cons: "i + length (x # xs) \<le> length m \<Longrightarrow> splice (splice m i [x]) (Suc i) xs = splice m i (x # xs)"
  using splice_splice_after [of i "[x]" "Suc i" xs m] by simp

lemma stored_length: "length (stored tag_type strtod p kvs) \<le> length kvs"
  by (induction tag_type strtod p kvs rule: stored.induct) (auto simp: Let_def split: fix_type.splits)

lemma rest_loop_text:
  assumes h: "holds b bs" and sl: "strtod_local strtod" and ck: "tag_type CheckSum = FIX_TYPE_CHECKSUM"
    and cs: "1 \<notin> set c"
  shows "n \<le> length bs \<Longrightarrow> drop n bs = concat (map kv_text kvs) @ kv_text (CheckSum, c) @ r \<Longrightarrow>
    (\<And>t v. (t, v) \<in> set kvs \<Longrightarrow> 1 \<notin> set v \<and> tag_type t \<noteq> FIX_TYPE_CHECKSUM) \<Longrightarrow>
    unat k + length (stored tag_type strtod (buffer_start b + int n) kvs) \<le> length (fm_fields msg) \<Longrightarrow>
    length (fm_fields msg) < 2 ^ 32 \<Longrightarrow> length kvs < fuel \<Longrightarrow>
    rest_loop tag_type strtod fuel k msg (buffer_advance b (of_nat n)) =
      Some (let fs = stored tag_type strtod (buffer_start b + int n) kvs in
        msg\<lparr>fm_fields := splice (fm_fields msg) (unat k) fs,
            msg_seq_num := seq_after tag_type (msg_seq_num msg) kvs,
            fm_nr_fields := k + of_nat (length fs)\<rparr>,
        buffer_advance b (of_nat (n + length (concat (map kv_text kvs)) + length (kv_text (CheckSum, c)))))"
proof (induction kvs arbitrary: n k msg fuel)
  case Nil
  then obtain fuel' where "fuel = Suc fuel'" by (cases fuel) auto
  with Nil parse_field_text [OF h Nil(1), of CheckSum c r] cs show ?case by (simp add: ck)
next
  case (Cons tv kvs)
  obtain t v where tv: "tv = (t, v)" by (cases tv)
  obtain fuel' where fuel: "fuel = Suc fuel'" "length kvs < fuel'" using Cons.prems(6) by (cases fuel) auto
  let ?r = "concat (map kv_text kvs) @ kv_text (CheckSum, c) @ r"
  define M where "M = n + length (kv_text (t, v))"
  define Q where "Q = n + Suc (length (dec_digits (unat t)))"
  have v: "1 \<notin> set v" "tag_type t \<noteq> FIX_TYPE_CHECKSUM" using Cons.prems(3) [of t v] by (simp_all add: tv)
  have d: "drop n bs = kv_text (t, v) @ ?r" using Cons.prems(2) by (simp add: tv)
  have dm: "drop M bs = ?r"
    unfolding M_def using d by (metis add.commute append_eq_conv_conj drop_drop)
  have dq: "drop Q bs = v @ 1 # ?r" by (rule drop_value [OF d Q_def])
  have q: "Q < length bs" using dq by (metis drop_all list.distinct(1) append_is_Nil_conv not_le)
  have m: "M \<le> length bs" unfolding M_def using arg_cong [OF d, of length] Cons.prems(1) by simp
  note step = parse_field_text [OF h Cons.prems(1) d v(1), folded M_def Q_def]
  have kv: "\<And>t v. (t, v) \<in> set kvs \<Longrightarrow> 1 \<notin> set v \<and> tag_type t \<noteq> FIX_TYPE_CHECKSUM"
    by (rule Cons.prems(3)) simp
  note IH = Cons.IH [OF m dm kv _ _ fuel(2)]
  have p: "buffer_start b + int n + int (length (kv_text (t, v))) = buffer_start b + int M"
    "buffer_start b + int n + int (Suc (length (dec_digits (unat t)))) = buffer_start b + int Q"
    by (simp_all add: M_def Q_def)
  have k1: "unat (k + 1) = Suc (unat k)" if "unat k < length (fm_fields msg)"
    using that Cons.prems(5) by (subst unat_add_le) auto
  obtain x1 where x1: "fix_uatoi (data b) (buffer_start b + int Q) = Some (dec_val (takeWhile is_digit v), x1)"
    using uatoi_value [OF h q dq] .
  obtain x2 where x2: "fix_atoi64 (data b) (buffer_start b + int Q) = Some (atoi_val v, x2)"
    using atoi64_text [OF h q dq] .
  have x3: "mem_get (data b) (buffer_start b + int Q) = Some (hd (v @ [1]))"
    by (rule mem_get_value [OF h q dq])
  obtain suf where mf: "\<And>k. k \<le> length bs \<Longrightarrow> mem_from (data b) (buffer_start b + int k) = Some (drop k bs @ suf)"
    using holds_mem_from [OF h] by blast
  have x4: "mem_from (data b) (buffer_start b + int Q) = Some (v @ 1 # ?r @ suf)"
    using mf [OF less_imp_le_nat [OF q]] unfolding dq by simp
  have x5: "strtod (v @ 1 # ?r @ suf) = strtod (v @ [1])" using sl v(1) unfolding strtod_local_def by blast
  let ?fs = "stored tag_type strtod (buffer_start b + int M) kvs"
  let ?len = "length (concat (map kv_text kvs)) + length (kv_text (CheckSum, c))"
  have sto: "Option.bind (store_field msg k f) (\<lambda>msg. rest_loop tag_type strtod fuel' (k + 1) msg (buffer_advance b (of_nat M))) =
      Some (msg\<lparr>fm_fields := splice (fm_fields msg) (unat k) (f # ?fs), msg_seq_num := seq_after tag_type (msg_seq_num msg) kvs,
        fm_nr_fields := k + of_nat (length (f # ?fs))\<rparr>, buffer_advance b (of_nat (M + ?len)))"
    if room: "unat k + Suc (length ?fs) \<le> length (fm_fields msg)" for f
  proof -
    have lt: "unat k < length (fm_fields msg)" using room by simp
    let ?msg = "msg\<lparr>fm_fields := splice (fm_fields msg) (unat k) [f]\<rparr>"
    have "rest_loop tag_type strtod fuel' (k + 1) ?msg (buffer_advance b (of_nat M)) =
      Some (let fs = ?fs in ?msg\<lparr>fm_fields := splice (fm_fields ?msg) (unat (k + 1)) fs,
            msg_seq_num := seq_after tag_type (msg_seq_num ?msg) kvs, fm_nr_fields := k + 1 + of_nat (length fs)\<rparr>,
        buffer_advance b (of_nat (M + length (concat (map kv_text kvs)) + length (kv_text (CheckSum, c)))))"
      by (rule IH) (use Cons.prems(5) room lt in \<open>auto simp: k1 [OF lt]\<close>)
    then show ?thesis
      using room by (simp add: store_field_splice [OF lt] Let_def k1 [OF lt] splice_Cons add.assoc)
  qed
  have skp: "rest_loop tag_type strtod fuel' k msg' (buffer_advance b (of_nat M)) =
      Some (msg'\<lparr>fm_fields := splice (fm_fields msg') (unat k) ?fs, msg_seq_num := seq_after tag_type (msg_seq_num msg') kvs,
        fm_nr_fields := k + of_nat (length ?fs)\<rparr>, buffer_advance b (of_nat (M + ?len)))"
    if "unat k + length ?fs \<le> length (fm_fields msg')" "length (fm_fields msg') = length (fm_fields msg)" for msg'
    using IH [of k msg'] that Cons.prems(5) by (simp add: Let_def add.assoc)
  note room = Cons.prems(4) [unfolded tv stored.simps p, unfolded Let_def]
  have len: "length (concat (map kv_text ((t, v) # kvs))) = length (kv_text (t, v)) + length (concat (map kv_text kvs))"
    by simp
  have adv: "n + length (concat (map kv_text ((t, v) # kvs))) + length (kv_text (CheckSum, c)) = M + ?len"
    unfolding len M_def by simp
  show ?case
    unfolding fuel(1) tv adv stored.simps p Let_def seq_after.simps
    using room v(2) skp sto
    by (cases "tag_type t") (simp_all add: step x1 x2 x3 x4 x5 [unfolded append_assoc])
qed

subsection \<open>A whole message\<close>

lemma head_kv: "head_text begin n = kv_text (BeginString, begin) @ kv_text (BodyLength, dec_digits n)"
  by (simp add: head_text_def kv_text_def BeginString_def BodyLength_def dec_digits_tags)

lemma trailer_kv: "trailer_text bs = kv_text (CheckSum, pad3_digits (unat (sum_list bs)))"
  by (simp add: trailer_text_def kv_text_def CheckSum_def dec_digits_tags)

lemma tag_lengths:
  "length (dec_digits (unat BeginString)) = 1" "length (dec_digits (unat BodyLength)) = 1"
  "length (dec_digits (unat CheckSum)) = 2" "length (dec_digits (unat MsgType)) = 2"
  by (simp_all add: BeginString_def BodyLength_def CheckSum_def MsgType_def dec_digits.simps)

lemma length_kv: "length (kv_text (t, v)) = length (dec_digits (unat t)) + length v + 2"
  by (simp add: kv_text_def)

lemma mem_get_at:
  assumes "holds b bs" "drop j bs = xs" "k < length xs"
  shows "mem_get (data b) (buffer_start b + int (j + k)) = Some (xs ! k)"
proof -
  have "j + k < length bs" using assms(2,3) by (metis length_drop less_diff_conv add.commute)
  moreover from this have "xs ! k = bs ! (j + k)" unfolding assms(2) [symmetric] by simp
  ultimately show ?thesis using holds_mem_get [OF assms(1), of "j + k"] by simp
qed

lemma msg_type_text:
  assumes h: "holds b bs" and s: "fix_msg_types t = Some s" and d: "drop j bs = s @ 1 # r"
  shows "fix_msg_type_parse (data b) (buffer_start b + int j) 1 = Some t"
proof -
  note g = mem_get_at [OF h d]
  have "length s = 1 \<or> length s = 2" using s by (cases t) (auto simp: chars_def)
  then show ?thesis
  proof
    assume l: "length s = 1"
    then obtain c where c: "s = [c]" by (cases s) auto
    have "type_of_char c = t" using s l by (cases t) (auto simp: chars_def c type_of_char_def)
    moreover have "mem_get (data b) (buffer_start b + int j) = Some c"
        "mem_get (data b) (buffer_start b + int j + 1) = Some 1"
      using g [of 0] g [of 1] by (simp_all add: c ac_simps)
    ultimately show ?thesis by (simp add: fix_msg_type_parse_def)
  next
    assume l: "length s = 2"
    then obtain c c' where c: "s = [c, c']" by (cases s; cases "tl s") auto
    have "mem_get (data b) (buffer_start b + int j) = Some c"
        "mem_get (data b) (buffer_start b + int j + 1) = Some c'"
        "mem_get (data b) (buffer_start b + int j + 2) = Some 1"
      using g [of 0] g [of 1] g [of 2] by (simp_all add: c ac_simps)
    then show ?thesis using s l by (cases t) (auto simp: chars_def c fix_msg_type_parse_def)
  qed
qed

lemma msg_type_no_soh: "fix_msg_types t = Some s \<Longrightarrow> 1 \<notin> set s"
  by (cases t) (auto simp: chars_def)

lemma no_soh_in_digits: "1 \<notin> set (dec_digits n)"
  using dec_digits_are_digits [of 1 n] by (auto simp: word_le_nat_alt)

lemma drop_append_at: "drop n bs = xs @ ys \<Longrightarrow> m = n + length xs \<Longrightarrow> drop m bs = ys"
  by (metis add.commute append_eq_conv_conj drop_drop)

lemma int_of_nat_len:
  assumes "n \<le> 1280"
  shows "unat (of_nat n :: i32) = n" "(scast (of_nat n :: i32) :: ulong) = of_nat n" "sint (of_nat n :: i32) = int n"
proof -
  show "unat (of_nat n :: i32) = n" using assms by (simp add: unat_of_nat)
  show s: "sint (of_nat n :: i32) = int n" using assms by (simp add: signed_of_nat signed_take_bit_int_eq_self)
  then show "(scast (of_nat n :: i32) :: ulong) = of_nat n" by (metis of_int_of_nat_eq scast_eq)
qed

lemma header_text_parse:
  assumes h: "holds b bs" and bs: "bs = head_text begin len @ kv_text (MsgType, s) @ r"
    and bg: "1 \<notin> set begin" and s: "fix_msg_types t = Some s" and len: "0 < len" "len \<le> 1280"
    and fl: "flags AND FIX_PARSE_FLAG_NO_TYPE = 0"
  shows "first_three_fields msg b flags = Some (Inr (),
    msg\<lparr>begin_string := Rx (buffer_start b + 2), body_length := of_nat len,
        msg_type := Rx (buffer_start b + int (length (head_text begin len) + 3)), fm_type := t\<rparr>,
    buffer_advance b (of_nat (length (head_text begin len) + length (kv_text (MsgType, s)))))"
proof -
  let ?B = "kv_text (BeginString, begin)" and ?L = "kv_text (BodyLength, dec_digits len)" and ?T = "kv_text (MsgType, s)"
  define n1 where "n1 = length ?B"
  define n2 where "n2 = length (head_text begin len)"
  define n3 where "n3 = n2 + length ?T"
  have n2: "n2 = n1 + length ?L" by (simp add: n1_def n2_def head_kv)
  have d0: "drop 0 bs = ?B @ ?L @ ?T @ r" and len_bs: "length bs = n3 + length r"
    by (simp_all add: bs n2_def n3_def head_kv)
  have d1: "drop n1 bs = ?L @ ?T @ r" by (rule drop_append_at [OF d0]) (simp add: n1_def)
  have d2: "drop n2 bs = ?T @ r" by (rule drop_append_at [OF d1]) (simp add: n2)
  have l: "0 \<le> length bs" "n1 \<le> length bs" "n2 \<le> length bs" using len_bs n2 by (auto simp: n3_def)
  note m1 = match_field_text [OF h l(1) d0 bg, folded n1_def, simplified tag_lengths]
  note m2 = match_field_text [OF h l(2) d1 no_soh_in_digits, folded n2, unfolded tag_lengths]
  note m3 = match_field_text [OF h l(3) d2 msg_type_no_soh [OF s], folded n3_def, unfolded tag_lengths]
  have v: "fix_uatoi (data b) (buffer_start b + int (n1 + Suc 1)) = Some (of_nat len, buffer_start b + int (n1 + Suc 1) + int (length (dec_digits len)))"
  proof -
    have "drop (n1 + Suc 1) bs = dec_digits len @ 1 # ?T @ r"
      by (rule drop_value [OF d1]) (simp add: tag_lengths)
    moreover have "n1 + Suc 1 \<le> length bs" using len_bs n2 by (simp add: n3_def length_kv tag_lengths)
    ultimately show ?thesis using uatoi_text [OF h _ _ dec_digits_all not_digit(1)] unfolding dec_val_digits by blast
  qed
  have t: "fix_msg_type_parse (data b) (buffer_start b + int (n2 + Suc 2)) 1 = Some t"
    by (rule msg_type_text [OF h s]) (rule drop_value [OF d2], simp add: tag_lengths)
  have known: "t \<noteq> FIX_MSG_TYPE_UNKNOWN" using s by auto
  have lok: "\<not> (of_nat len :: i32) \<le>s 0" "\<not> FIX_MAX_MESSAGE_SIZE < (of_nat len :: ulong)"
    using len int_of_nat_len(3) [OF len(2)] unat_of_nat_64 [of len]
    by (simp_all add: word_sle_eq FIX_MAX_MESSAGE_SIZE_def word_less_nat_alt)
  show ?thesis
    unfolding first_three_fields_def parse_begin_string_def parse_body_length_def parse_msg_type_def
    using m1 m2 m3 v t known lok fl int_of_nat_len(2) [OF len(2)]
    by (simp add: fix_message_type_is_def n2_def [symmetric] n3_def [symmetric])
qed

lemma sum_range_text:
  assumes h: "holds b bs" and k: "k \<le> length bs"
  shows "buffer_sum_range (data b) (buffer_start b) (buffer_start b + int k) = Some (sum_list (take k bs))"
proof -
  obtain pre suf where d: "data b = pre @ bs @ suf" "buffer_start b = int (length pre)"
    using holds_data [OF h] .
  have "buffer_sum_range (data b) (int (length pre)) (int (length pre + k))
      = Some (sum_list (seg (length pre) (length pre + k) (data b)))"
    using k by (intro sum_range) (simp_all add: d)
  moreover have "seg (length pre) (length pre + k) (data b) = take k bs" using k by (simp add: seg_def d)
  ultimately show ?thesis by (simp add: d)
qed

lemma pad3_dec_val:
  assumes "n < 1000" shows "dec_val (pad3_digits n) = (of_nat n :: i32)" "list_all is_digit (pad3_digits n)"
    "length (pad3_digits n) = 3" "1 \<notin> set (pad3_digits n)"
proof -
  have d: "n div 100 < 10" "n div 10 mod 10 < 10" "n mod 10 < 10" using assms by simp_all
  have "dec_val (pad3_digits n) = ((of_nat (n div 100) * 10 + of_nat (n div 10 mod 10)) * 10 + of_nat (n mod 10) :: i32)"
    using d by (simp add: dec_val_def pad3_digits_def ucast_digit del: of_nat_add)
  also have "\<dots> = of_nat ((n div 100 * 10 + n div 10 mod 10) * 10 + n mod 10)"
    by (simp only: of_nat_add of_nat_mult of_nat_numeral)
  also have "(n div 100 * 10 + n div 10 mod 10) * 10 + n mod 10 = n"
    using div_mult_mod_eq [of "n div 10" 10] div_mult_mod_eq [of n 10] by (simp add: div_mult2_eq [symmetric])
  finally show "dec_val (pad3_digits n) = (of_nat n :: i32)" .
  have "is_digit (of_nat (48 + k))" if "k < 10" for k
    using unat_digit [OF that] that unfolding is_digit_def word_le_nat_alt by simp
  then show a: "list_all is_digit (pad3_digits n)" using d by (simp add: pad3_digits_def)
  show "length (pad3_digits n) = 3" by (simp add: pad3_digits_def)
  show "1 \<notin> set (pad3_digits n)" using a by (auto simp: list_all_iff)
qed

lemma checksum_text:
  assumes h: "holds b bs" and len: "length bs < 2 ^ 31"
    and bs: "bs = head_text begin (length body) @ body @ trailer_text (head_text begin (length body) @ body) @ r"
    and hd: "begin_string msg = Rx (buffer_start b + 2)" "unat (body_length msg) = length body" "length body \<le> 1280"
      "msg_type msg = Rx (buffer_start b + int (length (head_text begin (length body)) + 3))"
    and n: "length (head_text begin (length body)) + 3 < n" "n \<le> length bs"
  shows "\<exists>cs. checksum msg (buffer_advance b (of_nat n)) flags
    = Some (Inr (), msg\<lparr>check_sum := cs\<rparr>, buffer_advance b (of_nat n))"
proof -
  let ?H = "head_text begin (length body)" and ?B = "head_text begin (length body) @ body"
  let ?c = "pad3_digits (unat (sum_list ?B))" and ?j = "length (head_text begin (length body)) + 3"
  define p where "p = length ?B"
  have c: "unat (sum_list ?B) < 1000" using unat_less_power [of "sum_list ?B"] by simp
  note c = pad3_dec_val [OF c]
  have p: "?j - 3 + unat (body_length msg) = p" by (simp add: p_def hd)
  have dp: "drop p bs = kv_text (CheckSum, ?c) @ r" by (simp add: bs p_def trailer_kv)
  have pl: "p + 7 \<le> length bs" "p \<le> length bs" by (simp_all add: bs p_def)
  have "3 \<le> ?j" by simp
  note eval = checksum_eval [OF h len hd(4) this n, of flags, unfolded p, unfolded hd(2), OF hd(3)]
  have short: "\<not> length bs + 3 - ?j < length body + 7" by (simp add: bs)
  show ?thesis
  proof (cases "flags AND FIX_PARSE_FLAG_NO_CSUM \<noteq> 0")
    case True
    then show ?thesis unfolding eval using short by (intro exI [of _ "check_sum msg"]) simp
  next
    case False
    note mf = match_field_text [OF h pl(2) dp c(4), unfolded tag_lengths]
    have "drop (p + Suc 2) bs = ?c @ 1 # r" by (rule drop_value [OF dp]) (simp add: tag_lengths)
    then have u: "fix_uatoi (data b) (buffer_start b + int (p + Suc 2))
        = Some (of_nat (unat (sum_list ?B)), buffer_start b + int (p + Suc 2) + int (length ?c))"
      using uatoi_text [OF h _ _ c(2) not_digit(1), of "p + Suc 2" r] pl unfolding c(1) by simp
    have "take p bs = ?B" by (simp add: bs p_def)
    then have s: "buffer_sum_range (data b) (buffer_start b) (buffer_start b + int p) = Some (sum_list ?B)"
      using sum_range_text [OF h pl(2)] by simp
    have m: "p + length (kv_text (CheckSum, ?c)) \<le> length bs" using pl unfolding length_kv tag_lengths c(3) by simp
    let ?msg = "msg\<lparr>check_sum := Rx (buffer_start b + int (p + Suc 2))\<rparr>"
    have ok: "verify_checksum ?msg (buffer_advance b w) = Some True" for w
      using u s by (simp add: verify_checksum_def hd add.commute [of "int p"])
    show ?thesis
      unfolding eval using False short mf ok buffer_start_advance [OF h m]
      by (intro exI [of _ "Rx (buffer_start b + int (p + Suc 2))"]) (simp del: of_nat_Suc of_nat_add)
  qed
qed

lemma parse_wire:
  assumes h: "holds b (wire_text begin body @ r)" (is "holds b ?bs") and len: "length (wire_text begin body @ r) < 2 ^ 31"
    and body: "body = kv_text (MsgType, s) @ concat (map kv_text kvs)" "length body \<le> 1280"
    and bg: "1 \<notin> set begin" and s: "fix_msg_types t = Some s"
    and kvs: "\<And>t v. (t, v) \<in> set kvs \<Longrightarrow> 1 \<notin> set v \<and> tag_type t \<noteq> FIX_TYPE_CHECKSUM"
    and sl: "strtod_local strtod" and ck: "tag_type CheckSum = FIX_TYPE_CHECKSUM"
    and fl: "flags AND FIX_PARSE_FLAG_NO_TYPE = 0"
    and room: "length kvs \<le> length (fm_fields msg)" "length (fm_fields msg) < 2 ^ 32"
  defines "n3 \<equiv> length (head_text begin (length body)) + length (kv_text (MsgType, s))"
  defines "fs \<equiv> stored tag_type strtod (buffer_start b + int n3) kvs"
  shows "\<exists>msg'. fix_message_parse tag_type strtod msg b flags =
      Some (True, msg', buffer_advance b (of_nat (length (wire_text begin body))))
    \<and> fm_type msg' = t \<and> begin_string msg' = Rx (buffer_start b + 2) \<and> body_length msg' = of_nat (length body)
    \<and> msg_seq_num msg' = seq_after tag_type (msg_seq_num msg) kvs
    \<and> fm_nr_fields msg' = of_nat (length fs) \<and> take (length fs) (fm_fields msg') = fs
    \<and> iov0 msg' = (buffer_start b, of_nat (length (wire_text begin body)))"
proof -
  let ?H = "head_text begin (length body)" and ?K = "concat (map kv_text kvs)"
  let ?R = "?K @ trailer_text (?H @ body) @ r"
  define N where "N = length (wire_text begin body)"
  have bs1: "?bs = ?H @ kv_text (MsgType, s) @ ?R" using body(1) by (simp add: wire_text_def Let_def)
  have bs2: "?bs = ?H @ body @ trailer_text (?H @ body) @ r" by (simp add: wire_text_def Let_def)
  have lb: "0 < length body" "length body \<le> 1280" using body by (simp_all add: kv_text_def)
  have dn: "drop n3 ?bs = ?K @ kv_text (CheckSum, pad3_digits (unat (sum_list (?H @ body)))) @ r"
    unfolding n3_def trailer_kv [symmetric] by (rule drop_append_at [of 0 _ "?H @ kv_text (MsgType, s)"]) (simp_all only: drop_0 bs1 append_assoc length_append add_0)
  have N: "N = n3 + length ?K + 7" using body(1) by (simp add: N_def n3_def wire_text_def Let_def)
  have Nle: "N \<le> length ?bs" by (simp add: N_def)
  then have n3: "n3 \<le> length ?bs" "length ?H + 3 < n3" using N by (auto simp: n3_def length_kv tag_lengths)
  have cN: "n3 + length ?K + length (kv_text (CheckSum, pad3_digits (unat (sum_list (?H @ body))))) = N"
    unfolding trailer_kv [symmetric] N by simp
  have u1280: "unat (of_nat (length body) :: ulong) = length body" using lb by (intro unat_of_nat_64) simp
  obtain msg1 where e1: "first_three_fields msg b flags = Some (Inr (), msg1, buffer_advance b (of_nat n3))"
    and m1: "begin_string msg1 = Rx (buffer_start b + 2)" "body_length msg1 = of_nat (length body)" "fm_type msg1 = t"
      "msg_type msg1 = Rx (buffer_start b + int (length ?H + 3))"
      "fm_fields msg1 = fm_fields msg" "msg_seq_num msg1 = msg_seq_num msg"
    using header_text_parse [OF h bs1 bg s lb fl, of msg] unfolding n3_def by simp
  obtain cs where e2: "checksum msg1 (buffer_advance b (of_nat n3)) flags
      = Some (Inr (), msg1\<lparr>check_sum := cs\<rparr>, buffer_advance b (of_nat n3))"
    using checksum_text [OF h len bs2 m1(1) _ lb(2) m1(4) n3(2,1), of flags] by (auto simp: m1(2) u1280)
  have c: "1 \<notin> set (pad3_digits (unat (sum_list (?H @ body))))"
    using pad3_dec_val(4) [of "unat (sum_list (?H @ body))"] unat_less_power [of "sum_list (?H @ body)"] by simp
  let ?m2 = "msg1\<lparr>check_sum := cs, fm_nr_fields := 0\<rparr>"
  have fs: "length fs \<le> length kvs" unfolding fs_def by (rule stored_length)
  have kvN: "length kvs < Suc (unat (buffer_size (buffer_advance b (of_nat n3))))"
  proof -
    have "length kvs \<le> length ?K" by (induction kvs) (auto simp: kv_text_def)
    then show ?thesis using holds_at_size [OF h n3(1)] N Nle by simp
  qed
  have e3: "rest_of_message tag_type strtod (msg1\<lparr>check_sum := cs\<rparr>) (buffer_advance b (of_nat n3)) =
      Some (?m2\<lparr>fm_fields := splice (fm_fields msg) 0 fs, msg_seq_num := seq_after tag_type (msg_seq_num msg) kvs,
        fm_nr_fields := of_nat (length fs)\<rparr>, buffer_advance b (of_nat N))"
  proof -
    note L = rest_loop_text [where kvs = kvs and r = r and c = "pad3_digits (unat (sum_list (?H @ body)))" and k = 0
      and msg = ?m2 and b = b and bs = ?bs and n = n3 and strtod = strtod and tag_type = tag_type
      and fuel = "Suc (unat (buffer_size (buffer_advance b (of_nat n3))))", OF h sl ck c n3(1) dn, folded fs_def, unfolded Let_def cN]
    have "unat (0 :: ulong) + length fs \<le> length (fm_fields ?m2)" "length (fm_fields ?m2) < 2 ^ 32"
      using fs room by (simp_all add: m1)
    from L [OF kvs this kvN] show ?thesis unfolding rest_of_message_def by (simp add: m1)
  qed
  have "0 < length ?bs" using N Nle by linarith
  then have ne: "buffer_size b \<noteq> 0" unfolding holds_size_0 [OF h] by simp
  note st = buffer_start_advance [OF h Nle]
  have "fs = take (length fs) (splice (fm_fields msg) 0 fs)" by (simp add: splice_def)
  then show ?thesis
    unfolding fix_message_parse_def fix_parse_loop.simps parse_attempt_def Let_def N_def [symmetric]
    using ne e1 e2 e3 st m1 by auto
qed

subsection \<open>What a printed message is parsed back to\<close>

text \<open>The fields of a printed message behind MsgType.\<close>

definition sent_fields :: "fix_message \<Rightarrow> mem \<Rightarrow> fix_field list" where
  "sent_fields msg now =
     [FIX_STRING_FIELD SenderCompID (sender_comp_id msg), FIX_STRING_FIELD TargetCompID (target_comp_id msg),
      FIX_INT_FIELD MsgSeqNum (msg_seq_num msg), FIX_STRING_FIELD SendingTime (Str now)]
     @ take (unat (fm_nr_fields msg)) (fm_fields msg)"

definition kv_of :: "(u64 \<Rightarrow> u8 list) \<Rightarrow> mem \<Rightarrow> fix_field \<Rightarrow> i32 \<times> u8 list" where
  "kv_of dtoa2 rx f = (ff_tag f, the (value_text dtoa2 rx f))"

definition sendable :: "(i32 \<Rightarrow> fix_type) \<Rightarrow> (u64 \<Rightarrow> u8 list) \<Rightarrow> mem \<Rightarrow> fix_field \<Rightarrow> bool" where
  "sendable tag_type dtoa2 rx f \<longleftrightarrow> (\<exists>v. value_text dtoa2 rx f = Some v \<and> 1 \<notin> set v)
     \<and> (if ff_tag f = MsgSeqNum then tag_type (ff_tag f) = FIX_TYPE_MSGSEQNUM
        else tag_type (ff_tag f) = ff_type f
          \<and> ff_type f \<in> {FIX_TYPE_INT, FIX_TYPE_FLOAT, FIX_TYPE_CHAR, FIX_TYPE_STRING})"

text \<open>\<open>g\<close> is what the receiver has for the field \<open>f\<close> of the sender: the same tag, type and value; a
  string is in the receive buffer, up to the delimiter, and a float is what \<open>strtod\<close> makes of its text.\<close>

definition received :: "mem \<Rightarrow> (u8 list \<Rightarrow> u64) \<Rightarrow> (u64 \<Rightarrow> u8 list) \<Rightarrow> mem \<Rightarrow> fix_field \<Rightarrow> fix_field \<Rightarrow> bool" where
  "received rx' strtod dtoa2 rx g f \<longleftrightarrow> ff_tag g = ff_tag f \<and> ff_type g = ff_type f \<and>
     (case ff_value f of
        IntVal v \<Rightarrow> ff_value g = IntVal v
      | CharVal c \<Rightarrow> ff_value g = CharVal c
      | FloatVal v \<Rightarrow> ff_value g = FloatVal (strtod (dtoa2 v @ [1]))
      | StringVal p \<Rightarrow> (\<exists>q cs. ff_value g = StringVal (Rx q) \<and> mem_from rx' q = Some cs
          \<and> c_text rx p = Some (takeWhile (\<lambda>c. c \<noteq> 1) cs))
      | String8Val m \<Rightarrow> False)"

lemma field_text_kv:
  "value_text dtoa2 rx f \<noteq> None \<Longrightarrow> field_text dtoa2 rx f = Some (kv_text (kv_of dtoa2 rx f))"
  by (auto simp: field_text_def kv_of_def kv_text_def)

lemma fields_text_kvs:
  "(\<And>f. f \<in> set fs \<Longrightarrow> value_text dtoa2 rx f \<noteq> None) \<Longrightarrow>
     fields_text dtoa2 rx fs = Some (concat (map kv_text (map (kv_of dtoa2 rx) fs)))"
proof (induction fs)
  case (Cons f fs)
  then have "field_text dtoa2 rx f = Some (kv_text (kv_of dtoa2 rx f))" by (intro field_text_kv) simp
  with Cons show ?case by simp
qed simp

lemma takeWhile_soh: "1 \<notin> set v \<Longrightarrow> takeWhile (\<lambda>c. c \<noteq> (1 :: u8)) (v @ 1 # r) = v"
  by (induction v) auto

lemma stored_received:
  assumes h: "holds b bs"
  shows "n \<le> length bs \<Longrightarrow> drop n bs = concat (map kv_text (map (kv_of dtoa2 rx) fs)) @ r \<Longrightarrow>
    (\<And>f. f \<in> set fs \<Longrightarrow> sendable tag_type dtoa2 rx f) \<Longrightarrow>
    list_all2 (received (data b) strtod dtoa2 rx)
      (stored tag_type strtod (buffer_start b + int n) (map (kv_of dtoa2 rx) fs))
      (filter (\<lambda>f. ff_tag f \<noteq> MsgSeqNum) fs)"
proof (induction fs arbitrary: n)
  case (Cons f fs)
  obtain v where v: "value_text dtoa2 rx f = Some v" "1 \<notin> set v" and kv: "kv_of dtoa2 rx f = (ff_tag f, v)"
    using Cons.prems(3) [of f] by (auto simp: sendable_def kv_of_def)
  define M where "M = n + length (kv_text (ff_tag f, v))"
  define Q where "Q = n + Suc (length (dec_digits (unat (ff_tag f))))"
  let ?r = "concat (map kv_text (map (kv_of dtoa2 rx) fs)) @ r"
  have d: "drop n bs = kv_text (ff_tag f, v) @ ?r" using Cons.prems(2) by (simp add: kv)
  have dm: "drop M bs = ?r" by (rule drop_append_at [OF d]) (simp add: M_def)
  have m: "M \<le> length bs" unfolding M_def using arg_cong [OF d, of length] Cons.prems(1) by simp
  have dq: "drop Q bs = v @ 1 # ?r" by (rule drop_value [OF d Q_def])
  have "length (drop Q bs) \<noteq> 0" unfolding dq by simp
  then have q: "Q \<le> length bs" by simp
  obtain suf where mf: "mem_from (data b) (buffer_start b + int Q) = Some (drop Q bs @ suf)"
    using holds_mem_from [OF h] q by blast
  have tk: "takeWhile (\<lambda>c. c \<noteq> 1) (drop Q bs @ suf) = v" unfolding dq using takeWhile_soh [OF v(2)] by simp
  have IH: "list_all2 (received (data b) strtod dtoa2 rx)
      (stored tag_type strtod (buffer_start b + int M) (map (kv_of dtoa2 rx) fs))
      (filter (\<lambda>f. ff_tag f \<noteq> MsgSeqNum) fs)"
    by (rule Cons.IH [OF m dm]) (use Cons.prems(3) in simp)
  have p: "buffer_start b + int n + int (length (kv_text (ff_tag f, v))) = buffer_start b + int M"
    "buffer_start b + int n + int (Suc (length (dec_digits (unat (ff_tag f))))) = buffer_start b + int Q"
    by (simp_all add: M_def Q_def)
  show ?case
  proof (cases "ff_tag f = MsgSeqNum")
    case True
    then have "tag_type (ff_tag f) = FIX_TYPE_MSGSEQNUM" using Cons.prems(3) [of f] by (simp add: sendable_def)
    with IH True show ?thesis unfolding list.map kv stored.simps p Let_def by simp
  next
    case False
    then have ty: "tag_type (ff_tag f) = ff_type f" "ff_type f \<in> {FIX_TYPE_INT, FIX_TYPE_FLOAT, FIX_TYPE_CHAR, FIX_TYPE_STRING}"
      using Cons.prems(3) [of f] by (auto simp: sendable_def split: if_splits)
    show ?thesis
    proof (cases "ff_type f")
      case FIX_TYPE_INT
      then obtain x where "ff_value f = IntVal x" "v = dec_int (sint x)"
        using v(1) by (cases "ff_value f") (auto simp: value_text_def)
      with IH False ty FIX_TYPE_INT show ?thesis unfolding list.map kv stored.simps p Let_def
        by (simp add: received_def [of _ _ _ _ _ f] FIX_INT_FIELD_def atoi_val_dec_int)
    next
      case FIX_TYPE_FLOAT
      then obtain x where "ff_value f = FloatVal x" "v = dtoa2 x"
        using v(1) by (cases "ff_value f") (auto simp: value_text_def)
      with IH False ty FIX_TYPE_FLOAT show ?thesis unfolding list.map kv stored.simps p Let_def
        by (simp add: received_def [of _ _ _ _ _ f] FIX_FLOAT_FIELD_def)
    next
      case FIX_TYPE_CHAR
      then obtain x where "ff_value f = CharVal x" "v = [x]"
        using v(1) by (cases "ff_value f") (auto simp: value_text_def)
      with IH False ty FIX_TYPE_CHAR show ?thesis unfolding list.map kv stored.simps p Let_def
        by (simp add: received_def [of _ _ _ _ _ f] FIX_CHAR_FIELD_def)
    next
      case FIX_TYPE_STRING
      then obtain x where "ff_value f = StringVal x" "c_text rx x = Some v"
        using v(1) by (cases "ff_value f") (auto simp: value_text_def c_text_def)
      with IH False ty FIX_TYPE_STRING mf tk show ?thesis unfolding list.map kv stored.simps p Let_def
        by (simp add: received_def [of _ _ _ _ _ f] FIX_STRING_FIELD_def)
    qed (use ty in auto)
  qed
qed simp

text \<open>A message that can be sent: every text it needs exists and is free of the delimiter, the types
  of its fields are those of the dialect, its sequence number fits an \<open>int\<close>, its fields and the three
  header fields fit the receiver's array, and its body fits the parser's bound.\<close>

definition body_kvs :: "(u64 \<Rightarrow> u8 list) \<Rightarrow> mem \<Rightarrow> fix_message \<Rightarrow> mem \<Rightarrow> (i32 \<times> u8 list) list" where
  "body_kvs dtoa2 rx msg now = map (kv_of dtoa2 rx) (sent_fields msg now)"

definition body_text :: "(u64 \<Rightarrow> u8 list) \<Rightarrow> mem \<Rightarrow> fix_message \<Rightarrow> mem \<Rightarrow> u8 list" where
  "body_text dtoa2 rx msg now =
     kv_text (MsgType, the (fix_msg_types (fm_type msg))) @ concat (map kv_text (body_kvs dtoa2 rx msg now))"

definition printable :: "(i32 \<Rightarrow> fix_type) \<Rightarrow> (u64 \<Rightarrow> u8 list) \<Rightarrow> mem \<Rightarrow> fix_message \<Rightarrow> mem \<Rightarrow> u8 list \<Rightarrow> bool" where
  "printable tag_type dtoa2 rx msg now begin \<longleftrightarrow>
     fm_type msg \<noteq> FIX_MSG_TYPE_UNKNOWN \<and> copy_str_now rx (str_now msg) = Some now
     \<and> c_text rx (begin_string msg) = Some begin \<and> 1 \<notin> set begin
     \<and> (\<forall>f\<in>set (sent_fields msg now). sendable tag_type dtoa2 rx f)
     \<and> (\<forall>f\<in>set (take (unat (fm_nr_fields msg)) (fm_fields msg)). ff_tag f \<noteq> MsgSeqNum)
     \<and> unat (msg_seq_num msg) < 2 ^ 31 \<and> unat (fm_nr_fields msg) \<le> 44
     \<and> unat (fm_nr_fields msg) \<le> length (fm_fields msg) \<and> tag_type CheckSum = FIX_TYPE_CHECKSUM
     \<and> length (body_text dtoa2 rx msg now) \<le> 1280"

lemma fix_msg_types_Some: "t \<noteq> FIX_MSG_TYPE_UNKNOWN \<Longrightarrow> \<exists>s. fix_msg_types t = Some s \<and> 0 \<notin> set s"
  by (cases t) (simp_all add: chars_def)

lemma printable_body:
  assumes "printable tag_type dtoa2 rx msg now begin"
  obtains fs where "body_fields msg rx = Some fs" "fields_text dtoa2 rx fs = Some (body_text dtoa2 rx msg now)"
proof -
  note p = assms [unfolded printable_def]
  obtain s where s: "fix_msg_types (fm_type msg) = Some s" "0 \<notin> set s" using fix_msg_types_Some p by blast
  let ?t = "FIX_STRING_FIELD MsgType (Str (s @ [0]))"
  have "mem_load (fm_fields msg) 0 (unat (fm_nr_fields msg)) = Some (take (unat (fm_nr_fields msg)) (fm_fields msg))"
    using p mem_load_Some [of 0 "unat (fm_nr_fields msg)" "fm_fields msg"] by simp
  then have bf: "body_fields msg rx = Some (?t # sent_fields msg now)"
    using p s by (simp add: body_fields_def header_fields_def sent_fields_def)
  have "c_text rx (Str (s @ [0])) = Some s" using s(2) by (simp add: c_text_def)
  then have "field_text dtoa2 rx ?t = Some (kv_text (MsgType, s))" by (simp add: c_text_string kv_text_def)
  moreover have "fields_text dtoa2 rx (sent_fields msg now) = Some (concat (map kv_text (body_kvs dtoa2 rx msg now)))"
    unfolding body_kvs_def by (rule fields_text_kvs) (use p in \<open>auto simp: sendable_def\<close>)
  ultimately have "fields_text dtoa2 rx (?t # sent_fields msg now) = Some (body_text dtoa2 rx msg now)"
    using s by (simp add: body_text_def)
  with bf that show thesis by blast
qed

lemma length_head: "n \<le> 1280 \<Longrightarrow> length (head_text begin n) \<le> length begin + 10"
  using length_dec_digits_le [of n 4] by (simp add: head_text_def)

lemma seq_after_append: "seq_after tag_type k (xs @ ys) = seq_after tag_type (seq_after tag_type k xs) ys"
  by (induction tag_type k xs rule: seq_after.induct) auto

lemma seq_after_skip:
  "(\<And>f. f \<in> set fs \<Longrightarrow> tag_type (ff_tag f) \<noteq> FIX_TYPE_MSGSEQNUM) \<Longrightarrow>
     seq_after tag_type k (map (kv_of dtoa2 rx) fs) = k"
  by (induction fs) (auto simp: kv_of_def)

lemma seq_num_text:
  assumes "unat (w :: ulong) < 2 ^ 31"
  shows "(scast (dec_val (takeWhile is_digit (dec_int (sint w))) :: i32) :: ulong) = w"
proof -
  define n where "n = unat w"
  have w: "w = of_nat n" by (simp add: n_def)
  have d: "dec_int (sint w) = dec_digits n" using assms unfolding w n_def [symmetric]
    by (intro dec_int_of_nat) (simp add: n_def)
  have "takeWhile is_digit (dec_digits n) = dec_digits n"
    using dec_digits_all by (simp add: list_all_iff takeWhile_eq_all_conv)
  moreover have "sint (of_nat n :: i32) = int n"
    using assms by (simp add: n_def signed_of_nat signed_take_bit_int_eq_self del: of_nat_unat)
  then have "(scast (of_nat n :: i32) :: ulong) = of_nat n" by (metis of_int_of_nat_eq scast_eq)
  ultimately show ?thesis unfolding d by (simp only: dec_val_digits w)
qed

lemma seq_after_printed:
  assumes "printable tag_type dtoa2 rx msg now begin"
  shows "seq_after tag_type k (body_kvs dtoa2 rx msg now) = msg_seq_num msg"
proof -
  note p = assms [unfolded printable_def]
  let ?fs = "take (unat (fm_nr_fields msg)) (fm_fields msg)"
  have other: "tag_type (ff_tag f) \<noteq> FIX_TYPE_MSGSEQNUM"
    if "f \<in> set (sent_fields msg now)" "ff_tag f \<noteq> MsgSeqNum" for f
    using p that by (auto simp: sendable_def)
  have tags: "tag_type SenderCompID \<noteq> FIX_TYPE_MSGSEQNUM" "tag_type TargetCompID \<noteq> FIX_TYPE_MSGSEQNUM"
      "tag_type SendingTime \<noteq> FIX_TYPE_MSGSEQNUM"
    using other [of "FIX_STRING_FIELD SenderCompID (sender_comp_id msg)"]
      other [of "FIX_STRING_FIELD TargetCompID (target_comp_id msg)"] other [of "FIX_STRING_FIELD SendingTime (Str now)"]
    by (simp_all add: sent_fields_def FIX_STRING_FIELD_def SenderCompID_def TargetCompID_def SendingTime_def MsgSeqNum_def)
  have "FIX_INT_FIELD MsgSeqNum (msg_seq_num msg) \<in> set (sent_fields msg now)" by (simp add: sent_fields_def)
  then have "tag_type MsgSeqNum = FIX_TYPE_MSGSEQNUM"
    using p by (auto simp: sendable_def FIX_INT_FIELD_def dest!: bspec)
  moreover have "seq_after tag_type k' (map (kv_of dtoa2 rx) ?fs) = k'" for k'
    by (rule seq_after_skip) (use p other in \<open>auto simp: sent_fields_def\<close>)
  ultimately show ?thesis
    using tags seq_num_text p
    by (simp add: body_kvs_def sent_fields_def seq_after_append kv_of_def FIX_STRING_FIELD_def FIX_INT_FIELD_def value_text_def)
qed

lemma printable_kvs:
  assumes "printable tag_type dtoa2 rx msg now begin" "(t, v) \<in> set (body_kvs dtoa2 rx msg now)"
  shows "1 \<notin> set v \<and> tag_type t \<noteq> FIX_TYPE_CHECKSUM"
proof -
  from assms(2) obtain f where f: "f \<in> set (sent_fields msg now)" "(t, v) = kv_of dtoa2 rx f"
    by (auto simp: body_kvs_def)
  with assms(1) have "sendable tag_type dtoa2 rx f" by (simp add: printable_def)
  with f(2) show ?thesis by (auto simp: sendable_def kv_of_def split: if_splits)
qed

lemma stored_count:
  assumes "list_all2 P (stored tag_type strtod p (body_kvs dtoa2 rx msg now)) (filter (\<lambda>f. ff_tag f \<noteq> MsgSeqNum) (sent_fields msg now))"
    and p: "printable tag_type dtoa2 rx msg now begin"
  shows "length (stored tag_type strtod p (body_kvs dtoa2 rx msg now)) = unat (fm_nr_fields msg) + 3"
proof -
  let ?fs = "take (unat (fm_nr_fields msg)) (fm_fields msg)"
  note pr = p [unfolded printable_def]
  have "filter (\<lambda>f. ff_tag f \<noteq> MsgSeqNum) ?fs = ?fs" using pr by (simp add: filter_id_conv)
  moreover have "length ?fs = unat (fm_nr_fields msg)" using pr by simp
  ultimately have "length (filter (\<lambda>f. ff_tag f \<noteq> MsgSeqNum) (sent_fields msg now)) = unat (fm_nr_fields msg) + 3"
    by (simp add: sent_fields_def FIX_STRING_FIELD_def FIX_INT_FIELD_def SenderCompID_def TargetCompID_def
        SendingTime_def MsgSeqNum_def)
  with assms(1) show ?thesis by (simp add: list_all2_lengthD)
qed

lemma unparse_printable_at:
  assumes h: "holds head []" "holds body []" and p: "printable tag_type dtoa2 rx msg now begin"
    and room: "length begin + 10 \<le> buffer_room head" "length (body_text dtoa2 rx msg now) + 7 \<le> buffer_room body" and lb: "length begin < 2 ^ 30"
  obtains h1 b1 where "fix_message_unparse dtoa2 rx msg head body = Some (buffer_extend head h1, buffer_extend body b1)"
    "h1 @ b1 = wire_text begin (body_text dtoa2 rx msg now)" "length h1 \<le> buffer_room head" "length b1 \<le> buffer_room body"
proof -
  let ?t = "body_text dtoa2 rx msg now"
  obtain fs where fs: "body_fields msg rx = Some fs" "fields_text dtoa2 rx fs = Some ?t"
    using printable_body [OF p] .
  have t: "length ?t \<le> 1280" and bg: "c_text rx (begin_string msg) = Some begin" using p by (auto simp: printable_def)
  have hl: "length (head_text begin (length ?t)) \<le> length begin + 10" by (rule length_head [OF t])
  have r1: "length (head_text begin (length ?t)) \<le> buffer_room head" using hl room by simp
  have r2: "length ?t + 7 \<le> buffer_room body" using t room by simp
  have l: "length (wire_text begin ?t) < 2 ^ 31" using hl t lb by (simp add: wire_text_def Let_def)
  note u = unparse_wire [OF h fs bg r1 r2 l]
  let ?H = "head_text begin (length ?t)"
  show thesis by (rule that [OF u]) (use r1 r2 in \<open>simp_all add: wire_text_def Let_def\<close>)
qed

lemma extended_bytes: "holds b [] \<Longrightarrow> length xs \<le> buffer_room b \<Longrightarrow> buf_bytes (buffer_extend b xs) = xs"
  using holds_extend [of b "[]" xs] by (simp add: holds_def)

lemma unparse_printable:
  assumes h: "holds head []" "holds body []" and p: "printable tag_type dtoa2 rx msg now begin"
    and room: "length begin + 10 \<le> buffer_room head" "1287 \<le> buffer_room body" and lb: "length begin < 2 ^ 30"
  obtains hb bb where "fix_message_unparse dtoa2 rx msg head body = Some (hb, bb)"
    "buf_bytes hb @ buf_bytes bb = wire_text begin (body_text dtoa2 rx msg now)"
proof -
  have "length (body_text dtoa2 rx msg now) + 7 \<le> buffer_room body" using p room(2) by (simp add: printable_def)
  from unparse_printable_at [OF h p room(1) this lb] extended_bytes [OF h(1)] extended_bytes [OF h(2)] that
  show thesis by metis
qed

subsection \<open>Properties\<close>

text \<open>C4: what is printed is parsed back.  The receiver of a printed message, whatever follows it in
  the buffer and whatever its message held before, finds the message, consumes exactly its bytes,
  and has its type, its sequence number, and in order the three string fields of the header and
  the fields of the sender, with their tags, types and values.\<close>

theorem fix_roundtrip:
  assumes "holds head []" "holds body []" and "printable tag_type dtoa2 rx msg now begin"
    and "length begin + 10 \<le> buffer_room head" "1287 \<le> buffer_room body" "length begin < 2 ^ 30"
    and "strtod_local strtod"
    and "\<And>hb bb. fix_message_unparse dtoa2 rx msg head body = Some (hb, bb) \<Longrightarrow>
      holds b (buf_bytes hb @ buf_bytes bb @ r)"
    and "unat (buffer_size b) < 2 ^ 31" and "length (fm_fields rmsg) = 48" and "flags AND FIX_PARSE_FLAG_NO_TYPE = 0"
  shows "\<exists>hb bb msg'. fix_message_unparse dtoa2 rx msg head body = Some (hb, bb)
    \<and> fix_message_parse tag_type strtod rmsg b flags =
        Some (True, msg', buffer_advance b (of_nat (length (buf_bytes hb @ buf_bytes bb))))
    \<and> fm_type msg' = fm_type msg \<and> msg_seq_num msg' = msg_seq_num msg
    \<and> fm_nr_fields msg' = fm_nr_fields msg + 3
    \<and> list_all2 (received (data b) strtod dtoa2 rx)
        (take (unat (fm_nr_fields msg')) (fm_fields msg'))
        (filter (\<lambda>f. ff_tag f \<noteq> MsgSeqNum) (sent_fields msg now))"
proof -
  let ?t = "body_text dtoa2 rx msg now" and ?kvs = "body_kvs dtoa2 rx msg now"
  note p = assms(3) [unfolded printable_def]
  obtain hb bb where u: "fix_message_unparse dtoa2 rx msg head body = Some (hb, bb)"
    and w: "buf_bytes hb @ buf_bytes bb = wire_text begin ?t"
    using unparse_printable [OF assms(1-6)] .
  have hw: "holds b (wire_text begin ?t @ r)" using assms(8) [OF u] w by (metis append.assoc)
  have len: "length (wire_text begin ?t @ r) < 2 ^ 31" using assms(9) holds_size [OF hw] by simp
  obtain s where s: "fix_msg_types (fm_type msg) = Some s" using fix_msg_types_Some p by blast
  have t: "?t = kv_text (MsgType, s) @ concat (map kv_text ?kvs)" by (simp add: body_text_def s)
  define n3 where "n3 = length (head_text begin (length ?t)) + length (kv_text (MsgType, s))"
  let ?fs = "stored tag_type strtod (buffer_start b + int n3) ?kvs"
  have kl: "length ?kvs \<le> length (fm_fields rmsg)" "length (fm_fields rmsg) < 2 ^ 32"
    using p assms(10) by (simp_all add: body_kvs_def sent_fields_def)
  have pt: "length ?t \<le> 1280" "1 \<notin> set begin" "tag_type CheckSum = FIX_TYPE_CHECKSUM" using p by simp_all
  obtain msg' where m: "fix_message_parse tag_type strtod rmsg b flags =
        Some (True, msg', buffer_advance b (of_nat (length (wire_text begin ?t))))"
      "fm_type msg' = fm_type msg" "msg_seq_num msg' = msg_seq_num msg"
      "fm_nr_fields msg' = of_nat (length ?fs)" "take (length ?fs) (fm_fields msg') = ?fs"
    using parse_wire [where tag_type = tag_type and strtod = strtod, OF hw len t pt(1,2) s printable_kvs [OF assms(3)]
        assms(7) pt(3) assms(11) kl]
    unfolding n3_def seq_after_printed [OF assms(3)] by blast
  have "wire_text begin ?t @ r = (head_text begin (length ?t) @ kv_text (MsgType, s)) @ concat (map kv_text ?kvs)
      @ trailer_text (head_text begin (length ?t) @ ?t) @ r"
    by (simp add: wire_text_def Let_def t)
  then have d: "drop n3 (wire_text begin ?t @ r) = concat (map kv_text ?kvs) @ trailer_text (head_text begin (length ?t) @ ?t) @ r"
    by (simp add: n3_def)
  have n3: "n3 \<le> length (wire_text begin ?t @ r)" by (simp add: wire_text_def Let_def t n3_def)
  have rc: "list_all2 (received (data b) strtod dtoa2 rx) ?fs (filter (\<lambda>f. ff_tag f \<noteq> MsgSeqNum) (sent_fields msg now))"
    unfolding body_kvs_def by (rule stored_received [OF hw n3 d [unfolded body_kvs_def]]) (use p in simp)
  have c: "length ?fs = unat (fm_nr_fields msg) + 3" by (rule stored_count [OF rc assms(3)])
  have "(of_nat (length ?fs) :: ulong) = fm_nr_fields msg + 3" by (simp add: c)
  moreover have "unat (of_nat (length ?fs) :: ulong) = length ?fs"
    by (rule unat_of_nat_64) (use p in \<open>simp add: c\<close>)
  ultimately show ?thesis using u w m rc by (intro exI [of _ hb] exI [of _ bb] exI [of _ msg']) simp
qed

definition sample_now :: mem where
  "sample_now = chars ''20250101-10:00:00'' @ replicate 47 0"

definition sample_wire :: "u8 list" where
  "sample_wire = soh ''8=FIX.4.4|9=48|'' @ sample_fix_body @ soh ''10=193|''"

lemma ball_sent: "(\<forall>f\<in>set (sent_fields sample_fix sample_now). P f) \<longleftrightarrow>
    P (FIX_STRING_FIELD SenderCompID (Str (chars ''A'' @ [0]))) \<and> P (FIX_STRING_FIELD TargetCompID (Str (chars ''B'' @ [0])))
    \<and> P (FIX_INT_FIELD MsgSeqNum 7) \<and> P (FIX_STRING_FIELD SendingTime (Str sample_now)) \<and> P (FIX_INT_FIELD 369 (- 5))"
  by (simp add: sent_fields_def sample_fix_def)

lemma sample_texts:
  "value_text (\<lambda>_. []) [] (FIX_STRING_FIELD SenderCompID (Str (chars ''A'' @ [0]))) = Some (chars ''A'')"
  "value_text (\<lambda>_. []) [] (FIX_STRING_FIELD TargetCompID (Str (chars ''B'' @ [0]))) = Some (chars ''B'')"
  "value_text (\<lambda>_. []) [] (FIX_INT_FIELD MsgSeqNum 7) = Some (chars ''7'')"
  "value_text (\<lambda>_. []) [] (FIX_STRING_FIELD SendingTime (Str sample_now)) = Some (chars ''20250101-10:00:00'')"
  "value_text (\<lambda>_. []) [] (FIX_INT_FIELD 369 (- 5)) = Some (chars ''-5'')"
  by code_simp+

lemma sample_printable: "printable fix_tag_type (\<lambda>_. []) [] sample_fix sample_now (chars ''FIX.4.4'')"
proof -
  have "copy_str_now [] (str_now sample_fix) = Some sample_now" by code_simp
  moreover have "1 \<notin> set (chars ''FIX.4.4'')" by code_simp
  moreover have "\<forall>f\<in>set (sent_fields sample_fix sample_now). sendable fix_tag_type (\<lambda>_. []) [] f"
    unfolding ball_sent
    by (simp add: sendable_def sample_texts)
       (simp add: chars_def fix_tag_type_def FIX_STRING_FIELD_def FIX_INT_FIELD_def SenderCompID_def TargetCompID_def
         SendingTime_def MsgSeqNum_def)
  moreover have "length (body_text (\<lambda>_. []) [] sample_fix sample_now) = 48" by code_simp
  ultimately show ?thesis
    unfolding printable_def sample_fix_begin
    by (simp add: sample_fix_def FIX_INT_FIELD_def MsgSeqNum_def fix_tag_type_def CheckSum_def)
qed

lemma sample_wire_text: "wire_text (chars ''FIX.4.4'') (body_text (\<lambda>_. []) [] sample_fix sample_now) = sample_wire"
  by code_simp

theorem fix_roundtrip_witness:
  "\<exists>hb bb msg'. fix_message_unparse (\<lambda>_. []) [] sample_fix (buffer_of [] 40) (buffer_of [] 1300) = Some (hb, bb)
    \<and> fix_message_parse fix_tag_type (\<lambda>_. 0) fix_message_new (buffer_of (sample_wire @ [56]) 8) 0 =
        Some (True, msg', buffer_advance (buffer_of (sample_wire @ [56]) 8) (of_nat (length (buf_bytes hb @ buf_bytes bb))))
    \<and> fm_type msg' = FIX_MSG_TYPE_HEARTBEAT \<and> msg_seq_num msg' = 7 \<and> fm_nr_fields msg' = 4"
proof -
  have h: "holds (buffer_of [] 40) []" "holds (buffer_of [] 1300) []" "buffer_room (buffer_of [] 40) = 40"
      "buffer_room (buffer_of [] 1300) = 1300"
    by (rule buffer_of_holds; simp)+
  have l: "length sample_wire = 70" "length (chars ''FIX.4.4'') = 7" by code_simp+
  have r: "length (chars ''FIX.4.4'') + 10 \<le> buffer_room (buffer_of [] 40)" "1287 \<le> buffer_room (buffer_of [] 1300)"
      "length (chars ''FIX.4.4'') < 2 ^ 30" by (simp_all add: h l)
  have b: "holds (buffer_of (sample_wire @ [56]) 8) (sample_wire @ [56])"
    by (rule buffer_of_holds) (simp add: l)
  obtain hb bb where u: "fix_message_unparse (\<lambda>_. []) [] sample_fix (buffer_of [] 40) (buffer_of [] 1300) = Some (hb, bb)"
    "buf_bytes hb @ buf_bytes bb = sample_wire"
    using unparse_printable [OF h(1,2) sample_printable r] unfolding sample_wire_text .
  have rx: "holds (buffer_of (sample_wire @ [56]) 8) (buf_bytes hb @ buf_bytes bb @ [56])"
    if "fix_message_unparse (\<lambda>_. []) [] sample_fix (buffer_of [] 40) (buffer_of [] 1300) = Some (hb, bb)" for hb bb
    using b u that by simp (metis append.assoc)
  have sz: "unat (buffer_size (buffer_of (sample_wire @ [56]) 8)) < 2 ^ 31" using holds_size [OF b] by (simp add: l)
  have f: "length (fm_fields fix_message_new) = 48" "(0 :: ulong) AND FIX_PARSE_FLAG_NO_TYPE = 0"
    by (simp_all add: fix_message_new_def)
  have sl: "strtod_local (\<lambda>_. 0)" by (simp add: strtod_local_def)
  have m: "fm_type sample_fix = FIX_MSG_TYPE_HEARTBEAT" "msg_seq_num sample_fix = 7" "fm_nr_fields sample_fix + 3 = 4"
    by (simp_all add: sample_fix_def)
  from fix_roundtrip [OF h(1,2) sample_printable r sl rx sz f] show ?thesis unfolding m by blast
qed

subsection \<open>Incomplete messages\<close>

lemma scan_match_prefix:
  assumes v: "1 \<notin> set v" and j: "j < length (kv_text (t, v))"
  shows "scan_match t (take j (kv_text (t, v))) = (Inl FIX_MSG_STATE_PARTIAL, j)"
proof (cases "j \<le> length (dec_digits (unat t))")
  case True
  then have e: "take j (kv_text (t, v)) = take j (dec_digits (unat t))" by (simp add: kv_text_def)
  have "61 \<notin> set (take j (dec_digits (unat t)))" using no_eq_in_digits by (meson in_set_takeD)
  then have "scan_tag (take j (kv_text (t, v))) = (Inl FIX_MSG_STATE_PARTIAL, j)"
    unfolding e scan_tag_def using True by (simp add: Let_def)
  with j show ?thesis by (simp add: scan_match_def skip_def)
next
  case False
  then obtain i where i: "j = Suc (length (dec_digits (unat t))) + i" by (metis add_Suc less_iff_Suc_add not_le)
  have il: "i \<le> length v" using j by (simp add: i kv_text_def)
  then have e: "take j (kv_text (t, v)) = dec_digits (unat t) @ 61 # take i v" by (simp add: i kv_text_def)
  have "scan_value (take i v) = (Inl FIX_MSG_STATE_PARTIAL, i)"
    using v il by (auto simp: scan_value_def dest: in_set_takeD)
  then show ?thesis unfolding e scan_match_def scan_tag_text by (simp add: i)
qed

lemma match_field_prefix:
  assumes h: "holds b bs" and n: "n \<le> length bs" and d: "drop n bs = take j (kv_text (t, v))"
    and v: "1 \<notin> set v" and j: "j < length (kv_text (t, v))"
  shows "match_field (buffer_advance b (of_nat n)) t = Some (Inl FIX_MSG_STATE_PARTIAL, buffer_advance b (of_nat (n + j)))"
  using match_field_scan [OF holds_advance [OF h n], of t] scan_match_prefix [OF v j] by (simp add: d)

lemma take_split: "take k (xs @ ys) = (if k < length xs then take k xs else xs @ take (k - length xs) ys)"
  by simp

lemma header_prefix:
  assumes h: "holds b (take k (head_text begin len @ kv_text (MsgType, s)))" (is "holds b ?bs")
    and k: "k < length (head_text begin len @ kv_text (MsgType, s))"
    and bg: "1 \<notin> set begin" and s: "1 \<notin> set s" and len: "0 < len" "len \<le> 1280"
  shows "\<exists>msg'. first_three_fields msg b flags = Some (Inl FIX_MSG_STATE_PARTIAL, msg', buffer_advance b (of_nat k))"
proof -
  let ?B = "kv_text (BeginString, begin)" and ?L = "kv_text (BodyLength, dec_digits len)" and ?T = "kv_text (MsgType, s)"
  have bs: "?bs = take k (?B @ ?L @ ?T)" by (simp add: head_kv)
  have lk: "length ?bs = k" using k by simp
  note ft = first_three_fields_def parse_begin_string_def
  show ?thesis
  proof (cases "k < length ?B")
    case True
    have "drop 0 ?bs = take k ?B" unfolding bs drop_0 take_split [of k ?B] if_P [OF True] ..
    from match_field_prefix [OF h _ this bg True] show ?thesis by (simp add: ft)
  next
    case B: False
    define n1 where "n1 = length ?B"
    have d0: "drop 0 ?bs = ?B @ take (k - n1) (?L @ ?T)" unfolding bs drop_0 take_split [of k ?B] n1_def if_not_P [OF B] ..
    have n1: "n1 \<le> length ?bs" using B lk by (simp add: n1_def)
    note m1 = match_field_text [OF h le0 d0 bg, folded n1_def, simplified]
    have d1: "drop n1 ?bs = take (k - n1) (?L @ ?T)" by (rule drop_append_at [OF d0]) (simp add: n1_def)
    show ?thesis
    proof (cases "k - n1 < length ?L")
      case True
      have "drop n1 ?bs = take (k - n1) ?L" unfolding d1 take_split [of "k - n1" ?L] if_P [OF True] ..
      from match_field_prefix [OF h n1 this no_soh_in_digits True] m1 n1 lk show ?thesis
        by (simp add: ft parse_body_length_def)
    next
      case L: False
      define n2 where "n2 = n1 + length ?L"
      have d1': "drop n1 ?bs = ?L @ take (k - n2) ?T" unfolding d1 take_split [of "k - n1" ?L] if_not_P [OF L] n2_def diff_diff_left ..
      have n2: "n2 \<le> length ?bs" using L n1 lk by (simp add: n2_def)
      note m2 = match_field_text [OF h n1 d1' no_soh_in_digits, folded n2_def, unfolded tag_lengths]
      have d2: "drop n2 ?bs = take (k - n2) ?T" by (rule drop_append_at [OF d1']) (simp add: n2_def)
      have k2: "k - n2 < length ?T" using k n2 lk by (simp add: n2_def n1_def head_kv)
      note m3 = match_field_prefix [OF h n2 d2 s k2]
      have "drop (n1 + Suc 1) ?bs = dec_digits len @ 1 # take (k - n2) ?T"
        by (rule drop_value [OF d1']) (simp add: tag_lengths)
      moreover have "n1 + Suc 1 \<le> length ?bs" using n2 by (simp add: n2_def length_kv tag_lengths)
      ultimately have v: "fix_uatoi (data b) (buffer_start b + int (n1 + Suc 1))
          = Some (of_nat len, buffer_start b + int (n1 + Suc 1) + int (length (dec_digits len)))"
        using uatoi_text [OF h _ _ dec_digits_all not_digit(1)] unfolding dec_val_digits by blast
      have "\<not> (of_nat len :: i32) \<le>s 0" "\<not> FIX_MAX_MESSAGE_SIZE < (of_nat len :: ulong)"
        using len int_of_nat_len(3) [OF len(2)] unat_of_nat_64 [of len]
        by (simp_all add: word_sle_eq FIX_MAX_MESSAGE_SIZE_def word_less_nat_alt)
      then show ?thesis
        using m1 m2 m3 v n2 lk int_of_nat_len(2) [OF len(2)]
        by (simp add: ft parse_body_length_def parse_msg_type_def)
    qed
  qed
qed

lemma parse_prefix:
  assumes "holds b (take k (wire_text begin body))" and "k < length (wire_text begin body)"
    and "body = kv_text (MsgType, s) @ fs" "length body \<le> 1280" and "fix_msg_types t = Some s"
    and "1 \<notin> set begin" and "k < 2 ^ 31" and "flags AND FIX_PARSE_FLAG_NO_TYPE = 0"
  shows "\<exists>msg'. fix_message_parse tag_type strtod msg b flags = Some (False, msg', b)"
proof -
  let ?H = "head_text begin (length body)" and ?T = "kv_text (MsgType, s)"
  let ?bs = "take k (wire_text begin body)" and ?R = "fs @ trailer_text (head_text begin (length body) @ body)"
  note h = assms(1)
  have w: "wire_text begin body = (?H @ ?T) @ ?R" by (simp add: wire_text_def Let_def assms(3))
  have lk: "length ?bs = k" using assms(2) by simp
  have lb: "0 < length body" "length body \<le> 1280" using assms(3,4) by (simp_all add: kv_text_def)
  have attempt: "\<exists>msg' m. parse_attempt tag_type strtod msg b flags = Some (Inl FIX_MSG_STATE_PARTIAL, msg', buffer_advance b (of_nat m)) \<and> m \<le> k"
  proof (cases "buffer_size b = 0")
    case True
    then show ?thesis by (intro exI [of _ msg] exI [of _ 0]) (simp add: parse_attempt_def)
  next
    case ne: False
    show ?thesis
    proof (cases "k < length (?H @ ?T)")
      case True
      have "?bs = take k (?H @ ?T)" unfolding w take_split [of k "?H @ ?T"] if_P [OF True] ..
      with h have "holds b (take k (?H @ ?T))" by simp
      from header_prefix [OF this True assms(6) msg_type_no_soh [OF assms(5)] lb, of msg flags] ne
      show ?thesis by (auto simp: parse_attempt_def)
    next
      case False
      define n where "n = length ?H + length ?T"
      have bs: "?bs = ?H @ ?T @ take (k - n) ?R" unfolding w take_split [of k "?H @ ?T"] n_def if_not_P [OF False] by simp
      obtain msg1 where e1: "first_three_fields msg b flags = Some (Inr (), msg1, buffer_advance b (of_nat n))"
        and m1: "body_length msg1 = of_nat (length body)" "msg_type msg1 = Rx (buffer_start b + int (length ?H + 3))"
        using header_text_parse [OF h bs assms(6,5) lb assms(8), of msg] unfolding n_def by simp
      have n: "length ?H + 3 < n" "n \<le> length ?bs" "n \<le> k" using False lk by (auto simp: n_def length_kv tag_lengths)
      have u: "unat (body_length msg1) = length body" unfolding m1 using lb by (intro unat_of_nat_64) simp
      have "length ?bs < 2 ^ 31" "3 \<le> length ?H + 3" "unat (body_length msg1) \<le> 1280" using assms(7) lk lb u by simp_all
      note ev = checksum_eval [OF h this(1) m1(2) this(2) n(1,2) this(3), of flags]
      have "length ?bs + 3 - (length ?H + 3) < unat (body_length msg1) + 7"
        using assms(2) lk by (simp add: u wire_text_def Let_def)
      with ev e1 ne n(3) show ?thesis by (auto simp: parse_attempt_def)
    qed
  qed
  then obtain msg' m where a: "parse_attempt tag_type strtod msg b flags
      = Some (Inl FIX_MSG_STATE_PARTIAL, msg', buffer_advance b (of_nat m))" "m \<le> length ?bs" using lk by auto
  have "buffer_advance (buffer_advance b (of_nat m)) (of_int (buffer_start b - buffer_start (buffer_advance b (of_nat m)))) = b"
    unfolding buffer_start_advance [OF h a(2)] by simp
  with a(1) show ?thesis by (simp add: fix_message_parse_def)
qed

text \<open>C6: a message that has not arrived completely is never consumed.  On every proper prefix of a
  well-formed message, cut at any byte, the parse says that there is no message yet and leaves
  the buffer exactly as it was, so that the parse is tried again when more bytes have come.\<close>

theorem fix_prefix_kept:
  assumes "holds b (take k (wire_text begin body))" and "k < length (wire_text begin body)"
    and "body = kv_text (MsgType, s) @ fs" "length body \<le> 1280" and "fix_msg_types t = Some s"
    and "1 \<notin> set begin" and "k < 2 ^ 31" and "flags AND FIX_PARSE_FLAG_NO_TYPE = 0"
  shows "\<exists>msg'. fix_message_parse tag_type strtod msg b flags = Some (False, msg', b)"
  by (rule parse_prefix [OF assms])

theorem fix_prefix_kept_witness:
  "\<exists>msg'. fix_message_parse fix_tag_type (\<lambda>_. 0) fix_message_new (buffer_of (take 25 sample_wire) 0) 0
     = Some (False, msg', buffer_of (take 25 sample_wire) 0)"
proof -
  let ?body = "body_text (\<lambda>_. []) [] sample_fix sample_now"
  have l: "length sample_wire = 70" "length ?body = 48" by code_simp+
  have "holds (buffer_of (take 25 sample_wire) 0) (take 25 sample_wire)" by (rule buffer_of_holds) (simp add: l)
  then have h: "holds (buffer_of (take 25 sample_wire) 0) (take 25 (wire_text (chars ''FIX.4.4'') ?body))"
    by (simp only: sample_wire_text)
  have b: "?body = kv_text (MsgType, chars ''0'') @ concat (map kv_text (body_kvs (\<lambda>_. []) [] sample_fix sample_now))"
    by (simp add: body_text_def sample_fix_def)
  have m: "fix_msg_types FIX_MSG_TYPE_HEARTBEAT = Some (chars ''0'')" "1 \<notin> set (chars ''FIX.4.4'')" by code_simp+
  show ?thesis by (rule fix_prefix_kept [OF h _ b _ m]) (simp_all only: sample_wire_text l, simp_all)
qed

end
