(* ===== verification/Fix_Session.thy ===== *)
theory Fix_Session
  imports Fix_Message "HOL-Library.Signed_Division"
begin

text \<open>
  FIX sessions (lib/proto/fix_session.c, fix_session.h): configuration, time, sending with sequence
  numbers and buffered receiving.

  The kernel under a session has a state of its own, of any type, which \<open>recv\<close>, \<open>sendmsg\<close> and the clock
  take and give back: it stands for the socket and the other end.  With the conversions of \<open>double\<close>s it
  makes up the record \<open>sys\<close> that the operations take.
\<close>

subsection \<open>Dialects and configuration\<close>

datatype fix_version = FIX_4_0 | FIX_4_1 | FIX_4_2 | FIX_4_3 | FIX_4_4 | FIX_5_0 | FIXT_1_1

fun version_num :: "fix_version \<Rightarrow> nat" where
  "version_num FIX_4_0 = 0"
| "version_num FIX_4_1 = 1"
| "version_num FIX_4_2 = 2"
| "version_num FIX_4_3 = 3"
| "version_num FIX_4_4 = 4"
| "version_num FIX_5_0 = 5"
| "version_num FIXT_1_1 = 6"

record fix_dialect =
  d_version :: fix_version
  d_tag_type :: "(i32 \<Rightarrow> fix_type) option"

text \<open>The tables \<open>fix_dialects\<close> and \<open>begin_strings\<close> have no entry for \<open>FIX_5_0\<close>: the former leaves zeros
  there, the latter a null pointer.\<close>

definition fix_dialects :: "fix_version \<Rightarrow> fix_dialect" where
  "fix_dialects v = (if v = FIX_5_0 then \<lparr>d_version = FIX_4_0, d_tag_type = None\<rparr>
     else \<lparr>d_version = v, d_tag_type = Some fix_tag_type\<rparr>)"

definition c_lit :: "u8 list \<Rightarrow> char_ptr" where
  "c_lit s = Str (s @ [0])"

fun begin_strings :: "fix_version \<Rightarrow> char_ptr" where
  "begin_strings FIXT_1_1 = c_lit (chars ''FIXT.1.1'')"
| "begin_strings FIX_4_4 = c_lit (chars ''FIX.4.4'')"
| "begin_strings FIX_4_3 = c_lit (chars ''FIX.4.3'')"
| "begin_strings FIX_4_2 = c_lit (chars ''FIX.4.2'')"
| "begin_strings FIX_4_1 = c_lit (chars ''FIX.4.1'')"
| "begin_strings FIX_4_0 = c_lit (chars ''FIX.4.0'')"
| "begin_strings FIX_5_0 = Str []"

record fix_session_cfg =
  cfg_sender_comp_id :: mem
  cfg_target_comp_id :: mem
  cfg_password :: mem
  cfg_heartbtint :: i32
  cfg_dialect :: "fix_dialect option"
  cfg_sockfd :: i32
  cfg_in_msg_seq_num :: ulong
  cfg_out_msg_seq_num :: ulong

definition fix_session_cfg_init :: fix_session_cfg where
  "fix_session_cfg_init = \<lparr>cfg_sender_comp_id = replicate 32 0, cfg_target_comp_id = replicate 32 0,
     cfg_password = replicate 32 0, cfg_heartbtint = 0, cfg_dialect = None, cfg_sockfd = 0,
     cfg_in_msg_seq_num = 0, cfg_out_msg_seq_num = 0\<rparr>"

text \<open>\<open>strncpy\<close> of a C string into an array of \<open>n\<close> characters: no NUL is stored when the string has \<open>n\<close>
  characters or more.\<close>

definition c_strncpy :: "u8 list \<Rightarrow> nat \<Rightarrow> mem option" where
  "c_strncpy cs n =
     (let s = take n (takeWhile (\<lambda>c. c \<noteq> 0) cs) in
      if length s < n \<and> 0 \<notin> set cs then None else Some (s @ replicate (n - length s) 0))"

definition version_of_name :: "string \<Rightarrow> fix_version" where
  "version_of_name s =
     (if s = ''fixt-1.1'' then FIXT_1_1
      else if s = ''fix-4.0'' then FIX_4_0
      else if s = ''fix-4.1'' then FIX_4_1
      else if s = ''fix-4.2'' then FIX_4_2
      else if s = ''fix-4.3'' then FIX_4_3 else FIX_4_4)"

definition fix_session_cfg_new :: "u8 list \<Rightarrow> u8 list \<Rightarrow> i32 \<Rightarrow> string \<Rightarrow> i32 \<Rightarrow> fix_session_cfg option" where
  "fix_session_cfg_new sender target heartbtint dialect sockfd = do {
     s \<leftarrow> c_strncpy sender 32;
     t \<leftarrow> c_strncpy target 32;
     Some (fix_session_cfg_init\<lparr>cfg_sender_comp_id := s, cfg_target_comp_id := t, cfg_heartbtint := heartbtint,
       cfg_dialect := Some (fix_dialects (version_of_name dialect)), cfg_sockfd := sockfd\<rparr>) }"

subsection \<open>Sessions\<close>

record timespec =
  tv_sec :: i64
  tv_nsec :: i64

datatype fix_failure_reason = FIX_SUCCESS | FIX_FAILURE_CONN_CLOSED | FIX_FAILURE_RECV_ZERO_B
  | FIX_FAILURE_SYSTEM | FIX_FAILURE_GARBLED

record fix_session =
  s_dialect :: fix_dialect
  s_sockfd :: i32
  s_active :: bool
  s_password :: mem
  s_begin_string :: char_ptr
  s_sender_comp_id :: mem
  s_target_comp_id :: mem
  in_msg_seq_num :: ulong
  out_msg_seq_num :: ulong
  rx_buffer :: buffer
  tx_head_buffer :: buffer
  tx_body_buffer :: buffer
  rx_message :: fix_message
  s_heartbtint :: i32
  s_now :: timespec
  s_str_now :: mem
  rx_timestamp :: timespec
  tx_timestamp :: timespec
  testreqid :: mem
  tr_timestamp :: timespec
  tr_pending :: i32
  failure_reason :: fix_failure_reason

record 'k sys =
  c_strtod :: "u8 list \<Rightarrow> u64"
  c_dtoa2 :: "u64 \<Rightarrow> u8 list"
  k_recv :: "'k \<Rightarrow> ulong \<Rightarrow> u8 list io \<times> 'k"
  k_sendmsg :: "'k \<Rightarrow> u8 list list \<Rightarrow> i64 \<times> 'k"
  k_clock :: "'k \<Rightarrow> i64 \<times> 'k"

definition RECV_BUFFER_SIZE :: ulong where "RECV_BUFFER_SIZE = 4096"
definition FIX_MAX_HEAD_LEN :: ulong where "FIX_MAX_HEAD_LEN = 256"
definition FIX_MAX_BODY_LEN :: ulong where "FIX_MAX_BODY_LEN = 1024"
definition FIX_TX_HEAD_BUFFER_SIZE :: ulong where "FIX_TX_HEAD_BUFFER_SIZE = FIX_MAX_HEAD_LEN"
definition FIX_TX_BODY_BUFFER_SIZE :: ulong where "FIX_TX_BODY_BUFFER_SIZE = FIX_MAX_BODY_LEN"
definition FIX_RECV_FLAG_MSG_DONTWAIT :: ulong where "FIX_RECV_FLAG_MSG_DONTWAIT = push_bit 16 1"
definition FIX_RECV_KEEP_IN_MSGSEQNUM :: ulong where "FIX_RECV_KEEP_IN_MSGSEQNUM = push_bit 17 1"

subsection \<open>Time\<close>

text \<open>\<open>gmtime\<close>: the proleptic Gregorian calendar; days are counted from 1970-01-01.  It fails when the year
  does not fit \<open>tm_year\<close>, an \<open>int\<close> that counts from 1900.\<close>

definition civil_of_days :: "int \<Rightarrow> int \<times> int \<times> int" where
  "civil_of_days days =
     (let z = days + 719468; era = z div 146097; doe = z mod 146097;
          yoe = (doe - doe div 1460 + doe div 36524 - doe div 146096) div 365;
          doy = doe - (365 * yoe + yoe div 4 - yoe div 100);
          mp = (5 * doy + 2) div 153;
          d = doy - (153 * mp + 2) div 5 + 1;
          m = (if mp < 10 then mp + 3 else mp - 9)
      in (yoe + era * 400 + (if m \<le> 2 then 1 else 0), m, d))"

definition gmtime :: "i64 \<Rightarrow> ((int \<times> int \<times> int) \<times> int \<times> int \<times> int) option" where
  "gmtime t =
     (let days = sint t div 86400; sec = sint t mod 86400; (y, m, d) = civil_of_days days in
      if - (2 ^ 31) \<le> y - 1900 \<and> y - 1900 < 2 ^ 31
      then Some ((y, m, d), sec div 3600, sec div 60 mod 60, sec mod 60) else None)"

text \<open>\<open>printf\<close> of an integer at a minimal width, padded with zeros.\<close>

definition zero_padded :: "nat \<Rightarrow> int \<Rightarrow> u8 list" where
  "zero_padded w v =
     (let s = dec_digits (nat \<bar>v\<bar>); sign = (if v < 0 then [45] else []) in
      sign @ replicate (w - length sign - length s) 48 @ s)"

definition time_text :: "(int \<times> int \<times> int) \<times> int \<times> int \<times> int \<Rightarrow> int \<Rightarrow> u8 list" where
  "time_text = (\<lambda>((y, m, d), h, mi, s) ms.
     dec_int y @ zero_padded 2 m @ zero_padded 2 d @ [45] @ zero_padded 2 h @ [58] @ zero_padded 2 mi @ [58]
     @ zero_padded 2 s @ [46] @ zero_padded 3 ms)"

definition fix_session_time_update_monotonic :: "fix_session \<Rightarrow> timespec \<Rightarrow> i32 \<times> fix_session" where
  "fix_session_time_update_monotonic self monotonic = (0, self\<lparr>s_now := monotonic\<rparr>)"

text \<open>\<open>snprintf\<close> stores at most 63 characters and a NUL into \<open>str_now\<close>; the microseconds and then the
  milliseconds are got by the truncating division of C.\<close>

definition fix_session_time_update_realtime :: "fix_session \<Rightarrow> timespec \<Rightarrow> (i32 \<times> fix_session) option" where
  "fix_session_time_update_realtime self realtime =
     (case gmtime (tv_sec realtime) of
        None \<Rightarrow> Some (-1, self)
      | Some tm \<Rightarrow> do {
          now \<leftarrow> mem_store (s_str_now self) 0
            (take 63 (time_text tm (sint (tv_nsec realtime) sdiv 1000 sdiv 1000)) @ [0]);
          Some (0, self\<lparr>s_str_now := now\<rparr>) })"

text \<open>The two arguments are what \<open>clock_gettime\<close> answers, \<open>None\<close> for a failure.\<close>

definition fix_session_time_update :: "fix_session \<Rightarrow> timespec option \<Rightarrow> timespec option \<Rightarrow> (i32 \<times> fix_session) option" where
  "fix_session_time_update self monotonic realtime =
     (case monotonic of
        None \<Rightarrow> Some (-1, self)
      | Some ts \<Rightarrow>
          let (r, self) = fix_session_time_update_monotonic self ts in
          if r \<noteq> 0 then Some (-1, self)
          else (case realtime of
                  None \<Rightarrow> Some (-1, self)
                | Some ts \<Rightarrow> fix_session_time_update_realtime self ts))"

subsection \<open>Construction\<close>

text \<open>\<open>session_ok\<close> and \<open>message_ok\<close> say whether the two \<open>calloc\<close>s succeed; a failure of any allocation or of
  the clock gives NULL.\<close>

definition session_zero :: fix_session where
  "session_zero = \<lparr>s_dialect = \<lparr>d_version = FIX_4_0, d_tag_type = None\<rparr>, s_sockfd = 0, s_active = False,
     s_password = [], s_begin_string = Str [], s_sender_comp_id = [], s_target_comp_id = [],
     in_msg_seq_num = 0, out_msg_seq_num = 0,
     rx_buffer = \<lparr>b_start = 0, b_end = 0, capacity = 0, data = []\<rparr>,
     tx_head_buffer = \<lparr>b_start = 0, b_end = 0, capacity = 0, data = []\<rparr>,
     tx_body_buffer = \<lparr>b_start = 0, b_end = 0, capacity = 0, data = []\<rparr>,
     rx_message = fix_message_new, s_heartbtint = 0, s_now = \<lparr>tv_sec = 0, tv_nsec = 0\<rparr>,
     s_str_now = replicate 64 0, rx_timestamp = \<lparr>tv_sec = 0, tv_nsec = 0\<rparr>,
     tx_timestamp = \<lparr>tv_sec = 0, tv_nsec = 0\<rparr>, testreqid = replicate 64 0,
     tr_timestamp = \<lparr>tv_sec = 0, tv_nsec = 0\<rparr>, tr_pending = 0, failure_reason = FIX_SUCCESS\<rparr>"

definition fix_session_new :: "bool \<Rightarrow> (ulong \<Rightarrow> mem option) \<Rightarrow> bool \<Rightarrow> timespec option \<Rightarrow> timespec option
    \<Rightarrow> fix_session_cfg \<Rightarrow> fix_session option option" where
  "fix_session_new session_ok malloc message_ok monotonic realtime cfg =
     (if \<not> session_ok then Some None
      else do {
        dialect \<leftarrow> cfg_dialect cfg;
        (case buffer_new malloc RECV_BUFFER_SIZE of
           None \<Rightarrow> Some None
         | Some rx \<Rightarrow>
        case buffer_new malloc FIX_TX_HEAD_BUFFER_SIZE of
           None \<Rightarrow> Some None
         | Some head \<Rightarrow>
        case buffer_new malloc FIX_TX_BODY_BUFFER_SIZE of
           None \<Rightarrow> Some None
         | Some body \<Rightarrow>
        if \<not> message_ok then Some None
        else do {
          (r, self) \<leftarrow> fix_session_time_update
             (session_zero\<lparr>s_dialect := dialect, rx_buffer := rx, tx_head_buffer := head, tx_body_buffer := body,
                rx_message := fix_message_new\<rparr>) monotonic realtime;
          (if r \<noteq> 0 then Some None
           else Some (Some (self\<lparr>rx_timestamp := s_now self, tx_timestamp := s_now self,
                  s_begin_string := begin_strings (d_version dialect),
                  s_sender_comp_id := cfg_sender_comp_id cfg, s_target_comp_id := cfg_target_comp_id cfg,
                  s_heartbtint := cfg_heartbtint cfg, s_password := cfg_password cfg, s_sockfd := cfg_sockfd cfg,
                  tr_pending := 0,
                  in_msg_seq_num := (if 0 < cfg_in_msg_seq_num cfg then cfg_in_msg_seq_num cfg else 0),
                  out_msg_seq_num := (if 1 < cfg_out_msg_seq_num cfg then cfg_out_msg_seq_num cfg else 1)\<rparr>))) }) })"

subsection \<open>Sending\<close>

text \<open>The logical \<open>flags && FIX_SEND_FLAG_PRESERVE_MSG_NUM\<close> of the code holds for any flags but 0.\<close>

definition fix_session_send :: "'k sys \<Rightarrow> fix_session \<Rightarrow> fix_message \<Rightarrow> ulong \<Rightarrow> 'k
    \<Rightarrow> (i32 \<times> fix_session \<times> fix_message \<times> 'k) option" where
  "fix_session_send c self msg flags k =
     (let msg = msg\<lparr>begin_string := s_begin_string self, sender_comp_id := Str (s_sender_comp_id self),
            target_comp_id := Str (s_target_comp_id self)\<rparr>;
          (msg, self) = (if \<not> (flags \<noteq> 0 \<and> FIX_SEND_FLAG_PRESERVE_MSG_NUM \<noteq> 0)
            then (msg\<lparr>msg_seq_num := out_msg_seq_num self\<rparr>, self\<lparr>out_msg_seq_num := out_msg_seq_num self + 1\<rparr>)
            else (msg, self));
          head = buffer_reset (tx_head_buffer self);
          body = buffer_reset (tx_body_buffer self);
          self = self\<lparr>tx_timestamp := s_now self\<rparr>;
          msg = msg\<lparr>str_now := Str (s_str_now self)\<rparr>
      in do {
        (r, head, body) \<leftarrow> fix_message_send (c_dtoa2 c) (data (rx_buffer self)) msg head body (\<lambda>v. fst (k_sendmsg c k v)) flags;
        v0 \<leftarrow> buffer_to_iovec head;
        v1 \<leftarrow> buffer_to_iovec body;
        Some (r, self\<lparr>tx_head_buffer := head, tx_body_buffer := body\<rparr>, msg, snd (k_sendmsg c k [v0, v1])) })"

subsection \<open>Receiving\<close>

definition fix_session_buffer_full :: "fix_session \<Rightarrow> bool" where
  "fix_session_buffer_full session \<longleftrightarrow> buffer_remaining (rx_buffer session) \<le> FIX_MAX_MESSAGE_SIZE"

definition MSG_DONTWAIT :: i32 where "MSG_DONTWAIT = 0x40"

definition translate_recv_flags :: "ulong \<Rightarrow> i32" where
  "translate_recv_flags flags = (if flags AND FIX_RECV_FLAG_MSG_DONTWAIT \<noteq> 0 then MSG_DONTWAIT else 0)"

text \<open>A parse of the receive buffer, with what follows a message that was found: the answer is whether there is one.
  A dialect without \<open>tag_type\<close> is a call through a null pointer.\<close>

definition session_parse :: "'k sys \<Rightarrow> fix_session \<Rightarrow> ulong \<Rightarrow> (bool \<times> fix_session) option" where
  "session_parse c self flags = do {
     tag_type \<leftarrow> d_tag_type (s_dialect self);
     (found, msg, b) \<leftarrow> fix_message_parse tag_type (c_strtod c) (rx_message self) (rx_buffer self) flags;
     (let self = self\<lparr>rx_message := msg, rx_buffer := b\<rparr> in
      if found then
        let self = self\<lparr>rx_timestamp := s_now self\<rparr> in
        Some (True, if flags AND FIX_RECV_KEEP_IN_MSGSEQNUM = 0
          then self\<lparr>in_msg_seq_num := in_msg_seq_num self + 1\<rparr> else self)
      else Some (False, self)) }"

text \<open>The flags of the socket are \<open>translate_recv_flags flags\<close>: what \<open>MSG_DONTWAIT\<close> changes is the answer
  of the kernel.  \<open>nr\<close> is \<open>None\<close> when there was no room to receive anything.\<close>

definition fix_session_recv :: "'k sys \<Rightarrow> fix_session \<Rightarrow> ulong \<Rightarrow> 'k \<Rightarrow> (i32 \<times> fix_session \<times> 'k) option" where
  "fix_session_recv c self flags k = do {
     (found, self) \<leftarrow> session_parse c (self\<lparr>failure_reason := FIX_SUCCESS\<rparr>) flags;
     (if found then Some (1, self, k)
      else do {
        b \<leftarrow> (if fix_session_buffer_full self then buffer_compact (rx_buffer self) else Some (rx_buffer self));
        (let self = self\<lparr>rx_buffer := b\<rparr>; sz = buffer_remaining b in do {
           (nr, self, k) \<leftarrow>
             (if sz > FIX_MAX_MESSAGE_SIZE then
                (let sz = sz - FIX_MAX_MESSAGE_SIZE in do {
                   (nr, b) \<leftarrow> buffer_recv (rx_buffer self) (\<lambda>n. fst (k_recv c k n)) sz;
                   Some (Some nr, self\<lparr>rx_buffer := b\<rparr>, snd (k_recv c k (buffer_count (rx_buffer self) sz))) })
              else Some (None, self, k));
           (if \<exists>n. nr = Some n \<and> n \<le>s 0
            then Some (-1, self\<lparr>failure_reason := (if nr = Some 0 then FIX_FAILURE_CONN_CLOSED else FIX_FAILURE_SYSTEM)\<rparr>, k)
            else do {
              (found, self) \<leftarrow> session_parse c self flags;
              Some (if found then 1 else 0, self, k) }) }) }) }"

definition fix_msg_expected :: "fix_session \<Rightarrow> fix_message \<Rightarrow> bool" where
  "fix_msg_expected session msg \<longleftrightarrow>
     msg_seq_num msg = in_msg_seq_num session \<or> fix_message_type_is msg FIX_MSG_TYPE_SEQUENCE_RESET"

end
