(* ===== verification/Fix_Admin.thy ===== *)
theory Fix_Admin
  imports Fix_Session
begin

text \<open>
  The session level of FIX (tools/fix/fix_common.c): administrative messages, sequence number recovery,
  keep-alive, logon and logout.

  \<open>fix_session_logout\<close> waits for the answer of the other side and handles administrative messages
  meanwhile, which may log out again: the two functions call each other.  The handler takes the logout it
  calls as an argument, and the logout has fuel.
\<close>

subsection \<open>Messages that are sent\<close>

definition BeginSeqNo :: i32 where "BeginSeqNo = 7"
definition EndSeqNo :: i32 where "EndSeqNo = 16"
definition NewSeqNo :: i32 where "NewSeqNo = 36"
definition PossDupFlag :: i32 where "PossDupFlag = 43"
definition RefSeqNum :: i32 where "RefSeqNum = 45"
definition Text :: i32 where "Text = 58"
definition EncryptMethod :: i32 where "EncryptMethod = 98"
definition HeartBtInt :: i32 where "HeartBtInt = 108"
definition TestReqID :: i32 where "TestReqID = 112"
definition GapFillFlag :: i32 where "GapFillFlag = 123"
definition ResetSeqNumFlag :: i32 where "ResetSeqNumFlag = 141"
definition Password :: i32 where "Password = 554"

definition new_message :: "fix_msg_type \<Rightarrow> ulong \<Rightarrow> fix_field list \<Rightarrow> fix_message" where
  "new_message t n fs = fix_message_new\<lparr>fm_type := t, fm_nr_fields := n, fm_fields := fs\<rparr>"

definition send_message :: "'k sys \<Rightarrow> fix_session \<Rightarrow> fix_message \<Rightarrow> ulong \<Rightarrow> 'k \<Rightarrow> (i32 \<times> fix_session \<times> 'k) option" where
  "send_message c self msg flags k = do {
     (r, self, msg, k) \<leftarrow> fix_session_send c self msg flags k;
     Some (r, self, k) }"

text \<open>The array of the heartbeat has one field, which stays as it is when there is no request to answer.\<close>

definition heartbeat_msg :: "char_ptr option \<Rightarrow> fix_message" where
  "heartbeat_msg test_req_id =
     (case test_req_id of
        None \<Rightarrow> new_message FIX_MSG_TYPE_HEARTBEAT 0 [FIX_INT_FIELD 0 0]
      | Some p \<Rightarrow> new_message FIX_MSG_TYPE_HEARTBEAT 1 [FIX_STRING_FIELD TestReqID p])"

definition fix_session_heartbeat :: "'k sys \<Rightarrow> fix_session \<Rightarrow> char_ptr option \<Rightarrow> 'k \<Rightarrow> (i32 \<times> fix_session \<times> 'k) option" where
  "fix_session_heartbeat c self test_req_id k = send_message c self (heartbeat_msg test_req_id) 0 k"

definition fix_session_test_request :: "'k sys \<Rightarrow> fix_session \<Rightarrow> 'k \<Rightarrow> (i32 \<times> fix_session \<times> 'k) option" where
  "fix_session_test_request c self k = do {
     t \<leftarrow> c_strncpy (s_str_now self) 64;
     send_message c (self\<lparr>testreqid := t, tr_timestamp := s_now self, tr_pending := 1\<rparr>)
       (new_message FIX_MSG_TYPE_TEST_REQUEST 1 [FIX_STRING_FIELD TestReqID (Str (s_str_now self))]) 0 k }"

definition resend_request_msg :: "ulong \<Rightarrow> ulong \<Rightarrow> fix_message" where
  "resend_request_msg bgn end' =
     new_message FIX_MSG_TYPE_RESEND_REQUEST 2 [FIX_INT_FIELD BeginSeqNo bgn, FIX_INT_FIELD EndSeqNo end']"

definition fix_session_resend_request :: "'k sys \<Rightarrow> fix_session \<Rightarrow> ulong \<Rightarrow> ulong \<Rightarrow> 'k \<Rightarrow> (i32 \<times> fix_session \<times> 'k) option" where
  "fix_session_resend_request c self bgn end' k = send_message c self (resend_request_msg bgn end') 0 k"

text \<open>A null text leaves the field out.\<close>

definition reject_msg :: "ulong \<Rightarrow> u8 list option \<Rightarrow> fix_message" where
  "reject_msg refseqnum text =
     new_message FIX_MSG_TYPE_REJECT (if text = None then 1 else 2)
       [FIX_INT_FIELD RefSeqNum refseqnum, FIX_STRING_FIELD Text (case text of None \<Rightarrow> Str [] | Some t \<Rightarrow> c_lit t)]"

definition fix_session_reject :: "'k sys \<Rightarrow> fix_session \<Rightarrow> ulong \<Rightarrow> u8 list option \<Rightarrow> 'k \<Rightarrow> (i32 \<times> fix_session \<times> 'k) option" where
  "fix_session_reject c self refseqnum text k = send_message c self (reject_msg refseqnum text) 0 k"

definition sequence_reset_msg :: "ulong \<Rightarrow> ulong \<Rightarrow> bool \<Rightarrow> fix_message" where
  "sequence_reset_msg n new_seq_num gap_fill =
     (new_message FIX_MSG_TYPE_SEQUENCE_RESET (if gap_fill then 2 else 1)
        [FIX_INT_FIELD NewSeqNo new_seq_num, FIX_STRING_FIELD GapFillFlag (c_lit (chars ''Y''))])
     \<lparr>msg_seq_num := n\<rparr>"

definition fix_session_sequence_reset :: "'k sys \<Rightarrow> fix_session \<Rightarrow> ulong \<Rightarrow> ulong \<Rightarrow> bool \<Rightarrow> 'k
    \<Rightarrow> (i32 \<times> fix_session \<times> 'k) option" where
  "fix_session_sequence_reset c self n new_seq_num gap_fill k =
     send_message c self (sequence_reset_msg n new_seq_num gap_fill) FIX_SEND_FLAG_PRESERVE_MSG_NUM k"

definition fix_session_new_order_single :: "'k sys \<Rightarrow> fix_session \<Rightarrow> fix_field list \<Rightarrow> i64 \<Rightarrow> 'k \<Rightarrow> (i32 \<times> fix_session \<times> 'k) option" where
  "fix_session_new_order_single c self fs n k = send_message c self (new_message FIX_MSG_TYPE_NEW_ORDER_SINGLE n fs) 0 k"

definition fix_session_order_cancel_request :: "'k sys \<Rightarrow> fix_session \<Rightarrow> fix_field list \<Rightarrow> i64 \<Rightarrow> 'k \<Rightarrow> (i32 \<times> fix_session \<times> 'k) option" where
  "fix_session_order_cancel_request c self fs n k = send_message c self (new_message FIX_MSG_ORDER_CANCEL_REQUEST n fs) 0 k"

definition fix_session_order_cancel_replace :: "'k sys \<Rightarrow> fix_session \<Rightarrow> fix_field list \<Rightarrow> i64 \<Rightarrow> 'k \<Rightarrow> (i32 \<times> fix_session \<times> 'k) option" where
  "fix_session_order_cancel_replace c self fs n k = send_message c self (new_message FIX_MSG_ORDER_CANCEL_REPLACE n fs) 0 k"

definition fix_session_execution_report :: "'k sys \<Rightarrow> fix_session \<Rightarrow> fix_field list \<Rightarrow> i64 \<Rightarrow> 'k \<Rightarrow> (i32 \<times> fix_session \<times> 'k) option" where
  "fix_session_execution_report c self fs n k = send_message c self (new_message FIX_MSG_TYPE_EXECUTION_REPORT n fs) 0 k"

subsection \<open>Keep-alive\<close>

text \<open>The \<open>double\<close> comparisons \<open>diff > 1.2 * heartbtint\<close> and \<open>diff > 0.5 * heartbtint\<close> are exact on \<open>int\<close>s: the product
  by 1.2 is rounded by less than half a unit in the last place, hence to the integer where it is one.\<close>

definition fix_session_keepalive :: "'k sys \<Rightarrow> fix_session \<Rightarrow> timespec \<Rightarrow> 'k \<Rightarrow> (bool \<times> fix_session \<times> 'k) option" where
  "fix_session_keepalive c session now k = do {
     (alive, session, k) \<leftarrow>
       (if tr_pending session = 0 then
          (let diff = (ucast (tv_sec now - tv_sec (rx_timestamp session)) :: i32) in
           if 6 * sint (s_heartbtint session) < 5 * sint diff then do {
             (r, session, k) \<leftarrow> fix_session_test_request c session k;
             Some (True, session, k) }
           else Some (True, session, k))
        else
          (let diff = (ucast (tv_sec now - tv_sec (tr_timestamp session)) :: i32) in
           Some (\<not> sint (s_heartbtint session) < 2 * sint diff, session, k)));
     (if \<not> alive then Some (False, session, k)
      else
        (let diff = (ucast (tv_sec now - tv_sec (tx_timestamp session)) :: i32) in
         if sint (s_heartbtint session) < sint diff then do {
           (r, session, k) \<leftarrow> fix_session_heartbeat c session None k;
           Some (True, session, k) }
         else Some (True, session, k))) }"

subsection \<open>Administrative messages\<close>

type_synonym 'k logout = "fix_session \<Rightarrow> u8 list option \<Rightarrow> 'k \<Rightarrow> (i32 \<times> fix_session \<times> 'k) option"

text \<open>\<open>snprintf\<close> into an array of 128 characters.\<close>

definition text128 :: "u8 list \<Rightarrow> u8 list" where
  "text128 s = take 127 s"

definition too_low_text :: "ulong \<Rightarrow> ulong \<Rightarrow> u8 list" where
  "too_low_text expected received' = text128 (chars ''MsgSeqNum too low, expecting '' @ dec_digits (unat expected)
     @ chars '' received '' @ dec_digits (unat received'))"

definition fix_do_unexpected :: "'k sys \<Rightarrow> 'k logout \<Rightarrow> fix_session \<Rightarrow> fix_message \<Rightarrow> 'k \<Rightarrow> (i32 \<times> fix_session \<times> 'k) option" where
  "fix_do_unexpected c logout session msg k =
     (if msg_seq_num msg > in_msg_seq_num session then
        (let end_seq_no = (if version_num (d_version (s_dialect session)) \<le> version_num FIX_4_1 then 999999 else 0) in do {
           (r, session, k) \<leftarrow> fix_session_resend_request c session (in_msg_seq_num session) end_seq_no k;
           Some (0, session\<lparr>in_msg_seq_num := in_msg_seq_num session - 1\<rparr>, k) })
      else if msg_seq_num msg < in_msg_seq_num session then
        (let text = too_low_text (in_msg_seq_num session) (msg_seq_num msg);
             session = session\<lparr>in_msg_seq_num := in_msg_seq_num session - 1\<rparr>
         in do {
           dup \<leftarrow> fix_get_field msg PossDupFlag;
           (if dup = None then do {
              (r, session, k) \<leftarrow> logout session (Some text) k;
              Some (1, session, k) }
            else Some (0, session, k)) })
      else Some (0, session, k))"

text \<open>The field with a tag, when there is one.\<close>

definition field_with :: "fix_message \<Rightarrow> i32 \<Rightarrow> fix_field option option" where
  "field_with msg tag = do {
     p \<leftarrow> fix_get_field msg tag;
     (case p of
        None \<Rightarrow> Some None
      | Some i \<Rightarrow> do { f \<leftarrow> mem_get (fm_fields msg) i; Some (Some f) }) }"

definition string_at :: "mem \<Rightarrow> fix_field \<Rightarrow> u8 list option" where
  "string_at rx f = do { p \<leftarrow> string_of_value (ff_value f); deref rx p }"

definition admin_heartbeat :: "fix_session \<Rightarrow> fix_message \<Rightarrow> fix_session option" where
  "admin_heartbeat session msg = do {
     field \<leftarrow> field_with msg TestReqID;
     (case field of
        None \<Rightarrow> Some session
      | Some f \<Rightarrow> do {
          s \<leftarrow> string_at (data (rx_buffer session)) f;
          n \<leftarrow> c_strlen (testreqid session);
          same \<leftarrow> c_strn_equal s (testreqid session) n;
          Some (if same then session\<lparr>tr_pending := 0\<rparr> else session) }) }"

definition admin_test_request :: "'k sys \<Rightarrow> fix_session \<Rightarrow> fix_message \<Rightarrow> 'k \<Rightarrow> (fix_session \<times> 'k) option" where
  "admin_test_request c session msg k = do {
     field \<leftarrow> field_with msg TestReqID;
     (let ident = chars ''TestReqID'' @ replicate 119 0 in do {
        ident \<leftarrow> (case field of
           None \<Rightarrow> Some ident
         | Some f \<Rightarrow> do { (ok, ident) \<leftarrow> fix_get_string (data (rx_buffer session)) f ident 128; Some ident });
        (r, session, k) \<leftarrow> fix_session_heartbeat c session (Some (Str ident)) k;
        Some (session, k) }) }"

text \<open>The result says whether the request was handled.\<close>

definition admin_resend_request :: "'k sys \<Rightarrow> fix_session \<Rightarrow> fix_message \<Rightarrow> 'k \<Rightarrow> (bool \<times> fix_session \<times> 'k) option" where
  "admin_resend_request c session msg k = do {
     field \<leftarrow> field_with msg BeginSeqNo;
     (case field of
        None \<Rightarrow> Some (False, session, k)
      | Some f \<Rightarrow> do {
          begin_seq_num \<leftarrow> int_of_value (ff_value f);
          field \<leftarrow> field_with msg EndSeqNo;
          (case field of
             None \<Rightarrow> Some (False, session, k)
           | Some f \<Rightarrow> do {
               end_seq_num \<leftarrow> int_of_value (ff_value f);
               (r, session, k) \<leftarrow> fix_session_sequence_reset c session begin_seq_num (end_seq_num + 1) True k;
               Some (True, session, k) }) }) }"

definition lower_text :: "ulong \<Rightarrow> u8 list" where
  "lower_text n = text128 (chars ''Attempt to lower sequence number, invalid value NewSeqNum = '' @ dec_digits (unat n))"

definition incorrect_text :: "ulong \<Rightarrow> u8 list" where
  "incorrect_text n = text128 (chars ''Value is incorrect (too low) '' @ dec_digits (unat n))"

definition gap_fill :: "'k sys \<Rightarrow> 'k logout \<Rightarrow> fix_session \<Rightarrow> fix_message \<Rightarrow> ulong \<Rightarrow> 'k \<Rightarrow> (fix_session \<times> 'k) option" where
  "gap_fill c logout session msg new_seq_num k =
     (let exp_seq_num = in_msg_seq_num session; n = msg_seq_num msg in
      if n > exp_seq_num then do {
        (r, session, k) \<leftarrow> fix_session_resend_request c session exp_seq_num n k;
        Some (session\<lparr>in_msg_seq_num := in_msg_seq_num session - 1\<rparr>, k) }
      else if n < exp_seq_num then
        (let session = session\<lparr>in_msg_seq_num := in_msg_seq_num session - 1\<rparr> in do {
           dup \<leftarrow> fix_get_field msg PossDupFlag;
           (if dup = None then do {
              (r, session, k) \<leftarrow> logout session (Some (too_low_text exp_seq_num n)) k;
              Some (session, k) }
            else Some (session, k)) })
      else if new_seq_num > n then Some (session\<lparr>in_msg_seq_num := new_seq_num - 1\<rparr>, k)
      else do {
        (r, session, k) \<leftarrow> fix_session_reject c session n (Some (lower_text new_seq_num)) k;
        Some (session, k) })"

definition reset_seq :: "'k sys \<Rightarrow> fix_session \<Rightarrow> ulong \<Rightarrow> 'k \<Rightarrow> (fix_session \<times> 'k) option" where
  "reset_seq c session new_seq_num k =
     (let exp_seq_num = in_msg_seq_num session in
      if new_seq_num > exp_seq_num then Some (session\<lparr>in_msg_seq_num := new_seq_num - 1\<rparr>, k)
      else if new_seq_num < exp_seq_num then
        (let session = session\<lparr>in_msg_seq_num := in_msg_seq_num session - 1\<rparr> in do {
           (r, session, k) \<leftarrow> fix_session_reject c session exp_seq_num (Some (incorrect_text new_seq_num)) k;
           Some (session, k) })
      else Some (session, k))"

definition admin_sequence_reset :: "'k sys \<Rightarrow> 'k logout \<Rightarrow> fix_session \<Rightarrow> fix_message \<Rightarrow> 'k \<Rightarrow> (fix_session \<times> 'k) option" where
  "admin_sequence_reset c logout session msg k = do {
     field \<leftarrow> field_with msg GapFillFlag;
     gap \<leftarrow> (case field of
        None \<Rightarrow> Some False
      | Some f \<Rightarrow> do {
          s \<leftarrow> string_at (data (rx_buffer session)) f;
          c_strn_equal s (chars ''Y'' @ [0]) 1 });
     field \<leftarrow> field_with msg NewSeqNo;
     (case field of
        None \<Rightarrow> Some (session, k)
      | Some f \<Rightarrow> do {
          new_seq_num \<leftarrow> int_of_value (ff_value f);
          (if gap then gap_fill c logout session msg new_seq_num k
           else reset_seq c session new_seq_num k) }) }"

definition fix_session_admin :: "'k sys \<Rightarrow> 'k logout \<Rightarrow> fix_session \<Rightarrow> fix_message \<Rightarrow> 'k \<Rightarrow> (bool \<times> fix_session \<times> 'k) option" where
  "fix_session_admin c logout session msg k =
     (if \<not> fix_msg_expected session msg then do {
        (r, session, k) \<leftarrow> fix_do_unexpected c logout session msg k;
        Some (True, session, k) }
      else (case fm_type msg of
         FIX_MSG_TYPE_HEARTBEAT \<Rightarrow> do { session \<leftarrow> admin_heartbeat session msg; Some (True, session, k) }
       | FIX_MSG_TYPE_TEST_REQUEST \<Rightarrow> do { (session, k) \<leftarrow> admin_test_request c session msg k; Some (True, session, k) }
       | FIX_MSG_TYPE_RESEND_REQUEST \<Rightarrow> admin_resend_request c session msg k
       | FIX_MSG_TYPE_SEQUENCE_RESET \<Rightarrow> do { (session, k) \<leftarrow> admin_sequence_reset c logout session msg k; Some (True, session, k) }
       | _ \<Rightarrow> Some (False, session, k)))"

subsection \<open>Logon and logout\<close>

definition logout_msg :: "u8 list option \<Rightarrow> fix_message" where
  "logout_msg text = new_message FIX_MSG_TYPE_LOGOUT (if text = None then 0 else 1)
     [FIX_STRING_FIELD Text (case text of None \<Rightarrow> Str [] | Some t \<Rightarrow> c_lit t)]"

text \<open>\<open>retry:\<close> of \<open>fix_session_logout\<close>: until the answer comes or more than two seconds have passed.\<close>

fun logout_loop :: "'k sys \<Rightarrow> (fix_session \<Rightarrow> fix_message \<Rightarrow> 'k \<Rightarrow> (bool \<times> fix_session \<times> 'k) option) \<Rightarrow> i64 \<Rightarrow> nat
    \<Rightarrow> fix_session \<Rightarrow> 'k \<Rightarrow> (i32 \<times> fix_session \<times> 'k) option" where
  "logout_loop c admin start 0 session k = None"
| "logout_loop c admin start (Suc fuel) session k =
     (let (end', k) = k_clock c k in
      if 2 <s end' - start then Some (0, session, k)
      else do {
        (r, session, k) \<leftarrow> fix_session_recv c session FIX_RECV_FLAG_MSG_DONTWAIT k;
        (if r \<le>s 0 then logout_loop c admin start fuel session k
         else do {
           (don, session, k) \<leftarrow> admin session (rx_message session) k;
           (if don then logout_loop c admin start fuel session k
            else Some (if fix_message_type_is (rx_message session) FIX_MSG_TYPE_LOGOUT then 0 else -1, session, k)) }) })"

text \<open>The fuel bounds the depth of logouts inside a logout and the rounds of each.\<close>

fun fix_session_logout :: "'k sys \<Rightarrow> nat \<Rightarrow> 'k logout" where
  "fix_session_logout c 0 = (\<lambda>session text k. None)"
| "fix_session_logout c (Suc fuel) = (\<lambda>session text k. do {
     (r, session, k) \<leftarrow> send_message c session (logout_msg text) 0 k;
     (let (start, k) = k_clock c k in
      logout_loop c (fix_session_admin c (fix_session_logout c fuel)) start (Suc fuel)
        (session\<lparr>s_active := False\<rparr>) k) })"

definition logon_msg :: "fix_session \<Rightarrow> fix_message option" where
  "logon_msg session = do {
     n \<leftarrow> c_strlen (s_password session);
     Some (new_message FIX_MSG_TYPE_LOGON (if n = 0 then 3 else 4)
       [FIX_INT_FIELD EncryptMethod 0, FIX_STRING_FIELD ResetSeqNumFlag (c_lit (chars ''Y'')),
        FIX_INT_FIELD HeartBtInt (scast (s_heartbtint session)), FIX_STRING_FIELD Password (Str (s_password session))]) }"

fun logon_loop :: "'k sys \<Rightarrow> 'k logout \<Rightarrow> nat \<Rightarrow> fix_session \<Rightarrow> 'k \<Rightarrow> (i32 \<times> fix_session \<times> 'k) option" where
  "logon_loop c logout 0 session k = None"
| "logon_loop c logout (Suc fuel) session k = do {
     (r, session, k) \<leftarrow> fix_session_recv c session FIX_RECV_FLAG_MSG_DONTWAIT k;
     (if r \<le>s 0 then logon_loop c logout fuel session k
      else if \<not> fix_msg_expected session (rx_message session) then do {
        (r, session, k) \<leftarrow> fix_do_unexpected c logout session (rx_message session) k;
        (if r \<noteq> 0 then Some (-1, session, k) else logon_loop c logout fuel session k) }
      else if \<not> fix_message_type_is (rx_message session) FIX_MSG_TYPE_LOGON then do {
        (r, session, k) \<leftarrow> logout session (Some (chars ''First message not a logon'')) k;
        Some (-1, session, k) }
      else Some (0, session, k)) }"

definition fix_session_logon :: "'k sys \<Rightarrow> nat \<Rightarrow> fix_session \<Rightarrow> 'k \<Rightarrow> (i32 \<times> fix_session \<times> 'k) option" where
  "fix_session_logon c fuel session k = do {
     msg \<leftarrow> logon_msg session;
     (r, session, k) \<leftarrow> send_message c session msg 0 k;
     logon_loop c (fix_session_logout c fuel) fuel (session\<lparr>s_active := True\<rparr>) k }"

end

