(* ===== verification/Fix_Stream.thy ===== *)
theory Fix_Stream
  imports Fix_Session Fix_Roundtrip
begin

text \<open>
  Receiving from a stream: however the kernel cuts the byte stream of the sender into pieces,
  \<open>fix_session_recv\<close> hands out exactly the messages that were sent, in order.
\<close>

subsection \<open>Frame of the parser\<close>

lemma store_field_length: "store_field msg n f = Some msg' \<Longrightarrow> length (fm_fields msg') = length (fm_fields msg)"
  by (auto simp: store_field_def bind_eq_Some_conv dest: mem_put_length)

lemma rest_loop_length:
  "rest_loop tag_type strtod fuel n msg b = Some (msg', b') \<Longrightarrow> length (fm_fields msg') = length (fm_fields msg)"
proof (induction fuel arbitrary: n msg b)
  case (Suc fuel)
  from Suc.prems obtain r b1 where p: "parse_field b = Some (r, b1)" by (auto simp: bind_eq_Some_conv)
  show ?case
  proof (cases r)
    case (Inr x)
    obtain tag q where x: "x = (tag, q)" by fastforce
    note step = Suc.prems [unfolded rest_loop.simps p Inr x]
    show ?thesis
      by (cases "tag_type tag"; use step in \<open>fastforce simp: bind_eq_Some_conv dest: store_field_length Suc.IH\<close>)
  qed (use Suc.prems p in simp)
qed simp

lemma first_three_fields_frame:
  "first_three_fields msg b flags = Some (r, msg', b') \<Longrightarrow> fm_fields msg' = fm_fields msg"
  by (auto simp: first_three_fields_def parse_begin_string_def parse_body_length_def parse_msg_type_def run_simps)

lemma checksum_frame: "checksum msg b flags = Some (r, msg', b') \<Longrightarrow> fm_fields msg' = fm_fields msg"
  by (auto simp: checksum_def run_simps)

lemma parse_attempt_length:
  "parse_attempt tag_type strtod msg b flags = Some (r, msg', b') \<Longrightarrow> length (fm_fields msg') = length (fm_fields msg)"
  by (auto simp: parse_attempt_def rest_of_message_def run_simps simp del: rest_loop.simps
      dest!: first_three_fields_frame checksum_frame rest_loop_length)

lemma parse_loop_length:
  "fix_parse_loop tag_type strtod fuel msg b flags = Some (found, msg', b') \<Longrightarrow> length (fm_fields msg') = length (fm_fields msg)"
proof (induction fuel arbitrary: msg b)
  case (Suc fuel)
  from Suc.prems obtain r msg1 b1 where a: "parse_attempt tag_type strtod msg b flags = Some (r, msg1, b1)"
    by (auto simp: bind_eq_Some_conv Let_def)
  from parse_attempt_length [OF a] Suc.IH [of msg1 b1] Suc.prems a show ?case
    by (auto simp: Let_def split: sum.splits if_splits)
qed simp

lemma parse_length:
  "fix_message_parse tag_type strtod msg b flags = Some (found, msg', b') \<Longrightarrow> length (fm_fields msg') = length (fm_fields msg)"
  unfolding fix_message_parse_def by (rule parse_loop_length)

subsection \<open>One message on the wire\<close>

text \<open>\<open>wire_of tag_type t n ws\<close>: the bytes \<open>ws\<close> are a message of type \<open>t\<close> with sequence number \<open>n\<close> as
  \<open>fix_message_unparse\<close> writes it: framed, checked, with at most 48 fields, and a begin string of at
  most 64 characters.\<close>

definition wire_of :: "(i32 \<Rightarrow> fix_type) \<Rightarrow> fix_msg_type \<Rightarrow> ulong \<Rightarrow> u8 list \<Rightarrow> bool" where
  "wire_of tag_type t n ws \<longleftrightarrow> (\<exists>bg body s kvs. ws = wire_text bg body
     \<and> body = kv_text (MsgType, s) @ concat (map kv_text kvs) \<and> length body \<le> 1280
     \<and> 1 \<notin> set bg \<and> length bg \<le> 64 \<and> fix_msg_types t = Some s
     \<and> (\<forall>t v. (t, v) \<in> set kvs \<longrightarrow> 1 \<notin> set v \<and> tag_type t \<noteq> FIX_TYPE_CHECKSUM) \<and> tag_type CheckSum = FIX_TYPE_CHECKSUM
     \<and> length kvs \<le> 48 \<and> (\<forall>k. seq_after tag_type k kvs = n))"

lemma wire_of_length:
  assumes "wire_of tag_type t n ws"
  shows "0 < length ws" "length ws \<le> 1370"
proof -
  obtain bg body where b: "ws = wire_text bg body" "length body \<le> 1280" "length bg \<le> 64"
    using assms unfolding wire_of_def by blast
  then show "0 < length ws" "length ws \<le> 1370"
    using length_head [of "length body" bg] by (auto simp: wire_text_def Let_def)
qed

lemma parse_whole:
  assumes w: "wire_of tag_type t n ws" and h: "holds b (ws @ r)" and len: "length (ws @ r) < 2 ^ 31"
    and sl: "strtod_local strtod" and fl: "flags AND FIX_PARSE_FLAG_NO_TYPE = 0" and fs: "length (fm_fields msg) = 48"
  shows "\<exists>msg'. fix_message_parse tag_type strtod msg b flags = Some (True, msg', buffer_advance b (of_nat (length ws)))
    \<and> fm_type msg' = t \<and> msg_seq_num msg' = n \<and> length (fm_fields msg') = 48"
proof -
  obtain bg body s kvs where b: "ws = wire_text bg body" "body = kv_text (MsgType, s) @ concat (map kv_text kvs)"
      "length body \<le> 1280" "1 \<notin> set bg" "fix_msg_types t = Some s" "length kvs \<le> 48"
      "tag_type CheckSum = FIX_TYPE_CHECKSUM" "\<And>k. seq_after tag_type k kvs = n"
    and kvs: "\<And>t v. (t, v) \<in> set kvs \<Longrightarrow> 1 \<notin> set v \<and> tag_type t \<noteq> FIX_TYPE_CHECKSUM"
    using w unfolding wire_of_def by blast
  have "length kvs \<le> length (fm_fields msg)" "length (fm_fields msg) < 2 ^ 32" using b(6) fs by simp_all
  from parse_wire [where tag_type = tag_type and strtod = strtod and msg = msg,
      OF h [unfolded b(1)] len [unfolded b(1)] b(2,3,4,5) kvs sl b(7) fl this]
  obtain msg' where m: "fix_message_parse tag_type strtod msg b flags = Some (True, msg', buffer_advance b (of_nat (length ws)))"
    "fm_type msg' = t" "msg_seq_num msg' = n" by (auto simp: b(1,8))
  with parse_length [OF m(1)] fs show ?thesis by simp
qed

lemma parse_part:
  assumes w: "wire_of tag_type t n ws" and h: "holds b (take k ws)" and k: "k < length ws"
    and fl: "flags AND FIX_PARSE_FLAG_NO_TYPE = 0" and fs: "length (fm_fields msg) = 48"
  shows "\<exists>msg'. fix_message_parse tag_type strtod msg b flags = Some (False, msg', b) \<and> length (fm_fields msg') = 48"
proof -
  obtain bg body s kvs where b: "ws = wire_text bg body" "body = kv_text (MsgType, s) @ concat (map kv_text kvs)"
      "length body \<le> 1280" "1 \<notin> set bg" "fix_msg_types t = Some s"
    using w unfolding wire_of_def by blast
  have "k < 2 ^ 31" using k wire_of_length [OF w] by simp
  from parse_prefix [OF h [unfolded b(1)] k [unfolded b(1)] b(2,3,5,4) this fl]
  obtain msg' where "fix_message_parse tag_type strtod msg b flags = Some (False, msg', b)" by blast
  with parse_length [OF this] fs show ?thesis by simp
qed

subsection \<open>One call\<close>

text \<open>A stream socket: \<open>recv\<close> answers a part of what is in the pipe, not longer than it was asked for, and leaves
  the rest; an error leaves the pipe as it was.\<close>

definition stream_socket :: "'k sys \<Rightarrow> ('k \<Rightarrow> u8 list) \<Rightarrow> bool" where
  "stream_socket c pipe \<longleftrightarrow> (\<forall>k n a k'. k_recv c k n = (a, k') \<longrightarrow>
     (case a of IoOk ds \<Rightarrow> length ds \<le> unat n \<and> pipe k = ds @ pipe k' | IoErr e \<Rightarrow> pipe k' = pipe k))"

definition session_ok :: "fix_session \<Rightarrow> bool" where
  "session_ok s \<longleftrightarrow> buffer_wf (rx_buffer s) \<and> capacity (rx_buffer s) = RECV_BUFFER_SIZE
     \<and> length (fm_fields (rx_message s)) = 48"

abbreviation unread :: "fix_session \<Rightarrow> u8 list" where
  "unread s \<equiv> buf_bytes (rx_buffer s)"

text \<open>The messages still to come: types and sequence numbers, with their bytes.\<close>

type_synonym wire_msg = "fix_msg_type \<times> ulong \<times> u8 list"

definition wires :: "(i32 \<Rightarrow> fix_type) \<Rightarrow> wire_msg list \<Rightarrow> bool" where
  "wires tag_type ms \<longleftrightarrow> (\<forall>(t, n, ws)\<in>set ms. wire_of tag_type t n ws)"

definition stream_of :: "wire_msg list \<Rightarrow> u8 list" where
  "stream_of ms = concat (map (\<lambda>(t, n, ws). ws) ms)"

text \<open>What \<open>session_parse\<close> does with the unread bytes \<open>u\<close> of the stream of \<open>ms\<close>: it takes the first message when
  it is there completely.\<close>

definition took :: "fix_session \<Rightarrow> fix_session \<Rightarrow> fix_msg_type \<Rightarrow> ulong \<Rightarrow> bool" where
  "took s s' t n \<longleftrightarrow> fm_type (rx_message s') = t \<and> msg_seq_num (rx_message s') = n
     \<and> in_msg_seq_num s' = in_msg_seq_num s + 1 \<and> rx_timestamp s' = s_now s"

definition frame :: "fix_session \<Rightarrow> fix_session \<Rightarrow> bool" where
  "frame s s' \<longleftrightarrow> s_dialect s' = s_dialect s \<and> s_now s' = s_now s \<and> out_msg_seq_num s' = out_msg_seq_num s
     \<and> s_active s' = s_active s \<and> s_sockfd s' = s_sockfd s \<and> tx_head_buffer s' = tx_head_buffer s
     \<and> tx_body_buffer s' = tx_body_buffer s \<and> s_begin_string s' = s_begin_string s
     \<and> s_sender_comp_id s' = s_sender_comp_id s \<and> s_target_comp_id s' = s_target_comp_id s \<and> s_str_now s' = s_str_now s"

lemma session_ok_wf: "session_ok s \<Longrightarrow> holds (rx_buffer s) (unread s)"
  by (simp add: session_ok_def holds_def)

lemma session_ok_length: "session_ok s \<Longrightarrow> length (unread s) \<le> 4096"
  using holds_length [OF session_ok_wf, of s] unfolding session_ok_def buffer_wf_def RECV_BUFFER_SIZE_def
  by fastforce

lemma session_parse_whole:
  assumes ok: "session_ok s" and tt: "d_tag_type (s_dialect s) = Some tag_type" and w: "wire_of tag_type t n ws"
    and u: "unread s = ws @ r" and sl: "strtod_local (c_strtod c)"
    and fl: "flags AND FIX_PARSE_FLAG_NO_TYPE = 0" "flags AND FIX_RECV_KEEP_IN_MSGSEQNUM = 0"
  shows "\<exists>s'. session_parse c s flags = Some (True, s') \<and> session_ok s' \<and> unread s' = r \<and> took s s' t n
    \<and> frame s s' \<and> failure_reason s' = failure_reason s"
proof -
  have h: "holds (rx_buffer s) (ws @ r)" using session_ok_wf [OF ok] u by simp
  have len: "length (ws @ r) < 2 ^ 31" using session_ok_length [OF ok] u by simp
  have fs: "length (fm_fields (rx_message s)) = 48" using ok by (simp add: session_ok_def)
  obtain msg' where m: "fix_message_parse tag_type (c_strtod c) (rx_message s) (rx_buffer s) flags
      = Some (True, msg', buffer_advance (rx_buffer s) (of_nat (length ws)))"
      "fm_type msg' = t" "msg_seq_num msg' = n" "length (fm_fields msg') = 48"
    using parse_whole [OF w h len sl fl(1) fs] by blast
  have h': "holds (buffer_advance (rx_buffer s) (of_nat (length ws))) r"
    using holds_advance [OF h, of "length ws"] by simp
  then have b: "buffer_wf (buffer_advance (rx_buffer s) (of_nat (length ws)))"
    "buf_bytes (buffer_advance (rx_buffer s) (of_nat (length ws))) = r" by (simp_all add: holds_def)
  show ?thesis
    using ok b m tt fl(2) by (simp add: session_parse_def session_ok_def took_def frame_def)
qed

lemma session_parse_part:
  assumes ok: "session_ok s" and tt: "d_tag_type (s_dialect s) = Some tag_type" and w: "wire_of tag_type t n ws"
    and u: "unread s = take k ws" "k < length ws" and fl: "flags AND FIX_PARSE_FLAG_NO_TYPE = 0"
  shows "\<exists>s'. session_parse c s flags = Some (False, s') \<and> session_ok s' \<and> rx_buffer s' = rx_buffer s
    \<and> in_msg_seq_num s' = in_msg_seq_num s \<and> frame s s' \<and> failure_reason s' = failure_reason s"
proof -
  have h: "holds (rx_buffer s) (take k ws)" using session_ok_wf [OF ok] u(1) by simp
  have fs: "length (fm_fields (rx_message s)) = 48" using ok by (simp add: session_ok_def)
  from parse_part [OF w h u(2) fl fs] obtain msg' where
    "fix_message_parse tag_type (c_strtod c) (rx_message s) (rx_buffer s) flags = Some (False, msg', rx_buffer s)"
    "length (fm_fields msg') = 48" by blast
  then show ?thesis using ok tt by (simp add: session_parse_def session_ok_def frame_def)
qed

lemma session_parse_empty:
  assumes ok: "session_ok s" and tt: "d_tag_type (s_dialect s) = Some tag_type" and u: "unread s = []"
  shows "\<exists>s'. session_parse c s flags = Some (False, s') \<and> session_ok s' \<and> rx_buffer s' = rx_buffer s
    \<and> in_msg_seq_num s' = in_msg_seq_num s \<and> frame s s' \<and> failure_reason s' = failure_reason s"
proof -
  have "buffer_size (rx_buffer s) = 0" using holds_size_0 [OF session_ok_wf [OF ok]] u by simp
  then have "fix_message_parse tag_type (c_strtod c) (rx_message s) (rx_buffer s) flags = Some (False, rx_message s, rx_buffer s)"
    by (simp add: fix_message_parse_def parse_attempt_def)
  then show ?thesis using ok tt by (simp add: session_parse_def session_ok_def frame_def)
qed

lemma session_parse_stream:
  assumes ok: "session_ok s" and tt: "d_tag_type (s_dialect s) = Some tag_type" and w: "wires tag_type ms"
    and u: "unread s @ p = stream_of ms" and sl: "strtod_local (c_strtod c)"
    and fl: "flags AND FIX_PARSE_FLAG_NO_TYPE = 0" "flags AND FIX_RECV_KEEP_IN_MSGSEQNUM = 0"
  shows "\<exists>found s'. session_parse c s flags = Some (found, s') \<and> session_ok s' \<and> frame s s'
    \<and> failure_reason s' = failure_reason s
    \<and> (if found then \<exists>t n ws ms'. ms = (t, n, ws) # ms' \<and> unread s' @ p = stream_of ms' \<and> took s s' t n
       else rx_buffer s' = rx_buffer s \<and> in_msg_seq_num s' = in_msg_seq_num s \<and> length (unread s) < 1370
         \<and> (ms = [] \<or> p \<noteq> []))"
proof (cases ms)
  case Nil
  with u have "unread s = []" by (simp add: stream_of_def)
  from session_parse_empty [OF ok tt this, of c flags] obtain s' where
    "session_parse c s flags = Some (False, s')" "session_ok s'" "rx_buffer s' = rx_buffer s"
    "in_msg_seq_num s' = in_msg_seq_num s" "frame s s'" "failure_reason s' = failure_reason s" by blast
  with \<open>unread s = []\<close> Nil show ?thesis by (intro exI [of _ False] exI [of _ s']) simp
next
  case (Cons m ms')
  obtain t n ws where m: "m = (t, n, ws)" by (metis prod_cases3)
  have wo: "wire_of tag_type t n ws" using w by (auto simp: wires_def Cons m)
  have st: "unread s @ p = ws @ stream_of ms'" using u by (simp add: Cons m stream_of_def)
  show ?thesis
  proof (cases "length ws \<le> length (unread s)")
    case True
    with st have "unread s = ws @ drop (length ws) (unread s)"
      by (metis append_eq_append_conv_if append_take_drop_id)
    then obtain r where r: "unread s = ws @ r" by blast
    with st have "r @ p = stream_of ms'" by simp
    moreover from session_parse_whole [OF ok tt wo r sl fl] obtain s' where
      "session_parse c s flags = Some (True, s')" "session_ok s'" "unread s' = r" "took s s' t n"
      "frame s s'" "failure_reason s' = failure_reason s" by blast
    ultimately show ?thesis by (intro exI [of _ True] exI [of _ s']) (simp add: Cons m)
  next
    case False
    with st have k: "unread s = take (length (unread s)) ws" "length (unread s) < length ws"
      by (metis append_eq_append_conv_if append_eq_conv_conj nat_le_linear, simp)
    have p: "p \<noteq> []"
    proof
      assume "p = []"
      then have "length (unread s) = length (ws @ stream_of ms')" using st by simp
      with False show False by simp
    qed
    from session_parse_part [OF ok tt wo k fl(1), of c] obtain s' where
      "session_parse c s flags = Some (False, s')" "session_ok s'" "rx_buffer s' = rx_buffer s"
      "in_msg_seq_num s' = in_msg_seq_num s" "frame s s'" "failure_reason s' = failure_reason s" by blast
    with p k(2) wire_of_length(2) [OF wo] show ?thesis by (intro exI [of _ False] exI [of _ s']) simp
  qed
qed

lemma recv_io:
  assumes h: "holds b bs" and io: "case io (buffer_count b sz) of IoOk ds \<Rightarrow> length ds \<le> unat (buffer_count b sz) | IoErr e \<Rightarrow> True"
  shows "\<exists>nr b'. buffer_recv b io sz = Some (nr, b') \<and> capacity b' = capacity b
    \<and> (case io (buffer_count b sz) of IoOk ds \<Rightarrow> holds b' (bs @ ds) \<and> nr = of_nat (length ds)
        | IoErr e \<Rightarrow> b' = b \<and> nr = -1)"
proof (cases "io (buffer_count b sz)")
  case (IoOk ds)
  have wf: "buffer_wf b" using h by blast
  have "unat (buffer_count b sz) \<le> buffer_room b"
    using unat_buffer_remaining [OF wf] by (auto simp: buffer_count_def word_less_nat_alt)
  with io IoOk have "length ds \<le> buffer_room b" by simp
  with IoOk wf h show ?thesis by (auto simp: buffer_recv_def fill_extend holds_extend simp del: buffer_fill.simps)
qed (simp add: buffer_recv_def)

text \<open>Making room: afterwards more than a message of the maximal size fits.\<close>

lemma make_room:
  assumes ok: "session_ok s" and short: "length (unread s) < 1370"
  shows "\<exists>b. (if fix_session_buffer_full s then buffer_compact (rx_buffer s) else Some (rx_buffer s)) = Some b
    \<and> session_ok (s\<lparr>rx_buffer := b\<rparr>) \<and> buf_bytes b = unread s \<and> FIX_MAX_MESSAGE_SIZE < buffer_remaining b"
proof (cases "fix_session_buffer_full s")
  case True
  from compact_holds [OF session_ok_wf [OF ok]] obtain b where
    b: "buffer_compact (rx_buffer s) = Some b" "holds b (unread s)" "capacity b = capacity (rx_buffer s)"
      "buffer_room b = unat (capacity (rx_buffer s)) - length (unread s)" by blast
  have "unat (buffer_remaining b) = 4096 - length (unread s)"
    using b(2,4) ok by (simp add: unat_buffer_remaining holds_wf session_ok_def RECV_BUFFER_SIZE_def)
  with short have "FIX_MAX_MESSAGE_SIZE < buffer_remaining b"
    by (simp add: word_less_nat_alt FIX_MAX_MESSAGE_SIZE_def)
  with True b ok show ?thesis by (simp add: session_ok_def holds_def)
next
  case False
  with ok show ?thesis by (simp add: fix_session_buffer_full_def session_ok_def)
qed

text \<open>The reception proper: what arrives is appended to the unread bytes.\<close>

lemma nr_sign: "n \<le> 4096 \<Longrightarrow> (of_nat n :: i64) \<le>s 0 \<longleftrightarrow> n = 0" "n \<le> 4096 \<Longrightarrow> (of_nat n :: i64) = 0 \<longleftrightarrow> n = 0"
  using sint_of_nat_64 [of n] by (auto simp: word_sle_eq word_unat_eq_iff unat_of_nat_64)

definition recv_case :: "'k sys \<Rightarrow> fix_session \<Rightarrow> ('k \<Rightarrow> u8 list) \<Rightarrow> 'k \<Rightarrow> i32 \<Rightarrow> fix_session \<Rightarrow> 'k \<Rightarrow> wire_msg list \<Rightarrow> bool" where
  "recv_case c s pipe k r s' k' ms \<longleftrightarrow> session_ok s' \<and> frame s s' \<and> length (pipe k') \<le> length (pipe k) \<and>
     (if r = 1 then failure_reason s' = FIX_SUCCESS
        \<and> (\<exists>t n ws ms'. ms = (t, n, ws) # ms' \<and> unread s' @ pipe k' = stream_of ms' \<and> took s s' t n)
      else unread s' @ pipe k' = stream_of ms \<and> in_msg_seq_num s' = in_msg_seq_num s
        \<and> (r = 0 \<and> failure_reason s' = FIX_SUCCESS \<and> length (pipe k') < length (pipe k)
           \<or> r = -1 \<and> failure_reason s' \<in> {FIX_FAILURE_CONN_CLOSED, FIX_FAILURE_SYSTEM} \<and> pipe k' = pipe k
             \<and> (ms = [] \<or> pipe k \<noteq> []) \<and> (\<exists>n. 0 < n \<and> (case fst (k_recv c k n) of IoOk ds \<Rightarrow> ds = [] | IoErr e \<Rightarrow> True))))"

text \<open>The message that was found has been parsed from unread bytes \<open>us\<close> or a part of them that starts there.\<close>

definition parsed_from :: "'k sys \<Rightarrow> ulong \<Rightarrow> fix_session \<Rightarrow> u8 list \<Rightarrow> fix_session \<Rightarrow> bool" where
  "parsed_from c flags s us s' \<longleftrightarrow> (\<exists>s0 p. session_ok s0 \<and> s_dialect s0 = s_dialect s \<and> unread s0 @ p = us
     \<and> session_parse c s0 flags = Some (True, s'))"

lemma stream_socketD:
  "stream_socket c pipe \<Longrightarrow> k_recv c k n = (a, k') \<Longrightarrow>
     case a of IoOk ds \<Rightarrow> length ds \<le> unat n \<and> pipe k = ds @ pipe k' | IoErr e \<Rightarrow> pipe k' = pipe k"
  by (simp add: stream_socket_def)

lemma recv_step:
  assumes ok: "session_ok s" and tt: "d_tag_type (s_dialect s) = Some tag_type" and w: "wires tag_type ms"
    and u: "unread s @ pipe k = stream_of ms" and sock: "stream_socket c pipe" and sl: "strtod_local (c_strtod c)"
    and fl: "flags AND FIX_PARSE_FLAG_NO_TYPE = 0" "flags AND FIX_RECV_KEEP_IN_MSGSEQNUM = 0"
  shows "\<exists>r s' k'. fix_session_recv c s flags k = Some (r, s', k') \<and> recv_case c s pipe k r s' k' ms
    \<and> (r = 1 \<longrightarrow> parsed_from c flags s (stream_of ms) s')"
proof -
  let ?s0 = "s\<lparr>failure_reason := FIX_SUCCESS\<rparr>"
  have ok0: "session_ok ?s0" and tt0: "d_tag_type (s_dialect ?s0) = Some tag_type" and u0: "unread ?s0 @ pipe k = stream_of ms"
    using ok tt u by (simp_all add: session_ok_def)
  from session_parse_stream [OF ok0 tt0 w u0 sl fl] obtain found s1 where
    p1: "session_parse c ?s0 flags = Some (found, s1)" "session_ok s1" "frame ?s0 s1" "failure_reason s1 = failure_reason ?s0"
      "if found then \<exists>t n ws ms'. ms = (t, n, ws) # ms' \<and> unread s1 @ pipe k = stream_of ms' \<and> took ?s0 s1 t n
       else rx_buffer s1 = rx_buffer ?s0 \<and> in_msg_seq_num s1 = in_msg_seq_num ?s0 \<and> length (unread ?s0) < 1370
         \<and> (ms = [] \<or> pipe k \<noteq> [])" by blast
  show ?thesis
  proof (cases found)
    case True
    have "parsed_from c flags s (stream_of ms) s1"
      unfolding parsed_from_def using True p1(1) ok0 u0 by (intro exI [of _ ?s0] exI [of _ "pipe k"]) simp
    with True p1 show ?thesis
      by (intro exI [of _ 1] exI [of _ s1] exI [of _ k])
        (auto simp: fix_session_recv_def recv_case_def frame_def took_def)
  next
    case False
    with p1(5) have s1: "rx_buffer s1 = rx_buffer s" "in_msg_seq_num s1 = in_msg_seq_num s" "length (unread s1) < 1370" "ms = [] \<or> pipe k \<noteq> []" by auto
    from make_room [OF p1(2) s1(3)] obtain b where
      b: "(if fix_session_buffer_full s1 then buffer_compact (rx_buffer s1) else Some (rx_buffer s1)) = Some b"
        "session_ok (s1\<lparr>rx_buffer := b\<rparr>)" "buf_bytes b = unread s" "FIX_MAX_MESSAGE_SIZE < buffer_remaining b"
      unfolding s1(1) by blast
    let ?sz = "buffer_remaining b - FIX_MAX_MESSAGE_SIZE" and ?io = "\<lambda>n. fst (k_recv c k n)"
    obtain a k2 where a: "k_recv c k (buffer_count b ?sz) = (a, k2)" by fastforce
    have sk: "case a of IoOk ds \<Rightarrow> length ds \<le> unat (buffer_count b ?sz) \<and> pipe k = ds @ pipe k2 | IoErr e \<Rightarrow> pipe k2 = pipe k"
      by (rule stream_socketD [OF sock a])
    have hb: "holds b (unread s)" using session_ok_wf [OF b(2)] b(3) by simp
    from recv_io [OF hb, where io = ?io and sz = ?sz] a sk obtain nr b' where
      rv: "buffer_recv b ?io ?sz = Some (nr, b')" "capacity b' = capacity b"
        "case a of IoOk ds \<Rightarrow> holds b' (unread s @ ds) \<and> nr = of_nat (length ds) | IoErr e \<Rightarrow> b' = b \<and> nr = -1"
      by (cases a) auto
    let ?s2 = "s1\<lparr>rx_buffer := b'\<rparr>"
    have ok2: "session_ok ?s2" using rv(2,3) b(2) hb by (cases a) (auto simp: session_ok_def)
    have ev: "fix_session_recv c s flags k =
        (if nr \<le>s 0 then Some (-1, ?s2\<lparr>failure_reason := (if nr = 0 then FIX_FAILURE_CONN_CLOSED else FIX_FAILURE_SYSTEM)\<rparr>, k2)
         else (case session_parse c ?s2 flags of None \<Rightarrow> None | Some (found, s3) \<Rightarrow> Some (if found then 1 else 0, s3, k2)))"
      using p1(1) False b(1,4) rv(1) a
      by (auto simp: fix_session_recv_def Let_def split: option.splits bind_splits)
    show ?thesis
    proof (cases "nr \<le>s 0")
      case True
      have st: "unread ?s2 = unread s" "pipe k2 = pipe k"
        using True rv(3) sk hb nr_sign(1) session_ok_length [OF ok2] s1(1) by (cases a; auto simp: holds_def)+
      have "0 < buffer_count b ?sz"
        using b(4) by (auto simp: buffer_count_def word_less_nat_alt unat_sub word_le_nat_alt)
      moreover have "case fst (k_recv c k (buffer_count b ?sz)) of IoOk ds \<Rightarrow> ds = [] | IoErr e \<Rightarrow> True"
        using True rv(3) a nr_sign(1) session_ok_length [OF ok2] by (cases a) (auto simp: holds_def)
      ultimately have no: "\<exists>n. 0 < n \<and> (case fst (k_recv c k n) of IoOk ds \<Rightarrow> ds = [] | IoErr e \<Rightarrow> True)" by blast
      show ?thesis unfolding ev using True st ok2 p1(3) s1 u no
        by (simp add: recv_case_def session_ok_def frame_def)
    next
      case pos: False
      then obtain ds where ds: "a = IoOk ds" "ds \<noteq> []" using rv(3) by (cases a) fastforce+
      have u2: "unread ?s2 @ pipe k2 = stream_of ms" using rv(3) sk ds(1) u by (simp add: holds_def)
      have tt2: "d_tag_type (s_dialect ?s2) = Some tag_type" using p1(3) tt by (simp add: frame_def)
      have sh: "length (pipe k2) < length (pipe k)" using sk ds by simp
      from session_parse_stream [OF ok2 tt2 w u2 sl fl] obtain found2 s3 where
        p2: "session_parse c ?s2 flags = Some (found2, s3)" "session_ok s3" "frame ?s2 s3" "failure_reason s3 = failure_reason ?s2"
          "if found2 then \<exists>t n ws ms'. ms = (t, n, ws) # ms' \<and> unread s3 @ pipe k2 = stream_of ms' \<and> took ?s2 s3 t n
           else rx_buffer s3 = rx_buffer ?s2 \<and> in_msg_seq_num s3 = in_msg_seq_num ?s2 \<and> length (unread ?s2) < 1370
             \<and> (ms = [] \<or> pipe k2 \<noteq> [])" by blast
      have fr: "frame s s3" using p1(3) p2(3) by (simp add: frame_def)
      show ?thesis
      proof (cases found2)
        case True
        have "took s s3 t n" if "took ?s2 s3 t n" for t n
          using that s1(2) p1(3) by (simp add: took_def frame_def)
        moreover have "parsed_from c flags s (stream_of ms) s3"
          unfolding parsed_from_def using True p2(1) ok2 u2 p1(3)
          by (intro exI [of _ ?s2] exI [of _ "pipe k2"]) (simp add: frame_def)
        ultimately show ?thesis unfolding ev using pos True p2 p1(4) fr sh by (auto simp: recv_case_def)
      next
        case nf: False
        with p2(5) u2 s1(2) show ?thesis unfolding ev using pos p2(1,2,4) p1(4) fr sh by (simp add: recv_case_def)
      qed
    qed
  qed
qed

subsection \<open>A run of calls\<close>

text \<open>\<open>n\<close> calls of \<open>fix_session_recv\<close>, with the type and the sequence number of each message handed out.\<close>

fun recv_calls :: "'k sys \<Rightarrow> ulong \<Rightarrow> nat \<Rightarrow> fix_session \<Rightarrow> 'k \<Rightarrow> ((fix_msg_type \<times> ulong) list \<times> fix_session \<times> 'k) option" where
  "recv_calls c flags 0 s k = Some ([], s, k)"
| "recv_calls c flags (Suc n) s k = do {
     (r, s, k) \<leftarrow> fix_session_recv c s flags k;
     (let got = (if r = 1 then [(fm_type (rx_message s), msg_seq_num (rx_message s))] else []) in do {
        (rest, s, k) \<leftarrow> recv_calls c flags n s k;
        Some (got @ rest, s, k) }) }"

text \<open>A blocking socket: \<open>recv\<close> waits until there is something, and does not fail, while the pipe is not empty.\<close>

definition blocking :: "'k sys \<Rightarrow> ('k \<Rightarrow> u8 list) \<Rightarrow> bool" where
  "blocking c pipe \<longleftrightarrow> (\<forall>k n. pipe k \<noteq> [] \<longrightarrow> 0 < n \<longrightarrow> (\<exists>ds k'. k_recv c k n = (IoOk ds, k') \<and> ds \<noteq> []))"

definition sent_list :: "wire_msg list \<Rightarrow> (fix_msg_type \<times> ulong) list" where
  "sent_list ms = map (\<lambda>(t, n, ws). (t, n)) ms"

lemma recv_calls_stream:
  assumes "stream_socket c pipe" "strtod_local (c_strtod c)"
    "flags AND FIX_PARSE_FLAG_NO_TYPE = 0" "flags AND FIX_RECV_KEEP_IN_MSGSEQNUM = 0"
  shows "session_ok s \<Longrightarrow> d_tag_type (s_dialect s) = Some tag_type \<Longrightarrow> wires tag_type ms \<Longrightarrow>
    unread s @ pipe k = stream_of ms \<Longrightarrow>
    \<exists>j s' k'. recv_calls c flags n s k = Some (sent_list (take j ms), s', k') \<and> j \<le> length ms
      \<and> unread s' @ pipe k' = stream_of (drop j ms) \<and> in_msg_seq_num s' = in_msg_seq_num s + of_nat j
      \<and> (blocking c pipe \<longrightarrow> length (pipe k) + length ms \<le> n \<longrightarrow> j = length ms)"
proof (induction n arbitrary: s k ms)
  case 0
  then show ?case by (intro exI [of _ 0] exI [of _ s] exI [of _ k]) (simp add: sent_list_def)
next
  case (Suc n)
  from recv_step [OF Suc.prems(1,2,3,4) assms] obtain r s1 k1 where
    r: "fix_session_recv c s flags k = Some (r, s1, k1)" "recv_case c s pipe k r s1 k1 ms" by blast
  have ok: "session_ok s1" and tt: "d_tag_type (s_dialect s1) = Some tag_type"
    using r(2) Suc.prems(2) by (simp_all add: recv_case_def frame_def)
  show ?case
  proof (cases "r = 1")
    case True
    with r(2) obtain t m ws ms' where m: "ms = (t, m, ws) # ms'" "unread s1 @ pipe k1 = stream_of ms'" "took s s1 t m"
      by (auto simp: recv_case_def)
    have w: "wires tag_type ms'" using Suc.prems(3) by (simp add: m wires_def)
    have len: "length (pipe k1) \<le> length (pipe k)" using r(2) by (simp add: recv_case_def)
    from Suc.IH [OF ok tt w m(2)] obtain j s' k' where
      IH: "recv_calls c flags n s1 k1 = Some (sent_list (take j ms'), s', k')" "j \<le> length ms'"
        "unread s' @ pipe k' = stream_of (drop j ms')" "in_msg_seq_num s' = in_msg_seq_num s1 + of_nat j"
        "blocking c pipe \<longrightarrow> length (pipe k1) + length ms' \<le> n \<longrightarrow> j = length ms'" by blast
    with r(1) True m(1,3) len show ?thesis
      by (intro exI [of _ "Suc j"] exI [of _ s'] exI [of _ k']) (simp add: took_def sent_list_def)
  next
    case False
    with r(2) have u: "unread s1 @ pipe k1 = stream_of ms" "in_msg_seq_num s1 = in_msg_seq_num s"
      by (simp_all add: recv_case_def)
    from Suc.IH [OF ok tt Suc.prems(3) u(1)] obtain j s' k' where
      IH: "recv_calls c flags n s1 k1 = Some (sent_list (take j ms), s', k')" "j \<le> length ms"
        "unread s' @ pipe k' = stream_of (drop j ms)" "in_msg_seq_num s' = in_msg_seq_num s1 + of_nat j"
        "blocking c pipe \<longrightarrow> length (pipe k1) + length ms \<le> n \<longrightarrow> j = length ms" by blast
    have "blocking c pipe \<Longrightarrow> length (pipe k) + length ms \<le> Suc n \<Longrightarrow> j = length ms"
    proof (cases "ms = []")
      case ne: False
      assume bl: "blocking c pipe" and le: "length (pipe k) + length ms \<le> Suc n"
      have "length (pipe k1) < length (pipe k)"
      proof (rule ccontr)
        assume "\<not> length (pipe k1) < length (pipe k)"
        with r(2) False ne obtain sz where "pipe k \<noteq> []" "0 < sz" "case fst (k_recv c k sz) of IoOk ds \<Rightarrow> ds = [] | IoErr e \<Rightarrow> True"
          by (auto simp: recv_case_def)
        moreover from this(1,2) bl obtain ds k2 where "k_recv c k sz = (IoOk ds, k2)" "ds \<noteq> []" unfolding blocking_def by blast
        ultimately show False by simp
      qed
      with IH(5) bl le show ?thesis by simp
    qed (use IH(2) in simp)
    with IH r(1) False u(2) show ?thesis
      by (intro exI [of _ j] exI [of _ s'] exI [of _ k']) simp
  qed
qed

end

