(* ===== verification/Fix_Link.thy ===== *)
theory Fix_Link
  imports Fix_Stream
begin

text \<open>
  Two sessions on one stream: what \<open>fix_session_send\<close> puts on the wire, and that the messages one
  session sends are handed out by the other, in order and with consecutive sequence numbers.
\<close>

subsection \<open>Sending\<close>

text \<open>The message as \<open>fix_session_send\<close> completes it.\<close>

definition prepared :: "fix_session \<Rightarrow> fix_message \<Rightarrow> fix_message" where
  "prepared s msg = msg\<lparr>begin_string := s_begin_string s, sender_comp_id := Str (s_sender_comp_id s),
     target_comp_id := Str (s_target_comp_id s), msg_seq_num := out_msg_seq_num s, str_now := Str (s_str_now s)\<rparr>"

definition tx_ok :: "fix_session \<Rightarrow> bool" where
  "tx_ok s \<longleftrightarrow> length (data (tx_head_buffer s)) = 256 \<and> capacity (tx_head_buffer s) = FIX_TX_HEAD_BUFFER_SIZE
     \<and> length (data (tx_body_buffer s)) = 1024 \<and> capacity (tx_body_buffer s) = FIX_TX_BODY_BUFFER_SIZE"

text \<open>A message that the session can send: printable, and its body fits the buffer.\<close>

definition can_send :: "(i32 \<Rightarrow> fix_type) \<Rightarrow> 'k sys \<Rightarrow> fix_session \<Rightarrow> fix_message \<Rightarrow> bool" where
  "can_send tag_type c s msg \<longleftrightarrow> (\<exists>now bg. printable tag_type (c_dtoa2 c) (data (rx_buffer s)) (prepared s msg) now bg
     \<and> length bg \<le> 64 \<and> length (body_text (c_dtoa2 c) (data (rx_buffer s)) (prepared s msg) now) + 7 \<le> 1024)"

lemma printable_wire:
  assumes p: "printable tag_type dtoa2 rx msg now bg" and bg: "length bg \<le> 64"
  shows "wire_of tag_type (fm_type msg) (msg_seq_num msg) (wire_text bg (body_text dtoa2 rx msg now))"
proof -
  note pr = p [unfolded printable_def]
  obtain s where s: "fix_msg_types (fm_type msg) = Some s" using fix_msg_types_Some pr by blast
  let ?kvs = "body_kvs dtoa2 rx msg now"
  have "body_text dtoa2 rx msg now = kv_text (MsgType, s) @ concat (map kv_text ?kvs)" by (simp add: body_text_def s)
  moreover have "length ?kvs \<le> 48" using pr by (simp add: body_kvs_def sent_fields_def)
  ultimately show ?thesis
    unfolding wire_of_def using pr s bg printable_kvs [OF p] seq_after_printed [OF p] by blast
qed

definition same_names :: "fix_session \<Rightarrow> fix_session \<Rightarrow> bool" where
  "same_names s s' \<longleftrightarrow> s_begin_string s' = s_begin_string s \<and> s_sender_comp_id s' = s_sender_comp_id s
     \<and> s_target_comp_id s' = s_target_comp_id s \<and> s_str_now s' = s_str_now s"

text \<open>The bytes that the kernel is given are the printed message, numbered by the session.\<close>

lemma session_send_text:
  assumes tx: "tx_ok s" and p: "printable tag_type (c_dtoa2 c) (data (rx_buffer s)) (prepared s msg) now bg" "length bg \<le> 64"
    "length (body_text (c_dtoa2 c) (data (rx_buffer s)) (prepared s msg) now) + 7 \<le> 1024"
  shows "\<exists>r s' msg' v0 v1. fix_session_send c s msg 0 k = Some (r, s', msg', snd (k_sendmsg c k [v0, v1]))
    \<and> v0 @ v1 = wire_text bg (body_text (c_dtoa2 c) (data (rx_buffer s)) (prepared s msg) now)
    \<and> wire_of tag_type (fm_type msg) (out_msg_seq_num s) (v0 @ v1) \<and> tx_ok s'
    \<and> out_msg_seq_num s' = out_msg_seq_num s + 1 \<and> tx_timestamp s' = s_now s \<and> in_msg_seq_num s' = in_msg_seq_num s
    \<and> same_names s s' \<and> rx_buffer s' = rx_buffer s"
proof -
  let ?m = "prepared s msg" and ?rx = "data (rx_buffer s)"
  let ?H = "buffer_reset (tx_head_buffer s)" and ?B = "buffer_reset (tx_body_buffer s)"
  have caps: "length (data (tx_head_buffer s)) = unat (capacity (tx_head_buffer s))" "unat (capacity (tx_head_buffer s)) = 256"
    "length (data (tx_body_buffer s)) = unat (capacity (tx_body_buffer s))" "unat (capacity (tx_body_buffer s)) = 1024"
    using tx by (simp_all add: tx_ok_def FIX_TX_HEAD_BUFFER_SIZE_def FIX_TX_BODY_BUFFER_SIZE_def FIX_MAX_HEAD_LEN_def FIX_MAX_BODY_LEN_def)
  have h: "holds ?H []" "holds ?B []" "buffer_room ?H = 256" "buffer_room ?B = 1024"
    using reset_holds [OF caps(1)] reset_holds [OF caps(3)] caps(2,4) by simp_all
  have r: "length bg + 10 \<le> buffer_room ?H" "length (body_text (c_dtoa2 c) ?rx ?m now) + 7 \<le> buffer_room ?B" "length bg < 2 ^ 30"
    using p(2,3) h(3,4) by simp_all
  obtain v0 v1 where u: "fix_message_unparse (c_dtoa2 c) ?rx ?m ?H ?B = Some (buffer_extend ?H v0, buffer_extend ?B v1)"
    and v: "v0 @ v1 = wire_text bg (body_text (c_dtoa2 c) ?rx ?m now)" "length v0 \<le> buffer_room ?H" "length v1 \<le> buffer_room ?B"
    using unparse_printable_at [OF h(1,2) p(1) r] .
  have io: "buffer_to_iovec (buffer_extend ?H v0) = Some v0" "buffer_to_iovec (buffer_extend ?B v1) = Some v1"
    using iovec_extend [OF caps(1)] iovec_extend [OF caps(3)] v(2,3) h(3,4) caps(2,4) by simp_all
  have e: "holds (buffer_extend ?H v0) v0" "holds (buffer_extend ?B v1) v1"
    using holds_extend [OF h(1) v(2)] holds_extend [OF h(2) v(3)] by simp_all
  have w: "wire_of tag_type (fm_type msg) (out_msg_seq_num s) (v0 @ v1)"
    using printable_wire [OF p(1,2)] v(1) by (simp add: prepared_def)
  let ?s' = "s\<lparr>out_msg_seq_num := out_msg_seq_num s + 1, tx_timestamp := s_now s,
    tx_head_buffer := buffer_extend ?H v0, tx_body_buffer := buffer_extend ?B v1\<rparr>"
  obtain r msg' where ev: "fix_session_send c s msg 0 k = Some (r, ?s', msg', snd (k_sendmsg c k [v0, v1]))"
    using u io by (simp add: fix_session_send_def fix_message_send_def Let_def prepared_def)
  have "tx_ok ?s'" using e tx by (auto simp: tx_ok_def holds_def buffer_wf_def buffer_reset_def caps)
  moreover have "same_names s ?s'" by (simp add: same_names_def)
  ultimately show ?thesis using ev w v(1)
    by (intro exI [of _ r] exI [of _ ?s'] exI [of _ msg'] exI [of _ v0] exI [of _ v1]) simp
qed

lemma session_send_ok:
  assumes tx: "tx_ok s" and cs: "can_send tag_type c s msg"
  shows "\<exists>r s' msg' v0 v1. fix_session_send c s msg 0 k = Some (r, s', msg', snd (k_sendmsg c k [v0, v1]))
    \<and> wire_of tag_type (fm_type msg) (out_msg_seq_num s) (v0 @ v1) \<and> tx_ok s'
    \<and> out_msg_seq_num s' = out_msg_seq_num s + 1 \<and> tx_timestamp s' = s_now s \<and> in_msg_seq_num s' = in_msg_seq_num s
    \<and> same_names s s' \<and> rx_buffer s' = rx_buffer s"
proof -
  obtain now bg where "printable tag_type (c_dtoa2 c) (data (rx_buffer s)) (prepared s msg) now bg" "length bg \<le> 64"
      "length (body_text (c_dtoa2 c) (data (rx_buffer s)) (prepared s msg) now) + 7 \<le> 1024"
    using cs unfolding can_send_def by blast
  from session_send_text [OF tx this, of k] show ?thesis by blast
qed

subsection \<open>A run of sends\<close>

fun send_calls :: "'k sys \<Rightarrow> fix_message list \<Rightarrow> fix_session \<Rightarrow> 'k \<Rightarrow> (fix_session \<times> 'k) option" where
  "send_calls c [] s k = Some (s, k)"
| "send_calls c (m # ms) s k = do {
     (r, s, m, k) \<leftarrow> fix_session_send c s m 0 k;
     send_calls c ms s k }"

fun can_send_all :: "(i32 \<Rightarrow> fix_type) \<Rightarrow> 'k sys \<Rightarrow> fix_session \<Rightarrow> fix_message list \<Rightarrow> bool" where
  "can_send_all tag_type c s [] = True"
| "can_send_all tag_type c s (m # ms) \<longleftrightarrow> can_send tag_type c s m
     \<and> can_send_all tag_type c (s\<lparr>out_msg_seq_num := out_msg_seq_num s + 1\<rparr>) ms"

text \<open>The types of the messages, numbered from \<open>n\<close> on.\<close>

fun numbered :: "ulong \<Rightarrow> fix_message list \<Rightarrow> (fix_msg_type \<times> ulong) list" where
  "numbered n [] = []"
| "numbered n (m # ms) = (fm_type m, n) # numbered (n + 1) ms"

text \<open>\<open>sendmsg\<close> puts all it is given into the pipe.\<close>

definition full_writes :: "'k sys \<Rightarrow> ('k \<Rightarrow> u8 list) \<Rightarrow> bool" where
  "full_writes c pipe \<longleftrightarrow> (\<forall>k vs. pipe (snd (k_sendmsg c k vs)) = pipe k @ concat vs)"

lemma numbered_length: "length (numbered n ms) = length ms"
  by (induction ms arbitrary: n) auto

lemma can_send_cong:
  "same_names s s' \<Longrightarrow> rx_buffer s' = rx_buffer s \<Longrightarrow> out_msg_seq_num s' = out_msg_seq_num s \<Longrightarrow>
     can_send tag_type c s' m = can_send tag_type c s m"
  by (simp add: can_send_def prepared_def same_names_def)

lemma can_send_all_cong:
  "same_names s s' \<Longrightarrow> rx_buffer s' = rx_buffer s \<Longrightarrow> out_msg_seq_num s' = out_msg_seq_num s \<Longrightarrow>
     can_send_all tag_type c s' ms = can_send_all tag_type c s ms"
proof (induction ms arbitrary: s s')
  case (Cons m ms)
  let ?u = "\<lambda>s. s\<lparr>out_msg_seq_num := out_msg_seq_num s + 1\<rparr>"
  have "can_send_all tag_type c (?u s') ms = can_send_all tag_type c (?u s) ms"
    by (rule Cons.IH) (use Cons.prems in \<open>simp_all add: same_names_def\<close>)
  with can_send_cong [OF Cons.prems] show ?case unfolding can_send_all.simps by blast
qed simp

lemma send_calls_ok:
  assumes fw: "full_writes c pipe"
  shows "tx_ok s \<Longrightarrow> can_send_all tag_type c s ms \<Longrightarrow>
    \<exists>s' k' ws. send_calls c ms s k = Some (s', k') \<and> pipe k' = pipe k @ stream_of ws \<and> wires tag_type ws
      \<and> sent_list ws = numbered (out_msg_seq_num s) ms \<and> out_msg_seq_num s' = out_msg_seq_num s + of_nat (length ms)"
proof (induction ms arbitrary: s k)
  case Nil
  then show ?case by (intro exI [of _ s] exI [of _ k] exI [of _ "[]"]) (simp add: stream_of_def wires_def sent_list_def)
next
  case (Cons m ms)
  let ?s1 = "s\<lparr>out_msg_seq_num := out_msg_seq_num s + 1\<rparr>"
  from session_send_ok [OF Cons.prems(1), of tag_type c m k] Cons.prems(2) obtain r s1 m1 v0 v1 where
    s1: "fix_session_send c s m 0 k = Some (r, s1, m1, snd (k_sendmsg c k [v0, v1]))"
      "wire_of tag_type (fm_type m) (out_msg_seq_num s) (v0 @ v1)" "tx_ok s1"
      "out_msg_seq_num s1 = out_msg_seq_num s + 1" "same_names s s1" "rx_buffer s1 = rx_buffer s" by auto
  have "can_send_all tag_type c s1 ms = can_send_all tag_type c ?s1 ms"
    by (rule can_send_all_cong) (use s1 in \<open>simp_all add: same_names_def\<close>)
  with Cons.prems(2) have cs: "can_send_all tag_type c s1 ms" by simp
  let ?k1 = "snd (k_sendmsg c k [v0, v1])"
  have p1: "pipe ?k1 = pipe k @ v0 @ v1" using fw by (simp add: full_writes_def)
  from Cons.IH [OF s1(3) cs, of ?k1] obtain s' k' ws where
    IH: "send_calls c ms s1 ?k1 = Some (s', k')" "pipe k' = pipe ?k1 @ stream_of ws" "wires tag_type ws"
      "sent_list ws = numbered (out_msg_seq_num s1) ms" "out_msg_seq_num s' = out_msg_seq_num s1 + of_nat (length ms)" by blast
  let ?ws = "(fm_type m, out_msg_seq_num s, v0 @ v1) # ws"
  have "send_calls c (m # ms) s k = Some (s', k')" using s1(1) IH(1) by simp
  moreover have "pipe k' = pipe k @ stream_of ?ws" using IH(2) p1 by (simp add: stream_of_def)
  moreover have "wires tag_type ?ws" using IH(3) s1(2) by (simp add: wires_def)
  moreover have "sent_list ?ws = numbered (out_msg_seq_num s) (m # ms)" using IH(4) s1(4) by (simp add: sent_list_def)
  moreover have "out_msg_seq_num s' = out_msg_seq_num s + of_nat (length (m # ms))" using IH(5) s1(4) by simp
  ultimately show ?case by blast
qed

subsection \<open>Properties\<close>

text \<open>C18: However the stream of messages is cut into pieces by the kernel, the calls of \<open>fix_session_recv\<close> hand out
  the messages of the stream in order, each exactly once, and never lose, repeat or reorder a byte: what has not been
  handed out is still in the receive buffer or in the pipe.  The session counts each message.\<close>

theorem session_stream:
  assumes "stream_socket c pipe" "strtod_local (c_strtod c)"
    and "flags AND FIX_PARSE_FLAG_NO_TYPE = 0" "flags AND FIX_RECV_KEEP_IN_MSGSEQNUM = 0"
    and "session_ok s" "d_tag_type (s_dialect s) = Some tag_type"
    and "wires tag_type ms" "unread s @ pipe k = stream_of ms"
  shows "\<exists>j s' k'. recv_calls c flags n s k = Some (sent_list (take j ms), s', k') \<and> j \<le> length ms
    \<and> unread s' @ pipe k' = stream_of (drop j ms) \<and> in_msg_seq_num s' = in_msg_seq_num s + of_nat j"
  using recv_calls_stream [OF assms] by blast

text \<open>C17: What one session sends, the other receives.  The messages go out numbered consecutively from the sender's
  \<open>out_msg_seq_num\<close>; the receiver hands out a prefix of them, in order and with those numbers, and all of them when the
  socket blocks until there is something and enough calls are made.\<close>

theorem sessions_link:
  assumes "stream_socket c pipe" "full_writes c pipe" "strtod_local (c_strtod c)"
    and "tx_ok a" "can_send_all tag_type c a ms"
    and "session_ok b" "d_tag_type (s_dialect b) = Some tag_type" "unread b = []" "pipe k = []"
  shows "\<exists>a' k1. send_calls c ms a k = Some (a', k1) \<and> out_msg_seq_num a' = out_msg_seq_num a + of_nat (length ms)
    \<and> (\<exists>j b' k2. recv_calls c 0 n b k1 = Some (take j (numbered (out_msg_seq_num a) ms), b', k2)
        \<and> in_msg_seq_num b' = in_msg_seq_num b + of_nat j
        \<and> (blocking c pipe \<longrightarrow> length (pipe k1) + length ms \<le> n \<longrightarrow> j = length ms))"
proof -
  from send_calls_ok [OF assms(2,4,5), of k] obtain a' k1 ws where
    s: "send_calls c ms a k = Some (a', k1)" "pipe k1 = stream_of ws" "wires tag_type ws"
      "sent_list ws = numbered (out_msg_seq_num a) ms" "out_msg_seq_num a' = out_msg_seq_num a + of_nat (length ms)"
    using assms(9) by auto
  have len: "length ws = length ms"
    using arg_cong [OF s(4), of length] by (simp add: sent_list_def numbered_length)
  have "unread b @ pipe k1 = stream_of ws" using assms(8) s(2) by simp
  from recv_calls_stream [OF assms(1,3) _ _ assms(6,7) s(3) this, of 0 n] obtain j b' k2 where
    "recv_calls c 0 n b k1 = Some (sent_list (take j ws), b', k2)" "in_msg_seq_num b' = in_msg_seq_num b + of_nat j"
    "blocking c pipe \<longrightarrow> length (pipe k1) + length ws \<le> n \<longrightarrow> j = length ws" by auto
  moreover have "sent_list (take j ws) = take j (numbered (out_msg_seq_num a) ms)"
    using arg_cong [OF s(4), of "take j"] by (simp add: sent_list_def take_map)
  ultimately show ?thesis using s(1,5) len by auto
qed

text \<open>A pipe that gives out at most seven bytes at a time, and two sessions on it.\<close>

definition pipe_sys :: "u8 list sys" where
  "pipe_sys = \<lparr>c_strtod = (\<lambda>_. 0), c_dtoa2 = (\<lambda>_. []),
     k_recv = (\<lambda>k n. (IoOk (take (min 7 (unat n)) k), drop (min 7 (unat n)) k)),
     k_sendmsg = (\<lambda>k vs. (of_nat (length (concat vs)), k @ concat vs)), k_clock = (\<lambda>k. (0, k))\<rparr>"

definition sample_sender :: fix_session where
  "sample_sender = session_zero\<lparr>s_begin_string := Str (chars ''FIX.4.4'' @ [0]),
     s_sender_comp_id := chars ''A'' @ [0], s_target_comp_id := chars ''B'' @ [0],
     s_str_now := chars ''20250101-10:00:00'' @ [0], out_msg_seq_num := 7,
     tx_head_buffer := \<lparr>b_start = 0, b_end = 0, capacity = 256, data = replicate 256 0\<rparr>,
     tx_body_buffer := \<lparr>b_start = 0, b_end = 0, capacity = 1024, data = replicate 1024 0\<rparr>\<rparr>"

definition sample_receiver :: fix_session where
  "sample_receiver = session_zero\<lparr>s_dialect := fix_dialects FIX_4_4, in_msg_seq_num := 6,
     rx_buffer := \<lparr>b_start = 0, b_end = 0, capacity = 4096, data = replicate 4096 0\<rparr>\<rparr>"

lemma pipe_sys_socket: "stream_socket pipe_sys (\<lambda>k. k)" "full_writes pipe_sys (\<lambda>k. k)" "strtod_local (c_strtod pipe_sys)"
  "blocking pipe_sys (\<lambda>k. k)"
  by (auto simp: stream_socket_def full_writes_def strtod_local_def blocking_def pipe_sys_def unat_gt_0)

lemma sample_prepared: "prepared sample_sender sample_fix = sample_fix"
  by (simp add: prepared_def sample_sender_def sample_fix_def)

lemma sample_sends: "tx_ok sample_sender" "can_send_all fix_tag_type pipe_sys sample_sender [sample_fix]"
proof -
  show "tx_ok sample_sender"
    by (simp add: tx_ok_def sample_sender_def FIX_TX_HEAD_BUFFER_SIZE_def FIX_TX_BODY_BUFFER_SIZE_def FIX_MAX_HEAD_LEN_def FIX_MAX_BODY_LEN_def)
  have rx: "data (rx_buffer sample_sender) = []" "c_dtoa2 pipe_sys = (\<lambda>_. [])"
    by (simp_all add: sample_sender_def session_zero_def pipe_sys_def)
  have l: "length (chars ''FIX.4.4'') \<le> 64" "length (body_text (\<lambda>_. []) [] sample_fix sample_now) + 7 \<le> 1024"
    by code_simp+
  show "can_send_all fix_tag_type pipe_sys sample_sender [sample_fix]"
    using sample_printable l by (auto simp: can_send_def sample_prepared rx)
qed

lemma sample_receives: "session_ok sample_receiver" "d_tag_type (s_dialect sample_receiver) = Some fix_tag_type"
    "unread sample_receiver = []"
  by (simp_all add: session_ok_def sample_receiver_def session_zero_def buffer_wf_def RECV_BUFFER_SIZE_def
      fix_message_new_def fix_dialects_def buf_bytes_def)

lemma sample_wires: "wires fix_tag_type [(FIX_MSG_TYPE_HEARTBEAT, 7, sample_wire)]"
proof -
  have "length (chars ''FIX.4.4'') \<le> 64" by code_simp
  from printable_wire [OF sample_printable this] show ?thesis
    unfolding sample_wire_text by (simp add: wires_def sample_fix_def)
qed

theorem session_stream_witness:
  "\<exists>j s' k'. recv_calls pipe_sys 0 3 sample_receiver sample_wire
       = Some (sent_list (take j [(FIX_MSG_TYPE_HEARTBEAT, 7, sample_wire)]), s', k')
     \<and> unread s' @ k' = stream_of (drop j [(FIX_MSG_TYPE_HEARTBEAT, 7, sample_wire)])"
proof -
  have "unread sample_receiver @ sample_wire = stream_of [(FIX_MSG_TYPE_HEARTBEAT, 7, sample_wire)]"
    by (simp add: sample_receives stream_of_def)
  from session_stream [OF pipe_sys_socket(1,3) _ _ sample_receives(1,2) sample_wires this, of 0 3] show ?thesis
    by (simp del: recv_calls.simps) blast
qed

theorem sessions_link_witness:
  "\<exists>a' k1 n b' k2. send_calls pipe_sys [sample_fix] sample_sender [] = Some (a', k1) \<and> out_msg_seq_num a' = 8
    \<and> recv_calls pipe_sys 0 n sample_receiver k1 = Some ([(FIX_MSG_TYPE_HEARTBEAT, 7)], b', k2) \<and> in_msg_seq_num b' = 7"
proof -
  note L = sessions_link [OF pipe_sys_socket(1-3) sample_sends sample_receives, of "[]"]
  have n: "numbered (out_msg_seq_num sample_sender) [sample_fix] = [(FIX_MSG_TYPE_HEARTBEAT, 7)]"
    "out_msg_seq_num sample_sender = 7" "in_msg_seq_num sample_receiver = 6"
    by (simp_all add: sample_sender_def sample_fix_def sample_receiver_def)
  obtain a' k1 where s: "send_calls pipe_sys [sample_fix] sample_sender [] = Some (a', k1)" "out_msg_seq_num a' = 8"
    using L [of 0] unfolding n by auto
  from L [of "length k1 + 1"] s(1) pipe_sys_socket(4) obtain b' k2 where
    "recv_calls pipe_sys 0 (length k1 + 1) sample_receiver k1 = Some ([(FIX_MSG_TYPE_HEARTBEAT, 7)], b', k2)"
    "in_msg_seq_num b' = 7" unfolding n by (auto simp: sample_fix_def simp del: recv_calls.simps send_calls.simps)
  with s show ?thesis by blast
qed

end
