(* ===== verification/Fix_Recovery.thy ===== *)
theory Fix_Recovery
  imports Fix_Admin Fix_Link
begin

text \<open>
  What the session level guarantees: sequence numbers only move forward, an unexpected message is never
  handed to the user, a test request is answered with its identifier, a silent peer is detected, and a
  logout ends.
\<close>

subsection \<open>Frames\<close>

lemma send_message_frame:
  assumes "send_message c s msg flags k = Some (r, s', k')"
  shows "in_msg_seq_num s' = in_msg_seq_num s" "tr_pending s' = tr_pending s" "tr_timestamp s' = tr_timestamp s"
    "rx_timestamp s' = rx_timestamp s" "s_heartbtint s' = s_heartbtint s" "s_now s' = s_now s" "rx_buffer s' = rx_buffer s"
    "tx_timestamp s' = s_now s" "rx_message s' = rx_message s"
  using assms by (auto simp: send_message_def fix_session_send_def run_simps split: if_splits)

lemma sends_frame:
  "fix_session_heartbeat c s t k = Some (r, s', k') \<Longrightarrow> in_msg_seq_num s' = in_msg_seq_num s"
  "fix_session_resend_request c s x y k = Some (r, s', k') \<Longrightarrow> in_msg_seq_num s' = in_msg_seq_num s"
  "fix_session_reject c s x u k = Some (r, s', k') \<Longrightarrow> in_msg_seq_num s' = in_msg_seq_num s"
  "fix_session_sequence_reset c s x y g k = Some (r, s', k') \<Longrightarrow> in_msg_seq_num s' = in_msg_seq_num s"
  by (auto simp: fix_session_heartbeat_def fix_session_resend_request_def fix_session_reject_def fix_session_sequence_reset_def
      dest: send_message_frame(1))

lemma session_parse_counts:
  "session_parse c s flags = Some (found, s') \<Longrightarrow> flags AND FIX_RECV_KEEP_IN_MSGSEQNUM = 0 \<Longrightarrow>
     in_msg_seq_num s' = (if found then in_msg_seq_num s + 1 else in_msg_seq_num s)"
  by (auto simp: session_parse_def run_simps)

lemma recv_counts:
  assumes "fix_session_recv c s flags k = Some (r, s', k')" "r = 1" "flags AND FIX_RECV_KEEP_IN_MSGSEQNUM = 0"
  shows "in_msg_seq_num s' = in_msg_seq_num s + 1"
  using assms
  by (auto simp: fix_session_recv_def run_simps dest!: session_parse_counts split: if_splits)

subsection \<open>Sequence numbers\<close>

text \<open>The message is neither an old one that is not marked as a possible duplicate, which ends the session.\<close>

definition no_logout :: "fix_session \<Rightarrow> fix_message \<Rightarrow> bool" where
  "no_logout s msg \<longleftrightarrow> (msg_seq_num msg < in_msg_seq_num s \<longrightarrow> (\<exists>p. fix_get_field msg PossDupFlag = Some (Some p)))"

lemma unexpected_in_seq:
  assumes "fix_do_unexpected c lo s msg k = Some (r, s', k')" "no_logout s msg" "msg_seq_num msg \<noteq> in_msg_seq_num s"
  shows "in_msg_seq_num s' = in_msg_seq_num s - 1"
  using assms by (auto simp: fix_do_unexpected_def no_logout_def run_simps dest: sends_frame split: if_splits)

lemma word_pred_bounds: "(e :: ulong) \<noteq> 0 \<Longrightarrow> e - 1 \<le> e" "(e :: ulong) < n \<Longrightarrow> e \<le> n - 1"
proof -
  show "e - 1 \<le> e" if "e \<noteq> 0" using that by (simp add: word_le_nat_alt unat_minus_one)
  show "e \<le> n - 1" if "e < n"
  proof -
    from that have "n \<noteq> 0" by auto
    with that show ?thesis by (simp add: word_le_nat_alt word_less_nat_alt unat_minus_one)
  qed
qed

text \<open>What the code takes as the new sequence number of a SequenceReset.\<close>

definition new_seq_of :: "fix_message \<Rightarrow> ulong \<Rightarrow> bool" where
  "new_seq_of msg n \<longleftrightarrow> (\<exists>f. field_with msg NewSeqNo = Some (Some f) \<and> int_of_value (ff_value f) = Some n)"

lemma gap_fill_in_seq:
  assumes "gap_fill c lo s msg n k = Some (s', k')" "no_logout s msg" "in_msg_seq_num s \<noteq> 0"
  shows "in_msg_seq_num s - 1 \<le> in_msg_seq_num s'"
    "in_msg_seq_num s' \<in> {in_msg_seq_num s - 1, in_msg_seq_num s} \<or> in_msg_seq_num s' = n - 1"
  using assms word_pred_bounds(1) [of "in_msg_seq_num s"] word_pred_bounds(2) [of "in_msg_seq_num s" n]
  by (auto simp: gap_fill_def no_logout_def run_simps dest!: sends_frame split: if_splits)

lemma reset_in_seq:
  assumes "reset_seq c s n k = Some (s', k')" "in_msg_seq_num s \<noteq> 0"
  shows "in_msg_seq_num s - 1 \<le> in_msg_seq_num s'"
    "in_msg_seq_num s' \<in> {in_msg_seq_num s - 1, in_msg_seq_num s} \<or> in_msg_seq_num s' = n - 1"
  using assms word_pred_bounds(1) [of "in_msg_seq_num s"] word_pred_bounds(2) [of "in_msg_seq_num s" n]
  by (auto simp: reset_seq_def run_simps dest!: sends_frame split: if_splits)

lemma admin_sequence_reset_in_seq:
  assumes "admin_sequence_reset c lo s msg k = Some (s', k')" "no_logout s msg" "in_msg_seq_num s \<noteq> 0"
  shows "in_msg_seq_num s - 1 \<le> in_msg_seq_num s'
    \<and> (in_msg_seq_num s' \<in> {in_msg_seq_num s - 1, in_msg_seq_num s} \<or> (\<exists>n. new_seq_of msg n \<and> in_msg_seq_num s' = n - 1))"
proof -
  from assms(1) obtain field where f: "field_with msg NewSeqNo = Some field" and
    r: "field = None \<and> s' = s \<or> (\<exists>x n. field = Some x \<and> int_of_value (ff_value x) = Some n
      \<and> (gap_fill c lo s msg n k = Some (s', k') \<or> reset_seq c s n k = Some (s', k')))"
    by (auto simp: admin_sequence_reset_def run_simps)
  show ?thesis
  proof (cases field)
    case None
    with r word_pred_bounds(1) [OF assms(3)] show ?thesis by simp
  next
    case (Some x)
    with r obtain n where n: "int_of_value (ff_value x) = Some n"
      "gap_fill c lo s msg n k = Some (s', k') \<or> reset_seq c s n k = Some (s', k')" by auto
    have new: "new_seq_of msg n" using f n(1) Some by (auto simp: new_seq_of_def)
    from n(2) show ?thesis
    proof
      assume g: "gap_fill c lo s msg n k = Some (s', k')"
      from gap_fill_in_seq [OF g assms(2,3)] new show ?thesis by blast
    next
      assume g: "reset_seq c s n k = Some (s', k')"
      from reset_in_seq [OF g assms(3)] new show ?thesis by blast
    qed
  qed
qed

lemma expected_in_seq:
  assumes "fix_session_admin c lo s msg k = Some (handled, s', k')" "fix_msg_expected s msg"
    "fm_type msg \<noteq> FIX_MSG_TYPE_SEQUENCE_RESET"
  shows "in_msg_seq_num s' = in_msg_seq_num s"
  using assms
  by (auto simp: fix_session_admin_def admin_heartbeat_def admin_test_request_def admin_resend_request_def run_simps
      dest: sends_frame split: fix_msg_type.splits option.splits if_splits)

lemma unexpected_admin:
  assumes "fix_session_admin c lo s msg k = Some (handled, s', k')" "\<not> fix_msg_expected s msg" "no_logout s msg"
  shows "handled" "in_msg_seq_num s' = in_msg_seq_num s - 1"
  using assms unexpected_in_seq [of c lo s msg k]
  by (auto simp: fix_session_admin_def fix_msg_expected_def run_simps)

lemma sequence_reset_admin:
  assumes "fix_session_admin c lo s msg k = Some (handled, s', k')" "fm_type msg = FIX_MSG_TYPE_SEQUENCE_RESET"
  shows "admin_sequence_reset c lo s msg k = Some (s', k') \<and> handled"
  using assms by (auto simp: fix_session_admin_def fix_msg_expected_def fix_message_type_is_def run_simps)

subsection \<open>Properties\<close>

text \<open>C19: The expected sequence number never moves backwards.  After a message has been received and handled, and did not
  end the session, the number is at least what it was before; it has stayed, or moved by one, or a SequenceReset
  has set it to the number before its NewSeqNo.\<close>

theorem sequence_moves_forward:
  assumes "fix_session_recv c s flags k = Some (1, s1, k1)" "flags AND FIX_RECV_KEEP_IN_MSGSEQNUM = 0"
    and "fix_session_admin c lo s1 (rx_message s1) k1 = Some (handled, s2, k2)"
    and "no_logout s1 (rx_message s1)" and "in_msg_seq_num s + 1 \<noteq> 0"
  shows "in_msg_seq_num s \<le> in_msg_seq_num s2
    \<and> (in_msg_seq_num s2 \<in> {in_msg_seq_num s, in_msg_seq_num s + 1}
       \<or> fm_type (rx_message s1) = FIX_MSG_TYPE_SEQUENCE_RESET
         \<and> (\<exists>n. new_seq_of (rx_message s1) n \<and> in_msg_seq_num s2 = n - 1))"
proof -
  have in1: "in_msg_seq_num s1 = in_msg_seq_num s + 1" by (rule recv_counts [OF assms(1) refl assms(2)])
  have le: "in_msg_seq_num s \<le> in_msg_seq_num s + 1"
    using word_pred_bounds(1) [OF assms(5)] by simp
  show ?thesis
  proof (cases "fm_type (rx_message s1) = FIX_MSG_TYPE_SEQUENCE_RESET")
    case True
    have ne: "in_msg_seq_num s1 \<noteq> 0" using in1 assms(5) by simp
    from admin_sequence_reset_in_seq [OF conjunct1 [OF sequence_reset_admin [OF assms(3) True]] assms(4) ne] True
    show ?thesis unfolding in1 by auto
  next
    case False
    show ?thesis
    proof (cases "fix_msg_expected s1 (rx_message s1)")
      case True
      from expected_in_seq [OF assms(3) True False] le show ?thesis by (simp add: in1)
    next
      case ne: False
      from unexpected_admin(2) [OF assms(3) ne assms(4)] show ?thesis by (simp add: in1)
    qed
  qed
qed


subsection \<open>Messages of the session level on the wire\<close>

text \<open>\<open>goes_out tag_type t n kvs vs\<close>: the pieces \<open>vs\<close> given to the kernel make up one message of type \<open>t\<close> with
  number \<open>n\<close> whose body ends with the fields \<open>kvs\<close>.\<close>

definition goes_out :: "(i32 \<Rightarrow> fix_type) \<Rightarrow> fix_msg_type \<Rightarrow> ulong \<Rightarrow> (i32 \<times> u8 list) list \<Rightarrow> u8 list list \<Rightarrow> bool" where
  "goes_out tag_type t n kvs vs \<longleftrightarrow> wire_of tag_type t n (concat vs)
     \<and> (\<exists>bg bd. concat vs = wire_text bg (bd @ concat (map kv_text kvs)))"

lemma send_goes_out:
  assumes "tx_ok s" "can_send tag_type c s msg"
  shows "\<exists>r s' vs. send_message c s msg 0 k = Some (r, s', snd (k_sendmsg c k vs))
    \<and> goes_out tag_type (fm_type msg) (out_msg_seq_num s)
        (map (kv_of (c_dtoa2 c) (data (rx_buffer s))) (take (unat (fm_nr_fields msg)) (fm_fields msg))) vs
    \<and> tx_ok s' \<and> out_msg_seq_num s' = out_msg_seq_num s + 1"
proof -
  let ?rx = "data (rx_buffer s)"
  obtain now bg where p: "printable tag_type (c_dtoa2 c) ?rx (prepared s msg) now bg" "length bg \<le> 64"
      "length (body_text (c_dtoa2 c) ?rx (prepared s msg) now) + 7 \<le> 1024"
    using assms(2) unfolding can_send_def by blast
  from session_send_text [OF assms(1) p, of k] obtain r s' msg' v0 v1 where
    s: "fix_session_send c s msg 0 k = Some (r, s', msg', snd (k_sendmsg c k [v0, v1]))"
      "v0 @ v1 = wire_text bg (body_text (c_dtoa2 c) ?rx (prepared s msg) now)"
      "wire_of tag_type (fm_type msg) (out_msg_seq_num s) (v0 @ v1)" "tx_ok s'" "out_msg_seq_num s' = out_msg_seq_num s + 1"
    by blast
  obtain bd where "body_text (c_dtoa2 c) ?rx (prepared s msg) now
      = bd @ concat (map kv_text (map (kv_of (c_dtoa2 c) ?rx) (take (unat (fm_nr_fields msg)) (fm_fields msg))))"
    by (simp add: body_text_def body_kvs_def sent_fields_def prepared_def)
  with s(2,3) have "goes_out tag_type (fm_type msg) (out_msg_seq_num s)
      (map (kv_of (c_dtoa2 c) ?rx) (take (unat (fm_nr_fields msg)) (fm_fields msg))) [v0, v1]"
    unfolding goes_out_def by auto
  with s(1,4,5) show ?thesis
    by (intro exI [of _ r] exI [of _ s'] exI [of _ "[v0, v1]"]) (simp add: send_message_def)
qed


lemma kv_of_string: "0 \<notin> set t \<Longrightarrow> kv_of d rx (FIX_STRING_FIELD tag (Str (t @ 0 # m))) = (tag, t)"
  by (simp add: kv_of_def value_text_def FIX_STRING_FIELD_def)



text \<open>An identifier: at most 127 characters, none of them a delimiter or NUL.\<close>

definition ident_text :: "u8 list \<Rightarrow> bool" where
  "ident_text t \<longleftrightarrow> length t < 128 \<and> 1 \<notin> set t \<and> 0 \<notin> set t"

lemma c_memchr_at: "x \<notin> set t \<Longrightarrow> length t < n \<Longrightarrow> c_memchr (t @ x # r) x n = Some (Some (length t))"
proof (induction t arbitrary: n)
  case Nil
  then show ?case by (cases n) auto
next
  case (Cons a t)
  then show ?case by (cases n) auto
qed

lemma fix_get_string_text:
  assumes "ff_value f = StringVal p" "deref rx p = Some (t @ 1 # r)" "ident_text t" "length buf = 128"
  shows "fix_get_string rx f buf 128 = Some (True, t @ 0 # drop (Suc (length t)) buf)"
proof -
  have t: "length t < 128" "1 \<notin> set t" "0 \<notin> set t" using assms(3) by (simp_all add: ident_text_def)
  have tw: "takeWhile (\<lambda>c. c \<noteq> 0) t = t" using t(3) by (simp add: takeWhile_eq_all_conv) blast
  have st: "mem_store buf 0 t = Some (splice buf 0 t)" using mem_store_splice [of 0 t buf] t(1) assms(4) by simp
  have "mem_put (splice buf 0 t) (int (length t)) 0 = Some (splice buf 0 (t @ [0]))"
    using mem_put_splice [of "length t" "splice buf 0 t" 0] splice_splice_after [of 0 t "length t" "[0]" buf] t(1) assms(4)
    by simp
  with st tw show ?thesis
    using assms(1,2) t(1) c_memchr_at [OF t(2), of 128 r]
    by (simp add: fix_get_string_def splice_def del: takeWhile_eq_all_conv)
qed

text \<open>What a session can send depends on the text of a string only, not on what follows its NUL.\<close>

lemma can_send_heartbeat:
  assumes "0 \<notin> set t"
  shows "can_send tag_type c s (heartbeat_msg (Some (Str (t @ 0 # m)))) = can_send tag_type c s (heartbeat_msg (Some (Str (t @ [0]))))"
proof -
  let ?f = "\<lambda>m. FIX_STRING_FIELD TestReqID (Str (t @ 0 # m))"
  have v: "value_text d rx (?f m) = value_text d rx (?f [])" for d rx
    using assms by (simp add: value_text_def FIX_STRING_FIELD_def)
  moreover have tag: "ff_tag (?f m) = TestReqID" for m by (simp add: FIX_STRING_FIELD_def)
  ultimately have "sendable tag_type d rx (?f m) = sendable tag_type d rx (?f [])" "kv_of d rx (?f m) = kv_of d rx (?f [])" for d rx
    unfolding sendable_def kv_of_def by (simp_all add: FIX_STRING_FIELD_def)
  with tag show ?thesis
    by (simp add: can_send_def printable_def prepared_def heartbeat_msg_def new_message_def body_text_def body_kvs_def
        sent_fields_def)
qed

text \<open>C22: A test request is answered with its identifier: one message goes to the kernel, a numbered Heartbeat whose body
  ends with the TestReqID of the request, character for character.\<close>

theorem test_request_answered:
  assumes "fm_type msg = FIX_MSG_TYPE_TEST_REQUEST" "msg_seq_num msg = in_msg_seq_num s"
    and "field_with msg TestReqID = Some (Some f)" "ff_value f = StringVal p"
    and "deref (data (rx_buffer s)) p = Some (t @ 1 # r)" "ident_text t"
    and "tx_ok s" "can_send tag_type c s (heartbeat_msg (Some (Str (t @ [0]))))"
  shows "\<exists>s' vs. fix_session_admin c lo s msg k = Some (True, s', snd (k_sendmsg c k vs))
    \<and> goes_out tag_type FIX_MSG_TYPE_HEARTBEAT (out_msg_seq_num s) [(TestReqID, t)] vs
    \<and> in_msg_seq_num s' = in_msg_seq_num s \<and> out_msg_seq_num s' = out_msg_seq_num s + 1"
proof -
  let ?buf = "chars ''TestReqID'' @ replicate 119 0"
  have l: "length ?buf = 128" by (simp add: chars_def)
  have t: "0 \<notin> set t" using assms(6) by (simp add: ident_text_def)
  define m where "m = drop (Suc (length t)) ?buf"
  have g: "fix_get_string (data (rx_buffer s)) f ?buf 128 = Some (True, t @ 0 # m)"
    unfolding m_def by (rule fix_get_string_text [OF assms(4,5,6) l])
  have cs: "can_send tag_type c s (heartbeat_msg (Some (Str (t @ 0 # m))))"
    by (rule can_send_heartbeat [OF t, THEN iffD2, OF assms(8)])
  from send_goes_out [OF assms(7) cs, of k] obtain r' s' vs where
    s: "send_message c s (heartbeat_msg (Some (Str (t @ 0 # m)))) 0 k = Some (r', s', snd (k_sendmsg c k vs))"
    "goes_out tag_type FIX_MSG_TYPE_HEARTBEAT (out_msg_seq_num s) [(TestReqID, t)] vs" "out_msg_seq_num s' = out_msg_seq_num s + 1"
    by (auto simp: heartbeat_msg_def new_message_def kv_of_string [OF t])
  have "fix_session_admin c lo s msg k = Some (True, s', snd (k_sendmsg c k vs))"
    using assms(1-3) g s(1)
    by (simp add: fix_session_admin_def fix_msg_expected_def admin_test_request_def fix_session_heartbeat_def)
  with s send_message_frame(1) [OF s(1)] show ?thesis by blast
qed

subsection \<open>Keep-alive\<close>

abbreviation secs :: "timespec \<Rightarrow> timespec \<Rightarrow> int" where
  "secs a b \<equiv> sint (ucast (tv_sec a - tv_sec b) :: i32)"

text \<open>The test request that \<open>fix_session_keepalive\<close> sends.\<close>

definition test_request_msg :: "fix_session \<Rightarrow> fix_message" where
  "test_request_msg s = new_message FIX_MSG_TYPE_TEST_REQUEST 1 [FIX_STRING_FIELD TestReqID (Str (s_str_now s))]"

lemma c_strncpy_text:
  assumes "0 \<notin> set t" "length t < n"
  shows "c_strncpy (t @ 0 # m) n = Some (t @ replicate (n - length t) 0)"
proof -
  have "takeWhile (\<lambda>c. c \<noteq> 0) (t @ 0 # m) = t" using assms(1) by (induction t) auto
  with assms show ?thesis by (simp add: c_strncpy_def del: takeWhile_append)
qed

lemma test_request_goes_out:
  assumes "tx_ok s" "can_send tag_type c s (test_request_msg s)" "s_str_now s = t @ 0 # m" "0 \<notin> set t" "length t < 64"
  shows "\<exists>r s' vs. fix_session_test_request c s k = Some (r, s', snd (k_sendmsg c k vs))
    \<and> goes_out tag_type FIX_MSG_TYPE_TEST_REQUEST (out_msg_seq_num s) [(TestReqID, t)] vs
    \<and> tr_pending s' = 1 \<and> tr_timestamp s' = s_now s \<and> tx_timestamp s' = s_now s \<and> s_heartbtint s' = s_heartbtint s
    \<and> testreqid s' = t @ replicate (64 - length t) 0"
proof -
  let ?s = "s\<lparr>testreqid := t @ replicate (64 - length t) 0, tr_timestamp := s_now s, tr_pending := 1\<rparr>"
  have tx: "tx_ok ?s" using assms(1) by (simp add: tx_ok_def)
  have cs: "can_send tag_type c ?s (test_request_msg s)"
    by (rule can_send_cong [THEN iffD2, OF _ _ _ assms(2)]) (simp_all add: same_names_def)
  from send_goes_out [OF tx cs, of k] obtain r s' vs where
    s: "send_message c ?s (test_request_msg s) 0 k = Some (r, s', snd (k_sendmsg c k vs))"
      "goes_out tag_type FIX_MSG_TYPE_TEST_REQUEST (out_msg_seq_num s) [(TestReqID, t)] vs"
    by (auto simp: test_request_msg_def new_message_def assms(3) kv_of_string [OF assms(4)])
  have "testreqid s' = testreqid ?s"
    using s(1) by (auto simp: send_message_def fix_session_send_def run_simps split: if_splits)
  moreover have "fix_session_test_request c s k = Some (r, s', snd (k_sendmsg c k vs))"
    using s(1) c_strncpy_text [OF assms(4,5), of m]
    by (simp add: fix_session_test_request_def test_request_msg_def assms(3))
  ultimately show ?thesis using s(2) send_message_frame [OF s(1)] by auto
qed

text \<open>C23: A silent peer is noticed.  When nothing has come for more than 1.2 heartbeat intervals, the keep-alive sends one
  TestRequest with the time as identifier and remembers it; and as long as that request is pending, the
  keep-alive says that the peer is dead once more than half an interval has passed since.\<close>

theorem silent_peer_detected:
  assumes "tx_ok s" "can_send tag_type c s (test_request_msg s)" "s_str_now s = t @ 0 # m" "0 \<notin> set t" "length t < 64"
    and "tr_pending s = 0" "6 * sint (s_heartbtint s) < 5 * secs now (rx_timestamp s)" "secs now (s_now s) \<le> sint (s_heartbtint s)"
  shows "\<exists>s1 vs. fix_session_keepalive c s now k = Some (True, s1, snd (k_sendmsg c k vs))
    \<and> goes_out tag_type FIX_MSG_TYPE_TEST_REQUEST (out_msg_seq_num s) [(TestReqID, t)] vs
    \<and> testreqid s1 = t @ replicate (64 - length t) 0 \<and> s_heartbtint s1 = s_heartbtint s
    \<and> (\<forall>s2 now2 k2. tr_pending s2 = tr_pending s1 \<longrightarrow> tr_timestamp s2 = tr_timestamp s1 \<longrightarrow> s_heartbtint s2 = s_heartbtint s \<longrightarrow>
         sint (s_heartbtint s) < 2 * secs now2 (s_now s) \<longrightarrow> fix_session_keepalive c s2 now2 k2 = Some (False, s2, k2))"
proof -
  from test_request_goes_out [OF assms(1-5), of k] obtain r s1 vs where
    s: "fix_session_test_request c s k = Some (r, s1, snd (k_sendmsg c k vs))"
      "goes_out tag_type FIX_MSG_TYPE_TEST_REQUEST (out_msg_seq_num s) [(TestReqID, t)] vs"
      "tr_pending s1 = 1" "tr_timestamp s1 = s_now s" "tx_timestamp s1 = s_now s" "s_heartbtint s1 = s_heartbtint s"
      "testreqid s1 = t @ replicate (64 - length t) 0"
    by blast
  have "fix_session_keepalive c s now k = Some (True, s1, snd (k_sendmsg c k vs))"
    using assms(6-8) s(1,5,6) by (simp add: fix_session_keepalive_def Let_def)
  moreover have "fix_session_keepalive c s2 now2 k2 = Some (False, s2, k2)"
    if "tr_pending s2 = tr_pending s1" "tr_timestamp s2 = tr_timestamp s1" "s_heartbtint s2 = s_heartbtint s"
      "sint (s_heartbtint s) < 2 * secs now2 (s_now s)" for s2 now2 k2
    using that s(3,4) by (simp add: fix_session_keepalive_def Let_def)
  ultimately show ?thesis using s(2,6,7) by blast
qed

subsection \<open>Logout\<close>

text \<open>Time: \<open>ns\<close> is the clock of the kernel in nanoseconds.  A reading takes time, other calls do not turn it back, none
  takes longer than \<open>2 ^ 60\<close> seconds; and neither sending nor reading the clock takes anything from the pipe.\<close>

definition nsec :: nat where "nsec = 10 ^ 9"

definition one_call :: nat where "one_call = 2 ^ 60 * nsec"

definition steady :: "'k sys \<Rightarrow> ('k \<Rightarrow> u8 list) \<Rightarrow> ('k \<Rightarrow> nat) \<Rightarrow> bool" where
  "steady c pipe ns \<longleftrightarrow>
     (\<forall>k. \<exists>k'. k_clock c k = (of_nat (ns k div nsec), k') \<and> ns k < ns k' \<and> ns k' \<le> ns k + one_call \<and> pipe k' = pipe k)
     \<and> (\<forall>k n. ns k \<le> ns (snd (k_recv c k n)) \<and> ns (snd (k_recv c k n)) \<le> ns k + one_call)
     \<and> (\<forall>k vs. pipe (snd (k_sendmsg c k vs)) = pipe k)"

lemma recv_kernel: "fix_session_recv c s flags k = Some (r, s', k') \<Longrightarrow> k' = k \<or> (\<exists>n. k' = snd (k_recv c k n))"
  by (auto simp: fix_session_recv_def run_simps split: if_splits)

lemma seconds_passed:
  assumes "n0 \<le> n" "n \<le> n0 + 4 * nsec + 2 * one_call"
  shows "2 <s (of_nat (n div nsec) - of_nat (n0 div nsec) :: i64) \<longleftrightarrow> 2 < n div nsec - n0 div nsec"
    "n div nsec - n0 div nsec \<le> 2 \<Longrightarrow> n - n0 < 4 * nsec"
proof -
  have g: "0 < nsec" by (simp add: nsec_def)
  have le: "n0 div nsec \<le> n div nsec" by (rule div_le_mono [OF assms(1)])
  have "n div nsec \<le> (n0 + (4 + 2 * 2 ^ 60) * nsec) div nsec"
    using assms(2) by (intro div_le_mono) (simp add: one_call_def)
  then have d: "n div nsec - n0 div nsec \<le> 4 + 2 * 2 ^ 60" using g by simp
  have "sint (of_nat (n div nsec - n0 div nsec) :: i64) = int (n div nsec - n0 div nsec)"
    using d by (simp add: signed_of_nat signed_take_bit_int_eq_self)
  then show "2 <s (of_nat (n div nsec) - of_nat (n0 div nsec) :: i64) \<longleftrightarrow> 2 < n div nsec - n0 div nsec"
    unfolding of_nat_diff [OF le, symmetric] by (simp add: word_sless_alt)
  assume "n div nsec - n0 div nsec \<le> 2"
  then have "n div nsec * nsec \<le> (n0 div nsec + 2) * nsec" using le by (intro mult_le_mono1) simp
  moreover have "n0 div nsec * nsec \<le> n0" "n < n div nsec * nsec + nsec"
    using mod_less_divisor [OF g, of n] div_mult_mod_eq [of n nsec] div_mult_mod_eq [of n0 nsec] by linarith+
  ultimately show "n - n0 < 4 * nsec" unfolding add_mult_distrib using g by linarith
qed

text \<open>What the other side may still have to say: nothing, or its logout in sequence.\<close>

definition last_words :: "fix_session \<Rightarrow> wire_msg list \<Rightarrow> bool" where
  "last_words s ms \<longleftrightarrow> ms = [] \<or> (\<exists>ws. ms = [(FIX_MSG_TYPE_LOGOUT, in_msg_seq_num s + 1, ws)])"

lemma logout_admin:
  assumes "took s s' t n" "last_words s ((t, n, ws) # ms)"
  shows "fix_session_admin c lo s' (rx_message s') k = Some (False, s', k)" "fix_message_type_is (rx_message s') FIX_MSG_TYPE_LOGOUT"
  using assms by (auto simp: took_def last_words_def fix_session_admin_def fix_msg_expected_def fix_message_type_is_def)

lemma logout_loop_ends:
  assumes sock: "stream_socket c pipe" and sl: "strtod_local (c_strtod c)" and st: "steady c pipe ns"
    and ok: "session_ok s" and tt: "d_tag_type (s_dialect s) = Some tag_type" and w: "wires tag_type ms"
    and u: "unread s @ pipe k = stream_of ms" and lw: "last_words s ms" and act: "\<not> s_active s"
    and time: "n0 \<le> ns k" "ns k \<le> n0 + 4 * nsec + 2 * one_call"
    and fuel: "4 * nsec + 1 \<le> fuel + min (4 * nsec) (ns k - n0)"
  shows "\<exists>s' k'. logout_loop c (fix_session_admin c lo) (of_nat (n0 div nsec)) fuel s k = Some (0, s', k')
    \<and> \<not> s_active s' \<and> out_msg_seq_num s' = out_msg_seq_num s"
  using ok tt u lw act time fuel
proof (induction fuel arbitrary: s k)
  case (Suc fuel)
  from st obtain k1 where k1: "k_clock c k = (of_nat (ns k div nsec), k1)" "ns k < ns k1" "ns k1 \<le> ns k + one_call" "pipe k1 = pipe k"
    unfolding steady_def by blast
  note sp = seconds_passed [OF Suc.prems(6,7)]
  show ?case
  proof (cases "2 < ns k div nsec - n0 div nsec")
    case True
    with sp(1) k1(1) Suc.prems(5) show ?thesis by simp
  next
    case False
    with sp(2) have early: "ns k - n0 < 4 * nsec" by simp
    have fl: "FIX_RECV_FLAG_MSG_DONTWAIT AND FIX_PARSE_FLAG_NO_TYPE = 0" "FIX_RECV_FLAG_MSG_DONTWAIT AND FIX_RECV_KEEP_IN_MSGSEQNUM = 0"
      by (simp_all add: FIX_RECV_FLAG_MSG_DONTWAIT_def FIX_PARSE_FLAG_NO_TYPE_def FIX_RECV_KEEP_IN_MSGSEQNUM_def)
    have "unread s @ pipe k1 = stream_of ms" using Suc.prems(3) k1(4) by simp
    from recv_step [OF Suc.prems(1,2) w this sock sl fl] obtain r s2 k2 where
      r: "fix_session_recv c s FIX_RECV_FLAG_MSG_DONTWAIT k1 = Some (r, s2, k2)" "recv_case c s pipe k1 r s2 k2 ms" by blast
    have act2: "\<not> s_active s2" using r(2) Suc.prems(5) by (simp add: recv_case_def frame_def)
    have out2: "out_msg_seq_num s2 = out_msg_seq_num s" and d2: "s_dialect s2 = s_dialect s" and ok2: "session_ok s2"
      using r(2) by (auto simp: recv_case_def frame_def)
    have loop: "logout_loop c (fix_session_admin c lo) (of_nat (n0 div nsec)) (Suc fuel) s k =
        (if r \<le>s 0 then logout_loop c (fix_session_admin c lo) (of_nat (n0 div nsec)) fuel s2 k2
         else do {
           (don, session, k) \<leftarrow> fix_session_admin c lo s2 (rx_message s2) k2;
           (if don then logout_loop c (fix_session_admin c lo) (of_nat (n0 div nsec)) fuel session k
            else Some (if fix_message_type_is (rx_message session) FIX_MSG_TYPE_LOGOUT then 0 else -1, session, k)) })"
      using False sp(1) k1(1) r(1) by simp
    show ?thesis
    proof (cases "r = 1")
      case True
      with r(2) obtain t n ws ms' where "ms = (t, n, ws) # ms'" "took s s2 t n" by (auto simp: recv_case_def)
      with logout_admin [of s s2 t n ws ms'] Suc.prems(4) have
        "fix_session_admin c lo s2 (rx_message s2) k2 = Some (False, s2, k2)" "fix_message_type_is (rx_message s2) FIX_MSG_TYPE_LOGOUT"
        by simp_all
      moreover have "\<not> (1 :: i32) \<le>s 0" by (simp add: word_sle_eq)
      ultimately show ?thesis using loop True act2 out2 by (simp del: logout_loop.simps)
    next
      case ne: False
      then have rv: "unread s2 @ pipe k2 = stream_of ms" "in_msg_seq_num s2 = in_msg_seq_num s" "r \<le>s 0"
        using r(2) by (auto simp: recv_case_def)
      have k2: "ns k1 \<le> ns k2" "ns k2 \<le> ns k1 + one_call"
        using recv_kernel [OF r(1)] st unfolding steady_def by auto
      have "\<exists>s' k'. logout_loop c (fix_session_admin c lo) (of_nat (n0 div nsec)) fuel s2 k2 = Some (0, s', k')
          \<and> \<not> s_active s' \<and> out_msg_seq_num s' = out_msg_seq_num s2"
      proof (rule Suc.IH [OF ok2])
        show "d_tag_type (s_dialect s2) = Some tag_type" using Suc.prems(2) d2 by simp
        show "unread s2 @ pipe k2 = stream_of ms" by (rule rv(1))
        show "last_words s2 ms" using Suc.prems(4) rv(2) by (simp add: last_words_def)
        show "\<not> s_active s2" by (rule act2)
        show "n0 \<le> ns k2" "ns k2 \<le> n0 + 4 * nsec + 2 * one_call" using k1(2,3) k2 Suc.prems(6) early by linarith+
        show "4 * nsec + 1 \<le> fuel + min (4 * nsec) (ns k2 - n0)" using Suc.prems(6,8) k1(2) k2(1) early by linarith
      qed
      with loop rv(3) out2 show ?thesis by (simp del: logout_loop.simps)
    qed
  qed
qed simp

text \<open>C24: A logout ends.  Against a peer that stays silent, whatever pieces or errors the socket answers, or that answers with
  its own logout, \<open>fix_session_logout\<close> sends one Logout, and returns 0 with the session inactive; the rounds of the
  polling loop in the grace period are bounded by the number of nanoseconds in it.\<close>

theorem logout_ends:
  assumes "stream_socket c pipe" "strtod_local (c_strtod c)" "steady c pipe ns"
    and "session_ok s" "d_tag_type (s_dialect s) = Some tag_type" "tx_ok s" "can_send tag_type c s (logout_msg text)"
    and "unread s @ pipe k = stream_of ms" "wires tag_type ms" "last_words s ms" "4 * nsec + 2 \<le> fuel"
  shows "\<exists>s' k'. fix_session_logout c fuel s text k = Some (0, s', k') \<and> \<not> s_active s'
    \<and> out_msg_seq_num s' = out_msg_seq_num s + 1"
proof -
  obtain fuel' where f: "fuel = Suc fuel'" using assms(11) by (cases fuel) auto
  from session_send_ok [OF assms(6,7), of k] obtain r s1 m v0 v1 where
    s: "fix_session_send c s (logout_msg text) 0 k = Some (r, s1, m, snd (k_sendmsg c k [v0, v1]))"
      "out_msg_seq_num s1 = out_msg_seq_num s + 1" "in_msg_seq_num s1 = in_msg_seq_num s" "rx_buffer s1 = rx_buffer s"
    by blast
  define k1 where "k1 = snd (k_sendmsg c k [v0, v1])"
  from assms(3) obtain k2 where k2: "k_clock c k1 = (of_nat (ns k1 div nsec), k2)" "ns k1 < ns k2" "ns k2 \<le> ns k1 + one_call" "pipe k2 = pipe k1"
    unfolding steady_def by blast
  have p: "pipe k2 = pipe k" using assms(3) k2(4) unfolding steady_def k1_def by simp
  have fr: "s_dialect s1 = s_dialect s" "rx_message s1 = rx_message s"
    using s(1) by (auto simp: fix_session_send_def run_simps split: if_splits)
  let ?s2 = "s1\<lparr>s_active := False\<rparr>"
  have "\<exists>s' k'. logout_loop c (fix_session_admin c (fix_session_logout c fuel')) (of_nat (ns k1 div nsec)) fuel ?s2 k2 = Some (0, s', k')
      \<and> \<not> s_active s' \<and> out_msg_seq_num s' = out_msg_seq_num ?s2"
  proof (rule logout_loop_ends [OF assms(1-3) _ _ assms(9)])
    show "session_ok ?s2" "d_tag_type (s_dialect ?s2) = Some tag_type" "unread ?s2 @ pipe k2 = stream_of ms" "last_words ?s2 ms" "\<not> s_active ?s2"
      using assms(4,5,8,10) s fr p by (simp_all add: session_ok_def last_words_def)
    show "ns k1 \<le> ns k2" "ns k2 \<le> ns k1 + 4 * nsec + 2 * one_call" "4 * nsec + 1 \<le> fuel + min (4 * nsec) (ns k2 - ns k1)"
      using k2(2,3) assms(11) by simp_all
  qed
  then show ?thesis using s(1,2) k2(1) by (simp add: f send_message_def k1_def [symmetric] del: logout_loop.simps)
qed

subsection \<open>Sending what is in the buffers\<close>

text \<open>\<open>fix_session_send\<close> resets the two buffers before \<open>fix_message_send\<close> sees that they are to be preserved: with
  \<open>FIX_SEND_FLAG_PRESERVE_BUFFER\<close> the kernel gets two empty pieces, and the message number is left alone although the
  flag for that is not set.\<close>

lemma preserve_buffer_sends_nothing:
  "\<exists>r s' msg'. fix_session_send c s msg FIX_SEND_FLAG_PRESERVE_BUFFER k = Some (r, s', msg', snd (k_sendmsg c k [[], []]))
    \<and> out_msg_seq_num s' = out_msg_seq_num s \<and> msg_seq_num msg' = msg_seq_num msg"
  by (simp add: fix_session_send_def fix_message_send_def FIX_SEND_FLAG_PRESERVE_BUFFER_def
      FIX_SEND_FLAG_PRESERVE_MSG_NUM_def buffer_to_iovec_def buffer_reset_def mem_load_def Let_def)

subsection \<open>The properties at concrete sessions\<close>

lemma value_text_Str: "value_text d rx (FIX_STRING_FIELD tag (Str m)) = map_option (\<lambda>n. take n m) (c_strlen m)"
  by (cases "c_strlen m") (simp_all add: value_text_def FIX_STRING_FIELD_def)

text \<open>What sessions with the names of \<open>sample_sender\<close> can send: a type and a few fields.\<close>

lemma sample_can_send:
  assumes s: "same_names sample_sender s" "out_msg_seq_num s = 7"
    and msg: "fm_type msg \<noteq> FIX_MSG_TYPE_UNKNOWN" "unat (fm_nr_fields msg) \<le> 44" "unat (fm_nr_fields msg) \<le> length (fm_fields msg)"
      "take (unat (fm_nr_fields msg)) (fm_fields msg) = fs"
    and fs: "\<forall>f\<in>set fs. sendable fix_tag_type (c_dtoa2 c) (data (rx_buffer s)) f \<and> ff_tag f \<noteq> MsgSeqNum"
      "length (concat (map kv_text (map (kv_of (c_dtoa2 c) (data (rx_buffer s))) fs))) \<le> 500"
  shows "can_send fix_tag_type c s msg"
proof -
  let ?rx = "data (rx_buffer s)" and ?d = "c_dtoa2 c"
  let ?hs = "[FIX_STRING_FIELD SenderCompID (Str (chars ''A'' @ [0])), FIX_STRING_FIELD TargetCompID (Str (chars ''B'' @ [0])),
    FIX_INT_FIELD MsgSeqNum 7, FIX_STRING_FIELD SendingTime (Str sample_now)]"
  have n: "s_begin_string s = Str (chars ''FIX.4.4'' @ [0])" "s_sender_comp_id s = chars ''A'' @ [0]"
    "s_target_comp_id s = chars ''B'' @ [0]" "s_str_now s = chars ''20250101-10:00:00'' @ [0]"
    using s(1) by (simp_all add: same_names_def sample_sender_def)
  have now: "copy_str_now ?rx (Str (chars ''20250101-10:00:00'' @ [0])) = Some sample_now" by (simp add: copy_str_now_def) code_simp
  have bg: "c_text ?rx (Str (chars ''FIX.4.4'' @ [0])) = Some (chars ''FIX.4.4'')" "1 \<notin> set (chars ''FIX.4.4'')"
    "length (chars ''FIX.4.4'') \<le> 64"
    by (simp_all add: c_text_def chars_def)
  have sent: "sent_fields (prepared s msg) sample_now = ?hs @ fs"
    by (simp add: sent_fields_def prepared_def n s(2) msg(4))
  have texts: "value_text ?d ?rx (FIX_STRING_FIELD SenderCompID (Str (chars ''A'' @ [0]))) = Some (chars ''A'')"
    "value_text ?d ?rx (FIX_STRING_FIELD TargetCompID (Str (chars ''B'' @ [0]))) = Some (chars ''B'')"
    "value_text ?d ?rx (FIX_INT_FIELD MsgSeqNum 7) = Some (chars ''7'')"
    "value_text ?d ?rx (FIX_STRING_FIELD SendingTime (Str sample_now)) = Some (chars ''20250101-10:00:00'')"
    unfolding value_text_Str by code_simp+
  have hs: "\<forall>f\<in>set ?hs. sendable fix_tag_type ?d ?rx f"
    by (simp add: sendable_def texts)
       (simp add: chars_def fix_tag_type_def FIX_STRING_FIELD_def FIX_INT_FIELD_def SenderCompID_def TargetCompID_def
         SendingTime_def MsgSeqNum_def)
  have tags: "ff_tag (FIX_STRING_FIELD t p) = t" "ff_tag (FIX_INT_FIELD t v) = t" for t p v
    by (simp_all add: FIX_STRING_FIELD_def FIX_INT_FIELD_def)
  have "length (concat (map kv_text (map (kv_of ?d ?rx) ?hs))) \<le> 100"
    by (simp add: kv_of_def texts tags) code_simp
  moreover obtain ty where ty: "fix_msg_types (fm_type msg) = Some ty" "length ty \<le> 2"
    using msg(1) by (cases "fm_type msg") (simp_all add: chars_def)
  moreover have "length (dec_digits (unat MsgType)) = 2" by code_simp
  then have "length (kv_text (MsgType, ty)) \<le> 10" using ty(2) by (simp add: kv_text_def)
  ultimately have len: "length (body_text ?d ?rx (prepared s msg) sample_now) \<le> 610"
    using fs(2) by (simp add: body_text_def body_kvs_def sent) (simp add: prepared_def)
  have "printable fix_tag_type ?d ?rx (prepared s msg) sample_now (chars ''FIX.4.4'')"
    unfolding printable_def sent
    using now bg hs fs(1) msg len
    by (simp add: prepared_def n s(2) fix_tag_type_def CheckSum_def)
  with bg(3) len show ?thesis unfolding can_send_def by (intro exI [of _ sample_now] exI [of _ "chars ''FIX.4.4''"]) simp
qed


text \<open>A session that has received \<open>n\<close> messages and has \<open>m\<close> in its receive buffer.\<close>

definition sample_session :: "ulong \<Rightarrow> mem \<Rightarrow> fix_session" where
  "sample_session n m = sample_sender\<lparr>s_dialect := fix_dialects FIX_4_4, in_msg_seq_num := n, s_heartbtint := 30,
     s_now := \<lparr>tv_sec = 100, tv_nsec = 0\<rparr>, rx_timestamp := \<lparr>tv_sec = 60, tv_nsec = 0\<rparr>,
     rx_buffer := \<lparr>b_start = 0, b_end = of_nat (length m), capacity = 4096, data = m @ replicate (4096 - length m) 0\<rparr>\<rparr>"

lemma sample_session:
  "tx_ok (sample_session n m)" "same_names sample_sender (sample_session n m)" "out_msg_seq_num (sample_session n m) = 7"
  "d_tag_type (s_dialect (sample_session n m)) = Some fix_tag_type" "in_msg_seq_num (sample_session n m) = n"
  using sample_sends(1)
  by (simp_all add: sample_session_def tx_ok_def same_names_def fix_dialects_def sample_sender_def)

lemma sample_session_ok:
  assumes "length m \<le> 4096"
  shows "session_ok (sample_session n m)" "unread (sample_session n m) = m"
proof -
  have l: "unat (of_nat (length m) :: ulong) = length m" by (rule unat_of_nat_64) (use assms in simp)
  show "session_ok (sample_session n m)" "unread (sample_session n m) = m"
    using assms
    by (simp_all add: sample_session_def session_ok_def buffer_wf_def l RECV_BUFFER_SIZE_def buf_bytes_def seg_def
        sample_sender_def session_zero_def fix_message_new_def)
qed

text \<open>A new order with number 7.\<close>

definition order_kvs :: "(i32 \<times> u8 list) list" where
  "order_kvs = [(MsgSeqNum, chars ''7'')]"

definition order_wire :: "u8 list" where
  "order_wire = wire_text (chars ''FIX.4.4'') (kv_text (MsgType, chars ''D'') @ concat (map kv_text order_kvs))"

lemma order_wire: "wire_of fix_tag_type FIX_MSG_TYPE_NEW_ORDER_SINGLE 7 order_wire" "length order_wire \<le> 4096"
proof -
  have l: "length (kv_text (MsgType, chars ''D'') @ concat (map kv_text order_kvs)) \<le> 1280"
    "1 \<notin> set (chars ''FIX.4.4'')" "length (chars ''FIX.4.4'') \<le> 64" by code_simp+
  have seq: "seq_after fix_tag_type k order_kvs = 7" for k
    by (simp add: order_kvs_def fix_tag_type_def MsgSeqNum_def chars_def is_digit_def dec_val_def)
  have kv: "\<forall>t v. (t, v) \<in> set order_kvs \<longrightarrow> 1 \<notin> set v \<and> fix_tag_type t \<noteq> FIX_TYPE_CHECKSUM" "length order_kvs \<le> 48"
    by (simp_all add: order_kvs_def fix_tag_type_def MsgSeqNum_def chars_def)
  have tc: "fix_tag_type CheckSum = FIX_TYPE_CHECKSUM" by (simp add: fix_tag_type_def CheckSum_def)
  show w: "wire_of fix_tag_type FIX_MSG_TYPE_NEW_ORDER_SINGLE 7 order_wire"
    unfolding wire_of_def order_wire_def using l seq kv tc
    by (intro exI [of _ "chars ''FIX.4.4''"] exI [of _ "kv_text (MsgType, chars ''D'') @ concat (map kv_text order_kvs)"]
        exI [of _ "chars ''D''"] exI [of _ order_kvs]) simp
  show "length order_wire \<le> 4096" using wire_of_length(2) [OF w] by simp
qed

lemma session_parse_frame:
  assumes "session_parse c s flags = Some (True, s')"
  shows "same_names s s' \<and> tx_head_buffer s' = tx_head_buffer s \<and> tx_body_buffer s' = tx_body_buffer s"
proof -
  from assms obtain msg b where
    "s' = s\<lparr>rx_message := msg, rx_buffer := b, rx_timestamp := s_now s\<rparr>
     \<or> s' = s\<lparr>rx_message := msg, rx_buffer := b, rx_timestamp := s_now s, in_msg_seq_num := in_msg_seq_num s + 1\<rparr>"
    unfolding session_parse_def by (fastforce simp: bind_eq_Some_conv Let_def split: if_splits)
  then show ?thesis by (elim disjE) (simp_all add: same_names_def)
qed

lemma order_recv:
  "\<exists>s1. fix_session_recv c (sample_session n order_wire) 0 k = Some (1, s1, k) \<and> in_msg_seq_num s1 = n + 1
    \<and> fm_type (rx_message s1) = FIX_MSG_TYPE_NEW_ORDER_SINGLE \<and> msg_seq_num (rx_message s1) = 7 \<and> out_msg_seq_num s1 = 7
    \<and> tx_ok s1 \<and> same_names sample_sender s1 \<and> d_version (s_dialect s1) = FIX_4_4"
  if "strtod_local (c_strtod c)"
proof -
  let ?s = "(sample_session n order_wire)\<lparr>failure_reason := FIX_SUCCESS\<rparr>"
  have ok: "session_ok ?s" "d_tag_type (s_dialect ?s) = Some fix_tag_type" "unread ?s = order_wire @ []"
    using sample_session_ok [OF order_wire(2), of n] sample_session(4) by (simp_all add: session_ok_def)
  from session_parse_whole [OF ok(1,2) order_wire(1) ok(3) that, of 0] obtain s1 where
    s1: "session_parse c ?s 0 = Some (True, s1)" "took ?s s1 FIX_MSG_TYPE_NEW_ORDER_SINGLE 7" "frame ?s s1" by auto
  have v: "d_version (s_dialect (sample_session n order_wire)) = FIX_4_4" by (simp add: sample_session_def fix_dialects_def)
  from session_parse_frame [OF s1(1)] sample_session [of n order_wire] v s1 show ?thesis
    by (intro exI [of _ s1]) (auto simp: fix_session_recv_def took_def frame_def same_names_def tx_ok_def)
qed

lemma pipe_sys_order:
  "\<exists>s1. fix_session_recv pipe_sys (sample_session n order_wire) 0 k = Some (1, s1, k) \<and> in_msg_seq_num s1 = n + 1
    \<and> fm_type (rx_message s1) = FIX_MSG_TYPE_NEW_ORDER_SINGLE \<and> msg_seq_num (rx_message s1) = 7 \<and> out_msg_seq_num s1 = 7
    \<and> tx_ok s1 \<and> same_names sample_sender s1 \<and> d_version (s_dialect s1) = FIX_4_4"
  by (rule order_recv) (rule pipe_sys_socket(3))

text \<open>The expected message is handed out.\<close>

theorem sequence_moves_forward_witness:
  "\<exists>s1. fix_session_recv pipe_sys (sample_session 6 order_wire) 0 [] = Some (1, s1, [])
    \<and> fix_session_admin pipe_sys (fix_session_logout pipe_sys 1) s1 (rx_message s1) [] = Some (False, s1, [])
    \<and> 6 \<le> in_msg_seq_num s1"
proof -
  obtain s1 where s1: "fix_session_recv pipe_sys (sample_session 6 order_wire) 0 [] = Some (1, s1, [])" "in_msg_seq_num s1 = 6 + 1"
    "fm_type (rx_message s1) = FIX_MSG_TYPE_NEW_ORDER_SINGLE" "msg_seq_num (rx_message s1) = 7"
    using pipe_sys_order [of 6 "[]"] by blast
  have a: "fix_session_admin pipe_sys (fix_session_logout pipe_sys 1) s1 (rx_message s1) [] = Some (False, s1, [])"
    using s1 by (simp add: fix_session_admin_def fix_msg_expected_def)
  have nl: "no_logout s1 (rx_message s1)" using s1 by (simp add: no_logout_def)
  have "in_msg_seq_num (sample_session 6 order_wire) \<le> in_msg_seq_num s1"
    using sequence_moves_forward [OF s1(1) _ a nl] by (simp add: sample_session(5))
  with s1(1) a show ?thesis unfolding sample_session(5) by blast
qed




text \<open>A test request with identifier \<open>abc\<close>, which is at offset 4 of the receive buffer.\<close>

definition sample_request :: fix_message where
  "sample_request = new_message FIX_MSG_TYPE_TEST_REQUEST 1 [FIX_STRING_FIELD TestReqID (Rx 4)]\<lparr>msg_seq_num := 5\<rparr>"

lemma string_field_sendable:
  assumes "fix_tag_type t = FIX_TYPE_STRING" "0 \<notin> set s" "1 \<notin> set s"
  shows "sendable fix_tag_type d rx (FIX_STRING_FIELD t (Str (s @ 0 # m))) \<and> ff_tag (FIX_STRING_FIELD t (Str (s @ 0 # m))) \<noteq> MsgSeqNum"
proof -
  have "t \<noteq> MsgSeqNum" using assms(1) by (auto simp: fix_tag_type_def MsgSeqNum_def)
  moreover have "value_text d rx (FIX_STRING_FIELD t (Str (s @ 0 # m))) = Some s" using assms(2) by (simp add: value_text_Str)
  ultimately show ?thesis using assms by (simp add: sendable_def FIX_STRING_FIELD_def)
qed

lemma TestReqID_string: "fix_tag_type TestReqID = FIX_TYPE_STRING"
  by (simp add: fix_tag_type_def TestReqID_def)

lemma sample_can_send_ident:
  assumes "fm_type msg \<noteq> FIX_MSG_TYPE_UNKNOWN" "fm_nr_fields msg = 1" "fm_fields msg = [FIX_STRING_FIELD TestReqID (Str (t @ 0 # m'))]"
    and "0 \<notin> set t" "1 \<notin> set t" "length t \<le> 64"
  shows "can_send fix_tag_type c (sample_session n m) msg"
proof -
  let ?f = "FIX_STRING_FIELD TestReqID (Str (t @ 0 # m'))"
  have l: "length (dec_digits (unat TestReqID)) = 3" by code_simp
  have "length (concat (map kv_text (map (kv_of (c_dtoa2 c) (data (rx_buffer (sample_session n m)))) [?f]))) \<le> 500"
    using assms(6) by (simp add: kv_of_string [OF assms(4)] kv_text_def l)
  with string_field_sendable [OF TestReqID_string assms(4,5)] show ?thesis
    by (intro sample_can_send [OF sample_session(2,3), where fs = "[?f]"]) (simp_all add: assms(1-3))
qed

theorem test_request_answered_witness:
  "\<exists>s' vs. fix_session_admin pipe_sys (fix_session_logout pipe_sys 1) (sample_session 5 (soh ''112=abc|'')) sample_request []
      = Some (True, s', concat vs)
    \<and> goes_out fix_tag_type FIX_MSG_TYPE_HEARTBEAT 7 [(TestReqID, chars ''abc'')] vs"
proof -
  let ?s = "sample_session 5 (soh ''112=abc|'')" and ?t = "chars ''abc''"
  have f: "field_with sample_request TestReqID = Some (Some (FIX_STRING_FIELD TestReqID (Rx 4)))" by code_simp
  have fv: "ff_value (FIX_STRING_FIELD TestReqID (Rx 4)) = StringVal (Rx 4)" by (simp add: FIX_STRING_FIELD_def)
  have d: "deref (data (rx_buffer ?s)) (Rx 4) = Some (?t @ 1 # replicate 4088 0)"
    by (simp add: sample_session_def mem_from_def soh_def chars_def)
  have i: "ident_text ?t" "0 \<notin> set ?t" "1 \<notin> set ?t" by (simp_all add: ident_text_def chars_def)
  have m: "fm_type sample_request = FIX_MSG_TYPE_TEST_REQUEST" "msg_seq_num sample_request = in_msg_seq_num ?s"
    by (simp_all add: sample_request_def new_message_def sample_session(5))
  have cs: "can_send fix_tag_type pipe_sys ?s (heartbeat_msg (Some (Str (?t @ [0]))))"
    by (rule sample_can_send_ident [where t = ?t and m' = "[]"])
       (use i in \<open>simp_all add: heartbeat_msg_def new_message_def chars_def\<close>)
  have k: "snd (k_sendmsg pipe_sys [] vs) = concat vs" for vs by (simp add: pipe_sys_def)
  from test_request_answered [OF m f fv d i(1) sample_session(1) cs, of "fix_session_logout pipe_sys 1" "[]"] show ?thesis
    unfolding k sample_session(3) by blast
qed

theorem silent_peer_detected_witness:
  "\<exists>s1 vs. fix_session_keepalive pipe_sys (sample_session 5 []) \<lparr>tv_sec = 100, tv_nsec = 0\<rparr> [] = Some (True, s1, concat vs)
    \<and> goes_out fix_tag_type FIX_MSG_TYPE_TEST_REQUEST 7 [(TestReqID, chars ''20250101-10:00:00'')] vs
    \<and> fix_session_keepalive pipe_sys s1 \<lparr>tv_sec = 116, tv_nsec = 0\<rparr> [] = Some (False, s1, [])"
proof -
  let ?s = "sample_session 5 []" and ?t = "chars ''20250101-10:00:00''" and ?now = "\<lparr>tv_sec = 100, tv_nsec = 0\<rparr>"
  have t: "s_str_now ?s = ?t @ 0 # []" "0 \<notin> set ?t" "1 \<notin> set ?t" "length ?t < 64"
    by (simp_all add: sample_session_def sample_sender_def chars_def)
  have tm: "tr_pending ?s = 0" "6 * sint (s_heartbtint ?s) < 5 * secs ?now (rx_timestamp ?s)"
    "secs ?now (s_now ?s) \<le> sint (s_heartbtint ?s)" "s_heartbtint ?s = 30" "tv_sec (s_now ?s) = 100"
    by (simp_all add: sample_session_def sample_sender_def session_zero_def)
  have cs: "can_send fix_tag_type pipe_sys ?s (test_request_msg ?s)"
    by (rule sample_can_send_ident [where t = ?t and m' = "[]"])
       (use t in \<open>simp_all add: test_request_msg_def new_message_def\<close>)
  have k: "snd (k_sendmsg pipe_sys [] vs) = concat vs" for vs by (simp add: pipe_sys_def)
  from silent_peer_detected [OF sample_session(1) cs t(1,2,4) tm(1-3), of "[]"] obtain s1 vs where
    s1: "fix_session_keepalive pipe_sys ?s ?now [] = Some (True, s1, concat vs)"
      "goes_out fix_tag_type FIX_MSG_TYPE_TEST_REQUEST 7 [(TestReqID, ?t)] vs"
      "s_heartbtint s1 = s_heartbtint ?s"
      "\<And>s2 now2 k2. tr_pending s2 = tr_pending s1 \<Longrightarrow> tr_timestamp s2 = tr_timestamp s1 \<Longrightarrow> s_heartbtint s2 = s_heartbtint ?s \<Longrightarrow>
         sint (s_heartbtint ?s) < 2 * secs now2 (s_now ?s) \<Longrightarrow> fix_session_keepalive pipe_sys s2 now2 k2 = Some (False, s2, k2)"
    unfolding k sample_session(3) by blast
  have "fix_session_keepalive pipe_sys s1 \<lparr>tv_sec = 116, tv_nsec = 0\<rparr> [] = Some (False, s1, [])"
    by (rule s1(4)) (use s1(3) tm(4,5) in simp_all)
  with s1(1,2) show ?thesis by blast
qed

text \<open>A socket on which nothing arrives, and a clock that takes a nanosecond to read.\<close>

definition quiet_sys :: "nat sys" where
  "quiet_sys = \<lparr>c_strtod = (\<lambda>_. 0), c_dtoa2 = (\<lambda>_. []), k_recv = (\<lambda>k n. (IoErr EAGAIN, k)),
     k_sendmsg = (\<lambda>k vs. (of_nat (length (concat vs)), k)), k_clock = (\<lambda>k. (of_nat (k div nsec), Suc k))\<rparr>"

theorem logout_ends_witness:
  "\<exists>s' k'. fix_session_logout quiet_sys (4 * nsec + 2) (sample_session 5 []) None 0 = Some (0, s', k') \<and> \<not> s_active s'"
proof -
  let ?s = "sample_session 5 []"
  have q: "stream_socket quiet_sys (\<lambda>_. [])" "strtod_local (c_strtod quiet_sys)" "steady quiet_sys (\<lambda>_. []) (\<lambda>k. k)"
    by (simp_all add: stream_socket_def quiet_sys_def strtod_local_def steady_def one_call_def nsec_def)
  have cs: "can_send fix_tag_type quiet_sys ?s (logout_msg None)"
    by (rule sample_can_send [OF sample_session(2,3), where fs = "[]"]) (simp_all add: logout_msg_def new_message_def)
  have u: "unread ?s @ [] = stream_of []" "wires fix_tag_type []" "last_words ?s []"
    using sample_session_ok(2) [of "[]" 5] by (simp_all add: stream_of_def wires_def last_words_def)
  have ok: "session_ok ?s" by (rule sample_session_ok) simp
  from logout_ends [OF q ok sample_session(4,1) cs u le_refl, of 0] show ?thesis
    by (simp del: fix_session_logout.simps) blast
qed

end
