(* ===== verification/Sim_Engine.thy ===== *)
theory Sim_Engine
  imports Prelude
begin

text \<open>
  The matching engine of the market simulator (tools/sim/engine.c, engine.h): an order book with
  a doubly linked list of resting orders per price level.  Orders live in the array \<open>orders\<close> of
  the book, levels in the array \<open>levels\<close>; a pointer to one is its index, \<open>None\<close> is NULL, and an
  access outside an array is a fault.  What \<open>do_trade\<close> prints is returned as a list of trades.
\<close>

subsection \<open>The book\<close>

definition MAX_ORDERS :: nat where "MAX_ORDERS = 10000"
definition MAX_LEVEL :: ulong where "MAX_LEVEL = 100"

record sim_order =
  o_trader :: ulong
  o_level :: ulong
  o_next :: "nat option"
  o_prev :: "nat option"
  o_side :: ulong
  o_size :: ulong

record sim_level =
  l_head :: "nat option"
  l_tail :: "nat option"

record sim_book =
  levels :: "sim_level list"
  orders :: "sim_order list"
  orders_num :: ulong
  best_ask :: ulong
  best_bid :: ulong

record trade =
  t_buyer :: ulong
  t_seller :: ulong
  t_price :: ulong
  t_size :: ulong

definition null_order :: sim_order where
  "null_order = \<lparr>o_trader = 0, o_level = 0, o_next = None, o_prev = None, o_side = 0, o_size = 0\<rparr>"

definition order_book_init :: sim_book where
  "order_book_init = \<lparr>levels = replicate 102 \<lparr>l_head = None, l_tail = None\<rparr>,
     orders = replicate MAX_ORDERS null_order, orders_num = 0, best_ask = MAX_LEVEL + 1, best_bid = 0\<rparr>"

subsection \<open>Stores through pointers\<close>

definition get_order :: "sim_book \<Rightarrow> nat \<Rightarrow> sim_order option" where
  "get_order b i = mem_get (orders b) (int i)"

definition get_level :: "sim_book \<Rightarrow> nat \<Rightarrow> sim_level option" where
  "get_level b l = mem_get (levels b) (int l)"

definition upd_order :: "nat \<Rightarrow> (sim_order \<Rightarrow> sim_order) \<Rightarrow> sim_book \<Rightarrow> sim_book option" where
  "upd_order i f b = do {
     x \<leftarrow> get_order b i;
     xs \<leftarrow> mem_put (orders b) (int i) (f x);
     Some (b\<lparr>orders := xs\<rparr>) }"

definition upd_level :: "nat \<Rightarrow> (sim_level \<Rightarrow> sim_level) \<Rightarrow> sim_book \<Rightarrow> sim_book option" where
  "upd_level l f b = do {
     x \<leftarrow> get_level b l;
     xs \<leftarrow> mem_put (levels b) (int l) (f x);
     Some (b\<lparr>levels := xs\<rparr>) }"

definition order_insert :: "sim_book \<Rightarrow> nat \<Rightarrow> nat \<Rightarrow> sim_book option" where
  "order_insert b l i = do {
     lv \<leftarrow> get_level b l;
     b \<leftarrow> (case l_head lv of
        Some h \<Rightarrow> do {
          t \<leftarrow> l_tail lv;
          b \<leftarrow> upd_order t (o_next_update (\<lambda>_. Some i)) b;
          upd_order i (o_prev_update (\<lambda>_. Some t)) b }
      | None \<Rightarrow> do {
          b \<leftarrow> upd_level l (l_head_update (\<lambda>_. Some i)) b;
          upd_order i (o_prev_update (\<lambda>_. None)) b });
     b \<leftarrow> upd_level l (l_tail_update (\<lambda>_. Some i)) b;
     upd_order i (o_next_update (\<lambda>_. None)) b }"

definition order_remove :: "sim_book \<Rightarrow> nat \<Rightarrow> nat \<Rightarrow> sim_book option" where
  "order_remove b l i = do {
     x \<leftarrow> get_order b i;
     (let prev = o_prev x; next = o_next x in do {
        b \<leftarrow> (case prev of
           None \<Rightarrow> upd_level l (l_head_update (\<lambda>_. next)) b
         | Some p \<Rightarrow> upd_order p (o_next_update (\<lambda>_. next)) b);
        (case next of
           None \<Rightarrow> upd_level l (l_tail_update (\<lambda>_. prev)) b
         | Some n \<Rightarrow> upd_order n (o_prev_update (\<lambda>_. prev)) b) }) }"

subsection \<open>Matching\<close>

text \<open>\<open>do_trade\<close> prints the trade; \<open>buy\<close> says whether the incoming order is the buyer.\<close>

definition do_trade :: "bool \<Rightarrow> sim_order \<Rightarrow> sim_order \<Rightarrow> ulong \<Rightarrow> ulong \<Rightarrow> trade" where
  "do_trade buy x head price n =
     (if buy then \<lparr>t_buyer = o_trader x, t_seller = o_trader head, t_price = price, t_size = n\<rparr>
      else \<lparr>t_buyer = o_trader head, t_seller = o_trader x, t_price = price, t_size = n\<rparr>)"

text \<open>\<open>while (head != NULL)\<close>: the queue of one level.  The result says whether the order \<open>i\<close> is
  used up (\<open>goto done\<close>).  Each round but the last removes an order from the level's list, so the
  number of orders is enough fuel.\<close>

fun match_level :: "bool \<Rightarrow> nat \<Rightarrow> sim_book \<Rightarrow> nat \<Rightarrow> nat \<Rightarrow> ulong \<Rightarrow> nat option
    \<Rightarrow> (bool \<times> sim_book \<times> trade list) option" where
  "match_level buy 0 b i l price head = None"
| "match_level buy (Suc fuel) b i l price None = Some (False, b, [])"
| "match_level buy (Suc fuel) b i l price (Some h) = do {
     y \<leftarrow> get_order b h;
     x \<leftarrow> get_order b i;
     (let small = o_size y < o_size x; n = (if small then o_size y else o_size x) in do {
        b \<leftarrow> (if small then do {
               b \<leftarrow> upd_order i (o_size_update (\<lambda>s. s - n)) b;
               upd_order h (o_size_update (\<lambda>_. 0)) b }
             else do {
               b \<leftarrow> upd_order h (o_size_update (\<lambda>s. s - n)) b;
               upd_order i (o_size_update (\<lambda>_. 0)) b });
        y' \<leftarrow> get_order b h;
        (b, head) \<leftarrow> (if o_size y' = 0 then do {
               b \<leftarrow> order_remove b l h;
               lv \<leftarrow> get_level b l;
               Some (b, l_head lv) }
             else Some (b, Some h));
        x' \<leftarrow> get_order b i;
        (if o_size x' = 0 then Some (True, b, [do_trade buy x y price n])
         else do {
           (don, b, ts) \<leftarrow> match_level buy fuel b i l price head;
           Some (don, b, do_trade buy x y price n # ts) }) }) }"

text \<open>The loop over the levels of the other side.  The variable \<open>level\<close> of the code ends as the last level
  looked at.  There are 102 levels.\<close>

fun match_levels :: "bool \<Rightarrow> nat \<Rightarrow> sim_book \<Rightarrow> nat \<Rightarrow> nat \<Rightarrow> (bool \<times> sim_book \<times> nat \<times> trade list) option" where
  "match_levels buy 0 b i l = None"
| "match_levels buy (Suc fuel) b i l = do {
     x \<leftarrow> get_order b i;
     (let best = (if buy then best_ask b else best_bid b) in
      if (if buy then best \<le> o_level x else o_level x \<le> best) then do {
        lv \<leftarrow> get_level b (unat best);
        (don, b, ts) \<leftarrow> match_level buy (Suc (unat (orders_num b))) b i (unat best) best (l_head lv);
        (if don then Some (True, b, unat best, ts)
         else do {
           (don, b, l, ts') \<leftarrow> match_levels buy fuel
             (if buy then b\<lparr>best_ask := best_ask b + 1\<rparr> else b\<lparr>best_bid := best_bid b - 1\<rparr>) i (unat best);
           Some (don, b, l, ts @ ts') }) }
      else Some (False, b, l, [])) }"

definition match_order :: "sim_book \<Rightarrow> nat \<Rightarrow> (sim_book \<times> trade list) option" where
  "match_order b i = do {
     x \<leftarrow> get_order b i;
     (let buy = (o_side x = 0) in do {
        (don, b, l, ts) \<leftarrow> match_levels buy 102 b i (unat (o_level x));
        (if don then Some (b, ts)
         else
           let b = (if buy
                    then (if o_level x > best_bid b then b\<lparr>best_bid := o_level x\<rparr> else b)
                    else (if o_level x < best_ask b then b\<lparr>best_ask := o_level x\<rparr> else b))
           in do {
             b \<leftarrow> order_insert b l i;
             Some (b, ts) }) }) }"

text \<open>\<open>do_limit\<close> answers whether the order was accepted.\<close>

definition do_limit :: "sim_book \<Rightarrow> sim_order \<Rightarrow> (bool \<times> sim_book \<times> trade list) option" where
  "do_limit b limit =
     (if of_nat MAX_ORDERS \<le> orders_num b then Some (False, b, [])
      else if o_level limit > MAX_LEVEL \<or> o_level limit < 1 then Some (False, b, [])
      else if o_size limit = 0 then Some (False, b, [])
      else let i = unat (orders_num b) in do {
        b \<leftarrow> upd_order i (\<lambda>_. limit) b;
        (b, ts) \<leftarrow> match_order (b\<lparr>orders_num := orders_num b + 1\<rparr>) i;
        Some (True, b, ts) })"

definition do_cancel :: "sim_book \<Rightarrow> ulong \<Rightarrow> (bool \<times> sim_book) option" where
  "do_cancel b oid =
     (if orders_num b = 0 \<or> orders_num b \<le> oid then Some (False, b)
      else do {
        x \<leftarrow> get_order b (unat oid);
        (if o_size x = 0 then Some (False, b)
         else do {
           b \<leftarrow> order_remove b (unat (o_level x)) (unat oid);
           b \<leftarrow> upd_order (unat oid) (o_size_update (\<lambda>_. 0)) b;
           Some (True, b) }) })"

subsection \<open>Linked lists\<close>

text \<open>\<open>chain os p q n\<close>: the orders of \<open>q\<close> are linked in this order, the first one back to \<open>p\<close> and the last
  one on to \<open>n\<close>.\<close>

fun hd_opt :: "nat list \<Rightarrow> nat option \<Rightarrow> nat option" where
  "hd_opt [] n = n"
| "hd_opt (i # q) n = Some i"

definition last_opt :: "nat option \<Rightarrow> nat list \<Rightarrow> nat option" where
  "last_opt p q = (if q = [] then p else Some (last q))"

fun chain :: "sim_order list \<Rightarrow> nat option \<Rightarrow> nat list \<Rightarrow> nat option \<Rightarrow> bool" where
  "chain os p [] n = True"
| "chain os p (i # q) n \<longleftrightarrow> i < length os \<and> o_prev (os ! i) = p \<and> o_next (os ! i) = hd_opt q n \<and> chain os (Some i) q n"

lemma last_opt_simps [simp]: "last_opt p [] = p" "last_opt p (q @ [i]) = Some i"
  "last_opt p (i # q) = last_opt (Some i) q" "last_opt p (q @ [i, j]) = Some j"
  by (auto simp: last_opt_def)

lemma hd_opt_append [simp]: "hd_opt (xs @ ys) n = hd_opt xs (hd_opt ys n)"
  by (cases xs) auto

lemma chain_append [simp]: "chain os p (xs @ ys) n \<longleftrightarrow> chain os p xs (hd_opt ys n) \<and> chain os (last_opt p xs) ys n"
  by (induction xs arbitrary: p) auto

lemma chain_upd: "i \<notin> set q \<Longrightarrow> chain (os[i := x]) p q n = chain os p q n"
  by (induction q arbitrary: p) auto

lemma chain_bound: "chain os p q n \<Longrightarrow> i \<in> set q \<Longrightarrow> i < length os"
  by (induction q arbitrary: p) auto

lemma chain_next:
  assumes "chain os p (q @ [t]) n" "t \<notin> set q"
  shows "chain (os[t := o_next_update (\<lambda>_. n') (os ! t)]) p (q @ [t]) n'"
  using assms by (simp add: chain_upd)

lemma chain_prev:
  assumes "chain os p (i # q) n" "i \<notin> set q"
  shows "chain (os[i := o_prev_update (\<lambda>_. p') (os ! i)]) p' (i # q) n"
  using assms by (simp add: chain_upd)

text \<open>Relinking the neighbours of a place: \<open>relink\<close> sets the \<open>next\<close> of the last order of \<open>xs\<close> and the
  \<open>prev\<close> of the first one of \<open>ys\<close>.\<close>

definition set_next :: "nat option \<Rightarrow> nat option \<Rightarrow> sim_order list \<Rightarrow> sim_order list" where
  "set_next p n os = (case p of None \<Rightarrow> os | Some i \<Rightarrow> os[i := o_next_update (\<lambda>_. n) (os ! i)])"

definition set_prev :: "nat option \<Rightarrow> nat option \<Rightarrow> sim_order list \<Rightarrow> sim_order list" where
  "set_prev n p os = (case n of None \<Rightarrow> os | Some i \<Rightarrow> os[i := o_prev_update (\<lambda>_. p) (os ! i)])"

lemma chain_set_next:
  "chain os p q n \<Longrightarrow> distinct q \<Longrightarrow> p \<noteq> None \<Longrightarrow> chain (set_next (last_opt None q) n' os) p q n'"
  "chain os None q n \<Longrightarrow> distinct q \<Longrightarrow> chain (set_next (last_opt None q) n' os) None q n'"
  by (cases q rule: rev_cases; simp add: set_next_def chain_upd)+

lemma chain_set_prev:
  "chain os p q None \<Longrightarrow> distinct q \<Longrightarrow> chain (set_prev (hd_opt q None) p' os) p' q None"
  by (cases q) (simp_all add: set_prev_def chain_upd)

lemma chain_set_other:
  "(\<And>i. p = Some i \<Longrightarrow> i \<notin> set q) \<Longrightarrow> chain (set_next p n' os) p0 q n0 = chain os p0 q n0"
  "(\<And>i. n = Some i \<Longrightarrow> i \<notin> set q) \<Longrightarrow> chain (set_prev n p' os) p0 q n0 = chain os p0 q n0"
  by (auto simp: set_next_def set_prev_def chain_upd split: option.splits)

lemma last_opt_in: "last_opt None q = Some i \<Longrightarrow> i \<in> set q"
  by (auto simp: last_opt_def split: if_splits)

lemma hd_opt_in: "hd_opt q None = Some i \<Longrightarrow> i \<in> set q"
  by (cases q) auto

lemma chain_unlink:
  assumes "chain os None (xs @ i # ys) None" "distinct (xs @ i # ys)"
  shows "chain (set_prev (hd_opt ys None) (last_opt None xs) (set_next (last_opt None xs) (hd_opt ys None) os))
    None (xs @ ys) None"
proof -
  have c: "chain os None xs (Some i)" "chain os (Some i) ys None" and d: "distinct xs" "distinct ys" "set xs \<inter> set ys = {}"
    using assms by auto
  have x: "chain (set_next (last_opt None xs) (hd_opt ys None) os) None xs (hd_opt ys None)"
    by (rule chain_set_next(2) [OF c(1) d(1)])
  have y: "chain (set_next (last_opt None xs) (hd_opt ys None) os) (Some i) ys None"
    using c(2) d(3) by (subst chain_set_other) (auto dest: last_opt_in)
  have "chain (set_prev (hd_opt ys None) (last_opt None xs) (set_next (last_opt None xs) (hd_opt ys None) os))
      (last_opt None xs) ys None" by (rule chain_set_prev [OF y d(2)])
  moreover have "chain (set_prev (hd_opt ys None) (last_opt None xs) (set_next (last_opt None xs) (hd_opt ys None) os))
      None xs (hd_opt ys None)"
    using x d(3) by (subst chain_set_other) (auto dest: hd_opt_in)
  ultimately show ?thesis by simp
qed

lemma chain_link:
  assumes "chain os None q None" "distinct q" "i \<notin> set q" "i < length os"
  shows "chain (set_next (Some i) None (set_prev (Some i) (last_opt None q) (set_next (last_opt None q) (Some i) os)))
    None (q @ [i]) None"
proof -
  let ?os = "set_next (last_opt None q) (Some i) os"
  have "chain ?os None q (Some i)" by (rule chain_set_next(2) [OF assms(1,2)])
  then have "chain (set_next (Some i) None (set_prev (Some i) (last_opt None q) ?os)) None q (Some i)"
    using assms(3) by (simp add: set_prev_def set_next_def [of "Some i"] chain_upd)
  moreover have "length ?os = length os" by (simp add: set_next_def split: option.splits)
  ultimately show ?thesis using assms(4) by (simp add: set_next_def [of "Some i"] set_prev_def)
qed

subsection \<open>The lists of a book\<close>

text \<open>\<open>lists_ok b Q\<close>: the list of level \<open>l\<close> is \<open>Q l\<close>.\<close>

definition lists_ok :: "sim_book \<Rightarrow> (nat \<Rightarrow> nat list) \<Rightarrow> bool" where
  "lists_ok b Q \<longleftrightarrow> length (levels b) = 102 \<and>
     (\<forall>l<102. l_head (levels b ! l) = hd_opt (Q l) None \<and> l_tail (levels b ! l) = last_opt None (Q l)
        \<and> chain (orders b) None (Q l) None \<and> distinct (Q l))
     \<and> (\<forall>l<102. \<forall>k<102. l \<noteq> k \<longrightarrow> set (Q l) \<inter> set (Q k) = {})"

text \<open>Everything but the links.\<close>

definition order_data :: "sim_order \<Rightarrow> ulong \<times> ulong \<times> ulong \<times> ulong" where
  "order_data x = (o_trader x, o_level x, o_side x, o_size x)"

definition same_data :: "sim_book \<Rightarrow> sim_book \<Rightarrow> bool" where
  "same_data b b' \<longleftrightarrow> map order_data (orders b') = map order_data (orders b) \<and> orders_num b' = orders_num b
     \<and> best_ask b' = best_ask b \<and> best_bid b' = best_bid b"

lemma order_data_links [simp]: "order_data (o_next_update f x) = order_data x" "order_data (o_prev_update f x) = order_data x"
  by (simp_all add: order_data_def)

lemma map_upd_same: "f x = f (xs ! i) \<Longrightarrow> map f (xs[i := x]) = map f xs"
  by (cases "i < length xs") (simp_all add: map_update list_update_beyond, metis list_update_id nth_map)

lemma data_set [simp]: "map order_data (set_next p n os) = map order_data os" "map order_data (set_prev n p os) = map order_data os"
  by (auto simp: set_next_def set_prev_def map_upd_same split: option.splits)

lemma length_set [simp]: "length (set_next p n os) = length os" "length (set_prev n p os) = length os"
  by (auto simp: set_next_def set_prev_def split: option.splits)

lemma get_order_Some: "i < length (orders b) \<Longrightarrow> get_order b i = Some (orders b ! i)"
  by (simp add: get_order_def mem_get_Some)

lemma upd_order_Some: "i < length (orders b) \<Longrightarrow> upd_order i f b = Some (b\<lparr>orders := (orders b)[i := f (orders b ! i)]\<rparr>)"
  by (simp add: upd_order_def get_order_Some mem_put_Some)

lemma get_level_Some: "l < length (levels b) \<Longrightarrow> get_level b l = Some (levels b ! l)"
  by (simp add: get_level_def mem_get_Some)

lemma upd_level_Some: "l < length (levels b) \<Longrightarrow> upd_level l f b = Some (b\<lparr>levels := (levels b)[l := f (levels b ! l)]\<rparr>)"
  by (simp add: upd_level_def get_level_Some mem_put_Some)

lemmas book_access = get_order_Some upd_order_Some get_level_Some upd_level_Some

lemma lists_okD:
  assumes "lists_ok b Q" "l < 102"
  shows "l < length (levels b)" "l_head (levels b ! l) = hd_opt (Q l) None" "l_tail (levels b ! l) = last_opt None (Q l)"
    "chain (orders b) None (Q l) None" "distinct (Q l)"
  using assms by (auto simp: lists_ok_def)

lemma lists_ok_upd:
  assumes ok: "lists_ok b Q" and l: "l < 102"
    and L: "length L = 102" "\<And>k. k \<noteq> l \<Longrightarrow> L ! k = levels b ! k"
    and h: "l_head (L ! l) = hd_opt q None" "l_tail (L ! l) = last_opt None q" and c: "chain os None q None" "distinct q"
    and other: "\<And>k. k < 102 \<Longrightarrow> k \<noteq> l \<Longrightarrow> chain os None (Q k) None \<and> set (Q k) \<inter> set q = {}"
  shows "lists_ok (b\<lparr>orders := os, levels := L\<rparr>) (Q(l := q))"
  using assms unfolding lists_ok_def by auto

lemma order_remove_ok:
  assumes ok: "lists_ok b Q" and l: "l < 102" and q: "Q l = xs @ i # ys"
  shows "\<exists>b'. order_remove b l i = Some b' \<and> lists_ok b' (Q(l := xs @ ys)) \<and> same_data b b'"
proof -
  note d = lists_okD [OF ok l]
  let ?p = "last_opt None xs" and ?n = "hd_opt ys None"
  have i: "i < length (orders b)" "o_prev (orders b ! i) = ?p" "o_next (orders b ! i) = ?n"
    using d(4) by (simp_all add: q)
  have pb: "j < length (orders b)" if "?p = Some j" for j
    using chain_bound [OF d(4), of j] last_opt_in [OF that] by (simp add: q)
  have nb: "j < length (orders b)" if "?n = Some j" for j
    using chain_bound [OF d(4), of j] hd_opt_in [OF that] by (simp add: q)
  let ?os = "set_prev ?n ?p (set_next ?p ?n (orders b))"
  define L1 where "L1 = (if xs = [] then (levels b)[l := l_head_update (\<lambda>_. ?n) (levels b ! l)] else levels b)"
  define L where "L = (if ys = [] then L1[l := l_tail_update (\<lambda>_. ?p) (L1 ! l)] else L1)"
  let ?b = "b\<lparr>orders := ?os, levels := L\<rparr>"
  have "order_remove b l i = Some ?b"
  proof (cases xs rule: rev_cases)
    case Nil
    then show ?thesis
      using i nb d(1) by (cases ys) (simp_all add: order_remove_def book_access set_next_def set_prev_def Let_def L1_def L_def)
  next
    case (snoc xs' p)
    then show ?thesis
      using i pb nb d(1) by (cases ys) (simp_all add: order_remove_def book_access set_next_def set_prev_def Let_def L1_def L_def)
  qed
  moreover have "lists_ok ?b (Q(l := xs @ ys))"
  proof (rule lists_ok_upd [OF ok l])
    show "length L = 102" using ok by (simp add: L_def L1_def lists_ok_def)
    show "L ! k = levels b ! k" if "k \<noteq> l" for k using that by (simp add: L_def L1_def)
    show "l_head (L ! l) = hd_opt (xs @ ys) None" "l_tail (L ! l) = last_opt None (xs @ ys)"
      using d(1,2,3) by (auto simp: L_def L1_def q last_opt_def neq_Nil_conv)
    show "chain ?os None (xs @ ys) None" by (rule chain_unlink [where i = i]) (use d(4,5) in \<open>auto simp: q\<close>)
    show "distinct (xs @ ys)" using d(5) by (simp add: q)
    fix k :: nat assume k: "k < 102" "k \<noteq> l"
    then have dis: "set (Q k) \<inter> set (Q l) = {}" and ck: "chain (orders b) None (Q k) None"
      using ok l by (auto simp: lists_ok_def)
    have "chain ?os None (Q k) None"
      using ck dis by (subst chain_set_other(2), use q in \<open>auto dest!: hd_opt_in\<close>)
         (subst chain_set_other(1), use q in \<open>auto dest!: last_opt_in\<close>)
    then show "chain ?os None (Q k) None \<and> set (Q k) \<inter> set (xs @ ys) = {}" using dis q by auto
  qed
  moreover have "same_data b ?b" by (simp add: same_data_def)
  ultimately show ?thesis by blast
qed

lemma order_insert_ok:
  assumes ok: "lists_ok b Q" and l: "l < 102" and i: "i < length (orders b)" and new: "\<And>k. k < 102 \<Longrightarrow> i \<notin> set (Q k)"
  shows "\<exists>b'. order_insert b l i = Some b' \<and> lists_ok b' (Q(l := Q l @ [i])) \<and> same_data b b'"
proof -
  note d = lists_okD [OF ok l]
  let ?t = "last_opt None (Q l)"
  have tb: "j < length (orders b)" if "?t = Some j" for j
    using chain_bound [OF d(4), of j] last_opt_in [OF that] by simp
  let ?os = "set_next (Some i) None (set_prev (Some i) ?t (set_next ?t (Some i) (orders b)))"
  define L1 where "L1 = (if Q l = [] then (levels b)[l := l_head_update (\<lambda>_. Some i) (levels b ! l)] else levels b)"
  define L where "L = L1[l := l_tail_update (\<lambda>_. Some i) (L1 ! l)]"
  let ?b = "b\<lparr>orders := ?os, levels := L\<rparr>"
  have "order_insert b l i = Some ?b"
  proof (cases "Q l" rule: rev_cases)
    case Nil
    then show ?thesis
      using i d(1,2) by (simp add: order_insert_def book_access set_next_def set_prev_def L1_def L_def)
  next
    case (snoc q t)
    then show ?thesis
      using i tb d(1,2,3) by (cases q) (simp_all add: order_insert_def book_access set_next_def set_prev_def L1_def L_def)
  qed
  moreover have "lists_ok ?b (Q(l := Q l @ [i]))"
  proof (rule lists_ok_upd [OF ok l])
    show "length L = 102" using ok by (simp add: L_def L1_def lists_ok_def)
    show "L ! k = levels b ! k" if "k \<noteq> l" for k using that by (simp add: L_def L1_def)
    show "l_head (L ! l) = hd_opt (Q l @ [i]) None" "l_tail (L ! l) = last_opt None (Q l @ [i])"
      using d(1,2,3) by (auto simp: L_def L1_def neq_Nil_conv)
    show "chain ?os None (Q l @ [i]) None" by (rule chain_link [OF d(4,5) new [OF l] i])
    show "distinct (Q l @ [i])" using d(5) new [OF l] by simp
    fix k :: nat assume k: "k < 102" "k \<noteq> l"
    then have dis: "set (Q k) \<inter> set (Q l) = {}" "i \<notin> set (Q k)" and ck: "chain (orders b) None (Q k) None"
      using ok l new by (auto simp: lists_ok_def)
    have "chain (set_next ?t (Some i) (orders b)) None (Q k) None"
      using ck dis by (subst chain_set_other(1)) (auto dest!: last_opt_in)
    then have "chain ?os None (Q k) None"
      using dis by (simp add: set_next_def [of "Some i"] set_prev_def chain_upd)
    then show "chain ?os None (Q k) None \<and> set (Q k) \<inter> set (Q l @ [i]) = {}" using dis by auto
  qed
  moreover have "same_data b ?b" by (simp add: same_data_def)
  ultimately show ?thesis by blast
qed

end
