(* ===== verification/Simulation.thy ===== *)
theory Simulation
  imports Prelude
begin

text \<open>
  The contract of a component that runs a sequence of commands: every command carries an abstract state
  along, never faults on a state that satisfies the invariant, and answers what the specification answers.
  A component that meets the contract for one command meets it for every sequence.
\<close>

fun run_all :: "('c \<Rightarrow> 's \<Rightarrow> ('s \<times> 'o list) option) \<Rightarrow> 'c list \<Rightarrow> 's \<Rightarrow> ('s \<times> 'o list) option" where
  "run_all step [] s = Some (s, [])"
| "run_all step (c # cs) s = do {
     (s, os) \<leftarrow> step c s;
     (s, os') \<leftarrow> run_all step cs s;
     Some (s, os @ os') }"

fun run_spec :: "('c \<Rightarrow> 'a \<Rightarrow> 'a \<times> 'o list) \<Rightarrow> 'c list \<Rightarrow> 'a \<Rightarrow> 'a \<times> 'o list" where
  "run_spec spec [] a = (a, [])"
| "run_spec spec (c # cs) a =
     (case spec c a of (a, os) \<Rightarrow> (case run_spec spec cs a of (a, os') \<Rightarrow> (a, os @ os')))"

locale simulation =
  fixes step :: "'c \<Rightarrow> 's \<Rightarrow> ('s \<times> 'o list) option"
    and spec :: "'c \<Rightarrow> 'a \<Rightarrow> 'a \<times> 'o list"
    and invar :: "'s \<Rightarrow> bool"
    and abs :: "'s \<Rightarrow> 'a"
  assumes step_refines: "invar s \<Longrightarrow> \<exists>s'. step c s = Some (s', snd (spec c (abs s))) \<and> invar s' \<and> abs s' = fst (spec c (abs s))"
begin

lemma run_refines:
  "invar s \<Longrightarrow> \<exists>s'. run_all step cs s = Some (s', snd (run_spec spec cs (abs s))) \<and> invar s'
     \<and> abs s' = fst (run_spec spec cs (abs s))"
proof (induction cs arbitrary: s)
  case Nil
  then show ?case by simp
next
  case (Cons c cs)
  from step_refines [OF Cons.prems] obtain s1 where
    s1: "step c s = Some (s1, snd (spec c (abs s)))" "invar s1" "abs s1 = fst (spec c (abs s))" by blast
  from Cons.IH [OF s1(2)] s1 show ?case by (auto split: prod.splits)
qed

lemma run_invar: "invar s \<Longrightarrow> run_all step cs s = Some (s', os) \<Longrightarrow> invar s'"
  using run_refines [of s cs] by auto

end

end
