(* ===== verification/Sim_Match.thy ===== *)
theory Sim_Match
  imports Sim_Engine Simulation
begin

text \<open>
  The matching engine implements price-time priority: the well-formed books and the abstract book, the
  loops of \<open>match\<close> as sweeps over the abstract queues, and the refinement of any session of limit
  orders and cancels.
\<close>

subsection \<open>The abstract book\<close>

text \<open>A resting order is its number, its trader, whether it buys, and the size that is left.  \<open>fill n q\<close> trades an order of
  size \<open>n\<close> against the queue \<open>q\<close>, oldest first: the size left over, the queue left, and the trades
  (counterparty and size).  \<open>sweep\<close> does so level by level.\<close>

type_synonym item = "nat \<times> ulong \<times> bool \<times> nat"

fun fill :: "nat \<Rightarrow> item list \<Rightarrow> nat \<times> item list \<times> (ulong \<times> nat) list" where
  "fill n [] = (n, [], [])"
| "fill n ((i, t, d, s) # q) =
     (if s < n then (case fill (n - s) q of (n', q', ts) \<Rightarrow> (n', q', (t, s) # ts))
      else (0, (if s = n then q else (i, t, d, s - n) # q), [(t, n)]))"

fun sweep :: "nat list \<Rightarrow> nat \<Rightarrow> (nat \<Rightarrow> item list) \<Rightarrow> nat \<times> (nat \<Rightarrow> item list) \<times> (nat \<times> ulong \<times> nat) list" where
  "sweep [] n A = (n, A, [])"
| "sweep (l # ls) n A =
     (case fill n (A l) of (n', q', ts) \<Rightarrow>
        if n' = 0 then (0, A(l := q'), map (Pair l) ts)
        else (case sweep ls n' (A(l := q')) of (n'', A'', ts') \<Rightarrow> (n'', A'', map (Pair l) ts @ ts')))"

definition item :: "sim_order list \<Rightarrow> nat \<Rightarrow> item" where
  "item os i = (i, o_trader (os ! i), o_side (os ! i) = 0, unat (o_size (os ! i)))"

definition to_trade :: "bool \<Rightarrow> ulong \<Rightarrow> ulong \<Rightarrow> ulong \<times> nat \<Rightarrow> trade" where
  "to_trade buy t price = (\<lambda>(c, n). if buy
     then \<lparr>t_buyer = t, t_seller = c, t_price = price, t_size = of_nat n\<rparr>
     else \<lparr>t_buyer = c, t_seller = t, t_price = price, t_size = of_nat n\<rparr>)"

text \<open>\<open>book_ok X b Q\<close>: the book is well formed, its lists are \<open>Q\<close>, and exactly the accepted orders
  outside \<open>X\<close> that have a size left are in the list of their level; buy orders rest at or below the best
  bid, sell orders at or above the best ask, and the two do not cross.\<close>

definition resting_ok :: "sim_book \<Rightarrow> nat \<Rightarrow> nat \<Rightarrow> bool" where
  "resting_ok b l i \<longleftrightarrow> i < unat (orders_num b) \<and> unat (o_level (orders b ! i)) = l \<and> o_size (orders b ! i) \<noteq> 0
     \<and> 1 \<le> l \<and> l \<le> 100
     \<and> (if o_side (orders b ! i) = 0 then l \<le> unat (best_bid b) else unat (best_ask b) \<le> l)"

definition book_ok :: "nat set \<Rightarrow> sim_book \<Rightarrow> (nat \<Rightarrow> nat list) \<Rightarrow> bool" where
  "book_ok X b Q \<longleftrightarrow> lists_ok b Q \<and> length (orders b) = MAX_ORDERS \<and> unat (orders_num b) \<le> MAX_ORDERS
     \<and> (\<forall>l<102. \<forall>i\<in>set (Q l). i \<notin> X \<and> resting_ok b l i)
     \<and> (\<forall>i<unat (orders_num b). i \<notin> X \<longrightarrow> o_size (orders b ! i) \<noteq> 0 \<longrightarrow>
          (\<exists>l<102. l = unat (o_level (orders b ! i)) \<and> i \<in> set (Q l)))
     \<and> unat (best_bid b) < unat (best_ask b) \<and> unat (best_ask b) \<le> 101"

lemma chain_size: "chain (os[j := o_size_update f (os ! j)]) p q n = chain os p q n"
proof (cases "j < length os")
  case True
  then show ?thesis by (induction q arbitrary: p) (auto simp: nth_list_update)
qed (simp add: list_update_beyond)

lemma lists_ok_size: "lists_ok b Q \<Longrightarrow> lists_ok (b\<lparr>orders := (orders b)[j := o_size_update f (orders b ! j)]\<rparr>) Q"
  by (simp add: lists_ok_def chain_size)

text \<open>A trade changes the sizes of the incoming order \<open>i\<close> and of the head \<open>h\<close> of a queue, which leaves the
  queue when its size is used up.\<close>

definition traded :: "sim_book \<Rightarrow> sim_book \<Rightarrow> nat \<Rightarrow> ulong \<Rightarrow> nat \<Rightarrow> ulong \<Rightarrow> bool" where
  "traded b b' i si h sh \<longleftrightarrow> length (orders b') = length (orders b)
     \<and> (\<forall>j<length (orders b). order_data (orders b' ! j) = order_data (
          if j = i then o_size_update (\<lambda>_. si) (orders b ! i)
          else if j = h then o_size_update (\<lambda>_. sh) (orders b ! h) else orders b ! j))
     \<and> orders_num b' = orders_num b \<and> best_ask b' = best_ask b \<and> best_bid b' = best_bid b"

lemma traded_book_ok:
  assumes ok: "book_ok {i} b Q" and q: "Q l = h # q" and l: "l < 102" and tr: "traded b b' i si h sh"
    and lists: "lists_ok b' Q'" and Q': "Q' = (if sh = 0 then Q(l := q) else Q)" and i: "i < length (orders b)"
  shows "book_ok {i} b' Q'"
proof -
  have data: "o_level (orders b' ! j) = o_level (orders b ! j)" "o_side (orders b' ! j) = o_side (orders b ! j)"
    "o_size (orders b' ! j) = (if j = i then si else if j = h then sh else o_size (orders b ! j))"
    if "j < length (orders b)" for j
    using tr that by (auto simp: traded_def order_data_def)
  have num: "orders_num b' = orders_num b" "best_ask b' = best_ask b" "best_bid b' = best_bid b"
      "length (orders b') = length (orders b)" using tr by (auto simp: traded_def)
  have lt: "j < length (orders b)" if "j < unat (orders_num b)" for j using ok that by (simp add: book_ok_def)
  have sub: "set (Q' k) \<subseteq> set (Q k)" for k by (auto simp: Q' q)
  have hk: "sh = 0 \<Longrightarrow> k < 102 \<Longrightarrow> h \<notin> set (Q' k)" for k
    using ok l q by (cases "k = l") (auto simp: Q' book_ok_def lists_ok_def)
  have 1: "j \<notin> {i} \<and> resting_ok b' k j" if k: "k < 102" and j: "j \<in> set (Q' k)" for j k
  proof -
    from j sub have j': "j \<in> set (Q k)" by blast
    with ok k have r: "j \<noteq> i" "resting_ok b k j" by (auto simp: book_ok_def)
    then have "j < length (orders b)" using lt by (simp add: resting_ok_def)
    with r hk [OF _ k] j show ?thesis by (auto simp: resting_ok_def data num)
  qed
  have 2: "\<exists>k<102. k = unat (o_level (orders b' ! j)) \<and> j \<in> set (Q' k)"
    if j: "j < unat (orders_num b')" "j \<notin> {i}" "o_size (orders b' ! j) \<noteq> 0" for j
  proof -
    have jl: "j < length (orders b)" using lt j(1) num by simp
    have "o_size (orders b ! j) \<noteq> 0 \<and> (j = h \<longrightarrow> sh \<noteq> 0)"
    proof (cases "j = h")
      case True
      have "h \<in> set (Q l)" using q by simp
      then have "resting_ok b l h" using ok l by (auto simp: book_ok_def)
      with True j(2,3) jl show ?thesis by (auto simp: resting_ok_def data split: if_splits)
    next
      case False
      with j(2,3) jl show ?thesis by (auto simp: data)
    qed
    moreover have "\<exists>k<102. k = unat (o_level (orders b ! j)) \<and> j \<in> set (Q k)"
      using ok j(1,2) calculation num unfolding book_ok_def by auto
    ultimately show ?thesis using jl q by (auto simp: data Q')
  qed
  show ?thesis
    using ok lists 1 2 unfolding book_ok_def num by blast
qed

subsection \<open>Matching refines the sweep\<close>

lemma book_ok_in:
  assumes "book_ok X b Q" "l < 102" "j \<in> set (Q l)"
  shows "j \<notin> X" "resting_ok b l j" "j < length (orders b)"
proof -
  show "j \<notin> X" and r: "resting_ok b l j" using assms unfolding book_ok_def by blast+
  have "unat (orders_num b) \<le> length (orders b)" using assms(1) by (simp add: book_ok_def)
  moreover have "j < unat (orders_num b)" using r by (simp add: resting_ok_def)
  ultimately show "j < length (orders b)" by simp
qed

lemma traded_items:
  assumes ok: "book_ok {i} b Q" and q: "Q l = h # q" and l: "l < 102" and tr: "traded b b' i si h sh"
    and Q': "Q' = (if sh = 0 then Q(l := q) else Q)" and k: "k < 102"
  shows "map (item (orders b')) (Q' k) =
    (if k = l then (if sh = 0 then [] else [(h, o_trader (orders b ! h), o_side (orders b ! h) = 0, unat sh)]) @ map (item (orders b)) q
     else map (item (orders b)) (Q k))"
proof -
  have data: "o_trader (orders b' ! j) = o_trader (orders b ! j)" "o_side (orders b' ! j) = o_side (orders b ! j)"
    "o_size (orders b' ! j) = (if j = i then si else if j = h then sh else o_size (orders b ! j))"
    if "j < length (orders b)" for j
    using tr that by (auto simp: traded_def order_data_def)
  have in_Q: "j \<noteq> i \<and> j < length (orders b)" if "j \<in> set (Q m)" "m < 102" for j m
    using book_ok_in [OF ok that(2,1)] by simp
  have same: "item (orders b') j = item (orders b) j" if "j \<in> set (Q m)" "m < 102" "j \<noteq> h" for j m
    using in_Q [OF that(1,2)] that(3) by (simp add: item_def data)
  have d: "distinct (Q l)" "k \<noteq> l \<Longrightarrow> h \<notin> set (Q k)"
    using ok l k q by (auto simp: book_ok_def lists_ok_def)
  have h: "item (orders b') h = (h, o_trader (orders b ! h), o_side (orders b ! h) = 0, unat sh)"
    using in_Q [of h l] l q by (simp add: item_def data)
  have "map (item (orders b')) q = map (item (orders b)) q"
    using same [OF _ l] d(1) q by (intro map_cong) auto
  moreover have "k \<noteq> l \<Longrightarrow> map (item (orders b')) (Q k) = map (item (orders b)) (Q k)"
    using same [OF _ k] d(2) by (intro map_cong) auto
  ultimately show ?thesis using q h by (auto simp: Q')
qed

lemma book_ok_head:
  assumes "book_ok X b Q" "l < 102" "Q l = h # q"
  shows "h < length (orders b)" "h \<notin> X" "o_size (orders b ! h) \<noteq> 0"
proof -
  from assms(3) have "h \<in> set (Q l)" by simp
  from book_ok_in [OF assms(1,2) this] show "h < length (orders b)" "h \<notin> X" "o_size (orders b ! h) \<noteq> 0"
    by (simp_all add: resting_ok_def)
qed

lemma same_data_length: "same_data b b' \<Longrightarrow> length (orders b') = length (orders b)"
  by (auto simp: same_data_def dest: map_eq_imp_length_eq)

lemma same_data_nth:
  assumes "same_data b b'" "j < length (orders b)"
  shows "order_data (orders b' ! j) = order_data (orders b ! j)"
proof -
  have "map order_data (orders b') ! j = map order_data (orders b) ! j" using assms(1) by (simp add: same_data_def)
  with assms same_data_length [OF assms(1)] show ?thesis by simp
qed

text \<open>The stores of one trade, without and with the removal of the head.\<close>

lemma trade_keep:
  fixes si :: ulong
  assumes ok: "book_ok {i} b Q" and l: "l < 102" and q: "Q l = h # q" and i: "i < length (orders b)" and sh: "sh \<noteq> 0"
  defines "b' \<equiv> b\<lparr>orders := ((orders b)[h := o_size_update (\<lambda>_. sh) (orders b ! h)])
      [i := o_size_update (\<lambda>_. si) (orders b ! i)]\<rparr>"
  shows "traded b b' i si h sh" "book_ok {i} b' Q"
proof -
  note h = book_ok_head [OF ok l q]
  have hi: "h \<noteq> i" using h by simp
  show tr: "traded b b' i si h sh"
    using h i hi by (auto simp: traded_def b'_def nth_list_update order_data_def)
  have "lists_ok b' Q"
    using lists_ok_size [OF lists_ok_size, of b Q i "\<lambda>_. si" h "\<lambda>_. sh"] ok hi
    by (simp add: b'_def book_ok_def list_update_swap)
  with traded_book_ok [OF ok q l tr _ _ i] sh show "book_ok {i} b' Q" by simp
qed

lemma trade_remove:
  fixes si :: ulong
  assumes ok: "book_ok {i} b Q" and l: "l < 102" and q: "Q l = h # q" and i: "i < length (orders b)"
  defines "b1 \<equiv> b\<lparr>orders := ((orders b)[i := o_size_update (\<lambda>_. si) (orders b ! i)])
      [h := o_size_update (\<lambda>_. 0) (orders b ! h)]\<rparr>"
  shows "\<exists>b'. order_remove b1 l h = Some b' \<and> traded b b' i si h 0 \<and> book_ok {i} b' (Q(l := q))"
proof -
  note h = book_ok_head [OF ok l q]
  have hi: "h \<noteq> i" using h by simp
  have "lists_ok b1 Q"
    using lists_ok_size [OF lists_ok_size, of b Q h "\<lambda>_. 0" i "\<lambda>_. si"] ok hi
    by (simp add: b1_def book_ok_def list_update_swap)
  from order_remove_ok [OF this l, of "[]" h q] q obtain b' where
    b': "order_remove b1 l h = Some b'" "lists_ok b' (Q(l := q))" "same_data b1 b'" by auto
  have "order_data (orders b' ! j) = order_data (orders b1 ! j)" if "j < length (orders b)" for j
    using same_data_nth [OF b'(3)] that by (simp add: b1_def)
  then have tr: "traded b b' i si h 0"
    using b'(3) h i hi same_data_length [OF b'(3)]
    by (auto simp: traded_def b1_def nth_list_update order_data_def same_data_def)
  from traded_book_ok [OF ok q l tr b'(2) _ i] b'(1) tr show ?thesis by auto
qed

text \<open>\<open>swept\<close>: what the loops have done so far to the abstract queues \<open>A\<close> of the levels and to the
  incoming order.\<close>

definition items :: "sim_book \<Rightarrow> (nat \<Rightarrow> nat list) \<Rightarrow> nat \<Rightarrow> item list" where
  "items b Q k = (if k < 102 then map (item (orders b)) (Q k) else [])"

definition swept :: "sim_book \<Rightarrow> sim_book \<Rightarrow> (nat \<Rightarrow> nat list) \<Rightarrow> nat \<Rightarrow> nat \<Rightarrow> (nat \<Rightarrow> item list) \<Rightarrow> bool" where
  "swept b b' Q' i n A \<longleftrightarrow> book_ok {i} b' Q' \<and> orders_num b' = orders_num b
     \<and> order_data (orders b' ! i) = order_data (o_size_update (\<lambda>_. of_nat n) (orders b ! i)) \<and> items b' Q' = A"

lemma traded_items_removed:
  assumes "book_ok {i} b Q" "Q l = h # q" "l < 102" "traded b b' i si h 0"
  shows "items b' (Q(l := q)) = (items b Q)(l := map (item (orders b)) q)"
proof (rule ext)
  fix k
  show "items b' (Q(l := q)) k = ((items b Q)(l := map (item (orders b)) q)) k"
    using traded_items [OF assms(1-4), of "Q(l := q)" k] assms(3) by (auto simp: items_def simp del: map_eq_conv)
qed

lemma traded_items_kept:
  assumes "book_ok {i} b Q" "Q l = h # q" "l < 102" "traded b b' i si h sh" "sh \<noteq> 0"
  shows "items b' Q = (items b Q)(l := (h, o_trader (orders b ! h), o_side (orders b ! h) = 0, unat sh) # map (item (orders b)) q)"
proof (rule ext)
  fix k
  show "items b' Q k = ((items b Q)(l := (h, o_trader (orders b ! h), o_side (orders b ! h) = 0, unat sh) # map (item (orders b)) q)) k"
    using traded_items [OF assms(1-4), of Q k] assms(3,5) by (auto simp: items_def simp del: map_eq_conv)
qed

lemma sweptI:
  assumes "book_ok {i} b' Q'" "orders_num b' = orders_num b"
    "order_data (orders b' ! i) = order_data (o_size_update (\<lambda>_. of_nat n) (orders b ! i))" "items b' Q' = A"
  shows "swept b b' Q' i n A"
  using assms by (simp add: swept_def)

lemma unat_of_word: "unat (w :: ulong) - unat v = unat (w - v)" if "v \<le> w"
  using that by (simp add: unat_sub)

lemma size_minus: "o_size_update (\<lambda>s. s - n) x = x\<lparr>o_size := o_size x - n\<rparr>"
  by (cases x) simp

lemma match_level_ok:
  "book_ok {i} b Q \<Longrightarrow> i < unat (orders_num b) \<Longrightarrow> l < 102 \<Longrightarrow> o_size (orders b ! i) \<noteq> 0 \<Longrightarrow>
   length (Q l) < fuel \<Longrightarrow> fill (unat (o_size (orders b ! i))) (items b Q l) = (n', q', ts') \<Longrightarrow>
   \<exists>b' Q'. match_level buy fuel b i l price (hd_opt (Q l) None)
        = Some (n' = 0, b', map (to_trade buy (o_trader (orders b ! i)) price) ts')
     \<and> swept b b' Q' i n' ((items b Q)(l := q')) \<and> best_ask b' = best_ask b \<and> best_bid b' = best_bid b"
proof (induction fuel arbitrary: b Q n' q' ts')
  case 0
  then show ?case by simp
next
  case (Suc fuel)
  note ok = Suc.prems(1) and l = Suc.prems(3) and fl = Suc.prems(6)
  let ?x = "orders b ! i"
  have i: "i < length (orders b)" using ok Suc.prems(2) by (simp add: book_ok_def)
  show ?case
  proof (cases "Q l")
    case Nil
    with fl l have f: "n' = unat (o_size ?x)" "q' = []" "ts' = []" by (simp_all add: items_def)
    have "(items b Q)(l := q') = items b Q" using Nil by (auto simp: f items_def)
    then have "swept b b Q i n' ((items b Q)(l := q'))"
      using ok by (simp add: swept_def f order_data_def)
    with Nil f Suc.prems(4) show ?thesis by (intro exI [of _ b] exI [of _ Q]) (simp add: unat_eq_zero_iff fun_upd_def)
  next
    case (Cons h q)
    note hh = book_ok_head [OF ok l Cons]
    let ?y = "orders b ! h"
    have hi: "h \<noteq> i" using hh(2) by simp
    note trm = trade_remove [OF ok l Cons i]
    have it: "items b Q l = (h, o_trader ?y, o_side ?y = 0, unat (o_size ?y)) # map (item (orders b)) q"
      using l by (simp add: items_def Cons item_def)
    show ?thesis
    proof (cases "o_size ?y < o_size ?x")
      case small: True
      let ?n = "o_size ?x - o_size ?y"
      obtain b2 where b2: "order_remove (b\<lparr>orders := ((orders b)[i := o_size_update (\<lambda>_. ?n) ?x])
          [h := o_size_update (\<lambda>_. 0) ?y]\<rparr>) l h = Some b2" "traded b b2 i ?n h 0" "book_ok {i} b2 (Q(l := q))"
        using trm [of ?n] by blast
      have d2: "order_data (orders b2 ! i) = order_data (o_size_update (\<lambda>_. ?n) ?x)"
        "orders_num b2 = orders_num b" "length (orders b2) = length (orders b)"
        using b2(2) i by (simp_all add: traded_def)
      have n0: "?n \<noteq> 0" using small by auto
      have un: "unat (o_size (orders b2 ! i)) = unat (o_size ?x) - unat (o_size ?y)"
        using d2(1) small by (simp add: order_data_def unat_of_word)
      have itq: "items b2 (Q(l := q)) l = map (item (orders b)) q"
        and ito: "(items b2 (Q(l := q)))(l := q2) = (items b Q)(l := q2)" for q2
        using traded_items_removed [OF ok Cons l b2(2)] by simp_all
      obtain n2 q2 ts2 where f2: "fill (unat (o_size (orders b2 ! i))) (items b2 (Q(l := q)) l) = (n2, q2, ts2)"
        by (metis prod_cases3)
      have ne2: "o_size (orders b2 ! i) \<noteq> 0" using d2(1) n0 by (simp add: order_data_def)
      have le2: "length ((Q(l := q)) l) < fuel" "i < unat (orders_num b2)" using Suc.prems(2,5) Cons d2(2) by simp_all
      obtain b3 Q3 where IH: "match_level buy fuel b2 i l price (hd_opt q None)
            = Some (n2 = 0, b3, map (to_trade buy (o_trader (orders b2 ! i)) price) ts2)"
          "swept b2 b3 Q3 i n2 ((items b2 (Q(l := q)))(l := q2))" "best_ask b3 = best_ask b2" "best_bid b3 = best_bid b2"
        using Suc.IH [OF b2(3) le2(2) l ne2 le2(1) f2] unfolding fun_upd_same by blast
      have fl2: "n' = n2" "q' = q2" "ts' = (o_trader ?y, unat (o_size ?y)) # ts2"
        using fl f2 small unfolding it itq un by (simp_all add: word_less_nat_alt)
      have lv: "get_level b2 l = Some (levels b2 ! l)" "l_head (levels b2 ! l) = hd_opt q None"
        using lists_okD [OF _ l, of b2 "Q(l := q)"] b2(3) by (simp_all add: book_ok_def get_level_Some)
      have sw: "swept b b3 Q3 i n' ((items b Q)(l := q'))"
        using IH(2) d2 ito by (simp add: swept_def fl2 order_data_def)
      have tr2: "o_trader (orders b2 ! i) = o_trader ?x" using d2(1) by (simp add: order_data_def)
      have ev: "match_level buy (Suc fuel) b i l price (Some h)
          = Some (n' = 0, b3, map (to_trade buy (o_trader ?x) price) ts')"
        using IH(1) [unfolded tr2] b2(1) i hh(1) hi d2 lv small n0
        by (simp add: book_access Let_def size_minus fl2 do_trade_def to_trade_def order_data_def unat_eq_zero_iff)
      have "best_ask b3 = best_ask b" "best_bid b3 = best_bid b" using IH(3,4) b2(2) by (simp_all add: traded_def)
      with ev sw show ?thesis unfolding Cons hd_opt.simps by blast
    next
      case big: False
      let ?m = "o_size ?y - o_size ?x"
      have le: "o_size ?x \<le> o_size ?y" using big by simp
      have um: "unat ?m = unat (o_size ?y) - unat (o_size ?x)" using le by (simp add: unat_of_word)
      show ?thesis
      proof (cases "o_size ?y = o_size ?x")
        case eq: True
        have fl2: "n' = 0" "q' = map (item (orders b)) q" "ts' = [(o_trader ?y, unat (o_size ?x))]"
          using fl unfolding it by (simp_all add: eq)
        let ?b1 = "b\<lparr>orders := ((orders b)[i := o_size_update (\<lambda>_. 0) ?x])[h := o_size_update (\<lambda>_. 0) ?y]\<rparr>"
        obtain b2 where b2: "order_remove ?b1 l h = Some b2" "traded b b2 i 0 h 0" "book_ok {i} b2 (Q(l := q))"
          using trm [of 0] by blast
        have d2: "order_data (orders b2 ! i) = order_data (o_size_update (\<lambda>_. 0) ?x)"
          "orders_num b2 = orders_num b" "length (orders b2) = length (orders b)"
          using b2(2) i by (simp_all add: traded_def)
        have sw: "swept b b2 (Q(l := q)) i n' ((items b Q)(l := q'))"
          using b2(3) d2 traded_items_removed [OF ok Cons l b2(2)] by (intro sweptI) (simp_all add: fl2)
        have lv: "get_level b2 l = Some (levels b2 ! l)" "l_head (levels b2 ! l) = hd_opt q None"
          using lists_okD [OF _ l, of b2 "Q(l := q)"] b2(3) by (simp_all add: book_ok_def get_level_Some)
        have rm: "order_remove (b\<lparr>orders := ((orders b)[h := o_size_update (\<lambda>_. 0) ?y])[i := o_size_update (\<lambda>_. 0) ?x]\<rparr>) l h = Some b2"
          using b2(1) hi by (simp add: list_update_swap)
        have ev: "match_level buy (Suc fuel) b i l price (Some h)
            = Some (n' = 0, b2, map (to_trade buy (o_trader ?x) price) ts')"
          using rm i hh(1) hi d2 lv eq
          by (simp add: book_access Let_def size_minus fl2 do_trade_def to_trade_def order_data_def)
        have "best_ask b2 = best_ask b" "best_bid b2 = best_bid b" using b2(2) by (simp_all add: traded_def)
        with ev sw show ?thesis unfolding Cons hd_opt.simps by blast
      next
        case ne: False
        have m0: "?m \<noteq> 0" using ne by simp
        have fl2: "n' = 0" "q' = (h, o_trader ?y, o_side ?y = 0, unat ?m) # map (item (orders b)) q"
            "ts' = [(o_trader ?y, unat (o_size ?x))]"
          using fl big ne unfolding it um by (simp_all add: word_less_nat_alt word_unat_eq_iff split: if_splits)
        define b2 where "b2 = b\<lparr>orders := ((orders b)[h := o_size_update (\<lambda>_. ?m) ?y])[i := o_size_update (\<lambda>_. 0) ?x]\<rparr>"
        have t2: "traded b b2 i 0 h ?m" "book_ok {i} b2 Q"
          using trade_keep [OF ok l Cons i m0, of 0] unfolding b2_def by blast+
        have d2: "order_data (orders b2 ! i) = order_data (o_size_update (\<lambda>_. 0) ?x)"
          "orders_num b2 = orders_num b" using t2(1) i by (simp_all add: traded_def)
        have sw: "swept b b2 Q i n' ((items b Q)(l := q'))"
          using t2 d2 traded_items_kept [OF ok Cons l t2(1) m0] by (intro sweptI) (simp_all add: fl2)
        have ev: "match_level buy (Suc fuel) b i l price (Some h)
            = Some (n' = 0, b2, map (to_trade buy (o_trader ?x) price) ts')"
          using i hh(1) hi big m0
          by (simp add: book_access Let_def size_minus fl2 do_trade_def to_trade_def b2_def)
        have "best_ask b2 = best_ask b" "best_bid b2 = best_bid b" by (simp_all add: b2_def)
        with ev sw show ?thesis unfolding Cons hd_opt.simps by blast
      qed
    qed
  qed
qed

text \<open>The levels an incoming order with limit \<open>L\<close> looks at, best price first.\<close>

definition cross_levels :: "bool \<Rightarrow> sim_book \<Rightarrow> nat \<Rightarrow> nat list" where
  "cross_levels buy b L = (if buy then [unat (best_ask b)..<Suc L] else rev [L..<Suc (unat (best_bid b))])"

definition level_trade :: "bool \<Rightarrow> ulong \<Rightarrow> nat \<times> ulong \<times> nat \<Rightarrow> trade" where
  "level_trade buy t = (\<lambda>(l, x). to_trade buy t (of_nat l) x)"

definition best_level :: "bool \<Rightarrow> sim_book \<Rightarrow> ulong" where
  "best_level buy b = (if buy then best_ask b else best_bid b)"

definition bump :: "bool \<Rightarrow> sim_book \<Rightarrow> sim_book" where
  "bump buy b = (if buy then b\<lparr>best_ask := best_ask b + 1\<rparr> else b\<lparr>best_bid := best_bid b - 1\<rparr>)"

lemma bump_simps [simp]: "orders (bump buy b) = orders b" "levels (bump buy b) = levels b"
  "orders_num (bump buy b) = orders_num b"
  "best_bid (bump True b) = best_bid b" "best_ask (bump False b) = best_ask b"
  "items (bump buy b) Q = items b Q"
  by (simp_all add: bump_def items_def fun_eq_iff)

lemma unat_Suc: "unat (w :: ulong) \<le> 100 \<Longrightarrow> unat (w + 1) = Suc (unat w)"
  by (simp add: unat_word_ariths)

lemma unat_pred: "w \<noteq> 0 \<Longrightarrow> unat (w - 1 :: ulong) = unat w - 1"
  by (simp add: unat_minus_one)

lemma bump_best:
  "unat (best_ask b) \<le> 100 \<Longrightarrow> unat (best_ask (bump True b)) = Suc (unat (best_ask b))"
  "best_bid b \<noteq> 0 \<Longrightarrow> unat (best_bid (bump False b)) = unat (best_bid b) - 1"
  by (simp_all add: bump_def unat_Suc unat_pred)

lemma bump_ok:
  assumes ok: "book_ok X b Q" and e: "Q (unat (best_level buy b)) = []"
    and r: "if buy then unat (best_ask b) \<le> 100 else best_bid b \<noteq> 0"
  shows "book_ok X (bump buy b) Q"
proof -
  have "resting_ok (bump buy b) l i" if l: "l < 102" and i: "i \<in> set (Q l)" for l i
  proof -
    have r': "resting_ok b l i" using ok l i by (auto simp: book_ok_def)
    have "l \<noteq> unat (best_level buy b)" using e i by auto
    with r' r show ?thesis
      by (cases buy) (auto simp: resting_ok_def bump_best best_level_def split: if_splits)
  qed
  moreover have "unat (best_bid (bump buy b)) < unat (best_ask (bump buy b)) \<and> unat (best_ask (bump buy b)) \<le> 101"
    using ok r by (cases buy) (auto simp: book_ok_def bump_best)
  ultimately show ?thesis
    using ok by (simp add: book_ok_def lists_ok_def)
qed

lemma cross_levels_step:
  assumes "book_ok X b Q" "1 \<le> L" "L \<le> 100" "cross_levels buy b L = k # ks"
  shows "k = unat (best_level buy b)" "ks = cross_levels buy (bump buy b) L" "1 \<le> k \<or> buy" "k < 102"
    "if buy then unat (best_ask b) \<le> 100 else best_bid b \<noteq> 0" "ks = [] \<Longrightarrow> k = L"
    "if buy then k \<le> L else L \<le> k"
proof -
  have bd: "unat (best_bid b) \<le> 100" "unat (best_ask b) \<le> 101" using assms(1) by (auto simp: book_ok_def)
  show r: "if buy then unat (best_ask b) \<le> 100 else best_bid b \<noteq> 0"
    using assms(2-4) by (auto simp: cross_levels_def split: if_splits)
  show "k = unat (best_level buy b)" "1 \<le> k \<or> buy" "k < 102" "if buy then k \<le> L else L \<le> k"
    using assms(2-4) bd r
    by (cases buy; auto simp: cross_levels_def best_level_def upt_rec [of "unat (best_ask b)"] split: if_splits)+
  show "ks = cross_levels buy (bump buy b) L"
  proof (cases buy)
    case True
    with assms(4) r show ?thesis
      by (auto simp: cross_levels_def bump_best upt_rec [of "unat (best_ask b)"] split: if_splits)
  next
    case False
    with r have "0 < unat (best_bid b)" using unat_eq_zero_iff [of "best_bid b"] by simp
    with r False have "Suc (unat (best_bid (bump False b))) = unat (best_bid b)" by (simp add: bump_best)
    moreover from False assms(4) have "rev ks = [L..<unat (best_bid b)]"
      by (auto simp: cross_levels_def split: if_splits)
    then have "rev (rev ks) = rev [L..<unat (best_bid b)]" by simp
    ultimately show ?thesis using False by (simp add: cross_levels_def)
  qed
  show "k = L" if "ks = []"
  proof (cases buy)
    case True
    with assms(4) that show ?thesis
      by (auto simp: cross_levels_def upt_rec [of "unat (best_ask b)"] split: if_splits)
  next
    case False
    with assms(4) that show ?thesis by (auto simp: cross_levels_def split: if_splits)
  qed
qed

lemma cross_levels_Nil: "cross_levels buy b L = [] \<longleftrightarrow> (if buy then L < unat (best_ask b) else unat (best_bid b) < L)"
  by (auto simp: cross_levels_def)

lemma fill_left: "fill n q = (n', q', ts) \<Longrightarrow> n' \<noteq> 0 \<Longrightarrow> q' = []"
  by (induction n q arbitrary: n' q' ts rule: fill.induct) (auto split: if_splits prod.splits)

lemma fill_le: "fill n q = (n', q', ts) \<Longrightarrow> n' \<le> n"
  by (induction n q arbitrary: n' q' ts rule: fill.induct) (fastforce split: if_splits prod.splits)+

lemma sweep_le: "sweep ls n A = (n', A', ts) \<Longrightarrow> n' \<le> n"
proof (induction ls n A arbitrary: n' A' ts rule: sweep.induct)
  case (2 l ls n A)
  then show ?case by (fastforce split: if_splits prod.splits dest: fill_le)
qed simp

lemma queue_length:
  assumes ok: "book_ok X b Q" and l: "l < 102"
  shows "length (Q l) \<le> unat (orders_num b)"
proof -
  have "distinct (Q l)" using ok l by (simp add: book_ok_def lists_ok_def)
  moreover have "set (Q l) \<subseteq> {..<unat (orders_num b)}"
    using book_ok_in(2) [OF ok l] by (auto simp: resting_ok_def)
  ultimately show ?thesis using card_mono [of "{..<unat (orders_num b)}" "set (Q l)"] by (simp add: distinct_card)
qed

lemma match_levels_ok:
  "book_ok {i} b Q \<Longrightarrow> i < unat (orders_num b) \<Longrightarrow> o_size (orders b ! i) \<noteq> 0 \<Longrightarrow> L = unat (o_level (orders b ! i)) \<Longrightarrow>
   1 \<le> L \<Longrightarrow> L \<le> 100 \<Longrightarrow> length (cross_levels buy b L) < fuel \<Longrightarrow> (cross_levels buy b L = [] \<Longrightarrow> l = L) \<Longrightarrow>
   sweep (cross_levels buy b L) (unat (o_size (orders b ! i))) (items b Q) = (n', A', ts') \<Longrightarrow>
   \<exists>b' Q' l'. match_levels buy fuel b i l
        = Some (n' = 0, b', l', map (level_trade buy (o_trader (orders b ! i))) ts')
     \<and> swept b b' Q' i n' A'
     \<and> (n' \<noteq> 0 \<longrightarrow> l' = L \<and> (if buy then L < unat (best_ask b') else unat (best_bid b') < L))
     \<and> (if buy then best_bid b' = best_bid b else best_ask b' = best_ask b)"
proof (induction fuel arbitrary: b Q l n' A' ts')
  case 0
  then show ?case by simp
next
  case (Suc fuel)
  note ok = Suc.prems(1) and sz = Suc.prems(3) and L = Suc.prems(4-6) and sw = Suc.prems(9)
  let ?x = "orders b ! i"
  have i: "i < length (orders b)" using ok Suc.prems(2) by (simp add: book_ok_def)
  have go: "(if buy then best_ask b \<le> o_level ?x else o_level ?x \<le> best_bid b) \<longleftrightarrow> cross_levels buy b L \<noteq> []"
    by (auto simp: cross_levels_Nil L(1) word_le_nat_alt)
  show ?case
  proof (cases "cross_levels buy b L")
    case Nil
    with sw have f: "n' = unat (o_size ?x)" "A' = items b Q" "ts' = []" by simp_all
    have "swept b b Q i n' A'" using ok by (intro sweptI) (simp_all add: f)
    with Nil f sz go Suc.prems(8) show ?thesis
      by (intro exI [of _ b] exI [of _ Q] exI [of _ L])
        (auto simp: get_order_Some i unat_eq_zero_iff cross_levels_Nil split: if_splits)
  next
    case (Cons k ks)
    note st = cross_levels_step [OF ok L(2,3) Cons]
    obtain n1 q1 ts1 where f1: "fill (unat (o_size ?x)) (items b Q k) = (n1, q1, ts1)" by (metis prod_cases3)
    have qf: "length (Q k) < Suc (unat (orders_num b))" using queue_length [OF ok st(4)] by simp
    obtain b1 Q1 where m1: "match_level buy (Suc (unat (orders_num b))) b i k (of_nat k) (hd_opt (Q k) None)
          = Some (n1 = 0, b1, map (to_trade buy (o_trader ?x) (of_nat k)) ts1)"
        "swept b b1 Q1 i n1 ((items b Q)(k := q1))" "best_ask b1 = best_ask b" "best_bid b1 = best_bid b"
      using match_level_ok [OF ok Suc.prems(2) st(4) sz qf f1] by blast
    have lv: "get_level b k = Some (levels b ! k)" "l_head (levels b ! k) = hd_opt (Q k) None"
      using lists_okD [OF _ st(4), of b Q] ok by (simp_all add: book_ok_def get_level_Some)
    have kb: "best_level buy b = of_nat k" using st(1) by simp
    have d1: "order_data (orders b1 ! i) = order_data (o_size_update (\<lambda>_. of_nat n1) ?x)" "orders_num b1 = orders_num b"
        "book_ok {i} b1 Q1" "items b1 Q1 = (items b Q)(k := q1)" using m1(2) by (simp_all add: swept_def)
    show ?thesis
    proof (cases "n1 = 0")
      case True
      have f: "n' = 0" "A' = (items b Q)(k := q1)" "ts' = map (Pair k) ts1"
        using sw f1 by (simp_all add: Cons True)
      have sw1: "swept b b1 Q1 i n' A'" using m1(2) by (simp only: f True)
      have "if buy then best_bid b1 = best_bid b else best_ask b1 = best_ask b" using m1(3,4) by simp
      moreover have "match_levels buy (Suc fuel) b i l = Some (n' = 0, b1, k, map (level_trade buy (o_trader ?x)) ts')"
        using m1(1) lv i go Cons kb True st(1)
        by (simp add: get_order_Some Let_def best_level_def f level_trade_def comp_def split: if_splits)
      ultimately show ?thesis using sw1 f(1) by blast
    next
      case False
      let ?b2 = "bump buy b1"
      have n1: "n1 \<le> unat (o_size ?x)" using fill_le [OF f1] .
      then have un: "unat (o_size (orders ?b2 ! i)) = n1"
        using d1(1) le_unat_uoi [OF n1] by (simp add: order_data_def)
      have q1: "q1 = []" by (rule fill_left [OF f1 False])
      have e: "Q1 k = []"
        using fun_cong [OF d1(4), of k] st(4) by (simp add: items_def q1)
      have bb: "best_level buy b1 = best_level buy b" using m1(3,4) by (simp add: best_level_def)
      have ok2: "book_ok {i} ?b2 Q1"
        using st(1,5) e bb m1(3,4) by (intro bump_ok [OF d1(3)]) simp_all
      have cl: "cross_levels buy ?b2 L = ks"
        using st(2) m1(3,4) by (simp add: cross_levels_def bump_def)
      obtain n2 A2 ts2 where f2: "sweep ks (unat (o_size (orders ?b2 ! i))) (items ?b2 Q1) = (n2, A2, ts2)"
        by (metis prod_cases3)
      have f: "n' = n2" "A' = A2" "ts' = map (Pair k) ts1 @ ts2"
        using sw f1 f2 False un by (simp_all add: Cons d1(4))
      have lev: "L = unat (o_level (orders ?b2 ! i))" and trd: "o_trader (orders ?b2 ! i) = o_trader ?x"
        using d1(1) L(1) by (simp_all add: order_data_def)
      have p: "i < unat (orders_num ?b2)" "o_size (orders ?b2 ! i) \<noteq> 0" "length (cross_levels buy ?b2 L) < fuel"
          "cross_levels buy ?b2 L = [] \<Longrightarrow> k = L"
        using d1(2) Suc.prems(2,7) False un Cons st(6) cl by auto
      from Suc.IH [OF ok2 p(1,2) lev L(2,3) p(3,4)] f2 cl obtain b3 Q3 l3 where
        IH: "match_levels buy fuel ?b2 i k = Some (n2 = 0, b3, l3, map (level_trade buy (o_trader ?x)) ts2)"
          "swept ?b2 b3 Q3 i n2 A2"
          "n2 \<noteq> 0 \<longrightarrow> l3 = L \<and> (if buy then L < unat (best_ask b3) else unat (best_bid b3) < L)"
          "if buy then best_bid b3 = best_bid ?b2 else best_ask b3 = best_ask ?b2"
        unfolding trd by blast
      have "match_levels buy (Suc fuel) b i l = Some (n' = 0, b3, l3, map (level_trade buy (o_trader ?x)) ts')"
        using m1(1) lv i go Cons kb False st(1) IH(1) m1(3,4)
        by (simp add: get_order_Some Let_def best_level_def f level_trade_def comp_def bump_def split: if_splits)
      moreover have "swept b b3 Q3 i n' A'"
        using IH(2) d1 by (simp add: swept_def f order_data_def)
      moreover have "if buy then best_bid b3 = best_bid b else best_ask b3 = best_ask b"
        using IH(4) m1(3,4) by (simp split: if_splits)
      ultimately show ?thesis using IH(3) f(1) by blast
    qed
  qed
qed

subsection \<open>Price-time priority\<close>

text \<open>The promise of the engine: an abstract book is the queues of the buy side and of the sell side by level.  A buy
  order trades against the sell side from level 1 up to its limit, a sell order against the buy side from
  level 100 down to its limit, oldest order first on each level, and what is left joins the end of its own
  queue.\<close>

type_synonym abs_book = "(nat \<Rightarrow> item list) \<times> (nat \<Rightarrow> item list)"

definition limit_spec :: "nat \<Rightarrow> bool \<Rightarrow> ulong \<Rightarrow> nat \<Rightarrow> nat \<Rightarrow> abs_book \<Rightarrow> abs_book \<times> (nat \<times> ulong \<times> nat) list" where
  "limit_spec i buy t L n = (\<lambda>(B, A).
     if buy then (case sweep [1..<Suc L] n A of (n', A', ts) \<Rightarrow>
       ((if n' = 0 then B else B(L := B L @ [(i, t, buy, n')]), A'), ts))
     else (case sweep (rev [L..<101]) n B of (n', B', ts) \<Rightarrow>
       ((B', if n' = 0 then A else A(L := A L @ [(i, t, buy, n')])), ts)))"

fun walk :: "sim_order list \<Rightarrow> nat \<Rightarrow> nat option \<Rightarrow> nat list" where
  "walk os 0 p = []"
| "walk os (Suc n) None = []"
| "walk os (Suc n) (Some i) = i # walk os n (o_next (os ! i))"

definition queues :: "sim_book \<Rightarrow> nat \<Rightarrow> item list" where
  "queues b k = (if k < 102 then map (item (orders b)) (walk (orders b) (length (orders b)) (l_head (levels b ! k))) else [])"

definition buys :: "item \<Rightarrow> bool" where
  "buys = (\<lambda>(i, t, d, s). d)"

definition abs_book :: "sim_book \<Rightarrow> abs_book" where
  "abs_book b = (\<lambda>k. filter buys (queues b k), \<lambda>k. filter (\<lambda>x. \<not> buys x) (queues b k))"

lemma walk_chain: "chain os p q None \<Longrightarrow> length q \<le> n \<Longrightarrow> walk os n (hd_opt q None) = q"
proof (induction q arbitrary: p n)
  case Nil
  then show ?case by (cases n) auto
next
  case (Cons i q)
  then show ?case by (cases n) auto
qed

lemma queues_items:
  assumes ok: "book_ok X b Q"
  shows "queues b = items b Q"
proof (rule ext)
  fix k
  show "queues b k = items b Q k"
  proof (cases "k < 102")
    case True
    have "length (Q k) \<le> length (orders b)" using queue_length [OF ok True] ok by (simp add: book_ok_def)
    with walk_chain [of "orders b" None "Q k" "length (orders b)"] lists_okD [OF _ True, of b Q] ok True
    show ?thesis by (simp add: queues_def items_def book_ok_def)
  qed (simp add: queues_def items_def)
qed

lemma fill_all: "fill n q = (n', q', ts) \<Longrightarrow> \<forall>x\<in>set q. buys x = d \<Longrightarrow> \<forall>x\<in>set q'. buys x = d"
  by (induction n q arbitrary: n' q' ts rule: fill.induct) (auto simp: buys_def split: if_splits prod.splits)

lemma sweep_side:
  "sweep ls n A = (n', A', ts) \<Longrightarrow> \<forall>k\<in>set ls. \<forall>x\<in>set (A k). buys x = d \<Longrightarrow>
   sweep ls n (\<lambda>k. filter (\<lambda>x. buys x = d) (A k)) = (n', \<lambda>k. filter (\<lambda>x. buys x = d) (A' k), ts)
   \<and> (\<lambda>k. filter (\<lambda>x. buys x \<noteq> d) (A' k)) = (\<lambda>k. filter (\<lambda>x. buys x \<noteq> d) (A k))"
proof (induction ls n A arbitrary: n' A' ts rule: sweep.induct)
  case (1 n A)
  then show ?case by simp
next
  case (2 l ls n A)
  obtain n1 q1 ts1 where f: "fill n (A l) = (n1, q1, ts1)" by (metis prod_cases3)
  have al: "\<forall>x\<in>set (A l). buys x = d" using "2.prems"(2) by simp
  then have fl: "filter (\<lambda>x. buys x = d) (A l) = A l" by simp
  have q1: "\<forall>x\<in>set q1. buys x = d" by (rule fill_all [OF f al])
  have e: "(\<lambda>k. filter (\<lambda>x. buys x = d) (A k))(l := q1) = (\<lambda>k. filter (\<lambda>x. buys x = d) ((A(l := q1)) k))"
    "(\<lambda>k. filter (\<lambda>x. buys x \<noteq> d) ((A(l := q1)) k)) = (\<lambda>k. filter (\<lambda>x. buys x \<noteq> d) (A k))"
  proof (rule_tac [!] ext)
    fix k
    show "((\<lambda>k. filter (\<lambda>x. buys x = d) (A k))(l := q1)) k = filter (\<lambda>x. buys x = d) ((A(l := q1)) k)"
      using q1 by simp
    show "filter (\<lambda>x. buys x \<noteq> d) ((A(l := q1)) k) = filter (\<lambda>x. buys x \<noteq> d) (A k)"
      using q1 al by (cases "k = l") (simp_all add: filter_empty_conv del: not_not)
  qed
  show ?case
  proof (cases "n1 = 0")
    case True
    with "2.prems"(1) f have r: "n' = 0" "A' = A(l := q1)" "ts = map (Pair l) ts1" by simp_all
    show ?thesis unfolding r by (intro conjI; simp only: sweep.simps fl f prod.case True simp_thms(6) if_True e)
  next
    case False
    obtain n2 A2 ts2 where s: "sweep ls n1 (A(l := q1)) = (n2, A2, ts2)" by (metis prod_cases3)
    with "2.prems"(1) f False have r: "n' = n2" "A' = A2" "ts = map (Pair l) ts1 @ ts2" by simp_all
    have pr: "\<forall>k\<in>set ls. \<forall>x\<in>set ((A(l := q1)) k). buys x = d" using "2.prems"(2) q1 by auto
    from "2.IH" [OF f [symmetric] refl False s pr] False
    show ?thesis unfolding r
      by (intro conjI; simp only: sweep.simps fl f prod.case if_False e)
  qed
qed

lemma sweep_skip: "n \<noteq> 0 \<Longrightarrow> \<forall>k\<in>set ks. A k = [] \<Longrightarrow> sweep (ks @ ls) n A = sweep ls n A"
proof (induction ks)
  case (Cons k ks)
  then have "A(k := []) = A" by auto
  with Cons show ?case by (auto simp: split: prod.splits)
qed simp

subsection \<open>An order arrives\<close>

lemma book_okI:
  assumes "lists_ok b Q" "length (orders b) = MAX_ORDERS" "unat (orders_num b) \<le> MAX_ORDERS"
    "\<And>l i. l < 102 \<Longrightarrow> i \<in> set (Q l) \<Longrightarrow> i \<notin> X \<and> resting_ok b l i"
    "\<And>i. i < unat (orders_num b) \<Longrightarrow> i \<notin> X \<Longrightarrow> o_size (orders b ! i) \<noteq> 0 \<Longrightarrow>
      \<exists>l<102. l = unat (o_level (orders b ! i)) \<and> i \<in> set (Q l)"
    "unat (best_bid b) < unat (best_ask b)" "unat (best_ask b) \<le> 101"
  shows "book_ok X b Q"
  using assms by (simp add: book_ok_def)

lemma new_order_ok:
  fixes x :: sim_order
  assumes ok: "book_ok {} b Q" and num: "orders_num b < of_nat MAX_ORDERS"
  defines "i \<equiv> unat (orders_num b)"
  defines "b1 \<equiv> b\<lparr>orders := (orders b)[i := x], orders_num := orders_num b + 1\<rparr>"
  shows "book_ok {i} b1 Q" "items b1 Q = items b Q" "i < length (orders b)" "unat (orders_num b1) = Suc i"
proof -
  have i: "i < MAX_ORDERS" using num by (simp add: i_def MAX_ORDERS_def word_less_nat_alt)
  then show il: "i < length (orders b)" using ok by (simp add: book_ok_def)
  show n1: "unat (orders_num b1) = Suc i"
    using i by (simp add: b1_def i_def unat_word_ariths MAX_ORDERS_def)
  have new: "j < i" if "j \<in> set (Q k)" "k < 102" for j k
    using book_ok_in(2) [OF ok that(2,1)] by (simp add: resting_ok_def i_def)
  then have ni: "i \<notin> set (Q k)" if "k < 102" for k using that by blast
  have nth: "orders b1 ! j = orders b ! j" if "j < i" for j using that by (simp add: b1_def)
  have "lists_ok b1 Q" using ok ni by (simp add: lists_ok_def b1_def book_ok_def chain_upd)
  moreover have "resting_ok b1 k j \<and> j \<notin> {i}" if k: "k < 102" and j: "j \<in> set (Q k)" for j k
    using book_ok_in(2) [OF ok k j] new [OF j k] n1 nth [OF new [OF j k]] by (simp add: resting_ok_def b1_def)
  moreover have "\<exists>k<102. k = unat (o_level (orders b1 ! j)) \<and> j \<in> set (Q k)"
    if "j < unat (orders_num b1)" "j \<notin> {i}" "o_size (orders b1 ! j) \<noteq> 0" for j
  proof -
    have "j < i" using that n1 by simp
    then show ?thesis using ok that(3) nth [of j] by (simp add: book_ok_def i_def)
  qed
  ultimately show "book_ok {i} b1 Q"
    using ok i n1 by (auto simp: book_ok_def b1_def)
  have "map (item (orders b1)) (Q k) = map (item (orders b)) (Q k)" if "k < 102" for k
    using new [OF _ that] nth by (intro map_cong) (auto simp: item_def)
  then show "items b1 Q = items b Q" by (auto simp: items_def fun_eq_iff simp del: map_eq_conv)
qed

lemma used_up_ok:
  assumes ok: "book_ok {i} b Q" and "o_size (orders b ! i) = 0"
  shows "book_ok {} b Q"
  using assms unfolding book_ok_def by (metis empty_iff insert_iff)

lemma same_data_items: "same_data b b' \<Longrightarrow> j < length (orders b) \<Longrightarrow> item (orders b') j = item (orders b) j"
  using same_data_nth by (simp add: item_def order_data_def)

lemma rest_ok:
  assumes ok: "book_ok {i} b Q" and i: "i < unat (orders_num b)" and sz: "o_size (orders b ! i) \<noteq> 0"
    and L: "L = unat (o_level (orders b ! i))" "1 \<le> L" "L \<le> 100"
    and best: "if o_side (orders b ! i) = 0 then L \<le> unat (best_bid b) else unat (best_ask b) \<le> L"
  shows "\<exists>b'. order_insert b L i = Some b' \<and> book_ok {} b' (Q(L := Q L @ [i])) \<and> same_data b b'
    \<and> items b' (Q(L := Q L @ [i])) = (items b Q)(L := items b Q L @ [item (orders b) i])"
proof -
  let ?Q = "Q(L := Q L @ [i])"
  have il: "i < length (orders b)" and l: "L < 102" and lo: "lists_ok b Q"
    using ok i L by (auto simp: book_ok_def)
  have new: "i \<notin> set (Q k)" if "k < 102" for k using book_ok_in(1) [OF ok that, of i] by blast
  from order_insert_ok [OF lo l il new] obtain b' where
    b': "order_insert b L i = Some b'" "lists_ok b' ?Q" "same_data b b'" by blast
  have data: "o_level (orders b' ! j) = o_level (orders b ! j)" "o_side (orders b' ! j) = o_side (orders b ! j)"
    "o_size (orders b' ! j) = o_size (orders b ! j)" if "j < length (orders b)" for j
    using same_data_nth [OF b'(3) that] by (simp_all add: order_data_def)
  have num: "orders_num b' = orders_num b" "best_ask b' = best_ask b" "best_bid b' = best_bid b"
    using b'(3) by (simp_all add: same_data_def)
  have lt: "j < length (orders b)" if "j < unat (orders_num b)" for j using ok that by (simp add: book_ok_def)
  have in_Q: "resting_ok b' k j \<and> j < length (orders b)" if k: "k < 102" and j: "j \<in> set (?Q k)" for k j
  proof (cases "j = i")
    case True
    with new [OF k] j have "k = L" by (auto split: if_splits)
    with True show ?thesis using i il sz L best data [OF il] by (simp add: resting_ok_def num split: if_splits)
  next
    case False
    with j have j': "j \<in> set (Q k)" by (auto split: if_splits)
    show ?thesis using book_ok_in [OF ok k j'] data [of j] by (simp add: resting_ok_def num)
  qed
  have "\<exists>k<102. k = unat (o_level (orders b' ! j)) \<and> j \<in> set (?Q k)"
    if "j < unat (orders_num b')" "o_size (orders b' ! j) \<noteq> 0" for j
  proof (cases "j = i")
    case True
    then show ?thesis using l L(1) data [OF il] by simp
  next
    case False
    moreover have "j < unat (orders_num b)" "o_size (orders b ! j) \<noteq> 0" using that data lt by (simp_all add: num)
    ultimately have "\<exists>k<102. k = unat (o_level (orders b ! j)) \<and> j \<in> set (Q k)"
      using ok by (simp add: book_ok_def)
    then show ?thesis using data [OF lt [of j]] that by (auto simp: num)
  qed
  then have "book_ok {} b' ?Q"
    using ok b'(2) in_Q same_data_length [OF b'(3)] by (intro book_okI) (simp_all add: book_ok_def num)
  moreover have "items b' ?Q k = ((items b Q)(L := items b Q L @ [item (orders b) i])) k" for k
    using same_data_items [OF b'(3)] in_Q [of k] l by (auto simp: items_def)
  ultimately show ?thesis using b'(1,3) by blast
qed

definition raise_best :: "bool \<Rightarrow> ulong \<Rightarrow> sim_book \<Rightarrow> sim_book" where
  "raise_best buy l b = (if buy then (if l > best_bid b then b\<lparr>best_bid := l\<rparr> else b)
     else (if l < best_ask b then b\<lparr>best_ask := l\<rparr> else b))"

lemma raise_best_simps [simp]: "orders (raise_best buy l b) = orders b" "orders_num (raise_best buy l b) = orders_num b"
  "levels (raise_best buy l b) = levels b" "items (raise_best buy l b) Q = items b Q"
  by (simp_all add: raise_best_def items_def fun_eq_iff)

lemma raise_best_best:
  "unat (best_bid (raise_best buy l b)) = (if buy then max (unat l) (unat (best_bid b)) else unat (best_bid b))"
  "unat (best_ask (raise_best buy l b)) = (if buy then unat (best_ask b) else min (unat l) (unat (best_ask b)))"
  by (auto simp: raise_best_def word_less_nat_alt)

lemma raise_best_ok:
  assumes "book_ok X b Q" "if buy then unat l < unat (best_ask b) else unat (best_bid b) < unat l" "unat l \<le> 100"
  shows "book_ok X (raise_best buy l b) Q"
proof (rule book_okI)
  show "j \<notin> X \<and> resting_ok (raise_best buy l b) k j" if "k < 102" "j \<in> set (Q k)" for k j
    using book_ok_in [OF assms(1) that] by (auto simp: resting_ok_def raise_best_best)
qed (use assms in \<open>auto simp: book_ok_def lists_ok_def raise_best_best split: if_splits\<close>)

lemma do_limit_ok:
  fixes x :: sim_order
  assumes ok: "book_ok {} b Q" and num: "orders_num b < of_nat MAX_ORDERS"
    and lev: "1 \<le> unat (o_level x)" "unat (o_level x) \<le> 100" and sz: "o_size x \<noteq> 0"
    and sw: "sweep (cross_levels (o_side x = 0) b (unat (o_level x))) (unat (o_size x)) (items b Q) = (n', A', ts)"
  shows "\<exists>b' Q'. do_limit b x = Some (True, b', map (level_trade (o_side x = 0) (o_trader x)) ts)
    \<and> book_ok {} b' Q' \<and> orders_num b' = orders_num b + 1 \<and> unat (o_size (orders b' ! unat (orders_num b))) = n'
    \<and> items b' Q' = (if n' = 0 then A' else
        A'(unat (o_level x) := A' (unat (o_level x)) @ [(unat (orders_num b), o_trader x, o_side x = 0, n')]))"
proof -
  define i where "i = unat (orders_num b)"
  let ?L = "unat (o_level x)" and ?buy = "o_side x = 0"
  define b1 where "b1 = b\<lparr>orders := (orders b)[i := x], orders_num := orders_num b + 1\<rparr>"
  have b1: "book_ok {i} b1 Q" "items b1 Q = items b Q" "i < length (orders b)" "unat (orders_num b1) = Suc i"
    using new_order_ok(1,2,4) [OF ok num, where x = x] new_order_ok(3) [OF ok num]
    by (simp_all only: b1_def i_def)
  have x: "orders b1 ! i = x" using b1(3) by (simp add: b1_def)
  have cl: "cross_levels ?buy b1 ?L = cross_levels ?buy b ?L" by (simp add: cross_levels_def b1_def)
  have len: "length (cross_levels ?buy b1 ?L) < 102" using lev b1(1) by (auto simp: cross_levels_def book_ok_def)
  obtain b2 Q2 l2 where m: "match_levels ?buy 102 b1 i ?L
        = Some (n' = 0, b2, l2, map (level_trade ?buy (o_trader x)) ts)"
      "swept b1 b2 Q2 i n' A'"
      "n' \<noteq> 0 \<longrightarrow> l2 = ?L \<and> (if ?buy then ?L < unat (best_ask b2) else unat (best_bid b2) < ?L)"
    using match_levels_ok [where b = b1 and Q = Q and i = i and L = ?L and buy = ?buy and fuel = 102 and l = ?L
        and n' = n' and A' = A' and ts' = ts] b1 sz lev len sw
    unfolding x cl by auto
  have lim: "do_limit b x = (case match_order b1 i of Some (b, ts) \<Rightarrow> Some (True, b, ts) | None \<Rightarrow> None)"
    using num lev sz b1(3)
    by (auto simp: do_limit_def i_def b1_def upd_order_Some Let_def MAX_LEVEL_def word_le_nat_alt word_less_nat_alt
        unat_eq_zero_iff bind_eq_None_conv split: option.splits bind_splits)
  have g: "get_order b1 i = Some x" using b1(3) by (simp add: get_order_def mem_get_Some b1_def)
  note d = m(2) [unfolded swept_def]
  show ?thesis
  proof (cases "n' = 0")
    case True
    have "do_limit b x = Some (True, b2, map (level_trade ?buy (o_trader x)) ts)"
      using lim g m(1) True by (simp add: match_order_def Let_def)
    moreover have "o_size (orders b2 ! i) = 0" using d True by (simp add: order_data_def)
    ultimately show ?thesis using d used_up_ok [where b = b2 and Q = Q2] True by (auto simp: b1_def i_def)
  next
    case False
    have o2: "o_trader (orders b2 ! i) = o_trader x" "o_level (orders b2 ! i) = o_level x"
        "o_side (orders b2 ! i) = o_side x" "o_size (orders b2 ! i) = of_nat n'"
      using d by (simp_all add: order_data_def x)
    have sz2: "unat (o_size (orders b2 ! i)) = n'" using le_unat_uoi [OF sweep_le [OF sw]] o2(4) by simp
    let ?b3 = "raise_best ?buy (o_level x) b2"
    have ok3: "book_ok {i} ?b3 Q2" using raise_best_ok [where X = "{i}" and b = b2 and Q = Q2 and buy = ?buy and l = "o_level x"] d m(3) False lev by auto
    have p: "i < unat (orders_num ?b3)" "o_size (orders ?b3 ! i) \<noteq> 0" "?L = unat (o_level (orders ?b3 ! i))"
      "if o_side (orders ?b3 ! i) = 0 then ?L \<le> unat (best_bid ?b3) else unat (best_ask ?b3) \<le> ?L"
      using d b1(4) o2 sz2 False by (auto simp: raise_best_best)
    from rest_ok [OF ok3 p(1,2,3) lev p(4)] obtain b4 where
      b4: "order_insert ?b3 ?L i = Some b4" "book_ok {} b4 (Q2(?L := Q2 ?L @ [i]))" "same_data ?b3 b4"
        "items b4 (Q2(?L := Q2 ?L @ [i])) = A'(?L := A' ?L @ [item (orders b2) i])"
      using d by auto
    have "do_limit b x = Some (True, b4, map (level_trade ?buy (o_trader x)) ts)"
      using lim g m(1,3) False b4(1) by (simp add: match_order_def Let_def raise_best_def [symmetric])
    moreover have "orders_num b4 = orders_num b + 1" using b4(3) d by (simp add: same_data_def b1_def)
    moreover have "item (orders b2) i = (i, o_trader x, ?buy, n')" using o2 sz2 by (simp add: item_def)
    moreover have "i < length (orders b2)" using d b1(3) ok by (simp add: book_ok_def)
    then have "o_size (orders b4 ! i) = o_size (orders b2 ! i)"
      using same_data_nth [OF b4(3), of i] by (simp add: order_data_def)
    ultimately show ?thesis using b4(2,4) False sz2 unfolding i_def by auto
  qed
qed

lemma items_side:
  assumes ok: "book_ok X b Q" and x: "x \<in> set (items b Q k)"
  shows "if buys x then k \<le> unat (best_bid b) else unat (best_ask b) \<le> k" "1 \<le> k" "k \<le> 100"
proof -
  obtain j where j: "k < 102" "j \<in> set (Q k)" "x = item (orders b) j" using x by (auto simp: items_def split: if_splits)
  from book_ok_in(2) [OF ok j(1,2)] show "if buys x then k \<le> unat (best_bid b) else unat (best_ask b) \<le> k" "1 \<le> k" "k \<le> 100"
    by (auto simp: resting_ok_def buys_def item_def j(3) split: if_splits)
qed

lemma cross_levels_side:
  assumes ok: "book_ok X b Q" and k: "k \<in> set (cross_levels buy b L)" and x: "x \<in> set (items b Q k)"
  shows "buys x = (\<not> buy)"
  using items_side(1) [OF ok x] k ok by (auto simp: cross_levels_def book_ok_def split: if_splits)

definition side_of :: "bool \<Rightarrow> (nat \<Rightarrow> item list) \<Rightarrow> nat \<Rightarrow> item list" where
  "side_of d A = (\<lambda>k. filter (\<lambda>x. buys x = d) (A k))"

lemma abs_book_sides: "abs_book b = (side_of True (queues b), side_of False (queues b))"
  by (simp add: abs_book_def side_of_def)

lemma side_of_upd:
  "side_of d (A(L := A L @ [(i, t, d, n)])) = (side_of d A)(L := side_of d A L @ [(i, t, d, n)])"
  "side_of (\<not> d) (A(L := A L @ [(i, t, d, n)])) = side_of (\<not> d) A"
  by (simp_all add: side_of_def fun_eq_iff buys_def)

lemma upt_split: "i \<le> j \<Longrightarrow> j \<le> k \<Longrightarrow> [i..<k] = [i..<j] @ [j..<k]"
  using upt_add_eq_append [of i j "k - j"] by simp

lemma split_levels_up: "1 \<le> M \<Longrightarrow> [1..<Suc L] = [1..<min M (Suc L)] @ [M..<Suc L]"
  using upt_split [of 1 M "Suc L"] by (cases "M \<le> Suc L") (simp_all only: min_absorb1, simp add: min_def)

lemma split_levels_down: "L \<le> 100 \<Longrightarrow> M \<le> 100 \<Longrightarrow> [L..<101] = [L..<Suc M] @ [max L (Suc M)..<101]"
  using upt_split [of L "Suc M" 101] by (cases "L \<le> Suc M") (simp_all only: max_absorb2, simp add: max_def)

lemma full_sweep:
  assumes ok: "book_ok X b Q" and L: "1 \<le> L" "L \<le> 100" and n: "n \<noteq> 0"
  shows "sweep (if buy then [1..<Suc L] else rev [L..<101]) n (side_of (\<not> buy) (items b Q))
    = sweep (cross_levels buy b L) n (side_of (\<not> buy) (items b Q))"
proof -
  let ?S = "side_of (\<not> buy) (items b Q)"
  have bd: "unat (best_bid b) \<le> 100" "1 \<le> unat (best_ask b)" using ok by (auto simp: book_ok_def)
  have e: "?S k = []" if "if buy then k < unat (best_ask b) else unat (best_bid b) < k" for k
    using items_side(1) [OF ok, of _ k] that by (fastforce simp: side_of_def filter_empty_conv split: if_splits)
  show ?thesis
  proof (cases buy)
    case True
    with e show ?thesis
      unfolding if_P [OF True] split_levels_up [OF bd(2), of L] by (subst sweep_skip) (simp_all add: n cross_levels_def)
  next
    case False
    with e show ?thesis
      unfolding if_not_P [OF False] split_levels_down [OF L(2) bd(1)] rev_append
      by (subst sweep_skip) (simp_all add: n cross_levels_def)
  qed
qed

lemma limit_spec_abs:
  assumes ok: "book_ok X b Q" and L: "1 \<le> L" "L \<le> 100" and n: "n \<noteq> 0"
    and sw: "sweep (cross_levels buy b L) n (items b Q) = (n', A', ts)"
    and F: "F = (if n' = 0 then A' else A'(L := A' L @ [(i, t, buy, n')]))"
  shows "limit_spec i buy t L n (abs_book b) = ((side_of True F, side_of False F), ts)"
proof -
  have "\<forall>k\<in>set (cross_levels buy b L). \<forall>x\<in>set (items b Q k). buys x = (\<not> buy)"
    using cross_levels_side [OF ok] by blast
  from sweep_side [OF sw this]
  have s: "sweep (cross_levels buy b L) n (side_of (\<not> buy) (items b Q)) = (n', side_of (\<not> buy) A', ts)"
    and o: "side_of buy A' = side_of buy (items b Q)" by (simp_all add: side_of_def)
  have "sweep (if buy then [1..<Suc L] else rev [L..<101]) n (side_of (\<not> buy) (items b Q)) = (n', side_of (\<not> buy) A', ts)"
    using full_sweep [OF ok L n, of buy] s by simp
  then show ?thesis
    using o by (cases buy) (simp_all add: limit_spec_def abs_book_sides queues_items [OF ok] F side_of_upd
      side_of_upd(2) [of True, simplified] side_of_upd(2) [of False, simplified])
qed

subsection \<open>An order is cancelled\<close>

lemma do_cancel_ok:
  assumes ok: "book_ok {} b Q" and oid: "oid < orders_num b" and sz: "o_size (orders b ! unat oid) \<noteq> 0"
  shows "\<exists>b' Q'. do_cancel b oid = Some (True, b') \<and> book_ok {} b' Q' \<and> orders_num b' = orders_num b
    \<and> items b' Q' = (\<lambda>k. filter (\<lambda>x. fst x \<noteq> unat oid) (items b Q k))"
proof -
  define i where "i = unat oid"
  have i: "i < unat (orders_num b)" "o_size (orders b ! i) \<noteq> 0" using oid sz by (simp_all add: i_def word_less_nat_alt)
  define l where "l = unat (o_level (orders b ! i))"
  have l: "l < 102" "i \<in> set (Q l)" using ok i by (auto simp: book_ok_def l_def)
  obtain xs ys where q: "Q l = xs @ i # ys" using l(2) by (meson in_set_conv_decomp)
  have lo: "lists_ok b Q" and dq: "distinct (Q l)" using ok l by (auto simp: book_ok_def lists_ok_def)
  from order_remove_ok [OF lo l(1) q] obtain b1 where
    b1: "order_remove b l i = Some b1" "lists_ok b1 (Q(l := xs @ ys))" "same_data b b1" by blast
  define b2 where "b2 = b1\<lparr>orders := (orders b1)[i := o_size_update (\<lambda>_. 0) (orders b1 ! i)]\<rparr>"
  have len: "length (orders b1) = length (orders b)" by (rule same_data_length [OF b1(3)])
  have il: "i < length (orders b)" using ok i by (simp add: book_ok_def)
  have data: "order_data (orders b2 ! j) = order_data (orders b ! j)" if "j \<noteq> i" "j < length (orders b)" for j
    using same_data_nth [OF b1(3) that(2)] that(1) by (simp add: b2_def)
  have data_i: "o_size (orders b2 ! i) = 0" using il len by (simp add: b2_def)
  have num: "orders_num b2 = orders_num b" "best_ask b2 = best_ask b" "best_bid b2 = best_bid b"
    using b1(3) by (simp_all add: b2_def same_data_def)
  have ev: "do_cancel b oid = Some (True, b2)"
    using oid sz b1(1) il len
    by (auto simp: do_cancel_def get_order_Some upd_order_Some b2_def i_def [symmetric] l_def)
  have fq: "(Q(l := xs @ ys)) k = filter (\<lambda>j. j \<noteq> i) (Q k)" if "k < 102" for k
  proof (cases "k = l")
    case True
    have "filter (\<lambda>j. j \<noteq> i) xs = xs" "filter (\<lambda>j. j \<noteq> i) ys = ys"
      using dq by (auto simp: q filter_id_conv)
    with True show ?thesis by (simp add: q)
  next
    case False
    with ok l that have "i \<notin> set (Q k)" by (auto simp: book_ok_def lists_ok_def)
    then show ?thesis using False by (auto simp: filter_id_conv intro!: sym [OF filter_True])
  qed
  have "book_ok {} b2 (Q(l := xs @ ys))"
  proof (rule book_okI)
    show "lists_ok b2 (Q(l := xs @ ys))" unfolding b2_def by (rule lists_ok_size [OF b1(2)])
    show "j \<notin> {} \<and> resting_ok b2 k j" if k: "k < 102" and j: "j \<in> set ((Q(l := xs @ ys)) k)" for k j
    proof -
      have j': "j \<in> set (Q k)" "j \<noteq> i" using j by (simp_all add: fq [OF k] del: fun_upd_apply)
      from book_ok_in(2,3) [OF ok k j'(1)] data [OF j'(2)] show ?thesis
        by (simp add: resting_ok_def num order_data_def)
    qed
    show "\<exists>k<102. k = unat (o_level (orders b2 ! j)) \<and> j \<in> set ((Q(l := xs @ ys)) k)"
      if j: "j < unat (orders_num b2)" "j \<notin> {}" "o_size (orders b2 ! j) \<noteq> 0" for j
    proof -
      have ji: "j \<noteq> i" using j(3) data_i by auto
      have jl: "j < length (orders b)" "j < unat (orders_num b)" using j(1) ok by (simp_all add: num book_ok_def)
      from data [OF ji jl(1)] have e: "o_level (orders b2 ! j) = o_level (orders b ! j)" "o_size (orders b ! j) \<noteq> 0"
        using j(3) by (simp_all add: order_data_def)
      then obtain k where k: "k < 102" "k = unat (o_level (orders b ! j))" "j \<in> set (Q k)"
        using ok jl by (auto simp: book_ok_def)
      have "j \<in> set ((Q(l := xs @ ys)) k)" unfolding fq [OF k(1)] using k(3) ji by simp
      with k(1,2) show ?thesis unfolding e(1) by blast
    qed
  qed (use ok len num in \<open>simp_all add: book_ok_def, simp_all add: b2_def\<close>)
  moreover have "items b2 (Q(l := xs @ ys)) = (\<lambda>k. filter (\<lambda>x. fst x \<noteq> i) (items b Q k))"
  proof (rule ext)
    fix k
    show "items b2 (Q(l := xs @ ys)) k = filter (\<lambda>x. fst x \<noteq> i) (items b Q k)"
    proof (cases "k < 102")
      case True
      have "item (orders b2) j = item (orders b) j" if "j \<in> set (Q k)" "j \<noteq> i" for j
        using data [OF that(2) book_ok_in(3) [OF ok True that(1)]] by (simp add: item_def order_data_def)
      then have "map (item (orders b2)) (filter (\<lambda>j. j \<noteq> i) (Q k)) = map (item (orders b)) (filter (\<lambda>j. j \<noteq> i) (Q k))" by simp
      with True show ?thesis
        unfolding items_def fq [OF True] by (simp add: filter_map comp_def item_def del: map_eq_conv)
    qed (simp add: items_def)
  qed
  ultimately show ?thesis using ev num(1) unfolding i_def by blast
qed

subsection \<open>Sessions\<close>

text \<open>The engine as the rest of the simulator uses it: commands in sequence, from the book
  \<open>order_book_init\<close> makes.\<close>

datatype command = Limit sim_order | Cancel ulong

fun do_command :: "command \<Rightarrow> sim_book \<Rightarrow> (sim_book \<times> trade list) option" where
  "do_command (Limit x) b = do { (acc, b, ts) \<leftarrow> do_limit b x; Some (b, ts) }"
| "do_command (Cancel oid) b = do { (acc, b) \<leftarrow> do_cancel b oid; Some (b, []) }"

fun command_spec :: "command \<Rightarrow> nat \<times> abs_book \<Rightarrow> (nat \<times> abs_book) \<times> trade list" where
  "command_spec (Limit x) (m, BA) =
     (let L = unat (o_level x); buy = (o_side x = 0) in
      if m \<ge> MAX_ORDERS \<or> L < 1 \<or> L > 100 \<or> o_size x = 0 then ((m, BA), [])
      else case limit_spec m buy (o_trader x) L (unat (o_size x)) BA of
        (BA, ts) \<Rightarrow> ((m + 1, BA), map (level_trade buy (o_trader x)) ts))"
| "command_spec (Cancel oid) (m, B, A) =
     ((m, \<lambda>k. filter (\<lambda>x. fst x \<noteq> unat oid) (B k), \<lambda>k. filter (\<lambda>x. fst x \<noteq> unat oid) (A k)), [])"

inductive reachable_book :: "sim_book \<Rightarrow> bool" where
  init: "reachable_book order_book_init"
| limit: "reachable_book b \<Longrightarrow> do_limit b x = Some (acc, b', ts) \<Longrightarrow> reachable_book b'"
| cancel: "reachable_book b \<Longrightarrow> do_cancel b oid = Some (acc, b') \<Longrightarrow> reachable_book b'"

definition well_formed :: "sim_book \<Rightarrow> bool" where
  "well_formed b \<longleftrightarrow> (\<exists>Q. book_ok {} b Q)"

definition abs_state :: "sim_book \<Rightarrow> nat \<times> abs_book" where
  "abs_state b = (unat (orders_num b), abs_book b)"

lemma init_ok: "book_ok {} order_book_init (\<lambda>k. [])"
  by (rule book_okI) (simp_all add: order_book_init_def lists_ok_def MAX_LEVEL_def)

lemma limit_refused:
  assumes "MAX_ORDERS \<le> unat (orders_num b) \<or> unat (o_level x) < 1 \<or> 100 < unat (o_level x) \<or> o_size x = 0"
  shows "do_limit b x = Some (False, b, [])"
  using assms by (auto simp: do_limit_def word_le_nat_alt word_less_nat_alt MAX_ORDERS_def MAX_LEVEL_def)

lemma limit_step:
  assumes "well_formed b"
  shows "\<exists>b'. do_command (Limit x) b = Some (b', snd (command_spec (Limit x) (abs_state b)))
    \<and> well_formed b' \<and> abs_state b' = fst (command_spec (Limit x) (abs_state b))"
proof (cases "MAX_ORDERS \<le> unat (orders_num b) \<or> unat (o_level x) < 1 \<or> 100 < unat (o_level x) \<or> o_size x = 0")
  case True
  with assms show ?thesis by (auto simp: limit_refused abs_state_def)
next
  case False
  let ?L = "unat (o_level x)" and ?buy = "o_side x = 0"
  obtain Q where ok: "book_ok {} b Q" using assms by (auto simp: well_formed_def)
  obtain n' A' ts where sw: "sweep (cross_levels ?buy b ?L) (unat (o_size x)) (items b Q) = (n', A', ts)"
    by (metis prod_cases3)
  have lev: "1 \<le> ?L" "?L \<le> 100" using False by auto
  have num: "orders_num b < of_nat MAX_ORDERS" and sz: "o_size x \<noteq> 0" "unat (o_size x) \<noteq> 0"
    using False by (auto simp: word_less_nat_alt MAX_ORDERS_def unat_eq_zero_iff)
  from do_limit_ok [OF ok num lev sz(1) sw] obtain b' Q' where
    b': "do_limit b x = Some (True, b', map (level_trade ?buy (o_trader x)) ts)" "book_ok {} b' Q'"
      "orders_num b' = orders_num b + 1" "items b' Q' = (if n' = 0 then A' else
        A'(?L := A' ?L @ [(unat (orders_num b), o_trader x, ?buy, n')]))" by blast
  have "abs_book b' = (side_of True (items b' Q'), side_of False (items b' Q'))"
    by (simp add: abs_book_sides queues_items [OF b'(2)])
  with limit_spec_abs [OF ok lev sz(2) sw b'(4)]
  have sp: "limit_spec (unat (orders_num b)) ?buy (o_trader x) ?L (unat (o_size x)) (abs_book b) = (abs_book b', ts)" by simp
  have "unat (orders_num b') = unat (orders_num b) + 1"
    using num by (simp add: b'(3) unat_word_ariths word_less_nat_alt MAX_ORDERS_def)
  with b'(1,2) sp False show ?thesis
    by (auto simp: abs_state_def well_formed_def Let_def)
qed

lemma cancel_step:
  assumes "well_formed b"
  shows "\<exists>b'. do_command (Cancel oid) b = Some (b', snd (command_spec (Cancel oid) (abs_state b)))
    \<and> well_formed b' \<and> abs_state b' = fst (command_spec (Cancel oid) (abs_state b))"
proof -
  obtain Q where ok: "book_ok {} b Q" using assms by (auto simp: well_formed_def)
  show ?thesis
  proof (cases "oid < orders_num b \<and> o_size (orders b ! unat oid) \<noteq> 0")
    case True
    from do_cancel_ok [OF ok] True obtain b' Q' where
      b': "do_cancel b oid = Some (True, b')" "book_ok {} b' Q'" "orders_num b' = orders_num b"
        "items b' Q' = (\<lambda>k. filter (\<lambda>x. fst x \<noteq> unat oid) (items b Q k))" by blast
    then show ?thesis
      using ok by (auto simp: abs_state_def abs_book_sides well_formed_def queues_items [OF ok] queues_items [OF b'(2)]
        side_of_def fun_eq_iff conj_commute)
  next
    case False
    have l: "oid < orders_num b \<Longrightarrow> unat oid < length (orders b)"
      using ok by (auto simp: book_ok_def word_less_nat_alt)
    have r: "do_cancel b oid = Some (False, b)"
      using False l by (auto simp: do_cancel_def get_order_Some)
    have nid: "fst y \<noteq> unat oid" if "y \<in> set (items b Q k)" for y k
    proof -
      from that obtain j where j: "k < 102" "j \<in> set (Q k)" "fst y = j" by (auto simp: items_def item_def split: if_splits)
      from book_ok_in(2) [OF ok j(1,2)] False j(3) show ?thesis
        by (auto simp: resting_ok_def word_less_nat_alt)
    qed
    have "filter (\<lambda>x. fst x \<noteq> unat oid) (side_of d (items b Q) k) = side_of d (items b Q) k" for d k
      by (rule filter_True) (use nid [of _ k] in \<open>fastforce simp: side_of_def\<close>)
    with r assms show ?thesis by (simp add: abs_state_def abs_book_sides queues_items [OF ok])
  qed
qed

interpretation engine: simulation do_command command_spec well_formed abs_state
proof unfold_locales
  show "\<exists>s'. do_command c s = Some (s', snd (command_spec c (abs_state s))) \<and> well_formed s'
      \<and> abs_state s' = fst (command_spec c (abs_state s))" if "well_formed s" for s c
    using that by (cases c) (simp_all only: limit_step cancel_step)
qed

lemma reachable_well_formed: "reachable_book b \<Longrightarrow> well_formed b"
proof (induction rule: reachable_book.induct)
  case init
  then show ?case using init_ok by (auto simp: well_formed_def)
next
  case (limit b x acc b' ts)
  from limit_step [OF limit.IH, of x] limit.hyps(2) show ?case by auto
next
  case (cancel b oid acc b')
  from cancel_step [OF cancel.IH, of oid] cancel.hyps(2) show ?case by auto
qed

lemma abs_init: "abs_state order_book_init = (0, \<lambda>k. [], \<lambda>k. [])"
  by (simp add: abs_state_def abs_book_sides queues_items [OF init_ok] side_of_def items_def fun_eq_iff)
    (simp add: order_book_init_def)

lemma fill_sum: "fill n q = (n', q', ts) \<Longrightarrow> sum_list (map snd ts) + n' = n"
  by (induction n q arbitrary: n' q' ts rule: fill.induct) (fastforce split: if_splits prod.splits)+

lemma sweep_sum: "sweep ls n A = (n', A', ts) \<Longrightarrow> sum_list (map (snd \<circ> snd) ts) + n' = n"
proof (induction ls n A arbitrary: n' A' ts rule: sweep.induct)
  case (2 l ls n A)
  then show ?case by (fastforce simp: comp_def split: if_splits prod.splits dest: fill_sum)
qed simp

lemma sweep_levels: "sweep ls n A = (n', A', ts) \<Longrightarrow> (l, c, s) \<in> set ts \<Longrightarrow> l \<in> set ls"
  by (induction ls n A arbitrary: n' A' ts rule: sweep.induct) (fastforce split: if_splits prod.splits)+

lemma sweep_sizes: "sweep ls n A = (n', A', ts) \<Longrightarrow> (l, c, s) \<in> set ts \<Longrightarrow> s \<le> n"
proof -
  assume s: "sweep ls n A = (n', A', ts)" and t: "(l, c, s) \<in> set ts"
  from t have "s \<le> sum_list (map (snd \<circ> snd) ts)"
    using member_le_sum_list [of s "map (snd \<circ> snd) ts"] by force
  with sweep_sum [OF s] show ?thesis by simp
qed

subsection \<open>What the engine promises\<close>

text \<open>C8: The matching engine implements price-time priority: any sequence of limit orders and cancels, from
  the book \<open>order_book_init\<close> makes, runs without a memory fault, prints exactly the trades the
  specification with two tables of queues gives, and leaves exactly its queues.\<close>

theorem engine_refines:
  "\<exists>b. run_all do_command cs order_book_init = Some (b, snd (run_spec command_spec cs (0, \<lambda>k. [], \<lambda>k. [])))
     \<and> abs_state b = fst (run_spec command_spec cs (0, \<lambda>k. [], \<lambda>k. []))"
proof -
  have "well_formed order_book_init" by (rule reachable_well_formed [OF reachable_book.init])
  from engine.run_refines [OF this, of cs] show ?thesis unfolding abs_init by blast
qed

text \<open>A session that leaves a sell order of 5 at 60 and a buy order of 3 at 50.\<close>

definition sample_order :: "ulong \<Rightarrow> ulong \<Rightarrow> ulong \<Rightarrow> ulong \<Rightarrow> sim_order" where
  "sample_order t l d n = \<lparr>o_trader = t, o_level = l, o_next = None, o_prev = None, o_side = d, o_size = n\<rparr>"

lemma run_reachable: "reachable_book b \<Longrightarrow> run_all do_command cs b = Some (b', ts) \<Longrightarrow> reachable_book b'"
proof (induction cs arbitrary: b ts)
  case (Cons c cs)
  then show ?case
    by (cases c) (auto simp: bind_eq_Some_conv split: prod.splits intro: reachable_book.limit reachable_book.cancel)
qed simp

lemma sweep_empty: "n \<noteq> 0 \<Longrightarrow> \<forall>k\<in>set ls. A k = [] \<Longrightarrow> sweep ls n A = (n, A, [])"
  using sweep_skip [of n ls A "[]"] by simp

lemma sample_book: "\<exists>b. reachable_book b \<and> orders_num b = 2
    \<and> abs_book b = ((\<lambda>k. [])(50 := [(1, 8, True, 3)]), (\<lambda>k. [])(60 := [(0, 7, False, 5)]))"
proof -
  let ?cs = "[Limit (sample_order 7 60 1 5), Limit (sample_order 8 50 0 3)]"
  have i: "reachable_book order_book_init" by (rule reachable_book.init)
  from engine.run_refines [OF reachable_well_formed [OF i], of ?cs] obtain b where
    b: "run_all do_command ?cs order_book_init = Some (b, snd (run_spec command_spec ?cs (0, \<lambda>k. [], \<lambda>k. [])))"
      "abs_state b = fst (run_spec command_spec ?cs (0, \<lambda>k. [], \<lambda>k. []))" unfolding abs_init by blast
  have "fst (run_spec command_spec ?cs (0, \<lambda>k. [], \<lambda>k. [])) =
      (2, (\<lambda>k. [])(50 := [(1, 8, True, 3)]), (\<lambda>k. [])(60 := [(0, 7, False, 5)]))"
    by (simp add: sample_order_def limit_spec_def MAX_ORDERS_def Let_def sweep_empty del: sweep.simps(2))
  with b have "unat (orders_num b) = unat (2 :: ulong)"
    "abs_book b = ((\<lambda>k. [])(50 := [(1, 8, True, 3)]), (\<lambda>k. [])(60 := [(0, 7, False, 5)]))"
    by (simp_all add: abs_state_def)
  with run_reachable [OF i b(1)] show ?thesis by (auto simp: word_unat_eq_iff)
qed

text \<open>C9: In every reachable book, a resting buy order is below every resting sell order: the book is never
  crossed.\<close>

theorem book_never_crossed:
  assumes "reachable_book b" "fst (abs_book b) k \<noteq> []" "snd (abs_book b) m \<noteq> []"
  shows "k < m"
proof -
  obtain Q where ok: "book_ok {} b Q" using reachable_well_formed [OF assms(1)] by (auto simp: well_formed_def)
  obtain x y where "x \<in> set (items b Q k)" "buys x" "y \<in> set (items b Q m)" "\<not> buys y"
    using assms(2,3) by (auto simp: abs_book_sides queues_items [OF ok] side_of_def filter_empty_conv)
  with items_side(1) [OF ok, of x k] items_side(1) [OF ok, of y m]
  have "k \<le> unat (best_bid b)" "unat (best_ask b) \<le> m" by simp_all
  with ok show ?thesis by (simp add: book_ok_def)
qed

theorem book_never_crossed_witness: "\<exists>b. reachable_book b \<and> fst (abs_book b) 50 \<noteq> [] \<and> snd (abs_book b) 60 \<noteq> [] \<and> (50 :: nat) < 60"
proof -
  obtain b where b: "reachable_book b" "fst (abs_book b) 50 \<noteq> []" "snd (abs_book b) 60 \<noteq> []" using sample_book by auto
  from book_never_crossed [OF b] b show ?thesis by blast
qed

text \<open>C15: An accepted order trades at its limit or better, and the sizes of its trades and what rests of it
  add up to its size.\<close>

theorem do_limit_conserves:
  assumes "reachable_book b" "do_limit b x = Some (True, b', ts)"
  shows "sum_list (map (\<lambda>t. unat (t_size t)) ts) + unat (o_size (orders b' ! unat (orders_num b))) = unat (o_size x)
    \<and> list_all (\<lambda>t. if o_side x = 0 then t_buyer t = o_trader x \<and> t_price t \<le> o_level x
        else t_seller t = o_trader x \<and> o_level x \<le> t_price t) ts"
proof -
  let ?L = "unat (o_level x)" and ?buy = "o_side x = 0"
  obtain Q where ok: "book_ok {} b Q" using reachable_well_formed [OF assms(1)] by (auto simp: well_formed_def)
  have acc: "\<not> (MAX_ORDERS \<le> unat (orders_num b) \<or> ?L < 1 \<or> 100 < ?L \<or> o_size x = 0)"
  proof
    assume "MAX_ORDERS \<le> unat (orders_num b) \<or> ?L < 1 \<or> 100 < ?L \<or> o_size x = 0"
    from limit_refused [OF this] assms(2) show False by simp
  qed
  then have lev: "1 \<le> ?L" "?L \<le> 100" by linarith+
  from acc have num: "orders_num b < of_nat MAX_ORDERS" and sz: "o_size x \<noteq> 0"
    by (auto simp: word_less_nat_alt MAX_ORDERS_def)
  obtain n' A' us where sw: "sweep (cross_levels ?buy b ?L) (unat (o_size x)) (items b Q) = (n', A', us)"
    by (metis prod_cases3)
  from do_limit_ok [OF ok num lev sz sw] assms(2) have
    ts: "ts = map (level_trade ?buy (o_trader x)) us" "unat (o_size (orders b' ! unat (orders_num b))) = n'" by auto
  have us: "unat (of_nat s :: ulong) = s" "unat (of_nat l :: ulong) = l" "l \<in> set (cross_levels ?buy b ?L)"
    if "(l, c, s) \<in> set us" for l c s
  proof -
    show "unat (of_nat s :: ulong) = s" by (rule le_unat_uoi [OF sweep_sizes [OF sw that]])
    show l: "l \<in> set (cross_levels ?buy b ?L)" by (rule sweep_levels [OF sw that])
    then have "l \<le> 101" using ok lev by (auto simp: cross_levels_def book_ok_def split: if_splits)
    then show "unat (of_nat l :: ulong) = l" by (intro le_unat_uoi [of _ 101]) simp
  qed
  have lim: "if ?buy then l \<le> ?L else ?L \<le> l" if "(l, c, s) \<in> set us" for l c s
    using us(3) [OF that] by (auto simp: cross_levels_def)
  have "map (\<lambda>t. unat (t_size t)) ts = map (snd \<circ> snd) us"
    using us(1) by (auto simp: ts level_trade_def to_trade_def)
  moreover have "list_all (\<lambda>t. if ?buy then t_buyer t = o_trader x \<and> t_price t \<le> o_level x
        else t_seller t = o_trader x \<and> o_level x \<le> t_price t) ts"
    using us(2) lim by (fastforce simp: ts list_all_iff level_trade_def to_trade_def word_le_nat_alt split: if_splits)
  ultimately show ?thesis using sweep_sum [OF sw] ts(2) by simp
qed

theorem do_limit_conserves_witness:
  "\<exists>b b' ts. reachable_book b \<and> do_limit b (sample_order 9 65 0 7) = Some (True, b', ts)
     \<and> sum_list (map (\<lambda>t. unat (t_size t)) ts) + unat (o_size (orders b' ! unat (orders_num b))) = 7"
proof -
  let ?x = "sample_order 9 65 0 7"
  obtain b where b: "reachable_book b" "orders_num b = 2" using sample_book by auto
  obtain Q where ok: "book_ok {} b Q" using reachable_well_formed [OF b(1)] by (auto simp: well_formed_def)
  obtain n' A' us where sw: "sweep (cross_levels (o_side ?x = 0) b (unat (o_level ?x))) (unat (o_size ?x)) (items b Q) = (n', A', us)"
    by (metis prod_cases3)
  have "orders_num b < of_nat MAX_ORDERS" "1 \<le> unat (o_level ?x)" "unat (o_level ?x) \<le> 100" "o_size ?x \<noteq> 0"
    by (simp_all add: b(2) sample_order_def MAX_ORDERS_def)
  from do_limit_ok [OF ok this sw] obtain b' ts where l: "do_limit b ?x = Some (True, b', ts)" by blast
  from do_limit_conserves [OF b(1) l] have "sum_list (map (\<lambda>t. unat (t_size t)) ts) + unat (o_size (orders b' ! unat (orders_num b))) = 7"
    by (simp add: sample_order_def)
  with b l show ?thesis by blast
qed

text \<open>C16: A cancel is accepted exactly when the order is resting in the book, and it takes that order out of
  its queue and nothing else.\<close>

theorem do_cancel_takes_out:
  assumes "reachable_book b"
  shows "\<exists>b'. do_cancel b oid = Some (\<exists>k. unat oid \<in> fst ` set (queues b k), b')
    \<and> queues b' = (\<lambda>k. filter (\<lambda>x. fst x \<noteq> unat oid) (queues b k))"
proof -
  obtain Q where ok: "book_ok {} b Q" using reachable_well_formed [OF assms] by (auto simp: well_formed_def)
  have iff: "(\<exists>k. unat oid \<in> fst ` set (items b Q k)) \<longleftrightarrow> oid < orders_num b \<and> o_size (orders b ! unat oid) \<noteq> 0" (is "?R \<longleftrightarrow> ?A")
  proof
    assume ?R
    then obtain k where "k < 102" "unat oid \<in> set (Q k)" by (auto simp: items_def item_def split: if_splits)
    from book_ok_in(2) [OF ok this] show ?A by (simp add: resting_ok_def word_less_nat_alt)
  next
    assume ?A
    then obtain k where "k < 102" "unat oid \<in> set (Q k)" using ok by (auto simp: book_ok_def word_less_nat_alt)
    then show ?R by (intro exI [of _ k]) (force simp: items_def item_def)
  qed
  show ?thesis
  proof (cases ?A)
    case True
    from do_cancel_ok [OF ok] True obtain b' Q' where "do_cancel b oid = Some (True, b')" "book_ok {} b' Q'"
      "items b' Q' = (\<lambda>k. filter (\<lambda>x. fst x \<noteq> unat oid) (items b Q k))" by blast
    with iff True show ?thesis by (simp add: queues_items [OF ok] queues_items [of _ b' Q'])
  next
    case False
    have "oid < orders_num b \<Longrightarrow> unat oid < length (orders b)" using ok by (auto simp: book_ok_def word_less_nat_alt)
    with False have "do_cancel b oid = Some (False, b)" by (auto simp: do_cancel_def get_order_Some)
    moreover have "filter (\<lambda>x. fst x \<noteq> unat oid) (items b Q k) = items b Q k" for k
      using False iff by (intro filter_True) force
    ultimately show ?thesis using False iff by (simp add: queues_items [OF ok])
  qed
qed

theorem do_cancel_takes_out_witness:
  "\<exists>b'. do_cancel order_book_init 3 = Some (\<exists>k. unat (3 :: ulong) \<in> fst ` set (queues order_book_init k), b')"
  using do_cancel_takes_out [OF reachable_book.init, of 3] by blast

end
