(* ===== verification/Sim_Market.thy ===== *)
theory Sim_Market
  imports Fix_Link Fix_Admin Sim_Match
begin

text \<open>
  The market simulator (tools/sim/market.c, market.h): traders connect with FIX sessions, log on and send orders,
  which go to the matching engine.  Sockets are numbers; the kernel has one state, which all sockets share.  A
  trader is an index into the array of the market.
\<close>

subsection \<open>Traders\<close>

definition MAX_TRADERS :: nat where "MAX_TRADERS = 100"
definition OrderQty :: i32 where "OrderQty = 38"
definition Price :: i32 where "Price = 44"
definition Side :: i32 where "Side = 54"

record trader =
  tr_session :: "fix_session option"
  tr_id :: ulong
  tr_name :: mem
  tr_active :: bool

record market =
  mk_traders :: "trader list"
  mk_traders_num :: ulong
  mk_book :: sim_book

definition market_init :: market where
  "market_init = \<lparr>mk_traders = replicate MAX_TRADERS \<lparr>tr_session = None, tr_id = 0, tr_name = replicate 32 0, tr_active = False\<rparr>,
     mk_traders_num = 0, mk_book = order_book_init\<rparr>"

text \<open>The loop of the three searches; a test may fault.\<close>

fun traders_loop :: "(trader \<Rightarrow> bool option) \<Rightarrow> trader list \<Rightarrow> nat \<Rightarrow> nat \<Rightarrow> nat option option" where
  "traders_loop p ts i 0 = Some None"
| "traders_loop p ts i (Suc n) = do {
     t \<leftarrow> mem_get ts (int i);
     found \<leftarrow> p t;
     (if found then Some (Some i) else traders_loop p ts (Suc i) n) }"

definition on_socket :: "i32 \<Rightarrow> trader \<Rightarrow> bool" where
  "on_socket sockfd t = (case tr_session t of None \<Rightarrow> False | Some s \<Rightarrow> s_sockfd s = sockfd)"

definition trader_by_sock :: "market \<Rightarrow> i32 \<Rightarrow> nat option option" where
  "trader_by_sock market sockfd = traders_loop (\<lambda>t. Some (on_socket sockfd t)) (mk_traders market) 0 (unat (mk_traders_num market))"

definition trader_by_id :: "market \<Rightarrow> ulong \<Rightarrow> nat option option" where
  "trader_by_id market ident = traders_loop (\<lambda>t. Some (tr_id t = ident)) (mk_traders market) 0 (unat (mk_traders_num market))"

text \<open>\<open>!strcmp(a, b)\<close>\<close>

fun same_text :: "mem \<Rightarrow> mem \<Rightarrow> bool option" where
  "same_text (a # as) (b # bs) = (if a \<noteq> b then Some False else if a = 0 then Some True else same_text as bs)"
| "same_text _ _ = None"

definition trader_by_name :: "market \<Rightarrow> mem \<Rightarrow> nat option option" where
  "trader_by_name market name = traders_loop (\<lambda>t. same_text (tr_name t) name) (mk_traders market) 0 (unat (mk_traders_num market))"

definition get_trader :: "market \<Rightarrow> nat \<Rightarrow> trader option" where
  "get_trader market i = mem_get (mk_traders market) (int i)"

definition upd_trader :: "nat \<Rightarrow> (trader \<Rightarrow> trader) \<Rightarrow> market \<Rightarrow> market option" where
  "upd_trader i f market = do {
     t \<leftarrow> get_trader market i;
     ts \<leftarrow> mem_put (mk_traders market) (int i) (f t);
     Some (market\<lparr>mk_traders := ts\<rparr>) }"

definition trader_new :: "market \<Rightarrow> (nat option \<times> market) option" where
  "trader_new market =
     (if of_nat MAX_TRADERS \<le> mk_traders_num market then Some (None, market)
      else
        let i = unat (mk_traders_num market) in do {
          market \<leftarrow> upd_trader i (\<lambda>t. t\<lparr>tr_id := mk_traders_num market, tr_active := False\<rparr>) market;
          Some (Some i, market\<lparr>mk_traders_num := mk_traders_num market + 1\<rparr>) })"

definition trader_free :: "nat \<Rightarrow> market \<Rightarrow> market option" where
  "trader_free i market = upd_trader i (\<lambda>t. t\<lparr>tr_session := None, tr_active := False\<rparr>) market"

subsection \<open>A message of a trader\<close>

text \<open>What is outside: the kernel behind each socket, the answers of the allocator and of the clocks to \<open>fix_session_new\<close>,
  and \<open>round\<close> with the conversion of the \<open>double\<close> to an \<open>unsigned long\<close>.  The fuel is for a logout that
  \<open>fix_session_admin\<close> starts.\<close>

record 'k market_env =
  me_sys :: "i32 \<Rightarrow> 'k sys"
  me_session_ok :: "'k \<Rightarrow> bool"
  me_malloc :: "'k \<Rightarrow> ulong \<Rightarrow> mem option"
  me_message_ok :: "'k \<Rightarrow> bool"
  me_monotonic :: "'k \<Rightarrow> timespec option"
  me_realtime :: "'k \<Rightarrow> timespec option"
  me_round :: "u64 \<Rightarrow> ulong"
  me_fuel :: nat

fun field_loop :: "fix_field list \<Rightarrow> i32 \<Rightarrow> nat \<Rightarrow> nat \<Rightarrow> fix_field option option" where
  "field_loop fs tag i 0 = Some None"
| "field_loop fs tag i (Suc n) = do {
     f \<leftarrow> mem_get fs (int i);
     (if ff_tag f = tag then Some (Some f) else field_loop fs tag (Suc i) n) }"

definition fix_field_by_tag :: "fix_message \<Rightarrow> i32 \<Rightarrow> fix_field option option" where
  "fix_field_by_tag msg tag = field_loop (fm_fields msg) tag 0 (unat (fm_nr_fields msg))"

definition income_cfg :: "i32 \<Rightarrow> fix_session_cfg option" where
  "income_cfg sockfd = do {
     s \<leftarrow> c_strncpy (chars ''SELLSIDE'' @ [0]) 32;
     t \<leftarrow> c_strncpy (chars ''BUYSIDE'' @ [0]) 32;
     Some (fix_session_cfg_init\<lparr>cfg_sender_comp_id := s, cfg_target_comp_id := t,
       cfg_dialect := Some (fix_dialects FIX_4_4), cfg_sockfd := sockfd\<rparr>) }"

text \<open>The trader of the socket, a new one when there is none; no trader means \<open>goto fail\<close>.\<close>

definition income_trader :: "'k market_env \<Rightarrow> market \<Rightarrow> i32 \<Rightarrow> 'k \<Rightarrow> (nat option \<times> market) option" where
  "income_trader env market sockfd k = do {
     f \<leftarrow> trader_by_sock market sockfd;
     (case f of
        Some i \<Rightarrow> Some (Some i, market)
      | None \<Rightarrow> do {
          (f, market) \<leftarrow> trader_new market;
          (case f of
             None \<Rightarrow> Some (None, market)
           | Some i \<Rightarrow> do {
               cfg \<leftarrow> income_cfg sockfd;
               s \<leftarrow> fix_session_new (me_session_ok env k) (me_malloc env k) (me_message_ok env k) (me_monotonic env k) (me_realtime env k) cfg;
               market \<leftarrow> upd_trader i (tr_session_update (\<lambda>_. s)) market;
               Some (if s = None then None else Some i, market) }) }) }"

text \<open>The label \<open>logout\<close>; the socket is closed.\<close>

definition income_logout :: "'k sys \<Rightarrow> nat \<Rightarrow> fix_session \<Rightarrow> market \<Rightarrow> 'k \<Rightarrow> (i32 \<times> bool \<times> market \<times> trade list \<times> 'k) option" where
  "income_logout c i s market k = do {
     (r, s, k) \<leftarrow> send_message c s (new_message FIX_MSG_TYPE_LOGOUT 0 []) 0 k;
     market \<leftarrow> trader_free i market;
     Some (0, True, market, [], k) }"

definition income_logon :: "'k sys \<Rightarrow> nat \<Rightarrow> fix_session \<Rightarrow> market \<Rightarrow> 'k \<Rightarrow> (i32 \<times> bool \<times> market \<times> trade list \<times> 'k) option" where
  "income_logon c i s market k =
     (if \<not> fix_message_type_is (rx_message s) FIX_MSG_TYPE_LOGON then income_logout c i s market k
      else do {
        f \<leftarrow> fix_field_by_tag (rx_message s) SenderCompID;
        (case f of
           None \<Rightarrow> income_logout c i s market k
         | Some f \<Rightarrow> do {
             cs \<leftarrow> string_at (data (rx_buffer s)) f;
             name \<leftarrow> c_strncpy cs 32;
             (r, s, k) \<leftarrow> send_message c s (new_message FIX_MSG_TYPE_LOGON 0 []) 0 k;
             market \<leftarrow> upd_trader i (\<lambda>t. t\<lparr>tr_name := name, tr_active := True, tr_session := Some s\<rparr>) market;
             Some (0, False, market, [], k) }) })"

text \<open>The order in a message, when it has all it needs.\<close>

definition income_order :: "(u64 \<Rightarrow> ulong) \<Rightarrow> ulong \<Rightarrow> mem \<Rightarrow> fix_message \<Rightarrow> sim_order option option" where
  "income_order rnd ident rx msg = do {
     f \<leftarrow> fix_field_by_tag msg Side;
     (case f of
        None \<Rightarrow> Some None
      | Some f \<Rightarrow> do {
          cs \<leftarrow> string_at rx f;
          ch \<leftarrow> mem_get cs 0;
          (if ch \<noteq> 49 \<and> ch \<noteq> 50 then Some None
           else do {
             f \<leftarrow> fix_field_by_tag msg Price;
             (case f of
                None \<Rightarrow> Some None
              | Some f \<Rightarrow> do {
                  price \<leftarrow> float_of_value (ff_value f);
                  f \<leftarrow> fix_field_by_tag msg OrderQty;
                  (case f of
                     None \<Rightarrow> Some None
                   | Some f \<Rightarrow> do {
                       qty \<leftarrow> float_of_value (ff_value f);
                       Some (Some \<lparr>o_trader = ident, o_level = rnd price, o_next = None, o_prev = None,
                         o_side = (if ch = 49 then 0 else 1), o_size = rnd qty\<rparr>) }) }) }) }) }"

text \<open>The result: what the code returns, whether it has closed the socket, the market and what was printed.\<close>

definition do_income :: "'k market_env \<Rightarrow> market \<Rightarrow> i32 \<Rightarrow> 'k \<Rightarrow> (i32 \<times> bool \<times> market \<times> trade list \<times> 'k) option" where
  "do_income env market sockfd k = do {
     (f, market) \<leftarrow> income_trader env market sockfd k;
     (case f of
        None \<Rightarrow> Some (-1, False, market, [], k)
      | Some i \<Rightarrow> do {
          t \<leftarrow> get_trader market i;
          s \<leftarrow> tr_session t;
          (r, s, k) \<leftarrow> fix_session_recv (me_sys env sockfd) s 0 k;
          market \<leftarrow> upd_trader i (tr_session_update (\<lambda>_. Some s)) market;
          (if r \<le>s 0 then Some (0, False, market, [], k)
           else if \<not> tr_active t then income_logon (me_sys env sockfd) i s market k
           else do {
             (handled, s, k) \<leftarrow> fix_session_admin (me_sys env sockfd) (fix_session_logout (me_sys env sockfd) (me_fuel env)) s (rx_message s) k;
             market \<leftarrow> upd_trader i (tr_session_update (\<lambda>_. Some s)) market;
             (if handled then Some (0, False, market, [], k)
              else if fix_message_type_is (rx_message s) FIX_MSG_TYPE_LOGOUT then income_logout (me_sys env sockfd) i s market k
              else if fix_message_type_is (rx_message s) FIX_MSG_TYPE_NEW_ORDER_SINGLE then do {
                ord \<leftarrow> income_order (me_round env) (tr_id t) (data (rx_buffer s)) (rx_message s);
                (case ord of
                   None \<Rightarrow> Some (0, False, market, [], k)
                 | Some ord \<Rightarrow> do {
                     (acc, b, ts) \<leftarrow> do_limit (mk_book market) ord;
                     Some (0, False, market\<lparr>mk_book := b\<rparr>, ts, k) }) }
              else Some (0, False, market, [], k)) }) }) }"

text \<open>\<open>ev_cb\<close> closes the socket when \<open>do_income\<close> fails.\<close>

definition ev_cb :: "'k market_env \<Rightarrow> market \<Rightarrow> i32 \<Rightarrow> 'k \<Rightarrow> (bool \<times> market \<times> trade list \<times> 'k) option" where
  "ev_cb env market sockfd k = do {
     (r, closed, market, ts, k) \<leftarrow> do_income env market sockfd k;
     Some (closed \<or> r \<noteq> 0, market, ts, k) }"

subsection \<open>The order in a message on the wire\<close>

text \<open>A message on the wire, with its fields: \<open>wire_of\<close> has some fields.\<close>

definition kv_wire :: "(i32 \<Rightarrow> fix_type) \<Rightarrow> fix_msg_type \<Rightarrow> ulong \<Rightarrow> (i32 \<times> u8 list) list \<Rightarrow> u8 list \<Rightarrow> bool" where
  "kv_wire tag_type t n kvs ws \<longleftrightarrow> (\<exists>bg body s. ws = wire_text bg body
     \<and> body = kv_text (MsgType, s) @ concat (map kv_text kvs) \<and> length body \<le> 1280
     \<and> 1 \<notin> set bg \<and> length bg \<le> 64 \<and> fix_msg_types t = Some s
     \<and> (\<forall>t v. (t, v) \<in> set kvs \<longrightarrow> 1 \<notin> set v \<and> tag_type t \<noteq> FIX_TYPE_CHECKSUM) \<and> tag_type CheckSum = FIX_TYPE_CHECKSUM
     \<and> length kvs \<le> 48 \<and> (\<forall>k. seq_after tag_type k kvs = n))"

lemma kv_wire_of: "kv_wire tag_type t n kvs ws \<Longrightarrow> wire_of tag_type t n ws"
  unfolding kv_wire_def wire_of_def by blast

definition has_fields :: "(i32 \<Rightarrow> fix_type) \<Rightarrow> (u8 list \<Rightarrow> u64) \<Rightarrow> (i32 \<times> u8 list) list \<Rightarrow> fix_session \<Rightarrow> bool" where
  "has_fields tag_type strtod kvs s \<longleftrightarrow> (\<exists>p suf. let fs = stored tag_type strtod p kvs in
     fm_nr_fields (rx_message s) = of_nat (length fs) \<and> take (length fs) (fm_fields (rx_message s)) = fs \<and> length fs \<le> 48
     \<and> mem_from (data (rx_buffer s)) p = Some (concat (map kv_text kvs) @ suf))"

lemma session_parse_fields:
  assumes ok: "session_ok s" and tt: "d_tag_type (s_dialect s) = Some tag_type" and w: "kv_wire tag_type t n kvs ws"
    and u: "unread s = ws @ r" and sl: "strtod_local (c_strtod c)" and fl: "flags AND FIX_PARSE_FLAG_NO_TYPE = 0"
    and p: "session_parse c s flags = Some (True, s')"
  shows "has_fields tag_type (c_strtod c) kvs s'"
proof -
  obtain bg body sx where b: "ws = wire_text bg body" "body = kv_text (MsgType, sx) @ concat (map kv_text kvs)"
      "length body \<le> 1280" "1 \<notin> set bg" "fix_msg_types t = Some sx" "length kvs \<le> 48" "tag_type CheckSum = FIX_TYPE_CHECKSUM"
    and kvs: "\<And>t v. (t, v) \<in> set kvs \<Longrightarrow> 1 \<notin> set v \<and> tag_type t \<noteq> FIX_TYPE_CHECKSUM"
    using w unfolding kv_wire_def by blast
  have h: "holds (rx_buffer s) (wire_text bg body @ r)" using session_ok_wf [OF ok] u b(1) by simp
  have len: "length (wire_text bg body @ r) < 2 ^ 31" using session_ok_length [OF ok] u b(1) by simp
  have room: "length kvs \<le> length (fm_fields (rx_message s))" "length (fm_fields (rx_message s)) < 2 ^ 32"
    using ok b(6) by (simp_all add: session_ok_def)
  let ?n3 = "length (head_text bg (length body)) + length (kv_text (MsgType, sx))" let ?p = "buffer_start (rx_buffer s) + int ?n3"
  let ?fs = "stored tag_type (c_strtod c) ?p kvs"
  from parse_wire [where tag_type = tag_type and strtod = "c_strtod c" and msg = "rx_message s", OF h len b(2-5) kvs sl b(7) fl room]
  obtain msg' where m: "fix_message_parse tag_type (c_strtod c) (rx_message s) (rx_buffer s) flags
        = Some (True, msg', buffer_advance (rx_buffer s) (of_nat (length ws)))"
      "fm_nr_fields msg' = of_nat (length ?fs)" "take (length ?fs) (fm_fields msg') = ?fs"
    unfolding b(1) by blast
  have s': "rx_message s' = msg'" "data (rx_buffer s') = data (rx_buffer s)"
    using p m(1) tt by (auto simp: session_parse_def buffer_advance_def Let_def split: if_splits)
  have fl48: "length ?fs \<le> 48" using stored_length [of tag_type "c_strtod c" ?p kvs] b(6) by simp
  have "wire_text bg body @ r = head_text bg (length body) @ kv_text (MsgType, sx) @ concat (map kv_text kvs)
      @ trailer_text (head_text bg (length body) @ body) @ r"
    using b(2) by (simp add: wire_text_def Let_def)
  then have d: "drop ?n3 (wire_text bg body @ r) = concat (map kv_text kvs) @ trailer_text (head_text bg (length body) @ body) @ r"
    and l: "?n3 \<le> length (wire_text bg body @ r)" by simp_all
  obtain suf where mf: "\<And>k. k \<le> length (wire_text bg body @ r) \<Longrightarrow>
      mem_from (data (rx_buffer s)) (buffer_start (rx_buffer s) + int k) = Some (drop k (wire_text bg body @ r) @ suf)"
    using holds_mem_from [OF h] by metis
  have "mem_from (data (rx_buffer s)) ?p = Some (drop ?n3 (wire_text bg body @ r) @ suf)" by (rule mf [OF l])
  then have mp: "mem_from (data (rx_buffer s)) ?p = Some (concat (map kv_text kvs) @ trailer_text (head_text bg (length body) @ body) @ r @ suf)"
    unfolding d by simp
  show ?thesis unfolding has_fields_def Let_def s'
    by (rule exI [of _ ?p], rule exI, intro conjI) (fact m(2) m(3) fl48 mp)+
qed

text \<open>What \<open>fix_session_recv\<close> hands out has the fields of the first message of the stream.\<close>

lemma recv_fields:
  assumes pf: "parsed_from c flags s (stream_of ((t, n, ws) # ms)) s'" and tt: "d_tag_type (s_dialect s) = Some tag_type"
    and w: "kv_wire tag_type t n kvs ws" and sl: "strtod_local (c_strtod c)" and fl: "flags AND FIX_PARSE_FLAG_NO_TYPE = 0"
  shows "has_fields tag_type (c_strtod c) kvs s'"
proof -
  obtain s0 p where s0: "session_ok s0" "s_dialect s0 = s_dialect s" "unread s0 @ p = ws @ stream_of ms"
      "session_parse c s0 flags = Some (True, s')"
    using pf by (auto simp: parsed_from_def stream_of_def)
  have tt0: "d_tag_type (s_dialect s0) = Some tag_type" using s0(2) tt by simp
  show ?thesis
  proof (cases "length ws \<le> length (unread s0)")
    case True
    then have "unread s0 = ws @ drop (length ws) (unread s0)"
      using s0(3) by (metis append_eq_append_conv_if append_take_drop_id)
    then show ?thesis by (rule session_parse_fields [OF s0(1) tt0 w _ sl fl s0(4)])
  next
    case False
    then have "unread s0 = take (length (unread s0)) ws" "length (unread s0) < length ws"
      using s0(3) by (metis append_eq_append_conv_if append_eq_conv_conj nat_le_linear, simp)
    from session_parse_part [OF s0(1) tt0 kv_wire_of [OF w] this fl, of c] s0(4) show ?thesis by auto
  qed
qed

lemma field_loop_find: "i + n \<le> length fs \<Longrightarrow> field_loop fs tag i n = Some (find (\<lambda>f. ff_tag f = tag) (take n (drop i fs)))"
proof (induction n arbitrary: i)
  case (Suc n)
  then have "take (Suc n) (drop i fs) = fs ! i # take n (drop (Suc i) fs)"
    by (simp add: Cons_nth_drop_Suc [symmetric])
  with Suc show ?case by (simp add: mem_get_Some del: of_nat_Suc)
qed simp

text \<open>The first field of a tag is the first that was sent.\<close>

lemma stored_find:
  assumes "tag_type tag = FIX_TYPE_FLOAT"
  shows "find (\<lambda>f. ff_tag f = tag) (stored tag_type strtod p kvs) = map_option (\<lambda>v. FIX_FLOAT_FIELD tag (strtod (v @ [1]))) (map_of kvs tag)"
  using assms
proof (induction tag_type strtod p kvs rule: stored.induct)
  case (2 tag_type strtod p t v kvs)
  then show ?case
    by (cases "tag_type t") (auto simp: Let_def FIX_INT_FIELD_def FIX_FLOAT_FIELD_def FIX_CHAR_FIELD_def FIX_STRING_FIELD_def)
qed simp

lemma mem_from_drop: "mem_from m p = Some xs \<Longrightarrow> k \<le> length xs \<Longrightarrow> mem_from m (p + int k) = Some (drop k xs)"
  by (auto simp: mem_from_def nat_add_distrib add.commute split: if_splits)

lemma stored_find_string:
  assumes "tag_type tag = FIX_TYPE_STRING" and "mem_from rx p = Some (concat (map kv_text kvs) @ suf)"
  shows "case map_of kvs tag of None \<Rightarrow> find (\<lambda>f. ff_tag f = tag) (stored tag_type strtod p kvs) = None
    | Some v \<Rightarrow> \<exists>q r. find (\<lambda>f. ff_tag f = tag) (stored tag_type strtod p kvs) = Some (FIX_STRING_FIELD tag (Rx q)) \<and>
        mem_from rx q = Some (v @ 1 # r)"
  using assms
proof (induction tag_type strtod p kvs rule: stored.induct)
  case (2 tag_type strtod p t v kvs)
  let ?k = "length (dec_digits (unat t)) + 1"
  have 1: "mem_from rx (p + int (length (kv_text (t, v)))) = Some (concat (map kv_text kvs) @ suf)"
    using mem_from_drop [OF "2.prems"(2), of "length (kv_text (t, v))"] by simp
  have 2: "mem_from rx (p + int (Suc (length (dec_digits (unat t))))) = Some (v @ 1 # concat (map kv_text kvs) @ suf)"
    using mem_from_drop [OF "2.prems"(2), of ?k] by (simp add: kv_text_def [of "(t, v)"])
  show ?case
  proof (cases "t = tag")
    case True
    then show ?thesis using "2.prems"(1) 2 by (auto simp: Let_def FIX_STRING_FIELD_def)
  next
    case False
    have "find (\<lambda>f. ff_tag f = tag) (stored tag_type strtod p ((t, v) # kvs)) =
        find (\<lambda>f. ff_tag f = tag) (stored tag_type strtod (p + int (length (kv_text (t, v)))) kvs)"
      using False by (cases "tag_type t")
        (auto simp: Let_def FIX_INT_FIELD_def FIX_FLOAT_FIELD_def FIX_CHAR_FIELD_def FIX_STRING_FIELD_def)
    moreover note "2.IH" [OF refl "2.prems"(1) 1]
    ultimately show ?thesis using False by (auto simp del: stored.simps split: option.splits)
  qed
qed simp

text \<open>The order that the fields of a message ask for: its first Side, Price and OrderQty.\<close>

definition kv_order :: "(u8 list \<Rightarrow> u64) \<Rightarrow> (u64 \<Rightarrow> ulong) \<Rightarrow> ulong \<Rightarrow> (i32 \<times> u8 list) list \<Rightarrow> sim_order option" where
  "kv_order strtod rnd ident kvs =
     (case (map_of kvs Side, map_of kvs Price, map_of kvs OrderQty) of
        (Some side, Some price, Some qty) \<Rightarrow>
          if take 1 side = [49] \<or> take 1 side = [50] then
            Some \<lparr>o_trader = ident, o_level = rnd (strtod (price @ [1])), o_next = None, o_prev = None,
              o_side = (if take 1 side = [49] then 0 else 1), o_size = rnd (strtod (qty @ [1]))\<rparr>
          else None
      | _ \<Rightarrow> None)"

lemma by_tag_find:
  assumes "fm_nr_fields (rx_message s) = of_nat (length fs)" "take (length fs) (fm_fields (rx_message s)) = fs" "length fs \<le> 48"
  shows "fix_field_by_tag (rx_message s) tag = Some (find (\<lambda>f. ff_tag f = tag) fs)"
proof -
  have n: "unat (fm_nr_fields (rx_message s)) = length fs" using assms(1,3) by (simp add: unat_of_nat_64)
  have "length fs \<le> length (fm_fields (rx_message s))" using arg_cong [OF assms(2), of length] by simp
  then show ?thesis unfolding fix_field_by_tag_def n by (simp add: field_loop_find assms(2))
qed

lemma income_order_kv:
  assumes "has_fields fix_tag_type strtod kvs s"
  shows "income_order rnd ident (data (rx_buffer s)) (rx_message s) = Some (kv_order strtod rnd ident kvs)"
proof -
  obtain p suf fs where f: "fs = stored fix_tag_type strtod p kvs" "fm_nr_fields (rx_message s) = of_nat (length fs)"
      "take (length fs) (fm_fields (rx_message s)) = fs" "length fs \<le> 48"
      "mem_from (data (rx_buffer s)) p = Some (concat (map kv_text kvs) @ suf)"
    using assms unfolding has_fields_def Let_def by blast
  note find = by_tag_find [OF f(2-4)]
  have ty: "fix_tag_type Side = FIX_TYPE_STRING" "fix_tag_type Price = FIX_TYPE_FLOAT" "fix_tag_type OrderQty = FIX_TYPE_FLOAT"
    by code_simp+
  have px: "fix_field_by_tag (rx_message s) Price = Some (map_option (\<lambda>v. FIX_FLOAT_FIELD Price (strtod (v @ [1]))) (map_of kvs Price))"
    unfolding find f(1) by (simp add: stored_find [where tag_type = fix_tag_type and tag = Price, OF ty(2)])
  have qx: "fix_field_by_tag (rx_message s) OrderQty = Some (map_option (\<lambda>v. FIX_FLOAT_FIELD OrderQty (strtod (v @ [1]))) (map_of kvs OrderQty))"
    unfolding find f(1) by (simp add: stored_find [where tag_type = fix_tag_type and tag = OrderQty, OF ty(3)])
  show ?thesis
  proof (cases "map_of kvs Side")
    case None
    then have "fix_field_by_tag (rx_message s) Side = Some None"
      using stored_find_string [where strtod = strtod and tag_type = fix_tag_type and tag = Side, OF ty(1) f(5)] unfolding find f(1) by simp
    then show ?thesis using None by (simp add: income_order_def kv_order_def)
  next
    case (Some v)
    then obtain q r where q: "fix_field_by_tag (rx_message s) Side = Some (Some (FIX_STRING_FIELD Side (Rx q)))"
        "mem_from (data (rx_buffer s)) q = Some (v @ 1 # r)"
      using stored_find_string [where strtod = strtod and tag_type = fix_tag_type and tag = Side, OF ty(1) f(5)] unfolding find f(1) by auto
    have sa: "string_at (data (rx_buffer s)) (FIX_STRING_FIELD Side (Rx q)) = Some (v @ 1 # r)"
      using q(2) by (simp add: string_at_def FIX_STRING_FIELD_def)
    have ch: "mem_get (v @ 1 # r) 0 = Some (case v of [] \<Rightarrow> 1 | c # cs \<Rightarrow> c)" by (cases v) (simp_all add: mem_get_def)
    show ?thesis
      unfolding income_order_def q(1) px qx kv_order_def Some Option.bind.bind_lunit option.case sa ch
      by (cases v; cases "map_of kvs Price"; cases "map_of kvs OrderQty") (auto simp: FIX_FLOAT_FIELD_def)
  qed
qed

subsection \<open>Readiness and one event\<close>

lemma upd_trader_Some: "get_trader m i = Some t \<Longrightarrow> upd_trader i f m = Some (m\<lparr>mk_traders := (mk_traders m)[i := f t]\<rparr>)"
  by (auto simp: upd_trader_def get_trader_def mem_get_def mem_put_def split: if_splits)

lemma get_trader_upd:
  "get_trader m i = Some t \<Longrightarrow> get_trader (m\<lparr>mk_traders := (mk_traders m)[i := t']\<rparr>) j = (if j = i then Some t' else get_trader m j)"
  by (auto simp: get_trader_def mem_get_def split: if_splits)

lemma traders_loop_cong:
  "length ts' = length ts \<Longrightarrow> (\<And>j. j < length ts \<Longrightarrow> p (ts' ! j) = p (ts ! j)) \<Longrightarrow> traders_loop p ts' i n = traders_loop p ts i n"
proof (induction n arbitrary: i)
  case (Suc n)
  have "traders_loop p ts' (Suc i) n = traders_loop p ts (Suc i) n" by (rule Suc.IH [OF Suc.prems])
  then show ?case using Suc.prems by (cases "i < length ts"; cases "p (ts ! i)") (auto simp: mem_get_def)
qed simp

lemma traders_loop_found: "traders_loop p ts i n = Some (Some j) \<Longrightarrow> \<exists>t. mem_get ts (int j) = Some t \<and> p t = Some True"
  by (induction n arbitrary: i) (auto simp: bind_eq_Some_conv split: if_splits)

lemma by_sock_upd:
  assumes "get_trader m i = Some t" "on_socket sock t' = on_socket sock t"
  shows "trader_by_sock (m\<lparr>mk_traders := (mk_traders m)[i := t']\<rparr>) sock = trader_by_sock m sock"
proof -
  have "traders_loop (\<lambda>t. Some (on_socket sock t)) ((mk_traders m)[i := t']) 0 (unat (mk_traders_num m)) =
      traders_loop (\<lambda>t. Some (on_socket sock t)) (mk_traders m) 0 (unat (mk_traders_num m))"
    by (rule traders_loop_cong) (use assms in \<open>auto simp: get_trader_def mem_get_def nth_list_update split: if_splits\<close>)
  then show ?thesis by (simp add: trader_by_sock_def)
qed

text \<open>The messages still to come from a trader: fields and bytes, numbered from \<open>n\<close> on.\<close>

type_synonym order_msg = "(i32 \<times> u8 list) list \<times> u8 list"

fun as_wires :: "ulong \<Rightarrow> order_msg list \<Rightarrow> wire_msg list" where
  "as_wires n [] = []"
| "as_wires n ((kvs, ws) # r) = (FIX_MSG_TYPE_NEW_ORDER_SINGLE, n, ws) # as_wires (n + 1) r"

fun order_wires :: "ulong \<Rightarrow> order_msg list \<Rightarrow> bool" where
  "order_wires n [] = True"
| "order_wires n ((kvs, ws) # r) \<longleftrightarrow> kv_wire fix_tag_type FIX_MSG_TYPE_NEW_ORDER_SINGLE n kvs ws \<and> order_wires (n + 1) r"

lemma order_wires_wires: "order_wires n r \<Longrightarrow> wires fix_tag_type (as_wires n r)"
  by (induction n r rule: order_wires.induct) (auto simp: wires_def kv_wire_of)

lemma as_wires_stream: "stream_of (as_wires n r) = concat (map snd r)"
  by (induction n r rule: as_wires.induct) (simp_all add: stream_of_def)

text \<open>A trader who is logged on at a socket, and whose next messages are \<open>r\<close>.\<close>

definition trader_ready :: "(i32 \<Rightarrow> 'k \<Rightarrow> u8 list) \<Rightarrow> (i32 \<Rightarrow> ulong) \<Rightarrow> market \<Rightarrow> 'k \<Rightarrow> i32 \<Rightarrow> order_msg list \<Rightarrow> bool" where
  "trader_ready pipe ident m k sock r \<longleftrightarrow> (\<exists>i t s. trader_by_sock m sock = Some (Some i) \<and> get_trader m i = Some t
     \<and> tr_session t = Some s \<and> tr_active t \<and> tr_id t = ident sock
     \<and> session_ok s \<and> d_tag_type (s_dialect s) = Some fix_tag_type
     \<and> order_wires (in_msg_seq_num s + 1) r \<and> unread s @ pipe sock k = concat (map snd r))"

text \<open>The kernel behind the sockets: each a stream, and reading one leaves the others alone.\<close>

definition sockets :: "'k market_env \<Rightarrow> (i32 \<Rightarrow> 'k \<Rightarrow> u8 list) \<Rightarrow> bool" where
  "sockets env pipe \<longleftrightarrow> (\<forall>sock. stream_socket (me_sys env sock) (pipe sock) \<and> strtod_local (c_strtod (me_sys env sock))
     \<and> (\<forall>other k n. other \<noteq> sock \<longrightarrow> pipe other (snd (k_recv (me_sys env sock) k n)) = pipe other k))"

definition enter_order :: "sim_order option \<Rightarrow> sim_book \<Rightarrow> (sim_book \<times> trade list) option" where
  "enter_order ord b = (case ord of None \<Rightarrow> Some (b, []) | Some x \<Rightarrow> do_command (Limit x) b)"

lemma recv_reads_once:
  "fix_session_recv c s flags k = Some (r, s', k') \<Longrightarrow> k' = k \<or> (\<exists>n. k' = snd (k_recv c k n))"
  by (auto simp: fix_session_recv_def Let_def bind_eq_Some_conv split: if_splits prod.splits)

lemma order_admin:
  assumes "fm_type msg = FIX_MSG_TYPE_NEW_ORDER_SINGLE" "msg_seq_num msg = in_msg_seq_num s"
  shows "fix_session_admin c lo s msg k = Some (False, s, k)"
  using assms by (simp add: fix_session_admin_def fix_msg_expected_def)

lemma ready_other:
  assumes rd: "trader_ready pipe ident m k other r" and i: "trader_by_sock m sock = Some (Some i)" "get_trader m i = Some t"
    and ne: "other \<noteq> sock" and s: "tr_session t = Some s" "s_sockfd s' = s_sockfd s" and pk: "pipe other k' = pipe other k"
  shows "trader_ready pipe ident (m\<lparr>mk_traders := (mk_traders m)[i := t\<lparr>tr_session := Some s'\<rparr>], mk_book := b\<rparr>) k' other r"
proof -
  let ?m = "m\<lparr>mk_traders := (mk_traders m)[i := t\<lparr>tr_session := Some s'\<rparr>]\<rparr>"
  from traders_loop_found [OF i(1) [unfolded trader_by_sock_def]] i(2) have "on_socket sock t" by (simp add: get_trader_def)
  then have sk: "s_sockfd s = sock" using s by (simp add: on_socket_def)
  have b: "trader_by_sock (?m\<lparr>mk_book := b\<rparr>) other = trader_by_sock ?m other" "get_trader (?m\<lparr>mk_book := b\<rparr>) j = get_trader ?m j" for j
    by (simp_all add: trader_by_sock_def get_trader_def)
  have bs: "trader_by_sock ?m other = trader_by_sock m other"
    by (rule by_sock_upd [OF i(2)]) (use s in \<open>simp add: on_socket_def\<close>)
  obtain j u v where j: "trader_by_sock m other = Some (Some j)" "get_trader m j = Some u" "tr_session u = Some v" "tr_active u" "tr_id u = ident other"
      "session_ok v" "d_tag_type (s_dialect v) = Some fix_tag_type" "order_wires (in_msg_seq_num v + 1) r"
      "unread v @ pipe other k = concat (map snd r)"
    using rd unfolding trader_ready_def by blast
  from traders_loop_found [OF j(1) [unfolded trader_by_sock_def]] j(2) have "on_socket other u" by (simp add: get_trader_def)
  then have "j \<noteq> i" using i(2) j(2) sk s(1) ne by (auto simp: on_socket_def)
  then have "get_trader ?m j = Some u" using get_trader_upd [OF i(2), of _ j] j(2) by simp
  moreover have "?m\<lparr>mk_book := b\<rparr> = m\<lparr>mk_traders := (mk_traders m)[i := t\<lparr>tr_session := Some s'\<rparr>], mk_book := b\<rparr>" by simp
  ultimately show ?thesis unfolding trader_ready_def using j bs b pk by metis
qed

text \<open>One event at a socket: the next message of the trader, whose order goes to the book, or nothing yet.\<close>

definition income_step :: "'k market_env \<Rightarrow> (i32 \<Rightarrow> 'k \<Rightarrow> u8 list) \<Rightarrow> (i32 \<Rightarrow> ulong) \<Rightarrow> market \<Rightarrow> 'k \<Rightarrow> i32 \<Rightarrow> order_msg list \<Rightarrow> market \<Rightarrow> trade list \<Rightarrow> 'k \<Rightarrow> bool" where
  "income_step env pipe ident m k sock r m' ts k' \<longleftrightarrow>
     (\<exists>kvs ws r'. r = (kvs, ws) # r' \<and> trader_ready pipe ident m' k' sock r' \<and> length (pipe sock k') \<le> length (pipe sock k) \<and>
        enter_order (kv_order (c_strtod (me_sys env sock)) (me_round env) (ident sock) kvs) (mk_book m) = Some (mk_book m', ts))
     \<or> trader_ready pipe ident m' k' sock r \<and> mk_book m' = mk_book m \<and> ts = [] \<and>
        (length (pipe sock k') < length (pipe sock k) \<or> r = [] \<or> \<not> blocking (me_sys env sock) (pipe sock))"

lemma order_event:
  assumes sk: "sockets env pipe" and rd: "trader_ready pipe ident m k sock r" and wf: "well_formed (mk_book m)"
  obtains m' ts k' where "do_income env m sock k = Some (0, False, m', ts, k')" "income_step env pipe ident m k sock r m' ts k'"
    "well_formed (mk_book m')"
    "\<And>other r. other \<noteq> sock \<Longrightarrow> trader_ready pipe ident m k other r \<Longrightarrow> trader_ready pipe ident m' k' other r"
    "\<And>other. other \<noteq> sock \<Longrightarrow> pipe other k' = pipe other k"
proof -
  let ?c = "me_sys env sock"
  obtain i t s where i: "trader_by_sock m sock = Some (Some i)" "get_trader m i = Some t" "tr_session t = Some s" "tr_active t"
      "tr_id t = ident sock" "session_ok s" "d_tag_type (s_dialect s) = Some fix_tag_type" "order_wires (in_msg_seq_num s + 1) r"
      "unread s @ pipe sock k = concat (map snd r)"
    using rd unfolding trader_ready_def by blast
  have so: "stream_socket ?c (pipe sock)" "strtod_local (c_strtod ?c)"
    and others: "\<And>other n. other \<noteq> sock \<Longrightarrow> pipe other (snd (k_recv ?c k n)) = pipe other k"
    using sk unfolding sockets_def by blast+
  let ?ms = "as_wires (in_msg_seq_num s + 1) r"
  have u: "unread s @ pipe sock k = stream_of ?ms" using i(9) by (simp add: as_wires_stream)
  have f0: "(0 :: ulong) AND FIX_PARSE_FLAG_NO_TYPE = 0" "(0 :: ulong) AND FIX_RECV_KEEP_IN_MSGSEQNUM = 0" by simp_all
  from recv_step [OF i(6,7) order_wires_wires [OF i(8)] u so f0] obtain q s1 k1 where
    q: "fix_session_recv ?c s 0 k = Some (q, s1, k1)" "recv_case ?c s (pipe sock) k q s1 k1 ?ms"
      "q = 1 \<longrightarrow> parsed_from ?c 0 s (stream_of ?ms) s1" by blast
  have ok1: "session_ok s1" "s_sockfd s1 = s_sockfd s" "s_dialect s1 = s_dialect s"
    using q(2) by (simp_all add: recv_case_def frame_def)
  have po: "pipe other k1 = pipe other k" if "other \<noteq> sock" for other
    using recv_reads_once [OF q(1)] others [OF that] by auto
  let ?t1 = "t\<lparr>tr_session := Some s1\<rparr>" let ?m1 = "m\<lparr>mk_traders := (mk_traders m)[i := ?t1]\<rparr>"
  have u1: "upd_trader i (tr_session_update (\<lambda>_. Some s1)) m = Some ?m1" by (rule upd_trader_Some [OF i(2)])
  have g1: "get_trader ?m1 i = Some ?t1" using get_trader_upd [OF i(2), of ?t1 i] by simp
  have u2: "upd_trader i (tr_session_update (\<lambda>_. Some s1)) ?m1 = Some ?m1"
    using upd_trader_Some [OF g1, of "tr_session_update (\<lambda>_. Some s1)"] by simp
  have by1: "trader_by_sock ?m1 sock = Some (Some i)"
    using by_sock_upd [OF i(2), of sock ?t1] i(1,3) ok1(2) by (simp add: on_socket_def)
  have ready: "trader_ready pipe ident (?m1\<lparr>mk_book := b\<rparr>) k1 sock r'"
    if "order_wires (in_msg_seq_num s1 + 1) r'" "unread s1 @ pipe sock k1 = concat (map snd r')" for r' b
    unfolding trader_ready_def
    by (rule exI [of _ i], rule exI [of _ ?t1], rule exI [of _ s1])
      (use that by1 g1 i(4,5,7) ok1 in \<open>simp add: trader_by_sock_def get_trader_def\<close>)
  have other: "trader_ready pipe ident (?m1\<lparr>mk_book := b\<rparr>) k1 other r'"
    if "other \<noteq> sock" "trader_ready pipe ident m k other r'" for other r' b
    using ready_other [OF that(2) i(1,2) that(1) i(3) ok1(2) po [OF that(1)], of b] by simp
  have tr: "income_trader env m sock k = Some (Some i, m)" using i(1) by (simp add: income_trader_def)
  show thesis
  proof (cases "q = 1")
    case False
    with q(2) have r0: "q \<le>s 0" "unread s1 @ pipe sock k1 = stream_of ?ms" "in_msg_seq_num s1 = in_msg_seq_num s"
      by (auto simp: recv_case_def word_sle_eq)
    have "do_income env m sock k = Some (0, False, ?m1, [], k1)"
      unfolding do_income_def tr using i(2,3) q(1) u1 r0(1) by simp
    moreover have "length (pipe sock k1) < length (pipe sock k) \<or> r = [] \<or> \<not> blocking ?c (pipe sock)"
    proof (rule ccontr)
      assume n: "\<not> ?thesis"
      then have "?ms \<noteq> []" by (cases r) auto
      with q(2) False n obtain sz where z: "pipe sock k \<noteq> []" "0 < sz" "case fst (k_recv ?c k sz) of IoOk ds \<Rightarrow> ds = [] | IoErr e \<Rightarrow> True"
        by (auto simp: recv_case_def)
      moreover from z(1,2) n obtain ds k2 where "k_recv ?c k sz = (IoOk ds, k2)" "ds \<noteq> []" unfolding blocking_def by blast
      ultimately show False by simp
    qed
    then have "income_step env pipe ident m k sock r ?m1 [] k1"
      using ready [of r "mk_book m"] i(8) r0 by (simp add: income_step_def as_wires_stream)
    ultimately show thesis using that [of ?m1 "[]" k1] wf other [of _ _ "mk_book m"] po by simp
  next
    case True
    with q(2) obtain ty n ws ms' where m: "?ms = (ty, n, ws) # ms'" "unread s1 @ pipe sock k1 = stream_of ms'" "took s s1 ty n"
        "length (pipe sock k1) \<le> length (pipe sock k)"
      by (auto simp: recv_case_def)
    obtain kvs r' where r: "r = (kvs, ws) # r'" "ty = FIX_MSG_TYPE_NEW_ORDER_SINGLE" "n = in_msg_seq_num s + 1"
        "ms' = as_wires (in_msg_seq_num s + 1 + 1) r'"
      using m(1) by (cases r) auto
    have kw: "kv_wire fix_tag_type ty n kvs ws" "order_wires (in_msg_seq_num s + 1 + 1) r'" using i(8) r by simp_all
    have tk: "fm_type (rx_message s1) = FIX_MSG_TYPE_NEW_ORDER_SINGLE" "msg_seq_num (rx_message s1) = in_msg_seq_num s1"
        "in_msg_seq_num s1 = in_msg_seq_num s + 1"
      using m(3) r(2,3) by (simp_all add: took_def)
    have "parsed_from ?c 0 s (stream_of ((ty, n, ws) # ms')) s1" using q(3) True m(1) by simp
    from recv_fields [OF this i(7) kw(1) so(2) f0(1)] have hf: "has_fields fix_tag_type (c_strtod ?c) kvs s1" .
    let ?ord = "kv_order (c_strtod ?c) (me_round env) (ident sock) kvs"
    have io: "income_order (me_round env) (tr_id t) (data (rx_buffer s1)) (rx_message s1) = Some ?ord"
      unfolding i(5) by (rule income_order_kv [OF hf])
    have rr: "order_wires (in_msg_seq_num s1 + 1) r'" "unread s1 @ pipe sock k1 = concat (map snd r')"
      using kw(2) tk(3) m(2) r(4) by (simp_all add: as_wires_stream)
    obtain b ts where b: "enter_order ?ord (mk_book m) = Some (b, ts)" "well_formed b"
    proof (cases ?ord)
      case None
      then show thesis using that [of "mk_book m" "[]"] wf by (simp add: enter_order_def)
    next
      case (Some x)
      from engine.step_refines [OF wf, of "Limit x"] Some that show thesis by (auto simp: enter_order_def simp del: do_command.simps)
    qed
    have adm: "fix_session_admin ?c (fix_session_logout ?c (me_fuel env)) s1 (rx_message s1) k1 = Some (False, s1, k1)"
      by (rule order_admin [OF tk(1,2)])
    have pos: "\<not> (1 :: i32) \<le>s 0" by (simp add: word_sle_eq)
    have ev: "do_income env m sock k = Some (0, False, ?m1\<lparr>mk_book := b\<rparr>, ts, k1)"
      unfolding do_income_def tr using i(2,3,4) q(1) True u1 u2 adm tk(1) io b(1) pos
      by (cases ?ord) (auto simp: fix_message_type_is_def enter_order_def bind_eq_Some_conv)
    have "income_step env pipe ident m k sock r (?m1\<lparr>mk_book := b\<rparr>) ts k1"
      unfolding income_step_def using r(1) ready [OF rr, of b] m(4) b(1) by simp
    then show thesis using that [OF ev] b(2) other [of _ _ b] po by simp
  qed
qed

subsection \<open>A run of the market\<close>

text \<open>Events at the sockets, one after the other; the sockets that were closed, and what was printed.\<close>

fun market_run :: "'k market_env \<Rightarrow> market \<Rightarrow> i32 list \<Rightarrow> 'k \<Rightarrow> (i32 list \<times> market \<times> trade list \<times> 'k) option" where
  "market_run env m [] k = Some ([], m, [], k)"
| "market_run env m (sock # ev) k = do {
     (closed, m, ts, k) \<leftarrow> ev_cb env m sock k;
     (cs, m, ts', k) \<leftarrow> market_run env m ev k;
     Some ((if closed then [sock] else []) @ cs, m, ts @ ts', k) }"

definition orders_of :: "'k market_env \<Rightarrow> (i32 \<Rightarrow> ulong) \<Rightarrow> (i32 \<times> (i32 \<times> u8 list) list) list \<Rightarrow> command list" where
  "orders_of env ident taken = concat (map (\<lambda>(sock, kvs).
     case kv_order (c_strtod (me_sys env sock)) (me_round env) (ident sock) kvs of None \<Rightarrow> [] | Some x \<Rightarrow> [Limit x]) taken)"

text \<open>The messages that have been taken at a socket.\<close>

definition taken_at :: "i32 \<Rightarrow> (i32 \<times> 'a) list \<Rightarrow> 'a list" where
  "taken_at sock taken = map snd (filter (\<lambda>x. fst x = sock) taken)"

lemma taken_at_simps [simp]: "taken_at sock [] = []" "taken_at sock ((a, x) # xs) = (if a = sock then x # taken_at sock xs else taken_at sock xs)"
  by (simp_all add: taken_at_def)

lemma enter_orders:
  assumes "enter_order (kv_order (c_strtod (me_sys env sock)) (me_round env) (ident sock) kvs) b = Some (b1, ts)"
    and "run_all do_command (orders_of env ident taken) b1 = Some (b2, ts')"
  shows "run_all do_command (orders_of env ident ((sock, kvs) # taken)) b = Some (b2, ts @ ts')"
  using assms by (auto simp: orders_of_def enter_order_def simp del: do_command.simps split: option.splits)

lemma market_run_ready:
  assumes sk: "sockets env pipe"
  shows "well_formed (mk_book m) \<Longrightarrow> (\<And>sock. sock \<in> S \<Longrightarrow> trader_ready pipe ident m k sock (todo sock)) \<Longrightarrow> set ev \<subseteq> S \<Longrightarrow>
    \<exists>taken m' ts k'. market_run env m ev k = Some ([], m', ts, k') \<and> fst ` set taken \<subseteq> set ev
      \<and> run_all do_command (orders_of env ident taken) (mk_book m) = Some (mk_book m', ts)
      \<and> (\<forall>sock\<in>S. \<exists>rest. map fst (todo sock) = taken_at sock taken @ rest
           \<and> (blocking (me_sys env sock) (pipe sock) \<longrightarrow> length (pipe sock k) + length (todo sock) \<le> count_list ev sock \<longrightarrow> rest = []))"
proof (induction ev arbitrary: m k todo)
  case Nil
  then show ?case by (intro exI [of _ "[]"] exI [of _ m] exI [of _ k]) (auto simp: orders_of_def)
next
  case (Cons sock ev)
  have sS: "sock \<in> S" "set ev \<subseteq> S" using Cons.prems(3) by simp_all
  from order_event [OF sk Cons.prems(2) [OF sS(1)] Cons.prems(1)] obtain m1 ts1 k1 where
    e: "do_income env m sock k = Some (0, False, m1, ts1, k1)" "income_step env pipe ident m k sock (todo sock) m1 ts1 k1"
      "well_formed (mk_book m1)"
    and o: "\<And>other r. other \<noteq> sock \<Longrightarrow> trader_ready pipe ident m k other r \<Longrightarrow> trader_ready pipe ident m1 k1 other r"
    and po: "\<And>other. other \<noteq> sock \<Longrightarrow> pipe other k1 = pipe other k" by blast
  have ec: "ev_cb env m sock k = Some (False, m1, ts1, k1)" using e(1) by (simp add: ev_cb_def)
  from e(2) consider
    (took) kvs ws r' where "todo sock = (kvs, ws) # r'" "trader_ready pipe ident m1 k1 sock r'" "length (pipe sock k1) \<le> length (pipe sock k)"
      "enter_order (kv_order (c_strtod (me_sys env sock)) (me_round env) (ident sock) kvs) (mk_book m) = Some (mk_book m1, ts1)"
  | (none) "trader_ready pipe ident m1 k1 sock (todo sock)" "mk_book m1 = mk_book m" "ts1 = []"
      "length (pipe sock k1) < length (pipe sock k) \<or> todo sock = [] \<or> \<not> blocking (me_sys env sock) (pipe sock)"
    unfolding income_step_def by blast
  then show ?case
  proof cases
    case took
    let ?todo = "todo(sock := r')"
    have "trader_ready pipe ident m1 k1 x (?todo x)" if "x \<in> S" for x
      using o [of x "todo x"] Cons.prems(2) [OF that] took(2) by (cases "x = sock") auto
    from Cons.IH [OF e(3) this sS(2)] obtain taken m' ts k' where
      IH: "market_run env m1 ev k1 = Some ([], m', ts, k')" "fst ` set taken \<subseteq> set ev"
        "run_all do_command (orders_of env ident taken) (mk_book m1) = Some (mk_book m', ts)"
      and rest: "\<And>x. x \<in> S \<Longrightarrow> \<exists>rest. map fst (?todo x) = taken_at x taken @ rest
           \<and> (blocking (me_sys env x) (pipe x) \<longrightarrow> length (pipe x k1) + length (?todo x) \<le> count_list ev x \<longrightarrow> rest = [])"
      by blast
    have A: "market_run env m (sock # ev) k = Some ([], m', ts1 @ ts, k')" using ec IH(1) by simp
    have B: "fst ` set ((sock, kvs) # taken) \<subseteq> set (sock # ev)" using IH(2) by auto
    have C: "run_all do_command (orders_of env ident ((sock, kvs) # taken)) (mk_book m) = Some (mk_book m', ts1 @ ts)"
        by (rule enter_orders [OF took(4) IH(3)])
    have D: "\<exists>rest. map fst (todo x) = taken_at x ((sock, kvs) # taken) @ rest
           \<and> (blocking (me_sys env x) (pipe x) \<longrightarrow> length (pipe x k) + length (todo x) \<le> count_list (sock # ev) x \<longrightarrow> rest = [])"
        if x: "x \<in> S" for x
        using rest [OF x] took(1,3) po [of x] by (cases "x = sock") auto
    from A B C D show ?thesis by blast
  next
    case none
    have "trader_ready pipe ident m1 k1 x (todo x)" if "x \<in> S" for x
      using o [of x "todo x"] Cons.prems(2) [OF that] none(1) by (cases "x = sock") auto
    from Cons.IH [OF e(3) this sS(2)] obtain taken m' ts k' where
      IH: "market_run env m1 ev k1 = Some ([], m', ts, k')" "fst ` set taken \<subseteq> set ev"
        "run_all do_command (orders_of env ident taken) (mk_book m1) = Some (mk_book m', ts)"
      and rest: "\<And>x. x \<in> S \<Longrightarrow> \<exists>rest. map fst (todo x) = taken_at x taken @ rest
           \<and> (blocking (me_sys env x) (pipe x) \<longrightarrow> length (pipe x k1) + length (todo x) \<le> count_list ev x \<longrightarrow> rest = [])"
      by blast
    have A: "market_run env m (sock # ev) k = Some ([], m', ts, k')" using ec IH(1) none(3) by simp
    have B: "fst ` set taken \<subseteq> set (sock # ev)" using IH(2) by auto
    have C: "run_all do_command (orders_of env ident taken) (mk_book m) = Some (mk_book m', ts)" using IH(3) none(2) by simp
    have D: "\<exists>rest. map fst (todo x) = taken_at x taken @ rest
           \<and> (blocking (me_sys env x) (pipe x) \<longrightarrow> length (pipe x k) + length (todo x) \<le> count_list (sock # ev) x \<longrightarrow> rest = [])"
        if x: "x \<in> S" for x
        using rest [OF x] none(4) po [of x] by (cases "x = sock") auto
    from A B C D show ?thesis by blast
  qed
qed

subsection \<open>Properties\<close>

text \<open>C40: The market enters what its traders send.  Traders who are logged on send NewOrderSingle messages, numbered from the
  number that the market expects on, each with a body of at most 1280 bytes and at most 48 fields; the kernel cuts each of their
  streams as it likes, and the sockets become readable in any order.  The messages that are taken are, for each trader, a first part
  of those sent, in order, all of them when the socket blocks and is readable often enough.  No socket is closed.  What is printed
  and the book are those of price-time priority for the orders in these messages, in the order they are taken: the first Side, Price
  and OrderQty of each message with the number of its trader; a message without one of them, or with another side, is no order.\<close>

theorem market_orders:
  assumes "sockets env pipe" and "well_formed (mk_book m)" and "\<And>sock. sock \<in> S \<Longrightarrow> trader_ready pipe ident m k sock (todo sock)"
    and "set ev \<subseteq> S"
  shows "\<exists>taken m' k'. market_run env m ev k =
        Some ([], m', snd (run_spec command_spec (orders_of env ident taken) (abs_state (mk_book m))), k')
      \<and> abs_state (mk_book m') = fst (run_spec command_spec (orders_of env ident taken) (abs_state (mk_book m)))
      \<and> fst ` set taken \<subseteq> set ev
      \<and> (\<forall>sock\<in>S. \<exists>rest. map fst (todo sock) = taken_at sock taken @ rest
           \<and> (blocking (me_sys env sock) (pipe sock) \<longrightarrow> length (pipe sock k) + length (todo sock) \<le> count_list ev sock \<longrightarrow> rest = []))"
proof -
  from market_run_ready [OF assms] obtain taken m' ts k' where
    r: "market_run env m ev k = Some ([], m', ts, k')" "fst ` set taken \<subseteq> set ev"
      "run_all do_command (orders_of env ident taken) (mk_book m) = Some (mk_book m', ts)"
      "\<forall>sock\<in>S. \<exists>rest. map fst (todo sock) = taken_at sock taken @ rest
           \<and> (blocking (me_sys env sock) (pipe sock) \<longrightarrow> length (pipe sock k) + length (todo sock) \<le> count_list ev sock \<longrightarrow> rest = [])"
    by blast
  from engine.run_refines [OF assms(2), of "orders_of env ident taken"] r(3)
  have "ts = snd (run_spec command_spec (orders_of env ident taken) (abs_state (mk_book m)))"
    "abs_state (mk_book m') = fst (run_spec command_spec (orders_of env ident taken) (abs_state (mk_book m)))" by auto
  with r show ?thesis by blast
qed

text \<open>Two traders, at sockets 4 and 5, whose kernel holds the bytes of both: one sells 5 at 50, the other buys 3 at 60.\<close>

definition net_sys :: "i32 \<Rightarrow> (i32 \<Rightarrow> u8 list) sys" where
  "net_sys sock = \<lparr>c_strtod = (\<lambda>v. ucast (dec_val (takeWhile is_digit v) :: i32)), c_dtoa2 = (\<lambda>_. []),
     k_recv = (\<lambda>k n. (IoOk (take (unat n) (k sock)), k(sock := drop (unat n) (k sock)))),
     k_sendmsg = (\<lambda>k vs. (of_nat (length (concat vs)), k)), k_clock = (\<lambda>k. (0, k))\<rparr>"

definition net_env :: "(i32 \<Rightarrow> u8 list) market_env" where
  "net_env = \<lparr>me_sys = net_sys, me_session_ok = (\<lambda>_. True), me_malloc = (\<lambda>_ n. Some (replicate (unat n) 0)), me_message_ok = (\<lambda>_. True),
     me_monotonic = (\<lambda>_. Some \<lparr>tv_sec = 0, tv_nsec = 0\<rparr>), me_realtime = (\<lambda>_. Some \<lparr>tv_sec = 0, tv_nsec = 0\<rparr>),
     me_round = (\<lambda>x. x), me_fuel = 1\<rparr>"

lemma net_sockets: "sockets net_env (\<lambda>sock k. k sock)" "blocking (me_sys net_env sock) (\<lambda>k. k sock)"
proof -
  have "\<not> is_digit 1" by (simp add: is_digit_def word_le_nat_alt)
  then have 1: "takeWhile is_digit (v @ 1 # r) = takeWhile is_digit (v @ [1])" for v r :: "u8 list"
    by (induction v) simp_all
  have "strtod_local (c_strtod (net_sys sock))" for sock
    by (simp add: strtod_local_def net_sys_def, intro allI impI, subst 1, rule refl)
  then show "sockets net_env (\<lambda>sock k. k sock)"
    by (auto simp: sockets_def net_env_def net_sys_def stream_socket_def)
  show "blocking (me_sys net_env sock) (\<lambda>k. k sock)"
    by (auto simp: blocking_def net_env_def net_sys_def unat_gt_0)
qed

definition order_fields :: "string \<Rightarrow> string \<Rightarrow> string \<Rightarrow> (i32 \<times> u8 list) list" where
  "order_fields side price qty = [(49, chars ''BUYSIDE''), (56, chars ''SELLSIDE''), (34, chars ''2''), (52, chars ''20250101-10:00:00''),
     (Side, chars side), (Price, chars price), (OrderQty, chars qty)]"

definition order_bytes :: "(i32 \<times> u8 list) list \<Rightarrow> u8 list" where
  "order_bytes kvs = wire_text (chars ''FIX.4.4'') (kv_text (MsgType, chars ''D'') @ concat (map kv_text kvs))"

definition sell_msg :: order_msg where
  "sell_msg = (order_fields ''2'' ''50'' ''5'', order_bytes (order_fields ''2'' ''50'' ''5''))"

definition buy_msg :: order_msg where
  "buy_msg = (order_fields ''1'' ''60'' ''3'', order_bytes (order_fields ''1'' ''60'' ''3''))"

definition order_body :: "(i32 \<times> u8 list) list \<Rightarrow> u8 list" where
  "order_body kvs = kv_text (MsgType, chars ''D'') @ concat (map kv_text kvs)"

lemma order_fields_wire:
  assumes "length (order_body kvs) \<le> 1280" "list_all (\<lambda>(t, v). 1 \<notin> set v \<and> fix_tag_type t \<noteq> FIX_TYPE_CHECKSUM) kvs" "length kvs \<le> 48"
    and "\<And>k. seq_after fix_tag_type k kvs = 2"
  shows "kv_wire fix_tag_type FIX_MSG_TYPE_NEW_ORDER_SINGLE 2 kvs (order_bytes kvs)"
  unfolding kv_wire_def order_bytes_def
  by (rule exI [of _ "chars ''FIX.4.4''"], rule exI [of _ "order_body kvs"], rule exI [of _ "chars ''D''"])
    (use assms in \<open>auto simp: order_body_def chars_def list_all_iff fix_tag_type_def CheckSum_def\<close>)

lemma sample_orders_wires: "order_wires 2 [sell_msg]" "order_wires 2 [buy_msg]"
proof -
  have 1: "length (order_body (order_fields ''2'' ''50'' ''5'')) \<le> 1280" "length (order_body (order_fields ''1'' ''60'' ''3'')) \<le> 1280"
    "list_all (\<lambda>(t, v). 1 \<notin> set v \<and> fix_tag_type t \<noteq> FIX_TYPE_CHECKSUM) (order_fields ''2'' ''50'' ''5'')"
    "list_all (\<lambda>(t, v). 1 \<notin> set v \<and> fix_tag_type t \<noteq> FIX_TYPE_CHECKSUM) (order_fields ''1'' ''60'' ''3'')"
    "length (order_fields ''2'' ''50'' ''5'') \<le> 48" "length (order_fields ''1'' ''60'' ''3'') \<le> 48"
    by code_simp+
  have 2: "seq_after fix_tag_type k (order_fields ''2'' ''50'' ''5'') = 2" "seq_after fix_tag_type k (order_fields ''1'' ''60'' ''3'') = 2" for k
    by code_simp+
  from 1 2 show "order_wires 2 [sell_msg]" "order_wires 2 [buy_msg]"
    by (simp_all add: sell_msg_def buy_msg_def order_fields_wire)
qed

definition order_session :: "i32 \<Rightarrow> fix_session" where
  "order_session sock = session_zero\<lparr>s_dialect := fix_dialects FIX_4_4, in_msg_seq_num := 1, s_sockfd := sock,
     rx_buffer := \<lparr>b_start = 0, b_end = 0, capacity = 4096, data = replicate 4096 0\<rparr>\<rparr>"

definition order_market :: market where
  "order_market = market_init\<lparr>mk_traders_num := 2, mk_traders := (mk_traders market_init)
     [0 := \<lparr>tr_session = Some (order_session 4), tr_id = 0, tr_name = chars ''A'' @ replicate 31 0, tr_active = True\<rparr>,
      1 := \<lparr>tr_session = Some (order_session 5), tr_id = 1, tr_name = chars ''B'' @ replicate 31 0, tr_active = True\<rparr>]\<rparr>"

definition order_pipes :: "i32 \<Rightarrow> u8 list" where
  "order_pipes sock = (if sock = 4 then snd sell_msg else snd buy_msg)"

definition order_events :: "i32 list" where
  "order_events = concat (replicate 200 [5, 4])"

lemma order_session_ok: "session_ok (order_session sock)" "d_tag_type (s_dialect (order_session sock)) = Some fix_tag_type"
    "unread (order_session sock) = []" "in_msg_seq_num (order_session sock) = 1" "s_sockfd (order_session sock) = sock"
  by (simp_all add: session_ok_def order_session_def session_zero_def buffer_wf_def RECV_BUFFER_SIZE_def
      fix_message_new_def fix_dialects_def buf_bytes_def)

lemma order_traders:
  "trader_ready (\<lambda>sock k. k sock) (\<lambda>sock. if sock = 4 then 0 else 1) order_market order_pipes 4 [sell_msg]"
  "trader_ready (\<lambda>sock k. k sock) (\<lambda>sock. if sock = 4 then 0 else 1) order_market order_pipes 5 [buy_msg]"
proof -
  have t: "get_trader order_market 0 = Some \<lparr>tr_session = Some (order_session 4), tr_id = 0, tr_name = chars ''A'' @ replicate 31 0, tr_active = True\<rparr>"
    "get_trader order_market 1 = Some \<lparr>tr_session = Some (order_session 5), tr_id = 1, tr_name = chars ''B'' @ replicate 31 0, tr_active = True\<rparr>"
    "mk_traders_num order_market = 2"
    by (simp_all add: order_market_def market_init_def get_trader_def mem_get_def MAX_TRADERS_def)
  have n: "unat (mk_traders_num order_market) = Suc (Suc 0)" using t(3) by simp
  have s: "trader_by_sock order_market 4 = Some (Some 0)" "trader_by_sock order_market 5 = Some (Some 1)"
    unfolding trader_by_sock_def n using t order_session_ok(5) by (simp_all add: get_trader_def on_socket_def)
  show "trader_ready (\<lambda>sock k. k sock) (\<lambda>sock. if sock = 4 then 0 else 1) order_market order_pipes 4 [sell_msg]"
    unfolding trader_ready_def
    by (rule exI, rule exI, rule exI [of _ "order_session 4"], intro conjI, rule s(1), rule t(1))
      (simp_all add: order_session_ok sample_orders_wires order_pipes_def)
  show "trader_ready (\<lambda>sock k. k sock) (\<lambda>sock. if sock = 4 then 0 else 1) order_market order_pipes 5 [buy_msg]"
    unfolding trader_ready_def
    by (rule exI, rule exI, rule exI [of _ "order_session 5"], intro conjI, rule s(2), rule t(2))
      (simp_all add: order_session_ok sample_orders_wires order_pipes_def)
qed

theorem market_orders_witness:
  "\<exists>taken m' ts k'. market_run net_env order_market order_events order_pipes = Some ([], m', ts, k')
      \<and> taken_at 4 taken = [fst sell_msg] \<and> taken_at 5 taken = [fst buy_msg] \<and> fst ` set taken \<subseteq> {4, 5}
      \<and> abs_state (mk_book m') = fst (run_spec command_spec
           (orders_of net_env (\<lambda>sock. if sock = 4 then 0 else 1) taken) (abs_state order_book_init))"
proof -
  let ?todo = "\<lambda>sock :: i32. if sock = 4 then [sell_msg] else [buy_msg]"
  have ev: "set order_events = {4, 5}" "count_list order_events 4 = 200" "count_list order_events 5 = 200" by code_simp+
  have len: "length (snd sell_msg) + 1 \<le> 200" "length (snd buy_msg) + 1 \<le> 200" by code_simp+
  have book: "mk_book order_market = order_book_init" by (simp add: order_market_def market_init_def)
  have "trader_ready (\<lambda>sock k. k sock) (\<lambda>sock. if sock = 4 then 0 else 1) order_market order_pipes sock (?todo sock)"
    if "sock \<in> {4, 5}" for sock
    using that order_traders by auto
  from market_orders [where S = "{4, 5}" and ev = order_events, OF net_sockets(1) _ this] obtain taken m' k' where
    m: "market_run net_env order_market order_events order_pipes = Some ([], m',
          snd (run_spec command_spec (orders_of net_env (\<lambda>sock. if sock = 4 then 0 else 1) taken) (abs_state order_book_init)), k')"
      "abs_state (mk_book m') = fst (run_spec command_spec (orders_of net_env (\<lambda>sock. if sock = 4 then 0 else 1) taken) (abs_state order_book_init))"
      "fst ` set taken \<subseteq> {4, 5}"
      "\<forall>sock\<in>{4, 5}. \<exists>rest. map fst (?todo sock) = taken_at sock taken @ rest
           \<and> (blocking (me_sys net_env sock) (\<lambda>k. k sock) \<longrightarrow> length (order_pipes sock) + length (?todo sock) \<le> count_list order_events sock \<longrightarrow> rest = [])"
    using reachable_well_formed [OF reachable_book.init] ev(1) book by auto
  have "taken_at 4 taken = [fst sell_msg]" "taken_at 5 taken = [fst buy_msg]"
    using m(4) net_sockets(2) ev(2,3) len by (auto simp: order_pipes_def)
  with m show ?thesis by blast
qed

end
