(* ===== verification/Packed.thy ===== *)
theory Packed
  imports Prelude
begin

text \<open>
  Packed structures: the messages of the binary market data protocols.

  A \<open>struct\<close> with \<open>__attribute__((packed))\<close> is the list of its members, each with its type; an object of it
  is the concatenation of the members' bytes.  \<open>read_member\<close> is the access \<open>msg->name\<close>, with the conversion
  of the byte order (\<open>be32_to_cpu\<close> and so on) that the type of the member asks for.  Numbers without
  a byte order (\<open>u32\<close>) are in the order of the machine, which is little endian.
\<close>

subsection \<open>Members\<close>

datatype ctype = C_u8 | C_char | C_array nat | C_u32 | C_u64
  | C_be16 | C_be32 | C_be64 | C_le16 | C_le32 | C_le64

type_synonym layout = "(string \<times> ctype) list"

fun ctype_size :: "ctype \<Rightarrow> nat" where
  "ctype_size C_u8 = 1"
| "ctype_size C_char = 1"
| "ctype_size (C_array n) = n"
| "ctype_size C_u32 = 4"
| "ctype_size C_u64 = 8"
| "ctype_size C_be16 = 2"
| "ctype_size C_be32 = 4"
| "ctype_size C_be64 = 8"
| "ctype_size C_le16 = 2"
| "ctype_size C_le32 = 4"
| "ctype_size C_le64 = 8"

text \<open>\<open>sizeof\<close>\<close>

definition layout_size :: "layout \<Rightarrow> nat" where
  "layout_size l = sum_list (map (ctype_size \<circ> snd) l)"

datatype cvalue = Num nat | Arr "u8 list"

fun le_bytes :: "nat \<Rightarrow> nat \<Rightarrow> u8 list" where
  "le_bytes 0 v = []"
| "le_bytes (Suc w) v = of_nat v # le_bytes w (v div 256)"

fun le_value :: "u8 list \<Rightarrow> nat" where
  "le_value [] = 0"
| "le_value (c # cs) = unat c + 256 * le_value cs"

definition is_big_endian :: "ctype \<Rightarrow> bool" where
  "is_big_endian t \<longleftrightarrow> t \<in> {C_be16, C_be32, C_be64}"

fun member_bytes :: "ctype \<Rightarrow> cvalue \<Rightarrow> u8 list" where
  "member_bytes t (Arr bs) = bs"
| "member_bytes t (Num v) = (let bs = le_bytes (ctype_size t) v in if is_big_endian t then rev bs else bs)"

fun member_value :: "ctype \<Rightarrow> u8 list \<Rightarrow> cvalue" where
  "member_value (C_array n) bs = Arr bs"
| "member_value t bs = Num (le_value (if is_big_endian t then rev bs else bs))"

text \<open>The values a member can have.\<close>

fun member_fits :: "ctype \<Rightarrow> cvalue \<Rightarrow> bool" where
  "member_fits (C_array n) v \<longleftrightarrow> (case v of Arr bs \<Rightarrow> length bs = n | Num _ \<Rightarrow> False)"
| "member_fits t v \<longleftrightarrow> (case v of Num x \<Rightarrow> x < 256 ^ ctype_size t | Arr _ \<Rightarrow> False)"

lemma length_le_bytes [simp]: "length (le_bytes w v) = w"
  by (induction w arbitrary: v) auto

lemma le_value_bytes: "v < 256 ^ w \<Longrightarrow> le_value (le_bytes w v) = v"
proof (induction w arbitrary: v)
  case (Suc w)
  then have "v div 256 < 256 ^ w" by (simp add: less_mult_imp_div_less mult.commute)
  with Suc.IH have "le_value (le_bytes w (v div 256)) = v div 256" by blast
  moreover have "unat (of_nat v :: u8) = v mod 256" by (simp add: unat_of_nat)
  ultimately show ?case by simp
qed simp

lemma member_length: "member_fits t v \<Longrightarrow> length (member_bytes t v) = ctype_size t"
  by (cases t; cases v) (auto simp: Let_def)

lemma member_roundtrip: "member_fits t v \<Longrightarrow> member_value t (member_bytes t v) = v"
  by (cases t; cases v) (auto simp: Let_def is_big_endian_def le_value_bytes unat_of_nat)

subsection \<open>Structures\<close>

fun struct_bytes :: "layout \<Rightarrow> cvalue list \<Rightarrow> u8 list" where
  "struct_bytes ((n, t) # l) (v # vs) = member_bytes t v @ struct_bytes l vs"
| "struct_bytes _ _ = []"

fun struct_fits :: "layout \<Rightarrow> cvalue list \<Rightarrow> bool" where
  "struct_fits [] [] = True"
| "struct_fits ((n, t) # l) (v # vs) \<longleftrightarrow> member_fits t v \<and> struct_fits l vs"
| "struct_fits _ _ = False"

fun read_member :: "layout \<Rightarrow> string \<Rightarrow> u8 list \<Rightarrow> cvalue option" where
  "read_member [] name bs = None"
| "read_member ((n, t) # l) name bs =
     (if n = name then Some (member_value t (take (ctype_size t) bs)) else read_member l name (drop (ctype_size t) bs))"

text \<open>All members, in order.\<close>

definition read_members :: "layout \<Rightarrow> u8 list \<Rightarrow> cvalue option list" where
  "read_members l bs = map (\<lambda>(n, t). read_member l n bs) l"

lemma struct_length: "struct_fits l vs \<Longrightarrow> length (struct_bytes l vs) = layout_size l"
  by (induction l vs rule: struct_fits.induct) (auto simp: member_length layout_size_def)

lemma read_member_skip:
  "name \<noteq> n \<Longrightarrow> length bs = ctype_size t \<Longrightarrow> read_member ((n, t) # l) name (bs @ r) = read_member l name r"
  by simp

lemma struct_roundtrip:
  "struct_fits l vs \<Longrightarrow> distinct (map fst l) \<Longrightarrow> read_members l (struct_bytes l vs @ r) = map Some vs"
proof (induction l vs rule: struct_fits.induct)
  case (2 n t l v vs)
  then have v: "member_fits t v" and vs: "struct_fits l vs" "distinct (map fst l)" "n \<notin> fst ` set l" by auto
  have len: "length (member_bytes t v) = ctype_size t" by (rule member_length [OF v])
  have hd: "read_member ((n, t) # l) n (struct_bytes ((n, t) # l) (v # vs) @ r) = Some v"
    by (simp add: len member_roundtrip [OF v])
  have "map (\<lambda>(m, u). read_member ((n, t) # l) m (struct_bytes ((n, t) # l) (v # vs) @ r)) l
      = map (\<lambda>(m, u). read_member l m (struct_bytes l vs @ r)) l"
    using vs(3) by (intro map_cong) (auto simp: len image_iff split: prod.splits)
  with hd 2(1) [OF vs(1,2)] show ?case by (simp add: read_members_def)
qed (simp_all add: read_members_def)

end
