(* ===== verification/Feed.thy ===== *)
theory Feed
  imports Packed Buffer
begin

text \<open>
  Decoders of market data feeds.  Every protocol has a decoder that takes one message off a buffer, or says that
  there is none; programs call it until it says so.  The locale \<open>whole_feed\<close> is the part of that contract that
  all but the faulty decoders keep: a whole message is taken off, exactly.  The locale \<open>feed\<close> adds that an
  incomplete message is left alone.  From it follows what a program sees of a stream of messages.  A \<open>sized_feed\<close> is a feed whose messages begin with their type, and whose decoder
  looks up the size of the type.
\<close>

subsection \<open>The loop of a program\<close>

text \<open>\<open>while ((msg = decode(buf)))\<close>: the results that were messages.\<close>

fun drain :: "(buffer \<Rightarrow> ('r \<times> buffer) option) \<Rightarrow> ('r \<Rightarrow> bool) \<Rightarrow> nat \<Rightarrow> buffer \<Rightarrow> ('r list \<times> buffer) option" where
  "drain decode got 0 b = None"
| "drain decode got (Suc fuel) b = do {
     (x, b) \<leftarrow> decode b;
     (if got x then do {
        (xs, b) \<leftarrow> drain decode got fuel b;
        Some (x # xs, b) }
      else Some ([], b)) }"

text \<open>A given number of calls.\<close>

fun calls :: "(buffer \<Rightarrow> ('r \<times> buffer) option) \<Rightarrow> nat \<Rightarrow> buffer \<Rightarrow> ('r list \<times> buffer) option" where
  "calls decode 0 b = Some ([], b)"
| "calls decode (Suc n) b = do {
     (x, b) \<leftarrow> decode b;
     (xs, b) \<leftarrow> calls decode n b;
     Some (x # xs, b) }"

subsection \<open>The contract\<close>

text \<open>\<open>hands d x m\<close>: with the result \<open>x\<close> of the decoder, the program has the message \<open>m\<close>, given the
  memory \<open>d\<close> of the buffer.\<close>

locale whole_feed =
  fixes decode :: "buffer \<Rightarrow> ('r \<times> buffer) option"
    and got :: "'r \<Rightarrow> bool"
    and hands :: "mem \<Rightarrow> 'r \<Rightarrow> u8 list \<Rightarrow> bool"
    and framed :: "u8 list \<Rightarrow> bool"
  assumes whole: "holds b (m @ r) \<Longrightarrow> framed m \<Longrightarrow>
      \<exists>x. decode b = Some (x, buffer_advance b (of_nat (length m))) \<and> got x \<and> hands (data b) x m"
begin

text \<open>As many calls as there are messages take exactly these.\<close>

lemma counted:
  "holds b (concat ms @ r) \<Longrightarrow> \<forall>m\<in>set ms. framed m \<Longrightarrow>
     \<exists>xs b'. calls decode (length ms) b = Some (xs, b') \<and> list_all got xs \<and> list_all2 (hands (data b)) xs ms
       \<and> holds b' r \<and> data b' = data b"
proof (induction ms arbitrary: b)
  case (Cons m ms)
  then have h: "holds b (m @ concat ms @ r)" and f: "framed m" by auto
  from whole [OF h f] obtain x where
    x: "decode b = Some (x, buffer_advance b (of_nat (length m)))" "got x" "hands (data b) x m" by blast
  have "holds (buffer_advance b (of_nat (length m))) (concat ms @ r)"
    using holds_advance [OF h, of "length m"] by simp
  from Cons.IH [OF this] Cons.prems(2) obtain xs b' where
    "calls decode (length ms) (buffer_advance b (of_nat (length m))) = Some (xs, b')"
    "list_all got xs" "list_all2 (hands (data b)) xs ms" "holds b' r" "data b' = data b" by auto
  with x show ?case by (intro exI [of _ "x # xs"] exI [of _ b']) simp
qed simp

end

locale feed = whole_feed +
  assumes part: "holds b p \<Longrightarrow> framed (p @ q) \<Longrightarrow> q \<noteq> [] \<Longrightarrow> \<exists>x. decode b = Some (x, b) \<and> \<not> got x"
    and none: "holds b [] \<Longrightarrow> \<exists>x. decode b = Some (x, b) \<and> \<not> got x"
begin

lemma drains:
  assumes "holds b (concat ms @ p)" "\<forall>m\<in>set ms. framed m" "p = [] \<or> (\<exists>q. q \<noteq> [] \<and> framed (p @ q))"
  shows "\<exists>xs b'. drain decode got (Suc (length ms)) b = Some (xs, b') \<and> list_all2 (hands (data b)) xs ms
    \<and> holds b' p \<and> data b' = data b"
  using assms
proof (induction ms arbitrary: b)
  case Nil
  then have "\<exists>x. decode b = Some (x, b) \<and> \<not> got x" using part [of b p] none [of b] by auto
  with Nil show ?case by auto
next
  case (Cons m ms)
  then have h: "holds b (m @ concat ms @ p)" and f: "framed m" by auto
  from whole [OF h f] obtain x where
    x: "decode b = Some (x, buffer_advance b (of_nat (length m)))" "got x" "hands (data b) x m" by blast
  have "holds (buffer_advance b (of_nat (length m))) (concat ms @ p)"
    using holds_advance [OF h, of "length m"] by simp
  from Cons.IH [OF this] Cons.prems(2,3) obtain xs b' where
    "drain decode got (Suc (length ms)) (buffer_advance b (of_nat (length m))) = Some (xs, b')"
    "list_all2 (hands (data b)) xs ms" "holds b' p" "data b' = data b"
    by (auto simp del: drain.simps)
  moreover from this(1) x have "drain decode got (Suc (length (m # ms))) b = Some (x # xs, b')"
    by (subst drain.simps(2)) (simp del: drain.simps)
  ultimately show ?case using x(3) by (intro exI [of _ "x # xs"] exI [of _ b']) (simp del: drain.simps)
qed

end

subsection \<open>Messages with a type and a size\<close>

text \<open>The \<open>switch\<close> over the message types: the size of the structure, or 0.\<close>

fun switch :: "u8 \<Rightarrow> (u8 \<times> layout) list \<Rightarrow> ulong" where
  "switch t [] = 0"
| "switch t ((c, l) # cs) = (if t = c then of_nat (layout_size l) else switch t cs)"

text \<open>The decoder that the protocols share, up to their sizes: the result points into the buffer.\<close>

definition typed_decode :: "(u8 \<Rightarrow> ulong) \<Rightarrow> buffer \<Rightarrow> (ptr option \<times> buffer) option" where
  "typed_decode message_size buf =
     (let available = buffer_size buf in
      if available = 0 then Some (None, buf)
      else do {
        type \<leftarrow> buffer_peek_8 buf;
        (let sz = message_size type in
         if sz = 0 then Some (None, buf)
         else if available < sz then Some (None, buf)
         else Some (Some (buffer_start buf), buffer_advance buf sz)) })"

definition points_to :: "mem \<Rightarrow> ptr option \<Rightarrow> u8 list \<Rightarrow> bool" where
  "points_to d x m \<longleftrightarrow> (\<exists>p. x = Some p \<and> 0 \<le> p \<and> take (length m) (drop (nat p) d) = m)"

definition sized :: "(u8 \<Rightarrow> ulong) \<Rightarrow> u8 list \<Rightarrow> bool" where
  "sized message_size m \<longleftrightarrow> m \<noteq> [] \<and> unat (message_size (hd m)) = length m"

lemma holds_points:
  assumes "holds b (m @ r)"
  shows "points_to (data b) (Some (buffer_start b)) m"
proof -
  have "take (length (m @ r)) (drop (unat (b_start b)) (data b)) = m @ r"
    using assms holds_length [OF assms] by (auto simp: holds_def buf_bytes_def seg_def drop_take)
  from arg_cong [OF this, of "take (length m)"] show ?thesis
    by (auto simp: points_to_def buffer_start_def min_def)
qed

lemma buffer_start_int: "buffer_start b = int (unat (b_start b))"
  by (simp add: buffer_start_def uint_nat del: of_nat_unat)

lemma holds_nth:
  assumes "holds b bs" "i < length bs"
  shows "mem_get (data b) (buffer_start b + int i) = Some (bs ! i)"
proof -
  define s where "s = unat (b_start b)"
  have "unat (b_end b) \<le> length (data b)" "bs = seg s (unat (b_end b)) (data b)"
    using assms(1) by (auto simp: holds_def buffer_wf_def buf_bytes_def s_def)
  with assms(2) have "s + i < length (data b)" "bs ! i = data b ! (s + i)" by (auto simp: seg_def)
  then show ?thesis unfolding buffer_start_int s_def [symmetric] by (simp add: mem_get_def nat_add_distrib)
qed

lemma holds_load_prefix:
  assumes "holds b (m @ r)"
  shows "mem_load (data b) (buffer_start b) (length m) = Some m"
proof -
  define s where "s = unat (b_start b)"
  have "take (length m) (drop s (data b)) = m"
    using holds_points [OF assms] by (simp add: points_to_def buffer_start_int s_def)
  moreover have "s + length m \<le> length (data b)"
    using holds_length [OF assms] assms by (auto simp: holds_def buffer_wf_def s_def)
  ultimately show ?thesis unfolding buffer_start_int s_def [symmetric] by (simp add: mem_load_def)
qed

lemma unat_ucast_up: "unat (ucast (w :: 'a::len word) :: 'b::len word) = unat w" if "LENGTH('a) \<le> LENGTH('b)"
proof -
  have "(2 :: nat) ^ LENGTH('a) \<le> 2 ^ LENGTH('b)" by (rule power_increasing [OF that]) simp
  with unat_less_power [of w] have "unat w < 2 ^ LENGTH('b)" by (rule less_le_trans)
  then show ?thesis by (simp add: unsigned_ucast_eq take_bit_nat_eq_self)
qed

text \<open>Two bytes make a number.\<close>

lemma unat_two_bytes: "unat (push_bit 8 (ucast (hi :: u8)) OR ucast (lo :: u8) :: u16) = unat lo + 256 * unat hi"
proof -
  have "push_bit 8 (ucast hi) AND (ucast lo :: u16) = 0"
    by (rule bit_word_eqI) (auto simp: bit_simps dest: bit_imp_le_length)
  then have "push_bit 8 (ucast hi) OR ucast lo = (push_bit 8 (ucast hi) + ucast lo :: u16)" by (simp add: disjunctive_add_eq_or)
  moreover have "unat hi < 256" "unat lo < 256" using unat_less_power [of hi] unat_less_power [of lo] by simp_all
  ultimately show ?thesis by (simp add: push_bit_eq_mult unat_word_ariths unat_ucast_up)
qed

lemma holds_get_le16:
  "holds b (c0 # c1 # r) \<Longrightarrow> buffer_get_le16 b = Some (ucast c0 OR push_bit 8 (ucast c1), buffer_advance b 2)"
  using holds_get_8 [of b c0 "c1 # r"] holds_get_8 [OF holds_advance_1 [of b c0 "c1 # r"]]
  by (simp add: buffer_get_le16_def)

lemma holds_get_be16:
  "holds b (c0 # c1 # r) \<Longrightarrow> buffer_get_be16 b = Some (push_bit 8 (ucast c0) OR ucast c1, buffer_advance b 2)"
  using holds_get_8 [of b c0 "c1 # r"] holds_get_8 [OF holds_advance_1 [of b c0 "c1 # r"]]
  by (simp add: buffer_get_be16_def)

lemma holds_peek_le16:
  "holds b (c0 # c1 # r) \<Longrightarrow> buffer_peek_le16 b = Some (push_bit 8 (ucast c1) OR ucast c0)"
  using holds_peek_8 [of b c0 "c1 # r"] holds_peek_8 [OF holds_advance_1 [of b c0 "c1 # r"]]
  by (simp add: buffer_peek_le16_def buffer_peek_8_def buffer_advance_def)

text \<open>What the decoders find when a message is there completely, and when it is not.\<close>

lemma sized_whole:
  assumes h: "holds b (m @ r)" and s: "sized message_size m"
  shows "buffer_size b \<noteq> 0" "buffer_peek_8 b = Some (hd m)" "message_size (hd m) = of_nat (length m)"
    "(of_nat (length m) :: ulong) \<noteq> 0" "\<not> buffer_size b < of_nat (length m)" "unat (of_nat (length m) :: ulong) = length m"
proof -
  obtain t m' where m: "m = t # m'" using s by (cases m) (auto simp: sized_def)
  have sz: "unat (message_size t) = length m" using s by (simp add: sized_def m)
  have "of_nat (unat (message_size t)) = message_size t" by simp
  then show e: "message_size (hd m) = of_nat (length m)" unfolding sz by (simp only: m list.sel)
  show u: "unat (of_nat (length m) :: ulong) = length m" using e sz by (simp add: m)
  then show "(of_nat (length m) :: ulong) \<noteq> 0" by (auto simp: m)
  show "\<not> buffer_size b < of_nat (length m)" using holds_size [OF h] u by (simp add: word_less_nat_alt)
  show "buffer_size b \<noteq> 0" using holds_size_0 [OF h] by (simp add: m)
  show "buffer_peek_8 b = Some (hd m)" using h by (simp add: m holds_peek_8)
qed

lemma sized_part:
  assumes h: "holds b p" and s: "sized message_size (p @ q)" and q: "q \<noteq> []" and p: "p \<noteq> []"
  shows "buffer_size b \<noteq> 0" "buffer_peek_8 b = Some (hd p)" "message_size (hd p) \<noteq> 0" "buffer_size b < message_size (hd p)"
proof -
  obtain t p' where t: "p = t # p'" using p by (cases p) auto
  have "unat (buffer_size b) < unat (message_size t)" using holds_size [OF h] s q by (simp add: sized_def t)
  then show "buffer_size b < message_size (hd p)" by (simp add: word_less_nat_alt t)
  then show "message_size (hd p) \<noteq> 0" by auto
  show "buffer_size b \<noteq> 0" using holds_size_0 [OF h] p by simp
  show "buffer_peek_8 b = Some (hd p)" using h by (simp add: t holds_peek_8)
qed

lemma typed_whole:
  "holds b (m @ r) \<Longrightarrow> sized message_size m \<Longrightarrow>
     typed_decode message_size b = Some (Some (buffer_start b), buffer_advance b (of_nat (length m)))"
  using sized_whole [of b m r message_size] by (simp add: typed_decode_def Let_def)

lemma typed_part:
  "holds b p \<Longrightarrow> sized message_size (p @ q) \<Longrightarrow> q \<noteq> [] \<Longrightarrow> typed_decode message_size b = Some (None, b)"
  using sized_part [of b p message_size q] holds_size_0 [of b p] by (cases "p = []") (simp_all add: typed_decode_def Let_def)

text \<open>A decoder that copies the message into a structure of the caller, called with the structure \<open>msg\<close>.\<close>

definition with_msg :: "(buffer \<Rightarrow> mem \<Rightarrow> (i32 \<times> mem \<times> buffer) option) \<Rightarrow> mem \<Rightarrow> buffer \<Rightarrow> ((i32 \<times> mem) \<times> buffer) option" where
  "with_msg decode msg b = do {
     (r, msg, b) \<leftarrow> decode b msg;
     Some ((r, msg), b) }"

fun copied :: "i32 \<times> mem \<Rightarrow> bool" where
  "copied (r, msg) \<longleftrightarrow> r = 0"

fun copy_of :: "mem \<Rightarrow> i32 \<times> mem \<Rightarrow> u8 list \<Rightarrow> bool" where
  "copy_of d (r, msg) m \<longleftrightarrow> take (length m) msg = m"

lemma mem_store_prefix: "length m \<le> length msg \<Longrightarrow> mem_store msg 0 m = Some (m @ drop (length m) msg)"
  using mem_store_Some [of 0 m msg] by simp

locale sized_feed =
  fixes message_size :: "u8 \<Rightarrow> ulong"
    and message_decode :: "buffer \<Rightarrow> (ptr option \<times> buffer) option"
  assumes decode: "message_decode b = typed_decode message_size b"

sublocale sized_feed \<subseteq> feed message_decode "\<lambda>x. x \<noteq> None" points_to "sized message_size"
proof
  show "\<exists>x. message_decode b = Some (x, buffer_advance b (of_nat (length m))) \<and> x \<noteq> None \<and> points_to (data b) x m"
    if "holds b (m @ r)" "sized message_size m" for b m r
    using typed_whole [OF that] holds_points [OF that(1)] by (simp add: decode)
  show "\<exists>x. message_decode b = Some (x, b) \<and> \<not> x \<noteq> None" if "holds b p" "sized message_size (p @ q)" "q \<noteq> []" for b p q
    using typed_part [OF that] by (simp add: decode)
  show "\<exists>x. message_decode b = Some (x, b) \<and> \<not> x \<noteq> None" if "holds b []" for b
    using holds_size_0 [OF that] by (simp add: decode typed_decode_def)
qed

end
