(* ===== verification/Feed_Itch40.thy ===== *)
theory Feed_Itch40
  imports Feed
begin

text \<open>
  NASDAQ TotalView-ITCH 4.0 (lib/proto/nasdaq_itch40_message.c, nasdaq_itch40_message.h): message types,
  structures, and the decoder, which copies the message into the structure of the caller.
\<close>

subsection \<open>Message types\<close>

datatype itch40_msg_type = ITCH40_MSG_TIMESTAMP_SECONDS | ITCH40_MSG_SYSTEM_EVENT | ITCH40_MSG_STOCK_DIRECTORY
  | ITCH40_MSG_STOCK_TRADING_ACTION | ITCH40_MSG_MARKET_PARTICIPANT_POS | ITCH40_MSG_ADD_ORDER
  | ITCH40_MSG_ADD_ORDER_MPID | ITCH40_MSG_ORDER_EXECUTED | ITCH40_MSG_ORDER_EXECUTED_WITH_PRICE
  | ITCH40_MSG_ORDER_CANCEL | ITCH40_MSG_ORDER_DELETE | ITCH40_MSG_ORDER_REPLACE | ITCH40_MSG_TRADE
  | ITCH40_MSG_CROSS_TRADE | ITCH40_MSG_BROKEN_TRADE | ITCH40_MSG_NOII

fun itch40_msg_code :: "itch40_msg_type \<Rightarrow> u8" where
  "itch40_msg_code ITCH40_MSG_TIMESTAMP_SECONDS = of_char (CHR ''T'')"
| "itch40_msg_code ITCH40_MSG_SYSTEM_EVENT = of_char (CHR ''S'')"
| "itch40_msg_code ITCH40_MSG_STOCK_DIRECTORY = of_char (CHR ''R'')"
| "itch40_msg_code ITCH40_MSG_STOCK_TRADING_ACTION = of_char (CHR ''H'')"
| "itch40_msg_code ITCH40_MSG_MARKET_PARTICIPANT_POS = of_char (CHR ''L'')"
| "itch40_msg_code ITCH40_MSG_ADD_ORDER = of_char (CHR ''A'')"
| "itch40_msg_code ITCH40_MSG_ADD_ORDER_MPID = of_char (CHR ''F'')"
| "itch40_msg_code ITCH40_MSG_ORDER_EXECUTED = of_char (CHR ''E'')"
| "itch40_msg_code ITCH40_MSG_ORDER_EXECUTED_WITH_PRICE = of_char (CHR ''C'')"
| "itch40_msg_code ITCH40_MSG_ORDER_CANCEL = of_char (CHR ''X'')"
| "itch40_msg_code ITCH40_MSG_ORDER_DELETE = of_char (CHR ''D'')"
| "itch40_msg_code ITCH40_MSG_ORDER_REPLACE = of_char (CHR ''U'')"
| "itch40_msg_code ITCH40_MSG_TRADE = of_char (CHR ''P'')"
| "itch40_msg_code ITCH40_MSG_CROSS_TRADE = of_char (CHR ''Q'')"
| "itch40_msg_code ITCH40_MSG_BROKEN_TRADE = of_char (CHR ''B'')"
| "itch40_msg_code ITCH40_MSG_NOII = of_char (CHR ''I'')"

datatype itch40_event_code = ITCH40_EVENT_START_OF_MESSAGES | ITCH40_EVENT_START_OF_SYSTEM_HOURS
  | ITCH40_EVENT_START_OF_MARKET_HOURS | ITCH40_EVENT_END_OF_MARKET_HOURS | ITCH40_EVENT_END_OF_SYSTEM_HOURS
  | ITCH40_EVENT_END_OF_MESSAGES | ITCH40_EVENT_EMERGENCY_HALT | ITCH40_EVENT_EMERGENCY_QUOTE_ONLY
  | ITCH40_EVENT_EMERGENCY_RESUMPTION

fun itch40_event_char :: "itch40_event_code \<Rightarrow> u8" where
  "itch40_event_char ITCH40_EVENT_START_OF_MESSAGES = of_char (CHR ''O'')"
| "itch40_event_char ITCH40_EVENT_START_OF_SYSTEM_HOURS = of_char (CHR ''S'')"
| "itch40_event_char ITCH40_EVENT_START_OF_MARKET_HOURS = of_char (CHR ''Q'')"
| "itch40_event_char ITCH40_EVENT_END_OF_MARKET_HOURS = of_char (CHR ''M'')"
| "itch40_event_char ITCH40_EVENT_END_OF_SYSTEM_HOURS = of_char (CHR ''E'')"
| "itch40_event_char ITCH40_EVENT_END_OF_MESSAGES = of_char (CHR ''C'')"
| "itch40_event_char ITCH40_EVENT_EMERGENCY_HALT = of_char (CHR ''A'')"
| "itch40_event_char ITCH40_EVENT_EMERGENCY_QUOTE_ONLY = of_char (CHR ''R'')"
| "itch40_event_char ITCH40_EVENT_EMERGENCY_RESUMPTION = of_char (CHR ''B'')"

subsection \<open>Structures\<close>

definition itch40_message :: layout where
  "itch40_message = [(''MessageType'', C_u8)]"

definition itch40_msg_timestamp_seconds :: layout where
  "itch40_msg_timestamp_seconds = [(''MessageType'', C_u8), (''Second'', C_be32)]"

definition itch40_msg_system_event :: layout where
  "itch40_msg_system_event = [(''MessageType'', C_u8), (''Timestamp'', C_be32), (''EventCode'', C_char)]"

definition itch40_msg_stock_directory :: layout where
  "itch40_msg_stock_directory = [(''MessageType'', C_u8), (''TimestampNanoseconds'', C_be32),
     (''Stock'', C_array 6), (''MarketCategory'', C_char), (''FinancialStatusIndicator'', C_char),
     (''RoundLotSize'', C_be32), (''RoundLotsOnly'', C_char)]"

definition itch40_msg_stock_trading_action :: layout where
  "itch40_msg_stock_trading_action = [(''MessageType'', C_u8), (''TimestampNanoseconds'', C_be32),
     (''Stock'', C_array 6), (''TradingState'', C_char), (''Reserved'', C_char), (''Reason'', C_array 4)]"

definition itch40_msg_market_participant_pos :: layout where
  "itch40_msg_market_participant_pos = [(''MessageType'', C_u8), (''TimestampNanoseconds'', C_be32),
     (''MPID'', C_array 4), (''Stock'', C_array 6), (''PrimaryMarketMaker'', C_char),
     (''MarketMakerMode'', C_char), (''MarketParticipantState'', C_char)]"

definition itch40_msg_add_order :: layout where
  "itch40_msg_add_order = [(''MessageType'', C_u8), (''TimestampNanoseconds'', C_be32),
     (''OrderReferenceNumber'', C_be64), (''BuySellIndicator'', C_char), (''Shares'', C_be32),
     (''Stock'', C_array 6), (''Price'', C_be32)]"

definition itch40_msg_add_order_mpid :: layout where
  "itch40_msg_add_order_mpid = [(''MessageType'', C_u8), (''TimestampNanoseconds'', C_be32),
     (''OrderReferenceNumber'', C_be64), (''BuySellIndicator'', C_char), (''Shares'', C_be32),
     (''Stock'', C_array 6), (''Price'', C_be32), (''Attribution'', C_array 4)]"

definition itch40_msg_order_executed :: layout where
  "itch40_msg_order_executed = [(''MessageType'', C_u8), (''TimestampNanoseconds'', C_be32),
     (''OrderReferenceNumber'', C_be64), (''ExecutedShares'', C_be32), (''MatchNumber'', C_be64)]"

definition itch40_msg_order_executed_with_price :: layout where
  "itch40_msg_order_executed_with_price = [(''MessageType'', C_u8), (''TimestampNanoseconds'', C_be32),
     (''OrderReferenceNumber'', C_be64), (''ExecutedShares'', C_be32), (''MatchNumber'', C_be64),
     (''Printable'', C_char), (''ExecutionPrice'', C_be32)]"

definition itch40_msg_order_cancel :: layout where
  "itch40_msg_order_cancel = [(''MessageType'', C_u8), (''TimestampNanoseconds'', C_be32),
     (''OrderReferenceNumber'', C_be64), (''CanceledShares'', C_be32)]"

definition itch40_msg_order_delete :: layout where
  "itch40_msg_order_delete = [(''MessageType'', C_u8), (''TimestampNanoseconds'', C_be32),
     (''OrderReferenceNumber'', C_be64)]"

definition itch40_msg_order_replace :: layout where
  "itch40_msg_order_replace = [(''MessageType'', C_u8), (''TimestampNanoseconds'', C_be32),
     (''OriginalOrderReferenceNumber'', C_be64), (''NewOrderReferenceNumber'', C_be64), (''Shares'', C_be32),
     (''Price'', C_be32)]"

definition itch40_msg_trade :: layout where
  "itch40_msg_trade = [(''MessageType'', C_u8), (''TimestampNanoseconds'', C_be32),
     (''OrderReferenceNumber'', C_be64), (''BuySellIndicator'', C_char), (''Shares'', C_be32),
     (''Stock'', C_array 6), (''Price'', C_be32), (''MatchNumber'', C_be64)]"

definition itch40_msg_cross_trade :: layout where
  "itch40_msg_cross_trade = [(''MessageType'', C_u8), (''TimestampNanoseconds'', C_be32), (''Shares'', C_be64),
     (''Stock'', C_array 6), (''CrossPrice'', C_be32), (''MatchNumber'', C_be64), (''CrossType'', C_char)]"

definition itch40_msg_broken_trade :: layout where
  "itch40_msg_broken_trade = [(''MessageType'', C_u8), (''TimestampNanoseconds'', C_be32), (''MatchNumber'', C_be64)]"

definition itch40_msg_noii :: layout where
  "itch40_msg_noii = [(''MessageType'', C_u8), (''TimestampNanoseconds'', C_be32), (''PairedShares'', C_be64),
     (''ImbalanceShares'', C_be64), (''ImbalanceDirection'', C_char), (''Stock'', C_array 6),
     (''FarPrice'', C_be32), (''NearPrice'', C_be32), (''CurrentReferencePrice'', C_be32), (''CrossType'', C_char),
     (''PriceVariationIndicator'', C_char)]"

lemmas itch40_structs =
  itch40_message_def itch40_msg_timestamp_seconds_def itch40_msg_system_event_def
  itch40_msg_stock_directory_def itch40_msg_stock_trading_action_def itch40_msg_market_participant_pos_def
  itch40_msg_add_order_def itch40_msg_add_order_mpid_def itch40_msg_order_executed_def
  itch40_msg_order_executed_with_price_def itch40_msg_order_cancel_def itch40_msg_order_delete_def
  itch40_msg_order_replace_def itch40_msg_trade_def itch40_msg_cross_trade_def itch40_msg_broken_trade_def
  itch40_msg_noii_def

subsection \<open>Decoding\<close>

definition itch40_cases :: "(u8 \<times> layout) list" where
  "itch40_cases = [(itch40_msg_code ITCH40_MSG_TIMESTAMP_SECONDS, itch40_msg_timestamp_seconds),
     (itch40_msg_code ITCH40_MSG_SYSTEM_EVENT, itch40_msg_system_event),
     (itch40_msg_code ITCH40_MSG_STOCK_DIRECTORY, itch40_msg_stock_directory),
     (itch40_msg_code ITCH40_MSG_STOCK_TRADING_ACTION, itch40_msg_stock_trading_action),
     (itch40_msg_code ITCH40_MSG_MARKET_PARTICIPANT_POS, itch40_msg_market_participant_pos),
     (itch40_msg_code ITCH40_MSG_ADD_ORDER, itch40_msg_add_order),
     (itch40_msg_code ITCH40_MSG_ADD_ORDER_MPID, itch40_msg_add_order_mpid),
     (itch40_msg_code ITCH40_MSG_ORDER_EXECUTED, itch40_msg_order_executed),
     (itch40_msg_code ITCH40_MSG_ORDER_EXECUTED_WITH_PRICE, itch40_msg_order_executed_with_price),
     (itch40_msg_code ITCH40_MSG_ORDER_CANCEL, itch40_msg_order_cancel),
     (itch40_msg_code ITCH40_MSG_ORDER_DELETE, itch40_msg_order_delete),
     (itch40_msg_code ITCH40_MSG_ORDER_REPLACE, itch40_msg_order_replace),
     (itch40_msg_code ITCH40_MSG_TRADE, itch40_msg_trade),
     (itch40_msg_code ITCH40_MSG_CROSS_TRADE, itch40_msg_cross_trade),
     (itch40_msg_code ITCH40_MSG_BROKEN_TRADE, itch40_msg_broken_trade),
     (itch40_msg_code ITCH40_MSG_NOII, itch40_msg_noii)]"

definition itch40_message_size :: "u8 \<Rightarrow> ulong" where
  "itch40_message_size type = switch type itch40_cases"

definition itch40_message_decode :: "buffer \<Rightarrow> mem \<Rightarrow> (i32 \<times> mem \<times> buffer) option" where
  "itch40_message_decode buf msg =
     (let available = buffer_size buf in
      if available = 0 then Some (-1, msg, buf)
      else do {
        type \<leftarrow> buffer_peek_8 buf;
        (let sz = itch40_message_size type in
         if sz = 0 then Some (-1, msg, buf)
         else if available < sz then Some (-1, msg, buf)
         else do {
           bs \<leftarrow> mem_load (data buf) (buffer_start buf) (unat sz);
           msg \<leftarrow> mem_store msg 0 bs;
           Some (0, msg, buffer_advance buf sz) }) })"

text \<open>The decoder keeps the contract of a feed, as long as the structure of the caller has room for the message.\<close>

interpretation itch40: feed "with_msg itch40_message_decode msg" copied copy_of
  "\<lambda>m. sized itch40_message_size m \<and> length m \<le> length msg" for msg
proof
  show "\<exists>x. with_msg itch40_message_decode msg b = Some (x, buffer_advance b (of_nat (length m))) \<and> copied x \<and> copy_of (data b) x m"
    if "holds b (m @ r)" "sized itch40_message_size m \<and> length m \<le> length msg" for b m r
    using sized_whole [OF that(1) conjunct1 [OF that(2)]] holds_load_prefix [OF that(1)] that(2)
    by (simp add: with_msg_def itch40_message_decode_def Let_def mem_store_prefix)
  show "\<exists>x. with_msg itch40_message_decode msg b = Some (x, b) \<and> \<not> copied x"
    if "holds b p" "sized itch40_message_size (p @ q) \<and> length (p @ q) \<le> length msg" "q \<noteq> []" for b p q
    using sized_part [OF that(1) conjunct1 [OF that(2)] that(3)] holds_size_0 [OF that(1)]
    by (cases "p = []") (simp_all add: with_msg_def itch40_message_decode_def Let_def)
  show "\<exists>x. with_msg itch40_message_decode msg b = Some (x, b) \<and> \<not> copied x" if "holds b []" for b
    using holds_size_0 [OF that] by (simp add: with_msg_def itch40_message_decode_def)
qed
end
