(* ===== verification/Feed_Itch41.thy ===== *)
theory Feed_Itch41
  imports Feed
begin

text \<open>
  NASDAQ TotalView-ITCH 4.1 (lib/proto/nasdaq_itch41_message.c, nasdaq_itch41_message.h): message types,
  structures, and the decoder, which answers a pointer into the buffer.
\<close>

subsection \<open>Message types\<close>

datatype itch41_msg_type = ITCH41_MSG_TIMESTAMP_SECONDS | ITCH41_MSG_SYSTEM_EVENT | ITCH41_MSG_STOCK_DIRECTORY
  | ITCH41_MSG_STOCK_TRADING_ACTION | ITCH41_MSG_REG_SHO_RESTRICTION | ITCH41_MSG_MARKET_PARTICIPANT_POS
  | ITCH41_MSG_ADD_ORDER | ITCH41_MSG_ADD_ORDER_MPID | ITCH41_MSG_ORDER_EXECUTED
  | ITCH41_MSG_ORDER_EXECUTED_WITH_PRICE | ITCH41_MSG_ORDER_CANCEL | ITCH41_MSG_ORDER_DELETE
  | ITCH41_MSG_ORDER_REPLACE | ITCH41_MSG_TRADE | ITCH41_MSG_CROSS_TRADE | ITCH41_MSG_BROKEN_TRADE | ITCH41_MSG_NOII
  | ITCH41_MSG_RPII

fun itch41_msg_code :: "itch41_msg_type \<Rightarrow> u8" where
  "itch41_msg_code ITCH41_MSG_TIMESTAMP_SECONDS = of_char (CHR ''T'')"
| "itch41_msg_code ITCH41_MSG_SYSTEM_EVENT = of_char (CHR ''S'')"
| "itch41_msg_code ITCH41_MSG_STOCK_DIRECTORY = of_char (CHR ''R'')"
| "itch41_msg_code ITCH41_MSG_STOCK_TRADING_ACTION = of_char (CHR ''H'')"
| "itch41_msg_code ITCH41_MSG_REG_SHO_RESTRICTION = of_char (CHR ''Y'')"
| "itch41_msg_code ITCH41_MSG_MARKET_PARTICIPANT_POS = of_char (CHR ''L'')"
| "itch41_msg_code ITCH41_MSG_ADD_ORDER = of_char (CHR ''A'')"
| "itch41_msg_code ITCH41_MSG_ADD_ORDER_MPID = of_char (CHR ''F'')"
| "itch41_msg_code ITCH41_MSG_ORDER_EXECUTED = of_char (CHR ''E'')"
| "itch41_msg_code ITCH41_MSG_ORDER_EXECUTED_WITH_PRICE = of_char (CHR ''C'')"
| "itch41_msg_code ITCH41_MSG_ORDER_CANCEL = of_char (CHR ''X'')"
| "itch41_msg_code ITCH41_MSG_ORDER_DELETE = of_char (CHR ''D'')"
| "itch41_msg_code ITCH41_MSG_ORDER_REPLACE = of_char (CHR ''U'')"
| "itch41_msg_code ITCH41_MSG_TRADE = of_char (CHR ''P'')"
| "itch41_msg_code ITCH41_MSG_CROSS_TRADE = of_char (CHR ''Q'')"
| "itch41_msg_code ITCH41_MSG_BROKEN_TRADE = of_char (CHR ''B'')"
| "itch41_msg_code ITCH41_MSG_NOII = of_char (CHR ''I'')"
| "itch41_msg_code ITCH41_MSG_RPII = of_char (CHR ''N'')"

datatype itch41_event_code = ITCH41_EVENT_START_OF_MESSAGES | ITCH41_EVENT_START_OF_SYSTEM_HOURS
  | ITCH41_EVENT_START_OF_MARKET_HOURS | ITCH41_EVENT_END_OF_MARKET_HOURS | ITCH41_EVENT_END_OF_SYSTEM_HOURS
  | ITCH41_EVENT_END_OF_MESSAGES | ITCH41_EVENT_EMERGENCY_HALT | ITCH41_EVENT_EMERGENCY_QUOTE_ONLY
  | ITCH41_EVENT_EMERGENCY_RESUMPTION

fun itch41_event_char :: "itch41_event_code \<Rightarrow> u8" where
  "itch41_event_char ITCH41_EVENT_START_OF_MESSAGES = of_char (CHR ''O'')"
| "itch41_event_char ITCH41_EVENT_START_OF_SYSTEM_HOURS = of_char (CHR ''S'')"
| "itch41_event_char ITCH41_EVENT_START_OF_MARKET_HOURS = of_char (CHR ''Q'')"
| "itch41_event_char ITCH41_EVENT_END_OF_MARKET_HOURS = of_char (CHR ''M'')"
| "itch41_event_char ITCH41_EVENT_END_OF_SYSTEM_HOURS = of_char (CHR ''E'')"
| "itch41_event_char ITCH41_EVENT_END_OF_MESSAGES = of_char (CHR ''C'')"
| "itch41_event_char ITCH41_EVENT_EMERGENCY_HALT = of_char (CHR ''A'')"
| "itch41_event_char ITCH41_EVENT_EMERGENCY_QUOTE_ONLY = of_char (CHR ''R'')"
| "itch41_event_char ITCH41_EVENT_EMERGENCY_RESUMPTION = of_char (CHR ''B'')"

subsection \<open>Structures\<close>

definition itch41_message :: layout where
  "itch41_message = [(''MessageType'', C_u8)]"

definition itch41_msg_timestamp_seconds :: layout where
  "itch41_msg_timestamp_seconds = [(''MessageType'', C_u8), (''Second'', C_be32)]"

definition itch41_msg_system_event :: layout where
  "itch41_msg_system_event = [(''MessageType'', C_u8), (''Timestamp'', C_be32), (''EventCode'', C_char)]"

definition itch41_msg_stock_directory :: layout where
  "itch41_msg_stock_directory = [(''MessageType'', C_u8), (''TimestampNanoseconds'', C_be32),
     (''Stock'', C_array 8), (''MarketCategory'', C_char), (''FinancialStatusIndicator'', C_char),
     (''RoundLotSize'', C_be32), (''RoundLotsOnly'', C_char)]"

definition itch41_msg_stock_trading_action :: layout where
  "itch41_msg_stock_trading_action = [(''MessageType'', C_u8), (''TimestampNanoseconds'', C_be32),
     (''Stock'', C_array 8), (''TradingState'', C_char), (''Reserved'', C_char), (''Reason'', C_array 4)]"

definition itch41_msg_reg_sho_restriction :: layout where
  "itch41_msg_reg_sho_restriction = [(''MessageType'', C_u8), (''TimestampNanoseconds'', C_be32),
     (''Stock'', C_array 8), (''RegSHOAction'', C_char)]"

definition itch41_msg_market_participant_pos :: layout where
  "itch41_msg_market_participant_pos = [(''MessageType'', C_u8), (''TimestampNanoseconds'', C_be32),
     (''MPID'', C_array 4), (''Stock'', C_array 8), (''PrimaryMarketMaker'', C_char),
     (''MarketMakerMode'', C_char), (''MarketParticipantState'', C_char)]"

definition itch41_msg_add_order :: layout where
  "itch41_msg_add_order = [(''MessageType'', C_u8), (''TimestampNanoseconds'', C_be32),
     (''OrderReferenceNumber'', C_be64), (''BuySellIndicator'', C_char), (''Shares'', C_be32),
     (''Stock'', C_array 8), (''Price'', C_be32)]"

definition itch41_msg_add_order_mpid :: layout where
  "itch41_msg_add_order_mpid = [(''MessageType'', C_u8), (''TimestampNanoseconds'', C_be32),
     (''OrderReferenceNumber'', C_be64), (''BuySellIndicator'', C_char), (''Shares'', C_be32),
     (''Stock'', C_array 8), (''Price'', C_be32), (''Attribution'', C_array 4)]"

definition itch41_msg_order_executed :: layout where
  "itch41_msg_order_executed = [(''MessageType'', C_u8), (''TimestampNanoseconds'', C_be32),
     (''OrderReferenceNumber'', C_be64), (''ExecutedShares'', C_be32), (''MatchNumber'', C_be64)]"

definition itch41_msg_order_executed_with_price :: layout where
  "itch41_msg_order_executed_with_price = [(''MessageType'', C_u8), (''TimestampNanoseconds'', C_be32),
     (''OrderReferenceNumber'', C_be64), (''ExecutedShares'', C_be32), (''MatchNumber'', C_be64),
     (''Printable'', C_char), (''ExecutionPrice'', C_be32)]"

definition itch41_msg_order_cancel :: layout where
  "itch41_msg_order_cancel = [(''MessageType'', C_u8), (''TimestampNanoseconds'', C_be32),
     (''OrderReferenceNumber'', C_be64), (''CanceledShares'', C_be32)]"

definition itch41_msg_order_delete :: layout where
  "itch41_msg_order_delete = [(''MessageType'', C_u8), (''TimestampNanoseconds'', C_be32),
     (''OrderReferenceNumber'', C_be64)]"

definition itch41_msg_order_replace :: layout where
  "itch41_msg_order_replace = [(''MessageType'', C_u8), (''TimestampNanoseconds'', C_be32),
     (''OriginalOrderReferenceNumber'', C_be64), (''NewOrderReferenceNumber'', C_be64), (''Shares'', C_be32),
     (''Price'', C_be32)]"

definition itch41_msg_trade :: layout where
  "itch41_msg_trade = [(''MessageType'', C_u8), (''TimestampNanoseconds'', C_be32),
     (''OrderReferenceNumber'', C_be64), (''BuySellIndicator'', C_char), (''Shares'', C_be32),
     (''Stock'', C_array 8), (''Price'', C_be32), (''MatchNumber'', C_be64)]"

definition itch41_msg_cross_trade :: layout where
  "itch41_msg_cross_trade = [(''MessageType'', C_u8), (''TimestampNanoseconds'', C_be32), (''Shares'', C_be64),
     (''Stock'', C_array 8), (''CrossPrice'', C_be32), (''MatchNumber'', C_be64), (''CrossType'', C_char)]"

definition itch41_msg_broken_trade :: layout where
  "itch41_msg_broken_trade = [(''MessageType'', C_u8), (''TimestampNanoseconds'', C_be32), (''MatchNumber'', C_be64)]"

definition itch41_msg_noii :: layout where
  "itch41_msg_noii = [(''MessageType'', C_u8), (''TimestampNanoseconds'', C_be32), (''PairedShares'', C_be64),
     (''ImbalanceShares'', C_be64), (''ImbalanceDirection'', C_char), (''Stock'', C_array 8),
     (''FarPrice'', C_be32), (''NearPrice'', C_be32), (''CurrentReferencePrice'', C_be32), (''CrossType'', C_char),
     (''PriceVariationIndicator'', C_char)]"

definition itch41_msg_rpii :: layout where
  "itch41_msg_rpii = [(''MessageType'', C_u8), (''TimestampNanoseconds'', C_be32), (''Stock'', C_array 8),
     (''InterestFlag'', C_char)]"

lemmas itch41_structs =
  itch41_message_def itch41_msg_timestamp_seconds_def itch41_msg_system_event_def
  itch41_msg_stock_directory_def itch41_msg_stock_trading_action_def itch41_msg_reg_sho_restriction_def
  itch41_msg_market_participant_pos_def itch41_msg_add_order_def itch41_msg_add_order_mpid_def
  itch41_msg_order_executed_def itch41_msg_order_executed_with_price_def itch41_msg_order_cancel_def
  itch41_msg_order_delete_def itch41_msg_order_replace_def itch41_msg_trade_def itch41_msg_cross_trade_def
  itch41_msg_broken_trade_def itch41_msg_noii_def itch41_msg_rpii_def

subsection \<open>Decoding\<close>

definition itch41_cases :: "(u8 \<times> layout) list" where
  "itch41_cases = [(itch41_msg_code ITCH41_MSG_TIMESTAMP_SECONDS, itch41_msg_timestamp_seconds),
     (itch41_msg_code ITCH41_MSG_SYSTEM_EVENT, itch41_msg_system_event),
     (itch41_msg_code ITCH41_MSG_STOCK_DIRECTORY, itch41_msg_stock_directory),
     (itch41_msg_code ITCH41_MSG_STOCK_TRADING_ACTION, itch41_msg_stock_trading_action),
     (itch41_msg_code ITCH41_MSG_REG_SHO_RESTRICTION, itch41_msg_reg_sho_restriction),
     (itch41_msg_code ITCH41_MSG_MARKET_PARTICIPANT_POS, itch41_msg_market_participant_pos),
     (itch41_msg_code ITCH41_MSG_ADD_ORDER, itch41_msg_add_order),
     (itch41_msg_code ITCH41_MSG_ADD_ORDER_MPID, itch41_msg_add_order_mpid),
     (itch41_msg_code ITCH41_MSG_ORDER_EXECUTED, itch41_msg_order_executed),
     (itch41_msg_code ITCH41_MSG_ORDER_EXECUTED_WITH_PRICE, itch41_msg_order_executed_with_price),
     (itch41_msg_code ITCH41_MSG_ORDER_CANCEL, itch41_msg_order_cancel),
     (itch41_msg_code ITCH41_MSG_ORDER_DELETE, itch41_msg_order_delete),
     (itch41_msg_code ITCH41_MSG_ORDER_REPLACE, itch41_msg_order_replace),
     (itch41_msg_code ITCH41_MSG_TRADE, itch41_msg_trade),
     (itch41_msg_code ITCH41_MSG_CROSS_TRADE, itch41_msg_cross_trade),
     (itch41_msg_code ITCH41_MSG_BROKEN_TRADE, itch41_msg_broken_trade),
     (itch41_msg_code ITCH41_MSG_NOII, itch41_msg_noii), (itch41_msg_code ITCH41_MSG_RPII, itch41_msg_rpii)]"

definition itch41_message_size :: "u8 \<Rightarrow> ulong" where
  "itch41_message_size type = switch type itch41_cases"

definition itch41_message_decode :: "buffer \<Rightarrow> (ptr option \<times> buffer) option" where
  "itch41_message_decode buf =
     (let available = buffer_size buf in
      if available = 0 then Some (None, buf)
      else do {
        type \<leftarrow> buffer_peek_8 buf;
        (let sz = itch41_message_size type in
         if sz = 0 then Some (None, buf)
         else if available < sz then Some (None, buf)
         else
           let start = buffer_start buf; buf = buffer_advance buf sz
           in Some (Some start, buf)) })"

text \<open>The decoder keeps the contract of a feed whose messages begin with their type.\<close>

interpretation itch41: sized_feed itch41_message_size itch41_message_decode
  by unfold_locales (simp add: itch41_message_decode_def typed_decode_def Let_def cong: if_cong)

end
