(* ===== verification/Feed_Itch50.thy ===== *)
theory Feed_Itch50
  imports Feed
begin

text \<open>
  NASDAQ TotalView-ITCH 5.0 (lib/proto/nasdaq_itch50_message.c, nasdaq_itch50_message.h): message types,
  structures, and the decoder, which answers a pointer into the buffer.
\<close>

subsection \<open>Message types\<close>

datatype itch50_msg_type = ITCH50_MSG_SYSTEM_EVENT | ITCH50_MSG_STOCK_DIRECTORY | ITCH50_MSG_STOCK_TRADING_ACTION
  | ITCH50_MSG_REG_SHO_RESTRICTION | ITCH50_MSG_MARKET_PARTICIPANT_POS | ITCH50_MSG_MWCB_DECLINE_LEVEL
  | ITCH50_MSG_MWCB_STATUS | ITCH50_MSG_IPO_QUOTING_PERIOD_UPDATE | ITCH50_MSG_ADD_ORDER | ITCH50_MSG_ADD_ORDER_MPID
  | ITCH50_MSG_ORDER_EXECUTED | ITCH50_MSG_ORDER_EXECUTED_WITH_PRICE | ITCH50_MSG_ORDER_CANCEL
  | ITCH50_MSG_ORDER_DELETE | ITCH50_MSG_ORDER_REPLACE | ITCH50_MSG_TRADE | ITCH50_MSG_CROSS_TRADE
  | ITCH50_MSG_BROKEN_TRADE | ITCH50_MSG_NOII | ITCH50_MSG_RPII

fun itch50_msg_code :: "itch50_msg_type \<Rightarrow> u8" where
  "itch50_msg_code ITCH50_MSG_SYSTEM_EVENT = of_char (CHR ''S'')"
| "itch50_msg_code ITCH50_MSG_STOCK_DIRECTORY = of_char (CHR ''R'')"
| "itch50_msg_code ITCH50_MSG_STOCK_TRADING_ACTION = of_char (CHR ''H'')"
| "itch50_msg_code ITCH50_MSG_REG_SHO_RESTRICTION = of_char (CHR ''Y'')"
| "itch50_msg_code ITCH50_MSG_MARKET_PARTICIPANT_POS = of_char (CHR ''L'')"
| "itch50_msg_code ITCH50_MSG_MWCB_DECLINE_LEVEL = of_char (CHR ''V'')"
| "itch50_msg_code ITCH50_MSG_MWCB_STATUS = of_char (CHR ''W'')"
| "itch50_msg_code ITCH50_MSG_IPO_QUOTING_PERIOD_UPDATE = of_char (CHR ''K'')"
| "itch50_msg_code ITCH50_MSG_ADD_ORDER = of_char (CHR ''A'')"
| "itch50_msg_code ITCH50_MSG_ADD_ORDER_MPID = of_char (CHR ''F'')"
| "itch50_msg_code ITCH50_MSG_ORDER_EXECUTED = of_char (CHR ''E'')"
| "itch50_msg_code ITCH50_MSG_ORDER_EXECUTED_WITH_PRICE = of_char (CHR ''C'')"
| "itch50_msg_code ITCH50_MSG_ORDER_CANCEL = of_char (CHR ''X'')"
| "itch50_msg_code ITCH50_MSG_ORDER_DELETE = of_char (CHR ''D'')"
| "itch50_msg_code ITCH50_MSG_ORDER_REPLACE = of_char (CHR ''U'')"
| "itch50_msg_code ITCH50_MSG_TRADE = of_char (CHR ''P'')"
| "itch50_msg_code ITCH50_MSG_CROSS_TRADE = of_char (CHR ''Q'')"
| "itch50_msg_code ITCH50_MSG_BROKEN_TRADE = of_char (CHR ''B'')"
| "itch50_msg_code ITCH50_MSG_NOII = of_char (CHR ''I'')"
| "itch50_msg_code ITCH50_MSG_RPII = of_char (CHR ''N'')"

datatype itch50_event_code = ITCH50_EVENT_START_OF_MESSAGES | ITCH50_EVENT_START_OF_SYSTEM_HOURS
  | ITCH50_EVENT_START_OF_MARKET_HOURS | ITCH50_EVENT_END_OF_MARKET_HOURS | ITCH50_EVENT_END_OF_SYSTEM_HOURS
  | ITCH50_EVENT_END_OF_MESSAGES | ITCH50_EVENT_EMERGENCY_HALT | ITCH50_EVENT_EMERGENCY_QUOTE_ONLY
  | ITCH50_EVENT_EMERGENCY_RESUMPTION

fun itch50_event_char :: "itch50_event_code \<Rightarrow> u8" where
  "itch50_event_char ITCH50_EVENT_START_OF_MESSAGES = of_char (CHR ''O'')"
| "itch50_event_char ITCH50_EVENT_START_OF_SYSTEM_HOURS = of_char (CHR ''S'')"
| "itch50_event_char ITCH50_EVENT_START_OF_MARKET_HOURS = of_char (CHR ''Q'')"
| "itch50_event_char ITCH50_EVENT_END_OF_MARKET_HOURS = of_char (CHR ''M'')"
| "itch50_event_char ITCH50_EVENT_END_OF_SYSTEM_HOURS = of_char (CHR ''E'')"
| "itch50_event_char ITCH50_EVENT_END_OF_MESSAGES = of_char (CHR ''C'')"
| "itch50_event_char ITCH50_EVENT_EMERGENCY_HALT = of_char (CHR ''A'')"
| "itch50_event_char ITCH50_EVENT_EMERGENCY_QUOTE_ONLY = of_char (CHR ''R'')"
| "itch50_event_char ITCH50_EVENT_EMERGENCY_RESUMPTION = of_char (CHR ''B'')"

subsection \<open>Structures\<close>

definition itch50_message :: layout where
  "itch50_message = [(''MessageType'', C_u8)]"

definition itch50_msg_system_event :: layout where
  "itch50_msg_system_event = [(''MessageType'', C_u8), (''StockLocate'', C_be16), (''TrackingNumber'', C_be16),
     (''Timestamp'', C_array 6), (''EventCode'', C_char)]"

definition itch50_msg_stock_directory :: layout where
  "itch50_msg_stock_directory = [(''MessageType'', C_u8), (''StockLocate'', C_be16), (''TrackingNumber'', C_be16),
     (''Timestamp'', C_array 6), (''Stock'', C_array 8), (''MarketCategory'', C_char),
     (''FinancialStatusIndicator'', C_char), (''RoundLotSize'', C_be32), (''RoundLotsOnly'', C_char),
     (''IssueClassification'', C_char), (''IssueSubType'', C_array 2), (''Authenticity'', C_char),
     (''ShortSaleThresholdIndicator'', C_char), (''IPOFlag'', C_char), (''LULDReferencePriceTier'', C_char),
     (''ETPFlag'', C_char), (''ETPLeverageFactor'', C_be32), (''InverseIndicator'', C_char)]"

definition itch50_msg_stock_trading_action :: layout where
  "itch50_msg_stock_trading_action = [(''MessageType'', C_u8), (''StockLocate'', C_be16),
     (''TrackingNumber'', C_be16), (''Timestamp'', C_array 6), (''Stock'', C_array 8), (''TradingState'', C_char),
     (''Reserved'', C_char), (''Reason'', C_array 4)]"

definition itch50_msg_reg_sho_restriction :: layout where
  "itch50_msg_reg_sho_restriction = [(''MessageType'', C_u8), (''StockLocate'', C_be16),
     (''TrackingNumber'', C_be16), (''Timestamp'', C_array 6), (''Stock'', C_array 8), (''RegSHOAction'', C_char)]"

definition itch50_msg_market_participant_pos :: layout where
  "itch50_msg_market_participant_pos = [(''MessageType'', C_u8), (''StockLocate'', C_be16),
     (''TrackingNumber'', C_be16), (''Timestamp'', C_array 6), (''MPID'', C_array 4), (''Stock'', C_array 8),
     (''PrimaryMarketMaker'', C_char), (''MarketMakerMode'', C_char), (''MarketParticipantState'', C_char)]"

definition itch50_msg_mwcb_decline_level :: layout where
  "itch50_msg_mwcb_decline_level = [(''MessageType'', C_u8), (''StockLocate'', C_be16),
     (''TrackingNumber'', C_be16), (''Timestamp'', C_array 6), (''Level1'', C_be64), (''Level2'', C_be64),
     (''Level3'', C_be64)]"

definition itch50_msg_mwcb_status :: layout where
  "itch50_msg_mwcb_status = [(''MessageType'', C_u8), (''StockLocate'', C_be16), (''TrackingNumber'', C_be16),
     (''Timestamp'', C_array 6), (''BreachedLevel'', C_char)]"

definition itch50_msg_ipo_quoting_period_update :: layout where
  "itch50_msg_ipo_quoting_period_update = [(''MessageType'', C_u8), (''StockLocate'', C_be16),
     (''TrackingNumber'', C_be16), (''Timestamp'', C_array 6), (''Stock'', C_array 8),
     (''IPOQuotationReleaseTime'', C_be32), (''IPOQuotationReleaseQualifier'', C_char), (''IPOPrice'', C_be32)]"

definition itch50_msg_add_order :: layout where
  "itch50_msg_add_order = [(''MessageType'', C_u8), (''StockLocate'', C_be16), (''TrackingNumber'', C_be16),
     (''Timestamp'', C_array 6), (''OrderReferenceNumber'', C_be64), (''BuySellIndicator'', C_char),
     (''Shares'', C_be32), (''Stock'', C_array 8), (''Price'', C_be32)]"

definition itch50_msg_add_order_mpid :: layout where
  "itch50_msg_add_order_mpid = [(''MessageType'', C_u8), (''StockLocate'', C_be16), (''TrackingNumber'', C_be16),
     (''Timestamp'', C_array 6), (''OrderReferenceNumber'', C_be64), (''BuySellIndicator'', C_char),
     (''Shares'', C_be32), (''Stock'', C_array 8), (''Price'', C_be32), (''Attribution'', C_array 4)]"

definition itch50_msg_order_executed :: layout where
  "itch50_msg_order_executed = [(''MessageType'', C_u8), (''StockLocate'', C_be16), (''TrackingNumber'', C_be16),
     (''Timestamp'', C_array 6), (''OrderReferenceNumber'', C_be64), (''ExecutedShares'', C_be32),
     (''MatchNumber'', C_be64)]"

definition itch50_msg_order_executed_with_price :: layout where
  "itch50_msg_order_executed_with_price = [(''MessageType'', C_u8), (''StockLocate'', C_be16),
     (''TrackingNumber'', C_be16), (''Timestamp'', C_array 6), (''OrderReferenceNumber'', C_be64),
     (''ExecutedShares'', C_be32), (''MatchNumber'', C_be64), (''Printable'', C_char), (''ExecutionPrice'', C_be32)]"

definition itch50_msg_order_cancel :: layout where
  "itch50_msg_order_cancel = [(''MessageType'', C_u8), (''StockLocate'', C_be16), (''TrackingNumber'', C_be16),
     (''Timestamp'', C_array 6), (''OrderReferenceNumber'', C_be64), (''CanceledShares'', C_be32)]"

definition itch50_msg_order_delete :: layout where
  "itch50_msg_order_delete = [(''MessageType'', C_u8), (''StockLocate'', C_be16), (''TrackingNumber'', C_be16),
     (''Timestamp'', C_array 6), (''OrderReferenceNumber'', C_be64)]"

definition itch50_msg_order_replace :: layout where
  "itch50_msg_order_replace = [(''MessageType'', C_u8), (''StockLocate'', C_be16), (''TrackingNumber'', C_be16),
     (''Timestamp'', C_array 6), (''OriginalOrderReferenceNumber'', C_be64), (''NewOrderReferenceNumber'', C_be64),
     (''Shares'', C_be32), (''Price'', C_be32)]"

definition itch50_msg_trade :: layout where
  "itch50_msg_trade = [(''MessageType'', C_u8), (''StockLocate'', C_be16), (''TrackingNumber'', C_be16),
     (''Timestamp'', C_array 6), (''OrderReferenceNumber'', C_be64), (''BuySellIndicator'', C_char),
     (''Shares'', C_be32), (''Stock'', C_array 8), (''Price'', C_be32), (''MatchNumber'', C_be64)]"

definition itch50_msg_cross_trade :: layout where
  "itch50_msg_cross_trade = [(''MessageType'', C_u8), (''StockLocate'', C_be16), (''TrackingNumber'', C_be16),
     (''Timestamp'', C_array 6), (''Shares'', C_be64), (''Stock'', C_array 8), (''CrossPrice'', C_be32),
     (''MatchNumber'', C_be64), (''CrossType'', C_char)]"

definition itch50_msg_broken_trade :: layout where
  "itch50_msg_broken_trade = [(''MessageType'', C_u8), (''StockLocate'', C_be16), (''TrackingNumber'', C_be16),
     (''Timestamp'', C_array 6), (''MatchNumber'', C_be64)]"

definition itch50_msg_noii :: layout where
  "itch50_msg_noii = [(''MessageType'', C_u8), (''StockLocate'', C_be16), (''TrackingNumber'', C_be16),
     (''Timestamp'', C_array 6), (''PairedShares'', C_be64), (''ImbalanceShares'', C_be64),
     (''ImbalanceDirection'', C_char), (''Stock'', C_array 8), (''FarPrice'', C_be32), (''NearPrice'', C_be32),
     (''CurrentReferencePrice'', C_be32), (''CrossType'', C_char), (''PriceVariationIndicator'', C_char)]"

definition itch50_msg_rpii :: layout where
  "itch50_msg_rpii = [(''MessageType'', C_u8), (''StockLocate'', C_be16), (''TrackingNumber'', C_be16),
     (''Timestamp'', C_array 6), (''Stock'', C_array 8), (''InterestFlag'', C_char)]"

lemmas itch50_structs =
  itch50_message_def itch50_msg_system_event_def itch50_msg_stock_directory_def
  itch50_msg_stock_trading_action_def itch50_msg_reg_sho_restriction_def
  itch50_msg_market_participant_pos_def itch50_msg_mwcb_decline_level_def itch50_msg_mwcb_status_def
  itch50_msg_ipo_quoting_period_update_def itch50_msg_add_order_def itch50_msg_add_order_mpid_def
  itch50_msg_order_executed_def itch50_msg_order_executed_with_price_def itch50_msg_order_cancel_def
  itch50_msg_order_delete_def itch50_msg_order_replace_def itch50_msg_trade_def itch50_msg_cross_trade_def
  itch50_msg_broken_trade_def itch50_msg_noii_def itch50_msg_rpii_def

subsection \<open>Decoding\<close>

definition itch50_cases :: "(u8 \<times> layout) list" where
  "itch50_cases = [(itch50_msg_code ITCH50_MSG_SYSTEM_EVENT, itch50_msg_system_event),
     (itch50_msg_code ITCH50_MSG_STOCK_DIRECTORY, itch50_msg_stock_directory),
     (itch50_msg_code ITCH50_MSG_STOCK_TRADING_ACTION, itch50_msg_stock_trading_action),
     (itch50_msg_code ITCH50_MSG_REG_SHO_RESTRICTION, itch50_msg_reg_sho_restriction),
     (itch50_msg_code ITCH50_MSG_MARKET_PARTICIPANT_POS, itch50_msg_market_participant_pos),
     (itch50_msg_code ITCH50_MSG_MWCB_DECLINE_LEVEL, itch50_msg_mwcb_decline_level),
     (itch50_msg_code ITCH50_MSG_MWCB_STATUS, itch50_msg_mwcb_status),
     (itch50_msg_code ITCH50_MSG_IPO_QUOTING_PERIOD_UPDATE, itch50_msg_ipo_quoting_period_update),
     (itch50_msg_code ITCH50_MSG_ADD_ORDER, itch50_msg_add_order),
     (itch50_msg_code ITCH50_MSG_ADD_ORDER_MPID, itch50_msg_add_order_mpid),
     (itch50_msg_code ITCH50_MSG_ORDER_EXECUTED, itch50_msg_order_executed),
     (itch50_msg_code ITCH50_MSG_ORDER_EXECUTED_WITH_PRICE, itch50_msg_order_executed_with_price),
     (itch50_msg_code ITCH50_MSG_ORDER_CANCEL, itch50_msg_order_cancel),
     (itch50_msg_code ITCH50_MSG_ORDER_DELETE, itch50_msg_order_delete),
     (itch50_msg_code ITCH50_MSG_ORDER_REPLACE, itch50_msg_order_replace),
     (itch50_msg_code ITCH50_MSG_TRADE, itch50_msg_trade),
     (itch50_msg_code ITCH50_MSG_CROSS_TRADE, itch50_msg_cross_trade),
     (itch50_msg_code ITCH50_MSG_BROKEN_TRADE, itch50_msg_broken_trade),
     (itch50_msg_code ITCH50_MSG_NOII, itch50_msg_noii), (itch50_msg_code ITCH50_MSG_RPII, itch50_msg_rpii)]"

definition itch50_message_size :: "u8 \<Rightarrow> ulong" where
  "itch50_message_size type = switch type itch50_cases"

definition itch50_message_decode :: "buffer \<Rightarrow> (ptr option \<times> buffer) option" where
  "itch50_message_decode buf =
     (let available = buffer_size buf in
      if available = 0 then Some (None, buf)
      else do {
        type \<leftarrow> buffer_peek_8 buf;
        (let sz = itch50_message_size type in
         if sz = 0 then Some (None, buf)
         else if available < sz then Some (None, buf)
         else
           let start = buffer_start buf; buf = buffer_advance buf sz
           in Some (Some start, buf)) })"

text \<open>The decoder keeps the contract of a feed whose messages begin with their type.\<close>

interpretation itch50: sized_feed itch50_message_size itch50_message_decode
  by unfold_locales (simp add: itch50_message_decode_def typed_decode_def Let_def cong: if_cong)

end
