(* ===== verification/Feed_Omx.thy ===== *)
theory Feed_Omx
  imports Feed
begin

text \<open>
  OMX Nordic ITCH 1.86 (lib/proto/omx_itch186_message.c, omx_itch186_message.h): message types,
  structures, and the decoder, which answers a pointer into the buffer.
\<close>

subsection \<open>Message types\<close>

datatype omx_itch186_msg_type = OMX_ITCH186_MSG_SECONDS | OMX_ITCH186_MSG_MILLISECONDS
  | OMX_ITCH186_MSG_SYSTEM_EVENT | OMX_ITCH186_MSG_MARKET_SEGMENT_STATE | OMX_ITCH186_MSG_ORDER_BOOK_DIRECTORY
  | OMX_ITCH186_MSG_ORDER_BOOK_TRADING_ACTION | OMX_ITCH186_MSG_ADD_ORDER | OMX_ITCH186_MSG_ADD_ORDER_MPID
  | OMX_ITCH186_MSG_ORDER_EXECUTED | OMX_ITCH186_MSG_ORDER_EXECUTED_WITH_PRICE | OMX_ITCH186_MSG_ORDER_CANCEL
  | OMX_ITCH186_MSG_ORDER_DELETE | OMX_ITCH186_MSG_TRADE | OMX_ITCH186_MSG_CROSS_TRADE
  | OMX_ITCH186_MSG_BROKEN_TRADE | OMX_ITCH186_MSG_NOII

fun omx_itch186_msg_code :: "omx_itch186_msg_type \<Rightarrow> u8" where
  "omx_itch186_msg_code OMX_ITCH186_MSG_SECONDS = of_char (CHR ''T'')"
| "omx_itch186_msg_code OMX_ITCH186_MSG_MILLISECONDS = of_char (CHR ''M'')"
| "omx_itch186_msg_code OMX_ITCH186_MSG_SYSTEM_EVENT = of_char (CHR ''S'')"
| "omx_itch186_msg_code OMX_ITCH186_MSG_MARKET_SEGMENT_STATE = of_char (CHR ''O'')"
| "omx_itch186_msg_code OMX_ITCH186_MSG_ORDER_BOOK_DIRECTORY = of_char (CHR ''R'')"
| "omx_itch186_msg_code OMX_ITCH186_MSG_ORDER_BOOK_TRADING_ACTION = of_char (CHR ''H'')"
| "omx_itch186_msg_code OMX_ITCH186_MSG_ADD_ORDER = of_char (CHR ''A'')"
| "omx_itch186_msg_code OMX_ITCH186_MSG_ADD_ORDER_MPID = of_char (CHR ''F'')"
| "omx_itch186_msg_code OMX_ITCH186_MSG_ORDER_EXECUTED = of_char (CHR ''E'')"
| "omx_itch186_msg_code OMX_ITCH186_MSG_ORDER_EXECUTED_WITH_PRICE = of_char (CHR ''C'')"
| "omx_itch186_msg_code OMX_ITCH186_MSG_ORDER_CANCEL = of_char (CHR ''X'')"
| "omx_itch186_msg_code OMX_ITCH186_MSG_ORDER_DELETE = of_char (CHR ''D'')"
| "omx_itch186_msg_code OMX_ITCH186_MSG_TRADE = of_char (CHR ''P'')"
| "omx_itch186_msg_code OMX_ITCH186_MSG_CROSS_TRADE = of_char (CHR ''Q'')"
| "omx_itch186_msg_code OMX_ITCH186_MSG_BROKEN_TRADE = of_char (CHR ''B'')"
| "omx_itch186_msg_code OMX_ITCH186_MSG_NOII = of_char (CHR ''I'')"

subsection \<open>Structures\<close>

definition omx_itch186_message :: layout where
  "omx_itch186_message = [(''MessageType'', C_u8)]"

definition omx_itch186_msg_seconds :: layout where
  "omx_itch186_msg_seconds = [(''MessageType'', C_u8), (''Second'', C_array 5)]"

definition omx_itch186_msg_milliseconds :: layout where
  "omx_itch186_msg_milliseconds = [(''MessageType'', C_u8), (''Millisecond'', C_array 3)]"

definition omx_itch186_msg_system_event :: layout where
  "omx_itch186_msg_system_event = [(''MessageType'', C_u8), (''EventCode'', C_char)]"

definition omx_itch186_msg_market_segment_state :: layout where
  "omx_itch186_msg_market_segment_state = [(''MessageType'', C_u8), (''MarketSegmentID'', C_array 3),
     (''EventCode'', C_char)]"

definition omx_itch186_msg_order_book_directory :: layout where
  "omx_itch186_msg_order_book_directory = [(''MessageType'', C_u8), (''OrderBook'', C_array 6),
     (''Symbol'', C_array 16), (''ISIN'', C_array 12), (''FinancialProduct'', C_array 3),
     (''TradingCurrency'', C_array 3), (''MIC'', C_array 4), (''MarketSegmentID'', C_array 3),
     (''NoteCodes'', C_array 8), (''RoundLotSize'', C_array 9)]"

definition omx_itch186_msg_order_book_trading_action :: layout where
  "omx_itch186_msg_order_book_trading_action = [(''MessageType'', C_u8), (''OrderBook'', C_array 6),
     (''TradingState'', C_char), (''Reserved'', C_char), (''Reason'', C_array 4)]"

definition omx_itch186_msg_add_order :: layout where
  "omx_itch186_msg_add_order = [(''MessageType'', C_u8), (''OrderReferenceNumber'', C_array 9),
     (''BuySellIndicator'', C_char), (''Quantity'', C_array 9), (''OrderBook'', C_array 6), (''Price'', C_array 10)]"

definition omx_itch186_msg_add_order_mpid :: layout where
  "omx_itch186_msg_add_order_mpid = [(''MessageType'', C_u8), (''OrderReferenceNumber'', C_array 9),
     (''BuySellIndicator'', C_char), (''Quantity'', C_array 9), (''OrderBook'', C_array 6),
     (''Price'', C_array 10), (''Attribution'', C_array 4)]"

definition omx_itch186_msg_order_executed :: layout where
  "omx_itch186_msg_order_executed = [(''MessageType'', C_u8), (''OrderReferenceNumber'', C_array 9),
     (''ExecutedQuantity'', C_array 9), (''MatchNumber'', C_array 9), (''OwnerParticipantID'', C_array 4),
     (''CounterpartyParticipantID'', C_array 4)]"

definition omx_itch186_msg_order_executed_with_price :: layout where
  "omx_itch186_msg_order_executed_with_price = [(''MessageType'', C_u8), (''OrderReferenceNumber'', C_array 9),
     (''ExecutedQuantity'', C_array 9), (''MatchNumber'', C_array 9), (''Printable'', C_char),
     (''TradePrice'', C_array 10), (''OwnerParticipantID'', C_array 4), (''CounterpartyParticipantID'', C_array 4)]"

definition omx_itch186_msg_order_cancel :: layout where
  "omx_itch186_msg_order_cancel = [(''MessageType'', C_u8), (''OrderReferenceNumber'', C_array 9),
     (''CanceledQuantity'', C_array 9)]"

definition omx_itch186_msg_order_delete :: layout where
  "omx_itch186_msg_order_delete = [(''MessageType'', C_u8), (''OrderReferenceNumber'', C_array 9)]"

definition omx_itch186_msg_trade :: layout where
  "omx_itch186_msg_trade = [(''MessageType'', C_u8), (''OrderReferenceNumber'', C_array 9),
     (''TradeType'', C_char), (''Quantity'', C_array 9), (''OrderBook'', C_array 6), (''MatchNumber'', C_array 9),
     (''TradePrice'', C_array 10), (''BuyerParticipantID'', C_array 4), (''SellerParticipantID'', C_array 4)]"

definition omx_itch186_msg_cross_trade :: layout where
  "omx_itch186_msg_cross_trade = [(''MessageType'', C_u8), (''Quantity'', C_array 9), (''OrderBook'', C_array 6),
     (''CrossPrice'', C_array 10), (''MatchNumber'', C_array 9), (''CrossType'', C_char),
     (''NumberOfTrades'', C_array 10)]"

definition omx_itch186_msg_broken_trade :: layout where
  "omx_itch186_msg_broken_trade = [(''MessageType'', C_u8), (''MatchNumber'', C_array 9)]"

definition omx_itch186_msg_noii :: layout where
  "omx_itch186_msg_noii = [(''MessageType'', C_u8), (''PairedQuantity'', C_array 9),
     (''ImbalanceQuantity'', C_array 9), (''ImbalanceDirection'', C_char), (''OrderBook'', C_array 6),
     (''EquilibriumPrice'', C_array 10), (''CrossType'', C_char), (''BestBidPrice'', C_array 10),
     (''BestBidQuantity'', C_array 9), (''BestAskPrice'', C_array 10), (''BestAskQuantity'', C_array 9)]"

lemmas omx_itch186_structs =
  omx_itch186_message_def omx_itch186_msg_seconds_def omx_itch186_msg_milliseconds_def
  omx_itch186_msg_system_event_def omx_itch186_msg_market_segment_state_def
  omx_itch186_msg_order_book_directory_def omx_itch186_msg_order_book_trading_action_def
  omx_itch186_msg_add_order_def omx_itch186_msg_add_order_mpid_def omx_itch186_msg_order_executed_def
  omx_itch186_msg_order_executed_with_price_def omx_itch186_msg_order_cancel_def
  omx_itch186_msg_order_delete_def omx_itch186_msg_trade_def omx_itch186_msg_cross_trade_def
  omx_itch186_msg_broken_trade_def omx_itch186_msg_noii_def

subsection \<open>Decoding\<close>

definition omx_itch186_cases :: "(u8 \<times> layout) list" where
  "omx_itch186_cases = [(omx_itch186_msg_code OMX_ITCH186_MSG_SECONDS, omx_itch186_msg_seconds),
     (omx_itch186_msg_code OMX_ITCH186_MSG_MILLISECONDS, omx_itch186_msg_milliseconds),
     (omx_itch186_msg_code OMX_ITCH186_MSG_SYSTEM_EVENT, omx_itch186_msg_system_event),
     (omx_itch186_msg_code OMX_ITCH186_MSG_MARKET_SEGMENT_STATE, omx_itch186_msg_market_segment_state),
     (omx_itch186_msg_code OMX_ITCH186_MSG_ORDER_BOOK_DIRECTORY, omx_itch186_msg_order_book_directory),
     (omx_itch186_msg_code OMX_ITCH186_MSG_ORDER_BOOK_TRADING_ACTION, omx_itch186_msg_order_book_trading_action),
     (omx_itch186_msg_code OMX_ITCH186_MSG_ADD_ORDER, omx_itch186_msg_add_order),
     (omx_itch186_msg_code OMX_ITCH186_MSG_ADD_ORDER_MPID, omx_itch186_msg_add_order_mpid),
     (omx_itch186_msg_code OMX_ITCH186_MSG_ORDER_EXECUTED, omx_itch186_msg_order_executed),
     (omx_itch186_msg_code OMX_ITCH186_MSG_ORDER_EXECUTED_WITH_PRICE, omx_itch186_msg_order_executed_with_price),
     (omx_itch186_msg_code OMX_ITCH186_MSG_ORDER_CANCEL, omx_itch186_msg_order_cancel),
     (omx_itch186_msg_code OMX_ITCH186_MSG_ORDER_DELETE, omx_itch186_msg_order_delete),
     (omx_itch186_msg_code OMX_ITCH186_MSG_TRADE, omx_itch186_msg_trade),
     (omx_itch186_msg_code OMX_ITCH186_MSG_CROSS_TRADE, omx_itch186_msg_cross_trade),
     (omx_itch186_msg_code OMX_ITCH186_MSG_BROKEN_TRADE, omx_itch186_msg_broken_trade),
     (omx_itch186_msg_code OMX_ITCH186_MSG_NOII, omx_itch186_msg_noii)]"

definition omx_itch186_message_size :: "u8 \<Rightarrow> ulong" where
  "omx_itch186_message_size type = switch type omx_itch186_cases"

definition omx_itch186_message_decode :: "buffer \<Rightarrow> (ptr option \<times> buffer) option" where
  "omx_itch186_message_decode buf =
     (let available = buffer_size buf in
      if available = 0 then Some (None, buf)
      else do {
        type \<leftarrow> buffer_peek_8 buf;
        (let sz = omx_itch186_message_size type in
         if sz = 0 then Some (None, buf)
         else if available < sz then Some (None, buf)
         else
           let start = buffer_start buf; buf = buffer_advance buf sz
           in Some (Some start, buf)) })"

text \<open>The decoder keeps the contract of a feed whose messages begin with their type.\<close>

interpretation omx_itch186: sized_feed omx_itch186_message_size omx_itch186_message_decode
  by unfold_locales (simp add: omx_itch186_message_decode_def typed_decode_def Let_def cong: if_cong)

end
