(* ===== verification/Feed_Pitch.thy ===== *)
theory Feed_Pitch
  imports Feed
begin

text \<open>
  BATS PITCH (lib/proto/bats_pitch_message.c, bats_pitch_message.h): message types, structures, and the decoder,
  which looks for the type behind the time stamp and answers a pointer into the buffer.
\<close>

subsection \<open>Message types\<close>

datatype pitch_msg_type = PITCH_MSG_SYMBOL_CLEAR | PITCH_MSG_ADD_ORDER_SHORT | PITCH_MSG_ADD_ORDER_LONG
  | PITCH_MSG_ORDER_EXECUTED | PITCH_MSG_ORDER_CANCEL | PITCH_MSG_TRADE_SHORT | PITCH_MSG_TRADE_LONG
  | PITCH_MSG_TRADE_BREAK | PITCH_MSG_TRADING_STATUS | PITCH_MSG_AUCTION_UPDATE | PITCH_MSG_AUCTION_SUMMARY

fun pitch_msg_code :: "pitch_msg_type \<Rightarrow> u8" where
  "pitch_msg_code PITCH_MSG_SYMBOL_CLEAR = of_char (CHR ''s'')"
| "pitch_msg_code PITCH_MSG_ADD_ORDER_SHORT = of_char (CHR ''A'')"
| "pitch_msg_code PITCH_MSG_ADD_ORDER_LONG = of_char (CHR ''d'')"
| "pitch_msg_code PITCH_MSG_ORDER_EXECUTED = of_char (CHR ''E'')"
| "pitch_msg_code PITCH_MSG_ORDER_CANCEL = of_char (CHR ''X'')"
| "pitch_msg_code PITCH_MSG_TRADE_SHORT = of_char (CHR ''P'')"
| "pitch_msg_code PITCH_MSG_TRADE_LONG = of_char (CHR ''r'')"
| "pitch_msg_code PITCH_MSG_TRADE_BREAK = of_char (CHR ''B'')"
| "pitch_msg_code PITCH_MSG_TRADING_STATUS = of_char (CHR ''H'')"
| "pitch_msg_code PITCH_MSG_AUCTION_UPDATE = of_char (CHR ''I'')"
| "pitch_msg_code PITCH_MSG_AUCTION_SUMMARY = of_char (CHR ''J'')"

subsection \<open>Structures\<close>

definition pitch_message :: layout where
  "pitch_message = [(''Timestamp'', C_array 8), (''MessageType'', C_u8)]"

definition pitch_msg_symbol_clear :: layout where
  "pitch_msg_symbol_clear = [(''Timestamp'', C_array 8), (''MessageType'', C_u8), (''StockSymbol'', C_array 8)]"

definition pitch_msg_add_order_short :: layout where
  "pitch_msg_add_order_short = [(''Timestamp'', C_array 8), (''MessageType'', C_u8), (''OrderID'', C_array 12),
     (''SideIndicator'', C_char), (''Shares'', C_array 6), (''StockSymbol'', C_array 6), (''Price'', C_array 10),
     (''Display'', C_char)]"

definition pitch_msg_add_order_long :: layout where
  "pitch_msg_add_order_long = [(''Timestamp'', C_array 8), (''MessageType'', C_u8), (''OrderID'', C_array 12),
     (''SideIndicator'', C_char), (''Shares'', C_array 6), (''StockSymbol'', C_array 8), (''Price'', C_array 10),
     (''Display'', C_char), (''ParticipantID'', C_array 4)]"

definition pitch_msg_order_executed :: layout where
  "pitch_msg_order_executed = [(''Timestamp'', C_array 8), (''MessageType'', C_u8), (''OrderID'', C_array 12),
     (''ExecutedShares'', C_array 6), (''ExecutionID'', C_array 12)]"

definition pitch_msg_order_cancel :: layout where
  "pitch_msg_order_cancel = [(''Timestamp'', C_array 8), (''MessageType'', C_u8), (''OrderID'', C_array 12),
     (''CanceledShares'', C_array 6)]"

definition pitch_msg_trade_short :: layout where
  "pitch_msg_trade_short = [(''Timestamp'', C_array 8), (''MessageType'', C_u8), (''OrderID'', C_array 12),
     (''SideIndicator'', C_char), (''Shares'', C_array 6), (''StockSymbol'', C_array 6), (''Price'', C_array 10),
     (''ExecutionID'', C_array 12)]"

definition pitch_msg_trade_long :: layout where
  "pitch_msg_trade_long = [(''Timestamp'', C_array 8), (''MessageType'', C_u8), (''OrderID'', C_array 12),
     (''SideIndicator'', C_char), (''Shares'', C_array 6), (''StockSymbol'', C_array 8), (''Price'', C_array 10),
     (''ExecutionID'', C_array 12)]"

definition pitch_msg_trade_break :: layout where
  "pitch_msg_trade_break = [(''Timestamp'', C_array 8), (''MessageType'', C_u8), (''ExecutionID'', C_array 12)]"

definition pitch_msg_trading_status :: layout where
  "pitch_msg_trading_status = [(''Timestamp'', C_array 8), (''MessageType'', C_u8), (''StockSymbol'', C_array 8),
     (''HaltStatus'', C_char), (''RegSHOAction'', C_char), (''Reserved1'', C_char), (''Reserved2'', C_char)]"

definition pitch_msg_auction_update :: layout where
  "pitch_msg_auction_update = [(''Timestamp'', C_array 8), (''MessageType'', C_u8), (''StockSymbol'', C_array 8),
     (''AuctionType'', C_char), (''ReferencePrice'', C_array 10), (''BuyShares'', C_array 10),
     (''SellShares'', C_array 10), (''IndicativePrice'', C_array 10), (''AuctionOnlyPrice'', C_array 10)]"

definition pitch_msg_auction_summary :: layout where
  "pitch_msg_auction_summary = [(''Timestamp'', C_array 8), (''MessageType'', C_u8), (''StockSymbol'', C_array 8),
     (''AuctionType'', C_char), (''Price'', C_array 10), (''Shares'', C_array 10)]"

lemmas pitch_structs =
  pitch_message_def pitch_msg_symbol_clear_def pitch_msg_add_order_short_def pitch_msg_add_order_long_def
  pitch_msg_order_executed_def pitch_msg_order_cancel_def pitch_msg_trade_short_def
  pitch_msg_trade_long_def pitch_msg_trade_break_def pitch_msg_trading_status_def
  pitch_msg_auction_update_def pitch_msg_auction_summary_def

subsection \<open>Decoding\<close>

definition pitch_cases :: "(u8 \<times> layout) list" where
  "pitch_cases = [(pitch_msg_code PITCH_MSG_SYMBOL_CLEAR, pitch_msg_symbol_clear),
     (pitch_msg_code PITCH_MSG_ADD_ORDER_SHORT, pitch_msg_add_order_short),
     (pitch_msg_code PITCH_MSG_ADD_ORDER_LONG, pitch_msg_add_order_long),
     (pitch_msg_code PITCH_MSG_ORDER_EXECUTED, pitch_msg_order_executed),
     (pitch_msg_code PITCH_MSG_ORDER_CANCEL, pitch_msg_order_cancel),
     (pitch_msg_code PITCH_MSG_TRADE_SHORT, pitch_msg_trade_short),
     (pitch_msg_code PITCH_MSG_TRADE_LONG, pitch_msg_trade_long),
     (pitch_msg_code PITCH_MSG_TRADE_BREAK, pitch_msg_trade_break),
     (pitch_msg_code PITCH_MSG_TRADING_STATUS, pitch_msg_trading_status),
     (pitch_msg_code PITCH_MSG_AUCTION_UPDATE, pitch_msg_auction_update),
     (pitch_msg_code PITCH_MSG_AUCTION_SUMMARY, pitch_msg_auction_summary)]"

definition pitch_message_size :: "u8 \<Rightarrow> ulong" where
  "pitch_message_size type = switch type pitch_cases"

definition pitch_message_decode :: "buffer \<Rightarrow> ulong \<Rightarrow> (ptr option \<times> buffer) option" where
  "pitch_message_decode buf extra =
     (let available = buffer_size buf in
      if available < of_nat (layout_size pitch_message) then Some (None, buf)
      else do {
        type \<leftarrow> mem_get (data buf) (buffer_start buf + 8);
        (let sz = pitch_message_size type in
         if sz = 0 then Some (None, buf)
         else if available < sz + extra then Some (None, buf)
         else Some (Some (buffer_start buf), buffer_advance buf sz)) })"

definition pitch_framed :: "u8 list \<Rightarrow> bool" where
  "pitch_framed m \<longleftrightarrow> 9 \<le> length m \<and> unat (pitch_message_size (m ! 8)) = length m"

lemma pitch_type: "holds b bs \<Longrightarrow> 9 \<le> length bs \<Longrightarrow> mem_get (data b) (buffer_start b + 8) = Some (bs ! 8)"
  using holds_nth [of b bs 8] by simp

lemma pitch_short: "holds b bs \<Longrightarrow> buffer_size b < of_nat (layout_size pitch_message) \<longleftrightarrow> length bs < 9"
  using holds_size [of b bs] by (simp add: pitch_message_def layout_size_def word_less_nat_alt)

text \<open>The decoder keeps the contract of a feed when nothing is wanted after a message.\<close>

interpretation pitch: feed "\<lambda>b. pitch_message_decode b 0" "\<lambda>x. x \<noteq> None" points_to pitch_framed
proof
  show "\<exists>x. pitch_message_decode b 0 = Some (x, buffer_advance b (of_nat (length m))) \<and> x \<noteq> None \<and> points_to (data b) x m"
    if h: "holds b (m @ r)" and f: "pitch_framed m" for b m r
  proof -
    have "of_nat (unat (pitch_message_size (m ! 8))) = pitch_message_size (m ! 8)" by simp
    then have e: "pitch_message_size (m ! 8) = of_nat (length m)" "pitch_message_size (m ! 8) \<noteq> 0"
      using f by (simp_all only: pitch_framed_def) auto
    have "\<not> buffer_size b < pitch_message_size (m ! 8)"
      using holds_size [OF h] f by (simp add: word_less_nat_alt pitch_framed_def)
    with e f pitch_short [OF h] pitch_type [OF h] holds_points [OF h] show ?thesis
      by (simp add: pitch_message_decode_def pitch_framed_def Let_def nth_append)
  qed
  show "\<exists>x. pitch_message_decode b 0 = Some (x, b) \<and> \<not> x \<noteq> None"
    if h: "holds b p" and f: "pitch_framed (p @ q)" and q: "q \<noteq> []" for b p q
  proof (cases "length p < 9")
    case True
    with pitch_short [OF h] show ?thesis by (simp add: pitch_message_decode_def)
  next
    case False
    have "buffer_size b < pitch_message_size (p ! 8)"
      using holds_size [OF h] f q False by (simp add: word_less_nat_alt pitch_framed_def nth_append)
    with False pitch_short [OF h] pitch_type [OF h] show ?thesis by (simp add: pitch_message_decode_def Let_def)
  qed
  show "\<exists>x. pitch_message_decode b 0 = Some (x, b) \<and> \<not> x \<noteq> None" if "holds b []" for b
    using pitch_short [OF that] by (simp add: pitch_message_decode_def)
qed
end
