(* ===== verification/Feed_Nyse.thy ===== *)
theory Feed_Nyse
  imports Feed
begin

text \<open>
  NYSE feeds: XDP (lib/proto/xdp_message.c, xdp_message.h), whose messages begin with their size, and the TAQ
  records (lib/proto/nyse_taq_message.c, nyse_taq_message.h), which have a fixed size each.
\<close>

subsection \<open>XDP message types\<close>

datatype xdp_msg_type = XDP_MSG_ORDER_BOOK_ADD_ORDER | XDP_MSG_ORDER_BOOK_MODIFY | XDP_MSG_ORDER_BOOK_DELETE
  | XDP_MSG_ORDER_BOOK_EXECUTION | XDP_MSG_ORDER_BOOK_ADD_ORDER_REFRESH | XDP_MSG_TRADE
  | XDP_MSG_TRADE_CANCEL_OR_BUST | XDP_MSG_TRADE_CORRECTION | XDP_MSG_STOCK_SUMMARY | XDP_MSG_PBBO | XDP_MSG_IMBALANCE

fun xdp_msg_code :: "xdp_msg_type \<Rightarrow> u8" where
  "xdp_msg_code XDP_MSG_ORDER_BOOK_ADD_ORDER = 100"
| "xdp_msg_code XDP_MSG_ORDER_BOOK_MODIFY = 101"
| "xdp_msg_code XDP_MSG_ORDER_BOOK_DELETE = 102"
| "xdp_msg_code XDP_MSG_ORDER_BOOK_EXECUTION = 103"
| "xdp_msg_code XDP_MSG_ORDER_BOOK_ADD_ORDER_REFRESH = 106"
| "xdp_msg_code XDP_MSG_TRADE = 220"
| "xdp_msg_code XDP_MSG_TRADE_CANCEL_OR_BUST = 221"
| "xdp_msg_code XDP_MSG_TRADE_CORRECTION = 222"
| "xdp_msg_code XDP_MSG_STOCK_SUMMARY = 223"
| "xdp_msg_code XDP_MSG_PBBO = 104"
| "xdp_msg_code XDP_MSG_IMBALANCE = 105"

subsection \<open>XDP structures\<close>

definition xdp_message :: layout where
  "xdp_message = [(''MsgSize'', C_le16), (''MsgType'', C_le16)]"

definition xdp_msg_order_book_add_order :: layout where
  "xdp_msg_order_book_add_order = [(''MsgSize'', C_le16), (''MsgType'', C_le16), (''SourceTimeNS'', C_le32),
     (''SymbolIndex'', C_le32), (''SymbolSeqNum'', C_le32), (''OrderID'', C_le32), (''Price'', C_le32),
     (''Volume'', C_le32), (''Side'', C_char), (''OrderIDGTCIndicator'', C_char), (''TradeSession'', C_char)]"

definition xdp_msg_order_book_modify :: layout where
  "xdp_msg_order_book_modify = [(''MsgSize'', C_le16), (''MsgType'', C_le16), (''SourceTimeNS'', C_le32),
     (''SymbolIndex'', C_le32), (''SymbolSeqNum'', C_le32), (''OrderID'', C_le32), (''Price'', C_le32),
     (''Volume'', C_le32), (''Side'', C_char), (''OrderIDGTCIndicator'', C_char), (''ReasonCode'', C_char)]"

definition xdp_msg_order_book_delete :: layout where
  "xdp_msg_order_book_delete = [(''MsgSize'', C_le16), (''MsgType'', C_le16), (''SourceTimeNS'', C_le32),
     (''SymbolIndex'', C_le32), (''SymbolSeqNum'', C_le32), (''OrderID'', C_le32), (''Side'', C_char),
     (''OrderIDGTCIndicator'', C_char), (''ReasonCode'', C_char)]"

definition xdp_msg_order_book_execution :: layout where
  "xdp_msg_order_book_execution = [(''MsgSize'', C_le16), (''MsgType'', C_le16), (''SourceTimeNS'', C_le32),
     (''SymbolIndex'', C_le32), (''SymbolSeqNum'', C_le32), (''OrderID'', C_le32), (''Price'', C_le32),
     (''Volume'', C_le32), (''Side'', C_char), (''OrderIDGTCIndicator'', C_char), (''ReasonCode'', C_char),
     (''TradeID'', C_le32)]"

definition xdp_msg_order_book_add_order_refresh :: layout where
  "xdp_msg_order_book_add_order_refresh = [(''MsgSize'', C_le16), (''MsgType'', C_le16), (''SourceTime'', C_le32),
     (''SourceTimeNS'', C_le32), (''SymbolIndex'', C_le32), (''SymbolSeqNum'', C_le32), (''OrderID'', C_le32),
     (''Price'', C_le32), (''Volume'', C_le32), (''Side'', C_char), (''OrderIDGTCIndicator'', C_char),
     (''TradeSession'', C_char)]"

definition xdp_msg_trade :: layout where
  "xdp_msg_trade = [(''MsgSize'', C_le16), (''MsgType'', C_le16), (''SourceTime'', C_le32),
     (''SourceTimeNS'', C_le32), (''SymbolIndex'', C_le32), (''SymbolSeqNum'', C_le32), (''TradeID'', C_le32),
     (''Price'', C_le32), (''Volume'', C_le32), (''TradeCond1'', C_char), (''TradeCond2'', C_char),
     (''TradeCond3'', C_char), (''TradeCond4'', C_char), (''TradeThroughExempt'', C_char),
     (''LiquidityIndicatorFlag'', C_char), (''AskPrice'', C_le32), (''AskVolume'', C_le32), (''BidPrice'', C_le32),
     (''BidVolume'', C_le32)]"

definition xdp_msg_trade_cancel_or_bust :: layout where
  "xdp_msg_trade_cancel_or_bust = [(''MsgSize'', C_le16), (''MsgType'', C_le16), (''SourceTime'', C_le32),
     (''SourceTimeNS'', C_le32), (''SymbolIndex'', C_le32), (''SymbolSeqNum'', C_le32),
     (''OriginalTradeID'', C_le32)]"

definition xdp_msg_trade_correction :: layout where
  "xdp_msg_trade_correction = [(''MsgSize'', C_le16), (''MsgType'', C_le16), (''SourceTime'', C_le32),
     (''SourceTimeNS'', C_le32), (''SymbolIndex'', C_le32), (''SymbolSeqNum'', C_le32),
     (''OriginalTradeID'', C_le32), (''TradeID'', C_le32), (''Price'', C_le32), (''Volume'', C_le32),
     (''TradeCond1'', C_char), (''TradeCond2'', C_char), (''TradeCond3'', C_char), (''TradeCond4'', C_char),
     (''TradeThroughExempt'', C_char)]"

definition xdp_msg_stock_summary :: layout where
  "xdp_msg_stock_summary = [(''MsgSize'', C_le16), (''MsgType'', C_le16), (''SourceTime'', C_le32),
     (''SourceTimeNS'', C_le32), (''SymbolIndex'', C_le32), (''HighPrice'', C_le32), (''LowPrice'', C_le32),
     (''Open'', C_le32), (''Close'', C_le32), (''TotalVolume'', C_le32)]"

definition xdp_msg_pbbo :: layout where
  "xdp_msg_pbbo = [(''MsgSize'', C_le16), (''MsgType'', C_le16), (''SourceTime'', C_le32),
     (''SourceTimeNS'', C_le32), (''SymbolIndex'', C_le32), (''SymbolSeqNum'', C_le32), (''BidPrice'', C_le32),
     (''AskPrice'', C_le32)]"

definition xdp_msg_imbalance :: layout where
  "xdp_msg_imbalance = [(''MsgSize'', C_le16), (''MsgType'', C_le16), (''SourceTime'', C_le32),
     (''SourceTimeNS'', C_le32), (''SymbolIndex'', C_le32), (''SymbolSeqNum'', C_le32),
     (''ReferencePrice'', C_le32), (''PairedQty'', C_le32), (''TotalImbalanceQty'', C_le32),
     (''MarketImbalanceQty'', C_le32), (''AuctionTime'', C_le16), (''AuctionType'', C_char),
     (''ImbalanceSide'', C_char), (''ContinuousBookClearingPrice'', C_le32),
     (''ClosingOnlyClearingPrice'', C_le32), (''SSRFilingPrice'', C_le32)]"

subsection \<open>XDP decoding\<close>

text \<open>Nothing is compared with the number of bytes that are there.\<close>

definition xdp_message_decode :: "buffer \<Rightarrow> mem \<Rightarrow> ulong \<Rightarrow> (i32 \<times> mem \<times> buffer) option" where
  "xdp_message_decode buf msg sz =
     (let available = buffer_size buf in
      if available = 0 then Some (-1, msg, buf)
      else do {
        msg_size \<leftarrow> buffer_peek_le16 buf;
        (if sz < ucast msg_size then Some (-1, msg, buf)
         else do {
           bs \<leftarrow> mem_load (data buf) (buffer_start buf) (unat msg_size);
           msg \<leftarrow> mem_store msg 0 bs;
           Some (0, msg, buffer_advance buf (ucast msg_size)) }) })"

definition xdp_framed :: "u8 list \<Rightarrow> bool" where
  "xdp_framed m \<longleftrightarrow> 2 \<le> length m \<and> le_value (take 2 m) = length m"

lemma xdp_size:
  assumes "holds b bs" "2 \<le> length bs"
  shows "\<exists>n. buffer_peek_le16 b = Some n \<and> unat n = le_value (take 2 bs) \<and> buffer_size b \<noteq> 0"
proof -
  obtain c0 c1 r where bs: "bs = c0 # c1 # r" using assms(2) by (auto simp: numeral_2_eq_2 Suc_le_length_iff)
  have "buffer_size b \<noteq> 0" using holds_size_0 [OF assms(1)] by (simp add: bs)
  moreover have "unat (push_bit 8 (ucast c1) OR ucast c0 :: u16) = unat c0 + 256 * unat c1" by (rule unat_two_bytes)
  moreover have "buffer_peek_le16 b = Some (push_bit 8 (ucast c1) OR ucast c0)"
    using holds_peek_le16 assms(1) by (simp add: bs)
  ultimately show ?thesis by (simp add: bs)
qed

text \<open>A whole message is taken off the buffer.\<close>

interpretation xdp: whole_feed "with_msg (\<lambda>b msg. xdp_message_decode b msg sz) msg" copied copy_of
  "\<lambda>m. xdp_framed m \<and> length m \<le> unat sz \<and> length m \<le> length msg" for sz msg
proof
  show "\<exists>x. with_msg (\<lambda>b msg. xdp_message_decode b msg sz) msg b = Some (x, buffer_advance b (of_nat (length m))) \<and> copied x
      \<and> copy_of (data b) x m"
    if h: "holds b (m @ r)" and f: "xdp_framed m \<and> length m \<le> unat sz \<and> length m \<le> length msg" for b m r
  proof -
    obtain n where n: "buffer_peek_le16 b = Some n" "unat n = length m" "buffer_size b \<noteq> 0"
      using xdp_size [OF h] f by (auto simp: xdp_framed_def)
    have u: "unat (ucast n :: ulong) = length m" "(ucast n :: i64) = of_nat (length m)"
      using n(2) by (simp_all add: unat_ucast_up n(2) [symmetric])
    have "\<not> sz < ucast n" using u(1) f by (simp add: word_less_nat_alt)
    with n u holds_load_prefix [OF h] f show ?thesis
      by (simp add: with_msg_def xdp_message_decode_def Let_def mem_store_prefix)
  qed
qed

text \<open>An incomplete message is taken for a whole one, with the bytes that happen to follow in memory, and \<open>start\<close> moves
  beyond \<open>end\<close>: the buffer has a size of almost \<open>2 ^ 64\<close> bytes then.\<close>

lemma xdp_overruns:
  assumes h: "holds b p" and n: "2 \<le> length p" "length p < le_value (take 2 p)" "le_value (take 2 p) \<le> unat sz"
    and mem: "unat (b_start b) + le_value (take 2 p) \<le> length (data b)" "le_value (take 2 p) \<le> length msg"
  shows "\<exists>msg' b'. xdp_message_decode b msg sz = Some (0, msg', b') \<and> b_end b' = b_end b
    \<and> unat (buffer_size b') = 2 ^ 64 - (le_value (take 2 p) - length p)"
proof -
  obtain w where w: "buffer_peek_le16 b = Some w" "unat w = le_value (take 2 p)" "buffer_size b \<noteq> 0"
    using xdp_size [OF h n(1)] by blast
  define k where "k = le_value (take 2 p)"
  have k: "unat w = k" "length p < k" "k < 2 ^ 16" using w(2) n(2) unat_less_power [of w] by (simp_all add: k_def)
  have u: "unat (ucast w :: ulong) = k" "(ucast w :: i64) = of_nat k" using k(1) by (simp_all add: unat_ucast_up k(1) [symmetric])
  have "\<not> sz < ucast w" using u(1) n(3) by (simp add: word_less_nat_alt k_def)
  moreover define bs where "bs = take k (drop (unat (b_start b)) (data b))"
  have "mem_load (data b) (buffer_start b) k = Some bs"
    unfolding buffer_start_int bs_def using mem(1) by (intro mem_load_Some) (simp add: k_def)
  moreover have "length bs = k" using mem(1) by (simp add: bs_def k_def)
  ultimately have "xdp_message_decode b msg sz = Some (0, bs @ drop k msg, buffer_advance b (of_nat k))"
    using w(1,3) u k(1) mem(2) by (simp add: xdp_message_decode_def Let_def mem_store_prefix k_def)
  moreover have "unat (buffer_size (buffer_advance b (of_nat k))) = 2 ^ 64 - (k - length p)"
  proof -
    have "buffer_size (buffer_advance b (of_nat k)) = 0 - of_nat (k - length p)"
      using holds_size_of_nat [OF h] k(2) by (simp add: buffer_size_def buffer_advance_def of_nat_diff algebra_simps)
    moreover have "unat (of_nat (k - length p) :: ulong) = k - length p" by (rule of_nat_inverse [OF refl]) (use k(3) in simp)
    ultimately show ?thesis using k(2) by (simp only: unat_sub_if') simp
  qed
  ultimately show ?thesis by (simp add: k_def buffer_advance_def)
qed

subsection \<open>TAQ structures\<close>

definition nyse_taq_msg_daily_quote :: layout where
  "nyse_taq_msg_daily_quote = [(''Time'', C_array 9), (''Exchange'', C_char), (''Symbol'', C_array 16),
     (''BidPrice'', C_array 11), (''BidSize'', C_array 7), (''AskPrice'', C_array 11), (''AskSize'', C_array 7),
     (''QuoteCondition'', C_char), (''MarketMaker'', C_array 4), (''BidExchange'', C_char),
     (''AskExchange'', C_char), (''SequenceNumber'', C_array 16), (''NationalBBOInd'', C_char),
     (''NASDAQBBOInd'', C_char), (''QuoteCancelCorrection'', C_char), (''SourceOfQuote'', C_char),
     (''RetailInterestIndicator'', C_char), (''ShortSaleRestrictionIndicator'', C_char),
     (''LULDBBOIndicatorCQS'', C_char), (''LULDBBOIndicatorUTP'', C_char), (''FINRAADFMPIDIndicator'', C_char),
     (''LineChange'', C_array 2)]"

definition nyse_taq_msg_daily_trade :: layout where
  "nyse_taq_msg_daily_trade = [(''Time'', C_array 9), (''Exchange'', C_char), (''Symbol'', C_array 16),
     (''SaleCondition'', C_array 4), (''TradeVolume'', C_array 9), (''TradePrice'', C_array 11),
     (''TradeStopStockIndicator'', C_char), (''TradeCorrectionIndicator'', C_array 2),
     (''TradeSequenceNumber'', C_array 16), (''SourceOfTrade'', C_char), (''TradeReportingFacility'', C_char),
     (''LineChange'', C_array 2)]"

definition nyse_taq_msg_daily_nbbo :: layout where
  "nyse_taq_msg_daily_nbbo = [(''Time'', C_array 9), (''Exchange'', C_char), (''Symbol'', C_array 16),
     (''BidPrice'', C_array 11), (''BidSize'', C_array 7), (''AskPrice'', C_array 11), (''AskSize'', C_array 7),
     (''QuoteCondition'', C_char), (''MarketMaker'', C_array 4), (''BidExchange'', C_char),
     (''AskExchange'', C_char), (''SequenceNumber'', C_array 16), (''NationalBBOInd'', C_char),
     (''NASDAQBBOInd'', C_char), (''QuoteCancelCorrection'', C_char), (''SourceOfQuote'', C_char),
     (''NBBOQuoteCondition'', C_char), (''BestBidExchange'', C_char), (''BestBidPrice'', C_array 11),
     (''BestBidSize'', C_array 7), (''BestBidMarketMaker'', C_array 4), (''BestBidMMLocation'', C_array 2),
     (''BestBidMMDeskLocation'', C_char), (''BestAskExchange'', C_char), (''BestAskPrice'', C_array 11),
     (''BestAskSize'', C_array 7), (''BestAskMarketMaker'', C_array 4), (''BestAskMMLocation'', C_array 2),
     (''BestAskMMDeskLocation'', C_char), (''LULDNBBOIndicatorCQS'', C_char), (''LULDNBBOIndicatorUTP'', C_char),
     (''LineChange'', C_array 2)]"

subsection \<open>TAQ decoding\<close>

definition nyse_taq_msg_decode :: "buffer \<Rightarrow> ulong \<Rightarrow> (ptr option \<times> buffer) option" where
  "nyse_taq_msg_decode buf sz =
     (if buffer_size buf < sz then Some (None, buf)
      else Some (Some (buffer_start buf), buffer_advance buf sz))"

definition nyse_taq_msg_daily_quote_decode :: "buffer \<Rightarrow> (ptr option \<times> buffer) option" where
  "nyse_taq_msg_daily_quote_decode buf = nyse_taq_msg_decode buf (of_nat (layout_size nyse_taq_msg_daily_quote))"

definition nyse_taq_msg_daily_trade_decode :: "buffer \<Rightarrow> (ptr option \<times> buffer) option" where
  "nyse_taq_msg_daily_trade_decode buf = nyse_taq_msg_decode buf (of_nat (layout_size nyse_taq_msg_daily_trade))"

definition nyse_taq_msg_daily_nbbo_decode :: "buffer \<Rightarrow> (ptr option \<times> buffer) option" where
  "nyse_taq_msg_daily_nbbo_decode buf = nyse_taq_msg_decode buf (of_nat (layout_size nyse_taq_msg_daily_nbbo))"

lemma nyse_feed:
  assumes "0 < n" "n < 2 ^ 64"
  shows "feed (\<lambda>b. nyse_taq_msg_decode b (of_nat n)) (\<lambda>x. x \<noteq> None) points_to (\<lambda>m. length m = n)"
proof
  have u: "unat (of_nat n :: ulong) = n" by (rule of_nat_inverse [OF refl]) (use assms in simp)
  show "\<exists>x. nyse_taq_msg_decode b (of_nat n) = Some (x, buffer_advance b (of_nat (length m))) \<and> x \<noteq> None \<and> points_to (data b) x m"
    if "holds b (m @ r)" "length m = n" for b m r
    using holds_size [OF that(1)] holds_points [OF that(1)] that(2) u
    by (simp add: nyse_taq_msg_decode_def word_less_nat_alt)
  show "\<exists>x. nyse_taq_msg_decode b (of_nat n) = Some (x, b) \<and> \<not> x \<noteq> None"
    if "holds b p" "length (p @ q) = n" "q \<noteq> []" for b p and q :: "u8 list"
    using holds_size [OF that(1)] that(2,3) u by (auto simp: nyse_taq_msg_decode_def word_less_nat_alt)
  show "\<exists>x. nyse_taq_msg_decode b (of_nat n) = Some (x, b) \<and> \<not> x \<noteq> None" if "holds b []" for b
    using holds_size [OF that] assms(1) u by (simp add: nyse_taq_msg_decode_def word_less_nat_alt)
qed

interpretation daily_quote: feed nyse_taq_msg_daily_quote_decode "\<lambda>x. x \<noteq> None" points_to
  "\<lambda>m. length m = layout_size nyse_taq_msg_daily_quote"
  unfolding nyse_taq_msg_daily_quote_decode_def [abs_def]
  by (rule nyse_feed) (simp_all add: layout_size_def nyse_taq_msg_daily_quote_def)

interpretation daily_trade: feed nyse_taq_msg_daily_trade_decode "\<lambda>x. x \<noteq> None" points_to
  "\<lambda>m. length m = layout_size nyse_taq_msg_daily_trade"
  unfolding nyse_taq_msg_daily_trade_decode_def [abs_def]
  by (rule nyse_feed) (simp_all add: layout_size_def nyse_taq_msg_daily_trade_def)

interpretation daily_nbbo: feed nyse_taq_msg_daily_nbbo_decode "\<lambda>x. x \<noteq> None" points_to
  "\<lambda>m. length m = layout_size nyse_taq_msg_daily_nbbo"
  unfolding nyse_taq_msg_daily_nbbo_decode_def [abs_def]
  by (rule nyse_feed) (simp_all add: layout_size_def nyse_taq_msg_daily_nbbo_def)

end
