(* ===== verification/Feed_Wire.thy ===== *)
theory Feed_Wire
  imports Feed_Itch40 Feed_Itch41 Feed_Itch50 Feed_Omx Feed_Pitch Feed_Nyse
begin

text \<open>
  The market data protocols as the exchanges send them, apart from the C structures and from the sizes that the decoders
  look up: for each message, the names, widths and coding of its fields on the wire, written out.  The locale
  \<open>wire_feed\<close> says when a decoder and the structures that a program reads with agree with such a table; its lemma
  is what the program then sees of a stream.  Nothing in a table refers to a structure or to a \<open>switch\<close> of the code.
\<close>

subsection \<open>Fields on the wire\<close>

text \<open>A letter that tells the type of the message, one byte, a number of so many bytes with the highest first, or so
  many bytes as they are.\<close>

datatype wire_field = Tag char | Byte | Big nat | Raw nat

type_synonym wire = "(string \<times> wire_field) list"

fun field_width :: "wire_field \<Rightarrow> nat" where
  "field_width (Tag c) = 1"
| "field_width Byte = 1"
| "field_width (Big n) = n"
| "field_width (Raw n) = n"

fun field_bytes :: "wire_field \<Rightarrow> cvalue \<Rightarrow> u8 list" where
  "field_bytes f (Num v) = map (\<lambda>i. of_nat (v div 256 ^ i)) (rev [0..<field_width f])"
| "field_bytes f (Arr bs) = bs"

fun field_fits :: "wire_field \<Rightarrow> cvalue \<Rightarrow> bool" where
  "field_fits (Tag c) x \<longleftrightarrow> x = Num (of_char c)"
| "field_fits Byte x \<longleftrightarrow> (case x of Num v \<Rightarrow> v < 256 | Arr bs \<Rightarrow> False)"
| "field_fits (Big n) x \<longleftrightarrow> (case x of Num v \<Rightarrow> v < 256 ^ n | Arr bs \<Rightarrow> False)"
| "field_fits (Raw n) x \<longleftrightarrow> (case x of Num v \<Rightarrow> False | Arr bs \<Rightarrow> length bs = n)"

definition wire_size :: "wire \<Rightarrow> nat" where
  "wire_size w = sum_list (map (field_width \<circ> snd) w)"

text \<open>A message: its type, and the value of every field.\<close>

fun wire_bytes :: "('t \<Rightarrow> wire) \<Rightarrow> 't \<times> cvalue list \<Rightarrow> u8 list" where
  "wire_bytes wires (t, vs) = concat (map2 (\<lambda>(n, f) v. field_bytes f v) (wires t) vs)"

fun wire_msg :: "('t \<Rightarrow> wire) \<Rightarrow> 't \<times> cvalue list \<Rightarrow> bool" where
  "wire_msg wires (t, vs) \<longleftrightarrow> list_all2 (\<lambda>(n, f) v. field_fits f v) (wires t) vs"

text \<open>The program reads every field of the message, by its name, with the structure \<open>struct\<close> of the type at the
  bytes \<open>bs\<close>.\<close>

fun sees :: "('t \<Rightarrow> wire) \<Rightarrow> ('t \<Rightarrow> layout) \<Rightarrow> u8 list \<Rightarrow> 't \<times> cvalue list \<Rightarrow> bool" where
  "sees wires struct bs (t, vs) \<longleftrightarrow> map (\<lambda>(n, f). read_member (struct t) n bs) (wires t) = map Some vs"

subsection \<open>Structures that agree with the wire\<close>

fun same_coding :: "wire_field \<Rightarrow> ctype \<Rightarrow> bool" where
  "same_coding (Tag c) t \<longleftrightarrow> t = C_u8"
| "same_coding Byte t \<longleftrightarrow> t = C_u8 \<or> t = C_char"
| "same_coding (Big n) t \<longleftrightarrow> is_big_endian t \<and> ctype_size t = n"
| "same_coding (Raw n) t \<longleftrightarrow> t = C_array n"

definition conforms :: "wire \<Rightarrow> layout \<Rightarrow> bool" where
  "conforms w l \<longleftrightarrow> list_all2 (\<lambda>(n, f) (k, t). n = k \<and> same_coding f t) w l \<and> distinct (map fst w)"

lemma le_bytes_map: "le_bytes w v = map (\<lambda>i. of_nat (v div 256 ^ i)) [0..<w]"
proof (induction w arbitrary: v)
  case (Suc w)
  have "map (\<lambda>i. of_nat (v div 256 div 256 ^ i)) [0..<w] = map (\<lambda>i. of_nat (v div 256 ^ i) :: u8) (map Suc [0..<w])"
    by (simp add: div_mult2_eq)
  with Suc show ?case by (simp add: upt_conv_Cons map_Suc_upt del: upt_Suc)
qed simp

lemma same_bytes: "same_coding f t \<Longrightarrow> field_fits f v \<Longrightarrow> member_fits t v \<and> member_bytes t v = field_bytes f v"
  by (cases f; cases v; cases t) (auto simp: is_big_endian_def le_bytes_map rev_map)

lemma width_bytes: "field_fits f v \<Longrightarrow> length (field_bytes f v) = field_width f"
  by (cases f; cases v) auto

lemma wire_length: "wire_msg wires (t, vs) \<Longrightarrow> length (wire_bytes wires (t, vs)) = wire_size (wires t)"
proof -
  have "list_all2 (\<lambda>(n, f) v. field_fits f v) w vs \<Longrightarrow>
      length (concat (map2 (\<lambda>(n, f) v. field_bytes f v) w vs)) = wire_size w" for w :: wire
    by (induction w vs rule: list_all2_induct) (auto simp: wire_size_def width_bytes)
  then show "wire_msg wires (t, vs) \<Longrightarrow> ?thesis" by simp
qed

lemma wire_struct:
  assumes "list_all2 (\<lambda>(n, f) (k, t). n = k \<and> same_coding f t) w l" "list_all2 (\<lambda>(n, f) v. field_fits f v) w vs"
  shows "struct_fits l vs \<and> struct_bytes l vs = concat (map2 (\<lambda>(n, f) v. field_bytes f v) w vs) \<and> map fst l = map fst w"
  using assms
proof (induction w l arbitrary: vs rule: list_all2_induct)
  case (Cons nf w kt l)
  then obtain v vs' where vs: "vs = v # vs'" "field_fits (snd nf) v" "list_all2 (\<lambda>(n, f) v. field_fits f v) w vs'"
    by (auto simp: list_all2_Cons1 split: prod.splits)
  with Cons.IH [OF vs(3)] Cons.hyps same_bytes [OF _ vs(2)] show ?case by (cases kt) (auto simp: split_def)
qed simp

lemma conforms_sees:
  assumes "conforms (wires t) (struct t)" "wire_msg wires (t, vs)" "take (length (wire_bytes wires (t, vs))) bs = wire_bytes wires (t, vs)"
  shows "sees wires struct bs (t, vs)"
proof -
  have w: "struct_fits (struct t) vs" "struct_bytes (struct t) vs = wire_bytes wires (t, vs)" "map fst (struct t) = map fst (wires t)"
    using wire_struct [of "wires t" "struct t" vs] assms(1,2) by (auto simp: conforms_def)
  have "bs = struct_bytes (struct t) vs @ drop (length (wire_bytes wires (t, vs))) bs"
    unfolding w(2) using assms(3) by (metis append_take_drop_id)
  moreover have "distinct (map fst (struct t))" using assms(1) w(3) by (simp add: conforms_def)
  ultimately have "read_members (struct t) bs = map Some vs" using struct_roundtrip [OF w(1)] by metis
  then have "map (\<lambda>n. read_member (struct t) n bs) (map fst (struct t)) = map Some vs"
    by (simp add: read_members_def split_def comp_def)
  then show ?thesis by (simp add: w(3) split_def comp_def)
qed

declare wire_bytes.simps [simp del] wire_msg.simps [simp del] sees.simps [simp del]

subsection \<open>Messages that the decoders frame\<close>

text \<open>The decoder looks up the size that the message has on the wire, at its type: the first byte, or the ninth.\<close>

fun tagged_size :: "(u8 \<Rightarrow> ulong) \<Rightarrow> wire \<Rightarrow> bool" where
  "tagged_size message_size ((n, Tag c) # w) \<longleftrightarrow> unat (message_size (of_char c)) = wire_size ((n, Tag c) # w)"
| "tagged_size message_size w \<longleftrightarrow> False"

fun stamped_size :: "(u8 \<Rightarrow> ulong) \<Rightarrow> wire \<Rightarrow> bool" where
  "stamped_size message_size ((k, Raw m) # (n, Tag c) # w) \<longleftrightarrow>
     m = 8 \<and> unat (message_size (of_char c)) = wire_size ((k, Raw m) # (n, Tag c) # w)"
| "stamped_size message_size w \<longleftrightarrow> False"

lemma of_char_byte: "of_nat (of_char c) = (of_char c :: u8)"
  by (simp add: of_char_def)

lemma tagged_sized:
  assumes "tagged_size message_size (wires t)" "wire_msg wires (t, vs)"
  shows "sized message_size (wire_bytes wires (t, vs))"
proof -
  from assms(1) obtain n c w where w: "wires t = (n, Tag c) # w" "unat (message_size (of_char c)) = wire_size (wires t)"
    by (cases "(message_size, wires t)" rule: tagged_size.cases) auto
  from assms(2) have "wire_bytes wires (t, vs) \<noteq> []" "hd (wire_bytes wires (t, vs)) = of_char c"
    by (auto simp: wire_msg.simps wire_bytes.simps w(1) list_all2_Cons1 of_char_byte)
  with w(2) wire_length [OF assms(2)] show ?thesis by (simp add: sized_def)
qed

lemma stamped_framed:
  assumes "stamped_size pitch_message_size (wires t)" "wire_msg wires (t, vs)"
  shows "pitch_framed (wire_bytes wires (t, vs))"
proof -
  from assms(1) obtain k n c w where w: "wires t = (k, Raw 8) # (n, Tag c) # w"
    "unat (pitch_message_size (of_char c)) = wire_size (wires t)"
    by (cases "(pitch_message_size, wires t)" rule: stamped_size.cases) auto
  from assms(2) obtain v vs' where v: "vs = v # Num (of_char c) # vs'" "field_fits (Raw 8) v"
    by (auto simp: wire_msg.simps w(1) list_all2_Cons1)
  then obtain bs where bs: "v = Arr bs" "length bs = 8" by (cases v) auto
  have "wire_bytes wires (t, vs) = bs @ of_char c # concat (map2 (\<lambda>(n, f) v. field_bytes f v) w vs')"
    by (simp add: wire_bytes.simps w(1) v(1) bs(1) of_char_byte)
  then have "wire_bytes wires (t, vs) ! 8 = of_char c" "9 \<le> length (wire_bytes wires (t, vs))"
    by (simp_all add: nth_append bs(2))
  with w(2) wire_length [OF assms(2)] show ?thesis by (simp add: pitch_framed_def)
qed

subsection \<open>The contract\<close>

text \<open>\<open>view d x\<close>: where the program reads the message of the result \<open>x\<close>.\<close>

locale wire_feed = feed decode got hands framed
  for decode :: "buffer \<Rightarrow> ('r \<times> buffer) option" and got hands framed +
  fixes wires :: "'t \<Rightarrow> wire" and struct :: "'t \<Rightarrow> layout" and view :: "mem \<Rightarrow> 'r \<Rightarrow> u8 list"
  assumes frames: "wire_msg wires (t, vs) \<Longrightarrow> framed (wire_bytes wires (t, vs))"
    and images: "hands d x m \<Longrightarrow> take (length m) (view d x) = m"
    and structs: "conforms (wires t) (struct t)"
begin

lemma takes_wire:
  assumes "holds b (concat (map (wire_bytes wires) ms) @ p)" "\<forall>m\<in>set ms. wire_msg wires m"
    and "p = [] \<or> (\<exists>m q. q \<noteq> [] \<and> wire_msg wires m \<and> wire_bytes wires m = p @ q)"
  shows "\<exists>xs b'. drain decode got (Suc (length ms)) b = Some (xs, b')
    \<and> list_all2 (\<lambda>x m. sees wires struct (view (data b) x) m) xs ms \<and> holds b' p"
proof -
  have fr: "framed (wire_bytes wires m)" if "wire_msg wires m" for m using frames that by (cases m) blast
  have "\<forall>m\<in>set (map (wire_bytes wires) ms). framed m" using assms(2) fr by auto
  moreover have "p = [] \<or> (\<exists>q. q \<noteq> [] \<and> framed (p @ q))" using assms(3) fr by metis
  ultimately obtain xs b' where d: "drain decode got (Suc (length ms)) b = Some (xs, b')"
    "list_all2 (hands (data b)) xs (map (wire_bytes wires) ms)" "holds b' p"
    using drains [OF assms(1)] by (auto simp del: drain.simps)
  have see: "sees wires struct (view (data b) x) m" if "hands (data b) x (wire_bytes wires m)" "wire_msg wires m" for x m
    using conforms_sees [where wires = wires and struct = struct] structs images that by (cases m) blast
  have len: "length xs = length ms" using list_all2_lengthD [OF d(2)] by simp
  have "list_all2 (\<lambda>x m. sees wires struct (view (data b) x) m) xs ms"
  proof (rule list_all2_all_nthI [OF len])
    fix i assume i: "i < length xs"
    with list_all2_nthD [OF d(2) i] len have "hands (data b) (xs ! i) (wire_bytes wires (ms ! i))" by simp
    moreover have "wire_msg wires (ms ! i)" using assms(2) i len by simp
    ultimately show "sees wires struct (view (data b) (xs ! i)) (ms ! i)" by (rule see)
  qed
  with d show ?thesis by blast
qed

end

end
