(* ===== verification/Feed_Tables.thy ===== *)
theory Feed_Tables
  imports Feed_Wire
begin

text \<open>
  The messages of NASDAQ TotalView-ITCH 5.0, 4.1 and 4.0, of OMX Nordic ITCH, of BATS PITCH and of the NYSE daily TAQ files
  as tables of fields on the wire, in the order they are sent, and the interpretation of the locale
  \<open>wire_feed\<close> for each decoder: the size that its \<open>switch\<close> looks up is the sum of the widths in the
  table, and the structure that a program casts the message to reads each field at its place and in its byte order.
\<close>

definition pointed :: "mem \<Rightarrow> ptr option \<Rightarrow> u8 list" where
  "pointed d x = (case x of Some p \<Rightarrow> drop (nat p) d | None \<Rightarrow> [])"

lemma points_pointed: "points_to d x m \<Longrightarrow> take (length m) (pointed d x) = m"
  by (auto simp: points_to_def pointed_def)

subsection \<open>NASDAQ TotalView-ITCH 5.0\<close>

text \<open>The fields on the wire, and the structure that a program reads a message of the type with.\<close>

fun itch50_wire :: "itch50_msg_type \<Rightarrow> wire" where
  "itch50_wire ITCH50_MSG_SYSTEM_EVENT =
     [(''MessageType'', Tag (CHR ''S'')), (''StockLocate'', Big 2), (''TrackingNumber'', Big 2),
     (''Timestamp'', Raw 6), (''EventCode'', Byte)]"
| "itch50_wire ITCH50_MSG_STOCK_DIRECTORY =
     [(''MessageType'', Tag (CHR ''R'')), (''StockLocate'', Big 2), (''TrackingNumber'', Big 2),
     (''Timestamp'', Raw 6), (''Stock'', Raw 8), (''MarketCategory'', Byte),
     (''FinancialStatusIndicator'', Byte), (''RoundLotSize'', Big 4), (''RoundLotsOnly'', Byte),
     (''IssueClassification'', Byte), (''IssueSubType'', Raw 2), (''Authenticity'', Byte),
     (''ShortSaleThresholdIndicator'', Byte), (''IPOFlag'', Byte),
     (''LULDReferencePriceTier'', Byte), (''ETPFlag'', Byte), (''ETPLeverageFactor'', Big 4),
     (''InverseIndicator'', Byte)]"
| "itch50_wire ITCH50_MSG_STOCK_TRADING_ACTION =
     [(''MessageType'', Tag (CHR ''H'')), (''StockLocate'', Big 2), (''TrackingNumber'', Big 2),
     (''Timestamp'', Raw 6), (''Stock'', Raw 8), (''TradingState'', Byte), (''Reserved'', Byte),
     (''Reason'', Raw 4)]"
| "itch50_wire ITCH50_MSG_REG_SHO_RESTRICTION =
     [(''MessageType'', Tag (CHR ''Y'')), (''StockLocate'', Big 2), (''TrackingNumber'', Big 2),
     (''Timestamp'', Raw 6), (''Stock'', Raw 8), (''RegSHOAction'', Byte)]"
| "itch50_wire ITCH50_MSG_MARKET_PARTICIPANT_POS =
     [(''MessageType'', Tag (CHR ''L'')), (''StockLocate'', Big 2), (''TrackingNumber'', Big 2),
     (''Timestamp'', Raw 6), (''MPID'', Raw 4), (''Stock'', Raw 8), (''PrimaryMarketMaker'', Byte),
     (''MarketMakerMode'', Byte), (''MarketParticipantState'', Byte)]"
| "itch50_wire ITCH50_MSG_MWCB_DECLINE_LEVEL =
     [(''MessageType'', Tag (CHR ''V'')), (''StockLocate'', Big 2), (''TrackingNumber'', Big 2),
     (''Timestamp'', Raw 6), (''Level1'', Big 8), (''Level2'', Big 8), (''Level3'', Big 8)]"
| "itch50_wire ITCH50_MSG_MWCB_STATUS =
     [(''MessageType'', Tag (CHR ''W'')), (''StockLocate'', Big 2), (''TrackingNumber'', Big 2),
     (''Timestamp'', Raw 6), (''BreachedLevel'', Byte)]"
| "itch50_wire ITCH50_MSG_IPO_QUOTING_PERIOD_UPDATE =
     [(''MessageType'', Tag (CHR ''K'')), (''StockLocate'', Big 2), (''TrackingNumber'', Big 2),
     (''Timestamp'', Raw 6), (''Stock'', Raw 8), (''IPOQuotationReleaseTime'', Big 4),
     (''IPOQuotationReleaseQualifier'', Byte), (''IPOPrice'', Big 4)]"
| "itch50_wire ITCH50_MSG_ADD_ORDER =
     [(''MessageType'', Tag (CHR ''A'')), (''StockLocate'', Big 2), (''TrackingNumber'', Big 2),
     (''Timestamp'', Raw 6), (''OrderReferenceNumber'', Big 8), (''BuySellIndicator'', Byte),
     (''Shares'', Big 4), (''Stock'', Raw 8), (''Price'', Big 4)]"
| "itch50_wire ITCH50_MSG_ADD_ORDER_MPID =
     [(''MessageType'', Tag (CHR ''F'')), (''StockLocate'', Big 2), (''TrackingNumber'', Big 2),
     (''Timestamp'', Raw 6), (''OrderReferenceNumber'', Big 8), (''BuySellIndicator'', Byte),
     (''Shares'', Big 4), (''Stock'', Raw 8), (''Price'', Big 4), (''Attribution'', Raw 4)]"
| "itch50_wire ITCH50_MSG_ORDER_EXECUTED =
     [(''MessageType'', Tag (CHR ''E'')), (''StockLocate'', Big 2), (''TrackingNumber'', Big 2),
     (''Timestamp'', Raw 6), (''OrderReferenceNumber'', Big 8), (''ExecutedShares'', Big 4),
     (''MatchNumber'', Big 8)]"
| "itch50_wire ITCH50_MSG_ORDER_EXECUTED_WITH_PRICE =
     [(''MessageType'', Tag (CHR ''C'')), (''StockLocate'', Big 2), (''TrackingNumber'', Big 2),
     (''Timestamp'', Raw 6), (''OrderReferenceNumber'', Big 8), (''ExecutedShares'', Big 4),
     (''MatchNumber'', Big 8), (''Printable'', Byte), (''ExecutionPrice'', Big 4)]"
| "itch50_wire ITCH50_MSG_ORDER_CANCEL =
     [(''MessageType'', Tag (CHR ''X'')), (''StockLocate'', Big 2), (''TrackingNumber'', Big 2),
     (''Timestamp'', Raw 6), (''OrderReferenceNumber'', Big 8), (''CanceledShares'', Big 4)]"
| "itch50_wire ITCH50_MSG_ORDER_DELETE =
     [(''MessageType'', Tag (CHR ''D'')), (''StockLocate'', Big 2), (''TrackingNumber'', Big 2),
     (''Timestamp'', Raw 6), (''OrderReferenceNumber'', Big 8)]"
| "itch50_wire ITCH50_MSG_ORDER_REPLACE =
     [(''MessageType'', Tag (CHR ''U'')), (''StockLocate'', Big 2), (''TrackingNumber'', Big 2),
     (''Timestamp'', Raw 6), (''OriginalOrderReferenceNumber'', Big 8),
     (''NewOrderReferenceNumber'', Big 8), (''Shares'', Big 4), (''Price'', Big 4)]"
| "itch50_wire ITCH50_MSG_TRADE =
     [(''MessageType'', Tag (CHR ''P'')), (''StockLocate'', Big 2), (''TrackingNumber'', Big 2),
     (''Timestamp'', Raw 6), (''OrderReferenceNumber'', Big 8), (''BuySellIndicator'', Byte),
     (''Shares'', Big 4), (''Stock'', Raw 8), (''Price'', Big 4), (''MatchNumber'', Big 8)]"
| "itch50_wire ITCH50_MSG_CROSS_TRADE =
     [(''MessageType'', Tag (CHR ''Q'')), (''StockLocate'', Big 2), (''TrackingNumber'', Big 2),
     (''Timestamp'', Raw 6), (''Shares'', Big 8), (''Stock'', Raw 8), (''CrossPrice'', Big 4),
     (''MatchNumber'', Big 8), (''CrossType'', Byte)]"
| "itch50_wire ITCH50_MSG_BROKEN_TRADE =
     [(''MessageType'', Tag (CHR ''B'')), (''StockLocate'', Big 2), (''TrackingNumber'', Big 2),
     (''Timestamp'', Raw 6), (''MatchNumber'', Big 8)]"
| "itch50_wire ITCH50_MSG_NOII =
     [(''MessageType'', Tag (CHR ''I'')), (''StockLocate'', Big 2), (''TrackingNumber'', Big 2),
     (''Timestamp'', Raw 6), (''PairedShares'', Big 8), (''ImbalanceShares'', Big 8),
     (''ImbalanceDirection'', Byte), (''Stock'', Raw 8), (''FarPrice'', Big 4),
     (''NearPrice'', Big 4), (''CurrentReferencePrice'', Big 4), (''CrossType'', Byte),
     (''PriceVariationIndicator'', Byte)]"
| "itch50_wire ITCH50_MSG_RPII =
     [(''MessageType'', Tag (CHR ''N'')), (''StockLocate'', Big 2), (''TrackingNumber'', Big 2),
     (''Timestamp'', Raw 6), (''Stock'', Raw 8), (''InterestFlag'', Byte)]"

fun itch50_struct :: "itch50_msg_type \<Rightarrow> layout" where
  "itch50_struct ITCH50_MSG_SYSTEM_EVENT = itch50_msg_system_event"
| "itch50_struct ITCH50_MSG_STOCK_DIRECTORY = itch50_msg_stock_directory"
| "itch50_struct ITCH50_MSG_STOCK_TRADING_ACTION = itch50_msg_stock_trading_action"
| "itch50_struct ITCH50_MSG_REG_SHO_RESTRICTION = itch50_msg_reg_sho_restriction"
| "itch50_struct ITCH50_MSG_MARKET_PARTICIPANT_POS = itch50_msg_market_participant_pos"
| "itch50_struct ITCH50_MSG_MWCB_DECLINE_LEVEL = itch50_msg_mwcb_decline_level"
| "itch50_struct ITCH50_MSG_MWCB_STATUS = itch50_msg_mwcb_status"
| "itch50_struct ITCH50_MSG_IPO_QUOTING_PERIOD_UPDATE = itch50_msg_ipo_quoting_period_update"
| "itch50_struct ITCH50_MSG_ADD_ORDER = itch50_msg_add_order"
| "itch50_struct ITCH50_MSG_ADD_ORDER_MPID = itch50_msg_add_order_mpid"
| "itch50_struct ITCH50_MSG_ORDER_EXECUTED = itch50_msg_order_executed"
| "itch50_struct ITCH50_MSG_ORDER_EXECUTED_WITH_PRICE = itch50_msg_order_executed_with_price"
| "itch50_struct ITCH50_MSG_ORDER_CANCEL = itch50_msg_order_cancel"
| "itch50_struct ITCH50_MSG_ORDER_DELETE = itch50_msg_order_delete"
| "itch50_struct ITCH50_MSG_ORDER_REPLACE = itch50_msg_order_replace"
| "itch50_struct ITCH50_MSG_TRADE = itch50_msg_trade"
| "itch50_struct ITCH50_MSG_CROSS_TRADE = itch50_msg_cross_trade"
| "itch50_struct ITCH50_MSG_BROKEN_TRADE = itch50_msg_broken_trade"
| "itch50_struct ITCH50_MSG_NOII = itch50_msg_noii"
| "itch50_struct ITCH50_MSG_RPII = itch50_msg_rpii"

lemma itch50_sizes: "tagged_size itch50_message_size (itch50_wire t)"
  by (cases t) (simp_all add: itch50_message_size_def itch50_cases_def itch50_structs layout_size_def wire_size_def)

lemma itch50_conforms: "conforms (itch50_wire t) (itch50_struct t)"
  by (cases t) (simp_all add: conforms_def itch50_structs is_big_endian_def)

interpretation itch50_wire: wire_feed itch50_message_decode "\<lambda>x. x \<noteq> None" points_to "sized itch50_message_size"
  itch50_wire itch50_struct pointed
  by unfold_locales (auto intro: tagged_sized itch50_sizes itch50_conforms points_pointed)

subsection \<open>NASDAQ TotalView-ITCH 4.1\<close>

text \<open>The fields on the wire, and the structure that a program reads a message of the type with.\<close>

fun itch41_wire :: "itch41_msg_type \<Rightarrow> wire" where
  "itch41_wire ITCH41_MSG_TIMESTAMP_SECONDS =
     [(''MessageType'', Tag (CHR ''T'')), (''Second'', Big 4)]"
| "itch41_wire ITCH41_MSG_SYSTEM_EVENT =
     [(''MessageType'', Tag (CHR ''S'')), (''Timestamp'', Big 4), (''EventCode'', Byte)]"
| "itch41_wire ITCH41_MSG_STOCK_DIRECTORY =
     [(''MessageType'', Tag (CHR ''R'')), (''TimestampNanoseconds'', Big 4), (''Stock'', Raw 8),
     (''MarketCategory'', Byte), (''FinancialStatusIndicator'', Byte), (''RoundLotSize'', Big 4),
     (''RoundLotsOnly'', Byte)]"
| "itch41_wire ITCH41_MSG_STOCK_TRADING_ACTION =
     [(''MessageType'', Tag (CHR ''H'')), (''TimestampNanoseconds'', Big 4), (''Stock'', Raw 8),
     (''TradingState'', Byte), (''Reserved'', Byte), (''Reason'', Raw 4)]"
| "itch41_wire ITCH41_MSG_REG_SHO_RESTRICTION =
     [(''MessageType'', Tag (CHR ''Y'')), (''TimestampNanoseconds'', Big 4), (''Stock'', Raw 8),
     (''RegSHOAction'', Byte)]"
| "itch41_wire ITCH41_MSG_MARKET_PARTICIPANT_POS =
     [(''MessageType'', Tag (CHR ''L'')), (''TimestampNanoseconds'', Big 4), (''MPID'', Raw 4),
     (''Stock'', Raw 8), (''PrimaryMarketMaker'', Byte), (''MarketMakerMode'', Byte),
     (''MarketParticipantState'', Byte)]"
| "itch41_wire ITCH41_MSG_ADD_ORDER =
     [(''MessageType'', Tag (CHR ''A'')), (''TimestampNanoseconds'', Big 4),
     (''OrderReferenceNumber'', Big 8), (''BuySellIndicator'', Byte), (''Shares'', Big 4),
     (''Stock'', Raw 8), (''Price'', Big 4)]"
| "itch41_wire ITCH41_MSG_ADD_ORDER_MPID =
     [(''MessageType'', Tag (CHR ''F'')), (''TimestampNanoseconds'', Big 4),
     (''OrderReferenceNumber'', Big 8), (''BuySellIndicator'', Byte), (''Shares'', Big 4),
     (''Stock'', Raw 8), (''Price'', Big 4), (''Attribution'', Raw 4)]"
| "itch41_wire ITCH41_MSG_ORDER_EXECUTED =
     [(''MessageType'', Tag (CHR ''E'')), (''TimestampNanoseconds'', Big 4),
     (''OrderReferenceNumber'', Big 8), (''ExecutedShares'', Big 4), (''MatchNumber'', Big 8)]"
| "itch41_wire ITCH41_MSG_ORDER_EXECUTED_WITH_PRICE =
     [(''MessageType'', Tag (CHR ''C'')), (''TimestampNanoseconds'', Big 4),
     (''OrderReferenceNumber'', Big 8), (''ExecutedShares'', Big 4), (''MatchNumber'', Big 8),
     (''Printable'', Byte), (''ExecutionPrice'', Big 4)]"
| "itch41_wire ITCH41_MSG_ORDER_CANCEL =
     [(''MessageType'', Tag (CHR ''X'')), (''TimestampNanoseconds'', Big 4),
     (''OrderReferenceNumber'', Big 8), (''CanceledShares'', Big 4)]"
| "itch41_wire ITCH41_MSG_ORDER_DELETE =
     [(''MessageType'', Tag (CHR ''D'')), (''TimestampNanoseconds'', Big 4),
     (''OrderReferenceNumber'', Big 8)]"
| "itch41_wire ITCH41_MSG_ORDER_REPLACE =
     [(''MessageType'', Tag (CHR ''U'')), (''TimestampNanoseconds'', Big 4),
     (''OriginalOrderReferenceNumber'', Big 8), (''NewOrderReferenceNumber'', Big 8),
     (''Shares'', Big 4), (''Price'', Big 4)]"
| "itch41_wire ITCH41_MSG_TRADE =
     [(''MessageType'', Tag (CHR ''P'')), (''TimestampNanoseconds'', Big 4),
     (''OrderReferenceNumber'', Big 8), (''BuySellIndicator'', Byte), (''Shares'', Big 4),
     (''Stock'', Raw 8), (''Price'', Big 4), (''MatchNumber'', Big 8)]"
| "itch41_wire ITCH41_MSG_CROSS_TRADE =
     [(''MessageType'', Tag (CHR ''Q'')), (''TimestampNanoseconds'', Big 4), (''Shares'', Big 8),
     (''Stock'', Raw 8), (''CrossPrice'', Big 4), (''MatchNumber'', Big 8), (''CrossType'', Byte)]"
| "itch41_wire ITCH41_MSG_BROKEN_TRADE =
     [(''MessageType'', Tag (CHR ''B'')), (''TimestampNanoseconds'', Big 4), (''MatchNumber'', Big 8)]"
| "itch41_wire ITCH41_MSG_NOII =
     [(''MessageType'', Tag (CHR ''I'')), (''TimestampNanoseconds'', Big 4),
     (''PairedShares'', Big 8), (''ImbalanceShares'', Big 8), (''ImbalanceDirection'', Byte),
     (''Stock'', Raw 8), (''FarPrice'', Big 4), (''NearPrice'', Big 4),
     (''CurrentReferencePrice'', Big 4), (''CrossType'', Byte), (''PriceVariationIndicator'', Byte)]"
| "itch41_wire ITCH41_MSG_RPII =
     [(''MessageType'', Tag (CHR ''N'')), (''TimestampNanoseconds'', Big 4), (''Stock'', Raw 8),
     (''InterestFlag'', Byte)]"

fun itch41_struct :: "itch41_msg_type \<Rightarrow> layout" where
  "itch41_struct ITCH41_MSG_TIMESTAMP_SECONDS = itch41_msg_timestamp_seconds"
| "itch41_struct ITCH41_MSG_SYSTEM_EVENT = itch41_msg_system_event"
| "itch41_struct ITCH41_MSG_STOCK_DIRECTORY = itch41_msg_stock_directory"
| "itch41_struct ITCH41_MSG_STOCK_TRADING_ACTION = itch41_msg_stock_trading_action"
| "itch41_struct ITCH41_MSG_REG_SHO_RESTRICTION = itch41_msg_reg_sho_restriction"
| "itch41_struct ITCH41_MSG_MARKET_PARTICIPANT_POS = itch41_msg_market_participant_pos"
| "itch41_struct ITCH41_MSG_ADD_ORDER = itch41_msg_add_order"
| "itch41_struct ITCH41_MSG_ADD_ORDER_MPID = itch41_msg_add_order_mpid"
| "itch41_struct ITCH41_MSG_ORDER_EXECUTED = itch41_msg_order_executed"
| "itch41_struct ITCH41_MSG_ORDER_EXECUTED_WITH_PRICE = itch41_msg_order_executed_with_price"
| "itch41_struct ITCH41_MSG_ORDER_CANCEL = itch41_msg_order_cancel"
| "itch41_struct ITCH41_MSG_ORDER_DELETE = itch41_msg_order_delete"
| "itch41_struct ITCH41_MSG_ORDER_REPLACE = itch41_msg_order_replace"
| "itch41_struct ITCH41_MSG_TRADE = itch41_msg_trade"
| "itch41_struct ITCH41_MSG_CROSS_TRADE = itch41_msg_cross_trade"
| "itch41_struct ITCH41_MSG_BROKEN_TRADE = itch41_msg_broken_trade"
| "itch41_struct ITCH41_MSG_NOII = itch41_msg_noii"
| "itch41_struct ITCH41_MSG_RPII = itch41_msg_rpii"

lemma itch41_sizes: "tagged_size itch41_message_size (itch41_wire t)"
  by (cases t) (simp_all add: itch41_message_size_def itch41_cases_def itch41_structs layout_size_def wire_size_def)

lemma itch41_conforms: "conforms (itch41_wire t) (itch41_struct t)"
  by (cases t) (simp_all add: conforms_def itch41_structs is_big_endian_def)

interpretation itch41_wire: wire_feed itch41_message_decode "\<lambda>x. x \<noteq> None" points_to "sized itch41_message_size"
  itch41_wire itch41_struct pointed
  by unfold_locales (auto intro: tagged_sized itch41_sizes itch41_conforms points_pointed)

subsection \<open>NASDAQ TotalView-ITCH 4.0\<close>

text \<open>The fields on the wire, and the structure that a program reads a message of the type with.\<close>

fun itch40_wire :: "itch40_msg_type \<Rightarrow> wire" where
  "itch40_wire ITCH40_MSG_TIMESTAMP_SECONDS =
     [(''MessageType'', Tag (CHR ''T'')), (''Second'', Big 4)]"
| "itch40_wire ITCH40_MSG_SYSTEM_EVENT =
     [(''MessageType'', Tag (CHR ''S'')), (''Timestamp'', Big 4), (''EventCode'', Byte)]"
| "itch40_wire ITCH40_MSG_STOCK_DIRECTORY =
     [(''MessageType'', Tag (CHR ''R'')), (''TimestampNanoseconds'', Big 4), (''Stock'', Raw 6),
     (''MarketCategory'', Byte), (''FinancialStatusIndicator'', Byte), (''RoundLotSize'', Big 4),
     (''RoundLotsOnly'', Byte)]"
| "itch40_wire ITCH40_MSG_STOCK_TRADING_ACTION =
     [(''MessageType'', Tag (CHR ''H'')), (''TimestampNanoseconds'', Big 4), (''Stock'', Raw 6),
     (''TradingState'', Byte), (''Reserved'', Byte), (''Reason'', Raw 4)]"
| "itch40_wire ITCH40_MSG_MARKET_PARTICIPANT_POS =
     [(''MessageType'', Tag (CHR ''L'')), (''TimestampNanoseconds'', Big 4), (''MPID'', Raw 4),
     (''Stock'', Raw 6), (''PrimaryMarketMaker'', Byte), (''MarketMakerMode'', Byte),
     (''MarketParticipantState'', Byte)]"
| "itch40_wire ITCH40_MSG_ADD_ORDER =
     [(''MessageType'', Tag (CHR ''A'')), (''TimestampNanoseconds'', Big 4),
     (''OrderReferenceNumber'', Big 8), (''BuySellIndicator'', Byte), (''Shares'', Big 4),
     (''Stock'', Raw 6), (''Price'', Big 4)]"
| "itch40_wire ITCH40_MSG_ADD_ORDER_MPID =
     [(''MessageType'', Tag (CHR ''F'')), (''TimestampNanoseconds'', Big 4),
     (''OrderReferenceNumber'', Big 8), (''BuySellIndicator'', Byte), (''Shares'', Big 4),
     (''Stock'', Raw 6), (''Price'', Big 4), (''Attribution'', Raw 4)]"
| "itch40_wire ITCH40_MSG_ORDER_EXECUTED =
     [(''MessageType'', Tag (CHR ''E'')), (''TimestampNanoseconds'', Big 4),
     (''OrderReferenceNumber'', Big 8), (''ExecutedShares'', Big 4), (''MatchNumber'', Big 8)]"
| "itch40_wire ITCH40_MSG_ORDER_EXECUTED_WITH_PRICE =
     [(''MessageType'', Tag (CHR ''C'')), (''TimestampNanoseconds'', Big 4),
     (''OrderReferenceNumber'', Big 8), (''ExecutedShares'', Big 4), (''MatchNumber'', Big 8),
     (''Printable'', Byte), (''ExecutionPrice'', Big 4)]"
| "itch40_wire ITCH40_MSG_ORDER_CANCEL =
     [(''MessageType'', Tag (CHR ''X'')), (''TimestampNanoseconds'', Big 4),
     (''OrderReferenceNumber'', Big 8), (''CanceledShares'', Big 4)]"
| "itch40_wire ITCH40_MSG_ORDER_DELETE =
     [(''MessageType'', Tag (CHR ''D'')), (''TimestampNanoseconds'', Big 4),
     (''OrderReferenceNumber'', Big 8)]"
| "itch40_wire ITCH40_MSG_ORDER_REPLACE =
     [(''MessageType'', Tag (CHR ''U'')), (''TimestampNanoseconds'', Big 4),
     (''OriginalOrderReferenceNumber'', Big 8), (''NewOrderReferenceNumber'', Big 8),
     (''Shares'', Big 4), (''Price'', Big 4)]"
| "itch40_wire ITCH40_MSG_TRADE =
     [(''MessageType'', Tag (CHR ''P'')), (''TimestampNanoseconds'', Big 4),
     (''OrderReferenceNumber'', Big 8), (''BuySellIndicator'', Byte), (''Shares'', Big 4),
     (''Stock'', Raw 6), (''Price'', Big 4), (''MatchNumber'', Big 8)]"
| "itch40_wire ITCH40_MSG_CROSS_TRADE =
     [(''MessageType'', Tag (CHR ''Q'')), (''TimestampNanoseconds'', Big 4), (''Shares'', Big 8),
     (''Stock'', Raw 6), (''CrossPrice'', Big 4), (''MatchNumber'', Big 8), (''CrossType'', Byte)]"
| "itch40_wire ITCH40_MSG_BROKEN_TRADE =
     [(''MessageType'', Tag (CHR ''B'')), (''TimestampNanoseconds'', Big 4), (''MatchNumber'', Big 8)]"
| "itch40_wire ITCH40_MSG_NOII =
     [(''MessageType'', Tag (CHR ''I'')), (''TimestampNanoseconds'', Big 4),
     (''PairedShares'', Big 8), (''ImbalanceShares'', Big 8), (''ImbalanceDirection'', Byte),
     (''Stock'', Raw 6), (''FarPrice'', Big 4), (''NearPrice'', Big 4),
     (''CurrentReferencePrice'', Big 4), (''CrossType'', Byte), (''PriceVariationIndicator'', Byte)]"

fun itch40_struct :: "itch40_msg_type \<Rightarrow> layout" where
  "itch40_struct ITCH40_MSG_TIMESTAMP_SECONDS = itch40_msg_timestamp_seconds"
| "itch40_struct ITCH40_MSG_SYSTEM_EVENT = itch40_msg_system_event"
| "itch40_struct ITCH40_MSG_STOCK_DIRECTORY = itch40_msg_stock_directory"
| "itch40_struct ITCH40_MSG_STOCK_TRADING_ACTION = itch40_msg_stock_trading_action"
| "itch40_struct ITCH40_MSG_MARKET_PARTICIPANT_POS = itch40_msg_market_participant_pos"
| "itch40_struct ITCH40_MSG_ADD_ORDER = itch40_msg_add_order"
| "itch40_struct ITCH40_MSG_ADD_ORDER_MPID = itch40_msg_add_order_mpid"
| "itch40_struct ITCH40_MSG_ORDER_EXECUTED = itch40_msg_order_executed"
| "itch40_struct ITCH40_MSG_ORDER_EXECUTED_WITH_PRICE = itch40_msg_order_executed_with_price"
| "itch40_struct ITCH40_MSG_ORDER_CANCEL = itch40_msg_order_cancel"
| "itch40_struct ITCH40_MSG_ORDER_DELETE = itch40_msg_order_delete"
| "itch40_struct ITCH40_MSG_ORDER_REPLACE = itch40_msg_order_replace"
| "itch40_struct ITCH40_MSG_TRADE = itch40_msg_trade"
| "itch40_struct ITCH40_MSG_CROSS_TRADE = itch40_msg_cross_trade"
| "itch40_struct ITCH40_MSG_BROKEN_TRADE = itch40_msg_broken_trade"
| "itch40_struct ITCH40_MSG_NOII = itch40_msg_noii"

lemma itch40_sizes: "tagged_size itch40_message_size (itch40_wire t) \<and> wire_size (itch40_wire t) \<le> 42"
  by (cases t) (simp_all add: itch40_message_size_def itch40_cases_def itch40_structs layout_size_def wire_size_def)

lemma itch40_conforms: "conforms (itch40_wire t) (itch40_struct t)"
  by (cases t) (simp_all add: conforms_def itch40_structs is_big_endian_def)

text \<open>The structure of the caller has room for the longest message.\<close>

lemma itch40_wire_feed:
  assumes "42 \<le> length msg"
  shows "wire_feed (with_msg itch40_message_decode msg) copied copy_of (\<lambda>m. sized itch40_message_size m \<and> length m \<le> length msg)
    itch40_wire itch40_struct (\<lambda>d x. snd x)"
proof (unfold_locales, goal_cases)
  case (1 t vs)
  then have "length (wire_bytes itch40_wire (t, vs)) \<le> 42" using wire_length [OF 1] itch40_sizes [of t] by simp
  with tagged_sized [OF conjunct1 [OF itch40_sizes] 1] assms show ?case by simp
qed (auto intro: itch40_conforms)

subsection \<open>OMX Nordic ITCH 1.86\<close>

text \<open>The fields on the wire, and the structure that a program reads a message of the type with.\<close>

fun omx_wire :: "omx_itch186_msg_type \<Rightarrow> wire" where
  "omx_wire OMX_ITCH186_MSG_SECONDS =
     [(''MessageType'', Tag (CHR ''T'')), (''Second'', Raw 5)]"
| "omx_wire OMX_ITCH186_MSG_MILLISECONDS =
     [(''MessageType'', Tag (CHR ''M'')), (''Millisecond'', Raw 3)]"
| "omx_wire OMX_ITCH186_MSG_SYSTEM_EVENT =
     [(''MessageType'', Tag (CHR ''S'')), (''EventCode'', Byte)]"
| "omx_wire OMX_ITCH186_MSG_MARKET_SEGMENT_STATE =
     [(''MessageType'', Tag (CHR ''O'')), (''MarketSegmentID'', Raw 3), (''EventCode'', Byte)]"
| "omx_wire OMX_ITCH186_MSG_ORDER_BOOK_DIRECTORY =
     [(''MessageType'', Tag (CHR ''R'')), (''OrderBook'', Raw 6), (''Symbol'', Raw 16),
     (''ISIN'', Raw 12), (''FinancialProduct'', Raw 3), (''TradingCurrency'', Raw 3),
     (''MIC'', Raw 4), (''MarketSegmentID'', Raw 3), (''NoteCodes'', Raw 8),
     (''RoundLotSize'', Raw 9)]"
| "omx_wire OMX_ITCH186_MSG_ORDER_BOOK_TRADING_ACTION =
     [(''MessageType'', Tag (CHR ''H'')), (''OrderBook'', Raw 6), (''TradingState'', Byte),
     (''Reserved'', Byte), (''Reason'', Raw 4)]"
| "omx_wire OMX_ITCH186_MSG_ADD_ORDER =
     [(''MessageType'', Tag (CHR ''A'')), (''OrderReferenceNumber'', Raw 9),
     (''BuySellIndicator'', Byte), (''Quantity'', Raw 9), (''OrderBook'', Raw 6),
     (''Price'', Raw 10)]"
| "omx_wire OMX_ITCH186_MSG_ADD_ORDER_MPID =
     [(''MessageType'', Tag (CHR ''F'')), (''OrderReferenceNumber'', Raw 9),
     (''BuySellIndicator'', Byte), (''Quantity'', Raw 9), (''OrderBook'', Raw 6),
     (''Price'', Raw 10), (''Attribution'', Raw 4)]"
| "omx_wire OMX_ITCH186_MSG_ORDER_EXECUTED =
     [(''MessageType'', Tag (CHR ''E'')), (''OrderReferenceNumber'', Raw 9),
     (''ExecutedQuantity'', Raw 9), (''MatchNumber'', Raw 9), (''OwnerParticipantID'', Raw 4),
     (''CounterpartyParticipantID'', Raw 4)]"
| "omx_wire OMX_ITCH186_MSG_ORDER_EXECUTED_WITH_PRICE =
     [(''MessageType'', Tag (CHR ''C'')), (''OrderReferenceNumber'', Raw 9),
     (''ExecutedQuantity'', Raw 9), (''MatchNumber'', Raw 9), (''Printable'', Byte),
     (''TradePrice'', Raw 10), (''OwnerParticipantID'', Raw 4),
     (''CounterpartyParticipantID'', Raw 4)]"
| "omx_wire OMX_ITCH186_MSG_ORDER_CANCEL =
     [(''MessageType'', Tag (CHR ''X'')), (''OrderReferenceNumber'', Raw 9),
     (''CanceledQuantity'', Raw 9)]"
| "omx_wire OMX_ITCH186_MSG_ORDER_DELETE =
     [(''MessageType'', Tag (CHR ''D'')), (''OrderReferenceNumber'', Raw 9)]"
| "omx_wire OMX_ITCH186_MSG_TRADE =
     [(''MessageType'', Tag (CHR ''P'')), (''OrderReferenceNumber'', Raw 9), (''TradeType'', Byte),
     (''Quantity'', Raw 9), (''OrderBook'', Raw 6), (''MatchNumber'', Raw 9),
     (''TradePrice'', Raw 10), (''BuyerParticipantID'', Raw 4), (''SellerParticipantID'', Raw 4)]"
| "omx_wire OMX_ITCH186_MSG_CROSS_TRADE =
     [(''MessageType'', Tag (CHR ''Q'')), (''Quantity'', Raw 9), (''OrderBook'', Raw 6),
     (''CrossPrice'', Raw 10), (''MatchNumber'', Raw 9), (''CrossType'', Byte),
     (''NumberOfTrades'', Raw 10)]"
| "omx_wire OMX_ITCH186_MSG_BROKEN_TRADE =
     [(''MessageType'', Tag (CHR ''B'')), (''MatchNumber'', Raw 9)]"
| "omx_wire OMX_ITCH186_MSG_NOII =
     [(''MessageType'', Tag (CHR ''I'')), (''PairedQuantity'', Raw 9),
     (''ImbalanceQuantity'', Raw 9), (''ImbalanceDirection'', Byte), (''OrderBook'', Raw 6),
     (''EquilibriumPrice'', Raw 10), (''CrossType'', Byte), (''BestBidPrice'', Raw 10),
     (''BestBidQuantity'', Raw 9), (''BestAskPrice'', Raw 10), (''BestAskQuantity'', Raw 9)]"

fun omx_struct :: "omx_itch186_msg_type \<Rightarrow> layout" where
  "omx_struct OMX_ITCH186_MSG_SECONDS = omx_itch186_msg_seconds"
| "omx_struct OMX_ITCH186_MSG_MILLISECONDS = omx_itch186_msg_milliseconds"
| "omx_struct OMX_ITCH186_MSG_SYSTEM_EVENT = omx_itch186_msg_system_event"
| "omx_struct OMX_ITCH186_MSG_MARKET_SEGMENT_STATE = omx_itch186_msg_market_segment_state"
| "omx_struct OMX_ITCH186_MSG_ORDER_BOOK_DIRECTORY = omx_itch186_msg_order_book_directory"
| "omx_struct OMX_ITCH186_MSG_ORDER_BOOK_TRADING_ACTION = omx_itch186_msg_order_book_trading_action"
| "omx_struct OMX_ITCH186_MSG_ADD_ORDER = omx_itch186_msg_add_order"
| "omx_struct OMX_ITCH186_MSG_ADD_ORDER_MPID = omx_itch186_msg_add_order_mpid"
| "omx_struct OMX_ITCH186_MSG_ORDER_EXECUTED = omx_itch186_msg_order_executed"
| "omx_struct OMX_ITCH186_MSG_ORDER_EXECUTED_WITH_PRICE = omx_itch186_msg_order_executed_with_price"
| "omx_struct OMX_ITCH186_MSG_ORDER_CANCEL = omx_itch186_msg_order_cancel"
| "omx_struct OMX_ITCH186_MSG_ORDER_DELETE = omx_itch186_msg_order_delete"
| "omx_struct OMX_ITCH186_MSG_TRADE = omx_itch186_msg_trade"
| "omx_struct OMX_ITCH186_MSG_CROSS_TRADE = omx_itch186_msg_cross_trade"
| "omx_struct OMX_ITCH186_MSG_BROKEN_TRADE = omx_itch186_msg_broken_trade"
| "omx_struct OMX_ITCH186_MSG_NOII = omx_itch186_msg_noii"

lemma omx_sizes: "tagged_size omx_itch186_message_size (omx_wire t)"
  by (cases t) (simp_all add: omx_itch186_message_size_def omx_itch186_cases_def omx_itch186_structs layout_size_def wire_size_def)

lemma omx_conforms: "conforms (omx_wire t) (omx_struct t)"
  by (cases t) (simp_all add: conforms_def omx_itch186_structs is_big_endian_def)

interpretation omx_wire: wire_feed omx_itch186_message_decode "\<lambda>x. x \<noteq> None" points_to "sized omx_itch186_message_size"
  omx_wire omx_struct pointed
  by unfold_locales (auto intro: tagged_sized omx_sizes omx_conforms points_pointed)

subsection \<open>BATS PITCH\<close>

text \<open>The fields on the wire, and the structure that a program reads a message of the type with.\<close>

fun pitch_wire :: "pitch_msg_type \<Rightarrow> wire" where
  "pitch_wire PITCH_MSG_SYMBOL_CLEAR =
     [(''Timestamp'', Raw 8), (''MessageType'', Tag (CHR ''s'')), (''StockSymbol'', Raw 8)]"
| "pitch_wire PITCH_MSG_ADD_ORDER_SHORT =
     [(''Timestamp'', Raw 8), (''MessageType'', Tag (CHR ''A'')), (''OrderID'', Raw 12),
     (''SideIndicator'', Byte), (''Shares'', Raw 6), (''StockSymbol'', Raw 6), (''Price'', Raw 10),
     (''Display'', Byte)]"
| "pitch_wire PITCH_MSG_ADD_ORDER_LONG =
     [(''Timestamp'', Raw 8), (''MessageType'', Tag (CHR ''d'')), (''OrderID'', Raw 12),
     (''SideIndicator'', Byte), (''Shares'', Raw 6), (''StockSymbol'', Raw 8), (''Price'', Raw 10),
     (''Display'', Byte), (''ParticipantID'', Raw 4)]"
| "pitch_wire PITCH_MSG_ORDER_EXECUTED =
     [(''Timestamp'', Raw 8), (''MessageType'', Tag (CHR ''E'')), (''OrderID'', Raw 12),
     (''ExecutedShares'', Raw 6), (''ExecutionID'', Raw 12)]"
| "pitch_wire PITCH_MSG_ORDER_CANCEL =
     [(''Timestamp'', Raw 8), (''MessageType'', Tag (CHR ''X'')), (''OrderID'', Raw 12),
     (''CanceledShares'', Raw 6)]"
| "pitch_wire PITCH_MSG_TRADE_SHORT =
     [(''Timestamp'', Raw 8), (''MessageType'', Tag (CHR ''P'')), (''OrderID'', Raw 12),
     (''SideIndicator'', Byte), (''Shares'', Raw 6), (''StockSymbol'', Raw 6), (''Price'', Raw 10),
     (''ExecutionID'', Raw 12)]"
| "pitch_wire PITCH_MSG_TRADE_LONG =
     [(''Timestamp'', Raw 8), (''MessageType'', Tag (CHR ''r'')), (''OrderID'', Raw 12),
     (''SideIndicator'', Byte), (''Shares'', Raw 6), (''StockSymbol'', Raw 8), (''Price'', Raw 10),
     (''ExecutionID'', Raw 12)]"
| "pitch_wire PITCH_MSG_TRADE_BREAK =
     [(''Timestamp'', Raw 8), (''MessageType'', Tag (CHR ''B'')), (''ExecutionID'', Raw 12)]"
| "pitch_wire PITCH_MSG_TRADING_STATUS =
     [(''Timestamp'', Raw 8), (''MessageType'', Tag (CHR ''H'')), (''StockSymbol'', Raw 8),
     (''HaltStatus'', Byte), (''RegSHOAction'', Byte), (''Reserved1'', Byte), (''Reserved2'', Byte)]"
| "pitch_wire PITCH_MSG_AUCTION_UPDATE =
     [(''Timestamp'', Raw 8), (''MessageType'', Tag (CHR ''I'')), (''StockSymbol'', Raw 8),
     (''AuctionType'', Byte), (''ReferencePrice'', Raw 10), (''BuyShares'', Raw 10),
     (''SellShares'', Raw 10), (''IndicativePrice'', Raw 10), (''AuctionOnlyPrice'', Raw 10)]"
| "pitch_wire PITCH_MSG_AUCTION_SUMMARY =
     [(''Timestamp'', Raw 8), (''MessageType'', Tag (CHR ''J'')), (''StockSymbol'', Raw 8),
     (''AuctionType'', Byte), (''Price'', Raw 10), (''Shares'', Raw 10)]"

fun pitch_struct :: "pitch_msg_type \<Rightarrow> layout" where
  "pitch_struct PITCH_MSG_SYMBOL_CLEAR = pitch_msg_symbol_clear"
| "pitch_struct PITCH_MSG_ADD_ORDER_SHORT = pitch_msg_add_order_short"
| "pitch_struct PITCH_MSG_ADD_ORDER_LONG = pitch_msg_add_order_long"
| "pitch_struct PITCH_MSG_ORDER_EXECUTED = pitch_msg_order_executed"
| "pitch_struct PITCH_MSG_ORDER_CANCEL = pitch_msg_order_cancel"
| "pitch_struct PITCH_MSG_TRADE_SHORT = pitch_msg_trade_short"
| "pitch_struct PITCH_MSG_TRADE_LONG = pitch_msg_trade_long"
| "pitch_struct PITCH_MSG_TRADE_BREAK = pitch_msg_trade_break"
| "pitch_struct PITCH_MSG_TRADING_STATUS = pitch_msg_trading_status"
| "pitch_struct PITCH_MSG_AUCTION_UPDATE = pitch_msg_auction_update"
| "pitch_struct PITCH_MSG_AUCTION_SUMMARY = pitch_msg_auction_summary"

lemma pitch_sizes: "stamped_size pitch_message_size (pitch_wire t)"
  by (cases t) (simp_all add: pitch_message_size_def pitch_cases_def pitch_structs layout_size_def wire_size_def)

lemma pitch_conforms: "conforms (pitch_wire t) (pitch_struct t)"
  by (cases t) (simp_all add: conforms_def pitch_structs is_big_endian_def)

interpretation pitch_wire: wire_feed "\<lambda>b. pitch_message_decode b 0" "\<lambda>x. x \<noteq> None" points_to pitch_framed
  pitch_wire pitch_struct pointed
  by unfold_locales (auto intro: stamped_framed pitch_sizes pitch_conforms points_pointed)

subsection \<open>NYSE daily TAQ\<close>

text \<open>The three files have one kind of record each.\<close>

definition taq_quote_wire :: wire where
  "taq_quote_wire = [(''Time'', Raw 9), (''Exchange'', Byte), (''Symbol'', Raw 16), (''BidPrice'', Raw 11),
     (''BidSize'', Raw 7), (''AskPrice'', Raw 11), (''AskSize'', Raw 7),
     (''QuoteCondition'', Byte), (''MarketMaker'', Raw 4), (''BidExchange'', Byte),
     (''AskExchange'', Byte), (''SequenceNumber'', Raw 16), (''NationalBBOInd'', Byte),
     (''NASDAQBBOInd'', Byte), (''QuoteCancelCorrection'', Byte), (''SourceOfQuote'', Byte),
     (''RetailInterestIndicator'', Byte), (''ShortSaleRestrictionIndicator'', Byte),
     (''LULDBBOIndicatorCQS'', Byte), (''LULDBBOIndicatorUTP'', Byte),
     (''FINRAADFMPIDIndicator'', Byte), (''LineChange'', Raw 2)]"

definition taq_trade_wire :: wire where
  "taq_trade_wire = [(''Time'', Raw 9), (''Exchange'', Byte), (''Symbol'', Raw 16), (''SaleCondition'', Raw 4),
     (''TradeVolume'', Raw 9), (''TradePrice'', Raw 11), (''TradeStopStockIndicator'', Byte),
     (''TradeCorrectionIndicator'', Raw 2), (''TradeSequenceNumber'', Raw 16),
     (''SourceOfTrade'', Byte), (''TradeReportingFacility'', Byte), (''LineChange'', Raw 2)]"

definition taq_nbbo_wire :: wire where
  "taq_nbbo_wire = [(''Time'', Raw 9), (''Exchange'', Byte), (''Symbol'', Raw 16), (''BidPrice'', Raw 11),
     (''BidSize'', Raw 7), (''AskPrice'', Raw 11), (''AskSize'', Raw 7),
     (''QuoteCondition'', Byte), (''MarketMaker'', Raw 4), (''BidExchange'', Byte),
     (''AskExchange'', Byte), (''SequenceNumber'', Raw 16), (''NationalBBOInd'', Byte),
     (''NASDAQBBOInd'', Byte), (''QuoteCancelCorrection'', Byte), (''SourceOfQuote'', Byte),
     (''NBBOQuoteCondition'', Byte), (''BestBidExchange'', Byte), (''BestBidPrice'', Raw 11),
     (''BestBidSize'', Raw 7), (''BestBidMarketMaker'', Raw 4), (''BestBidMMLocation'', Raw 2),
     (''BestBidMMDeskLocation'', Byte), (''BestAskExchange'', Byte), (''BestAskPrice'', Raw 11),
     (''BestAskSize'', Raw 7), (''BestAskMarketMaker'', Raw 4), (''BestAskMMLocation'', Raw 2),
     (''BestAskMMDeskLocation'', Byte), (''LULDNBBOIndicatorCQS'', Byte),
     (''LULDNBBOIndicatorUTP'', Byte), (''LineChange'', Raw 2)]"

interpretation quote_wire: wire_feed nyse_taq_msg_daily_quote_decode "\<lambda>x. x \<noteq> None" points_to "\<lambda>m. length m = layout_size nyse_taq_msg_daily_quote"
  "\<lambda>u :: unit. taq_quote_wire" "\<lambda>u. nyse_taq_msg_daily_quote" pointed
proof (unfold_locales, goal_cases)
  case (1 t vs)
  from wire_length [OF 1] show ?case
    by (simp add: taq_quote_wire_def nyse_taq_msg_daily_quote_def layout_size_def wire_size_def)
qed (auto intro: points_pointed simp: conforms_def taq_quote_wire_def nyse_taq_msg_daily_quote_def)

interpretation trade_wire: wire_feed nyse_taq_msg_daily_trade_decode "\<lambda>x. x \<noteq> None" points_to "\<lambda>m. length m = layout_size nyse_taq_msg_daily_trade"
  "\<lambda>u :: unit. taq_trade_wire" "\<lambda>u. nyse_taq_msg_daily_trade" pointed
proof (unfold_locales, goal_cases)
  case (1 t vs)
  from wire_length [OF 1] show ?case
    by (simp add: taq_trade_wire_def nyse_taq_msg_daily_trade_def layout_size_def wire_size_def)
qed (auto intro: points_pointed simp: conforms_def taq_trade_wire_def nyse_taq_msg_daily_trade_def)

interpretation nbbo_wire: wire_feed nyse_taq_msg_daily_nbbo_decode "\<lambda>x. x \<noteq> None" points_to "\<lambda>m. length m = layout_size nyse_taq_msg_daily_nbbo"
  "\<lambda>u :: unit. taq_nbbo_wire" "\<lambda>u. nyse_taq_msg_daily_nbbo" pointed
proof (unfold_locales, goal_cases)
  case (1 t vs)
  from wire_length [OF 1] show ?case
    by (simp add: taq_nbbo_wire_def nyse_taq_msg_daily_nbbo_def layout_size_def wire_size_def)
qed (auto intro: points_pointed simp: conforms_def taq_nbbo_wire_def nyse_taq_msg_daily_nbbo_def)

end
