(* ===== verification/Feed_Lse.thy ===== *)
theory Feed_Lse
  imports Feed
begin

text \<open>
  London Stock Exchange ITCH (lib/proto/lse_itch_message.c, lse_itch_message.h): message types, structures and the
  decoder.  A message begins with its length.
\<close>

subsection \<open>Message types\<close>

datatype lse_itch_msg_type = LSE_ITCH_MSG_LOGIN_REQUEST | LSE_ITCH_MSG_LOGIN_RESPONSE | LSE_ITCH_MSG_LOGOUT_REQUEST
  | LSE_ITCH_MSG_REPLAY_REQUEST | LSE_ITCH_MSG_REPLAY_RESPONSE | LSE_ITCH_MSG_SNAPSHOT_REQUEST
  | LSE_ITCH_MSG_SNAPSHOT_RESPONSE | LSE_ITCH_MSG_SNAPSHOT_COMPLETE | LSE_ITCH_MSG_TIME | LSE_ITCH_MSG_SYSTEM_EVENT
  | LSE_ITCH_MSG_SYMBOL_DIRECTORY | LSE_ITCH_MSG_SYMBOL_STATUS | LSE_ITCH_MSG_ADD_ORDER
  | LSE_ITCH_MSG_ADD_ATTIRUBTED_ORDER | LSE_ITCH_MSG_ORDER_DELETED | LSE_ITCH_MSG_ORDER_MODIFIED
  | LSE_ITCH_MSG_ORDER_BOOK_CLEAR | LSE_ITCH_MSG_ORDER_EXECUTED | LSE_ITCH_MSG_ORDER_EXECUTED_WITH_PRICE_SIZE
  | LSE_ITCH_MSG_TRADE | LSE_ITCH_MSG_AUCTION_TRADE | LSE_ITCH_MSG_OFF_BOOK_TRADE | LSE_ITCH_MSG_TRADE_BREAK
  | LSE_ITCH_MSG_AUCTION_INFO | LSE_ITCH_MSG_STATISTICS

fun lse_itch_msg_code :: "lse_itch_msg_type \<Rightarrow> u8" where
  "lse_itch_msg_code LSE_ITCH_MSG_LOGIN_REQUEST = 0x01"
| "lse_itch_msg_code LSE_ITCH_MSG_LOGIN_RESPONSE = 0x02"
| "lse_itch_msg_code LSE_ITCH_MSG_LOGOUT_REQUEST = 0x05"
| "lse_itch_msg_code LSE_ITCH_MSG_REPLAY_REQUEST = 0x03"
| "lse_itch_msg_code LSE_ITCH_MSG_REPLAY_RESPONSE = 0x04"
| "lse_itch_msg_code LSE_ITCH_MSG_SNAPSHOT_REQUEST = 0x81"
| "lse_itch_msg_code LSE_ITCH_MSG_SNAPSHOT_RESPONSE = 0x82"
| "lse_itch_msg_code LSE_ITCH_MSG_SNAPSHOT_COMPLETE = 0x83"
| "lse_itch_msg_code LSE_ITCH_MSG_TIME = 0x54"
| "lse_itch_msg_code LSE_ITCH_MSG_SYSTEM_EVENT = 0x53"
| "lse_itch_msg_code LSE_ITCH_MSG_SYMBOL_DIRECTORY = 0x52"
| "lse_itch_msg_code LSE_ITCH_MSG_SYMBOL_STATUS = 0x48"
| "lse_itch_msg_code LSE_ITCH_MSG_ADD_ORDER = 0x41"
| "lse_itch_msg_code LSE_ITCH_MSG_ADD_ATTIRUBTED_ORDER = 0x46"
| "lse_itch_msg_code LSE_ITCH_MSG_ORDER_DELETED = 0x44"
| "lse_itch_msg_code LSE_ITCH_MSG_ORDER_MODIFIED = 0x55"
| "lse_itch_msg_code LSE_ITCH_MSG_ORDER_BOOK_CLEAR = 0x79"
| "lse_itch_msg_code LSE_ITCH_MSG_ORDER_EXECUTED = 0x45"
| "lse_itch_msg_code LSE_ITCH_MSG_ORDER_EXECUTED_WITH_PRICE_SIZE = 0x43"
| "lse_itch_msg_code LSE_ITCH_MSG_TRADE = 0x50"
| "lse_itch_msg_code LSE_ITCH_MSG_AUCTION_TRADE = 0x51"
| "lse_itch_msg_code LSE_ITCH_MSG_OFF_BOOK_TRADE = 0x78"
| "lse_itch_msg_code LSE_ITCH_MSG_TRADE_BREAK = 0x42"
| "lse_itch_msg_code LSE_ITCH_MSG_AUCTION_INFO = 0x49"
| "lse_itch_msg_code LSE_ITCH_MSG_STATISTICS = 0x77"

datatype lse_itch_login_status_type = LSE_ITCH_LOGIN_STATUS_ACCEPTED | LSE_ITCH_LOGIN_STATUS_INVALID_PASSWORD
  | LSE_ITCH_LOGIN_STATUS_COMPID_INACTIVE_LOCKED | LSE_ITCH_LOGIN_STATUS_LOGIN_LIMIT_REACHED
  | LSE_ITCH_LOGIN_STATUS_SERVICE_UNAVAILABLE | LSE_ITCH_LOGIN_STATUS_CONCURRENT_LIMIT_REACHED
  | LSE_ITCH_LOGIN_STATUS_FAILED

fun lse_itch_login_status_char :: "lse_itch_login_status_type \<Rightarrow> u8" where
  "lse_itch_login_status_char LSE_ITCH_LOGIN_STATUS_ACCEPTED = of_char (CHR ''A'')"
| "lse_itch_login_status_char LSE_ITCH_LOGIN_STATUS_INVALID_PASSWORD = of_char (CHR ''N'')"
| "lse_itch_login_status_char LSE_ITCH_LOGIN_STATUS_COMPID_INACTIVE_LOCKED = of_char (CHR ''a'')"
| "lse_itch_login_status_char LSE_ITCH_LOGIN_STATUS_LOGIN_LIMIT_REACHED = of_char (CHR ''b'')"
| "lse_itch_login_status_char LSE_ITCH_LOGIN_STATUS_SERVICE_UNAVAILABLE = of_char (CHR ''c'')"
| "lse_itch_login_status_char LSE_ITCH_LOGIN_STATUS_CONCURRENT_LIMIT_REACHED = of_char (CHR ''d'')"
| "lse_itch_login_status_char LSE_ITCH_LOGIN_STATUS_FAILED = of_char (CHR ''e'')"

datatype lse_itch_replay_status_type = LSE_ITCH_REPLAY_STATUS_REQUEST_ACCEPTED
  | LSE_ITCH_REPLAY_STATUS_REQUEST_LIMIT_REACHED | LSE_ITCH_REPLAY_STATUS_INVALID_MARKET_DATA_GROUP
  | LSE_ITCH_REPLAY_STATUS_OUT_OF_RANGE | LSE_ITCH_REPLAY_STATUS_REPLAY_UNAVAILABLE
  | LSE_ITCH_REPLAY_STATUS_UNSUPPORTED_MESSAGE_TYPE | LSE_ITCH_REPLAY_STATUS_FAILED
  | LSE_ITCH_REPLAY_STATUS_CONCURRENT_LIMIT_REACHED

fun lse_itch_replay_status_char :: "lse_itch_replay_status_type \<Rightarrow> u8" where
  "lse_itch_replay_status_char LSE_ITCH_REPLAY_STATUS_REQUEST_ACCEPTED = of_char (CHR ''A'')"
| "lse_itch_replay_status_char LSE_ITCH_REPLAY_STATUS_REQUEST_LIMIT_REACHED = of_char (CHR ''D'')"
| "lse_itch_replay_status_char LSE_ITCH_REPLAY_STATUS_INVALID_MARKET_DATA_GROUP = of_char (CHR ''I'')"
| "lse_itch_replay_status_char LSE_ITCH_REPLAY_STATUS_OUT_OF_RANGE = of_char (CHR ''O'')"
| "lse_itch_replay_status_char LSE_ITCH_REPLAY_STATUS_REPLAY_UNAVAILABLE = of_char (CHR ''U'')"
| "lse_itch_replay_status_char LSE_ITCH_REPLAY_STATUS_UNSUPPORTED_MESSAGE_TYPE = of_char (CHR ''d'')"
| "lse_itch_replay_status_char LSE_ITCH_REPLAY_STATUS_FAILED = of_char (CHR ''e'')"
| "lse_itch_replay_status_char LSE_ITCH_REPLAY_STATUS_CONCURRENT_LIMIT_REACHED = of_char (CHR ''c'')"

datatype lse_itch_snapshot_status_type = LSE_ITCH_SNAPSHOT_STATUS_REQUEST_ACCEPTED
  | LSE_ITCH_SNAPSHOT_STATUS_OUT_OF_RANGE | LSE_ITCH_SNAPSHOT_STATUS_SNAPSHOT_UNAVAILABLE
  | LSE_ITCH_SNAPSHOT_STATUS_VALID_SEGMENT_OR_SYMBOL_NOT_SPECIFIED
  | LSE_ITCH_SNAPSHOT_STATUS_REQUEST_LIMIT_REACHED | LSE_ITCH_SNAPSHOT_STATUS_CONCURRENT_LIMIT_REACHED
  | LSE_ITCH_SNAPSHOT_STATUS_UNSUPPORTED_MESSAGE_TYPE | LSE_ITCH_SNAPSHOT_STATUS_FAILED

fun lse_itch_snapshot_status_char :: "lse_itch_snapshot_status_type \<Rightarrow> u8" where
  "lse_itch_snapshot_status_char LSE_ITCH_SNAPSHOT_STATUS_REQUEST_ACCEPTED = of_char (CHR ''A'')"
| "lse_itch_snapshot_status_char LSE_ITCH_SNAPSHOT_STATUS_OUT_OF_RANGE = of_char (CHR ''O'')"
| "lse_itch_snapshot_status_char LSE_ITCH_SNAPSHOT_STATUS_SNAPSHOT_UNAVAILABLE = of_char (CHR ''U'')"
| "lse_itch_snapshot_status_char LSE_ITCH_SNAPSHOT_STATUS_VALID_SEGMENT_OR_SYMBOL_NOT_SPECIFIED = of_char (CHR ''a'')"
| "lse_itch_snapshot_status_char LSE_ITCH_SNAPSHOT_STATUS_REQUEST_LIMIT_REACHED = of_char (CHR ''b'')"
| "lse_itch_snapshot_status_char LSE_ITCH_SNAPSHOT_STATUS_CONCURRENT_LIMIT_REACHED = of_char (CHR ''c'')"
| "lse_itch_snapshot_status_char LSE_ITCH_SNAPSHOT_STATUS_UNSUPPORTED_MESSAGE_TYPE = of_char (CHR ''d'')"
| "lse_itch_snapshot_status_char LSE_ITCH_SNAPSHOT_STATUS_FAILED = of_char (CHR ''e'')"

datatype lse_itch_snapshot_complete_flags = LSE_ITCH_SNAPSHOT_COMPLETE_FLAG_QUOTE

fun lse_itch_snapshot_complete_flag :: "lse_itch_snapshot_complete_flags \<Rightarrow> u8" where
  "lse_itch_snapshot_complete_flag LSE_ITCH_SNAPSHOT_COMPLETE_FLAG_QUOTE = push_bit 5 1"

subsection \<open>Structures\<close>

definition lse_itch_unit_header :: layout where
  "lse_itch_unit_header = [(''Length'', C_le16), (''MessageCount'', C_u8), (''MarketDataGroup'', C_u8),
     (''SequenceNumber'', C_le32)]"

definition lse_itch_message :: layout where
  "lse_itch_message = [(''Length'', C_u8), (''MessageType'', C_u8)]"

definition lse_itch_login_request :: layout where
  "lse_itch_login_request = [(''Length'', C_u8), (''MessageType'', C_u8), (''Username'', C_array 6),
     (''Password'', C_array 8)]"

definition lse_itch_replay_request :: layout where
  "lse_itch_replay_request = [(''Length'', C_u8), (''MessageType'', C_u8), (''MarketDataGroup'', C_u8),
     (''FirstMessage'', C_le32), (''Count'', C_le16)]"

definition lse_itch_snapshot_request :: layout where
  "lse_itch_snapshot_request = [(''Length'', C_u8), (''MessageType'', C_u8), (''SequenceNumber'', C_le32),
     (''Segment'', C_array 6), (''InstrumentID'', C_le32)]"

definition lse_itch_logout_request :: layout where
  "lse_itch_logout_request = [(''Length'', C_u8), (''MessageType'', C_u8)]"

definition lse_itch_logout_response :: layout where
  "lse_itch_logout_response = [(''Length'', C_u8), (''MessageType'', C_u8), (''Status'', C_u8)]"

definition lse_itch_replay_response :: layout where
  "lse_itch_replay_response = [(''Length'', C_u8), (''MessageType'', C_u8), (''MarketDataGroup'', C_u8),
     (''FirstMessage'', C_le32), (''Count'', C_le16), (''Status'', C_u8)]"

definition lse_itch_snapshot_response :: layout where
  "lse_itch_snapshot_response = [(''Length'', C_u8), (''MessageType'', C_u8), (''SequenceNumber'', C_le32),
     (''OrderCount'', C_le32), (''Status'', C_u8)]"

definition lse_itch_snapshot_complete :: layout where
  "lse_itch_snapshot_complete = [(''Length'', C_u8), (''MessageType'', C_u8), (''SequenceNumber'', C_le32),
     (''Segment'', C_array 6), (''InstrumentID'', C_le32), (''Flags'', C_u8)]"

subsection \<open>Decoding\<close>

definition lse_itch_message_decode :: "buffer \<Rightarrow> mem \<Rightarrow> (i32 \<times> mem \<times> buffer) option" where
  "lse_itch_message_decode buf msg =
     (let available = buffer_size buf in
      if available = 0 then Some (-1, msg, buf)
      else do {
        sz \<leftarrow> buffer_peek_8 buf;
        (if available < ucast sz then Some (-1, msg, buf)
         else do {
           bs \<leftarrow> mem_load (data buf) (buffer_start buf) (unat sz);
           msg \<leftarrow> mem_store msg 0 bs;
           Some (0, msg, buffer_advance buf (ucast sz)) }) })"

text \<open>The decoder keeps the contract of a feed, for messages that are not empty and that the structure of the caller has
  room for.\<close>

interpretation lse_itch: feed "with_msg lse_itch_message_decode msg" copied copy_of
  "\<lambda>m. sized (\<lambda>t. ucast t) m \<and> length m \<le> length msg" for msg
proof
  show "\<exists>x. with_msg lse_itch_message_decode msg b = Some (x, buffer_advance b (of_nat (length m))) \<and> copied x
      \<and> copy_of (data b) x m"
    if "holds b (m @ r)" "sized (\<lambda>t. ucast t) m \<and> length m \<le> length msg" for b m r
  proof -
    note w = sized_whole [OF that(1) conjunct1 [OF that(2)]]
    have "unat (hd m) = length m" using that(2) by (simp add: sized_def unat_ucast_up)
    with w holds_load_prefix [OF that(1)] that(2) show ?thesis
      by (simp add: with_msg_def lse_itch_message_decode_def Let_def mem_store_prefix)
  qed
  show "\<exists>x. with_msg lse_itch_message_decode msg b = Some (x, b) \<and> \<not> copied x"
    if "holds b p" "sized (\<lambda>t. ucast t) (p @ q) \<and> length (p @ q) \<le> length msg" "q \<noteq> []" for b p q
    using sized_part [OF that(1) conjunct1 [OF that(2)] that(3)] holds_size_0 [OF that(1)]
    by (cases "p = []") (simp_all add: with_msg_def lse_itch_message_decode_def Let_def)
  show "\<exists>x. with_msg lse_itch_message_decode msg b = Some (x, b) \<and> \<not> copied x" if "holds b []" for b
    using holds_size_0 [OF that] by (simp add: with_msg_def lse_itch_message_decode_def)
qed

text \<open>A length of 0 is answered with success, and nothing is consumed: a program that takes messages until there is none
  never ends.\<close>

lemma lse_itch_empty_message:
  assumes "holds b (0 # r)"
  shows "lse_itch_message_decode b msg = Some (0, msg, b)"
  using holds_size_0 [OF assms] holds_peek_8 [OF assms] holds_load_prefix [of b "[]" "0 # r"] assms mem_store_prefix [of "[]" msg]
  by (simp add: lse_itch_message_decode_def Let_def)

end
