(* ===== verification/Feed_Session.thy ===== *)
theory Feed_Session
  imports Feed
begin

text \<open>
  Session layers under the feeds: BATS BOE (lib/proto/boe_message.c, boe_message.h), SoupBinTCP 3.00
  (lib/proto/soupbin3_session.c, soupbin3_session.h) and MoldUDP (omx_moldudp_message.h).
\<close>

subsection \<open>BOE message types\<close>

datatype boe_msg_type = LoginRequest | LogoutRequest | ClientHeartbeat | NewOrder | CancelOrder | ModifyOrder
  | LoginResponse | Logout | ServerHeartbeat | ReplayComplete | OrderAcknowledgement | OrderRejected | OrderModified
  | OrderRestarted | UserModifyRejected | OrderCancelled | CancelRejected | OrderExecution | TradeCancelOrCorrect

fun boe_msg_code :: "boe_msg_type \<Rightarrow> u8" where
  "boe_msg_code LoginRequest = 0x01"
| "boe_msg_code LogoutRequest = 0x02"
| "boe_msg_code ClientHeartbeat = 0x03"
| "boe_msg_code NewOrder = 0x04"
| "boe_msg_code CancelOrder = 0x05"
| "boe_msg_code ModifyOrder = 0x06"
| "boe_msg_code LoginResponse = 0x07"
| "boe_msg_code Logout = 0x08"
| "boe_msg_code ServerHeartbeat = 0x09"
| "boe_msg_code ReplayComplete = 0x13"
| "boe_msg_code OrderAcknowledgement = 0x0A"
| "boe_msg_code OrderRejected = 0x0B"
| "boe_msg_code OrderModified = 0x0C"
| "boe_msg_code OrderRestarted = 0x0D"
| "boe_msg_code UserModifyRejected = 0x0E"
| "boe_msg_code OrderCancelled = 0x0F"
| "boe_msg_code CancelRejected = 0x10"
| "boe_msg_code OrderExecution = 0x11"
| "boe_msg_code TradeCancelOrCorrect = 0x12"

subsection \<open>BOE structures\<close>

definition boe_header :: layout where
  "boe_header = [(''StartOfMessage'', C_le16), (''MessageLength'', C_le16), (''MessageType'', C_u8),
     (''MatchingUnit'', C_u8), (''SequenceNumber'', C_le32)]"

definition boe_unit :: layout where
  "boe_unit = [(''UnitNumber'', C_u8), (''UnitSequence'', C_le32)]"

definition boe_login_request :: layout where
  "boe_login_request = [(''SessionSubID'', C_array 4), (''Username'', C_array 4), (''Password'', C_array 10),
     (''NoUnspecifiedUnitReplay'', C_u8), (''OrderAcknowledgementBitfields'', C_le64),
     (''OrderRejectedBitfields'', C_le64), (''OrderModifiedBitfields'', C_le64),
     (''OrderRestatedBitfields'', C_le64), (''UserModifyRejectedBitfields'', C_le64),
     (''OrderCancelledBitfields'', C_le64), (''CancelRejectedBitfields'', C_le64),
     (''OrderExecutionBitfields'', C_le64), (''TradeCancelOrCorrectBitfields'', C_le64),
     (''ReservedBitfields1'', C_le64), (''ReservedBitfields2'', C_le64), (''NumberOfUnits'', C_u8)]"

definition boe_login_response :: layout where
  "boe_login_response = [(''LoginResponseStatus'', C_u8), (''LoginResponseText'', C_array 60),
     (''NoUnspecifiedUnitReplay'', C_u8), (''OrderAcknowledgementBitfields'', C_le64),
     (''OrderRejectedBitfields'', C_le64), (''OrderModifiedBitfields'', C_le64),
     (''OrderRestatedBitfields'', C_le64), (''UserModifyRejectedBitfields'', C_le64),
     (''OrderCancelledBitfields'', C_le64), (''CancelRejectedBitfields'', C_le64),
     (''OrderExecutionBitfields'', C_le64), (''TradeCancelOrCorrectBitfields'', C_le64),
     (''ReservedBitfields1'', C_le64), (''ReservedBitfields2'', C_le64), (''LastReceivedSequenceNumber'', C_le32),
     (''NumberOfUnits'', C_u8)]"

definition boe_logout :: layout where
  "boe_logout = [(''LogoutReason'', C_u8), (''LogoutReasonText'', C_array 60),
     (''LastReceivedSequenceNumber'', C_le32), (''NumberOfUnits'', C_u8)]"

subsection \<open>BOE decoding\<close>

definition boe_message :: layout where
  "boe_message = boe_header"

definition boe_message_payload :: "ptr \<Rightarrow> ptr" where
  "boe_message_payload msg = msg + int (layout_size boe_header)"

definition BOE_MAGIC :: u16 where "BOE_MAGIC = 0xBABA"

text \<open>The length counts itself, and not the two bytes before it.  Nothing is compared with the number of bytes that are
  there; at most \<open>sz\<close> bytes are copied.\<close>

definition boe_message_decode :: "buffer \<Rightarrow> mem \<Rightarrow> ulong \<Rightarrow> (i32 \<times> mem \<times> buffer) option" where
  "boe_message_decode buf msg sz =
     (let start = buffer_start buf in do {
        (magic, buf) \<leftarrow> buffer_get_le16 buf;
        (if magic \<noteq> BOE_MAGIC then Some (-1, msg, buf)
         else do {
           (len, buf) \<leftarrow> buffer_get_le16 buf;
           (let count = 2 + ucast len :: ulong; count = (if count > sz then sz else count) in do {
              bs \<leftarrow> mem_load (data buf) start (unat count);
              msg \<leftarrow> mem_store msg 0 bs;
              Some (0, msg, buffer_advance buf (ucast len - 2)) }) }) })"

definition boe_framed :: "u8 list \<Rightarrow> bool" where
  "boe_framed m \<longleftrightarrow> (\<exists>c0 c1 m'. m = 0xBA # 0xBA # c0 # c1 # m' \<and> unat c0 + 256 * unat c1 = length m' + 2)"

text \<open>A whole message is taken off the buffer.\<close>

interpretation boe: whole_feed "with_msg (\<lambda>b msg. boe_message_decode b msg sz) msg" copied copy_of
  "\<lambda>m. boe_framed m \<and> length m \<le> unat sz \<and> length m \<le> length msg" for sz msg
proof
  show "\<exists>x. with_msg (\<lambda>b msg. boe_message_decode b msg sz) msg b = Some (x, buffer_advance b (of_nat (length m))) \<and> copied x
      \<and> copy_of (data b) x m"
    if h: "holds b (m @ r)" and f: "boe_framed m \<and> length m \<le> unat sz \<and> length m \<le> length msg" for b m r
  proof -
    obtain c0 c1 m' where m: "m = 0xBA # 0xBA # c0 # c1 # m'" "unat c0 + 256 * unat c1 = length m' + 2"
      using f by (auto simp: boe_framed_def)
    have g0: "buffer_get_le16 b = Some (BOE_MAGIC, buffer_advance b 2)"
      using holds_get_le16 [of b "0xBA" "0xBA"] h by (simp add: m BOE_MAGIC_def)
    define len where "len = (ucast c0 OR push_bit 8 (ucast c1) :: u16)"
    have h2: "holds (buffer_advance b 2) (c0 # c1 # m' @ r)" using holds_advance [OF h, of 2] by (simp add: m)
    have g1: "buffer_get_le16 (buffer_advance b 2) = Some (len, buffer_advance b 4)"
      using holds_get_le16 [OF h2] by (simp add: len_def)
    have len: "unat len = length m' + 2" using unat_two_bytes [of c1 c0] m(2) by (simp add: len_def or.commute)
    have "unat (2 + ucast len :: ulong) = length m"
      using len unat_less_power [of len] by (simp add: m(1) unat_word_ariths unat_ucast_up)
    moreover have "(4 + (ucast len - 2) :: i64) = of_nat (length m)"
    proof -
      have "(ucast len :: i64) = of_nat (unat len)" by simp
      then show ?thesis by (simp add: len m(1))
    qed
    moreover have "\<not> sz < 2 + ucast len" using calculation(1) f by (simp add: word_less_nat_alt)
    ultimately show ?thesis
      using g0 g1 f holds_load_prefix [OF h]
      by (simp add: with_msg_def boe_message_decode_def Let_def mem_store_prefix)
  qed
qed

subsection \<open>SoupBinTCP packet types\<close>

datatype soupbin3_packet_type = SOUPBIN3_PACKET_DEBUG | SOUPBIN3_PACKET_LOGIN_ACCEPTED
  | SOUPBIN3_PACKET_LOGIN_REJECTED | SOUPBIN3_PACKET_SEQ_DATA | SOUPBIN3_PACKET_SERVER_HEARTBEAT
  | SOUPBIN3_PACKET_END_OF_SESSION | SOUPBIN3_PACKET_LOGIN_REQUEST | SOUPBIN3_PACKET_UNSEQ_DATA
  | SOUPBIN3_PACKET_CLIENT_HEARTBEAT | SOUPBIN3_PACKET_LOGOUT_REQUEST

fun soupbin3_packet_code :: "soupbin3_packet_type \<Rightarrow> u8" where
  "soupbin3_packet_code SOUPBIN3_PACKET_DEBUG = of_char (CHR ''+'')"
| "soupbin3_packet_code SOUPBIN3_PACKET_LOGIN_ACCEPTED = of_char (CHR ''A'')"
| "soupbin3_packet_code SOUPBIN3_PACKET_LOGIN_REJECTED = of_char (CHR ''J'')"
| "soupbin3_packet_code SOUPBIN3_PACKET_SEQ_DATA = of_char (CHR ''S'')"
| "soupbin3_packet_code SOUPBIN3_PACKET_SERVER_HEARTBEAT = of_char (CHR ''H'')"
| "soupbin3_packet_code SOUPBIN3_PACKET_END_OF_SESSION = of_char (CHR ''Z'')"
| "soupbin3_packet_code SOUPBIN3_PACKET_LOGIN_REQUEST = of_char (CHR ''L'')"
| "soupbin3_packet_code SOUPBIN3_PACKET_UNSEQ_DATA = of_char (CHR ''U'')"
| "soupbin3_packet_code SOUPBIN3_PACKET_CLIENT_HEARTBEAT = of_char (CHR ''R'')"
| "soupbin3_packet_code SOUPBIN3_PACKET_LOGOUT_REQUEST = of_char (CHR ''O'')"

subsection \<open>SoupBinTCP packets\<close>

text \<open>The first structure is not packed: the compiler pads it to a multiple of its alignment, which is 2.\<close>

definition soupbin3_packet :: layout where
  "soupbin3_packet = [(''PacketLength'', C_be16), (''PacketType'', C_char), ([], C_array 1)]"

definition soupbin3_packet_debug :: layout where
  "soupbin3_packet_debug = [(''PacketLength'', C_be16), (''PacketType'', C_char), (''Text'', C_array 0)]"

definition soupbin3_packet_login_accepted :: layout where
  "soupbin3_packet_login_accepted = [(''PacketLength'', C_be16), (''PacketType'', C_char),
     (''Session'', C_array 10), (''SequenceNumber'', C_array 20)]"

definition soupbin3_packet_login_rejected :: layout where
  "soupbin3_packet_login_rejected = [(''PacketLength'', C_be16), (''PacketType'', C_char),
     (''RejectReasonCode'', C_char)]"

definition soupbin3_packet_seq_data :: layout where
  "soupbin3_packet_seq_data = [(''PacketLength'', C_be16), (''PacketType'', C_char), (''Message'', C_array 0)]"

definition soupbin3_packet_server_heartbeat :: layout where
  "soupbin3_packet_server_heartbeat = [(''PacketLength'', C_be16), (''PacketType'', C_char)]"

definition soupbin3_packet_end_of_session :: layout where
  "soupbin3_packet_end_of_session = [(''PacketLength'', C_be16), (''PacketType'', C_char)]"

definition soupbin3_packet_login_request :: layout where
  "soupbin3_packet_login_request = [(''PacketLength'', C_be16), (''PacketType'', C_char),
     (''Username'', C_array 6), (''Password'', C_array 10), (''RequestedSession'', C_array 10),
     (''RequestedSequenceNumber'', C_array 20)]"

definition soupbin3_packet_unseq_data :: layout where
  "soupbin3_packet_unseq_data = [(''PacketLength'', C_be16), (''PacketType'', C_char), (''Message'', C_array 0)]"

definition soupbin3_packet_client_heartbeat :: layout where
  "soupbin3_packet_client_heartbeat = [(''PacketLength'', C_be16), (''PacketType'', C_char)]"

definition soupbin3_packet_logout_request :: layout where
  "soupbin3_packet_logout_request = [(''PacketLength'', C_be16), (''PacketType'', C_char)]"

subsection \<open>SoupBinTCP sessions\<close>

record soupbin3_session =
  sb_sockfd :: i32
  sb_rx_buffer :: buffer

definition SOUPBIN3_RX_BUFFER_SIZE :: ulong where "SOUPBIN3_RX_BUFFER_SIZE = 4096"

text \<open>\<open>ok\<close> says whether the \<open>calloc\<close> of the session succeeds.\<close>

definition soupbin3_session_new :: "bool \<Rightarrow> (ulong \<Rightarrow> mem option) \<Rightarrow> i32 \<Rightarrow> soupbin3_session option" where
  "soupbin3_session_new ok malloc sockfd =
     (if \<not> ok then None
      else (case buffer_new malloc SOUPBIN3_RX_BUFFER_SIZE of
              None \<Rightarrow> None
            | Some b \<Rightarrow> Some \<lparr>sb_sockfd = sockfd, sb_rx_buffer = b\<rparr>))"

definition soupbin3_packet_decode :: "buffer \<Rightarrow> u16 \<Rightarrow> mem \<Rightarrow> (i32 \<times> mem \<times> buffer) option" where
  "soupbin3_packet_decode buf len packet =
     (let start = buffer_start buf; sz = 2 + ucast len :: ulong in do {
        bs \<leftarrow> mem_load (data buf) (start - 2) (unat sz);
        packet \<leftarrow> mem_store packet 0 bs;
        Some (0, packet, buffer_advance buf (ucast len)) })"

text \<open>The packet at the start of the receive buffer.  A failed \<open>assert\<close>, which aborts the program, is \<open>None\<close>.\<close>

definition soupbin3_take :: "buffer \<Rightarrow> mem \<Rightarrow> (i32 \<times> mem \<times> buffer) option" where
  "soupbin3_take b packet = do {
     (len, b) \<leftarrow> buffer_get_be16 b;
     (if buffer_remaining b < ucast len then None
      else soupbin3_packet_decode b len packet) }"

definition soupbin3_session_recv :: "soupbin3_session \<Rightarrow> (ulong \<Rightarrow> u8 list io) list \<Rightarrow> mem
    \<Rightarrow> (i32 \<times> mem \<times> soupbin3_session) option" where
  "soupbin3_session_recv session rds packet =
     (if buffer_size (sb_rx_buffer session) > 0 then do {
        (r, packet, b) \<leftarrow> soupbin3_take (sb_rx_buffer session) packet;
        Some (r, packet, session\<lparr>sb_rx_buffer := b\<rparr>) }
      else do {
        (nr, b) \<leftarrow> buffer_xread (buffer_reset (sb_rx_buffer session)) rds;
        (if nr \<le>s 0 then Some (-1, packet, session\<lparr>sb_rx_buffer := b\<rparr>)
         else do {
           (r, packet, b) \<leftarrow> soupbin3_take b packet;
           Some (r, packet, session\<lparr>sb_rx_buffer := b\<rparr>) }) })"

definition soupbin3_framed :: "u8 list \<Rightarrow> bool" where
  "soupbin3_framed m \<longleftrightarrow> (\<exists>c0 c1 m'. m = c0 # c1 # m' \<and> 256 * unat c0 + unat c1 = length m')"

text \<open>A packet that is there completely is handed out when the room behind it in the buffer is at least its length, which the
  code asks for.\<close>

lemma soupbin3_take_packet:
  assumes h: "holds b (m @ r)" and f: "soupbin3_framed m" and room: "length m \<le> buffer_room b" "length m \<le> length packet"
  shows "soupbin3_take b packet = Some (0, m @ drop (length m) packet, buffer_advance b (of_nat (length m)))"
proof -
  obtain c0 c1 m' where m: "m = c0 # c1 # m'" "256 * unat c0 + unat c1 = length m'" using f by (auto simp: soupbin3_framed_def)
  define len where "len = (push_bit 8 (ucast c0) OR ucast c1 :: u16)"
  have g: "buffer_get_be16 b = Some (len, buffer_advance b 2)" using holds_get_be16 [of b c0 c1] h by (simp add: m len_def)
  have len: "unat len = length m'" using unat_two_bytes [of c0 c1] m(2) by (simp add: len_def add.commute)
  have h2: "holds (buffer_advance b 2) (m' @ r)" using holds_advance [OF h, of 2] by (simp add: m)
  have "buffer_room (buffer_advance b 2) = buffer_room b" by (simp add: buffer_room_def)
  then have nr: "\<not> buffer_remaining (buffer_advance b 2) < ucast len"
    using unat_buffer_remaining [OF holds_wf [OF h2]] room(1) len by (simp add: word_less_nat_alt unat_ucast_up m(1))
  have st: "buffer_start (buffer_advance b 2) - 2 = buffer_start b" using buffer_start_advance [OF h, of 2] by (simp add: m)
  have "unat (2 + ucast len :: ulong) = length m"
    using len unat_less_power [of len] by (simp add: m(1) unat_word_ariths unat_ucast_up)
  moreover have "(2 + ucast len :: i64) = of_nat (length m)"
  proof -
    have "(ucast len :: i64) = of_nat (unat len)" by simp
    then show ?thesis by (simp add: len m(1))
  qed
  ultimately show ?thesis
    using g nr st holds_load_prefix [OF h] room(2)
    by (simp add: soupbin3_take_def soupbin3_packet_decode_def Let_def mem_store_prefix)
qed

text \<open>The room is what is compared with the length, not the number of bytes received: the same packet makes the program
  abort when it stands at the end of the buffer.\<close>

lemma soupbin3_take_aborts:
  assumes h: "holds b (m @ r)" and f: "soupbin3_framed m" and room: "buffer_room b + 2 < length m"
  shows "soupbin3_take b packet = None"
proof -
  obtain c0 c1 m' where m: "m = c0 # c1 # m'" "256 * unat c0 + unat c1 = length m'" using f by (auto simp: soupbin3_framed_def)
  define len where "len = (push_bit 8 (ucast c0) OR ucast c1 :: u16)"
  have g: "buffer_get_be16 b = Some (len, buffer_advance b 2)" using holds_get_be16 [of b c0 c1] h by (simp add: m len_def)
  have len: "unat len = length m'" using unat_two_bytes [of c0 c1] m(2) by (simp add: len_def add.commute)
  have h2: "holds (buffer_advance b 2) (m' @ r)" using holds_advance [OF h, of 2] by (simp add: m)
  have "buffer_room (buffer_advance b 2) = buffer_room b" by (simp add: buffer_room_def)
  then have "buffer_remaining (buffer_advance b 2) < ucast len"
    using unat_buffer_remaining [OF holds_wf [OF h2]] room len by (simp add: word_less_nat_alt unat_ucast_up m(1))
  with g show ?thesis by (simp add: soupbin3_take_def)
qed

subsection \<open>MoldUDP\<close>

definition omx_moldudp_header :: layout where
  "omx_moldudp_header = [(''Session'', C_array 10), (''SequenceNumber'', C_le32), (''MessageCount'', C_le16)]"

definition omx_moldudp_message :: layout where
  "omx_moldudp_message = [(''MessageLength'', C_le16)]"

definition omx_moldudp_request :: layout where
  "omx_moldudp_request = [(''Session'', C_array 10), (''SequenceNumber'', C_le32),
     (''RequestedMessageCount'', C_le16)]"

definition omx_moldudp64_header :: layout where
  "omx_moldudp64_header = [(''Session'', C_array 10), (''SequenceNumber'', C_le64), (''MessageCount'', C_le16)]"

definition omx_moldudp64_message :: layout where
  "omx_moldudp64_message = [(''MessageLength'', C_le16)]"

definition omx_moldudp64_request :: layout where
  "omx_moldudp64_request = [(''Session'', C_array 10), (''SequenceNumber'', C_le64),
     (''RequestedMessageCount'', C_le16)]"

definition omx_moldudp_payload :: "ptr \<Rightarrow> ptr" where
  "omx_moldudp_payload msg = msg + int (layout_size omx_moldudp_header)"

definition omx_moldudp_message_payload :: "ptr \<Rightarrow> ptr" where
  "omx_moldudp_message_payload msg = msg + int (layout_size omx_moldudp_message)"

definition omx_moldudp64_payload :: "ptr \<Rightarrow> ptr" where
  "omx_moldudp64_payload msg = msg + int (layout_size omx_moldudp64_header)"

definition omx_moldudp64_message_payload :: "ptr \<Rightarrow> ptr" where
  "omx_moldudp64_message_payload msg = msg + int (layout_size omx_moldudp64_message)"

end
