(* ===== verification/Feed_Mbt.thy ===== *)
theory Feed_Mbt
  imports Feed
begin

text \<open>
  MB Trading Quote API (lib/proto/mbt_quote_message.c, mbt_quote_message.h): a text protocol, of which the decoder
  knows the logon.
\<close>

subsection \<open>Message types\<close>

datatype mbt_quote_msg_type = MBT_QUOTE_LOGGING_ON | MBT_QUOTE_SUBSCRIPTION | MBT_QUOTE_UNSUBSCRIPTION
  | MBT_QUOTE_FUNDAMENTAL | MBT_QUOTE_PING_HEARTBEAT | MBT_QUOTE_LOGON_ACCEPTED | MBT_QUOTE_LOGON_DENIED
  | MBT_QUOTE_LEVEL_1_UPDATE | MBT_QUOTE_LEVEL_2_UPDATE | MBT_QUOTE_TIME_AND_SALES_UPDATE
  | MBT_QUOTE_FUNDAMENTAL_DATA_RESPONSE | MBT_QUOTE_OPTIONS_CHAINS_UPDATE

fun mbt_quote_msg_code :: "mbt_quote_msg_type \<Rightarrow> u8" where
  "mbt_quote_msg_code MBT_QUOTE_LOGGING_ON = of_char (CHR ''L'')"
| "mbt_quote_msg_code MBT_QUOTE_SUBSCRIPTION = of_char (CHR ''S'')"
| "mbt_quote_msg_code MBT_QUOTE_UNSUBSCRIPTION = of_char (CHR ''U'')"
| "mbt_quote_msg_code MBT_QUOTE_FUNDAMENTAL = of_char (CHR ''H'')"
| "mbt_quote_msg_code MBT_QUOTE_PING_HEARTBEAT = of_char (CHR ''9'')"
| "mbt_quote_msg_code MBT_QUOTE_LOGON_ACCEPTED = of_char (CHR ''G'')"
| "mbt_quote_msg_code MBT_QUOTE_LOGON_DENIED = of_char (CHR ''D'')"
| "mbt_quote_msg_code MBT_QUOTE_LEVEL_1_UPDATE = of_char (CHR ''1'')"
| "mbt_quote_msg_code MBT_QUOTE_LEVEL_2_UPDATE = of_char (CHR ''2'')"
| "mbt_quote_msg_code MBT_QUOTE_TIME_AND_SALES_UPDATE = of_char (CHR ''3'')"
| "mbt_quote_msg_code MBT_QUOTE_FUNDAMENTAL_DATA_RESPONSE = of_char (CHR ''N'')"
| "mbt_quote_msg_code MBT_QUOTE_OPTIONS_CHAINS_UPDATE = of_char (CHR ''4'')"

definition MBT_QUOTE_FIELD_DELIM :: u8 where "MBT_QUOTE_FIELD_DELIM = of_char (CHR '';'')"
definition MBT_QUOTE_HEADER_DELIM :: u8 where "MBT_QUOTE_HEADER_DELIM = of_char (CHR ''|'')"
definition MBT_QUOTE_MESSAGE_END :: u8 where "MBT_QUOTE_MESSAGE_END = 10"

text \<open>A decoded message is a logon; \<open>None\<close> is the null pointer of a field that is not there.\<close>

record mbt_quote_logging_on =
  UserName :: "u8 list option"
  Password :: "u8 list option"

subsection \<open>Decoding\<close>

text \<open>\<open>for (;;)\<close>: up to a delimiter; the result says whether there is one.  The bound that is looked at, the room behind
  the bytes, does not change in the loop; the loop ends at a delimiter or at the end of the memory, so the length of the
  memory is enough fuel.\<close>

fun mbt_field_end :: "nat \<Rightarrow> buffer \<Rightarrow> (bool \<times> buffer) option" where
  "mbt_field_end 0 buf = None"
| "mbt_field_end (Suc fuel) buf = do {
     ch \<leftarrow> buffer_peek_8 buf;
     (if ch = MBT_QUOTE_FIELD_DELIM \<or> ch = MBT_QUOTE_MESSAGE_END then Some (True, buf)
      else if buffer_remaining buf = 0 then Some (False, buf)
      else mbt_field_end fuel (buffer_advance buf 1)) }"

definition mbt_quote_decode_field :: "buffer \<Rightarrow> (u8 list option \<times> buffer) option" where
  "mbt_quote_decode_field buf = do {
     (eq, buf) \<leftarrow> buffer_find buf (of_char (CHR ''=''));
     (if eq = None then Some (None, buf)
      else
        let buf = buffer_advance buf 1; start = buffer_start buf in do {
          (ok, buf) \<leftarrow> mbt_field_end (Suc (length (data buf))) buf;
          (if \<not> ok then Some (None, buf)
           else do {
             cs \<leftarrow> mem_load (data buf) start (nat (buffer_start buf - start));
             Some (Some (takeWhile (\<lambda>c. c \<noteq> 0) cs), buf) }) }) }"

text \<open>\<open>mbt_quote_message_delete\<close> looks at the type of the message it is given, also when that is the null pointer of a type
  that is not known: a fault.  Otherwise the message is freed and NULL returned.  \<open>ok\<close> says whether the \<open>calloc\<close> succeeds.\<close>

definition mbt_quote_message_decode :: "bool \<Rightarrow> buffer \<Rightarrow> (mbt_quote_logging_on option \<times> buffer) option" where
  "mbt_quote_message_decode ok buf = do {
     (type, buf) \<leftarrow> buffer_get_char buf;
     (c, buf) \<leftarrow> buffer_get_char buf;
     (if c \<noteq> MBT_QUOTE_HEADER_DELIM then Some (None, buf)
      else if type = mbt_quote_msg_code MBT_QUOTE_LOGGING_ON \<and> \<not> ok then Some (None, buf)
      else do {
        (msg, buf) \<leftarrow>
          (if type = mbt_quote_msg_code MBT_QUOTE_LOGGING_ON then do {
             (user, buf) \<leftarrow> mbt_quote_decode_field buf;
             (password, buf) \<leftarrow> mbt_quote_decode_field buf;
             Some (Some \<lparr>UserName = user, Password = password\<rparr>, buf) }
           else Some (None, buf));
        (c, buf) \<leftarrow> buffer_get_char buf;
        (if c \<noteq> MBT_QUOTE_MESSAGE_END then (if msg = None then None else Some (None, buf))
         else Some (msg, buf)) }) }"

subsection \<open>A logon\<close>

definition mbt_plain :: "u8 list \<Rightarrow> bool" where
  "mbt_plain v \<longleftrightarrow> MBT_QUOTE_FIELD_DELIM \<notin> set v \<and> MBT_QUOTE_MESSAGE_END \<notin> set v \<and> 0 \<notin> set v"

lemma mbt_field_end_at:
  "holds b (v @ d # r) \<Longrightarrow> MBT_QUOTE_FIELD_DELIM \<notin> set v \<Longrightarrow> MBT_QUOTE_MESSAGE_END \<notin> set v \<Longrightarrow>
     d = MBT_QUOTE_FIELD_DELIM \<or> d = MBT_QUOTE_MESSAGE_END \<Longrightarrow> buffer_remaining b \<noteq> 0 \<Longrightarrow> length v < fuel \<Longrightarrow>
     mbt_field_end fuel b = Some (True, buffer_advance b (of_nat (length v)))"
proof (induction v arbitrary: b fuel)
  case Nil
  then obtain f where "fuel = Suc f" by (cases fuel) auto
  with Nil show ?case using holds_peek_8 [of b d r] by auto
next
  case (Cons c v)
  then obtain f where f: "fuel = Suc f" by (cases fuel) auto
  have p: "buffer_peek_8 b = Some c" using Cons.prems(1) holds_peek_8 by simp
  have h: "holds (buffer_advance b 1) (v @ d # r)" using Cons.prems(1) by (simp add: holds_advance_1)
  have rem: "buffer_remaining (buffer_advance b 1) \<noteq> 0" using Cons.prems(5) by (simp add: buffer_remaining_def)
  from Cons.IH [OF h _ _ Cons.prems(4) rem, of f] Cons.prems f p show ?case by auto
qed

lemma mbt_decode_field:
  assumes h: "holds b (k @ of_char (CHR ''='') # v @ d # r)" and k: "of_char (CHR ''='') \<notin> set k" and v: "mbt_plain v"
    and d: "d = MBT_QUOTE_FIELD_DELIM \<or> d = MBT_QUOTE_MESSAGE_END" and rem: "buffer_remaining b \<noteq> 0"
  shows "mbt_quote_decode_field b = Some (Some v, buffer_advance b (of_nat (length k + 1 + length v)))"
proof -
  let ?e = "of_char (CHR ''='') :: u8"
  have tw: "takeWhile (\<lambda>x. x \<noteq> ?e) (k @ ?e # v @ d # r) = k" using k by (induction k) auto
  have find: "buffer_find b ?e = Some (Some (buffer_start b + int (length k)), buffer_advance b (of_nat (length k)))"
    using holds_find [OF h, of ?e] by (simp only: tw Let_def) simp
  let ?b = "buffer_advance b (of_nat (length k + 1))"
  have h1: "holds ?b (v @ d # r)" using holds_advance [OF h, of "length k + 1"] by simp
  have len: "length v < Suc (length (data ?b))"
    using holds_length [OF h1] h1 by (auto simp: holds_def buffer_wf_def)
  have "buffer_remaining ?b \<noteq> 0" using rem by (simp add: buffer_remaining_def)
  with mbt_field_end_at [OF h1 _ _ d _ len] v
  have fe: "mbt_field_end (Suc (length (data ?b))) ?b = Some (True, buffer_advance ?b (of_nat (length v)))"
    by (simp add: mbt_plain_def del: buffer_advance_add)
  have st: "buffer_start (buffer_advance ?b (of_nat (length v))) = buffer_start ?b + int (length v)"
    by (rule buffer_start_advance [OF h1]) simp
  have "takeWhile (\<lambda>c. c \<noteq> 0) v = v" using v by (simp add: mbt_plain_def takeWhile_eq_all_conv) blast
  with fe st find holds_load_prefix [OF h1] show ?thesis
    by (simp add: mbt_quote_decode_field_def Let_def algebra_simps del: takeWhile_eq_all_conv mbt_field_end.simps)
qed

text \<open>A logon is decoded: the values of its two fields, whatever their tags, and exactly the message is consumed.\<close>

lemma mbt_logon:
  assumes h: "holds b ([76, MBT_QUOTE_HEADER_DELIM] @ k1 @ of_char (CHR ''='') # u @ MBT_QUOTE_FIELD_DELIM # k2 @ of_char (CHR ''='') # p @ MBT_QUOTE_MESSAGE_END # r)"
    and k: "of_char (CHR ''='') \<notin> set k1" "of_char (CHR ''='') \<notin> set k2" and v: "mbt_plain u" "mbt_plain p"
    and rem: "buffer_remaining b \<noteq> 0"
  shows "\<exists>b'. mbt_quote_message_decode True b = Some (Some \<lparr>UserName = Some u, Password = Some p\<rparr>, b') \<and> holds b' r"
proof -
  let ?e = "of_char (CHR ''='') :: u8"
  have g0: "buffer_get_char b = Some (76, buffer_advance b 1)" using h by (simp add: buffer_get_char_def holds_get_8)
  have h1: "holds (buffer_advance b 1) (MBT_QUOTE_HEADER_DELIM # k1 @ ?e # u @ MBT_QUOTE_FIELD_DELIM # k2 @ ?e # p @ MBT_QUOTE_MESSAGE_END # r)"
    using holds_advance_1 [of b 76] h by simp
  have g1: "buffer_get_char (buffer_advance b 1) = Some (MBT_QUOTE_HEADER_DELIM, buffer_advance b 2)"
    using holds_get_8 [OF h1] by (simp add: buffer_get_char_def)
  have h2: "holds (buffer_advance b 2) (k1 @ ?e # u @ MBT_QUOTE_FIELD_DELIM # k2 @ ?e # p @ MBT_QUOTE_MESSAGE_END # r)"
    using holds_advance_1 [OF h1] by simp
  define b3 where "b3 = buffer_advance (buffer_advance b 2) (of_nat (length k1 + 1 + length u))"
  have rem2: "buffer_remaining (buffer_advance b 2) \<noteq> 0" using rem by (simp add: buffer_remaining_def)
  have f1: "mbt_quote_decode_field (buffer_advance b 2) = Some (Some u, b3)"
    unfolding b3_def by (rule mbt_decode_field [OF h2 k(1) v(1) _ rem2]) simp
  have h3: "holds b3 ((MBT_QUOTE_FIELD_DELIM # k2) @ ?e # p @ MBT_QUOTE_MESSAGE_END # r)"
    unfolding b3_def using holds_advance [OF h2, of "length k1 + 1 + length u"] by simp
  have rem3: "buffer_remaining b3 \<noteq> 0" using rem by (simp add: b3_def buffer_remaining_def)
  have k2: "?e \<notin> set (MBT_QUOTE_FIELD_DELIM # k2)" using k(2) by (simp add: MBT_QUOTE_FIELD_DELIM_def)
  define b4 where "b4 = buffer_advance b3 (of_nat (length (MBT_QUOTE_FIELD_DELIM # k2) + 1 + length p))"
  have f2: "mbt_quote_decode_field b3 = Some (Some p, b4)"
    unfolding b4_def by (rule mbt_decode_field [OF h3 k2 v(2) _ rem3]) simp
  have h4: "holds b4 (MBT_QUOTE_MESSAGE_END # r)"
    unfolding b4_def using holds_advance [OF h3, of "length (MBT_QUOTE_FIELD_DELIM # k2) + 1 + length p"] by simp
  have g4: "buffer_get_char b4 = Some (MBT_QUOTE_MESSAGE_END, buffer_advance b4 1)"
    using holds_get_8 [OF h4] by (simp add: buffer_get_char_def)
  have "mbt_quote_message_decode True b = Some (Some \<lparr>UserName = Some u, Password = Some p\<rparr>, buffer_advance b4 1)"
    by (simp add: mbt_quote_message_decode_def g0 g1 f1 f2 g4 del: buffer_advance_add)
  with holds_advance_1 [OF h4] show ?thesis by blast
qed

text \<open>A message of another type that has any body makes the decoder fault.\<close>

lemma mbt_unknown_faults:
  assumes h: "holds b (t # MBT_QUOTE_HEADER_DELIM # c # r)" and "t \<noteq> 76" "c \<noteq> MBT_QUOTE_MESSAGE_END"
  shows "mbt_quote_message_decode ok b = None"
proof -
  have h1: "holds (buffer_advance b 1) (MBT_QUOTE_HEADER_DELIM # c # r)" by (rule holds_advance_1 [OF h])
  have h2: "holds (buffer_advance b 2) (c # r)" using holds_advance_1 [OF h1] by simp
  show ?thesis
    using holds_get_8 [OF h] holds_get_8 [OF h1] holds_get_8 [OF h2] assms(2,3)
    by (simp add: mbt_quote_message_decode_def buffer_get_char_def)
qed

end
