(* ===== verification/Feed_Ouch.thy ===== *)
theory Feed_Ouch
  imports Feed
begin

text \<open>
  NASDAQ OUCH 4.2 (lib/proto/ouch42_message.c, ouch42_message.h): message types, structures and the two
  decoders, which copy the message into the structure of the caller.
\<close>

subsection \<open>Message types\<close>

datatype ouch42_msg_type = OUCH42_MSG_ENTER_ORDER | OUCH42_MSG_REPLACE_ORDER | OUCH42_MSG_CANCEL_ORDER
  | OUCH42_MSG_MODIFY_ORDER | OUCH42_MSG_SYSTEM_EVENT | OUCH42_MSG_ACCEPTED | OUCH42_MSG_REPLACED
  | OUCH42_MSG_CANCELED | OUCH42_MSG_AIQ_CANCELED | OUCH42_MSG_EXECUTED | OUCH42_MSG_BROKEN_TRADE
  | OUCH42_MSG_REJECTED | OUCH42_MSG_CANCEL_PENDING | OUCH42_MSG_CANCEL_REJECT | OUCH42_MSG_ORDER_PRIO_UPDATE
  | OUCH42_MSG_ORDER_MODIFIED

fun ouch42_msg_code :: "ouch42_msg_type \<Rightarrow> u8" where
  "ouch42_msg_code OUCH42_MSG_ENTER_ORDER = of_char (CHR ''O'')"
| "ouch42_msg_code OUCH42_MSG_REPLACE_ORDER = of_char (CHR ''U'')"
| "ouch42_msg_code OUCH42_MSG_CANCEL_ORDER = of_char (CHR ''X'')"
| "ouch42_msg_code OUCH42_MSG_MODIFY_ORDER = of_char (CHR ''M'')"
| "ouch42_msg_code OUCH42_MSG_SYSTEM_EVENT = of_char (CHR ''S'')"
| "ouch42_msg_code OUCH42_MSG_ACCEPTED = of_char (CHR ''A'')"
| "ouch42_msg_code OUCH42_MSG_REPLACED = of_char (CHR ''U'')"
| "ouch42_msg_code OUCH42_MSG_CANCELED = of_char (CHR ''C'')"
| "ouch42_msg_code OUCH42_MSG_AIQ_CANCELED = of_char (CHR ''D'')"
| "ouch42_msg_code OUCH42_MSG_EXECUTED = of_char (CHR ''E'')"
| "ouch42_msg_code OUCH42_MSG_BROKEN_TRADE = of_char (CHR ''B'')"
| "ouch42_msg_code OUCH42_MSG_REJECTED = of_char (CHR ''J'')"
| "ouch42_msg_code OUCH42_MSG_CANCEL_PENDING = of_char (CHR ''P'')"
| "ouch42_msg_code OUCH42_MSG_CANCEL_REJECT = of_char (CHR ''I'')"
| "ouch42_msg_code OUCH42_MSG_ORDER_PRIO_UPDATE = of_char (CHR ''T'')"
| "ouch42_msg_code OUCH42_MSG_ORDER_MODIFIED = of_char (CHR ''M'')"

subsection \<open>Structures\<close>

definition ouch42_message :: layout where
  "ouch42_message = [(''MessageType'', C_char)]"

definition ouch42_msg_enter_order :: layout where
  "ouch42_msg_enter_order = [(''MessageType'', C_char), (''OrderToken'', C_array 14),
     (''BuySellIndicator'', C_char), (''Shares'', C_u32), (''Stock'', C_array 8), (''Price'', C_u32),
     (''TimeInForce'', C_u32), (''Firm'', C_array 4), (''Display'', C_char), (''Capacity'', C_char),
     (''IntermarketSweepEligibility'', C_char), (''MinimumQuantity'', C_u32), (''CrossType'', C_char)]"

definition ouch42_msg_replace_order :: layout where
  "ouch42_msg_replace_order = [(''MessageType'', C_u8), (''ExistingOrderToken'', C_array 14),
     (''ReplacementOrderToken'', C_array 14), (''Shares'', C_u32), (''Price'', C_u32), (''TimeInForce'', C_u32),
     (''Display'', C_char), (''IntermarketSweepEligibility'', C_char), (''MinimumQuantity'', C_u32)]"

definition ouch42_msg_cancel_order :: layout where
  "ouch42_msg_cancel_order = [(''MessageType'', C_u8), (''OrderToken'', C_array 14), (''Shares'', C_u32)]"

definition ouch42_msg_modify_order :: layout where
  "ouch42_msg_modify_order = [(''MessageType'', C_u8), (''OrderToken'', C_array 14),
     (''BuySellIndicator'', C_char), (''Shares'', C_u32)]"

definition ouch42_msg_system_event :: layout where
  "ouch42_msg_system_event = [(''MessageType'', C_u8), (''Timestamp'', C_u64), (''EventCode'', C_char)]"

definition ouch42_msg_accepted :: layout where
  "ouch42_msg_accepted = [(''MessageType'', C_u8), (''Timestamp'', C_u64), (''OrderToken'', C_array 14),
     (''BuySellIndicator'', C_char), (''Shares'', C_u32), (''Stock'', C_array 8), (''Price'', C_u32),
     (''TimeInForce'', C_u32), (''Firm'', C_array 4), (''Display'', C_char), (''OrderReferenceNumber'', C_u64),
     (''Capacity'', C_char), (''IntermarketSweepEligibility'', C_char), (''MinimumQuantity'', C_u32),
     (''CrossType'', C_char), (''OrderState'', C_char), (''BBOWeightIndicator'', C_char)]"

definition ouch42_msg_replaced :: layout where
  "ouch42_msg_replaced = [(''MessageType'', C_u8), (''Timestamp'', C_u64), (''ReplacementOrderToken'', C_array 14),
     (''BuySellIndicator'', C_char), (''Shares'', C_u32), (''Stock'', C_array 8), (''Price'', C_u32),
     (''TimeInForce'', C_u32), (''Firm'', C_array 4), (''Display'', C_char), (''OrderReferenceNumber'', C_u64),
     (''Capacity'', C_char), (''IntermarketSweepEligibility'', C_char), (''MinimumQuantity'', C_u32),
     (''CrossType'', C_char), (''OrderState'', C_char), (''PreviousOrderToken'', C_array 14),
     (''BBOWeightIndicator'', C_char)]"

definition ouch42_msg_canceled :: layout where
  "ouch42_msg_canceled = [(''MessageType'', C_u8), (''Timestamp'', C_u64), (''OrderToken'', C_array 14),
     (''DecrementShares'', C_u32), (''Reason'', C_char)]"

definition ouch42_msg_aiq_canceled :: layout where
  "ouch42_msg_aiq_canceled = [(''MessageType'', C_u8), (''Timestamp'', C_u64), (''OrderToken'', C_array 14),
     (''DecrementShares'', C_u32), (''Reason'', C_char), (''QuantityPreventedFromTrading'', C_u32),
     (''ExecutionPrice'', C_u32), (''LiquidityFlag'', C_char)]"

definition ouch42_msg_executed :: layout where
  "ouch42_msg_executed = [(''MessageType'', C_u8), (''Timestamp'', C_u64), (''OrderToken'', C_array 14),
     (''ExecutedShares'', C_u32), (''ExecutionPrice'', C_u32), (''LiquidityFlag'', C_char), (''MatchNumber'', C_u64)]"

definition ouch42_msg_broken_trade :: layout where
  "ouch42_msg_broken_trade = [(''MessageType'', C_u8), (''Timestamp'', C_u64), (''OrderToken'', C_array 14),
     (''MatchNumber'', C_u64), (''Reason'', C_char)]"

definition ouch42_msg_rejected :: layout where
  "ouch42_msg_rejected = [(''MessageType'', C_u8), (''Timestamp'', C_u64), (''OrderToken'', C_array 14),
     (''Reason'', C_char)]"

definition ouch42_msg_cancel_pending :: layout where
  "ouch42_msg_cancel_pending = [(''MessageType'', C_u8), (''Timestamp'', C_u64), (''OrderToken'', C_array 14)]"

definition ouch42_msg_cancel_reject :: layout where
  "ouch42_msg_cancel_reject = [(''MessageType'', C_u8), (''Timestamp'', C_u64), (''OrderToken'', C_array 14)]"

definition ouch42_msg_order_prio_update :: layout where
  "ouch42_msg_order_prio_update = [(''MessageType'', C_u8), (''Timestamp'', C_u64), (''OrderToken'', C_array 14),
     (''Price'', C_u32), (''Display'', C_char), (''OrderReferenceNumber'', C_u64)]"

definition ouch42_msg_order_modified :: layout where
  "ouch42_msg_order_modified = [(''MessageType'', C_u8), (''Timestamp'', C_u64), (''OrderToken'', C_array 14),
     (''BuySellIndicator'', C_char), (''Shares'', C_u32)]"

lemmas ouch42_structs =
  ouch42_message_def ouch42_msg_enter_order_def ouch42_msg_replace_order_def ouch42_msg_cancel_order_def
  ouch42_msg_modify_order_def ouch42_msg_system_event_def ouch42_msg_accepted_def ouch42_msg_replaced_def
  ouch42_msg_canceled_def ouch42_msg_aiq_canceled_def ouch42_msg_executed_def ouch42_msg_broken_trade_def
  ouch42_msg_rejected_def ouch42_msg_cancel_pending_def ouch42_msg_cancel_reject_def
  ouch42_msg_order_prio_update_def ouch42_msg_order_modified_def

subsection \<open>Decoding\<close>

definition ouch42_in_cases :: "(u8 \<times> layout) list" where
  "ouch42_in_cases = [(ouch42_msg_code OUCH42_MSG_ENTER_ORDER, ouch42_msg_enter_order),
     (ouch42_msg_code OUCH42_MSG_REPLACE_ORDER, ouch42_msg_replace_order),
     (ouch42_msg_code OUCH42_MSG_CANCEL_ORDER, ouch42_msg_cancel_order),
     (ouch42_msg_code OUCH42_MSG_MODIFY_ORDER, ouch42_msg_modify_order)]"

definition ouch42_out_cases :: "(u8 \<times> layout) list" where
  "ouch42_out_cases = [(ouch42_msg_code OUCH42_MSG_SYSTEM_EVENT, ouch42_msg_system_event),
     (ouch42_msg_code OUCH42_MSG_ACCEPTED, ouch42_msg_accepted),
     (ouch42_msg_code OUCH42_MSG_REPLACED, ouch42_msg_replaced),
     (ouch42_msg_code OUCH42_MSG_CANCELED, ouch42_msg_canceled),
     (ouch42_msg_code OUCH42_MSG_AIQ_CANCELED, ouch42_msg_aiq_canceled),
     (ouch42_msg_code OUCH42_MSG_EXECUTED, ouch42_msg_executed),
     (ouch42_msg_code OUCH42_MSG_BROKEN_TRADE, ouch42_msg_broken_trade),
     (ouch42_msg_code OUCH42_MSG_REJECTED, ouch42_msg_rejected),
     (ouch42_msg_code OUCH42_MSG_CANCEL_PENDING, ouch42_msg_cancel_pending),
     (ouch42_msg_code OUCH42_MSG_CANCEL_REJECT, ouch42_msg_cancel_reject),
     (ouch42_msg_code OUCH42_MSG_ORDER_PRIO_UPDATE, ouch42_msg_order_prio_update),
     (ouch42_msg_code OUCH42_MSG_ORDER_MODIFIED, ouch42_msg_order_modified)]"

definition ouch42_in_message_size :: "u8 \<Rightarrow> ulong" where
  "ouch42_in_message_size type = switch type ouch42_in_cases"

definition ouch42_out_message_size :: "u8 \<Rightarrow> ulong" where
  "ouch42_out_message_size type = switch type ouch42_out_cases"

definition ouch42_in_message_decode :: "buffer \<Rightarrow> mem \<Rightarrow> (i32 \<times> mem \<times> buffer) option" where
  "ouch42_in_message_decode buf msg =
     (let start = buffer_start buf in do {
        (type, buf) \<leftarrow> buffer_get_8 buf;
        (let sz = ouch42_in_message_size type in
         if sz = 0 then Some (-1, msg, buf)
         else do {
           bs \<leftarrow> mem_load (data buf) start (unat sz);
           msg \<leftarrow> mem_store msg 0 bs;
           Some (0, msg, buffer_advance buf sz) }) })"

definition ouch42_out_message_decode :: "buffer \<Rightarrow> mem \<Rightarrow> (i32 \<times> mem \<times> buffer) option" where
  "ouch42_out_message_decode buf msg =
     (let start = buffer_start buf in do {
        (type, buf) \<leftarrow> buffer_get_8 buf;
        (let sz = ouch42_out_message_size type in
         if sz = 0 then Some (-1, msg, buf)
         else do {
           bs \<leftarrow> mem_load (data buf) start (unat sz);
           msg \<leftarrow> mem_store msg 0 bs;
           Some (0, msg, buffer_advance buf sz) }) })"

text \<open>The type has been taken off the buffer when the size of the whole message is: each message takes the first byte of the
  next one with it.\<close>

lemma ouch42_in_skips:
  assumes h: "holds b (m @ c # r)" and s: "sized ouch42_in_message_size m" and msg: "length m \<le> length msg"
  shows "\<exists>b'. ouch42_in_message_decode b msg = Some (0, m @ drop (length m) msg, b') \<and> holds b' r"
proof -
  obtain t m' where m: "m = t # m'" using s by (cases m) (auto simp: sized_def)
  note w = sized_whole [OF h s]
  have g: "buffer_get_8 b = Some (t, buffer_advance b 1)" using h by (simp add: m holds_get_8)
  have "holds (buffer_advance b (of_nat (Suc (length m)))) r"
    using holds_advance [OF h, of "Suc (length m)"] by simp
  with w(3,4,6) g holds_load_prefix [OF h] msg show ?thesis
    by (simp add: ouch42_in_message_decode_def Let_def m mem_store_prefix)
qed

lemma ouch42_out_skips:
  assumes h: "holds b (m @ c # r)" and s: "sized ouch42_out_message_size m" and msg: "length m \<le> length msg"
  shows "\<exists>b'. ouch42_out_message_decode b msg = Some (0, m @ drop (length m) msg, b') \<and> holds b' r"
proof -
  obtain t m' where m: "m = t # m'" using s by (cases m) (auto simp: sized_def)
  note w = sized_whole [OF h s]
  have g: "buffer_get_8 b = Some (t, buffer_advance b 1)" using h by (simp add: m holds_get_8)
  have "holds (buffer_advance b (of_nat (Suc (length m)))) r"
    using holds_advance [OF h, of "Suc (length m)"] by simp
  with w(3,4,6) g holds_load_prefix [OF h] msg show ?thesis
    by (simp add: ouch42_out_message_decode_def Let_def m mem_store_prefix)
qed
end
