(* ===== verification/Feed_Streams.thy ===== *)
theory Feed_Streams
  imports Feed_Tables Feed_Lse Feed_Session Feed_Mbt Feed_Ouch
begin

text \<open>
  What programs see of the streams of the feeds: every message once, in order, with the fields that the exchange
  sent, and an incomplete message at the end left in the buffer until the rest has come.
\<close>

text \<open>\<open>takes_wire decode got view wires struct\<close>: calling \<open>decode\<close> until there is no message takes all messages of
  a stream that is coded by the tables \<open>wires\<close>, and leaves an incomplete one alone; the program reads every field of every message by its name.\<close>

definition takes_wire :: "(buffer \<Rightarrow> ('r \<times> buffer) option) \<Rightarrow> ('r \<Rightarrow> bool) \<Rightarrow> (mem \<Rightarrow> 'r \<Rightarrow> u8 list)
    \<Rightarrow> ('t \<Rightarrow> wire) \<Rightarrow> ('t \<Rightarrow> layout) \<Rightarrow> bool" where
  "takes_wire decode got view wires struct \<longleftrightarrow>
     (\<forall>b ms p. holds b (concat (map (wire_bytes wires) ms) @ p) \<longrightarrow> (\<forall>m\<in>set ms. wire_msg wires m) \<longrightarrow>
       (p = [] \<or> (\<exists>m q. q \<noteq> [] \<and> wire_msg wires m \<and> wire_bytes wires m = p @ q)) \<longrightarrow>
       (\<exists>xs b'. drain decode got (Suc (length ms)) b = Some (xs, b')
          \<and> list_all2 (\<lambda>x m. sees wires struct (view (data b) x) m) xs ms \<and> holds b' p))"

text \<open>The same for messages that say their own length.\<close>

definition takes_frames :: "(buffer \<Rightarrow> ('r \<times> buffer) option) \<Rightarrow> ('r \<Rightarrow> bool) \<Rightarrow> (mem \<Rightarrow> 'r \<Rightarrow> u8 list \<Rightarrow> bool)
    \<Rightarrow> (u8 list \<Rightarrow> bool) \<Rightarrow> bool" where
  "takes_frames decode got hands framed \<longleftrightarrow>
     (\<forall>b ms p. holds b (concat ms @ p) \<longrightarrow> (\<forall>m\<in>set ms. framed m) \<longrightarrow> (p = [] \<or> (\<exists>q. q \<noteq> [] \<and> framed (p @ q))) \<longrightarrow>
       (\<exists>xs b'. drain decode got (Suc (length ms)) b = Some (xs, b') \<and> list_all2 (hands (data b)) xs ms \<and> holds b' p))"

lemma takes_wireI: "wire_feed decode got hands framed wires struct view \<Longrightarrow> takes_wire decode got view wires struct"
  unfolding takes_wire_def using wire_feed.takes_wire by blast

lemma lse_frames_stream: "takes_frames (with_msg lse_itch_message_decode msg) copied copy_of
    (\<lambda>m. m \<noteq> [] \<and> unat (hd m) = length m \<and> length m \<le> length msg)"
proof -
  have e: "(\<lambda>m. m \<noteq> [] \<and> unat (hd m) = length m \<and> length m \<le> length msg) =
      (\<lambda>m. sized (\<lambda>t. ucast t :: ulong) m \<and> length m \<le> length msg)"
    by (rule ext) (auto simp: sized_def unat_ucast_up)
  show ?thesis unfolding takes_frames_def e using lse_itch.drains by blast
qed

text \<open>C25: A program that takes NASDAQ TotalView-ITCH 5.0 messages off a buffer until there is none gets a pointer for each message,
  in order, and every field it reads through the pointer, with the structure of the message's type, has the value that was sent;
  what is left in the buffer is the incomplete message at the end, untouched.  What was sent is told by the table of the
  fields on the wire, with its own widths and its own byte order, and not by the decoder's sizes or structures.\<close>

theorem itch50_members:
  assumes "holds b (concat (map (wire_bytes itch50_wire) ms) @ p)" "\<forall>m\<in>set ms. wire_msg itch50_wire m"
    and "p = [] \<or> (\<exists>m q. q \<noteq> [] \<and> wire_msg itch50_wire m \<and> wire_bytes itch50_wire m = p @ q)"
  shows "\<exists>xs b'. drain itch50_message_decode (\<lambda>x. x \<noteq> None) (Suc (length ms)) b = Some (xs, b')
    \<and> list_all2 (\<lambda>x m. sees itch50_wire itch50_struct (pointed (data b) x) m) xs ms \<and> holds b' p"
  by (rule itch50_wire.takes_wire [OF assms])

text \<open>A system event and an order.\<close>

definition sample_event :: "itch50_msg_type \<times> cvalue list" where
  "sample_event = (ITCH50_MSG_SYSTEM_EVENT, [Num 83, Num 7, Num 300, Arr [0, 0, 0, 0, 1, 2], Num 79])"

definition sample_add :: "itch50_msg_type \<times> cvalue list" where
  "sample_add = (ITCH50_MSG_ADD_ORDER, [Num 65, Num 7, Num 300, Arr [0, 0, 0, 0, 1, 2], Num 99, Num 66, Num 100,
     Arr [65, 66, 67, 68, 32, 32, 32, 32], Num 12345])"

definition sample_event_bytes :: "u8 list" where
  "sample_event_bytes = [83, 0, 7, 1, 44, 0, 0, 0, 0, 1, 2, 79]"

definition sample_add_bytes :: "u8 list" where
  "sample_add_bytes = [65, 0, 7, 1, 44, 0, 0, 0, 0, 1, 2, 0, 0, 0, 0, 0, 0, 0, 99, 66, 0, 0, 0, 100, 65, 66, 67, 68, 32, 32, 32, 32,
     0, 0, 48, 57]"

lemma sample_feed: "wire_msg itch50_wire sample_event" "wire_msg itch50_wire sample_add"
  "wire_bytes itch50_wire sample_event = sample_event_bytes" "wire_bytes itch50_wire sample_add = sample_add_bytes"
  by (simp_all add: sample_event_def sample_add_def sample_event_bytes_def sample_add_bytes_def wire_msg.simps wire_bytes.simps upt_rec)

theorem itch50_members_witness:
  "\<exists>xs b'. drain itch50_message_decode (\<lambda>x. x \<noteq> None) 3 (buffer_of (sample_add_bytes @ sample_event_bytes @ [65, 0, 7]) 5) = Some (xs, b')
    \<and> list_all2 (\<lambda>x m. sees itch50_wire itch50_struct (pointed (data (buffer_of (sample_add_bytes @ sample_event_bytes @ [65, 0, 7]) 5)) x) m)
        xs [sample_add, sample_event]
    \<and> holds b' [65, 0, 7]"
proof -
  let ?b = "buffer_of (sample_add_bytes @ sample_event_bytes @ [65, 0, 7]) 5"
  have h: "holds ?b (concat (map (wire_bytes itch50_wire) [sample_add, sample_event]) @ [65, 0, 7])"
    by (simp add: sample_feed buffer_of_holds sample_add_bytes_def sample_event_bytes_def)
  have p: "[65, 0, 7] = [] \<or> (\<exists>m q. q \<noteq> [] \<and> wire_msg itch50_wire m \<and> wire_bytes itch50_wire m = [65, 0, 7] @ q)"
    by (intro disjI2 exI [of _ sample_add] exI [of _ "drop 3 sample_add_bytes"]) (simp add: sample_feed, simp add: sample_add_bytes_def)
  have "\<forall>m\<in>set [sample_add, sample_event]. wire_msg itch50_wire m" using sample_feed by simp
  from itch50_members [OF h this p] show ?thesis by (simp add: numeral_3_eq_3 del: drain.simps)
qed

text \<open>C26: Six other decoders keep that contract for streams coded by the tables of their protocols: ITCH 4.1, OMX ITCH 1.86, PITCH
  and the three daily TAQ files, whose decoders answer a pointer, and ITCH 4.0, whose decoder copies the message into a structure of the
  caller of at least 42 bytes.  LSE ITCH copies exactly the bytes of each message, which begins with its length, into a structure
  that has room for them.  None consumes a byte of an incomplete message.  (XDP is not among them, because it does, and OUCH,
  SoupBinTCP, MoldUDP64 and MBT Quote have contracts of their own.)\<close>

theorem feeds_stream:
  assumes "42 \<le> length msg"
  shows "takes_wire itch41_message_decode (\<lambda>x. x \<noteq> None) pointed itch41_wire itch41_struct
    \<and> takes_wire omx_itch186_message_decode (\<lambda>x. x \<noteq> None) pointed omx_wire omx_struct
    \<and> takes_wire (\<lambda>b. pitch_message_decode b 0) (\<lambda>x. x \<noteq> None) pointed pitch_wire pitch_struct
    \<and> takes_wire nyse_taq_msg_daily_quote_decode (\<lambda>x. x \<noteq> None) pointed (\<lambda>u :: unit. taq_quote_wire) (\<lambda>u. nyse_taq_msg_daily_quote)
    \<and> takes_wire nyse_taq_msg_daily_trade_decode (\<lambda>x. x \<noteq> None) pointed (\<lambda>u :: unit. taq_trade_wire) (\<lambda>u. nyse_taq_msg_daily_trade)
    \<and> takes_wire nyse_taq_msg_daily_nbbo_decode (\<lambda>x. x \<noteq> None) pointed (\<lambda>u :: unit. taq_nbbo_wire) (\<lambda>u. nyse_taq_msg_daily_nbbo)
    \<and> takes_wire (with_msg itch40_message_decode msg) copied (\<lambda>d x. snd x) itch40_wire itch40_struct
    \<and> takes_frames (with_msg lse_itch_message_decode msg) copied copy_of
        (\<lambda>m. m \<noteq> [] \<and> unat (hd m) = length m \<and> length m \<le> length msg)"
  by (intro conjI takes_wireI [OF itch41_wire.wire_feed_axioms] takes_wireI [OF omx_wire.wire_feed_axioms]
      takes_wireI [OF pitch_wire.wire_feed_axioms] takes_wireI [OF quote_wire.wire_feed_axioms]
      takes_wireI [OF trade_wire.wire_feed_axioms] takes_wireI [OF nbbo_wire.wire_feed_axioms]
      takes_wireI [OF itch40_wire_feed [OF assms]] lse_frames_stream)

text \<open>A structure of 64 bytes, and two messages of ITCH 4.0 with the beginning of a third.\<close>

definition sample_delete :: "itch40_msg_type \<times> cvalue list" where
  "sample_delete = (ITCH40_MSG_ORDER_DELETE, [Num 68, Num 258, Num 99])"

lemma sample_deletes: "wire_msg itch40_wire sample_delete"
  "wire_bytes itch40_wire sample_delete = [68, 0, 0, 1, 2, 0, 0, 0, 0, 0, 0, 0, 99]"
  by (simp_all add: sample_delete_def wire_msg.simps wire_bytes.simps upt_rec)

theorem feeds_stream_witness:
  "\<exists>x y b'. drain (with_msg itch40_message_decode (replicate 64 0)) copied 3
      (buffer_of (wire_bytes itch40_wire sample_delete @ wire_bytes itch40_wire sample_delete @ [68, 0]) 5) = Some ([x, y], b')
    \<and> sees itch40_wire itch40_struct (snd x) sample_delete \<and> sees itch40_wire itch40_struct (snd y) sample_delete
    \<and> holds b' [68, 0]"
proof -
  let ?b = "buffer_of (wire_bytes itch40_wire sample_delete @ wire_bytes itch40_wire sample_delete @ [68, 0]) 5"
  have h: "holds ?b (concat (map (wire_bytes itch40_wire) [sample_delete, sample_delete]) @ [68, 0])"
    by (simp add: sample_deletes buffer_of_holds)
  have p: "[68, 0] = [] \<or> (\<exists>m q. q \<noteq> [] \<and> wire_msg itch40_wire m \<and> wire_bytes itch40_wire m = [68, 0] @ q)"
    by (intro disjI2 exI [of _ sample_delete] exI [of _ "drop 2 (wire_bytes itch40_wire sample_delete)"]) (simp add: sample_deletes)
  have a: "\<forall>m\<in>set [sample_delete, sample_delete]. wire_msg itch40_wire m" by (simp add: sample_deletes)
  have t: "takes_wire (with_msg itch40_message_decode (replicate 64 0)) copied (\<lambda>d x. snd x) itch40_wire itch40_struct"
    using feeds_stream [of "replicate 64 0"] by simp
  from t [unfolded takes_wire_def, THEN spec, THEN spec, THEN spec, THEN mp, OF h, THEN mp, OF a, THEN mp, OF p]
  obtain xs b' where d: "drain (with_msg itch40_message_decode (replicate 64 0)) copied 3 ?b = Some (xs, b')"
    "list_all2 (\<lambda>x m. sees itch40_wire itch40_struct (snd x) m) xs [sample_delete, sample_delete]" "holds b' [68, 0]"
    by (simp only: numeral_3_eq_3 list.size add_0 add_0_right add_Suc_right) blast
  from d(2) obtain x y where "xs = [x, y]" by (auto simp: list_all2_Cons2)
  with d show ?thesis by auto
qed

end
