(* ===== verification/Fast_Template.thy ===== *)
theory Fast_Template
  imports Fast_Roundtrip
begin

text \<open>
  FAST templates (lib/proto/fast_template.c) and the construction of sessions (fast_session.c): how an XML
  document becomes the messages of a session.  libxml2 is not part of the program; what the code reads of it is
  the tree of nodes below, which stands for the parsed document.  The allocations of fields succeed.  \<open>Inl ()\<close> is a
  nonzero return: the callers then free the session, and what has been written to it by then is not kept.
  The hash table \<open>ghtab\<close> of a message is filled here with its named fields and never changes; it is not state
  of its own, \<open>fast_get_field\<close> looks among the fields.
\<close>

subsection \<open>The document\<close>

text \<open>A node is an element with its name, attributes and children, or something else (text, a comment).\<close>

datatype xml = Element string "(string \<times> string) list" "xml list" | Other

fun is_element :: "xml \<Rightarrow> bool" where
  "is_element (Element nm ps ns) = True"
| "is_element Other = False"

fun xml_name :: "xml \<Rightarrow> string" where
  "xml_name (Element nm ps ns) = nm"
| "xml_name Other = []"

fun xmlGetProp :: "xml \<Rightarrow> string \<Rightarrow> string option" where
  "xmlGetProp (Element nm ps ns) p = map_of ps p"
| "xmlGetProp Other p = None"

fun xml_children :: "xml \<Rightarrow> xml list" where
  "xml_children (Element nm ps ns) = ns"
| "xml_children Other = []"

definition xmlChildElementCount :: "xml \<Rightarrow> nat" where
  "xmlChildElementCount n = length (filter is_element (xml_children n))"

text \<open>\<open>while (node && node->type != XML_ELEMENT_NODE) node = node->next;\<close>: the first element, and its
  siblings after it.\<close>

definition next_element :: "xml list \<Rightarrow> xml list" where
  "next_element ns = dropWhile (\<lambda>n. \<not> is_element n) ns"

definition first_element :: "xml list \<Rightarrow> xml option" where
  "first_element ns = (case next_element ns of [] \<Rightarrow> None | n # _ \<Rightarrow> Some n)"

subsection \<open>The C library\<close>

definition c_isdigit :: "u8 \<Rightarrow> bool" where
  "c_isdigit c \<longleftrightarrow> 48 \<le> c \<and> c \<le> 57"

definition c_isspace :: "u8 \<Rightarrow> bool" where
  "c_isspace c \<longleftrightarrow> c = 32 \<or> 9 \<le> c \<and> c \<le> 13"

definition c_isblank :: "u8 \<Rightarrow> bool" where
  "c_isblank c \<longleftrightarrow> c = 32 \<or> c = 9"

definition digits_value :: "u8 list \<Rightarrow> nat" where
  "digits_value cs = foldl (\<lambda>v c. 10 * v + (unat c - 48)) 0 (takeWhile c_isdigit cs)"

text \<open>Sign and magnitude of a decimal numeral.\<close>

fun c_numeral :: "u8 list \<Rightarrow> bool \<times> nat" where
  "c_numeral [] = (False, 0)"
| "c_numeral (c # cs) =
     (if c_isspace c then c_numeral cs
      else if c = 45 then (True, digits_value cs)
      else if c = 43 then (False, digits_value cs)
      else (False, digits_value (c # cs)))"

definition strtol :: "u8 list \<Rightarrow> i64" where
  "strtol cs =
     (let (neg, v) = c_numeral cs in
      if neg then (if 2 ^ 63 \<le> v then - (2 ^ 63) else - of_nat v)
      else if 2 ^ 63 \<le> v then 2 ^ 63 - 1 else of_nat v)"

definition strtoul :: "u8 list \<Rightarrow> u64" where
  "strtoul cs =
     (let (neg, v) = c_numeral cs in
      if 2 ^ 64 \<le> v then - 1 else if neg then - of_nat v else of_nat v)"

definition atoi :: "u8 list \<Rightarrow> i32" where
  "atoi cs = ucast (strtol cs)"

definition hex_digit :: "u8 \<Rightarrow> u32 option" where
  "hex_digit c =
     (if c_isdigit c then Some (ucast c - 48)
      else if 65 \<le> c \<and> c \<le> 70 then Some (ucast c - 55)
      else if 97 \<le> c \<and> c \<le> 102 then Some (ucast c - 87)
      else None)"

text \<open>\<open>sscanf(in, "%02X", &hex)\<close>: white space, then at most two characters of a hexadecimal numeral.\<close>

fun sscanf_02X :: "u8 list \<Rightarrow> u32 option" where
  "sscanf_02X [] = None"
| "sscanf_02X (c # cs) =
     (if c_isspace c then sscanf_02X cs
      else if c = 43 then (case cs of [] \<Rightarrow> None | d # _ \<Rightarrow> hex_digit d)
      else if c = 45 then (case cs of [] \<Rightarrow> None | d # _ \<Rightarrow> map_option uminus (hex_digit d))
      else case hex_digit c of
        None \<Rightarrow> None
      | Some x \<Rightarrow> (case cs of [] \<Rightarrow> Some x
          | d # _ \<Rightarrow> (case hex_digit d of None \<Rightarrow> Some x | Some y \<Rightarrow> Some (16 * x + y))))"

text \<open>\<open>strcpy\<close> to the start of an array.\<close>

definition strcpy :: "mem \<Rightarrow> u8 list \<Rightarrow> mem option" where
  "strcpy to s = mem_store to 0 (s @ [0])"

subsection \<open>Fields\<close>

definition zero_scalar :: fast_scalar where
  "zero_scalar = \<lparr>f_presence = FAST_PRESENCE_OPTIONAL, f_op = FAST_OP_NONE, f_state = FAST_STATE_UNDEFINED,
     f_state_previous = FAST_STATE_UNDEFINED, f_has_reset = False, int_value = 0, int_reset = 0, int_previous = 0\<rparr>"

text \<open>What \<open>calloc\<close> gives.\<close>

definition zero_field :: seq_field where
  "zero_field = fast_field.extend (fast_scalar.extend zero_scalar
     \<lparr>f_type = FAST_TYPE_INT, f_flags = 0, f_name = [], f_id = 0,
      string_value = replicate 256 0, string_reset = replicate 256 0, string_previous = replicate 256 0,
      vector_value = replicate 256 0, vector_reset = replicate 256 0, vector_previous = replicate 256 0,
      decimal_value = \<lparr>dec_exp = 0, dec_mnt = 0\<rparr>, decimal_reset = \<lparr>dec_exp = 0, dec_mnt = 0\<rparr>,
      decimal_previous = \<lparr>dec_exp = 0, dec_mnt = 0\<rparr>, decimal_fields = None\<rparr>) \<lparr>ptr_value = None\<rparr>"

type_synonym 'f inits = "(unit + 'f) option"

definition fast_type_init :: "xml \<Rightarrow> seq_field \<Rightarrow> unit + seq_field" where
  "fast_type_init node f =
     (let nm = xml_name node; to = (\<lambda>t. Inr (f\<lparr>f_type := t\<rparr>)) in
      if nm \<in> {''int32'', ''int64''} then to FAST_TYPE_INT
      else if nm \<in> {''uInt32'', ''uInt64''} then to FAST_TYPE_UINT
      else if nm \<in> {''length'', ''Length''} then to FAST_TYPE_UINT
      else if nm \<in> {''string'', ''String''} then to FAST_TYPE_STRING
      else if nm \<in> {''decimal'', ''Decimal''} then to FAST_TYPE_DECIMAL
      else if nm \<in> {''sequence'', ''Sequence''} then to FAST_TYPE_SEQUENCE
      else if nm \<in> {''exponent'', ''Exponent''} then to FAST_TYPE_INT
      else if nm \<in> {''mantissa'', ''Mantissa''} then to FAST_TYPE_INT
      else if nm \<in> {''bytevector'', ''byteVector''} then to FAST_TYPE_VECTOR
      else Inl ())"

definition fast_presence_init :: "xml \<Rightarrow> seq_field \<Rightarrow> unit + seq_field" where
  "fast_presence_init node f =
     (case xmlGetProp node ''presence'' of
        None \<Rightarrow> Inr (f\<lparr>f_presence := FAST_PRESENCE_MANDATORY\<rparr>)
      | Some v \<Rightarrow>
          if v = ''mandatory'' then Inr (f\<lparr>f_presence := FAST_PRESENCE_MANDATORY\<rparr>)
          else if v = ''optional'' then Inr (f\<lparr>f_presence := FAST_PRESENCE_OPTIONAL\<rparr>)
          else Inl ())"

text \<open>\<open>strncpy\<close> fills the 32 bytes of \<open>name\<close>; a name of 32 characters or more is cut and not terminated.\<close>

definition fast_misc_init :: "xml \<Rightarrow> seq_field \<Rightarrow> seq_field" where
  "fast_misc_init node f =
     (let f = (if xmlGetProp node ''charset'' = Some ''unicode'' then field_add_flags f FAST_FIELD_FLAGS_UNICODE else f);
          f = (case xmlGetProp node ''name'' of None \<Rightarrow> f | Some v \<Rightarrow> f\<lparr>f_name := take 32 v\<rparr>)
      in case xmlGetProp node ''id'' of None \<Rightarrow> f | Some v \<Rightarrow> f\<lparr>f_id := atoi (chars v)\<rparr>)"

definition fast_op_init :: "xml option \<Rightarrow> seq_field \<Rightarrow> unit + seq_field" where
  "fast_op_init node f =
     (case node of
        None \<Rightarrow> Inr (f\<lparr>f_op := FAST_OP_NONE\<rparr>)
      | Some n \<Rightarrow>
          (let nm = xml_name n; to = (\<lambda>p. Inr (f\<lparr>f_op := p\<rparr>)) in
           if nm = ''copy'' then to FAST_OP_COPY
           else if nm = ''delta'' then to FAST_OP_DELTA
           else if nm = ''default'' then to FAST_OP_DEFAULT
           else if nm = ''constant'' then to FAST_OP_CONSTANT
           else if nm = ''increment'' then to FAST_OP_INCR
           else Inl ()))"

text \<open>The loop of \<open>fast_vector_init\<close>: one round takes two characters.  After an odd one it goes on behind the
  end of the string.\<close>

fun fast_vector_init :: "u8 list \<Rightarrow> mem \<Rightarrow> nat \<Rightarrow> mem inits" where
  "fast_vector_init [] out i = Some (Inr out)"
| "fast_vector_init (c # cs) out i =
     (if c_isblank c then fast_vector_init cs out i
      else case sscanf_02X (c # cs) of
        None \<Rightarrow> Some (Inl ())
      | Some hex \<Rightarrow> do {
          out \<leftarrow> mem_put out (int i) (ucast hex);
          (case cs of [] \<Rightarrow> None | d # cs' \<Rightarrow> fast_vector_init cs' out (i + 1)) })"

definition fast_reset_init :: "xml option \<Rightarrow> seq_field \<Rightarrow> seq_field inits" where
  "fast_reset_init node f =
     (let f = f\<lparr>f_has_reset := False\<rparr>;
          prop = (case node of None \<Rightarrow> None | Some n \<Rightarrow> xmlGetProp n ''value'')
      in case f_type f of
        FAST_TYPE_INT \<Rightarrow>
          (case prop of
             None \<Rightarrow> Some (Inr (f\<lparr>int_value := 0, int_previous := 0\<rparr>))
           | Some v \<Rightarrow> (let x = strtol (chars v) in
               Some (Inr (f\<lparr>f_has_reset := True, int_reset := x, int_value := x, int_previous := x\<rparr>))))
      | FAST_TYPE_UINT \<Rightarrow>
          (case prop of
             None \<Rightarrow> Some (Inr (f\<lparr>int_value := 0, int_previous := 0\<rparr>))
           | Some v \<Rightarrow> (let x = strtoul (chars v) in
               Some (Inr (f\<lparr>f_has_reset := True, int_reset := x, int_value := x, int_previous := x\<rparr>))))
      | FAST_TYPE_STRING \<Rightarrow> do {
          m \<leftarrow> mem_put (string_value f) 0 0;
          w \<leftarrow> mem_put (string_previous f) 0 0;
          (case prop of
             None \<Rightarrow> Some (Inr (f\<lparr>string_value := m, string_previous := w\<rparr>))
           | Some v \<Rightarrow> do {
               r \<leftarrow> strcpy (string_reset f) (chars v);
               m \<leftarrow> strcpy m (chars v);
               w \<leftarrow> strcpy w (chars v);
               Some (Inr (f\<lparr>f_has_reset := True, string_reset := r, string_value := m, string_previous := w\<rparr>)) }) }
      | FAST_TYPE_VECTOR \<Rightarrow>
          (let z = replicate 256 0; f = f\<lparr>vector_value := z, vector_previous := z\<rparr> in
           case prop of
             None \<Rightarrow> Some (Inr f)
           | Some v \<Rightarrow> do {
               r \<leftarrow> fast_vector_init (chars v) (vector_reset f) 0;
               (case r of
                  Inl e \<Rightarrow> Some (Inl e)
                | Inr m \<Rightarrow> Some (Inr (f\<lparr>f_has_reset := True, vector_reset := m, vector_value := m,
                    vector_previous := m\<rparr>))) })
      | FAST_TYPE_DECIMAL \<Rightarrow>
          (let z = \<lparr>dec_exp = 0, dec_mnt = 0\<rparr> in Some (Inr (f\<lparr>decimal_value := z, decimal_previous := z\<rparr>)))
      | FAST_TYPE_SEQUENCE \<Rightarrow> Some (Inl ()))"

subsection \<open>Scalars and decimals\<close>

text \<open>\<open>fast_field_init\<close> up to its \<open>switch\<close>.\<close>

definition field_head :: "xml \<Rightarrow> seq_field \<Rightarrow> unit + seq_field" where
  "field_head node f =
     (case fast_type_init node (f\<lparr>f_state := FAST_STATE_UNDEFINED\<rparr>) of
        Inl e \<Rightarrow> Inl e
      | Inr f \<Rightarrow> (case fast_presence_init node f of
          Inl e \<Rightarrow> Inl e
        | Inr f \<Rightarrow> Inr (fast_misc_init node f)))"

text \<open>The operator and its value; also what \<open>fast_decimal_init_atomic\<close> does.\<close>

definition field_value_init :: "xml \<Rightarrow> seq_field \<Rightarrow> seq_field inits" where
  "field_value_init node f =
     (let n = first_element (xml_children node) in
      case fast_op_init n f of
        Inl e \<Rightarrow> Some (Inl e)
      | Inr f \<Rightarrow> fast_reset_init n f)"

text \<open>The exponent or the mantissa, whose type is always \<open>FAST_TYPE_INT\<close>; of the sub-field only its scalar
  part is used.\<close>

definition decimal_part_init :: "xml \<Rightarrow> fast_scalar inits" where
  "decimal_part_init node =
     (case field_head node zero_field of
        Inl e \<Rightarrow> Some (Inl e)
      | Inr f \<Rightarrow> do {
          r \<leftarrow> field_value_init node f;
          (case r of Inl e \<Rightarrow> Some (Inl e) | Inr f \<Rightarrow> Some (Inr (fast_scalar.truncate f))) })"

text \<open>The loop of \<open>fast_decimal_init_individ\<close>; \<open>ok\<close> says whether \<open>ret\<close> is 0.\<close>

fun decimal_parts_loop :: "xml list \<Rightarrow> bool \<Rightarrow> fast_scalar \<Rightarrow> fast_scalar \<Rightarrow> (fast_scalar \<times> fast_scalar) inits" where
  "decimal_parts_loop [] ok ex mn = Some (if ok then Inr (ex, mn) else Inl ())"
| "decimal_parts_loop (n # ns) ok ex mn =
     (if \<not> is_element n then decimal_parts_loop ns ok ex mn
      else if xml_name n = ''exponent'' then do {
        r \<leftarrow> decimal_part_init n;
        (case r of Inl e \<Rightarrow> Some (Inl e) | Inr ex \<Rightarrow> decimal_parts_loop ns True ex mn) }
      else if xml_name n = ''mantissa'' then do {
        r \<leftarrow> decimal_part_init n;
        (case r of Inl e \<Rightarrow> Some (Inl e) | Inr mn \<Rightarrow> decimal_parts_loop ns True ex mn) }
      else Some (Inl ()))"

text \<open>The flag and the presence of the exponent are also set when there was no element at all (\<open>ret\<close> is then
  nonzero, and the field is dropped).\<close>

definition fast_decimal_init_individ :: "xml \<Rightarrow> seq_field \<Rightarrow> seq_field inits" where
  "fast_decimal_init_individ node f = do {
     r \<leftarrow> decimal_parts_loop (xml_children node) False zero_scalar zero_scalar;
     (case r of
        Inl e \<Rightarrow> Some (Inl e)
      | Inr (ex, mn) \<Rightarrow> Some (Inr ((field_add_flags f FAST_FIELD_FLAGS_DECIMAL_INDIVID)
          \<lparr>decimal_fields := Some (ex\<lparr>f_presence := f_presence f\<rparr>, mn)\<rparr>))) }"

text \<open>When the atomic form fails on the operator the field is as before; it cannot fail later.\<close>

definition fast_decimal_init :: "xml \<Rightarrow> seq_field \<Rightarrow> seq_field inits" where
  "fast_decimal_init node f = do {
     r \<leftarrow> field_value_init node f;
     (case r of Inr f \<Rightarrow> Some (Inr f) | Inl e \<Rightarrow> fast_decimal_init_individ node f) }"

subsection \<open>Sequences and messages\<close>

text \<open>\<open>strlen(field->name)\<close> needs the terminating NUL.\<close>

definition named :: "seq_field \<Rightarrow> seq_field option" where
  "named f = (if length (f_name f) < 32 then Some f else None)"

text \<open>Of a sequence inside a sequence the elements are not kept: the decoder refuses such a field.  Every one
  of the 128 elements is initialised from the same nodes to the same fields; \<open>nr_fields\<close> of the sequence counts
  all element children, so that the array has one field too many, the length.\<close>

definition seq_element :: "seq_field list \<Rightarrow> fast_field fast_message" where
  "seq_element fs = \<lparr>nr_fields = of_nat (length fs), m_decoded = 0,
     m_fields = map fast_field.truncate (fs @ [zero_field]), m_name = [], m_flags = 0, m_tid = 0\<rparr>"

definition sequence_of :: "seq_field \<Rightarrow> seq_field \<Rightarrow> seq_field list \<Rightarrow> seq_field" where
  "sequence_of f len fs =
     (let len = (if field_is_mandatory f then len else len\<lparr>f_presence := FAST_PRESENCE_OPTIONAL\<rparr>);
          f = (if list_ex pmap_required fs then field_add_flags f FAST_FIELD_FLAGS_PMAPREQ else f)
      in f\<lparr>ptr_value := Some \<lparr>seq_pmap = \<lparr>is_valid = False, pmap_bit = 0, nr_bytes = 0, pmap_bytes = replicate 8 0\<rparr>,
           seq_decoded = 0, seq_length = fast_scalar.truncate len,
           seq_elements = replicate (unat FAST_SEQUENCE_ELEMENTS) (seq_element fs)\<rparr>\<rparr>)"

text \<open>The \<open>length\<close> of a sequence: an unsigned integer.\<close>

definition length_init :: "xml \<Rightarrow> seq_field inits" where
  "length_init node =
     (case field_head node zero_field of Inl e \<Rightarrow> Some (Inl e) | Inr f \<Rightarrow> field_value_init node f)"

lemma next_element_size: "next_element ns = n # ns' \<Longrightarrow> size_list size ns' < size_list size ns"
  by (induction ns) (auto simp: next_element_def split: if_splits)

function (sequential) fast_field_init :: "xml \<Rightarrow> seq_field inits"
  and fast_fields_init :: "xml list \<Rightarrow> seq_field list inits" where
  "fast_field_init Other = Some (Inl ())"
| "fast_field_init (Element nm ps ns) =
     (let node = Element nm ps ns in
      case field_head node zero_field of
        Inl e \<Rightarrow> Some (Inl e)
      | Inr f \<Rightarrow>
          (if f_type f = FAST_TYPE_DECIMAL then fast_decimal_init node f
           else if f_type f = FAST_TYPE_SEQUENCE then
             (case next_element ns of
                [] \<Rightarrow> Some (Inl ())
              | n # ns' \<Rightarrow>
                  if xml_name n \<noteq> ''length'' then Some (Inl ())
                  else do {
                    r \<leftarrow> length_init n;
                    (case r of
                       Inl e \<Rightarrow> Some (Inl e)
                     | Inr len \<Rightarrow> do {
                         r \<leftarrow> fast_fields_init ns';
                         (case r of Inl e \<Rightarrow> Some (Inl e) | Inr fs \<Rightarrow> Some (Inr (sequence_of f len fs))) }) })
           else field_value_init node f))"
| "fast_fields_init [] = Some (Inr [])"
| "fast_fields_init (n # ns) =
     (if \<not> is_element n then fast_fields_init ns
      else do {
        r \<leftarrow> fast_field_init n;
        (case r of
           Inl e \<Rightarrow> Some (Inl e)
         | Inr f \<Rightarrow> do {
             f \<leftarrow> named f;
             r \<leftarrow> fast_fields_init ns;
             (case r of Inl e \<Rightarrow> Some (Inl e) | Inr fs \<Rightarrow> Some (Inr (f # fs))) }) })"
  by pat_completeness auto
termination
  by (relation "measure (case_sum size (size_list size))") (auto dest: next_element_size)

definition zero_message :: "seq_field fast_message" where
  "zero_message = \<lparr>nr_fields = 0, m_decoded = 0, m_fields = [], m_name = [], m_flags = 0, m_tid = 0\<rparr>"

definition FAST_MSG_FLAGS_RESET :: i32 where "FAST_MSG_FLAGS_RESET = 1"

definition fast_message_init :: "xml \<Rightarrow> seq_field fast_message \<Rightarrow> seq_field fast_message inits" where
  "fast_message_init node msg =
     (if xml_name node \<noteq> ''template'' then Some (Inl ())
      else let
        tid = (case xmlGetProp node ''id'' of Some v \<Rightarrow> strtol (chars v) | None \<Rightarrow> 0);
        nm = (case xmlGetProp node ''name'' of Some v \<Rightarrow> take 32 v | None \<Rightarrow> []);
        msg = msg\<lparr>m_tid := tid, m_name := nm\<rparr>;
        msg = (if xmlGetProp node ''reset'' = Some ''T'' then fast_msg_add_flags msg FAST_MSG_FLAGS_RESET else msg)
      in do {
        r \<leftarrow> fast_fields_init (xml_children node);
        (case r of
           Inl e \<Rightarrow> Some (Inl e)
         | Inr fs \<Rightarrow> Some (Inr (msg\<lparr>nr_fields := of_nat (length fs), m_fields := fs\<rparr>))) })"

text \<open>\<open>fast_get_field\<close>: a later field replaces an earlier one of the same name in the table.\<close>

definition fast_get_field :: "('a fast_field_scheme) fast_message \<Rightarrow> string \<Rightarrow> 'a fast_field_scheme option" where
  "fast_get_field msg nm =
     (if nm = [] then None else find (\<lambda>f. f_name f = nm) (rev (take (unat (nr_fields msg)) (m_fields msg))))"

subsection \<open>Sessions\<close>

fun parse_template_loop :: "fast_session \<Rightarrow> xml list \<Rightarrow> fast_session inits" where
  "parse_template_loop s [] = Some (Inr s)"
| "parse_template_loop s (n # ns) =
     (if \<not> is_element n then parse_template_loop s ns
      else let i = sint (nr_messages s) in do {
        msg \<leftarrow> mem_get (rx_messages s) i;
        r \<leftarrow> fast_message_init n msg;
        (case r of
           Inl e \<Rightarrow> Some (Inl e)
         | Inr msg \<Rightarrow> do {
             ms \<leftarrow> mem_put (rx_messages s) i msg;
             parse_template_loop (s\<lparr>rx_messages := ms, nr_messages := nr_messages s + 1\<rparr>) ns }) })"

text \<open>\<open>doc\<close> is the root of the parsed file, \<open>None\<close> if there is none.\<close>

definition fast_parse_template :: "fast_session \<Rightarrow> xml option \<Rightarrow> fast_session inits" where
  "fast_parse_template s doc =
     (case doc of
        None \<Rightarrow> Some (Inl ())
      | Some node \<Rightarrow>
          if xml_name node \<noteq> ''templates'' then Some (Inl ())
          else if FAST_TEMPLATE_MAX_NUMBER < xmlChildElementCount node then Some (Inl ())
          else parse_template_loop s (xml_children node))"

record fast_session_cfg =
  preamble_bytes :: i32
  cfg_reset :: bool

definition FAST_PREAMBLE_MAX_BYTES :: i32 where "FAST_PREAMBLE_MAX_BYTES = 8"
definition FAST_RECV_BUFFER_SIZE :: ulong where "FAST_RECV_BUFFER_SIZE = 2 * FAST_MESSAGE_MAX_SIZE"
definition FAST_TX_BUFFER_SIZE :: ulong where "FAST_TX_BUFFER_SIZE = 2 * FAST_MESSAGE_MAX_SIZE"

text \<open>\<open>stat\<close> says whether \<open>fstat\<close> succeeds.  The function pointers \<open>recv\<close> and \<open>send\<close> are arguments of the
  operations that use them.\<close>

definition fast_session_new :: "(ulong \<Rightarrow> mem option) \<Rightarrow> fast_session_cfg \<Rightarrow> bool \<Rightarrow> fast_session option" where
  "fast_session_new malloc cfg stat = do {
     rx \<leftarrow> buffer_new malloc FAST_RECV_BUFFER_SIZE;
     tx \<leftarrow> buffer_new malloc FAST_TX_BUFFER_SIZE;
     txp \<leftarrow> buffer_new malloc FAST_TX_BUFFER_SIZE;
     (if FAST_PREAMBLE_MAX_BYTES <s preamble_bytes cfg then None
      else if \<not> stat then None
      else Some \<lparr>last_tid = 0, rx_buffer = rx, tx_pmap_buffer = txp, tx_message_buffer = tx,
        nr_messages = 0, rx_message = None, rx_messages = replicate FAST_TEMPLATE_MAX_NUMBER zero_message,
        s_preamble = \<lparr>pre_is_valid = False, pre_nr_bytes = scast (preamble_bytes cfg), pre_bytes = replicate 8 0\<rparr>,
        s_pmap = \<lparr>is_valid = False, pmap_bit = 0, nr_bytes = 0, pmap_bytes = replicate 8 0\<rparr>,
        s_reset = cfg_reset cfg\<rparr>) }"

text \<open>A session for a file of templates, as the programs make it: \<open>None\<close> if one of the two steps fails.\<close>

definition session_of :: "(ulong \<Rightarrow> mem option) \<Rightarrow> fast_session_cfg \<Rightarrow> xml option \<Rightarrow> fast_session option" where
  "session_of malloc cfg doc = do {
     s \<leftarrow> fast_session_new malloc cfg True;
     r \<leftarrow> fast_parse_template s doc;
     (case r of Inl e \<Rightarrow> None | Inr s \<Rightarrow> Some s) }"

end
