(* ===== verification/Fast_Safe.thy ===== *)
theory Fast_Safe
  imports Fast_Template
begin

text \<open>
  Type safety of the FAST decoder.  A session made from a document of templates is well typed: its messages and
  sequences have the fields they say, their arrays have their sizes, and every string has a place for its end.
  On a well-typed session the decoder returns on any bytes, without an access outside an object, and the session is
  well typed again; so it is however the bytes arrive.  Fields with a length on the wire (Unicode strings
  and byte vectors) are left out: their length is not checked.
\<close>

subsection \<open>Reading the stream\<close>

text \<open>The buffer after some bytes have been taken.\<close>

definition moved :: "buffer \<Rightarrow> buffer \<Rightarrow> bool" where
  "moved b b' \<longleftrightarrow> buffer_wf b' \<and> unat (b_start b) \<le> unat (b_start b') \<and> b_end b' = b_end b
     \<and> capacity b' = capacity b \<and> data b' = data b"

lemma moved_refl [intro]: "buffer_wf b \<Longrightarrow> moved b b"
  by (simp add: moved_def)

lemma moved_trans [trans]: "moved a b \<Longrightarrow> moved b c \<Longrightarrow> moved a c"
  by (auto simp: moved_def)

lemma moved_wf [dest]: "moved a b \<Longrightarrow> buffer_wf b"
  by (simp add: moved_def)

text \<open>Taking the input back.\<close>

lemma rewind_moved:
  assumes "moved a b" "moved b c"
  shows "moved a (buffer_rewind c (buffer_start b))"
proof -
  have "b_start (buffer_rewind c (buffer_start b)) = b_start b"
    by (simp add: buffer_rewind_def buffer_advance_def buffer_start_def)
  moreover have "data (buffer_rewind c (buffer_start b)) = data c" "b_end (buffer_rewind c (buffer_start b)) = b_end c"
    "capacity (buffer_rewind c (buffer_start b)) = capacity c"
    by (simp_all add: buffer_rewind_def buffer_advance_def)
  ultimately show ?thesis using assms by (auto simp: moved_def buffer_wf_def)
qed

lemma get_8_moved:
  assumes "buffer_wf b" "buffer_size b \<noteq> 0"
  shows "\<exists>c b'. buffer_get_8 b = Some (c, b') \<and> moved b b'"
proof -
  have h: "holds b (buf_bytes b)" using assms(1) by (rule holdsI)
  with assms(2) obtain c cs where cs: "buf_bytes b = c # cs" using holds_size_0 [OF h] by (cases "buf_bytes b") auto
  with h have h': "holds b (c # cs)" by simp
  from holds_advance_1 [OF this] have "buffer_wf (buffer_advance b 1)" by blast
  moreover have "unat (b_start b) < unat (b_end b)"
    using holds_length [OF h'] assms(1) by (auto simp: buffer_wf_def)
  then have "unat (b_start b) \<le> unat (b_start (buffer_advance b 1))"
    using unat_plus_1 [of "b_start b" "b_end b"] by (simp add: buffer_advance_def)
  ultimately show ?thesis
    using holds_get_8 [OF h'] by (auto simp: moved_def buffer_advance_def)
qed

lemma parse_stop_loop_safe: "buffer_wf b \<Longrightarrow> \<exists>r b'. parse_stop_loop n b v = Some (r, b') \<and> moved b b'"
proof (induction n arbitrary: b v)
  case (Suc n)
  show ?case
  proof (cases "buffer_size b = 0")
    case False
    with Suc.prems get_8_moved obtain c b1 where c: "buffer_get_8 b = Some (c, b1)" "moved b b1" by blast
    then have "buffer_wf b1" by blast
    from Suc.IH [OF this] obtain r b2 where
      "parse_stop_loop n b1 (push_bit 7 v OR ucast c) = Some (r, b2)" "moved b1 b2" by blast
    with c moved_trans [OF c(2)] show ?thesis using False by auto
  qed (use Suc.prems in auto)
qed auto

lemma parse_uint_safe: "buffer_wf b \<Longrightarrow> \<exists>r b'. parse_uint b = Some (r, b') \<and> moved b b'"
  unfolding parse_uint_def by (rule parse_stop_loop_safe)

lemma parse_int_safe: "buffer_wf b \<Longrightarrow> \<exists>r b'. parse_int b = Some (r, b') \<and> moved b b'"
proof (cases "buffer_size b = 0")
  case False
  assume b: "buffer_wf b"
  with get_8_moved [OF b False] obtain c where "buffer_peek_8 b = Some c"
    by (auto simp: buffer_get_8_def split: bind_splits)
  with False show ?thesis using parse_stop_loop_safe [OF b] by (simp add: parse_int_def)
qed (auto simp: parse_int_def)

text \<open>A string array: 256 bytes, the last of which stays 0.\<close>

definition string_ok :: "mem \<Rightarrow> bool" where
  "string_ok m \<longleftrightarrow> length m = 256 \<and> m ! 255 = 0"

lemma string_ok_strlen: "string_ok m \<Longrightarrow> \<exists>n. c_strlen m = Some n \<and> n < 256"
proof -
  assume m: "string_ok m"
  then have "0 \<in> set m" using nth_mem [of 255 m] by (auto simp: string_ok_def)
  then have "c_strlen m \<noteq> None" by (induction m) auto
  with m show ?thesis using c_strlen_less [of m] by (auto simp: string_ok_def)
qed

lemma string_ok_put: "string_ok m \<Longrightarrow> i < 255 \<or> i = 255 \<and> c = 0 \<Longrightarrow> \<exists>m'. mem_put m (int i) c = Some m' \<and> string_ok m'"
  by (auto simp: mem_put_def string_ok_def nth_list_update)

lemma string_ok_store:
  assumes "string_ok m" "i + length xs \<le> 255 \<or> i + length xs = 256 \<and> xs \<noteq> [] \<and> last xs = 0"
  shows "\<exists>m'. mem_store m (int i) xs = Some m' \<and> string_ok m'"
proof -
  have l: "i + length xs \<le> length m" using assms by (auto simp: string_ok_def)
  have "splice m i xs ! 255 = 0"
  proof (cases "i + length xs \<le> 255")
    case False
    with assms have "i + length xs = 256" "xs \<noteq> []" "last xs = 0" by auto
    then have "255 = i + (length xs - 1)" "length xs - 1 < length xs" by (auto simp: Suc_le_eq)
    from splice_nth [OF this(2) l] this(1) \<open>last xs = 0\<close> \<open>xs \<noteq> []\<close> show ?thesis by (simp add: last_conv_nth)
  qed (use assms in \<open>auto simp: splice_def string_ok_def nth_append\<close>)
  with l assms show ?thesis by (simp add: mem_store_splice string_ok_def)
qed

lemma parse_string_loop_safe:
  "buffer_wf b \<Longrightarrow> (sz = 256 \<and> string_ok m) \<or> (unat sz \<le> 32 \<and> length m = unat sz \<and> 0 < sz \<and> m ! (unat sz - 1) = 0) \<Longrightarrow>
     \<exists>r m' b'. parse_string_loop b m sz n = Some (r, m', b') \<and> moved b b' \<and> length m' = length m
       \<and> m' ! (unat sz - 1) = 0"
proof (induction b m sz n rule: parse_string_loop.induct)
  case (1 b m sz n)
  have l: "length m = unat sz" "m ! (unat sz - 1) = 0" "0 < unat sz"
    using "1.prems"(2) by (auto simp: string_ok_def word_less_nat_alt)
  have u: "unat (sz - 1) = unat sz - 1" using l(3) by (simp add: unat_minus_one unat_eq_zero_iff [symmetric])
  show ?case
  proof (cases "n < unat (sz - 1)")
    case True
    show ?thesis
    proof (cases "buffer_size b = 0")
      case False
      from get_8_moved [OF "1.prems"(1) False] obtain c b1 where c: "buffer_get_8 b = Some (c, b1)" "moved b b1" by blast
      have n1: "n < unat sz - 1" using True u by simp
      have p1: "mem_put m (int n) x = Some (m[n := x])" for x using n1 l by (simp add: mem_put_Some)
      have p2: "mem_put (m[n := x]) (int (n + 1)) 0 = Some (m[n := x, Suc n := 0])" for x
        using n1 l mem_put_Some [of "n + 1" "m[n := x]" 0] by simp
      show ?thesis
      proof (cases "c AND 0x80 \<noteq> 0")
        case True
        then show ?thesis using False \<open>n < unat (sz - 1)\<close> c p1 [of "c AND 0x7F"] p2 [of "c AND 0x7F"] l n1
          by (subst parse_string_loop.simps) (auto simp: nth_list_update)
      next
        case stop: False
        have ok: "(sz = 256 \<and> string_ok (m[n := c])) \<or> (unat sz \<le> 32 \<and> length (m[n := c]) = unat sz \<and> 0 < sz \<and> m[n := c] ! (unat sz - 1) = 0)"
          using "1.prems"(2) n1 by (auto simp: string_ok_def)
        from "1.IH" [OF True False c(1) refl _ p1 moved_wf [OF c(2)] ok] stop obtain r m' b' where
          "parse_string_loop b1 (m[n := c]) sz (n + 1) = Some (r, m', b')" "moved b1 b'" "length m' = length (m[n := c])"
          "m' ! (unat sz - 1) = 0" by auto
        with moved_trans [OF c(2)] show ?thesis using False \<open>n < unat (sz - 1)\<close> c p1 [of c] stop
          by (subst parse_string_loop.simps) auto
      qed
    qed (use True l "1.prems" in \<open>subst parse_string_loop.simps, auto\<close>)
  qed (use l "1.prems" in \<open>subst parse_string_loop.simps, auto\<close>)
qed

lemma parse_string_256:
  assumes "buffer_wf b" "string_ok m"
  shows "\<exists>r m' b'. parse_string b m 256 = Some (r, m', b') \<and> moved b b' \<and> string_ok m'"
  using parse_string_loop_safe [of b 256 m 0] assms by (auto simp: parse_string_def string_ok_def)

lemma parse_string_32:
  assumes "buffer_wf b"
  shows "\<exists>r m' b'. parse_string b (replicate 32 0) 32 = Some (r, m', b') \<and> moved b b' \<and> length m' = 32 \<and> m' ! 31 = 0"
  using parse_string_loop_safe [of b 32 "replicate 32 0" 0] assms by (auto simp: parse_string_def)

lemma parse_pmap_loop_safe:
  "buffer_wf b \<Longrightarrow> pmap_wf p \<Longrightarrow> \<exists>r p' b'. parse_pmap_loop b p = Some (r, p', b') \<and> moved b b' \<and> pmap_wf p'"
proof (induction b p rule: parse_pmap_loop.induct)
  case (1 b p)
  show ?case
  proof (cases "nr_bytes p < FAST_PMAP_MAX_BYTES \<and> buffer_size b \<noteq> 0")
    case True
    then have n: "nr_bytes p < FAST_PMAP_MAX_BYTES" and s: "buffer_size b \<noteq> 0" by auto
    from get_8_moved [OF "1.prems"(1) s] obtain c b1 where c: "buffer_get_8 b = Some (c, b1)" "moved b b1" by blast
    have k: "unat (nr_bytes p) < 8" using n by (simp add: FAST_PMAP_MAX_BYTES_def word_less_nat_alt)
    then have put: "mem_put (pmap_bytes p) (uint (nr_bytes p)) c = Some ((pmap_bytes p)[unat (nr_bytes p) := c])"
      using "1.prems"(2) mem_put_Some [of "unat (nr_bytes p)" "pmap_bytes p" c] by (simp add: pmap_wf_def uint_nat del: of_nat_unat)
    let ?p = "p\<lparr>pmap_bytes := (pmap_bytes p)[unat (nr_bytes p) := c], nr_bytes := nr_bytes p + 1\<rparr>"
    have "unat (nr_bytes p + 1) \<le> 8" using k by (simp add: unat_word_ariths)
    then have wf: "pmap_wf ?p" using "1.prems"(2) by (simp add: pmap_wf_def FAST_PMAP_MAX_BYTES_def word_le_nat_alt)
    show ?thesis
    proof (cases "c AND 0x80 \<noteq> 0")
      case True
      then show ?thesis using n s c put wf by (subst parse_pmap_loop.simps) (simp add: Let_def)
    next
      case False
      with "1.IH" [OF n s c(1) refl put refl _ moved_wf [OF c(2)] wf] obtain r p' b' where
        "parse_pmap_loop b1 ?p = Some (r, p', b')" "moved b1 b'" "pmap_wf p'" by auto
      with moved_trans [OF c(2)] show ?thesis using n s c put False
        by (subst parse_pmap_loop.simps) (auto simp: Let_def)
    qed
  qed (use "1.prems" in \<open>subst parse_pmap_loop.simps, auto\<close>)
qed

lemma parse_pmap_safe:
  "buffer_wf b \<Longrightarrow> length (pmap_bytes p) = 8 \<Longrightarrow>
     \<exists>r p' b'. parse_pmap b p = Some (r, p', b') \<and> moved b b' \<and> pmap_wf p'"
  unfolding parse_pmap_def by (rule parse_pmap_loop_safe) (simp_all add: pmap_wf_def)

lemma next_pmap_bit_safe: "pmap_wf p \<Longrightarrow> \<exists>s p'. next_pmap_bit p = Some (s, p') \<and> pmap_wf p'"
proof -
  assume p: "pmap_wf p"
  let ?p = "p\<lparr>pmap_bit := pmap_bit p + 1\<rparr>"
  have "pmap_wf ?p" using p by (simp add: pmap_wf_def)
  from pmap_is_set_get [OF this] this show ?thesis by (simp add: next_pmap_bit_def Let_def)
qed

subsection \<open>What a decoder keeps\<close>

text \<open>\<open>safely dec P\<close>: on any input the decoder returns, has only taken bytes, and keeps \<open>P\<close>.\<close>

definition safely :: "(buffer \<Rightarrow> fast_pmap \<Rightarrow> 'f \<Rightarrow> 'f decoded) \<Rightarrow> ('f \<Rightarrow> bool) \<Rightarrow> 'f \<Rightarrow> bool" where
  "safely dec P f \<longleftrightarrow> (\<forall>b p. buffer_wf b \<longrightarrow> pmap_wf p \<longrightarrow>
     (\<exists>r b' p' f'. dec b p f = Some (r, b', p', f') \<and> moved b b' \<and> pmap_wf p' \<and> P f'))"

lemma safelyI:
  "(\<And>b p. buffer_wf b \<Longrightarrow> pmap_wf p \<Longrightarrow>
     \<exists>r b' p' f'. dec b p f = Some (r, b', p', f') \<and> moved b b' \<and> pmap_wf p' \<and> P f') \<Longrightarrow> safely dec P f"
  by (simp add: safely_def)

lemma safelyD:
  assumes "safely dec P f" "buffer_wf b" "pmap_wf p"
  obtains r b' p' f' where "dec b p f = Some (r, b', p', f')" "moved b b'" "pmap_wf p'" "P f'"
  using assms unfolding safely_def by blast

lemma safely_mono: "safely dec P f \<Longrightarrow> (\<And>f. P f \<Longrightarrow> Q f) \<Longrightarrow> safely dec Q f"
  unfolding safely_def by blast

lemma refuse_safe: "P f \<Longrightarrow> safely (\<lambda>b p f. Some (Inl e, b, p, f)) P f"
  by (auto simp: safely_def)

text \<open>A typing of fields that does not look at the state, and the branches that the decoders share.\<close>

locale field_typing =
  fixes P :: "'a fast_scalar_scheme \<Rightarrow> bool"
  assumes of_state: "P f \<Longrightarrow> P (f\<lparr>f_state := x\<rparr>)"
begin

lemma reset_or_empty_safe:
  assumes "P f" "\<And>f. P f \<Longrightarrow> \<exists>f'. assign f = Some f' \<and> P f'"
  shows "\<exists>r f'. reset_or_empty assign f = Some (r, f') \<and> P f'"
  using assms(1) assms(2) [OF of_state [OF assms(1), of FAST_STATE_ASSIGNED]] of_state [OF assms(1)]
  by (auto simp: reset_or_empty_def)

lemma reuse_previous_safe:
  assumes "P f" "\<And>f. P f \<Longrightarrow> \<exists>f'. assign f = Some f' \<and> P f'" "P (upd f)"
  shows "\<exists>r f'. reuse_previous assign upd f = Some (r, f') \<and> P f'"
  using reset_or_empty_safe [OF assms(1,2)] assms(1,3) by (auto simp: reuse_previous_def split: fast_state.splits)

lemma if_pmap_bit_safe:
  assumes "\<exists>r f'. absent f = Some (r, f') \<and> P f'" "safely transferred P f"
  shows "safely (if_pmap_bit absent transferred) P f"
proof (rule safelyI)
  fix b p
  assume b: "buffer_wf b" and p: "pmap_wf p"
  from next_pmap_bit_safe [OF p] obtain s p1 where s: "next_pmap_bit p = Some (s, p1)" "pmap_wf p1" by blast
  show "\<exists>r b' p' f'. if_pmap_bit absent transferred b p f = Some (r, b', p', f') \<and> moved b b' \<and> pmap_wf p' \<and> P f'"
  proof (cases s)
    case True
    from safelyD [OF assms(2) b s(2)] obtain r b' p' f' where
      "transferred b p1 f = Some (r, b', p', f')" "moved b b'" "pmap_wf p'" "P f'" .
    with s True show ?thesis by (simp add: if_pmap_bit_def)
  next
    case False
    with s assms(1) moved_refl [OF b] show ?thesis by (auto simp: if_pmap_bit_def)
  qed
qed

lemma decode_constant_safe:
  assumes "P f" "\<And>f. P f \<Longrightarrow> \<exists>f'. assign f = Some f' \<and> P f'"
  shows "safely (decode_constant assign) P f"
proof (rule safelyI)
  fix b p
  assume b: "buffer_wf b" and p: "pmap_wf p"
  from assms obtain f1 where f1: "(if f_state f \<noteq> FAST_STATE_ASSIGNED then assign f else Some f) = Some f1" "P f1"
    by (metis (full_types))
  from next_pmap_bit_safe [OF p] obtain s p1 where s: "next_pmap_bit p = Some (s, p1)" "pmap_wf p1" by blast
  show "\<exists>r b' p' f'. decode_constant assign b p f = Some (r, b', p', f') \<and> moved b b' \<and> pmap_wf p' \<and> P f'"
    using f1 s p moved_refl [OF b] of_state [OF f1(2)] of_state [OF of_state [OF f1(2)]]
    by (auto simp: decode_constant_def Let_def)
qed

lemma copy_safe:
  assumes "P f" "\<And>f. P f \<Longrightarrow> \<exists>f'. assign f = Some f' \<and> P f'" "P (upd f)" "safely transferred P f"
  shows "safely (if_pmap_bit (reuse_previous assign upd) transferred) P f"
  by (rule if_pmap_bit_safe [OF _ assms(4)], rule reuse_previous_safe) (use assms in auto)

lemma default_safe:
  assumes "P f" "\<And>f. P f \<Longrightarrow> \<exists>f'. assign f = Some f' \<and> P f'" "safely transferred P f"
  shows "safely (if_pmap_bit (reset_or_empty assign) transferred) P f"
  by (rule if_pmap_bit_safe [OF _ assms(3)], rule reset_or_empty_safe) (use assms in auto)

text \<open>A decoder that reads an integer and stores it.\<close>

lemma received_safe:
  assumes "\<And>b. buffer_wf b \<Longrightarrow> \<exists>r b'. parse b = Some (r :: fast_err + 64 word, b') \<and> moved b b'"
    and "P f" "\<And>v. P (recv f v)"
    and "\<And>b p. dec b p f = do {
     (r, b) \<leftarrow> parse b;
     (case r of
        Inl e \<Rightarrow> Some (Inl e, b, p, f)
      | Inr v \<Rightarrow> Some (Inr (), b, p, recv f v)) }"
  shows "safely dec P f"
proof (rule safelyI)
  fix b p
  assume b: "buffer_wf b" and p: "pmap_wf p"
  from assms(1) [OF b] obtain r b1 where "parse b = Some (r, b1)" "moved b b1" by blast
  with p assms(2,3) show "\<exists>r b' p' f'. dec b p f = Some (r, b', p', f') \<and> moved b b' \<and> pmap_wf p' \<and> P f'"
    by (cases r) (auto simp: assms(4))
qed

end

subsection \<open>Integers\<close>

text \<open>The integer decoders change the scalar part of a field only.\<close>

interpretation scalar: field_typing "\<lambda>f. fast_scalar.more f = m"
  by unfold_locales simp

lemma assign_int_safe: "\<exists>f'. assign_int f = Some f' \<and> fast_scalar.more f' = fast_scalar.more f"
  by (simp add: assign_int_def)

lemma received_more [simp]:
  "fast_scalar.more (uint_received f v) = fast_scalar.more f" "fast_scalar.more (int_received f v) = fast_scalar.more f"
  by (simp_all add: uint_received_def int_received_def Let_def)

lemma decode_uint_none_safe: "safely decode_uint_none (\<lambda>f'. fast_scalar.more f' = fast_scalar.more f) f"
  by (rule scalar.received_safe [where parse = parse_uint and recv = uint_received])
     (simp_all add: parse_uint_safe decode_uint_none_def)

lemma decode_int_none_safe: "safely decode_int_none (\<lambda>f'. fast_scalar.more f' = fast_scalar.more f) f"
  by (rule scalar.received_safe [where parse = parse_int and recv = int_received])
     (simp_all add: parse_int_safe decode_int_none_def)

lemma decode_uint_delta_safe: "safely decode_uint_delta (\<lambda>f'. fast_scalar.more f' = fast_scalar.more f) f"
  by (rule scalar.received_safe [where parse = parse_int and recv = "\<lambda>f tmp.
        (let f = f\<lparr>f_state := FAST_STATE_ASSIGNED,
                    int_value := (if tmp <s 0 then int_value f - (- tmp) else int_value f + tmp)\<rparr>
         in if field_is_mandatory f then f
            else if tmp = 0 then f\<lparr>f_state := FAST_STATE_EMPTY\<rparr>
            else if 0 <s tmp then f\<lparr>int_value := int_value f - 1\<rparr>
            else f)"])
     (simp_all add: parse_int_safe decode_uint_delta_def Let_def cong: sum.case_cong)

lemma decode_int_delta_safe: "safely decode_int_delta (\<lambda>f'. fast_scalar.more f' = fast_scalar.more f) f"
  by (rule scalar.received_safe [where parse = parse_int and recv = "\<lambda>f tmp.
        (let f = f\<lparr>f_state := FAST_STATE_ASSIGNED, int_value := int_value f + tmp\<rparr>
         in if field_is_mandatory f then f
            else if tmp = 0 then f\<lparr>f_state := FAST_STATE_EMPTY\<rparr>
            else if 0 <s tmp then f\<lparr>int_value := int_value f - 1\<rparr>
            else f)"])
     (simp_all add: parse_int_safe decode_int_delta_def Let_def cong: sum.case_cong)

lemma fast_decode_uint_safe: "safely fast_decode_uint (\<lambda>f'. fast_scalar.more f' = fast_scalar.more f) f" (is "safely _ ?P f")
proof -
  note n = decode_uint_none_safe [of f]
  have "safely decode_uint_copy ?P f" "safely decode_uint_incr ?P f"
    unfolding decode_uint_copy_def decode_uint_incr_def
    by (rule scalar.copy_safe; simp add: assign_int_def n)+
  moreover have "safely decode_uint_default ?P f"
    unfolding decode_uint_default_def by (rule scalar.default_safe; simp add: assign_int_def n)
  moreover have "safely decode_uint_constant ?P f"
    unfolding decode_uint_constant_def by (rule scalar.decode_constant_safe; simp add: assign_int_def)
  ultimately show ?thesis using n decode_uint_delta_safe [of f]
    unfolding safely_def fast_decode_uint_def by (cases "f_op f") (simp_all only: fast_op.case)
qed

lemma fast_decode_int_safe: "safely fast_decode_int (\<lambda>f'. fast_scalar.more f' = fast_scalar.more f) f" (is "safely _ ?P f")
proof -
  note n = decode_int_none_safe [of f]
  have "safely decode_int_copy ?P f" "safely decode_int_incr ?P f"
    unfolding decode_int_copy_def decode_int_incr_def
    by (rule scalar.copy_safe; simp add: assign_int_def n)+
  moreover have "safely decode_int_default ?P f"
    unfolding decode_int_default_def by (rule scalar.default_safe; simp add: assign_int_def n)
  moreover have "safely decode_int_constant ?P f"
    unfolding decode_int_constant_def by (rule scalar.decode_constant_safe; simp add: assign_int_def)
  ultimately show ?thesis using n decode_int_delta_safe [of f]
    unfolding safely_def fast_decode_int_def by (cases "f_op f") (simp_all only: fast_op.case)
qed


subsection \<open>Fields\<close>

text \<open>A field the decoder can work on.  \<open>field_arrays\<close> looks at the arrays only, \<open>field_kind\<close> at what the
  template fixes.\<close>

definition field_arrays :: "'a fast_field_scheme \<Rightarrow> bool" where
  "field_arrays f \<longleftrightarrow> string_ok (string_value f) \<and> string_ok (string_reset f) \<and> string_ok (string_previous f)
     \<and> length (vector_value f) = 256 \<and> length (vector_reset f) = 256 \<and> length (vector_previous f) = 256"

definition field_kind :: "'a fast_field_scheme \<Rightarrow> bool" where
  "field_kind f \<longleftrightarrow> f_type f \<noteq> FAST_TYPE_VECTOR
     \<and> (f_type f = FAST_TYPE_STRING \<longrightarrow> field_has_flags f FAST_FIELD_FLAGS_UNICODE = 0)
     \<and> (f_type f = FAST_TYPE_DECIMAL \<and> field_has_flags f FAST_FIELD_FLAGS_DECIMAL_INDIVID \<noteq> 0
          \<longrightarrow> decimal_fields f \<noteq> None)"

definition field_ok :: "'a fast_field_scheme \<Rightarrow> bool" where
  "field_ok f \<longleftrightarrow> field_arrays f \<and> field_kind f"

lemma field_ok_more:
  "fast_scalar.more f = fast_scalar.more g \<Longrightarrow> field_ok f = field_ok (g :: 'a fast_field_scheme)"
  by (cases f; cases g) (simp add: field_ok_def field_arrays_def field_kind_def field_has_flags_def)

text \<open>\<open>kept g\<close>: a well-typed field of the same type as \<open>g\<close>, with the same sequence if it has one.\<close>

definition kept :: "'a fast_field_scheme \<Rightarrow> 'a fast_field_scheme \<Rightarrow> bool" where
  "kept g f \<longleftrightarrow> field_ok f \<and> f_type f = f_type g \<and> f_flags f = f_flags g \<and> fast_field.more f = fast_field.more g"

lemma kept_refl: "field_ok f \<Longrightarrow> kept f f"
  by (simp add: kept_def)

lemma kept_more: "kept g f \<Longrightarrow> fast_scalar.more f' = fast_scalar.more f \<Longrightarrow> kept g f'"
  using field_ok_more [of f' f] by (cases f; cases f') (simp add: kept_def)

interpretation field: field_typing "kept g :: 'a fast_field_scheme \<Rightarrow> bool"
  by unfold_locales (erule kept_more, simp)

lemma kept_string: "kept g f \<Longrightarrow> string_ok m \<Longrightarrow> kept g (f\<lparr>string_value := m\<rparr>)"
  by (auto simp: kept_def field_ok_def field_arrays_def field_kind_def field_has_flags_def)

lemma kept_decimal: "kept g f \<Longrightarrow> kept g (f\<lparr>decimal_value := d\<rparr>)"
  by (auto simp: kept_def field_ok_def field_arrays_def field_kind_def field_has_flags_def)

lemma kept_parts: "kept g f \<Longrightarrow> kept g (f\<lparr>decimal_fields := Some d\<rparr>)"
  by (auto simp: kept_def field_ok_def field_arrays_def field_kind_def field_has_flags_def)

lemma kept_strings: "kept g f \<Longrightarrow> string_ok (string_value f) \<and> string_ok (string_reset f)"
  by (simp add: kept_def field_ok_def field_arrays_def)

text \<open>Copying one string array to another.\<close>

lemma c_string_run:
  assumes "string_ok m"
  obtains n where "c_strlen m = Some n" "n < 256" "mem_load m 0 (n + 1) = Some (c_str m @ [0])"
    "length (c_str m) = n"
proof -
  from string_ok_strlen [OF assms] obtain n where n: "c_strlen m = Some n" "n < 256" by blast
  then have "mem_load m 0 (n + 1) = Some (take (n + 1) m)"
    using assms mem_load_Some [of 0 "n + 1" m] by (simp add: string_ok_def)
  moreover have "take (n + 1) m = c_str m @ [0]" "length (c_str m) = n"
    using n c_strlen_length [OF n(1)] by (auto simp: c_strlen_Some_iff take_Suc_conv_app_nth)
  ultimately show thesis using that n by simp
qed

lemma string_ok_store_run:
  "string_ok m \<Longrightarrow> length s < 256 \<Longrightarrow> \<exists>m'. mem_store m 0 (s @ [0]) = Some m' \<and> string_ok m'"
  using string_ok_store [of m 0 "s @ [0]"] by (cases "length s = 255") auto

lemma copy_c_string_safe: "string_ok m \<Longrightarrow> string_ok m' \<Longrightarrow> \<exists>w. copy_c_string m m' = Some w \<and> string_ok w"
  by (erule c_string_run [of m']) (use string_ok_store_run [of m "c_str m'"] in \<open>auto simp: copy_c_string_def\<close>)

lemma assign_string_safe: "kept g f \<Longrightarrow> \<exists>f'. assign_string f = Some f' \<and> kept g f'"
proof -
  assume f: "kept g f"
  then have s: "string_ok (string_value f)" "string_ok (string_reset f)" using kept_strings by blast+
  from s(2) obtain n where n: "c_strlen (string_reset f) = Some n" "n < 256"
    "mem_load (string_reset f) 0 (n + 1) = Some (c_str (string_reset f) @ [0])" "length (c_str (string_reset f)) = n"
    by (rule c_string_run)
  from string_ok_store_run [OF s(1), of "c_str (string_reset f)"] n obtain m where
    "mem_store (string_value f) 0 (c_str (string_reset f) @ [0]) = Some m" "string_ok m" by auto
  with n f show ?thesis by (auto simp: assign_string_def intro: kept_string)
qed

lemma decode_ascii_none_safe:
  assumes "kept g f"
  shows "safely decode_ascii_none (kept g) f"
proof (rule safelyI)
  fix b p
  assume b: "buffer_wf b" and p: "pmap_wf p"
  from assms have "string_ok (string_value f)" using kept_strings by blast
  from parse_string_256 [OF b this] obtain r m b1 where
    r: "parse_string b (string_value f) FAST_STRING_MAX_BYTES = Some (r, m, b1)" "moved b b1" "string_ok m"
    by (auto simp: FAST_STRING_MAX_BYTES_def)
  have f: "kept g (f\<lparr>string_value := m\<rparr>)" using assms r(3) by (rule kept_string)
  have "mem_get m 0 = Some (m ! 0)" using r(3) mem_get_Some [of 0 m] by (simp add: string_ok_def)
  with r p f field.of_state [OF f] field.of_state [OF field.of_state [OF f]]
  show "\<exists>r b' p' f'. decode_ascii_none b p f = Some (r, b', p', f') \<and> moved b b' \<and> pmap_wf p' \<and> kept g f'"
    by (cases r) (auto simp: decode_ascii_none_def Let_def)
qed



text \<open>Signed words that hold small numbers.\<close>

lemma sint_of_small: "- (2 ^ 63) \<le> i \<Longrightarrow> i < 2 ^ 63 \<Longrightarrow> sint (of_int i :: i64) = i"
  by (simp add: signed_of_int signed_take_bit_int_eq_self)

lemma unat_of_small: "0 \<le> i \<Longrightarrow> i < 2 ^ 63 \<Longrightarrow> unat (of_int i :: i64) = nat i"
  by (simp add: unsigned_of_int take_bit_int_eq_self)

lemma of_int_sint: "of_int (sint w) = (w :: i64)"
  by simp

lemma apply_string_delta_safe:
  assumes base: "string_ok base" and delta: "length delta = 32" "delta ! 31 = 0"
  shows "\<exists>r m. apply_string_delta base delta len = Some (r, m) \<and> string_ok m"
proof -
  from base obtain nb where nb: "c_strlen base = Some nb" "nb < 256" "length (c_str base) = nb"
    by (rule c_string_run)
  have "0 \<in> set delta" using delta nth_mem [of 31 delta] by auto
  then have "c_strlen delta \<noteq> None" by (induction delta) auto
  then obtain nd where nd: "c_strlen delta = Some nd" "nd < 32" using delta c_strlen_less [of delta] by auto
  define k where "k = (if 0 \<le>s len then sint len else - (sint len + 1))"
  have b: "- (2 ^ 63) \<le> sint len" "sint len < 2 ^ 63" using sint_range_size [of len] by (simp_all add: word_size)
  have k0: "0 \<le> k" "k < 2 ^ 63" using b by (auto simp: k_def word_sle_eq)
  define w :: i64 where "w = of_int k"
  have w: "(if 0 \<le>s len then len else - (len + 1)) = w"
  proof -
    have "w = (if 0 \<le>s len then of_int (sint len) else - (of_int (sint len) + 1))" by (simp add: w_def k_def)
    then show ?thesis by (simp only: of_int_sint)
  qed
  have sw: "sint w = k" "unat w = nat k" using k0 by (simp_all add: w_def sint_of_small unat_of_small)
  have lb: "(of_nat nb :: i64) = of_int (int nb)" "(of_nat nd :: i64) = of_int (int nd)" by simp_all
  have tot: "(of_nat nb + of_nat nd - w + 1 :: i64) = of_int (int nb + int nd - k + 1)" by (simp add: w_def)
  have stot: "sint (of_nat nb + of_nat nd - w + 1 :: i64) = int nb + int nd - k + 1"
    unfolding tot using nb nd k0 by (intro sint_of_small) auto
  have snb: "sint (of_nat nb :: i64) = int nb" "unat (of_nat nb :: i64) = nb"
    unfolding lb using nb by (subst sint_of_small unat_of_small; simp)+
  have snd: "sint (of_nat nd :: i64) = int nd"
    unfolding lb using nd by (subst sint_of_small; simp)
  have dl: "mem_load delta 0 (nd + 1) = Some (c_str delta @ [0])" "mem_load delta 0 nd = Some (c_str delta)"
    "length (c_str delta) = nd"
    using nd c_strlen_length [OF nd(1)] mem_load_Some [of 0 "nd + 1" delta] mem_load_Some [of 0 nd delta] delta
    by (auto simp: c_strlen_Some_iff take_Suc_conv_app_nth)
  have lim: "256 <s (of_nat nb + of_nat nd - w + 1 :: i64) \<longleftrightarrow> 256 < int nb + int nd - k + 1"
    unfolding word_sless_alt stot by simp
  show ?thesis
  proof (cases "256 < int nb + int nd - k + 1 \<or> int nb < k")
    case True
    then show ?thesis using base nb nd w lim snb sw
      by (cases "0 \<le>s len")
         (auto simp: apply_string_delta_def Let_def FAST_STRING_MAX_BYTES_def word_sless_alt word_less_nat_alt)
  next
    case False
    then have kn: "nat k \<le> nb" "int (nb - nat k) = int nb - k" and fit: "nb - nat k + nd + 1 \<le> 256" using k0 by auto
    have diff: "(of_nat nb - w :: i64) = of_int (int nb - k)" by (simp add: w_def)
    have sd: "sint (of_nat nb - w :: i64) = int (nb - nat k)"
      unfolding diff kn(2) using nb k0 False by (intro sint_of_small) auto
    have diff1: "(of_nat nb - w + 1 :: i64) = of_int (int nb - k + 1)" by (simp add: w_def)
    have ud: "unat (of_nat nb - w + 1 :: i64) = nb - nat k + 1"
      unfolding diff1 using nb k0 False by (subst unat_of_small) auto
    show ?thesis
    proof (cases "0 \<le>s len")
      case True
      from string_ok_store [OF base, of "nb - nat k" "c_str delta @ [0]"] fit dl(3) obtain m where
        "mem_store base (int (nb - nat k)) (c_str delta @ [0]) = Some m" "string_ok m" by fastforce
      with True w nb nd dl lim False snb sw sd show ?thesis
        by (auto simp: apply_string_delta_def Let_def FAST_STRING_MAX_BYTES_def word_sless_alt)
    next
      case neg: False
      let ?t = "take (nb - nat k + 1) (drop (nat k) base)"
      have lt: "length ?t = nb - nat k + 1" using base nb kn by (auto simp: string_ok_def)
      have "?t ! (nb - nat k) = base ! nb" using base nb kn by (simp add: string_ok_def)
      then have last: "last ?t = 0" "?t \<noteq> []" using lt nb(1) by (auto simp: last_conv_nth c_strlen_Some_iff)
      have ld: "mem_load base k (nb - nat k + 1) = Some ?t"
        using base nb kn k0 mem_load_Some [of "nat k" "nb - nat k + 1" base] by (simp add: string_ok_def)
      from string_ok_store [OF base, of nd ?t] fit lt last obtain m where
        m: "mem_store base (int nd) ?t = Some m" "string_ok m" by fastforce
      from string_ok_store [OF m(2), of 0 "c_str delta"] nd dl(3) obtain m' where
        m': "mem_store m 0 (c_str delta) = Some m'" "string_ok m'" by auto
      from neg w have w': "- (len + 1) = w" by simp
      show ?thesis using neg nb nd dl lim False snb sw ud ld m m' snd w'
        by (auto simp: apply_string_delta_def Let_def FAST_STRING_MAX_BYTES_def word_less_nat_alt)
    qed
  qed
qed

lemma decode_ascii_delta_safe:
  assumes "kept g f"
  shows "safely decode_ascii_delta (kept g) f"
proof (rule safelyI)
  fix b p
  assume b: "buffer_wf b" and p: "pmap_wf p"
  from parse_int_safe [OF b] obtain r b1 where r: "parse_int b = Some (r, b1)" "moved b b1" by blast
  from parse_string_32 [OF moved_wf [OF r(2)]] obtain r' d b2 where
    d: "parse_string b1 (replicate 32 0) 32 = Some (r', d, b2)" "moved b1 b2" "length d = 32" "d ! 31 = 0" by blast
  have m: "moved b b2" using r(2) d(2) by (rule moved_trans)
  note st = field.of_state [OF assms] field.of_state [OF field.of_state [OF assms]]
  have s: "string_ok (string_value f)" using assms kept_strings by blast
  show "\<exists>r b' p' f'. decode_ascii_delta b p f = Some (r, b', p', f') \<and> moved b b' \<and> pmap_wf p' \<and> kept g f'"
  proof (cases r)
    case (Inl e)
    with r p assms show ?thesis by (simp add: decode_ascii_delta_def)
  next
    case (Inr len)
    let ?f = "f\<lparr>f_state := FAST_STATE_ASSIGNED\<rparr>"
    define l where "l = (if \<not> field_is_mandatory ?f \<and> 0 <s len then len - 1 else len)"
    from apply_string_delta_safe [OF s d(3,4), of l] obtain r2 m' where
      a: "apply_string_delta (string_value f) d l = Some (r2, m')" "string_ok m'" by blast
    have k: "kept g (?f\<lparr>string_value := m'\<rparr>)" using st(1) a(2) by (rule kept_string)
    consider "\<not> field_is_mandatory ?f \<and> len = 0" | "\<not> (\<not> field_is_mandatory ?f \<and> len = 0)" by blast
    then show ?thesis
    proof cases
      case 1
      with Inr r p st show ?thesis by (simp add: decode_ascii_delta_def Let_def)
    next
      case 2
      with Inr r d m p st a k show ?thesis
        by (cases r') (simp_all add: decode_ascii_delta_def Let_def l_def [symmetric])
    qed
  qed
qed

lemma fast_decode_ascii_safe:
  assumes "kept g f"
  shows "safely fast_decode_ascii (kept g) f"
proof -
  note n = decode_ascii_none_safe [OF assms]
  have "safely decode_ascii_copy (kept g) f"
    unfolding decode_ascii_copy_def by (rule field.copy_safe; simp add: assign_string_safe n assms)
  moreover have "safely decode_ascii_default (kept g) f"
    unfolding decode_ascii_default_def by (rule field.default_safe; simp add: assign_string_safe n assms)
  moreover have "safely decode_ascii_constant (kept g) f"
    unfolding decode_ascii_constant_def by (rule field.decode_constant_safe; simp add: assign_string_safe assms)
  ultimately show ?thesis using n decode_ascii_delta_safe [OF assms] refuse_safe [of "kept g" f, OF assms]
    unfolding safely_def fast_decode_ascii_def by (cases "f_op f") (simp_all only: fast_op.case)
qed

lemma decode_exp_mnt_safe:
  assumes "kept g f"
  shows "safely (decode_exp_mnt base) (kept g) f"
proof (rule safelyI)
  fix b p
  assume b: "buffer_wf b" and p: "pmap_wf p"
  from parse_int_safe [OF b] obtain r b1 where r: "parse_int b = Some (r, b1)" "moved b b1" by blast
  from parse_int_safe [OF moved_wf [OF r(2)]] obtain r' b2 where
    r': "parse_int b1 = Some (r', b2)" "moved b1 b2" by blast
  have m: "moved b b2" using r(2) r'(2) by (rule moved_trans)
  note st = field.of_state [OF assms] field.of_state [OF field.of_state [OF assms]]
  have k: "kept g (f\<lparr>f_state := FAST_STATE_ASSIGNED, decimal_value := d\<rparr>)" for d
    using kept_decimal [OF st(1)] by simp
  show "\<exists>r b' p' f'. decode_exp_mnt base b p f = Some (r, b', p', f') \<and> moved b b' \<and> pmap_wf p' \<and> kept g f'"
    using r r' m p assms st k
    by (cases r; cases r') (simp_all add: decode_exp_mnt_def Let_def split: if_splits)
qed

lemma fast_decode_decimal_atomic_safe:
  assumes "kept g f"
  shows "safely fast_decode_decimal_atomic (kept g) f"
proof -
  have a: "\<exists>f'. assign_decimal f = Some f' \<and> kept g f'" if "kept g f" for f
    using kept_decimal [OF that] by (simp add: assign_decimal_def)
  have n: "safely decode_decimal_none (kept g) f" "safely decode_decimal_delta (kept g) f"
    unfolding decode_decimal_none_def decode_decimal_delta_def by (rule decode_exp_mnt_safe [OF assms])+
  have "safely decode_decimal_copy (kept g) f"
    unfolding decode_decimal_copy_def by (rule field.copy_safe; simp add: a n assms)
  moreover have "safely decode_decimal_default (kept g) f"
    unfolding decode_decimal_default_def by (rule field.default_safe; simp add: a n assms)
  moreover have "safely decode_decimal_constant (kept g) f"
    unfolding decode_decimal_constant_def by (rule field.decode_constant_safe; simp add: a assms)
  ultimately show ?thesis using n refuse_safe [of "kept g" f, OF assms]
    unfolding safely_def fast_decode_decimal_atomic_def by (cases "f_op f") (simp_all only: fast_op.case)
qed

lemma fast_decode_decimal_individ_safe:
  assumes "kept g f" "decimal_fields f \<noteq> None"
  shows "safely fast_decode_decimal_individ (kept g) f"
proof (rule safelyI)
  fix b p
  assume b: "buffer_wf b" and p: "pmap_wf p"
  from assms(2) obtain f0 f1 where f01: "decimal_fields f = Some (f0, f1)" by auto
  from safelyD [OF fast_decode_int_safe b p, of f0] obtain r b1 p1 f0' where
    r: "fast_decode_int b p f0 = Some (r, b1, p1, f0')" "moved b b1" "pmap_wf p1" .
  from safelyD [OF fast_decode_int_safe moved_wf [OF r(2)] r(3), of f1] obtain r' b2 p2 f1' where
    r': "fast_decode_int b1 p1 f1 = Some (r', b2, p2, f1')" "moved b1 b2" "pmap_wf p2" .
  have m: "moved b b2" using r(2) r'(2) by (rule moved_trans)
  have k: "kept g (f\<lparr>decimal_fields := Some d\<rparr>)" for d using assms(1) by (rule kept_parts)
  have k2: "kept g (f\<lparr>decimal_fields := Some d, f_state := x\<rparr>)" for x d
    by (rule field.of_state [OF k])
  have k3: "kept g (f\<lparr>decimal_fields := Some d, f_state := x, decimal_value := v\<rparr>)" for x d v
    by (rule kept_decimal [OF k2])
  show "\<exists>r b' p' f'. fast_decode_decimal_individ b p f = Some (r, b', p', f') \<and> moved b b' \<and> pmap_wf p' \<and> kept g f'"
    using r r' m k k2 k3 f01
    by (cases r; cases r') (simp_all add: fast_decode_decimal_individ_def Let_def split: if_splits)
qed

lemma fast_decode_decimal_safe:
  assumes "kept g f" "f_type f = FAST_TYPE_DECIMAL"
  shows "safely fast_decode_decimal (kept g) f"
proof (cases "field_has_flags f FAST_FIELD_FLAGS_DECIMAL_INDIVID = 0")
  case True
  with fast_decode_decimal_atomic_safe [OF assms(1)] show ?thesis by (simp add: safely_def fast_decode_decimal_def)
next
  case False
  with assms have "decimal_fields f \<noteq> None" by (simp add: kept_def field_ok_def field_kind_def)
  from fast_decode_decimal_individ_safe [OF assms(1) this] False show ?thesis
    by (simp add: safely_def fast_decode_decimal_def)
qed

lemma fast_decode_int_kept: "kept g f \<Longrightarrow> safely fast_decode_int (kept g) f"
  by (rule safely_mono [OF fast_decode_int_safe]) (rule kept_more)

lemma fast_decode_uint_kept: "kept g f \<Longrightarrow> safely fast_decode_uint (kept g) f"
  by (rule safely_mono [OF fast_decode_uint_safe]) (rule kept_more)

lemma fast_decode_string_safe:
  assumes "kept g f" "f_type f = FAST_TYPE_STRING"
  shows "safely fast_decode_string (kept g) f"
proof -
  have "field_has_flags f FAST_FIELD_FLAGS_UNICODE = 0" using assms by (simp add: kept_def field_ok_def field_kind_def)
  with fast_decode_ascii_safe [OF assms(1)] show ?thesis by (simp add: safely_def fast_decode_string_def)
qed

lemma decode_element_field_safe:
  assumes "field_ok f"
  shows "safely decode_element_field (kept f) f"
proof -
  note k = kept_refl [OF assms]
  have "f_type f \<noteq> FAST_TYPE_VECTOR" using assms by (simp add: field_ok_def field_kind_def)
  then show ?thesis
    using fast_decode_int_kept [OF k] fast_decode_uint_kept [OF k] fast_decode_string_safe [OF k]
      fast_decode_decimal_safe [OF k] refuse_safe [of "kept f" f, OF k]
    unfolding safely_def decode_element_field_def
    by (cases "f_type f") (simp_all only: fast_type.case fast_type.distinct simp_thms)
qed

subsection \<open>Sequences\<close>

text \<open>The elements of a sequence have \<open>n\<close> fields each, and the position in element 0 is one of them.\<close>

definition element_ok :: "nat \<Rightarrow> fast_field fast_message \<Rightarrow> bool" where
  "element_ok n m \<longleftrightarrow> unat (nr_fields m) = n \<and> n \<le> length (m_fields m) \<and> (\<forall>f\<in>set (m_fields m). field_ok f)
     \<and> unat (m_decoded m) \<le> n"

definition elements_ok :: "nat \<Rightarrow> fast_field fast_message list \<Rightarrow> bool" where
  "elements_ok n es \<longleftrightarrow> length es = 128 \<and> (\<forall>m\<in>set es. element_ok n m)"

lemma elements_nth: "elements_ok n es \<Longrightarrow> i < 128 \<Longrightarrow> mem_get es (int i) = Some (es ! i) \<and> element_ok n (es ! i)"
  by (simp add: elements_ok_def mem_get_Some)

lemma elements_upd: "elements_ok n es \<Longrightarrow> i < 128 \<Longrightarrow> element_ok n m \<Longrightarrow> elements_ok n (es[i := m])"
  using set_update_subset_insert [of es i m] by (auto simp: elements_ok_def)

lemma element_field: "element_ok n m \<Longrightarrow> k < n \<Longrightarrow> mem_get (m_fields m) (int k) = Some (m_fields m ! k) \<and> field_ok (m_fields m ! k)"
  by (simp add: element_ok_def mem_get_Some)

lemma element_upd: "element_ok n m \<Longrightarrow> field_ok f \<Longrightarrow> element_ok n (m\<lparr>m_fields := (m_fields m)[k := f]\<rparr>)"
  using set_update_subset_insert [of "m_fields m" k f] by (auto simp: element_ok_def)

lemma seq_set_field_safe:
  assumes "elements_ok n (seq_elements sq)" "i < 128" "k < n" "field_ok f"
  shows "\<exists>es. seq_set_field (int i) (int k) f sq = Some (sq\<lparr>seq_elements := es\<rparr>) \<and> elements_ok n es
    \<and> (\<forall>j<128. m_decoded (es ! j) = m_decoded (seq_elements sq ! j))"
proof -
  let ?es = "seq_elements sq" let ?m = "?es ! i"
  have g: "mem_get ?es (int i) = Some ?m" "element_ok n ?m" using elements_nth [OF assms(1,2)] by auto
  have p: "mem_put (m_fields ?m) (int k) f = Some ((m_fields ?m)[k := f])"
    using g(2) assms(3) by (simp add: element_ok_def mem_put_Some)
  let ?m' = "?m\<lparr>m_fields := (m_fields ?m)[k := f]\<rparr>"
  have "mem_put ?es (int i) ?m' = Some (?es[i := ?m'])"
    using assms(1,2) by (simp add: elements_ok_def mem_put_Some)
  then have "seq_set_field (int i) (int k) f sq = Some (sq\<lparr>seq_elements := ?es[i := ?m']\<rparr>)"
    using g(1) p by (simp add: seq_set_field_def seq_set_element_def)
  moreover have "elements_ok n (?es[i := ?m'])" by (rule elements_upd [OF assms(1,2) element_upd [OF g(2) assms(4)]])
  moreover have "\<forall>j<128. m_decoded (?es[i := ?m'] ! j) = m_decoded (?es ! j)"
    using assms(1,2) by (auto simp: elements_ok_def nth_list_update)
  ultimately show ?thesis by blast
qed

lemma copy_element_field_safe:
  assumes "field_ok f" "field_ok cur"
  shows "\<exists>cur'. copy_element_field f cur = Some cur' \<and> field_ok cur'"
proof -
  note k = kept_refl [OF assms(2)]
  have s: "string_ok (string_value cur)" "string_ok (string_value f)"
    using assms by (auto simp: field_ok_def field_arrays_def)
  from copy_c_string_safe [OF this] obtain w where
    w: "copy_c_string (string_value cur) (string_value f) = Some w" "string_ok w" by blast
  have "kept cur (cur\<lparr>int_value := v, f_state := x\<rparr>)" for x v
    by (rule kept_more [OF k]) simp
  moreover have "kept cur (cur\<lparr>string_value := w, f_state := x\<rparr>)" "kept cur (cur\<lparr>decimal_value := d, f_state := x\<rparr>)" for x d
    by (rule field.of_state [OF kept_string [OF k w(2)]], rule field.of_state [OF kept_decimal [OF k]])
  ultimately show ?thesis using w assms(2)
    by (cases "f_type f") (auto simp: copy_element_field_def kept_def)
qed

text \<open>Between two elements: the input goes back to where \<open>start\<close> points, which is between the input \<open>b0\<close> of the
  sequence and the present one.\<close>

definition seq_inv :: "buffer \<Rightarrow> nat \<Rightarrow> seq_locals \<Rightarrow> bool" where
  "seq_inv b0 n s \<longleftrightarrow> (\<exists>b1. moved b0 b1 \<and> moved b1 (sl_buffer s) \<and> sl_start s = buffer_start b1)
     \<and> elements_ok n (seq_elements (sl_seq s)) \<and> pmap_wf (seq_pmap (sl_seq s))"

definition same_progress :: "seq_locals \<Rightarrow> seq_locals \<Rightarrow> bool" where
  "same_progress s s' \<longleftrightarrow> seq_decoded (sl_seq s') = seq_decoded (sl_seq s) \<and> seq_length (sl_seq s') = seq_length (sl_seq s)"

lemma seq_decode_field_safe:
  assumes inv: "seq_inv b0 n s" and k: "unat (m_decoded (seq_elements (sl_seq s) ! 0)) < n"
    and i: "unat (seq_decoded (sl_seq s)) < 128"
  shows "\<exists>r s'. seq_decode_field s = Some (r, s') \<and> seq_inv b0 n s' \<and> same_progress s s'
    \<and> (r = Inr () \<longrightarrow> unat (m_decoded (seq_elements (sl_seq s') ! 0)) = Suc (unat (m_decoded (seq_elements (sl_seq s) ! 0))))"
proof -
  let ?sq = "sl_seq s" let ?es = "seq_elements ?sq" let ?m = "?es ! 0"
  define k where "k = unat (m_decoded ?m)"
  define i where "i = unat (seq_decoded ?sq)"
  have ku: "uint (m_decoded ?m) = int k" and iu: "uint (seq_decoded ?sq) = int i"
    by (simp_all add: k_def i_def uint_nat del: of_nat_unat)
  have kn: "k < n" and i128: "i < 128" using assms(2,3) by (simp_all add: k_def i_def)
  from inv have es: "elements_ok n ?es" and pw: "pmap_wf (seq_pmap ?sq)" by (simp_all add: seq_inv_def)
  from inv obtain b1 where b1: "moved b0 b1" "moved b1 (sl_buffer s)" by (auto simp: seq_inv_def)
  have g0: "mem_get ?es 0 = Some ?m" "element_ok n ?m" using elements_nth [OF es, of 0] by auto
  have f: "mem_get (m_fields ?m) (int k) = Some (m_fields ?m ! k)" "field_ok (m_fields ?m ! k)"
    using element_field [OF g0(2) kn] by auto
  from safelyD [OF decode_element_field_safe [OF f(2)] moved_wf [OF b1(2)] pw] obtain r b' p' f' where
    d: "decode_element_field (sl_buffer s) (seq_pmap ?sq) (m_fields ?m ! k) = Some (r, b', p', f')"
      "moved (sl_buffer s) b'" "pmap_wf p'" "kept (m_fields ?m ! k) f'" .
  from d(4) have f': "field_ok f'" by (simp add: kept_def)
  have "elements_ok n (seq_elements (?sq\<lparr>seq_pmap := p'\<rparr>))" using es by simp
  from seq_set_field_safe [OF this _ kn f', of 0] obtain es1 where
    s1: "seq_set_field 0 (int k) f' (?sq\<lparr>seq_pmap := p'\<rparr>) = Some (?sq\<lparr>seq_pmap := p', seq_elements := es1\<rparr>)"
      "elements_ok n es1" "\<forall>j<128. m_decoded (es1 ! j) = m_decoded (?es ! j)" by auto
  have start: "\<exists>b1. moved b0 b1 \<and> moved b1 b' \<and> buffer_start (sl_buffer s) = buffer_start b1"
    using b1 d(2) moved_trans [OF b1] by blast
  show ?thesis
  proof (cases r)
    case (Inl e)
    let ?s' = "s\<lparr>sl_start := buffer_start (sl_buffer s), sl_bit := pmap_bit (seq_pmap ?sq), sl_buffer := b',
        sl_seq := ?sq\<lparr>seq_pmap := p', seq_elements := es1\<rparr>\<rparr>"
    have "seq_decode_field s = Some (Inl e, ?s')"
      using Inl by (simp add: seq_decode_field_def Let_def g0(1) ku f(1) d(1) s1(1))
    moreover have "seq_inv b0 n ?s'" "same_progress s ?s'"
      using start s1(2) d(3) by (simp_all add: seq_inv_def same_progress_def)
    ultimately show ?thesis using Inl by blast
  next
    case (Inr u)
    have gi: "mem_get es1 (int i) = Some (es1 ! i)" "element_ok n (es1 ! i)" using elements_nth [OF s1(2) i128] by auto
    have c: "mem_get (m_fields (es1 ! i)) (int k) = Some (m_fields (es1 ! i) ! k)" "field_ok (m_fields (es1 ! i) ! k)"
      using element_field [OF gi(2) kn] by auto
    from copy_element_field_safe [OF f' c(2)] obtain cur where
      cur: "copy_element_field f' (m_fields (es1 ! i) ! k) = Some cur" "field_ok cur" by blast
    let ?sq1 = "?sq\<lparr>seq_pmap := p', seq_elements := es1\<rparr>"
    have "elements_ok n (seq_elements ?sq1)" using s1(2) by simp
    from seq_set_field_safe [OF this i128 kn cur(2)] obtain es2 where
      s2: "seq_set_field (int i) (int k) cur ?sq1 = Some (?sq1\<lparr>seq_elements := es2\<rparr>)" "elements_ok n es2"
        "\<forall>j<128. m_decoded (es2 ! j) = m_decoded (es1 ! j)" by auto
    let ?m2 = "es2 ! 0"
    have g2: "mem_get es2 0 = Some ?m2" "element_ok n ?m2" using elements_nth [OF s2(2), of 0] by auto
    have m2: "m_decoded ?m2 = m_decoded ?m" using s1(3) s2(3) by simp
    have "unat (m_decoded ?m) < unat (nr_fields ?m2)" using kn g2(2) by (simp add: k_def element_ok_def)
    then have inc: "unat (m_decoded ?m + 1) = Suc k" by (simp add: unat_plus_1 k_def)
    let ?m3 = "?m2\<lparr>m_decoded := m_decoded ?m2 + 1\<rparr>"
    have m3: "element_ok n ?m3" using g2(2) inc kn m2 by (simp add: element_ok_def)
    have put: "mem_put es2 0 ?m3 = Some (es2[0 := ?m3])"
      using s2(2) mem_put_Some [of 0 es2 ?m3] by (simp add: elements_ok_def)
    have l: "length es2 = 128" using s2(2) by (simp add: elements_ok_def)
    let ?s' = "s\<lparr>sl_start := buffer_start (sl_buffer s), sl_bit := pmap_bit (seq_pmap ?sq), sl_buffer := b',
        sl_seq := ?sq1\<lparr>seq_elements := es2[0 := ?m3]\<rparr>\<rparr>"
    have "seq_decode_field s = Some (Inr (), ?s')"
      using Inr by (simp add: seq_decode_field_def Let_def g0(1) ku iu f(1) d(1) s1(1) gi(1) c(1) cur(1) s2(1) g2(1)
          seq_set_element_def put)
    moreover have "seq_inv b0 n ?s'" "same_progress s ?s'"
      using start elements_upd [OF s2(2) _ m3, of 0] d(3) by (simp_all add: seq_inv_def same_progress_def)
    moreover have "unat (m_decoded (seq_elements (sl_seq ?s') ! 0)) = Suc (unat (m_decoded ?m))"
      using l inc m2 by (simp add: k_def)
    ultimately show ?thesis by blast
  qed
qed

lemma same_progress_trans: "same_progress a b \<Longrightarrow> same_progress b c \<Longrightarrow> same_progress a c"
  by (simp add: same_progress_def)

lemma seq_fields_loop_safe:
  "seq_inv b0 n s \<Longrightarrow> unat (m_decoded (seq_elements (sl_seq s) ! 0)) + l \<le> n \<Longrightarrow> unat (seq_decoded (sl_seq s)) < 128 \<Longrightarrow>
     \<exists>r s'. seq_fields_loop l s = Some (r, s') \<and> seq_inv b0 n s' \<and> same_progress s s'"
proof (induction l arbitrary: s)
  case (Suc l)
  then have k: "unat (m_decoded (seq_elements (sl_seq s) ! 0)) < n" by simp
  from seq_decode_field_safe [OF Suc.prems(1) k Suc.prems(3)] obtain r s1 where
    s1: "seq_decode_field s = Some (r, s1)" "seq_inv b0 n s1" "same_progress s s1"
      "r = Inr () \<longrightarrow> unat (m_decoded (seq_elements (sl_seq s1) ! 0)) = Suc (unat (m_decoded (seq_elements (sl_seq s) ! 0)))"
    by blast
  show ?case
  proof (cases r)
    case (Inr u)
    with s1 Suc.prems have "unat (m_decoded (seq_elements (sl_seq s1) ! 0)) + l \<le> n" "unat (seq_decoded (sl_seq s1)) < 128"
      by (simp_all add: same_progress_def)
    from Suc.IH [OF s1(2) this] obtain r' s' where
      "seq_fields_loop l s1 = Some (r', s')" "seq_inv b0 n s'" "same_progress s1 s'" by blast
    with s1 Inr same_progress_trans [OF s1(3)] show ?thesis by auto
  qed (use s1 in auto)
qed (auto simp: same_progress_def)

lemma seq_element_pmap_safe:
  assumes "seq_inv b0 n s"
  shows "\<exists>r s'. seq_element_pmap q s = Some (r, s') \<and> seq_inv b0 n s' \<and> same_progress s s'"
proof (cases "q \<and> \<not> is_valid (seq_pmap (sl_seq s))")
  case True
  let ?sq = "sl_seq s"
  from assms obtain b1 where b1: "moved b0 b1" "moved b1 (sl_buffer s)" by (auto simp: seq_inv_def)
  have "length (pmap_bytes (seq_pmap ?sq)) = 8" using assms by (simp add: seq_inv_def pmap_wf_def)
  from parse_pmap_safe [OF moved_wf [OF b1(2)] this] obtain r p b where
    r: "parse_pmap (sl_buffer s) (seq_pmap ?sq) = Some (r, p, b)" "moved (sl_buffer s) b" "pmap_wf p" by blast
  have "\<exists>b1. moved b0 b1 \<and> moved b1 b \<and> buffer_start (sl_buffer s) = buffer_start b1"
    using r(2) moved_trans [OF b1] by blast
  moreover have "pmap_wf (p\<lparr>is_valid := True, pmap_bit := - 1\<rparr>)" using r(3) by (simp add: pmap_wf_def)
  ultimately show ?thesis using True r assms
    by (cases r) (auto simp: seq_element_pmap_def Let_def seq_inv_def same_progress_def)
qed (use assms in \<open>auto simp: seq_element_pmap_def Let_def same_progress_def\<close>)

lemma seq_elements_loop_safe:
  "seq_inv b0 n s \<Longrightarrow> unat (seq_decoded (sl_seq s)) + l \<le> 128 \<Longrightarrow>
     \<exists>r s'. seq_elements_loop l q s = Some (r, s') \<and> seq_inv b0 n s' \<and> seq_length (sl_seq s') = seq_length (sl_seq s)
       \<and> (r = Inr () \<or> unat (seq_decoded (sl_seq s)) \<le> unat (seq_decoded (sl_seq s'))
           \<and> unat (seq_decoded (sl_seq s')) < unat (seq_decoded (sl_seq s)) + l)"
proof (induction l arbitrary: s)
  case (Suc l)
  from seq_element_pmap_safe [OF Suc.prems(1)] obtain r s1 where
    s1: "seq_element_pmap q s = Some (r, s1)" "seq_inv b0 n s1" "same_progress s s1" by blast
  have d1: "unat (seq_decoded (sl_seq s1)) < 128" using Suc.prems(2) s1(3) by (simp add: same_progress_def)
  show ?case
  proof (cases r)
    case (Inl e)
    with s1 show ?thesis by (auto simp: same_progress_def)
  next
    case r: (Inr u)
    let ?m = "seq_elements (sl_seq s1) ! 0"
    from s1(2) have es: "elements_ok n (seq_elements (sl_seq s1))" by (simp add: seq_inv_def)
    have m: "mem_get (seq_elements (sl_seq s1)) 0 = Some ?m" "element_ok n ?m" using elements_nth [OF es, of 0] by auto
    have i2: "seq_inv b0 n (s1\<lparr>sl_msg := True\<rparr>)" using s1(2) by (simp add: seq_inv_def)
    have "unat (m_decoded ?m) + (unat (nr_fields ?m) - unat (m_decoded ?m)) \<le> n" using m(2) by (simp add: element_ok_def)
    with seq_fields_loop_safe [OF i2, of "unat (nr_fields ?m) - unat (m_decoded ?m)"] d1 obtain r' s2 where
      s2: "seq_fields_loop (unat (nr_fields ?m) - unat (m_decoded ?m)) (s1\<lparr>sl_msg := True\<rparr>) = Some (r', s2)"
        "seq_inv b0 n s2" "same_progress s1 s2" by (auto simp: same_progress_def)
    have p2: "same_progress s s2" using s1(3) s2(3) by (rule same_progress_trans)
    show ?thesis
    proof (cases r')
      case (Inl e)
      with r s1 m s2 p2 show ?thesis by (auto simp: same_progress_def)
    next
      case r': (Inr u)
      let ?m2 = "seq_elements (sl_seq s2) ! 0"
      from s2(2) have es2: "elements_ok n (seq_elements (sl_seq s2))" by (simp add: seq_inv_def)
      have m2: "mem_get (seq_elements (sl_seq s2)) 0 = Some ?m2" "element_ok n ?m2" using elements_nth [OF es2, of 0] by auto
      have m3: "element_ok n (?m2\<lparr>m_decoded := 0\<rparr>)" using m2(2) by (simp add: element_ok_def)
      let ?es3 = "(seq_elements (sl_seq s2))[0 := ?m2\<lparr>m_decoded := 0\<rparr>]"
      have put: "mem_put (seq_elements (sl_seq s2)) 0 (?m2\<lparr>m_decoded := 0\<rparr>) = Some ?es3"
        using es2 mem_put_Some [of 0 "seq_elements (sl_seq s2)"] by (simp add: elements_ok_def)
      let ?sq3 = "(sl_seq s2)\<lparr>seq_elements := ?es3, seq_pmap := (seq_pmap (sl_seq s2))\<lparr>is_valid := False\<rparr>,
        seq_decoded := seq_decoded (sl_seq s2) + 1\<rparr>"
      let ?s3 = "s2\<lparr>sl_seq := ?sq3\<rparr>"
      have i3: "seq_inv b0 n ?s3"
        using s2(2) elements_upd [OF es2 _ m3, of 0] by (simp add: seq_inv_def pmap_wf_def)
      have d3: "unat (seq_decoded ?sq3) = Suc (unat (seq_decoded (sl_seq s)))"
        using p2 Suc.prems(2) by (simp add: same_progress_def unat_word_ariths)
      with Suc.prems(2) have "unat (seq_decoded (sl_seq ?s3)) + l \<le> 128" by simp
      from Suc.IH [OF i3 this] obtain r4 s4 where
        s4: "seq_elements_loop l q ?s3 = Some (r4, s4)" "seq_inv b0 n s4" "seq_length (sl_seq s4) = seq_length (sl_seq ?s3)"
          "r4 = Inr () \<or> unat (seq_decoded (sl_seq ?s3)) \<le> unat (seq_decoded (sl_seq s4))
             \<and> unat (seq_decoded (sl_seq s4)) < unat (seq_decoded (sl_seq ?s3)) + l" by blast
      have "seq_elements_loop (Suc l) q s = Some (r4, s4)"
        using s1(1) r m(1) s2(1) r' m2(1) put s4(1) by (simp add: Let_def seq_set_element_def)
      moreover have "seq_length (sl_seq s4) = seq_length (sl_seq s)" using s4(3) p2 by (simp add: same_progress_def)
      moreover have "r4 = Inr () \<or> unat (seq_decoded (sl_seq s)) \<le> unat (seq_decoded (sl_seq s4))
           \<and> unat (seq_decoded (sl_seq s4)) < unat (seq_decoded (sl_seq s)) + Suc l"
        using s4(4) d3 by auto
      ultimately show ?thesis using s4(2) by blast
    qed
  qed
qed auto

text \<open>A sequence between two calls: if it is half decoded, it has a length, below 128.\<close>

definition seq_ok :: "fast_sequence \<Rightarrow> bool" where
  "seq_ok sq \<longleftrightarrow> (\<exists>n. elements_ok n (seq_elements sq)) \<and> pmap_wf (seq_pmap sq)
     \<and> (seq_decoded sq \<noteq> 0 \<longrightarrow> unat (seq_decoded sq) \<le> unat (int_value (seq_length sq)) \<and> unat (int_value (seq_length sq)) < 128)"

definition seq_field_ok :: "seq_field \<Rightarrow> bool" where
  "seq_field_ok f \<longleftrightarrow> field_ok f \<and> (f_type f = FAST_TYPE_SEQUENCE \<longrightarrow> (\<exists>sq. ptr_value f = Some sq \<and> seq_ok sq))"

lemma field_ok_ptr: "field_ok (f\<lparr>ptr_value := x\<rparr>) = field_ok (f :: seq_field)"
  by (simp add: field_ok_def field_arrays_def field_kind_def field_has_flags_def)

text \<open>What the label \<open>exit\<close> leaves.\<close>

lemma seq_exit_safe:
  assumes "field_ok f" "f_type f = FAST_TYPE_SEQUENCE" "seq_inv b0 n s" "pmap_wf p"
    and "seq_decoded (sl_seq s) \<noteq> 0 \<longrightarrow> unat (seq_decoded (sl_seq s)) \<le> unat (int_value (seq_length (sl_seq s)))
      \<and> unat (int_value (seq_length (sl_seq s))) < 128"
  shows "\<exists>r' b' p' f'. seq_exit r p f s = Some (r', b', p', f') \<and> moved b0 b' \<and> pmap_wf p' \<and> seq_field_ok f'"
proof -
  from assms(3) obtain b1 where b1: "moved b0 b1" "moved b1 (sl_buffer s)" "sl_start s = buffer_start b1"
    by (auto simp: seq_inv_def)
  let ?sq = "sl_seq s"
  let ?sq' = "if sl_msg s then ?sq\<lparr>seq_pmap := (seq_pmap ?sq)\<lparr>pmap_bit := sl_bit s\<rparr>\<rparr> else ?sq"
  have "seq_ok ?sq" "seq_ok ?sq'" using assms(3,5) by (auto simp: seq_inv_def seq_ok_def pmap_wf_def)
  then have "seq_field_ok (f\<lparr>ptr_value := Some ?sq'\<rparr>)" "seq_field_ok (f\<lparr>ptr_value := Some ?sq\<rparr>)"
    using assms(1) by (simp_all add: seq_field_ok_def field_ok_ptr)
  with b1 assms(2,4) rewind_moved [OF b1(1,2)] moved_trans [OF b1(1,2)] show ?thesis
    by (cases "r = Inl FAST_MSG_STATE_PARTIAL") (simp_all add: seq_exit_def Let_def)
qed

lemma seq_decode_elements_safe:
  assumes f: "field_ok f" "f_type f = FAST_TYPE_SEQUENCE" and inv: "seq_inv b0 n s" and p: "pmap_wf p"
    and d: "seq_decoded (sl_seq s) \<noteq> 0" "unat (seq_decoded (sl_seq s)) \<le> Suc (unat (int_value (seq_length (sl_seq s))))"
      "unat (int_value (seq_length (sl_seq s))) < 128"
  shows "\<exists>r' b' p' f'. seq_decode_elements p f s = Some (r', b', p', f') \<and> moved b0 b' \<and> pmap_wf p' \<and> seq_field_ok f'"
proof -
  let ?l = "Suc (unat (int_value (seq_length (sl_seq s)))) - unat (seq_decoded (sl_seq s))"
  have "unat (seq_decoded (sl_seq s)) + ?l \<le> 128" using d by simp
  from seq_elements_loop_safe [OF inv this] obtain r s1 where
    s1: "seq_elements_loop ?l (field_has_flags f FAST_FIELD_FLAGS_PMAPREQ \<noteq> 0) s = Some (r, s1)" "seq_inv b0 n s1"
      "seq_length (sl_seq s1) = seq_length (sl_seq s)"
      "r = Inr () \<or> unat (seq_decoded (sl_seq s)) \<le> unat (seq_decoded (sl_seq s1))
         \<and> unat (seq_decoded (sl_seq s1)) < unat (seq_decoded (sl_seq s)) + ?l" by blast
  show ?thesis
  proof (cases r)
    case (Inl e)
    with s1(4) d(2) have "unat (seq_decoded (sl_seq s1)) \<le> unat (int_value (seq_length (sl_seq s1)))"
      unfolding s1(3) by auto
    with d s1(3) seq_exit_safe [OF f s1(2) p, of r] have
      "\<exists>r' b' p' f'. seq_exit r p f s1 = Some (r', b', p', f') \<and> moved b0 b' \<and> pmap_wf p' \<and> seq_field_ok f'" by simp
    with s1(1) Inl show ?thesis by (simp add: seq_decode_elements_def)
  next
    case (Inr u)
    let ?s = "s1\<lparr>sl_seq := (sl_seq s1)\<lparr>seq_decoded := 0\<rparr>\<rparr>"
    have "seq_inv b0 n ?s" using s1(2) by (simp add: seq_inv_def)
    from seq_exit_safe [OF f this p, of r] s1(1) Inr show ?thesis by (simp add: seq_decode_elements_def)
  qed
qed

lemma fast_decode_sequence_safe:
  assumes f: "seq_field_ok f" "f_type f = FAST_TYPE_SEQUENCE"
  shows "safely fast_decode_sequence seq_field_ok f"
proof (rule safelyI)
  fix b p
  assume b: "buffer_wf b" and p: "pmap_wf p"
  from f obtain sq where sq: "ptr_value f = Some sq" "seq_ok sq" and ok: "field_ok f" by (auto simp: seq_field_ok_def)
  then obtain n where n: "elements_ok n (seq_elements sq)" "pmap_wf (seq_pmap sq)" by (auto simp: seq_ok_def)
  let ?s = "\<lparr>sl_buffer = b, sl_seq = sq, sl_start = buffer_start b, sl_msg = False, sl_bit = 0\<rparr>"
  show "\<exists>r b' p' f'. fast_decode_sequence b p f = Some (r, b', p', f') \<and> moved b b' \<and> pmap_wf p' \<and> seq_field_ok f'"
  proof (cases "seq_decoded sq = 0")
    case False
    have "seq_inv b n ?s" using n moved_refl [OF b] by (auto simp: seq_inv_def)
    from seq_decode_elements_safe [OF ok f(2) this p] sq False show ?thesis
      by (simp add: fast_decode_sequence_def seq_ok_def)
  next
    case True
    from safelyD [OF fast_decode_uint_safe b p, of "seq_length sq"] obtain r b1 p1 len where
      r: "fast_decode_uint b p (seq_length sq) = Some (r, b1, p1, len)" "moved b b1" "pmap_wf p1" .
    let ?s1 = "?s\<lparr>sl_buffer := b1, sl_seq := sq\<lparr>seq_length := len\<rparr>\<rparr>"
    have i1: "seq_inv b n ?s1" using n r(2) moved_refl [OF b] by (auto simp: seq_inv_def)
    have ex: "\<exists>r' b' p' f'. seq_exit x p1 f ?s1 = Some (r', b', p', f') \<and> moved b b' \<and> pmap_wf p' \<and> seq_field_ok f'" for x
      using True by (intro seq_exit_safe [OF ok f(2) i1 r(3)]) simp
    let ?s2 = "?s1\<lparr>sl_seq := sq\<lparr>seq_length := len, seq_decoded := 1\<rparr>\<rparr>"
    have i2: "seq_inv b n ?s2" using i1 by (simp add: seq_inv_def)
    have go: "\<exists>r' b' p' f'. seq_decode_elements p1 f ?s2 = Some (r', b', p', f') \<and> moved b b' \<and> pmap_wf p' \<and> seq_field_ok f'"
      if "\<not> FAST_SEQUENCE_ELEMENTS \<le> int_value len"
      by (rule seq_decode_elements_safe [OF ok f(2) i2 r(3)])
         (use that in \<open>simp_all add: FAST_SEQUENCE_ELEMENTS_def word_le_nat_alt\<close>)
    show ?thesis using sq True r ex go
      by (cases r) (auto simp: fast_decode_sequence_def Let_def simp del: ex_simps)
  qed
qed

subsection \<open>Messages and sessions\<close>

text \<open>\<open>decode_element_field\<close> is written for the fields of elements; with the sequence put aside it also says what
  the decoder of a message does with the other types.\<close>

lemma decode_message_field_safe:
  assumes "seq_field_ok f"
  shows "safely decode_message_field seq_field_ok f"
proof (cases "f_type f = FAST_TYPE_SEQUENCE")
  case True
  from fast_decode_sequence_safe [OF assms True] True show ?thesis by (simp add: safely_def decode_message_field_def)
next
  case False
  have ok: "field_ok f" using assms by (simp add: seq_field_ok_def)
  note k = kept_refl [OF ok]
  have v: "f_type f \<noteq> FAST_TYPE_VECTOR" using ok by (simp add: field_ok_def field_kind_def)
  have "safely decode_message_field (kept f) f"
    using fast_decode_int_kept [OF k] fast_decode_uint_kept [OF k] fast_decode_string_safe [OF k]
      fast_decode_decimal_safe [OF k] v False
    unfolding safely_def decode_message_field_def
    by (cases "f_type f") (simp_all only: fast_type.case fast_type.distinct simp_thms)
  then show ?thesis
    by (rule safely_mono) (use False in \<open>auto simp: kept_def seq_field_ok_def\<close>)
qed

definition message_ok :: "seq_field fast_message \<Rightarrow> bool" where
  "message_ok m \<longleftrightarrow> unat (nr_fields m) \<le> length (m_fields m) \<and> unat (m_decoded m) \<le> unat (nr_fields m)
     \<and> (\<forall>f\<in>set (m_fields m). seq_field_ok f)"

lemma message_upd: "message_ok m \<Longrightarrow> seq_field_ok f \<Longrightarrow> message_ok (m\<lparr>m_fields := (m_fields m)[k := f]\<rparr>)"
  using set_update_subset_insert [of "m_fields m" k f] by (auto simp: message_ok_def)

text \<open>A place in the input between \<open>b0\<close> and \<open>b\<close>.\<close>

definition between :: "buffer \<Rightarrow> ptr \<Rightarrow> buffer \<Rightarrow> bool" where
  "between b0 start b \<longleftrightarrow> (\<exists>b1. moved b0 b1 \<and> moved b1 b \<and> start = buffer_start b1)"

lemma between_rewind: "between b0 start b \<Longrightarrow> moved b0 (buffer_rewind b start)"
  unfolding between_def using rewind_moved by blast

lemma between_moved: "between b0 start b \<Longrightarrow> moved b0 b"
  unfolding between_def using moved_trans by blast

lemma between_later: "moved b0 b \<Longrightarrow> moved b b' \<Longrightarrow> between b0 (buffer_start b) b'"
  unfolding between_def by blast

lemma between_start: "buffer_wf b \<Longrightarrow> between b (buffer_start b) b"
  by (rule between_later) auto

lemma message_fields_loop_safe:
  "between b0 start b \<Longrightarrow> pmap_wf p \<Longrightarrow> message_ok msg \<Longrightarrow> unat (m_decoded msg) + n \<le> unat (nr_fields msg) \<Longrightarrow>
     \<exists>r b' p' msg' start' i'. message_fields_loop n b p msg start i = Some (r, b', p', msg', start', i')
       \<and> between b0 start' b' \<and> pmap_wf p' \<and> message_ok msg'"
proof (induction n arbitrary: b p msg start i)
  case (Suc n)
  define k where "k = unat (m_decoded msg)"
  have ku: "uint (m_decoded msg) = int k" by (simp add: k_def uint_nat del: of_nat_unat)
  have kn: "k < unat (nr_fields msg)" "k < length (m_fields msg)" using Suc.prems(3,4) by (auto simp: k_def message_ok_def)
  note m0 = between_moved [OF Suc.prems(1)]
  let ?f = "m_fields msg ! k"
  have f: "mem_get (m_fields msg) (int k) = Some ?f" "seq_field_ok ?f"
    using kn Suc.prems(3) by (auto simp: mem_get_Some message_ok_def)
  from safelyD [OF decode_message_field_safe [OF f(2)] moved_wf [OF m0] Suc.prems(2)] obtain r b1 p1 f1 where
    d: "decode_message_field b p ?f = Some (r, b1, p1, f1)" "moved b b1" "pmap_wf p1" "seq_field_ok f1" .
  let ?msg = "msg\<lparr>m_fields := (m_fields msg)[k := f1]\<rparr>"
  have put: "mem_put (m_fields msg) (int k) f1 = Some ((m_fields msg)[k := f1])" using kn by (simp add: mem_put_Some)
  have ok: "message_ok ?msg" by (rule message_upd [OF Suc.prems(3) d(4)])
  have m1: "moved b0 b1" using m0 d(2) by (rule moved_trans)
  have bt: "between b0 (buffer_start b) b1" "between b0 (buffer_start b1) b1"
    using between_later [OF m0 d(2)] between_later [OF m1 moved_refl [OF moved_wf [OF m1]]] by auto
  show ?case
  proof (cases r)
    case (Inl e)
    with f(1) d(1,3) put ok bt show ?thesis by (simp add: Let_def ku)
  next
    case (Inr u)
    let ?msg1 = "?msg\<lparr>m_decoded := m_decoded msg + 1\<rparr>"
    have inc: "unat (m_decoded msg + 1) = Suc k" using kn(1) by (simp add: unat_plus_1 k_def)
    have "message_ok ?msg1" "unat (m_decoded ?msg1) + n \<le> unat (nr_fields ?msg1)"
      using ok inc kn Suc.prems(4) by (simp_all add: message_ok_def k_def)
    from Suc.IH [OF bt(1) d(3) this, of "pmap_bit p"] f(1) d(1) put Inr show ?thesis by (simp add: Let_def ku)
  qed
qed auto

definition session_ok :: "fast_session \<Rightarrow> bool" where
  "session_ok s \<longleftrightarrow> buffer_wf (rx_buffer s) \<and> pmap_wf (s_pmap s)
     \<and> length (rx_messages s) = 128 \<and> (\<forall>m\<in>set (rx_messages s). message_ok m)
     \<and> (case rx_message s of None \<Rightarrow> True | Some mi \<Rightarrow> 0 \<le> mi \<and> mi < 128)
     \<and> unat (pre_nr_bytes (s_preamble s)) \<le> 8 \<and> length (pre_bytes (s_preamble s)) = 8
     \<and> 0 \<le> sint (nr_messages s) \<and> sint (nr_messages s) \<le> 128"

text \<open>What a call of the decoder answers: it returns, keeps the session, and moves on in the input only.\<close>

definition decodes :: "buffer \<Rightarrow> (ptr option \<times> fast_session) option \<Rightarrow> bool" where
  "decodes b0 x \<longleftrightarrow> (\<exists>m s'. x = Some (m, s') \<and> session_ok s' \<and> moved b0 (rx_buffer s')
     \<and> (case m of None \<Rightarrow> True | Some mi \<Rightarrow> 0 \<le> mi \<and> mi < 128))"

lemma session_buffer: "session_ok s \<Longrightarrow> buffer_wf b \<Longrightarrow> session_ok (s\<lparr>rx_buffer := b\<rparr>)"
  by (simp add: session_ok_def)

lemma decode_fail_safe:
  assumes "session_ok (s\<lparr>rx_buffer := b0\<rparr>)" "between b0 start (rx_buffer s)"
  shows "decodes b0 (decode_fail e start i s)"
proof -
  have m: "moved b0 (rx_buffer s)" "moved b0 (buffer_rewind (rx_buffer s) start)"
    using assms(2) by (auto intro: between_moved between_rewind)
  with assms(1) show ?thesis
    by (auto simp: decode_fail_def decodes_def session_ok_def pmap_wf_def moved_def split: option.splits)
qed

lemma messages_upd:
  "length ms = 128 \<Longrightarrow> \<forall>m\<in>set ms. message_ok m \<Longrightarrow> message_ok m \<Longrightarrow> 0 \<le> mi \<Longrightarrow> mi < 128 \<Longrightarrow>
     \<exists>ms'. mem_put ms mi m = Some ms' \<and> length ms' = 128 \<and> (\<forall>m\<in>set ms'. message_ok m)"
  using set_update_subset_insert [of ms "nat mi" m] by (auto simp: mem_put_def)

lemma decode_fields_safe:
  assumes s: "session_ok s" and mi: "0 \<le> mi" "mi < 128" and m0: "moved b0 (rx_buffer s)"
  shows "decodes b0 (decode_fields mi s)"
proof -
  have len: "length (rx_messages s) = 128" "\<forall>m\<in>set (rx_messages s). message_ok m" using s by (simp_all add: session_ok_def)
  let ?msg = "rx_messages s ! nat mi"
  have g: "mem_get (rx_messages s) mi = Some ?msg" "message_ok ?msg" using mi len by (auto simp: mem_get_def)
  have pw: "pmap_wf (s_pmap s)" using s by (simp add: session_ok_def)
  have "between b0 (buffer_start (rx_buffer s)) (rx_buffer s)"
    by (rule between_later [OF m0 moved_refl [OF moved_wf [OF m0]]])
  from message_fields_loop_safe [OF this pw g(2), of "unat (nr_fields ?msg) - unat (m_decoded ?msg)" 0] g(2)
  obtain r b p msg st i where
    l: "message_fields_loop (unat (nr_fields ?msg) - unat (m_decoded ?msg)) (rx_buffer s) (s_pmap s) ?msg
        (buffer_start (rx_buffer s)) 0 = Some (r, b, p, msg, st, i)"
      "between b0 st b" "pmap_wf p" "message_ok msg" by (auto simp: message_ok_def)
  show ?thesis
  proof (cases r)
    case (Inl e)
    from messages_upd [OF len l(4) mi] obtain ms where
      ms: "mem_put (rx_messages s) mi msg = Some ms" "length ms = 128" "\<forall>m\<in>set ms. message_ok m" by blast
    let ?s = "s\<lparr>rx_buffer := b, s_pmap := p, rx_messages := ms\<rparr>"
    have "session_ok (?s\<lparr>rx_buffer := b0\<rparr>)" "between b0 st (rx_buffer ?s)"
      using s l ms m0 between_moved [OF l(2)] by (auto simp: session_ok_def moved_def buffer_wf_def)
    from decode_fail_safe [OF this] Inl g(1) l(1) ms(1) show ?thesis by (simp add: decode_fields_def)
  next
    case (Inr u)
    have "message_ok (msg\<lparr>m_decoded := 0\<rparr>)" using l(4) by (simp add: message_ok_def)
    from messages_upd [OF len this mi] obtain ms where
      ms: "mem_put (rx_messages s) mi (msg\<lparr>m_decoded := 0\<rparr>) = Some ms" "length ms = 128" "\<forall>m\<in>set ms. message_ok m" by blast
    then show ?thesis using Inr g(1) l between_moved [OF l(2)] s mi
      by (auto simp: decode_fields_def decodes_def session_ok_def pmap_wf_def)
  qed
qed

lemma get_msg_loop_safe:
  "i + n \<le> length msgs \<Longrightarrow> \<exists>mi. get_msg_loop msgs tid i n = Some mi
     \<and> (case mi of None \<Rightarrow> True | Some mi \<Rightarrow> 0 \<le> mi \<and> mi < int (length msgs))"
  by (induction n arbitrary: i) (auto simp: mem_get_Some)

lemma decode_template_safe:
  assumes s: "session_ok s" and m0: "moved b0 (rx_buffer s)"
  shows "decodes b0 (decode_template s)"
proof (cases "rx_message s")
  case (Some mi)
  with s have "0 \<le> mi" "mi < 128" by (simp_all add: session_ok_def)
  from decode_fields_safe [OF s this m0] Some show ?thesis by (simp add: decode_template_def)
next
  case None
  let ?st = "buffer_start (rx_buffer s)"
  have pw: "pmap_wf (s_pmap s)" and len: "length (rx_messages s) = 128" using s by (simp_all add: session_ok_def)
  from parse_uint_safe [OF moved_wf [OF m0]] obtain r b where
    r: "parse_uint (rx_buffer s) = Some (r, b)" "moved (rx_buffer s) b" by blast
  have b0w: "session_ok (x\<lparr>rx_buffer := b0\<rparr>)" if "session_ok x" for x
    using that m0 by (auto simp: session_ok_def moved_def buffer_wf_def)
  have go: "decodes b0 (do { mi \<leftarrow> fast_get_msg (rx_messages s') (ucast tid);
      (case mi of None \<Rightarrow> decode_fail FAST_MSG_STATE_GARBLED ?st None s'
       | Some mi \<Rightarrow> decode_fields mi (s'\<lparr>rx_message := Some mi\<rparr>)) })"
    if s': "s' = s\<lparr>rx_buffer := b'\<rparr>" "moved (rx_buffer s) b'" for s' b' and tid :: u64
  proof -
    have ok: "session_ok s'" using session_buffer [OF s moved_wf [OF s'(2)]] s'(1) by simp
    have mb: "moved b0 (rx_buffer s')" using moved_trans [OF m0 s'(2)] s'(1) by simp
    have l': "length (rx_messages s') = 128" using len s'(1) by simp
    from get_msg_loop_safe [of 0 128 "rx_messages s'" "ucast tid"] obtain mi where
      mi: "fast_get_msg (rx_messages s') (ucast tid) = Some mi"
        "case mi of None \<Rightarrow> True | Some mi \<Rightarrow> 0 \<le> mi \<and> mi < 128"
      unfolding fast_get_msg_def FAST_TEMPLATE_MAX_NUMBER_def l' of_nat_numeral by auto
    show ?thesis
    proof (cases mi)
      case None
      have "between b0 ?st (rx_buffer s')" using between_later [OF m0 s'(2)] s'(1) by simp
      from decode_fail_safe [OF b0w [OF ok] this] None mi(1) show ?thesis by simp
    next
      case (Some i)
      with mi(2) have "0 \<le> i" "i < 128" "session_ok (s'\<lparr>rx_message := Some i\<rparr>)" "moved b0 (rx_buffer (s'\<lparr>rx_message := Some i\<rparr>))"
        using ok mb by (simp_all add: session_ok_def)
      from decode_fields_safe [OF this(3,1,2,4)] Some mi(1) show ?thesis by simp
    qed
  qed
  show ?thesis
  proof (cases "pmap_get (s_pmap s) 0")
    case False
    with None pmap_is_set_get [OF pw, of 0] go [of s "rx_buffer s" "last_tid s"] moved_refl [OF moved_wf [OF m0]]
    show ?thesis by (simp add: decode_template_def Let_def)
  next
    case True
    note set = pmap_is_set_get [OF pw, of 0]
    show ?thesis
    proof (cases r)
      case (Inl e)
      have "session_ok (s\<lparr>rx_buffer := b\<rparr>)" by (rule session_buffer [OF s moved_wf [OF r(2)]])
      from b0w [OF this] have "decodes b0 (decode_fail e ?st None (s\<lparr>rx_buffer := b\<rparr>))"
        by (rule decode_fail_safe) (use between_later [OF m0 r(2)] in simp)
      with True None set r(1) Inl show ?thesis by (simp add: decode_template_def Let_def)
    next
      case (Inr tid)
      with True None set r go [of "s\<lparr>rx_buffer := b\<rparr>" b tid] show ?thesis by (simp add: decode_template_def Let_def)
    qed
  qed
qed

lemma decode_pmap_safe:
  assumes s: "session_ok s" and m0: "moved b0 (rx_buffer s)"
  shows "decodes b0 (decode_pmap s)"
proof (cases "is_valid (s_pmap s)")
  case True
  with decode_template_safe [OF assms] show ?thesis by (simp add: decode_pmap_def)
next
  case False
  have "length (pmap_bytes (s_pmap s)) = 8" using s by (simp add: session_ok_def pmap_wf_def)
  from parse_pmap_safe [OF moved_wf [OF m0] this] obtain r p b where
    r: "parse_pmap (rx_buffer s) (s_pmap s) = Some (r, p, b)" "moved (rx_buffer s) b" "pmap_wf p" by blast
  show ?thesis
  proof (cases r)
    case (Inl e)
    let ?s = "s\<lparr>rx_buffer := b, s_pmap := p\<rparr>"
    have "session_ok (?s\<lparr>rx_buffer := b0\<rparr>)" "between b0 (buffer_start (rx_buffer s)) (rx_buffer ?s)"
      using s m0 r(3) between_later [OF m0 r(2)] by (auto simp: session_ok_def moved_def buffer_wf_def)
    from decode_fail_safe [OF this] False r(1) Inl show ?thesis by (simp add: decode_pmap_def Let_def)
  next
    case (Inr u)
    let ?s = "s\<lparr>rx_buffer := b, s_pmap := p\<lparr>is_valid := True, pmap_bit := 0\<rparr>\<rparr>"
    have "session_ok ?s" "moved b0 (rx_buffer ?s)"
      using s moved_wf [OF r(2)] r(3) moved_trans [OF m0 r(2)] by (auto simp: session_ok_def pmap_wf_def)
    from decode_template_safe [OF this] False r(1) Inr show ?thesis by (simp add: decode_pmap_def Let_def)
  qed
qed

lemma get_n_moved:
  assumes "buffer_wf b" "n \<le> unat (buffer_size b)"
  shows "\<exists>cs b'. buffer_get_n b n = Some (cs, b') \<and> length cs = n \<and> moved b b'"
proof -
  note h = holdsI [OF assms(1)]
  have l: "n \<le> length (buf_bytes b)" using assms(2) holds_size [OF h] by simp
  have w: "buffer_wf (buffer_advance b (of_nat n))" by (rule holds_wf [OF holds_advance [OF h l]])
  have "unat (b_start b) + n \<le> unat (b_end b)"
    using assms(1) l holds_length [OF h] by (auto simp: buffer_wf_def)
  from unat_plus_of_nat [OF this] w have "moved b (buffer_advance b (of_nat n))"
    by (simp add: moved_def buffer_advance_def)
  with holds_get_n [OF h l] l show ?thesis by auto
qed

lemma fast_message_decode_safe:
  assumes s: "session_ok s"
  shows "decodes (rx_buffer s) (fast_message_decode s)"
proof -
  let ?pre = "s_preamble s" and ?b = "rx_buffer s"
  have b: "buffer_wf ?b" and pre: "unat (pre_nr_bytes ?pre) \<le> 8" "length (pre_bytes ?pre) = 8"
    using s by (simp_all add: session_ok_def)
  consider "\<not> (pre_nr_bytes ?pre \<noteq> 0 \<and> \<not> pre_is_valid ?pre)"
    | "pre_nr_bytes ?pre \<noteq> 0" "\<not> pre_is_valid ?pre" "buffer_size ?b < pre_nr_bytes ?pre"
    | "pre_nr_bytes ?pre \<noteq> 0" "\<not> pre_is_valid ?pre" "\<not> buffer_size ?b < pre_nr_bytes ?pre" by blast
  then show ?thesis
  proof cases
    case 1
    with decode_pmap_safe [OF s moved_refl [OF b]] show ?thesis by (auto simp: fast_message_decode_def Let_def)
  next
    case 2
    have "session_ok (s\<lparr>rx_buffer := ?b\<rparr>)" using s by simp
    from decode_fail_safe [OF this between_start [OF b]] 2 show ?thesis by (simp add: fast_message_decode_def Let_def)
  next
    case 3
    then have "unat (pre_nr_bytes ?pre) \<le> unat (buffer_size ?b)" by (simp add: not_less word_le_nat_alt)
    from get_n_moved [OF b this] obtain cs b1 where
      c: "buffer_get_n ?b (unat (pre_nr_bytes ?pre)) = Some (cs, b1)" "length cs = unat (pre_nr_bytes ?pre)" "moved ?b b1" by blast
    have "mem_store (pre_bytes ?pre) 0 cs = Some (splice (pre_bytes ?pre) 0 cs)"
      using mem_store_splice [of 0 cs "pre_bytes ?pre"] c(2) pre by simp
    moreover have "session_ok (s\<lparr>rx_buffer := b1, s_preamble := ?pre\<lparr>pre_is_valid := True, pre_bytes := splice (pre_bytes ?pre) 0 cs\<rparr>\<rparr>)"
      using s c pre by (auto simp: session_ok_def)
    from decode_pmap_safe [OF this] c(3) have "decodes ?b (decode_pmap (s\<lparr>rx_buffer := b1,
        s_preamble := ?pre\<lparr>pre_is_valid := True, pre_bytes := splice (pre_bytes ?pre) 0 cs\<rparr>\<rparr>))" by simp
    ultimately show ?thesis using 3 c(1) by (simp add: fast_message_decode_def Let_def)
  qed
qed

subsection \<open>Receiving\<close>

text \<open>A receive function that leaves a buffer a buffer.\<close>

definition reads_into :: "(buffer \<Rightarrow> ulong \<Rightarrow> 'k \<Rightarrow> (i64 \<times> buffer \<times> 'k) option) \<Rightarrow> 'k \<Rightarrow> bool" where
  "reads_into rd k \<longleftrightarrow> (\<forall>b n. buffer_wf b \<longrightarrow> (\<exists>nr b' k'. rd b n k = Some (nr, b', k') \<and> buffer_wf b'))"

lemma fast_session_recv_safe:
  assumes s: "session_ok s" and rd: "reads_into rd k"
  shows "\<exists>m s' k'. fast_session_recv rd s k = Some (m, s', k') \<and> session_ok s'"
proof -
  from fast_message_decode_safe [OF s] obtain m s1 where
    s1: "fast_message_decode s = Some (m, s1)" "session_ok s1" by (auto simp: decodes_def)
  have b1: "buffer_wf (rx_buffer s1)" using s1(2) by (simp add: session_ok_def)
  obtain b2 where b2: "(if buffer_remaining (rx_buffer s1) \<le> FAST_MESSAGE_MAX_SIZE then buffer_compact (rx_buffer s1)
      else Some (rx_buffer s1)) = Some b2" "buffer_wf b2"
    using compact_holds [OF holdsI [OF b1]] b1 by (cases "buffer_remaining (rx_buffer s1) \<le> FAST_MESSAGE_MAX_SIZE") auto
  from rd b2(2) obtain nr b3 k3 where b3: "rd b2 FAST_MESSAGE_MAX_SIZE k = Some (nr, b3, k3)" "buffer_wf b3"
    unfolding reads_into_def by blast
  have ok: "session_ok (s1\<lparr>rx_buffer := b3\<rparr>)" by (rule session_buffer [OF s1(2) b3(2)])
  from fast_message_decode_safe [OF ok] obtain m2 s2 where
    "fast_message_decode (s1\<lparr>rx_buffer := b3\<rparr>) = Some (m2, s2)" "session_ok s2" by (auto simp: decodes_def)
  with s1 b2 b3 ok show ?thesis by (cases m) (auto simp: fast_session_recv_def Let_def)
qed

subsection \<open>Templates make well-typed sessions\<close>

text \<open>A document without fields that have a length on the wire.\<close>

fun plain_doc :: "xml \<Rightarrow> bool" where
  "plain_doc Other = True"
| "plain_doc (Element nm ps ns) \<longleftrightarrow> nm \<notin> {''bytevector'', ''byteVector''} \<and> map_of ps ''charset'' \<noteq> Some ''unicode''
     \<and> (\<forall>n\<in>set ns. plain_doc n)"

lemma plain_next: "\<forall>n\<in>set ns. plain_doc n \<Longrightarrow> next_element ns = m # ms \<Longrightarrow> plain_doc m \<and> (\<forall>n\<in>set ms. plain_doc n)"
  by (metis next_element_def set_dropWhileD list.set_intros)

lemma zero_field_ok: "seq_field_ok zero_field"
  by (simp add: zero_field_def zero_scalar_def seq_field_ok_def field_ok_def field_arrays_def field_kind_def
      string_ok_def fast_scalar.defs fast_field.defs)

text \<open>A field whose type has been read, with nothing else of its kind set.\<close>

definition bare :: "seq_field \<Rightarrow> bool" where
  "bare f \<longleftrightarrow> field_arrays f \<and> f_type f \<noteq> FAST_TYPE_VECTOR \<and> f_flags f = 0 \<and> decimal_fields f = None \<and> ptr_value f = None
     \<and> f_state f = FAST_STATE_UNDEFINED \<and> f_state_previous f = FAST_STATE_UNDEFINED"

lemma zero_field_bare: "bare zero_field"
  by (simp add: zero_field_def zero_scalar_def bare_def field_arrays_def string_ok_def fast_scalar.defs fast_field.defs)

lemma if_InrE:
  "(if c then Inr x else y) = Inr z \<Longrightarrow> (c \<Longrightarrow> z = x \<Longrightarrow> R) \<Longrightarrow> (\<not> c \<Longrightarrow> y = Inr z \<Longrightarrow> R) \<Longrightarrow> R"
  by (simp split: if_splits)

lemma fast_type_init_cases:
  assumes "fast_type_init node f = Inr f'"
  shows "\<exists>t. f' = f\<lparr>f_type := t\<rparr> \<and> (t = FAST_TYPE_VECTOR \<longrightarrow> xml_name node \<in> {''bytevector'', ''byteVector''})
    \<and> (t = FAST_TYPE_SEQUENCE \<longrightarrow> xml_name node \<in> {''sequence'', ''Sequence''})"
  by (insert assms, unfold fast_type_init_def Let_def, (erule if_InrE, rule exI, rule conjI, assumption, rule conjI,
        (simp only: fast_type.distinct simp_thms | (rule impI, assumption)),
        (simp only: fast_type.distinct simp_thms | (rule impI, assumption)))+, simp)

lemma fast_type_init_Other: "fast_type_init Other f = Inl ()"
  by (simp add: fast_type_init_def)

lemma field_head_bare:
  assumes "field_head node zero_field = Inr f" "plain_doc node"
  shows "bare f"
proof -
  obtain nm ps ns where node: "node = Element nm ps ns"
    using assms(1) by (cases node) (auto simp: field_head_def fast_type_init_Other)
  have z: "bare (zero_field\<lparr>f_state := FAST_STATE_UNDEFINED\<rparr>)"
    using zero_field_bare by (simp add: bare_def field_arrays_def)
  from assms(1) obtain f1 f2 where f1: "fast_type_init node (zero_field\<lparr>f_state := FAST_STATE_UNDEFINED\<rparr>) = Inr f1"
    and f2: "fast_presence_init node f1 = Inr f2" and f: "f = fast_misc_init node f2"
    by (auto simp: field_head_def split: sum.splits)
  from fast_type_init_cases [OF f1] obtain t where t: "f1 = zero_field\<lparr>f_state := FAST_STATE_UNDEFINED, f_type := t\<rparr>"
    "t = FAST_TYPE_VECTOR \<longrightarrow> nm \<in> {''bytevector'', ''byteVector''}" unfolding node xml_name.simps by blast
  have "nm \<notin> {''bytevector'', ''byteVector''}" and cs: "map_of ps ''charset'' \<noteq> Some ''unicode''"
    using assms(2) unfolding node plain_doc.simps by blast+
  with t(2) have "t \<noteq> FAST_TYPE_VECTOR" by blast
  then have "bare f1" using z by (simp add: t(1) bare_def field_arrays_def)
  then have "bare f2" using f2
    by (auto simp: fast_presence_init_def bare_def field_arrays_def split: option.splits if_splits)
  with cs show ?thesis
    by (simp add: f fast_misc_init_def node bare_def field_arrays_def Let_def split: option.splits)
qed

lemma strcpy_ok: "strcpy m s = Some m' \<Longrightarrow> string_ok m \<Longrightarrow> string_ok m'"
  using string_ok_store_run [of m s] by (auto simp: strcpy_def mem_store_def string_ok_def split: if_splits)

lemma put_0_ok: "mem_put m 0 0 = Some m' \<Longrightarrow> string_ok m \<Longrightarrow> string_ok m'"
  by (auto simp: mem_put_def string_ok_def nth_list_update split: if_splits)

lemma fast_reset_init_bare:
  assumes "fast_reset_init n f = Some (Inr f')" "bare f"
  shows "bare f' \<and> f_type f' = f_type f"
proof -
  have v: "f_type f \<noteq> FAST_TYPE_VECTOR" using assms(2) by (simp add: bare_def)
  show ?thesis
  proof (cases "f_type f")
    case FAST_TYPE_STRING
    have o: "string_ok (string_value f)" "string_ok (string_reset f)" "string_ok (string_previous f)"
      using assms(2) by (simp_all add: bare_def field_arrays_def)
    show ?thesis
    proof (cases "case n of None \<Rightarrow> None | Some n \<Rightarrow> xmlGetProp n ''value''")
      case None
      with assms FAST_TYPE_STRING show ?thesis
        by (auto simp: fast_reset_init_def bare_def field_arrays_def Let_def bind_eq_Some_conv intro: put_0_ok)
    next
      case (Some v)
      with assms(1) FAST_TYPE_STRING obtain m w r m2 w2 where
        e: "mem_put (string_value f) 0 0 = Some m" "mem_put (string_previous f) 0 0 = Some w"
          "strcpy (string_reset f) (chars v) = Some r" "strcpy m (chars v) = Some m2" "strcpy w (chars v) = Some w2"
          "f' = f\<lparr>f_has_reset := True, string_reset := r, string_value := m2, string_previous := w2\<rparr>"
        by (auto simp: fast_reset_init_def Let_def bind_eq_Some_conv)
      have "string_ok m2" "string_ok w2" "string_ok r"
        using strcpy_ok [OF e(4) put_0_ok [OF e(1) o(1)]] strcpy_ok [OF e(5) put_0_ok [OF e(2) o(3)]]
          strcpy_ok [OF e(3) o(2)] by auto
      with assms(2) e(6) show ?thesis by (simp add: bare_def field_arrays_def)
    qed
  qed (use assms v in \<open>auto simp: fast_reset_init_def bare_def field_arrays_def Let_def split: option.splits\<close>)
qed

lemma field_value_init_bare:
  assumes "field_value_init node f = Some (Inr f')" "bare f"
  shows "bare f' \<and> f_type f' = f_type f"
proof -
  let ?n = "first_element (xml_children node)"
  from assms(1) obtain f1 where f1: "fast_op_init ?n f = Inr f1" "fast_reset_init ?n f1 = Some (Inr f')"
    by (auto simp: field_value_init_def Let_def split: sum.splits)
  have "bare f1 \<and> f_type f1 = f_type f" using f1(1) assms(2)
    by (auto simp: fast_op_init_def bare_def field_arrays_def Let_def split: option.splits if_splits)
  with fast_reset_init_bare [OF f1(2)] show ?thesis by simp
qed

lemma bare_ok: "bare f \<Longrightarrow> f_type f \<noteq> FAST_TYPE_SEQUENCE \<Longrightarrow> seq_field_ok f"
  by (simp add: bare_def seq_field_ok_def field_ok_def field_kind_def field_has_flags_def)

lemma fast_decimal_init_ok:
  assumes "fast_decimal_init node f = Some (Inr f')" "bare f" "f_type f = FAST_TYPE_DECIMAL"
  shows "seq_field_ok f'"
proof -
  from assms(1) obtain r where r: "field_value_init node f = Some r"
    by (auto simp: fast_decimal_init_def bind_eq_Some_conv)
  show ?thesis
  proof (cases r)
    case (Inr f1)
    with r assms have "f' = f1" by (simp add: fast_decimal_init_def)
    with field_value_init_bare [of node f f1] r Inr assms show ?thesis by (auto intro: bare_ok)
  next
    case (Inl e)
    with r assms(1) obtain r2 where
      r2: "decimal_parts_loop (xml_children node) False zero_scalar zero_scalar = Some r2"
      by (auto simp: fast_decimal_init_def fast_decimal_init_individ_def bind_eq_Some_conv)
    obtain ex mn where
      "f' = (field_add_flags f FAST_FIELD_FLAGS_DECIMAL_INDIVID)\<lparr>decimal_fields := Some (ex, mn)\<rparr>"
      using r r2 Inl assms(1) that
      by (cases r2) (auto simp: fast_decimal_init_def fast_decimal_init_individ_def)
    with assms(2,3) show ?thesis
      by (simp add: bare_def seq_field_ok_def field_ok_def field_kind_def field_arrays_def field_add_flags_def)
  qed
qed

lemma field_ok_truncate: "field_ok (fast_field.truncate f) = field_ok f"
  by (simp add: field_ok_def field_arrays_def field_kind_def field_has_flags_def fast_field.defs)

lemma sequence_of_ok:
  assumes "bare f" "f_type f = FAST_TYPE_SEQUENCE" "\<forall>f\<in>set fs. seq_field_ok f"
  shows "seq_field_ok (sequence_of f len fs)"
proof -
  let ?n = "unat (of_nat (length fs) :: ulong)"
  have u: "?n \<le> length fs" by (simp add: unat_of_nat)
  have "field_ok zero_field" using zero_field_ok by (simp add: seq_field_ok_def)
  then have "element_ok ?n (seq_element fs)"
    using assms(3) u by (auto simp: element_ok_def seq_element_def field_ok_truncate seq_field_ok_def)
  then have "elements_ok ?n (replicate (unat FAST_SEQUENCE_ELEMENTS) (seq_element fs))"
    by (simp add: elements_ok_def FAST_SEQUENCE_ELEMENTS_def)
  then have "seq_ok (the (ptr_value (sequence_of f len fs)))"
    by (auto simp: seq_ok_def sequence_of_def Let_def pmap_wf_def)
  moreover have "field_ok (sequence_of f len fs)" "f_type (sequence_of f len fs) = FAST_TYPE_SEQUENCE"
    "ptr_value (sequence_of f len fs) \<noteq> None"
    using assms(1,2)
    by (auto simp: bare_def sequence_of_def Let_def field_ok_def field_arrays_def field_kind_def field_add_flags_def)
  ultimately show ?thesis by (auto simp: seq_field_ok_def)
qed


lemma inits_bind:
  "(x \<bind> case_sum (\<lambda>e. Some (Inl ())) g) = Some (Inr y) \<longleftrightarrow> (\<exists>v. x = Some (Inr v) \<and> g v = Some (Inr y))"
proof (cases x)
  case (Some r)
  then show ?thesis by (cases r) simp_all
qed simp

lemma inits_case:
  "case_sum (\<lambda>e. Some (Inl ())) g r = Some (Inr y) \<longleftrightarrow> (\<exists>v. r = Inr v \<and> g v = Some (Inr y))"
  "case_sum (\<lambda>e. None) Some r' = Some z \<longleftrightarrow> r' = Inr z"
  by (cases r; simp) (cases r'; simp)

lemma fast_fields_init_ok:
  "fast_field_init node = Some (Inr f) \<Longrightarrow> plain_doc node \<Longrightarrow> seq_field_ok f"
  "fast_fields_init ns = Some (Inr fs) \<Longrightarrow> \<forall>n\<in>set ns. plain_doc n \<Longrightarrow> \<forall>f\<in>set fs. seq_field_ok f"
proof (induction node and ns arbitrary: f and fs rule: fast_field_init_fast_fields_init.induct)
  case (2 nm ps ns)
  let ?node = "Element nm ps ns"
  from "2.prems"(1) obtain f0 where f0: "field_head ?node zero_field = Inr f0"
    by (auto simp: Let_def split: sum.splits)
  from field_head_bare [OF f0 "2.prems"(2)] have b: "bare f0" .
  show ?case
  proof (cases "f_type f0 = FAST_TYPE_SEQUENCE")
    case True
    have e: "(case next_element ns of [] \<Rightarrow> Some (Inl ())
        | n # ns' \<Rightarrow> if xml_name n \<noteq> ''length'' then Some (Inl ())
            else do {
              r \<leftarrow> length_init n;
              (case r of Inl e \<Rightarrow> Some (Inl e)
               | Inr len \<Rightarrow> do {
                   r \<leftarrow> fast_fields_init ns';
                   (case r of Inl e \<Rightarrow> Some (Inl e) | Inr fs \<Rightarrow> Some (Inr (sequence_of f0 len fs))) }) })
      = Some (Inr f)"
      using "2.prems"(1) unfolding fast_field_init.simps Let_def f0 sum.case True by simp
    obtain n ns' len fs where
      s: "next_element ns = n # ns'" "xml_name n = ''length''" "length_init n = Some (Inr len)"
        "fast_fields_init ns' = Some (Inr fs)" "f = sequence_of f0 len fs"
      using e by (cases "next_element ns") (auto simp: inits_bind split: if_splits)
    have "\<forall>m\<in>set ns. plain_doc m" using "2.prems"(2) by simp
    from plain_next [OF this s(1)] have "\<forall>m\<in>set ns'. plain_doc m" by blast
    with "2.IH" [OF refl f0 _ True s(1)] s True have "\<forall>f\<in>set fs. seq_field_ok f" by simp
    from sequence_of_ok [OF b True this] s(5) show ?thesis by simp
  next
    case False
    show ?thesis
    proof (cases "f_type f0 = FAST_TYPE_DECIMAL")
      case True
      with "2.prems"(1) f0 fast_decimal_init_ok [OF _ b True] show ?thesis by simp
    next
      case nodec: False
      with False "2.prems"(1) f0 have "field_value_init ?node f0 = Some (Inr f)" by simp
      from field_value_init_bare [OF this b] False show ?thesis by (auto intro: bare_ok)
    qed
  qed
next
  case (4 n ns)
  show ?case
  proof (cases "is_element n")
    case True
    with "4.prems"(1) obtain f fs' where f: "fast_field_init n = Some (Inr f)" "named f = Some f"
      "fast_fields_init ns = Some (Inr fs')" "fs = f # fs'"
      by (auto simp: inits_bind named_def split: if_splits)
    have "seq_field_ok f" using "4.IH"(2) [OF _ f(1)] True "4.prems"(2) by simp
    moreover have "\<forall>f\<in>set fs'. seq_field_ok f"
      using "4.IH"(3) [OF _ f(1) refl f(2)] True f(3) "4.prems"(2) by simp
    ultimately show ?thesis using f(4) by simp
  next
    case False
    with "4.IH"(1) "4.prems" show ?thesis by simp
  qed
qed simp_all


lemma fast_message_init_ok:
  assumes "fast_message_init node msg = Some (Inr msg')" "plain_doc node" "m_decoded msg = 0"
  shows "message_ok msg' \<and> m_decoded msg' = 0"
proof -
  have p: "\<forall>n\<in>set (xml_children node). plain_doc n" using assms(2) by (cases node) simp_all
  from assms(1) obtain fs where fs: "fast_fields_init (xml_children node) = Some (Inr fs)"
    "nr_fields msg' = of_nat (length fs)" "m_fields msg' = fs" "m_decoded msg' = m_decoded msg"
    by (auto simp: fast_message_init_def Let_def inits_bind fast_msg_add_flags_def split: if_splits)
  have "unat (of_nat (length fs) :: ulong) \<le> length fs" by (simp add: unat_of_nat)
  with fast_fields_init_ok(2) [OF fs(1) p] fs assms(3) show ?thesis by (simp add: message_ok_def)
qed

lemma sint_succ: "0 \<le> i \<Longrightarrow> i < 128 \<Longrightarrow> sint (of_int i + 1 :: i32) = i + 1"
proof -
  assume i: "0 \<le> i" "i < 128"
  have "sint (of_int (i + 1) :: i32) = i + 1" using i by (subst signed_of_int) (simp add: signed_take_bit_int_eq_self)
  then show ?thesis by simp
qed

definition messages_fresh :: "fast_session \<Rightarrow> bool" where
  "messages_fresh s \<longleftrightarrow> (\<forall>m\<in>set (rx_messages s). m_decoded m = 0)"

lemma parse_template_loop_ok:
  "parse_template_loop s ns = Some (Inr s') \<Longrightarrow> \<forall>n\<in>set ns. plain_doc n \<Longrightarrow> session_ok s \<Longrightarrow> messages_fresh s \<Longrightarrow>
     sint (nr_messages s) + int (length (filter is_element ns)) \<le> 128 \<Longrightarrow> session_ok s' \<and> messages_fresh s'"
proof (induction ns arbitrary: s)
  case (Cons n ns)
  show ?case
  proof (cases "is_element n")
    case True
    let ?i = "sint (nr_messages s)"
    from True Cons.prems(1) obtain msg msg' ms where
      m: "mem_get (rx_messages s) ?i = Some msg" "fast_message_init n msg = Some (Inr msg')"
        "mem_put (rx_messages s) ?i msg' = Some ms"
        "parse_template_loop (s\<lparr>rx_messages := ms, nr_messages := nr_messages s + 1\<rparr>) ns = Some (Inr s')"
      by (auto simp: Let_def inits_bind inits_case bind_eq_Some_conv)
    have "msg \<in> set (rx_messages s)" using m(1) by (auto simp: mem_get_def split: if_splits)
    with Cons.prems(4) have "m_decoded msg = 0" by (simp add: messages_fresh_def)
    from fast_message_init_ok [OF m(2) _ this] Cons.prems(2) have ok: "message_ok msg'" "m_decoded msg' = 0" by auto
    have s: "set ms \<subseteq> insert msg' (set (rx_messages s))" "length ms = length (rx_messages s)" "0 \<le> ?i" "?i < 128"
      using m(3) Cons.prems(3) set_update_subset_insert [of "rx_messages s" "nat ?i" msg']
      by (auto simp: mem_put_def session_ok_def split: if_splits)
    have "of_int ?i = nr_messages s" by simp
    with sint_succ [OF s(3,4)] have n: "sint (nr_messages s + 1) = ?i + 1" by simp
    let ?s = "s\<lparr>rx_messages := ms, nr_messages := nr_messages s + 1\<rparr>"
    have "session_ok ?s" "messages_fresh ?s"
      using Cons.prems(3,4) ok s n by (auto simp: session_ok_def messages_fresh_def)
    moreover have "sint (nr_messages ?s) + int (length (filter is_element ns)) \<le> 128" using Cons.prems(5) True n by simp
    ultimately show ?thesis using Cons.IH [OF m(4)] Cons.prems(2) by simp
  qed (use Cons in simp)
qed simp

lemma session_of_ok:
  assumes s: "session_of malloc cfg (Some doc) = Some s" and doc: "plain_doc doc"
    and malloc: "\<And>n blk. malloc n = Some blk \<Longrightarrow> length blk = unat n" and pre: "0 \<le>s preamble_bytes cfg"
  shows "session_ok s \<and> messages_fresh s"
proof -
  from s obtain s0 where s0: "fast_session_new malloc cfg True = Some s0" "fast_parse_template s0 (Some doc) = Some (Inr s)"
    by (auto simp: session_of_def bind_eq_Some_conv inits_case)
  from s0(1) obtain rx where rx: "buffer_new malloc FAST_RECV_BUFFER_SIZE = Some rx" "rx_buffer s0 = rx"
    "\<not> 8 <s preamble_bytes cfg" "s_pmap s0 = \<lparr>is_valid = False, pmap_bit = 0, nr_bytes = 0, pmap_bytes = replicate 8 0\<rparr>"
    "rx_messages s0 = replicate 128 zero_message" "rx_message s0 = None" "nr_messages s0 = 0"
    "s_preamble s0 = \<lparr>pre_is_valid = False, pre_nr_bytes = scast (preamble_bytes cfg), pre_bytes = replicate 8 0\<rparr>"
    by (auto simp: fast_session_new_def bind_eq_Some_conv FAST_PREAMBLE_MAX_BYTES_def FAST_TEMPLATE_MAX_NUMBER_def split: if_splits)
  have "buffer_wf rx" using rx(1) malloc
    by (auto simp: buffer_new_def buffer_wf_def FAST_RECV_BUFFER_SIZE_def FAST_MESSAGE_MAX_SIZE_def split: option.splits)
  moreover have "unat (scast (preamble_bytes cfg) :: ulong) \<le> 8"
  proof -
    have "0 \<le> sint (preamble_bytes cfg)" "sint (preamble_bytes cfg) \<le> 8" using pre rx(3) by (simp_all add: word_sle_eq word_sless_alt)
    moreover from this have "unat (scast (preamble_bytes cfg) :: ulong) = nat (sint (preamble_bytes cfg))"
      unfolding scast_eq by (intro unat_of_small) simp_all
    ultimately show ?thesis by simp
  qed
  moreover have z: "message_ok zero_message" "m_decoded zero_message = 0" by (simp_all add: message_ok_def zero_message_def)
  moreover have "pmap_wf (s_pmap s0)" by (simp add: rx(4) pmap_wf_def)
  ultimately have "session_ok s0" unfolding session_ok_def rx(2,5-8) by simp
  moreover have "messages_fresh s0" using z(2) unfolding messages_fresh_def rx(5) by simp
  ultimately have ok: "session_ok s0" "messages_fresh s0" by auto
  from s0(2) have p: "parse_template_loop s0 (xml_children doc) = Some (Inr s)" "xmlChildElementCount doc \<le> 128"
    by (auto simp: fast_parse_template_def FAST_TEMPLATE_MAX_NUMBER_def split: if_splits)
  have "\<forall>n\<in>set (xml_children doc). plain_doc n" using doc by (cases doc) simp_all
  from parse_template_loop_ok [OF p(1) this ok] p(2) rx(7) show ?thesis by (simp add: xmlChildElementCount_def)
qed

subsection \<open>Property\<close>

text \<open>What the kernel answers to a receive is no longer than what was asked for.\<close>

definition answers_fit :: "(ulong \<Rightarrow> u8 list io) \<Rightarrow> bool" where
  "answers_fit k \<longleftrightarrow> (\<forall>n ds. k n = IoOk ds \<longrightarrow> length ds \<le> unat n)"

text \<open>A program that receives, over and over, from a socket.\<close>

fun recv_all :: "(ulong \<Rightarrow> u8 list io) list \<Rightarrow> fast_session \<Rightarrow> fast_session option" where
  "recv_all [] s = Some s"
| "recv_all (k # ks) s = do {
     (m, s, _) \<leftarrow> fast_session_recv (session_rd (\<lambda>k n. (k n, k))) s k;
     recv_all ks s }"

lemma recv_reads_into: "answers_fit k \<Longrightarrow> reads_into (session_rd (\<lambda>k n. (k n, k))) k"
  unfolding reads_into_def
proof (intro allI impI)
  fix b n
  assume k: "answers_fit k" and b: "buffer_wf b"
  then have "\<And>n ds. k n = IoOk ds \<Longrightarrow> length ds \<le> unat n" by (simp add: answers_fit_def)
  from buffer_recv_holds [of b "buf_bytes b" k n, OF holdsI [OF b]] this
  show "\<exists>nr b' k'. session_rd (\<lambda>k n. (k n, k)) b n k = Some (nr, b', k') \<and> buffer_wf b'"
    using b by (cases "k (buffer_count b n)") (auto simp: session_rd_def)
qed

lemma recv_all_safe: "session_ok s \<Longrightarrow> \<forall>k\<in>set ks. answers_fit k \<Longrightarrow> \<exists>s'. recv_all ks s = Some s' \<and> session_ok s'"
proof (induction ks arbitrary: s)
  case (Cons k ks)
  then have "reads_into (session_rd (\<lambda>k n. (k n, k))) k" by (simp add: recv_reads_into)
  from fast_session_recv_safe [OF Cons.prems(1) this] obtain m s1 k1 where
    "fast_session_recv (session_rd (\<lambda>k n. (k n, k))) s k = Some (m, s1, k1)" "session_ok s1" by blast
  with Cons show ?case by simp
qed simp

text \<open>A document for a concrete instance.\<close>

definition sample_doc :: xml where
  "sample_doc = Element ''templates'' [] [Other, Element ''template'' [(''id'', ''7'')]
     [Element ''uInt32'' [(''name'', ''Price'')] [Element ''copy'' [] []],
      Element ''string'' [(''name'', ''Symbol''), (''presence'', ''optional'')] [],
      Element ''sequence'' [(''name'', ''Entries'')] [Element ''length'' [] [], Element ''int64'' [] [Element ''delta'' [] []]]]]"

definition sample_cfg :: fast_session_cfg where
  "sample_cfg = \<lparr>preamble_bytes = 4, cfg_reset = False\<rparr>"

text \<open>C3: whatever document of templates a session is made of (without fields whose length is on the wire), the
  FAST decoder is type safe on it: on any bytes, in pieces of any size, and however often it is called, receiving returns,
  never reads or writes outside a buffer, a string, the fields of a message or the elements of a sequence, and leaves the
  session well typed.\<close>

theorem template_type_safe:
  assumes "session_of malloc cfg (Some doc) = Some s" and "plain_doc doc"
    and "\<forall>n blk. malloc n = Some blk \<longrightarrow> length blk = unat n" and "0 \<le>s preamble_bytes cfg"
    and "\<forall>k\<in>set ks. answers_fit k"
  shows "\<exists>s'. recv_all ks s = Some s' \<and> session_ok s'"
proof (rule recv_all_safe)
  show "session_ok s" using session_of_ok [OF assms(1,2) _ assms(4)] assms(3) by blast
qed (rule assms(5))

lemma sequence_of_name [simp]: "f_name (sequence_of f len fs) = f_name f"
  by (simp add: sequence_of_def Let_def field_add_flags_def)

lemma sample_session_of: "session_of (\<lambda>n. Some (replicate (unat n) 0)) sample_cfg (Some sample_doc) \<noteq> None"
  by (simp add: session_of_def fast_session_new_def sample_doc_def sample_cfg_def buffer_new_def fast_parse_template_def xmlChildElementCount_def FAST_PREAMBLE_MAX_BYTES_def FAST_TEMPLATE_MAX_NUMBER_def mem_get_def mem_put_def fast_message_init_def field_head_def fast_type_init_def fast_presence_init_def fast_misc_init_def field_value_init_def first_element_def next_element_def fast_op_init_def fast_reset_init_def length_init_def named_def zero_field_def zero_scalar_def fast_scalar.defs fast_field.defs Let_def)

theorem template_type_safe_witness:
  "\<exists>s s'. session_of (\<lambda>n. Some (replicate (unat n) 0)) sample_cfg (Some sample_doc) = Some s
    \<and> recv_all [\<lambda>n. IoOk (take (unat n) [192, 135]), \<lambda>n. IoErr EAGAIN] s = Some s' \<and> session_ok s'"
proof -
  from sample_session_of obtain s where s: "session_of (\<lambda>n. Some (replicate (unat n) 0)) sample_cfg (Some sample_doc) = Some s"
    by blast
  have "plain_doc sample_doc" by (simp add: sample_doc_def)
  moreover have "\<forall>n blk. Some (replicate (unat n) 0) = Some blk \<longrightarrow> length blk = unat (n :: ulong)" by auto
  moreover have "0 \<le>s preamble_bytes sample_cfg" by (simp add: sample_cfg_def word_sle_eq)
  moreover have "\<forall>k\<in>set [\<lambda>n. IoOk (take (unat n) [192, 135]), \<lambda>n. IoErr EAGAIN]. answers_fit k"
    by (simp add: answers_fit_def)
  ultimately show ?thesis using template_type_safe [OF s] s by blast
qed

end
