(* ===== verification/Fast_Link.thy ===== *)
theory Fast_Link
  imports Fast_Safe
begin

text \<open>
  Two programs with the same file of templates.  The messages of a session depend on the document only, and
  every field starts from the value that both ends give it, so that what one encodes the other decodes, the operators
  that refer to previous values included.
\<close>

subsection \<open>What a document says\<close>

lemma parse_template_loop_same:
  "parse_template_loop s ns = Some (Inr s') \<Longrightarrow> rx_messages t = rx_messages s \<Longrightarrow> nr_messages t = nr_messages s \<Longrightarrow>
     parse_template_loop t ns = Some (Inr t') \<Longrightarrow> rx_messages t' = rx_messages s' \<and> nr_messages t' = nr_messages s'"
proof (induction ns arbitrary: s t)
  case (Cons n ns)
  show ?case
  proof (cases "is_element n")
    case True
    from True Cons.prems(1) obtain msg msg' ms where
      m: "mem_get (rx_messages s) (sint (nr_messages s)) = Some msg" "fast_message_init n msg = Some (Inr msg')"
        "mem_put (rx_messages s) (sint (nr_messages s)) msg' = Some ms"
        "parse_template_loop (s\<lparr>rx_messages := ms, nr_messages := nr_messages s + 1\<rparr>) ns = Some (Inr s')"
      by (auto simp: Let_def inits_bind inits_case bind_eq_Some_conv)
    with True Cons.prems(2-4) have
      "parse_template_loop (t\<lparr>rx_messages := ms, nr_messages := nr_messages s + 1\<rparr>) ns = Some (Inr t')"
      by (simp add: Let_def)
    from Cons.IH [OF m(4) _ _ this] show ?thesis by simp
  qed (use Cons in simp)
qed simp

text \<open>The state of a session next to its messages that parsing does not touch.\<close>

lemma parse_template_loop_frame:
  "parse_template_loop s ns = Some (Inr s') \<Longrightarrow>
     s' = s\<lparr>rx_messages := rx_messages s', nr_messages := nr_messages s'\<rparr>"
proof (induction ns arbitrary: s)
  case (Cons n ns)
  show ?case
  proof (cases "is_element n")
    case True
    with Cons.prems obtain ms where
      "parse_template_loop (s\<lparr>rx_messages := ms, nr_messages := nr_messages s + 1\<rparr>) ns = Some (Inr s')"
      by (auto simp: Let_def inits_bind inits_case bind_eq_Some_conv)
    from Cons.IH [OF this] show ?thesis by (cases s; cases s') simp
  qed (use Cons in simp)
qed simp

text \<open>A field before the first message.\<close>

definition fresh_field :: "seq_field \<Rightarrow> bool" where
  "fresh_field f \<longleftrightarrow> f_state f = FAST_STATE_UNDEFINED \<and> f_state_previous f = FAST_STATE_UNDEFINED
     \<and> (f_type f \<in> {FAST_TYPE_INT, FAST_TYPE_UINT} \<longrightarrow> int_value f = int_previous f)"

lemma fast_reset_init_fresh:
  "fast_reset_init n f = Some (Inr f') \<Longrightarrow> f_state f = FAST_STATE_UNDEFINED \<Longrightarrow>
     f_state_previous f = FAST_STATE_UNDEFINED \<Longrightarrow> fresh_field f'"
  by (cases "f_type f")
     (auto simp: fast_reset_init_def Let_def fresh_field_def bind_eq_Some_conv inits_bind inits_case split: option.splits)

lemma field_value_init_fresh:
  assumes "field_value_init node f = Some (Inr f')" "f_state f = FAST_STATE_UNDEFINED" "f_state_previous f = FAST_STATE_UNDEFINED"
  shows "fresh_field f'"
proof -
  let ?n = "first_element (xml_children node)"
  from assms(1) obtain f1 where f1: "fast_op_init ?n f = Inr f1" "fast_reset_init ?n f1 = Some (Inr f')"
    by (auto simp: field_value_init_def Let_def split: sum.splits)
  have "f_state f1 = f_state f \<and> f_state_previous f1 = f_state_previous f" using f1(1)
    by (auto simp: fast_op_init_def Let_def split: option.splits if_splits)
  with fast_reset_init_fresh [OF f1(2)] assms(2,3) show ?thesis by simp
qed

lemma fast_decimal_init_fresh:
  assumes "fast_decimal_init node f = Some (Inr f')" "f_state f = FAST_STATE_UNDEFINED" "f_state_previous f = FAST_STATE_UNDEFINED"
    "f_type f = FAST_TYPE_DECIMAL"
  shows "fresh_field f'"
proof -
  from assms(1) obtain r where r: "field_value_init node f = Some r"
    by (auto simp: fast_decimal_init_def bind_eq_Some_conv)
  show ?thesis
  proof (cases r)
    case (Inr f1)
    with r assms(1) have "f' = f1" by (simp add: fast_decimal_init_def)
    with r Inr field_value_init_fresh [OF _ assms(2,3)] show ?thesis by simp
  next
    case (Inl e)
    with r assms(1) obtain r2 where
      r2: "decimal_parts_loop (xml_children node) False zero_scalar zero_scalar = Some r2"
      by (auto simp: fast_decimal_init_def fast_decimal_init_individ_def bind_eq_Some_conv)
    with r Inl assms show ?thesis
      by (cases r2) (auto simp: fast_decimal_init_def fast_decimal_init_individ_def fresh_field_def field_add_flags_def)
  qed
qed

lemma field_head_state:
  assumes "field_head node zero_field = Inr f"
  shows "f_state f = FAST_STATE_UNDEFINED \<and> f_state_previous f = FAST_STATE_UNDEFINED"
proof -
  from assms obtain f1 f2 where f1: "fast_type_init node (zero_field\<lparr>f_state := FAST_STATE_UNDEFINED\<rparr>) = Inr f1"
    and f2: "fast_presence_init node f1 = Inr f2" and f: "f = fast_misc_init node f2"
    by (auto simp: field_head_def split: sum.splits)
  from fast_type_init_cases [OF f1] have "f_state f1 = FAST_STATE_UNDEFINED \<and> f_state_previous f1 = FAST_STATE_UNDEFINED"
    using zero_field_bare by (auto simp: bare_def)
  with f2 have "f_state f2 = FAST_STATE_UNDEFINED \<and> f_state_previous f2 = FAST_STATE_UNDEFINED"
    by (auto simp: fast_presence_init_def split: option.splits if_splits)
  then show ?thesis by (auto simp: f fast_misc_init_def Let_def field_add_flags_def split: option.splits)
qed

lemma sequence_of_fresh: "fresh_field f \<Longrightarrow> f_type f = FAST_TYPE_SEQUENCE \<Longrightarrow> fresh_field (sequence_of f len fs)"
  by (simp add: sequence_of_def fresh_field_def Let_def field_add_flags_def)

lemma fast_fields_init_fresh:
  "fast_field_init node = Some (Inr f) \<Longrightarrow> fresh_field f"
  "fast_fields_init ns = Some (Inr fs) \<Longrightarrow> \<forall>f\<in>set fs. fresh_field f"
proof (induction node and ns arbitrary: f and fs rule: fast_field_init_fast_fields_init.induct)
  case (2 nm ps ns)
  let ?node = "Element nm ps ns"
  from "2.prems"(1) obtain f0 where f0: "field_head ?node zero_field = Inr f0"
    by (auto simp: Let_def split: sum.splits)
  note st = field_head_state [OF f0]
  show ?case
  proof (cases "f_type f0 = FAST_TYPE_SEQUENCE")
    case True
    have "\<exists>len fs. f = sequence_of f0 len fs"
      using "2.prems"(1) unfolding fast_field_init.simps Let_def f0 sum.case True
      by (auto simp: inits_bind split: list.splits if_splits)
    with sequence_of_fresh [OF _ True] st True show ?thesis by (auto simp: fresh_field_def)
  next
    case False
    show ?thesis
    proof (cases "f_type f0 = FAST_TYPE_DECIMAL")
      case True
      with "2.prems"(1) f0 fast_decimal_init_fresh [OF _ _ _ True] st show ?thesis by simp
    next
      case nodec: False
      with False "2.prems"(1) f0 have "field_value_init ?node f0 = Some (Inr f)" by simp
      from field_value_init_fresh [OF this] st show ?thesis by simp
    qed
  qed
next
  case (4 n ns)
  show ?case
  proof (cases "is_element n")
    case True
    with "4.prems"(1) obtain f fs' where f: "fast_field_init n = Some (Inr f)" "named f = Some f"
      "fast_fields_init ns = Some (Inr fs')" "fs = f # fs'"
      by (auto simp: inits_bind named_def split: if_splits)
    from "4.IH"(2) [OF _ f(1)] "4.IH"(3) [OF _ f(1) refl f(2,3)] True f(4) show ?thesis by auto
  next
    case False
    with "4.IH"(1) "4.prems" show ?thesis by simp
  qed
qed simp_all

definition fresh_message :: "seq_field fast_message \<Rightarrow> bool" where
  "fresh_message m \<longleftrightarrow> nr_fields m = of_nat (length (m_fields m)) \<and> m_decoded m = 0 \<and> (\<forall>f\<in>set (m_fields m). fresh_field f)"

lemma fast_message_init_fresh:
  assumes "fast_message_init node msg = Some (Inr msg')" "m_decoded msg = 0"
  shows "fresh_message msg'"
proof -
  from assms(1) obtain fs where "fast_fields_init (xml_children node) = Some (Inr fs)"
    "nr_fields msg' = of_nat (length fs)" "m_fields msg' = fs" "m_decoded msg' = m_decoded msg"
    by (auto simp: fast_message_init_def Let_def inits_bind fast_msg_add_flags_def split: if_splits)
  with fast_fields_init_fresh(2) assms(2) show ?thesis by (simp add: fresh_message_def)
qed

lemma parse_template_loop_fresh:
  "parse_template_loop s ns = Some (Inr s') \<Longrightarrow> \<forall>m\<in>set (rx_messages s). fresh_message m \<Longrightarrow>
     (\<forall>m\<in>set (rx_messages s'). fresh_message m) \<and> length (rx_messages s') = length (rx_messages s)"
proof (induction ns arbitrary: s)
  case (Cons n ns)
  show ?case
  proof (cases "is_element n")
    case True
    let ?i = "sint (nr_messages s)"
    from True Cons.prems(1) obtain msg msg' ms where
      m: "mem_get (rx_messages s) ?i = Some msg" "fast_message_init n msg = Some (Inr msg')"
        "mem_put (rx_messages s) ?i msg' = Some ms"
        "parse_template_loop (s\<lparr>rx_messages := ms, nr_messages := nr_messages s + 1\<rparr>) ns = Some (Inr s')"
      by (auto simp: Let_def inits_bind inits_case bind_eq_Some_conv)
    have "msg \<in> set (rx_messages s)" using m(1) by (auto simp: mem_get_def split: if_splits)
    with Cons.prems(2) fast_message_init_fresh [OF m(2)] have "fresh_message msg'" by (auto simp: fresh_message_def)
    moreover have "set ms \<subseteq> insert msg' (set (rx_messages s))" "length ms = length (rx_messages s)"
      using m(3) set_update_subset_insert [of "rx_messages s" "nat ?i" msg'] by (auto simp: mem_put_def split: if_splits)
    ultimately show ?thesis using Cons.IH [OF m(4)] Cons.prems(2) by auto
  qed (use Cons in simp)
qed simp

subsection \<open>Two sessions\<close>

text \<open>A new session, ready to be given messages.\<close>

lemma session_of_new:
  assumes "session_of malloc cfg (Some doc) = Some s" "\<And>n blk. malloc n = Some blk \<Longrightarrow> length blk = unat n"
  shows "(\<forall>m\<in>set (rx_messages s). fresh_message m) \<and> length (rx_messages s) = 128
    \<and> s_preamble s = \<lparr>pre_is_valid = False, pre_nr_bytes = scast (preamble_bytes cfg), pre_bytes = replicate 8 0\<rparr>
    \<and> s_pmap s = \<lparr>is_valid = False, pmap_bit = 0, nr_bytes = 0, pmap_bytes = replicate 8 0\<rparr> \<and> rx_message s = None
    \<and> holds (tx_pmap_buffer s) [] \<and> holds (tx_message_buffer s) []
    \<and> buffer_room (tx_pmap_buffer s) = 4096 \<and> buffer_room (tx_message_buffer s) = 4096"
proof -
  from assms(1) obtain s0 where s0: "fast_session_new malloc cfg True = Some s0" "fast_parse_template s0 (Some doc) = Some (Inr s)"
    by (auto simp: session_of_def bind_eq_Some_conv inits_case)
  from s0(1) obtain rx tx txp where n: "buffer_new malloc FAST_TX_BUFFER_SIZE = Some tx" "buffer_new malloc FAST_TX_BUFFER_SIZE = Some txp"
    "tx_message_buffer s0 = tx" "tx_pmap_buffer s0 = txp"
    "s_pmap s0 = \<lparr>is_valid = False, pmap_bit = 0, nr_bytes = 0, pmap_bytes = replicate 8 0\<rparr>"
    "rx_messages s0 = replicate 128 zero_message" "rx_message s0 = None"
    "s_preamble s0 = \<lparr>pre_is_valid = False, pre_nr_bytes = scast (preamble_bytes cfg), pre_bytes = replicate 8 0\<rparr>"
    by (auto simp: fast_session_new_def bind_eq_Some_conv FAST_TEMPLATE_MAX_NUMBER_def split: if_splits)
  have tx: "holds b [] \<and> buffer_room b = 4096" if "buffer_new malloc FAST_TX_BUFFER_SIZE = Some b" for b
    using that assms(2)
    by (auto simp: buffer_new_def holds_def buffer_wf_def buf_bytes_def buffer_room_def FAST_TX_BUFFER_SIZE_def
        FAST_MESSAGE_MAX_SIZE_def split: option.splits)
  from s0(2) have p: "parse_template_loop s0 (xml_children doc) = Some (Inr s)"
    by (auto simp: fast_parse_template_def split: if_splits)
  have z: "\<forall>m\<in>set (rx_messages s0). fresh_message m" by (simp add: n(6) zero_message_def fresh_message_def)
  have f: "tx_message_buffer s = tx" "tx_pmap_buffer s = txp" "s_pmap s = s_pmap s0" "rx_message s = rx_message s0"
    "s_preamble s = s_preamble s0"
    using parse_template_loop_frame [OF p] n(3,4) by (metis fast_session.select_convs fast_session.surjective
      fast_session.update_convs)+
  show ?thesis
    using parse_template_loop_fresh [OF p z] tx [OF n(1)] tx [OF n(2)] f n by simp
qed

lemma fast_session_new_messages:
  "fast_session_new malloc cfg True = Some s \<Longrightarrow> rx_messages s = replicate 128 zero_message \<and> nr_messages s = 0"
  by (auto simp: fast_session_new_def bind_eq_Some_conv FAST_TEMPLATE_MAX_NUMBER_def split: if_splits)

lemma sessions_same:
  assumes "session_of malloc1 cfg1 (Some doc) = Some s1" "session_of malloc2 cfg2 (Some doc) = Some s2"
  shows "rx_messages s2 = rx_messages s1"
proof -
  from assms obtain t1 t2 where t: "fast_session_new malloc1 cfg1 True = Some t1" "fast_parse_template t1 (Some doc) = Some (Inr s1)"
    "fast_session_new malloc2 cfg2 True = Some t2" "fast_parse_template t2 (Some doc) = Some (Inr s2)"
    by (auto simp: session_of_def bind_eq_Some_conv inits_case)
  then have "parse_template_loop t1 (xml_children doc) = Some (Inr s1)" "parse_template_loop t2 (xml_children doc) = Some (Inr s2)"
    by (auto simp: fast_parse_template_def split: if_splits)
  from parse_template_loop_same [OF this(1) _ _ this(2)] fast_session_new_messages [OF t(1)] fast_session_new_messages [OF t(3)]
  show ?thesis by simp
qed

subsection \<open>A run of messages\<close>

text \<open>A program gives the fields of a message their values, or marks them empty; a field that was empty in the message before
  is marked assigned again, as the clients of the repository do.\<close>

fun assign_value :: "i64 option \<Rightarrow> 'a fast_field_scheme \<Rightarrow> 'a fast_field_scheme" where
  "assign_value None f = field_set_empty f"
| "assign_value (Some v) f =
     f\<lparr>int_value := v, f_state := (if f_state f = FAST_STATE_EMPTY then FAST_STATE_ASSIGNED else f_state f)\<rparr>"

fun reads_value :: "i64 option \<Rightarrow> 'a fast_field_scheme \<Rightarrow> bool" where
  "reads_value None f \<longleftrightarrow> f_state f = FAST_STATE_EMPTY"
| "reads_value (Some v) f \<longleftrightarrow> f_state f = FAST_STATE_ASSIGNED \<and> int_value f = v"

definition filled :: "i64 option list \<Rightarrow> ('a fast_field_scheme) fast_message \<Rightarrow> ('a fast_field_scheme) fast_message" where
  "filled vs m = m\<lparr>m_fields := map2 assign_value vs (m_fields m)\<rparr>"

text \<open>The field of the sender after a message, as the next one finds it.\<close>

definition after_send :: "'a fast_field_scheme \<Rightarrow> 'a fast_field_scheme" where
  "after_send f =
     (if f_op f = FAST_OP_CONSTANT then (if f_state f = FAST_STATE_EMPTY then f else f\<lparr>f_state := FAST_STATE_ASSIGNED\<rparr>)
      else if f_state f = FAST_STATE_EMPTY then f\<lparr>int_value := int_previous f, f_state_previous := FAST_STATE_EMPTY\<rparr>
      else f\<lparr>f_state := FAST_STATE_ASSIGNED, int_previous := int_value f, f_state_previous := FAST_STATE_ASSIGNED\<rparr>)"

text \<open>The values that a run of messages can have: one for each field, an empty one only for an optional field, the
  template's value for a constant, and numbers (differences, for the delta operator) within the range of the transfer encoding.\<close>

fun can_send :: "'a fast_field_scheme list \<Rightarrow> i64 option list list \<Rightarrow> bool" where
  "can_send fs [] \<longleftrightarrow> True"
| "can_send fs (vs # vss) \<longleftrightarrow> length vs = length fs \<and> list_all message_ready (map2 assign_value vs fs)
     \<and> can_send (map after_send (map2 assign_value vs fs)) vss"

text \<open>The loop of the sender: the bytes are those of the two I/O vectors of each message.\<close>

fun send_run :: "(u8 list list \<Rightarrow> i64) \<Rightarrow> fast_session \<Rightarrow> ('a fast_field_scheme) fast_message \<Rightarrow> i64 option list list
    \<Rightarrow> (bool list \<times> u8 list) option" where
  "send_run send s msg [] = Some ([], [])"
| "send_run send s msg (vs # vss) = do {
     (ok, s, msg) \<leftarrow> fast_session_send s (filled vs msg) send;
     v0 \<leftarrow> buffer_to_iovec (tx_pmap_buffer s);
     v1 \<leftarrow> buffer_to_iovec (tx_message_buffer s);
     (oks, w) \<leftarrow> send_run send s msg vss;
     Some (ok # oks, v0 @ v1 @ w) }"

text \<open>The loop of the receiver: each message is looked at when it is handed out.\<close>

fun receive_run :: "nat \<Rightarrow> fast_session \<Rightarrow> (seq_field fast_message list \<times> fast_session) option" where
  "receive_run 0 s = Some ([], s)"
| "receive_run (Suc n) s = do {
     (r, s) \<leftarrow> fast_message_decode s;
     i \<leftarrow> r;
     m \<leftarrow> mem_get (rx_messages s) i;
     (ms, s) \<leftarrow> receive_run n s;
     Some (m # ms, s) }"

lemma fresh_sync: "fresh_field f \<Longrightarrow> f_type f \<in> {FAST_TYPE_INT, FAST_TYPE_UINT} \<Longrightarrow> message_sync f f"
  by (auto simp: message_sync_def sync_int_def fresh_field_def)

lemma assigned_sync: "message_sync e d \<Longrightarrow> message_sync (assign_value v e) d"
  by (cases v) (auto simp: message_sync_def sync_int_def field_set_empty_def)

lemma assigned_reads: "same_field (assign_value v f) d \<Longrightarrow> reads_value v d"
  by (cases v) (auto simp: same_field_def field_set_empty_def split: if_splits)

lemma filled_lists:
  "length vs = length fs \<Longrightarrow> list_all2 message_sync fs ds \<Longrightarrow> list_all2 message_sync (map2 assign_value vs fs) ds"
  "list_all2 same_field (map2 assign_value vs fs) ds \<Longrightarrow> length vs = length fs \<Longrightarrow> list_all2 reads_value vs ds"
  by (auto simp: list_all2_conv_all_nth intro: assigned_sync assigned_reads)

lemma encode_finish_field: "encode_finish pset sent p f = Some (True, b', p', f') \<Longrightarrow> f' = f"
  by (auto simp: encode_finish_def bind_eq_Some_conv split: if_splits)

lemma encode_int_at_field:
  "encode_int_at l send v b p f = Some (True, b', p', f') \<Longrightarrow>
     (l = Enc_done \<and> f' = f) \<or> (\<exists>z. l = Enc_transfer z \<and> f' = f\<lparr>int_previous := int_value f, f_state_previous := f_state f\<rparr>)
       \<or> (\<exists>z. l = Enc_empty z \<and> f' = f\<lparr>int_value := int_previous f, f_state_previous := f_state f\<rparr>)"
  by (cases l) (auto simp: encode_int_at_def dest: encode_finish_field)

lemma encode_integer_after:
  assumes "encode_integer send tmp b p f = Some (True, b', p', f')" "ready f"
  shows "f' = after_send f"
  using assms
  by (cases "f_op f"; cases "f_state f"; cases "f_state_previous f")
     (auto simp: encode_integer_def Let_def after_send_def encode_choice_defs encode_constant_def ready_def same_int_def succ_int_def
        previous_plus_def bind_eq_Some_conv split: if_splits dest!: encode_finish_field)

lemma encode_message_field_after:
  assumes "encode_message_field b p f = Some (True, b', p', f')" "f_type f \<in> {FAST_TYPE_INT, FAST_TYPE_UINT}" "message_ready f"
  shows "f' = after_send f"
proof -
  from assms obtain send tmp where "encode_integer send tmp b p f = Some (True, b', p', f')"
    by (auto simp: encode_message_field_def fast_encode_uint_integer fast_encode_int_integer)
  moreover have "ready f" using assms(3) by (auto simp: message_ready_def ready_int_def ready_uint_def split: if_splits)
  ultimately show ?thesis by (rule encode_integer_after)
qed

lemma encode_fields_after:
  "encode_fields encode_message_field b p fs = Some (True, b', p', fs') \<Longrightarrow>
     \<forall>f\<in>set fs. f_type f \<in> {FAST_TYPE_INT, FAST_TYPE_UINT} \<and> message_ready f \<Longrightarrow> fs' = map after_send fs"
proof (induction fs arbitrary: b p fs')
  case (Cons f fs)
  from Cons.prems(1) obtain c q g gs where
    "encode_message_field b p f = Some (True, c, q, g)" "encode_fields encode_message_field c q fs = Some (True, b', p', gs)" "fs' = g # gs"
    by (auto simp: bind_eq_Some_conv split: if_splits)
  with Cons.IH [OF this(2)] Cons.prems(2) encode_message_field_after [OF this(1)] show ?case by auto
qed simp

lemma fast_message_encode_after:
  assumes "fast_message_encode pb mb msg = Some (True, pb', mb', msg')" "nr_fields msg = of_nat (length (m_fields msg))"
    "length (m_fields msg) < 56" "\<forall>f\<in>set (m_fields msg). f_type f \<in> {FAST_TYPE_INT, FAST_TYPE_UINT} \<and> message_ready f"
  shows "m_fields msg' = map after_send (m_fields msg)"
proof -
  have u: "unat (nr_fields msg) = length (m_fields msg)" using assms(2,3) by (simp add: unat_of_nat)
  have ld: "mem_load (m_fields msg) 0 (length (m_fields msg)) = Some (m_fields msg)" by (simp add: mem_load_def)
  from assms(1) obtain p b c q fs fs2 where
    "encode_fields encode_message_field b p (m_fields msg) = Some (True, c, q, fs)" "mem_store (m_fields msg) 0 fs = Some fs2"
    "m_fields msg' = fs2"
    by (auto simp: fast_message_encode_def bind_eq_Some_conv u ld Let_def split: if_splits)
  with encode_fields_after [OF this(1) assms(4)] mem_store_Some [of 0 fs "m_fields msg"] show ?thesis by simp
qed

text \<open>Room for any message in both transmit buffers.\<close>

definition tx_ready :: "fast_session \<Rightarrow> bool" where
  "tx_ready s \<longleftrightarrow> buffer_wf (tx_pmap_buffer s) \<and> 4096 \<le> unat (capacity (tx_pmap_buffer s))
     \<and> buffer_wf (tx_message_buffer s) \<and> 4096 \<le> unat (capacity (tx_message_buffer s))"

lemma send_step:
  fixes msg :: "('a fast_field_scheme) fast_message" and send
  assumes rx: "receiver r0 mi (m_tid msg) ds0" "list_all2 message_sync (m_fields msg) ds0"
    and tid: "unat (m_tid msg) < 2 ^ 31" and n: "nr_fields msg = of_nat (length (m_fields msg))" "length (m_fields msg) < 56"
    and tx: "tx_ready s" and vs: "length vs = length (m_fields msg)" "list_all message_ready (map2 assign_value vs (m_fields msg))"
    and snd: "\<forall>v. \<not> send v <s 0"
  defines "msg' \<equiv> msg\<lparr>m_fields := map after_send (map2 assign_value vs (m_fields msg))\<rparr>"
  shows "\<exists>s' v0 v1. fast_session_send s (filled vs msg) send = Some (True, s', msg') \<and> tx_ready s'
    \<and> buffer_to_iovec (tx_pmap_buffer s') = Some v0 \<and> buffer_to_iovec (tx_message_buffer s') = Some v1 \<and> length (v0 @ v1) < 1000
    \<and> (\<forall>r ds b rest. receiver r mi (m_tid msg) ds \<longrightarrow> list_all2 message_sync (m_fields msg) ds \<longrightarrow> holds b (v0 @ v1 @ rest) \<longrightarrow>
        (\<exists>r' m. fast_message_decode (r\<lparr>rx_buffer := b\<rparr>) = Some (Some (int mi), r') \<and> mem_get (rx_messages r') (int mi) = Some m
          \<and> holds (rx_buffer r') rest \<and> m_tid m = m_tid msg \<and> list_all2 reads_value vs (m_fields m)
          \<and> receiver r' mi (m_tid msg) (m_fields m) \<and> list_all2 message_sync (m_fields msg') (m_fields m)))"
proof -
  let ?e = "filled vs msg" and ?pb = "buffer_reset (tx_pmap_buffer s)" and ?mb = "buffer_reset (tx_message_buffer s)"
  have e: "m_tid ?e = m_tid msg" "m_fields ?e = map2 assign_value vs (m_fields msg)" "length (m_fields ?e) = length (m_fields msg)"
    "nr_fields ?e = of_nat (length (m_fields ?e))" using vs(1) n(1) by (simp_all add: filled_def)
  have pb: "holds ?pb []" "8 \<le> buffer_room ?pb" and mb: "holds ?mb []" "9 + 9 * length (m_fields ?e) \<le> buffer_room ?mb"
    using tx n(2) e(3) by (simp_all add: tx_ready_def buffer_wf_def reset_holds)
  have rd: "\<forall>f\<in>set (m_fields ?e). message_ready f" using vs(2) e(2) by (simp add: list_all_iff)
  have core: "\<exists>w1 w2. fast_message_encode ?pb ?mb ?e = Some (True, buffer_extend ?pb w1, buffer_extend ?mb w2, msg')
      \<and> holds (buffer_extend ?pb w1) w1 \<and> holds (buffer_extend ?mb w2) w2 \<and> length w1 \<le> 8 \<and> length w2 \<le> 9 + 9 * length (m_fields msg)
      \<and> (\<forall>b rest. holds b (w1 @ w2 @ rest) \<longrightarrow>
         (\<exists>r' ds'. fast_message_decode (r\<lparr>rx_buffer := b\<rparr>) = Some (Some (int mi), r')
           \<and> receiver r' mi (m_tid msg) ds' \<and> holds (rx_buffer r') rest
           \<and> list_all2 same_field (m_fields ?e) ds' \<and> list_all2 message_sync (m_fields msg') ds'))"
    if r: "receiver r mi (m_tid msg) ds" "list_all2 message_sync (m_fields msg) ds" for r ds
  proof -
    have sy: "list_all2 message_sync (m_fields ?e) ds" unfolding e(2) by (rule filled_lists(1) [OF vs(1) r(2)])
    have ty: "\<forall>f\<in>set (m_fields ?e). f_type f \<in> {FAST_TYPE_INT, FAST_TYPE_UINT} \<and> message_ready f"
      using sy rd by (auto simp: list_all2_conv_all_nth in_set_conv_nth message_sync_def)
    have r1: "receiver r mi (m_tid ?e) ds" "unat (m_tid ?e) < 2 ^ 31" "length (m_fields ?e) < 56" using r(1) tid n(2) e by simp_all
    from message_roundtrip_core [OF r1(1,2) sy rd e(4) r1(3) pb mb] obtain pb' mb' m' w1 w2 where
      w: "fast_message_encode ?pb ?mb ?e = Some (True, pb', mb', m')" "pb' = buffer_extend ?pb w1" "mb' = buffer_extend ?mb w2"
      "length w1 \<le> 8" "length w2 \<le> 9 + 9 * length (m_fields ?e)" "m' = ?e\<lparr>m_fields := m_fields m'\<rparr>" "holds pb' w1" "holds mb' w2"
      "\<forall>b rest. holds b (w1 @ w2 @ rest) \<longrightarrow>
         (\<exists>r' ds'. fast_message_decode (r\<lparr>rx_buffer := b\<rparr>) = Some (Some (int mi), r')
           \<and> receiver r' mi (m_tid ?e) ds' \<and> holds (rx_buffer r') rest
           \<and> list_all2 same_field (m_fields ?e) ds' \<and> list_all2 message_sync (m_fields m') ds')" by blast
    have "m' = msg'" using w(6) fast_message_encode_after [OF w(1) e(4) r1(3) ty] by (simp add: msg'_def e(2) filled_def)
    with w e show ?thesis by auto
  qed
  from core [OF rx] obtain w1 w2 where w: "fast_message_encode ?pb ?mb ?e = Some (True, buffer_extend ?pb w1, buffer_extend ?mb w2, msg')"
    "holds (buffer_extend ?pb w1) w1" "holds (buffer_extend ?mb w2) w2" "length w1 \<le> 8" "length w2 \<le> 9 + 9 * length (m_fields msg)" by blast
  let ?s = "s\<lparr>tx_pmap_buffer := buffer_extend ?pb w1, tx_message_buffer := buffer_extend ?mb w2\<rparr>"
  have v: "buffer_to_iovec (buffer_extend ?pb w1) = Some w1" "buffer_to_iovec (buffer_extend ?mb w2) = Some w2"
    using tx w(4,5) n(2) by (simp_all add: tx_ready_def buffer_wf_def iovec_extend)
  have "fast_session_send s ?e send = Some (True, ?s, msg')"
    using snd by (simp add: fast_session_send_def fast_message_send_def w(1) v)
  moreover have "tx_ready ?s" using tx w(2,3) by (auto simp: tx_ready_def buffer_reset_def)
  moreover have "length (w1 @ w2) < 1000" using w(4,5) n(2) by simp
  moreover have "\<exists>r' m. fast_message_decode (r\<lparr>rx_buffer := b\<rparr>) = Some (Some (int mi), r') \<and> mem_get (rx_messages r') (int mi) = Some m
      \<and> holds (rx_buffer r') rest \<and> m_tid m = m_tid msg \<and> list_all2 reads_value vs (m_fields m)
      \<and> receiver r' mi (m_tid msg) (m_fields m) \<and> list_all2 message_sync (m_fields msg') (m_fields m)"
    if r: "receiver r mi (m_tid msg) ds" "list_all2 message_sync (m_fields msg) ds" and h: "holds b (w1 @ w2 @ rest)" for r ds b rest
  proof -
    from core [OF r] obtain x1 x2 where x: "fast_message_encode ?pb ?mb ?e = Some (True, buffer_extend ?pb x1, buffer_extend ?mb x2, msg')"
      "holds (buffer_extend ?pb x1) x1" "holds (buffer_extend ?mb x2) x2"
      "\<forall>b rest. holds b (x1 @ x2 @ rest) \<longrightarrow>
         (\<exists>r' ds'. fast_message_decode (r\<lparr>rx_buffer := b\<rparr>) = Some (Some (int mi), r')
           \<and> receiver r' mi (m_tid msg) ds' \<and> holds (rx_buffer r') rest
           \<and> list_all2 same_field (m_fields ?e) ds' \<and> list_all2 message_sync (m_fields msg') ds')" by blast
    have "x1 = w1" "x2 = w2" using w(1,2,3) x(1,2,3) by (auto simp: holds_def)
    with x(4) h obtain r' ds' where d: "fast_message_decode (r\<lparr>rx_buffer := b\<rparr>) = Some (Some (int mi), r')"
      "receiver r' mi (m_tid msg) ds'" "holds (rx_buffer r') rest" "list_all2 same_field (m_fields ?e) ds'"
      "list_all2 message_sync (m_fields msg') ds'" by blast
    have "list_all2 reads_value vs ds'" using filled_lists(2) [OF d(4) [unfolded e(2)] vs(1)] .
    moreover obtain m where "mem_get (rx_messages r') (int mi) = Some m" "m_tid m = m_tid msg" "m_fields m = ds'"
      using d(2) by (auto simp: receiver_def mem_get_Some)
    ultimately show ?thesis using d by auto
  qed
  ultimately show ?thesis using v by (intro exI [of _ ?s] exI [of _ w1] exI [of _ w2]) auto
qed

lemma run_link:
  fixes msg :: "('a fast_field_scheme) fast_message" and send
  assumes "receiver r0 mi (m_tid msg) ds0" "list_all2 message_sync (m_fields msg) ds0"
    and "unat (m_tid msg) < 2 ^ 31" and "nr_fields msg = of_nat (length (m_fields msg))" "length (m_fields msg) < 56"
    and "tx_ready s" and "can_send (m_fields msg) vss" and snd: "\<forall>v. \<not> send v <s 0"
  shows "\<exists>w. send_run send s msg vss = Some (replicate (length vss) True, w)
    \<and> (\<forall>r ds b rest. receiver r mi (m_tid msg) ds \<longrightarrow> list_all2 message_sync (m_fields msg) ds \<longrightarrow> holds b (w @ rest) \<longrightarrow>
        (\<exists>ms r'. receive_run (length vss) (r\<lparr>rx_buffer := b\<rparr>) = Some (ms, r') \<and> holds (rx_buffer r') rest
          \<and> list_all2 (\<lambda>vs m. m_tid m = m_tid msg \<and> list_all2 reads_value vs (m_fields m)) vss ms))"
  using assms(1-7)
proof (induction vss arbitrary: r0 ds0 msg s)
  case Nil
  then show ?case by simp
next
  case (Cons vs vss)
  from Cons.prems(7) have vs: "length vs = length (m_fields msg)" "list_all message_ready (map2 assign_value vs (m_fields msg))"
    and rest: "can_send (map after_send (map2 assign_value vs (m_fields msg))) vss" by simp_all
  let ?m = "msg\<lparr>m_fields := map after_send (map2 assign_value vs (m_fields msg))\<rparr>"
  have m: "m_tid ?m = m_tid msg" "nr_fields ?m = of_nat (length (m_fields ?m))" "length (m_fields ?m) < 56" "can_send (m_fields ?m) vss"
    using vs(1) Cons.prems(4,5) rest by simp_all
  from send_step [where send = send, OF Cons.prems(1-6) vs snd] obtain s' v0 v1 where
    s: "fast_session_send s (filled vs msg) send = Some (True, s', ?m)" "tx_ready s'"
      "buffer_to_iovec (tx_pmap_buffer s') = Some v0" "buffer_to_iovec (tx_message_buffer s') = Some v1" "length (v0 @ v1) < 1000"
    and d: "\<And>r ds b rest. receiver r mi (m_tid msg) ds \<Longrightarrow> list_all2 message_sync (m_fields msg) ds \<Longrightarrow> holds b (v0 @ v1 @ rest) \<Longrightarrow>
        (\<exists>r' m. fast_message_decode (r\<lparr>rx_buffer := b\<rparr>) = Some (Some (int mi), r') \<and> mem_get (rx_messages r') (int mi) = Some m
          \<and> holds (rx_buffer r') rest \<and> m_tid m = m_tid msg \<and> list_all2 reads_value vs (m_fields m)
          \<and> receiver r' mi (m_tid msg) (m_fields m) \<and> list_all2 message_sync (m_fields ?m) (m_fields m))" by blast
  have "holds (buffer_of (v0 @ v1) 0) (v0 @ v1 @ [])" using s(5) buffer_of_holds(1) [of "v0 @ v1" 0] by simp
  from d [OF Cons.prems(1,2) this] obtain r1 and m1 :: "seq_field fast_message" where r1: "receiver r1 mi (m_tid ?m) (m_fields m1)"
    "list_all2 message_sync (m_fields ?m) (m_fields m1)" unfolding m(1) by blast
  from Cons.IH [OF r1 _ m(2,3) s(2) m(4)] Cons.prems(3) obtain w where
    w: "send_run send s' ?m vss = Some (replicate (length vss) True, w)"
    and dw: "\<And>r ds b rest. receiver r mi (m_tid msg) ds \<Longrightarrow> list_all2 message_sync (m_fields ?m) ds \<Longrightarrow> holds b (w @ rest) \<Longrightarrow>
        (\<exists>ms r'. receive_run (length vss) (r\<lparr>rx_buffer := b\<rparr>) = Some (ms, r') \<and> holds (rx_buffer r') rest
          \<and> list_all2 (\<lambda>vs m. m_tid m = m_tid msg \<and> list_all2 reads_value vs (m_fields m)) vss ms)"
    unfolding m(1) by blast
  have "\<exists>ms r'. receive_run (length (vs # vss)) (r\<lparr>rx_buffer := b\<rparr>) = Some (ms, r') \<and> holds (rx_buffer r') rest
      \<and> list_all2 (\<lambda>vs m. m_tid m = m_tid msg \<and> list_all2 reads_value vs (m_fields m)) (vs # vss) ms"
    if r: "receiver r mi (m_tid msg) ds" "list_all2 message_sync (m_fields msg) ds" and h: "holds b ((v0 @ v1 @ w) @ rest)" for r ds b rest
  proof -
    have "holds b (v0 @ v1 @ (w @ rest))" using h by simp
    from d [OF r this] obtain r1 m1 where 1: "fast_message_decode (r\<lparr>rx_buffer := b\<rparr>) = Some (Some (int mi), r1)"
      "mem_get (rx_messages r1) (int mi) = Some m1" "holds (rx_buffer r1) (w @ rest)" "m_tid m1 = m_tid msg"
      "list_all2 reads_value vs (m_fields m1)" "receiver r1 mi (m_tid msg) (m_fields m1)" "list_all2 message_sync (m_fields ?m) (m_fields m1)"
      by blast
    from dw [OF 1(6,7,3)] obtain ms r' where "receive_run (length vss) r1 = Some (ms, r')" "holds (rx_buffer r') rest"
      "list_all2 (\<lambda>vs m. m_tid m = m_tid msg \<and> list_all2 reads_value vs (m_fields m)) vss ms" by auto
    with 1 show ?thesis by (intro exI [of _ "m1 # ms"] exI [of _ r']) simp
  qed
  with s w show ?case by (intro exI [of _ "v0 @ v1 @ w"]) simp
qed

subsection \<open>Property\<close>

text \<open>C2: Two programs that parse the same document understand each other.  Let all fields of a template be integers, signed or not,
  with any operators and any presence, fewer than 56 of them, and let the receiving session have no preamble.  Then the values that
  one program gives to the fields in any number of messages of that template in a row, sent with its session, are the values, or the
  empty fields, that the other finds in the messages its decoder hands out, one by one, all of that template, however the operators
  refer to the messages before; nothing that follows in the stream is touched.  (Strings, decimals, vectors and sequences are
  not covered.)\<close>

theorem templates_agree:
  assumes "session_of malloc1 cfg1 (Some doc) = Some s1" and "session_of malloc2 cfg2 (Some doc) = Some s2"
    and "\<forall>n blk. malloc1 n = Some blk \<longrightarrow> length blk = unat n" and "\<forall>n blk. malloc2 n = Some blk \<longrightarrow> length blk = unat n"
    and "preamble_bytes cfg2 = 0" and "mi < 128" and "msg = rx_messages s1 ! mi"
    and "\<forall>j<mi. m_tid (rx_messages s1 ! j) \<noteq> m_tid msg" and "unat (m_tid msg) < 2 ^ 31"
    and "\<forall>f\<in>set (m_fields msg). f_type f \<in> {FAST_TYPE_INT, FAST_TYPE_UINT}" and "length (m_fields msg) < 56"
    and "can_send (m_fields msg) vss" and "\<forall>v. \<not> send v <s 0"
  shows "\<exists>w. send_run send s1 msg vss = Some (replicate (length vss) True, w)
    \<and> (\<forall>b rest. holds b (w @ rest) \<longrightarrow>
         (\<exists>ms s'. receive_run (length vss) (s2\<lparr>rx_buffer := b\<rparr>) = Some (ms, s') \<and> holds (rx_buffer s') rest
           \<and> list_all2 (\<lambda>vs m. m_tid m = m_tid msg \<and> list_all2 reads_value vs (m_fields m)) vss ms))"
proof -
  from assms(1,3) session_of_new [of malloc1 cfg1 doc s1] have n1:
    "\<forall>m\<in>set (rx_messages s1). fresh_message m" "length (rx_messages s1) = 128"
    "holds (tx_pmap_buffer s1) []" "holds (tx_message_buffer s1) []"
    "buffer_room (tx_pmap_buffer s1) = 4096" "buffer_room (tx_message_buffer s1) = 4096" by blast+
  from assms(2,4) session_of_new [of malloc2 cfg2 doc s2] have n2:
    "s_preamble s2 = \<lparr>pre_is_valid = False, pre_nr_bytes = scast (preamble_bytes cfg2), pre_bytes = replicate 8 0\<rparr>"
    "s_pmap s2 = \<lparr>is_valid = False, pmap_bit = 0, nr_bytes = 0, pmap_bytes = replicate 8 0\<rparr>" "rx_message s2 = None" by blast+
  have same: "rx_messages s2 = rx_messages s1" using assms(1,2) by (rule sessions_same)
  have "msg \<in> set (rx_messages s1)" using assms(6,7) n1(2) by simp
  with n1(1) have fresh: "nr_fields msg = of_nat (length (m_fields msg))" "m_decoded msg = 0"
    "\<forall>f\<in>set (m_fields msg). fresh_field f" by (auto simp: fresh_message_def)
  have rx: "receiver s2 mi (m_tid msg) (m_fields msg)"
    unfolding receiver_def using assms(5-8) n1(2) n2 same fresh by simp
  have sync: "list_all2 message_sync (m_fields msg) (m_fields msg)"
    using fresh(3) assms(10) by (auto simp: list_all2_conv_all_nth intro!: fresh_sync)
  have tx: "tx_ready s1" using n1(3-6) by (auto simp: tx_ready_def buffer_room_def)
  from run_link [where send = send, OF rx sync assms(9) fresh(1) assms(11) tx assms(12,13)] rx sync show ?thesis by blast
qed

text \<open>A document of one template, with an unsigned field with the copy operator and an optional signed one with the delta
  operator.\<close>

definition link_doc :: xml where
  "link_doc = Element ''templates'' [] [Element ''template'' [(''id'', ''7'')]
     [Element ''uInt32'' [(''name'', ''Price'')] [Element ''copy'' [] []],
      Element ''int64'' [(''name'', ''Change''), (''presence'', ''optional'')] [Other, Element ''delta'' [] []]]]"

definition link_cfg :: fast_session_cfg where
  "link_cfg = \<lparr>preamble_bytes = 0, cfg_reset = False\<rparr>"

text \<open>A price and a change, the same price and no change, and a new price.\<close>

definition link_values :: "i64 option list list" where
  "link_values = [[Some 942755, Some (- 3)], [Some 942755, None], [Some 942760, Some 4]]"

lemma link_session:
  "\<exists>s. session_of (\<lambda>n. Some (replicate (unat n) 0)) link_cfg (Some link_doc) = Some s
    \<and> m_tid (rx_messages s ! 0) = 7 \<and> map f_type (m_fields (rx_messages s ! 0)) = [FAST_TYPE_UINT, FAST_TYPE_INT]
    \<and> can_send (m_fields (rx_messages s ! 0)) link_values"
  by (simp add: session_of_def fast_session_new_def link_doc_def link_cfg_def buffer_new_def fast_parse_template_def
      xmlChildElementCount_def FAST_PREAMBLE_MAX_BYTES_def FAST_TEMPLATE_MAX_NUMBER_def mem_get_def mem_put_def
      fast_message_init_def field_head_def fast_type_init_def fast_presence_init_def fast_misc_init_def field_value_init_def
      first_element_def next_element_def fast_op_init_def fast_reset_init_def named_def zero_field_def zero_scalar_def
      fast_scalar.defs fast_field.defs Let_def link_values_def message_ready_def ready_uint_def ready_int_def ready_def narrow_def
      strtol_def chars_def digits_value_def c_isdigit_def c_isspace_def word_sless_alt after_send_def field_set_empty_def
      field_is_mandatory_def)

theorem templates_agree_witness:
  "\<exists>s w. session_of (\<lambda>n. Some (replicate (unat n) 0)) link_cfg (Some link_doc) = Some s
    \<and> send_run (\<lambda>_. 0) s (rx_messages s ! 0) link_values = Some ([True, True, True], w)
    \<and> (\<forall>b rest. holds b (w @ rest) \<longrightarrow>
         (\<exists>ms s'. receive_run 3 (s\<lparr>rx_buffer := b\<rparr>) = Some (ms, s') \<and> holds (rx_buffer s') rest
           \<and> list_all2 (\<lambda>vs m. m_tid m = m_tid (rx_messages s ! 0) \<and> list_all2 reads_value vs (m_fields m)) link_values ms))"
proof (rule exE [OF link_session], elim conjE)
  let ?M = "\<lambda>n :: ulong. Some (replicate (unat n) 0) :: mem option"
  fix s
  assume s: "session_of ?M link_cfg (Some link_doc) = Some s" "m_tid (rx_messages s ! 0) = 7"
    "map f_type (m_fields (rx_messages s ! 0)) = [FAST_TYPE_UINT, FAST_TYPE_INT]" "can_send (m_fields (rx_messages s ! 0)) link_values"
  let ?msg = "rx_messages s ! 0"
  have M: "\<forall>n blk. ?M n = Some blk \<longrightarrow> length blk = unat n" by auto
  have l: "length (m_fields ?msg) = 2" using arg_cong [OF s(3), of length] by simp
  have t: "\<forall>f\<in>set (m_fields ?msg). f_type f \<in> {FAST_TYPE_INT, FAST_TYPE_UINT}"
  proof
    fix f
    assume "f \<in> set (m_fields ?msg)"
    then have "f_type f \<in> set (map f_type (m_fields ?msg))" by simp
    then show "f_type f \<in> {FAST_TYPE_INT, FAST_TYPE_UINT}" unfolding s(3) by auto
  qed
  have "preamble_bytes link_cfg = 0" "(0 :: nat) < 128" "unat (m_tid ?msg) < 2 ^ 31" "length (m_fields ?msg) < 56"
    "\<forall>j<0. m_tid (rx_messages s ! j) \<noteq> m_tid ?msg" "\<forall>v. \<not> (\<lambda>_ :: u8 list list. 0 :: i64) v <s 0"
    using s(2) l by (simp_all add: link_cfg_def)
  from templates_agree [OF s(1) s(1) M M this(1,2) refl this(5,3) t this(4) s(4) this(6)]
  have "\<exists>w. send_run (\<lambda>_. 0) s ?msg link_values = Some (replicate (length link_values) True, w)
    \<and> (\<forall>b rest. holds b (w @ rest) \<longrightarrow>
         (\<exists>ms s'. receive_run (length link_values) (s\<lparr>rx_buffer := b\<rparr>) = Some (ms, s') \<and> holds (rx_buffer s') rest
           \<and> list_all2 (\<lambda>vs m. m_tid m = m_tid ?msg \<and> list_all2 reads_value vs (m_fields m)) link_values ms))" .
  moreover have "length link_values = 3" "replicate 3 True = [True, True, True]" by (simp_all add: link_values_def numeral_3_eq_3)
  ultimately show ?thesis using s(1) by auto
qed

end
