(* ===== verification/Fast_Feed.thy ===== *)
theory Fast_Feed
  imports Fast_Template
begin

text \<open>
  Market data feeds (lib/proto/fast_feed.c, fast_feed.h): a FAST session over a multicast group or a file, opened
  and closed.  The system calls are the function \<open>fk_call\<close> of the record \<open>feed_sys\<close>, with a kernel state of
  their own; \<open>inet_addr\<close>, the allocator, the check by \<open>fstat\<close> and the XML files by name are its other members.
  A pointer to a session is null, points to a session, or dangles after \<open>fast_session_free\<close>: its use is then
  a fault.
\<close>

datatype session_ptr = NullSession | DanglingSession | Session (sp_sockfd: i32) (sp_session: fast_session)

record fast_feed =
  feed_session :: session_ptr
  feed_cfg :: fast_session_cfg
  cfg_sockfd :: i32
  recv_num :: u64
  feed_file :: string
  feed_xml :: string
  feed_lip :: string
  feed_sip :: string
  feed_ip :: string
  feed_active :: bool
  feed_port :: i32

datatype feed_call = SocketCall | GetFl i32 | SetFl i32 i32 | ReuseAddr i32 | BindPort i32 u16
  | AddMembership i32 u32 u32 | AddSourceMembership i32 u32 u32 u32 | OpenFile string | Shutdown i32 | CloseFd i32

record 'k feed_sys =
  fk_call :: "'k \<Rightarrow> feed_call \<Rightarrow> i32 \<times> 'k"
  fk_recv :: "i32 \<Rightarrow> 'k \<Rightarrow> ulong \<Rightarrow> u8 list io \<times> 'k"
  fk_stat :: "i32 \<Rightarrow> bool"
  fk_malloc :: "ulong \<Rightarrow> mem option"
  fk_xml :: "string \<Rightarrow> xml option"
  fk_inet_addr :: "string \<Rightarrow> u32"

definition O_NONBLOCK :: i32 where "O_NONBLOCK = 2048"
definition INADDR_NONE :: u32 where "INADDR_NONE = - 1"

definition htons :: "i32 \<Rightarrow> u16" where
  "htons p = (let w = ucast p :: u16 in push_bit 8 w OR drop_bit 8 w)"

text \<open>A call that is made when those before it succeeded: a negative result is a failure.\<close>

definition try_call :: "'k feed_sys \<Rightarrow> feed_call \<Rightarrow> bool \<times> 'k \<Rightarrow> bool \<times> 'k" where
  "try_call c call = (\<lambda>(ok, k). if \<not> ok then (False, k) else let (r, k) = fk_call c k call in (0 \<le>s r, k))"

definition fast_feed_socket :: "'k feed_sys \<Rightarrow> fast_feed \<Rightarrow> 'k \<Rightarrow> i32 \<times> 'k" where
  "fast_feed_socket c feed k =
     (let (sockfd, k) = fk_call c k SocketCall in
      if sockfd <s 0 then (-1, k)
      else let (fl, k) = fk_call c k (GetFl sockfd);
               (ok, k) = try_call c (SetFl sockfd (fl OR O_NONBLOCK)) (True, k);
               (ok, k) = try_call c (ReuseAddr sockfd) (ok, k);
               (ok, k) = try_call c (BindPort sockfd (htons (feed_port feed))) (ok, k);
               (ok, k) = (if fk_inet_addr c (feed_sip feed) = INADDR_NONE
                  then try_call c (AddMembership sockfd (fk_inet_addr c (feed_ip feed)) (fk_inet_addr c (feed_lip feed))) (ok, k)
                  else try_call c (AddSourceMembership sockfd (fk_inet_addr c (feed_ip feed)) (fk_inet_addr c (feed_sip feed))
                    (fk_inet_addr c (feed_lip feed))) (ok, k))
           in (if ok then sockfd else -1, k))"

text \<open>\<open>fast_session_free\<close> on the session of a feed.\<close>

definition feed_free :: "fast_feed \<Rightarrow> fast_feed option" where
  "feed_free feed =
     (case feed_session feed of
        NullSession \<Rightarrow> Some feed
      | DanglingSession \<Rightarrow> None
      | Session _ _ \<Rightarrow> Some (feed\<lparr>feed_session := DanglingSession\<rparr>))"

text \<open>The results say whether the code returns 0.\<close>

definition fast_feed_open :: "'k feed_sys \<Rightarrow> fast_feed \<Rightarrow> 'k \<Rightarrow> (bool \<times> fast_feed \<times> 'k) option" where
  "fast_feed_open c feed k =
     (if feed_active feed then do { feed \<leftarrow> feed_free feed; Some (False, feed, k) }
      else let feed = feed\<lparr>feed_session := NullSession\<rparr>;
               (sockfd, k) = (if feed_file feed \<noteq> [] then fk_call c k (OpenFile (feed_file feed)) else fast_feed_socket c feed k)
        in if sockfd <s 0 then Some (False, feed, k)
           else let feed = feed\<lparr>cfg_sockfd := sockfd\<rparr> in
             (case fast_session_new (fk_malloc c) (feed_cfg feed) (fk_stat c sockfd) of
                None \<Rightarrow> Some (False, feed, k)
              | Some s \<Rightarrow> do {
                  r \<leftarrow> fast_parse_template s (fk_xml c (feed_xml feed));
                  (case r of
                     Inl _ \<Rightarrow> do {
                       feed \<leftarrow> feed_free (feed\<lparr>feed_session := Session sockfd s\<rparr>);
                       Some (False, feed, k) }
                   | Inr s \<Rightarrow> Some (True, feed\<lparr>feed_session := Session sockfd s, feed_active := True\<rparr>, k)) }))"

definition fast_feed_close :: "'k feed_sys \<Rightarrow> fast_feed \<Rightarrow> 'k \<Rightarrow> (bool \<times> fast_feed \<times> 'k) option" where
  "fast_feed_close c feed k =
     (if \<not> feed_active feed then Some (True, feed, k)
      else case feed_session feed of
          NullSession \<Rightarrow> Some (True, feed, k)
        | DanglingSession \<Rightarrow> None
        | Session sockfd _ \<Rightarrow> do {
            feed \<leftarrow> feed_free feed;
            let (_, k) = fk_call c k (Shutdown sockfd);
            let (r, k) = fk_call c k (CloseFd sockfd);
            (if r <s 0 then Some (False, feed, k)
             else Some (True, feed\<lparr>feed_session := NullSession, feed_active := False\<rparr>, k)) })"

text \<open>The message that was received.  Its fields are read before the same session receives again, so the message
  itself is passed on in place of its address.\<close>

definition fast_feed_recv ::
    "'k feed_sys \<Rightarrow> fast_feed \<Rightarrow> 'k \<Rightarrow> (seq_field fast_message option \<times> fast_feed \<times> 'k) option" where
  "fast_feed_recv c feed k =
     (case feed_session feed of
        Session fd s \<Rightarrow> do {
          s \<leftarrow> (if s_reset s then fast_session_reset s else Some s);
          (m, s, k) \<leftarrow> fast_session_recv (session_rd (fk_recv c fd)) s k;
          (let feed = feed\<lparr>feed_session := Session fd s\<rparr> in
           case m of
             None \<Rightarrow> Some (None, feed, k)
           | Some i \<Rightarrow> do { msg \<leftarrow> mem_get (rx_messages s) i; Some (Some msg, feed, k) }) }
      | _ \<Rightarrow> None)"

definition feed_reset :: "fast_feed \<Rightarrow> fast_feed option" where
  "feed_reset feed =
     (case feed_session feed of
        Session fd s \<Rightarrow> do { s \<leftarrow> fast_session_reset s; Some (feed\<lparr>feed_session := Session fd s\<rparr>) }
      | _ \<Rightarrow> None)"

text \<open>Opening a feed that is open fails and frees its session: the feed still counts as active, and whatever
  uses it next, closing it included, uses freed memory.\<close>

lemma reopened_feed_dangles:
  assumes "feed_active feed" and "feed_session feed = Session fd s"
  shows "fast_feed_open c feed k = Some (False, feed\<lparr>feed_session := DanglingSession\<rparr>, k)"
    and "fast_feed_recv c (feed\<lparr>feed_session := DanglingSession\<rparr>) k = None"
    and "fast_feed_close c (feed\<lparr>feed_session := DanglingSession\<rparr>) k = None"
  using assms by (simp_all add: fast_feed_open_def feed_free_def fast_feed_recv_def fast_feed_close_def)

end
