(* ===== verification/Order_Book.thy ===== *)
theory Order_Book
  imports Prelude
begin

text \<open>
  The order book of a receiver (lib/order_book.c): for each side the price levels, found by price in a hash
  table and in a tree, and kept in a list sorted by price.  The containers are GLib's, which is not part of the
  program: they are the operations of the record \<open>glib\<close>, an argument, and \<open>glib_laws\<close> is what their
  documentation promises.  A level is allocated on the heap and shared by the three containers, which hold its
  address; a side has its own addresses here, as the levels of one side are never in the containers of the other.
  Allocation succeeds; a use of a freed level is a fault.
\<close>

subsection \<open>Levels and the containers\<close>

record ob_level =
  lv_seq_num :: ulong
  lv_price :: ulong
  lv_size :: ulong

record ob_order =
  or_seq_num :: ulong
  or_price :: ulong
  or_size :: ulong
  or_buy :: bool

type_synonym level_heap = "ob_level option list"

text \<open>Keys of the hash table and of the tree are prices cast to pointers; values are addresses of levels.
  The comparison of the sorted insertion reads the levels, so it can fault.\<close>

record ('h, 't) glib =
  g_hash_table_new :: 'h
  g_hash_table_lookup :: "'h \<Rightarrow> ulong \<Rightarrow> nat option"
  g_hash_table_insert :: "'h \<Rightarrow> ulong \<Rightarrow> nat \<Rightarrow> 'h"
  g_hash_table_remove :: "'h \<Rightarrow> ulong \<Rightarrow> bool \<times> 'h"
  g_tree_new :: "(ulong \<Rightarrow> ulong \<Rightarrow> i32) \<Rightarrow> 't"
  g_tree_lookup :: "'t \<Rightarrow> ulong \<Rightarrow> nat option"
  g_tree_insert :: "'t \<Rightarrow> ulong \<Rightarrow> nat \<Rightarrow> 't"
  g_tree_remove :: "'t \<Rightarrow> ulong \<Rightarrow> bool \<times> 't"
  g_list_insert_sorted :: "nat list \<Rightarrow> nat \<Rightarrow> (nat \<Rightarrow> nat \<Rightarrow> i32 option) \<Rightarrow> nat list option"
  g_list_remove :: "nat list \<Rightarrow> nat \<Rightarrow> nat list"

text \<open>\<open>GPOINTER_TO_UINT\<close> keeps the low 32 bits.\<close>

definition g_uint_compare :: "ulong \<Rightarrow> ulong \<Rightarrow> i32" where
  "g_uint_compare pa pb =
     (let a = ucast pa :: u32; b = ucast pb :: u32 in if a < b then - 1 else if a > b then 1 else 0)"

definition level_at :: "level_heap \<Rightarrow> nat \<Rightarrow> ob_level option" where
  "level_at hp p = (if p < length hp then hp ! p else None)"

definition g_level_compare :: "level_heap \<Rightarrow> nat \<Rightarrow> nat \<Rightarrow> i32 option" where
  "g_level_compare hp pa pb = do {
     la \<leftarrow> level_at hp pa;
     lb \<leftarrow> level_at hp pb;
     Some (if lv_price la < lv_price lb then - 1 else if lv_price la > lv_price lb then 1 else 0) }"

subsection \<open>The book\<close>

record ('h, 't) ob_side =
  ob_heap :: level_heap
  ghtable :: 'h
  gtree :: 't
  glist :: "nat list"

record ('h, 't) order_book =
  ob_bids :: "('h, 't) ob_side"
  ob_asks :: "('h, 't) ob_side"

definition empty_side :: "('h, 't) glib \<Rightarrow> ('h, 't) ob_side" where
  "empty_side g = \<lparr>ob_heap = [], ghtable = g_hash_table_new g, gtree = g_tree_new g g_uint_compare, glist = []\<rparr>"

definition ob_init :: "('h, 't) glib \<Rightarrow> ('h, 't) order_book" where
  "ob_init g = \<lparr>ob_bids = empty_side g, ob_asks = empty_side g\<rparr>"

text \<open>\<open>ob_fini\<close> only releases memory.\<close>

definition ob_clear :: "('h, 't) glib \<Rightarrow> ('h, 't) order_book \<Rightarrow> ('h, 't) order_book" where
  "ob_clear g ob = ob_init g"

definition ob_side_of :: "('h, 't) order_book \<Rightarrow> bool \<Rightarrow> ('h, 't) ob_side" where
  "ob_side_of ob buy = (if buy then ob_bids ob else ob_asks ob)"

definition set_side :: "bool \<Rightarrow> ('h, 't) ob_side \<Rightarrow> ('h, 't) order_book \<Rightarrow> ('h, 't) order_book" where
  "set_side buy sd ob = (if buy then ob\<lparr>ob_bids := sd\<rparr> else ob\<lparr>ob_asks := sd\<rparr>)"

definition ob_level_lookup :: "('h, 't) glib \<Rightarrow> ('h, 't) order_book \<Rightarrow> ob_order \<Rightarrow> nat option" where
  "ob_level_lookup g ob order = g_hash_table_lookup g (ghtable (ob_side_of ob (or_buy order))) (or_price order)"

text \<open>The result says whether the code returns 0.\<close>

definition side_modify :: "('h, 't) glib \<Rightarrow> ob_order \<Rightarrow> ('h, 't) ob_side \<Rightarrow> (bool \<times> ('h, 't) ob_side) option" where
  "side_modify g order sd =
     (case g_hash_table_lookup g (ghtable sd) (or_price order) of
        None \<Rightarrow> (let p = length (ob_heap sd);
            hp = ob_heap sd @ [Some \<lparr>lv_seq_num = or_seq_num order, lv_price = or_price order, lv_size = or_size order\<rparr>]
          in do {
            l \<leftarrow> g_list_insert_sorted g (glist sd) p (g_level_compare hp);
            Some (True, \<lparr>ob_heap = hp, ghtable = g_hash_table_insert g (ghtable sd) (or_price order) p,
              gtree = g_tree_insert g (gtree sd) (or_price order) p, glist = l\<rparr>) })
      | Some p \<Rightarrow> do {
          lv \<leftarrow> level_at (ob_heap sd) p;
          (if or_seq_num order \<le> lv_seq_num lv then Some (False, sd)
           else Some (True, sd\<lparr>ob_heap := (ob_heap sd)
             [p := Some (lv\<lparr>lv_seq_num := or_seq_num order, lv_size := or_size order\<rparr>)]\<rparr>)) })"

definition ob_level_modify ::
    "('h, 't) glib \<Rightarrow> ('h, 't) order_book \<Rightarrow> ob_order \<Rightarrow> (bool \<times> ('h, 't) order_book) option" where
  "ob_level_modify g ob order = do {
     (ok, sd) \<leftarrow> side_modify g order (ob_side_of ob (or_buy order));
     Some (ok, set_side (or_buy order) sd ob) }"

text \<open>Removal from the hash table frees the level; the address that is still in the list is only compared.\<close>

definition side_delete :: "('h, 't) glib \<Rightarrow> ulong \<Rightarrow> ('h, 't) ob_side \<Rightarrow> bool \<times> ('h, 't) ob_side" where
  "side_delete g price sd =
     (case g_hash_table_lookup g (ghtable sd) price of
        None \<Rightarrow> (True, sd)
      | Some p \<Rightarrow>
          (let (ok, h) = g_hash_table_remove g (ghtable sd) price; sd = sd\<lparr>ghtable := h\<rparr> in
           if \<not> ok then (False, sd)
           else let sd = sd\<lparr>ob_heap := (ob_heap sd)[p := None]\<rparr>;
                    (ok, t) = g_tree_remove g (gtree sd) price; sd = sd\<lparr>gtree := t\<rparr> in
             if \<not> ok then (False, sd)
             else (True, sd\<lparr>glist := g_list_remove g (glist sd) p\<rparr>)))"

definition ob_level_delete :: "('h, 't) glib \<Rightarrow> ('h, 't) order_book \<Rightarrow> ob_order \<Rightarrow> bool \<times> ('h, 't) order_book" where
  "ob_level_delete g ob order =
     (let (ok, sd) = side_delete g (or_price order) (ob_side_of ob (or_buy order))
      in (ok, set_side (or_buy order) sd ob))"

subsection \<open>What GLib promises\<close>

definition same_key :: "ulong \<Rightarrow> ulong \<Rightarrow> bool" where
  "same_key a b \<longleftrightarrow> (ucast a :: u32) = ucast b"

lemma g_uint_compare_0: "g_uint_compare a b = 0 \<longleftrightarrow> same_key a b"
  by (auto simp: g_uint_compare_def same_key_def Let_def)

definition sorted_by :: "(nat \<Rightarrow> nat \<Rightarrow> i32 option) \<Rightarrow> nat list \<Rightarrow> bool" where
  "sorted_by cmp ps \<longleftrightarrow> sorted_wrt (\<lambda>p q. \<exists>c. cmp p q = Some c \<and> c \<le>s 0) ps"

text \<open>A map under insertion and removal; the tree compares keys with the function it was made with, which is
  \<open>g_uint_compare\<close> in this program.  The sorted insertion puts the new element somewhere so that the list stays
  sorted; removal takes out the first occurrence.\<close>

definition hash_laws :: "('h, 't) glib \<Rightarrow> bool" where
  "hash_laws g \<longleftrightarrow> (\<forall>k. g_hash_table_lookup g (g_hash_table_new g) k = None)
     \<and> (\<forall>h k v k'. g_hash_table_lookup g (g_hash_table_insert g h k v) k' = (if k' = k then Some v else g_hash_table_lookup g h k'))
     \<and> (\<forall>h k. fst (g_hash_table_remove g h k) \<longleftrightarrow> g_hash_table_lookup g h k \<noteq> None)
     \<and> (\<forall>h k k'. g_hash_table_lookup g (snd (g_hash_table_remove g h k)) k' = (if k' = k then None else g_hash_table_lookup g h k'))"

inductive g_uint_tree :: "('h, 't) glib \<Rightarrow> 't \<Rightarrow> bool" for g where
  tree_new: "g_uint_tree g (g_tree_new g g_uint_compare)"
| tree_insert: "g_uint_tree g t \<Longrightarrow> g_uint_tree g (g_tree_insert g t k v)"
| tree_remove: "g_uint_tree g t \<Longrightarrow> g_uint_tree g (snd (g_tree_remove g t k))"

definition tree_laws :: "('h, 't) glib \<Rightarrow> bool" where
  "tree_laws g \<longleftrightarrow> (\<forall>k. g_tree_lookup g (g_tree_new g g_uint_compare) k = None)
     \<and> (\<forall>t k. g_uint_tree g t \<longrightarrow> (fst (g_tree_remove g t k) \<longleftrightarrow> g_tree_lookup g t k \<noteq> None))
     \<and> (\<forall>t k v k'. g_uint_tree g t \<longrightarrow>
          g_tree_lookup g (g_tree_insert g t k v) k' = (if g_uint_compare k' k = 0 then Some v else g_tree_lookup g t k'))
     \<and> (\<forall>t k k'. g_uint_tree g t \<longrightarrow>
          g_tree_lookup g (snd (g_tree_remove g t k)) k' = (if g_uint_compare k' k = 0 then None else g_tree_lookup g t k'))"

definition list_laws :: "('h, 't) glib \<Rightarrow> bool" where
  "list_laws g \<longleftrightarrow> (\<forall>ps p cmp. sorted_by cmp ps \<longrightarrow> (\<forall>q\<in>set ps. cmp p q \<noteq> None \<and> cmp q p \<noteq> None) \<longrightarrow>
       (\<exists>as bs. ps = as @ bs \<and> g_list_insert_sorted g ps p cmp = Some (as @ p # bs)
          \<and> (\<forall>q\<in>set as. \<exists>c. cmp p q = Some c \<and> 0 <s c) \<and> (bs \<noteq> [] \<longrightarrow> (\<exists>c. cmp p (hd bs) = Some c \<and> c \<le>s 0))))
     \<and> (\<forall>ps p. g_list_remove g ps p = remove1 p ps)"

definition glib_laws :: "('h, 't) glib \<Rightarrow> bool" where
  "glib_laws g \<longleftrightarrow> hash_laws g \<and> tree_laws g \<and> list_laws g"

subsection \<open>The abstract ladder\<close>

text \<open>What a side of the book stands for: a map from prices to the sequence number and the size of the level.\<close>

type_synonym ladder = "ulong \<rightharpoonup> ulong \<times> ulong"

definition ladder_modify :: "ob_order \<Rightarrow> ladder \<Rightarrow> bool \<times> ladder" where
  "ladder_modify order m =
     (if (\<exists>s z. m (or_price order) = Some (s, z) \<and> or_seq_num order \<le> s) then (False, m)
      else (True, m(or_price order \<mapsto> (or_seq_num order, or_size order))))"

definition level_in :: "ladder \<Rightarrow> ulong \<Rightarrow> ob_level option" where
  "level_in m price = map_option (\<lambda>(s, z). \<lparr>lv_seq_num = s, lv_price = price, lv_size = z\<rparr>) (m price)"

definition cheaper :: "level_heap \<Rightarrow> nat \<Rightarrow> nat \<Rightarrow> bool" where
  "cheaper hp p q \<longleftrightarrow> (\<exists>a b. level_at hp p = Some a \<and> level_at hp q = Some b \<and> lv_price a < lv_price b)"

definition side_rep :: "('h, 't) glib \<Rightarrow> ('h, 't) ob_side \<Rightarrow> ladder \<Rightarrow> bool" where
  "side_rep g sd m \<longleftrightarrow> g_uint_tree g (gtree sd)
     \<and> (\<forall>k. m k \<noteq> None \<longrightarrow> k < 2 ^ 32)
     \<and> (\<forall>k. g_hash_table_lookup g (ghtable sd) k = None \<longleftrightarrow> m k = None)
     \<and> (\<forall>k p. g_hash_table_lookup g (ghtable sd) k = Some p \<longrightarrow> level_at (ob_heap sd) p = level_in m k)
     \<and> (\<forall>k. k < 2 ^ 32 \<longrightarrow> g_tree_lookup g (gtree sd) k = g_hash_table_lookup g (ghtable sd) k)
     \<and> set (glist sd) = {p. \<exists>k. g_hash_table_lookup g (ghtable sd) k = Some p}
     \<and> sorted_wrt (cheaper (ob_heap sd)) (glist sd)"

definition levels_listed :: "('h, 't) ob_side \<Rightarrow> ob_level option list" where
  "levels_listed sd = map (level_at (ob_heap sd)) (glist sd)"

definition levels_sorted :: "ladder \<Rightarrow> ob_level option list" where
  "levels_sorted m = map (level_in m) (sorted_list_of_set (dom m))"

lemma unat_low_half: "a < (2 ^ 32 :: ulong) \<Longrightarrow> unat (ucast a :: u32) = unat a"
  by (simp add: unsigned_ucast_eq unsigned_take_bit_eq word_less_nat_alt take_bit_nat_eq_self)

lemma same_key_small: "a < 2 ^ 32 \<Longrightarrow> b < 2 ^ 32 \<Longrightarrow> same_key a b \<longleftrightarrow> a = b"
  unfolding same_key_def by (metis unat_low_half unsigned_word_eqI)

lemma level_at_simps:
  "level_at (hp @ [v]) p = (if p = length hp then v else level_at hp p)"
  "level_at (hp[p := v]) q = (if q = p \<and> p < length hp then v else level_at hp q)"
  by (auto simp: level_at_def nth_append nth_list_update)

lemma level_at_bound: "level_at hp p = Some v \<Longrightarrow> p < length hp"
  by (simp add: level_at_def split: if_splits)

lemma level_in_upd:
  "level_in (m(k \<mapsto> (s, z))) k' = (if k' = k then Some \<lparr>lv_seq_num = s, lv_price = k, lv_size = z\<rparr> else level_in m k')"
  "level_in (m(k := None)) k' = (if k' = k then None else level_in m k')"
  by (auto simp: level_in_def)

lemma level_in_price: "level_in m k = Some v \<Longrightarrow> lv_price v = k"
  by (auto simp: level_in_def)

lemma level_in_None: "level_in m k = None \<longleftrightarrow> m k = None"
  by (auto simp: level_in_def)

lemma side_repD:
  assumes "side_rep g sd m"
  shows "g_uint_tree g (gtree sd)" "m k \<noteq> None \<Longrightarrow> k < 2 ^ 32"
    "g_hash_table_lookup g (ghtable sd) k = None \<longleftrightarrow> m k = None"
    "g_hash_table_lookup g (ghtable sd) k = Some p \<Longrightarrow> level_at (ob_heap sd) p = level_in m k"
    "k < 2 ^ 32 \<Longrightarrow> g_tree_lookup g (gtree sd) k = g_hash_table_lookup g (ghtable sd) k"
    "set (glist sd) = {p. \<exists>k. g_hash_table_lookup g (ghtable sd) k = Some p}"
    "sorted_wrt (cheaper (ob_heap sd)) (glist sd)"
  using assms unfolding side_rep_def by blast+

lemma side_rep_level:
  assumes "side_rep g sd m" and "g_hash_table_lookup g (ghtable sd) k = Some p"
  shows "\<exists>s z. m k = Some (s, z) \<and> level_at (ob_heap sd) p = Some \<lparr>lv_seq_num = s, lv_price = k, lv_size = z\<rparr>
    \<and> p < length (ob_heap sd)"
proof -
  have "m k \<noteq> None" using side_repD(3)[OF assms(1), of k] assms(2) by simp
  then obtain s z where m: "m k = Some (s, z)" by auto
  then have "level_at (ob_heap sd) p = Some \<lparr>lv_seq_num = s, lv_price = k, lv_size = z\<rparr>"
    using side_repD(4)[OF assms] by (simp add: level_in_def)
  then show ?thesis using m level_at_bound by blast
qed

lemma side_rep_injective:
  assumes "side_rep g sd m" and "g_hash_table_lookup g (ghtable sd) k = Some p"
    and "g_hash_table_lookup g (ghtable sd) k' = Some p"
  shows "k' = k"
  using side_rep_level[OF assms(1,2)] side_rep_level[OF assms(1,3)] by auto

lemma side_rep_empty: "glib_laws g \<Longrightarrow> side_rep g (empty_side g) Map.empty"
  by (simp add: side_rep_def empty_side_def glib_laws_def hash_laws_def tree_laws_def tree_new)

lemma g_level_compare_simps:
  assumes "level_at hp p = Some a" and "level_at hp q = Some b"
  shows "g_level_compare hp p q = Some (if lv_price a < lv_price b then - 1 else if lv_price a > lv_price b then 1 else 0)"
  using assms by (simp add: g_level_compare_def)

lemma cheaper_compare:
  "cheaper hp p q \<Longrightarrow> \<exists>c. g_level_compare hp p q = Some c \<and> c \<le>s 0"
  by (auto simp: cheaper_def g_level_compare_simps)

lemma cheaper_distinct: "sorted_wrt (cheaper hp) ps \<Longrightarrow> distinct ps"
  by (induction ps) (auto simp: cheaper_def)

lemma cheaper_remove: "sorted_wrt (cheaper hp) ps \<Longrightarrow> sorted_wrt (cheaper hp) (remove1 p ps)"
  by (induction ps) (auto dest: notin_set_remove1)

text \<open>The new level goes between the cheaper and the dearer ones.\<close>

lemma insert_sorted_level:
  assumes laws: "glib_laws g" and rep: "side_rep g sd m" and new: "m price = None"
    and hp: "hp = ob_heap sd @ [Some \<lparr>lv_seq_num = s, lv_price = price, lv_size = z\<rparr>]"
    and p: "p = length (ob_heap sd)"
  shows "\<exists>l. g_list_insert_sorted g (glist sd) p (g_level_compare hp) = Some l
    \<and> set l = insert p (set (glist sd)) \<and> sorted_wrt (cheaper hp) l"
proof -
  have at_p: "level_at hp p = Some \<lparr>lv_seq_num = s, lv_price = price, lv_size = z\<rparr>"
    unfolding hp p by (simp add: level_at_simps)
  have lev: "\<exists>a. level_at hp q = Some a \<and> lv_price a \<noteq> price" if "q \<in> set (glist sd)" for q
  proof -
    from that obtain k where k: "g_hash_table_lookup g (ghtable sd) k = Some q"
      using side_repD(6)[OF rep] by auto
    from side_rep_level[OF rep k] new show ?thesis
      unfolding hp by (auto simp: level_at_simps)
  qed
  have same: "cheaper hp q r" if "cheaper (ob_heap sd) q r" for q r
    using that unfolding cheaper_def hp by (auto simp: level_at_simps dest: level_at_bound)
  have srt: "sorted_wrt (cheaper hp) (glist sd)"
    using side_repD(7)[OF rep] by (rule sorted_wrt_mono_rel[rotated]) (rule same)
  have sb: "sorted_by (g_level_compare hp) (glist sd)"
    unfolding sorted_by_def using srt by (rule sorted_wrt_mono_rel[rotated]) (rule cheaper_compare)
  have both: "\<forall>q\<in>set (glist sd). g_level_compare hp p q \<noteq> None \<and> g_level_compare hp q p \<noteq> None"
    using lev at_p by (force simp: g_level_compare_simps)
  have ins: "\<exists>as bs. glist sd = as @ bs \<and> g_list_insert_sorted g (glist sd) p (g_level_compare hp) = Some (as @ p # bs)
      \<and> (\<forall>q\<in>set as. \<exists>c. g_level_compare hp p q = Some c \<and> 0 <s c)
      \<and> (bs \<noteq> [] \<longrightarrow> (\<exists>c. g_level_compare hp p (hd bs) = Some c \<and> c \<le>s 0))"
    using laws sb both unfolding glib_laws_def list_laws_def by blast
  then obtain as bs where ab: "glist sd = as @ bs"
    "g_list_insert_sorted g (glist sd) p (g_level_compare hp) = Some (as @ p # bs)"
    "\<And>q. q \<in> set as \<Longrightarrow> \<exists>c. g_level_compare hp p q = Some c \<and> 0 <s c"
    "bs \<noteq> [] \<Longrightarrow> \<exists>c. g_level_compare hp p (hd bs) = Some c \<and> c \<le>s 0" by blast
  have before: "cheaper hp q p" if "q \<in> set as" for q
  proof -
    have "q \<in> set (glist sd)" using that ab(1) by simp
    then obtain a where "level_at hp q = Some a" "lv_price a \<noteq> price" using lev by blast
    then show ?thesis using ab(3)[OF that] at_p
      by (auto simp: g_level_compare_simps cheaper_def split: if_splits)
  qed
  have first: "cheaper hp p (hd bs)" if "bs \<noteq> []"
  proof -
    have "hd bs \<in> set (glist sd)" using that ab(1) by simp
    then obtain a where "level_at hp (hd bs) = Some a" "lv_price a \<noteq> price" using lev by blast
    then show ?thesis using ab(4)[OF that] at_p
      by (auto simp: g_level_compare_simps cheaper_def word_sle_eq split: if_splits)
  qed
  have after: "cheaper hp p q" if "q \<in> set bs" for q
  proof (cases "q = hd bs")
    case False
    then have "cheaper hp (hd bs) q" using srt that ab(1) by (cases bs) (auto simp: sorted_wrt_append)
    then show ?thesis using first that unfolding cheaper_def by (cases bs) force+
  qed (use first that in \<open>cases bs; simp\<close>)
  have "sorted_wrt (cheaper hp) (as @ p # bs)"
    using srt before after unfolding ab(1) by (auto simp: sorted_wrt_append)
  then show ?thesis using ab(1,2) by auto
qed

lemma side_modify_rep:
  assumes laws: "glib_laws g" and rep: "side_rep g sd m" and small: "or_price order < 2 ^ 32"
  shows "\<exists>sd'. side_modify g order sd = Some (fst (ladder_modify order m), sd')
    \<and> side_rep g sd' (snd (ladder_modify order m))"
proof (cases "g_hash_table_lookup g (ghtable sd) (or_price order)")
  case None
  let ?k = "or_price order" and ?p = "length (ob_heap sd)"
  let ?v = "\<lparr>lv_seq_num = or_seq_num order, lv_price = ?k, lv_size = or_size order\<rparr>"
  let ?hp = "ob_heap sd @ [Some ?v]"
  let ?m = "m(?k \<mapsto> (or_seq_num order, or_size order))"
  have new: "m ?k = None" using None side_repD(3)[OF rep] by simp
  obtain l where l: "g_list_insert_sorted g (glist sd) ?p (g_level_compare ?hp) = Some l"
    "set l = insert ?p (set (glist sd))" "sorted_wrt (cheaper ?hp) l"
    using insert_sorted_level[OF laws rep new refl refl] by blast
  let ?sd = "\<lparr>ob_heap = ?hp, ghtable = g_hash_table_insert g (ghtable sd) ?k ?p, gtree = g_tree_insert g (gtree sd) ?k ?p,
    glist = l\<rparr>"
  have hash: "g_hash_table_lookup g (ghtable ?sd) k = (if k = ?k then Some ?p else g_hash_table_lookup g (ghtable sd) k)" for k
    using laws by (simp add: glib_laws_def hash_laws_def)
  have "g_tree_lookup g (gtree ?sd) k = (if same_key k ?k then Some ?p else g_tree_lookup g (gtree sd) k)" for k
    using laws side_repD(1)[OF rep] by (simp add: glib_laws_def tree_laws_def g_uint_compare_0)
  then have tree: "g_tree_lookup g (gtree ?sd) k = g_hash_table_lookup g (ghtable ?sd) k" if "k < 2 ^ 32" for k
    unfolding hash using side_repD(5)[OF rep that] same_key_small[OF that small] by simp
  have at: "level_at ?hp p = level_in ?m k" if "g_hash_table_lookup g (ghtable ?sd) k = Some p" for k p
  proof (cases "k = ?k")
    case False
    then have "g_hash_table_lookup g (ghtable sd) k = Some p" using that unfolding hash by simp
    then show ?thesis using side_rep_level[OF rep] side_repD(4)[OF rep] False
      by (fastforce simp: level_at_simps level_in_upd)
  qed (use that hash in \<open>auto simp: level_at_simps level_in_upd\<close>)
  have mem: "set l = {p. \<exists>k. g_hash_table_lookup g (ghtable ?sd) k = Some p}"
    unfolding l(2) side_repD(6)[OF rep] hash using None by (auto intro: exI[where x = ?k]) (metis None option.distinct(1))
  have "side_rep g ?sd ?m"
    unfolding side_rep_def
  proof (intro conjI allI impI)
    show "g_uint_tree g (gtree ?sd)" using side_repD(1)[OF rep] by (simp add: tree_insert)
  next
    fix k show "k < 2 ^ 32" if "?m k \<noteq> None" using that side_repD(2)[OF rep] small by (auto split: if_splits)
  next
    fix k show "g_hash_table_lookup g (ghtable ?sd) k = None \<longleftrightarrow> ?m k = None"
      unfolding hash using side_repD(3)[OF rep, of k] by auto
  qed (use at tree mem l(3) in auto)
  then show ?thesis using None l(1) new by (simp add: side_modify_def ladder_modify_def Let_def)
next
  case (Some p)
  let ?k = "or_price order"
  obtain s z where mk: "m ?k = Some (s, z)"
    and at: "level_at (ob_heap sd) p = Some \<lparr>lv_seq_num = s, lv_price = ?k, lv_size = z\<rparr>"
    and pl: "p < length (ob_heap sd)" using side_rep_level[OF rep Some] by blast
  show ?thesis
  proof (cases "or_seq_num order \<le> s")
    case True
    then show ?thesis using rep Some at mk by (simp add: side_modify_def ladder_modify_def)
  next
    case False
    let ?m = "m(?k \<mapsto> (or_seq_num order, or_size order))"
    let ?v = "\<lparr>lv_seq_num = or_seq_num order, lv_price = ?k, lv_size = or_size order\<rparr>"
    let ?hp = "(ob_heap sd)[p := Some ?v]"
    have lv: "level_at ?hp q = (if q = p then Some ?v else level_at (ob_heap sd) q)" for q
      using pl by (simp add: level_at_simps)
    have ch: "cheaper ?hp q r" if "cheaper (ob_heap sd) q r" for q r
      using that at unfolding cheaper_def lv by (auto split: if_splits)
    have "side_rep g (sd\<lparr>ob_heap := ?hp\<rparr>) ?m"
      unfolding side_rep_def
    proof (intro conjI allI impI)
      fix k q assume kq: "g_hash_table_lookup g (ghtable (sd\<lparr>ob_heap := ?hp\<rparr>)) k = Some q"
      show "level_at (ob_heap (sd\<lparr>ob_heap := ?hp\<rparr>)) q = level_in ?m k"
        using kq Some side_rep_injective[OF rep, of k p "?k"] side_repD(4)[OF rep, of k q]
        by (auto simp: lv level_in_upd)
    next
      fix k assume "?m k \<noteq> None"
      then show "k < 2 ^ 32" using side_repD(2)[OF rep] small by (auto split: if_splits)
    next
      show "sorted_wrt (cheaper (ob_heap (sd\<lparr>ob_heap := ?hp\<rparr>))) (glist (sd\<lparr>ob_heap := ?hp\<rparr>))"
        using sorted_wrt_mono_rel[OF ch side_repD(7)[OF rep]] by simp
    next
      fix k show "g_hash_table_lookup g (ghtable (sd\<lparr>ob_heap := ?hp\<rparr>)) k = None \<longleftrightarrow> ?m k = None"
        using side_repD(3)[OF rep, of k] Some by auto
    qed (use side_repD(1,5,6)[OF rep] in simp_all)
    then show ?thesis using Some at mk False by (auto simp: side_modify_def ladder_modify_def)
  qed
qed


lemma side_delete_rep:
  assumes laws: "glib_laws g" and rep: "side_rep g sd m" and small: "price < 2 ^ 32"
  shows "\<exists>sd'. side_delete g price sd = (True, sd') \<and> side_rep g sd' (m(price := None))
    \<and> (\<forall>k. g_hash_table_lookup g (ghtable sd') k = (if k = price then None else g_hash_table_lookup g (ghtable sd) k))"
proof (cases "g_hash_table_lookup g (ghtable sd) price")
  case None
  then have "m(price := None) = m" using side_repD(3)[OF rep, of price] by (simp add: fun_upd_idem)
  then show ?thesis using None rep by (auto simp: side_delete_def)
next
  case (Some p)
  let ?h = "snd (g_hash_table_remove g (ghtable sd) price)"
  let ?t = "snd (g_tree_remove g (gtree sd) price)"
  let ?hp = "(ob_heap sd)[p := None]"
  let ?sd = "sd\<lparr>ghtable := ?h, ob_heap := ?hp, gtree := ?t, glist := remove1 p (glist sd)\<rparr>"
  have ok: "fst (g_hash_table_remove g (ghtable sd) price)" "fst (g_tree_remove g (gtree sd) price)"
    "g_list_remove g (glist sd) p = remove1 p (glist sd)"
    using laws Some side_repD(1)[OF rep] side_repD(5)[OF rep small]
    by (simp_all add: glib_laws_def hash_laws_def tree_laws_def list_laws_def)
  have run: "side_delete g price sd = (True, ?sd)"
    using Some ok by (simp add: side_delete_def Let_def case_prod_beta)
  have hash: "g_hash_table_lookup g ?h k = (if k = price then None else g_hash_table_lookup g (ghtable sd) k)" for k
    using laws by (simp add: glib_laws_def hash_laws_def)
  have "g_tree_lookup g ?t k = (if same_key k price then None else g_tree_lookup g (gtree sd) k)" for k
    using laws side_repD(1)[OF rep] by (simp add: glib_laws_def tree_laws_def g_uint_compare_0)
  then have tree: "g_tree_lookup g ?t k = g_hash_table_lookup g ?h k" if "k < 2 ^ 32" for k
    unfolding hash using side_repD(5)[OF rep that] same_key_small[OF that small] by simp
  have other: "q \<noteq> p" if "g_hash_table_lookup g ?h k = Some q" for k q
    using that side_rep_injective[OF rep, of price p k] Some unfolding hash by (auto split: if_splits)
  have dist: "distinct (glist sd)"
    using side_repD(7)[OF rep] by (rule cheaper_distinct)
  have mem: "set (remove1 p (glist sd)) = {q. \<exists>k. g_hash_table_lookup g ?h k = Some q}"
    unfolding set_remove1_eq[OF dist] side_repD(6)[OF rep]
  proof (intro set_eqI iffI; clarsimp)
    fix q k assume "g_hash_table_lookup g (ghtable sd) k = Some q" "q \<noteq> p"
    then show "\<exists>k. g_hash_table_lookup g ?h k = Some q" unfolding hash using Some by (intro exI[where x = k]) auto
  next
    fix q k assume "g_hash_table_lookup g ?h k = Some q"
    then show "(\<exists>k. g_hash_table_lookup g (ghtable sd) k = Some q) \<and> q \<noteq> p"
      using other unfolding hash by (auto split: if_splits)
  qed
  have srt: "sorted_wrt (cheaper ?hp) (remove1 p (glist sd))"
  proof (rule sorted_wrt_mono_rel)
    show "sorted_wrt (cheaper (ob_heap sd)) (remove1 p (glist sd))" using side_repD(7)[OF rep] by (rule cheaper_remove)
    show "cheaper ?hp q r" if "q \<in> set (remove1 p (glist sd))" "r \<in> set (remove1 p (glist sd))" "cheaper (ob_heap sd) q r" for q r
      using that dist by (auto simp: cheaper_def level_at_simps)
  qed
  have "side_rep g ?sd (m(price := None))"
    unfolding side_rep_def
  proof (intro conjI allI impI)
    fix k q assume "g_hash_table_lookup g (ghtable ?sd) k = Some q"
    then have q: "g_hash_table_lookup g ?h k = Some q" by simp
    then have "k \<noteq> price" "g_hash_table_lookup g (ghtable sd) k = Some q" unfolding hash by (auto split: if_splits)
    then show "level_at (ob_heap ?sd) q = level_in (m(price := None)) k"
      using other[OF q] side_repD(4)[OF rep, of k q] by (simp add: level_at_simps level_in_upd)
  next
    fix k show "g_hash_table_lookup g (ghtable ?sd) k = None \<longleftrightarrow> (m(price := None)) k = None"
      using side_repD(3)[OF rep, of k] by (simp add: hash)
  next
    fix k assume "(m(price := None)) k \<noteq> None"
    then show "k < 2 ^ 32" using side_repD(2)[OF rep, of k] by (auto split: if_splits)
  next
    show "g_uint_tree g (gtree ?sd)" using side_repD(1)[OF rep] by (simp add: tree_remove)
  qed (use tree mem srt in simp_all)
  moreover have "ghtable ?sd = ?h" by simp
  ultimately show ?thesis using run hash by metis
qed

text \<open>The list of a side holds the levels of the ladder in the order of their prices.\<close>

lemma side_rep_listed:
  assumes "side_rep g sd m"
  shows "levels_listed sd = levels_sorted m" and "finite (dom m)"
proof -
  define ks where "ks = map (\<lambda>p. lv_price (the (level_at (ob_heap sd) p))) (glist sd)"
  have lev: "level_at (ob_heap sd) p = level_in m (lv_price (the (level_at (ob_heap sd) p)))
      \<and> m (lv_price (the (level_at (ob_heap sd) p))) \<noteq> None" if "p \<in> set (glist sd)" for p
  proof -
    from that obtain k where k: "g_hash_table_lookup g (ghtable sd) k = Some p" using side_repD(6)[OF assms] by auto
    then show ?thesis using side_rep_level[OF assms k] side_repD(4)[OF assms k] by auto
  qed
  have srt: "sorted_wrt (<) ks"
    unfolding ks_def sorted_wrt_map
    by (rule sorted_wrt_mono_rel[OF _ side_repD(7)[OF assms]]) (auto simp: cheaper_def)
  have "set ks = dom m"
  proof (intro set_eqI iffI)
    fix k assume "k \<in> dom m"
    then have "g_hash_table_lookup g (ghtable sd) k \<noteq> None" using side_repD(3)[OF assms, of k] by auto
    then obtain p where p: "g_hash_table_lookup g (ghtable sd) k = Some p" by auto
    then have "p \<in> set (glist sd)" using side_repD(6)[OF assms] by auto
    then show "k \<in> set ks" using side_rep_level[OF assms p] unfolding ks_def by force
  qed (use lev in \<open>auto simp: ks_def\<close>)
  then have ks: "sorted_list_of_set (dom m) = ks" and fin: "finite (dom m)"
    using srt by (metis strict_sorted_iff sorted_list_of_set.idem_if_sorted_distinct) (metis \<open>set ks = dom m\<close> List.finite_set)
  show "finite (dom m)" by (rule fin)
  have "levels_listed sd = map (level_in m) ks"
    unfolding levels_listed_def ks_def map_map using lev by (auto intro: map_cong)
  then show "levels_listed sd = levels_sorted m" unfolding levels_sorted_def ks .
qed

subsection \<open>A sequence of requests\<close>

datatype book_request = Modify ob_order | Delete ob_order

definition request_order :: "book_request \<Rightarrow> ob_order" where
  "request_order r = (case r of Modify x \<Rightarrow> x | Delete x \<Rightarrow> x)"

fun serve :: "('h, 't) glib \<Rightarrow> book_request list \<Rightarrow> ('h, 't) order_book \<Rightarrow> (bool list \<times> ('h, 't) order_book) option" where
  "serve g [] ob = Some ([], ob)"
| "serve g (Modify x # rs) ob = do {
     (ok, ob) \<leftarrow> ob_level_modify g ob x;
     (oks, ob) \<leftarrow> serve g rs ob;
     Some (ok # oks, ob) }"
| "serve g (Delete x # rs) ob = do {
     let (ok, ob) = ob_level_delete g ob x;
     (oks, ob) \<leftarrow> serve g rs ob;
     Some (ok # oks, ob) }"

text \<open>The same requests on the two ladders, given by the side (true is buy).\<close>

fun ladders :: "book_request list \<Rightarrow> (bool \<Rightarrow> ladder) \<Rightarrow> bool list \<times> (bool \<Rightarrow> ladder)" where
  "ladders [] m = ([], m)"
| "ladders (Modify x # rs) m =
     (let (ok, l) = ladder_modify x (m (or_buy x)); (oks, m) = ladders rs (m(or_buy x := l)) in (ok # oks, m))"
| "ladders (Delete x # rs) m =
     (let (oks, m) = ladders rs (m(or_buy x := (m (or_buy x))(or_price x := None))) in (True # oks, m))"

definition book_rep :: "('h, 't) glib \<Rightarrow> ('h, 't) order_book \<Rightarrow> (bool \<Rightarrow> ladder) \<Rightarrow> bool" where
  "book_rep g ob m \<longleftrightarrow> side_rep g (ob_bids ob) (m True) \<and> side_rep g (ob_asks ob) (m False)"

lemma book_rep_side: "book_rep g ob m \<Longrightarrow> side_rep g (ob_side_of ob buy) (m buy)"
  by (cases buy) (simp_all add: book_rep_def ob_side_of_def)

lemma book_rep_set: "book_rep g ob m \<Longrightarrow> side_rep g sd l \<Longrightarrow> book_rep g (set_side buy sd ob) (m(buy := l))"
  by (cases buy) (simp_all add: book_rep_def set_side_def)

lemma book_rep_init: "glib_laws g \<Longrightarrow> book_rep g (ob_init g) (\<lambda>_. Map.empty)"
  by (simp add: book_rep_def ob_init_def side_rep_empty)

lemma ob_level_modify_rep:
  assumes "glib_laws g" and rep: "book_rep g ob m" and "or_price x < 2 ^ 32"
  shows "\<exists>ob'. ob_level_modify g ob x = Some (fst (ladder_modify x (m (or_buy x))), ob')
    \<and> book_rep g ob' (m(or_buy x := snd (ladder_modify x (m (or_buy x)))))"
  using side_modify_rep[OF assms(1) book_rep_side[OF rep] assms(3), of "or_buy x"] book_rep_set[OF rep]
  by (fastforce simp: ob_level_modify_def)

lemma ob_level_delete_rep:
  assumes "glib_laws g" and rep: "book_rep g ob m" and "or_price x < 2 ^ 32"
  shows "\<exists>ob'. ob_level_delete g ob x = (True, ob') \<and> book_rep g ob' (m(or_buy x := (m (or_buy x))(or_price x := None)))
    \<and> (\<forall>k. g_hash_table_lookup g (ghtable (ob_side_of ob' (or_buy x))) k =
         (if k = or_price x then None else g_hash_table_lookup g (ghtable (ob_side_of ob (or_buy x))) k))"
proof -
  obtain sd where sd: "side_delete g (or_price x) (ob_side_of ob (or_buy x)) = (True, sd)"
    "side_rep g sd ((m (or_buy x))(or_price x := None))"
    "\<forall>k. g_hash_table_lookup g (ghtable sd) k =
      (if k = or_price x then None else g_hash_table_lookup g (ghtable (ob_side_of ob (or_buy x))) k)"
    using side_delete_rep[OF assms(1) book_rep_side[OF rep] assms(3), of "or_buy x"] by blast
  moreover have "ob_side_of (set_side (or_buy x) sd ob) (or_buy x) = sd" by (simp add: ob_side_of_def set_side_def)
  ultimately show ?thesis using book_rep_set[OF rep sd(2), of "or_buy x"] by (simp add: ob_level_delete_def)
qed

lemma ob_level_lookup_rep:
  assumes "book_rep g ob m"
  shows "(case ob_level_lookup g ob x of None \<Rightarrow> None | Some p \<Rightarrow> level_at (ob_heap (ob_side_of ob (or_buy x))) p) =
    level_in (m (or_buy x)) (or_price x)"
  using side_repD(3,4)[OF book_rep_side[OF assms, of "or_buy x"], of "or_price x"]
  by (auto simp: ob_level_lookup_def level_in_def split: option.splits)

lemma serve_rep:
  assumes "glib_laws g" and "book_rep g ob m" and "\<forall>r\<in>set rs. or_price (request_order r) < 2 ^ 32"
  shows "\<exists>ob'. serve g rs ob = Some (fst (ladders rs m), ob') \<and> book_rep g ob' (snd (ladders rs m))"
  using assms(2,3)
proof (induction rs arbitrary: ob m)
  case (Cons r rs)
  show ?case
  proof (cases r)
    case (Modify x)
    then have "or_price x < 2 ^ 32" using Cons.prems(2) by (simp add: request_order_def)
    from ob_level_modify_rep[OF assms(1) Cons.prems(1) this] obtain ob1 where
      1: "ob_level_modify g ob x = Some (fst (ladder_modify x (m (or_buy x))), ob1)"
      "book_rep g ob1 (m(or_buy x := snd (ladder_modify x (m (or_buy x)))))" by blast
    from Cons.IH[OF 1(2)] Cons.prems(2) obtain ob2 where
      "serve g rs ob1 = Some (fst (ladders rs (m(or_buy x := snd (ladder_modify x (m (or_buy x)))))), ob2)"
      "book_rep g ob2 (snd (ladders rs (m(or_buy x := snd (ladder_modify x (m (or_buy x)))))))" by (meson list.set_intros(2))
    then show ?thesis unfolding Modify by (simp add: 1(1) case_prod_beta del: fun_upd_apply)
  next
    case (Delete x)
    then have "or_price x < 2 ^ 32" using Cons.prems(2) by (simp add: request_order_def)
    from ob_level_delete_rep[OF assms(1) Cons.prems(1) this] obtain ob1 where
      1: "ob_level_delete g ob x = (True, ob1)"
      "book_rep g ob1 (m(or_buy x := (m (or_buy x))(or_price x := None)))" by blast
    from Cons.IH[OF 1(2)] Cons.prems(2) obtain ob2 where
      "serve g rs ob1 = Some (fst (ladders rs (m(or_buy x := (m (or_buy x))(or_price x := None)))), ob2)"
      "book_rep g ob2 (snd (ladders rs (m(or_buy x := (m (or_buy x))(or_price x := None)))))" by (meson list.set_intros(2))
    then show ?thesis unfolding Delete by (simp add: 1(1) case_prod_beta del: fun_upd_apply)
  qed
qed simp

subsection \<open>Association lists as containers\<close>

fun insert_by :: "(nat \<Rightarrow> nat \<Rightarrow> i32 option) \<Rightarrow> nat \<Rightarrow> nat list \<Rightarrow> nat list option" where
  "insert_by cmp p [] = Some [p]"
| "insert_by cmp p (q # qs) = do {
     c \<leftarrow> cmp p q;
     (if 0 <s c then do { r \<leftarrow> insert_by cmp p qs; Some (q # r) } else Some (p # q # qs)) }"

type_synonym keyed = "(ulong \<times> nat) list"
type_synonym compared = "(ulong \<Rightarrow> ulong \<Rightarrow> i32) \<times> keyed"

definition drop_key :: "compared \<Rightarrow> ulong \<Rightarrow> compared" where
  "drop_key t k = (fst t, filter (\<lambda>(k', v). fst t k k' \<noteq> 0) (snd t))"

definition find_key :: "compared \<Rightarrow> ulong \<Rightarrow> nat option" where
  "find_key t k = map_option snd (find (\<lambda>(k', v). fst t k k' = 0) (snd t))"

definition list_glib :: "(keyed, compared) glib" where
  "list_glib = \<lparr>
     g_hash_table_new = [],
     g_hash_table_lookup = map_of,
     g_hash_table_insert = (\<lambda>h k v. (k, v) # h),
     g_hash_table_remove = (\<lambda>h k. (map_of h k \<noteq> None, filter (\<lambda>(k', v). k' \<noteq> k) h)),
     g_tree_new = (\<lambda>cmp. (cmp, [])),
     g_tree_lookup = find_key,
     g_tree_insert = (\<lambda>t k v. (fst t, (k, v) # snd t)),
     g_tree_remove = (\<lambda>t k. (find_key t k \<noteq> None, drop_key t k)),
     g_list_insert_sorted = (\<lambda>ps p cmp. insert_by cmp p ps),
     g_list_remove = (\<lambda>ps p. remove1 p ps)\<rparr>"

lemma map_of_without: "map_of (filter (\<lambda>(k', v). k' \<noteq> k) h) k' = (if k' = k then None else map_of h k')"
  by (induction h) auto

lemma same_key_trans: "same_key a b \<Longrightarrow> same_key b c \<longleftrightarrow> same_key a c"
  by (auto simp: same_key_def)

lemma list_tree_compare: "g_uint_tree list_glib t \<Longrightarrow> fst t = g_uint_compare"
  by (induction rule: g_uint_tree.induct) (simp_all add: list_glib_def drop_key_def)

lemma find_key_drop:
  "fst t = g_uint_compare \<Longrightarrow> find_key (drop_key t k) k' = (if same_key k' k then None else find_key t k')"
proof (cases t)
  case (Pair cmp h)
  assume "fst t = g_uint_compare"
  then have cmp: "cmp = g_uint_compare" using Pair by simp
  show ?thesis
    unfolding Pair find_key_def drop_key_def cmp fst_conv snd_conv g_uint_compare_0
    by (induction h) (auto simp: same_key_def)
qed

lemma insert_by_splits:
  assumes "\<forall>q\<in>set ps. cmp p q \<noteq> None"
  shows "\<exists>as bs. ps = as @ bs \<and> insert_by cmp p ps = Some (as @ p # bs)
    \<and> (\<forall>q\<in>set as. \<exists>c. cmp p q = Some c \<and> 0 <s c) \<and> (bs \<noteq> [] \<longrightarrow> (\<exists>c. cmp p (hd bs) = Some c \<and> c \<le>s 0))"
  using assms
proof (induction ps)
  case (Cons q qs)
  then obtain c where c: "cmp p q = Some c" by auto
  show ?case
  proof (cases "0 <s c")
    case True
    from Cons obtain as bs where "qs = as @ bs" "insert_by cmp p qs = Some (as @ p # bs)"
      "\<forall>q\<in>set as. \<exists>c. cmp p q = Some c \<and> 0 <s c" "bs \<noteq> [] \<longrightarrow> (\<exists>c. cmp p (hd bs) = Some c \<and> c \<le>s 0)" by auto
    then show ?thesis using c True by (intro exI[where x = "q # as"] exI[where x = bs]) simp
  next
    case False
    then show ?thesis using c by (intro exI[where x = "[]"] exI[where x = "q # qs"]) (simp add: word_sless_alt word_sle_eq)
  qed
qed simp

lemma list_glib_laws: "glib_laws list_glib"
proof -
  have "hash_laws list_glib" by (simp add: hash_laws_def list_glib_def map_of_without)
  moreover have "tree_laws list_glib"
  proof -
    have "g_tree_lookup list_glib (g_tree_insert list_glib t k v) k' =
        (if same_key k' k then Some v else g_tree_lookup list_glib t k')" if "g_uint_tree list_glib t" for t k v k'
      using list_tree_compare[OF that] by (simp add: list_glib_def find_key_def g_uint_compare_0)
    moreover have "g_tree_lookup list_glib (snd (g_tree_remove list_glib t k)) k' =
        (if same_key k' k then None else g_tree_lookup list_glib t k')" if "g_uint_tree list_glib t" for t k k'
      using find_key_drop[OF list_tree_compare[OF that]] by (simp add: list_glib_def)
    ultimately show ?thesis
      unfolding tree_laws_def g_uint_compare_0 by (simp add: list_glib_def find_key_def)
  qed
  moreover have "list_laws list_glib"
    unfolding list_laws_def using insert_by_splits by (simp add: list_glib_def)
  ultimately show ?thesis by (simp add: glib_laws_def)
qed

subsection \<open>Properties\<close>

text \<open>C13: The order book implements two ladders.  Whatever sequence of level modifications and deletions is made on
  a fresh book, with prices below \<open>2 ^ 32\<close>, no call touches a freed level, every call returns what the ladders
  say (a modification fails exactly when the level is there with a sequence number that is not older, a deletion
  never fails), looking a price up gives the level of the ladder or nothing, and the linked list of each side
  holds exactly the levels of its ladder in the order of their prices.\<close>

theorem ob_refines:
  assumes "glib_laws g" and "\<forall>r\<in>set rs. or_price (request_order r) < 2 ^ 32"
  shows "\<exists>ob. serve g rs (ob_init g) = Some (fst (ladders rs (\<lambda>_. Map.empty)), ob)
    \<and> (\<forall>x. (case ob_level_lookup g ob x of None \<Rightarrow> None | Some p \<Rightarrow> level_at (ob_heap (ob_side_of ob (or_buy x))) p) =
         level_in (snd (ladders rs (\<lambda>_. Map.empty)) (or_buy x)) (or_price x))
    \<and> (\<forall>buy. levels_listed (ob_side_of ob buy) = levels_sorted (snd (ladders rs (\<lambda>_. Map.empty)) buy))"
proof -
  obtain ob where "serve g rs (ob_init g) = Some (fst (ladders rs (\<lambda>_. Map.empty)), ob)"
    and rep: "book_rep g ob (snd (ladders rs (\<lambda>_. Map.empty)))"
    using serve_rep[OF assms(1) book_rep_init[OF assms(1)] assms(2)] by blast
  then show ?thesis using ob_level_lookup_rep[OF rep] side_rep_listed(1)[OF book_rep_side[OF rep]] by blast
qed

definition sample_requests :: "book_request list" where
  "sample_requests = [Modify \<lparr>or_seq_num = 1, or_price = 100, or_size = 5, or_buy = True\<rparr>,
     Modify \<lparr>or_seq_num = 2, or_price = 90, or_size = 7, or_buy = True\<rparr>,
     Modify \<lparr>or_seq_num = 2, or_price = 100, or_size = 4, or_buy = True\<rparr>,
     Modify \<lparr>or_seq_num = 1, or_price = 90, or_size = 1, or_buy = True\<rparr>,
     Delete \<lparr>or_seq_num = 3, or_price = 100, or_size = 0, or_buy = True\<rparr>]"

lemma ob_refines_witness:
  "(\<exists>ob. serve list_glib sample_requests (ob_init list_glib) = Some ([True, True, True, False, True], ob))
   \<and> (\<exists>ob. serve list_glib sample_requests (ob_init list_glib) = Some (fst (ladders sample_requests (\<lambda>_. Map.empty)), ob)
     \<and> (\<forall>buy. levels_listed (ob_side_of ob buy) = levels_sorted (snd (ladders sample_requests (\<lambda>_. Map.empty)) buy)))"
proof -
  have "\<forall>r\<in>set sample_requests. or_price (request_order r) < 2 ^ 32" by (simp add: sample_requests_def request_order_def)
  from ob_refines[OF list_glib_laws this]
  obtain ob where ob: "serve list_glib sample_requests (ob_init list_glib) = Some (fst (ladders sample_requests (\<lambda>_. Map.empty)), ob)"
    "\<forall>buy. levels_listed (ob_side_of ob buy) = levels_sorted (snd (ladders sample_requests (\<lambda>_. Map.empty)) buy)" by blast
  moreover have "fst (ladders sample_requests (\<lambda>_. Map.empty)) = [True, True, True, False, True]"
    by (simp add: sample_requests_def ladder_modify_def word_le_nat_alt)
  ultimately show ?thesis by metis
qed

text \<open>Prices that are equal in their low 32 bits are one key for the tree and two for the hash table: of two such
  levels the second deletion fails after the level is freed, and the list keeps its address.\<close>

definition colliding_requests :: "book_request list" where
  "colliding_requests = [Modify \<lparr>or_seq_num = 1, or_price = 7, or_size = 5, or_buy = True\<rparr>,
     Modify \<lparr>or_seq_num = 2, or_price = 2 ^ 32 + 7, or_size = 6, or_buy = True\<rparr>,
     Delete \<lparr>or_seq_num = 3, or_price = 7, or_size = 0, or_buy = True\<rparr>,
     Delete \<lparr>or_seq_num = 4, or_price = 2 ^ 32 + 7, or_size = 0, or_buy = True\<rparr>]"

lemma colliding_prices_leave_freed_level:
  "map_option (\<lambda>(oks, ob). (oks, levels_listed (ob_bids ob))) (serve list_glib colliding_requests (ob_init list_glib)) =
    Some ([True, True, True, False], [None])"
  by code_simp

end
