(* ===== verification/Fast_Book.thy ===== *)
theory Fast_Book
  imports Fast_Feed Order_Book Fix_Message
begin

text \<open>
  Order books kept up to date from FAST feeds (lib/proto/fast_book.c, fast_book.h): a set of books, two groups
  of feeds that carry the same increments or snapshots, the decoding of a market data entry into a change of
  a level, the recovery of a book from a snapshot and the increments that came meanwhile.

  The increments are handed out by MsgSeqNum, the changes of a book are counted by RptSeq.  A book that joins
  (\<open>FAST_BOOK_JOIN\<close>) keeps a deleted level with size 0, so that an older snapshot does not bring it back; the
  join ends by deleting these levels.  The loops that go on until data arrive are \<open>partial_function\<close>s: \<open>None\<close> is
  a fault or no end.  A field is read through the members of its own type only.
\<close>

subsection \<open>Prices and sizes\<close>

fun mul_10 :: "nat \<Rightarrow> i64 \<Rightarrow> i64" where
  "mul_10 0 x = x"
| "mul_10 (Suc n) x = mul_10 n (x * 10)"

definition decimal_to_int :: "fast_decimal \<Rightarrow> i64 option" where
  "decimal_to_int d = (if dec_exp d <s 0 then None else Some (mul_10 (nat (sint (dec_exp d))) (dec_mnt d)))"

text \<open>The division is exact where it is made, so it is the same in C and here.\<close>

fun div_10 :: "nat \<Rightarrow> i64 \<Rightarrow> i64 option" where
  "div_10 0 x = Some x"
| "div_10 (Suc n) x = (if sint x mod 10 \<noteq> 0 then None else div_10 n (of_int (sint x div 10)))"

definition price_align :: "fast_decimal \<Rightarrow> fast_decimal \<Rightarrow> fast_decimal option" where
  "price_align price tick =
     (let p = sint (dec_exp price); t = sint (dec_exp tick) in
      if p > t then Some \<lparr>dec_exp = dec_exp tick, dec_mnt = mul_10 (nat (p - t)) (dec_mnt price)\<rparr>
      else map_option (\<lambda>m. \<lparr>dec_exp = dec_exp tick, dec_mnt = m\<rparr>) (div_10 (nat (t - p)) (dec_mnt price)))"

subsection \<open>Books and sets of books\<close>

record ('h, 't) fast_book =
  bk_tick :: fast_decimal
  bk_ob :: "('h, 't) order_book"
  bk_session :: mem
  bk_symbol :: mem
  rptseq :: u64
  snpseq :: u64
  bk_flags :: i32
  secid :: u64
  bk_num :: i32

definition FAST_FEED_NUM :: nat where "FAST_FEED_NUM = 2"
definition FAST_BOOK_NUM :: nat where "FAST_BOOK_NUM = 10"
definition FAST_BOOK_SUBSCRIBED :: i32 where "FAST_BOOK_SUBSCRIBED = 1"
definition FAST_BOOK_ACTIVE :: i32 where "FAST_BOOK_ACTIVE = 2"
definition FAST_BOOK_EMPTY :: i32 where "FAST_BOOK_EMPTY = 4"
definition FAST_BOOK_JOIN :: i32 where "FAST_BOOK_JOIN = 8"
definition FAST_BOOK_MASK_SIZE :: nat where "FAST_BOOK_MASK_SIZE = 1 + FAST_BOOK_NUM div 64"

definition book_set_flags :: "('h, 't) fast_book \<Rightarrow> i32 \<Rightarrow> ('h, 't) fast_book" where
  "book_set_flags bk flags = bk\<lparr>bk_flags := flags\<rparr>"

definition book_add_flags :: "('h, 't) fast_book \<Rightarrow> i32 \<Rightarrow> ('h, 't) fast_book" where
  "book_add_flags bk flags = bk\<lparr>bk_flags := bk_flags bk OR flags\<rparr>"

definition book_clear_flags :: "('h, 't) fast_book \<Rightarrow> i32 \<Rightarrow> ('h, 't) fast_book" where
  "book_clear_flags bk flags = bk\<lparr>bk_flags := bk_flags bk AND NOT flags\<rparr>"

definition book_has_flags :: "('h, 't) fast_book \<Rightarrow> i32 \<Rightarrow> bool" where
  "book_has_flags bk flags \<longleftrightarrow> bk_flags bk AND flags \<noteq> 0"

text \<open>\<open>books\<close> are the entries of the array below \<open>books_num\<close>, and the feeds those below \<open>inc_feeds_num\<close> and
  \<open>snp_feeds_num\<close>.  A pointer to a book is its index.\<close>

record ('h, 't) fast_book_set =
  inc_feeds :: "fast_feed list"
  snp_feeds :: "fast_feed list"
  books_mask :: "u64 list"
  books :: "('h, 't) fast_book list"
  inc_gap_mode :: bool
  inc_msg_num :: u64

definition set_book :: "('h, 't) fast_book_set \<Rightarrow> nat \<Rightarrow> ('h, 't) fast_book \<Rightarrow> ('h, 't) fast_book_set" where
  "set_book st i bk = st\<lparr>books := (books st)[i := bk]\<rparr>"

definition get_book :: "('h, 't) fast_book_set \<Rightarrow> nat \<Rightarrow> ('h, 't) fast_book option" where
  "get_book st i = (if i < length (books st) then Some (books st ! i) else None)"

text \<open>\<open>1 << n\<close> is an \<open>int\<close>, which is widened with its sign.\<close>

definition mask_of :: "i32 \<Rightarrow> u64" where
  "mask_of n = scast (push_bit (nat (sint n mod 64)) 1 :: i32)"

definition book_add_mask :: "('h, 't) fast_book_set \<Rightarrow> ('h, 't) fast_book \<Rightarrow> ('h, 't) fast_book_set option" where
  "book_add_mask st bk = do {
     m \<leftarrow> mem_get (books_mask st) (sint (bk_num bk) div 64);
     ms \<leftarrow> mem_put (books_mask st) (sint (bk_num bk) div 64) (m OR mask_of (bk_num bk));
     Some (st\<lparr>books_mask := ms\<rparr>) }"

definition book_clear_mask :: "('h, 't) fast_book_set \<Rightarrow> ('h, 't) fast_book \<Rightarrow> ('h, 't) fast_book_set option" where
  "book_clear_mask st bk = do {
     m \<leftarrow> mem_get (books_mask st) (sint (bk_num bk) div 64);
     ms \<leftarrow> mem_put (books_mask st) (sint (bk_num bk) div 64) (m AND NOT (mask_of (bk_num bk)));
     Some (st\<lparr>books_mask := ms\<rparr>) }"

definition book_has_mask :: "('h, 't) fast_book_set \<Rightarrow> ('h, 't) fast_book \<Rightarrow> u64 option" where
  "book_has_mask st bk = do {
     m \<leftarrow> mem_get (books_mask st) (sint (bk_num bk) div 64);
     Some (m AND mask_of (bk_num bk)) }"

definition fast_book_clear :: "('h, 't) glib \<Rightarrow> ('h, 't) fast_book \<Rightarrow> ('h, 't) fast_book" where
  "fast_book_clear g bk = bk\<lparr>bk_ob := ob_clear g (bk_ob bk), rptseq := 0, snpseq := 0\<rparr>"

definition fast_book_add :: "('h, 't) glib \<Rightarrow> ('h, 't) fast_book_set \<Rightarrow> (nat option \<times> ('h, 't) fast_book_set)" where
  "fast_book_add g st =
     (let n = length (books st) in
      if n \<ge> FAST_BOOK_NUM then (None, st)
      else (Some n, st\<lparr>books := books st @ [\<lparr>bk_tick = \<lparr>dec_exp = 0, dec_mnt = 0\<rparr>, bk_ob = ob_init g,
        bk_session = replicate 32 0, bk_symbol = replicate 32 0, rptseq = 0, snpseq = 0, bk_flags = 0, secid = 0,
        bk_num = of_nat n\<rparr>]\<rparr>))"

fun by_symbol_loop :: "('h, 't) fast_book list \<Rightarrow> mem \<Rightarrow> nat \<Rightarrow> nat option option" where
  "by_symbol_loop [] symbol i = Some None"
| "by_symbol_loop (bk # bks) symbol i = do {
     n \<leftarrow> c_strlen (bk_symbol bk);
     same \<leftarrow> c_strn_equal (bk_symbol bk) symbol n;
     (if same then Some (Some i) else by_symbol_loop bks symbol (i + 1)) }"

definition fast_book_by_symbol :: "('h, 't) fast_book_set \<Rightarrow> mem \<Rightarrow> nat option option" where
  "fast_book_by_symbol st symbol = by_symbol_loop (books st) symbol 0"

fun by_id_loop :: "('h, 't) fast_book list \<Rightarrow> u64 \<Rightarrow> nat \<Rightarrow> nat option" where
  "by_id_loop [] k i = None"
| "by_id_loop (bk # bks) k i = (if secid bk = k then Some i else by_id_loop bks k (i + 1))"

definition fast_book_by_id :: "('h, 't) fast_book_set \<Rightarrow> u64 \<Rightarrow> nat option" where
  "fast_book_by_id st k = by_id_loop (books st) k 0"

definition zero_feed :: fast_feed where
  "zero_feed = \<lparr>feed_session = NullSession, feed_cfg = \<lparr>preamble_bytes = 0, cfg_reset = False\<rparr>, cfg_sockfd = 0, recv_num = 0,
     feed_file = [], feed_xml = [], feed_lip = [], feed_sip = [], feed_ip = [], feed_active = False, feed_port = 0\<rparr>"

definition inc_feed_add :: "('h, 't) fast_book_set \<Rightarrow> nat option \<times> ('h, 't) fast_book_set" where
  "inc_feed_add st = (let n = length (inc_feeds st) in
     if n \<ge> FAST_FEED_NUM then (None, st) else (Some n, st\<lparr>inc_feeds := inc_feeds st @ [zero_feed]\<rparr>))"

definition snp_feed_add :: "('h, 't) fast_book_set \<Rightarrow> nat option \<times> ('h, 't) fast_book_set" where
  "snp_feed_add st = (let n = length (snp_feeds st) in
     if n \<ge> FAST_FEED_NUM then (None, st) else (Some n, st\<lparr>snp_feeds := snp_feeds st @ [zero_feed]\<rparr>))"

subsection \<open>Entries\<close>

text \<open>The members of the union of a field by its type.\<close>

definition field_uint :: "'a fast_field_scheme \<Rightarrow> u64 option" where
  "field_uint f = (if f_type f \<in> {FAST_TYPE_INT, FAST_TYPE_UINT} then Some (int_value f) else None)"

definition field_string :: "'a fast_field_scheme \<Rightarrow> mem option" where
  "field_string f = (if f_type f = FAST_TYPE_STRING then Some (string_value f) else None)"

definition field_decimal :: "'a fast_field_scheme \<Rightarrow> fast_decimal option" where
  "field_decimal f = (if f_type f = FAST_TYPE_DECIMAL then Some (decimal_value f) else None)"

definition field_sequence :: "seq_field \<Rightarrow> fast_sequence option" where
  "field_sequence f = (if f_type f = FAST_TYPE_SEQUENCE then ptr_value f else None)"

text \<open>\<open>!field || field_state_empty(field)\<close>\<close>

definition value_field :: "'a fast_field_scheme fast_message \<Rightarrow> string \<Rightarrow> 'a fast_field_scheme option" where
  "value_field msg nm =
     (case fast_get_field msg nm of None \<Rightarrow> None | Some f \<Rightarrow> if field_state_empty f then None else Some f)"

datatype md_entry = EntryFails | EntryEmpty | EntryLevel ob_order

definition md_size :: "fast_field \<Rightarrow> i64 option" where
  "md_size f = (case f_type f of
      FAST_TYPE_INT \<Rightarrow> Some (int_value f)
    | FAST_TYPE_DECIMAL \<Rightarrow> decimal_to_int (decimal_value f)
    | _ \<Rightarrow> None)"

text \<open>The part that increments and snapshots read in the same way.\<close>

definition md_level :: "fast_decimal \<Rightarrow> u64 \<Rightarrow> fast_field fast_message \<Rightarrow> md_entry option" where
  "md_level tick num msg =
     (case value_field msg ''MDEntryType'' of
        None \<Rightarrow> Some EntryFails
      | Some f \<Rightarrow> do {
          m \<leftarrow> field_string f;
          ty \<leftarrow> mem_get m 0;
          (if ty = 74 then Some EntryEmpty
           else if ty \<noteq> 48 \<and> ty \<noteq> 49 then Some EntryFails
           else case value_field msg ''MDEntrySize'' of
               None \<Rightarrow> Some EntryFails
             | Some f \<Rightarrow> (case md_size f of
                   None \<Rightarrow> Some EntryFails
                 | Some sz \<Rightarrow> (case value_field msg ''MDEntryPx'' of
                       None \<Rightarrow> Some EntryFails
                     | Some f \<Rightarrow> do {
                         price \<leftarrow> field_decimal f;
                         (case price_align price tick of
                            None \<Rightarrow> Some EntryFails
                          | Some p \<Rightarrow> Some (EntryLevel \<lparr>or_seq_num = num, or_price = dec_mnt p, or_size = sz,
                              or_buy = (ty = 48)\<rparr>)) }))) })"

definition modify_book :: "('h, 't) glib \<Rightarrow> ('h, 't) fast_book \<Rightarrow> ob_order \<Rightarrow> (bool \<times> ('h, 't) fast_book) option" where
  "modify_book g bk x = do { (ok, ob) \<leftarrow> ob_level_modify g (bk_ob bk) x; Some (ok, bk\<lparr>bk_ob := ob\<rparr>) }"

definition md_increment ::
    "('h, 't) glib \<Rightarrow> ('h, 't) fast_book \<Rightarrow> fast_field fast_message \<Rightarrow> (bool \<times> ('h, 't) fast_book) option" where
  "md_increment g bk msg = do {
     e \<leftarrow> md_level (bk_tick bk) (rptseq bk) msg;
     (case e of
        EntryFails \<Rightarrow> Some (False, bk)
      | EntryEmpty \<Rightarrow> Some (True, book_add_flags bk FAST_BOOK_EMPTY)
      | EntryLevel order \<Rightarrow>
          (case value_field msg ''MDUpdateAction'' of
             None \<Rightarrow> Some (False, bk)
           | Some f \<Rightarrow> do {
               action \<leftarrow> field_uint f;
               (if action = 0 \<or> action = 1 then modify_book g bk order
                else if action = 2 then
                  if book_has_flags bk FAST_BOOK_ACTIVE
                  then let (ok, ob) = ob_level_delete g (bk_ob bk) order in Some (ok, bk\<lparr>bk_ob := ob\<rparr>)
                  else modify_book g bk (order\<lparr>or_size := 0\<rparr>)
                else Some (False, bk)) })) }"

definition md_snapshot ::
    "('h, 't) glib \<Rightarrow> ('h, 't) fast_book \<Rightarrow> fast_field fast_message \<Rightarrow> (bool \<times> ('h, 't) fast_book) option" where
  "md_snapshot g bk msg = do {
     e \<leftarrow> md_level (bk_tick bk) (snpseq bk) msg;
     (case e of
        EntryFails \<Rightarrow> Some (False, bk)
      | EntryEmpty \<Rightarrow> Some (True, book_add_flags bk FAST_BOOK_EMPTY)
      | EntryLevel order \<Rightarrow>
          (case ob_level_lookup g (bk_ob bk) order of
             None \<Rightarrow> modify_book g bk order
           | Some p \<Rightarrow> do {
               lv \<leftarrow> level_at (ob_heap (ob_side_of (bk_ob bk) (or_buy order))) p;
               Some (\<not> (lv_seq_num lv \<le> snpseq bk \<and> lv_size lv \<noteq> or_size order), bk) })) }"

subsection \<open>Messages\<close>

text \<open>\<open>MDEntries\<close>, or \<open>GroupMDEntries\<close> when there is no such field.\<close>

definition md_entries :: "seq_field fast_message \<Rightarrow> seq_field option" where
  "md_entries msg =
     (case (case fast_get_field msg ''MDEntries'' of None \<Rightarrow> fast_get_field msg ''GroupMDEntries'' | Some f \<Rightarrow> Some f) of
        None \<Rightarrow> None
      | Some f \<Rightarrow> if field_state_empty f then None else Some f)"

text \<open>The book a message or an entry is about: a failure, no book, or the index of the book.\<close>

datatype lookup_result = LookupFails | NoBook | FoundBook nat

definition found :: "nat option \<Rightarrow> lookup_result" where
  "found r = (case r of None \<Rightarrow> NoBook | Some i \<Rightarrow> FoundBook i)"

definition book_of ::
    "('h, 't) fast_book_set \<Rightarrow> 'a fast_field_scheme fast_message \<Rightarrow> lookup_result option" where
  "book_of st msg =
     (case fast_get_field msg ''SecurityID'' of
        Some f \<Rightarrow> if field_state_empty f then Some LookupFails
          else do { k \<leftarrow> field_uint f; Some (found (fast_book_by_id st k)) }
      | None \<Rightarrow> (case value_field msg ''Symbol'' of
            None \<Rightarrow> Some LookupFails
          | Some f \<Rightarrow> do { s \<leftarrow> field_string f; r \<leftarrow> fast_book_by_symbol st s; Some (found r) }))"

text \<open>Whether \<open>dst\<close>, if there is one, is another book, by the member that the message has identified the book with.\<close>

definition other_book ::
    "('h, 't) fast_book_set \<Rightarrow> nat option \<Rightarrow> 'a fast_field_scheme fast_message \<Rightarrow> ('h, 't) fast_book \<Rightarrow> bool option" where
  "other_book st dst msg bk =
     (case dst of
        None \<Rightarrow> Some False
      | Some d \<Rightarrow> do {
          db \<leftarrow> get_book st d;
          (if fast_get_field msg ''SecurityID'' \<noteq> None then Some (secid db \<noteq> secid bk)
           else do {
             n \<leftarrow> c_strlen (bk_symbol db);
             same \<leftarrow> c_strn_equal (bk_symbol bk) (bk_symbol db) n;
             Some (\<not> same) }) })"

datatype session_check = SessionFails | OtherSession | SameSession

definition trading_session ::
    "('h, 't) fast_book \<Rightarrow> 'a fast_field_scheme fast_message \<Rightarrow> session_check option" where
  "trading_session bk msg =
     (case fast_get_field msg ''TradingSessionID'' of
        None \<Rightarrow> Some SameSession
      | Some f \<Rightarrow> if field_state_empty f then Some SessionFails
          else do {
            s \<leftarrow> field_string f;
            n \<leftarrow> c_strlen (bk_session bk);
            same \<leftarrow> c_strn_equal (bk_session bk) s n;
            Some (if same then SameSession else OtherSession) })"

text \<open>One entry of an increment: \<open>continue\<close> is the result true with nothing changed.\<close>

definition increment_book ::
    "('h, 't) glib \<Rightarrow> nat \<Rightarrow> fast_field fast_message \<Rightarrow> ('h, 't) fast_book_set \<Rightarrow> (bool \<times> ('h, 't) fast_book_set) option" where
  "increment_book g i md st =
     (case value_field md ''RptSeq'' of
        None \<Rightarrow> Some (False, st)
      | Some f \<Rightarrow> do {
          bk \<leftarrow> get_book st i;
          num \<leftarrow> field_uint f;
          (let bk = (if rptseq bk = 0 then bk\<lparr>rptseq := num - 1\<rparr> else bk);
               bk = bk\<lparr>rptseq := rptseq bk + 1\<rparr>
           in if rptseq bk \<noteq> num then Some (False, set_book st i bk)
              else do {
                let bk = book_clear_flags bk FAST_BOOK_EMPTY;
                st \<leftarrow> book_add_mask (set_book st i bk) bk;
                (ok, bk) \<leftarrow> md_increment g bk md;
                Some (ok, set_book st i bk) }) })"

definition increment_entry ::
    "('h, 't) glib \<Rightarrow> nat option \<Rightarrow> fast_field fast_message \<Rightarrow> ('h, 't) fast_book_set
       \<Rightarrow> (bool \<times> ('h, 't) fast_book_set) option" where
  "increment_entry g dst md st = do {
     r \<leftarrow> book_of st md;
     (case r of
        LookupFails \<Rightarrow> Some (False, st)
      | NoBook \<Rightarrow> Some (True, st)
      | FoundBook i \<Rightarrow> do {
          bk \<leftarrow> get_book st i;
          (if \<not> book_has_flags bk FAST_BOOK_ACTIVE \<and> \<not> book_has_flags bk FAST_BOOK_JOIN then Some (True, st)
           else do {
             other \<leftarrow> other_book st dst md bk;
             (if other then Some (True, st)
              else do {
                check \<leftarrow> trading_session bk md;
                (case check of
                   SessionFails \<Rightarrow> Some (False, st)
                 | OtherSession \<Rightarrow> Some (True, st)
                 | SameSession \<Rightarrow> increment_book g i md st) }) }) }) }"

text \<open>\<open>for (i = 1; i <= seq->length.uint_value; i++)\<close>, with \<open>n\<close> iterations left.\<close>

fun entries_loop ::
    "(fast_field fast_message \<Rightarrow> 's \<Rightarrow> (bool \<times> 's) option) \<Rightarrow> fast_field fast_message list \<Rightarrow> nat \<Rightarrow> nat \<Rightarrow> 's
       \<Rightarrow> (bool \<times> 's) option" where
  "entries_loop f els i 0 st = Some (True, st)"
| "entries_loop f els i (Suc n) st = do {
     md \<leftarrow> mem_get els (int i);
     (ok, st) \<leftarrow> f md st;
     (if ok then entries_loop f els (i + 1) n st else Some (False, st)) }"

definition apply_increment ::
    "('h, 't) glib \<Rightarrow> nat option \<Rightarrow> seq_field fast_message \<Rightarrow> ('h, 't) fast_book_set
       \<Rightarrow> (bool \<times> ('h, 't) fast_book_set) option" where
  "apply_increment g dst msg st =
     (case md_entries msg of
        None \<Rightarrow> Some (False, st)
      | Some f \<Rightarrow> do {
          sq \<leftarrow> field_sequence f;
          (if field_state_empty (seq_length sq) then Some (False, st)
           else entries_loop (increment_entry g dst) (seq_elements sq) 1 (unat (int_value (seq_length sq))) st) })"

text \<open>The entries of a snapshot all belong to book \<open>i\<close>.\<close>

definition snapshot_entry ::
    "('h, 't) glib \<Rightarrow> nat \<Rightarrow> fast_field fast_message \<Rightarrow> ('h, 't) fast_book_set \<Rightarrow> (bool \<times> ('h, 't) fast_book_set) option" where
  "snapshot_entry g i md st = do {
     bk \<leftarrow> get_book st i;
     (ok, bk) \<leftarrow> md_snapshot g bk md;
     Some (ok, set_book st i bk) }"

definition snapshot_book ::
    "('h, 't) glib \<Rightarrow> nat \<Rightarrow> u64 \<Rightarrow> fast_sequence \<Rightarrow> ('h, 't) fast_book_set \<Rightarrow> (bool \<times> ('h, 't) fast_book_set) option" where
  "snapshot_book g i num sq st = do {
     bk \<leftarrow> get_book st i;
     let bk = book_clear_flags (bk\<lparr>snpseq := num\<rparr>) FAST_BOOK_EMPTY;
     st \<leftarrow> book_add_mask (set_book st i bk) bk;
     (ok, st) \<leftarrow> entries_loop (snapshot_entry g i) (seq_elements sq) 1 (unat (int_value (seq_length sq))) st;
     (if \<not> ok then Some (False, st)
      else do {
        bk \<leftarrow> get_book st i;
        Some (True, if \<not> book_has_flags bk FAST_BOOK_EMPTY then set_book st i (book_add_flags bk FAST_BOOK_ACTIVE) else st) }) }"

definition snapshot_entries ::
    "('h, 't) glib \<Rightarrow> nat \<Rightarrow> seq_field fast_message \<Rightarrow> ('h, 't) fast_book_set \<Rightarrow> (bool \<times> ('h, 't) fast_book_set) option" where
  "snapshot_entries g i msg st =
     (case md_entries msg of
        None \<Rightarrow> Some (False, st)
      | Some f \<Rightarrow> do {
          sq \<leftarrow> field_sequence f;
          (if field_state_empty (seq_length sq) then Some (False, st)
           else if int_value (seq_length sq) = 0 then Some (True, st)
           else do {
             bk \<leftarrow> get_book st i;
             md \<leftarrow> mem_get (seq_elements sq) 0;
             check \<leftarrow> trading_session bk md;
             (case check of
                SessionFails \<Rightarrow> Some (False, st)
              | OtherSession \<Rightarrow> Some (True, st)
              | SameSession \<Rightarrow> (case value_field msg ''RptSeq'' of
                    None \<Rightarrow> Some (False, st)
                  | Some f \<Rightarrow> do { num \<leftarrow> field_uint f; snapshot_book g i num sq st })) }) })"

definition apply_snapshot ::
    "('h, 't) glib \<Rightarrow> nat option \<Rightarrow> seq_field fast_message \<Rightarrow> ('h, 't) fast_book_set
       \<Rightarrow> (bool \<times> ('h, 't) fast_book_set) option" where
  "apply_snapshot g dst msg st = do {
     r \<leftarrow> book_of st msg;
     (case r of
        LookupFails \<Rightarrow> Some (False, st)
      | NoBook \<Rightarrow> Some (True, st)
      | FoundBook i \<Rightarrow> do {
          bk \<leftarrow> get_book st i;
          (if book_has_flags bk FAST_BOOK_ACTIVE \<or> \<not> book_has_flags bk FAST_BOOK_JOIN then Some (True, st)
           else do {
             other \<leftarrow> other_book st dst msg bk;
             (if other then Some (True, st) else snapshot_entries g i msg st) }) }) }"

subsection \<open>Receiving\<close>

text \<open>The type of a message that \<open>recv_increment\<close> has numbered.\<close>

definition increment_message :: "seq_field fast_message \<Rightarrow> (bool \<times> seq_field fast_message option) option" where
  "increment_message msg =
     (case value_field msg ''MessageType'' of
        None \<Rightarrow> Some (False, None)
      | Some f \<Rightarrow> do {
          m \<leftarrow> field_string f;
          ty \<leftarrow> fix_msg_type_parse m 0 0;
          Some (if ty = FIX_MSG_TYPE_INCREMENT_REFRESH then (True, Some msg)
            else if ty \<in> {FIX_MSG_TYPE_SESSION_STATUS, FIX_MSG_TYPE_SEQUENCE_RESET, FIX_MSG_TYPE_HEARTBEAT,
                FIX_MSG_TYPE_SECURITY_STATUS} then (True, None)
            else (False, None)) })"

text \<open>What it does with the message it has received: the number of the feed and of the set, and whether the message
  is handed out.\<close>

definition take_increment ::
    "('h, 't) fast_book_set \<Rightarrow> nat \<Rightarrow> seq_field fast_message
       \<Rightarrow> (bool \<times> seq_field fast_message option \<times> ('h, 't) fast_book_set) option" where
  "take_increment st fi msg =
     (case value_field msg ''MsgSeqNum'' of
        None \<Rightarrow> Some (False, None, st)
      | Some f \<Rightarrow> do {
          num \<leftarrow> field_uint f;
          let st = st\<lparr>inc_feeds := (inc_feeds st)[fi := (inc_feeds st ! fi)\<lparr>recv_num := num\<rparr>]\<rparr>;
          (if inc_msg_num st = 0 then do {
             (ok, m) \<leftarrow> increment_message msg;
             Some (ok, m, st\<lparr>inc_msg_num := num\<rparr>) }
           else if inc_msg_num st + 1 = num then do {
             (ok, m) \<leftarrow> increment_message msg;
             Some (ok, m, st\<lparr>inc_gap_mode := False, inc_msg_num := inc_msg_num st + 1\<rparr>) }
           else Some (True, None, if inc_msg_num st < num then st\<lparr>inc_gap_mode := True\<rparr> else st)) })"

definition recv_increment ::
    "'k feed_sys \<Rightarrow> ('h, 't) fast_book_set \<Rightarrow> nat \<Rightarrow> 'k
       \<Rightarrow> (bool \<times> seq_field fast_message option \<times> ('h, 't) fast_book_set \<times> 'k) option" where
  "recv_increment c st fi k = do {
     feed \<leftarrow> mem_get (inc_feeds st) (int fi);
     (if inc_msg_num st < recv_num feed then Some (True, None, st, k)
      else do {
        (m, feed, k) \<leftarrow> fast_feed_recv c feed k;
        (case m of
           None \<Rightarrow> Some (True, None, st\<lparr>inc_feeds := (inc_feeds st)[fi := feed]\<rparr>, k)
         | Some msg \<Rightarrow>
             if fast_msg_has_flags msg FAST_MSG_FLAGS_RESET \<noteq> 0 then do {
               feed \<leftarrow> feed_reset feed;
               Some (True, None, st\<lparr>inc_feeds := (inc_feeds st)[fi := feed]\<rparr>, k) }
             else do {
               (ok, m, st) \<leftarrow> take_increment (st\<lparr>inc_feeds := (inc_feeds st)[fi := feed]\<rparr>) fi msg;
               Some (ok, m, st, k) }) }) }"

definition take_snapshot :: "seq_field fast_message \<Rightarrow> (bool \<times> seq_field fast_message option) option" where
  "take_snapshot msg =
     (case value_field msg ''MessageType'' of
        None \<Rightarrow> Some (False, None)
      | Some f \<Rightarrow> do {
          m \<leftarrow> field_string f;
          ty \<leftarrow> fix_msg_type_parse m 0 0;
          Some (if ty = FIX_MSG_TYPE_SNAPSHOT_REFRESH then (True, Some msg)
            else if ty \<in> {FIX_MSG_TYPE_SESSION_STATUS, FIX_MSG_TYPE_SEQUENCE_RESET, FIX_MSG_TYPE_HEARTBEAT} then (True, None)
            else (False, None)) })"

definition recv_snapshot ::
    "'k feed_sys \<Rightarrow> ('h, 't) fast_book_set \<Rightarrow> nat \<Rightarrow> 'k
       \<Rightarrow> (bool \<times> seq_field fast_message option \<times> ('h, 't) fast_book_set \<times> 'k) option" where
  "recv_snapshot c st fi k = do {
     feed \<leftarrow> mem_get (snp_feeds st) (int fi);
     (m, feed, k) \<leftarrow> fast_feed_recv c feed k;
     let st = st\<lparr>snp_feeds := (snp_feeds st)[fi := feed]\<rparr>;
     (case m of
        None \<Rightarrow> Some (True, None, st, k)
      | Some msg \<Rightarrow>
          if fast_msg_has_flags msg FAST_MSG_FLAGS_RESET \<noteq> 0 then do {
            feed \<leftarrow> feed_reset feed;
            Some (True, None, st\<lparr>snp_feeds := (snp_feeds st)[fi := feed]\<rparr>, k) }
          else do {
            (ok, m) \<leftarrow> take_snapshot msg;
            Some (ok, m, st, k) }) }"

text \<open>The loop over the feeds keeps the first message and drops what the feeds after it hand out.\<close>

fun next_loop ::
    "('s \<Rightarrow> nat \<Rightarrow> 'k \<Rightarrow> (bool \<times> 'm option \<times> 's \<times> 'k) option) \<Rightarrow> nat \<Rightarrow> nat \<Rightarrow> 'm option \<Rightarrow> 's \<Rightarrow> 'k
       \<Rightarrow> (bool \<times> 'm option \<times> 's \<times> 'k) option" where
  "next_loop recv fi 0 nxt st k = Some (True, nxt, st, k)"
| "next_loop recv fi (Suc n) nxt st k = do {
     (ok, m, st, k) \<leftarrow> recv st fi k;
     (if \<not> ok then Some (False, nxt, st, k)
      else next_loop recv (fi + 1) n (if m = None \<or> nxt \<noteq> None then nxt else m) st k) }"

definition next_increment ::
    "'k feed_sys \<Rightarrow> ('h, 't) fast_book_set \<Rightarrow> 'k \<Rightarrow> (bool \<times> seq_field fast_message option \<times> ('h, 't) fast_book_set \<times> 'k) option"
    where
  "next_increment c st k = do {
     (ok, nxt, st, k) \<leftarrow> next_loop (recv_increment c) 0 (length (inc_feeds st)) None st k;
     (if \<not> ok then Some (False, nxt, st, k)
      else if inc_gap_mode st then
        let least = fold (\<lambda>feed m. if recv_num feed < m then recv_num feed else m) (inc_feeds st) (inc_msg_num st + 1)
        in Some (\<not> inc_msg_num st < least, nxt, st, k)
      else Some (True, nxt, st, k)) }"

definition next_snapshot ::
    "'k feed_sys \<Rightarrow> ('h, 't) fast_book_set \<Rightarrow> 'k \<Rightarrow> (bool \<times> seq_field fast_message option \<times> ('h, 't) fast_book_set \<times> 'k) option"
    where
  "next_snapshot c st k = next_loop (recv_snapshot c) 0 (length (snp_feeds st)) None st k"

subsection \<open>Joining a book\<close>

text \<open>The local variables of \<open>fast_books_join\<close> that live through its loop.\<close>

record ('h, 't, 'k) joining =
  j_set :: "('h, 't) fast_book_set"
  j_kernel :: 'k
  j_received :: bool
  j_snapshot :: "seq_field fast_message option"
  j_init :: u64
  j_cur :: u64

text \<open>\<open>!strcmp(a, b)\<close>\<close>

fun c_str_equal :: "u8 list \<Rightarrow> u8 list \<Rightarrow> bool option" where
  "c_str_equal (x # xs) (y # ys) = (if x \<noteq> y then Some False else if x = 0 then Some True else c_str_equal xs ys)"
| "c_str_equal _ _ = None"

definition join_increment ::
    "('h, 't) glib \<Rightarrow> seq_field fast_message \<Rightarrow> ('h, 't, 'k) joining \<Rightarrow> (bool \<times> ('h, 't, 'k) joining) option" where
  "join_increment g msg s = do {
     (ok, st) \<leftarrow> apply_increment g None msg (j_set s);
     let s = s\<lparr>j_set := st\<rparr>;
     (if \<not> ok then Some (False, s)
      else case value_field msg ''MsgSeqNum'' of
          None \<Rightarrow> Some (False, s)
        | Some f \<Rightarrow> do {
            num \<leftarrow> field_uint f;
            Some (True, s\<lparr>j_init := (if j_init s = 0 then num else j_init s), j_cur := num\<rparr>) }) }"

text \<open>Whether a snapshot is for book \<open>bi\<close>, or \<open>None\<close> for a failure.\<close>

definition snapshot_for ::
    "('h, 't) fast_book_set \<Rightarrow> nat \<Rightarrow> seq_field fast_message \<Rightarrow> bool option option" where
  "snapshot_for st bi msg = do {
     bk \<leftarrow> get_book st bi;
     r \<leftarrow> book_of st msg;
     (case r of
        LookupFails \<Rightarrow> Some None
      | NoBook \<Rightarrow> Some (Some False)
      | FoundBook i \<Rightarrow> do {
          sbk \<leftarrow> get_book st i;
          (if fast_get_field msg ''SecurityID'' \<noteq> None then Some (Some (secid bk = secid sbk))
           else do { same \<leftarrow> c_str_equal (bk_symbol sbk) (bk_symbol bk); Some (Some same) }) }) }"

definition join_snapshot ::
    "('h, 't) glib \<Rightarrow> nat \<Rightarrow> seq_field fast_message \<Rightarrow> ('h, 't, 'k) joining \<Rightarrow> (bool \<times> ('h, 't, 'k) joining) option" where
  "join_snapshot g bi msg s = do {
     for_us \<leftarrow> snapshot_for (j_set s) bi msg;
     (case for_us of
        None \<Rightarrow> Some (False, s)
      | Some False \<Rightarrow> Some (True, s)
      | Some True \<Rightarrow> (case value_field msg ''LastMsgSeqNumProcessed'' of
            None \<Rightarrow> Some (False, s)
          | Some f \<Rightarrow> do {
              last \<leftarrow> field_uint f;
              (if j_init s = 0 \<or> last < j_init s then Some (True, s)
               else let s = s\<lparr>j_received := True\<rparr> in
                 if j_cur s < last then Some (True, s)
                 else do {
                   (ok, st) \<leftarrow> apply_snapshot g (Some bi) msg (j_set s);
                   bk \<leftarrow> get_book st bi;
                   Some (ok, s\<lparr>j_set := st,
                     j_received := (if ok \<and> book_has_flags bk FAST_BOOK_EMPTY then False else True)\<rparr>) }) })) }"

definition join_body ::
    "'k feed_sys \<Rightarrow> ('h, 't) glib \<Rightarrow> nat \<Rightarrow> ('h, 't, 'k) joining \<Rightarrow> (bool \<times> ('h, 't, 'k) joining) option" where
  "join_body c g bi s = do {
     (ok, inc, st, k) \<leftarrow> next_increment c (j_set s) (j_kernel s);
     let s = s\<lparr>j_set := st, j_kernel := k\<rparr>;
     (if \<not> ok then Some (False, s)
      else do {
        (ok, s) \<leftarrow> (case inc of None \<Rightarrow> Some (True, s) | Some msg \<Rightarrow> join_increment g msg s);
        (if \<not> ok then Some (False, s)
         else do {
           (ok, s) \<leftarrow>
             (if j_received s then Some (True, s)
              else do {
                (ok, snp, st, k) \<leftarrow> next_snapshot c (j_set s) (j_kernel s);
                Some (ok, s\<lparr>j_set := st, j_kernel := k, j_snapshot := snp\<rparr>) });
           (if \<not> ok then Some (False, s)
            else case j_snapshot s of None \<Rightarrow> Some (True, s) | Some msg \<Rightarrow> join_snapshot g bi msg s) }) }) }"

partial_function (option) join_loop ::
    "'k feed_sys \<Rightarrow> ('h, 't) glib \<Rightarrow> nat \<Rightarrow> ('h, 't, 'k) joining \<Rightarrow> (bool \<times> ('h, 't, 'k) joining) option" where
  "join_loop c g bi s = do {
     bk \<leftarrow> get_book (j_set s) bi;
     (if book_has_flags bk FAST_BOOK_ACTIVE then Some (True, s)
      else do {
        (ok, s) \<leftarrow> join_body c g bi s;
        (if ok then join_loop c g bi s else Some (False, s)) }) }"

text \<open>The levels of size 0 are deleted; the next node of the list is read before, so the walk is over the list as
  it was.\<close>

fun drop_zero_levels ::
    "('h, 't) glib \<Rightarrow> bool \<Rightarrow> nat list \<Rightarrow> ('h, 't) order_book \<Rightarrow> (bool \<times> ('h, 't) order_book) option" where
  "drop_zero_levels g buy [] ob = Some (True, ob)"
| "drop_zero_levels g buy (p # ps) ob = do {
     lv \<leftarrow> level_at (ob_heap (ob_side_of ob buy)) p;
     (if lv_size lv \<noteq> 0 then drop_zero_levels g buy ps ob
      else let (ok, ob) = ob_level_delete g ob \<lparr>or_seq_num = 0, or_price = lv_price lv, or_size = 0, or_buy = buy\<rparr> in
        if \<not> ok then Some (False, ob) else drop_zero_levels g buy ps ob) }"

definition drop_zeros :: "('h, 't) glib \<Rightarrow> ('h, 't) order_book \<Rightarrow> (bool \<times> ('h, 't) order_book) option" where
  "drop_zeros g ob = do {
     (ok, ob) \<leftarrow> drop_zero_levels g False (glist (ob_asks ob)) ob;
     (if \<not> ok then Some (False, ob) else drop_zero_levels g True (glist (ob_bids ob)) ob) }"

definition snp_open :: "'k feed_sys \<Rightarrow> ('h, 't) fast_book_set \<Rightarrow> 'k \<Rightarrow> (bool \<times> ('h, 't) fast_book_set \<times> 'k) option" where
  "snp_open c st k = do {
     feed \<leftarrow> mem_get (snp_feeds st) 0;
     (ok, feed, k) \<leftarrow> fast_feed_open c feed k;
     Some (ok, st\<lparr>snp_feeds := (snp_feeds st)[0 := feed]\<rparr>, k) }"

definition snp_close :: "'k feed_sys \<Rightarrow> ('h, 't) fast_book_set \<Rightarrow> 'k \<Rightarrow> (bool \<times> ('h, 't) fast_book_set \<times> 'k) option" where
  "snp_close c st k = do {
     feed \<leftarrow> mem_get (snp_feeds st) 0;
     (ok, feed, k) \<leftarrow> fast_feed_close c feed k;
     Some (ok, st\<lparr>snp_feeds := (snp_feeds st)[0 := feed]\<rparr>, k) }"

definition join_fail :: "'k feed_sys \<Rightarrow> ('h, 't) fast_book_set \<Rightarrow> 'k \<Rightarrow> (bool \<times> ('h, 't) fast_book_set \<times> 'k) option" where
  "join_fail c st k = do { (_, st, k) \<leftarrow> snp_close c st k; Some (False, st, k) }"

definition fast_books_join ::
    "'k feed_sys \<Rightarrow> ('h, 't) glib \<Rightarrow> ('h, 't) fast_book_set \<Rightarrow> nat \<Rightarrow> 'k \<Rightarrow> (bool \<times> ('h, 't) fast_book_set \<times> 'k) option" where
  "fast_books_join c g st bi k = do {
     (ok, st, k) \<leftarrow> snp_open c st k;
     (if \<not> ok then join_fail c st k
      else do {
        bk \<leftarrow> get_book st bi;
        let st = set_book st bi (book_add_flags (book_clear_flags bk FAST_BOOK_ACTIVE) FAST_BOOK_JOIN);
        (ok, s) \<leftarrow> join_loop c g bi
          \<lparr>j_set = st, j_kernel = k, j_received = False, j_snapshot = None, j_init = 0, j_cur = 0\<rparr>;
        (if \<not> ok then join_fail c (j_set s) (j_kernel s)
         else do {
           bk \<leftarrow> get_book (j_set s) bi;
           (ok, ob) \<leftarrow> drop_zeros g (bk_ob bk);
           let bk = bk\<lparr>bk_ob := ob\<rparr>;
           (if \<not> ok then join_fail c (set_book (j_set s) bi bk) (j_kernel s)
            else do {
              (ok, st, k) \<leftarrow> snp_close c (set_book (j_set s) bi (book_clear_flags bk FAST_BOOK_JOIN)) (j_kernel s);
              (if \<not> ok then join_fail c st k else Some (True, st, k)) }) }) }) }"

subsection \<open>The interface\<close>

text \<open>The second loop of \<open>fast_books_recover\<close>, with the indices that are left: a join that fails asks for a retry.\<close>

fun recover_books ::
    "'k feed_sys \<Rightarrow> ('h, 't) glib \<Rightarrow> nat list \<Rightarrow> ('h, 't) fast_book_set \<Rightarrow> 'k \<Rightarrow> (bool \<times> ('h, 't) fast_book_set \<times> 'k) option" where
  "recover_books c g [] st k = Some (True, st, k)"
| "recover_books c g (i # is) st k = do {
     bk \<leftarrow> get_book st i;
     (if \<not> book_has_flags bk FAST_BOOK_SUBSCRIBED then recover_books c g is st k
      else do {
        (ok, st, k) \<leftarrow> fast_books_join c g (set_book st i (fast_book_clear g bk)) i k;
        (if \<not> ok then Some (False, st, k) else recover_books c g is st k) }) }"

definition recover_reset :: "('h, 't) fast_book_set \<Rightarrow> ('h, 't) fast_book_set" where
  "recover_reset st = st\<lparr>inc_feeds := map (\<lambda>feed. feed\<lparr>recv_num := 0\<rparr>) (inc_feeds st),
     books := map (\<lambda>bk. book_clear_flags bk FAST_BOOK_ACTIVE) (books st), inc_gap_mode := False, inc_msg_num := 0\<rparr>"

text \<open>It only fails when a book cannot be made anew, for want of memory.\<close>

partial_function (option) fast_books_recover ::
    "'k feed_sys \<Rightarrow> ('h, 't) glib \<Rightarrow> ('h, 't) fast_book_set \<Rightarrow> 'k \<Rightarrow> (('h, 't) fast_book_set \<times> 'k) option" where
  "fast_books_recover c g st k = do {
     (ok, st, k) \<leftarrow> recover_books c g [0..<length (books st)] (recover_reset st) k;
     (if ok then Some (st, k) else fast_books_recover c g st k) }"

definition fast_books_subscribe ::
    "'k feed_sys \<Rightarrow> ('h, 't) glib \<Rightarrow> ('h, 't) fast_book_set \<Rightarrow> nat \<Rightarrow> 'k \<Rightarrow> (bool \<times> ('h, 't) fast_book_set \<times> 'k) option" where
  "fast_books_subscribe c g st bi k = do {
     (ok, st, k) \<leftarrow> fast_books_join c g st bi k;
     (if \<not> ok then Some (False, st, k)
      else do { bk \<leftarrow> get_book st bi; Some (True, set_book st bi (book_add_flags bk FAST_BOOK_SUBSCRIBED), k) }) }"

definition fast_books_update ::
    "'k feed_sys \<Rightarrow> ('h, 't) glib \<Rightarrow> ('h, 't) fast_book_set \<Rightarrow> 'k \<Rightarrow> (bool \<times> ('h, 't) fast_book_set \<times> 'k) option" where
  "fast_books_update c g st k = do {
     (ok, m, st, k) \<leftarrow> next_increment c (st\<lparr>books_mask := replicate FAST_BOOK_MASK_SIZE 0\<rparr>) k;
     (if \<not> ok then do { (st, k) \<leftarrow> fast_books_recover c g st k; Some (True, st, k) }
      else case m of
          None \<Rightarrow> Some (True, st, k)
        | Some msg \<Rightarrow> do { (ok, st) \<leftarrow> apply_increment g None msg st; Some (ok, st, k) }) }"

text \<open>Feeds one after the other, until one fails.\<close>

fun each_feed ::
    "(fast_feed \<Rightarrow> 'k \<Rightarrow> (bool \<times> fast_feed \<times> 'k) option) \<Rightarrow> fast_feed list \<Rightarrow> 'k \<Rightarrow> (bool \<times> fast_feed list \<times> 'k) option" where
  "each_feed f [] k = Some (True, [], k)"
| "each_feed f (feed # fs) k = do {
     (ok, feed, k) \<leftarrow> f feed k;
     (if \<not> ok then Some (False, feed # fs, k)
      else do { (ok, fs, k) \<leftarrow> each_feed f fs k; Some (ok, feed # fs, k) }) }"

definition fast_books_fini :: "'k feed_sys \<Rightarrow> ('h, 't) fast_book_set \<Rightarrow> 'k \<Rightarrow> (bool \<times> ('h, 't) fast_book_set \<times> 'k) option" where
  "fast_books_fini c st k = do {
     (ok, fs, k) \<leftarrow> each_feed (fast_feed_close c) (inc_feeds st) k;
     let st = st\<lparr>inc_feeds := fs\<rparr>;
     (if \<not> ok then Some (False, st, k)
      else do {
        (ok, fs, k) \<leftarrow> each_feed (fast_feed_close c) (snp_feeds st) k;
        Some (ok, st\<lparr>snp_feeds := fs\<rparr>, k) }) }"

definition fast_books_init :: "'k feed_sys \<Rightarrow> ('h, 't) fast_book_set \<Rightarrow> 'k \<Rightarrow> (bool \<times> ('h, 't) fast_book_set \<times> 'k) option" where
  "fast_books_init c st k = do {
     (ok, st, k) \<leftarrow>
       (if inc_feeds st = [] \<or> snp_feeds st = [] then Some (False, st, k)
        else do {
          (ok, fs, k) \<leftarrow> each_feed (fast_feed_open c) (inc_feeds st) k;
          Some (ok, st\<lparr>inc_feeds := fs\<rparr>, k) });
     (if ok then Some (True, st\<lparr>inc_gap_mode := False, inc_msg_num := 0\<rparr>, k)
      else do { (_, st, k) \<leftarrow> fast_books_fini c st k; Some (False, st, k) }) }"

end
