(* ===== verification/Fast_Recover.thy ===== *)
theory Fast_Recover
  imports Fast_Book
begin

text \<open>
  That a book can be recovered from a snapshot and the increments that came while it was waited for: the contract
  of \<open>fast_books_join\<close>.  The book of the exchange is the outcome of its history of changes; the increments carry
  the last of them, the snapshot the outcome of an earlier part.
\<close>

subsection \<open>Histories\<close>

text \<open>A change gives a level a size or, with no size, deletes it.  Histories have the newest change first.\<close>

datatype change = Change (ch_buy: bool) (ch_price: ulong) (ch_size: "ulong option")

fun standing :: "change list \<Rightarrow> bool \<Rightarrow> ulong \<Rightarrow> ulong option" where
  "standing [] buy price = None"
| "standing (c # cs) buy price = (if ch_buy c = buy \<and> ch_price c = price then ch_size c else standing cs buy price)"

definition sensible :: "change \<Rightarrow> bool" where
  "sensible c \<longleftrightarrow> ch_price c < 2 ^ 32 \<and> ch_size c \<noteq> Some 0"

text \<open>What a joining book notes of the changes after the first \<open>a\<close>: number and size, 0 for a deletion.\<close>

definition noted_size :: "change \<Rightarrow> ulong" where
  "noted_size c = (case ch_size c of None \<Rightarrow> 0 | Some z \<Rightarrow> z)"

fun noted :: "nat \<Rightarrow> change list \<Rightarrow> bool \<Rightarrow> ladder" where
  "noted a [] buy price = None"
| "noted a (c # cs) buy price =
     (if ch_buy c = buy \<and> ch_price c = price then Some (of_nat (a + length cs + 1), noted_size c) else noted a cs buy price)"

lemma noted_None: "noted a cs buy price = None \<Longrightarrow> standing (drop k cs @ old) buy price = standing old buy price"
proof (induction cs arbitrary: k)
  case (Cons c cs)
  then have c: "\<not> (ch_buy c = buy \<and> ch_price c = price)" "noted a cs buy price = None" by (auto split: if_splits)
  show ?case using Cons.IH[OF c(2)] Cons.IH[OF c(2), of 0] c(1) by (cases k) auto
qed simp

lemma noted_Some:
  assumes "noted a cs buy price = Some (q, z)" and "\<forall>c\<in>set cs. sensible c"
  shows "\<exists>i. 1 \<le> i \<and> i \<le> length cs \<and> q = of_nat (a + i)
    \<and> (\<forall>k \<le> length cs - i. standing (drop k cs @ old) buy price = (if z = 0 then None else Some z))"
  using assms
proof (induction cs)
  case (Cons c cs)
  show ?case
  proof (cases "ch_buy c = buy \<and> ch_price c = price")
    case True
    then show ?thesis using Cons.prems
      by (intro exI[where x = "length cs + 1"]) (auto simp: noted_size_def sensible_def split: option.splits)
  next
    case False
    with Cons obtain i where i: "1 \<le> i" "i \<le> length cs" "q = of_nat (a + i)"
      "\<forall>k \<le> length cs - i. standing (drop k cs @ old) buy price = (if z = 0 then None else Some z)" by auto
    have "standing (drop k (c # cs) @ old) buy price = (if z = 0 then None else Some z)" if "k \<le> length (c # cs) - i" for k
      using that i(1,2,4) False by (cases k) auto
    then show ?thesis using i(1-3) by (intro exI[where x = i]) simp
  qed
qed simp

text \<open>A number that is too large to be noted yet.\<close>

lemma noted_less:
  assumes "noted a cs buy price = Some (q, z)" and "a + length cs + 1 < 2 ^ 64"
  shows "q < of_nat (a + length cs + 1)"
  using assms
proof (induction cs)
  case (Cons c cs)
  have "of_nat (a + length cs + 1) < (of_nat (a + length (c # cs) + 1) :: ulong)"
    using Cons.prems(2) by (simp add: word_less_nat_alt unat_of_nat del: of_nat_Suc of_nat_add)
  then show ?case using Cons by (auto split: if_splits)
qed simp

subsection \<open>Deleting the levels of size 0\<close>

definition without_zeros :: "ladder \<Rightarrow> ladder" where
  "without_zeros m = (\<lambda>price. case m price of None \<Rightarrow> None | Some (s, z) \<Rightarrow> if z = 0 then None else Some (s, z))"

definition zero_at :: "('h, 't) glib \<Rightarrow> ('h, 't) order_book \<Rightarrow> bool \<Rightarrow> ladder \<Rightarrow> nat list \<Rightarrow> ulong \<Rightarrow> bool" where
  "zero_at g ob buy m ps k \<longleftrightarrow> (\<exists>s. m k = Some (s, 0))
     \<and> (\<exists>p\<in>set ps. g_hash_table_lookup g (ghtable (ob_side_of ob buy)) k = Some p)"

lemma drop_zero_levels_rep:
  assumes laws: "glib_laws g"
  shows "book_rep g ob m \<Longrightarrow> distinct ps
    \<Longrightarrow> \<forall>p\<in>set ps. \<exists>k. g_hash_table_lookup g (ghtable (ob_side_of ob buy)) k = Some p
    \<Longrightarrow> \<exists>ob'. drop_zero_levels g buy ps ob = Some (True, ob')
         \<and> book_rep g ob' (m(buy := \<lambda>k. if zero_at g ob buy (m buy) ps k then None else m buy k))"
proof (induction ps arbitrary: ob m)
  case Nil
  then show ?case by (simp add: zero_at_def)
next
  case (Cons p ps)
  let ?h = "\<lambda>ob k. g_hash_table_lookup g (ghtable (ob_side_of ob buy)) k"
  obtain k where k: "?h ob k = Some p" using Cons.prems(3) by auto
  note rep = book_rep_side[OF Cons.prems(1), of buy]
  obtain s z where mk: "m buy k = Some (s, z)"
    and lv: "level_at (ob_heap (ob_side_of ob buy)) p = Some \<lparr>lv_seq_num = s, lv_price = k, lv_size = z\<rparr>"
    using side_rep_level[OF rep k] by blast
  have uniq: "k' = k" if "?h ob k' = Some p" for k' using side_rep_injective[OF rep k that] .
  have dist: "distinct ps" and rest: "\<forall>p\<in>set ps. \<exists>k. ?h ob k = Some p" using Cons.prems(2,3) by simp_all
  show ?case
  proof (cases "z = 0")
    case False
    obtain ob' where ob': "drop_zero_levels g buy ps ob = Some (True, ob')"
      "book_rep g ob' (m(buy := \<lambda>k. if zero_at g ob buy (m buy) ps k then None else m buy k))"
      using Cons.IH[OF Cons.prems(1) dist rest] by blast
    have "zero_at g ob buy (m buy) (p # ps) = zero_at g ob buy (m buy) ps"
      using uniq mk False by (auto simp: zero_at_def fun_eq_iff)
    then show ?thesis using ob' lv False by (simp del: fun_upd_apply)
  next
    case True
    define x where "x = \<lparr>or_seq_num = 0, or_price = k, or_size = 0, or_buy = buy\<rparr>"
    have x: "or_price x = k" "or_buy x = buy" by (simp_all add: x_def)
    have "or_price x < 2 ^ 32" using side_repD(2)[OF rep] mk unfolding x by auto
    from ob_level_delete_rep[OF laws Cons.prems(1) this] obtain ob1 where
      1: "ob_level_delete g ob x = (True, ob1)" "book_rep g ob1 (m(buy := (m buy)(k := None)))"
      "\<forall>k'. ?h ob1 k' = (if k' = k then None else ?h ob k')"
      unfolding x by (elim exE conjE) (rule that)
    have "\<forall>q\<in>set ps. \<exists>k. ?h ob1 k = Some q"
    proof
      fix q assume q: "q \<in> set ps"
      then obtain k' where "?h ob k' = Some q" using Cons.prems(3) by auto
      moreover have "k' \<noteq> k" using calculation k q Cons.prems(2) by auto
      ultimately show "\<exists>k. ?h ob1 k = Some q" using 1(3) by auto
    qed
    from Cons.IH[OF 1(2) dist this] obtain ob' where ob': "drop_zero_levels g buy ps ob1 = Some (True, ob')"
      "book_rep g ob' ((m(buy := (m buy)(k := None)))(buy := \<lambda>k'. if zero_at g ob1 buy ((m buy)(k := None)) ps k' then None
         else (m(buy := (m buy)(k := None))) buy k'))" by (simp only: fun_upd_same) blast
    have "(if zero_at g ob1 buy ((m buy)(k := None)) ps k' then None else ((m buy)(k := None)) k') =
        (if zero_at g ob buy (m buy) (p # ps) k' then None else m buy k')" for k'
    proof (cases "k' = k")
      case True
      then show ?thesis using mk \<open>z = 0\<close> k by (auto simp: zero_at_def)
    next
      case False
      then have "zero_at g ob1 buy ((m buy)(k := None)) ps k' = zero_at g ob buy (m buy) (p # ps) k'"
        using 1(3) uniq[of k'] by (auto simp: zero_at_def)
      then show ?thesis using False by simp
    qed
    then have "(\<lambda>k'. if zero_at g ob1 buy ((m buy)(k := None)) ps k' then None else (m(buy := (m buy)(k := None))) buy k') =
        (\<lambda>k'. if zero_at g ob buy (m buy) (p # ps) k' then None else m buy k')" by (simp only: fun_upd_same)
    from ob'(2)[unfolded this fun_upd_upd] show ?thesis
      using ob'(1) lv 1(1)[unfolded x_def] True by (simp del: fun_upd_apply)
  qed
qed

lemma drop_zero_side:
  assumes laws: "glib_laws g" and rep: "book_rep g ob m"
  shows "\<exists>ob'. drop_zero_levels g buy (glist (ob_side_of ob buy)) ob = Some (True, ob')
    \<and> book_rep g ob' (m(buy := without_zeros (m buy)))"
proof -
  note side = book_rep_side[OF rep, of buy]
  have "distinct (glist (ob_side_of ob buy))" using side_repD(7)[OF side] by (rule cheaper_distinct)
  moreover have "\<forall>p\<in>set (glist (ob_side_of ob buy)). \<exists>k. g_hash_table_lookup g (ghtable (ob_side_of ob buy)) k = Some p"
    using side_repD(6)[OF side] by blast
  moreover have "(\<lambda>k. if zero_at g ob buy (m buy) (glist (ob_side_of ob buy)) k then None else m buy k) = without_zeros (m buy)"
  proof
    fix k
    have "m buy k \<noteq> None \<Longrightarrow> \<exists>p\<in>set (glist (ob_side_of ob buy)). g_hash_table_lookup g (ghtable (ob_side_of ob buy)) k = Some p"
      using side_repD(3)[OF side, of k] side_repD(6)[OF side] by auto
    then show "(if zero_at g ob buy (m buy) (glist (ob_side_of ob buy)) k then None else m buy k) = without_zeros (m buy) k"
      by (auto simp: zero_at_def without_zeros_def split: option.splits)
  qed
  ultimately show ?thesis using drop_zero_levels_rep[OF laws rep, of "glist (ob_side_of ob buy)" buy] by simp
qed

lemma drop_zeros_rep:
  assumes laws: "glib_laws g" and rep: "book_rep g ob m"
  shows "\<exists>ob'. drop_zeros g ob = Some (True, ob') \<and> book_rep g ob' (\<lambda>buy. without_zeros (m buy))"
proof -
  obtain ob1 where 1: "drop_zero_levels g False (glist (ob_asks ob)) ob = Some (True, ob1)"
    "book_rep g ob1 (m(False := without_zeros (m False)))"
    using drop_zero_side[OF laws rep, of False] by (auto simp: ob_side_of_def)
  obtain ob2 where 2: "drop_zero_levels g True (glist (ob_bids ob1)) ob1 = Some (True, ob2)"
    "book_rep g ob2 ((m(False := without_zeros (m False)))(True := without_zeros (m True)))"
    using drop_zero_side[OF laws 1(2), of True] by (auto simp: ob_side_of_def)
  have "(m(False := without_zeros (m False)))(True := without_zeros (m True)) = (\<lambda>buy. without_zeros (m buy))"
    by (simp add: fun_eq_iff)
  then show ?thesis using 1(1) 2 by (simp add: drop_zeros_def)
qed

subsection \<open>What messages mean\<close>

text \<open>The change that an entry of an increment makes, and the level that an entry of a snapshot gives.\<close>

definition change_of :: "fast_decimal \<Rightarrow> fast_field fast_message \<Rightarrow> change option" where
  "change_of tick md =
     (case md_level tick 0 md of
        Some (EntryLevel x) \<Rightarrow> do {
          f \<leftarrow> value_field md ''MDUpdateAction'';
          action \<leftarrow> field_uint f;
          (if action = 0 \<or> action = 1 then Some (Change (or_buy x) (or_price x) (Some (or_size x)))
           else if action = 2 then Some (Change (or_buy x) (or_price x) None)
           else None) }
      | _ \<Rightarrow> None)"

definition level_of :: "fast_decimal \<Rightarrow> fast_field fast_message \<Rightarrow> (bool \<times> ulong \<times> ulong) option" where
  "level_of tick md =
     (case md_level tick 0 md of Some (EntryLevel x) \<Rightarrow> Some (or_buy x, or_price x, or_size x) | _ \<Rightarrow> None)"

text \<open>What an entry says to book \<open>bi\<close>: a numbered change, or nothing when it is for no book of the set, for one that
  is not followed, or for another trading session.  There is no meaning when the entry is not well formed, or is for another book
  that is followed.  (This is the reader's side of the specification: nothing in the code has its shape.)\<close>

definition entry_meaning ::
    "('h, 't) fast_book_set \<Rightarrow> nat \<Rightarrow> fast_field fast_message \<Rightarrow> (u64 \<times> change) option option" where
  "entry_meaning st bi md =
     (case book_of st md of
        Some NoBook \<Rightarrow> Some None
      | Some (FoundBook i) \<Rightarrow> do {
          bk \<leftarrow> get_book st i;
          (if i \<noteq> bi then (if book_has_flags bk FAST_BOOK_ACTIVE \<or> book_has_flags bk FAST_BOOK_JOIN then None else Some None)
           else case trading_session bk md of
               Some OtherSession \<Rightarrow> Some None
             | Some SameSession \<Rightarrow> do {
                 f \<leftarrow> value_field md ''RptSeq'';
                 n \<leftarrow> field_uint f;
                 c \<leftarrow> change_of (bk_tick bk) md;
                 Some (Some (n, c)) }
             | _ \<Rightarrow> None) }
      | _ \<Rightarrow> None)"

definition entries_of :: "seq_field fast_message \<Rightarrow> fast_field fast_message list option" where
  "entries_of msg = do {
     f \<leftarrow> md_entries msg;
     sq \<leftarrow> field_sequence f;
     (if field_state_empty (seq_length sq) then None
      else let n = unat (int_value (seq_length sq)) in
        if n < length (seq_elements sq) then Some (take n (tl (seq_elements sq))) else None) }"

fun present :: "'a option list \<Rightarrow> 'a list" where
  "present [] = []"
| "present (None # xs) = present xs"
| "present (Some x # xs) = x # present xs"

definition message_meaning ::
    "('h, 't) fast_book_set \<Rightarrow> nat \<Rightarrow> seq_field fast_message \<Rightarrow> (u64 \<times> change) list option" where
  "message_meaning st bi msg = do {
     mds \<leftarrow> entries_of msg;
     ms \<leftarrow> those (map (entry_meaning st bi) mds);
     Some (present ms) }"

definition stream_meaning ::
    "('h, 't) fast_book_set \<Rightarrow> nat \<Rightarrow> seq_field fast_message list \<Rightarrow> (u64 \<times> change) list option" where
  "stream_meaning st bi msgs = map_option concat (those (map (message_meaning st bi) msgs))"

text \<open>The number of a snapshot for book \<open>bi\<close>, and its levels.\<close>

definition snapshot_meaning ::
    "('h, 't) fast_book_set \<Rightarrow> nat \<Rightarrow> seq_field fast_message \<Rightarrow> (u64 \<times> (bool \<times> ulong \<times> ulong) list) option" where
  "snapshot_meaning st bi msg = do {
     bk \<leftarrow> get_book st bi;
     f \<leftarrow> md_entries msg;
     sq \<leftarrow> field_sequence f;
     mds \<leftarrow> entries_of msg;
     check \<leftarrow> trading_session bk (hd (seq_elements sq));
     f \<leftarrow> value_field msg ''RptSeq'';
     n \<leftarrow> field_uint f;
     ls \<leftarrow> those (map (level_of (bk_tick bk)) mds);
     (if book_of st msg = Some (FoundBook bi) \<and> check = SameSession \<and> mds \<noteq> [] then Some (n, ls) else None) }"

text \<open>A run of steps that stops at a failure.\<close>

fun run_entries :: "('m \<Rightarrow> 's \<Rightarrow> (bool \<times> 's) option) \<Rightarrow> 'm list \<Rightarrow> 's \<Rightarrow> (bool \<times> 's) option" where
  "run_entries f [] st = Some (True, st)"
| "run_entries f (md # mds) st = do { (ok, st) \<leftarrow> f md st; (if ok then run_entries f mds st else Some (False, st)) }"

lemma entries_loop_run:
  "i + n \<le> length els \<Longrightarrow> entries_loop f els i n st = run_entries f (take n (drop i els)) st"
proof (induction n arbitrary: i st)
  case (Suc n)
  then have "take (Suc n) (drop i els) = els ! i # take n (drop (Suc i) els)"
    by (simp add: take_Suc_conv_app_nth Cons_nth_drop_Suc [symmetric])
  then show ?case using Suc by (auto simp: fault_simps split: bind_splits)
qed simp

lemma apply_increment_run:
  assumes "entries_of msg = Some mds"
  shows "apply_increment g d msg st = run_entries (increment_entry g d) mds st"
proof -
  from assms obtain f sq where f: "md_entries msg = Some f" "field_sequence f = Some sq" "\<not> field_state_empty (seq_length sq)"
    "unat (int_value (seq_length sq)) < length (seq_elements sq)" "mds = take (unat (int_value (seq_length sq))) (tl (seq_elements sq))"
    by (auto simp: entries_of_def Let_def bind_eq_Some_conv split: if_splits)
  have "entries_loop (increment_entry g d) (seq_elements sq) 1 (unat (int_value (seq_length sq))) st =
      run_entries (increment_entry g d) mds st"
    using entries_loop_run[of 1 _ "seq_elements sq" "increment_entry g d" st] f(4) unfolding f(5) by (simp add: drop_Suc)
  then show ?thesis using f(1-3) by (simp add: apply_increment_def)
qed

subsection \<open>What stays the same\<close>

definition static :: "('h, 't) fast_book \<Rightarrow> u64 \<times> mem \<times> mem \<times> fast_decimal \<times> i32 \<times> bool \<times> bool" where
  "static bk = (secid bk, bk_symbol bk, bk_session bk, bk_tick bk, bk_num bk,
     book_has_flags bk FAST_BOOK_ACTIVE, book_has_flags bk FAST_BOOK_JOIN)"

definition similar :: "('h, 't) fast_book_set \<Rightarrow> ('h, 't) fast_book_set \<Rightarrow> bool" where
  "similar st st' \<longleftrightarrow> map static (books st) = map static (books st') \<and> length (books_mask st) = length (books_mask st')"

lemma similar_refl: "similar st st"
  by (simp add: similar_def)

lemma similar_trans: "similar st st1 \<Longrightarrow> similar st1 st2 \<Longrightarrow> similar st st2"
  by (simp add: similar_def)

lemma by_id_similar: "map static bs = map static bs' \<Longrightarrow> by_id_loop bs k i = by_id_loop bs' k i"
  by (induction bs arbitrary: bs' i) (auto simp: Cons_eq_map_conv static_def)

lemma by_symbol_similar: "map static bs = map static bs' \<Longrightarrow> by_symbol_loop bs s i = by_symbol_loop bs' s i"
proof (induction bs arbitrary: bs' i)
  case (Cons b bs)
  then obtain b' bs1 where bs': "bs' = b' # bs1" "static b = static b'" "map static bs = map static bs1"
    by (auto simp: Cons_eq_map_conv)
  then have "bk_symbol b = bk_symbol b'" by (simp add: static_def)
  then show ?case unfolding bs'(1) by_symbol_loop.simps Cons.IH[OF bs'(3)] by simp
qed simp

lemma book_of_similar:
  assumes "similar st st'"
  shows "book_of st md = book_of st' md"
proof -
  have e: "map static (books st) = map static (books st')" using assms by (simp add: similar_def)
  have "fast_book_by_id st = fast_book_by_id st'"
    by (rule ext) (simp only: fast_book_by_id_def by_id_similar[OF e])
  moreover have "fast_book_by_symbol st = fast_book_by_symbol st'"
    by (rule ext) (simp only: fast_book_by_symbol_def by_symbol_similar[OF e])
  ultimately show ?thesis unfolding book_of_def by (simp only:)
qed

lemma get_book_similar:
  assumes "similar st st'"
  shows "get_book st i = None \<longleftrightarrow> get_book st' i = None"
    and "get_book st i = Some bk \<Longrightarrow> get_book st' i = Some bk' \<Longrightarrow> static bk = static bk'"
proof -
  have e: "map static (books st) = map static (books st')" using assms by (simp add: similar_def)
  have n: "length (books st) = length (books st')" using arg_cong[OF e, of length] by simp
  then show "get_book st i = None \<longleftrightarrow> get_book st' i = None" by (simp add: get_book_def)
  have "i < length (books st) \<Longrightarrow> static (books st ! i) = static (books st' ! i)"
    using arg_cong[OF e, of "\<lambda>xs. xs ! i"] n by simp
  then show "get_book st i = Some bk \<Longrightarrow> get_book st' i = Some bk' \<Longrightarrow> static bk = static bk'"
    by (auto simp: get_book_def split: if_splits)
qed

lemma similar_cases:
  assumes "similar st st'"
  obtains (none) "get_book st i = None" "get_book st' i = None"
    | (some) bk bk' where "get_book st i = Some bk" "get_book st' i = Some bk'" "static bk = static bk'"
proof (cases "get_book st i")
  case None
  then show thesis using get_book_similar(1)[OF assms, of i] none by simp
next
  case (Some bk)
  then obtain bk' where "get_book st' i = Some bk'" using get_book_similar(1)[OF assms, of i] by (cases "get_book st' i") simp_all
  then show thesis using some Some get_book_similar(2)[OF assms Some] by blast
qed

lemma trading_session_static:
  assumes "static bk = static bk'"
  shows "trading_session bk md = trading_session bk' md"
proof -
  have "bk_session bk = bk_session bk'" using assms by (simp add: static_def)
  then show ?thesis unfolding trading_session_def by (simp only:)
qed

lemma entry_meaning_similar:
  assumes "similar st st'"
  shows "entry_meaning st bi md = entry_meaning st' bi md"
proof (cases "book_of st md")
  case (Some r)
  show ?thesis
  proof (cases r)
    case (FoundBook i)
    from assms show ?thesis
    proof (cases rule: similar_cases[where i = i])
      case (some bk bk')
      then have "bk_tick bk = bk_tick bk'" "book_has_flags bk FAST_BOOK_ACTIVE = book_has_flags bk' FAST_BOOK_ACTIVE"
        "book_has_flags bk FAST_BOOK_JOIN = book_has_flags bk' FAST_BOOK_JOIN" by (simp_all add: static_def)
      then show ?thesis using Some FoundBook some
        by (simp cong: option.case_cong session_check.case_cong add: entry_meaning_def trading_session_static[OF some(3)] book_of_similar[OF assms, symmetric])
    qed (use Some FoundBook in \<open>simp add: entry_meaning_def book_of_similar[OF assms, symmetric]\<close>)
  qed (use Some in \<open>simp_all add: entry_meaning_def book_of_similar[OF assms, symmetric]\<close>)
qed (simp add: entry_meaning_def book_of_similar[OF assms, symmetric])

lemma message_meaning_similar:
  assumes "similar st st'"
  shows "message_meaning st bi msg = message_meaning st' bi msg"
proof -
  have "entry_meaning st bi = entry_meaning st' bi" by (rule ext) (rule entry_meaning_similar[OF assms])
  then show ?thesis unfolding message_meaning_def by (simp only:)
qed

lemma stream_meaning_similar:
  assumes "similar st st'"
  shows "stream_meaning st bi msgs = stream_meaning st' bi msgs"
proof -
  have "message_meaning st bi = message_meaning st' bi" by (rule ext) (rule message_meaning_similar[OF assms])
  then show ?thesis unfolding stream_meaning_def by (simp only:)
qed

lemma snapshot_meaning_similar:
  assumes "similar st st'"
  shows "snapshot_meaning st bi msg = snapshot_meaning st' bi msg"
proof -
  from assms show ?thesis
  proof (cases rule: similar_cases[where i = bi])
    case (some bk bk')
    then have "bk_tick bk = bk_tick bk'" by (simp add: static_def)
    then show ?thesis using some
      by (simp add: trading_session_static[OF some(3)] snapshot_meaning_def book_of_similar[OF assms, symmetric])
  qed (simp add: snapshot_meaning_def)
qed

subsection \<open>Increments\<close>

definition renumber :: "u64 \<Rightarrow> md_entry \<Rightarrow> md_entry" where
  "renumber n e = (case e of EntryLevel x \<Rightarrow> EntryLevel (x\<lparr>or_seq_num := n\<rparr>) | _ \<Rightarrow> e)"

lemma md_level_number: "md_level tick n md = map_option (renumber n) (md_level tick 0 md)"
  by (simp add: md_level_def renumber_def Let_def split: option.splits bind_splits)

text \<open>The changes with their numbers, in the order in which they come.\<close>

fun numbered :: "nat \<Rightarrow> change list \<Rightarrow> (u64 \<times> change) list" where
  "numbered a [] = []"
| "numbered a (c # cs) = numbered a cs @ [(of_nat (a + length cs + 1), c)]"

lemma length_numbered [simp]: "length (numbered a cs) = length cs"
  by (induction cs) auto

lemma numbered_append: "numbered a (ds @ cs) = numbered a cs @ numbered (a + length cs) ds"
  by (induction ds) (auto simp: add_ac)

lemma numbered_split:
  assumes "numbered a cs = xs @ ys"
  shows "\<exists>ds es. cs = es @ ds \<and> xs = numbered a ds \<and> ys = numbered (a + length ds) es"
proof -
  define es where "es = take (length ys) cs"
  define ds where "ds = drop (length ys) cs"
  have cs: "cs = es @ ds" by (simp add: es_def ds_def)
  have "length cs = length xs + length ys" using arg_cong[OF assms, of length] by simp
  then have "length ds = length xs" by (simp add: ds_def)
  then have "numbered a ds = xs \<and> numbered (a + length ds) es = ys"
    using assms unfolding cs numbered_append by (simp add: append_eq_append_conv)
  then show ?thesis using cs by blast
qed

text \<open>A joining book that has noted the changes \<open>cs\<close> after the first \<open>a\<close>.\<close>

definition joined ::
    "('h, 't) glib \<Rightarrow> nat \<Rightarrow> nat \<Rightarrow> change list \<Rightarrow> ('h, 't) fast_book_set \<Rightarrow> ('h, 't) fast_book \<Rightarrow> bool" where
  "joined g bi a cs st bk \<longleftrightarrow> get_book st bi = Some bk \<and> book_has_flags bk FAST_BOOK_JOIN \<and> \<not> book_has_flags bk FAST_BOOK_ACTIVE
     \<and> book_rep g (bk_ob bk) (noted a cs) \<and> rptseq bk = (if cs = [] then 0 else of_nat (a + length cs))
     \<and> 0 \<le> sint (bk_num bk) \<and> sint (bk_num bk) div 64 < int (length (books_mask st))"

lemma noted_Cons: "noted a (c # cs) = (noted a cs)(ch_buy c := (noted a cs (ch_buy c))(ch_price c \<mapsto> (of_nat (a + length cs + 1), noted_size c)))"
  by (auto simp: fun_eq_iff)

lemma note_level:
  assumes laws: "glib_laws g" and rep: "book_rep g ob (noted a cs)" and bound: "a + length cs + 1 < 2 ^ 64"
    and x: "or_buy x = ch_buy c" "or_price x = ch_price c" "or_size x = noted_size c" "or_seq_num x = of_nat (a + length cs + 1)"
    and small: "ch_price c < 2 ^ 32"
  shows "\<exists>ob'. ob_level_modify g ob x = Some (True, ob') \<and> book_rep g ob' (noted a (c # cs))"
proof -
  have "\<not> (\<exists>s z. noted a cs (ch_buy c) (ch_price c) = Some (s, z) \<and> of_nat (a + length cs + 1) \<le> s)"
    using noted_less[OF _ bound] by (meson leD)
  then have "ladder_modify x (noted a cs (or_buy x)) =
      (True, (noted a cs (ch_buy c))(ch_price c \<mapsto> (of_nat (a + length cs + 1), noted_size c)))"
    unfolding ladder_modify_def x by (simp only: if_False)
  then show ?thesis using ob_level_modify_rep[OF laws rep, of x] small unfolding x noted_Cons by simp
qed

lemma md_increment_notes:
  assumes laws: "glib_laws g" and rep: "book_rep g (bk_ob bk) (noted a cs)" and bound: "a + length cs + 1 < 2 ^ 64"
    and num: "rptseq bk = of_nat (a + length cs + 1)" and flags: "\<not> book_has_flags bk FAST_BOOK_ACTIVE"
    and c: "change_of (bk_tick bk) md = Some c" and small: "ch_price c < 2 ^ 32"
  shows "\<exists>ob. md_increment g bk md = Some (True, bk\<lparr>bk_ob := ob\<rparr>) \<and> book_rep g ob (noted a (c # cs))"
proof -
  from c obtain x f action where x: "md_level (bk_tick bk) 0 md = Some (EntryLevel x)"
    and f: "value_field md ''MDUpdateAction'' = Some f" "field_uint f = Some action"
    and ca: "(if action = 0 \<or> action = 1 then Some (Change (or_buy x) (or_price x) (Some (or_size x)))
           else if action = 2 then Some (Change (or_buy x) (or_price x) None)
           else None) = Some c"
    by (auto simp: change_of_def bind_eq_Some_conv split: option.splits md_entry.splits)
  let ?x = "x\<lparr>or_seq_num := rptseq bk\<rparr>"
  have lev: "md_level (bk_tick bk) (rptseq bk) md = Some (EntryLevel ?x)"
    by (subst md_level_number) (simp add: x renumber_def)
  consider (upd) "action = 0 \<or> action = 1" "c = Change (or_buy x) (or_price x) (Some (or_size x))"
    | (del) "action = 2" "c = Change (or_buy x) (or_price x) None"
    using ca by (auto split: if_splits)
  then show ?thesis
  proof cases
    case upd
    obtain ob where "ob_level_modify g (bk_ob bk) ?x = Some (True, ob)" "book_rep g ob (noted a (c # cs))"
      using note_level[OF laws rep bound _ _ _ _ small, of ?x] upd(2) num by (auto simp: noted_size_def)
    then show ?thesis using upd(1) f lev by (intro exI[where x = ob]) (simp add: md_increment_def modify_book_def)
  next
    case del
    obtain ob where "ob_level_modify g (bk_ob bk) (?x\<lparr>or_size := 0\<rparr>) = Some (True, ob)" "book_rep g ob (noted a (c # cs))"
      using note_level[OF laws rep bound _ _ _ _ small, of "?x\<lparr>or_size := 0\<rparr>"] del(2) num by (auto simp: noted_size_def)
    then show ?thesis using del(1) f lev flags by (intro exI[where x = ob]) (simp add: md_increment_def modify_book_def)
  qed
qed

lemma flag_simps:
  "book_has_flags (book_clear_flags bk FAST_BOOK_EMPTY) FAST_BOOK_ACTIVE = book_has_flags bk FAST_BOOK_ACTIVE"
  "book_has_flags (book_clear_flags bk FAST_BOOK_EMPTY) FAST_BOOK_JOIN = book_has_flags bk FAST_BOOK_JOIN"
  "\<not> book_has_flags (book_clear_flags bk FAST_BOOK_EMPTY) FAST_BOOK_EMPTY"
  "book_has_flags (book_add_flags bk FAST_BOOK_ACTIVE) FAST_BOOK_ACTIVE"
  "book_has_flags (book_add_flags bk FAST_BOOK_ACTIVE) FAST_BOOK_JOIN = book_has_flags bk FAST_BOOK_JOIN"
  by (simp_all add: book_has_flags_def book_clear_flags_def book_add_flags_def FAST_BOOK_EMPTY_def FAST_BOOK_ACTIVE_def
      FAST_BOOK_JOIN_def and.assoc bit.conj_disj_distrib2)

lemma get_set_book: "get_book (set_book st i bk) j = (if j = i \<and> i < length (books st) then Some bk else get_book st j)"
  by (auto simp: get_book_def set_book_def)

lemma get_book_bound: "get_book st i = Some bk \<Longrightarrow> i < length (books st)"
  by (simp add: get_book_def split: if_splits)

lemma similar_set:
  assumes "get_book st i = Some bk" and "static bk' = static bk" and "length ms = length (books_mask st)"
  shows "similar st (set_book (st\<lparr>books_mask := ms\<rparr>) i bk')"
proof -
  have "i < length (books st)" "static bk' = map static (books st) ! i"
    using assms(1,2) by (auto simp: get_book_def split: if_splits)
  then have "map static ((books st)[i := bk']) = map static (books st)"
    unfolding map_update by (simp add: list_update_same_conv)
  then show ?thesis using assms(3) by (simp add: similar_def set_book_def)
qed

lemma set_book_twice: "set_book (set_book st i bk) i bk' = set_book st i bk'"
  by (simp add: set_book_def)

text \<open>Marking a book does not touch the books.\<close>

lemma book_add_mask_some:
  assumes "0 \<le> sint (bk_num bk)" and "sint (bk_num bk) div 64 < int (length (books_mask st))"
  shows "\<exists>ms. book_add_mask st bk = Some (st\<lparr>books_mask := ms\<rparr>) \<and> length ms = length (books_mask st)"
proof -
  have "0 \<le> sint (bk_num bk) div 64" using assms(1) by simp
  then show ?thesis using assms(2)
    by (intro exI[where x = "(books_mask st)[nat (sint (bk_num bk) div 64) :=
        books_mask st ! nat (sint (bk_num bk) div 64) OR mask_of (bk_num bk)]"])
      (simp add: book_add_mask_def mem_get_def mem_put_def)
qed

lemma increment_book_notes:
  assumes laws: "glib_laws g" and j: "joined g bi a cs st bk" and bound: "a + length cs + 1 < 2 ^ 64"
    and f: "value_field md ''RptSeq'' = Some f" "field_uint f = Some n" and n: "n = of_nat (a + length cs + 1)"
    and c: "change_of (bk_tick bk) md = Some c" and small: "ch_price c < 2 ^ 32"
  shows "\<exists>st' bk'. increment_book g bi md st = Some (True, st') \<and> joined g bi a (c # cs) st' bk' \<and> similar st st'"
proof -
  let ?b1 = "bk\<lparr>rptseq := n\<rparr>"
  let ?b2 = "book_clear_flags ?b1 FAST_BOOK_EMPTY"
  have bk: "get_book st bi = Some bk" "book_has_flags bk FAST_BOOK_JOIN" "\<not> book_has_flags bk FAST_BOOK_ACTIVE"
    "book_rep g (bk_ob bk) (noted a cs)" "rptseq bk = (if cs = [] then 0 else of_nat (a + length cs))"
    "0 \<le> sint (bk_num bk)" "sint (bk_num bk) div 64 < int (length (books_mask st))" using j by (simp_all add: joined_def)
  have nz: "rptseq bk + 1 = n" if "rptseq bk \<noteq> 0"
    using that bk(5) n by (simp add: add_ac split: if_splits)
  have mask: "0 \<le> sint (bk_num ?b2)" "sint (bk_num ?b2) div 64 < int (length (books_mask (set_book st bi ?b2)))"
    using bk(6,7) by (simp_all add: book_clear_flags_def set_book_def)
  obtain ms where ms: "book_add_mask (set_book st bi ?b2) ?b2 = Some ((set_book st bi ?b2)\<lparr>books_mask := ms\<rparr>)"
    "length ms = length (books_mask st)"
    using book_add_mask_some[of ?b2 "set_book st bi ?b2"] mask by (auto simp: set_book_def)
  have ob: "bk_ob ?b2 = bk_ob bk" "rptseq ?b2 = n" "bk_tick ?b2 = bk_tick bk" "\<not> book_has_flags ?b2 FAST_BOOK_ACTIVE"
    "book_has_flags ?b2 FAST_BOOK_JOIN" using bk(2,3)
    by (simp_all add: flag_simps) (simp_all add: book_clear_flags_def book_has_flags_def)
  obtain ob' where md: "md_increment g ?b2 md = Some (True, ?b2\<lparr>bk_ob := ob'\<rparr>)" "book_rep g ob' (noted a (c # cs))"
    using md_increment_notes[OF laws _ bound, of ?b2 md c] ob bk(4) c small n by auto
  let ?b3 = "?b2\<lparr>bk_ob := ob'\<rparr>"
  let ?st = "set_book (st\<lparr>books_mask := ms\<rparr>) bi ?b3"
  have "increment_book g bi md st = Some (True, set_book ((set_book st bi ?b2)\<lparr>books_mask := ms\<rparr>) bi ?b3)"
    using f bk(1) md(1) ms(1) nz by (cases "rptseq bk = 0") (simp_all add: increment_book_def Let_def)
  moreover have "set_book ((set_book st bi ?b2)\<lparr>books_mask := ms\<rparr>) bi ?b3 = ?st" by (simp add: set_book_def)
  moreover have "static ?b3 = static bk"
    using ob(4,5) bk(2,3) by (simp add: static_def book_has_flags_def book_clear_flags_def)
  then have "similar st ?st" using similar_set[OF bk(1) _ ms(2)] by blast
  moreover have "joined g bi a (c # cs) ?st ?b3"
    using n ob(4,5) md(2) ms(2) bk(6,7) get_book_bound[OF bk(1)]
    by (simp add: joined_def get_set_book book_has_flags_def book_clear_flags_def) (simp add: set_book_def)
  ultimately show ?thesis by metis
qed

lemma other_book_None [simp]: "other_book st None md bk = Some False"
  by (simp add: other_book_def)

lemma entry_meaning_FoundBook:
  assumes "get_book st bi = Some bk" and "book_of st md = Some (FoundBook bi)"
  shows "entry_meaning st bi md =
    (if trading_session bk md = Some OtherSession then Some None
     else if trading_session bk md = Some SameSession then do {
       f \<leftarrow> value_field md ''RptSeq'';
       n \<leftarrow> field_uint f;
       c \<leftarrow> change_of (bk_tick bk) md;
       Some (Some (n, c)) }
     else None)"
  using assms by (simp add: entry_meaning_def split: option.split session_check.split)

lemma increment_entry_idle:
  assumes j: "joined g bi a cs st bk" and m: "entry_meaning st bi md = Some None"
  shows "increment_entry g None md st = Some (True, st)"
proof -
  have bk: "get_book st bi = Some bk" "book_has_flags bk FAST_BOOK_JOIN" using j by (simp_all add: joined_def)
  from m consider (no) "book_of st md = Some NoBook" | (book) i where "book_of st md = Some (FoundBook i)"
    by (auto simp: entry_meaning_def split: option.split_asm lookup_result.split_asm)
  then show ?thesis
  proof cases
    case (book i)
    show ?thesis
    proof (cases "i = bi")
      case True
      then have "trading_session bk md = Some OtherSession"
        using m entry_meaning_FoundBook[OF bk(1)] book by (auto simp: bind_eq_Some_conv split: if_split_asm)
      then show ?thesis using True book bk by (simp add: increment_entry_def)
    next
      case False
      then show ?thesis using m book by (auto simp: entry_meaning_def increment_entry_def bind_eq_Some_conv split: if_split_asm)
    qed
  qed (simp add: increment_entry_def)
qed

lemma increment_entry_notes:
  assumes laws: "glib_laws g" and j: "joined g bi a cs st bk" and bound: "a + length cs + 1 < 2 ^ 64"
    and m: "entry_meaning st bi md = Some (Some (n, c))" and n: "n = of_nat (a + length cs + 1)" and small: "ch_price c < 2 ^ 32"
  shows "\<exists>st' bk'. increment_entry g None md st = Some (True, st') \<and> joined g bi a (c # cs) st' bk' \<and> similar st st'"
proof -
  have bk: "get_book st bi = Some bk" "book_has_flags bk FAST_BOOK_JOIN" using j by (simp_all add: joined_def)
  have b: "book_of st md = Some (FoundBook bi)"
    using m by (auto simp: entry_meaning_def bind_eq_Some_conv split: option.split_asm lookup_result.split_asm if_split_asm)
  from m obtain f where f: "trading_session bk md = Some SameSession" "value_field md ''RptSeq'' = Some f"
    "field_uint f = Some n" "change_of (bk_tick bk) md = Some c"
    unfolding entry_meaning_FoundBook[OF bk(1) b] by (auto simp: bind_eq_Some_conv split: if_split_asm)
  have "increment_entry g None md st = increment_book g bi md st"
    using b f(1) bk by (simp add: increment_entry_def)
  then show ?thesis using increment_book_notes[OF laws j bound f(2,3) n f(4) small] by simp
qed

text \<open>A message, and a stream of messages, as the changes they carry for the book.\<close>

lemma those_Cons: "those (x # xs) = Some ys \<longleftrightarrow> (\<exists>y zs. x = Some y \<and> those xs = Some zs \<and> ys = y # zs)"
  by (auto split: option.split)

lemma numbered_first: "numbered a cs = (n, c) # ncs \<Longrightarrow> \<exists>ds. cs = ds @ [c] \<and> n = of_nat (a + 1) \<and> ncs = numbered (a + 1) ds"
proof -
  assume "numbered a cs = (n, c) # ncs"
  then have "numbered a cs = [(n, c)] @ ncs" by simp
  from numbered_split[OF this] obtain ds es where d: "cs = es @ ds" "[(n, c)] = numbered a ds"
    "ncs = numbered (a + length ds) es" by blast
  have "length ds = 1" using arg_cong[OF d(2), of length] by simp
  then obtain c' where "ds = [c']" by (auto simp: length_Suc_conv)
  with d show ?thesis by auto
qed

lemma run_entries_notes:
  assumes laws: "glib_laws g"
  shows "joined g bi a cs st bk \<Longrightarrow> those (map (entry_meaning st bi) mds) = Some ms
    \<Longrightarrow> present ms = numbered (a + length cs) ds \<Longrightarrow> a + length (ds @ cs) < 2 ^ 64
    \<Longrightarrow> \<forall>c\<in>set ds. ch_price c < 2 ^ 32
    \<Longrightarrow> \<exists>st' bk'. run_entries (increment_entry g None) mds st = Some (True, st') \<and> joined g bi a (ds @ cs) st' bk' \<and> similar st st'"
proof (induction mds arbitrary: cs st bk ms ds)
  case Nil
  have ms: "ms = []" using Nil(2) by simp
  have "ds = []" using arg_cong[OF Nil(3), of length] unfolding ms by simp
  then show ?case using Nil similar_refl by auto
next
  case (Cons md mds)
  from Cons.prems(2) obtain m ms' where m: "entry_meaning st bi md = Some m" "those (map (entry_meaning st bi) mds) = Some ms'"
    "ms = m # ms'" by (auto simp: those_Cons simp del: those.simps)
  show ?case
  proof (cases m)
    case None
    then have "present ms' = numbered (a + length cs) ds" using Cons.prems(3) m(3) by simp
    from Cons.IH[OF Cons.prems(1) m(2) this Cons.prems(4,5)]
    show ?thesis using increment_entry_idle[OF Cons.prems(1)] m(1) None by simp
  next
    case (Some nc)
    obtain n c where nc: "nc = (n, c)" by (cases nc)
    from Cons.prems(3) have "numbered (a + length cs) ds = (n, c) # present ms'"
      using m(3) Some nc by simp
    from numbered_first[OF this] obtain es where es: "ds = es @ [c]" "n = of_nat (a + length cs + 1)"
      "present ms' = numbered (a + length (c # cs)) es" by auto
    have bound: "a + length cs + 1 < 2 ^ 64" "ch_price c < 2 ^ 32" using Cons.prems(4,5) es(1) by simp_all
    obtain st1 bk1 where 1: "increment_entry g None md st = Some (True, st1)" "joined g bi a (c # cs) st1 bk1" "similar st st1"
      using increment_entry_notes[OF laws Cons.prems(1) bound(1) _ es(2) bound(2)] m(1) Some nc by blast
    have "entry_meaning st bi = entry_meaning st1 bi" by (rule ext) (rule entry_meaning_similar[OF 1(3)])
    then have "those (map (entry_meaning st1 bi) mds) = Some ms'" using m(2) by simp
    from Cons.IH[OF 1(2) this es(3)] Cons.prems(4,5) es(1) obtain st2 bk2 where
      2: "run_entries (increment_entry g None) mds st1 = Some (True, st2)" "joined g bi a (es @ c # cs) st2 bk2" "similar st1 st2"
      by auto
    then show ?thesis using 1 es(1) similar_trans by fastforce
  qed
qed

lemma apply_increments_note:
  assumes laws: "glib_laws g"
  shows "joined g bi a cs st bk \<Longrightarrow> stream_meaning st bi msgs = Some (numbered (a + length cs) ds) \<Longrightarrow> a + length (ds @ cs) < 2 ^ 64
    \<Longrightarrow> \<forall>c\<in>set ds. ch_price c < 2 ^ 32
    \<Longrightarrow> \<exists>st' bk'. run_entries (apply_increment g None) msgs st = Some (True, st') \<and> joined g bi a (ds @ cs) st' bk' \<and> similar st st'"
proof (induction msgs arbitrary: cs st bk ds)
  case Nil
  then have "ds = []" using length_numbered[of "a + length cs" ds] by (simp add: stream_meaning_def)
  then show ?case using Nil similar_refl by auto
next
  case (Cons msg msgs)
  from Cons.prems(2) obtain x xs where x: "message_meaning st bi msg = Some x" "those (map (message_meaning st bi) msgs) = Some xs"
    "numbered (a + length cs) ds = x @ concat xs" by (auto simp: stream_meaning_def those_Cons simp del: those.simps)
  from numbered_split[OF x(3)] obtain d1 d2 where d: "ds = d2 @ d1" "x = numbered (a + length cs) d1"
    "concat xs = numbered (a + length cs + length d1) d2" by blast
  from x(1) obtain mds ms where mds: "entries_of msg = Some mds" "those (map (entry_meaning st bi) mds) = Some ms"
    "x = present ms" by (auto simp: message_meaning_def bind_eq_Some_conv)
  have "a + length (d1 @ cs) < 2 ^ 64" "\<forall>c\<in>set d1. ch_price c < 2 ^ 32" using Cons.prems(3,4) d(1) by simp_all
  from run_entries_notes[OF laws Cons.prems(1) mds(2) _ this] mds(3) d(2) obtain st1 bk1 where
    1: "run_entries (increment_entry g None) mds st = Some (True, st1)" "joined g bi a (d1 @ cs) st1 bk1" "similar st st1" by auto
  have "stream_meaning st bi msgs = Some (numbered (a + length (d1 @ cs)) d2)"
    using x(2) d(3) by (simp add: stream_meaning_def add_ac)
  then have "stream_meaning st1 bi msgs = Some (numbered (a + length (d1 @ cs)) d2)"
    using stream_meaning_similar[OF 1(3)] by simp
  from Cons.IH[OF 1(2) this] Cons.prems(3,4) d(1) obtain st2 bk2 where
    2: "run_entries (apply_increment g None) msgs st1 = Some (True, st2)" "joined g bi a (d2 @ d1 @ cs) st2 bk2" "similar st1 st2"
    by auto
  then show ?case using 1 d(1) similar_trans apply_increment_run[OF mds(1), of g None st] by fastforce
qed

subsection \<open>Snapshots\<close>

text \<open>A snapshot with number \<open>s\<close> fills in the levels of which nothing was noted.\<close>

fun filled :: "u64 \<Rightarrow> (bool \<times> ulong \<times> ulong) list \<Rightarrow> (bool \<Rightarrow> ladder) \<Rightarrow> bool \<Rightarrow> ladder" where
  "filled s [] m = m"
| "filled s ((buy, price, z) # es) m =
     filled s es (if m buy price = None then m(buy := (m buy)(price \<mapsto> (s, z))) else m)"

definition level_key :: "bool \<times> ulong \<times> ulong \<Rightarrow> bool \<times> ulong" where
  "level_key e = (fst e, fst (snd e))"

text \<open>What was noted before the snapshot was made agrees with it.\<close>

definition agrees :: "u64 \<Rightarrow> (bool \<times> ulong \<times> ulong) list \<Rightarrow> (bool \<Rightarrow> ladder) \<Rightarrow> bool" where
  "agrees s es m \<longleftrightarrow> (\<forall>(buy, price, z)\<in>set es. \<forall>q y. m buy price = Some (q, y) \<longrightarrow> q \<le> s \<longrightarrow> y = z)"

lemma filled_at:
  assumes "distinct (map level_key es)"
  shows "filled s es m buy price =
    (if m buy price \<noteq> None then m buy price
     else if \<exists>z. (buy, price, z) \<in> set es then Some (s, THE z. (buy, price, z) \<in> set es) else None)"
  using assms
proof (induction es arbitrary: m)
  case (Cons e es)
  obtain b p z where e: "e = (b, p, z)" by (cases e)
  have key: "(b, p, y) \<notin> set es" for y using Cons.prems by (force simp: e level_key_def)
  show ?case
  proof (cases "(b, p) = (buy, price)")
    case True
    have "(THE y. (b, p, y) \<in> set (e # es)) = z" using key by (intro the_equality) (auto simp: e)
    then show ?thesis using Cons key True by (auto simp: e)
  next
    case False
    then have "(buy, price, y) \<in> set (e # es) \<longleftrightarrow> (buy, price, y) \<in> set es" for y by (auto simp: e)
    then show ?thesis using Cons False by (auto simp: e)
  qed
next
  case Nil
  show ?case by (cases "m buy price") simp_all
qed

lemma agrees_step:
  assumes "agrees s ((buy, price, z) # es) m" and "distinct (map level_key ((buy, price, z) # es))"
  shows "agrees s es (if m buy price = None then m(buy := (m buy)(price \<mapsto> (s, z))) else m)"
proof -
  have k: "(buy, price, y) \<notin> set es" for y using assms(2) by (force simp: level_key_def)
  have "agrees s es m" using assms(1) by (simp add: agrees_def)
  then show ?thesis using k unfolding agrees_def by (auto split: if_split_asm)
qed

lemma md_snapshot_fills:
  assumes laws: "glib_laws g" and rep: "book_rep g (bk_ob bk) m" and lev: "level_of (bk_tick bk) md = Some (buy, price, z)"
    and small: "price < 2 ^ 32" and agree: "\<forall>q y. m buy price = Some (q, y) \<longrightarrow> q \<le> snpseq bk \<longrightarrow> y = z"
  shows "\<exists>ob. md_snapshot g bk md = Some (True, bk\<lparr>bk_ob := ob\<rparr>)
    \<and> book_rep g ob (if m buy price = None then m(buy := (m buy)(price \<mapsto> (snpseq bk, z))) else m)"
proof -
  from lev obtain x where x: "md_level (bk_tick bk) 0 md = Some (EntryLevel x)" "or_buy x = buy" "or_price x = price" "or_size x = z"
    by (auto simp: level_of_def split: option.split_asm md_entry.split_asm)
  let ?x = "x\<lparr>or_seq_num := snpseq bk\<rparr>"
  have md: "md_level (bk_tick bk) (snpseq bk) md = Some (EntryLevel ?x)"
    by (subst md_level_number) (simp add: x renumber_def)
  note side = book_rep_side[OF rep, of buy]
  have look: "ob_level_lookup g (bk_ob bk) ?x = g_hash_table_lookup g (ghtable (ob_side_of (bk_ob bk) buy)) price"
    by (simp add: ob_level_lookup_def x)
  show ?thesis
  proof (cases "m buy price")
    case None
    then have "ob_level_lookup g (bk_ob bk) ?x = None" using side_repD(3)[OF side, of price] look by simp
    moreover have "ladder_modify ?x (m (or_buy ?x)) = (True, (m buy)(price \<mapsto> (snpseq bk, z)))"
      using None by (simp add: ladder_modify_def x)
    then obtain ob where "ob_level_modify g (bk_ob bk) ?x = Some (True, ob)"
      "book_rep g ob (m(buy := (m buy)(price \<mapsto> (snpseq bk, z))))"
      using ob_level_modify_rep[OF laws rep, of ?x] small x by auto
    ultimately show ?thesis using None md by (intro exI[where x = ob]) (simp add: md_snapshot_def modify_book_def del: fun_upd_apply)
  next
    case (Some qy)
    then obtain p where p: "g_hash_table_lookup g (ghtable (ob_side_of (bk_ob bk) buy)) price = Some p"
      using side_repD(3)[OF side, of price] by (cases "g_hash_table_lookup g (ghtable (ob_side_of (bk_ob bk) buy)) price") auto
    from side_rep_level[OF side p] obtain q y where qy: "m buy price = Some (q, y)"
      "level_at (ob_heap (ob_side_of (bk_ob bk) buy)) p = Some \<lparr>lv_seq_num = q, lv_price = price, lv_size = y\<rparr>" by blast
    have "\<not> (q \<le> snpseq bk \<and> y \<noteq> z)" using agree qy(1) by blast
    then have "md_snapshot g bk md = Some (True, bk\<lparr>bk_ob := bk_ob bk\<rparr>)"
      using md look p qy(2) by (simp add: md_snapshot_def x)
    then show ?thesis using rep Some by (intro exI[where x = "bk_ob bk"]) simp
  qed
qed

lemma snapshot_entries_fill:
  assumes laws: "glib_laws g"
  shows "get_book st bi = Some bk \<Longrightarrow> book_rep g (bk_ob bk) m \<Longrightarrow> those (map (level_of (bk_tick bk)) mds) = Some es
    \<Longrightarrow> distinct (map level_key es) \<Longrightarrow> agrees (snpseq bk) es m \<Longrightarrow> \<forall>e\<in>set es. fst (snd e) < 2 ^ 32
    \<Longrightarrow> \<exists>ob. run_entries (snapshot_entry g bi) mds st = Some (True, set_book st bi (bk\<lparr>bk_ob := ob\<rparr>))
         \<and> book_rep g ob (filled (snpseq bk) es m)"
proof (induction mds arbitrary: st bk m es)
  case Nil
  then have "set_book st bi (bk\<lparr>bk_ob := bk_ob bk\<rparr>) = st" by (auto simp: set_book_def get_book_def split: if_splits)
  then show ?case using Nil by (intro exI[where x = "bk_ob bk"]) simp
next
  case (Cons md mds)
  from Cons.prems(3) obtain e es' where es: "level_of (bk_tick bk) md = Some e" "those (map (level_of (bk_tick bk)) mds) = Some es'"
    "es = e # es'" by (auto simp: those_Cons simp del: those.simps)
  obtain buy price z where e: "e = (buy, price, z)" by (cases e)
  let ?m = "if m buy price = None then m(buy := (m buy)(price \<mapsto> (snpseq bk, z))) else m"
  have ag: "\<forall>q y. m buy price = Some (q, y) \<longrightarrow> q \<le> snpseq bk \<longrightarrow> y = z" "price < 2 ^ 32"
    using Cons.prems(5,6) by (auto simp: es(3) e agrees_def)
  obtain ob where ob: "md_snapshot g bk md = Some (True, bk\<lparr>bk_ob := ob\<rparr>)" "book_rep g ob ?m"
    using md_snapshot_fills[OF laws Cons.prems(2) es(1)[unfolded e] ag(2,1)] by blast
  let ?st = "set_book st bi (bk\<lparr>bk_ob := ob\<rparr>)"
  have step: "snapshot_entry g bi md st = Some (True, ?st)" using Cons.prems(1) ob(1) by (simp add: snapshot_entry_def)
  have "get_book ?st bi = Some (bk\<lparr>bk_ob := ob\<rparr>)" using get_book_bound[OF Cons.prems(1)] by (simp add: get_set_book)
  moreover have "agrees (snpseq bk) es' ?m" using agrees_step Cons.prems(4,5) unfolding es(3) e by blast
  ultimately obtain ob' where "run_entries (snapshot_entry g bi) mds ?st = Some (True, set_book ?st bi (bk\<lparr>bk_ob := ob'\<rparr>))"
    "book_rep g ob' (filled (snpseq bk) es' ?m)"
    using Cons.IH[of ?st "bk\<lparr>bk_ob := ob\<rparr>" ?m es'] ob(2) es(2,3) Cons.prems(4,6) by (auto simp del: fun_upd_apply)
  then show ?case using step by (intro exI[where x = ob']) (simp add: set_book_twice es(3) e del: fun_upd_apply)
qed

lemma same_string: "c_strlen m = Some n \<Longrightarrow> c_strn_equal m m n = Some True"
  by (induction m arbitrary: n) (auto split: if_splits)

lemma by_symbol_terminated:
  "by_symbol_loop bs s i = Some (Some j) \<Longrightarrow> i \<le> j \<and> j - i < length bs \<and> c_strlen (bk_symbol (bs ! (j - i))) \<noteq> None"
proof (induction bs arbitrary: i)
  case (Cons b bs)
  then obtain n same where n: "c_strlen (bk_symbol b) = Some n"
    "(if same then Some (Some i) else by_symbol_loop bs s (i + 1)) = Some (Some j)" by (auto simp: bind_eq_Some_conv)
  show ?case
  proof (cases same)
    case False
    then have "i + 1 \<le> j" "j - (i + 1) < length bs" "c_strlen (bk_symbol (bs ! (j - (i + 1)))) \<noteq> None"
      using Cons.IH[of "i + 1"] n(2) by auto
    then show ?thesis by (simp add: nth_Cons' Suc_diff_Suc)
  qed (use n in auto)
qed simp

lemma same_book:
  assumes "get_book st bi = Some bk" and "book_of st msg = Some (FoundBook bi)"
  shows "other_book st (Some bi) msg bk = Some False"
proof (cases "fast_get_field msg ''SecurityID''")
  case None
  then obtain s where "fast_book_by_symbol st s = Some (Some bi)"
    using assms(2) by (auto simp: book_of_def found_def bind_eq_Some_conv split: option.split_asm)
  then have "c_strlen (bk_symbol bk) \<noteq> None"
    using by_symbol_terminated[of "books st" s 0 bi] assms(1)
    by (auto simp: fast_book_by_symbol_def get_book_def split: if_split_asm)
  then show ?thesis using None assms(1) by (auto simp: other_book_def same_string)
qed (use assms(1) in \<open>simp add: other_book_def\<close>)

lemma apply_snapshot_fills:
  assumes laws: "glib_laws g" and j: "joined g bi a cs st bk" and s: "snapshot_meaning st bi msg = Some (s, es)"
    and keys: "distinct (map level_key es)" and ag: "agrees s es (noted a cs)" and small: "\<forall>e\<in>set es. fst (snd e) < 2 ^ 32"
  shows "\<exists>st' bk'. apply_snapshot g (Some bi) msg st = Some (True, st') \<and> get_book st' bi = Some bk'
    \<and> book_has_flags bk' FAST_BOOK_ACTIVE \<and> rptseq bk' = rptseq bk \<and> book_rep g (bk_ob bk') (filled s es (noted a cs))"
proof -
  have bk: "get_book st bi = Some bk" "book_has_flags bk FAST_BOOK_JOIN" "\<not> book_has_flags bk FAST_BOOK_ACTIVE"
    "book_rep g (bk_ob bk) (noted a cs)" "0 \<le> sint (bk_num bk)" "sint (bk_num bk) div 64 < int (length (books_mask st))"
    using j by (simp_all add: joined_def)
  from s obtain f sq mds r where f: "md_entries msg = Some f" "field_sequence f = Some sq" "entries_of msg = Some mds"
    "trading_session bk (hd (seq_elements sq)) = Some SameSession" "value_field msg ''RptSeq'' = Some r" "field_uint r = Some s"
    "those (map (level_of (bk_tick bk)) mds) = Some es" "book_of st msg = Some (FoundBook bi)" "mds \<noteq> []"
    by (auto simp: snapshot_meaning_def bk(1) bind_eq_Some_conv split: if_split_asm)
  have sq: "\<not> field_state_empty (seq_length sq)" "unat (int_value (seq_length sq)) < length (seq_elements sq)"
    "mds = take (unat (int_value (seq_length sq))) (tl (seq_elements sq))"
    using f(1-3) by (auto simp: entries_of_def Let_def split: if_split_asm)
  have "int_value (seq_length sq) \<noteq> 0" using f(9) sq(3) by auto
  moreover have "mem_get (seq_elements sq) 0 = Some (hd (seq_elements sq))"
    using sq(2) by (auto simp: mem_get_def hd_conv_nth)
  ultimately have enter: "apply_snapshot g (Some bi) msg st = snapshot_book g bi s sq st"
    using f sq(1) bk(1-3) same_book[OF bk(1) f(8)] by (simp add: apply_snapshot_def snapshot_entries_def)
  let ?b = "book_clear_flags (bk\<lparr>snpseq := s\<rparr>) FAST_BOOK_EMPTY"
  have b: "bk_ob ?b = bk_ob bk" "snpseq ?b = s" "bk_tick ?b = bk_tick bk" "rptseq ?b = rptseq bk" "\<not> book_has_flags ?b FAST_BOOK_EMPTY"
    by (simp_all add: flag_simps) (simp_all add: book_clear_flags_def)
  obtain ms where ms: "book_add_mask (set_book st bi ?b) ?b = Some ((set_book st bi ?b)\<lparr>books_mask := ms\<rparr>)"
    using book_add_mask_some[of ?b "set_book st bi ?b"] bk(5,6) by (auto simp: set_book_def book_clear_flags_def)
  let ?st = "(set_book st bi ?b)\<lparr>books_mask := ms\<rparr>"
  have get: "get_book ?st bi = Some ?b" using get_book_bound[OF bk(1)] by (simp add: set_book_def get_book_def)
  obtain ob where ob: "run_entries (snapshot_entry g bi) mds ?st = Some (True, set_book ?st bi (?b\<lparr>bk_ob := ob\<rparr>))"
    "book_rep g ob (filled s es (noted a cs))"
    using snapshot_entries_fill[OF laws get _ _ keys, of "noted a cs" mds] b bk(4) f(7) ag small by auto
  have loop: "entries_loop (snapshot_entry g bi) (seq_elements sq) 1 (unat (int_value (seq_length sq))) ?st =
      Some (True, set_book ?st bi (?b\<lparr>bk_ob := ob\<rparr>))"
    using entries_loop_run[of 1 _ "seq_elements sq" "snapshot_entry g bi" ?st] sq(2) ob(1) unfolding sq(3) by (simp add: drop_Suc)
  let ?b' = "?b\<lparr>bk_ob := ob\<rparr>"
  have get': "get_book (set_book ?st bi ?b') bi = Some ?b'" using get_book_bound[OF get] by (simp add: get_set_book)
  have ne: "\<not> book_has_flags ?b' FAST_BOOK_EMPTY" using b(5) by (simp add: book_has_flags_def)
  have "apply_snapshot g (Some bi) msg st = Some (True, set_book (set_book ?st bi ?b') bi (book_add_flags ?b' FAST_BOOK_ACTIVE))"
    unfolding enter snapshot_book_def using bk(1) ms loop get' ne by (simp add: Let_def)
  moreover have "get_book (set_book (set_book ?st bi ?b') bi (book_add_flags ?b' FAST_BOOK_ACTIVE)) bi = Some (book_add_flags ?b' FAST_BOOK_ACTIVE)"
    using get_book_bound[OF get'] by (simp add: get_set_book)
  moreover have "bk_ob (book_add_flags ?b' FAST_BOOK_ACTIVE) = ob" "rptseq (book_add_flags ?b' FAST_BOOK_ACTIVE) = rptseq bk"
    using b(4) by (simp_all add: book_add_flags_def)
  ultimately show ?thesis using ob(2) flag_simps(4)[of ?b'] by metis
qed

subsection \<open>The recovered book\<close>

text \<open>The levels of a list of prices and sizes.\<close>

lemma recovered_level:
  assumes H: "H = rs @ old" and ok: "\<forall>c\<in>set H. sensible c" and s: "length old \<le> s" "s \<le> length H" and bound: "length H < 2 ^ 64"
    and es: "\<And>buy price z. (buy, price, z) \<in> set es \<longleftrightarrow> standing (drop (length H - s) H) buy price = Some z"
    and keys: "distinct (map level_key es)"
  shows "agrees (of_nat s) es (noted (length old) rs)"
    and "map_option snd (without_zeros (filled (of_nat s) es (noted (length old) rs) buy) price) = standing H buy price"
proof -
  let ?k = "length H - s"
  have k: "?k \<le> length rs" using s by (simp add: H)
  have dropped: "drop ?k H = drop ?k rs @ old" using k by (simp add: H)
  have rs: "\<forall>c\<in>set rs. sensible c" using ok by (simp add: H)
  show "agrees (of_nat s) es (noted (length old) rs)"
    unfolding agrees_def
  proof (intro ballI allI impI, clarify)
    fix b p z q y
    assume e: "(b, p, z) \<in> set es" and n: "noted (length old) rs b p = Some (q, y)" and q: "q \<le> of_nat s"
    from noted_Some[OF n rs, of old] obtain i where i: "1 \<le> i" "i \<le> length rs" "q = of_nat (length old + i)"
      "\<forall>k \<le> length rs - i. standing (drop k rs @ old) b p = (if y = 0 then None else Some y)" by blast
    have "length old + i \<le> s" using q i(2,3) s bound by (simp add: H word_le_nat_alt unat_of_nat del: of_nat_add)
    then have "?k \<le> length rs - i" by (simp add: H)
    then have "standing (drop ?k H) b p = (if y = 0 then None else Some y)" using i(4) dropped by simp
    then show "y = z" using e es by (auto split: if_split_asm)
  qed
  show "map_option snd (without_zeros (filled (of_nat s) es (noted (length old) rs) buy) price) = standing H buy price"
  proof (cases "noted (length old) rs buy price")
    case None
    have "standing H buy price = standing (drop ?k H) buy price"
      using noted_None[OF None, of 0 old] noted_None[OF None, of ?k old] dropped H by simp
    moreover have nz: "standing H' buy price \<noteq> Some 0" if "\<forall>c\<in>set H'. sensible c" for H' using that
      by (induction H') (auto simp: sensible_def)
    moreover have "(THE z. (buy, price, z) \<in> set es) = y" if "standing (drop ?k H) buy price = Some y" for y
      using es that by (intro the_equality) auto
    ultimately show ?thesis using None es nz[OF ok]
      by (cases "standing (drop ?k H) buy price") (auto simp: filled_at[OF keys] without_zeros_def)
  next
    case (Some qy)
    obtain q y where qy: "qy = (q, y)" by (cases qy)
    from noted_Some[OF Some[unfolded qy] rs, of old] obtain i where
      "\<forall>k \<le> length rs - i. standing (drop k rs @ old) buy price = (if y = 0 then None else Some y)" by blast
    then have "standing H buy price = (if y = 0 then None else Some y)" unfolding H by (metis drop_0 zero_le)
    then show ?thesis using Some qy by (simp add: filled_at[OF keys] without_zeros_def)
  qed
qed

lemma standing_sensible: "standing H buy price = Some z \<Longrightarrow> \<forall>c\<in>set H. sensible c \<Longrightarrow> price < 2 ^ 32"
  by (induction H) (auto simp: sensible_def split: if_split_asm)

lemma join_flags:
  "book_has_flags (book_add_flags (book_clear_flags bk FAST_BOOK_ACTIVE) FAST_BOOK_JOIN) FAST_BOOK_JOIN"
  "\<not> book_has_flags (book_add_flags (book_clear_flags bk FAST_BOOK_ACTIVE) FAST_BOOK_JOIN) FAST_BOOK_ACTIVE"
  by (simp_all add: book_has_flags_def book_clear_flags_def book_add_flags_def FAST_BOOK_ACTIVE_def FAST_BOOK_JOIN_def
      and.assoc bit.conj_disj_distrib2)

text \<open>A book that is cleared, as \<open>fast_books_recover\<close> does, and marked, as \<open>fast_books_join\<close> does.\<close>

definition joining_set :: "('h, 't) glib \<Rightarrow> ('h, 't) fast_book_set \<Rightarrow> nat \<Rightarrow> ('h, 't) fast_book \<Rightarrow> ('h, 't) fast_book_set" where
  "joining_set g st bi bk =
     set_book st bi (book_add_flags (book_clear_flags (fast_book_clear g bk) FAST_BOOK_ACTIVE) FAST_BOOK_JOIN)"

lemma joining_set_joined:
  assumes "glib_laws g" and "get_book st bi = Some bk" and "0 \<le> sint (bk_num bk)"
    and "sint (bk_num bk) div 64 < int (length (books_mask st))"
  shows "joined g bi a [] (joining_set g st bi bk)
    (book_add_flags (book_clear_flags (fast_book_clear g bk) FAST_BOOK_ACTIVE) FAST_BOOK_JOIN)"
proof -
  have "noted a [] = (\<lambda>_. Map.empty)" by (simp add: fun_eq_iff)
  then show ?thesis using assms book_rep_init[OF assms(1)] get_book_bound[OF assms(2)]
    by (simp add: joined_def joining_set_def join_flags get_set_book)
      (simp add: set_book_def book_add_flags_def book_clear_flags_def fast_book_clear_def ob_clear_def)
qed

definition listed_sizes :: "('h, 't) ob_side \<Rightarrow> (ulong \<times> ulong) option list" where
  "listed_sizes sd = map (map_option (\<lambda>l. (lv_price l, lv_size l))) (levels_listed sd)"

definition standing_sizes :: "change list \<Rightarrow> bool \<Rightarrow> (ulong \<times> ulong) option list" where
  "standing_sizes H buy = map (\<lambda>p. map_option (Pair p) (standing H buy p)) (sorted_list_of_set {p. standing H buy p \<noteq> None})"

lemma listed_standing:
  assumes rep: "side_rep g sd m" and m: "\<And>price. map_option snd (m price) = standing H buy price"
  shows "listed_sizes sd = standing_sizes H buy"
proof -
  have "dom m = {p. standing H buy p \<noteq> None}" unfolding m[symmetric] by auto
  moreover have "map_option (\<lambda>l. (lv_price l, lv_size l)) (level_in m p) = map_option (Pair p) (standing H buy p)" for p
    unfolding m[symmetric] by (auto simp: level_in_def option.map_comp intro!: option.map_cong)
  ultimately show ?thesis
    unfolding listed_sizes_def standing_sizes_def side_rep_listed(1)[OF rep] levels_sorted_def by simp
qed

text \<open>C10: A book is recovered from a snapshot and the increments around it.  Let \<open>rs @ old\<close> be the history of the
  exchange's book, the newest change first.  The increments that were received carry the changes \<open>rs\<close>, numbered
  by RptSeq, among entries for instruments outside the set, for books of the set that are neither active nor joining, and for other
  trading sessions (an entry for another book that is followed is excluded: its own book would have to be described too); every price, in
  units of the tick, is below 2^32, as the key of a level needs; the snapshot gives, in any order, the levels that stood
  after the first \<open>s\<close> changes, where \<open>s\<close> is anywhere between the first and the last received increment.  Then all
  increments and the snapshot are applied without an error or a fault, the book becomes active with the number of the
  last change, and after the levels of size 0 are deleted its lists and its lookups give exactly the book that stands
  now: levels deleted since the snapshot do not come back, and levels changed since keep their newer size.\<close>

theorem snapshot_join:
  assumes "glib_laws g" and "get_book st bi = Some bk" and "0 \<le> sint (bk_num bk)"
    and "sint (bk_num bk) div 64 < int (length (books_mask st))"
    and "H = rs @ old" and "\<forall>c\<in>set H. sensible c" and "length H < 2 ^ 64"
    and "stream_meaning (joining_set g st bi bk) bi msgs = Some (numbered (length old) rs)"
    and "snapshot_meaning (joining_set g st bi bk) bi snp = Some (of_nat s, es)"
    and "length old \<le> s" and "s \<le> length H" and "distinct (map level_key es)"
    and "\<And>buy price z. (buy, price, z) \<in> set es \<longleftrightarrow> standing (drop (length H - s) H) buy price = Some z"
  shows "\<exists>st1 st2 bk2 ob. run_entries (apply_increment g None) msgs (joining_set g st bi bk) = Some (True, st1)
    \<and> apply_snapshot g (Some bi) snp st1 = Some (True, st2) \<and> get_book st2 bi = Some bk2
    \<and> book_has_flags bk2 FAST_BOOK_ACTIVE \<and> rptseq bk2 = (if rs = [] then 0 else of_nat (length H))
    \<and> drop_zeros g (bk_ob bk2) = Some (True, ob)
    \<and> (\<forall>buy. listed_sizes (ob_side_of ob buy) = standing_sizes H buy)
    \<and> (\<forall>x. (case ob_level_lookup g ob x of None \<Rightarrow> None
          | Some p \<Rightarrow> map_option lv_size (level_at (ob_heap (ob_side_of ob (or_buy x))) p)) = standing H (or_buy x) (or_price x))"
proof -
  let ?a = "length old"
  let ?M = "\<lambda>buy. without_zeros (filled (of_nat s) es (noted ?a rs) buy)"
  note rec = recovered_level[OF assms(5,6,10,11,7,13,12)]
  have small: "\<forall>c\<in>set rs. ch_price c < 2 ^ 32" using assms(5,6) by (simp add: sensible_def)
  obtain st1 bk1 where 1: "run_entries (apply_increment g None) msgs (joining_set g st bi bk) = Some (True, st1)"
    "joined g bi ?a rs st1 bk1" "similar (joining_set g st bi bk) st1"
    using apply_increments_note[OF assms(1) joining_set_joined[OF assms(1-4), of ?a], of msgs rs] assms(5,7,8) small by auto
  have "\<forall>c\<in>set (drop (length H - s) H). sensible c" using assms(6) by (meson in_set_dropD)
  then have es: "\<forall>e\<in>set es. fst (snd e) < 2 ^ 32" using assms(13) standing_sensible by fastforce
  have "snapshot_meaning st1 bi snp = Some (of_nat s, es)" using snapshot_meaning_similar[OF 1(3)] assms(9) by simp
  from apply_snapshot_fills[OF assms(1) 1(2) this assms(12) rec(1) es] obtain st2 bk2 where
    2: "apply_snapshot g (Some bi) snp st1 = Some (True, st2)" "get_book st2 bi = Some bk2" "book_has_flags bk2 FAST_BOOK_ACTIVE"
      "rptseq bk2 = rptseq bk1" "book_rep g (bk_ob bk2) (filled (of_nat s) es (noted ?a rs))" by blast
  obtain ob where ob: "drop_zeros g (bk_ob bk2) = Some (True, ob)" "book_rep g ob ?M"
    using drop_zeros_rep[OF assms(1) 2(5)] by blast
  have "rptseq bk2 = (if rs = [] then 0 else of_nat (length H))" using 1(2) 2(4) assms(5) by (simp add: joined_def add_ac)
  moreover have "listed_sizes (ob_side_of ob buy) = standing_sizes H buy" for buy
    by (rule listed_standing[OF book_rep_side[OF ob(2)] rec(2)])
  moreover have "(case ob_level_lookup g ob x of None \<Rightarrow> None
      | Some p \<Rightarrow> map_option lv_size (level_at (ob_heap (ob_side_of ob (or_buy x))) p)) = standing H (or_buy x) (or_price x)" for x
  proof -
    have "(case ob_level_lookup g ob x of None \<Rightarrow> None | Some p \<Rightarrow> map_option lv_size (level_at (ob_heap (ob_side_of ob (or_buy x))) p)) =
        map_option lv_size (level_in (?M (or_buy x)) (or_price x))"
      unfolding ob_level_lookup_rep[OF ob(2), symmetric] by (simp split: option.split)
    also have "\<dots> = map_option snd (?M (or_buy x) (or_price x))"
      by (auto simp: level_in_def option.map_comp intro!: option.map_cong)
    finally show ?thesis unfolding rec(2) .
  qed
  ultimately show ?thesis using 1(1) 2(1-3) ob(1) by blast
qed

text \<open>A set with one book, two increments (a deletion that the snapshot has not seen and a new level), a snapshot.\<close>

definition sample_uint :: "string \<Rightarrow> u64 \<Rightarrow> seq_field" where
  "sample_uint nm v = zero_field\<lparr>f_name := nm, f_type := FAST_TYPE_UINT, int_value := v, f_state := FAST_STATE_ASSIGNED\<rparr>"

definition sample_entry :: "u64 option \<Rightarrow> u8 \<Rightarrow> i64 \<Rightarrow> i64 \<Rightarrow> u64 \<Rightarrow> u64 \<Rightarrow> fast_field fast_message" where
  "sample_entry who ty price sz action num =
     (let fs = map fast_field.truncate
        ((case who of None \<Rightarrow> [] | Some k \<Rightarrow> [sample_uint ''SecurityID'' k]) @
         [sample_uint ''RptSeq'' num, sample_uint ''MDUpdateAction'' action,
          (sample_uint ''MDEntrySize'' sz)\<lparr>f_type := FAST_TYPE_INT\<rparr>,
          (sample_uint ''MDEntryType'' 0)\<lparr>f_type := FAST_TYPE_STRING, string_value := [ty, 0]\<rparr>,
          (sample_uint ''MDEntryPx'' 0)\<lparr>f_type := FAST_TYPE_DECIMAL, decimal_value := \<lparr>dec_exp = 0, dec_mnt = price\<rparr>\<rparr>])
      in \<lparr>nr_fields = of_nat (length fs), m_decoded = 0, m_fields = fs, m_name = [], m_flags = 0, m_tid = 0\<rparr>)"

definition sample_message :: "seq_field list \<Rightarrow> fast_field fast_message list \<Rightarrow> seq_field fast_message" where
  "sample_message fs es =
     (let sq = \<lparr>seq_pmap = \<lparr>is_valid = False, pmap_bit = 0, nr_bytes = 0, pmap_bytes = []\<rparr>, seq_decoded = 0,
            seq_length = zero_scalar\<lparr>int_value := of_nat (length es), f_state := FAST_STATE_ASSIGNED\<rparr>,
            seq_elements = es @ es @ es\<rparr>;
          fs = (sample_uint ''MDEntries'' 0)\<lparr>f_type := FAST_TYPE_SEQUENCE, ptr_value := Some sq\<rparr> # fs
      in \<lparr>nr_fields = of_nat (length fs), m_decoded = 0, m_fields = fs, m_name = [], m_flags = 0, m_tid = 0\<rparr>)"

definition sample_increments :: "seq_field fast_message list" where
  "sample_increments = [sample_message [] [sample_entry (Some 5) 48 100 0 2 2], sample_message [] [sample_entry (Some 5) 49 120 7 0 3]]"

definition sample_snapshot :: "seq_field fast_message" where
  "sample_snapshot = sample_message [sample_uint ''SecurityID'' 5, sample_uint ''RptSeq'' 1] [sample_entry None 48 100 4 0 0]"

definition sample_bookset :: "(keyed, compared) fast_book_set" where
  "sample_bookset = (let st = snd (fast_book_add list_glib
      \<lparr>inc_feeds = [], snp_feeds = [], books_mask = [0], books = [], inc_gap_mode = False, inc_msg_num = 0\<rparr>)
    in st\<lparr>books := map (\<lambda>bk. bk\<lparr>secid := 5\<rparr>) (books st)\<rparr>)"

definition sample_old :: "change list" where "sample_old = [Change True 100 (Some 4)]"
definition sample_new :: "change list" where "sample_new = [Change False 120 (Some 7), Change True 100 None]"

lemma sample_stream:
  "stream_meaning (joining_set list_glib sample_bookset 0 (hd (books sample_bookset))) 0 sample_increments =
    Some (numbered (length sample_old) sample_new)"
  by code_simp

lemma sample_snapshot_meaning:
  "snapshot_meaning (joining_set list_glib sample_bookset 0 (hd (books sample_bookset))) 0 sample_snapshot =
    Some (of_nat 1, [(True, 100, 4)])"
  by code_simp

lemma sample_set_book: "get_book sample_bookset 0 = Some (hd (books sample_bookset))" "bk_num (hd (books sample_bookset)) = 0"
  "books_mask sample_bookset = [0]"
  by (simp_all add: sample_bookset_def fast_book_add_def get_book_def FAST_BOOK_NUM_def Let_def)

lemma sample_standing:
  "(buy, price, z) \<in> set [(True, 100, 4)] \<longleftrightarrow> standing (drop 2 (sample_new @ sample_old)) buy price = Some z"
  by (auto simp: sample_new_def sample_old_def)

lemma sample_standing_sizes:
  "standing_sizes (sample_new @ sample_old) True = []" "standing_sizes (sample_new @ sample_old) False = [Some (120, 7)]"
proof -
  have "{p. standing (sample_new @ sample_old) True p \<noteq> None} = {}"
    and "{p. standing (sample_new @ sample_old) False p \<noteq> None} = {120}" by (auto simp: sample_new_def sample_old_def)
  then show "standing_sizes (sample_new @ sample_old) True = []"
    and "standing_sizes (sample_new @ sample_old) False = [Some (120, 7)]"
    unfolding standing_sizes_def by (simp_all add: sample_new_def sample_old_def)
qed

theorem snapshot_join_witness:
  "\<exists>st1 st2 bk2 ob.
     run_entries (apply_increment list_glib None) sample_increments
       (joining_set list_glib sample_bookset 0 (hd (books sample_bookset))) = Some (True, st1)
   \<and> apply_snapshot list_glib (Some 0) sample_snapshot st1 = Some (True, st2) \<and> get_book st2 0 = Some bk2
   \<and> book_has_flags bk2 FAST_BOOK_ACTIVE \<and> rptseq bk2 = 3 \<and> drop_zeros list_glib (bk_ob bk2) = Some (True, ob)
   \<and> listed_sizes (ob_side_of ob True) = [] \<and> listed_sizes (ob_side_of ob False) = [Some (120, 7)]"
proof -
  let ?H = "sample_new @ sample_old" and ?bk = "hd (books sample_bookset)"
  have p: "0 \<le> sint (bk_num ?bk)" "sint (bk_num ?bk) div 64 < int (length (books_mask sample_bookset))"
    by (simp_all add: sample_set_book)
  have h: "\<forall>c\<in>set ?H. sensible c" "length ?H < 2 ^ 64" "length sample_old \<le> 1" "1 \<le> length ?H"
    by (simp_all add: sample_new_def sample_old_def sensible_def)
  have s: "(buy, price, z) \<in> set [(True, 100, 4)] \<longleftrightarrow> standing (drop (length ?H - 1) ?H) buy price = Some z" for buy price z
    using sample_standing[of buy price z] by (simp add: sample_new_def sample_old_def)
  have "distinct (map level_key [(True, 100, 4)])" by simp
  from snapshot_join[OF list_glib_laws sample_set_book(1) p refl h(1,2) sample_stream sample_snapshot_meaning h(3,4) this s]
  obtain st1 st2 bk2 ob where
    "run_entries (apply_increment list_glib None) sample_increments (joining_set list_glib sample_bookset 0 ?bk) = Some (True, st1)"
    "apply_snapshot list_glib (Some 0) sample_snapshot st1 = Some (True, st2)" "get_book st2 0 = Some bk2"
    "book_has_flags bk2 FAST_BOOK_ACTIVE" "rptseq bk2 = (if sample_new = [] then 0 else of_nat (length ?H))"
    "drop_zeros list_glib (bk_ob bk2) = Some (True, ob)"
    "\<forall>buy. listed_sizes (ob_side_of ob buy) = standing_sizes ?H buy" by blast
  moreover have "(if sample_new = [] then 0 else of_nat (length ?H) :: u64) = 3" by (simp add: sample_new_def sample_old_def)
  ultimately show ?thesis using sample_standing_sizes by metis
qed

end
