(* ===== verification/Fast_Update.thy ===== *)
theory Fast_Update
  imports Fast_Book
begin

text \<open>
  Properties of the parts of lib/proto/fast_book.c that bring the increments in: the alignment of a price to the
  tick of its book, and the order in which the messages of several feeds are handed out.
\<close>

subsection \<open>Prices\<close>

definition fits :: "int \<Rightarrow> bool" where
  "fits v \<longleftrightarrow> - (2 ^ 63) \<le> v \<and> v < 2 ^ 63"

lemma sint_of_fits: "fits v \<Longrightarrow> sint (of_int v :: i64) = v"
  by (simp add: fits_def signed_of_int signed_take_bit_int_eq_self)

lemma fits_factor: "fits (v * 10 ^ n) \<Longrightarrow> fits v"
proof (induction n)
  case (Suc n)
  have "fits (v * 10 ^ n)" using Suc.prems by (auto simp: fits_def)
  then show ?case by (rule Suc.IH)
qed simp

lemma sint_mul_10: "fits (sint x * 10 ^ n) \<Longrightarrow> sint (mul_10 n x) = sint x * 10 ^ n"
proof (induction n arbitrary: x)
  case (Suc n)
  have "fits (sint x * 10)" using fits_factor[of "sint x * 10" n] Suc.prems by (simp add: mult_ac)
  then have "sint (x * 10) = sint x * 10"
    using sint_of_fits[of "sint x * 10"] by simp
  then show ?case using Suc by (simp add: mult_ac)
qed simp

lemma div_10_exact:
  "div_10 n x = (if 10 ^ n dvd sint x then Some (of_int (sint x div 10 ^ n)) else None)"
proof (induction n arbitrary: x)
  case (Suc n)
  show ?case
  proof (cases "sint x mod 10 = 0")
    case False
    then have "\<not> 10 ^ Suc n dvd sint x" by (metis dvd_mult_left mod_0_imp_dvd dvd_imp_mod_0 power_Suc)
    then show ?thesis using False by simp
  next
    case True
    then obtain q where q: "sint x = 10 * q" by auto
    have "fits (sint x div 10)" using sint_greater_eq[of x] sint_less[of x] by (simp add: fits_def q)
    then have "sint (of_int (sint x div 10) :: i64) = q" using sint_of_fits q by simp
    then show ?thesis using True Suc.IH[of "of_int (sint x div 10)"] by (simp add: q)
  qed
qed simp

text \<open>C12: Aligning a price to the tick keeps its value.  If the mantissa does not overflow, the result has the
  exponent of the tick and stands for the same number as the price did, and the alignment is refused exactly when
  the price is not a multiple of the tick's power of ten.\<close>

theorem price_align_exact:
  fixes price tick :: fast_decimal
  assumes "fits (sint (dec_mnt price) * 10 ^ nat (sint (dec_exp price) - sint (dec_exp tick)))"
  shows "case price_align price tick of
      Some q \<Rightarrow> dec_exp q = dec_exp tick
        \<and> sint (dec_mnt q) * 10 ^ nat (sint (dec_exp tick) - sint (dec_exp price)) =
          sint (dec_mnt price) * 10 ^ nat (sint (dec_exp price) - sint (dec_exp tick))
    | None \<Rightarrow> sint (dec_exp price) < sint (dec_exp tick)
        \<and> \<not> 10 ^ nat (sint (dec_exp tick) - sint (dec_exp price)) dvd sint (dec_mnt price)"
proof (cases "sint (dec_exp price) > sint (dec_exp tick)")
  case True
  then show ?thesis using sint_mul_10[OF assms] by (simp add: price_align_def Let_def)
next
  case False
  let ?n = "nat (sint (dec_exp tick) - sint (dec_exp price))"
  have "sint (dec_mnt price) div 10 ^ ?n * 10 ^ ?n = sint (dec_mnt price)" if "10 ^ ?n dvd sint (dec_mnt price)"
    using that by simp
  moreover have "fits (sint (dec_mnt price) div 10 ^ ?n)" if "10 ^ ?n dvd sint (dec_mnt price)"
  proof (rule fits_factor[of _ ?n])
    show "fits (sint (dec_mnt price) div 10 ^ ?n * 10 ^ ?n)"
      using that sint_greater_eq[of "dec_mnt price"] sint_less[of "dec_mnt price"] by (simp add: fits_def)
  qed
  moreover have "sint (dec_exp price) < sint (dec_exp tick)" if "\<not> 10 ^ ?n dvd sint (dec_mnt price)"
    using that False by (cases "?n") auto
  ultimately show ?thesis
    using False by (auto simp: price_align_def Let_def div_10_exact sint_of_fits)
qed

theorem price_align_exact_witness:
  "price_align \<lparr>dec_exp = - 1, dec_mnt = 1250\<rparr> \<lparr>dec_exp = 1, dec_mnt = 1\<rparr> = None
   \<and> (case price_align \<lparr>dec_exp = 2, dec_mnt = 15\<rparr> \<lparr>dec_exp = - 1, dec_mnt = 1\<rparr> of
        Some q \<Rightarrow> dec_exp q = - 1 \<and> sint (dec_mnt q) = 15000 | None \<Rightarrow> False)"
proof -
  have "fits (sint (dec_mnt \<lparr>dec_exp = 2, dec_mnt = 15\<rparr>) *
      10 ^ nat (sint (dec_exp \<lparr>dec_exp = 2, dec_mnt = 15\<rparr>) - sint (dec_exp \<lparr>dec_exp = - 1, dec_mnt = 1\<rparr>)))"
    by (simp add: fits_def)
  from price_align_exact[OF this] show ?thesis
    by (auto simp: price_align_def Let_def numeral_eq_Suc split: option.split_asm)
qed

subsection \<open>Increments from several feeds\<close>

definition msg_number :: "seq_field fast_message \<Rightarrow> u64 option" where
  "msg_number msg = do { f \<leftarrow> value_field msg ''MsgSeqNum''; field_uint f }"

text \<open>Calls of \<open>next_increment\<close> that all succeed, and the messages they hand out.\<close>

fun hand_out ::
    "'k feed_sys \<Rightarrow> nat \<Rightarrow> ('h, 't) fast_book_set \<Rightarrow> 'k \<Rightarrow> (seq_field fast_message list \<times> ('h, 't) fast_book_set \<times> 'k) option"
    where
  "hand_out c 0 st k = Some ([], st, k)"
| "hand_out c (Suc n) st k = do {
     (ok, m, st, k) \<leftarrow> next_increment c st k;
     (if \<not> ok then None
      else do {
        (ms, st, k) \<leftarrow> hand_out c n st k;
        Some ((case m of None \<Rightarrow> [] | Some msg \<Rightarrow> [msg]) @ ms, st, k) }) }"

text \<open>A step that may take the next number, and hands out a message only with it.\<close>

definition takes_next :: "u64 \<Rightarrow> seq_field fast_message option \<Rightarrow> u64 \<Rightarrow> bool" where
  "takes_next num m num' \<longleftrightarrow> (case m of None \<Rightarrow> num' = num \<or> num' = num + 1 | Some msg \<Rightarrow> num' = num + 1 \<and> msg_number msg = Some num')"

lemma increment_message_same: "increment_message msg = Some (ok, m) \<Longrightarrow> m = None \<or> m = Some msg"
  by (auto simp: increment_message_def bind_eq_Some_conv split: option.split_asm if_split_asm)

lemma take_increment_next:
  assumes "take_increment st fi msg = Some (ok, m, st')" and "inc_msg_num st \<noteq> 0"
  shows "takes_next (inc_msg_num st) m (inc_msg_num st') \<and> length (inc_feeds st') = length (inc_feeds st)"
proof (cases "value_field msg ''MsgSeqNum''")
  case None
  then show ?thesis using assms by (auto simp: take_increment_def takes_next_def)
next
  case (Some f)
  then obtain num where num: "field_uint f = Some num" using assms(1) by (auto simp: take_increment_def bind_eq_Some_conv)
  show ?thesis
  proof (cases "inc_msg_num st + 1 = num")
    case True
    then obtain ok' where "increment_message msg = Some (ok', m)"
      using assms Some num by (auto simp: take_increment_def bind_eq_Some_conv)
    with increment_message_same[OF this] True show ?thesis
      using assms Some num by (auto simp: take_increment_def takes_next_def msg_number_def Let_def)
  next
    case False
    then show ?thesis using assms Some num by (auto simp: take_increment_def takes_next_def Let_def)
  qed
qed

lemma recv_increment_next:
  assumes "recv_increment c st fi k = Some (ok, m, st', k')" and "inc_msg_num st \<noteq> 0"
  shows "takes_next (inc_msg_num st) m (inc_msg_num st') \<and> length (inc_feeds st') = length (inc_feeds st)"
proof -
  from assms(1) obtain feed where feed: "mem_get (inc_feeds st) (int fi) = Some feed"
    by (auto simp: recv_increment_def bind_eq_Some_conv)
  show ?thesis
  proof (cases "inc_msg_num st < recv_num feed")
    case True
    then show ?thesis using assms(1) feed by (auto simp: recv_increment_def takes_next_def)
  next
    case False
    with assms(1) feed obtain r feed1 k1 where r: "fast_feed_recv c feed k = Some (r, feed1, k1)"
      by (auto simp: recv_increment_def bind_eq_Some_conv)
    show ?thesis
    proof (cases r)
      case None
      then show ?thesis using assms(1) feed False r by (auto simp: recv_increment_def takes_next_def)
    next
      case (Some msg)
      let ?st = "st\<lparr>inc_feeds := (inc_feeds st)[fi := feed1]\<rparr>"
      show ?thesis
      proof (cases "fast_msg_has_flags msg FAST_MSG_FLAGS_RESET = 0")
        case True
        then have "take_increment ?st fi msg = Some (ok, m, st')"
          using assms(1) feed False r Some by (auto simp: recv_increment_def bind_eq_Some_conv)
        from take_increment_next[OF this] assms(2) show ?thesis by simp
      qed (use assms(1) feed False r Some in \<open>auto simp: recv_increment_def takes_next_def bind_eq_Some_conv\<close>)
    qed
  qed
qed

text \<open>The numbers that a loop over feeds moves through: at most one for each feed.\<close>

lemma next_loop_next:
  "next_loop (recv_increment c) fi n nxt st k = Some (ok, m, st', k') \<Longrightarrow> inc_msg_num st \<noteq> 0
    \<Longrightarrow> unat (inc_msg_num st) + n < 2 ^ 64
    \<Longrightarrow> inc_msg_num st \<le> inc_msg_num st' \<and> unat (inc_msg_num st') \<le> unat (inc_msg_num st) + n
      \<and> length (inc_feeds st') = length (inc_feeds st)
      \<and> (m = nxt \<or> nxt = None \<and> (\<exists>msg x. m = Some msg \<and> msg_number msg = Some x \<and> inc_msg_num st < x \<and> x \<le> inc_msg_num st'))"
proof (induction n arbitrary: fi nxt st k)
  case (Suc n)
  from Suc.prems(1) obtain ok1 m1 st1 k1 where 1: "recv_increment c st fi k = Some (ok1, m1, st1, k1)"
    by (auto simp: bind_eq_Some_conv)
  note t = recv_increment_next[OF 1 Suc.prems(2)]
  have succ: "unat (inc_msg_num st + 1) = unat (inc_msg_num st) + 1" using Suc.prems(3) by (subst unat_add_le) simp_all
  have num: "inc_msg_num st \<le> inc_msg_num st1" "unat (inc_msg_num st1) \<le> unat (inc_msg_num st) + 1"
    and msg: "\<And>msg. m1 = Some msg \<Longrightarrow> msg_number msg = Some (inc_msg_num st1) \<and> inc_msg_num st < inc_msg_num st1"
    using t succ by (auto simp: takes_next_def word_le_nat_alt word_less_nat_alt split: option.split_asm)
  show ?case
  proof (cases ok1)
    case False
    then show ?thesis using Suc.prems(1) 1 num t by auto
  next
    case True
    let ?nxt = "if m1 = None \<or> nxt \<noteq> None then nxt else m1"
    have "inc_msg_num st1 \<noteq> 0" using num(1) Suc.prems(2) by (metis word_le_0_iff)
    moreover have "unat (inc_msg_num st1) + n < 2 ^ 64" using num(2) Suc.prems(3) by simp
    moreover have "next_loop (recv_increment c) (fi + 1) n ?nxt st1 k1 = Some (ok, m, st', k')"
      using Suc.prems(1) 1 True by simp
    ultimately have ih: "inc_msg_num st1 \<le> inc_msg_num st'" "unat (inc_msg_num st') \<le> unat (inc_msg_num st1) + n"
      "length (inc_feeds st') = length (inc_feeds st1)"
      "m = ?nxt \<or> ?nxt = None \<and> (\<exists>msg x. m = Some msg \<and> msg_number msg = Some x \<and> inc_msg_num st1 < x \<and> x \<le> inc_msg_num st')"
      using Suc.IH by blast+
    have "m = nxt \<or> nxt = None \<and> (\<exists>msg x. m = Some msg \<and> msg_number msg = Some x \<and> inc_msg_num st < x \<and> x \<le> inc_msg_num st')"
    proof (cases "nxt = None \<and> m1 \<noteq> None")
      case True
      then obtain msg where "m1 = Some msg" by auto
      then show ?thesis using msg[of msg] ih(1,4) True by auto
    next
      case False
      then have "?nxt = nxt" by auto
      then show ?thesis using ih(4) num(1) by (auto dest: le_less_trans)
    qed
    then show ?thesis using num ih(1-3) t by auto
  qed
qed auto

lemma next_increment_next:
  assumes "next_increment c st k = Some (ok, m, st', k')" and "inc_msg_num st \<noteq> 0"
    and "unat (inc_msg_num st) + length (inc_feeds st) < 2 ^ 64"
  shows "inc_msg_num st \<le> inc_msg_num st'" "unat (inc_msg_num st') \<le> unat (inc_msg_num st) + length (inc_feeds st)"
    "length (inc_feeds st') = length (inc_feeds st)"
    "\<And>msg. m = Some msg \<Longrightarrow> \<exists>x. msg_number msg = Some x \<and> inc_msg_num st < x \<and> x \<le> inc_msg_num st'"
proof -
  from assms(1) obtain ok1 where "next_loop (recv_increment c) 0 (length (inc_feeds st)) None st k = Some (ok1, m, st', k')"
    by (auto simp: next_increment_def bind_eq_Some_conv Let_def split: if_split_asm)
  from next_loop_next[OF this assms(2,3)]
  show "inc_msg_num st \<le> inc_msg_num st'" "unat (inc_msg_num st') \<le> unat (inc_msg_num st) + length (inc_feeds st)"
    "length (inc_feeds st') = length (inc_feeds st)"
    "\<And>msg. m = Some msg \<Longrightarrow> \<exists>x. msg_number msg = Some x \<and> inc_msg_num st < x \<and> x \<le> inc_msg_num st'" by auto
qed

lemma hand_out_numbers:
  "hand_out c n st k = Some (ms, st', k') \<Longrightarrow> inc_msg_num st \<noteq> 0 \<Longrightarrow> unat (inc_msg_num st) + n * length (inc_feeds st) < 2 ^ 64
    \<Longrightarrow> \<exists>ns. map msg_number ms = map Some ns \<and> sorted_wrt (<) ns \<and> inc_msg_num st \<le> inc_msg_num st'
      \<and> (\<forall>x\<in>set ns. inc_msg_num st < x \<and> x \<le> inc_msg_num st')"
proof (induction n arbitrary: st k ms)
  case (Suc n)
  from Suc.prems(1) obtain m st1 k1 ms1 where 1: "next_increment c st k = Some (True, m, st1, k1)"
    "hand_out c n st1 k1 = Some (ms1, st', k')" "ms = (case m of None \<Rightarrow> [] | Some msg \<Rightarrow> [msg]) @ ms1"
    by (auto simp: bind_eq_Some_conv split: if_split_asm)
  have b: "unat (inc_msg_num st) + length (inc_feeds st) < 2 ^ 64" using Suc.prems(3) by simp
  note s = next_increment_next[OF 1(1) Suc.prems(2) b]
  have "inc_msg_num st1 \<noteq> 0" using s(1) Suc.prems(2) by (metis word_le_0_iff)
  moreover have "unat (inc_msg_num st1) + n * length (inc_feeds st1) < 2 ^ 64" using s(2,3) Suc.prems(3) by simp
  ultimately obtain ns where ns: "map msg_number ms1 = map Some ns" "sorted_wrt (<) ns" "inc_msg_num st1 \<le> inc_msg_num st'"
    "\<forall>x\<in>set ns. inc_msg_num st1 < x \<and> x \<le> inc_msg_num st'" using Suc.IH[OF 1(2)] by blast
  show ?case
  proof (cases m)
    case None
    then show ?thesis using 1(3) ns s(1) by (intro exI[where x = ns]) (auto dest: le_less_trans)
  next
    case (Some msg)
    then obtain x where x: "msg_number msg = Some x" "inc_msg_num st < x" "x \<le> inc_msg_num st1" using s(4) by blast
    then show ?thesis using 1(3) ns s(1) Some by (intro exI[where x = "x # ns"]) (auto dest: le_less_trans)
  qed
qed auto

text \<open>C11: However many feeds carry the increments, and whatever each of them loses, repeats or delays, a message is
  handed out at most once and never out of order: as long as no call fails, the MsgSeqNums of the messages that the
  calls hand out rise strictly, start above the number that the set has reached and end at most at the one it
  reaches.  (The run starts after a first message has set that number: at 0, as it is after the initialisation and after a recovery, the next
  message is taken whatever its number is.  The numbers do not wrap: each call moves on by at most one for each feed.)\<close>

theorem increments_in_order:
  assumes "hand_out c n st k = Some (ms, st', k')" and "inc_msg_num st \<noteq> 0"
    and "unat (inc_msg_num st) + n * length (inc_feeds st) < 2 ^ 64"
  shows "\<exists>ns. map msg_number ms = map Some ns \<and> sorted_wrt (<) ns \<and> inc_msg_num st \<le> inc_msg_num st'
    \<and> (\<forall>x\<in>set ns. inc_msg_num st < x \<and> x \<le> inc_msg_num st')"
  by (rule hand_out_numbers[OF assms])

text \<open>A feed whose buffer holds two increments, with the numbers 5 and 6.\<close>

definition sample_field :: "string \<Rightarrow> fast_type \<Rightarrow> nat \<Rightarrow> seq_field" where
  "sample_field nm ty n = zero_field\<lparr>f_name := nm, f_type := ty, f_presence := FAST_PRESENCE_MANDATORY,
     string_value := replicate n 0, string_reset := replicate n 0, string_previous := replicate n 0\<rparr>"

definition sample_rx :: "u8 list \<Rightarrow> fast_session" where
  "sample_rx bs =
     \<lparr>last_tid = 0, rx_buffer = \<lparr>b_start = 0, b_end = of_nat (length bs), capacity = of_nat (length bs), data = bs\<rparr>,
      tx_pmap_buffer = \<lparr>b_start = 0, b_end = 0, capacity = 0, data = []\<rparr>,
      tx_message_buffer = \<lparr>b_start = 0, b_end = 0, capacity = 0, data = []\<rparr>,
      nr_messages = 1, rx_message = None,
      rx_messages = [\<lparr>nr_fields = 2, m_decoded = 0,
        m_fields = [sample_field ''MsgSeqNum'' FAST_TYPE_UINT 0, sample_field ''MessageType'' FAST_TYPE_STRING 256],
        m_name = [], m_flags = 0, m_tid = 1\<rparr>],
      s_preamble = \<lparr>pre_is_valid = False, pre_nr_bytes = 0, pre_bytes = replicate 8 0\<rparr>,
      s_pmap = \<lparr>is_valid = False, pmap_bit = 0, nr_bytes = 0, pmap_bytes = replicate 8 0\<rparr>, s_reset = False\<rparr>"

definition sample_feed :: "u8 list \<Rightarrow> fast_feed" where
  "sample_feed bs = zero_feed\<lparr>feed_session := Session 3 (sample_rx bs), feed_active := True\<rparr>"

definition quiet_sys :: "unit feed_sys" where
  "quiet_sys = \<lparr>fk_call = (\<lambda>k _. (0, k)), fk_recv = (\<lambda>_ k _. (IoErr EAGAIN, k)), fk_stat = (\<lambda>_. True),
     fk_malloc = (\<lambda>_. None), fk_xml = (\<lambda>_. None), fk_inet_addr = (\<lambda>_. 0)\<rparr>"

definition sample_set :: "(unit, unit) fast_book_set" where
  "sample_set = \<lparr>inc_feeds = [sample_feed [192, 129, 133, 216, 192, 129, 134, 216]], snp_feeds = [], books_mask = [0],
     books = [], inc_gap_mode = False, inc_msg_num = 4\<rparr>"

lemma sample_hand_out:
  "map_option (\<lambda>(ms, st, k). (map msg_number ms, inc_msg_num st)) (hand_out quiet_sys 2 sample_set ()) = Some ([Some 5, Some 6], 6)"
  by code_simp

theorem increments_in_order_witness:
  "\<exists>ms st' k'. hand_out quiet_sys 2 sample_set () = Some (ms, st', k') \<and> length ms = 2
     \<and> (\<exists>ns. map msg_number ms = map Some ns \<and> sorted_wrt (<) ns \<and> 4 \<le> inc_msg_num st'
          \<and> (\<forall>x\<in>set ns. 4 < x \<and> x \<le> inc_msg_num st'))"
proof -
  obtain ms st' k' where r: "hand_out quiet_sys 2 sample_set () = Some (ms, st', k')" "map msg_number ms = [Some 5, Some 6]"
    using sample_hand_out by (auto simp: case_prod_beta)
  have n: "inc_msg_num sample_set = 4" "length (inc_feeds sample_set) = 1" by (simp_all add: sample_set_def)
  have "length ms = 2" using arg_cong[OF r(2), of length] by simp
  moreover have "inc_msg_num sample_set \<noteq> 0" "unat (inc_msg_num sample_set) + 2 * length (inc_feeds sample_set) < 2 ^ 64"
    by (simp_all add: n)
  ultimately show ?thesis using increments_in_order[OF r(1)] r(1) unfolding n by blast
qed

subsection \<open>What two feeds can lose\<close>

text \<open>When two feeds deliver two successive messages in the same call, the second is dropped and yet counted: the set
  has moved on behind its number, so that the other feed's copy is taken for a repetition.\<close>

lemma second_increment_dropped:
  assumes "inc_feeds st = [f0, f1]" and "inc_msg_num st = n" and "n \<noteq> 0" and "n + 1 \<noteq> 0"
    and "\<not> n < recv_num f0" and "\<not> n + 1 < recv_num f1" and "\<not> inc_gap_mode st"
    and "fast_feed_recv c f0 k = Some (Some m1, f0', k1)" and "fast_feed_recv c f1 k1 = Some (Some m2, f1', k2)"
    and "fast_msg_has_flags m1 FAST_MSG_FLAGS_RESET = 0" and "fast_msg_has_flags m2 FAST_MSG_FLAGS_RESET = 0"
    and "msg_number m1 = Some (n + 1)" and "msg_number m2 = Some (n + 2)"
    and "increment_message m1 = Some (True, Some m1)" and "increment_message m2 = Some (True, Some m2)"
  shows "\<exists>st'. next_increment c st k = Some (True, Some m1, st', k2) \<and> inc_msg_num st' = n + 2"
proof -
  obtain g1 g2 where g: "value_field m1 ''MsgSeqNum'' = Some g1" "field_uint g1 = Some (n + 1)"
    "value_field m2 ''MsgSeqNum'' = Some g2" "field_uint g2 = Some (n + 2)"
    using assms(12,13) by (auto simp: msg_number_def bind_eq_Some_conv)
  let ?st1 = "st\<lparr>inc_feeds := [f0'\<lparr>recv_num := n + 1\<rparr>, f1], inc_gap_mode := False, inc_msg_num := n + 1\<rparr>"
  let ?st2 = "st\<lparr>inc_feeds := [f0'\<lparr>recv_num := n + 1\<rparr>, f1'\<lparr>recv_num := n + 2\<rparr>], inc_gap_mode := False, inc_msg_num := n + 2\<rparr>"
  have 1: "recv_increment c st 0 k = Some (True, Some m1, ?st1, k1)"
    using assms(1-3,5,8,10,14) g(1,2) by (simp add: recv_increment_def mem_get_def take_increment_def Let_def)
  have "n + 1 + 1 = n + 2" by (simp add: add_ac)
  then have 2: "recv_increment c ?st1 (Suc 0) k1 = Some (True, Some m2, ?st2, k2)"
    using assms(4,6,9,11,15) g(3,4) by (simp add: recv_increment_def mem_get_def take_increment_def Let_def)
  have "next_loop (recv_increment c) 0 (Suc (Suc 0)) None st k = Some (True, Some m1, ?st2, k2)"
    by (simp add: 1 2)
  then show ?thesis using assms(1) by (intro exI[where x = ?st2]) (simp add: next_increment_def)
qed

text \<open>\<open>fast_books_join\<close> opens the first of the snapshot feeds and then receives from all of them: a second one has no
  session.\<close>

lemma second_snapshot_feed_faults:
  assumes "snp_feeds st = [f0, f1]" and "feed_session f1 = NullSession" and "fast_feed_recv c f0 k = Some (None, f0', k1)"
  shows "next_snapshot c st k = None"
  using assms by (simp add: next_snapshot_def recv_snapshot_def mem_get_def fast_feed_recv_def)

end
