(* ===== verification/Fix_Template.thy ===== *)
theory Fix_Template
  imports Fix_Print Fix_Session
begin

text \<open>
  Templates of FIX messages (lib/proto/fix_template.c, fix_template.h): a message is printed once, with room for
  the parts that change, and then only these are written again for each message that is sent.  A marker is an
  offset into \<open>tx_data\<close>, or \<open>None\<close> before it is set; the buffer \<open>buf\<close> has \<open>tx_data\<close> as its data.
\<close>

subsection \<open>The code\<close>

record fix_template =
  marker_body_length :: "ptr option"
  marker_msg_seq_num :: "ptr option"
  marker_sender_comp_id :: "ptr option"
  marker_sending_time :: "ptr option"
  marker_transact_time :: "ptr option"
  marker_const_start :: "ptr option"
  marker_const_end :: "ptr option"
  sender_comp_id_len :: ulong
  const_csum :: u8
  tm_buf :: buffer
  tm_nr_fields :: ulong
  tm_fields :: "fix_field list"
  csum_field :: fix_field
  tm_iov :: "ptr \<times> ulong"

record fix_template_cfg =
  tc_begin_string :: char_ptr
  tc_msg_type :: fix_msg_type
  tc_sender_comp_id :: char_ptr
  tc_target_comp_id :: char_ptr
  manage_transact_time :: bool
  nr_const_fields :: ulong
  const_fields :: "fix_field list"

definition FIX_TEMPLATE_BODY_LEN_ZPAD :: ulong where "FIX_TEMPLATE_BODY_LEN_ZPAD = 4"
definition FIX_TEMPLATE_MSG_SEQ_NUM_ZPAD :: ulong where "FIX_TEMPLATE_MSG_SEQ_NUM_ZPAD = 6"
definition FIX_MAX_TEMPLATE_BUFFER_SIZE :: ulong where "FIX_MAX_TEMPLATE_BUFFER_SIZE = 1024"
definition TransactTime :: i32 where "TransactTime = 60"

definition buffer_print_zpad :: "i64 \<Rightarrow> i32 \<Rightarrow> buffer \<Rightarrow> buffer option" where
  "buffer_print_zpad v zpad b = do {
     (m, n) \<leftarrow> modp_litoa10_zpad v zpad (data b) (buffer_end b);
     Some (b\<lparr>data := m, b_end := b_end b + n\<rparr>) }"

definition fix_field_unparse_zpad ::
    "(u64 \<Rightarrow> u8 list) \<Rightarrow> mem \<Rightarrow> fix_field \<Rightarrow> i32 \<Rightarrow> buffer \<Rightarrow> (ptr \<times> buffer) option" where
  "fix_field_unparse_zpad dtoa2 rx f zpad b = do {
     b \<leftarrow> buffer_print b (uitoa (ff_tag f));
     b \<leftarrow> buffer_put b 61;
     let marker = buffer_end b;
     b \<leftarrow> (if ff_type f = FIX_TYPE_INT
           then do { v \<leftarrow> int_of_value (ff_value f); buffer_print_zpad v zpad b }
           else unparse_value dtoa2 rx f b);
     b \<leftarrow> buffer_put b 1;
     Some (marker, b) }"

definition fix_template_new :: fix_template where
  "fix_template_new =
     \<lparr>marker_body_length = None, marker_msg_seq_num = None, marker_sender_comp_id = None, marker_sending_time = None,
      marker_transact_time = None, marker_const_start = None, marker_const_end = None,
      sender_comp_id_len = 0, const_csum = 0,
      tm_buf = \<lparr>b_start = 0, b_end = 0, capacity = FIX_MAX_TEMPLATE_BUFFER_SIZE, data = replicate 1024 0\<rparr>,
      tm_nr_fields = 0, tm_fields = replicate 48 (FIX_INT_FIELD 0 0),
      csum_field = FIX_CHECKSUM_FIELD CheckSum 0, tm_iov = (0, 0)\<rparr>"

definition time_pattern :: char_ptr where
  "time_pattern = Str (chars ''YYYYMMDD-HH:MM:SS.sss'' @ [0])"

definition fix_template_prepare ::
    "(u64 \<Rightarrow> u8 list) \<Rightarrow> mem \<Rightarrow> fix_template \<Rightarrow> fix_template_cfg \<Rightarrow> fix_template option" where
  "fix_template_prepare dtoa2 rx self cfg = do {
     b \<leftarrow> fix_field_unparse dtoa2 rx (FIX_STRING_FIELD BeginString (tc_begin_string cfg)) (tm_buf self);
     (m_len, b) \<leftarrow> fix_field_unparse_zpad dtoa2 rx (FIX_INT_FIELD BodyLength 0) (ucast FIX_TEMPLATE_BODY_LEN_ZPAD) b;
     ty \<leftarrow> fix_msg_types (tc_msg_type cfg);
     b \<leftarrow> fix_field_unparse dtoa2 rx (FIX_STRING_FIELD MsgType (Str (ty @ [0]))) b;
     (m_seq, b) \<leftarrow> fix_field_unparse_zpad dtoa2 rx (FIX_INT_FIELD MsgSeqNum 0) (ucast FIX_TEMPLATE_MSG_SEQ_NUM_ZPAD) b;
     (m_sender, b) \<leftarrow> fix_field_unparse_zpad dtoa2 rx (FIX_STRING_FIELD SenderCompID (tc_sender_comp_id cfg)) 0 b;
     cs \<leftarrow> deref rx (tc_sender_comp_id cfg);
     n \<leftarrow> c_strlen cs;
     (m_time, b) \<leftarrow> fix_field_unparse_zpad dtoa2 rx (FIX_STRING_FIELD SendingTime time_pattern) 0 b;
     b \<leftarrow> fix_field_unparse dtoa2 rx (FIX_STRING_FIELD TargetCompID (tc_target_comp_id cfg)) b;
     (m_transact, b) \<leftarrow> (if manage_transact_time cfg
        then do {
          (p, b) \<leftarrow> fix_field_unparse_zpad dtoa2 rx (FIX_STRING_FIELD TransactTime time_pattern) 0 b;
          Some (Some p, b) }
        else Some (marker_transact_time self, b));
     let c_start = buffer_end b;
     fs \<leftarrow> mem_load (const_fields cfg) 0 (unat (nr_const_fields cfg));
     b \<leftarrow> unparse_fields dtoa2 rx fs b;
     let c_end = buffer_end b;
     s1 \<leftarrow> buffer_sum_range (data b) c_start c_end;
     s2 \<leftarrow> buffer_sum_range (data b) 0 m_len;
     Some (self\<lparr>marker_body_length := Some m_len, marker_msg_seq_num := Some m_seq, marker_sender_comp_id := Some m_sender,
       marker_sending_time := Some m_time, marker_transact_time := m_transact, marker_const_start := Some c_start,
       marker_const_end := Some c_end, sender_comp_id_len := of_nat n, const_csum := s1 + s2, tm_buf := b\<rparr>) }"

definition fix_template_update_time :: "mem \<Rightarrow> fix_template \<Rightarrow> char_ptr \<Rightarrow> fix_template option" where
  "fix_template_update_time rx self now = do {
     cs \<leftarrow> deref rx now;
     s \<leftarrow> mem_load cs 0 21;
     p \<leftarrow> marker_sending_time self;
     d \<leftarrow> mem_store (data (tm_buf self)) p s;
     d \<leftarrow> (case marker_transact_time self of None \<Rightarrow> Some d | Some p \<Rightarrow> mem_store d p s);
     Some (self\<lparr>tm_buf := (tm_buf self)\<lparr>data := d\<rparr>\<rparr>) }"

text \<open>The sums are added as \<open>int\<close>s.\<close>

definition fix_template_unparse ::
    "(u64 \<Rightarrow> u8 list) \<Rightarrow> mem \<Rightarrow> fix_template \<Rightarrow> fix_session \<Rightarrow> fix_template option" where
  "fix_template_unparse dtoa2 rx self session = do {
     c_end \<leftarrow> marker_const_end self;
     let b = (tm_buf self)\<lparr>b_start := 0, b_end := of_int c_end\<rparr>;
     fs \<leftarrow> mem_load (tm_fields self) 0 (unat (tm_nr_fields self));
     b \<leftarrow> unparse_fields dtoa2 rx fs b;
     p \<leftarrow> marker_sender_comp_id self;
     s \<leftarrow> mem_load (s_sender_comp_id session) 0 (unat (sender_comp_id_len self));
     d \<leftarrow> mem_store (data b) p s;
     p \<leftarrow> marker_msg_seq_num self;
     (d, _) \<leftarrow> modp_litoa10_zpad (out_msg_seq_num session) (ucast FIX_TEMPLATE_MSG_SEQ_NUM_ZPAD) d p;
     m_len \<leftarrow> marker_body_length self;
     (d, _) \<leftarrow> modp_litoa10_zpad (b_end b - (of_int m_len + FIX_TEMPLATE_BODY_LEN_ZPAD + 1)) (ucast FIX_TEMPLATE_BODY_LEN_ZPAD) d m_len;
     c_start \<leftarrow> marker_const_start self;
     s1 \<leftarrow> buffer_sum_range d m_len c_start;
     s2 \<leftarrow> buffer_sum_range d c_end (buffer_end b);
     let f = FIX_CHECKSUM_FIELD CheckSum ((ucast s1 + ucast (const_csum self) + ucast s2) mod 256);
     b \<leftarrow> fix_field_unparse dtoa2 rx f (b\<lparr>data := d\<rparr>);
     Some (self\<lparr>tm_buf := b, csum_field := f, tm_iov := (0, b_end b)\<rparr>) }"

text \<open>\<open>io_sendmsg\<close> is the \<open>sendmsg\<close> of the kernel, applied to the bytes of the one vector.\<close>

definition fix_template_send :: "'k sys \<Rightarrow> fix_template \<Rightarrow> 'k \<Rightarrow> (i32 \<times> 'k) option" where
  "fix_template_send c self k = do {
     v \<leftarrow> mem_load (data (tm_buf self)) (fst (tm_iov self)) (unat (snd (tm_iov self)));
     (let (r, k) = k_sendmsg c k [v]; ret = (ucast r :: i32) in
      Some (if ret <s 0 then ret else ucast (iov_byte_length [of_nat (length v)] - scast ret :: ulong), k)) }"

subsection \<open>Printing into a template\<close>

lemma zpads: "ucast FIX_TEMPLATE_BODY_LEN_ZPAD = (4 :: i32)" "ucast FIX_TEMPLATE_MSG_SEQ_NUM_ZPAD = (6 :: i32)"
  "of_int k + FIX_TEMPLATE_BODY_LEN_ZPAD + 1 = of_int (k + 4 + 1)"
  by (simp_all add: FIX_TEMPLATE_BODY_LEN_ZPAD_def FIX_TEMPLATE_MSG_SEQ_NUM_ZPAD_def)

lemma length_zpad: "n < 10 ^ k \<Longrightarrow> 0 < k \<Longrightarrow> length (zpad_int (int n) (int k)) = k"
  using length_dec_digits_le[of n k] by (simp add: zpad_int_def Let_def)

lemma zpad_put:
  assumes wf: "buffer_wf b" and pos: "0 \<le> sint zpad" and room: "length (zpad_int (sint v) (sint zpad)) < buffer_room b"
  shows "(do { b \<leftarrow> buffer_print_zpad v zpad b; buffer_put b c }) = Some (buffer_extend b (zpad_int (sint v) (sint zpad) @ [c]))"
proof -
  let ?e = "unat (b_end b)" and ?t = "zpad_int (sint v) (sint zpad)"
  have len: "?e + length ?t < length (data b)" using wf room by (auto simp: buffer_wf_def buffer_room_def)
  then have p: "buffer_print_zpad v zpad b = Some (b\<lparr>data := splice (data b) ?e ?t, b_end := b_end b + of_nat (length ?t)\<rparr>)"
    using modp_litoa10_zpad_spec[of zpad ?e v "data b"] pos by (simp add: buffer_print_zpad_def buffer_end_def)
  have e: "unat (b_end b + of_nat (length ?t)) = ?e + length ?t" using unat_end_extend[OF wf, of ?t] room by simp
  have "mem_put (splice (data b) ?e ?t) (uint (b_end b + of_nat (length ?t))) c = Some (splice (data b) ?e (?t @ [c]))"
    unfolding uint_nat e using len by (subst mem_put_splice) (auto simp: splice_def)
  with p show ?thesis by (simp add: buffer_put_def buffer_extend_splice add.assoc)
qed

text \<open>Appending to what has been printed into an empty buffer.\<close>

definition empty_tx :: buffer where
  "empty_tx = \<lparr>b_start = 0, b_end = 0, capacity = 1024, data = replicate 1024 0\<rparr>"

definition printed :: "u8 list \<Rightarrow> buffer" where
  "printed xs = buffer_extend empty_tx xs"

lemma empty_tx_wf: "buffer_wf empty_tx" "buffer_room empty_tx = 1024"
  by (simp_all add: empty_tx_def buffer_wf_def buffer_room_def)

lemma printed_wf: "length xs \<le> 1024 \<Longrightarrow> buffer_wf (printed xs)"
  by (simp add: printed_def extend_wf empty_tx_wf)

lemma printed_room: "length xs \<le> 1024 \<Longrightarrow> buffer_room (printed xs) = 1024 - length xs"
  by (simp add: printed_def extend_room empty_tx_wf)

lemma printed_extend: "length xs + length ys \<le> 1024 \<Longrightarrow> buffer_extend (printed xs) ys = printed (xs @ ys)"
  by (simp add: printed_def extend_extend empty_tx_wf)

lemma printed_end: "length xs \<le> 1024 \<Longrightarrow> buffer_end (printed xs) = int (length xs)"
  unfolding printed_def buffer_end_def buffer_extend_frame uint_nat
  using unat_end_extend[OF empty_tx_wf(1), of xs] empty_tx_wf(2) by (simp add: empty_tx_def)

lemma printed_data: "length xs \<le> 1024 \<Longrightarrow> data (printed xs) = xs @ replicate (1024 - length xs) 0"
  by (simp add: printed_def buffer_extend_def empty_tx_def)

lemma print_field:
  assumes "field_text dtoa2 rx f = Some t" and "length xs + length t \<le> 1024"
  shows "fix_field_unparse dtoa2 rx f (printed xs) = Some (printed (xs @ t))"
proof -
  have "fix_field_unparse dtoa2 rx f (printed xs) = Some (buffer_extend (printed xs) t)"
    by (rule field_unparse_extend[OF printed_wf assms(1)]) (use assms(2) in \<open>simp_all add: printed_room\<close>)
  then show ?thesis using assms(2) by (simp add: printed_extend)
qed

lemma print_fields:
  assumes "fields_text dtoa2 rx fs = Some t" and "length xs + length t \<le> 1024"
  shows "unparse_fields dtoa2 rx fs (printed xs) = Some (printed (xs @ t))"
proof -
  have "unparse_fields dtoa2 rx fs (printed xs) = Some (buffer_extend (printed xs) t)"
    by (rule fields_unparse_extend[OF printed_wf assms(1)]) (use assms(2) in \<open>simp_all add: printed_room\<close>)
  then show ?thesis using assms(2) by (simp add: printed_extend)
qed

text \<open>The text of a value that is printed with a marker.\<close>

definition marked_text :: "(u64 \<Rightarrow> u8 list) \<Rightarrow> mem \<Rightarrow> fix_field \<Rightarrow> i32 \<Rightarrow> u8 list option" where
  "marked_text dtoa2 rx f zpad =
     (if ff_type f = FIX_TYPE_INT then map_option (\<lambda>v. zpad_int (sint v) (sint zpad)) (int_of_value (ff_value f))
      else value_text dtoa2 rx f)"

lemma print_marked:
  assumes v: "marked_text dtoa2 rx f zpad = Some v" and pos: "0 \<le> sint zpad"
    and fits: "length xs + (length (dec_digits (unat (ff_tag f))) + length v + 2) \<le> 1024"
  shows "fix_field_unparse_zpad dtoa2 rx f zpad (printed xs) =
    Some (int (length xs + length (dec_digits (unat (ff_tag f))) + 1), printed (xs @ dec_digits (unat (ff_tag f)) @ [61] @ v @ [1]))"
proof -
  let ?d = "dec_digits (unat (ff_tag f))"
  have "(do { b \<leftarrow> buffer_print (printed xs) (uitoa (ff_tag f)); buffer_put b 61 }) = Some (buffer_extend (printed xs) (?d @ [61]))"
    by (rule tag_put[OF printed_wf]) (use fits in \<open>simp_all add: printed_room\<close>)
  then have 1: "(do { b \<leftarrow> buffer_print (printed xs) (uitoa (ff_tag f)); buffer_put b 61 }) = Some (printed (xs @ ?d @ [61]))"
    using fits by (simp add: printed_extend)
  let ?p = "printed (xs @ ?d @ [61])"
  have wf: "buffer_wf ?p" "buffer_room ?p = 1024 - length (xs @ ?d @ [61])"
    using fits by (simp_all add: printed_wf printed_room)
  have "(do { b \<leftarrow> (if ff_type f = FIX_TYPE_INT then do { v \<leftarrow> int_of_value (ff_value f); buffer_print_zpad v zpad ?p }
      else unparse_value dtoa2 rx f ?p); buffer_put b 1 }) = Some (buffer_extend ?p (v @ [1]))"
  proof (cases "ff_type f = FIX_TYPE_INT")
    case True
    then obtain w where "int_of_value (ff_value f) = Some w" "v = zpad_int (sint w) (sint zpad)" using v by (auto simp: marked_text_def)
    then show ?thesis using True zpad_put[OF wf(1) pos] wf(2) fits by simp
  next
    case False
    then show ?thesis using unparse_value_put[OF wf(1), of dtoa2 rx f v 1] v wf(2) fits by (simp add: marked_text_def)
  qed
  moreover have "buffer_extend ?p (v @ [1]) = printed (xs @ ?d @ [61] @ v @ [1])" using fits by (subst printed_extend) simp_all
  moreover have "buffer_end ?p = int (length xs + length ?d + 1)" using fits by (subst printed_end) simp_all
  moreover obtain b1 where "buffer_print (printed xs) (uitoa (ff_tag f)) = Some b1" "buffer_put b1 61 = Some ?p"
    using 1 by (auto simp: bind_eq_Some_conv)
  ultimately show ?thesis unfolding fix_field_unparse_zpad_def by (cases "ff_type f = FIX_TYPE_INT") (auto simp: bind_eq_Some_conv)
qed

subsection \<open>What a template holds\<close>

text \<open>The parts of a template that stay as they are: \<open>8=\<dots>|9=\<close>, then from the length of the body to the
  sequence number, the sender, the time and the transaction time, if any, and the constant fields.\<close>

record layout =
  l_head :: "u8 list"
  l_type :: "u8 list"
  l_to_sender :: "u8 list"
  l_to_time :: "u8 list"
  l_target :: "u8 list"
  l_stamp :: bool
  l_const :: "u8 list"

definition stamp_tag :: "bool \<Rightarrow> u8 list" where "stamp_tag tr = (if tr then [54, 48, 61] else [])"
definition stamp_end :: "bool \<Rightarrow> u8 list" where "stamp_end tr = (if tr then [1] else [])"
definition stamp :: "bool \<Rightarrow> u8 list \<Rightarrow> u8 list" where "stamp tr now = (if tr then now else [])"

definition template_text :: "layout \<Rightarrow> u8 list \<Rightarrow> u8 list \<Rightarrow> u8 list \<Rightarrow> u8 list \<Rightarrow> u8 list \<Rightarrow> u8 list" where
  "template_text l bl sq sd t1 t2 =
     l_head l @ bl @ l_type l @ sq @ l_to_sender l @ sd @ l_to_time l @ t1 @ l_target l @ stamp_tag (l_stamp l) @ t2 @
     stamp_end (l_stamp l) @ l_const l"

definition template_len :: "layout \<Rightarrow> nat \<Rightarrow> nat" where
  "template_len l n = length (l_head l @ l_type l @ l_to_sender l @ l_to_time l @ l_target l @ l_const l) + 31 + n +
     (if l_stamp l then 25 else 0)"

definition template_mem :: "layout \<Rightarrow> nat \<Rightarrow> u8 list \<Rightarrow> mem \<Rightarrow> bool" where
  "template_mem l n now m \<longleftrightarrow> (\<exists>bl sq sd junk. length bl = 4 \<and> length sq = 6 \<and> length sd = n \<and> length now = 21 \<and>
     m = template_text l bl sq sd now (stamp (l_stamp l) now) @ junk)"

definition template_ok :: "layout \<Rightarrow> nat \<Rightarrow> u8 list \<Rightarrow> fix_template \<Rightarrow> bool" where
  "template_ok l n now t \<longleftrightarrow> template_mem l n now (data (tm_buf t)) \<and> length (data (tm_buf t)) = 1024 \<and> capacity (tm_buf t) = 1024 \<and>
     marker_body_length t = Some (int (length (l_head l))) \<and>
     marker_msg_seq_num t = Some (int (length (l_head l @ l_type l) + 4)) \<and>
     marker_sender_comp_id t = Some (int (length (l_head l @ l_type l @ l_to_sender l) + 10)) \<and>
     marker_sending_time t = Some (int (length (l_head l @ l_type l @ l_to_sender l @ l_to_time l) + 10 + n)) \<and>
     marker_transact_time t = (if l_stamp l
       then Some (int (length (l_head l @ l_type l @ l_to_sender l @ l_to_time l @ l_target l) + 34 + n)) else None) \<and>
     marker_const_start t = Some (int (length (l_head l @ l_type l @ l_to_sender l @ l_to_time l @ l_target l) + 31 + n +
       (if l_stamp l then 25 else 0))) \<and>
     marker_const_end t = Some (int (template_len l n)) \<and>
     sender_comp_id_len t = of_nat n \<and> n < 1024 \<and>
     const_csum t = sum_list (l_const l) + sum_list (l_head l)"

text \<open>Writing a part that is as long as the one before.\<close>

lemma store_part: "length ys = length zs \<Longrightarrow> k = int (length xs) \<Longrightarrow> mem_store (xs @ ys @ rest) k zs = Some (xs @ zs @ rest)"
  by (simp add: mem_store_Some)

lemma zpad_part:
  assumes "0 \<le> sint z" and "length (zpad_int (sint v) (sint z)) = length ys" and "k = int (length xs)"
  shows "\<exists>n. modp_litoa10_zpad v z (xs @ ys @ rest) k = Some (xs @ zpad_int (sint v) (sint z) @ rest, n)"
  using assms modp_litoa10_zpad_spec[of z "length xs" v "xs @ ys @ rest"] by (simp add: splice_def)

lemma template_text_parts:
  "template_text l bl sq sd t1 t2 @ r = l_head l @ bl @ l_type l @ sq @ l_to_sender l @ sd @ l_to_time l @ t1 @
     (l_target l @ stamp_tag (l_stamp l) @ t2 @ stamp_end (l_stamp l) @ l_const l @ r)"
  by (simp add: template_text_def)

lemma put_time:
  "length now = length t1 \<Longrightarrow> k = int (length (l_head l @ bl @ l_type l @ sq @ l_to_sender l @ sd @ l_to_time l)) \<Longrightarrow>
     mem_store (template_text l bl sq sd t1 t2 @ r) k now = Some (template_text l bl sq sd now t2 @ r)"
  using store_part[of t1 now k "l_head l @ bl @ l_type l @ sq @ l_to_sender l @ sd @ l_to_time l"]
  by (simp add: template_text_def)

lemma put_stamp:
  "length now = length t2 \<Longrightarrow>
   k = int (length (l_head l @ bl @ l_type l @ sq @ l_to_sender l @ sd @ l_to_time l @ t1 @ l_target l @ stamp_tag (l_stamp l))) \<Longrightarrow>
     mem_store (template_text l bl sq sd t1 t2 @ r) k now = Some (template_text l bl sq sd t1 now @ r)"
  using store_part[of t2 now k "l_head l @ bl @ l_type l @ sq @ l_to_sender l @ sd @ l_to_time l @ t1 @ l_target l @ stamp_tag (l_stamp l)"]
  by (simp add: template_text_def)

lemma put_sender:
  "length s = length sd \<Longrightarrow> k = int (length (l_head l @ bl @ l_type l @ sq @ l_to_sender l)) \<Longrightarrow>
     mem_store (template_text l bl sq sd t1 t2 @ r) k s = Some (template_text l bl sq s t1 t2 @ r)"
  using store_part[of sd s k "l_head l @ bl @ l_type l @ sq @ l_to_sender l"] by (simp add: template_text_def)

lemma put_seq:
  "0 \<le> sint z \<Longrightarrow> length (zpad_int (sint v) (sint z)) = length sq \<Longrightarrow> k = int (length (l_head l @ bl @ l_type l)) \<Longrightarrow>
     \<exists>n. modp_litoa10_zpad v z (template_text l bl sq sd t1 t2 @ r) k = Some (template_text l bl (zpad_int (sint v) (sint z)) sd t1 t2 @ r, n)"
  using zpad_part[of z v sq k "l_head l @ bl @ l_type l"] by (simp add: template_text_def)

lemma put_length:
  "0 \<le> sint z \<Longrightarrow> length (zpad_int (sint v) (sint z)) = length bl \<Longrightarrow> k = int (length (l_head l)) \<Longrightarrow>
     \<exists>n. modp_litoa10_zpad v z (template_text l bl sq sd t1 t2 @ r) k = Some (template_text l (zpad_int (sint v) (sint z)) sq sd t1 t2 @ r, n)"
  using zpad_part[of z v bl k "l_head l"] by (simp add: template_text_def)

text \<open>A new time is written into both places.\<close>

lemma update_time_ok:
  assumes ok: "template_ok l n old t" and now: "deref rx p = Some cs" "mem_load cs 0 21 = Some now"
  obtains t' where "fix_template_update_time rx t p = Some t'" "template_ok l n now t'" "tm_nr_fields t' = tm_nr_fields t" "tm_fields t' = tm_fields t"
proof -
  obtain bl sq sd junk where m: "length bl = 4" "length sq = 6" "length sd = n" "length old = 21"
      "data (tm_buf t) = template_text l bl sq sd old (stamp (l_stamp l) old) @ junk"
    using ok by (auto simp: template_ok_def template_mem_def)
  note mk = ok[unfolded template_ok_def]
  have n21: "length now = 21" by (rule mem_load_length[OF now(2)])
  let ?m1 = "template_text l bl sq sd now (stamp (l_stamp l) old) @ junk"
  let ?m2 = "template_text l bl sq sd now (stamp (l_stamp l) now) @ junk"
  have 1: "mem_store (data (tm_buf t)) (int (length (l_head l @ l_type l @ l_to_sender l @ l_to_time l) + 10 + n)) now = Some ?m1"
    unfolding m(5) by (rule put_time) (simp_all add: m n21)
  have 2: "mem_store ?m1 (int (length (l_head l @ l_type l @ l_to_sender l @ l_to_time l @ l_target l) + 34 + n)) now = Some ?m2"
    if "l_stamp l" by (subst put_stamp[where now = now]) (use that in \<open>simp_all add: m n21 stamp_def stamp_tag_def\<close>)
  have len: "length ?m2 = length (data (tm_buf t))" using m n21 by (simp add: template_text_def stamp_def)
  let ?t = "t\<lparr>tm_buf := (tm_buf t)\<lparr>data := ?m2\<rparr>\<rparr>"
  have "fix_template_update_time rx t p = Some ?t"
  proof (cases "l_stamp l")
    case True
    then show ?thesis using mk now 1 2 by (simp add: fix_template_update_time_def)
  next
    case False
    then have "?m1 = ?m2" by (simp add: stamp_def)
    then show ?thesis using mk now 1 False by (simp add: fix_template_update_time_def)
  qed
  moreover have "template_mem l n now ?m2" using m n21 by (auto simp: template_mem_def)
  then have "template_ok l n now ?t" using mk len by (simp add: template_ok_def)
  ultimately show thesis using that by simp
qed

lemma template_text_length:
  "length bl = 4 \<Longrightarrow> length sq = 6 \<Longrightarrow> length now = 21 \<Longrightarrow>
     length (template_text l bl sq sd now (stamp (l_stamp l) now)) = template_len l (length sd)"
  by (simp add: template_text_def template_len_def stamp_def stamp_tag_def stamp_end_def)

lemma extend_data: "data b = xs @ r \<Longrightarrow> unat (b_end b) = length xs \<Longrightarrow> data (buffer_extend b ys) = xs @ ys @ drop (length ys) r"
  by (simp add: buffer_extend_def)

lemma unat_sum3_mod: "unat ((ucast (a :: u8) + ucast (b :: u8) + ucast (c :: u8) :: i64) mod 256) = unat (a + b + c)"
proof -
  have "unat (ucast a + ucast b + ucast c :: i64) = unat a + unat b + unat c"
    using unat_less_power[of a] unat_less_power[of b] unat_less_power[of c]
    by (simp add: unat_word_ariths unsigned_ucast_eq take_bit_nat_eq_self)
  then show ?thesis by (simp add: unat_mod unat_word_ariths mod_simps)
qed

text \<open>The text of the message: what the template holds, with the length, the number and the sender of this message,
  and the fields of this message.\<close>

definition message_text :: "layout \<Rightarrow> i64 \<Rightarrow> u8 list \<Rightarrow> u8 list \<Rightarrow> u8 list \<Rightarrow> u8 list" where
  "message_text l seqno sd now dyn =
     template_text l (zpad_int (int (template_len l (length sd) + length dyn - (length (l_head l) + 5))) 4)
       (zpad_int (sint seqno) 6) sd now (stamp (l_stamp l) now) @ dyn"

lemma unparse_ok:
  assumes ok: "template_ok l n now t" and ty: "l_type l \<noteq> []"
    and fs: "mem_load (tm_fields t) 0 (unat (tm_nr_fields t)) = Some fs" "fields_text dtoa2 rx fs = Some dyn"
    and sd: "mem_load (s_sender_comp_id s) 0 n = Some sd" and sq: "0 \<le> sint (out_msg_seq_num s)" "sint (out_msg_seq_num s) < 10 ^ 6"
    and room: "template_len l n + length dyn + 7 \<le> 1024"
  defines "w \<equiv> message_text l (out_msg_seq_num s) sd now dyn"
  obtains t' where "fix_template_unparse dtoa2 rx t s = Some t'" "template_ok l n now t'"
    "mem_load (data (tm_buf t')) (fst (tm_iov t')) (unat (snd (tm_iov t'))) = Some (w @ trailer_text w)"
proof -
  obtain bl sq0 sd0 junk where m: "length bl = 4" "length sq0 = 6" "length sd0 = n" "length now = 21"
      "data (tm_buf t) = template_text l bl sq0 sd0 now (stamp (l_stamp l) now) @ junk"
    using ok by (auto simp: template_ok_def template_mem_def)
  note mk = ok[unfolded template_ok_def]
  let ?T = "\<lambda>bl sq sd. template_text l bl sq sd now (stamp (l_stamp l) now)" and ?E = "template_len l n"
  let ?junk = "drop (length dyn) junk" and ?v = "out_msg_seq_num s" and ?N = "?E + length dyn - (length (l_head l) + 5)"
  let ?BL = "zpad_int (int ?N) 4" and ?SQ = "zpad_int (sint ?v) 6"
  have sdn: "length sd = n" by (rule mem_load_length[OF sd])
  have E: "length (?T bl' sq' sd') = ?E" if "length bl' = 4" "length sq' = 6" "length sd' = n" for bl' sq' sd'
    using template_text_length[of bl' sq' now l sd'] m that by simp
  have lj: "length junk = 1024 - ?E" using mk m E[of bl sq0 sd0] by (elim conjE) simp
  have fit: "length (l_head l) + 5 \<le> ?E" using ty by (cases "l_type l") (simp_all add: template_len_def)
  have ends: "unat (of_nat ?E :: ulong) = ?E" using room by (simp add: unsigned_of_nat take_bit_nat_eq_self)
  let ?b0 = "(tm_buf t)\<lparr>b_start := 0, b_end := of_nat ?E\<rparr>"
  have wf0: "buffer_wf ?b0" "buffer_room ?b0 = 1024 - ?E"
    using mk room ends by (simp_all add: buffer_wf_def buffer_room_def)
  let ?b1 = "buffer_extend ?b0 dyn"
  have b1: "unparse_fields dtoa2 rx fs ?b0 = Some ?b1"
    by (rule fields_unparse_extend[OF wf0(1) fs(2)]) (use wf0(2) room in simp_all)
  have e1: "unat (b_end ?b1) = ?E + length dyn" using unat_end_extend[OF wf0(1), of dyn] wf0(2) room ends by simp
  have d1: "data ?b1 = ?T bl sq0 sd0 @ dyn @ ?junk"
    using extend_data[of ?b0 "?T bl sq0 sd0" junk dyn] m ends E[of bl sq0 sd0] by simp
  have w1: "buffer_wf ?b1" "capacity ?b1 = 1024" using wf0 room mk by (auto intro!: extend_wf)
  have 1: "mem_store (data ?b1) (int (length (l_head l @ l_type l @ l_to_sender l) + 10)) sd = Some (?T bl sq0 sd @ dyn @ ?junk)"
    unfolding d1 by (rule put_sender) (simp_all add: m sdn)
  have lq: "length ?SQ = 6"
    using length_zpad[of "nat (sint ?v)" 6] sq by simp
  have 2: "\<exists>k. modp_litoa10_zpad ?v 6 (?T bl sq0 sd @ dyn @ ?junk) (int (length (l_head l @ l_type l) + 4)) =
      Some (?T bl ?SQ sd @ dyn @ ?junk, k)"
    using put_seq[of 6 ?v sq0 "int (length (l_head l @ l_type l) + 4)" l bl sd now "stamp (l_stamp l) now" "dyn @ ?junk"]
    by (simp add: m lq)
  have ll: "length ?BL = 4" using length_zpad[of ?N 4] room by simp
  have len: "sint (b_end ?b1 - of_int (int (length (l_head l)) + 4 + 1) :: i64) = int ?N"
  proof -
    have "b_end ?b1 = of_nat (?E + length dyn)" by simp
    then have "b_end ?b1 - of_int (int (length (l_head l)) + 4 + 1) = of_nat ?N" using fit by (simp add: of_nat_diff)
    then show ?thesis using sint_of_nat_64[of ?N] room by simp
  qed
  have 3: "\<exists>k. modp_litoa10_zpad (b_end ?b1 - of_int (int (length (l_head l)) + 4 + 1)) 4 (?T bl ?SQ sd @ dyn @ ?junk) (int (length (l_head l))) =
      Some (?T ?BL ?SQ sd @ dyn @ ?junk, k)"
    using put_length[of 4 "b_end ?b1 - of_int (int (length (l_head l)) + 4 + 1)" bl] m ll len by simp
  let ?D = "?T ?BL ?SQ sd @ dyn @ ?junk"
  have w: "w = ?T ?BL ?SQ sd @ dyn" by (simp add: w_def message_text_def sdn)
  have LT: "length (?T ?BL ?SQ sd) = ?E" by (rule E[OF ll lq sdn])
  let ?cs = "?E - length (l_const l)"
  obtain M where M: "?T ?BL ?SQ sd = l_head l @ M @ l_const l" by (rule that) (simp add: template_text_def)
  then have "length (l_head l) + length M = ?cs" using LT by simp
  then have TT: "seg (length (l_head l)) ?cs ?D = M" by (simp add: M seg_def flip: \<open>length (l_head l) + length M = ?cs\<close>)
  have lD: "length ?D = 1024" using LT lj room by simp
  have cs: "length (l_head l) \<le> ?cs" "?cs \<le> ?E" "marker_const_start t = Some (int ?cs)"
    using mk by (simp_all add: template_len_def)
  have s1: "buffer_sum_range ?D (int (length (l_head l))) (int ?cs) = Some (sum_list (seg (length (l_head l)) ?cs ?D))"
    by (rule sum_range) (use cs lD room in simp_all)
  have "seg ?E (?E + length dyn) ?D = dyn" using LT by (simp add: seg_def)
  then have s2: "buffer_sum_range ?D (int ?E) (int (?E + length dyn)) = Some (sum_list dyn)"
    by (subst sum_range) (use lD room in simp_all)
  let ?S = "sum_list (seg (length (l_head l)) ?cs ?D)" and ?C = "sum_list (l_const l) + sum_list (l_head l)"
  have wsum: "sum_list w = ?S + ?C + sum_list dyn" unfolding w unfolding TT unfolding M by (simp add: ac_simps)
  let ?f = "FIX_CHECKSUM_FIELD CheckSum ((ucast ?S + ucast ?C + ucast (sum_list dyn)) mod 256)" and ?b2 = "?b1\<lparr>data := ?D\<rparr>"
  have wf2: "buffer_wf ?b2" "buffer_room ?b2 = 1024 - (?E + length dyn)" "unat (b_end ?b2) = length w"
    using w1 e1 lD LT room mk by (simp_all add: buffer_wf_def buffer_room_def w)
  have ft: "field_text dtoa2 rx ?f = Some (trailer_text w)"
    by (rule trailer_field) (simp add: wsum unat_sum3_mod)
  have 4: "fix_field_unparse dtoa2 rx ?f ?b2 = Some (buffer_extend ?b2 (trailer_text w))"
    by (rule field_unparse_extend[OF wf2(1) ft]) (use wf2(2) room in simp_all)
  have d4: "data (buffer_extend ?b2 (trailer_text w)) = w @ trailer_text w @ drop 7 ?junk"
    by (subst extend_data[of ?b2 w ?junk]) (use wf2 w in simp_all)
  let ?t = "t\<lparr>tm_buf := buffer_extend ?b2 (trailer_text w), csum_field := ?f, tm_iov := (0, b_end (buffer_extend ?b2 (trailer_text w)))\<rparr>"
  have e4: "unat (b_end (buffer_extend ?b2 (trailer_text w))) = length w + 7"
    using unat_end_extend[OF wf2(1), of "trailer_text w"] wf2(2,3) room by simp
  have be: "buffer_end ?b1 = int (?E + length dyn)" using e1 by (simp only: buffer_end_def uint_nat)
  have n: "unat (sender_comp_id_len t) = n" using mk by (elim conjE) (simp add: unsigned_of_nat take_bit_nat_eq_self)
  obtain k2 k3 where 5: "modp_litoa10_zpad ?v 6 (?T bl sq0 sd @ dyn @ ?junk) (int (length (l_head l @ l_type l) + 4)) =
        Some (?T bl ?SQ sd @ dyn @ ?junk, k2)"
      "modp_litoa10_zpad (b_end ?b1 - of_int (int (length (l_head l)) + 4 + 1)) 4 (?T bl ?SQ sd @ dyn @ ?junk) (int (length (l_head l))) =
        Some (?D, k3)"
    using 2 3 by (elim exE)
  have mks: "marker_const_end t = Some (int ?E)" "marker_sender_comp_id t = Some (int (length (l_head l @ l_type l @ l_to_sender l) + 10))"
      "marker_msg_seq_num t = Some (int (length (l_head l @ l_type l) + 4))" "marker_body_length t = Some (int (length (l_head l)))"
      "const_csum t = ?C"
    using mk by blast+
  have "fix_template_unparse dtoa2 rx t s = Some ?t"
    unfolding fix_template_unparse_def mks cs(3) Option.bind.bind_lunit Let_def of_int_of_nat_eq fs(1) b1 n sd 1
      zpads 5 prod.case be s1 s2 4 by simp
  moreover have "template_mem l n now (w @ trailer_text w @ drop 7 ?junk)"
    unfolding template_mem_def w using ll lq sdn m(4) by fastforce
  then have "template_ok l n now ?t" 
    using mk d4 lj room LT by (simp add: template_ok_def w)
  moreover have "mem_load (data (tm_buf ?t)) (fst (tm_iov ?t)) (unat (snd (tm_iov ?t))) = Some (w @ trailer_text w)"
    using e4 by (simp add: d4 mem_load_def)
  ultimately show thesis by (rule that)
qed

subsection \<open>Preparing a template\<close>

definition layout_of :: "u8 list \<Rightarrow> u8 list \<Rightarrow> u8 list \<Rightarrow> bool \<Rightarrow> u8 list \<Rightarrow> layout" where
  "layout_of begin ty target tr const =
     \<lparr>l_head = [56, 61] @ begin @ [1, 57, 61], l_type = [1, 51, 53, 61] @ ty @ [1, 51, 52, 61], l_to_sender = [1, 52, 57, 61],
      l_to_time = [1, 53, 50, 61], l_target = [1, 53, 54, 61] @ target @ [1], l_stamp = tr, l_const = const\<rparr>"

definition no_time :: "u8 list" where "no_time = chars ''YYYYMMDD-HH:MM:SS.sss''"

lemma string_field_text: "c_text rx p = Some t \<Longrightarrow>
    field_text dtoa2 rx (FIX_STRING_FIELD tag p) = Some (dec_digits (unat tag) @ [61] @ t @ [1])"
  by (simp add: c_text_string)

lemma string_marked: "c_text rx p = Some t \<Longrightarrow> marked_text dtoa2 rx (FIX_STRING_FIELD tag p) z = Some t"
  by (simp add: marked_text_def value_text_def FIX_STRING_FIELD_def c_text_def)

lemma zero_marked: "marked_text dtoa2 rx (FIX_INT_FIELD tag 0) z = Some (zpad_int 0 (sint z))"
  by (simp add: marked_text_def FIX_INT_FIELD_def)

lemma zero_zpads: "zpad_int 0 4 = [48, 48, 48, 48]" "zpad_int 0 6 = [48, 48, 48, 48, 48, 48]"
  by code_simp+

lemma type_string_text: "fix_msg_types ty = Some s \<Longrightarrow> c_text rx (Str (s @ [0])) = Some s"
proof -
  assume "fix_msg_types ty = Some s"
  then have "0 \<notin> set s" by (cases ty) (auto simp: chars_def)
  then show ?thesis by (simp add: c_text_def)
qed

lemma no_time_text: "c_text rx time_pattern = Some no_time" "length no_time = 21"
proof -
  have "0 \<notin> set no_time" by code_simp
  then show "c_text rx time_pattern = Some no_time" by (simp add: c_text_def time_pattern_def flip: no_time_def)
  show "length no_time = 21" by code_simp
qed

lemma template_tags:
  "dec_digits (unat BeginString) = [56]" "dec_digits (unat BodyLength) = [57]" "dec_digits (unat MsgType) = [51, 53]"
  "dec_digits (unat MsgSeqNum) = [51, 52]" "dec_digits (unat SenderCompID) = [52, 57]" "dec_digits (unat SendingTime) = [53, 50]"
  "dec_digits (unat TargetCompID) = [53, 54]" "dec_digits (unat TransactTime) = [54, 48]"
  by code_simp+

lemma field_tags [simp]: "ff_tag (FIX_STRING_FIELD t p) = t" "ff_tag (FIX_INT_FIELD t i) = t"
  by (simp_all add: FIX_STRING_FIELD_def FIX_INT_FIELD_def)

text \<open>What \<open>fix_template_prepare\<close> has printed before the constant fields, up to each step.\<close>

lemma print_string:
  "c_text rx p = Some t \<Longrightarrow> length xs + (length (dec_digits (unat tag) @ t) + 2) \<le> 1024 \<Longrightarrow>
     fix_field_unparse dtoa2 rx (FIX_STRING_FIELD tag p) (printed xs) = Some (printed (xs @ dec_digits (unat tag) @ [61] @ t @ [1]))"
  by (rule print_field[OF string_field_text]) simp_all

lemma mark_string:
  "c_text rx p = Some t \<Longrightarrow> 0 \<le> sint z \<Longrightarrow> length xs + (length (dec_digits (unat tag)) + length t + 2) \<le> 1024 \<Longrightarrow>
     fix_field_unparse_zpad dtoa2 rx (FIX_STRING_FIELD tag p) z (printed xs) =
       Some (int (length xs + length (dec_digits (unat tag)) + 1), printed (xs @ dec_digits (unat tag) @ [61] @ t @ [1]))"
  using print_marked[OF string_marked, of rx p t z xs tag dtoa2] by simp

lemma mark_zero:
  "0 \<le> sint z \<Longrightarrow> length xs + (length (dec_digits (unat tag)) + length (zpad_int 0 (sint z)) + 2) \<le> 1024 \<Longrightarrow>
     fix_field_unparse_zpad dtoa2 rx (FIX_INT_FIELD tag 0) z (printed xs) =
       Some (int (length xs + length (dec_digits (unat tag)) + 1), printed (xs @ dec_digits (unat tag) @ [61] @ zpad_int 0 (sint z) @ [1]))"
  using print_marked[OF zero_marked, of z xs tag dtoa2 rx] by simp

lemma sum_printed:
  assumes "length (xs @ ys) \<le> 1024"
  shows "buffer_sum_range (data (printed (xs @ ys))) (int (length xs)) (int (length (xs @ ys))) = Some (sum_list ys)"
    and "buffer_sum_range (data (printed (xs @ ys))) 0 (int (length xs)) = Some (sum_list xs)"
  using sum_range[of "length xs" "length (xs @ ys)" "data (printed (xs @ ys))"] sum_range[of 0 "length xs" "data (printed (xs @ ys))"]
    assms by (simp_all add: printed_data seg_def)

lemma template_memI:
  "m = template_text l bl sq sd now (stamp (l_stamp l) now) @ junk \<Longrightarrow> length bl = 4 \<Longrightarrow> length sq = 6 \<Longrightarrow> length now = 21 \<Longrightarrow>
     template_mem l (length sd) now m"
  by (auto simp: template_mem_def)

lemma prepare_ok:
  assumes bs: "c_text rx (tc_begin_string cfg) = Some begin" and ty: "fix_msg_types (tc_msg_type cfg) = Some ty"
    and sd: "c_text rx (tc_sender_comp_id cfg) = Some sd" and tg: "c_text rx (tc_target_comp_id cfg) = Some target"
    and fs: "mem_load (const_fields cfg) 0 (unat (nr_const_fields cfg)) = Some fs" "fields_text dtoa2 rx fs = Some const"
    and l: "l = layout_of begin ty target (manage_transact_time cfg) const" and room: "template_len l (length sd) \<le> 1024"
  obtains t where "fix_template_prepare dtoa2 rx fix_template_new cfg = Some t" "template_ok l (length sd) no_time t"
proof -
  note ls = l layout_of_def template_len_def
  let ?x1 = "[56, 61] @ begin @ [1]" let ?x2 = "?x1 @ [57, 61] @ [48, 48, 48, 48, 1]" let ?x3 = "?x2 @ [51, 53, 61] @ ty @ [1]"
  let ?x4 = "?x3 @ [51, 52, 61] @ [48, 48, 48, 48, 48, 48, 1]" let ?x5 = "?x4 @ [52, 57, 61] @ sd @ [1]"
  let ?x6 = "?x5 @ [53, 50, 61] @ no_time @ [1]" let ?x7 = "?x6 @ [53, 54, 61] @ target @ [1]"
  let ?x8 = "?x7 @ (if manage_transact_time cfg then [54, 48, 61] @ no_time @ [1] else [])" let ?x9 = "?x8 @ const"
  have r: "length ?x9 \<le> 1024" using room by (simp add: ls no_time_text split: if_splits)
  have 1: "fix_field_unparse dtoa2 rx (FIX_STRING_FIELD BeginString (tc_begin_string cfg)) (printed []) = Some (printed ?x1)"
    using print_string[OF bs, of "[]" BeginString dtoa2] r by (simp add: template_tags)
  have 2: "fix_field_unparse_zpad dtoa2 rx (FIX_INT_FIELD BodyLength 0) 4 (printed ?x1) = Some (int (length ?x1 + 2), printed ?x2)"
    using mark_zero[of 4 ?x1 BodyLength] r by (simp add: template_tags zero_zpads)
  have 3: "fix_field_unparse dtoa2 rx (FIX_STRING_FIELD MsgType (Str (ty @ [0]))) (printed ?x2) = Some (printed ?x3)"
    using print_string[OF type_string_text[OF ty], of ?x2 MsgType] r by (simp add: template_tags)
  have 4: "fix_field_unparse_zpad dtoa2 rx (FIX_INT_FIELD MsgSeqNum 0) 6 (printed ?x3) = Some (int (length ?x3 + 3), printed ?x4)"
    using mark_zero[of 6 ?x3 MsgSeqNum] r by (simp add: template_tags zero_zpads)
  have 5: "fix_field_unparse_zpad dtoa2 rx (FIX_STRING_FIELD SenderCompID (tc_sender_comp_id cfg)) 0 (printed ?x4) =
      Some (int (length ?x4 + 3), printed ?x5)"
    using mark_string[OF sd, of 0 ?x4 SenderCompID] r by (simp add: template_tags)
  have 6: "fix_field_unparse_zpad dtoa2 rx (FIX_STRING_FIELD SendingTime time_pattern) 0 (printed ?x5) =
      Some (int (length ?x5 + 3), printed ?x6)"
    using mark_string[OF no_time_text(1), of 0 ?x5 SendingTime] r by (simp add: template_tags)
  have 7: "fix_field_unparse dtoa2 rx (FIX_STRING_FIELD TargetCompID (tc_target_comp_id cfg)) (printed ?x6) = Some (printed ?x7)"
    using print_string[OF tg, of ?x6 TargetCompID] r by (simp add: template_tags)
  have 8: "fix_field_unparse_zpad dtoa2 rx (FIX_STRING_FIELD TransactTime time_pattern) 0 (printed ?x7) =
      Some (int (length ?x7 + 3), printed ?x8)" if "manage_transact_time cfg"
    using mark_string[OF no_time_text(1), of 0 ?x7 TransactTime] r that by (simp add: template_tags)
  have 9: "unparse_fields dtoa2 rx fs (printed ?x8) = Some (printed ?x9)"
    by (rule print_fields[OF fs(2)]) (use r in simp)
  have e: "buffer_end (printed ?x8) = int (length ?x8)" "buffer_end (printed ?x9) = int (length ?x9)"
    using r by (intro printed_end, simp)+
  have d: "data (printed ?x9) = ?x9 @ replicate (1024 - length ?x9) 0" by (rule printed_data[OF r])
  have s1: "buffer_sum_range (data (printed ?x9)) (int (length ?x8)) (int (length ?x9)) = Some (sum_list const)"
    by (rule sum_printed(1)[OF r])
  have s2: "buffer_sum_range (data (printed ?x9)) 0 (int (length ?x1 + 2)) = Some (sum_list ([56, 61] @ begin @ [1, 57, 61]))"
    using sum_printed(2)[of "[56, 61] @ begin @ [1, 57, 61]"] r by simp
  have t0: "tm_buf fix_template_new = printed []" by (simp add: fix_template_new_def printed_def empty_tx_def FIX_MAX_TEMPLATE_BUFFER_SIZE_def)
  have sn: "deref rx (tc_sender_comp_id cfg) \<bind> (\<lambda>cs. c_strlen cs \<bind> f) = f (length sd)" for f :: "nat \<Rightarrow> fix_template option"
  proof -
    obtain cs n where c: "deref rx (tc_sender_comp_id cfg) = Some cs" "c_strlen cs = Some n" "sd = take n cs"
      using sd by (auto simp: c_text_def bind_eq_Some_conv)
    then show ?thesis using c_strlen_less[OF c(2)] by simp
  qed
  let ?tr = "if manage_transact_time cfg then Some (int (length ?x7 + 3)) else None"
  have m8: "(if manage_transact_time cfg then do {
       (p, b) \<leftarrow> fix_field_unparse_zpad dtoa2 rx (FIX_STRING_FIELD TransactTime time_pattern) 0 (printed ?x7); Some (Some p, b) }
     else Some (marker_transact_time fix_template_new, printed ?x7)) = Some (?tr, printed ?x8)"
    using 8 by (simp add: fix_template_new_def)
  let ?t = "fix_template_new\<lparr>marker_body_length := Some (int (length ?x1 + 2)), marker_msg_seq_num := Some (int (length ?x3 + 3)),
       marker_sender_comp_id := Some (int (length ?x4 + 3)), marker_sending_time := Some (int (length ?x5 + 3)),
       marker_transact_time := ?tr, marker_const_start := Some (int (length ?x8)), marker_const_end := Some (int (length ?x9)),
       sender_comp_id_len := of_nat (length sd), const_csum := sum_list const + sum_list ([56, 61] @ begin @ [1, 57, 61]),
       tm_buf := printed ?x9\<rparr>"
  have "fix_template_prepare dtoa2 rx fix_template_new cfg = Some ?t"
    unfolding fix_template_prepare_def zpads
      t0 1 2 3 4 5 6 7 m8 9 ty fs(1) sn Option.bind.bind_lunit prod.case Let_def e s1 s2 by simp
  moreover have x9: "?x9 = template_text l [48, 48, 48, 48] [48, 48, 48, 48, 48, 48] sd no_time (stamp (l_stamp l) no_time)"
    by (simp add: l layout_of_def template_text_def stamp_def stamp_tag_def stamp_end_def)
  have tm: "template_mem l (length sd) no_time (data (printed ?x9))"
    by (rule template_memI[where sd = sd and now = no_time, OF trans[OF d arg_cong[where f = "\<lambda>x. x @ _", OF x9]]]) (simp_all add: no_time_text)
  have len: "length ?x9 = template_len l (length sd)" unfolding x9 by (rule template_text_length) (simp_all add: no_time_text)
  have dl: "length (data (printed ?x9)) = 1024" "capacity (printed ?x9) = 1024"
    unfolding d using r by (simp_all add: printed_def buffer_extend_def empty_tx_def)
  have sl: "length sd < 1024" using r by simp
  have "template_ok l (length sd) no_time ?t"
  proof -
    have "tm_buf ?t = printed ?x9" by simp
    then show ?thesis unfolding template_ok_def using tm dl sl
      by (intro conjI) (simp only:, simp only:, simp only:, simp_all add: len[simplified] ls no_time_text del: append.simps append_assoc)
  qed
  ultimately show thesis by (rule that)
qed

subsection \<open>A run of messages\<close>

text \<open>The program's cycle: the time, the fields of this message, the text, and the sending.  The session, which has the number and the sender, is the program's.\<close>

fun template_run ::
    "'k sys \<Rightarrow> mem \<Rightarrow> fix_template \<Rightarrow> (char_ptr \<times> ulong \<times> fix_field list \<times> fix_session) list \<Rightarrow> 'k \<Rightarrow> (i32 list \<times> 'k) option" where
  "template_run c rx t [] k = Some ([], k)"
| "template_run c rx t ((now, nr, fs, s) # rs) k = do {
     t \<leftarrow> fix_template_update_time rx t now;
     t \<leftarrow> fix_template_unparse (c_dtoa2 c) rx (t\<lparr>tm_nr_fields := nr, tm_fields := fs\<rparr>) s;
     (ret, k) \<leftarrow> fix_template_send c t k;
     (rets, k) \<leftarrow> template_run c rx t rs k;
     Some (ret # rets, k) }"

text \<open>What the kernel has to have been given, one message after the other, each with one call.\<close>

fun send_each :: "'k sys \<Rightarrow> u8 list list \<Rightarrow> 'k \<Rightarrow> 'k" where
  "send_each c [] k = k"
| "send_each c (w # ws) k = send_each c ws (snd (k_sendmsg c k [w]))"

text \<open>A kernel that takes all it is given.\<close>

definition takes_all :: "'k sys \<Rightarrow> bool" where
  "takes_all c \<longleftrightarrow> (\<forall>k vs. fst (k_sendmsg c k vs) = of_nat (length (concat vs)))"

lemma send_ret:
  assumes "mem_load (data (tm_buf t)) (fst (tm_iov t)) (unat (snd (tm_iov t))) = Some w" and "length w \<le> 1024"
  shows "\<exists>ret. fix_template_send c t k = Some (ret, snd (k_sendmsg c k [w])) \<and> (takes_all c \<longrightarrow> ret = 0)"
proof -
  have u: "ucast (of_nat (length w) :: i64) = (of_nat (length w) :: i32)"
    using assms(2) by (simp add: unsigned_of_nat take_bit_nat_eq_self)
  have "sint (of_nat (length w) :: i32) = int (length w)"
    using assms(2) by (simp add: signed_of_nat signed_take_bit_int_eq_self)
  then have "scast (of_nat (length w) :: i32) = (of_nat (length w) :: ulong)" "\<not> (of_nat (length w) :: i32) <s 0"
    unfolding scast_eq word_sless_alt by simp_all
  moreover have "takes_all c \<Longrightarrow> fst (k_sendmsg c k [w]) = of_nat (length w)" by (simp add: takes_all_def)
  ultimately show ?thesis using u assms(1) by (auto simp: fix_template_send_def Let_def split_def)
qed

text \<open>The message as it should be: the head, the body, whose length the head has, and the trailer with their sum.\<close>

definition template_wire ::
    "u8 list \<Rightarrow> u8 list \<Rightarrow> u8 list \<Rightarrow> bool \<Rightarrow> u8 list \<Rightarrow> i64 \<Rightarrow> u8 list \<Rightarrow> u8 list \<Rightarrow> u8 list \<Rightarrow> u8 list" where
  "template_wire begin ty target tr const seqno sender now dyn =
     (let body = [51, 53, 61] @ ty @ [1, 51, 52, 61] @ zpad_int (sint seqno) 6 @ [1, 52, 57, 61] @ sender @ [1, 53, 50, 61] @ now @
            [1, 53, 54, 61] @ target @ [1] @ (if tr then [54, 48, 61] @ now @ [1] else []) @ const @ dyn;
          head = [56, 61] @ begin @ [1, 57, 61] @ zpad_int (int (length body)) 4 @ [1]
      in head @ body @ trailer_text (head @ body))"

lemma length_zpad_ge: "int k \<le> int (length (zpad_int i (int k)))"
  by (simp add: zpad_int_def Let_def)

lemma template_wire_text:
  fixes sd dyn
  assumes "l = layout_of begin ty target tr const" and "0 \<le> sint seqno" and "sint seqno < 10 ^ 6" and "length now = 21"
  defines "w \<equiv> message_text l seqno sd now dyn"
  shows "w @ trailer_text w = template_wire begin ty target tr const seqno sd now dyn"
proof -
  have "length (zpad_int (sint seqno) 6) = 6" using length_zpad[of "nat (sint seqno)" 6] assms(2,3) by simp
  then show ?thesis
    by (simp add: w_def assms(1,4) template_wire_def Let_def message_text_def template_text_def template_len_def layout_of_def
      stamp_def stamp_tag_def stamp_end_def add.commute add.left_commute)
qed

text \<open>What a request has to have: a time of 21 bytes, fields that can be printed, a sender of the length the template was
  prepared with, a number of at most six digits, and no more than 1024 bytes in all.\<close>

definition request_wire ::
    "(u64 \<Rightarrow> u8 list) \<Rightarrow> mem \<Rightarrow> (u8 list \<times> u8 list \<times> u8 list \<times> bool \<times> u8 list) \<Rightarrow> nat \<Rightarrow>
       (char_ptr \<times> ulong \<times> fix_field list \<times> fix_session) \<Rightarrow> u8 list option" where
  "request_wire dtoa2 rx parts n r = (case (parts, r) of ((begin, ty, target, tr, const), now, nr, fs, s) \<Rightarrow> do {
     cs \<leftarrow> deref rx now;
     time \<leftarrow> mem_load cs 0 21;
     fs \<leftarrow> mem_load fs 0 (unat nr);
     dyn \<leftarrow> fields_text dtoa2 rx fs;
     sender \<leftarrow> mem_load (s_sender_comp_id s) 0 n;
     let w = template_wire begin ty target tr const (out_msg_seq_num s) sender time dyn in
     if 0 \<le> sint (out_msg_seq_num s) \<and> sint (out_msg_seq_num s) < 10 ^ 6 \<and> length w \<le> 1024 then Some w else None })"

lemma run_ok:
  assumes "template_ok l n old t" and l: "l = layout_of begin ty target tr const"
    and "map (request_wire (c_dtoa2 c) rx (begin, ty, target, tr, const) n) rs = map Some ws"
  shows "\<exists>rets. template_run c rx t rs k = Some (rets, send_each c ws k) \<and> length rets = length rs
    \<and> (takes_all c \<longrightarrow> rets = replicate (length rs) 0)"
  using assms(1,3)
proof (induction rs arbitrary: old t ws k)
  case Nil
  then show ?case by simp
next
  case (Cons r rs)
  obtain now nr fs s where r: "r = (now, nr, fs, s)" by (cases r)
  obtain w ws' where ws: "ws = w # ws'" "request_wire (c_dtoa2 c) rx (begin, ty, target, tr, const) n r = Some w"
      "map (request_wire (c_dtoa2 c) rx (begin, ty, target, tr, const) n) rs = map Some ws'"
    using Cons.prems(2) by (cases ws) auto
  obtain cs time fl dyn sd where q: "deref rx now = Some cs" "mem_load cs 0 21 = Some time" "mem_load fs 0 (unat nr) = Some fl"
      "fields_text (c_dtoa2 c) rx fl = Some dyn" "mem_load (s_sender_comp_id s) 0 n = Some sd"
      "0 \<le> sint (out_msg_seq_num s)" "sint (out_msg_seq_num s) < 10 ^ 6"
      "w = template_wire begin ty target tr const (out_msg_seq_num s) sd time dyn" "length w \<le> 1024"
    using ws(2) by (auto simp: request_wire_def r bind_eq_Some_conv Let_def split: if_splits)
  obtain t1 where t1: "fix_template_update_time rx t now = Some t1" "template_ok l n time t1"
    by (rule update_time_ok[OF Cons.prems(1) q(1,2)])
  let ?t1 = "t1\<lparr>tm_nr_fields := nr, tm_fields := fs\<rparr>" and ?w = "message_text l (out_msg_seq_num s) sd time dyn"
  have tl: "length time = 21" "length sd = n" using q(2,5) by (simp_all add: mem_load_length)
  have w: "?w @ trailer_text ?w = w" unfolding q(8) by (rule template_wire_text[OF l q(6,7) tl(1)])
  have ok: "template_ok l n time ?t1" using t1(2) by (simp add: template_ok_def)
  have ln: "template_len l n + length dyn + 7 \<le> 1024"
  proof -
    have "length (zpad_int (sint (out_msg_seq_num s)) 6) = 6"
      using length_zpad[of "nat (sint (out_msg_seq_num s))" 6] q(6,7) by simp
    then show ?thesis using q(9) tl length_zpad_ge[of 4 "int (template_len l (length sd) + length dyn - (length (l_head l) + 5))"]
      unfolding w[symmetric] by (simp add: message_text_def template_text_def template_len_def stamp_def stamp_tag_def stamp_end_def split: if_splits)
  qed
  obtain t2 where t2: "fix_template_unparse (c_dtoa2 c) rx ?t1 s = Some t2" "template_ok l n time t2"
      "mem_load (data (tm_buf t2)) (fst (tm_iov t2)) (unat (snd (tm_iov t2))) = Some (?w @ trailer_text ?w)"
    by (rule unparse_ok[OF ok _ _ q(4) q(5) q(6,7) ln]) (use q(3) in \<open>auto simp: l layout_of_def\<close>)
  obtain ret where s: "fix_template_send c t2 k = Some (ret, snd (k_sendmsg c k [w]))" "takes_all c \<longrightarrow> ret = 0"
    using send_ret[of t2 w c k] t2(3) q(9) unfolding w by blast
  obtain rets where "template_run c rx t2 rs (snd (k_sendmsg c k [w])) = Some (rets, send_each c ws' (snd (k_sendmsg c k [w])))"
      "length rets = length rs" "takes_all c \<longrightarrow> rets = replicate (length rs) 0"
    using Cons.IH[OF t2(2) ws(3)] by blast
  with t1(1) t2(1) s show ?case unfolding r ws(1) by simp
qed

subsection \<open>Properties\<close>

text \<open>C14: For any sequence of requests whose numbers are from 0 to 999999, whose senders are exactly as long as the one the template was
  prepared with, whose times have 21 bytes and whose messages have at most 1024 bytes in all, the
  program's cycle over one template gives the kernel, with one call for each request and in their order, the whole message with its
  own length and its own sum: rewriting the parts of the last message leaves nothing of it behind.  It answers 0 for each when the
  kernel takes all it is given.  (The bound on the numbers is sharp: the seventh digit overwrites the delimiter.)\<close>

theorem template_framing:
  assumes "c_text rx (tc_begin_string cfg) = Some begin" and "fix_msg_types (tc_msg_type cfg) = Some ty"
    and "c_text rx (tc_sender_comp_id cfg) = Some sender" and "c_text rx (tc_target_comp_id cfg) = Some target"
    and "mem_load (const_fields cfg) 0 (unat (nr_const_fields cfg)) = Some fs" and "fields_text (c_dtoa2 c) rx fs = Some const"
    and "length (begin @ ty @ sender @ target @ const) + 82 \<le> 1024"
    and "map (request_wire (c_dtoa2 c) rx (begin, ty, target, manage_transact_time cfg, const) (length sender)) rs = map Some ws"
  shows "\<exists>rets. do { t \<leftarrow> fix_template_prepare (c_dtoa2 c) rx fix_template_new cfg; template_run c rx t rs k } = Some (rets, send_each c ws k)
    \<and> length rets = length rs \<and> (takes_all c \<longrightarrow> rets = replicate (length rs) 0)"
proof -
  let ?l = "layout_of begin ty target (manage_transact_time cfg) const"
  have "template_len ?l (length sender) \<le> 1024" using assms(7) by (simp add: template_len_def layout_of_def)
  then obtain t where t: "fix_template_prepare (c_dtoa2 c) rx fix_template_new cfg = Some t" "template_ok ?l (length sender) no_time t"
    by (rule prepare_ok[OF assms(1-6) refl])
  then show ?thesis using run_ok[OF t(2) refl assms(8), of k] by simp
qed

text \<open>An order of a client: the account and the handling are constant, the quantity changes.\<close>

definition sample_cfg :: fix_template_cfg where
  "sample_cfg = \<lparr>tc_begin_string = Str (chars ''FIX.4.4'' @ [0]), tc_msg_type = FIX_MSG_TYPE_NEW_ORDER_SINGLE,
     tc_sender_comp_id = Str (chars ''BUYSIDE'' @ [0]), tc_target_comp_id = Str (chars ''SELL'' @ [0]),
     manage_transact_time = True, nr_const_fields = 2,
     const_fields = [FIX_INT_FIELD 21 1, FIX_STRING_FIELD 55 (Str (chars ''ABC'' @ [0]))]\<rparr>"

definition sample_order :: "u64 \<Rightarrow> string \<Rightarrow> i64 \<Rightarrow> char_ptr \<times> ulong \<times> fix_field list \<times> fix_session" where
  "sample_order seqno name qty = (Str (chars ''20250101-10:00:00.000'' @ [0]), 1, [FIX_INT_FIELD 38 qty, FIX_INT_FIELD 0 0],
     session_zero\<lparr>s_sender_comp_id := chars name @ [0], out_msg_seq_num := seqno\<rparr>)"

definition sample_orders :: "u8 list list" where
  "sample_orders =
     [soh (''8=FIX.4.4|9=0103|35=D|34=000007|49=BUYSIDE|52=20250101-10:00:00.000|56=SELL|60=20250101-10:00:00.000|21=1|55=ABC|'' @
        ''38=100|10=132|''),
      soh (''8=FIX.4.4|9=0102|35=D|34=000008|49=OTHERSD|52=20250101-10:00:00.000|56=SELL|60=20250101-10:00:00.000|21=1|55=ABC|'' @
        ''38=-5|10=089|'')]"

lemma sample_parts_ok:
  "c_text [] (tc_begin_string sample_cfg) = Some (chars ''FIX.4.4'')" "fix_msg_types (tc_msg_type sample_cfg) = Some (chars ''D'')"
  "c_text [] (tc_sender_comp_id sample_cfg) = Some (chars ''BUYSIDE'')" "c_text [] (tc_target_comp_id sample_cfg) = Some (chars ''SELL'')"
  "mem_load (const_fields sample_cfg) 0 (unat (nr_const_fields sample_cfg)) = Some (const_fields sample_cfg)"
  "fields_text (\<lambda>_. []) [] (const_fields sample_cfg) = Some (soh ''21=1|55=ABC|'')"
  "length (chars ''FIX.4.4'' @ chars ''D'' @ chars ''BUYSIDE'' @ chars ''SELL'' @ soh ''21=1|55=ABC|'') + 82 \<le> 1024"
  by code_simp+

lemma sample_requests_ok:
  "map (request_wire (\<lambda>_. []) [] (chars ''FIX.4.4'', chars ''D'', chars ''SELL'', manage_transact_time sample_cfg, soh ''21=1|55=ABC|'')
     (length (chars ''BUYSIDE''))) [sample_order 7 ''BUYSIDE'' 100, sample_order 8 ''OTHERSD'' (- 5)] = map Some sample_orders"
  by code_simp

text \<open>A kernel that puts all it is given on a line.\<close>

definition line_sys :: "u8 list sys" where
  "line_sys = \<lparr>c_strtod = (\<lambda>_. 0), c_dtoa2 = (\<lambda>_. []), k_recv = (\<lambda>k n. (IoOk [], k)),
     k_sendmsg = (\<lambda>k vs. (of_nat (length (concat vs)), k @ concat vs)), k_clock = (\<lambda>k. (0, k))\<rparr>"

theorem template_framing_witness:
  "do { t \<leftarrow> fix_template_prepare (\<lambda>_. []) [] fix_template_new sample_cfg;
        template_run line_sys [] t [sample_order 7 ''BUYSIDE'' 100, sample_order 8 ''OTHERSD'' (- 5)] [] } =
     Some ([0, 0], concat sample_orders)"
proof -
  have c: "c_dtoa2 line_sys = (\<lambda>_. [])" "takes_all line_sys" by (simp_all add: line_sys_def takes_all_def)
  have "send_each line_sys sample_orders [] = concat sample_orders" by (simp add: line_sys_def sample_orders_def)
  then show ?thesis
    using template_framing[OF sample_parts_ok(1-5), of line_sys, unfolded c(1), OF sample_parts_ok(6,7) sample_requests_ok, of "[]"] c
    by (auto simp: numeral_2_eq_2)
qed

text \<open>From the number 1000000 on, the seventh digit takes the place of the delimiter behind the number.\<close>

lemma seventh_digit:
  "modp_litoa10_zpad 1000000 (ucast FIX_TEMPLATE_MSG_SEQ_NUM_ZPAD) (soh ''34=000000|49='') 3 = Some (soh ''34=100000049='', 7)"
  by code_simp

end
