(* ===== verification/Spec2Isabelle.thy ===== *)
theory Spec2Isabelle
  imports Itoa Fast_Roundtrip Fix_Roundtrip Fix_Recovery Sim_Match Sim_Market Feed_Streams Fast_Link Fast_Recover Fast_Update Fix_Template
begin

text \<open>
  A verification library for libtrading, a C library of protocols for electronic trading, and for the parts of its tools that
  have logic of their own.  Paths are relative to the root of the repository; the definitions have the names of the functions,
  structures and macros they model.

  \<^bold>\<open>The program.\<close>  Everything is built on a linear byte buffer (lib/buffer.c) that system calls fill and drain.  The FIX side prints
  and parses text messages (lib/proto/fix_message.c), puts them on a socket with sequence numbers and timestamps (fix_session.c), and
  adds the session level, with recovery of gaps, keep-alive, logon and logout (tools/fix/fix_common.c); a template
  (fix_template.c) prints a message once and then only rewrites what changes.  The FAST side decodes binary messages whose layout comes
  from an XML file of templates (fast_template.c, fast_message.c, fast_session.c); feeds (fast_feed.c) deliver them, and books of orders
  (fast_book.c over lib/order_book.c) are kept from the increments, and recovered from snapshots.  The decoders of the fixed
  binary formats (ITCH, OUCH, PITCH, TAQ, XDP, BOE, SoupBinTCP, MoldUDP, MBT) take packed structures off the same buffer.  A market simulator
  (tools/sim) receives orders over FIX sessions and matches them.

  \<^bold>\<open>Conventions\<close> (\<open>Prelude\<close>, \<open>Packed\<close>).  Machine integers are words of their width; \<open>ulong\<close>, \<open>size_t\<close> and \<open>time_t\<close> have 64 bits and
  \<open>char\<close> is signed unless it is an argument.  A structure is a record, an enumeration a datatype.  An object in memory is a list of bytes, and
  \<open>None\<close> is an access outside it, a freed or null pointer, or a fault of that kind: a theorem that says \<open>Some\<close> says
  that there is none.  What a function returns and the state it changes are the tuple under the \<open>Some\<close>; a return code of the code is a number or, where the code only asks
  whether it is 0, a truth value; error returns are values of their own.  A \<open>goto\<close> to an error label is the branch with what is done at the label.
  The kernel, the clocks, \<open>strtod\<close>, \<open>modp_dtoa2\<close>, the allocator, zlib, libxml and GLib are arguments, mostly the fields of a
  record (\<open>sys\<close>, \<open>feed_sys\<close>, \<open>glib\<close>, \<open>market_env\<close>); what is supposed of them is a named predicate, with an instance in a witness.

  \<^bold>\<open>Buffers and numbers.\<close>
  \<^item> \<open>Buffer\<close>: lib/buffer.c, buffer.h, mmap-buffer.c and read-write.c.  \<open>Byte_Queue\<close> has the locales of what the parsers and printers
    use of a buffer, which \<open>Buffer\<close> interprets.  The lemmas: first in, first out; what is received is appended and what is compacted is kept;
    the sum is that of the bytes for either signedness of \<open>char\<close>; the loops over \<open>EINTR\<close> and \<open>EAGAIN\<close>.
  \<^item> \<open>Itoa\<close>: lib/itoa.c and the integer printers of lib/stringencoders/modp_numtoa.c.  All print the decimal numeral, and
    agree with each other; padding never cuts a number off.

  \<^bold>\<open>FIX.\<close>
  \<^item> \<open>Fix_Message\<close>: lib/proto/fix_message.c, fix_message.h.  \<open>Fix_Parse\<close> has what each step of the parser does with the bytes and that it ends on
    any bytes with at most 51 delimiters, taking no more than garbled attempts and one message; \<open>Fix_Print\<close> the text that is printed, with its
    length and sum; \<open>Fix_Roundtrip\<close> that what is printed is parsed back, and that a message that is not there completely is left alone.
  \<^item> \<open>Fix_Session\<close>: lib/proto/fix_session.c.  \<open>Fix_Stream\<close> shows that any way of cutting the stream gives the same messages, \<open>Fix_Link\<close> that two
    sessions on one stream understand each other.
  \<^item> \<open>Fix_Admin\<close>: tools/fix/fix_common.c.  \<open>Fix_Recovery\<close> has what the session level guarantees: numbers only move forward, what is ahead is asked for
    again and not delivered, a test request is answered, a silent peer is noticed, a logout ends.
  \<^item> \<open>Fix_Template\<close>: lib/proto/fix_template.c, and that every message a template sends has its own length and sum.

  \<^bold>\<open>FAST.\<close>
  \<^item> \<open>Fast_Wire\<close>: the transfer encoding of fast_message.c, as instances of one locale of codecs.  \<open>Fast_Field\<close> and \<open>Fast_Encode\<close>: the decoders and encoders
    of fields with their operators.  \<open>Fast_Message\<close>: sequences, whole messages, the decoder that goes on where it stopped, sessions
    (fast_session.c).  \<open>Fast_Template\<close>: fast_template.c, from the tree of an XML document to the messages.
  \<^item> \<open>Fast_Roundtrip\<close>: a message that is encoded is decoded, and both ends stay in step.  \<open>Fast_Link\<close>: the same for any
    number of messages of two programs that read the same document.  \<open>Fast_Safe\<close>: no bytes, in whatever pieces, make the decoder leave an object.
  \<^item> \<open>Fast_Feed\<close>: fast_feed.c.  \<open>Order_Book\<close>: lib/order_book.c over GLib's containers, and that it is two maps from prices to levels.
    \<open>Fast_Book\<close>: fast_book.c.  \<open>Fast_Update\<close>: the alignment of prices and the order of increments; \<open>Fast_Recover\<close>: a book that joins with a snapshot
    is the book of the history.

  \<^bold>\<open>Market data feeds.\<close>
  \<^item> \<open>Feed\<close> has the contract of a decoder as locales and the loop of a program; \<open>Feed_Itch40\<close>, \<open>Feed_Itch41\<close>, \<open>Feed_Itch50\<close>, \<open>Feed_Omx\<close>,
    \<open>Feed_Pitch\<close>, \<open>Feed_Ouch\<close>, \<open>Feed_Lse\<close>, \<open>Feed_Nyse\<close>, \<open>Feed_Mbt\<close> and \<open>Feed_Session\<close> model the decoder and structures of each protocol and interpret the part of
    the contract that it keeps; where it does not, a lemma has the input that shows it.
  \<^item> \<open>Feed_Wire\<close> says what a table of the fields on the wire is, \<open>Feed_Tables\<close> has such tables, written out apart from the structures and sizes of the code, and \<open>Feed_Streams\<close>
    that a program gets every message once, in order, with the values that were sent.

  \<^bold>\<open>The market simulator.\<close>
  \<^item> \<open>Sim_Engine\<close>: tools/sim/engine.c, with its doubly linked lists as indices.  \<open>Sim_Match\<close> shows that it does what price-time priority says, as an instance of
    the locale in \<open>Simulation\<close>, that its book is never crossed and that no size is lost.
  \<^item> \<open>Sim_Market\<close>: tools/sim/market.c, market.h, the traders and their sessions, on top of \<open>Fix_Link\<close> and \<open>Sim_Match\<close>: orders on the wire become commands of the engine.
\<close>

text \<open>
  \<^bold>\<open>Loops and their bounds.\<close>  A loop that the types bound is a recursion on what is left.  Where a loop is bounded by its data, it has
  fuel, and a lemma shows that it suffices.
  \<^item> \<open>rest_loop\<close>, \<open>fix_parse_loop\<close>: more than the bytes of the buffer, each round takes at least one.
  \<^item> \<open>match_levels\<close>: 102, as there are 100 levels and each is left for good; \<open>match_level\<close>: one more than the orders there are, as each round but
    the last takes one out.
  \<^item> \<open>logout_loop\<close>: every reading of the clock moves time on by at least a nanosecond in the kernels that are considered (\<open>steady\<close>), so that
    \<open>4 * nsec + 2\<close> rounds reach the end of the grace period; the same number bounds the depth of a logout inside a logout.  Other fuel of the session level and of the
    market is for this loop; events at which the market takes an order do not use it.  \<open>logon_loop\<close> has no bound in the code, and nothing is claimed of its end.
  \<^item> \<open>mbt_field_end\<close>: the bytes of the buffer.  \<open>drain\<close>, the loop of a program over a decoder: more than the number of messages.
  \<^item> \<open>inflate_retry\<close>, \<open>join_loop\<close> and \<open>fast_books_recover\<close> may go on for ever and are \<^theory_text>\<open>partial_function\<close>s, \<open>None\<close> then being that too.  That a join
    ends is part of what is shown of it.

  \<^bold>\<open>Limits that are stated as hypotheses.\<close>  Printed FIX messages have at most 44 fields and 1280 bytes of body; parsed ones at most 48 fields, and the code overruns its array with more.
  Templates of FIX messages have room for six digits of the number.  The roundtrips of FAST messages are about integer fields, at most 55 of them in a
  message between two programs, without a preamble; strings and single values of the other types are treated one at a time.  Fields with a length on
  the wire are left out of type safety, as that length is not checked.  Prices of books are below \<open>2 ^ 32\<close>, as the tree compares only 32 bits.

  \<^bold>\<open>Not modelled.\<close>  Releasing memory, in all components; the printers of floating-point numbers, which are arguments where they are used; copying
  of FAST messages; the tables of fields that the exchanges add to FIX (the dialect files), which are an argument of the parser; byte order and basic
  types, which are the words themselves; printing an error and leaving, tracing, and the replacement of a missing system call; the programs around the library, which
  have command lines, sockets, scripts and printing (FIX and FAST clients, servers, tests and benchmarks, the viewer of order books, a certification, the tape tool, the random
  trader of the simulator, and its \<open>main\<close>), and libtrading-config.  Nothing is said about speed, concurrency of threads, which the code does not have, or signals.
\<close>

end
